(* ===== verification/Chat_Prelude.thy ===== *)
theory Chat_Prelude
  imports Main "HOL-Library.Word"
begin

text \<open>
  Shared vocabulary of the development: the types that stand for the C types of the sources,
  bounded access to byte arrays, cyclic reads of a circular array, and generic list lemmas
  that the component theories use. Nothing here models a particular source file.

  Conventions. A pointer that the code tests against \<open>NULL\<close> is an \<open>option\<close>; a C string is a
  \<open>string\<close> whose characters are the bytes before the terminator; \<open>size_t\<close> values that index
  or measure an allocated object are \<open>nat\<close> (an object is smaller than \<open>2^63\<close> bytes, so these
  sums cannot wrap) and \<open>size_t\<close> values that the code may drive past that bound are \<open>64 word\<close>.
  A result \<open>None\<close> of an operation typed as partial means that the C code would access memory
  out of bounds, dereference \<open>NULL\<close>, divide by zero or loop for ever.
\<close>

unbundle bit_operations_syntax

type_synonym byte = "8 word"
type_synonym size_t = "64 word"

text \<open>Facts that rewrite an operation to its effect on the abstract value of a component.\<close>
named_theorems abs_simps
text \<open>Facts that an operation keeps a component's representation invariant.\<close>
named_theorems inv_intros

section \<open>Bounded array access\<close>

text \<open>\<open>memcpy(dst + off, xs, length xs)\<close>: undefined when it leaves the array.\<close>

definition mem_write :: "'a list \<Rightarrow> nat \<Rightarrow> 'a list \<Rightarrow> 'a list option" where
  "mem_write dst off xs =
     (if off + length xs \<le> length dst
      then Some (take off dst @ xs @ drop (off + length xs) dst) else None)"

text \<open>\<open>memcpy(dst, src + off, n)\<close>: undefined when the source range leaves the array.\<close>

definition mem_read :: "'a list \<Rightarrow> nat \<Rightarrow> nat \<Rightarrow> 'a list option" where
  "mem_read src off n = (if off + n \<le> length src then Some (take n (drop off src)) else None)"

lemma mem_write_Some [simp]:
  "off + length xs \<le> length dst \<Longrightarrow>
     mem_write dst off xs = Some (take off dst @ xs @ drop (off + length xs) dst)"
  by (simp add: mem_write_def)

lemma mem_read_Some [simp]:
  "off + n \<le> length src \<Longrightarrow> mem_read src off n = Some (take n (drop off src))"
  by (simp add: mem_read_def)

lemma nth_splice:
  assumes "off + length xs \<le> length dst" and "i < length dst"
  shows "(take off dst @ xs @ drop (off + length xs) dst) ! i =
           (if off \<le> i \<and> i < off + length xs then xs ! (i - off) else dst ! i)"
  using assms by (auto simp: nth_append min_def)

section \<open>Cyclic reads\<close>

text \<open>The \<open>n\<close> elements of a circular array that start at index \<open>t\<close>.\<close>

definition cyc :: "'a list \<Rightarrow> nat \<Rightarrow> nat \<Rightarrow> 'a list" where
  "cyc buf t n = map (\<lambda>i. buf ! ((t + i) mod length buf)) [0..<n]"

lemma length_cyc [simp]: "length (cyc buf t n) = n"
  by (simp add: cyc_def)

lemma nth_cyc [simp]: "i < n \<Longrightarrow> cyc buf t n ! i = buf ! ((t + i) mod length buf)"
  by (simp add: cyc_def)

lemma cyc_0 [simp]: "cyc buf t 0 = []"
  by (simp add: cyc_def)

lemma cyc_eq_Nil [simp]: "cyc buf t n = [] \<longleftrightarrow> n = 0"
  by (simp add: cyc_def)

lemma cyc_add: "cyc buf t (a + b) = cyc buf t a @ cyc buf ((t + a) mod length buf) b"
proof (rule nth_equalityI)
  show "length (cyc buf t (a + b)) = length (cyc buf t a @ cyc buf ((t + a) mod length buf) b)"
    by simp
next
  fix i assume i: "i < length (cyc buf t (a + b))"
  show "cyc buf t (a + b) ! i = (cyc buf t a @ cyc buf ((t + a) mod length buf) b) ! i"
  proof (cases "i < a")
    case True
    then show ?thesis by (simp add: nth_append)
  next
    case False
    then have "t + i = t + a + (i - a)" by simp
    then have "(t + i) mod length buf = ((t + a) mod length buf + (i - a)) mod length buf"
      by (metis mod_add_left_eq)
    with i False show ?thesis by (simp add: nth_append)
  qed
qed

lemma cyc_contiguous: "t + n \<le> length buf \<Longrightarrow> cyc buf t n = take n (drop t buf)"
  by (rule nth_equalityI) auto

text \<open>Two positions less than a turn apart are different cells.\<close>

lemma mod_window: "j < n \<Longrightarrow> n < j + k \<Longrightarrow> j mod k \<noteq> n mod (k :: nat)"
proof
  assume lt: "j < n" "n < j + k" and "j mod k = n mod k"
  then have "k dvd n - j" using mod_eq_dvd_iff_nat [of j n k] by auto
  moreover have "0 < n - j" "n - j < k" using lt by auto
  ultimately show False using nat_dvd_not_less by blast
qed

section \<open>Suffixes\<close>

text \<open>The last \<open>c\<close> elements, what a circular buffer of capacity \<open>c\<close> can keep.\<close>

definition last_n :: "nat \<Rightarrow> 'a list \<Rightarrow> 'a list" where
  "last_n c xs = drop (length xs - c) xs"

lemma length_last_n [simp]: "length (last_n c xs) = min c (length xs)"
  by (auto simp: last_n_def)

lemma last_n_id [simp]: "length xs \<le> c \<Longrightarrow> last_n c xs = xs"
  by (simp add: last_n_def)

lemma last_n_append_last_n: "last_n c (last_n c xs @ ys) = last_n c (xs @ ys)"
proof (cases "length xs \<le> c")
  case True
  then show ?thesis by simp
next
  case False
  then have "length xs - c + (length xs + length ys - c - (length xs - c)) =
      length xs + length ys - c"
    by simp
  with False show ?thesis by (simp add: last_n_def add.commute)
qed

section \<open>Linear search\<close>

text \<open>The index of the first element that satisfies a condition: the result of the search
  loops \<open>for (i = 0; i < n; i++) if (p(xs[i])) return i\<close>.\<close>

fun first_index :: "('a \<Rightarrow> bool) \<Rightarrow> 'a list \<Rightarrow> nat option" where
  "first_index P [] = None"
| "first_index P (x # xs) = (if P x then Some 0 else map_option Suc (first_index P xs))"

lemma first_index_None: "first_index P xs = None \<longleftrightarrow> (\<forall>x \<in> set xs. \<not> P x)"
  by (induction xs) auto

lemma first_index_Some:
  "first_index P xs = Some i \<Longrightarrow> i < length xs \<and> P (xs ! i) \<and> (\<forall>j < i. \<not> P (xs ! j))"
proof (induction xs arbitrary: i)
  case Nil
  then show ?case by simp
next
  case (Cons x xs)
  show ?case
  proof (cases "P x")
    case True
    with Cons.prems show ?thesis by auto
  next
    case False
    with Cons.prems obtain k where k: "i = Suc k" "first_index P xs = Some k" by auto
    from Cons.IH [OF k(2)] False k(1) show ?thesis by (auto simp: less_Suc_eq_0_disj)
  qed
qed

section \<open>Machine words\<close>

lemma unat_lt_32: "unat (w :: 32 word) < 2 ^ 32"
  using unsigned_less [of w, where 'a = nat] by simp

lemma unat_lt_8: "unat (w :: byte) < 256"
  using unsigned_less [of w, where 'a = nat] by simp

lemma unat_ucast_32_64 [simp]: "unat (ucast (w :: 32 word) :: 64 word) = unat w"
  using unat_lt_32 [of w] by (simp add: unsigned_ucast_eq take_bit_word_eq_self take_bit_nat_eq_self)

lemma unat_of_nat_64: "n < 2 ^ 64 \<Longrightarrow> unat (of_nat n :: 64 word) = n"
  by (simp add: unat_of_nat take_bit_nat_eq_self)

lemma unat_of_nat_32: "n < 2 ^ 32 \<Longrightarrow> unat (of_nat n :: 32 word) = n"
  by (simp add: unat_of_nat take_bit_nat_eq_self)

lemma unat_add_32: "unat (a :: 32 word) + unat b < 2 ^ 32 \<Longrightarrow> unat (a + b) = unat a + unat b"
  by (subst unat_add_lem [THEN iffD1]) auto

lemma unat_add_64: "unat (a :: 64 word) + unat b < 2 ^ 64 \<Longrightarrow> unat (a + b) = unat a + unat b"
  by (subst unat_add_lem [THEN iffD1]) auto

section \<open>Outcomes of operations under a mutex\<close>

text \<open>An operation may end, lock a default mutex that its thread already holds, or leave the defined behaviour
  of C.\<close>

datatype 'a outcome = Done 'a | Deadlock | Undefined_Behaviour

fun obind :: "'a outcome \<Rightarrow> ('a \<Rightarrow> 'b outcome) \<Rightarrow> 'b outcome" where
  "obind (Done x) f = f x"
| "obind Deadlock f = Deadlock"
| "obind Undefined_Behaviour f = Undefined_Behaviour"

lemma obind_Done: "obind r f = Done y \<longleftrightarrow> (\<exists>x. r = Done x \<and> f x = Done y)"
  by (cases r) auto

end
