(* ===== verification/Fifo.thy ===== *)
theory Fifo
  imports Chat_Prelude
begin

text \<open>
  The interface that the byte ring buffer (\<open>utils.c\<close>) and the message queue (\<open>connection.c\<close>)
  promise to their clients: a bounded first-in first-out store. \<open>wr q xs\<close> offers elements and
  returns how many of them were accepted, \<open>rd q n\<close> removes up to \<open>n\<close> elements. The laws are
  stated over an abstraction function \<open>contents\<close>; the lemma proved from them says that over
  any sequence of calls nothing is lost, invented, duplicated or reordered.
\<close>

datatype 'a fifo_op = Offer "'a list" | Take nat

text \<open>A client session: the accepted input and the delivered output are recorded.\<close>

fun fifo_run :: "('q \<Rightarrow> 'a list \<Rightarrow> ('q \<times> nat) option) \<Rightarrow> ('q \<Rightarrow> nat \<Rightarrow> ('q \<times> 'a list) option) \<Rightarrow>
    'q \<Rightarrow> 'a fifo_op list \<Rightarrow> ('q \<times> 'a list \<times> 'a list) option" where
  "fifo_run wr rd q [] = Some (q, [], [])"
| "fifo_run wr rd q (Offer xs # ops) =
     (case wr q xs of None \<Rightarrow> None
      | Some (q', n) \<Rightarrow>
          map_option (\<lambda>(r, ins, outs). (r, take n xs @ ins, outs)) (fifo_run wr rd q' ops))"
| "fifo_run wr rd q (Take n # ops) =
     (case rd q n of None \<Rightarrow> None
      | Some (q', ys) \<Rightarrow>
          map_option (\<lambda>(r, ins, outs). (r, ins, ys @ outs)) (fifo_run wr rd q' ops))"

locale bounded_fifo =
  fixes invar :: "'q \<Rightarrow> bool"
    and contents :: "'q \<Rightarrow> 'a list"
    and cap :: "'q \<Rightarrow> nat"
    and wr :: "'q \<Rightarrow> 'a list \<Rightarrow> ('q \<times> nat) option"
    and rd :: "'q \<Rightarrow> nat \<Rightarrow> ('q \<times> 'a list) option"
  assumes wr_law: "invar q \<Longrightarrow> \<exists>q' n. wr q xs = Some (q', n) \<and> invar q' \<and> cap q' = cap q \<and>
      n = min (length xs) (cap q - length (contents q)) \<and> contents q' = contents q @ take n xs"
    and rd_law: "invar q \<Longrightarrow> \<exists>q'. rd q n = Some (q', take n (contents q)) \<and> invar q' \<and>
      cap q' = cap q \<and> contents q' = drop n (contents q)"
    and bound: "invar q \<Longrightarrow> length (contents q) \<le> cap q"
begin

lemma run_total:
  "invar q \<Longrightarrow> \<exists>q' ins outs. fifo_run wr rd q ops = Some (q', ins, outs) \<and> invar q' \<and>
     cap q' = cap q \<and> contents q @ ins = outs @ contents q'"
proof (induction ops arbitrary: q)
  case Nil
  then show ?case by simp
next
  case (Cons op ops)
  show ?case
  proof (cases op)
    case (Offer xs)
    obtain q1 n where q1: "wr q xs = Some (q1, n)" "invar q1" "cap q1 = cap q"
      "contents q1 = contents q @ take n xs"
      using wr_law [OF Cons.prems] by blast
    obtain q' ins outs where "fifo_run wr rd q1 ops = Some (q', ins, outs)" "invar q'"
      "cap q' = cap q1" "contents q1 @ ins = outs @ contents q'"
      using Cons.IH [OF q1(2)] by blast
    with q1 Offer show ?thesis by simp
  next
    case (Take n)
    obtain q1 where q1: "rd q n = Some (q1, take n (contents q))" "invar q1" "cap q1 = cap q"
      "contents q1 = drop n (contents q)"
      using rd_law [OF Cons.prems] by blast
    obtain q' ins outs where r: "fifo_run wr rd q1 ops = Some (q', ins, outs)" "invar q'"
      "cap q' = cap q1" "contents q1 @ ins = outs @ contents q'"
      using Cons.IH [OF q1(2)] by blast
    from r(4) q1(4) have "contents q @ ins = (take n (contents q) @ outs) @ contents q'"
      by (metis append.assoc append_take_drop_id)
    with q1 r Take show ?thesis by simp
  qed
qed

lemma run_bounded:
  "invar q \<Longrightarrow> fifo_run wr rd q ops = Some (q', ins, outs) \<Longrightarrow> length (contents q') \<le> cap q"
  using run_total [of q ops] bound [of q'] by auto

lemma run_prefix:
  "invar q \<Longrightarrow> contents q = [] \<Longrightarrow> fifo_run wr rd q ops = Some (q', ins, outs) \<Longrightarrow>
     ins = outs @ contents q'"
  using run_total [of q ops] by auto

end

end
