(* ===== verification/Ring_Buffer.thy ===== *)
theory Ring_Buffer
  imports Fifo
begin

text \<open>
  The byte ring buffer of \<open>server/src/utils.c\<close> (\<open>ring_buffer_create\<close> to \<open>ring_buffer_clear\<close>).
  The record has the fields of \<open>ring_buffer_t\<close>; the two copy loops are kept as loops over
  contiguous chunks. The abstraction \<open>rb_contents\<close> is the list of stored bytes, oldest first.
\<close>

record ring_buffer =
  rb_buffer :: "byte list"
  rb_capacity :: nat
  rb_head :: nat
  rb_tail :: nat
  rb_size :: nat
  rb_overwrite :: bool

text \<open>The two booleans are the outcomes of the two allocations; \<open>garbage\<close> is the
  uninitialised content of the fresh byte array. \<open>utils_malloc(0)\<close> returns \<open>NULL\<close>.\<close>

definition ring_buffer_create ::
    "bool \<Rightarrow> bool \<Rightarrow> (nat \<Rightarrow> byte) \<Rightarrow> nat \<Rightarrow> bool \<Rightarrow> ring_buffer option" where
  "ring_buffer_create ok_rb ok_data garbage capacity overwrite =
     (if \<not> ok_rb then None
      else if capacity = 0 \<or> \<not> ok_data then None
      else Some \<lparr>rb_buffer = map garbage [0..<capacity], rb_capacity = capacity, rb_head = 0,
                 rb_tail = 0, rb_size = 0, rb_overwrite = overwrite\<rparr>)"

text \<open>One pass of the \<open>while\<close> loop of \<open>ring_buffer_write\<close> with chunk \<open>xs\<close>.\<close>

definition rb_put_chunk :: "ring_buffer \<Rightarrow> byte list \<Rightarrow> ring_buffer option" where
  "rb_put_chunk rb xs =
     (case mem_write (rb_buffer rb) (rb_head rb) xs of None \<Rightarrow> None
      | Some buf \<Rightarrow>
          let rb1 = rb\<lparr>rb_buffer := buf, rb_head := (rb_head rb + length xs) mod rb_capacity rb\<rparr>
          in Some (if rb_size rb + length xs > rb_capacity rb
                   then rb1\<lparr>rb_tail := (rb_tail rb + (rb_size rb + length xs - rb_capacity rb))
                                         mod rb_capacity rb,
                            rb_size := rb_capacity rb\<rparr>
                   else rb1\<lparr>rb_size := rb_size rb + length xs\<rparr>))"

partial_function (option) rb_write_loop ::
    "ring_buffer \<Rightarrow> byte list \<Rightarrow> nat \<Rightarrow> nat \<Rightarrow> (ring_buffer \<times> nat) option" where
  "rb_write_loop rb src sz written =
     (if written < sz then
        let space_to_end = rb_capacity rb - rb_head rb;
            write_size = (if sz - written < space_to_end then sz - written else space_to_end)
        in Option.bind (mem_read src written write_size) (\<lambda>xs.
           Option.bind (rb_put_chunk rb xs) (\<lambda>rb'.
             rb_write_loop rb' src sz (written + write_size)))
      else Some (rb, written))"

definition ring_buffer_write ::
    "ring_buffer option \<Rightarrow> byte list option \<Rightarrow> nat \<Rightarrow> (ring_buffer option \<times> nat) option" where
  "ring_buffer_write rbo data sz =
     (case (rbo, data) of
        (Some rb, Some src) \<Rightarrow>
          if sz = 0 then Some (rbo, 0)
          else let free_space = rb_capacity rb - rb_size rb;
                   sz' = (if \<not> rb_overwrite rb \<and> sz > free_space then free_space else sz)
               in map_option (\<lambda>(rb', n). (Some rb', n)) (rb_write_loop rb src sz' 0)
      | _ \<Rightarrow> Some (rbo, 0))"

text \<open>The loop shared by \<open>ring_buffer_read\<close> and \<open>ring_buffer_peek\<close>: \<open>out\<close> is the
  destination filled so far, so \<open>bytes_read\<close> is its length.\<close>

partial_function (option) rb_copy_loop ::
    "ring_buffer \<Rightarrow> nat \<Rightarrow> nat \<Rightarrow> byte list \<Rightarrow> (nat \<times> byte list) option" where
  "rb_copy_loop rb t sz out =
     (if length out < sz then
        let space_to_end = (if rb_head rb > t then rb_head rb - t else rb_capacity rb - t);
            read_size = (if sz - length out < space_to_end then sz - length out else space_to_end)
        in Option.bind (mem_read (rb_buffer rb) t read_size) (\<lambda>xs.
             rb_copy_loop rb ((t + read_size) mod rb_capacity rb) sz (out @ xs))
      else Some (t, out))"

definition ring_buffer_read ::
    "ring_buffer option \<Rightarrow> nat \<Rightarrow> (ring_buffer option \<times> byte list) option" where
  "ring_buffer_read rbo sz =
     (case rbo of None \<Rightarrow> Some (None, [])
      | Some rb \<Rightarrow>
          if sz = 0 then Some (rbo, [])
          else let sz' = (if sz > rb_size rb then rb_size rb else sz)
               in map_option (\<lambda>(t, out).
                    (Some (rb\<lparr>rb_tail := t, rb_size := rb_size rb - length out\<rparr>), out))
                  (rb_copy_loop rb (rb_tail rb) sz' []))"

definition ring_buffer_peek :: "ring_buffer option \<Rightarrow> nat \<Rightarrow> byte list option" where
  "ring_buffer_peek rbo sz =
     (case rbo of None \<Rightarrow> Some []
      | Some rb \<Rightarrow>
          if sz = 0 then Some []
          else let sz' = (if sz > rb_size rb then rb_size rb else sz)
               in map_option snd (rb_copy_loop rb (rb_tail rb) sz' []))"

definition ring_buffer_available :: "ring_buffer option \<Rightarrow> nat" where
  "ring_buffer_available rbo = (case rbo of None \<Rightarrow> 0 | Some rb \<Rightarrow> rb_size rb)"

definition ring_buffer_free_space :: "ring_buffer option \<Rightarrow> nat" where
  "ring_buffer_free_space rbo = (case rbo of None \<Rightarrow> 0 | Some rb \<Rightarrow> rb_capacity rb - rb_size rb)"

definition ring_buffer_empty :: "ring_buffer option \<Rightarrow> bool" where
  "ring_buffer_empty rbo = (case rbo of None \<Rightarrow> True | Some rb \<Rightarrow> rb_size rb = 0)"

definition ring_buffer_full :: "ring_buffer option \<Rightarrow> bool" where
  "ring_buffer_full rbo = (case rbo of None \<Rightarrow> False | Some rb \<Rightarrow> rb_size rb = rb_capacity rb)"

definition ring_buffer_clear :: "ring_buffer option \<Rightarrow> ring_buffer option" where
  "ring_buffer_clear rbo = map_option (\<lambda>rb. rb\<lparr>rb_head := 0, rb_tail := 0, rb_size := 0\<rparr>) rbo"

section \<open>Representation invariant and abstraction\<close>

definition rb_inv :: "ring_buffer \<Rightarrow> bool" where
  "rb_inv rb \<longleftrightarrow> 0 < rb_capacity rb \<and> length (rb_buffer rb) = rb_capacity rb \<and>
     rb_tail rb < rb_capacity rb \<and> rb_size rb \<le> rb_capacity rb \<and>
     rb_head rb = (rb_tail rb + rb_size rb) mod rb_capacity rb"

definition rb_contents :: "ring_buffer \<Rightarrow> byte list" where
  "rb_contents rb = cyc (rb_buffer rb) (rb_tail rb) (rb_size rb)"

lemma length_rb_contents [simp]: "length (rb_contents rb) = rb_size rb"
  by (simp add: rb_contents_def)

lemma rb_inv_head: "rb_inv rb \<Longrightarrow> rb_head rb < rb_capacity rb"
  by (simp add: rb_inv_def)

lemma ring_buffer_create_inv [inv_intros]:
  "ring_buffer_create ok1 ok2 g c ov = Some rb \<Longrightarrow>
     rb_inv rb \<and> rb_contents rb = [] \<and> rb_capacity rb = c \<and> rb_overwrite rb = ov"
  by (auto simp: ring_buffer_create_def rb_inv_def rb_contents_def split: if_splits)

section \<open>Writing\<close>

text \<open>An old byte that survives a chunk of \<open>w\<close> bytes lies outside the written range.\<close>

lemma survivor_not_overwritten:
  fixes t s w c h j :: nat
  assumes "h = (t + s) mod c" and "h + w \<le> c" and "j < s" and "s + w - c \<le> j" and "s \<le> c"
  shows "\<not> (h \<le> (t + j) mod c \<and> (t + j) mod c < h + w)"
proof
  assume a: "h \<le> (t + j) mod c \<and> (t + j) mod c < h + w"
  define m where "m = (t + j) mod c - h"
  have m: "(t + j) mod c = h + m" "m < w" using a by (auto simp: m_def)
  have "(t + j) mod c = (t + (s + m)) mod c"
  proof -
    have "(t + (s + m)) mod c = ((t + s) mod c + m) mod c" by (simp add: add.assoc mod_add_left_eq)
    also have "\<dots> = h + m" using assms(1,2) m(2) by simp
    finally show ?thesis using m(1) by simp
  qed
  then have "c dvd (t + (s + m)) - (t + j)"
    by (metis mod_eq_dvd_iff_nat assms(3) add_le_mono le_add1 less_imp_le_nat order_refl
        trans_le_add1)
  then have "c dvd s + m - j" by simp
  moreover have "0 < s + m - j" "s + m - j < c" using assms(3-5) m(2) by linarith+
  ultimately show False by (simp add: nat_dvd_not_less)
qed

lemma rb_put_chunk:
  assumes inv: "rb_inv rb" and fits: "rb_head rb + length xs \<le> rb_capacity rb"
  shows "\<exists>rb'. rb_put_chunk rb xs = Some rb' \<and> rb_inv rb' \<and>
           rb_capacity rb' = rb_capacity rb \<and> rb_overwrite rb' = rb_overwrite rb \<and>
           rb_contents rb' = last_n (rb_capacity rb) (rb_contents rb @ xs)"
proof -
  let ?c = "rb_capacity rb" and ?h = "rb_head rb" and ?t = "rb_tail rb" and ?s = "rb_size rb"
  let ?w = "length xs" and ?k = "?s + length xs - ?c"
  define buf where "buf = take ?h (rb_buffer rb) @ xs @ drop (?h + ?w) (rb_buffer rb)"
  define rb' where "rb' = rb\<lparr>rb_buffer := buf, rb_head := (?h + ?w) mod ?c,
    rb_tail := (?t + ?k) mod ?c, rb_size := min ?c (?s + ?w)\<rparr>"
  have i: "0 < ?c" "length (rb_buffer rb) = ?c" "?t < ?c" "?s \<le> ?c" "?h = (?t + ?s) mod ?c"
    using inv by (auto simp: rb_inv_def)
  have len: "length buf = ?c" using fits i(2) by (simp add: buf_def)
  have put: "rb_put_chunk rb xs = Some rb'"
    using fits i by (simp add: rb_put_chunk_def rb'_def buf_def Let_def)
  have "(?h + ?w) mod ?c = (?t + (?s + ?w)) mod ?c"
    using i(5) by (simp add: add.assoc mod_add_left_eq)
  also have "\<dots> = (?t + ?k + min ?c (?s + ?w)) mod ?c"
    by (cases "?s + ?w \<le> ?c") (simp_all add: min_def)
  finally have inv': "rb_inv rb'"
    using i len by (simp add: rb'_def rb_inv_def mod_add_left_eq)
  have cont: "rb_contents rb' = last_n ?c (rb_contents rb @ xs)"
  proof (rule nth_equalityI)
    show "length (rb_contents rb') = length (last_n ?c (rb_contents rb @ xs))"
      by (simp add: rb'_def)
  next
    fix n assume n: "n < length (rb_contents rb')"
    then have n': "n < min ?c (?s + ?w)" by (simp add: rb'_def)
    let ?j = "?k + n" and ?p = "(?t + (?k + n)) mod ?c"
    have p: "rb_contents rb' ! n = buf ! ?p"
      using n' len by (simp add: rb_contents_def rb'_def mod_add_left_eq add.assoc)
    have q: "last_n ?c (rb_contents rb @ xs) ! n = (rb_contents rb @ xs) ! ?j"
      using n' by (simp add: last_n_def add.commute del: drop_append)
    have splice: "buf ! ?p = (if ?h \<le> ?p \<and> ?p < ?h + ?w then xs ! (?p - ?h) else rb_buffer rb ! ?p)"
      unfolding buf_def using fits i by (intro nth_splice) auto
    show "rb_contents rb' ! n = last_n ?c (rb_contents rb @ xs) ! n"
    proof (cases "?j < ?s")
      case True
      with survivor_not_overwritten [OF i(5) fits True] i(4)
      have "buf ! ?p = rb_buffer rb ! ?p" unfolding splice by auto
      moreover have "(rb_contents rb @ xs) ! ?j = rb_buffer rb ! ?p"
        using True i(2) by (simp add: nth_append rb_contents_def)
      ultimately show ?thesis unfolding p q by simp
    next
      case False
      define m where "m = ?j - ?s"
      have m: "?j = ?s + m" "m < ?w" using False n' by (auto simp: m_def)
      have "?p = ((?t + ?s) mod ?c + m) mod ?c"
        unfolding m(1) by (simp add: add.assoc mod_add_left_eq)
      then have "?p = ?h + m" using i(5) fits m(2) by simp
      with m show ?thesis unfolding p q splice by (simp add: nth_append)
    qed
  qed
  from put inv' cont show ?thesis by (simp add: rb'_def)
qed

lemma rb_write_loop:
  assumes "rb_inv rb" and "sz \<le> length src" and "written \<le> sz"
  shows "\<exists>rb'. rb_write_loop rb src sz written = Some (rb', sz) \<and> rb_inv rb' \<and>
           rb_capacity rb' = rb_capacity rb \<and> rb_overwrite rb' = rb_overwrite rb \<and>
           rb_contents rb' =
             last_n (rb_capacity rb) (rb_contents rb @ take (sz - written) (drop written src))"
  using assms
proof (induction "sz - written" arbitrary: rb written rule: less_induct)
  case less
  show ?case
  proof (cases "written < sz")
    case False
    with less.prems show ?thesis
      by (simp add: rb_write_loop.simps rb_inv_def)
  next
    case True
    let ?c = "rb_capacity rb"
    define w where "w = (if sz - written < ?c - rb_head rb then sz - written else ?c - rb_head rb)"
    define xs where "xs = take w (drop written src)"
    have h: "rb_head rb < ?c" using less.prems(1) by (rule rb_inv_head)
    have w: "0 < w" "w \<le> sz - written" "rb_head rb + w \<le> ?c" using True h by (auto simp: w_def)
    have xs: "length xs = w" "mem_read src written w = Some xs"
      using w(2) less.prems(2) True by (simp_all add: xs_def)
    obtain rb1 where rb1: "rb_put_chunk rb xs = Some rb1" "rb_inv rb1" "rb_capacity rb1 = ?c"
      "rb_overwrite rb1 = rb_overwrite rb" "rb_contents rb1 = last_n ?c (rb_contents rb @ xs)"
      using rb_put_chunk [OF less.prems(1), of xs] w(3) xs(1) by auto
    have step: "rb_write_loop rb src sz written = rb_write_loop rb1 src sz (written + w)"
      using True xs(2) rb1(1)
      by (simp add: rb_write_loop.simps [of rb] w_def [symmetric] Let_def)
    obtain rb2 where rb2: "rb_write_loop rb1 src sz (written + w) = Some (rb2, sz)" "rb_inv rb2"
      "rb_capacity rb2 = rb_capacity rb1" "rb_overwrite rb2 = rb_overwrite rb1"
      "rb_contents rb2 =
        last_n (rb_capacity rb1) (rb_contents rb1 @ take (sz - (written + w)) (drop (written + w) src))"
      using less.hyps [OF _ rb1(2) less.prems(2), of "written + w"] True w(1,2) by fastforce
    have "take (sz - written) (drop written src) =
        xs @ take (sz - (written + w)) (drop (written + w) src)"
    proof -
      have "sz - written = w + (sz - (written + w))" using w(2) by simp
      then show ?thesis unfolding xs_def by (metis take_add drop_drop add.commute)
    qed
    with rb1 rb2 step show ?thesis by (simp add: last_n_append_last_n)
  qed
qed

lemma ring_buffer_write_spec:
  assumes "rb_inv rb" and "length data = sz"
  shows "\<exists>rb'. ring_buffer_write (Some rb) (Some data) sz =
             Some (Some rb', if rb_overwrite rb then sz else min sz (rb_capacity rb - rb_size rb)) \<and>
           rb_inv rb' \<and> rb_capacity rb' = rb_capacity rb \<and> rb_overwrite rb' = rb_overwrite rb \<and>
           rb_contents rb' =
             (if rb_overwrite rb then last_n (rb_capacity rb) (rb_contents rb @ data)
              else rb_contents rb @ take (rb_capacity rb - rb_size rb) data)"
proof (cases "sz = 0")
  case True
  with assms show ?thesis
    by (simp add: ring_buffer_write_def rb_inv_def)
next
  case False
  define n where "n = (if rb_overwrite rb then sz else min sz (rb_capacity rb - rb_size rb))"
  have n: "n \<le> length data" using assms(2) by (simp add: n_def)
  obtain rb' where rb': "rb_write_loop rb data n 0 = Some (rb', n)" "rb_inv rb'"
    "rb_capacity rb' = rb_capacity rb" "rb_overwrite rb' = rb_overwrite rb"
    "rb_contents rb' = last_n (rb_capacity rb) (rb_contents rb @ take n data)"
    using rb_write_loop [OF assms(1) n le0] by auto
  have "ring_buffer_write (Some rb) (Some data) sz = Some (Some rb', n)"
    using False rb'(1)
    by (auto simp: ring_buffer_write_def Let_def min_def n_def split: if_splits)
  moreover have "rb_size rb \<le> rb_capacity rb" using assms(1) by (simp add: rb_inv_def)
  ultimately show ?thesis using rb' assms(2) by (auto simp: min_def n_def)
qed

section \<open>Reading\<close>

lemma rb_copy_loop:
  assumes "rb_inv rb" and "t < rb_capacity rb" and "length out \<le> sz"
  shows "rb_copy_loop rb t sz out =
           Some ((t + (sz - length out)) mod rb_capacity rb,
                 out @ cyc (rb_buffer rb) t (sz - length out))"
  using assms(2,3)
proof (induction "sz - length out" arbitrary: t out rule: less_induct)
  case less
  show ?case
  proof (cases "length out < sz")
    case False
    with less.prems show ?thesis by (simp add: rb_copy_loop.simps)
  next
    case True
    let ?c = "rb_capacity rb"
    define sp where "sp = (if rb_head rb > t then rb_head rb - t else ?c - t)"
    define r where "r = (if sz - length out < sp then sz - length out else sp)"
    have c: "length (rb_buffer rb) = ?c" "0 < ?c" using assms(1) by (auto simp: rb_inv_def)
    have "0 < sp" "t + sp \<le> ?c" using less.prems(1) rb_inv_head [OF assms(1)] by (auto simp: sp_def)
    then have r: "0 < r" "r \<le> sz - length out" "t + r \<le> ?c" using True by (auto simp: r_def)
    define xs where "xs = take r (drop t (rb_buffer rb))"
    have xs: "length xs = r" "xs = cyc (rb_buffer rb) t r"
      using r(3) c(1) by (simp_all add: xs_def cyc_contiguous)
    have "rb_copy_loop rb t sz out = rb_copy_loop rb ((t + r) mod ?c) sz (out @ xs)"
      using True r(3) c(1)
      by (simp add: rb_copy_loop.simps [of rb t] sp_def [symmetric] r_def [symmetric] Let_def
          xs_def)
    also have "\<dots> = Some (((t + r) mod ?c + (sz - length (out @ xs))) mod ?c,
        (out @ xs) @ cyc (rb_buffer rb) ((t + r) mod ?c) (sz - length (out @ xs)))"
      using less.hyps [of "out @ xs" "(t + r) mod ?c"] True r(1,2) xs(1) c(2) by simp
    also have "\<dots> = Some ((t + (sz - length out)) mod ?c, out @ cyc (rb_buffer rb) t (sz - length out))"
    proof -
      have "sz - length out = r + (sz - length (out @ xs))" using r(2) xs(1) by simp
      then show ?thesis
        using c(1) cyc_add [of "rb_buffer rb" t r "sz - length (out @ xs)"] xs(2)
        by (simp add: mod_add_left_eq add.assoc del: length_append)
    qed
    finally show ?thesis .
  qed
qed

lemma rb_drop_front:
  assumes "rb_inv rb" and "n \<le> rb_size rb"
  shows "rb_inv (rb\<lparr>rb_tail := (rb_tail rb + n) mod rb_capacity rb, rb_size := rb_size rb - n\<rparr>) \<and>
         rb_contents (rb\<lparr>rb_tail := (rb_tail rb + n) mod rb_capacity rb, rb_size := rb_size rb - n\<rparr>) =
           drop n (rb_contents rb)"
proof -
  have "rb_size rb = n + (rb_size rb - n)" using assms(2) by simp
  then have "(rb_tail rb + rb_size rb) mod rb_capacity rb =
      ((rb_tail rb + n) mod rb_capacity rb + (rb_size rb - n)) mod rb_capacity rb"
    by (metis add.assoc mod_add_left_eq)
  with assms cyc_add [of "rb_buffer rb" "rb_tail rb" n "rb_size rb - n"] show ?thesis
    by (auto simp: rb_inv_def rb_contents_def)
qed

lemma take_rb_contents:
  "n \<le> rb_size rb \<Longrightarrow> take n (rb_contents rb) = cyc (rb_buffer rb) (rb_tail rb) n"
  using cyc_add [of "rb_buffer rb" "rb_tail rb" n "rb_size rb - n"] by (simp add: rb_contents_def)

lemma ring_buffer_read_spec:
  assumes "rb_inv rb"
  shows "\<exists>rb'. ring_buffer_read (Some rb) sz = Some (Some rb', take sz (rb_contents rb)) \<and>
           rb_inv rb' \<and> rb_capacity rb' = rb_capacity rb \<and> rb_overwrite rb' = rb_overwrite rb \<and>
           rb_contents rb' = drop sz (rb_contents rb)"
proof (cases "sz = 0")
  case True
  with assms show ?thesis by (simp add: ring_buffer_read_def)
next
  case False
  let ?n = "min sz (rb_size rb)"
  let ?rb = "rb\<lparr>rb_tail := (rb_tail rb + ?n) mod rb_capacity rb, rb_size := rb_size rb - ?n\<rparr>"
  have t: "rb_tail rb < rb_capacity rb" using assms by (simp add: rb_inv_def)
  have loop: "rb_copy_loop rb (rb_tail rb) ?n [] =
      Some ((rb_tail rb + ?n) mod rb_capacity rb, take ?n (rb_contents rb))"
    using rb_copy_loop [OF assms t, of "[]" ?n] by (simp add: take_rb_contents)
  have m: "(if rb_size rb < sz then rb_size rb else sz) = ?n" by (simp add: min_def)
  have "ring_buffer_read (Some rb) sz = Some (Some ?rb, take sz (rb_contents rb))"
    using False loop by (auto simp: ring_buffer_read_def Let_def m min_def)
  with rb_drop_front [OF assms, of ?n] show ?thesis by (auto simp: min_def)
qed

lemma ring_buffer_peek_spec:
  assumes "rb_inv rb"
  shows "ring_buffer_peek (Some rb) sz = Some (take sz (rb_contents rb))"
proof -
  have t: "rb_tail rb < rb_capacity rb" using assms by (simp add: rb_inv_def)
  have "rb_copy_loop rb (rb_tail rb) (min sz (rb_size rb)) [] =
      Some ((rb_tail rb + min sz (rb_size rb)) mod rb_capacity rb, take sz (rb_contents rb))"
    using rb_copy_loop [OF assms t, of "[]" "min sz (rb_size rb)"]
      take_rb_contents [of "min sz (rb_size rb)" rb] by (auto simp: min_def)
  then show ?thesis by (auto simp: ring_buffer_peek_def Let_def min_def split: if_splits)
qed

lemma ring_buffer_clear_spec [inv_intros]:
  "rb_inv rb \<Longrightarrow> \<exists>rb'. ring_buffer_clear (Some rb) = Some rb' \<and> rb_inv rb' \<and> rb_contents rb' = [] \<and>
     rb_capacity rb' = rb_capacity rb"
  by (simp add: ring_buffer_clear_def rb_inv_def rb_contents_def)

section \<open>The ring buffer without overwriting is a bounded FIFO\<close>

definition rb_offer :: "ring_buffer \<Rightarrow> byte list \<Rightarrow> (ring_buffer \<times> nat) option" where
  "rb_offer rb xs =
     (case ring_buffer_write (Some rb) (Some xs) (length xs) of
        Some (Some rb', n) \<Rightarrow> Some (rb', n) | _ \<Rightarrow> None)"

definition rb_take :: "ring_buffer \<Rightarrow> nat \<Rightarrow> (ring_buffer \<times> byte list) option" where
  "rb_take rb n =
     (case ring_buffer_read (Some rb) n of Some (Some rb', xs) \<Rightarrow> Some (rb', xs) | _ \<Rightarrow> None)"

interpretation rbq: bounded_fifo "\<lambda>rb. rb_inv rb \<and> \<not> rb_overwrite rb" rb_contents rb_capacity
  rb_offer rb_take
proof
  fix rb :: ring_buffer and xs :: "byte list" and n :: nat
  assume inv: "rb_inv rb \<and> \<not> rb_overwrite rb"
  show "\<exists>q' n. rb_offer rb xs = Some (q', n) \<and> (rb_inv q' \<and> \<not> rb_overwrite q') \<and>
      rb_capacity q' = rb_capacity rb \<and>
      n = min (length xs) (rb_capacity rb - length (rb_contents rb)) \<and>
      rb_contents q' = rb_contents rb @ take n xs"
    using inv ring_buffer_write_spec [of rb xs "length xs"] by (auto simp: rb_offer_def min_def)
  show "\<exists>q'. rb_take rb n = Some (q', take n (rb_contents rb)) \<and>
      (rb_inv q' \<and> \<not> rb_overwrite q') \<and> rb_capacity q' = rb_capacity rb \<and>
      rb_contents q' = drop n (rb_contents rb)"
    using inv ring_buffer_read_spec [of rb n] by (auto simp: rb_take_def)
  show "length (rb_contents rb) \<le> rb_capacity rb" using inv by (simp add: rb_inv_def)
qed

section \<open>Properties\<close>

text \<open>
  (C1) A ring buffer created without overwriting is a bounded first-in first-out channel: any
  sequence of writes and reads returns, stays inside the byte array, never stores more than the
  capacity, and the bytes accepted by the writes are exactly the bytes delivered by the reads
  followed by the bytes still stored, in order.
\<close>

theorem ring_buffer_fifo:
  assumes "ring_buffer_create ok1 ok2 garbage c False = Some rb"
  shows "\<exists>rb' ins outs. fifo_run rb_offer rb_take rb ops = Some (rb', ins, outs) \<and>
           ins = outs @ rb_contents rb' \<and> length (rb_contents rb') \<le> c"
proof -
  have inv: "rb_inv rb \<and> \<not> rb_overwrite rb" "rb_contents rb = []" "rb_capacity rb = c"
    using ring_buffer_create_inv [OF assms] by auto
  obtain rb' ins outs where r: "fifo_run rb_offer rb_take rb ops = Some (rb', ins, outs)"
    using rbq.run_total [OF inv(1), of ops] by blast
  then show ?thesis
    using rbq.run_prefix [OF inv(1,2) r] rbq.run_bounded [OF inv(1) r] inv(3) by auto
qed

lemma ring_buffer_fifo_witness:
  "\<exists>rb' ins outs. fifo_run rb_offer rb_take
       \<lparr>rb_buffer = [0, 0, 0], rb_capacity = 3, rb_head = 0, rb_tail = 0, rb_size = 0,
         rb_overwrite = False\<rparr> [Offer [1, 2], Take 1, Offer [3, 4, 5], Take 9]
       = Some (rb', ins, outs) \<and> ins = outs @ rb_contents rb' \<and> length (rb_contents rb') \<le> 3"
  by (rule ring_buffer_fifo [of True True "\<lambda>_. 0" 3])
     (simp add: ring_buffer_create_def upt_rec)

text \<open>
  (C2) In overwrite mode a write accepts all its bytes and the buffer then holds exactly the
  most recent \<open>capacity\<close> bytes of everything it held followed by the new data, whatever the
  relation between the data size and the capacity; the representation invariant is kept.
\<close>

theorem ring_buffer_overwrite_keeps_latest:
  assumes "rb_inv rb" and "rb_overwrite rb" and "length data = sz"
  shows "\<exists>rb'. ring_buffer_write (Some rb) (Some data) sz = Some (Some rb', sz) \<and> rb_inv rb' \<and>
           rb_contents rb' = last_n (rb_capacity rb) (rb_contents rb @ data)"
  using ring_buffer_write_spec [OF assms(1,3)] assms(2) by auto

lemma ring_buffer_overwrite_keeps_latest_witness:
  "\<exists>rb'. ring_buffer_write (Some \<lparr>rb_buffer = [7, 8, 9], rb_capacity = 3, rb_head = 2, rb_tail = 1,
        rb_size = 1, rb_overwrite = True\<rparr>) (Some [1, 2, 3, 4]) 4 = Some (Some rb', 4) \<and> rb_inv rb' \<and>
      rb_contents rb' = [2, 3, 4]"
  using ring_buffer_overwrite_keeps_latest
    [of "\<lparr>rb_buffer = [7, 8, 9], rb_capacity = 3, rb_head = 2, rb_tail = 1, rb_size = 1,
        rb_overwrite = True\<rparr>" "[1, 2, 3, 4]" 4]
  by (simp add: rb_inv_def rb_contents_def cyc_def last_n_def)

text \<open>
  Peeking returns exactly the bytes the next read of the same size will deliver.
\<close>

theorem ring_buffer_peek_then_read:
  assumes "rb_inv rb"
  shows "ring_buffer_peek (Some rb) n = map_option snd (ring_buffer_read (Some rb) n) \<and>
         ring_buffer_peek (Some rb) n \<noteq> None"
  using ring_buffer_peek_spec [OF assms, of n] ring_buffer_read_spec [OF assms, of n] by auto

lemma ring_buffer_peek_then_read_witness:
  "ring_buffer_peek (Some \<lparr>rb_buffer = [7, 8, 9], rb_capacity = 3, rb_head = 1, rb_tail = 2,
        rb_size = 2, rb_overwrite = True\<rparr>) 2 =
     map_option snd (ring_buffer_read (Some \<lparr>rb_buffer = [7, 8, 9], rb_capacity = 3, rb_head = 1,
        rb_tail = 2, rb_size = 2, rb_overwrite = True\<rparr>) 2)"
  by (rule ring_buffer_peek_then_read [THEN conjunct1]) (simp add: rb_inv_def)

end
