(* ===== verification/String_Map.thy ===== *)
theory String_Map
  imports Chat_Prelude
begin

text \<open>
  The interface of a finite map from strings, as the configuration store uses the hash table:
  what a lookup returns after a store or a removal, and that iteration visits every binding
  once. Client lemmas are proved here from these laws alone.
\<close>

locale string_map =
  fixes invar :: "'m \<Rightarrow> bool"
    and lk :: "'m \<Rightarrow> string \<Rightarrow> 'v option"
    and put :: "'m \<Rightarrow> string \<Rightarrow> 'v \<Rightarrow> 'm"
    and del :: "'m \<Rightarrow> string \<Rightarrow> 'm"
  assumes lk_put: "invar m \<Longrightarrow> lk (put m k v) = (lk m)(k \<mapsto> v)"
    and lk_del: "invar m \<Longrightarrow> lk (del m k) = (lk m)(k := None)"
    and invar_put: "invar m \<Longrightarrow> invar (put m k v)"
    and invar_del: "invar m \<Longrightarrow> invar (del m k)"
begin

lemma invar_puts: "invar m \<Longrightarrow> invar (foldl (\<lambda>m (k, v). put m k v) m kvs)"
  by (induction kvs arbitrary: m) (auto simp: invar_put)

lemma lk_puts: "invar m \<Longrightarrow> lk (foldl (\<lambda>m (k, v). put m k v) m kvs) = lk m ++ map_of (rev kvs)"
proof (induction kvs arbitrary: m)
  case Nil
  then show ?case by simp
next
  case (Cons kv kvs)
  obtain k v where kv: "kv = (k, v)" by (cases kv)
  have "lk (foldl (\<lambda>m (k, v). put m k v) (put m k v) kvs) = lk (put m k v) ++ map_of (rev kvs)"
    using Cons.IH Cons.prems invar_put by blast
  with Cons.prems kv show ?case by (simp add: lk_put)
qed

lemma lk_put_same: "invar m \<Longrightarrow> lk (put m k v) k = Some v"
  by (simp add: lk_put)

lemma lk_put_other: "invar m \<Longrightarrow> k' \<noteq> k \<Longrightarrow> lk (put m k v) k' = lk m k'"
  by (simp add: lk_put)

end

text \<open>A map that can also be enumerated, as \<open>config_save_file\<close> does.\<close>

locale iterable_string_map = string_map +
  fixes entries :: "'a \<Rightarrow> (string \<times> 'b) list"
  assumes entries_distinct: "invar m \<Longrightarrow> distinct (map fst (entries m))"
    and map_of_entries: "invar m \<Longrightarrow> map_of (entries m) = lk m"
begin

text \<open>Storing all the entries of one map into an empty one copies it.\<close>

lemma rebuild:
  assumes "invar m" and "invar e" and "lk e = Map.empty"
  shows "lk (foldl (\<lambda>m (k, v). put m k v) e (entries m)) = lk m"
proof -
  have "map_of (rev (entries m)) = map_of (entries m)"
    using entries_distinct [OF assms(1)]
    by (intro map_of_inject_set [THEN iffD2]) (auto simp: rev_map [symmetric])
  then show ?thesis using assms by (simp add: lk_puts map_of_entries)
qed

lemma dom_entries: "invar m \<Longrightarrow> dom (lk m) = set (map fst (entries m))"
  by (metis dom_map_of_conv_image_fst image_set map_of_entries)

end

end
