(* ===== verification/Hash_Table.thy ===== *)
theory Hash_Table
  imports String_Map "HOL-Library.Multiset"
begin

text \<open>
  The chained hash table of \<open>server/src/utils.c\<close> (\<open>hash_table_create\<close> to
  \<open>hash_string_fnv1a\<close>). A bucket is the list of its nodes from the head of the chain; a value
  is an optional pointer, since the code stores \<open>NULL\<close> values and its lookup cannot tell
  them from absent keys. Every call of \<open>value_free_function\<close> is recorded: the operations return
  the list of the values handed to it, in order.
\<close>

record 'v hash_table =
  ht_buckets :: "(string \<times> 'v option) list list"
  ht_size :: nat
  ht_count :: nat
  ht_hash :: "string \<Rightarrow> size_t"
  ht_has_free :: bool

section \<open>Hash functions\<close>

text \<open>A \<open>char\<close> is signed: \<open>c = *key++\<close> widens it to \<open>int\<close> with its sign.\<close>

definition schar :: "char \<Rightarrow> int" where
  "schar c = (let n = int (of_char c) in if n \<ge> 128 then n - 256 else n)"

definition djb2_step :: "size_t \<Rightarrow> char \<Rightarrow> size_t" where
  "djb2_step h c = (push_bit 5 h + h) + word_of_int (schar c)"

definition hash_string_djb2 :: "string \<Rightarrow> size_t" where
  "hash_string_djb2 key = foldl djb2_step 5381 key"

definition sdbm_step :: "size_t \<Rightarrow> char \<Rightarrow> size_t" where
  "sdbm_step h c = word_of_int (schar c) + push_bit 6 h + push_bit 16 h - h"

definition hash_string_sdbm :: "string \<Rightarrow> size_t" where
  "hash_string_sdbm key = foldl sdbm_step 0 key"

definition fnv1a_step :: "size_t \<Rightarrow> char \<Rightarrow> size_t" where
  "fnv1a_step h c = (h XOR word_of_int (schar c)) * 1099511628211"

definition hash_string_fnv1a :: "string \<Rightarrow> size_t" where
  "hash_string_fnv1a key = foldl fnv1a_step 14695981039346656037 key"

section \<open>Operations\<close>

definition primes :: "nat list" where
  "primes = [53, 97, 193, 389, 769, 1543, 3079, 6151,
             12289, 24593, 49157, 98317, 196613, 393241]"

text \<open>The loop over the prime table: the first entry that is at least the requested size.\<close>

fun round_up_prime :: "nat list \<Rightarrow> nat \<Rightarrow> nat" where
  "round_up_prime [] n = n"
| "round_up_prime (p # ps) n = (if p \<ge> n then p else round_up_prime ps n)"

definition hash_table_create ::
    "bool \<Rightarrow> bool \<Rightarrow> nat \<Rightarrow> (string \<Rightarrow> size_t) option \<Rightarrow> bool \<Rightarrow> 'v hash_table option" where
  "hash_table_create ok_table ok_buckets sz hash_function has_free =
     (if \<not> ok_table then None
      else let sz' = round_up_prime primes sz in
        if \<not> ok_buckets then None
        else Some \<lparr>ht_buckets = replicate sz' [], ht_size = sz', ht_count = 0,
                   ht_hash = (case hash_function of Some h \<Rightarrow> h | None \<Rightarrow> hash_string_djb2),
                   ht_has_free = has_free\<rparr>)"

definition ht_index :: "'v hash_table \<Rightarrow> string \<Rightarrow> nat" where
  "ht_index t key = unat (ht_hash t key) mod ht_size t"

text \<open>\<open>if (table->value_free_function && node->value) table->value_free_function(node->value)\<close>\<close>

definition free_value :: "'v hash_table \<Rightarrow> 'v option \<Rightarrow> 'v list" where
  "free_value t v = (case v of Some x \<Rightarrow> (if ht_has_free t then [x] else []) | None \<Rightarrow> [])"

text \<open>The chain walk of \<open>hash_table_insert\<close>: replace in place when the key is present.\<close>

fun chain_update :: "(string \<times> 'v option) list \<Rightarrow> string \<Rightarrow> 'v option \<Rightarrow>
    ((string \<times> 'v option) list \<times> 'v option) option" where
  "chain_update [] key v = None"
| "chain_update ((k, w) # ns) key v =
     (if k = key then Some ((k, v) # ns, w)
      else map_option (\<lambda>(ns', old). ((k, w) # ns', old)) (chain_update ns key v))"

definition ht_insert ::
    "bool \<Rightarrow> bool \<Rightarrow> 'v hash_table \<Rightarrow> string \<Rightarrow> 'v option \<Rightarrow> int \<times> 'v hash_table \<times> 'v list" where
  "ht_insert ok_node ok_key t key v =
     (let i = ht_index t key; b = ht_buckets t ! i in
      case chain_update b key v of
        Some (b', old) \<Rightarrow> (0, t\<lparr>ht_buckets := (ht_buckets t)[i := b']\<rparr>, free_value t old)
      | None \<Rightarrow>
          if \<not> ok_node then (-1, t, [])
          else if \<not> ok_key then (-1, t, [])
          else (0, t\<lparr>ht_buckets := (ht_buckets t)[i := (key, v) # b],
                     ht_count := ht_count t + 1\<rparr>, []))"

fun chain_lookup :: "(string \<times> 'v option) list \<Rightarrow> string \<Rightarrow> 'v option" where
  "chain_lookup [] key = None"
| "chain_lookup ((k, w) # ns) key = (if k = key then w else chain_lookup ns key)"

definition ht_lookup :: "'v hash_table \<Rightarrow> string \<Rightarrow> 'v option" where
  "ht_lookup t key = chain_lookup (ht_buckets t ! ht_index t key) key"

fun chain_remove :: "(string \<times> 'v option) list \<Rightarrow> string \<Rightarrow>
    ((string \<times> 'v option) list \<times> 'v option) option" where
  "chain_remove [] key = None"
| "chain_remove ((k, w) # ns) key =
     (if k = key then Some (ns, w)
      else map_option (\<lambda>(ns', old). ((k, w) # ns', old)) (chain_remove ns key))"

definition ht_remove ::
    "'v hash_table \<Rightarrow> string \<Rightarrow> int \<times> 'v hash_table \<times> 'v list" where
  "ht_remove t key =
     (let i = ht_index t key in
      case chain_remove (ht_buckets t ! i) key of
        Some (b', old) \<Rightarrow>
          (0, t\<lparr>ht_buckets := (ht_buckets t)[i := b'], ht_count := ht_count t - 1\<rparr>,
           free_value t old)
      | None \<Rightarrow> (-1, t, []))"

text \<open>The public functions guard against a \<open>NULL\<close> table or key.\<close>

definition hash_table_insert :: "bool \<Rightarrow> bool \<Rightarrow> 'v hash_table option \<Rightarrow> string option \<Rightarrow> 'v option \<Rightarrow>
    int \<times> 'v hash_table option \<times> 'v list" where
  "hash_table_insert ok_node ok_key table key v =
     (case (table, key) of
        (Some t, Some k) \<Rightarrow>
          (case ht_insert ok_node ok_key t k v of (r, t', freed) \<Rightarrow> (r, Some t', freed))
      | _ \<Rightarrow> (-1, table, []))"

definition hash_table_lookup :: "'v hash_table option \<Rightarrow> string option \<Rightarrow> 'v option" where
  "hash_table_lookup table key =
     (case (table, key) of (Some t, Some k) \<Rightarrow> ht_lookup t k | _ \<Rightarrow> None)"

definition hash_table_remove ::
    "'v hash_table option \<Rightarrow> string option \<Rightarrow> int \<times> 'v hash_table option \<times> 'v list" where
  "hash_table_remove table key =
     (case (table, key) of
        (Some t, Some k) \<Rightarrow> (case ht_remove t k of (r, t', freed) \<Rightarrow> (r, Some t', freed))
      | _ \<Rightarrow> (-1, table, []))"

text \<open>\<open>hash_table_destroy\<close> frees every node in bucket order; the result is the log of freed values.\<close>

definition hash_table_destroy :: "'v hash_table \<Rightarrow> 'v list" where
  "hash_table_destroy t = concat (map (\<lambda>b. concat (map (\<lambda>(k, v). free_value t v) b)) (ht_buckets t))"

definition hash_table_size :: "'v hash_table option \<Rightarrow> nat" where
  "hash_table_size t = (case t of None \<Rightarrow> 0 | Some t \<Rightarrow> ht_size t)"

definition hash_table_count :: "'v hash_table option \<Rightarrow> nat" where
  "hash_table_count t = (case t of None \<Rightarrow> 0 | Some t \<Rightarrow> ht_count t)"

section \<open>Chains\<close>

lemma chain_lookup_map_of: "chain_lookup ns k = (case map_of ns k of Some v \<Rightarrow> v | None \<Rightarrow> None)"
  by (induction ns) auto

lemma chain_update_None: "chain_update ns k v = None \<longleftrightarrow> map_of ns k = None"
  by (induction ns) auto

lemma chain_update_Some:
  "chain_update ns k v = Some (ns', old) \<Longrightarrow>
     map_of ns k = Some old \<and> map fst ns' = map fst ns \<and> map_of ns' = (map_of ns)(k \<mapsto> v)"
  by (induction ns arbitrary: ns') (auto simp: fun_upd_twist split: if_splits)

lemma chain_remove_None: "chain_remove ns k = None \<longleftrightarrow> map_of ns k = None"
  by (induction ns) auto

lemma chain_remove_Some:
  "chain_remove ns k = Some (ns', old) \<Longrightarrow> distinct (map fst ns) \<Longrightarrow>
     map_of ns k = Some old \<and> length ns = Suc (length ns') \<and> set (map fst ns') \<subseteq> set (map fst ns) \<and>
     distinct (map fst ns') \<and> map_of ns' = (map_of ns)(k := None)"
proof (induction ns arbitrary: ns')
  case Nil
  then show ?case by simp
next
  case (Cons n ns)
  obtain k' w where n: "n = (k', w)" by (cases n)
  show ?case
  proof (cases "k' = k")
    case True
    with Cons.prems n have "map_of ns k = None" by (simp add: map_of_eq_None_iff)
    with True Cons.prems n show ?thesis by auto
  next
    case False
    with Cons.prems n obtain ns1 where r: "chain_remove ns k = Some (ns1, old)" "ns' = (k', w) # ns1"
      by auto
    from Cons.prems n have d: "distinct (map fst ns)" "k' \<notin> set (map fst ns)" by auto
    note IH = Cons.IH [OF r(1) d(1)]
    have "map_of ns' = (map_of (n # ns))(k := None)"
      using IH False n r(2) by (auto simp: fun_eq_iff)
    moreover have "k' \<notin> set (map fst ns1)" using IH d(2) by blast
    ultimately show ?thesis using IH False n r(2) by auto
  qed
qed

section \<open>Invariant and abstraction\<close>

text \<open>Every node hangs in the bucket its hash selects, keys are unique, the counter is exact.\<close>

definition ht_inv :: "'v hash_table \<Rightarrow> bool" where
  "ht_inv t \<longleftrightarrow> 0 < ht_size t \<and> length (ht_buckets t) = ht_size t \<and>
     (\<forall>i < ht_size t. distinct (map fst (ht_buckets t ! i)) \<and>
        (\<forall>k \<in> set (map fst (ht_buckets t ! i)). ht_index t k = i)) \<and>
     ht_count t = sum_list (map length (ht_buckets t))"

text \<open>The table as a partial map; the inner option is the stored pointer.\<close>

definition ht_map :: "'v hash_table \<Rightarrow> string \<Rightarrow> 'v option option" where
  "ht_map t key = map_of (ht_buckets t ! ht_index t key) key"

definition ht_entries :: "'v hash_table \<Rightarrow> (string \<times> 'v option) list" where
  "ht_entries t = concat (ht_buckets t)"

lemma ht_index_less: "ht_inv t \<Longrightarrow> ht_index t k < ht_size t"
  by (simp add: ht_inv_def ht_index_def)

lemma ht_index_frame [simp]:
  "ht_index (t\<lparr>ht_buckets := bs\<rparr>) k = ht_index t k"
  "ht_index (t\<lparr>ht_buckets := bs, ht_count := n\<rparr>) k = ht_index t k"
  by (simp_all add: ht_index_def)

text \<open>Replacing the bucket of a key by one that differs only at that key: the single lemma
  behind insertion, update and removal.\<close>

lemma ht_replace_bucket:
  assumes inv: "ht_inv t" and i: "i = ht_index t key"
    and d: "distinct (map fst b)" and ks: "\<And>k. k \<in> set (map fst b) \<Longrightarrow> ht_index t k = i"
    and m: "map_of b = (map_of (ht_buckets t ! i))(key := x)"
    and n: "n + length (ht_buckets t ! i) = ht_count t + length b"
  shows "ht_inv (t\<lparr>ht_buckets := (ht_buckets t)[i := b], ht_count := n\<rparr>)" (is "ht_inv ?t")
    and "ht_map (t\<lparr>ht_buckets := (ht_buckets t)[i := b], ht_count := n\<rparr>) = (ht_map t)(key := x)"
proof -
  have ilt: "i < ht_size t" using ht_index_less [OF inv] i by simp
  have len: "length (ht_buckets t) = ht_size t" using inv by (simp add: ht_inv_def)
  have "length (ht_buckets t ! i) \<le> sum_list (map length (ht_buckets t))"
    using ilt len by (intro member_le_sum_list) auto
  then have "n = sum_list (map length ((ht_buckets t)[i := b]))"
    using n ilt len inv by (simp add: map_update sum_list_update ht_inv_def)
  then show "ht_inv ?t"
    using inv ilt len d ks by (auto simp: ht_inv_def nth_list_update)
  show "ht_map ?t = (ht_map t)(key := x)"
  proof
    fix k
    show "ht_map ?t k = ((ht_map t)(key := x)) k"
    proof (cases "ht_index t k = i")
      case True
      then show ?thesis using ilt len m by (simp add: ht_map_def)
    next
      case False
      then show ?thesis using i len ilt by (auto simp: ht_map_def)
    qed
  qed
qed

lemma ht_bucket:
  assumes "ht_inv t"
  shows "distinct (map fst (ht_buckets t ! ht_index t key))"
    and "k \<in> set (map fst (ht_buckets t ! ht_index t key)) \<Longrightarrow> ht_index t k = ht_index t key"
  using assms ht_index_less [OF assms, of key] unfolding ht_inv_def by blast+

lemma ht_lookup_map [abs_simps]: "ht_lookup t k = (case ht_map t k of Some v \<Rightarrow> v | None \<Rightarrow> None)"
  by (simp add: ht_lookup_def ht_map_def chain_lookup_map_of)

text \<open>Insertion, on every branch.\<close>

lemma ht_insert_update:
  assumes inv: "ht_inv t" and old: "ht_map t key = Some old"
  shows "\<exists>t'. ht_insert ok1 ok2 t key v = (0, t', free_value t old) \<and> ht_inv t' \<and>
           ht_map t' = (ht_map t)(key \<mapsto> v) \<and> ht_hash t' = ht_hash t \<and>
           ht_has_free t' = ht_has_free t \<and> ht_count t' = ht_count t"
proof -
  let ?i = "ht_index t key" and ?b = "ht_buckets t ! ht_index t key"
  obtain b' old' where u: "chain_update ?b key v = Some (b', old')"
    using old chain_update_None [of ?b key v] by (cases "chain_update ?b key v") (auto simp: ht_map_def)
  note c = chain_update_Some [OF u]
  with old have "old' = old" by (simp add: ht_map_def)
  with u have e: "ht_insert ok1 ok2 t key v =
      (0, t\<lparr>ht_buckets := (ht_buckets t)[?i := b'], ht_count := ht_count t\<rparr>, free_value t old)"
    by (simp add: ht_insert_def Let_def)
  have "length b' = length ?b" using c by (metis length_map)
  then have n: "ht_count t + length ?b = ht_count t + length b'" by simp
  have d: "distinct (map fst b')" using c ht_bucket(1) [OF inv] by simp
  have ks: "\<And>k. k \<in> set (map fst b') \<Longrightarrow> ht_index t k = ?i"
    using c by (intro ht_bucket(2) [OF inv]) simp
  from c have m: "map_of b' = (map_of ?b)(key := Some v)" by simp
  show ?thesis unfolding e
    using ht_replace_bucket [OF inv refl d ks m n] by simp
qed

lemma ht_insert_new:
  assumes inv: "ht_inv t" and fresh: "ht_map t key = None"
  shows "\<exists>t'. ht_insert True True t key v = (0, t', []) \<and> ht_inv t' \<and>
           ht_map t' = (ht_map t)(key \<mapsto> v) \<and> ht_hash t' = ht_hash t \<and>
           ht_has_free t' = ht_has_free t \<and> ht_count t' = ht_count t + 1"
proof -
  let ?i = "ht_index t key" and ?b = "ht_buckets t ! ht_index t key"
  have u: "chain_update ?b key v = None"
    using fresh by (simp add: chain_update_None ht_map_def)
  have k: "key \<notin> set (map fst ?b)" using fresh by (simp add: ht_map_def map_of_eq_None_iff)
  have d: "distinct (map fst ((key, v) # ?b))" using k ht_bucket(1) [OF inv] by simp
  have ks: "\<And>k. k \<in> set (map fst ((key, v) # ?b)) \<Longrightarrow> ht_index t k = ?i"
  proof -
    fix k assume "k \<in> set (map fst ((key, v) # ?b))"
    then consider "k = key" | "k \<in> set (map fst ?b)" by auto
    then show "ht_index t k = ?i" by cases (simp, rule ht_bucket(2) [OF inv])
  qed
  have m: "map_of ((key, v) # ?b) = (map_of ?b)(key := Some v)" by simp
  have n: "ht_count t + 1 + length ?b = ht_count t + length ((key, v) # ?b)" by simp
  have e: "ht_insert True True t key v =
      (0, t\<lparr>ht_buckets := (ht_buckets t)[?i := (key, v) # ?b], ht_count := ht_count t + 1\<rparr>, [])"
    using u by (simp add: ht_insert_def Let_def)
  show ?thesis unfolding e
    using ht_replace_bucket [OF inv refl d ks m n] by simp
qed

lemma ht_insert_fail:
  assumes "ht_map t key = None" and "\<not> (ok1 \<and> ok2)"
  shows "ht_insert ok1 ok2 t key v = (-1, t, [])"
proof -
  have "chain_update (ht_buckets t ! ht_index t key) key v = None"
    using assms(1) by (simp add: chain_update_None ht_map_def)
  with assms(2) show ?thesis by (auto simp: ht_insert_def Let_def)
qed

lemma ht_remove_present:
  assumes inv: "ht_inv t" and old: "ht_map t key = Some old"
  shows "\<exists>t'. ht_remove t key = (0, t', free_value t old) \<and> ht_inv t' \<and>
           ht_map t' = (ht_map t)(key := None) \<and> ht_hash t' = ht_hash t \<and>
           ht_has_free t' = ht_has_free t \<and> ht_count t = ht_count t' + 1"
proof -
  let ?i = "ht_index t key" and ?b = "ht_buckets t ! ht_index t key"
  note B = ht_bucket [OF inv, where key = key]
  obtain b' old' where r: "chain_remove ?b key = Some (b', old')"
    using old chain_remove_None [of ?b key] by (cases "chain_remove ?b key") (auto simp: ht_map_def)
  note c = chain_remove_Some [OF r B(1)]
  from c old have "old' = old" by (simp add: ht_map_def)
  have "ht_index t key < length (ht_buckets t)"
    using ht_index_less [OF inv] inv by (simp add: ht_inv_def)
  then have "length ?b \<le> sum_list (map length (ht_buckets t))"
    by (intro member_le_sum_list) auto
  with c inv have pos: "0 < ht_count t" by (simp add: ht_inv_def)
  have d: "distinct (map fst b')" using c by blast
  have ks: "\<And>k. k \<in> set (map fst b') \<Longrightarrow> ht_index t k = ?i" using c B(2) by blast
  have m: "map_of b' = (map_of ?b)(key := None)" using c by blast
  have n: "ht_count t - 1 + length ?b = ht_count t + length b'" using c pos by linarith
  have e: "ht_remove t key = (0, t\<lparr>ht_buckets := (ht_buckets t)[?i := b'],
      ht_count := ht_count t - 1\<rparr>, free_value t old)"
    using r \<open>old' = old\<close> by (simp add: ht_remove_def Let_def)
  show ?thesis unfolding e
    using ht_replace_bucket [OF inv refl d ks m n] pos by simp
qed

lemma ht_remove_absent: "ht_map t key = None \<Longrightarrow> ht_remove t key = (-1, t, [])"
  using chain_remove_None [of "ht_buckets t ! ht_index t key" key]
  by (simp add: ht_remove_def Let_def ht_map_def)

section \<open>The table as a map of non-NULL values\<close>

definition ht_ok :: "'v hash_table \<Rightarrow> bool" where
  "ht_ok t \<longleftrightarrow> ht_inv t \<and> (\<forall>k. ht_map t k \<noteq> Some None)"

definition ht_put :: "'v hash_table \<Rightarrow> string \<Rightarrow> 'v \<Rightarrow> 'v hash_table" where
  "ht_put t k v = fst (snd (ht_insert True True t k (Some v)))"

definition ht_del :: "'v hash_table \<Rightarrow> string \<Rightarrow> 'v hash_table" where
  "ht_del t k = fst (snd (ht_remove t k))"

definition ht_pairs :: "'v hash_table \<Rightarrow> (string \<times> 'v) list" where
  "ht_pairs t = List.map_filter (\<lambda>(k, v). map_option (Pair k) v) (ht_entries t)"

lemma ht_put:
  assumes "ht_inv t"
  shows "ht_inv (ht_put t k v) \<and> ht_map (ht_put t k v) = (ht_map t)(k \<mapsto> Some v)"
proof (cases "ht_map t k")
  case None
  then show ?thesis using ht_insert_new [OF assms None, of "Some v"] by (auto simp: ht_put_def)
next
  case (Some old)
  then show ?thesis
    using ht_insert_update [OF assms Some, of True True "Some v"] by (auto simp: ht_put_def)
qed

lemma ht_del:
  assumes "ht_inv t"
  shows "ht_inv (ht_del t k) \<and> ht_map (ht_del t k) = (ht_map t)(k := None)"
proof (cases "ht_map t k")
  case None
  then show ?thesis using assms ht_remove_absent [OF None] by (auto simp: ht_del_def)
next
  case (Some old)
  then show ?thesis using ht_remove_present [OF assms Some] by (auto simp: ht_del_def)
qed

interpretation hts: string_map ht_ok ht_lookup ht_put ht_del
  by unfold_locales (auto simp: ht_ok_def ht_put ht_del ht_lookup_map fun_eq_iff)

lemma round_up_prime_pos: "\<forall>p \<in> set ps. 0 < p \<Longrightarrow> 0 < n \<or> ps \<noteq> [] \<and> n \<le> last ps \<Longrightarrow>
    0 < round_up_prime ps n"
  by (induction ps) (auto split: if_splits)

lemma round_up_prime_ge: "n \<le> round_up_prime ps n"
  by (induction ps) auto

lemma hash_table_create_inv [inv_intros]:
  assumes "hash_table_create ok1 ok2 n h f = Some t"
  shows "ht_inv t \<and> ht_map t = Map.empty \<and> ht_has_free t = f \<and> n \<le> ht_size t"
proof -
  have "0 < round_up_prime primes n"
    by (rule round_up_prime_pos) (auto simp: primes_def)
  with assms show ?thesis
    by (auto simp: hash_table_create_def Let_def ht_inv_def ht_map_def ht_index_def fun_eq_iff
        round_up_prime_ge sum_list_replicate split: if_splits)
qed

text \<open>Enumeration visits every binding once.\<close>

lemma distinct_concat_classified:
  "(\<And>i. i < length bs \<Longrightarrow> distinct (bs ! i) \<and> (\<forall>k \<in> set (bs ! i). f k = off + i)) \<Longrightarrow>
     distinct (concat bs)"
proof (induction bs arbitrary: off)
  case Nil
  then show ?case by simp
next
  case (Cons b bs)
  have h: "distinct b" "\<forall>k \<in> set b. f k = off" using Cons.prems [of 0] by auto
  have r: "\<And>i. i < length bs \<Longrightarrow> distinct (bs ! i) \<and> (\<forall>k \<in> set (bs ! i). f k = Suc off + i)"
    using Cons.prems [of "Suc _"] by auto
  have "\<forall>b' \<in> set bs. \<forall>k \<in> set b'. f k \<noteq> off" proof (intro ballI)
    fix b' k assume "b' \<in> set bs" "k \<in> set b'"
    then obtain i where "i < length bs" "b' = bs ! i" by (auto simp: in_set_conv_nth)
    with r [of i] \<open>k \<in> set b'\<close> show "f k \<noteq> off" by auto
  qed
  with h have "set b \<inter> (\<Union>b' \<in> set bs. set b') = {}" by auto
  then show ?case using h(1) Cons.IH [OF r] by simp
qed

lemma ht_entries_distinct:
  assumes "ht_inv t"
  shows "distinct (map fst (ht_entries t))"
proof -
  have "distinct (concat (map (map fst) (ht_buckets t)))"
    by (rule distinct_concat_classified [where f = "ht_index t" and off = 0])
       (use assms in \<open>auto simp: ht_inv_def\<close>)
  then show ?thesis by (simp add: ht_entries_def map_concat)
qed

lemma map_of_ht_entries:
  assumes inv: "ht_inv t"
  shows "map_of (ht_entries t) = ht_map t"
proof
  fix k
  let ?i = "ht_index t k"
  have i: "?i < length (ht_buckets t)" using ht_index_less [OF inv] inv by (simp add: ht_inv_def)
  show "map_of (ht_entries t) k = ht_map t k"
  proof (cases "ht_map t k")
    case (Some v)
    then have "(k, v) \<in> set (ht_buckets t ! ?i)" by (auto simp: ht_map_def dest: map_of_SomeD)
    with i have "(k, v) \<in> set (ht_entries t)" by (auto simp: ht_entries_def)
    with Some show ?thesis using ht_entries_distinct [OF inv] by simp
  next
    case None
    have "k \<notin> set (map fst (ht_buckets t ! j))" if "j < length (ht_buckets t)" for j
      using that None inv by (cases "j = ?i") (auto simp: ht_map_def map_of_eq_None_iff ht_inv_def)
    then have "\<forall>b \<in> set (ht_buckets t). k \<notin> set (map fst b)" by (metis in_set_conv_nth)
    then have "k \<notin> set (map fst (ht_entries t))" by (fastforce simp: ht_entries_def)
    with None show ?thesis by (simp add: map_of_eq_None_iff [symmetric])
  qed
qed

lemma ht_count_card: "ht_inv t \<Longrightarrow> ht_count t = card (dom (ht_map t))"
proof -
  assume inv: "ht_inv t"
  have "card (dom (ht_map t)) = length (map fst (ht_entries t))"
    using distinct_card [OF ht_entries_distinct [OF inv]] map_of_ht_entries [OF inv]
    by (metis dom_map_of_conv_image_fst image_set)
  then show ?thesis using inv by (simp add: ht_entries_def length_concat ht_inv_def)
qed

lemma map_fst_ht_pairs:
  "ht_ok t \<Longrightarrow> map fst (ht_pairs t) = map fst (ht_entries t) \<and> map_of (ht_pairs t) = ht_lookup t"
proof -
  assume ok: "ht_ok t"
  then have inv: "ht_inv t" and nn: "\<And>k. ht_map t k \<noteq> Some None" by (auto simp: ht_ok_def)
  have mem: "\<forall>(k, v) \<in> set (ht_entries t). v \<noteq> None"
    using nn map_of_ht_entries [OF inv] ht_entries_distinct [OF inv]
    by (metis (mono_tags, lifting) case_prodI2 map_of_is_SomeI)
  have "map fst (List.map_filter (\<lambda>(k, v). map_option (Pair k) v) es) = map fst es \<and>
      map_of (List.map_filter (\<lambda>(k, v). map_option (Pair k) v) es) =
        (\<lambda>k. case map_of es k of Some v \<Rightarrow> v | None \<Rightarrow> None)"
    if "\<forall>(k, v) \<in> set es. v \<noteq> None" for es :: "(string \<times> 'a option) list"
    using that by (induction es) (auto simp: map_filter_simps fun_eq_iff)
  from this [OF mem] show ?thesis
    by (auto simp: ht_pairs_def map_of_ht_entries [OF inv] ht_lookup_map fun_eq_iff)
qed

interpretation hti: iterable_string_map ht_ok ht_lookup ht_put ht_del ht_pairs
  by unfold_locales (auto simp: map_fst_ht_pairs ht_ok_def ht_entries_distinct)

section \<open>Ownership of the stored values\<close>

text \<open>The values of a chain that the table would hand to its free function.\<close>

definition chain_owned :: "'v hash_table \<Rightarrow> (string \<times> 'v option) list \<Rightarrow> 'v list" where
  "chain_owned t b = concat (map (\<lambda>(k, v). free_value t v) b)"

lemma hash_table_destroy_owned: "hash_table_destroy t = concat (map (chain_owned t) (ht_buckets t))"
  by (simp add: hash_table_destroy_def chain_owned_def [abs_def])

lemma chain_update_owned:
  "chain_update b k v = Some (b', old) \<Longrightarrow>
     mset (chain_owned t b') + mset (free_value t old) = mset (chain_owned t b) + mset (free_value t v)"
  by (induction b arbitrary: b') (auto simp: chain_owned_def split: if_splits)

lemma chain_remove_owned:
  "chain_remove b k = Some (b', old) \<Longrightarrow>
     mset (chain_owned t b') + mset (free_value t old) = mset (chain_owned t b)"
  by (induction b arbitrary: b') (auto simp: chain_owned_def split: if_splits)

lemma mset_concat_update:
  "i < length bs \<Longrightarrow> mset (concat (map V (bs[i := b]))) + mset (V (bs ! i)) =
     mset (concat (map V bs)) + mset (V b)"
  by (induction bs arbitrary: i) (auto split: nat.splits)

lemma free_value_frame [simp]:
  "free_value (t\<lparr>ht_buckets := bs\<rparr>) = free_value t"
  "free_value (t\<lparr>ht_buckets := bs, ht_count := n\<rparr>) = free_value t"
  by (simp_all add: free_value_def fun_eq_iff split: option.splits)

lemma chain_owned_frame [simp]:
  "chain_owned (t\<lparr>ht_buckets := bs\<rparr>) = chain_owned t"
  "chain_owned (t\<lparr>ht_buckets := bs, ht_count := n\<rparr>) = chain_owned t"
  by (simp_all add: chain_owned_def fun_eq_iff)

lemma exchange_cancel:
  fixes A A' B X F G :: "'a multiset"
  assumes "A' + X = A + B" and "B + F = X + G"
  shows "A' + F = A + G"
proof -
  have "(A' + F) + (X + B) = (A' + X) + (B + F)" by (simp add: ac_simps)
  also have "\<dots> = (A + G) + (X + B)" unfolding assms by (simp add: ac_simps)
  finally show ?thesis by simp
qed

lemma ht_insert_owned:
  assumes "ht_inv t" and "ht_insert ok1 ok2 t k v = (r, t', freed)"
  shows "mset (hash_table_destroy t') + mset freed =
           mset (hash_table_destroy t) + mset (if r = 0 then free_value t v else [])"
proof -
  let ?i = "ht_index t k"
  have i: "?i < length (ht_buckets t)"
    using ht_index_less [OF assms(1)] assms(1) by (simp add: ht_inv_def)
  show ?thesis
  proof (cases "chain_update (ht_buckets t ! ?i) k v")
    case None
    show ?thesis
    proof (cases "ok1 \<and> ok2")
      case True
      with None assms(2) have e: "r = 0" "freed = []"
        "t' = t\<lparr>ht_buckets := (ht_buckets t)[?i := (k, v) # ht_buckets t ! ?i],
               ht_count := ht_count t + 1\<rparr>"
        by (auto simp: ht_insert_def Let_def)
      have "mset (chain_owned t ((k, v) # ht_buckets t ! ?i)) + {#} =
          mset (chain_owned t (ht_buckets t ! ?i)) + mset (free_value t v)"
        by (simp add: chain_owned_def)
      from exchange_cancel [OF mset_concat_update [OF i] this] e show ?thesis
        by (simp add: hash_table_destroy_owned)
    next
      case False
      with None assms(2) show ?thesis by (auto simp: ht_insert_def Let_def split: if_splits)
    qed
  next
    case (Some p)
    then obtain b' old where p: "chain_update (ht_buckets t ! ?i) k v = Some (b', old)" by (cases p) auto
    with assms(2) have "r = 0" "freed = free_value t old"
      "t' = t\<lparr>ht_buckets := (ht_buckets t)[?i := b']\<rparr>"
      by (auto simp: ht_insert_def Let_def)
    then show ?thesis
      using mset_concat_update [OF i, of "chain_owned t" b'] chain_update_owned [OF p, of t]
      by (auto simp: hash_table_destroy_owned intro: exchange_cancel)
  qed
qed

lemma ht_remove_owned:
  assumes "ht_inv t" and "ht_remove t k = (r, t', freed)"
  shows "mset (hash_table_destroy t') + mset freed = mset (hash_table_destroy t)"
proof -
  let ?i = "ht_index t k"
  have i: "?i < length (ht_buckets t)"
    using ht_index_less [OF assms(1)] assms(1) by (simp add: ht_inv_def)
  show ?thesis
  proof (cases "chain_remove (ht_buckets t ! ?i) k")
    case None
    with assms(2) show ?thesis by (auto simp: ht_remove_def Let_def)
  next
    case (Some p)
    then obtain b' old where p: "chain_remove (ht_buckets t ! ?i) k = Some (b', old)" by (cases p) auto
    with assms(2) have "freed = free_value t old"
      "t' = t\<lparr>ht_buckets := (ht_buckets t)[?i := b'], ht_count := ht_count t - 1\<rparr>"
      by (auto simp: ht_remove_def Let_def)
    then show ?thesis
      using exchange_cancel [OF mset_concat_update [OF i, of "chain_owned t" b'],
          of "mset (free_value t old)" "{#}"] chain_remove_owned [OF p, of t]
      by (simp add: hash_table_destroy_owned)
  qed
qed

section \<open>Sessions\<close>

datatype 'v ht_op = HtInsert bool bool string "'v option" | HtRemove string | HtLookup string

datatype 'v ht_answer = Code int | Val "'v option"

text \<open>One call on the table: the new table, the answer, and the values freed.\<close>

fun ht_step :: "'v hash_table \<Rightarrow> 'v ht_op \<Rightarrow> 'v hash_table \<times> 'v ht_answer \<times> 'v list" where
  "ht_step t (HtInsert ok1 ok2 k v) =
     (case ht_insert ok1 ok2 t k v of (r, t', freed) \<Rightarrow> (t', Code r, freed))"
| "ht_step t (HtRemove k) = (case ht_remove t k of (r, t', freed) \<Rightarrow> (t', Code r, freed))"
| "ht_step t (HtLookup k) = (t, Val (ht_lookup t k), [])"

text \<open>The same call on the abstract map.\<close>

fun map_step :: "(string \<rightharpoonup> 'v option) \<Rightarrow> 'v ht_op \<Rightarrow> (string \<rightharpoonup> 'v option) \<times> 'v ht_answer" where
  "map_step m (HtInsert ok1 ok2 k v) =
     (if m k = None \<and> \<not> (ok1 \<and> ok2) then (m, Code (-1)) else (m(k \<mapsto> v), Code 0))"
| "map_step m (HtRemove k) = (if m k = None then (m, Code (-1)) else (m(k := None), Code 0))"
| "map_step m (HtLookup k) = (m, Val (case m k of Some v \<Rightarrow> v | None \<Rightarrow> None))"

fun ht_run :: "'v hash_table \<Rightarrow> 'v ht_op list \<Rightarrow> 'v hash_table \<times> 'v ht_answer list" where
  "ht_run t [] = (t, [])"
| "ht_run t (op # ops) =
     (case ht_step t op of (t', a, _) \<Rightarrow> case ht_run t' ops of (t'', as) \<Rightarrow> (t'', a # as))"

fun map_run :: "(string \<rightharpoonup> 'v option) \<Rightarrow> 'v ht_op list \<Rightarrow> (string \<rightharpoonup> 'v option) \<times> 'v ht_answer list" where
  "map_run m [] = (m, [])"
| "map_run m (op # ops) =
     (case map_step m op of (m', a) \<Rightarrow> case map_run m' ops of (m'', as) \<Rightarrow> (m'', a # as))"

lemma ht_step_refines:
  assumes "ht_inv t" and "ht_step t op = (t', a, freed)"
  shows "ht_inv t' \<and> map_step (ht_map t) op = (ht_map t', a)"
proof (cases op)
  case (HtInsert ok1 ok2 k v)
  show ?thesis
  proof (cases "ht_map t k")
    case None
    then show ?thesis
      using assms HtInsert ht_insert_new [OF assms(1) None, of v] ht_insert_fail [OF None, of ok1 ok2 v]
      by (cases ok1; cases ok2) auto
  next
    case (Some old)
    then show ?thesis
      using assms HtInsert ht_insert_update [OF assms(1) Some, of ok1 ok2 v] by auto
  qed
next
  case (HtRemove k)
  then show ?thesis
    using assms ht_remove_present [OF assms(1), of k] ht_remove_absent [of t k]
    by (cases "ht_map t k") auto
next
  case (HtLookup k)
  then show ?thesis using assms by (auto simp: ht_lookup_map)
qed

lemma ht_run_refines:
  "ht_inv t \<Longrightarrow> ht_run t ops = (t', as) \<Longrightarrow> ht_inv t' \<and> map_run (ht_map t) ops = (ht_map t', as)"
proof (induction ops arbitrary: t as)
  case Nil
  then show ?case by simp
next
  case (Cons op ops)
  obtain t1 a freed where s: "ht_step t op = (t1, a, freed)" by (cases "ht_step t op")
  obtain as1 where r: "ht_run t1 ops = (t', as1)" "as = a # as1"
    using Cons.prems(2) s by (auto split: prod.splits)
  note st = ht_step_refines [OF Cons.prems(1) s]
  with Cons.IH [OF _ r(1)] r(2) show ?case by simp
qed

text \<open>The values a session handed over to the table, and the values it freed, in order.\<close>

fun accepted :: "'v hash_table \<Rightarrow> 'v ht_op list \<Rightarrow> 'v list" where
  "accepted t [] = []"
| "accepted t (op # ops) =
     (case ht_step t op of (t', a, _) \<Rightarrow>
        (case op of HtInsert _ _ _ v \<Rightarrow> if a = Code 0 then free_value t v else [] | _ \<Rightarrow> [])
        @ accepted t' ops)"

fun freed_by :: "'v hash_table \<Rightarrow> 'v ht_op list \<Rightarrow> 'v list" where
  "freed_by t [] = []"
| "freed_by t (op # ops) = (case ht_step t op of (t', _, freed) \<Rightarrow> freed @ freed_by t' ops)"

lemma ht_run_owned:
  "ht_inv t \<Longrightarrow> mset (freed_by t ops) + mset (hash_table_destroy (fst (ht_run t ops))) =
     mset (hash_table_destroy t) + mset (accepted t ops)"
proof (induction ops arbitrary: t)
  case Nil
  then show ?case by simp
next
  case (Cons op ops)
  obtain t1 a freed where s: "ht_step t op = (t1, a, freed)" by (cases "ht_step t op")
  let ?new = "case op of HtInsert _ _ _ v \<Rightarrow> if a = Code 0 then free_value t v else [] | _ \<Rightarrow> []"
  have inv1: "ht_inv t1" using ht_step_refines [OF Cons.prems s] by blast
  have "mset (hash_table_destroy t1) + mset freed = mset (hash_table_destroy t) + mset ?new"
    using s ht_insert_owned [OF Cons.prems] ht_remove_owned [OF Cons.prems]
    by (cases op) (fastforce split: prod.splits)+
  with Cons.IH [OF inv1] s show ?case
    by (auto simp: ac_simps split: prod.splits)
qed

section \<open>Properties\<close>

text \<open>
  (C3) Over any sequence of insertions, removals and lookups, with any pattern of allocation
  failures, a freshly created hash table returns exactly the answers of a partial map from keys
  to values, ends up representing that map, keeps its invariant (each node in the bucket of its
  hash, no duplicate key), and its counter is the number of keys.
\<close>

theorem hash_table_refines_map:
  assumes "hash_table_create ok1 ok2 n h f = Some t" and "ht_run t ops = (t', as)"
  shows "map_run Map.empty ops = (ht_map t', as) \<and> ht_inv t' \<and>
         hash_table_count (Some t') = card (dom (ht_map t'))"
  using hash_table_create_inv [OF assms(1)] ht_run_refines [OF _ assms(2)]
  by (auto simp: hash_table_count_def ht_count_card)

lemma hash_table_refines_map_witness:
  "\<exists>t t' :: nat hash_table. hash_table_create True True 3 None True = Some t \<and>
     ht_run t [HtInsert True True ''a'' (Some 1), HtInsert False True ''b'' (Some 2), HtLookup ''a'']
       = (t', [Code 0, Code (-1), Val (Some 1)]) \<and> hash_table_count (Some t') = 1"
proof -
  let ?ops = "[HtInsert True True ''a'' (Some 1), HtInsert False True ''b'' (Some 2), HtLookup ''a'']
    :: nat ht_op list"
  obtain t :: "nat hash_table" where t: "hash_table_create True True 3 None True = Some t"
    by (simp add: hash_table_create_def Let_def)
  obtain t' as where r: "ht_run t ?ops = (t', as)" by (cases "ht_run t ?ops")
  from hash_table_refines_map [OF t r]
  have e: "as = [Code 0, Code (-1), Val (Some 1)]" "ht_map t' = [''a'' \<mapsto> Some 1]"
    "hash_table_count (Some t') = card (dom (ht_map t'))"
    by auto
  then have "hash_table_count (Some t') = 1" by simp
  with t r e(1) show ?thesis by blast
qed

text \<open>
  (C4) Ownership: every value handed to the table is passed to \<open>value_free_function\<close> exactly
  once, by the calls of the session (overwrites and removals) or by the final
  \<open>hash_table_destroy\<close>; a value whose insertion failed is never freed by the table.
\<close>

theorem hash_table_frees_exactly_once:
  assumes "hash_table_create ok1 ok2 n h f = Some t" and "ht_run t ops = (t', as)"
  shows "mset (freed_by t ops @ hash_table_destroy t') = mset (accepted t ops)"
proof -
  have "hash_table_destroy t = []" using assms(1)
    by (auto simp: hash_table_create_def hash_table_destroy_def Let_def split: if_splits)
  then show ?thesis
    using ht_run_owned [of t ops] hash_table_create_inv [OF assms(1)] assms(2) by simp
qed

lemma hash_table_frees_exactly_once_witness:
  "\<exists>t t' :: nat hash_table. \<exists>as. hash_table_create True True 3 None True = Some t \<and>
     ht_run t [HtInsert True True ''a'' (Some 1), HtInsert False True ''b'' (Some 2)] = (t', as) \<and>
     mset (freed_by t [HtInsert True True ''a'' (Some 1), HtInsert False True ''b'' (Some 2)]
           @ hash_table_destroy t') =
     mset (accepted t [HtInsert True True ''a'' (Some 1), HtInsert False True ''b'' (Some 2)])"
proof -
  let ?ops = "[HtInsert True True ''a'' (Some 1), HtInsert False True ''b'' (Some 2)] :: nat ht_op list"
  obtain t :: "nat hash_table" where t: "hash_table_create True True 3 None True = Some t"
    by (simp add: hash_table_create_def Let_def)
  obtain t' as where r: "ht_run t ?ops = (t', as)" by (cases "ht_run t ?ops")
  from hash_table_frees_exactly_once [OF t r] t r show ?thesis by blast
qed

end
