(* ===== verification/Linked_List.thy ===== *)
theory Linked_List
  imports Chat_Prelude
begin

text \<open>
  The doubly linked list of \<open>server/src/utils.c\<close> (\<open>list_create\<close> to \<open>list_iterator_rewind\<close>),
  with an explicit heap of nodes, because the operations rewrite shared \<open>next\<close> and \<open>prev\<close>
  pointers. \<open>malloc\<close> is a parameter of the operations that allocate: it returns the address of
  a node, or nothing on failure. A result \<open>None\<close> of an operation is the dereference of \<open>NULL\<close>
  or of a freed node. The abstraction is the list of the stored data pointers.
\<close>

type_synonym addr = nat

record 'd list_node =
  nd_data :: "'d option"
  nd_next :: "addr option"
  nd_prev :: "addr option"

type_synonym 'd heap = "addr \<rightharpoonup> 'd list_node"

record 'd list_t =
  l_head :: "addr option"
  l_tail :: "addr option"
  l_size :: nat
  l_has_free :: bool
  l_compare :: "('d option \<Rightarrow> 'd option \<Rightarrow> int) option"

definition list_create ::
    "bool \<Rightarrow> bool \<Rightarrow> ('d option \<Rightarrow> 'd option \<Rightarrow> int) option \<Rightarrow> 'd list_t option" where
  "list_create ok has_free cmp =
     (if ok then Some \<lparr>l_head = None, l_tail = None, l_size = 0, l_has_free = has_free,
                       l_compare = cmp\<rparr> else None)"

text \<open>\<open>p->next = v\<close> and \<open>p->prev = v\<close> through a pointer.\<close>

definition set_next :: "'d heap \<Rightarrow> addr \<Rightarrow> addr option \<Rightarrow> 'd heap option" where
  "set_next h a v = map_option (\<lambda>n. h(a \<mapsto> n\<lparr>nd_next := v\<rparr>)) (h a)"

definition set_prev :: "'d heap \<Rightarrow> addr \<Rightarrow> addr option \<Rightarrow> 'd heap option" where
  "set_prev h a v = map_option (\<lambda>n. h(a \<mapsto> n\<lparr>nd_prev := v\<rparr>)) (h a)"

definition list_append :: "('d heap \<Rightarrow> addr option) \<Rightarrow> 'd heap \<Rightarrow> 'd list_t \<Rightarrow> 'd option \<Rightarrow>
    (int \<times> 'd heap \<times> 'd list_t) option" where
  "list_append malloc h l d =
     (case malloc h of None \<Rightarrow> Some (-1, h, l)
      | Some a \<Rightarrow>
          let h1 = h(a \<mapsto> \<lparr>nd_data = d, nd_next = None, nd_prev = l_tail l\<rparr>) in
          (case l_tail l of
             Some t \<Rightarrow> map_option (\<lambda>h2. (0, h2, l\<lparr>l_tail := Some a, l_size := l_size l + 1\<rparr>))
                        (set_next h1 t (Some a))
           | None \<Rightarrow> Some (0, h1, l\<lparr>l_head := Some a, l_tail := Some a, l_size := l_size l + 1\<rparr>)))"

definition list_prepend :: "('d heap \<Rightarrow> addr option) \<Rightarrow> 'd heap \<Rightarrow> 'd list_t \<Rightarrow> 'd option \<Rightarrow>
    (int \<times> 'd heap \<times> 'd list_t) option" where
  "list_prepend malloc h l d =
     (case malloc h of None \<Rightarrow> Some (-1, h, l)
      | Some a \<Rightarrow>
          let h1 = h(a \<mapsto> \<lparr>nd_data = d, nd_next = l_head l, nd_prev = None\<rparr>) in
          (case l_head l of
             Some b \<Rightarrow> map_option (\<lambda>h2. (0, h2, l\<lparr>l_head := Some a, l_size := l_size l + 1\<rparr>))
                        (set_prev h1 b (Some a))
           | None \<Rightarrow> Some (0, h1, l\<lparr>l_tail := Some a, l_head := Some a, l_size := l_size l + 1\<rparr>)))"

text \<open>\<open>n\<close> iterations of \<open>current = current->next\<close>.\<close>

fun walk :: "'d heap \<Rightarrow> addr option \<Rightarrow> nat \<Rightarrow> addr option option" where
  "walk h c 0 = Some c"
| "walk h c (Suc n) =
     (case c of None \<Rightarrow> None
      | Some a \<Rightarrow> (case h a of None \<Rightarrow> None | Some nd \<Rightarrow> walk h (nd_next nd) n))"

text \<open>A pointer that is dereferenced: \<open>NULL\<close> or dangling gives \<open>None\<close>.\<close>

definition deref :: "'d heap \<Rightarrow> addr option \<Rightarrow> (addr \<times> 'd list_node) option" where
  "deref h p = (case p of None \<Rightarrow> None | Some a \<Rightarrow> map_option (Pair a) (h a))"

definition list_insert :: "('d heap \<Rightarrow> addr option) \<Rightarrow> 'd heap \<Rightarrow> 'd list_t \<Rightarrow> nat \<Rightarrow> 'd option \<Rightarrow>
    (int \<times> 'd heap \<times> 'd list_t) option" where
  "list_insert malloc h l i d =
     (if i \<ge> l_size l then list_append malloc h l d
      else if i = 0 then list_prepend malloc h l d
      else Option.bind (walk h (l_head l) (i - 1)) (\<lambda>c.
           case malloc h of None \<Rightarrow> Some (-1, h, l)
           | Some a \<Rightarrow>
               Option.bind (deref h c) (\<lambda>(cur, nd).
                 let h1 = h(a \<mapsto> \<lparr>nd_data = d, nd_next = nd_next nd, nd_prev = Some cur\<rparr>) in
                 Option.bind (case nd_next nd of None \<Rightarrow> Some h1 | Some n \<Rightarrow> set_prev h1 n (Some a))
                   (\<lambda>h2. map_option (\<lambda>h3. (0, h3, l\<lparr>l_size := l_size l + 1\<rparr>))
                           (set_next h2 cur (Some a))))))"

definition list_get :: "'d heap \<Rightarrow> 'd list_t \<Rightarrow> nat \<Rightarrow> 'd option option" where
  "list_get h l i =
     (if i \<ge> l_size l then Some None
      else Option.bind (walk h (l_head l) i) (\<lambda>c. map_option (\<lambda>(_, nd). nd_data nd) (deref h c)))"

text \<open>\<open>if (list->data_free_function && data) list->data_free_function(data)\<close>\<close>

definition free_data :: "'d list_t \<Rightarrow> 'd option \<Rightarrow> 'd list" where
  "free_data l d = (case d of Some x \<Rightarrow> (if l_has_free l then [x] else []) | None \<Rightarrow> [])"

definition list_remove :: "'d heap \<Rightarrow> 'd list_t \<Rightarrow> nat \<Rightarrow>
    (int \<times> 'd heap \<times> 'd list_t \<times> 'd list) option" where
  "list_remove h l i =
     (if i \<ge> l_size l then Some (-1, h, l, [])
      else Option.bind (walk h (l_head l) i) (\<lambda>c.
           Option.bind (deref h c) (\<lambda>(cur, nd).
             Option.bind (case nd_prev nd of
                 Some p \<Rightarrow> map_option (\<lambda>h1. (h1, l)) (set_next h p (nd_next nd))
               | None \<Rightarrow> Some (h, l\<lparr>l_head := nd_next nd\<rparr>)) (\<lambda>(h1, l1).
             Option.bind (case nd_next nd of
                 Some n \<Rightarrow> map_option (\<lambda>h2. (h2, l1)) (set_prev h1 n (nd_prev nd))
               | None \<Rightarrow> Some (h1, l1\<lparr>l_tail := nd_prev nd\<rparr>)) (\<lambda>(h2, l2).
             Some (0, h2(cur := None), l2\<lparr>l_size := l_size l2 - 1\<rparr>, free_data l (nd_data nd)))))))"

text \<open>The comparison of \<open>list_remove_data\<close>: the list's compare function, or pointer equality.\<close>

definition data_match :: "'d list_t \<Rightarrow> 'd option \<Rightarrow> 'd \<Rightarrow> bool" where
  "data_match l d x = (case l_compare l of Some cmp \<Rightarrow> cmp d (Some x) = 0 | None \<Rightarrow> d = Some x)"

partial_function (option) find_index :: "'d heap \<Rightarrow> 'd list_t \<Rightarrow> 'd \<Rightarrow> addr option \<Rightarrow> nat \<Rightarrow>
    nat option option" where
  "find_index h l x c i =
     (case c of None \<Rightarrow> Some None
      | Some a \<Rightarrow>
          Option.bind (h a) (\<lambda>nd. if data_match l (nd_data nd) x then Some (Some i)
            else find_index h l x (nd_next nd) (i + 1)))"

definition list_remove_data :: "'d heap \<Rightarrow> 'd list_t \<Rightarrow> 'd option \<Rightarrow>
    (int \<times> 'd heap \<times> 'd list_t \<times> 'd list) option" where
  "list_remove_data h l d =
     (case d of None \<Rightarrow> Some (-1, h, l, [])
      | Some x \<Rightarrow>
          Option.bind (find_index h l x (l_head l) 0) (\<lambda>r. case r of
            Some i \<Rightarrow> map_option (\<lambda>(_, rest). (0, rest)) (list_remove h l i)
          | None \<Rightarrow> Some (-1, h, l, [])))"

partial_function (option) clear_loop :: "'d list_t \<Rightarrow> 'd heap \<Rightarrow> addr option \<Rightarrow> 'd list \<Rightarrow>
    ('d heap \<times> 'd list) option" where
  "clear_loop l h c freed =
     (case c of None \<Rightarrow> Some (h, freed)
      | Some a \<Rightarrow> Option.bind (h a) (\<lambda>nd.
          clear_loop l (h(a := None)) (nd_next nd) (freed @ free_data l (nd_data nd))))"

definition list_clear :: "'d heap \<Rightarrow> 'd list_t \<Rightarrow> ('d heap \<times> 'd list_t \<times> 'd list) option" where
  "list_clear h l =
     map_option (\<lambda>(h', freed). (h', l\<lparr>l_head := None, l_tail := None, l_size := 0\<rparr>, freed))
       (clear_loop l h (l_head l) [])"

definition list_size :: "'d list_t option \<Rightarrow> nat" where
  "list_size l = (case l of None \<Rightarrow> 0 | Some l \<Rightarrow> l_size l)"

definition list_empty :: "'d list_t option \<Rightarrow> bool" where
  "list_empty l = (case l of None \<Rightarrow> True | Some l \<Rightarrow> l_size l = 0)"

record list_iterator =
  it_current :: "addr option"
  it_index :: nat

definition list_iterator_create :: "bool \<Rightarrow> 'd list_t \<Rightarrow> list_iterator option" where
  "list_iterator_create ok l =
     (if ok then Some \<lparr>it_current = l_head l, it_index = 0\<rparr> else None)"

definition list_iterator_has_next :: "list_iterator option \<Rightarrow> bool" where
  "list_iterator_has_next it = (case it of None \<Rightarrow> False | Some it \<Rightarrow> it_current it \<noteq> None)"

definition list_iterator_next :: "'d heap \<Rightarrow> list_iterator \<Rightarrow> ('d option \<times> list_iterator) option" where
  "list_iterator_next h it =
     (case it_current it of None \<Rightarrow> Some (None, it)
      | Some a \<Rightarrow> map_option (\<lambda>nd. (nd_data nd,
            it\<lparr>it_current := nd_next nd, it_index := it_index it + 1\<rparr>)) (h a))"

definition list_iterator_rewind :: "'d list_t \<Rightarrow> list_iterator \<Rightarrow> list_iterator" where
  "list_iterator_rewind l it = it\<lparr>it_current := l_head l, it_index := 0\<rparr>"

section \<open>Representation\<close>

text \<open>\<open>dseg h p c xs q n\<close>: starting at pointer \<open>c\<close>, whose predecessor is \<open>p\<close>, the heap holds
  the nodes \<open>xs\<close>, the last of which is \<open>q\<close> and points on to \<open>n\<close>.\<close>

fun dseg :: "'d heap \<Rightarrow> addr option \<Rightarrow> addr option \<Rightarrow> (addr \<times> 'd option) list \<Rightarrow>
    addr option \<Rightarrow> addr option \<Rightarrow> bool" where
  "dseg h p c [] q n \<longleftrightarrow> q = p \<and> c = n"
| "dseg h p c ((a, d) # xs) q n \<longleftrightarrow> c = Some a \<and>
     (case h a of None \<Rightarrow> False
      | Some nd \<Rightarrow> nd_data nd = d \<and> nd_prev nd = p \<and> dseg h (Some a) (nd_next nd) xs q n)"

definition list_rep :: "'d heap \<Rightarrow> 'd list_t \<Rightarrow> (addr \<times> 'd option) list \<Rightarrow> bool" where
  "list_rep h l xs \<longleftrightarrow> dseg h None (l_head l) xs (l_tail l) None \<and> distinct (map fst xs) \<and>
     l_size l = length xs"

lemma dseg_append:
  "dseg h p c (xs @ ys) q n \<longleftrightarrow> (\<exists>m k. dseg h p c xs m k \<and> dseg h m k ys q n)"
  by (induction h p c xs q n rule: dseg.induct) (auto split: option.splits)

lemma dseg_frame [simp]:
  "a \<notin> set (map fst xs) \<Longrightarrow> dseg (h(a := v)) p c xs q n = dseg h p c xs q n"
  by (induction h p c xs q n rule: dseg.induct) (auto split: option.splits)

lemma dseg_alloc: "dseg h p c xs q n \<Longrightarrow> a \<in> set (map fst xs) \<Longrightarrow> h a \<noteq> None"
  by (induction h p c xs q n rule: dseg.induct) (auto split: option.splits)

lemma walk_dseg: "dseg h p c xs q n \<Longrightarrow> i \<le> length xs \<Longrightarrow>
    walk h c i = Some (if i < length xs then Some (fst (xs ! i)) else n)"
proof (induction h p c xs q n arbitrary: i rule: dseg.induct)
  case (2 h p c a d xs q n)
  then show ?case by (cases i) (auto split: option.splits)
qed auto

lemma deref_Some [simp]: "deref h (Some a) = map_option (Pair a) (h a)"
  by (simp add: deref_def)

text \<open>Redirecting the last node of a segment, and the back pointer of the first.\<close>

lemma dseg_set_next:
  assumes "dseg h p c xs q n" and "xs \<noteq> []" and "distinct (map fst xs)"
  obtains b nd where "q = Some b" "b = fst (last xs)" "h b = Some nd" "nd_next nd = n"
    "set_next h b n' = Some (h(b \<mapsto> nd\<lparr>nd_next := n'\<rparr>))"
    "dseg (h(b \<mapsto> nd\<lparr>nd_next := n'\<rparr>)) p c xs q n'"
proof -
  obtain ys b d where xs: "xs = ys @ [(b, d)]" using assms(2) by (metis rev_exhaust surj_pair)
  obtain m where m: "dseg h p c ys m (Some b)" and "dseg h m (Some b) [(b, d)] q n"
    using assms(1) unfolding xs dseg_append by auto
  then obtain nd where nd: "h b = Some nd" "nd_data nd = d" "nd_prev nd = m" "nd_next nd = n" "q = Some b"
    by (auto split: option.splits)
  have "b \<notin> set (map fst ys)" using assms(3) xs by auto
  with m have "dseg (h(b \<mapsto> nd\<lparr>nd_next := n'\<rparr>)) p c ys m (Some b)" by simp
  moreover have "dseg (h(b \<mapsto> nd\<lparr>nd_next := n'\<rparr>)) m (Some b) [(b, d)] q n'" using nd by simp
  ultimately have "dseg (h(b \<mapsto> nd\<lparr>nd_next := n'\<rparr>)) p c xs q n'"
    unfolding xs dseg_append by blast
  moreover have "set_next h b n' = Some (h(b \<mapsto> nd\<lparr>nd_next := n'\<rparr>))"
    using nd by (simp add: set_next_def)
  ultimately show ?thesis using that nd xs by simp
qed

lemma dseg_set_prev:
  assumes "dseg h p c xs q n" and "xs \<noteq> []" and "distinct (map fst xs)"
  obtains b nd where "c = Some b" "b = fst (hd xs)" "h b = Some nd" "nd_prev nd = p"
    "set_prev h b p' = Some (h(b \<mapsto> nd\<lparr>nd_prev := p'\<rparr>))"
    "dseg (h(b \<mapsto> nd\<lparr>nd_prev := p'\<rparr>)) p' c xs q n"
proof -
  obtain b d ys where xs: "xs = (b, d) # ys" using assms(2) by (metis list.exhaust surj_pair)
  obtain nd where nd: "c = Some b" "h b = Some nd" "nd_data nd = d" "nd_prev nd = p"
    "dseg h (Some b) (nd_next nd) ys q n"
    using assms(1) xs by (auto split: option.splits)
  have "b \<notin> set (map fst ys)" using assms(3) xs by auto
  with nd have "dseg (h(b \<mapsto> nd\<lparr>nd_prev := p'\<rparr>)) p' c xs q n" by (simp add: xs)
  moreover have "set_prev h b p' = Some (h(b \<mapsto> nd\<lparr>nd_prev := p'\<rparr>))"
    using nd by (simp add: set_prev_def)
  ultimately show ?thesis using that nd xs by simp
qed

lemma list_rep_tail: "list_rep h l xs \<Longrightarrow> l_tail l = (if xs = [] then None else Some (fst (last xs)))"
  unfolding list_rep_def using dseg_set_next [of h None "l_head l" xs "l_tail l" None] by fastforce

lemma list_rep_head: "list_rep h l xs \<Longrightarrow> l_head l = (if xs = [] then None else Some (fst (hd xs)))"
  unfolding list_rep_def using dseg_set_prev [of h None "l_head l" xs "l_tail l" None] by fastforce

lemma fresh_not_in_rep: "list_rep h l xs \<Longrightarrow> h a = None \<Longrightarrow> a \<notin> set (map fst xs)"
  using dseg_alloc by (fastforce simp: list_rep_def)

section \<open>The operations refine list operations\<close>

lemma list_append_rep:
  assumes rep: "list_rep h l xs" and m: "malloc h = Some a" and fresh: "h a = None"
  shows "\<exists>h' l'. list_append malloc h l d = Some (0, h', l') \<and> list_rep h' l' (xs @ [(a, d)])"
proof -
  let ?h1 = "h(a \<mapsto> \<lparr>nd_data = d, nd_next = None, nd_prev = l_tail l\<rparr>)"
  have a: "a \<notin> set (map fst xs)" using fresh_not_in_rep [OF rep fresh] .
  show ?thesis
  proof (cases "xs = []")
    case True
    with rep m show ?thesis
      by (auto simp: list_append_def list_rep_def Let_def split: option.splits)
  next
    case False
    have d1: "dseg ?h1 None (l_head l) xs (l_tail l) None" "distinct (map fst xs)"
      using rep a by (auto simp: list_rep_def)
    obtain b nd where b: "l_tail l = Some b" "b = fst (last xs)"
      "set_next ?h1 b (Some a) = Some (?h1(b \<mapsto> nd\<lparr>nd_next := Some a\<rparr>))"
      "dseg (?h1(b \<mapsto> nd\<lparr>nd_next := Some a\<rparr>)) None (l_head l) xs (l_tail l) (Some a)"
      using dseg_set_next [OF d1(1) False d1(2)] by metis
    have "b \<noteq> a" using a b(2) False by auto
    then have "dseg (?h1(b \<mapsto> nd\<lparr>nd_next := Some a\<rparr>)) (l_tail l) (Some a) [(a, d)] (Some a) None"
      by simp
    with b(4) have "dseg (?h1(b \<mapsto> nd\<lparr>nd_next := Some a\<rparr>)) None (l_head l) (xs @ [(a, d)]) (Some a) None"
      unfolding dseg_append by blast
    with b m rep a show ?thesis by (auto simp: list_append_def Let_def list_rep_def)
  qed
qed

lemma list_prepend_rep:
  assumes rep: "list_rep h l xs" and m: "malloc h = Some a" and fresh: "h a = None"
  shows "\<exists>h' l'. list_prepend malloc h l d = Some (0, h', l') \<and> list_rep h' l' ((a, d) # xs)"
proof -
  let ?h1 = "h(a \<mapsto> \<lparr>nd_data = d, nd_next = l_head l, nd_prev = None\<rparr>)"
  have a: "a \<notin> set (map fst xs)" using fresh_not_in_rep [OF rep fresh] .
  show ?thesis
  proof (cases "xs = []")
    case True
    with rep m show ?thesis
      by (auto simp: list_prepend_def list_rep_def Let_def split: option.splits)
  next
    case False
    have d1: "dseg ?h1 None (l_head l) xs (l_tail l) None" "distinct (map fst xs)"
      using rep a by (auto simp: list_rep_def)
    obtain b nd where b: "l_head l = Some b" "b = fst (hd xs)"
      "set_prev ?h1 b (Some a) = Some (?h1(b \<mapsto> nd\<lparr>nd_prev := Some a\<rparr>))"
      "dseg (?h1(b \<mapsto> nd\<lparr>nd_prev := Some a\<rparr>)) (Some a) (l_head l) xs (l_tail l) None"
      using dseg_set_prev [OF d1(1) False d1(2)] by metis
    have "b \<noteq> a" using a b(2) False by (metis hd_in_set image_eqI image_set)
    with b m rep a show ?thesis by (auto simp: list_prepend_def Let_def list_rep_def)
  qed
qed

lemma list_insert_rep:
  assumes rep: "list_rep h l xs" and m: "malloc h = Some a" and fresh: "h a = None"
  shows "\<exists>h' l'. list_insert malloc h l i d = Some (0, h', l') \<and>
           list_rep h' l' (take i xs @ (a, d) # drop i xs)"
proof -
  consider "i \<ge> length xs" | "i = 0" "i < length xs" | "0 < i" "i < length xs" by linarith
  then show ?thesis
  proof cases
    case 1
    with rep list_append_rep [of h l xs malloc a d, OF assms] show ?thesis by (simp add: list_insert_def list_rep_def)
  next
    case 2
    with rep list_prepend_rep [of h l xs malloc a d, OF assms] show ?thesis by (simp add: list_insert_def list_rep_def)
  next
    case 3
    define ys zs where "ys = take i xs" and "zs = drop i xs"
    have xs: "xs = ys @ zs" "ys \<noteq> []" "zs \<noteq> []" using 3 by (auto simp: ys_def zs_def)
    have dis: "distinct (map fst ys)" "distinct (map fst zs)" "a \<notin> set (map fst ys)"
      "a \<notin> set (map fst zs)" "set (map fst ys) \<inter> set (map fst zs) = {}"
      using rep fresh_not_in_rep [OF rep fresh] xs(1) by (auto simp: list_rep_def)
    obtain q k where seg: "dseg h None (l_head l) ys q k" "dseg h q k zs (l_tail l) None"
      using rep unfolding list_rep_def xs(1) dseg_append by blast
    obtain cur nd where cur: "q = Some cur" "cur = fst (last ys)" "h cur = Some nd" "nd_next nd = k"
      using dseg_set_next [OF seg(1) xs(2) dis(1)] by metis
    let ?h1 = "h(a \<mapsto> \<lparr>nd_data = d, nd_next = k, nd_prev = Some cur\<rparr>)"
    have seg1: "dseg ?h1 q k zs (l_tail l) None" using seg(2) dis(4) by simp
    obtain b ndb where b: "k = Some b" "b = fst (hd zs)"
      "set_prev ?h1 b (Some a) = Some (?h1(b \<mapsto> ndb\<lparr>nd_prev := Some a\<rparr>))"
      "dseg (?h1(b \<mapsto> ndb\<lparr>nd_prev := Some a\<rparr>)) (Some a) k zs (l_tail l) None"
      using dseg_set_prev [OF seg1 xs(3) dis(2)] by metis
    let ?h2 = "?h1(b \<mapsto> ndb\<lparr>nd_prev := Some a\<rparr>)"
    have bz: "b \<in> set (map fst zs)" using b(2) xs(3) by auto
    have "cur \<in> set (map fst ys)" using cur(2) xs(2) by auto
    with bz dis have ne: "b \<noteq> a" "cur \<noteq> a" "cur \<noteq> b" "b \<notin> set (map fst ys)" "cur \<notin> set (map fst zs)"
      by auto
    have seg2: "dseg ?h2 None (l_head l) ys q k" using seg(1) dis(3) ne(4) by simp
    obtain c nd2 where h3': "q = Some c"
      "set_next ?h2 c (Some a) = Some (?h2(c \<mapsto> nd2\<lparr>nd_next := Some a\<rparr>))"
      "dseg (?h2(c \<mapsto> nd2\<lparr>nd_next := Some a\<rparr>)) None (l_head l) ys q (Some a)"
      using dseg_set_next [OF seg2 xs(2) dis(1)] by metis
    have c: "c = cur" using h3'(1) cur(1) by simp
    note h3 = h3'(2,3) [unfolded c]
    let ?h3 = "?h2(cur \<mapsto> nd2\<lparr>nd_next := Some a\<rparr>)"
    have "dseg ?h3 q (Some a) ((a, d) # zs) (l_tail l) None"
      using b(4) ne cur(1) by simp
    with h3(2) have seg3: "dseg ?h3 None (l_head l) (ys @ (a, d) # zs) (l_tail l) None"
      unfolding dseg_append by blast
    have "ys \<noteq> []" "length ys = i" using 3 by (auto simp: ys_def)
    then have "last ys = xs ! (i - 1)" using 3 by (simp add: last_conv_nth) (simp add: ys_def)
    then have "walk h (l_head l) (i - 1) = Some (Some cur)"
      using walk_dseg [of h None "l_head l" xs "l_tail l" None "i - 1"] rep 3 cur(2)
      by (auto simp: list_rep_def)
    then have "list_insert malloc h l i d = Some (0, ?h3, l\<lparr>l_size := l_size l + 1\<rparr>)"
      using 3 rep m cur b(1,3) h3(1) by (simp add: list_insert_def list_rep_def)
    moreover have "list_rep ?h3 (l\<lparr>l_size := l_size l + 1\<rparr>) (ys @ (a, d) # zs)"
      using seg3 rep dis xs(1) by (auto simp: list_rep_def)
    ultimately show ?thesis by (auto simp: ys_def zs_def)
  qed
qed

lemma list_insert_fail:
  assumes rep: "list_rep h l xs" and "malloc h = None"
  shows "list_insert malloc h l i d = Some (-1, h, l)"
proof -
  have "\<exists>c. walk h (l_head l) (i - 1) = Some c" if "i < length xs"
    using walk_dseg [of h None "l_head l" xs "l_tail l" None "i - 1"] rep that
    by (simp add: list_rep_def)
  with assms show ?thesis
    by (auto simp: list_insert_def list_append_def list_prepend_def list_rep_def)
qed

lemma list_get_rep:
  assumes rep: "list_rep h l xs"
  shows "list_get h l i = Some (if i < length xs then snd (xs ! i) else None)"
proof (cases "i < length xs")
  case False
  with rep show ?thesis by (simp add: list_get_def list_rep_def)
next
  case True
  obtain a d where ad: "xs ! i = (a, d)" by (cases "xs ! i")
  have "dseg h None (l_head l) (take i xs @ (a, d) # drop (Suc i) xs) (l_tail l) None"
    using rep id_take_nth_drop [OF True] ad by (simp add: list_rep_def)
  then obtain nd where "h a = Some nd" "nd_data nd = d"
    unfolding dseg_append by (auto split: option.splits)
  moreover have "walk h (l_head l) i = Some (Some a)"
    using walk_dseg [of h None "l_head l" xs "l_tail l" None i] rep True ad
    by (simp add: list_rep_def)
  ultimately show ?thesis using True ad rep by (simp add: list_get_def list_rep_def)
qed

text \<open>Unlinking a node from between two segments.\<close>

lemma list_remove_rep:
  assumes rep: "list_rep h l xs" and i: "i < length xs"
  shows "\<exists>h' l'. list_remove h l i = Some (0, h', l', free_data l (snd (xs ! i))) \<and>
           list_rep h' l' (take i xs @ drop (Suc i) xs) \<and> h' (fst (xs ! i)) = None \<and>
           l_has_free l' = l_has_free l \<and> l_compare l' = l_compare l"
proof -
  obtain a d where ad: "xs ! i = (a, d)" by (cases "xs ! i")
  define ys zs where "ys = take i xs" and "zs = drop (Suc i) xs"
  have xs: "xs = ys @ (a, d) # zs" using id_take_nth_drop [OF i] ad by (simp add: ys_def zs_def)
  have dis: "distinct (map fst ys)" "distinct (map fst zs)" "a \<notin> set (map fst ys)"
    "a \<notin> set (map fst zs)" "set (map fst ys) \<inter> set (map fst zs) = {}"
    using rep unfolding xs by (auto simp: list_rep_def)
  obtain q where ysq: "dseg h None (l_head l) ys q (Some a)"
    and rest: "dseg h q (Some a) ((a, d) # zs) (l_tail l) None"
    using rep unfolding list_rep_def xs dseg_append by auto
  then obtain nd where nd: "h a = Some nd" "nd_data nd = d" "nd_prev nd = q"
    and zsq: "dseg h (Some a) (nd_next nd) zs (l_tail l) None" by (auto split: option.splits)
  define k where "k = nd_next nd"
  have w: "walk h (l_head l) i = Some (Some a)"
    using walk_dseg [of h None "l_head l" xs "l_tail l" None i] rep i ad by (simp add: list_rep_def)
  obtain h1 l1 where s1: "(case q of Some p \<Rightarrow> map_option (\<lambda>h1. (h1, l)) (set_next h p k)
        | None \<Rightarrow> Some (h, l\<lparr>l_head := k\<rparr>)) = Some (h1, l1)"
    and y1: "dseg h1 None (l_head l1) ys q k" and z1: "dseg h1 (Some a) k zs (l_tail l) None"
    and l1: "l_tail l1 = l_tail l" "l_size l1 = l_size l" "l_has_free l1 = l_has_free l"
      "l_compare l1 = l_compare l"
  proof (cases "ys = []")
    case True
    with ysq have "q = None" by simp
    then show thesis using that [of h "l\<lparr>l_head := k\<rparr>"] True zsq by (simp add: k_def)
  next
    case False
    obtain p ndp where p: "q = Some p" "p = fst (last ys)"
      "set_next h p k = Some (h(p \<mapsto> ndp\<lparr>nd_next := k\<rparr>))"
      "dseg (h(p \<mapsto> ndp\<lparr>nd_next := k\<rparr>)) None (l_head l) ys q k"
      using dseg_set_next [OF ysq False dis(1)] by metis
    have "p \<in> set (map fst ys)" using p(2) False by auto
    then have "p \<notin> set (map fst zs)" using dis(5) by auto
    then show thesis using that [of "h(p \<mapsto> ndp\<lparr>nd_next := k\<rparr>)" l] p zsq by (simp add: k_def)
  qed
  obtain h2 l2 where s2: "(case k of Some n \<Rightarrow> map_option (\<lambda>h2. (h2, l1)) (set_prev h1 n q)
        | None \<Rightarrow> Some (h1, l1\<lparr>l_tail := q\<rparr>)) = Some (h2, l2)"
    and y2: "dseg h2 None (l_head l2) ys q k" and z2: "dseg h2 q k zs (l_tail l2) None"
    and l2: "l_size l2 = l_size l" "l_has_free l2 = l_has_free l" "l_compare l2 = l_compare l"
  proof (cases "zs = []")
    case True
    with zsq have "k = None" by (simp add: k_def)
    then show thesis using that [of h1 "l1\<lparr>l_tail := q\<rparr>"] True y1 l1 by simp
  next
    case False
    obtain n ndn where n: "k = Some n" "n = fst (hd zs)"
      "set_prev h1 n q = Some (h1(n \<mapsto> ndn\<lparr>nd_prev := q\<rparr>))"
      "dseg (h1(n \<mapsto> ndn\<lparr>nd_prev := q\<rparr>)) q k zs (l_tail l) None"
      using dseg_set_prev [OF z1 False dis(2)] by metis
    have "n \<in> set (map fst zs)" using n(2) False by auto
    then have "n \<notin> set (map fst ys)" using dis(5) by auto
    then show thesis using that [of "h1(n \<mapsto> ndn\<lparr>nd_prev := q\<rparr>)" l1] n y1 l1 by simp
  qed
  let ?h = "h2(a := None)" and ?l = "l2\<lparr>l_size := l_size l2 - 1\<rparr>"
  have "list_remove h l i = Some (0, ?h, ?l, free_data l d)"
    using rep i w nd(1,2) s1 [unfolded nd(3) [symmetric] k_def] s2 [unfolded nd(3) [symmetric] k_def]
    by (simp add: list_remove_def list_rep_def)
  moreover have "dseg ?h None (l_head ?l) (ys @ zs) (l_tail ?l) None"
    using y2 z2 dis(3,4) unfolding dseg_append by auto
  then have "list_rep ?h ?l (ys @ zs)" using dis rep l2 by (auto simp: list_rep_def xs)
  ultimately show ?thesis using l2 ad by (auto simp: ys_def zs_def)
qed

lemma list_remove_out_of_range:
  "list_rep h l xs \<Longrightarrow> length xs \<le> i \<Longrightarrow> list_remove h l i = Some (-1, h, l, [])"
  by (simp add: list_remove_def list_rep_def)

lemma find_index_dseg:
  "dseg h p c xs q None \<Longrightarrow> find_index h l x c i =
     Some (map_option (\<lambda>j. i + j) (first_index (\<lambda>(_, d). data_match l d x) xs))"
proof (induction xs arbitrary: p c i)
  case Nil
  then show ?case by (simp add: find_index.simps)
next
  case (Cons x' xs)
  obtain a d where ad: "x' = (a, d)" by (cases x')
  with Cons.prems obtain nd where "c = Some a" "h a = Some nd" "nd_data nd = d"
    "dseg h (Some a) (nd_next nd) xs q None" by (auto split: option.splits)
  with Cons.IH [of "Some a" "nd_next nd" "i + 1"] ad show ?case
    by (auto simp: find_index.simps [of _ _ _ "Some a"] option.map_comp comp_def)
qed

lemma list_remove_data_rep:
  assumes rep: "list_rep h l xs"
  shows "case first_index (\<lambda>(_, d). data_match l d x) xs of
      None \<Rightarrow> list_remove_data h l (Some x) = Some (-1, h, l, [])
    | Some i \<Rightarrow> (\<exists>h' l'. list_remove_data h l (Some x) = Some (0, h', l', free_data l (snd (xs ! i))) \<and>
        list_rep h' l' (take i xs @ drop (Suc i) xs))"
proof -
  have f: "find_index h l x (l_head l) 0 = Some (first_index (\<lambda>(_, d). data_match l d x) xs)"
    using find_index_dseg [of h None "l_head l" xs "l_tail l" l x 0] rep
    by (simp add: list_rep_def option.map_ident)
  show ?thesis
  proof (cases "first_index (\<lambda>(_, d). data_match l d x) xs")
    case None
    with f show ?thesis by (simp add: list_remove_data_def)
  next
    case (Some i)
    then have "i < length xs" using first_index_Some by blast
    with f Some list_remove_rep [OF rep this] show ?thesis by (auto simp: list_remove_data_def)
  qed
qed

lemma clear_loop_dseg:
  "dseg h p c xs q None \<Longrightarrow> distinct (map fst xs) \<Longrightarrow>
     clear_loop l h c freed =
       Some (h |` (- set (map fst xs)), freed @ concat (map (\<lambda>(_, d). free_data l d) xs))"
proof (induction xs arbitrary: h p c freed)
  case Nil
  then show ?case by (simp add: clear_loop.simps restrict_map_def fun_eq_iff)
next
  case (Cons x xs)
  obtain a d where ad: "x = (a, d)" by (cases x)
  with Cons.prems(1) obtain nd where nd: "c = Some a" "h a = Some nd" "nd_data nd = d"
    "dseg h (Some a) (nd_next nd) xs q None" by (auto split: option.splits)
  have "dseg (h(a := None)) (Some a) (nd_next nd) xs q None" using nd(4) Cons.prems(2) ad by simp
  then have IH: "clear_loop l (h(a := None)) (nd_next nd) (freed @ free_data l d) =
      Some ((h(a := None)) |` (- set (map fst xs)),
            (freed @ free_data l d) @ concat (map (\<lambda>(_, d). free_data l d) xs))"
    by (rule Cons.IH) (use Cons.prems(2) in simp)
  have step: "clear_loop l h c freed = clear_loop l (h(a := None)) (nd_next nd) (freed @ free_data l d)"
    using nd by (simp add: clear_loop.simps [of l h "Some a"])
  have "(h(a := None)) |` (- set (map fst xs)) = h |` (- set (map fst (x # xs)))"
    using ad by (auto simp: restrict_map_def fun_eq_iff)
  then show ?case unfolding step IH using ad by simp
qed

lemma list_clear_rep:
  assumes rep: "list_rep h l xs"
  shows "\<exists>l'. list_clear h l = Some (h |` (- set (map fst xs)), l',
             concat (map (\<lambda>(_, d). free_data l d) xs)) \<and> list_rep (h |` (- set (map fst xs))) l' []"
  using clear_loop_dseg [of h None "l_head l" xs "l_tail l" l "[]"] rep
  by (simp add: list_clear_def list_rep_def)

section \<open>Iteration\<close>

text \<open>The client loop \<open>while (list_iterator_has_next(it)) visit(list_iterator_next(it))\<close>.\<close>

partial_function (option) iterate :: "'d heap \<Rightarrow> list_iterator \<Rightarrow> 'd option list \<Rightarrow>
    ('d option list \<times> list_iterator) option" where
  "iterate h it seen =
     (if list_iterator_has_next (Some it)
      then Option.bind (list_iterator_next h it) (\<lambda>(d, it'). iterate h it' (seen @ [d]))
      else Some (seen, it))"

lemma iterate_dseg:
  "dseg h p c xs q None \<Longrightarrow>
     iterate h \<lparr>it_current = c, it_index = i\<rparr> seen =
       Some (seen @ map snd xs, \<lparr>it_current = None, it_index = i + length xs\<rparr>)"
proof (induction xs arbitrary: p c i seen)
  case Nil
  then show ?case by (simp add: iterate.simps list_iterator_has_next_def)
next
  case (Cons x xs)
  obtain a d where ad: "x = (a, d)" by (cases x)
  with Cons.prems obtain nd where nd: "c = Some a" "h a = Some nd" "nd_data nd = d"
    "dseg h (Some a) (nd_next nd) xs q None" by (auto split: option.splits)
  with Cons.IH [OF nd(4), of "i + 1" "seen @ [d]"] ad show ?case
    by (simp add: iterate.simps [of h "\<lparr>it_current = Some a, it_index = i\<rparr>"]
        list_iterator_has_next_def list_iterator_next_def)
qed

section \<open>Sessions\<close>

datatype 'd list_op = LAppend "'d option" | LPrepend "'d option" | LInsert nat "'d option"
  | LRemove nat | LGet nat

datatype 'd list_answer = LCode int | LData "'d option"

fun list_step :: "('d heap \<Rightarrow> addr option) \<Rightarrow> 'd heap \<Rightarrow> 'd list_t \<Rightarrow> 'd list_op \<Rightarrow>
    ('d heap \<times> 'd list_t \<times> 'd list_answer) option" where
  "list_step m h l (LAppend d) = map_option (\<lambda>(r, h', l'). (h', l', LCode r)) (list_append m h l d)"
| "list_step m h l (LPrepend d) = map_option (\<lambda>(r, h', l'). (h', l', LCode r)) (list_prepend m h l d)"
| "list_step m h l (LInsert i d) = map_option (\<lambda>(r, h', l'). (h', l', LCode r)) (list_insert m h l i d)"
| "list_step m h l (LRemove i) = map_option (\<lambda>(r, h', l', _). (h', l', LCode r)) (list_remove h l i)"
| "list_step m h l (LGet i) = map_option (\<lambda>d. (h, l, LData d)) (list_get h l i)"

fun list_run :: "('d heap \<Rightarrow> addr option) \<Rightarrow> 'd heap \<Rightarrow> 'd list_t \<Rightarrow> 'd list_op list \<Rightarrow>
    ('d heap \<times> 'd list_t \<times> 'd list_answer list) option" where
  "list_run m h l [] = Some (h, l, [])"
| "list_run m h l (op # ops) =
     Option.bind (list_step m h l op) (\<lambda>(h', l', a).
       map_option (\<lambda>(h'', l'', as). (h'', l'', a # as)) (list_run m h' l' ops))"

text \<open>What one call may do to the abstract list: the operation itself, or failure (code \<open>-1\<close>)
  with no change when an allocation was needed and refused.\<close>

fun spec_step :: "'d option list \<Rightarrow> 'd list_op \<Rightarrow> 'd option list \<Rightarrow> 'd list_answer \<Rightarrow> bool" where
  "spec_step xs (LAppend d) ys a \<longleftrightarrow> ys = xs @ [d] \<and> a = LCode 0 \<or> ys = xs \<and> a = LCode (-1)"
| "spec_step xs (LPrepend d) ys a \<longleftrightarrow> ys = d # xs \<and> a = LCode 0 \<or> ys = xs \<and> a = LCode (-1)"
| "spec_step xs (LInsert i d) ys a \<longleftrightarrow>
     ys = take i xs @ d # drop i xs \<and> a = LCode 0 \<or> ys = xs \<and> a = LCode (-1)"
| "spec_step xs (LRemove i) ys a \<longleftrightarrow>
     (if i < length xs then ys = take i xs @ drop (Suc i) xs \<and> a = LCode 0
      else ys = xs \<and> a = LCode (-1))"
| "spec_step xs (LGet i) ys a \<longleftrightarrow> ys = xs \<and> a = LData (if i < length xs then xs ! i else None)"

fun spec_run :: "'d option list \<Rightarrow> 'd list_op list \<Rightarrow> 'd option list \<Rightarrow> 'd list_answer list \<Rightarrow> bool" where
  "spec_run xs [] ys as \<longleftrightarrow> ys = xs \<and> as = []"
| "spec_run xs (op # ops) ys as \<longleftrightarrow>
     (\<exists>zs a bs. as = a # bs \<and> spec_step xs op zs a \<and> spec_run zs ops ys bs)"

text \<open>The contract of \<open>malloc\<close>: it never returns the address of a live node.\<close>

definition malloc_fresh :: "('d heap \<Rightarrow> addr option) \<Rightarrow> bool" where
  "malloc_fresh m \<longleftrightarrow> (\<forall>h a. m h = Some a \<longrightarrow> h a = None)"

lemma list_step_remove:
  assumes rep: "list_rep h l xs"
  shows "\<exists>h' l' a ys. list_step m h l (LRemove i) = Some (h', l', a) \<and> list_rep h' l' ys \<and>
           spec_step (map snd xs) (LRemove i) (map snd ys) a"
proof (cases "i < length xs")
  case True
  obtain h' l' f where r: "list_remove h l i = Some (0, h', l', f)"
    "list_rep h' l' (take i xs @ drop (Suc i) xs)"
    using list_remove_rep [OF rep True] by blast
  then have "list_step m h l (LRemove i) = Some (h', l', LCode 0)" by simp
  moreover have "spec_step (map snd xs) (LRemove i) (map snd (take i xs @ drop (Suc i) xs)) (LCode 0)"
    using True by (simp add: take_map drop_map)
  ultimately show ?thesis using r(2) by blast
next
  case False
  then show ?thesis using list_remove_out_of_range [OF rep, of i] rep by auto
qed

lemma list_step_refines:
  assumes m: "malloc_fresh m" and rep: "list_rep h l xs"
  shows "\<exists>h' l' a ys. list_step m h l op = Some (h', l', a) \<and> list_rep h' l' ys \<and>
           spec_step (map snd xs) op (map snd ys) a"
proof (cases "m h")
  case None
  show ?thesis
  proof (cases op)
    case (LRemove i)
    then show ?thesis using list_step_remove [OF rep] by blast
  qed (use rep None list_insert_fail [of h l xs m, OF rep None] list_get_rep [OF rep] in
        \<open>auto simp: list_append_def list_prepend_def\<close>)
next
  case (Some a)
  have f: "h a = None" using m Some by (simp add: malloc_fresh_def)
  show ?thesis
  proof (cases op)
    case (LAppend d)
    obtain h' l' where "list_append m h l d = Some (0, h', l')" "list_rep h' l' (xs @ [(a, d)])"
      using list_append_rep [of h l xs m a d, OF rep Some f] by blast
    with LAppend show ?thesis by fastforce
  next
    case (LPrepend d)
    obtain h' l' where "list_prepend m h l d = Some (0, h', l')" "list_rep h' l' ((a, d) # xs)"
      using list_prepend_rep [of h l xs m a d, OF rep Some f] by blast
    with LPrepend show ?thesis by fastforce
  next
    case (LInsert i d)
    obtain h' l' where r: "list_insert m h l i d = Some (0, h', l')"
      "list_rep h' l' (take i xs @ (a, d) # drop i xs)"
      using list_insert_rep [of h l xs m a i d, OF rep Some f] by blast
    have "spec_step (map snd xs) op (map snd (take i xs @ (a, d) # drop i xs)) (LCode 0)"
      using LInsert by (simp add: take_map drop_map)
    with LInsert r show ?thesis by fastforce
  next
    case (LRemove i)
    then show ?thesis using list_step_remove [OF rep] by blast
  next
    case (LGet i)
    then show ?thesis using list_get_rep [OF rep] rep by auto
  qed
qed

lemma list_run_refines:
  "malloc_fresh m \<Longrightarrow> list_rep h l xs \<Longrightarrow>
     \<exists>h' l' as ys. list_run m h l ops = Some (h', l', as) \<and> list_rep h' l' ys \<and>
       spec_run (map snd xs) ops (map snd ys) as"
proof (induction ops arbitrary: h l xs)
  case Nil
  then show ?case by auto
next
  case (Cons op ops)
  obtain h1 l1 a ys1 where s: "list_step m h l op = Some (h1, l1, a)" "list_rep h1 l1 ys1"
    "spec_step (map snd xs) op (map snd ys1) a"
    using list_step_refines [OF Cons.prems] by blast
  obtain h' l' as ys where r: "list_run m h1 l1 ops = Some (h', l', as)" "list_rep h' l' ys"
    "spec_run (map snd ys1) ops (map snd ys) as"
    using Cons.IH [OF Cons.prems(1) s(2)] by blast
  from s(3) r(3) have "spec_run (map snd xs) (op # ops) (map snd ys) (a # as)" by auto
  moreover from s(1) r(1) have "list_run m h l (op # ops) = Some (h', l', a # as)" by simp
  ultimately show ?case using r(2) by blast
qed

section \<open>Properties\<close>

text \<open>
  (C5) From a new list, any sequence of appends, prepends, insertions, removals and reads, with any
  allocator that returns fresh nodes or fails, never follows a \<open>NULL\<close> or freed pointer, answers
  like the same operations on a plain sequence, and leaves a well-formed doubly linked chain
  (forward and backward pointers agree, the tail is the last node, the size is exact).
\<close>

theorem linked_list_refines_sequence:
  assumes "malloc_fresh m" and "list_create True f cmp = Some l"
  shows "\<exists>h' l' as ys. list_run m Map.empty l ops = Some (h', l', as) \<and> list_rep h' l' ys \<and>
           spec_run [] ops (map snd ys) as"
proof -
  have "list_rep Map.empty l []" using assms(2) by (auto simp: list_create_def list_rep_def)
  from list_run_refines [OF assms(1) this] show ?thesis by simp
qed

definition two_slots :: "nat heap \<Rightarrow> addr option" where
  "two_slots h = (if h 1 = None then Some 1 else if h 2 = None then Some 2 else None)"

lemma linked_list_refines_sequence_witness:
  "\<exists>l h' l' as ys. list_create True False None = Some l \<and>
     list_run two_slots Map.empty l [LAppend (Some 7), LInsert 0 (Some 8), LAppend None, LRemove 1, LGet 0]
       = Some (h', l', as) \<and> list_rep h' l' ys \<and>
     spec_run [] [LAppend (Some 7), LInsert 0 (Some 8), LAppend None, LRemove 1, LGet 0] (map snd ys) as"
proof -
  have f: "malloc_fresh two_slots" by (simp add: malloc_fresh_def two_slots_def)
  obtain l :: "nat list_t" where l: "list_create True False None = Some l"
    by (simp add: list_create_def)
  from linked_list_refines_sequence [OF f l] l show ?thesis by blast
qed

text \<open>
  (C32) Iterating over a well-formed list from \<open>list_iterator_create\<close> ends after exactly
  \<open>size\<close> steps and yields the elements in list order, each once.
\<close>

theorem list_iteration_complete:
  assumes "list_rep h l xs" and "list_iterator_create True l = Some it"
  shows "iterate h it [] =
           Some (map snd xs, \<lparr>it_current = None, it_index = list_size (Some l)\<rparr>)"
  using iterate_dseg [of h None "l_head l" xs "l_tail l" 0 "[]"] assms
  by (auto simp: list_iterator_create_def list_rep_def list_size_def)

lemma list_iteration_complete_witness:
  "iterate [3 \<mapsto> \<lparr>nd_data = Some (9::nat), nd_next = None, nd_prev = None\<rparr>]
     \<lparr>it_current = Some 3, it_index = 0\<rparr> [] = Some ([Some 9], \<lparr>it_current = None, it_index = 1\<rparr>)"
  using list_iteration_complete [of "[3 \<mapsto> \<lparr>nd_data = Some (9::nat), nd_next = None, nd_prev = None\<rparr>]"
      "\<lparr>l_head = Some 3, l_tail = Some 3, l_size = 1, l_has_free = False, l_compare = None\<rparr>"
      "[(3, Some 9)]" "\<lparr>it_current = Some 3, it_index = 0\<rparr>"]
  by (simp add: list_rep_def list_iterator_create_def list_size_def)

end
