(* ===== verification/C_Lib.thy ===== *)
theory C_Lib
  imports Chat_Prelude
begin

text \<open>
  The parts of the C standard library that the string code of the server uses, in the "C"
  locale: character classes, case conversion, hexadecimal digits, tokenising, searching and
  \<open>strtol\<close>. A character is a byte; strings carry no terminator.
\<close>

definition NUL :: char where "NUL = CHR 0x00"

definition is_cstr :: "string \<Rightarrow> bool" where
  "is_cstr s \<longleftrightarrow> NUL \<notin> set s"

lemma is_cstr_simps [simp]:
  "is_cstr []" "is_cstr (c # s) \<longleftrightarrow> c \<noteq> NUL \<and> is_cstr s" "is_cstr (s @ t) \<longleftrightarrow> is_cstr s \<and> is_cstr t"
  by (auto simp: is_cstr_def)

section \<open>Character classes\<close>

definition code :: "char \<Rightarrow> nat" where "code c = of_char c"

definition isspace :: "char \<Rightarrow> bool" where
  "isspace c \<longleftrightarrow> code c = 32 \<or> 9 \<le> code c \<and> code c \<le> 13"

definition isdigit :: "char \<Rightarrow> bool" where
  "isdigit c \<longleftrightarrow> 48 \<le> code c \<and> code c \<le> 57"

definition isupper :: "char \<Rightarrow> bool" where
  "isupper c \<longleftrightarrow> 65 \<le> code c \<and> code c \<le> 90"

definition islower :: "char \<Rightarrow> bool" where
  "islower c \<longleftrightarrow> 97 \<le> code c \<and> code c \<le> 122"

definition isalpha :: "char \<Rightarrow> bool" where
  "isalpha c \<longleftrightarrow> isupper c \<or> islower c"

definition isalnum :: "char \<Rightarrow> bool" where
  "isalnum c \<longleftrightarrow> isalpha c \<or> isdigit c"

definition isxdigit :: "char \<Rightarrow> bool" where
  "isxdigit c \<longleftrightarrow> isdigit c \<or> 65 \<le> code c \<and> code c \<le> 70 \<or> 97 \<le> code c \<and> code c \<le> 102"

definition tolower :: "char \<Rightarrow> char" where
  "tolower c = (if isupper c then char_of (code c + 32) else c)"

definition toupper :: "char \<Rightarrow> char" where
  "toupper c = (if islower c then char_of (code c - 32) else c)"

lemma code_less [simp]: "code c < 256"
  by (simp add: code_def)

lemma char_of_code [simp]: "char_of (code c) = c"
  by (simp add: code_def)

lemma code_char_of [simp]: "n < 256 \<Longrightarrow> code (char_of n) = n"
  by (simp add: code_def)

lemma code_inject [simp]: "code c = code d \<longleftrightarrow> c = d"
  by (simp add: code_def)

lemma code_NUL [simp]: "code NUL = 0"
  by (simp add: code_def NUL_def)

lemma code_eq_0 [simp]: "code c = 0 \<longleftrightarrow> c = NUL"
  by (metis code_NUL code_inject)

lemma not_isspace_NUL [simp]: "\<not> isspace NUL"
  by (simp add: isspace_def)

lemma not_isxdigit_NUL [simp]: "\<not> isxdigit NUL"
  by (simp add: isxdigit_def isdigit_def)

section \<open>Hexadecimal\<close>

definition hexdigit_val :: "char \<Rightarrow> nat" where
  "hexdigit_val c =
     (if isdigit c then code c - 48
      else if 65 \<le> code c \<and> code c \<le> 70 then code c - 55 else code c - 87)"

text \<open>The digits printed by \<open>%x\<close>, and those of the table \<open>"0123456789ABCDEF"\<close>.\<close>

definition hexdigit_lower :: "nat \<Rightarrow> char" where
  "hexdigit_lower n = char_of (if n < 10 then n + 48 else n + 87)"

definition hexdigit_upper :: "nat \<Rightarrow> char" where
  "hexdigit_upper n = char_of (if n < 10 then n + 48 else n + 55)"

lemma hexdigit_lower [simp]:
  "n < 16 \<Longrightarrow> hexdigit_val (hexdigit_lower n) = n" "n < 16 \<Longrightarrow> isxdigit (hexdigit_lower n)"
  "n < 16 \<Longrightarrow> hexdigit_lower n \<noteq> NUL" "n < 16 \<Longrightarrow> \<not> isspace (hexdigit_lower n)"
  by (auto simp: hexdigit_lower_def hexdigit_val_def isxdigit_def isdigit_def isspace_def
      code_eq_0 [symmetric] simp del: code_eq_0)

lemma hexdigit_upper [simp]:
  "n < 16 \<Longrightarrow> hexdigit_val (hexdigit_upper n) = n" "n < 16 \<Longrightarrow> isxdigit (hexdigit_upper n)"
  "n < 16 \<Longrightarrow> hexdigit_upper n \<noteq> NUL"
  by (auto simp: hexdigit_upper_def hexdigit_val_def isxdigit_def isdigit_def
      code_eq_0 [symmetric] simp del: code_eq_0)

section \<open>Searching and tokenising\<close>

text \<open>\<open>strtok_r\<close> to exhaustion: the maximal runs of characters outside the delimiter set.\<close>

function strtok_all :: "string \<Rightarrow> string \<Rightarrow> string list" where
  "strtok_all delim s =
     (let s' = dropWhile (\<lambda>c. c \<in> set delim) s in
      if s' = [] then []
      else takeWhile (\<lambda>c. c \<notin> set delim) s' #
           strtok_all delim (dropWhile (\<lambda>c. c \<notin> set delim) s'))"
  by pat_completeness auto
termination
proof (relation "measure (\<lambda>(_, s). length s)", goal_cases)
  case (2 delim s s')
  then obtain c t where c: "s' = c # t" by (metis neq_Nil_conv)
  then have "c \<notin> set delim" using 2 by (metis hd_dropWhile list.distinct(1) list.sel(1))
  with c have "length (dropWhile (\<lambda>c. c \<notin> set delim) s') < length s'"
    using length_dropWhile_le [of "\<lambda>c. c \<notin> set delim" t] by simp
  also have "\<dots> \<le> length s" using 2(1) length_dropWhile_le by metis
  finally show ?case by simp
qed simp

declare strtok_all.simps [simp del]

text \<open>\<open>strrchr(s, c)\<close> as the index of the last occurrence.\<close>

fun strrchr :: "string \<Rightarrow> char \<Rightarrow> nat option" where
  "strrchr [] c = None"
| "strrchr (d # s) c =
     (case strrchr s c of Some i \<Rightarrow> Some (Suc i) | None \<Rightarrow> if d = c then Some 0 else None)"

definition strchr :: "string \<Rightarrow> char \<Rightarrow> nat option" where
  "strchr s c = first_index (\<lambda>d. d = c) s"

lemma strrchr_None: "strrchr s c = None \<longleftrightarrow> c \<notin> set s"
  by (induction s) (auto split: option.splits)

lemma strrchr_Some:
  "strrchr s c = Some i \<Longrightarrow> i < length s \<and> s ! i = c \<and> c \<notin> set (drop (Suc i) s)"
proof (induction s arbitrary: i)
  case Nil
  then show ?case by simp
next
  case (Cons d s)
  then show ?case by (auto simp: strrchr_None split: option.splits if_splits)
qed

text \<open>\<open>strstr(s, pat)\<close> for a non-empty pattern: the first position where it matches.\<close>

definition is_prefix :: "string \<Rightarrow> string \<Rightarrow> bool" where
  "is_prefix p s \<longleftrightarrow> take (length p) s = p"

fun strstr :: "string \<Rightarrow> string \<Rightarrow> nat option" where
  "strstr [] p = (if p = [] then Some 0 else None)"
| "strstr (c # s) p =
     (if is_prefix p (c # s) then Some 0 else map_option Suc (strstr s p))"

lemma strstr_Some: "strstr s p = Some i \<Longrightarrow> i + length p \<le> length s \<and> take (length p) (drop i s) = p"
proof (induction s arbitrary: i)
  case Nil
  then show ?case by (auto split: if_splits)
next
  case (Cons c s)
  show ?case
  proof (cases "is_prefix p (c # s)")
    case True
    then have "length p \<le> length (c # s)" unfolding is_prefix_def by (metis length_take min.cobounded1)
    with True Cons.prems show ?thesis by (simp add: is_prefix_def)
  next
    case False
    with Cons show ?thesis by auto
  qed
qed

lemma strstr_progress: "strstr s p = Some i \<Longrightarrow> p \<noteq> [] \<Longrightarrow> length s - (i + length p) < length s"
  using strstr_Some [of s p i] by (cases p) auto

section \<open>strtol\<close>

definition LONG_MAX :: int where "LONG_MAX = 2 ^ 63 - 1"
definition LONG_MIN :: int where "LONG_MIN = - (2 ^ 63)"

definition clamp_long :: "int \<Rightarrow> int" where
  "clamp_long n = max LONG_MIN (min LONG_MAX n)"

definition dec_value :: "string \<Rightarrow> int" where
  "dec_value ds = foldl (\<lambda>v d. 10 * v + int (code d - 48)) 0 ds"

text \<open>\<open>strtol(s, &end, 10)\<close>: the value and the rest of the string after the number; without any
  digit the end pointer is the start of the string.\<close>

definition strtol10 :: "string \<Rightarrow> int \<times> string" where
  "strtol10 s =
     (let s1 = dropWhile isspace s;
          neg = (s1 \<noteq> [] \<and> hd s1 = CHR ''-'');
          s2 = (if s1 \<noteq> [] \<and> (hd s1 = CHR ''-'' \<or> hd s1 = CHR ''+'') then tl s1 else s1);
          ds = takeWhile isdigit s2
      in if ds = [] then (0, s)
         else (clamp_long (if neg then - dec_value ds else dec_value ds), dropWhile isdigit s2))"

text \<open>\<open>strtoul(s, NULL, 16)\<close> as an integer before the conversion to the unsigned result type.\<close>

definition strtoul16 :: "string \<Rightarrow> int" where
  "strtoul16 s =
     (let s1 = dropWhile isspace s;
          neg = (s1 \<noteq> [] \<and> hd s1 = CHR ''-'');
          s2 = (if s1 \<noteq> [] \<and> (hd s1 = CHR ''-'' \<or> hd s1 = CHR ''+'') then tl s1 else s1);
          s3 = (case s2 of a # b # c # _ \<Rightarrow>
                  if a = CHR ''0'' \<and> (b = CHR ''x'' \<or> b = CHR ''X'') \<and> isxdigit c then drop 2 s2 else s2
                | _ \<Rightarrow> s2);
          v = foldl (\<lambda>v d. 16 * v + int (hexdigit_val d)) 0 (takeWhile isxdigit s3)
      in if neg then - v else v)"

text \<open>\<open>strcasecmp(s, t) == 0\<close>, and the result of \<open>snprintf\<close> into a buffer of \<open>n\<close> bytes.\<close>

definition strcasecmp_eq :: "string \<Rightarrow> string \<Rightarrow> bool" where
  "strcasecmp_eq s t \<longleftrightarrow> map tolower s = map tolower t"

definition snprintf :: "nat \<Rightarrow> string \<Rightarrow> string" where
  "snprintf n s = take (n - 1) s"

text \<open>The digits of \<open>%llu\<close> and \<open>%ld\<close>.\<close>

fun dec_nat :: "nat \<Rightarrow> string" where
  "dec_nat n = (if n < 10 then [char_of (48 + n)] else dec_nat (n div 10) @ [char_of (48 + n mod 10)])"

declare dec_nat.simps [simp del]

definition dec_int :: "int \<Rightarrow> string" where
  "dec_int n = (if n < 0 then CHR ''-'' # dec_nat (nat (- n)) else dec_nat (nat n))"

text \<open>\<open>(int) result\<close>: truncation of a \<open>long\<close> to 32 bits.\<close>

definition int_of_long :: "int \<Rightarrow> int" where
  "int_of_long n = sint (word_of_int n :: 32 word)"

end
