(* ===== verification/Dyn_String.thy ===== *)
theory Dyn_String
  imports C_Lib
begin

text \<open>
  The growing string \<open>string_t\<close> of \<open>server/src/utils.c\<close> (\<open>string_create\<close> to
  \<open>string_compare\<close>). Length and capacity are 64-bit words, because the capacity is doubled until
  it exceeds the new length; the character array is kept whole, with its terminator, so that an
  access outside it is visible. An allocator is a sequence of outcomes: request number \<open>k\<close> fails,
  or succeeds and leaves some bytes in the fresh memory.
\<close>

type_synonym alloc = "nat \<Rightarrow> (nat \<Rightarrow> char) option"

record string_t =
  s_data :: "char list"
  s_length :: size_t
  s_capacity :: size_t

definition utils_strdup :: "alloc \<Rightarrow> nat \<Rightarrow> string option \<Rightarrow> string option" where
  "utils_strdup al k s =
     (case s of None \<Rightarrow> None | Some t \<Rightarrow> (case al k of None \<Rightarrow> None | Some _ \<Rightarrow> Some t))"

text \<open>Requests number 0 (the structure) and 1 (the array).\<close>

definition string_create :: "alloc \<Rightarrow> size_t \<Rightarrow> string_t option" where
  "string_create al initial =
     (let cap = (if initial < 16 then 16 else initial) in
      case al 0 of None \<Rightarrow> None
      | Some _ \<Rightarrow> (case al 1 of None \<Rightarrow> None
        | Some g \<Rightarrow> Some \<lparr>s_data = (map g [0..<unat cap])[0 := NUL], s_length = 0,
                          s_capacity = cap\<rparr>))"

definition string_clear :: "string_t \<Rightarrow> string_t" where
  "string_clear s = s\<lparr>s_data := (s_data s)[0 := NUL], s_length := 0\<rparr>"

text \<open>\<open>while (new_capacity <= new_length) new_capacity *= 2;\<close> with the wrap-around of \<open>size_t\<close>.\<close>

partial_function (option) grow_loop :: "size_t \<Rightarrow> size_t \<Rightarrow> size_t option" where
  "grow_loop cap len = (if cap \<le> len then grow_loop (cap * 2) len else Some cap)"

text \<open>The reallocation step shared by \<open>string_append\<close> and \<open>string_append_format\<close>: \<open>Inl\<close> is the
  early return \<open>-1\<close>.\<close>

definition string_reserve :: "alloc \<Rightarrow> nat \<Rightarrow> string_t \<Rightarrow> size_t \<Rightarrow> (unit + string_t) option" where
  "string_reserve al k s new_length =
     (if new_length + 1 > s_capacity s then
        map_option (\<lambda>cap. case al k of None \<Rightarrow> Inl ()
          | Some g \<Rightarrow> Inr (s\<lparr>s_data := take (unat cap) (s_data s) @
                               map g [length (s_data s)..<unat cap],
                            s_capacity := cap\<rparr>))
          (grow_loop (s_capacity s * 2) new_length)
      else Some (Inr s))"

text \<open>The bodies of the append operations once their pointer arguments are known to be set. In
  the second one \<open>formatted\<close> is what the format and its arguments print, \<open>None\<close> when
  \<open>vsnprintf\<close> fails; its second \<open>vsnprintf\<close> writes at most \<open>capacity - length\<close> bytes, the
  terminator included.\<close>

definition str_append :: "alloc \<Rightarrow> nat \<Rightarrow> string_t \<Rightarrow> string \<Rightarrow> (int \<times> string_t) option" where
  "str_append al k s text =
     (let new_length = s_length s + of_nat (length text) in
      Option.bind (string_reserve al k s new_length) (\<lambda>r. case r of
        Inl _ \<Rightarrow> Some (-1, s)
      | Inr s1 \<Rightarrow>
          Option.bind (mem_write (s_data s1) (unat (s_length s1)) text) (\<lambda>d1.
          Option.bind (mem_write d1 (unat new_length) [NUL]) (\<lambda>d2.
            Some (0, s1\<lparr>s_data := d2, s_length := new_length\<rparr>)))))"

definition str_append_format ::
    "alloc \<Rightarrow> nat \<Rightarrow> string_t \<Rightarrow> string option \<Rightarrow> (int \<times> string_t) option" where
  "str_append_format al k s formatted =
     (case formatted of None \<Rightarrow> Some (-1, s)
      | Some text \<Rightarrow>
          let new_length = s_length s + of_nat (length text) in
          Option.bind (string_reserve al k s new_length) (\<lambda>r. case r of
            Inl _ \<Rightarrow> Some (-1, s)
          | Inr s1 \<Rightarrow>
              let room = unat (s_capacity s1 - s_length s1) in
              Option.bind (if room = 0 then Some (s_data s1)
                           else mem_write (s_data s1) (unat (s_length s1))
                                  (take (room - 1) text @ [NUL]))
                (\<lambda>d. Some (0, s1\<lparr>s_data := d, s_length := new_length\<rparr>))))"

definition string_append ::
    "alloc \<Rightarrow> nat \<Rightarrow> string_t option \<Rightarrow> string option \<Rightarrow> (int \<times> string_t option) option" where
  "string_append al k str text =
     (case (str, text) of
        (Some s, Some t) \<Rightarrow> map_option (map_prod id Some) (str_append al k s t)
      | _ \<Rightarrow> Some (-1, str))"

text \<open>\<open>format = None\<close> is a null format, \<open>Some None\<close> a format that cannot be printed.\<close>

definition string_append_format ::
    "alloc \<Rightarrow> nat \<Rightarrow> string_t option \<Rightarrow> string option option \<Rightarrow> (int \<times> string_t option) option" where
  "string_append_format al k str format =
     (case (str, format) of
        (Some s, Some f) \<Rightarrow> map_option (map_prod id Some) (str_append_format al k s f)
      | _ \<Rightarrow> Some (-1, str))"

text \<open>The two-byte array \<open>{ch, 0}\<close> read as a string: empty when \<open>ch\<close> is the terminator.\<close>

definition char_str :: "char \<Rightarrow> string" where
  "char_str ch = (if ch = NUL then [] else [ch])"

definition string_append_char ::
    "alloc \<Rightarrow> nat \<Rightarrow> string_t option \<Rightarrow> char \<Rightarrow> (int \<times> string_t option) option" where
  "string_append_char al k str ch =
     (case str of None \<Rightarrow> Some (-1, None) | Some _ \<Rightarrow> string_append al k str (Some (char_str ch)))"

definition string_text :: "string_t \<Rightarrow> string" where
  "string_text s = takeWhile (\<lambda>c. c \<noteq> NUL) (s_data s)"

definition string_get :: "string_t option \<Rightarrow> string option" where
  "string_get str = map_option string_text str"

definition string_length :: "string_t option \<Rightarrow> size_t" where
  "string_length s = (case s of None \<Rightarrow> 0 | Some s \<Rightarrow> s_length s)"

definition string_empty :: "string_t option \<Rightarrow> bool" where
  "string_empty s = (case s of None \<Rightarrow> True | Some s \<Rightarrow> s_length s = 0)"

text \<open>\<open>strcmp\<close> as the sign of the difference of the first bytes that differ.\<close>

fun strcmp :: "string \<Rightarrow> string \<Rightarrow> int" where
  "strcmp [] [] = 0"
| "strcmp [] (d # t) = -1"
| "strcmp (c # s) [] = 1"
| "strcmp (c # s) (d # t) =
     (if c = d then strcmp s t else if code c < code d then -1 else 1)"

definition string_compare :: "string_t option \<Rightarrow> string_t option \<Rightarrow> int" where
  "string_compare a b =
     (case (a, b) of (None, None) \<Rightarrow> 0 | (None, Some _) \<Rightarrow> -1 | (Some _, None) \<Rightarrow> 1
      | (Some x, Some y) \<Rightarrow> strcmp (string_text x) (string_text y))"

section \<open>Invariant and abstraction\<close>

definition str_inv :: "string_t \<Rightarrow> bool" where
  "str_inv s \<longleftrightarrow> length (s_data s) = unat (s_capacity s) \<and> unat (s_length s) < unat (s_capacity s) \<and>
     s_data s ! unat (s_length s) = NUL \<and> is_cstr (take (unat (s_length s)) (s_data s))"

definition str_text :: "string_t \<Rightarrow> string" where
  "str_text s = take (unat (s_length s)) (s_data s)"

lemma length_str_text [simp]: "str_inv s \<Longrightarrow> length (str_text s) = unat (s_length s)"
  by (simp add: str_inv_def str_text_def)

lemma string_text_str_text: "str_inv s \<Longrightarrow> string_text s = str_text s"
proof -
  assume inv: "str_inv s"
  let ?n = "unat (s_length s)"
  have "s_data s = take ?n (s_data s) @ NUL # drop (Suc ?n) (s_data s)"
    using inv id_take_nth_drop [of ?n "s_data s"] by (simp add: str_inv_def)
  moreover have "\<And>c. c \<in> set (take ?n (s_data s)) \<Longrightarrow> c \<noteq> NUL"
    using inv by (auto simp: str_inv_def is_cstr_def)
  then have "takeWhile (\<lambda>c. c \<noteq> NUL) (take ?n (s_data s) @ NUL # drop (Suc ?n) (s_data s)) =
      take ?n (s_data s)"
    by (subst takeWhile_append2) auto
  ultimately show ?thesis unfolding string_text_def str_text_def by simp
qed

lemma string_create_inv:
  assumes "string_create al n = Some s"
  shows "str_inv s \<and> str_text s = [] \<and> s_capacity s = (if n < 16 then 16 else n)"
proof -
  have "0 < unat (if n < 16 then 16 else n)"
    by (auto simp: unat_gt_0 word_gt_0 dest: word_coorder.extremum_uniqueI)
  with assms show ?thesis
    by (auto simp: string_create_def Let_def str_inv_def str_text_def split: option.splits)
qed

section \<open>Growth\<close>

text \<open>As long as the new length is below \<open>2^63\<close>, doubling reaches it before it can wrap.\<close>

lemma grow_loop_returns:
  assumes "0 < cap" and "unat len < 2 ^ 63"
  shows "\<exists>c. grow_loop cap len = Some c \<and> len < c \<and> cap \<le> c \<and> unat c \<le> max (unat cap) (2 * unat len)"
  using assms(1)
proof (induction "2 ^ 63 - unat cap" arbitrary: cap rule: less_induct)
  case less
  show ?case
  proof (cases "cap \<le> len")
    case False
    then have "grow_loop cap len = Some cap" by (subst grow_loop.simps) simp
    with False show ?thesis by simp
  next
    case True
    have cap: "0 < unat cap" "unat cap \<le> unat len" using True less.prems
      by (auto simp: word_le_nat_alt unat_gt_0)
    have dbl: "unat (cap * 2) = 2 * unat cap"
      using cap assms(2) by (subst unat_mult_lem [THEN iffD1]) auto
    have "2 ^ 63 - unat (cap * 2) < 2 ^ 63 - unat cap" using cap assms(2) unfolding dbl by linarith
    moreover have "0 < cap * 2" using dbl cap(1) by (metis mult_pos_pos unat_gt_0 word_gt_0 zero_less_numeral)
    ultimately obtain c where c: "grow_loop (cap * 2) len = Some c" "len < c" "cap * 2 \<le> c"
      "unat c \<le> max (unat (cap * 2)) (2 * unat len)"
      using less.hyps by blast
    have "cap \<le> c" using c(3) dbl by (simp add: word_le_nat_alt)
    moreover have "grow_loop cap len = Some c" using True c(1) by (subst grow_loop.simps) simp
    ultimately show ?thesis using c dbl cap by auto
  qed
qed

text \<open>A reserve that the allocator grants leaves room for the new length and its terminator.\<close>

lemma string_reserve_cases:
  assumes inv: "str_inv s" and len: "unat n < 2 ^ 63"
  obtains (denied) "string_reserve al k s n = Some (Inl ())" "al k = None"
  | (granted) s1 where "string_reserve al k s n = Some (Inr s1)" "str_inv s1"
      "str_text s1 = str_text s" "s_length s1 = s_length s" "unat n < unat (s_capacity s1)"
proof (cases "n + 1 > s_capacity s")
  case False
  have "unat (n + 1) = unat n + 1" using len by (subst unat_add_lem [THEN iffD1]) auto
  with False have "unat n < unat (s_capacity s)" by (simp add: not_less word_le_nat_alt)
  with False inv show ?thesis by (intro granted [of s]) (auto simp: string_reserve_def)
next
  case True
  have "unat (n + 1) = unat n + 1" using len by (subst unat_add_lem [THEN iffD1]) auto
  with True have cap: "unat (s_capacity s) \<le> unat n" by (simp add: word_less_nat_alt)
  have dbl: "unat (s_capacity s * 2) = 2 * unat (s_capacity s)"
    using cap len by (subst unat_mult_lem [THEN iffD1]) auto
  have "0 < unat (s_capacity s)" using inv by (auto simp: str_inv_def)
  then have "0 < s_capacity s * 2" using dbl unfolding word_less_nat_alt by simp
  from grow_loop_returns [OF this len] obtain c where c: "grow_loop (s_capacity s * 2) n = Some c"
    "n < c" "s_capacity s * 2 \<le> c" by blast
  have len_c: "length (s_data s) \<le> unat c" "unat (s_length s) < unat (s_capacity s)"
    using c(3) dbl inv by (auto simp: word_le_nat_alt str_inv_def)
  show ?thesis
  proof (cases "al k")
    case None
    with True c show ?thesis by (intro denied) (auto simp: string_reserve_def)
  next
    case (Some g)
    let ?s1 = "s\<lparr>s_data := take (unat c) (s_data s) @ map g [length (s_data s)..<unat c],
      s_capacity := c\<rparr>"
    have "string_reserve al k s n = Some (Inr ?s1)"
      using True c(1) Some by (simp add: string_reserve_def)
    moreover have "str_inv ?s1" "str_text ?s1 = str_text s"
      using inv len_c by (auto simp: str_inv_def str_text_def nth_append)
    ultimately show ?thesis using c(2) by (intro granted [of ?s1]) (auto simp: word_less_nat_alt)
  qed
qed

lemma unat_add_length:
  assumes "unat (l :: size_t) + n < 2 ^ 63"
  shows "unat (l + of_nat n) = unat l + n"
proof -
  have "unat (of_nat n :: size_t) = n" using assms by (simp add: unat_of_nat take_bit_nat_eq_self)
  then show ?thesis using assms by (subst unat_add_lem [THEN iffD1]) auto
qed

text \<open>Appending either extends the text, or fails for want of memory and changes nothing.\<close>

lemma str_append_cases:
  assumes inv: "str_inv s" and len: "unat (s_length s) + length t < 2 ^ 63" and t: "is_cstr t"
  obtains (denied) "str_append al k s t = Some (-1, s)" "al k = None"
  | (ok) s' where "str_append al k s t = Some (0, s')" "str_inv s'" "str_text s' = str_text s @ t"
      "unat (s_length s') = unat (s_length s) + length t"
proof -
  let ?n = "s_length s + of_nat (length t)"
  note n = unat_add_length [OF len]
  have n63: "unat ?n < 2 ^ 63" using n len by simp
  show ?thesis
  proof (cases rule: string_reserve_cases [OF inv n63, of al k, case_names denied granted])
    case denied
    then show ?thesis by (intro that(1)) (simp_all add: str_append_def)
  next
    case (granted s1)
    let ?l = "unat (s_length s)"
    let ?d = "take ?l (s_data s1) @ t @ NUL # drop (Suc (?l + length t)) (s_data s1)"
    have cap: "length (s_data s1) = unat (s_capacity s1)" using granted(2) by (simp add: str_inv_def)
    have room: "?l + length t < length (s_data s1)" using granted(5) n cap by simp
    have step: "str_append al k s t = Some (0, s1\<lparr>s_data := ?d, s_length := ?n\<rparr>)"
      using granted(1,4) n room by (simp add: str_append_def Let_def)
    have tk: "take ?l (s_data s1) = str_text s"
      using granted(3,4) by (simp add: str_text_def)
    have "length (str_text s) = ?l" using inv by simp
    then have "str_inv (s1\<lparr>s_data := ?d, s_length := ?n\<rparr>)"
      using room n cap t inv granted(2,4)
      by (auto simp: str_inv_def nth_append str_text_def)
    moreover have "str_text (s1\<lparr>s_data := ?d, s_length := ?n\<rparr>) = str_text s @ t"
      using n tk \<open>length (str_text s) = ?l\<close> by (simp add: str_text_def)
    ultimately show ?thesis using step n by (intro that(2)) auto
  qed
qed

section \<open>Building a string\<close>

text \<open>A sequence of \<open>string_append\<close> calls whose results are not looked at, as the encoders make
  it: request \<open>k\<close> of the allocator belongs to the first of them.\<close>

fun string_puts :: "alloc \<Rightarrow> nat \<Rightarrow> string_t \<Rightarrow> string list \<Rightarrow> string_t option" where
  "string_puts al k s [] = Some s"
| "string_puts al k s (t # ts) =
     Option.bind (str_append al k s t) (\<lambda>(_, s'). string_puts al (Suc k) s' ts)"

lemma string_puts_inv:
  assumes "str_inv s" "\<forall>t \<in> set ts. is_cstr t" "unat (s_length s) + length (concat ts) < 2 ^ 63"
  shows "\<exists>s'. string_puts al k s ts = Some s' \<and> str_inv s' \<and>
    unat (s_length s') \<le> unat (s_length s) + length (concat ts) \<and>
    ((\<forall>j. al j \<noteq> None) \<longrightarrow> str_text s' = str_text s @ concat ts)"
  using assms
proof (induction ts arbitrary: k s)
  case Nil
  then show ?case by simp
next
  case (Cons t ts)
  have t: "is_cstr t" "unat (s_length s) + length t < 2 ^ 63" using Cons.prems by auto
  show ?case
  proof (cases rule: str_append_cases [OF Cons.prems(1) t(2,1), of al k, case_names denied ok])
    case denied
    have "\<exists>s'. string_puts al (Suc k) s ts = Some s' \<and> str_inv s' \<and>
        unat (s_length s') \<le> unat (s_length s) + length (concat ts)"
      using Cons.IH [of s "Suc k"] Cons.prems by auto
    moreover have "(\<forall>j. al j \<noteq> None) = False" using denied(2) by blast
    ultimately show ?thesis using denied(1) by (auto simp del: not_None_eq)
  next
    case (ok s1)
    have "\<exists>s'. string_puts al (Suc k) s1 ts = Some s' \<and> str_inv s' \<and>
        unat (s_length s') \<le> unat (s_length s1) + length (concat ts) \<and>
        ((\<forall>j. al j \<noteq> None) \<longrightarrow> str_text s' = str_text s1 @ concat ts)"
      using Cons.IH [of s1 "Suc k"] Cons.prems ok by auto
    with ok show ?thesis by (auto simp: add.assoc)
  qed
qed

text \<open>The frame of every encoder: a builder of 256 bytes, the appends, and a copy of the text.\<close>

definition build_string :: "alloc \<Rightarrow> string list \<Rightarrow> string option option" where
  "build_string al ts =
     (case string_create al 256 of None \<Rightarrow> Some None
      | Some r \<Rightarrow> map_option (\<lambda>r'. utils_strdup al (2 + length ts) (string_get (Some r')))
                    (string_puts al 2 r ts))"

lemma build_string_total:
  assumes "\<forall>t \<in> set ts. is_cstr t" "length (concat ts) < 2 ^ 63"
  shows "\<exists>r. build_string al ts = Some r \<and>
    ((\<forall>j. al j \<noteq> None) \<longrightarrow> r = Some (concat ts))"
proof (cases "string_create al 256")
  case None
  then have "\<exists>j. al j = None" by (auto simp: string_create_def Let_def split: option.splits)
  with None show ?thesis by (simp add: build_string_def)
next
  case (Some s)
  from string_create_inv [OF this] have s: "str_inv s" "str_text s = []" by auto
  then have l: "unat (s_length s) = 0" using length_str_text [OF s(1)] by simp
  obtain s' where s': "string_puts al 2 s ts = Some s'" "str_inv s'"
    "(\<forall>j. al j \<noteq> None) \<longrightarrow> str_text s' = concat ts"
    using string_puts_inv [OF s(1) assms(1), of al 2] assms(2) s(2) l by auto
  then show ?thesis using Some string_text_str_text [OF s'(2)]
    by (auto simp: build_string_def utils_strdup_def string_get_def split: option.splits)
qed

section \<open>Properties\<close>

text \<open>
  The growing string is a faithful accumulator: starting from \<open>string_create\<close> with any
  initial capacity, any sequence of appended C strings with a total length below \<open>2^63\<close> stays
  inside the allocated array whatever the allocator answers, keeps the terminator right after
  the text, and, when no request is refused, \<open>string_get\<close> returns the concatenation.
\<close>

theorem string_builder_accumulates:
  assumes "string_create al n = Some s"
    and "\<forall>t \<in> set ts. is_cstr t" and "length (concat ts) < 2 ^ 63"
  shows "\<exists>s'. string_puts al 2 s ts = Some s' \<and> str_inv s' \<and>
    ((\<forall>j. al j \<noteq> None) \<longrightarrow>
       string_get (Some s') = Some (concat ts) \<and>
       unat (string_length (Some s')) = length (concat ts))"
proof -
  from string_create_inv [OF assms(1)] have s: "str_inv s" "str_text s = []" by auto
  then have "unat (s_length s) = 0" using length_str_text [OF s(1)] by simp
  then obtain s' where s': "string_puts al 2 s ts = Some s'" "str_inv s'"
    "(\<forall>j. al j \<noteq> None) \<longrightarrow> str_text s' = concat ts"
    using string_puts_inv [OF s(1) assms(2), of al 2] assms(3) s(2) by auto
  moreover have "unat (s_length s') = length (str_text s')" using s'(2) by simp
  ultimately show ?thesis
    by (simp add: string_get_def string_length_def string_text_str_text del: length_str_text)
qed

lemma string_builder_accumulates_witness:
  "\<exists>s s'. string_create (\<lambda>_. Some (\<lambda>_. CHR ''x'')) 4 = Some s \<and>
     string_puts (\<lambda>_. Some (\<lambda>_. CHR ''x'')) 2 s [''hello, '', ''wide '', ''world''] = Some s' \<and>
     string_get (Some s') = Some ''hello, wide world''"
proof -
  let ?al = "\<lambda>_ :: nat. Some (\<lambda>_ :: nat. CHR ''x'')"
  obtain s where s: "string_create ?al 4 = Some s" by (simp add: string_create_def)
  have "\<forall>t \<in> set [''hello, '', ''wide '', ''world'']. is_cstr t" by (simp add: NUL_def)
  from string_builder_accumulates [OF s this] s show ?thesis by auto
qed

end
