(* ===== verification/Codec.thy ===== *)
theory Codec
  imports Dyn_String
begin

text \<open>
  The encoders and decoders of \<open>server/src/utils.c\<close>: JSON escapes, URL encoding, hexadecimal,
  and the checksums. The JSON and URL functions append one chunk after another to a
  \<open>string_t\<close>; the chunks they append are computed here and handed to the builder of
  \<open>Dyn_String\<close>, so that growth and refused requests are those of the real builder.
\<close>

section \<open>JSON\<close>

text \<open>\<open>%04x\<close> of a value below \<open>2^16\<close>.\<close>

definition hex04 :: "nat \<Rightarrow> string" where
  "hex04 n = map hexdigit_lower [n div 4096 mod 16, n div 256 mod 16, n div 16 mod 16, n mod 16]"

definition json_escape_chunk :: "char \<Rightarrow> string" where
  "json_escape_chunk c =
     (if c = CHR 0x22 then [CHR 0x5C, CHR 0x22]
      else if c = CHR 0x5C then [CHR 0x5C, CHR 0x5C]
      else if c = CHR 0x08 then [CHR 0x5C, CHR ''b'']
      else if c = CHR 0x0C then [CHR 0x5C, CHR ''f'']
      else if c = CHR 0x0A then [CHR 0x5C, CHR ''n'']
      else if c = CHR 0x0D then [CHR 0x5C, CHR ''r'']
      else if c = CHR 0x09 then [CHR 0x5C, CHR ''t'']
      else if code c < 32 then [CHR 0x5C, CHR ''u''] @ hex04 (code c)
      else char_str c)"

definition utils_json_escape :: "alloc \<Rightarrow> string option \<Rightarrow> string option option" where
  "utils_json_escape al str =
     (case str of None \<Rightarrow> Some None | Some s \<Rightarrow> build_string al (map json_escape_chunk s))"

text \<open>\<open>strtol(hex, NULL, 16)\<close> on hexadecimal digits only.\<close>

definition hex_value :: "string \<Rightarrow> nat" where
  "hex_value ds = foldl (\<lambda>v d. 16 * v + hexdigit_val d) 0 ds"

text \<open>The UTF-8 bytes of a \<open>\u\<close> escape; each is one call of \<open>string_append_char\<close>.\<close>

definition json_utf8_chunks :: "nat \<Rightarrow> string list" where
  "json_utf8_chunks n = map (char_str \<circ> char_of)
     (if n \<le> 0x7F then [n]
      else if n \<le> 0x7FF then [0xC0 OR drop_bit 6 n, 0x80 OR (n AND 0x3F)]
      else [0xE0 OR drop_bit 12 n, 0x80 OR (drop_bit 6 n AND 0x3F), 0x80 OR (n AND 0x3F)])"

definition json_simple_escape :: "char \<Rightarrow> string list" where
  "json_simple_escape d =
     (if d = CHR 0x22 then [[CHR 0x22]]
      else if d = CHR 0x5C then [[CHR 0x5C]]
      else if d = CHR ''/'' then [''/'']
      else if d = CHR ''b'' then [[CHR 0x08]]
      else if d = CHR ''f'' then [[CHR 0x0C]]
      else if d = CHR ''n'' then [[CHR 0x0A]]
      else if d = CHR ''r'' then [[CHR 0x0D]]
      else if d = CHR ''t'' then [[CHR 0x09]]
      else [[CHR 0x5C], char_str d])"

fun json_unescape_chunks :: "string \<Rightarrow> string list" where
  "json_unescape_chunks [] = []"
| "json_unescape_chunks (c # r) =
     (if c = CHR 0x5C \<and> r \<noteq> [] then
        (if hd r = CHR ''u'' then
           (if 4 \<le> length (tl r) \<and> list_all isxdigit (take 4 (tl r))
            then json_utf8_chunks (hex_value (take 4 (tl r))) @ json_unescape_chunks (drop 4 (tl r))
            else [[CHR 0x5C], ''u''] @ json_unescape_chunks (tl r))
         else json_simple_escape (hd r) @ json_unescape_chunks (tl r))
      else char_str c # json_unescape_chunks r)"

definition utils_json_unescape :: "alloc \<Rightarrow> string option \<Rightarrow> string option option" where
  "utils_json_unescape al str =
     (case str of None \<Rightarrow> Some None | Some s \<Rightarrow> build_string al (json_unescape_chunks s))"

section \<open>URL encoding\<close>

definition url_plain :: "char \<Rightarrow> bool" where
  "url_plain c \<longleftrightarrow> isalnum c \<or> c \<in> set ''-_.~''"

definition url_encode_chunks :: "char \<Rightarrow> string list" where
  "url_encode_chunks c =
     (if url_plain c then [char_str c]
      else if c = CHR '' '' then [''+'']
      else [''%'', char_str (hexdigit_upper (code c div 16)), char_str (hexdigit_upper (code c mod 16))])"

definition utils_url_encode :: "alloc \<Rightarrow> string option \<Rightarrow> string option option" where
  "utils_url_encode al str =
     (case str of None \<Rightarrow> Some None
      | Some s \<Rightarrow> build_string al (concat (map url_encode_chunks s)))"

fun url_decode_chunks :: "string \<Rightarrow> string list" where
  "url_decode_chunks [] = []"
| "url_decode_chunks (c # r) =
     (if c = CHR ''%'' then
        (if 2 \<le> length r \<and> list_all isxdigit (take 2 r)
         then char_str (char_of (hex_value (take 2 r))) # url_decode_chunks (drop 2 r)
         else ''%'' # url_decode_chunks r)
      else if c = CHR ''+'' then '' '' # url_decode_chunks r
      else char_str c # url_decode_chunks r)"

definition utils_url_decode :: "alloc \<Rightarrow> string option \<Rightarrow> string option option" where
  "utils_url_decode al str =
     (case str of None \<Rightarrow> Some None | Some s \<Rightarrow> build_string al (url_decode_chunks s))"

declare json_unescape_chunks.simps(2) [simp del] url_decode_chunks.simps(2) [simp del]

section \<open>Chunks\<close>

lemma is_cstr_char_str [simp]: "is_cstr (char_str c)"
  by (simp add: char_str_def)

lemma hex04_control:
  "code c < 32 \<Longrightarrow> hex04 (code c) =
     [hexdigit_lower 0, hexdigit_lower 0, hexdigit_lower (code c div 16), hexdigit_lower (code c mod 16)]"
  by (simp add: hex04_def)

lemma is_cstr_hex04 [simp]: "is_cstr (hex04 n)"
  by (simp add: hex04_def)

lemma is_cstr_json_escape_chunk [simp]: "is_cstr (json_escape_chunk c)"
  unfolding json_escape_chunk_def by (simp add: NUL_def [symmetric]) (simp add: NUL_def)

lemma length_json_escape_chunk: "length (json_escape_chunk c) \<le> 6"
  by (simp add: json_escape_chunk_def hex04_def char_str_def)

lemma json_unescape_escape_char:
  assumes "c \<noteq> NUL"
  shows "concat (json_unescape_chunks (json_escape_chunk c @ r)) = c # concat (json_unescape_chunks r)"
proof -
  note unesc = json_unescape_chunks.simps(2) json_simple_escape_def json_escape_chunk_def
  consider (quoted) "c \<in> {CHR 0x22, CHR 0x5C, CHR 0x08, CHR 0x0C, CHR 0x0A, CHR 0x0D, CHR 0x09}"
    | (control) "c \<notin> {CHR 0x22, CHR 0x5C, CHR 0x08, CHR 0x0C, CHR 0x0A, CHR 0x0D, CHR 0x09}" "code c < 32"
    | (plain) "c \<notin> {CHR 0x22, CHR 0x5C, CHR 0x08, CHR 0x0C, CHR 0x0A, CHR 0x0D, CHR 0x09}" "32 \<le> code c"
    by fastforce
  then show ?thesis
  proof cases
    case quoted
    then show ?thesis by (auto simp: unesc)
  next
    case control
    then have esc: "json_escape_chunk c = [CHR 0x5C, CHR ''u'', hexdigit_lower 0, hexdigit_lower 0,
        hexdigit_lower (code c div 16), hexdigit_lower (code c mod 16)]"
      by (simp add: json_escape_chunk_def hex04_control)
    have v: "hex_value [hexdigit_lower 0, hexdigit_lower 0, hexdigit_lower (code c div 16),
        hexdigit_lower (code c mod 16)] = code c"
      using control(2) by (simp add: hex_value_def)
    have d: "json_utf8_chunks (code c) = [[c]]"
      using control(2) assms by (simp add: json_utf8_chunks_def char_str_def)
    have x: "isxdigit (hexdigit_lower (code c div 16))" using control(2) by simp
    show ?thesis unfolding esc by (simp add: json_unescape_chunks.simps(2) v d x)
  next
    case plain
    with assms have "json_escape_chunk c = [c]" "c \<noteq> CHR 0x5C"
      by (auto simp: json_escape_chunk_def char_str_def)
    with assms show ?thesis by (simp add: json_unescape_chunks.simps(2) char_str_def)
  qed
qed

lemma json_unescape_escape:
  "is_cstr s \<Longrightarrow> concat (json_unescape_chunks (concat (map json_escape_chunk s))) = s"
  by (induction s) (simp_all add: json_unescape_escape_char)

text \<open>What may stand between the quotation marks of a JSON string.\<close>

fun json_body :: "string \<Rightarrow> bool" where
  "json_body [] = True"
| "json_body (c # r) =
     (if c = CHR 0x5C then r \<noteq> [] \<and> 32 \<le> code (hd r) \<and> json_body (tl r)
      else 32 \<le> code c \<and> c \<noteq> CHR 0x22 \<and> json_body r)"

lemma json_body_plain: "\<forall>c \<in> set s. isxdigit c \<Longrightarrow> json_body (s @ r) = json_body r"
proof (induction s)
  case Nil
  then show ?case by simp
next
  case (Cons c s)
  then have "32 \<le> code c" "c \<noteq> CHR 0x5C" "c \<noteq> CHR 0x22"
    by (auto simp: isxdigit_def isdigit_def code_def)
  with Cons show ?case by simp
qed

lemma json_body_escape_chunk:
  assumes "c \<noteq> NUL"
  shows "json_body (json_escape_chunk c @ r) = json_body r"
proof (cases "c \<in> {CHR 0x22, CHR 0x5C, CHR 0x08, CHR 0x0C, CHR 0x0A, CHR 0x0D, CHR 0x09}")
  case True
  then show ?thesis by (auto simp: json_escape_chunk_def code_def)
next
  case False
  show ?thesis
  proof (cases "code c < 32")
    case True
    have "\<forall>d \<in> set (hex04 (code c)). isxdigit d" by (simp add: hex04_def)
    from json_body_plain [OF this] False True show ?thesis
      by (simp add: json_escape_chunk_def code_def)
  next
    case control: False
    with False assms show ?thesis by (simp add: json_escape_chunk_def char_str_def)
  qed
qed

lemma json_body_escape: "is_cstr s \<Longrightarrow> json_body (concat (map json_escape_chunk s))"
  by (induction s) (simp_all add: json_body_escape_chunk)

lemma length_json_escape: "length (concat (map json_escape_chunk s)) \<le> 6 * length s"
  by (induction s) (use length_json_escape_chunk in \<open>auto intro: add_mono\<close>)

text \<open>Whatever the input, the decoders append terminator-free chunks, and the text does not grow.\<close>

lemma json_utf8_chunks_bounds:
  "\<forall>t \<in> set (json_utf8_chunks n). is_cstr t" "length (concat (json_utf8_chunks n)) \<le> 4"
  by (auto simp: json_utf8_chunks_def char_str_def)

lemma json_simple_escape_bounds:
  "\<forall>t \<in> set (json_simple_escape d). is_cstr t" "length (concat (json_simple_escape d)) \<le> 2"
  by (auto simp: json_simple_escape_def char_str_def NUL_def)

lemma json_unescape_chunks_bounds:
  "(\<forall>t \<in> set (json_unescape_chunks s). is_cstr t) \<and>
     length (concat (json_unescape_chunks s)) \<le> length s"
proof (induction s rule: json_unescape_chunks.induct)
  case 1
  then show ?case by simp
next
  case (2 c r)
  note step = json_unescape_chunks.simps(2) [of c r]
  consider (u) "c = CHR 0x5C" "r \<noteq> []" "hd r = CHR ''u''" "4 \<le> length (tl r)" "list_all isxdigit (take 4 (tl r))"
    | (bad) "c = CHR 0x5C" "r \<noteq> []" "hd r = CHR ''u''" "\<not> (4 \<le> length (tl r) \<and> list_all isxdigit (take 4 (tl r)))"
    | (simple) "c = CHR 0x5C" "r \<noteq> []" "hd r \<noteq> CHR ''u''"
    | (plain) "\<not> (c = CHR 0x5C \<and> r \<noteq> [])"
    by blast
  then show ?case
  proof cases
    case u
    note IH = "2.IH"(1) [OF conjI [OF u(1,2)] u(3) conjI [OF u(4,5)]]
    have eq: "json_unescape_chunks (c # r) =
        json_utf8_chunks (hex_value (take 4 (tl r))) @ json_unescape_chunks (drop 4 (tl r))"
      unfolding step using u by simp
    show ?thesis unfolding eq
      using json_utf8_chunks_bounds [of "hex_value (take 4 (tl r))"] IH u(4) by auto
  next
    case bad
    note IH = "2.IH"(2) [OF conjI [OF bad(1,2)] bad(3,4)]
    have eq: "json_unescape_chunks (c # r) = [[CHR 0x5C], ''u''] @ json_unescape_chunks (tl r)"
      unfolding step using bad(1-3) by (simp only: if_not_P [OF bad(4)]) simp
    have "length r = Suc (length (tl r))" using bad(2) by (cases r) auto
    then show ?thesis unfolding eq using IH by (simp add: NUL_def)
  next
    case simple
    note IH = "2.IH"(3) [OF conjI [OF simple(1,2)] simple(3)]
    have eq: "json_unescape_chunks (c # r) = json_simple_escape (hd r) @ json_unescape_chunks (tl r)"
      unfolding step using simple by simp
    have "length r = Suc (length (tl r))" using simple(2) by (cases r) auto
    then show ?thesis unfolding eq using json_simple_escape_bounds [of "hd r"] IH by auto
  next
    case plain
    note IH = "2.IH"(4) [OF plain]
    have eq: "json_unescape_chunks (c # r) = char_str c # json_unescape_chunks r"
      unfolding step by (simp only: if_not_P [OF plain])
    have "length (char_str c) \<le> 1" by (simp add: char_str_def)
    then show ?thesis unfolding eq using IH by simp
  qed
qed

lemma url_decode_encode_char:
  assumes "c \<noteq> NUL"
  shows "concat (url_decode_chunks (concat (url_encode_chunks c) @ r)) = c # concat (url_decode_chunks r)"
proof -
  consider (plain) "url_plain c" | (space) "\<not> url_plain c" "c = CHR '' ''"
    | (hex) "\<not> url_plain c" "c \<noteq> CHR '' ''" by blast
  then show ?thesis
  proof cases
    case plain
    then have "c \<noteq> CHR ''%''" "c \<noteq> CHR ''+''"
      by (auto simp: url_plain_def isalnum_def isalpha_def isupper_def islower_def isdigit_def code_def)
    with plain assms show ?thesis
      by (simp add: url_encode_chunks_def url_decode_chunks.simps(2) char_str_def)
  next
    case space
    then show ?thesis by (simp add: url_encode_chunks_def url_decode_chunks.simps(2))
  next
    case hex
    have q: "code c div 16 < 16" using code_less [of c] by (simp add: less_mult_imp_div_less)
    have v: "hex_value [hexdigit_upper (code c div 16), hexdigit_upper (code c mod 16)] = code c"
      using q by (simp add: hex_value_def)
    show ?thesis using hex assms q
      by (simp add: url_encode_chunks_def url_decode_chunks.simps(2) char_str_def v)
  qed
qed

lemma url_decode_encode:
  "is_cstr s \<Longrightarrow> concat (url_decode_chunks (concat (concat (map url_encode_chunks s)))) = s"
  by (induction s) (simp_all add: url_decode_encode_char)

lemma url_encode_chunks_bounds:
  "\<forall>t \<in> set (url_encode_chunks c). is_cstr t" "length (concat (url_encode_chunks c)) \<le> 3"
  by (auto simp: url_encode_chunks_def char_str_def NUL_def)

lemma length_url_encode: "length (concat (concat (map url_encode_chunks s))) \<le> 3 * length s"
  by (induction s) (use url_encode_chunks_bounds in \<open>auto intro: add_mono\<close>)

lemma url_plain_hexdigit: "n < 16 \<Longrightarrow> url_plain (hexdigit_upper n)"
  by (auto simp: url_plain_def isalnum_def isalpha_def isupper_def isdigit_def hexdigit_upper_def)

lemma url_encode_alphabet:
  assumes "c \<in> set (concat (concat (map url_encode_chunks s)))"
  shows "url_plain c \<or> c \<in> set ''%+''"
proof -
  from assms obtain d where d: "c \<in> set (concat (url_encode_chunks d))" by auto
  have "code d div 16 < 16" using code_less [of d] by (simp add: less_mult_imp_div_less)
  with d show ?thesis
    by (auto simp: url_encode_chunks_def char_str_def url_plain_hexdigit split: if_splits)
qed

lemma url_decode_chunks_bounds:
  "(\<forall>t \<in> set (url_decode_chunks s). is_cstr t) \<and>
     length (concat (url_decode_chunks s)) \<le> length s"
proof (induction s rule: url_decode_chunks.induct)
  case 1
  then show ?case by simp
next
  case (2 c r)
  note step = url_decode_chunks.simps(2) [of c r]
  have one: "length (char_str d) \<le> 1" for d by (simp add: char_str_def)
  show ?case
  proof (cases "c = CHR ''%'' \<and> 2 \<le> length r \<and> list_all isxdigit (take 2 r)")
    case True
    then have eq: "url_decode_chunks (c # r) =
        char_str (char_of (hex_value (take 2 r))) # url_decode_chunks (drop 2 r)"
      unfolding step by simp
    show ?thesis unfolding eq using "2.IH"(1) True one [of "char_of (hex_value (take 2 r))"] by auto
  next
    case False
    then have "\<exists>t. url_decode_chunks (c # r) = t # url_decode_chunks r \<and> is_cstr t \<and> length t \<le> 1"
      unfolding step using one by (auto simp: NUL_def)
    then obtain t where t: "url_decode_chunks (c # r) = t # url_decode_chunks r" "is_cstr t" "length t \<le> 1"
      by blast
    have "(\<forall>t \<in> set (url_decode_chunks r). is_cstr t) \<and> length (concat (url_decode_chunks r)) \<le> length r"
      using "2.IH"(2-4) False by blast
    then show ?thesis unfolding t(1) using t(2,3) by auto
  qed
qed

section \<open>Hexadecimal\<close>

text \<open>\<open>strtol(s, NULL, 16)\<close>: white space, a sign, an optional \<open>0x\<close> that is followed by a digit.\<close>

definition strtol16 :: "string \<Rightarrow> int" where
  "strtol16 s =
     (let s1 = dropWhile isspace s;
          neg = (s1 \<noteq> [] \<and> hd s1 = CHR ''-'');
          s2 = (if s1 \<noteq> [] \<and> (hd s1 = CHR ''-'' \<or> hd s1 = CHR ''+'') then tl s1 else s1);
          s3 = (if 3 \<le> length s2 \<and> hd s2 = CHR ''0'' \<and> s2 ! 1 \<in> set ''xX'' \<and> isxdigit (s2 ! 2)
                then drop 2 s2 else s2);
          v = int (hex_value (takeWhile isxdigit s3))
      in clamp_long (if neg then - v else v))"

text \<open>\<open>sprintf(hex + 2 * i, "%02x", bytes[i])\<close> for each byte; one allocation. \<open>data = None\<close> is the
  null pointer. The requested size \<open>2 * length + 1\<close> is computed in 64 bits, and a request of zero
  bytes is refused by \<open>utils_malloc\<close>.\<close>

definition hex02 :: "byte \<Rightarrow> string" where
  "hex02 b = [hexdigit_lower (unat b div 16), hexdigit_lower (unat b mod 16)]"

definition utils_hex_encode :: "alloc \<Rightarrow> byte list option \<Rightarrow> string option" where
  "utils_hex_encode al data =
     (case data of None \<Rightarrow> None
      | Some bytes \<Rightarrow> (case al 0 of None \<Rightarrow> None | Some _ \<Rightarrow> Some (concat (map hex02 bytes))))"

fun hex_decode_loop :: "string \<Rightarrow> byte list" where
  "hex_decode_loop (a # b # r) = word_of_int (strtol16 [a, b]) # hex_decode_loop r"
| "hex_decode_loop r = []"

definition utils_hex_decode :: "alloc \<Rightarrow> string option \<Rightarrow> byte list option" where
  "utils_hex_decode al hex =
     (case hex of None \<Rightarrow> None
      | Some h \<Rightarrow>
          if length h mod 2 \<noteq> 0 then None
          else if length h div 2 = 0 then None
          else (case al 0 of None \<Rightarrow> None | Some _ \<Rightarrow> Some (hex_decode_loop h)))"

lemma strtol16_two_digits:
  assumes "m < 16" "n < 16"
  shows "strtol16 [hexdigit_lower m, hexdigit_lower n] = int (16 * m + n)"
proof -
  have sp: "\<not> isspace (hexdigit_lower m)" "isxdigit (hexdigit_lower m)" "isxdigit (hexdigit_lower n)"
    using assms by simp_all
  then have sg: "hexdigit_lower m \<noteq> CHR ''-''" "hexdigit_lower m \<noteq> CHR ''+''"
    by (auto simp: isxdigit_def isdigit_def code_def)
  have "hex_value [hexdigit_lower m, hexdigit_lower n] = 16 * m + n"
    using assms by (simp add: hex_value_def)
  moreover have "clamp_long (int (16 * m + n)) = int (16 * m + n)"
    using assms by (auto simp: clamp_long_def LONG_MAX_def LONG_MIN_def)
  ultimately show ?thesis using sp sg by (simp add: strtol16_def)
qed

lemma hex_decode_encode: "hex_decode_loop (concat (map hex02 bs)) = bs"
proof (induction bs)
  case Nil
  then show ?case by simp
next
  case (Cons b bs)
  have "unat b div 16 < 16" using unsigned_less [of b, where 'a = nat] by (simp add: less_mult_imp_div_less)
  then have "strtol16 [hexdigit_lower (unat b div 16), hexdigit_lower (unat b mod 16)] = int (unat b)"
    by (subst strtol16_two_digits) auto
  with Cons show ?case by (simp add: hex02_def)
qed

lemma length_hex_encode: "length (concat (map hex02 bs)) = 2 * length bs"
  by (induction bs) (auto simp: hex02_def)

section \<open>Checksums\<close>

definition crc16_table :: "16 word list" where
  "crc16_table =
     [0x0000, 0xC0C1, 0xC181, 0x0140, 0xC301, 0x03C0, 0x0280, 0xC241,
      0xC601, 0x06C0, 0x0780, 0xC741, 0x0500, 0xC5C1, 0xC481, 0x0440] @ replicate 240 0"

definition crc16_step :: "16 word \<Rightarrow> byte \<Rightarrow> 16 word" where
  "crc16_step crc b = drop_bit 8 crc XOR crc16_table ! unat ((crc XOR ucast b) AND 0xFF)"

definition utils_crc16 :: "byte list \<Rightarrow> 16 word" where
  "utils_crc16 bytes = foldl crc16_step 0xFFFF bytes"

definition utils_checksum :: "byte list \<Rightarrow> byte" where
  "utils_checksum bytes = foldl (\<lambda>s b. s + b) 0 bytes"

lemma utils_checksum_sum: "utils_checksum bytes = sum_list bytes"
proof -
  have "foldl (\<lambda>s b. s + b) a bytes = a + sum_list bytes" for a :: byte
    by (induction bytes arbitrary: a) (auto simp: add.assoc)
  then show ?thesis by (simp add: utils_checksum_def)
qed

section \<open>Properties\<close>

text \<open>
  JSON escaping is total and reversible: for every C string \<open>s\<close> short enough to be held
  six-fold, when memory suffices \<open>utils_json_escape\<close> returns some text and
  \<open>utils_json_unescape\<close> turns exactly that text back into \<open>s\<close>.
\<close>

theorem json_escape_roundtrip:
  assumes "is_cstr s" "6 * length s < 2 ^ 63" "\<forall>j. al j \<noteq> None" "\<forall>j. al' j \<noteq> None"
  shows "\<exists>e. utils_json_escape al (Some s) = Some (Some e) \<and>
    utils_json_unescape al' (Some e) = Some (Some s)"
proof -
  let ?e = "concat (map json_escape_chunk s)"
  have len: "length ?e < 2 ^ 63" using length_json_escape [of s] assms(2) by linarith
  have "utils_json_escape al (Some s) = Some (Some ?e)"
    using build_string_total [of "map json_escape_chunk s" al] len assms(3)
    by (auto simp: utils_json_escape_def)
  moreover have "utils_json_unescape al' (Some ?e) = Some (Some s)"
  proof -
    have "length (concat (json_unescape_chunks ?e)) < 2 ^ 63"
      using json_unescape_chunks_bounds [of ?e] len by linarith
    then show ?thesis
      using build_string_total [of "json_unescape_chunks ?e" al'] json_unescape_chunks_bounds [of ?e]
        assms(4) json_unescape_escape [OF assms(1)] by (auto simp: utils_json_unescape_def)
  qed
  ultimately show ?thesis by blast
qed

lemma json_escape_roundtrip_witness:
  "\<exists>e. utils_json_escape (\<lambda>_. Some (\<lambda>_. CHR ''?'')) (Some [CHR 0x22, CHR ''a'', CHR 0x01, CHR 0x0A]) =
       Some (Some e) \<and>
     utils_json_unescape (\<lambda>_. Some (\<lambda>_. CHR ''?'')) (Some e) =
       Some (Some [CHR 0x22, CHR ''a'', CHR 0x01, CHR 0x0A])"
  by (rule json_escape_roundtrip) (simp_all add: NUL_def)

text \<open>
  The escaped text is safe inside a JSON string literal: read from the left it contains no
  control character, and every quotation mark or backslash in it belongs to an escape. Here for
  the text that \<open>utils_json_escape\<close> returns when memory suffices.
\<close>

theorem json_escape_safe:
  assumes "is_cstr s" "6 * length s < 2 ^ 63" "\<forall>j. al j \<noteq> None"
  shows "\<exists>e. utils_json_escape al (Some s) = Some (Some e) \<and> json_body e"
proof -
  have len: "length (concat (map json_escape_chunk s)) < 2 ^ 63"
    using length_json_escape [of s] assms(2) by linarith
  have "utils_json_escape al (Some s) = Some (Some (concat (map json_escape_chunk s)))"
    using build_string_total [of "map json_escape_chunk s" al] len assms(3)
    by (auto simp: utils_json_escape_def)
  then show ?thesis using json_body_escape [OF assms(1)] by blast
qed

lemma json_escape_safe_witness:
  "\<exists>e. utils_json_escape (\<lambda>_. Some (\<lambda>_. CHR ''?'')) (Some [CHR 0x5C, CHR 0x22, CHR 0x1F]) =
     Some (Some e) \<and> json_body e"
  by (rule json_escape_safe) (simp_all add: NUL_def)

text \<open>
  URL encoding is total and reversible: for every C string \<open>s\<close> short enough to be held
  three-fold, when memory suffices \<open>utils_url_encode\<close> returns a text made of unreserved
  characters, \<open>%\<close> and \<open>+\<close> only, and \<open>utils_url_decode\<close> turns it back into \<open>s\<close>.
\<close>

theorem url_encode_roundtrip:
  assumes "is_cstr s" "3 * length s < 2 ^ 63" "\<forall>j. al j \<noteq> None" "\<forall>j. al' j \<noteq> None"
  shows "\<exists>e. utils_url_encode al (Some s) = Some (Some e) \<and>
    (\<forall>c \<in> set e. url_plain c \<or> c \<in> set ''%+'') \<and>
    utils_url_decode al' (Some e) = Some (Some s)"
proof -
  let ?ts = "concat (map url_encode_chunks s)"
  have len: "length (concat ?ts) < 2 ^ 63" using length_url_encode [of s] assms(2) by linarith
  have cs: "\<forall>t \<in> set ?ts. is_cstr t" using url_encode_chunks_bounds(1) by auto
  have "utils_url_encode al (Some s) = Some (Some (concat ?ts))"
    using build_string_total [OF cs len, of al] assms(3) by (auto simp: utils_url_encode_def)
  moreover have "utils_url_decode al' (Some (concat ?ts)) = Some (Some s)"
  proof -
    have "length (concat (url_decode_chunks (concat ?ts))) < 2 ^ 63"
      using url_decode_chunks_bounds [of "concat ?ts"] len by linarith
    then show ?thesis
      using build_string_total [of "url_decode_chunks (concat ?ts)" al']
        url_decode_chunks_bounds [of "concat ?ts"] assms(4) url_decode_encode [OF assms(1)]
      by (auto simp: utils_url_decode_def)
  qed
  ultimately show ?thesis using url_encode_alphabet by blast
qed

lemma url_encode_roundtrip_witness:
  "\<exists>e. utils_url_encode (\<lambda>_. Some (\<lambda>_. CHR ''?'')) (Some ''a b&c=%'') = Some (Some e) \<and>
     (\<forall>c \<in> set e. url_plain c \<or> c \<in> set ''%+'') \<and>
     utils_url_decode (\<lambda>_. Some (\<lambda>_. CHR ''?'')) (Some e) = Some (Some ''a b&c=%'')"
  by (rule url_encode_roundtrip) (simp_all add: NUL_def)

text \<open>
  Hexadecimal encoding is reversible on every non-empty block of bytes: two digits per byte,
  and \<open>utils_hex_decode\<close> recovers the block; an odd number of digits is rejected.
\<close>

theorem hex_encode_roundtrip:
  assumes "bs \<noteq> []" "al 0 \<noteq> None" "al' 0 \<noteq> None"
  shows "\<exists>h. utils_hex_encode al (Some bs) = Some h \<and> length h = 2 * length bs \<and>
    utils_hex_decode al' (Some h) = Some bs \<and>
    (\<forall>c. utils_hex_decode al' (Some (c # h)) = None)"
proof -
  let ?h = "concat (map hex02 bs)"
  have len: "length ?h = 2 * length bs" "0 < length bs" using assms(1) by (simp_all add: length_hex_encode)
  have "utils_hex_encode al (Some bs) = Some ?h"
    using assms(2) by (auto simp: utils_hex_encode_def)
  moreover have "utils_hex_decode al' (Some ?h) = Some bs"
    using assms(3) len by (auto simp: utils_hex_decode_def hex_decode_encode)
  moreover have "utils_hex_decode al' (Some (c # ?h)) = None" for c
    using len by (simp add: utils_hex_decode_def)
  ultimately show ?thesis using len by blast
qed

lemma hex_encode_roundtrip_witness:
  "\<exists>h. utils_hex_encode (\<lambda>_. Some (\<lambda>_. CHR ''?'')) (Some [0, 171, 255]) = Some h \<and>
     length h = 2 * length [0 :: byte, 171, 255] \<and>
     utils_hex_decode (\<lambda>_. Some (\<lambda>_. CHR ''?'')) (Some h) = Some [0, 171, 255] \<and>
     (\<forall>c. utils_hex_decode (\<lambda>_. Some (\<lambda>_. CHR ''?'')) (Some (c # h)) = None)"
  by (rule hex_encode_roundtrip) simp_all

text \<open>
  \<open>utils_crc16\<close> is not a 16-bit cyclic redundancy check: only the first 16 of the 256 table
  entries are given and the others are zero, so two different one-byte messages collide.
\<close>

theorem crc16_table_incomplete:
  "utils_crc16 [0] = utils_crc16 [1] \<and> length (filter (\<lambda>w. w \<noteq> 0) crc16_table) = 15 \<and>
   length crc16_table = 256"
  by (simp add: utils_crc16_def crc16_step_def crc16_table_def)

end
