(* ===== verification/Str_Utils.thy ===== *)
theory Str_Utils
  imports Dyn_String
begin

text \<open>
  The string helpers of \<open>server/src/utils.c\<close> (\<open>utils_strndup\<close> to \<open>utils_strjoin\<close>). Functions that
  work in place are modelled on the text before and after; the ones that fill an allocated array
  keep the requested size as the 64-bit value the code computes, and a result \<open>None\<close> means that
  the code would write past it.
\<close>

section \<open>Copies, trimming and case\<close>

definition utils_strndup :: "alloc \<Rightarrow> nat \<Rightarrow> string option \<Rightarrow> nat \<Rightarrow> string option" where
  "utils_strndup al k str n =
     (case str of None \<Rightarrow> None
      | Some s \<Rightarrow> (case al k of None \<Rightarrow> None
        | Some _ \<Rightarrow> Some (take (if length s > n then n else length s) s)))"

text \<open>\<open>while (end > str && isspace(*end)) end--;\<close>, with \<open>end\<close> as an index.\<close>

fun trim_last :: "string \<Rightarrow> nat \<Rightarrow> nat" where
  "trim_last s 0 = 0"
| "trim_last s (Suc n) = (if isspace (s ! Suc n) then trim_last s n else Suc n)"

definition utils_strtrim :: "string option \<Rightarrow> string option" where
  "utils_strtrim str =
     (case str of None \<Rightarrow> None
      | Some s \<Rightarrow>
          let s1 = dropWhile isspace s in
          if s1 = [] then Some s1
          else Some (take (trim_last s1 (length s1 - 1) + 1) s1))"

definition utils_strltrim :: "string option \<Rightarrow> string option" where
  "utils_strltrim str = map_option (dropWhile isspace) str"

text \<open>\<open>while (end > str && isspace(end[-1])) end--;\<close>\<close>

fun trim_end :: "string \<Rightarrow> nat \<Rightarrow> nat" where
  "trim_end s 0 = 0"
| "trim_end s (Suc n) = (if isspace (s ! n) then trim_end s n else Suc n)"

definition utils_strrtrim :: "string option \<Rightarrow> string option" where
  "utils_strrtrim str = map_option (\<lambda>s. take (trim_end s (length s)) s) str"

definition utils_strlower :: "string option \<Rightarrow> string option" where
  "utils_strlower str = map_option (map tolower) str"

definition utils_strupper :: "string option \<Rightarrow> string option" where
  "utils_strupper str = map_option (map toupper) str"

definition utils_strstartswith :: "string option \<Rightarrow> string option \<Rightarrow> bool" where
  "utils_strstartswith str prefix =
     (case (str, prefix) of
        (Some s, Some p) \<Rightarrow> \<not> length p > length s \<and> take (length p) s = p
      | _ \<Rightarrow> False)"

definition utils_strendswith :: "string option \<Rightarrow> string option \<Rightarrow> bool" where
  "utils_strendswith str suffix =
     (case (str, suffix) of
        (Some s, Some p) \<Rightarrow> \<not> length p > length s \<and> drop (length s - length p) s = p
      | _ \<Rightarrow> False)"

fun utils_strcount :: "string option \<Rightarrow> char \<Rightarrow> int" where
  "utils_strcount None ch = 0"
| "utils_strcount (Some []) ch = 0"
| "utils_strcount (Some (c # s)) ch = (if c = ch then 1 else 0) + utils_strcount (Some s) ch"

section \<open>Replacement\<close>

text \<open>The two search loops: the first counts the occurrences, the second copies the segments.\<close>

function count_occurrences :: "string \<Rightarrow> string \<Rightarrow> nat" where
  "count_occurrences old pos =
     (case strstr pos old of None \<Rightarrow> 0
      | Some i \<Rightarrow> if old = [] then 0
          else Suc (count_occurrences old (drop (i + length old) pos)))"
  by pat_completeness auto
termination
  by (relation "measure (\<lambda>(old, pos). length pos)") (auto intro: strstr_progress)

function replace_segments :: "string \<Rightarrow> string \<Rightarrow> string \<Rightarrow> string" where
  "replace_segments old new src =
     (case strstr src old of None \<Rightarrow> src
      | Some i \<Rightarrow> if old = [] then src
          else take i src @ new @ replace_segments old new (drop (i + length old) src))"
  by pat_completeness auto
termination
  by (relation "measure (\<lambda>(old, new, src). length src)") (auto intro: strstr_progress)

declare count_occurrences.simps [simp del] replace_segments.simps [simp del]

definition replace_size :: "string \<Rightarrow> string \<Rightarrow> string \<Rightarrow> size_t" where
  "replace_size s old new =
     of_nat (length s) + of_nat (count_occurrences old s) * (of_nat (length new) - of_nat (length old)) + 1"

definition utils_strreplace ::
    "alloc \<Rightarrow> string option \<Rightarrow> string option \<Rightarrow> string option \<Rightarrow> string option option" where
  "utils_strreplace al str old new =
     (case (str, old, new) of
        (Some s, Some o_, Some n) \<Rightarrow>
          if o_ = [] then Some (utils_strdup al 0 (Some s))
          else if replace_size s o_ n = 0 then Some None
          else (case al 0 of None \<Rightarrow> Some None
            | Some _ \<Rightarrow>
                let out = replace_segments o_ n s in
                if length out + 1 \<le> unat (replace_size s o_ n) then Some (Some out) else None)
      | _ \<Rightarrow> Some None)"

section \<open>Splitting and joining\<close>

text \<open>The result array before its terminating \<open>NULL\<close>, each entry a copy that may have failed, and
  the value stored in \<open>*count\<close>. \<open>has_count\<close> says whether the count pointer is set. Requests 0 to 2
  are the first copy, the array and the second copy.\<close>

definition utils_strsplit ::
    "alloc \<Rightarrow> string option \<Rightarrow> string option \<Rightarrow> bool \<Rightarrow> string option list option \<times> nat option" where
  "utils_strsplit al str delim has_count =
     (case (str, delim, has_count) of
        (Some s, Some d, True) \<Rightarrow>
          (if al 0 = None then (None, Some 0)
           else
             let tokens = strtok_all d s; count = length tokens in
             if count = 0 then (None, Some 0)
             else if al 1 = None then (None, Some count)
             else if al 2 = None then (None, Some count)
             else (Some (map (\<lambda>i. utils_strdup al (3 + i) (Some (tokens ! i))) [0..<count]), Some count))
      | _ \<Rightarrow> (None, None))"

text \<open>A \<open>NULL\<close>-terminated array is read up to its first \<open>NULL\<close>.\<close>

definition read_array :: "string option list \<Rightarrow> string list" where
  "read_array a = map the (takeWhile (\<lambda>x. x \<noteq> None) a)"

fun join_size :: "nat \<Rightarrow> nat \<Rightarrow> string list \<Rightarrow> size_t" where
  "join_size sep i [] = 0"
| "join_size sep i (s # ss) =
     of_nat (length s) + (if i > 0 \<and> sep > 0 then of_nat sep else 0) + join_size sep (Suc i) ss"

fun join_copy :: "string \<Rightarrow> nat \<Rightarrow> string list \<Rightarrow> string" where
  "join_copy sep i [] = []"
| "join_copy sep i (s # ss) = (if i > 0 \<and> sep \<noteq> [] then sep else []) @ s @ join_copy sep (Suc i) ss"

definition utils_strjoin :: "alloc \<Rightarrow> string option \<Rightarrow> string option list option \<Rightarrow> string option option" where
  "utils_strjoin al separator str_array =
     (case str_array of None \<Rightarrow> Some None
      | Some a \<Rightarrow>
          let sep = (case separator of None \<Rightarrow> [] | Some s \<Rightarrow> s);
              ss = read_array a;
              size = join_size (length sep) 0 ss + 1
          in if size = 0 then Some None
             else (case al 0 of None \<Rightarrow> Some None
               | Some _ \<Rightarrow>
                   if length (join_copy sep 0 ss) + 1 \<le> unat size
                   then Some (Some (join_copy sep 0 ss)) else None))"

section \<open>Trimming against a reference\<close>

lemma trim_end_take: "n \<le> length s \<Longrightarrow> take (trim_end s n) s = rev (dropWhile isspace (rev (take n s)))"
  by (induction n) (auto simp: take_Suc_conv_app_nth)

lemma trim_last_trim_end:
  "n < length s \<Longrightarrow> \<not> isspace (s ! 0) \<Longrightarrow> trim_last s n + 1 = trim_end s (n + 1)"
  by (induction n) auto

lemma utils_strrtrim_ref: "utils_strrtrim (Some s) = Some (rev (dropWhile isspace (rev s)))"
  by (simp add: utils_strrtrim_def trim_end_take)

lemma utils_strtrim_ref:
  "utils_strtrim (Some s) = Some (rev (dropWhile isspace (rev (dropWhile isspace s))))"
proof (cases "dropWhile isspace s = []")
  case True
  show ?thesis unfolding utils_strtrim_def Let_def True option.case by simp
next
  case False
  let ?s = "dropWhile isspace s"
  have "\<not> isspace (?s ! 0)" using False hd_dropWhile [of isspace s] by (simp add: hd_conv_nth)
  then have "trim_last ?s (length ?s - 1) + 1 = trim_end ?s (length ?s)"
    using trim_last_trim_end [of "length ?s - 1" ?s] False by (cases ?s) auto
  then show ?thesis using False trim_end_take [of "length ?s" ?s] by (auto simp: utils_strtrim_def Let_def)
qed

section \<open>Replacement against a reference\<close>

text \<open>Scan from the left and replace each occurrence met.\<close>

function replace_ref :: "string \<Rightarrow> string \<Rightarrow> string \<Rightarrow> string" where
  "replace_ref old new s =
     (if s = [] \<or> old = [] then s
      else if is_prefix old s then new @ replace_ref old new (drop (length old) s)
      else hd s # replace_ref old new (tl s))"
  by pat_completeness auto
termination
  by (relation "measure (\<lambda>(old, new, s). length s)") auto

declare replace_ref.simps [simp del]

lemma replace_ref_search:
  assumes "old \<noteq> []"
  shows "replace_ref old new s = (case strstr s old of None \<Rightarrow> s
    | Some i \<Rightarrow> take i s @ new @ replace_ref old new (drop (i + length old) s))"
proof (induction s)
  case Nil
  then show ?case using assms by (simp add: replace_ref.simps)
next
  case (Cons c s)
  show ?case
  proof (cases "is_prefix old (c # s)")
    case True
    then show ?thesis using assms by (subst replace_ref.simps) simp
  next
    case False
    then have "replace_ref old new (c # s) = c # replace_ref old new s"
      using assms by (subst replace_ref.simps) simp
    with False Cons show ?thesis by (auto split: option.splits)
  qed
qed

lemma replace_segments_ref: "old \<noteq> [] \<Longrightarrow> replace_segments old new s = replace_ref old new s"
proof (induction old new s rule: replace_segments.induct)
  case (1 old new s)
  then show ?case
    by (subst replace_segments.simps) (auto simp: replace_ref_search [of old new s] split: option.splits)
qed

lemma replace_segments_length:
  "old \<noteq> [] \<Longrightarrow> length (replace_segments old new s) + count_occurrences old s * length old =
     length s + count_occurrences old s * length new"
proof (induction old new s rule: replace_segments.induct)
  case (1 old new s)
  show ?case
  proof (cases "strstr s old")
    case None
    then show ?thesis by (simp add: replace_segments.simps [of old] count_occurrences.simps [of old])
  next
    case (Some i)
    let ?r = "drop (i + length old) s"
    have "i + length old \<le> length s" using strstr_Some [OF Some] by simp
    moreover have "length (replace_segments old new ?r) + count_occurrences old ?r * length old =
        length ?r + count_occurrences old ?r * length new"
      using "1.IH" [OF Some] "1.prems" by simp
    moreover have "replace_segments old new s = take i s @ new @ replace_segments old new ?r"
      "count_occurrences old s = Suc (count_occurrences old ?r)"
      using Some "1.prems" by (simp_all add: replace_segments.simps [of old new s] count_occurrences.simps [of old s])
    ultimately show ?thesis by simp
  qed
qed

text \<open>The size computed in wrapping arithmetic is that of the text, even when it shrinks.\<close>

lemma replace_size_exact:
  assumes "old \<noteq> []"
  shows "replace_size s old new = of_nat (length (replace_segments old new s) + 1)"
proof -
  let ?c = "count_occurrences old s"
  have "of_nat (length (replace_segments old new s) + ?c * length old) =
      (of_nat (length s + ?c * length new) :: size_t)"
    using replace_segments_length [OF assms] by simp
  then have "of_nat (length (replace_segments old new s)) =
      (of_nat (length s) + of_nat ?c * of_nat (length new) - of_nat ?c * of_nat (length old) :: size_t)"
    by (simp add: algebra_simps)
  then show ?thesis by (simp add: replace_size_def algebra_simps)
qed

section \<open>Tokens and joined text\<close>

lemma strtok_all_delim [simp]: "strtok_all [d] (d # r) = strtok_all [d] r"
  by (simp add: strtok_all.simps [of "[d]" "d # r"] strtok_all.simps [of "[d]" r])

lemma strtok_all_Nil [simp]: "strtok_all d [] = []"
  by (simp add: strtok_all.simps)

lemma strtok_all_token:
  assumes "t \<noteq> []" "d \<notin> set t" "r = [] \<or> hd r = d"
  shows "strtok_all [d] (t @ r) = t # strtok_all [d] r"
proof -
  obtain c u where t: "t = c # u" "c \<noteq> d" "d \<notin> set u" using assms(1,2) by (cases t) auto
  have "takeWhile (\<lambda>c. c \<noteq> d) r = []" "dropWhile (\<lambda>c. c \<noteq> d) r = r"
    using assms(3) by (cases r; simp)+
  moreover have "\<And>c. c \<in> set t \<Longrightarrow> c \<noteq> d" using assms(2) by blast
  ultimately have "takeWhile (\<lambda>c. c \<noteq> d) (t @ r) = t" "dropWhile (\<lambda>c. c \<noteq> d) (t @ r) = r"
    by (simp_all add: takeWhile_append2 dropWhile_append2)
  then show ?thesis using t by (subst strtok_all.simps) simp
qed

lemma join_copy_Suc: "join_copy sep (Suc i) ss = concat (map (\<lambda>s. sep @ s) ss)"
  by (induction ss arbitrary: i) auto

lemma strtok_all_join:
  "\<forall>t \<in> set ts. t \<noteq> [] \<and> d \<notin> set t \<Longrightarrow> strtok_all [d] (concat (map (\<lambda>s. [d] @ s) ts)) = ts"
proof (induction ts)
  case Nil
  then show ?case by simp
next
  case (Cons t ts)
  have "concat (map (\<lambda>s. [d] @ s) ts) = [] \<or> hd (concat (map (\<lambda>s. [d] @ s) ts)) = d"
    by (cases ts) auto
  with Cons show ?case by (simp add: strtok_all_token)
qed

lemma strtok_all_join_copy:
  assumes "\<forall>t \<in> set ts. t \<noteq> [] \<and> d \<notin> set t"
  shows "strtok_all [d] (join_copy [d] 0 ts) = ts"
proof (cases ts)
  case Nil
  then show ?thesis by simp
next
  case (Cons t us)
  have "concat (map (\<lambda>s. [d] @ s) us) = [] \<or> hd (concat (map (\<lambda>s. [d] @ s) us)) = d"
    by (cases us) auto
  with Cons assms show ?thesis
    using strtok_all_join [of us d] by (simp add: join_copy_Suc strtok_all_token)
qed

lemma join_size_exact: "join_size (length sep) i ss = of_nat (length (join_copy sep i ss))"
  by (induction ss arbitrary: i) auto

lemma read_array_Some [simp]: "read_array (map Some ss) = ss"
  by (simp add: read_array_def takeWhile_eq_all_conv [THEN iffD2] comp_def)

section \<open>Properties\<close>

text \<open>
  \<open>utils_strtrim\<close> removes exactly the surrounding white space: the string is some white
  space, the result, and some white space again, and a non-empty result neither starts nor ends
  with white space.
\<close>

theorem strtrim_removes_surrounding_space:
  "\<exists>t l r. utils_strtrim (Some s) = Some t \<and> s = l @ t @ r \<and> list_all isspace l \<and> list_all isspace r \<and>
     (t = [] \<or> \<not> isspace (hd t) \<and> \<not> isspace (last t))"
proof -
  let ?s = "dropWhile isspace s"
  let ?t = "rev (dropWhile isspace (rev ?s))"
  let ?r = "rev (takeWhile isspace (rev ?s))"
  have "rev ?r @ rev ?t = rev ?s" by simp
  then have "?s = ?t @ ?r" by (metis rev_append rev_rev_ident)
  then have split: "s = takeWhile isspace s @ ?t @ ?r" using takeWhile_dropWhile_id [of isspace s] by metis
  have "\<not> isspace (hd ?t) \<and> \<not> isspace (last ?t)" if "?t \<noteq> []"
  proof
    have "hd ?s = hd ?t" using \<open>?s = ?t @ ?r\<close> that by (metis hd_append2)
    moreover have "?s \<noteq> []" using that by (metis dropWhile.simps(1) rev.simps(1))
    ultimately show "\<not> isspace (hd ?t)" using hd_dropWhile [of isspace s] by simp
    show "\<not> isspace (last ?t)" using that hd_dropWhile [of isspace "rev ?s"] by (simp add: last_rev)
  qed
  moreover have "list_all isspace (takeWhile isspace s)" "list_all isspace ?r"
    by (auto simp: list_all_iff dest: set_takeWhileD)
  ultimately show ?thesis using split utils_strtrim_ref [of s] by blast
qed

text \<open>
  (C13) \<open>utils_strreplace\<close> fills its array exactly: the size computed by the counting loop, in
  wrapping 64-bit arithmetic that may subtract, is the length of the text written by the copying
  loop plus its terminator, nothing is written outside it, and the text is the left-to-right
  replacement of every occurrence.
\<close>

theorem strreplace_exact:
  assumes "old \<noteq> []" "length (replace_ref old new s) + 1 < 2 ^ 64" "al 0 \<noteq> None"
  shows "utils_strreplace al (Some s) (Some old) (Some new) = Some (Some (replace_ref old new s)) \<and>
    unat (replace_size s old new) = length (replace_ref old new s) + 1"
proof -
  have sz: "unat (replace_size s old new) = length (replace_ref old new s) + 1"
    using assms(2) unfolding replace_size_exact [OF assms(1)] replace_segments_ref [OF assms(1)]
    by (simp add: unat_of_nat take_bit_nat_eq_self del: of_nat_Suc of_nat_add)
  then have "replace_size s old new \<noteq> 0" by auto
  with sz assms(1,3) show ?thesis
    by (auto simp: utils_strreplace_def replace_segments_ref Let_def)
qed

lemma strreplace_exact_witness:
  "utils_strreplace (\<lambda>_. Some (\<lambda>_. CHR ''?'')) (Some ''a--b--'') (Some ''--'') (Some ''+'') = Some (Some ''a+b+'') \<and>
   unat (replace_size ''a--b--'' ''--'' ''+'') = 5"
proof -
  have r: "replace_ref ''--'' ''+'' ''a--b--'' = ''a+b+''"
    by (simp add: replace_ref.simps is_prefix_def)
  show ?thesis
    using strreplace_exact [of "''--''" "''+''" "''a--b--''" "\<lambda>_. Some (\<lambda>_. CHR ''?'')"]
    unfolding r by simp
qed

text \<open>
  Splitting undoes joining: joining non-empty tokens that do not contain the one-character
  separator and splitting the result at that separator gives the tokens back, with their number,
  when memory suffices.
\<close>

theorem strsplit_strjoin_roundtrip:
  assumes "ts \<noteq> []" "\<forall>t \<in> set ts. t \<noteq> [] \<and> d \<notin> set t"
    and "length (join_copy [d] 0 ts) + 1 < 2 ^ 64" "\<forall>j. al j \<noteq> None" "\<forall>j. al' j \<noteq> None"
  shows "\<exists>joined. utils_strjoin al (Some [d]) (Some (map Some ts)) = Some (Some joined) \<and>
    utils_strsplit al' (Some joined) (Some [d]) True = (Some (map Some ts), Some (length ts))"
proof -
  let ?j = "join_copy [d] 0 ts"
  have e: "join_size (Suc 0) 0 ts + 1 = of_nat (length ?j + 1)"
    using join_size_exact [of "[d]" 0 ts] by simp
  have sz: "unat (join_size (Suc 0) 0 ts + 1) = length ?j + 1"
    using assms(3) unfolding e by (simp add: unat_of_nat take_bit_nat_eq_self del: of_nat_Suc of_nat_add)
  then have "join_size (Suc 0) 0 ts + 1 \<noteq> 0" by auto
  then have "utils_strjoin al (Some [d]) (Some (map Some ts)) = Some (Some ?j)"
    using sz assms(4) [rule_format, of 0] by (auto simp: utils_strjoin_def Let_def)
  moreover have "map (\<lambda>i. utils_strdup al' (3 + i) (Some (ts ! i))) [0..<length ts] = map Some ts"
    using assms(5) by (intro nth_equalityI) (auto simp: utils_strdup_def split: option.splits)
  then have "utils_strsplit al' (Some ?j) (Some [d]) True = (Some (map Some ts), Some (length ts))"
    using assms(1,5) strtok_all_join_copy [OF assms(2)] by (simp add: utils_strsplit_def Let_def)
  ultimately show ?thesis by blast
qed

lemma strsplit_strjoin_roundtrip_witness:
  "\<exists>joined. utils_strjoin (\<lambda>_. Some (\<lambda>_. CHR ''?'')) (Some '','') (Some (map Some [''ab'', ''c''])) = Some (Some joined) \<and>
    utils_strsplit (\<lambda>_. Some (\<lambda>_. CHR ''?'')) (Some joined) (Some '','') True =
      (Some (map Some [''ab'', ''c'']), Some (length [''ab'', ''c'']))"
  by (rule strsplit_strjoin_roundtrip) simp_all

end
