(* ===== verification/Paths.thy ===== *)
theory Paths
  imports Str_Utils
begin

text \<open>
  The path functions of \<open>server/src/utils.c\<close> (\<open>utils_path_join\<close> to \<open>utils_path_normalize\<close>).
  \<open>utils_path_dirname\<close> cuts its copy in place, so it is modelled on the allocated array, which has
  one byte more than the path; an access outside the array is the result \<open>None\<close>.
\<close>

abbreviation slash :: char where "slash \<equiv> CHR ''/''"

text \<open>The text of an array: the bytes before the first terminator.\<close>

definition cstr :: "char list \<Rightarrow> string" where
  "cstr buf = takeWhile (\<lambda>c. c \<noteq> NUL) buf"

definition utils_path_join :: "alloc \<Rightarrow> string option \<Rightarrow> string option \<Rightarrow> string option option" where
  "utils_path_join al dir file =
     (case (dir, file) of
        (None, None) \<Rightarrow> Some None
      | (None, Some f) \<Rightarrow> Some (utils_strdup al 0 file)
      | (Some d, None) \<Rightarrow> Some (utils_strdup al 0 dir)
      | (Some d, Some f) \<Rightarrow>
          let result_len = length d + length f + 2 in
          (case al 0 of None \<Rightarrow> Some None
           | Some _ \<Rightarrow>
               let sep = (if 0 < length d \<and> last d \<noteq> slash \<and> 0 < length f \<and> hd f \<noteq> slash then ''/'' else []);
                   text = d @ sep @ f
               in if length text + 1 \<le> result_len then Some (Some text) else None))"

definition dirname_buf :: "char list \<Rightarrow> char list option" where
  "dirname_buf buf =
     (case strrchr (cstr buf) slash of
        Some i \<Rightarrow>
          Option.bind
            (if buf ! (i + 1) = NUL
             then map_option (\<lambda>b. (b, strrchr (cstr b) slash)) (mem_write buf i [NUL])
             else Some (buf, Some i))
            (\<lambda>(b, last_slash). case last_slash of
               Some j \<Rightarrow> mem_write b j [NUL]
             | None \<Rightarrow> if b ! 0 = slash then mem_write b 1 [NUL] else mem_write b 0 [CHR ''.'', NUL])
      | None \<Rightarrow> mem_write buf 0 [CHR ''.'', NUL])"

definition utils_path_dirname :: "alloc \<Rightarrow> string option \<Rightarrow> string option option" where
  "utils_path_dirname al path =
     (case path of None \<Rightarrow> Some None
      | Some s \<Rightarrow> (case al 0 of None \<Rightarrow> Some None
        | Some _ \<Rightarrow> map_option (\<lambda>b. Some (cstr b)) (dirname_buf (s @ [NUL]))))"

definition utils_path_basename :: "alloc \<Rightarrow> string option \<Rightarrow> string option" where
  "utils_path_basename al path =
     (case path of None \<Rightarrow> None
      | Some s \<Rightarrow> (case strrchr s slash of
          Some i \<Rightarrow> utils_strdup al 0 (Some (drop (i + 1) s))
        | None \<Rightarrow> utils_strdup al 0 (Some s)))"

definition utils_path_extension :: "alloc \<Rightarrow> string option \<Rightarrow> string option" where
  "utils_path_extension al path =
     (case path of None \<Rightarrow> None
      | Some s \<Rightarrow> (case strrchr s (CHR ''.'') of
          None \<Rightarrow> utils_strdup al 0 (Some [])
        | Some dot \<Rightarrow>
            (case strrchr s slash of
               Some sl \<Rightarrow> if dot < sl then utils_strdup al 0 (Some []) else utils_strdup al 0 (Some (drop dot s))
             | None \<Rightarrow> utils_strdup al 0 (Some (drop dot s)))))"

definition utils_path_without_extension :: "alloc \<Rightarrow> string option \<Rightarrow> string option" where
  "utils_path_without_extension al path =
     (case utils_strdup al 0 path of None \<Rightarrow> None
      | Some s \<Rightarrow> (case strrchr s (CHR ''.'') of
          None \<Rightarrow> Some s
        | Some dot \<Rightarrow>
            (case strrchr s slash of
               Some sl \<Rightarrow> if dot > sl then Some (take dot s) else Some s
             | None \<Rightarrow> Some (take dot s))))"

definition utils_path_is_absolute :: "string option \<Rightarrow> bool" where
  "utils_path_is_absolute path = (case path of None \<Rightarrow> False | Some s \<Rightarrow> s \<noteq> [] \<and> hd s = slash)"

text \<open>The first loop of \<open>utils_path_normalize\<close>: runs of separators become one.\<close>

function squeeze_slashes :: "string \<Rightarrow> string" where
  "squeeze_slashes s =
     (if s = [] then []
      else if hd s = slash then slash # squeeze_slashes (dropWhile (\<lambda>c. c = slash) s)
      else hd s # squeeze_slashes (tl s))"
  by pat_completeness auto
termination
proof (relation "measure length", goal_cases)
  case (2 s)
  then show ?case by (cases s) (auto simp: le_imp_less_Suc length_dropWhile_le)
qed auto

declare squeeze_slashes.simps [simp del]

text \<open>The stack of components and the path rebuilt from it, after a successful split.\<close>

fun normalize_stack :: "string list \<Rightarrow> string list \<Rightarrow> string list" where
  "normalize_stack stack [] = stack"
| "normalize_stack stack (c # cs) =
     (if c = ''.'' then normalize_stack stack cs
      else if c = ''..'' then normalize_stack (if stack \<noteq> [] then butlast stack else stack) cs
      else normalize_stack (stack @ [c]) cs)"

definition normalize_rebuild :: "string \<Rightarrow> string list \<Rightarrow> string" where
  "normalize_rebuild path stack =
     (let start = (if path \<noteq> [] \<and> hd path = slash then ''/'' else []);
          r = foldl (\<lambda>p c. if p = ''/'' then p @ c else p @ ''/'' @ c) start stack
      in if r = [] then ''.'' else r)"

text \<open>The split is called without a count pointer. Past it the allocations of the copies are taken
  to succeed: that part is never reached, as shown below.\<close>

definition utils_path_normalize :: "alloc \<Rightarrow> string option \<Rightarrow> string option" where
  "utils_path_normalize al path =
     (case utils_strdup al 0 path of None \<Rightarrow> None
      | Some s \<Rightarrow>
          (case fst (utils_strsplit (\<lambda>i. al (1 + i)) (Some (squeeze_slashes s)) (Some ''/'') False) of
             None \<Rightarrow> None
           | Some components \<Rightarrow>
               Some (normalize_rebuild s (normalize_stack [] (read_array components)))))"

section \<open>The last separator\<close>

lemma strrchr_append: "c \<notin> set t \<Longrightarrow> strrchr (s @ c # t) c = Some (length s)"
  by (induction s) (simp_all add: strrchr_None [THEN iffD2])

lemma cstr_append_NUL [simp]: "is_cstr s \<Longrightarrow> cstr (s @ NUL # r) = s"
  by (induction s) (auto simp: cstr_def)

lemma dirname_buf_join:
  assumes "is_cstr d" "is_cstr f" "f \<noteq> []" "slash \<notin> set f"
  shows "dirname_buf ((d @ slash # f) @ [NUL]) = Some (d @ NUL # f @ [NUL])"
proof -
  have c: "cstr ((d @ slash # f) @ [NUL]) = d @ slash # f"
    using assms cstr_append_NUL [of "d @ slash # f" "[]"] by (simp add: NUL_def)
  have n: "((d @ slash # f) @ [NUL]) ! (length d + 1) \<noteq> NUL"
    using assms by (cases f) (auto simp: nth_append)
  show ?thesis using n strrchr_append [OF assms(4)] unfolding dirname_buf_def c
    by simp
qed

section \<open>Properties\<close>

text \<open>
  Joining a directory (not ending in a separator) and a file name and taking the result
  apart again gives both parts back: \<open>utils_path_join\<close> stays inside its array,
  \<open>utils_path_basename\<close> returns the file and \<open>utils_path_dirname\<close> the directory.
\<close>

theorem path_join_split:
  assumes "is_cstr d" "is_cstr f" "d \<noteq> []" "f \<noteq> []" "last d \<noteq> slash" "slash \<notin> set f"
    and "al 0 \<noteq> None"
  shows "\<exists>p. utils_path_join al (Some d) (Some f) = Some (Some p) \<and>
    utils_path_basename al (Some p) = Some f \<and> utils_path_dirname al (Some p) = Some (Some d)"
proof -
  let ?p = "d @ slash # f"
  have "hd f \<noteq> slash" using assms(4,6) by (cases f) auto
  then have "utils_path_join al (Some d) (Some f) = Some (Some ?p)"
    using assms by (auto simp: utils_path_join_def Let_def)
  moreover have "utils_path_basename al (Some ?p) = Some f"
    using assms(7) strrchr_append [OF assms(6)] by (auto simp: utils_path_basename_def utils_strdup_def)
  moreover have "utils_path_dirname al (Some ?p) = Some (Some d)"
    using assms(1,7) dirname_buf_join [OF assms(1,2,4,6)] by (auto simp: utils_path_dirname_def)
  ultimately show ?thesis by blast
qed

lemma path_join_split_witness:
  "\<exists>p. utils_path_join (\<lambda>_. Some (\<lambda>_. CHR ''?'')) (Some ''/var/log'') (Some ''chat.log'') = Some (Some p) \<and>
    utils_path_basename (\<lambda>_. Some (\<lambda>_. CHR ''?'')) (Some p) = Some ''chat.log'' \<and>
    utils_path_dirname (\<lambda>_. Some (\<lambda>_. CHR ''?'')) (Some p) = Some (Some ''/var/log'')"
  by (rule path_join_split) (simp_all add: NUL_def)

text \<open>
  The extension and the rest partition the path: \<open>utils_path_without_extension\<close> followed by
  \<open>utils_path_extension\<close> is the path itself, and the extension contains no separator.
\<close>

theorem path_extension_partition:
  assumes "al 0 \<noteq> None"
  shows "\<exists>b e. utils_path_without_extension al (Some s) = Some b \<and>
    utils_path_extension al (Some s) = Some e \<and> b @ e = s \<and> slash \<notin> set e"
proof (cases "strrchr s (CHR ''.'')")
  case None
  with assms show ?thesis
    by (auto simp: utils_path_without_extension_def utils_path_extension_def utils_strdup_def)
next
  case dot: (Some d)
  show ?thesis
  proof (cases "strrchr s slash")
    case None
    then have "slash \<notin> set (drop d s)" by (auto simp: strrchr_None dest: in_set_dropD)
    with assms dot None show ?thesis
      by (auto simp: utils_path_without_extension_def utils_path_extension_def utils_strdup_def)
  next
    case (Some i)
    have "i \<noteq> d" using strrchr_Some [OF dot] strrchr_Some [OF Some] by auto
    have "slash \<notin> set (drop d s)" if "i < d"
      using strrchr_Some [OF Some] that set_drop_subset_set_drop [of "Suc i" d s] by auto
    with assms dot Some \<open>i \<noteq> d\<close> show ?thesis
      by (auto simp: utils_path_without_extension_def utils_path_extension_def utils_strdup_def)
  qed
qed

lemma path_extension_partition_witness:
  "\<exists>b e. utils_path_without_extension (\<lambda>_. Some (\<lambda>_. CHR ''?'')) (Some ''a.d/f.tar.gz'') = Some b \<and>
    utils_path_extension (\<lambda>_. Some (\<lambda>_. CHR ''?'')) (Some ''a.d/f.tar.gz'') = Some e \<and>
    b @ e = ''a.d/f.tar.gz'' \<and> slash \<notin> set e"
  by (rule path_extension_partition) simp

text \<open>
  \<open>utils_path_dirname\<close> of the empty path writes one byte past its one-byte copy, and of the
  root directory it answers \<open>.\<close>, not the root.
\<close>

theorem dirname_edge_cases:
  "utils_path_dirname (\<lambda>_. Some g) (Some []) = None \<and>
   utils_path_dirname (\<lambda>_. Some g) (Some ''/'') = Some (Some ''.'') \<and>
   utils_path_dirname (\<lambda>_. Some g) (Some ''/etc'') = Some (Some [])"
  by (simp add: utils_path_dirname_def dirname_buf_def cstr_def NUL_def mem_write_def)

text \<open>
  \<open>utils_path_normalize\<close> returns \<open>NULL\<close> for every path and every state of memory, because it
  calls \<open>utils_strsplit\<close> without the count pointer that function requires.
\<close>

theorem path_normalize_always_null: "utils_path_normalize al path = None"
  by (auto simp: utils_path_normalize_def utils_strsplit_def split: option.splits)

end
