(* ===== verification/Config_Store.thy ===== *)
theory Config_Store
  imports Hash_Table Str_Utils
begin

text \<open>
  The configuration store of \<open>server/src/utils.c\<close> (\<open>config_create\<close> to
  \<open>config_remove_section\<close>): a hash table of sections, each with a hash table of items. The tables
  are the ones of \<open>Hash_Table\<close>; the proofs use them through the interfaces of \<open>String_Map\<close>.
  Every request for memory has its own outcome, numbered in the order of the code.
\<close>

record config_item =
  ci_key :: string
  ci_value :: "string option"

record config_section =
  cs_name :: string
  cs_items :: "config_item hash_table"

record config =
  cf_sections :: "config_section hash_table"

text \<open>A write through the pointer stored in a node: the value changes where it is, nothing is
  freed.\<close>

definition ht_poke :: "'v hash_table \<Rightarrow> string \<Rightarrow> 'v \<Rightarrow> 'v hash_table" where
  "ht_poke t key v =
     (case chain_update (ht_buckets t ! ht_index t key) key (Some v) of
        Some (b, _) \<Rightarrow> t\<lparr>ht_buckets := (ht_buckets t)[ht_index t key := b]\<rparr>
      | None \<Rightarrow> t)"

section \<open>Operations\<close>

definition config_create :: "(nat \<Rightarrow> bool) \<Rightarrow> config option" where
  "config_create ok =
     (if \<not> ok 0 then None
      else map_option (\<lambda>t. \<lparr>cf_sections = t\<rparr>)
             (hash_table_create (ok 1) (ok 2) 16 (Some hash_string_djb2) True))"

text \<open>The section that following lines belong to: one of the table, or one that could not be
  inserted and is reachable from nowhere else.\<close>

datatype section_ref = In_Table string | Orphan config_section

definition config_section_line ::
    "(nat \<Rightarrow> bool) \<Rightarrow> config \<Rightarrow> string \<Rightarrow> config + config \<times> section_ref option" where
  "config_section_line ok c name =
     (if \<not> ok 0 then Inl c
      else case ht_lookup (cf_sections c) name of
        Some _ \<Rightarrow> Inr (c, Some (In_Table name))
      | None \<Rightarrow>
          if \<not> ok 1 then Inl c
          else (case hash_table_create (ok 2) (ok 3) 16 (Some hash_string_djb2) True of
              None \<Rightarrow> Inl c
            | Some items \<Rightarrow>
                let s = \<lparr>cs_name = name, cs_items = items\<rparr> in
                case ht_insert (ok 4) (ok 5) (cf_sections c) name (Some s) of
                  (r, t, _) \<Rightarrow> Inr (c\<lparr>cf_sections := t\<rparr>,
                                    Some (if r = 0 then In_Table name else Orphan s))))"

definition section_insert_item ::
    "(nat \<Rightarrow> bool) \<Rightarrow> config_section \<Rightarrow> string \<Rightarrow> string \<Rightarrow> config_section" where
  "section_insert_item ok s key value =
     s\<lparr>cs_items := fst (snd (ht_insert (ok 3) (ok 4) (cs_items s) key
                          (Some \<lparr>ci_key = key, ci_value = Some value\<rparr>)))\<rparr>"

definition config_item_line ::
    "(nat \<Rightarrow> bool) \<Rightarrow> config \<Rightarrow> section_ref \<Rightarrow> string \<Rightarrow> config + config \<times> section_ref option" where
  "config_item_line ok c cur trimmed =
     (case strchr trimmed (CHR ''='') of
        None \<Rightarrow> Inr (c, Some cur)
      | Some i \<Rightarrow>
          (case (utils_strtrim (Some (take i trimmed)), utils_strtrim (Some (drop (i + 1) trimmed))) of
             (Some key, Some value) \<Rightarrow>
               if \<not> ok 0 then Inl c
               else if \<not> (ok 1 \<and> ok 2) then Inl c
               else (case cur of
                   Orphan s \<Rightarrow> Inr (c, Some (Orphan (section_insert_item ok s key value)))
                 | In_Table n \<Rightarrow>
                     (case ht_lookup (cf_sections c) n of
                        None \<Rightarrow> Inr (c, Some cur)
                      | Some s \<Rightarrow>
                          Inr (c\<lparr>cf_sections := ht_poke (cf_sections c) n
                                                  (section_insert_item ok s key value)\<rparr>, Some cur)))
           | _ \<Rightarrow> Inr (c, Some cur)))"

definition config_line ::
    "(nat \<Rightarrow> bool) \<Rightarrow> config \<Rightarrow> section_ref option \<Rightarrow> string \<Rightarrow> config + config \<times> section_ref option" where
  "config_line ok c cur line =
     (case utils_strtrim (Some line) of
        None \<Rightarrow> Inr (c, cur)
      | Some trimmed \<Rightarrow>
          if trimmed = [] \<or> hd trimmed = CHR '';'' \<or> hd trimmed = CHR ''#'' then Inr (c, cur)
          else if hd trimmed = CHR ''['' \<and> last trimmed = CHR '']'' then
            config_section_line ok c (tl (butlast trimmed))
          else (case cur of None \<Rightarrow> Inr (c, None) | Some r \<Rightarrow> config_item_line ok c r trimmed))"

fun config_lines ::
    "(nat \<Rightarrow> nat \<Rightarrow> bool) \<Rightarrow> nat \<Rightarrow> config \<Rightarrow> section_ref option \<Rightarrow> string list \<Rightarrow> int \<times> config" where
  "config_lines ok n c cur [] = (0, c)"
| "config_lines ok n c cur (l # ls) =
     (case config_line (ok n) c cur l of
        Inl c' \<Rightarrow> (-1, c')
      | Inr (c', cur') \<Rightarrow> config_lines ok (Suc n) c' cur' ls)"

text \<open>Request 0 of line 0 is the copy of the text; the lines are numbered from 1.\<close>

definition config_load_string ::
    "(nat \<Rightarrow> nat \<Rightarrow> bool) \<Rightarrow> config option \<Rightarrow> string option \<Rightarrow> int \<times> config option" where
  "config_load_string ok config str =
     (case (config, str) of
        (Some c, Some s) \<Rightarrow>
          if \<not> ok 0 0 then (-1, config)
          else map_prod id Some (config_lines ok 1 c None (strtok_all [CHR 0x0A] s))
      | _ \<Rightarrow> (-1, config))"

text \<open>The file as the text written to it; \<open>opened\<close> is the outcome of \<open>fopen\<close>.\<close>

definition item_text :: "config_item \<Rightarrow> string" where
  "item_text i = ci_key i @ '' = '' @ (case ci_value i of Some v \<Rightarrow> v | None \<Rightarrow> ''(null)'') @ [CHR 0x0A]"

definition section_text :: "config_section \<Rightarrow> string" where
  "section_text s =
     ''['' @ cs_name s @ '']'' @ [CHR 0x0A] @ concat (map (item_text \<circ> snd) (ht_pairs (cs_items s))) @ [CHR 0x0A]"

definition config_save_file :: "bool \<Rightarrow> config option \<Rightarrow> string option \<Rightarrow> int \<times> string option" where
  "config_save_file opened config path =
     (case (config, path) of
        (Some c, Some _) \<Rightarrow> if \<not> opened then (-1, None)
          else (0, Some (concat (map (section_text \<circ> snd) (ht_pairs (cf_sections c)))))
      | _ \<Rightarrow> (-1, None))"

text \<open>Updating or creating the item of a section; \<open>-1\<close> leaves it alone.\<close>

definition section_set ::
    "(nat \<Rightarrow> bool) \<Rightarrow> config_section \<Rightarrow> string \<Rightarrow> string \<Rightarrow> int \<times> config_section" where
  "section_set ok s key value =
     (case ht_lookup (cs_items s) key of
        Some i \<Rightarrow>
          (0, s\<lparr>cs_items := ht_poke (cs_items s) key
                  (i\<lparr>ci_value := (if ok 6 then Some value else None)\<rparr>)\<rparr>)
      | None \<Rightarrow>
          if \<not> ok 6 then (-1, s)
          else if \<not> (ok 7 \<and> ok 8) then (-1, s)
          else (0, s\<lparr>cs_items := fst (snd (ht_insert (ok 9) (ok 10) (cs_items s) key
                                  (Some \<lparr>ci_key = key, ci_value = Some value\<rparr>)))\<rparr>))"

definition config_set :: "(nat \<Rightarrow> bool) \<Rightarrow> config \<Rightarrow> string \<Rightarrow> string \<Rightarrow> string \<Rightarrow> int \<times> config" where
  "config_set ok c section_name key value =
     (case ht_lookup (cf_sections c) section_name of
        Some s \<Rightarrow>
          (case section_set ok s key value of
             (r, s') \<Rightarrow> (r, c\<lparr>cf_sections := ht_poke (cf_sections c) section_name s'\<rparr>))
      | None \<Rightarrow>
          if \<not> ok 0 then (-1, c)
          else (case (ok 1, hash_table_create (ok 2) (ok 3) 16 (Some hash_string_djb2) True) of
              (True, Some items) \<Rightarrow>
                let s = \<lparr>cs_name = section_name, cs_items = items\<rparr> in
                (case ht_insert (ok 4) (ok 5) (cf_sections c) section_name (Some s) of
                   (r, t, _) \<Rightarrow>
                     (case section_set ok s key value of
                        (r', s') \<Rightarrow> (r', c\<lparr>cf_sections := (if r = 0 then ht_poke t section_name s' else t)\<rparr>)))
            | _ \<Rightarrow> (-1, c)))"

definition config_set_value :: "(nat \<Rightarrow> bool) \<Rightarrow> config option \<Rightarrow> string option \<Rightarrow> string option \<Rightarrow>
    string option \<Rightarrow> int \<times> config option" where
  "config_set_value ok config section_name key value =
     (case (config, section_name, key, value) of
        (Some c, Some s, Some k, Some v) \<Rightarrow> map_prod id Some (config_set ok c s k v)
      | _ \<Rightarrow> (-1, config))"

definition config_get_value :: "config option \<Rightarrow> string option \<Rightarrow> string option \<Rightarrow> string option" where
  "config_get_value config section key =
     (case (config, section, key) of
        (Some c, Some s, Some k) \<Rightarrow>
          (case ht_lookup (cf_sections c) s of None \<Rightarrow> None
           | Some sp \<Rightarrow> (case ht_lookup (cs_items sp) k of None \<Rightarrow> None | Some i \<Rightarrow> ci_value i))
      | _ \<Rightarrow> None)"

definition config_get_int :: "config option \<Rightarrow> string option \<Rightarrow> string option \<Rightarrow> int \<Rightarrow> int" where
  "config_get_int config section key default_value =
     (case config_get_value config section key of None \<Rightarrow> default_value
      | Some value \<Rightarrow>
          (case strtol10 value of
             (result, endptr) \<Rightarrow>
               if endptr = value \<or> endptr \<noteq> [] then default_value else int_of_long result))"

definition strcaseeq :: "string \<Rightarrow> string \<Rightarrow> bool" where
  "strcaseeq s t \<longleftrightarrow> map tolower s = map tolower t"

definition config_get_bool :: "config option \<Rightarrow> string option \<Rightarrow> string option \<Rightarrow> bool \<Rightarrow> bool" where
  "config_get_bool config section key default_value =
     (case config_get_value config section key of None \<Rightarrow> default_value
      | Some value \<Rightarrow>
          if strcaseeq value ''true'' \<or> strcaseeq value ''yes'' \<or> strcaseeq value ''1'' then True
          else if strcaseeq value ''false'' \<or> strcaseeq value ''no'' \<or> strcaseeq value ''0'' then False
          else default_value)"

definition config_remove_key ::
    "config option \<Rightarrow> string option \<Rightarrow> string option \<Rightarrow> int \<times> config option" where
  "config_remove_key config section key =
     (case (config, section, key) of
        (Some c, Some s, Some k) \<Rightarrow>
          (case ht_lookup (cf_sections c) s of None \<Rightarrow> (-1, config)
           | Some sp \<Rightarrow>
               (case ht_remove (cs_items sp) k of
                  (r, t, _) \<Rightarrow>
                    (r, Some (c\<lparr>cf_sections := ht_poke (cf_sections c) s (sp\<lparr>cs_items := t\<rparr>)\<rparr>))))
      | _ \<Rightarrow> (-1, config))"

definition config_remove_section :: "config option \<Rightarrow> string option \<Rightarrow> int \<times> config option" where
  "config_remove_section config section =
     (case (config, section) of
        (Some c, Some s) \<Rightarrow>
          (case ht_remove (cf_sections c) s of (r, t, _) \<Rightarrow> (r, Some (c\<lparr>cf_sections := t\<rparr>)))
      | _ \<Rightarrow> (-1, config))"

section \<open>Invariant and abstraction\<close>

definition sec_ok :: "config_section \<Rightarrow> bool" where
  "sec_ok s \<longleftrightarrow> ht_ok (cs_items s) \<and> (\<forall>k i. ht_lookup (cs_items s) k = Some i \<longrightarrow> ci_key i = k)"

definition config_inv :: "config \<Rightarrow> bool" where
  "config_inv c \<longleftrightarrow> ht_ok (cf_sections c) \<and>
     (\<forall>n s. ht_lookup (cf_sections c) n = Some s \<longrightarrow> cs_name s = n \<and> sec_ok s)"

definition sec_abs :: "config_section \<Rightarrow> string \<rightharpoonup> string" where
  "sec_abs s = (\<lambda>k. Option.bind (ht_lookup (cs_items s) k) ci_value)"

definition config_abs :: "config \<Rightarrow> string \<rightharpoonup> (string \<rightharpoonup> string)" where
  "config_abs c = (\<lambda>n. map_option sec_abs (ht_lookup (cf_sections c) n))"

lemma config_get_abs:
  "config_get_value (Some c) (Some n) (Some k) = Option.bind (config_abs c n) (\<lambda>m. m k)"
  by (simp add: config_get_value_def config_abs_def sec_abs_def bind_eq_None_conv split: option.splits)

lemma ht_ok_lookup_map: "ht_ok t \<Longrightarrow> ht_map t k = None \<longleftrightarrow> ht_lookup t k = None"
  unfolding ht_ok_def ht_lookup_map by (metis not_None_eq option.case)

lemma ht_insert_ok:
  assumes "ht_ok t" "ok1 \<and> ok2 \<or> ht_lookup t k \<noteq> None"
  shows "\<exists>f. ht_insert ok1 ok2 t k (Some v) = (0, ht_put t k v, f)"
proof (cases "chain_update (ht_buckets t ! ht_index t k) k (Some v)")
  case None
  then have "ht_lookup t k = None" using assms(1)
    by (simp add: chain_update_None ht_lookup_map ht_map_def)
  with None assms show ?thesis by (simp add: ht_put_def ht_insert_def Let_def)
next
  case (Some r)
  then show ?thesis by (cases r) (simp add: ht_put_def ht_insert_def Let_def)
qed

lemma ht_insert_oom:
  assumes "ht_ok t" "\<not> (ok1 \<and> ok2)" "ht_lookup t k = None"
  shows "ht_insert ok1 ok2 t k (Some v) = (-1, t, [])"
  using ht_insert_fail [of t k ok1 ok2] assms by (simp add: ht_ok_lookup_map)

lemma ht_poke_put:
  assumes "ht_ok t" "ht_lookup t k \<noteq> None"
  shows "ht_poke t k v = ht_put t k v"
proof -
  have "chain_update (ht_buckets t ! ht_index t k) k (Some v) \<noteq> None"
    using assms by (auto simp: chain_update_None ht_lookup_map ht_map_def split: option.splits)
  then show ?thesis by (auto simp: ht_poke_def ht_put_def ht_insert_def Let_def)
qed

lemma fresh_table:
  assumes "hash_table_create ok1 ok2 n h f = Some t"
  shows "ht_ok t" "ht_lookup t = Map.empty"
  using hash_table_create_inv [OF assms] by (auto simp: ht_ok_def ht_lookup_map fun_eq_iff)

lemma sec_ok_put:
  assumes "sec_ok s"
  shows "ci_key i = k \<Longrightarrow> sec_ok (s\<lparr>cs_items := ht_put (cs_items s) k i\<rparr>)"
    and "sec_abs (s\<lparr>cs_items := ht_put (cs_items s) k i\<rparr>) = (sec_abs s)(k := ci_value i)"
  using assms by (auto simp: sec_ok_def sec_abs_def hts.invar_put hts.lk_put fun_eq_iff)

lemma sec_fresh:
  assumes "hash_table_create ok1 ok2 n h f = Some t"
  shows "sec_ok \<lparr>cs_name = m, cs_items = t\<rparr>" "sec_abs \<lparr>cs_name = m, cs_items = t\<rparr> = Map.empty"
  using fresh_table [OF assms] by (auto simp: sec_ok_def sec_abs_def)

lemma config_inv_put:
  assumes "config_inv c" "sec_ok s" "cs_name s = n"
  shows "config_inv (c\<lparr>cf_sections := ht_put (cf_sections c) n s\<rparr>)"
    and "config_abs (c\<lparr>cf_sections := ht_put (cf_sections c) n s\<rparr>) = (config_abs c)(n \<mapsto> sec_abs s)"
  using assms by (auto simp: config_inv_def config_abs_def hts.invar_put hts.lk_put fun_eq_iff)

lemma config_create_inv: "config_create ok = Some c \<Longrightarrow> config_inv c \<and> config_abs c = Map.empty"
  by (auto simp: config_create_def config_inv_def config_abs_def dest: fresh_table split: if_splits)

section \<open>Setting values\<close>

lemma section_set_keeps:
  assumes "sec_ok s"
  shows "sec_ok (snd (section_set ok s k v)) \<and> cs_name (snd (section_set ok s k v)) = cs_name s"
proof (cases "ht_lookup (cs_items s) k")
  case None
  have ht: "ht_ok (cs_items s)" using assms by (simp add: sec_ok_def)
  show ?thesis
  proof (cases "ok 9 \<and> ok 10")
    case True
    then show ?thesis
      using ht_insert_ok [OF ht, of "ok 9" "ok 10" k "\<lparr>ci_key = k, ci_value = Some v\<rparr>"]
        sec_ok_put(1) [OF assms, of "\<lparr>ci_key = k, ci_value = Some v\<rparr>" k] assms None
      by (auto simp: section_set_def)
  next
    case False
    then show ?thesis
      using ht_insert_oom [OF ht False None] assms None by (simp add: section_set_def)
  qed
next
  case (Some i)
  have ht: "ht_ok (cs_items s)" "ci_key i = k" using assms Some by (auto simp: sec_ok_def)
  have "sec_ok (s\<lparr>cs_items := ht_put (cs_items s) k (i\<lparr>ci_value := x\<rparr>)\<rparr>)" for x
    using sec_ok_put(1) [OF assms, of "i\<lparr>ci_value := x\<rparr>" k] ht(2) by simp
  then show ?thesis using ht_poke_put [OF ht(1), of k] Some by (simp add: section_set_def)
qed

lemma section_set_ok:
  assumes "sec_ok s" "\<forall>j. ok j"
  shows "fst (section_set ok s k v) = 0 \<and> sec_abs (snd (section_set ok s k v)) = (sec_abs s)(k \<mapsto> v)"
proof (cases "ht_lookup (cs_items s) k")
  case None
  have ht: "ht_ok (cs_items s)" using assms by (simp add: sec_ok_def)
  show ?thesis
    using ht_insert_ok [OF ht, of "ok 9" "ok 10" k "\<lparr>ci_key = k, ci_value = Some v\<rparr>"]
      sec_ok_put(2) [OF assms(1)] assms(2) None by (auto simp: section_set_def)
next
  case (Some i)
  have ht: "ht_ok (cs_items s)" using assms by (simp add: sec_ok_def)
  show ?thesis
    using ht_poke_put [OF ht, of k] Some sec_ok_put(2) [OF assms(1)] assms(2)
    by (simp add: section_set_def)
qed

lemma config_set_present:
  assumes "config_inv c" "ht_lookup (cf_sections c) n = Some s"
  shows "config_set ok c n k v = (fst (section_set ok s k v),
    c\<lparr>cf_sections := ht_put (cf_sections c) n (snd (section_set ok s k v))\<rparr>)"
  using assms ht_poke_put [of "cf_sections c" n]
  by (simp add: config_set_def config_inv_def split: prod.splits)

lemma config_set_absent:
  assumes "config_inv c" "ht_lookup (cf_sections c) n = None"
  obtains (kept) r where "config_set ok c n k v = (r, c)" "\<not> (\<forall>j. ok j)"
  | (stored) t where "hash_table_create (ok 2) (ok 3) 16 (Some hash_string_djb2) True = Some t"
      "config_set ok c n k v = (fst (section_set ok \<lparr>cs_name = n, cs_items = t\<rparr> k v),
        c\<lparr>cf_sections := ht_put (ht_put (cf_sections c) n \<lparr>cs_name = n, cs_items = t\<rparr>) n
           (snd (section_set ok \<lparr>cs_name = n, cs_items = t\<rparr> k v))\<rparr>)"
proof (cases "ok 0 \<and> ok 1 \<and> hash_table_create (ok 2) (ok 3) 16 (Some hash_string_djb2) True
    \<noteq> (None :: config_item hash_table option)")
  case False
  then have "config_set ok c n k v = (-1, c)" using assms(2)
    by (auto simp: config_set_def split: option.splits bool.splits)
  moreover have "\<not> (\<forall>j. ok j)" using False by (auto simp: hash_table_create_def Let_def split: if_splits)
  ultimately show ?thesis by (rule kept)
next
  case True
  then obtain t where t: "hash_table_create (ok 2) (ok 3) 16 (Some hash_string_djb2) True = Some (t :: config_item hash_table)"
    by blast
  let ?s = "\<lparr>cs_name = n, cs_items = t\<rparr>"
  have ht: "ht_ok (cf_sections c)" using assms(1) by (simp add: config_inv_def)
  show ?thesis
  proof (cases "ok 4 \<and> ok 5")
    case ok: True
    have "ht_ok (ht_put (cf_sections c) n ?s)" "ht_lookup (ht_put (cf_sections c) n ?s) n \<noteq> None"
      using ht by (auto simp: hts.invar_put hts.lk_put)
    then show ?thesis
      using ht_insert_ok [OF ht, of "ok 4" "ok 5" n ?s] ok True t assms(2)
      by (intro stored [OF t]) (auto simp: config_set_def ht_poke_put Let_def split_beta)
  next
    case no: False
    then show ?thesis
      using ht_insert_oom [OF ht no assms(2), of ?s] True t assms(2)
      by (intro kept) (auto simp: config_set_def Let_def split_beta)
  qed
qed

lemma config_set_keeps:
  assumes "config_inv c"
  shows "config_inv (snd (config_set ok c n k v))"
proof (cases "ht_lookup (cf_sections c) n")
  case (Some s)
  then have "sec_ok s" "cs_name s = n" using assms by (auto simp: config_inv_def)
  then show ?thesis
    using config_inv_put(1) [OF assms] section_set_keeps [of s ok k v] config_set_present [OF assms Some]
    by simp
next
  case None
  show ?thesis
  proof (cases rule: config_set_absent [OF assms None, of ok k v, case_names kept stored])
    case (kept r)
    then show ?thesis using assms by simp
  next
    case (stored t)
    let ?s = "\<lparr>cs_name = n, cs_items = t\<rparr>"
    note s = section_set_keeps [OF sec_fresh(1) [OF stored(1)], of ok n k v]
    have "config_inv (c\<lparr>cf_sections := ht_put (cf_sections c) n ?s\<rparr>)"
      using config_inv_put(1) [OF assms sec_fresh(1) [OF stored(1)]] by simp
    from config_inv_put(1) [OF this] s stored(2) show ?thesis by simp
  qed
qed

lemma config_set_spec:
  assumes "config_inv c" "\<forall>j. ok j"
  shows "fst (config_set ok c n k v) = 0 \<and>
    config_abs (snd (config_set ok c n k v)) =
      (config_abs c)(n \<mapsto> (case config_abs c n of None \<Rightarrow> Map.empty | Some m \<Rightarrow> m)(k \<mapsto> v))"
proof (cases "ht_lookup (cf_sections c) n")
  case (Some s)
  then have "sec_ok s" "cs_name s = n" "config_abs c n = Some (sec_abs s)"
    using assms by (auto simp: config_inv_def config_abs_def)
  then show ?thesis
    using config_inv_put(2) [OF assms(1)] section_set_ok [of s ok k v] section_set_keeps [of s ok k v]
      config_set_present [OF assms(1) Some] assms(2) by simp
next
  case None
  then have n: "config_abs c n = None" by (simp add: config_abs_def)
  show ?thesis
  proof (cases rule: config_set_absent [OF assms(1) None, of ok k v, case_names kept stored])
    case (kept r)
    then show ?thesis using assms by simp
  next
    case (stored t)
    let ?s = "\<lparr>cs_name = n, cs_items = t\<rparr>" and ?c = "c\<lparr>cf_sections := ht_put (cf_sections c) n \<lparr>cs_name = n, cs_items = t\<rparr>\<rparr>"
    note f = sec_fresh [OF stored(1), of n]
    note p = section_set_keeps [OF f(1), of ok k v] section_set_ok [OF f(1) assms(2), of k v]
    have c1: "config_inv ?c" "config_abs ?c = (config_abs c)(n \<mapsto> Map.empty)"
      using config_inv_put [OF assms(1) f(1)] f(2) by simp_all
    from config_inv_put(2) [OF c1(1), of "snd (section_set ok ?s k v)" n] p c1(2) f(2) n stored(2)
    show ?thesis by simp
  qed
qed

section \<open>Loading\<close>

definition ref_ok :: "config \<Rightarrow> section_ref option \<Rightarrow> bool" where
  "ref_ok c cur = (case cur of None \<Rightarrow> True | Some (Orphan s) \<Rightarrow> sec_ok s
     | Some (In_Table n) \<Rightarrow> ht_lookup (cf_sections c) n \<noteq> None)"

lemma section_insert_item_keeps:
  assumes "sec_ok s"
  shows "sec_ok (section_insert_item ok s k v)" "cs_name (section_insert_item ok s k v) = cs_name s"
    and "\<forall>j. ok j \<Longrightarrow> sec_abs (section_insert_item ok s k v) = (sec_abs s)(k \<mapsto> v)"
proof -
  have ht: "ht_ok (cs_items s)" using assms by (simp add: sec_ok_def)
  let ?i = "\<lparr>ci_key = k, ci_value = Some v\<rparr>"
  show "cs_name (section_insert_item ok s k v) = cs_name s" by (simp add: section_insert_item_def)
  show "sec_ok (section_insert_item ok s k v)"
  proof (cases "ok 3 \<and> ok 4 \<or> ht_lookup (cs_items s) k \<noteq> None")
    case True
    from ht_insert_ok [OF ht True, of ?i] sec_ok_put(1) [OF assms, of ?i k] show ?thesis
      by (auto simp: section_insert_item_def)
  next
    case False
    then show ?thesis using ht_insert_oom [OF ht, of "ok 3" "ok 4" k ?i] assms
      by (auto simp: section_insert_item_def)
  qed
  show "sec_abs (section_insert_item ok s k v) = (sec_abs s)(k \<mapsto> v)" if "\<forall>j. ok j"
    using ht_insert_ok [OF ht, of "ok 3" "ok 4" k ?i] that sec_ok_put(2) [OF assms, of k ?i]
    by (auto simp: section_insert_item_def)
qed

text \<open>The section line, on every outcome of the allocator.\<close>

lemma config_section_line_keeps:
  assumes "config_inv c"
  shows "case config_section_line ok c n of Inl c' \<Rightarrow> config_inv c'
    | Inr (c', cur) \<Rightarrow> config_inv c' \<and> ref_ok c' cur"
proof (cases "\<exists>s t. ok 0 \<and> ok 1 \<and> ht_lookup (cf_sections c) n = None \<and>
    hash_table_create (ok 2) (ok 3) 16 (Some hash_string_djb2) True = Some (t :: config_item hash_table) \<and>
    s = \<lparr>cs_name = n, cs_items = t\<rparr>")
  case False
  then show ?thesis using assms
    by (auto simp: config_section_line_def ref_ok_def split: option.splits)
next
  case True
  then obtain t where t: "ok 0" "ok 1" "ht_lookup (cf_sections c) n = None"
    "hash_table_create (ok 2) (ok 3) 16 (Some hash_string_djb2) True = Some (t :: config_item hash_table)"
    by blast
  let ?s = "\<lparr>cs_name = n, cs_items = t\<rparr>"
  note s = sec_fresh(1) [OF t(4), of n]
  have ht: "ht_ok (cf_sections c)" using assms by (simp add: config_inv_def)
  show ?thesis
  proof (cases "ok 4 \<and> ok 5")
    case ok: True
    then obtain f where "ht_insert (ok 4) (ok 5) (cf_sections c) n (Some ?s) = (0, ht_put (cf_sections c) n ?s, f)"
      using ht_insert_ok [OF ht] by blast
    moreover have "ref_ok (c\<lparr>cf_sections := ht_put (cf_sections c) n ?s\<rparr>) (Some (In_Table n))"
      using ht by (simp add: ref_ok_def hts.lk_put)
    ultimately show ?thesis using t config_inv_put(1) [OF assms s, of n]
      by (simp add: config_section_line_def Let_def)
  next
    case False
    then show ?thesis
      using t ht_insert_oom [OF ht False t(3), of ?s] assms s
      by (simp add: config_section_line_def Let_def ref_ok_def)
  qed
qed

lemma config_item_line_keeps:
  assumes "config_inv c" "ref_ok c (Some cur)"
  shows "case config_item_line ok c cur l of Inl c' \<Rightarrow> config_inv c'
    | Inr (c', cur') \<Rightarrow> config_inv c' \<and> ref_ok c' cur'"
proof (cases "strchr l (CHR ''='')")
  case None
  then show ?thesis using assms by (simp add: config_item_line_def)
next
  case (Some i)
  obtain key where key: "utils_strtrim (Some (take i l)) = Some key" by (simp add: utils_strtrim_ref)
  obtain v where v: "utils_strtrim (Some (drop (i + 1) l)) = Some v" by (simp add: utils_strtrim_ref)
  show ?thesis
  proof (cases "ok 0 \<and> ok 1 \<and> ok 2")
    case False
    then show ?thesis using assms Some key v by (auto simp: config_item_line_def)
  next
    case True
    show ?thesis
    proof (cases cur)
      case (Orphan s)
      then show ?thesis using True assms Some key v section_insert_item_keeps(1) [of s]
        by (simp add: config_item_line_def ref_ok_def)
    next
      case (In_Table n)
      then obtain s where s: "ht_lookup (cf_sections c) n = Some s" using assms(2)
        by (auto simp: ref_ok_def)
      have ht: "ht_ok (cf_sections c)" "sec_ok s" "cs_name s = n"
        using assms(1) s by (auto simp: config_inv_def)
      note k = section_insert_item_keeps(1,2) [OF ht(2), of ok key v]
      have "ht_poke (cf_sections c) n (section_insert_item ok s key v) =
          ht_put (cf_sections c) n (section_insert_item ok s key v)"
        using ht_poke_put [OF ht(1)] s by simp
      moreover have "config_inv (c\<lparr>cf_sections := ht_put (cf_sections c) n (section_insert_item ok s key v)\<rparr>)"
        using config_inv_put(1) [OF assms(1) k(1)] k(2) ht(3) by simp
      ultimately show ?thesis using True In_Table s Some key v ht
        by (simp add: config_item_line_def ref_ok_def hts.lk_put)
    qed
  qed
qed

lemma config_line_keeps:
  assumes "config_inv c" "ref_ok c cur"
  shows "case config_line ok c cur l of Inl c' \<Rightarrow> config_inv c'
    | Inr (c', cur') \<Rightarrow> config_inv c' \<and> ref_ok c' cur'"
proof -
  obtain t where t: "utils_strtrim (Some l) = Some t" by (simp add: utils_strtrim_ref)
  show ?thesis
  proof (cases cur)
    case None
    then show ?thesis
      using t assms config_section_line_keeps [OF assms(1), of ok "tl (butlast t)"]
      by (auto simp: config_line_def)
  next
    case (Some r)
    then show ?thesis
      using t assms config_section_line_keeps [OF assms(1), of ok "tl (butlast t)"]
        config_item_line_keeps [of c r ok t] by (auto simp: config_line_def)
  qed
qed

lemma config_lines_keeps: "config_inv c \<Longrightarrow> ref_ok c cur \<Longrightarrow> config_inv (snd (config_lines ok n c cur ls))"
proof (induction ls arbitrary: n c cur)
  case Nil
  then show ?case by simp
next
  case (Cons l ls)
  from config_line_keeps [OF Cons.prems, of "ok n" l] Cons.IH show ?case
    by (auto split: sum.splits)
qed

section \<open>Saved text, read back\<close>

text \<open>Names and values that the file format can carry.\<close>

abbreviation nl :: char where "nl \<equiv> CHR 0x0A"

definition trimmed_text :: "string \<Rightarrow> bool" where
  "trimmed_text s \<longleftrightarrow> s = [] \<or> \<not> isspace (hd s) \<and> \<not> isspace (last s)"

definition wf_name :: "string \<Rightarrow> bool" where
  "wf_name n \<longleftrightarrow> nl \<notin> set n"

definition wf_key :: "string \<Rightarrow> bool" where
  "wf_key k \<longleftrightarrow> k \<noteq> [] \<and> nl \<notin> set k \<and> CHR ''='' \<notin> set k \<and> trimmed_text k \<and> hd k \<notin> set '';#[''"

definition wf_value :: "string \<Rightarrow> bool" where
  "wf_value v \<longleftrightarrow> nl \<notin> set v \<and> trimmed_text v"

definition kvs_wf :: "(string \<times> string) list \<Rightarrow> bool" where
  "kvs_wf kvs \<longleftrightarrow> list_all (\<lambda>(k, v). wf_key k \<and> wf_value v) kvs"

lemma kvs_wf_simps [simp]:
  "kvs_wf []" "kvs_wf ((k, v) # kvs) \<longleftrightarrow> wf_key k \<and> wf_value v \<and> kvs_wf kvs"
  by (auto simp: kvs_wf_def)

definition config_wf :: "config \<Rightarrow> bool" where
  "config_wf c \<longleftrightarrow> list_all (\<lambda>(n, s). wf_name n \<and>
     list_all (\<lambda>(k, i). wf_key k \<and> (case ci_value i of Some v \<Rightarrow> wf_value v | None \<Rightarrow> False))
       (ht_pairs (cs_items s))) (ht_pairs (cf_sections c))"

definition item_line :: "string \<times> string \<Rightarrow> string" where
  "item_line = (\<lambda>(k, v). k @ '' = '' @ v)"

definition section_line :: "string \<Rightarrow> string" where
  "section_line n = ''['' @ n @ '']''"

lemma dropWhile_hd: "s \<noteq> [] \<Longrightarrow> \<not> P (hd s) \<Longrightarrow> dropWhile P s = s"
  by (cases s) auto

lemma strtrim_trimmed: "trimmed_text s \<Longrightarrow> utils_strtrim (Some s) = Some s"
  by (cases "s = []") (auto simp: utils_strtrim_ref trimmed_text_def dropWhile_hd hd_rev)

lemma strtrim_space_before: "trimmed_text s \<Longrightarrow> utils_strtrim (Some (CHR '' '' # s)) = Some s"
  using strtrim_trimmed [of s] by (simp add: utils_strtrim_ref isspace_def code_def)

lemma strtrim_space_after:
  assumes "s \<noteq> []" "trimmed_text s"
  shows "utils_strtrim (Some (s @ '' '')) = Some s"
proof -
  have "dropWhile isspace (s @ '' '') = s @ '' ''"
    using assms by (intro dropWhile_hd) (auto simp: trimmed_text_def)
  moreover have "dropWhile isspace (rev s) = rev s"
    using assms by (intro dropWhile_hd) (auto simp: trimmed_text_def hd_rev)
  moreover have "isspace (CHR '' '')" by (simp add: isspace_def code_def)
  ultimately show ?thesis by (simp add: utils_strtrim_ref)
qed

lemma strchr_append: "c \<notin> set s \<Longrightarrow> strchr (s @ c # t) c = Some (length s)"
  by (induction s) (auto simp: strchr_def)

lemma not_isspace_consts [simp]: "\<not> isspace (CHR ''='')" "\<not> isspace (CHR ''['')" "\<not> isspace (CHR '']'')"
  by (simp_all add: isspace_def code_def)

text \<open>What trimming leaves of an item line, and what is cut out of it.\<close>

lemma item_line_trim:
  assumes "wf_key k" "wf_value v"
  shows "\<exists>r. utils_strtrim (Some (item_line (k, v))) = Some (k @ CHR '' '' # CHR ''='' # r) \<and>
    utils_strtrim (Some r) = Some v"
proof (cases "v = []")
  case True
  have "trimmed_text (k @ '' ='')" using assms(1) by (auto simp: wf_key_def trimmed_text_def)
  then have "utils_strtrim (Some (item_line (k, v))) = Some (k @ '' ='')"
    using True strtrim_space_after [of "k @ '' =''"] by (simp add: item_line_def)
  with True show ?thesis by (auto simp: utils_strtrim_ref)
next
  case False
  then have "trimmed_text (item_line (k, v))"
    using assms by (auto simp: item_line_def wf_key_def wf_value_def trimmed_text_def)
  then have "utils_strtrim (Some (item_line (k, v))) = Some (k @ '' = '' @ v)"
    using strtrim_trimmed by (simp add: item_line_def)
  moreover have "utils_strtrim (Some (CHR '' '' # v)) = Some v"
    using assms(2) strtrim_space_before by (simp add: wf_value_def)
  ultimately show ?thesis by auto
qed

lemma config_line_section:
  "config_line ok c cur (section_line n) = config_section_line ok c n"
proof -
  have "utils_strtrim (Some (section_line n)) = Some (section_line n)"
    by (rule strtrim_trimmed) (simp add: section_line_def trimmed_text_def)
  then show ?thesis by (simp add: config_line_def section_line_def)
qed

lemma config_line_item:
  assumes "config_inv c" "wf_key k" "wf_value v" "\<forall>j. ok j"
    and "config_abs c n = Some m"
  shows "\<exists>c'. config_line ok c (Some (In_Table n)) (item_line (k, v)) = Inr (c', Some (In_Table n)) \<and>
    config_inv c' \<and> config_abs c' = (config_abs c)(n \<mapsto> m(k \<mapsto> v))"
proof -
  obtain s where s: "ht_lookup (cf_sections c) n = Some s" "m = sec_abs s"
    using assms(5) by (auto simp: config_abs_def)
  have ht: "ht_ok (cf_sections c)" "sec_ok s" "cs_name s = n"
    using assms(1) s by (auto simp: config_inv_def)
  obtain r where r: "utils_strtrim (Some (item_line (k, v))) = Some (k @ CHR '' '' # CHR ''='' # r)"
    "utils_strtrim (Some r) = Some v" using item_line_trim [OF assms(2,3)] by blast
  have eq: "strchr (k @ CHR '' '' # CHR ''='' # r) (CHR ''='') = Some (length k + 1)"
    using strchr_append [of "CHR ''=''" "k @ '' ''" r] assms(2) by (simp add: wf_key_def)
  have key: "utils_strtrim (Some (k @ '' '')) = Some k"
    using assms(2) by (intro strtrim_space_after) (auto simp: wf_key_def)
  let ?s = "section_insert_item ok s k v"
  note p = section_insert_item_keeps [OF ht(2), of ok k v]
  have poke: "ht_poke (cf_sections c) n ?s = ht_put (cf_sections c) n ?s"
    using ht_poke_put [OF ht(1)] s by simp
  have kh: "k \<noteq> []" "hd k \<noteq> CHR '';''" "hd k \<noteq> CHR ''#''" "hd k \<noteq> CHR ''[''"
    using assms(2) by (auto simp: wf_key_def)
  have "config_line ok c (Some (In_Table n)) (item_line (k, v)) =
      Inr (c\<lparr>cf_sections := ht_put (cf_sections c) n ?s\<rparr>, Some (In_Table n))"
    using r kh eq key assms(4) s(1) poke by (simp add: config_line_def config_item_line_def)
  with config_inv_put [OF assms(1) p(1)] p(2,3) ht(3) s(2) assms(4) show ?thesis by simp
qed

lemma config_section_line_new:
  assumes "config_inv c" "\<forall>j. ok j" "config_abs c n = None"
  shows "\<exists>c'. config_section_line ok c n = Inr (c', Some (In_Table n)) \<and> config_inv c' \<and>
    config_abs c' = (config_abs c)(n \<mapsto> Map.empty)"
proof -
  have none: "ht_lookup (cf_sections c) n = None" using assms(3) by (simp add: config_abs_def)
  obtain t where t: "hash_table_create (ok 2) (ok 3) 16 (Some hash_string_djb2) True = Some (t :: config_item hash_table)"
    using assms(2) by (simp add: hash_table_create_def Let_def)
  let ?s = "\<lparr>cs_name = n, cs_items = t\<rparr>"
  note s = sec_fresh [OF t, of n]
  have ht: "ht_ok (cf_sections c)" using assms(1) by (simp add: config_inv_def)
  obtain f where "ht_insert (ok 4) (ok 5) (cf_sections c) n (Some ?s) = (0, ht_put (cf_sections c) n ?s, f)"
    using ht_insert_ok [OF ht] assms(2) by blast
  then have "config_section_line ok c n = Inr (c\<lparr>cf_sections := ht_put (cf_sections c) n ?s\<rparr>, Some (In_Table n))"
    using none t assms(2) by (simp add: config_section_line_def Let_def)
  with config_inv_put [OF assms(1) s(1), of n] s(2) show ?thesis by simp
qed

lemma config_lines_items:
  assumes "\<forall>i j. ok i j" "kvs_wf kvs"
    and "config_inv c" "config_abs c n = Some m"
  shows "\<exists>j' c'. config_lines ok j c (Some (In_Table n)) (map item_line kvs @ rest) =
      config_lines ok j' c' (Some (In_Table n)) rest \<and>
    config_inv c' \<and> config_abs c' = (config_abs c)(n \<mapsto> m ++ map_of (rev kvs))"
  using assms(2-)
proof (induction kvs arbitrary: j c m)
  case Nil
  then have "(config_abs c)(n \<mapsto> m ++ map_of (rev [])) = config_abs c" by (simp add: fun_upd_idem)
  with Nil show ?case by fastforce
next
  case (Cons kv kvs)
  obtain k v where kv: "kv = (k, v)" by (cases kv)
  then have wf: "wf_key k" "wf_value v" using Cons.prems by auto
  obtain c1 where c1: "config_line (ok j) c (Some (In_Table n)) (item_line (k, v)) = Inr (c1, Some (In_Table n))"
    "config_inv c1" "config_abs c1 = (config_abs c)(n \<mapsto> m(k \<mapsto> v))"
    using config_line_item [OF Cons.prems(2) wf _ Cons.prems(3), of "ok j"] assms(1) by blast
  have "config_abs c1 n = Some (m(k \<mapsto> v))" using c1(3) by simp
  moreover have "kvs_wf kvs" using Cons.prems(1) kv by simp
  ultimately obtain j' c' where
    "config_lines ok (Suc j) c1 (Some (In_Table n)) (map item_line kvs @ rest) =
      config_lines ok j' c' (Some (In_Table n)) rest" "config_inv c'"
    "config_abs c' = (config_abs c1)(n \<mapsto> m(k \<mapsto> v) ++ map_of (rev kvs))"
    using Cons.IH [OF _ c1(2), of "m(k \<mapsto> v)" "Suc j"] by blast
  with c1 kv show ?case by (intro exI [of _ j'] exI [of _ c']) simp
qed

text \<open>The file as sections and items.\<close>

definition section_lines :: "string \<times> (string \<times> string) list \<Rightarrow> string list" where
  "section_lines = (\<lambda>(n, kvs). section_line n # map item_line kvs)"

lemma config_lines_sections:
  assumes "\<forall>i j. ok i j" "distinct (map fst secs)"
    and "\<forall>(n, kvs) \<in> set secs. config_abs c n = None \<and> kvs_wf kvs"
    and "config_inv c"
  shows "\<exists>c'. config_lines ok j c cur (concat (map section_lines secs)) = (0, c') \<and> config_inv c' \<and>
    config_abs c' = config_abs c ++ map_of (map (\<lambda>(n, kvs). (n, map_of (rev kvs))) secs)"
  using assms(2-)
proof (induction secs arbitrary: j c cur)
  case Nil
  then show ?case by simp
next
  case (Cons sec secs)
  obtain n kvs where sec: "sec = (n, kvs)" by (cases sec)
  then have n: "config_abs c n = None" and wf: "kvs_wf kvs"
    using Cons.prems by auto
  obtain c1 where c1: "config_section_line (ok j) c n = Inr (c1, Some (In_Table n))" "config_inv c1"
    "config_abs c1 = (config_abs c)(n \<mapsto> Map.empty)"
    using config_section_line_new [OF Cons.prems(3) _ n] assms(1) by blast
  then have "config_abs c1 n = Some Map.empty" by simp
  from config_lines_items [OF assms(1) wf c1(2) this, of "Suc j" "concat (map section_lines secs)"]
  obtain j' c2 where
    c2: "config_lines ok (Suc j) c1 (Some (In_Table n)) (map item_line kvs @ concat (map section_lines secs)) =
      config_lines ok j' c2 (Some (In_Table n)) (concat (map section_lines secs))" "config_inv c2"
    "config_abs c2 = (config_abs c1)(n \<mapsto> map_of (rev kvs))" by auto
  have "\<forall>(n', kvs) \<in> set secs. config_abs c2 n' = None \<and> kvs_wf kvs"
  proof (intro ballI, clarify)
    fix n' kvs' assume m: "(n', kvs') \<in> set secs"
    then have "n' \<noteq> n" using Cons.prems(1) sec by force
    then show "config_abs c2 n' = None \<and> kvs_wf kvs'" using m Cons.prems(2) c1(3) c2(3) by auto
  qed
  from Cons.IH [OF _ this c2(2), of j' "Some (In_Table n)"] Cons.prems(1) obtain c' where
    c': "config_lines ok j' c2 (Some (In_Table n)) (concat (map section_lines secs)) = (0, c')" "config_inv c'"
    "config_abs c' = config_abs c2 ++ map_of (map (\<lambda>(n, kvs). (n, map_of (rev kvs))) secs)" by auto
  have "n \<notin> set (map fst secs)" using Cons.prems(1) sec by simp
  then have none: "map_of (map (\<lambda>(n, kvs). (n, map_of (rev kvs))) secs) n = None"
    by (force simp: map_of_eq_None_iff)
  have "config_lines ok j c cur (concat (map section_lines (sec # secs))) = (0, c')"
    using c1(1) c2(1) c'(1) sec by (simp add: section_lines_def config_line_section)
  moreover have "config_abs c' = config_abs c ++ map_of (map (\<lambda>(n, kvs). (n, map_of (rev kvs))) (sec # secs))"
  proof (rule ext)
    fix x
    show "config_abs c' x = (config_abs c ++ map_of (map (\<lambda>(n, kvs). (n, map_of (rev kvs))) (sec # secs))) x"
      unfolding c'(3) c2(3) c1(3) using none sec by (cases "x = n") (simp_all add: map_add_def split: option.split)
  qed
  ultimately show ?case using c'(2) by blast
qed

lemma strtok_all_lines:
  "\<forall>t \<in> set ts. t \<noteq> [] \<and> d \<notin> set t \<Longrightarrow>
     strtok_all [d] (concat (map (\<lambda>t. t @ [d]) ts) @ r) = ts @ strtok_all [d] r"
  by (induction ts) (auto simp: strtok_all_token)

definition section_kvs :: "config_section \<Rightarrow> (string \<times> string) list" where
  "section_kvs s = map (\<lambda>(k, i). (k, the (ci_value i))) (ht_pairs (cs_items s))"

lemma ht_pairs_lookup: "ht_ok t \<Longrightarrow> (k, v) \<in> set (ht_pairs t) \<longleftrightarrow> ht_lookup t k = Some v"
  using hti.map_of_entries hti.entries_distinct by (metis map_of_eq_Some_iff)

lemma section_text_lines:
  assumes "sec_ok s" "\<forall>k i. ht_lookup (cs_items s) k = Some i \<longrightarrow> ci_value i \<noteq> None"
  shows "section_text s = concat (map (\<lambda>t. t @ [nl]) (section_lines (cs_name s, section_kvs s))) @ [nl]"
proof -
  have "item_text i = item_line (k, the (ci_value i)) @ [nl]" if "(k, i) \<in> set (ht_pairs (cs_items s))" for k i
  proof -
    have "ht_lookup (cs_items s) k = Some i" using that assms(1) by (simp add: sec_ok_def ht_pairs_lookup)
    then have "ci_key i = k" "ci_value i \<noteq> None" using assms by (auto simp: sec_ok_def)
    then show ?thesis by (auto simp: item_text_def item_line_def)
  qed
  then have "map (item_text \<circ> snd) (ht_pairs (cs_items s)) =
      map ((\<lambda>t. t @ [nl]) \<circ> item_line) (section_kvs s)"
    by (auto simp: section_kvs_def)
  then show ?thesis by (simp add: section_text_def section_lines_def section_line_def)
qed

lemma section_lines_tokens:
  assumes "wf_name n" "kvs_wf kvs"
  shows "\<forall>t \<in> set (section_lines (n, kvs)). t \<noteq> [] \<and> nl \<notin> set t"
  using assms
  by (auto simp: section_lines_def section_line_def item_line_def wf_name_def wf_key_def wf_value_def
      kvs_wf_def list_all_iff)

lemma config_wf_lookup:
  assumes "config_inv c" "config_wf c" "ht_lookup (cf_sections c) n = Some s"
  shows "wf_name n"
    and "\<forall>k i. ht_lookup (cs_items s) k = Some i \<longrightarrow> wf_key k \<and> (\<exists>v. ci_value i = Some v \<and> wf_value v)"
proof -
  have ht: "ht_ok (cf_sections c)" "ht_ok (cs_items s)"
    using assms(1,3) by (auto simp: config_inv_def sec_ok_def)
  have "(n, s) \<in> set (ht_pairs (cf_sections c))" using ht_pairs_lookup [OF ht(1)] assms(3) by blast
  then have w: "wf_name n" "list_all (\<lambda>(k, i). wf_key k \<and>
      (case ci_value i of Some v \<Rightarrow> wf_value v | None \<Rightarrow> False)) (ht_pairs (cs_items s))"
    using assms(2) by (auto simp: config_wf_def list_all_iff)
  show "wf_name n" by fact
  show "\<forall>k i. ht_lookup (cs_items s) k = Some i \<longrightarrow> wf_key k \<and> (\<exists>v. ci_value i = Some v \<and> wf_value v)"
    using w(2) by (fastforce simp: list_all_iff ht_pairs_lookup [OF ht(2)] split: option.splits)
qed

lemma section_kvs_wf:
  assumes "config_inv c" "config_wf c" "ht_lookup (cf_sections c) n = Some s"
  shows "wf_name n" "kvs_wf (section_kvs s)" "cs_name s = n"
    "map_of (rev (section_kvs s)) = sec_abs s"
    "section_text s = concat (map (\<lambda>t. t @ [nl]) (section_lines (n, section_kvs s))) @ [nl]"
proof -
  have s: "sec_ok s" "cs_name s = n" "ht_ok (cs_items s)"
    using assms(1,3) by (auto simp: config_inv_def sec_ok_def)
  have wf: "wf_name n" "\<forall>k i. ht_lookup (cs_items s) k = Some i \<longrightarrow>
      wf_key k \<and> (\<exists>v. ci_value i = Some v \<and> wf_value v)"
    using assms config_wf_lookup by blast+
  show "wf_name n" "cs_name s = n" by fact+
  show "kvs_wf (section_kvs s)"
    unfolding kvs_wf_def list_all_iff section_kvs_def using wf(2) ht_pairs_lookup [OF s(3)] by fastforce
  have dist: "distinct (map fst (section_kvs s))"
    using hti.entries_distinct [OF s(3)] by (simp add: section_kvs_def comp_def split_def)
  have "map_of (section_kvs s) = (\<lambda>k. map_option (\<lambda>i. the (ci_value i)) (ht_lookup (cs_items s) k))"
    using hti.map_of_entries [OF s(3)] by (simp add: section_kvs_def map_of_map comp_def)
  also have "\<dots> = sec_abs s"
  proof (rule ext)
    fix k
    show "map_option (\<lambda>i. the (ci_value i)) (ht_lookup (cs_items s) k) = sec_abs s k"
      using wf(2) [rule_format, of k] by (cases "ht_lookup (cs_items s) k") (auto simp: sec_abs_def)
  qed
  finally show "map_of (rev (section_kvs s)) = sec_abs s"
    using dist by (metis distinct_rev map_of_inject_set rev_map set_rev)
  have "\<forall>k i. ht_lookup (cs_items s) k = Some i \<longrightarrow> ci_value i \<noteq> None" using wf(2) by fastforce
  from section_text_lines [OF s(1) this] s(2)
  show "section_text s = concat (map (\<lambda>t. t @ [nl]) (section_lines (n, section_kvs s))) @ [nl]" by simp
qed

lemma saved_lines:
  assumes "\<And>n s. (n, s) \<in> set ps \<Longrightarrow> wf_name n \<and> kvs_wf (section_kvs s) \<and>
      section_text s = concat (map (\<lambda>t. t @ [nl]) (section_lines (n, section_kvs s))) @ [nl]"
  shows "strtok_all [nl] (concat (map (section_text \<circ> snd) ps)) =
    concat (map section_lines (map (\<lambda>(n, s). (n, section_kvs s)) ps))"
  using assms
proof (induction ps)
  case Nil
  then show ?case by simp
next
  case (Cons p ps)
  obtain n s where p: "p = (n, s)" by (cases p)
  then have t: "section_text s = concat (map (\<lambda>t. t @ [nl]) (section_lines (n, section_kvs s))) @ [nl]"
    and w: "\<forall>t \<in> set (section_lines (n, section_kvs s)). t \<noteq> [] \<and> nl \<notin> set t"
    using Cons.prems [of n s] section_lines_tokens by auto
  have IH: "strtok_all [nl] (concat (map (section_text \<circ> snd) ps)) =
      concat (map section_lines (map (\<lambda>(n, s). (n, section_kvs s)) ps))"
    by (rule Cons.IH) (use Cons.prems in auto)
  show ?case using strtok_all_lines [OF w, of "nl # concat (map (section_text \<circ> snd) ps)"] p t IH
    by (simp add: comp_def)
qed

section \<open>Properties\<close>

text \<open>
  (C12) Saving and loading a configuration is lossless for the configurations that the format can carry. If every name,
  key and value is one of those (no line breaks, keys without \<open>=\<close> that do not look like a comment or a section
  header, no surrounding white space), and the file can be opened and every allocation of the loading succeeds, the text
  written by \<open>config_save_file\<close>, loaded by \<open>config_load_string\<close> into a new configuration, succeeds and gives the same
  value for every section and key.
\<close>

theorem config_save_load_roundtrip:
  assumes "config_inv c" "config_wf c" "\<forall>i j. ok i j" "config_create ok0 = Some e"
  shows "\<exists>file c'. config_save_file True (Some c) (Some path) = (0, Some file) \<and>
    config_load_string ok (Some e) (Some file) = (0, Some c') \<and>
    (\<forall>n k. config_get_value (Some c') (Some n) (Some k) = config_get_value (Some c) (Some n) (Some k))"
proof -
  let ?ps = "ht_pairs (cf_sections c)"
  let ?secs = "map (\<lambda>(n, s). (n, section_kvs s)) ?ps"
  have ht: "ht_ok (cf_sections c)" using assms(1) by (simp add: config_inv_def)
  note e = config_create_inv [OF assms(4)]
  have mem: "ht_lookup (cf_sections c) n = Some s" if "(n, s) \<in> set ?ps" for n s
    using that by (simp add: ht_pairs_lookup [OF ht])
  have lines: "strtok_all [nl] (concat (map (section_text \<circ> snd) ?ps)) = concat (map section_lines ?secs)"
    by (rule saved_lines) (use section_kvs_wf [OF assms(1,2) mem] in blast)
  have "distinct (map fst ?secs)"
    using hti.entries_distinct [OF ht] by (simp add: comp_def split_def)
  moreover have "\<forall>(n, kvs) \<in> set ?secs. config_abs e n = None \<and> kvs_wf kvs"
    using e section_kvs_wf(2) [OF assms(1,2) mem] by auto
  ultimately obtain c' where c': "config_lines ok 1 e None (concat (map section_lines ?secs)) = (0, c')"
    "config_abs c' = config_abs e ++ map_of (map (\<lambda>(n, kvs). (n, map_of (rev kvs))) ?secs)"
    using config_lines_sections [OF assms(3), of ?secs e 1 None] e by blast
  have maps: "map (\<lambda>(n, kvs). (n, map_of (rev kvs))) ?secs = map (\<lambda>(n, s). (n, sec_abs s)) ?ps"
    using section_kvs_wf(4) [OF assms(1,2) mem] by auto
  have "map_of (map (\<lambda>(n, s). (n, sec_abs s)) ?ps) = config_abs c"
    using hti.map_of_entries [OF ht] by (simp add: map_of_map config_abs_def comp_def)
  then have "config_abs c' = config_abs c" using c'(2) e unfolding maps by simp
  then show ?thesis using c'(1) lines assms(3)
    by (simp add: config_save_file_def config_load_string_def config_get_abs)
qed

text \<open>A configuration with one section and one item, as a concrete instance.\<close>

definition demo_config :: config where
  "demo_config = snd (config_set (\<lambda>_. True) (the (config_create (\<lambda>_. True))) ''net'' ''port'' ''8080'')"

lemma demo_config:
  "config_inv demo_config" "config_abs demo_config = [''net'' \<mapsto> [''port'' \<mapsto> ''8080'']]"
proof -
  obtain e where e: "config_create (\<lambda>_. True) = Some e"
    by (simp add: config_create_def hash_table_create_def Let_def)
  note inv = config_create_inv [OF e]
  show "config_inv demo_config" "config_abs demo_config = [''net'' \<mapsto> [''port'' \<mapsto> ''8080'']]"
    using config_set_keeps [of e] config_set_spec [of e "\<lambda>_. True"] inv e
    by (auto simp: demo_config_def)
qed

lemma demo_config_lookup:
  "\<exists>s. ht_lookup (cf_sections demo_config) = [''net'' \<mapsto> s] \<and>
     ht_lookup (cs_items s) = [''port'' \<mapsto> \<lparr>ci_key = ''port'', ci_value = Some ''8080''\<rparr>]"
proof -
  obtain e where e: "config_create (\<lambda>_. True) = Some e"
    by (simp add: config_create_def hash_table_create_def Let_def)
  then obtain t0 where t0: "hash_table_create True True 16 (Some hash_string_djb2) True = Some t0" "e = \<lparr>cf_sections = t0\<rparr>"
    by (auto simp: config_create_def)
  have inv: "config_inv e" and none: "ht_lookup (cf_sections e) ''net'' = None"
    using config_create_inv [OF e] fresh_table [OF t0(1)] t0(2) by auto
  show ?thesis
  proof (cases rule: config_set_absent [OF inv none, of "\<lambda>_. True" "''port''" "''8080''", case_names kept stored])
    case kept
    then show ?thesis by simp
  next
    case (stored t)
    note t = fresh_table [OF stored(1)]
    let ?i = "\<lparr>ci_key = ''port'', ci_value = Some ''8080''\<rparr>"
    obtain f where "ht_insert True True t ''port'' (Some ?i) = (0, ht_put t ''port'' ?i, f)"
      using ht_insert_ok [OF t(1), of True True "''port''" ?i] by blast
    then have "snd (section_set (\<lambda>_. True) \<lparr>cs_name = ''net'', cs_items = t\<rparr> ''port'' ''8080'') =
        \<lparr>cs_name = ''net'', cs_items = ht_put t ''port'' ?i\<rparr>"
      using t(2) by (simp add: section_set_def)
    then have "cf_sections demo_config = ht_put (ht_put t0 ''net'' \<lparr>cs_name = ''net'', cs_items = t\<rparr>) ''net''
        \<lparr>cs_name = ''net'', cs_items = ht_put t ''port'' ?i\<rparr>"
      using stored(2) e t0(2) by (simp add: demo_config_def)
    then show ?thesis using t fresh_table [OF t0(1)] by (auto simp: hts.lk_put hts.invar_put)
  qed
qed

lemma demo_config_wf: "config_wf demo_config"
proof -
  obtain s where s: "ht_lookup (cf_sections demo_config) = [''net'' \<mapsto> s]"
    "ht_lookup (cs_items s) = [''port'' \<mapsto> \<lparr>ci_key = ''port'', ci_value = Some ''8080''\<rparr>]"
    using demo_config_lookup by blast
  have ok: "ht_ok (cf_sections demo_config)" "ht_ok (cs_items s)"
    using demo_config(1) s(1) by (auto simp: config_inv_def sec_ok_def)
  have v: "wf_name ''net''" "wf_key ''port''" "wf_value ''8080''"
    by (auto simp: wf_name_def wf_key_def wf_value_def trimmed_text_def isspace_def code_def)
  have "list_all (\<lambda>(k, i). wf_key k \<and> (case ci_value i of Some v \<Rightarrow> wf_value v | None \<Rightarrow> False)) (ht_pairs (cs_items s))"
    using v s(2) by (auto simp: list_all_iff ht_pairs_lookup [OF ok(2)] split: if_splits)
  then show ?thesis using v s(1)
    by (auto simp: config_wf_def list_all_iff [of _ "ht_pairs (cf_sections demo_config)"]
        ht_pairs_lookup [OF ok(1)] split: if_splits)
qed

lemma config_save_load_roundtrip_witness:
  "\<exists>e file c'. config_create (\<lambda>_. True) = Some e \<and>
     config_save_file True (Some demo_config) (Some ''chat.ini'') = (0, Some file) \<and>
     config_load_string (\<lambda>_ _. True) (Some e) (Some file) = (0, Some c') \<and>
     config_get_value (Some c') (Some ''net'') (Some ''port'') = Some ''8080''"
proof -
  obtain e where e: "config_create (\<lambda>_. True) = Some e"
    by (simp add: config_create_def hash_table_create_def Let_def)
  have "config_get_value (Some demo_config) (Some ''net'') (Some ''port'') = Some ''8080''"
    by (simp add: config_get_abs demo_config(2))
  with config_save_load_roundtrip [OF demo_config(1) demo_config_wf _ e, of "\<lambda>_ _. True" "''chat.ini''"] e
  show ?thesis by auto
qed

text \<open>
  Setting a configuration value has exactly that effect: when memory suffices
  \<open>config_set_value\<close> returns 0, the value is read back, and every other section and key reads as
  before.
\<close>

theorem config_set_get:
  assumes "config_inv c" "\<forall>j. ok j"
  shows "\<exists>c'. config_set_value ok (Some c) (Some n) (Some k) (Some v) = (0, Some c') \<and> config_inv c' \<and>
    (\<forall>n' k'. config_get_value (Some c') (Some n') (Some k') =
       (if n' = n \<and> k' = k then Some v else config_get_value (Some c) (Some n') (Some k')))"
proof -
  let ?r = "config_set ok c n k v"
  have "config_set_value ok (Some c) (Some n) (Some k) (Some v) = (0, Some (snd ?r))"
    using config_set_spec [OF assms, of n k v] by (cases ?r) (simp add: config_set_value_def)
  moreover have "config_get_value (Some (snd ?r)) (Some n') (Some k') =
      (if n' = n \<and> k' = k then Some v else config_get_value (Some c) (Some n') (Some k'))" for n' k'
    using config_set_spec [OF assms, of n k v] by (simp add: config_get_abs split: option.split)
  ultimately show ?thesis using config_set_keeps [OF assms(1), of ok n k v] by blast
qed

lemma config_set_get_witness:
  "\<exists>c'. config_set_value (\<lambda>_. True) (Some demo_config) (Some ''net'') (Some ''host'') (Some ''::1'') = (0, Some c') \<and>
     config_inv c' \<and> config_get_value (Some c') (Some ''net'') (Some ''host'') = Some ''::1'' \<and>
     config_get_value (Some c') (Some ''net'') (Some ''port'') = Some ''8080''"
proof -
  obtain c' where c': "config_set_value (\<lambda>_. True) (Some demo_config) (Some ''net'') (Some ''host'') (Some ''::1'') = (0, Some c')"
    "config_inv c'" "\<forall>n' k'. config_get_value (Some c') (Some n') (Some k') =
      (if n' = ''net'' \<and> k' = ''host'' then Some ''::1'' else config_get_value (Some demo_config) (Some n') (Some k'))"
    using config_set_get [OF demo_config(1), of "\<lambda>_. True" "''net''" "''host''" "''::1''"] by blast
  then show ?thesis by (simp add: config_get_abs demo_config(2))
qed

text \<open>Removals and whole sessions.\<close>

datatype config_op =
    Set_Value string string string
  | Load_String string
  | Remove_Key string string
  | Remove_Section string

fun config_apply :: "(nat \<Rightarrow> nat \<Rightarrow> bool) \<Rightarrow> config option \<Rightarrow> config_op \<Rightarrow> int \<times> config option" where
  "config_apply ok c (Set_Value n k v) = config_set_value (ok 0) c (Some n) (Some k) (Some v)"
| "config_apply ok c (Load_String s) = config_load_string ok c (Some s)"
| "config_apply ok c (Remove_Key n k) = config_remove_key c (Some n) (Some k)"
| "config_apply ok c (Remove_Section n) = config_remove_section c (Some n)"

lemma ht_remove_del: "\<exists>r f. ht_remove t k = (r, ht_del t k, f)"
  by (metis ht_del_def prod.collapse)

lemma config_remove_key_keeps:
  assumes "config_inv c"
  shows "\<exists>r c'. config_remove_key (Some c) (Some n) (Some k) = (r, Some c') \<and> config_inv c'"
proof (cases "ht_lookup (cf_sections c) n")
  case None
  then show ?thesis using assms by (simp add: config_remove_key_def)
next
  case (Some s)
  then have s: "sec_ok s" "cs_name s = n" "ht_ok (cf_sections c)" using assms by (auto simp: config_inv_def)
  obtain r f where r: "ht_remove (cs_items s) k = (r, ht_del (cs_items s) k, f)" using ht_remove_del by blast
  have "sec_ok (s\<lparr>cs_items := ht_del (cs_items s) k\<rparr>)"
    using s(1) by (auto simp: sec_ok_def hts.invar_del hts.lk_del split: if_splits)
  from config_inv_put(1) [OF assms this, of n] s Some r show ?thesis
    by (simp add: config_remove_key_def ht_poke_put)
qed

lemma config_remove_section_keeps:
  assumes "config_inv c"
  shows "\<exists>r c'. config_remove_section (Some c) (Some n) = (r, Some c') \<and> config_inv c'"
proof -
  obtain r f where r: "ht_remove (cf_sections c) n = (r, ht_del (cf_sections c) n, f)" using ht_remove_del by blast
  have "config_inv (c\<lparr>cf_sections := ht_del (cf_sections c) n\<rparr>)"
    using assms by (auto simp: config_inv_def hts.invar_del hts.lk_del split: if_splits)
  then show ?thesis using r by (simp add: config_remove_section_def)
qed

lemma config_apply_keeps:
  assumes "config_inv c"
  shows "\<exists>r c'. config_apply ok (Some c) x = (r, Some c') \<and> config_inv c'"
proof (cases x)
  case (Set_Value n k v)
  then show ?thesis using config_set_keeps [OF assms, of "ok 0" n k v]
    by (cases "config_set (ok 0) c n k v") (auto simp: config_set_value_def)
next
  case (Load_String s)
  then show ?thesis using assms config_lines_keeps [OF assms, of None ok 1 "strtok_all [CHR 0x0A] s"]
    by (cases "config_lines ok 1 c None (strtok_all [CHR 0x0A] s)")
       (auto simp: config_load_string_def ref_ok_def)
qed (use assms config_remove_key_keeps config_remove_section_keeps in auto)

text \<open>
  The configuration stays well formed through any sequence of updates, removals and loads,
  whatever requests for memory fail: tables keep their invariant, every section is stored under its
  own name and every item under its own key.
\<close>

theorem config_sessions_keep_invariant:
  assumes "config_create ok0 = Some c"
  shows "\<exists>c'. foldl (\<lambda>c (ok, x). snd (config_apply ok c x)) (Some c) xs = Some c' \<and> config_inv c'"
proof -
  have "config_inv c" using config_create_inv [OF assms] by simp
  then show ?thesis
  proof (induction xs arbitrary: c)
    case Nil
    then show ?case by simp
  next
    case (Cons x xs)
    obtain ok y where x: "x = (ok, y)" by (cases x)
    from config_apply_keeps [OF Cons.prems, of ok y] obtain r c1 where
      "config_apply ok (Some c) y = (r, Some c1)" "config_inv c1" by blast
    with Cons.IH [of c1] x show ?case by simp
  qed
qed

lemma config_sessions_keep_invariant_witness:
  "\<exists>c c'. config_create (\<lambda>_. True) = Some c \<and>
     foldl (\<lambda>c (ok, x). snd (config_apply ok c x)) (Some c)
       [(\<lambda>_ _. True, Load_String ''[a]''), (\<lambda>_ j. j \<noteq> 9, Set_Value ''a'' ''k'' ''v''),
        (\<lambda>_ _. True, Remove_Section ''a'')] = Some c' \<and> config_inv c'"
proof -
  obtain c where c: "config_create (\<lambda>_. True) = Some c"
    by (simp add: config_create_def hash_table_create_def Let_def)
  from config_sessions_keep_invariant [OF c] c show ?thesis by blast
qed

text \<open>
  When memory runs out while an existing value is replaced, \<open>config_set_value\<close> still returns 0,
  although the old value is gone and the new one was not stored.
\<close>

theorem config_update_loses_value_silently:
  assumes "config_inv c" "config_abs c n = Some m" "m k = Some old" "\<not> ok 6"
  shows "\<exists>c'. config_set_value ok (Some c) (Some n) (Some k) (Some v) = (0, Some c') \<and>
    config_get_value (Some c') (Some n) (Some k) = None"
proof -
  obtain s where s: "ht_lookup (cf_sections c) n = Some s" "m = sec_abs s"
    using assms(2) by (auto simp: config_abs_def)
  have ok: "sec_ok s" "cs_name s = n" "ht_ok (cs_items s)"
    using assms(1) s(1) by (auto simp: config_inv_def sec_ok_def)
  obtain i where i: "ht_lookup (cs_items s) k = Some i" using assms(3) s(2)
    by (auto simp: sec_abs_def bind_eq_Some_conv)
  let ?s = "s\<lparr>cs_items := ht_put (cs_items s) k (i\<lparr>ci_value := None\<rparr>)\<rparr>"
  have set: "section_set ok s k v = (0, ?s)"
    using i assms(4) ht_poke_put [OF ok(3), of k] by (simp add: section_set_def)
  have "sec_ok ?s" using section_set_keeps [OF ok(1), of ok k v] set by simp
  from config_inv_put(2) [OF assms(1) this, of n] ok(2)
  have "config_abs (c\<lparr>cf_sections := ht_put (cf_sections c) n ?s\<rparr>) = (config_abs c)(n \<mapsto> sec_abs ?s)" by simp
  moreover have "sec_abs ?s k = None" using sec_ok_put(2) [OF ok(1), of k "i\<lparr>ci_value := None\<rparr>"] by simp
  ultimately show ?thesis
    using config_set_present [OF assms(1) s(1), of ok k v] set
    by (simp add: config_set_value_def config_get_abs)
qed

lemma config_update_loses_value_silently_witness:
  "\<exists>c'. config_set_value (\<lambda>_. False) (Some demo_config) (Some ''net'') (Some ''port'') (Some ''9090'') = (0, Some c') \<and>
     config_get_value (Some c') (Some ''net'') (Some ''port'') = None"
  by (rule config_update_loses_value_silently [OF demo_config(1), of _ "[''port'' \<mapsto> ''8080'']" _ "''8080''"])
     (simp_all add: demo_config(2))

lemma isdigit_class: "isdigit c \<Longrightarrow> \<not> isspace c \<and> c \<noteq> CHR ''-'' \<and> c \<noteq> CHR ''+''"
  by (auto simp: isdigit_def isspace_def code_def)

lemma strtol10_digits:
  assumes "ds \<noteq> []" "list_all isdigit ds"
  shows "strtol10 ds = (clamp_long (dec_value ds), [])"
proof -
  obtain c r where ds: "ds = c # r" using assms(1) by (cases ds) auto
  then have c: "isdigit c" using assms(2) by simp
  have "takeWhile isdigit ds = ds" "dropWhile isdigit ds = []"
    using assms(2) by (auto simp: list_all_iff takeWhile_eq_all_conv)
  then show ?thesis using isdigit_class [OF c] ds by (simp add: strtol10_def Let_def)
qed

lemma dec_value_nonneg: "0 \<le> dec_value ds"
proof -
  have "0 \<le> a \<Longrightarrow> 0 \<le> foldl (\<lambda>v d. 10 * v + int (code d - 48)) a ds" for a
    by (induction ds arbitrary: a) auto
  then show ?thesis by (simp add: dec_value_def)
qed

text \<open>
  \<open>config_get_int\<close> reads a stored decimal number exactly as long as it fits an \<open>int\<close>. A number
  that does not fit is neither rejected nor replaced by the default: the conversion from \<open>long\<close>
  keeps the low 32 bits, so that \<open>4294967296\<close> reads as 0.
\<close>

theorem config_get_int_exact:
  assumes "config_get_value c n k = Some ds" "ds \<noteq> []" "list_all isdigit ds"
  shows "(dec_value ds < 2 ^ 31 \<longrightarrow> config_get_int c n k d = dec_value ds) \<and>
    (ds = ''4294967296'' \<longrightarrow> config_get_int c n k d = 0)"
proof -
  have e: "config_get_int c n k d = int_of_long (clamp_long (dec_value ds))"
    using assms strtol10_digits [OF assms(2,3)] by (simp add: config_get_int_def)
  have "int_of_long (clamp_long (dec_value ds)) = dec_value ds" if "dec_value ds < 2 ^ 31"
  proof -
    have "clamp_long (dec_value ds) = dec_value ds"
      using that dec_value_nonneg [of ds] by (simp add: clamp_long_def LONG_MAX_def LONG_MIN_def)
    then show ?thesis using that dec_value_nonneg [of ds]
      by (simp add: int_of_long_def signed_of_int signed_take_bit_int_eq_self)
  qed
  moreover have "int_of_long (clamp_long (dec_value ''4294967296'')) = 0"
    by (simp add: dec_value_def clamp_long_def LONG_MAX_def LONG_MIN_def int_of_long_def code_def)
  ultimately show ?thesis unfolding e by blast
qed

lemma config_get_int_exact_witness:
  "config_get_int (Some demo_config) (Some ''net'') (Some ''port'') 1 = 8080"
proof -
  have v: "config_get_value (Some demo_config) (Some ''net'') (Some ''port'') = Some ''8080''"
    by (simp add: config_get_abs demo_config(2))
  have "list_all isdigit ''8080''" "dec_value ''8080'' = 8080"
    by (simp_all add: isdigit_def code_def dec_value_def)
  with config_get_int_exact [OF v, of 1] show ?thesis by simp
qed

end
