(* ===== verification/Message_Queue.thy ===== *)
theory Message_Queue
  imports Fifo
begin

text \<open>
  The blocking message queue of \<open>server/src/connection.c\<close> (\<open>message_queue_create\<close> to
  \<open>message_queue_clear\<close>). The queue is a circular array of pointers guarded by one mutex. A call
  that has to wait releases the mutex; what it finds when a wait ends is up to the other threads,
  so the waiting loops take the list of those wake-ups: whether the wait reported an error (a time
  out) and the queue at that moment. A loop that is still waiting at the end of the list has not
  returned, which is the result \<open>None\<close>.
\<close>

record 'm message_queue =
  q_messages :: "'m option list"
  q_capacity :: nat
  q_count :: nat
  q_head :: nat
  q_tail :: nat

text \<open>The five requests that may fail: the structure, the array, the mutex and the two condition
  variables.\<close>

definition message_queue_create :: "bool \<Rightarrow> bool \<Rightarrow> bool \<Rightarrow> bool \<Rightarrow> bool \<Rightarrow> nat \<Rightarrow> 'm message_queue option" where
  "message_queue_create ok_q ok_msgs ok_lock ok_ne ok_nf capacity =
     (if \<not> ok_q then None
      else if \<not> ok_msgs then None
      else if \<not> ok_lock then None
      else if \<not> ok_ne then None
      else if \<not> ok_nf then None
      else Some \<lparr>q_messages = replicate capacity None, q_capacity = capacity, q_count = 0,
                 q_head = 0, q_tail = 0\<rparr>)"

text \<open>The critical sections, entered when there is room and when there is a message.\<close>

definition mq_put :: "'m message_queue \<Rightarrow> 'm \<Rightarrow> 'm message_queue" where
  "mq_put q m = q\<lparr>q_messages := (q_messages q)[q_tail q := Some m],
                  q_tail := (q_tail q + 1) mod q_capacity q, q_count := q_count q + 1\<rparr>"

definition mq_take :: "'m message_queue \<Rightarrow> 'm message_queue \<times> 'm option" where
  "mq_take q = (q\<lparr>q_head := (q_head q + 1) mod q_capacity q, q_count := q_count q - 1\<rparr>,
                q_messages q ! q_head q)"

type_synonym 'm wakeup = "bool \<times> 'm message_queue"

text \<open>\<open>Some None\<close> is the time out, \<open>Some (Some q)\<close> the queue when the condition holds.\<close>

fun wait_while :: "('m message_queue \<Rightarrow> bool) \<Rightarrow> bool \<Rightarrow> 'm message_queue \<Rightarrow> 'm wakeup list \<Rightarrow>
    'm message_queue option option" where
  "wait_while blocked timed q [] = (if blocked q then None else Some (Some q))"
| "wait_while blocked timed q ((err, q') # ws) =
     (if blocked q then (if timed \<and> err then Some None else wait_while blocked timed q' ws)
      else Some (Some q))"

definition mq_full :: "'m message_queue \<Rightarrow> bool" where
  "mq_full q \<longleftrightarrow> q_count q \<ge> q_capacity q"

definition mq_empty :: "'m message_queue \<Rightarrow> bool" where
  "mq_empty q \<longleftrightarrow> q_count q = 0"

text \<open>The result code and the queue after the call (the queue at the time out when there is one is
  not touched by it, so \<open>None\<close> stands for no change).\<close>

definition message_queue_push ::
    "'m message_queue option \<Rightarrow> 'm option \<Rightarrow> int \<Rightarrow> 'm wakeup list \<Rightarrow> (int \<times> 'm message_queue option) option" where
  "message_queue_push queue message timeout_ms ws =
     (case (queue, message) of
        (Some q, Some m) \<Rightarrow>
          map_option (\<lambda>r. case r of None \<Rightarrow> (-2, None) | Some q1 \<Rightarrow> (0, Some (mq_put q1 m)))
            (wait_while mq_full (timeout_ms > 0) q ws)
      | _ \<Rightarrow> Some (-1, None))"

definition message_queue_pop ::
    "'m message_queue option \<Rightarrow> int \<Rightarrow> 'm wakeup list \<Rightarrow> ('m option \<times> 'm message_queue option) option" where
  "message_queue_pop queue timeout_ms ws =
     (case queue of
        Some q \<Rightarrow>
          map_option (\<lambda>r. case r of None \<Rightarrow> (None, None)
              | Some q1 \<Rightarrow> (case mq_take q1 of (q2, m) \<Rightarrow> (m, Some q2)))
            (wait_while mq_empty (timeout_ms > 0) q ws)
      | None \<Rightarrow> Some (None, None))"

definition message_queue_size :: "'m message_queue option \<Rightarrow> nat" where
  "message_queue_size queue = (case queue of None \<Rightarrow> 0 | Some q \<Rightarrow> q_count q)"

text \<open>The loop of \<open>message_queue_clear\<close>: the messages freed, in order, and the array.\<close>

fun clear_slots :: "'m message_queue \<Rightarrow> nat \<Rightarrow> nat \<Rightarrow> 'm option list \<Rightarrow> 'm list \<times> 'm option list" where
  "clear_slots q i 0 msgs = ([], msgs)"
| "clear_slots q i (Suc n) msgs =
     (let index = (q_head q + i) mod q_capacity q in
      case msgs ! index of
        Some m \<Rightarrow> (case clear_slots q (Suc i) n (msgs[index := None]) of (fs, ms) \<Rightarrow> (m # fs, ms))
      | None \<Rightarrow> clear_slots q (Suc i) n msgs)"

definition message_queue_clear :: "'m message_queue option \<Rightarrow> 'm message_queue option \<times> 'm list" where
  "message_queue_clear queue =
     (case queue of None \<Rightarrow> (None, [])
      | Some q \<Rightarrow>
          (case clear_slots q 0 (q_count q) (q_messages q) of
             (freed, msgs) \<Rightarrow>
               (Some (q\<lparr>q_messages := msgs, q_count := 0, q_head := 0, q_tail := 0\<rparr>), freed)))"

section \<open>Invariant and contents\<close>

definition mq_slots :: "'m message_queue \<Rightarrow> 'm option list" where
  "mq_slots q = cyc (q_messages q) (q_head q) (q_count q)"

definition mq_contents :: "'m message_queue \<Rightarrow> 'm list" where
  "mq_contents q = map the (mq_slots q)"

definition mq_inv :: "'m message_queue \<Rightarrow> bool" where
  "mq_inv q \<longleftrightarrow> length (q_messages q) = q_capacity q \<and> q_count q \<le> q_capacity q \<and>
     (0 < q_capacity q \<longrightarrow> q_head q < q_capacity q \<and> q_tail q = (q_head q + q_count q) mod q_capacity q) \<and>
     (\<forall>x \<in> set (mq_slots q). x \<noteq> None)"

lemma message_queue_create_inv:
  "message_queue_create a b c d e n = Some q \<Longrightarrow> mq_inv q \<and> mq_contents q = [] \<and> q_capacity q = n"
  by (auto simp: message_queue_create_def mq_inv_def mq_contents_def mq_slots_def split: if_splits)

text \<open>Positions of a circular array that are less than its length apart are distinct.\<close>

lemma cyc_position_inj_le:
  assumes "i \<le> j" "j < n" "(h + i) mod n = (h + j) mod (n :: nat)"
  shows "i = j"
proof -
  have "n dvd (h + j) - (h + i)" using assms mod_eq_dvd_iff_nat [of "h + i" "h + j" n] by simp
  then have "n dvd j - i" by simp
  with assms(1,2) show ?thesis by (auto dest: dvd_imp_le)
qed

lemma cyc_position_inj:
  assumes "i < n" "j < n" "(h + i) mod n = (h + j) mod (n :: nat)"
  shows "i = j"
  using cyc_position_inj_le [of i j n h] cyc_position_inj_le [of j i n h] assms by (cases "i \<le> j") auto

lemma mq_put_spec:
  assumes "mq_inv q" "\<not> mq_full q"
  shows "mq_inv (mq_put q m)" "mq_contents (mq_put q m) = mq_contents q @ [m]"
proof -
  let ?c = "q_capacity q" and ?h = "q_head q" and ?n = "q_count q"
  have q: "length (q_messages q) = ?c" "?n < ?c" "?h < ?c" "q_tail q = (?h + ?n) mod ?c"
    using assms by (auto simp: mq_inv_def mq_full_def)
  have old: "cyc ((q_messages q)[q_tail q := Some m]) ?h ?n = mq_slots q"
  proof (rule nth_equalityI)
    fix i assume "i < length (cyc ((q_messages q)[q_tail q := Some m]) ?h ?n)"
    then have i: "i < ?n" by simp
    have "(?h + i) mod ?c \<noteq> (?h + ?n) mod ?c"
      using cyc_position_inj [of i ?c ?n ?h] i q(2) by auto
    then show "cyc ((q_messages q)[q_tail q := Some m]) ?h ?n ! i = mq_slots q ! i"
      using i q by (simp add: mq_slots_def)
  qed (simp add: mq_slots_def)
  have new: "mq_slots (mq_put q m) = mq_slots q @ [Some m]"
    using old q cyc_add [of "(q_messages q)[q_tail q := Some m]" ?h ?n 1]
    by (simp add: mq_slots_def mq_put_def cyc_def)
  then show "mq_contents (mq_put q m) = mq_contents q @ [m]" by (simp add: mq_contents_def)
  have "(q_tail q + 1) mod ?c = (?h + (?n + 1)) mod ?c" using q(4) by (simp add: mod_Suc_eq)
  then show "mq_inv (mq_put q m)"
    using new assms(1) q by (simp add: mq_inv_def) (simp add: mq_put_def)
qed

lemma mq_take_spec:
  assumes "mq_inv q" "\<not> mq_empty q" "mq_take q = (q', m)"
  shows "mq_inv q'" "m = Some (hd (mq_contents q))" "mq_contents q' = tl (mq_contents q)"
    "mq_contents q \<noteq> []" "q_capacity q' = q_capacity q"
proof -
  let ?c = "q_capacity q" and ?h = "q_head q" and ?n = "q_count q"
  have q: "length (q_messages q) = ?c" "0 < ?n" "?n \<le> ?c" "?h < ?c" "q_tail q = (?h + ?n) mod ?c"
    using assms by (auto simp: mq_inv_def mq_empty_def)
  have q': "q' = q\<lparr>q_head := (?h + 1) mod ?c, q_count := ?n - 1\<rparr>" "m = q_messages q ! ?h"
    using assms(3) by (auto simp: mq_take_def)
  have slots: "mq_slots q = m # mq_slots q'"
    using q q' cyc_add [of "q_messages q" ?h 1 "?n - 1"] by (simp add: mq_slots_def cyc_def)
  have some: "m \<noteq> None" using assms(1) slots by (auto simp: mq_inv_def)
  show "m = Some (hd (mq_contents q))" "mq_contents q' = tl (mq_contents q)" "mq_contents q \<noteq> []"
    using slots some by (auto simp: mq_contents_def)
  show "q_capacity q' = q_capacity q" using q' by simp
  have "((?h + 1) mod ?c + (?n - 1)) mod ?c = (?h + 1 + (?n - 1)) mod ?c" by (rule mod_add_left_eq)
  then have "q_tail q = ((?h + 1) mod ?c + (?n - 1)) mod ?c" using q(2,5) by simp
  moreover have "\<forall>x \<in> set (mq_slots q'). x \<noteq> None" using assms(1) slots by (auto simp: mq_inv_def)
  ultimately show "mq_inv q'" using q q'(1) by (simp add: mq_inv_def)
qed

lemma length_mq_contents [simp]: "length (mq_contents q) = q_count q"
  by (simp add: mq_contents_def mq_slots_def)

section \<open>The bounded queue interface\<close>

text \<open>Producers that push one message after another while there is room, consumers that pop while
  there is a message.\<close>

fun mq_offer :: "'m message_queue \<Rightarrow> 'm list \<Rightarrow> ('m message_queue \<times> nat) option" where
  "mq_offer q [] = Some (q, 0)"
| "mq_offer q (m # ms) =
     (if mq_full q then Some (q, 0)
      else case message_queue_push (Some q) (Some m) 0 [] of
        Some (r, Some q') \<Rightarrow> if r = 0 then map_option (\<lambda>(r, n). (r, Suc n)) (mq_offer q' ms) else None
      | _ \<Rightarrow> None)"

fun mq_drain :: "'m message_queue \<Rightarrow> nat \<Rightarrow> ('m message_queue \<times> 'm list) option" where
  "mq_drain q 0 = Some (q, [])"
| "mq_drain q (Suc n) =
     (if mq_empty q then Some (q, [])
      else case message_queue_pop (Some q) 0 [] of
        Some (Some m, Some q') \<Rightarrow> map_option (\<lambda>(r, ms). (r, m # ms)) (mq_drain q' n)
      | _ \<Rightarrow> None)"

lemma mq_offer_spec:
  "mq_inv q \<Longrightarrow> \<exists>q' n. mq_offer q ms = Some (q', n) \<and> mq_inv q' \<and> q_capacity q' = q_capacity q \<and>
     n = min (length ms) (q_capacity q - length (mq_contents q)) \<and> mq_contents q' = mq_contents q @ take n ms"
proof (induction ms arbitrary: q)
  case Nil
  then show ?case by simp
next
  case (Cons m ms)
  show ?case
  proof (cases "mq_full q")
    case True
    then show ?thesis using Cons.prems by (simp add: mq_full_def)
  next
    case False
    note p = mq_put_spec [OF Cons.prems False, of m]
    have c: "q_capacity (mq_put q m) = q_capacity q" "q_count (mq_put q m) = q_count q + 1"
      by (simp_all add: mq_put_def)
    from Cons.IH [OF p(1)] obtain q' n where "mq_offer (mq_put q m) ms = Some (q', n)" "mq_inv q'"
      "q_capacity q' = q_capacity q" "n = min (length ms) (q_capacity q - (q_count q + 1))"
      "mq_contents q' = (mq_contents q @ [m]) @ take n ms"
      using c p(2) by auto
    moreover have "q_count q < q_capacity q" using False by (simp add: mq_full_def)
    ultimately show ?thesis using False by (simp add: message_queue_push_def)
  qed
qed

lemma mq_drain_spec:
  "mq_inv q \<Longrightarrow> \<exists>q'. mq_drain q n = Some (q', take n (mq_contents q)) \<and> mq_inv q' \<and>
     q_capacity q' = q_capacity q \<and> mq_contents q' = drop n (mq_contents q)"
proof (induction n arbitrary: q)
  case 0
  then show ?case by simp
next
  case (Suc n)
  show ?case
  proof (cases "mq_empty q")
    case True
    then have "mq_contents q = []" by (simp add: mq_empty_def length_0_conv [symmetric])
    then show ?thesis using True Suc.prems by simp
  next
    case False
    obtain q1 m where t: "mq_take q = (q1, m)" by (cases "mq_take q")
    note s = mq_take_spec [OF Suc.prems False t]
    from Suc.IH [OF s(1)] obtain q' where "mq_drain q1 n = Some (q', take n (mq_contents q1))" "mq_inv q'"
      "q_capacity q' = q_capacity q1" "mq_contents q' = drop n (mq_contents q1)" by blast
    then show ?thesis using False t s
      by (cases "mq_contents q") (auto simp: message_queue_pop_def)
  qed
qed

interpretation mq: bounded_fifo mq_inv mq_contents q_capacity mq_offer mq_drain
proof (unfold_locales, goal_cases)
  case (1 q xs)
  then show ?case by (rule mq_offer_spec)
next
  case (2 q n)
  then show ?case by (rule mq_drain_spec)
next
  case (3 q)
  then show ?case by (simp add: mq_inv_def)
qed

section \<open>Waiting\<close>

text \<open>What a wait that returns has found: no time out without the timed mode, and the condition it
  waited for; every queue it may return is one that was seen.\<close>

lemma wait_while_result:
  "wait_while blocked timed q ws = Some r \<Longrightarrow>
     (r = None \<longrightarrow> timed) \<and> (\<forall>q'. r = Some q' \<longrightarrow> \<not> blocked q' \<and> (q' = q \<or> q' \<in> snd ` set ws))"
  by (induction blocked timed q ws rule: wait_while.induct) (auto split: if_splits)

text \<open>A wait ends as soon as a wake-up finds the condition, or reports an error in timed mode.\<close>

lemma wait_while_returns:
  "(\<exists>w \<in> set ws. \<not> blocked (snd w)) \<or> timed \<and> (\<exists>w \<in> set ws. fst w) \<Longrightarrow>
     \<exists>r. wait_while blocked timed q ws = Some r"
proof (induction blocked timed q ws rule: wait_while.induct)
  case (1 blocked timed q)
  then show ?case by simp
next
  case (2 blocked timed q err q' ws)
  have free: "\<not> blocked q' \<Longrightarrow> \<exists>r. wait_while blocked timed q' ws = Some r" by (cases ws) auto
  show ?case
  proof (cases "blocked q \<and> \<not> (timed \<and> err)")
    case True
    with 2 free show ?thesis by auto
  qed auto
qed

section \<open>Clearing\<close>

lemma clear_slots_spec:
  assumes "length msgs = q_capacity q" "i + n \<le> q_capacity q"
    and "\<forall>j. i \<le> j \<and> j < i + n \<longrightarrow> msgs ! ((q_head q + j) mod q_capacity q) \<noteq> None"
  shows "fst (clear_slots q i n msgs) = map (\<lambda>j. the (msgs ! ((q_head q + j) mod q_capacity q))) [i..<i + n] \<and>
    length (snd (clear_slots q i n msgs)) = q_capacity q"
  using assms
proof (induction n arbitrary: i msgs)
  case 0
  then show ?case by simp
next
  case (Suc n)
  let ?c = "q_capacity q"
  let ?x = "(q_head q + i) mod ?c"
  obtain m where m: "msgs ! ?x = Some m" using Suc.prems(3) [rule_format, of i] by auto
  have other: "(q_head q + j) mod ?c \<noteq> ?x" if "i < j" "j < i + Suc n" for j
    using cyc_position_inj [of j ?c i "q_head q"] that Suc.prems(2) by auto
  have "\<forall>j. Suc i \<le> j \<and> j < Suc i + n \<longrightarrow> msgs[?x := None] ! ((q_head q + j) mod ?c) \<noteq> None"
  proof (intro allI impI)
    fix j assume j: "Suc i \<le> j \<and> j < Suc i + n"
    then have "(q_head q + j) mod ?c \<noteq> ?x" using other by simp
    then show "msgs[?x := None] ! ((q_head q + j) mod ?c) \<noteq> None"
      using Suc.prems(3) [rule_format, of j] j by simp
  qed
  then have IH: "fst (clear_slots q (Suc i) n (msgs[?x := None])) =
      map (\<lambda>j. the (msgs[?x := None] ! ((q_head q + j) mod ?c))) [Suc i..<Suc i + n] \<and>
      length (snd (clear_slots q (Suc i) n (msgs[?x := None]))) = ?c"
    using Suc.IH [of "msgs[?x := None]" "Suc i"] Suc.prems(1,2) by simp
  have same: "map (\<lambda>j. the (msgs[?x := None] ! ((q_head q + j) mod ?c))) [Suc i..<Suc i + n] =
      map (\<lambda>j. the (msgs ! ((q_head q + j) mod ?c))) [Suc i..<Suc i + n]"
  proof (intro map_cong refl)
    fix j assume "j \<in> set [Suc i..<Suc i + n]"
    then have "i < j" "j < i + Suc n" by auto
    then have "(q_head q + j) mod ?c \<noteq> ?x" by (rule other)
    then show "the (msgs[?x := None] ! ((q_head q + j) mod ?c)) = the (msgs ! ((q_head q + j) mod ?c))" by simp
  qed
  have upt: "[i..<i + Suc n] = i # [Suc i..<Suc i + n]" using upt_conv_Cons [of i "i + Suc n"] by simp
  have step: "clear_slots q i (Suc n) msgs =
      (m # fst (clear_slots q (Suc i) n (msgs[?x := None])), snd (clear_slots q (Suc i) n (msgs[?x := None])))"
    using m by (simp add: Let_def split_beta)
  show ?case unfolding step upt using IH same m by (simp only: fst_conv snd_conv list.map option.sel)
qed

section \<open>Properties\<close>

text \<open>
  (C9) The message queue is a bounded first-in first-out queue: any session of pushes and pops on
  a queue created with capacity \<open>n\<close> runs without leaving the array, never holds more than \<open>n\<close>
  messages, and delivers the accepted messages in the order of acceptance, none lost, none twice.
\<close>

theorem message_queue_fifo:
  assumes "message_queue_create True True True True True n = Some (q :: 'm message_queue)"
  shows "\<exists>q' ins outs. fifo_run mq_offer mq_drain q ops = Some (q', ins, outs) \<and>
    ins = outs @ mq_contents q' \<and> message_queue_size (Some q') \<le> n"
proof -
  note inv = message_queue_create_inv [OF assms]
  then obtain q' ins outs where r: "fifo_run mq_offer mq_drain q ops = Some (q', ins, outs)" "mq_inv q'"
    "q_capacity q' = q_capacity q" "mq_contents q @ ins = outs @ mq_contents q'"
    using mq.run_total [of q ops] by blast
  have "q_count q' \<le> n" using r(2,3) inv by (simp add: mq_inv_def)
  with r inv show ?thesis by (simp add: message_queue_size_def)
qed

lemma message_queue_fifo_witness:
  "\<exists>q q' ins outs. message_queue_create True True True True True 2 = Some (q :: nat message_queue) \<and>
     fifo_run mq_offer mq_drain q [Offer [1, 2, 3], Take 1, Offer [4]] = Some (q', ins, outs) \<and>
     ins = outs @ mq_contents q' \<and> message_queue_size (Some q') \<le> 2"
proof -
  obtain q where q: "message_queue_create True True True True True 2 = Some (q :: nat message_queue)"
    by (simp add: message_queue_create_def)
  from message_queue_fifo [OF q] q show ?thesis by blast
qed

text \<open>
  (C10) A blocked push or pop behaves like an immediate one at the moment it is let in: if every
  queue state it can observe is well formed, a call that returns has either timed out, only in timed
  mode and without touching the queue, or has added its message behind, respectively taken the first
  message of, one of the observed queues; it never overwrites a message of a full queue and never
  reads from an empty one. It does return once some wake-up finds room, respectively a message.
\<close>

theorem message_queue_blocking:
  assumes "mq_inv q" "\<forall>w \<in> set ws. mq_inv (snd w)"
  shows "(\<forall>r q'. message_queue_push (Some q) (Some m) t ws = Some (r, q') \<longrightarrow>
      r = -2 \<and> t > 0 \<and> q' = None \<or>
      r = 0 \<and> (\<exists>q0 q1. q0 \<in> insert q (snd ` set ws) \<and> q_count q0 < q_capacity q0 \<and> q' = Some q1 \<and>
        mq_inv q1 \<and> mq_contents q1 = mq_contents q0 @ [m])) \<and>
    (\<forall>x q'. message_queue_pop (Some q) t ws = Some (x, q') \<longrightarrow>
      x = None \<and> t > 0 \<and> q' = None \<or>
      (\<exists>q0 q1. q0 \<in> insert q (snd ` set ws) \<and> q' = Some q1 \<and> mq_inv q1 \<and> x \<noteq> None \<and>
        mq_contents q0 = the x # mq_contents q1)) \<and>
    ((\<exists>w \<in> set ws. \<not> mq_full (snd w)) \<longrightarrow> message_queue_push (Some q) (Some m) t ws \<noteq> None) \<and>
    ((\<exists>w \<in> set ws. \<not> mq_empty (snd w)) \<longrightarrow> message_queue_pop (Some q) t ws \<noteq> None)"
proof (intro conjI allI impI)
  fix r q' assume "message_queue_push (Some q) (Some m) t ws = Some (r, q')"
  then obtain w where w: "wait_while mq_full (t > 0) q ws = Some w"
    "(r, q') = (case w of None \<Rightarrow> (-2, None) | Some q1 \<Rightarrow> (0, Some (mq_put q1 m)))"
    by (auto simp: message_queue_push_def)
  show "r = -2 \<and> t > 0 \<and> q' = None \<or>
      r = 0 \<and> (\<exists>q0 q1. q0 \<in> insert q (snd ` set ws) \<and> q_count q0 < q_capacity q0 \<and> q' = Some q1 \<and>
        mq_inv q1 \<and> mq_contents q1 = mq_contents q0 @ [m])"
  proof (cases w)
    case None
    then show ?thesis using w wait_while_result [OF w(1)] by simp
  next
    case (Some q0)
    then have q0: "\<not> mq_full q0" "q0 \<in> insert q (snd ` set ws)" using wait_while_result [OF w(1)] by auto
    then have "mq_inv q0" using assms by auto
    with q0 Some w(2) mq_put_spec [of q0 m] show ?thesis by (auto simp: mq_full_def)
  qed
next
  fix x q' assume "message_queue_pop (Some q) t ws = Some (x, q')"
  then obtain w where w: "wait_while mq_empty (t > 0) q ws = Some w"
    "(x, q') = (case w of None \<Rightarrow> (None, None) | Some q1 \<Rightarrow> (case mq_take q1 of (q2, m) \<Rightarrow> (m, Some q2)))"
    by (auto simp: message_queue_pop_def)
  show "x = None \<and> t > 0 \<and> q' = None \<or>
      (\<exists>q0 q1. q0 \<in> insert q (snd ` set ws) \<and> q' = Some q1 \<and> mq_inv q1 \<and> x \<noteq> None \<and>
        mq_contents q0 = the x # mq_contents q1)"
  proof (cases w)
    case None
    then show ?thesis using w wait_while_result [OF w(1)] by simp
  next
    case (Some q0)
    then have q0: "\<not> mq_empty q0" "q0 \<in> insert q (snd ` set ws)" using wait_while_result [OF w(1)] by auto
    then have inv: "mq_inv q0" using assms by auto
    obtain q1 y where t: "mq_take q0 = (q1, y)" by (cases "mq_take q0")
    note s = mq_take_spec [OF inv q0(1) t]
    have "x = y" "q' = Some q1" using w(2) Some t by auto
    moreover have "mq_contents q0 = the y # mq_contents q1" using s(2,3,4) by simp
    ultimately show ?thesis using q0(2) s(1,2) by blast
  qed
next
  assume "\<exists>w \<in> set ws. \<not> mq_full (snd w)"
  then show "message_queue_push (Some q) (Some m) t ws \<noteq> None"
    using wait_while_returns [of ws mq_full "t > 0" q] by (auto simp: message_queue_push_def)
next
  assume "\<exists>w \<in> set ws. \<not> mq_empty (snd w)"
  then show "message_queue_pop (Some q) t ws \<noteq> None"
    using wait_while_returns [of ws mq_empty "t > 0" q] by (auto simp: message_queue_pop_def)
qed

text \<open>A full queue of one message, and the same queue after a consumer was there.\<close>

definition one_slot :: "nat option \<Rightarrow> nat message_queue" where
  "one_slot x = \<lparr>q_messages = [x], q_capacity = 1, q_count = (if x = None then 0 else 1), q_head = 0, q_tail = 0\<rparr>"

lemma one_slot_inv: "mq_inv (one_slot x)" "mq_contents (one_slot x) = (case x of None \<Rightarrow> [] | Some m \<Rightarrow> [m])"
  by (auto simp: one_slot_def mq_inv_def mq_slots_def mq_contents_def cyc_def split: option.splits)

lemma message_queue_blocking_witness:
  "\<exists>r q'. message_queue_push (Some (one_slot (Some 1))) (Some 2) 0 [(False, one_slot None)] = Some (r, q') \<and>
     r = 0 \<and> (\<exists>q1. q' = Some q1 \<and> mq_contents q1 = [2])"
proof -
  let ?ws = "[(False, one_slot None)]"
  have w: "\<forall>w \<in> set ?ws. mq_inv (snd w)" by (simp add: one_slot_inv)
  note b = message_queue_blocking [OF one_slot_inv(1) w, of "Some 1" 2 0]
  have "\<exists>w \<in> set ?ws. \<not> mq_full (snd w)" by (simp add: mq_full_def one_slot_def)
  with b obtain r q' where r: "message_queue_push (Some (one_slot (Some 1))) (Some 2) 0 ?ws = Some (r, q')"
    by fastforce
  with b have "r = 0 \<and> (\<exists>q0 q1. q0 \<in> insert (one_slot (Some 1)) (snd ` set ?ws) \<and> q_count q0 < q_capacity q0 \<and>
      q' = Some q1 \<and> mq_inv q1 \<and> mq_contents q1 = mq_contents q0 @ [2])" by blast
  then show ?thesis using r by (auto simp: one_slot_def mq_contents_def mq_slots_def)
qed

text \<open>
  Clearing frees every waiting message exactly once, oldest first, and leaves an empty, usable
  queue of the same capacity.
\<close>

theorem message_queue_clear_frees_all:
  assumes "mq_inv q"
  shows "\<exists>q'. message_queue_clear (Some q) = (Some q', mq_contents q) \<and> mq_inv q' \<and>
    mq_contents q' = [] \<and> q_capacity q' = q_capacity q"
proof -
  have len: "length (q_messages q) = q_capacity q" "q_count q \<le> q_capacity q"
    using assms by (auto simp: mq_inv_def)
  have "\<forall>j. 0 \<le> j \<and> j < 0 + q_count q \<longrightarrow> q_messages q ! ((q_head q + j) mod q_capacity q) \<noteq> None"
  proof (intro allI impI)
    fix j assume "0 \<le> j \<and> j < 0 + q_count q"
    then have "mq_slots q ! j \<in> set (mq_slots q)" by (intro nth_mem) (simp add: mq_slots_def)
    then have "mq_slots q ! j \<noteq> None" using assms by (auto simp: mq_inv_def)
    then show "q_messages q ! ((q_head q + j) mod q_capacity q) \<noteq> None"
      using \<open>0 \<le> j \<and> j < 0 + q_count q\<close> len by (simp add: mq_slots_def)
  qed
  from clear_slots_spec [OF len(1) _ this] len
  have c: "fst (clear_slots q 0 (q_count q) (q_messages q)) = mq_contents q"
    "length (snd (clear_slots q 0 (q_count q) (q_messages q))) = q_capacity q"
    by (simp_all add: mq_contents_def mq_slots_def cyc_def comp_def)
  then show ?thesis
    by (auto simp: message_queue_clear_def split_beta mq_inv_def mq_contents_def mq_slots_def)
qed

lemma message_queue_clear_frees_all_witness:
  "\<exists>q'. message_queue_clear (Some (one_slot (Some 7))) = (Some q', [7]) \<and> mq_contents q' = []"
  using message_queue_clear_frees_all [OF one_slot_inv(1), of "Some 7"] by (simp add: one_slot_inv(2)) blast

end
