(* ===== verification/Connection.thy ===== *)
theory Connection
  imports C_Lib
begin

text \<open>
  A client connection of \<open>server/src/connection.c\<close>: life cycle, rate limiter, sending with partial
  writes, message framing and the receive buffer. The wire format functions of
  \<open>common/protocol.h\<close> are only declared there, so the (de)serialiser and the checksum are
  arguments; \<open>header_codec\<close> states what is relied on. The clock is an argument too: reading number
  \<open>i\<close> of a call is \<open>clk i\<close>. A socket is the sequence of its answers to \<open>send\<close> together with the
  bytes that reached the peer; an operation that needs an answer after the last one has not
  returned, which is the result \<open>None\<close>.

  Of the receive buffer the used part is kept, with the size of the allocation; the bytes behind
  the used part are never read.
\<close>

datatype connection_state = Conn_New | Conn_Authenticated | Conn_Closing | Conn_Closed | Conn_Error

record rate_limiter =
  rl_messages_per_minute :: "32 word"
  rl_bytes_per_minute :: "32 word"
  rl_last_reset_time :: "64 word"
  rl_message_count :: "32 word"
  rl_byte_count :: "32 word"

record client_connection =
  c_id :: "64 word"
  c_fd :: int
  c_ip :: "32 word"
  c_port :: "16 word"
  c_state :: connection_state
  c_ssl :: bool
  c_encryption :: bool
  c_user_id :: "64 word"
  c_username :: string
  c_nickname :: string
  c_connected_at :: "64 word"
  c_last_activity :: "64 word"
  c_last_heartbeat :: "64 word"
  c_recv_size :: nat
  c_recv_data :: "byte list"
  c_send_size :: nat
  c_bytes_sent :: "64 word"
  c_bytes_received :: "64 word"
  c_messages_sent :: "32 word"
  c_messages_received :: "32 word"
  c_rate :: rate_limiter

record message_header =
  h_magic :: "32 word"
  h_version :: "32 word"
  h_type :: "32 word"
  h_flags :: "32 word"
  h_timestamp :: "64 word"
  h_message_id :: "64 word"
  h_correlation_id :: "64 word"
  h_body_length :: "32 word"
  h_checksum :: "32 word"
  h_reserved :: "byte list"

abbreviation PROTOCOL_MAGIC :: "32 word" where "PROTOCOL_MAGIC \<equiv> 0x53435400"
abbreviation PROTOCOL_VERSION :: "32 word" where "PROTOCOL_VERSION \<equiv> 0x00030000"
abbreviation MSG_SYSTEM_HEARTBEAT :: "32 word" where "MSG_SYSTEM_HEARTBEAT \<equiv> 0x00000002"
abbreviation MSG_SYSTEM_ERROR :: "32 word" where "MSG_SYSTEM_ERROR \<equiv> 0x00000003"
abbreviation MAX_MESSAGE_SIZE :: nat where "MAX_MESSAGE_SIZE \<equiv> 65536"

text \<open>\<open>sizeof(message_header_t)\<close> of the packed structure: four 32-bit words, three 64-bit words, two
  32-bit words and 16 reserved bytes.\<close>

definition sizeof_header :: nat where
  "sizeof_header = 4 * 4 + 3 * 8 + 2 * 4 + 16"

definition header_codec :: "(message_header \<Rightarrow> byte list) \<Rightarrow> (byte list \<Rightarrow> message_header option) \<Rightarrow> bool" where
  "header_codec ser deser \<longleftrightarrow>
     (\<forall>h. length (h_reserved h) = 16 \<longrightarrow>
        length (ser h) = sizeof_header \<and> (\<forall>rest. deser (ser h @ rest) = Some h))"

section \<open>Rate limiter\<close>

definition connection_init_rate_limiter :: "64 word \<Rightarrow> 32 word \<Rightarrow> 32 word \<Rightarrow> rate_limiter" where
  "connection_init_rate_limiter now mpm bpm =
     \<lparr>rl_messages_per_minute = mpm, rl_bytes_per_minute = bpm, rl_last_reset_time = now,
      rl_message_count = 0, rl_byte_count = 0\<rparr>"

definition reset_rate_limiter :: "64 word \<Rightarrow> rate_limiter \<Rightarrow> rate_limiter" where
  "reset_rate_limiter now r = r\<lparr>rl_last_reset_time := now, rl_message_count := 0, rl_byte_count := 0\<rparr>"

text \<open>The clock is read once for the comparison and once more by the reset.\<close>

definition check_rate_limit_reset :: "64 word \<Rightarrow> 64 word \<Rightarrow> rate_limiter \<Rightarrow> rate_limiter" where
  "check_rate_limit_reset now now' r =
     (if now - rl_last_reset_time r \<ge> 60000 then reset_rate_limiter now' r else r)"

definition update_rate_limiter :: "64 word \<Rightarrow> 64 word \<Rightarrow> nat \<Rightarrow> rate_limiter \<Rightarrow> rate_limiter" where
  "update_rate_limiter now now' message_size r =
     (let r1 = check_rate_limit_reset now now' r in
      r1\<lparr>rl_message_count := rl_message_count r1 + 1,
         rl_byte_count := rl_byte_count r1 + of_nat message_size\<rparr>)"

definition connection_check_rate_limit ::
    "64 word \<Rightarrow> 64 word \<Rightarrow> nat \<Rightarrow> rate_limiter \<Rightarrow> bool \<times> rate_limiter" where
  "connection_check_rate_limit now now' message_size r =
     (let r1 = check_rate_limit_reset now now' r in
      if rl_messages_per_minute r1 > 0 \<and> rl_message_count r1 \<ge> rl_messages_per_minute r1 then (False, r1)
      else if rl_bytes_per_minute r1 > 0 \<and>
        (ucast (rl_byte_count r1) + of_nat message_size :: 64 word) > ucast (rl_bytes_per_minute r1)
      then (False, r1)
      else (True, r1))"

section \<open>Sending\<close>

text \<open>An answer of \<open>send\<close> or \<open>SSL_write\<close>: a number of bytes taken, try again, the peer is gone, or
  another error. No more bytes are taken than were offered.\<close>

datatype send_result = Sent nat | Would_Block | Peer_Closed | Send_Failed

record sock =
  sk_answers :: "send_result list"
  sk_wire :: "byte list"

text \<open>The result of the C function, the number of bytes taken, and the answers not used.\<close>

fun plain_send :: "send_result list \<Rightarrow> nat \<Rightarrow> nat \<Rightarrow> (int \<times> nat \<times> send_result list) option" where
  "plain_send [] tot len = (if tot < len then None else Some (int tot, tot, []))"
| "plain_send (a # as) tot len =
     (if tot < len then
        (case a of
           Would_Block \<Rightarrow> plain_send as tot len
         | Peer_Closed \<Rightarrow> Some (int tot, tot, as)
         | Send_Failed \<Rightarrow> Some (-1, tot, as)
         | Sent n \<Rightarrow> plain_send as (tot + min n (len - tot)) len)
      else Some (int tot, tot, a # as))"

text \<open>\<open>SSL_write\<close> reports an answer of zero bytes through \<open>SSL_get_error\<close>; here it counts as an
  error.\<close>

fun ssl_send :: "send_result list \<Rightarrow> nat \<Rightarrow> nat \<Rightarrow> (int \<times> nat \<times> send_result list) option" where
  "ssl_send [] tot len = (if tot < len then None else Some (int tot, tot, []))"
| "ssl_send (a # as) tot len =
     (if tot < len then
        (case a of
           Would_Block \<Rightarrow> ssl_send as tot len
         | Peer_Closed \<Rightarrow> Some (int tot, tot, as)
         | Send_Failed \<Rightarrow> Some (-1, tot, as)
         | Sent n \<Rightarrow> if n = 0 then Some (-1, tot, as) else ssl_send as (tot + min n (len - tot)) len)
      else Some (int tot, tot, a # as))"

definition conn_send ::
    "(nat \<Rightarrow> 64 word) \<Rightarrow> client_connection \<Rightarrow> sock \<Rightarrow> byte list \<Rightarrow> (int \<times> client_connection \<times> sock) option" where
  "conn_send clk c sk data =
     (if c_fd c = -1 \<or> length data = 0 then Some (-1, c, sk)
      else case connection_check_rate_limit (clk 0) (clk 1) (length data) (c_rate c) of
        (False, r) \<Rightarrow> Some (-2, c\<lparr>c_rate := r\<rparr>, sk)
      | (True, r) \<Rightarrow>
          map_option (\<lambda>(sent, n, as).
            let sk' = \<lparr>sk_answers = as, sk_wire = sk_wire sk @ take n data\<rparr>;
                c1 = c\<lparr>c_rate := r\<rparr>
            in if sent > 0 then
                 (sent, c1\<lparr>c_bytes_sent := c_bytes_sent c1 + of_int sent, c_last_activity := clk 2,
                           c_rate := update_rate_limiter (clk 3) (clk 4) (nat sent) (c_rate c1)\<rparr>, sk')
               else (sent, c1, sk'))
            ((if c_ssl c then ssl_send else plain_send) (sk_answers sk) 0 (length data)))"

definition connection_send :: "(nat \<Rightarrow> 64 word) \<Rightarrow> client_connection option \<Rightarrow> sock \<Rightarrow> byte list option \<Rightarrow>
    (int \<times> client_connection option \<times> sock) option" where
  "connection_send clk conn sk data =
     (case (conn, data) of
        (Some c, Some d) \<Rightarrow> map_option (\<lambda>(r, c', sk'). (r, Some c', sk')) (conn_send clk c sk d)
      | _ \<Rightarrow> Some (-1, conn, sk))"

section \<open>Messages\<close>

definition make_header ::
    "(byte list \<Rightarrow> 32 word) \<Rightarrow> 64 word \<Rightarrow> 32 word \<Rightarrow> 32 word \<Rightarrow> byte list \<Rightarrow> message_header" where
  "make_header chk now msg_id mtype data =
     \<lparr>h_magic = PROTOCOL_MAGIC, h_version = PROTOCOL_VERSION, h_type = mtype, h_flags = 0,
      h_timestamp = now, h_message_id = ucast msg_id, h_correlation_id = 0,
      h_body_length = of_nat (length data),
      h_checksum = (if length data > 0 then chk data else 0), h_reserved = replicate 16 0\<rparr>"

definition conn_send_message :: "(message_header \<Rightarrow> byte list) \<Rightarrow> (byte list \<Rightarrow> 32 word) \<Rightarrow> (nat \<Rightarrow> 64 word) \<Rightarrow>
    client_connection \<Rightarrow> sock \<Rightarrow> 32 word \<Rightarrow> byte list \<Rightarrow> (int \<times> client_connection \<times> sock) option" where
  "conn_send_message ser chk clk c sk mtype data =
     (if length data > MAX_MESSAGE_SIZE then Some (-2, c, sk)
      else
        let c1 = c\<lparr>c_messages_sent := c_messages_sent c + 1\<rparr>;
            h = make_header chk (clk 0) (c_messages_sent c1) mtype data
        in Option.bind (conn_send (\<lambda>i. clk (1 + i)) c1 sk (ser h)) (\<lambda>(sent, c2, sk2).
             if sent \<noteq> int sizeof_header then Some (-3, c2, sk2)
             else if length data > 0 then
               Option.bind (conn_send (\<lambda>i. clk (6 + i)) c2 sk2 data) (\<lambda>(sent', c3, sk3).
                 if sent' \<noteq> int (length data) then Some (-4, c3, sk3) else Some (0, c3, sk3))
             else Some (0, c2, sk2)))"

text \<open>A received message, the error codes, and the buffer afterwards; \<open>ok\<close> is the outcome of the
  allocation of the body.\<close>

definition conn_receive_message :: "(byte list \<Rightarrow> message_header option) \<Rightarrow> (byte list \<Rightarrow> 32 word) \<Rightarrow> bool \<Rightarrow>
    client_connection \<Rightarrow> int \<times> client_connection \<times> (32 word \<times> byte list) option" where
  "conn_receive_message deser chk ok c =
     (let buf = c_recv_data c in
      if length buf < sizeof_header then (0, c, None)
      else case deser buf of
        None \<Rightarrow> (-2, c, None)
      | Some h \<Rightarrow>
          if h_magic h \<noteq> PROTOCOL_MAGIC then (-3, c, None)
          else
            let n = unat (h_body_length h) in
            if length buf < sizeof_header + n then (0, c, None)
            else if \<not> ok then (-4, c, None)
            else
              let body = take n (drop sizeof_header buf) in
              if n > 0 \<and> chk body \<noteq> h_checksum h then (-5, c, None)
              else (1, c\<lparr>c_recv_data := drop (sizeof_header + n) buf,
                        c_messages_received := c_messages_received c + 1\<rparr>, Some (h_type h, body)))"

definition handle_heartbeat :: "(message_header \<Rightarrow> byte list) \<Rightarrow> (byte list \<Rightarrow> 32 word) \<Rightarrow> (nat \<Rightarrow> 64 word) \<Rightarrow>
    client_connection \<Rightarrow> sock \<Rightarrow> byte list \<Rightarrow> (client_connection \<times> sock) option" where
  "handle_heartbeat ser chk clk c sk timestamp =
     map_option snd (conn_send_message ser chk (\<lambda>i. clk (1 + i)) (c\<lparr>c_last_heartbeat := clk 0\<rparr>) sk
       MSG_SYSTEM_HEARTBEAT timestamp)"

text \<open>Only heartbeats have an effect: any other message is accepted and nothing is done with it.\<close>

definition process_complete_message :: "(message_header \<Rightarrow> byte list) \<Rightarrow> (byte list \<Rightarrow> 32 word) \<Rightarrow> (nat \<Rightarrow> 64 word) \<Rightarrow>
    client_connection \<Rightarrow> sock \<Rightarrow> message_header \<Rightarrow> byte list \<Rightarrow> (bool \<times> client_connection \<times> sock) option" where
  "process_complete_message ser chk clk c sk h buf =
     (if h_type h = MSG_SYSTEM_HEARTBEAT then
        (if h_body_length h = 8
         then map_option (\<lambda>(c', sk'). (True, c', sk'))
                (handle_heartbeat ser chk clk c sk (take 8 (drop sizeof_header buf)))
         else Some (True, c, sk))
      else if h_type h = MSG_SYSTEM_ERROR then Some (True, c, sk)
      else Some (True, c, sk))"

text \<open>The loop of \<open>connection_process_data\<close> over the used part of the buffer; the number of messages
  processed, the rest of the buffer and the connection.\<close>

function process_loop :: "(message_header \<Rightarrow> byte list) \<Rightarrow> (byte list \<Rightarrow> message_header option) \<Rightarrow>
    (byte list \<Rightarrow> 32 word) \<Rightarrow> (nat \<Rightarrow> nat \<Rightarrow> 64 word) \<Rightarrow> nat \<Rightarrow> client_connection \<Rightarrow> sock \<Rightarrow> byte list \<Rightarrow>
    (nat \<times> byte list \<times> client_connection \<times> sock) option" where
  "process_loop ser deser chk clk k c sk buf =
     (if length buf < sizeof_header then Some (0, buf, c, sk)
      else case deser buf of
        None \<Rightarrow> Some (0, buf, c, sk)
      | Some h \<Rightarrow>
          let tot = sizeof_header + unat (h_body_length h) in
          if length buf < tot then Some (0, buf, c, sk)
          else Option.bind (process_complete_message ser chk (clk k) c sk h buf) (\<lambda>(ok, c', sk').
            if \<not> ok then Some (0, buf, c', sk')
            else map_option (\<lambda>(n, r). (Suc n, r))
                   (process_loop ser deser chk clk (Suc k) c' sk' (drop tot buf))))"
  by pat_completeness auto
termination
  by (relation "measure (\<lambda>(ser, deser, chk, clk, k, c, sk, buf). length buf)")
     (auto simp: sizeof_header_def)

declare process_loop.simps [simp del]

text \<open>\<open>ok\<close> is the outcome of the reallocation.\<close>

definition resize_recv_buffer :: "bool \<Rightarrow> client_connection \<Rightarrow> nat \<Rightarrow> client_connection option" where
  "resize_recv_buffer ok c new_size =
     (if new_size \<le> c_recv_size c then Some c
      else if \<not> ok then None
      else Some (c\<lparr>c_recv_size := new_size\<rparr>))"

definition conn_process_data :: "(message_header \<Rightarrow> byte list) \<Rightarrow> (byte list \<Rightarrow> message_header option) \<Rightarrow>
    (byte list \<Rightarrow> 32 word) \<Rightarrow> (nat \<Rightarrow> nat \<Rightarrow> 64 word) \<Rightarrow> bool \<Rightarrow> client_connection \<Rightarrow> sock \<Rightarrow> byte list \<Rightarrow>
    (int \<times> client_connection \<times> sock) option" where
  "conn_process_data ser deser chk clk ok c sk data =
     (if length data = 0 then Some (-1, c, sk)
      else
        let used = length (c_recv_data c) in
        case (if used + length data > c_recv_size c
              then resize_recv_buffer ok c ((used + length data) * 2) else Some c) of
          None \<Rightarrow> Some (-2, c, sk)
        | Some c1 \<Rightarrow>
            if used + length data > c_recv_size c1 then None
            else map_option (\<lambda>(n, rest, c2, sk2). (int n, c2\<lparr>c_recv_data := rest\<rparr>, sk2))
                   (process_loop ser deser chk clk 0 c1 sk (c_recv_data c1 @ data)))"

section \<open>Life cycle\<close>

text \<open>The record and the descriptors closed.\<close>

definition connection_close :: "client_connection option \<Rightarrow> bool \<Rightarrow> int \<times> client_connection option \<times> int list" where
  "connection_close conn graceful =
     (case conn of None \<Rightarrow> (-1, None, [])
      | Some c \<Rightarrow>
          if c_state c = Conn_Closing \<or> c_state c = Conn_Closed then (0, Some c, [])
          else
            let c1 = c\<lparr>c_state := (if graceful then Conn_Closing else Conn_Closed)\<rparr>;
                closed = (if c_fd c1 \<noteq> -1 then [c_fd c1] else []);
                c2 = (if c_fd c1 \<noteq> -1 then c1\<lparr>c_fd := -1\<rparr> else c1)
            in (0, Some (c2\<lparr>c_state := Conn_Closed\<rparr>), closed))"

definition connection_update_activity :: "64 word \<Rightarrow> client_connection option \<Rightarrow> client_connection option" where
  "connection_update_activity now conn = map_option (\<lambda>c. c\<lparr>c_last_activity := now\<rparr>) conn"

text \<open>\<open>strncpy\<close> into an array of 64 bytes whose last byte is then cleared.\<close>

definition strncpy64 :: "string \<Rightarrow> string" where
  "strncpy64 s = take 63 s"

definition connection_set_user_info ::
    "client_connection option \<Rightarrow> 64 word \<Rightarrow> string option \<Rightarrow> string option \<Rightarrow> int \<times> client_connection option" where
  "connection_set_user_info conn user_id username nickname =
     (case conn of None \<Rightarrow> (-1, None)
      | Some c \<Rightarrow>
          let c1 = c\<lparr>c_user_id := user_id\<rparr>;
              c2 = (case username of Some u \<Rightarrow> c1\<lparr>c_username := strncpy64 u\<rparr> | None \<Rightarrow> c1);
              c3 = (case nickname of Some u \<Rightarrow> c2\<lparr>c_nickname := strncpy64 u\<rparr> | None \<Rightarrow> c2)
          in (0, Some (c3\<lparr>c_state := Conn_Authenticated\<rparr>)))"

definition connection_clear_user_info :: "client_connection option \<Rightarrow> client_connection option" where
  "connection_clear_user_info conn =
     map_option (\<lambda>c. c\<lparr>c_user_id := 0, c_username := [], c_nickname := [], c_state := Conn_New\<rparr>) conn"

definition connection_is_alive :: "64 word \<Rightarrow> client_connection option \<Rightarrow> 64 word \<Rightarrow> bool" where
  "connection_is_alive now conn timeout_ms =
     (case conn of None \<Rightarrow> False
      | Some c \<Rightarrow> c_fd c \<noteq> -1 \<and> c_state c \<noteq> Conn_Closing \<and> c_state c \<noteq> Conn_Closed \<and>
          now - c_last_activity c \<le> timeout_ms)"

definition connection_validate_address :: "(32 word \<times> 16 word) option \<Rightarrow> bool" where
  "connection_validate_address addr = (case addr of None \<Rightarrow> False | Some (ip, port) \<Rightarrow> port \<noteq> 0)"

section \<open>Sending, lemmas\<close>

lemma plain_send_result:
  "plain_send as tot len = Some (r, n, as') \<Longrightarrow> tot \<le> len \<Longrightarrow>
     tot \<le> n \<and> n \<le> len \<and> (r = int n \<or> r = -1)"
proof (induction as tot len rule: plain_send.induct)
  case (2 a as tot len)
  have "tot + min x (len - tot) \<le> len" if "tot < len" for x using that by linarith
  with 2 show ?case by (cases a) (fastforce split: if_splits)+
qed (auto split: if_splits)

lemma ssl_send_result:
  "ssl_send as tot len = Some (r, n, as') \<Longrightarrow> tot \<le> len \<Longrightarrow>
     tot \<le> n \<and> n \<le> len \<and> (r = int n \<or> r = -1)"
proof (induction as tot len rule: ssl_send.induct)
  case (2 a as tot len)
  have "tot + min x (len - tot) \<le> len" if "tot < len" for x using that by linarith
  with 2 show ?case by (cases a) (fastforce split: if_splits)+
qed (auto split: if_splits)

text \<open>Every outcome of \<open>conn_send\<close>: refused before anything is written, or a prefix of the data is on
  the wire and the limiter accounts for it.\<close>

lemma conn_send_cases:
  assumes "conn_send clk c sk d = Some (r, c', sk')"
  obtains (refused) "r = -1 \<or> r = -2" "sk' = sk"
      "c' = c \<or> c' = c\<lparr>c_rate := check_rate_limit_reset (clk 0) (clk 1) (c_rate c)\<rparr>"
  | (tried) n where "fst (connection_check_rate_limit (clk 0) (clk 1) (length d) (c_rate c))" "d \<noteq> []"
      "n \<le> length d" "r = int n \<or> r = -1" "sk_wire sk' = sk_wire sk @ take n d"
      "c_rate c' = (if r > 0 then update_rate_limiter (clk 3) (clk 4) n
          (check_rate_limit_reset (clk 0) (clk 1) (c_rate c))
        else check_rate_limit_reset (clk 0) (clk 1) (c_rate c))"
proof -
  let ?k = "connection_check_rate_limit (clk 0) (clk 1) (length d) (c_rate c)"
  have snd: "snd ?k = check_rate_limit_reset (clk 0) (clk 1) (c_rate c)"
    by (simp add: connection_check_rate_limit_def Let_def)
  obtain b rl where k: "?k = (b, rl)" by (cases ?k)
  consider (guard) "c_fd c = -1 \<or> d = []" | (limit) "\<not> (c_fd c = -1 \<or> d = [])" "\<not> b" | (go) "\<not> (c_fd c = -1 \<or> d = [])" "b" by blast
  then show ?thesis
  proof cases
    case guard
    then show ?thesis using assms by (intro refused) (auto simp: conn_send_def)
  next
    case limit
    then show ?thesis using assms snd k by (intro refused) (auto simp: conn_send_def)
  next
    case go
    let ?X = "(if c_ssl c then ssl_send else plain_send) (sk_answers sk) 0 (length d)"
    have sent: "map_option (\<lambda>(sent, n, as).
            let sk' = \<lparr>sk_answers = as, sk_wire = sk_wire sk @ take n d\<rparr>; c1 = c\<lparr>c_rate := rl\<rparr>
            in if sent > 0 then
                 (sent, c1\<lparr>c_bytes_sent := c_bytes_sent c1 + of_int sent, c_last_activity := clk 2,
                           c_rate := update_rate_limiter (clk 3) (clk 4) (nat sent) (c_rate c1)\<rparr>, sk')
               else (sent, c1, sk')) ?X = Some (r, c', sk')"
      using assms go k by (simp add: conn_send_def)
    then obtain r0 n as where s: "?X = Some (r0, n, as)" by (cases ?X) auto
    have e: "r = r0" "sk_wire sk' = sk_wire sk @ take n d"
        "c_rate c' = (if r > 0 then update_rate_limiter (clk 3) (clk 4) (nat r) rl else rl)"
      using sent unfolding s by (auto simp: Let_def split: if_splits)
    have n: "n \<le> length d" "r0 = int n \<or> r0 = -1"
      using s plain_send_result [of "sk_answers sk" 0 "length d"] ssl_send_result [of "sk_answers sk" 0 "length d"]
      by (auto split: if_splits)
    show ?thesis
      using tried [of n] go k snd e n by auto
  qed
qed

lemma conn_send_complete:
  assumes "conn_send clk c sk d = Some (int (length d), c', sk')"
  shows "sk_wire sk' = sk_wire sk @ d"
proof (cases rule: conn_send_cases [OF assms, case_names refused tried])
  case refused
  then show ?thesis by simp
next
  case (tried n)
  then have "n = length d" by auto
  then show ?thesis using tried by simp
qed

section \<open>The rate limiter keeps its limits\<close>

lemma check_reset_frame [simp]:
  "rl_messages_per_minute (check_rate_limit_reset t t' r) = rl_messages_per_minute r"
  "rl_bytes_per_minute (check_rate_limit_reset t t' r) = rl_bytes_per_minute r"
  by (simp_all add: check_rate_limit_reset_def reset_rate_limiter_def)

text \<open>What a passed check means in plain numbers.\<close>

lemma check_rate_limit_passed:
  assumes "fst (connection_check_rate_limit t t' n r)" "n < 2 ^ 63"
  shows "rl_messages_per_minute r > 0 \<Longrightarrow>
      unat (rl_message_count (check_rate_limit_reset t t' r)) < unat (rl_messages_per_minute r)"
    and "rl_bytes_per_minute r > 0 \<Longrightarrow>
      unat (rl_byte_count (check_rate_limit_reset t t' r)) + n \<le> unat (rl_bytes_per_minute r)"
proof -
  let ?r = "check_rate_limit_reset t t' r"
  have c: "\<not> (rl_messages_per_minute r > 0 \<and> rl_message_count ?r \<ge> rl_messages_per_minute r)"
    "\<not> (rl_bytes_per_minute r > 0 \<and> (ucast (rl_byte_count ?r) + of_nat n :: 64 word) > ucast (rl_bytes_per_minute r))"
    using assms(1) by (auto simp: connection_check_rate_limit_def Let_def split: if_splits)
  show "rl_messages_per_minute r > 0 \<Longrightarrow> unat (rl_message_count ?r) < unat (rl_messages_per_minute r)"
    using c(1) by (simp add: word_le_nat_alt word_less_nat_alt not_le)
  have "unat (of_nat n :: 64 word) = n" using assms(2) by (intro unat_of_nat_64) simp
  then have "unat (ucast (rl_byte_count ?r) + of_nat n :: 64 word) = unat (rl_byte_count ?r) + n"
    using assms(2) unat_lt_32 [of "rl_byte_count ?r"] by (subst unat_add_64) auto
  then show "rl_bytes_per_minute r > 0 \<Longrightarrow> unat (rl_byte_count ?r) + n \<le> unat (rl_bytes_per_minute r)"
    using c(2) by (simp add: word_less_nat_alt not_less)
qed

text \<open>Within one window: no reading of the clock is a minute or more after the last reset.\<close>

definition in_window :: "rate_limiter \<Rightarrow> (nat \<Rightarrow> 64 word) \<Rightarrow> bool" where
  "in_window r clk \<longleftrightarrow> (\<forall>i. clk i - rl_last_reset_time r < 60000)"

lemma no_reset_in_window: "in_window r clk \<Longrightarrow> check_rate_limit_reset (clk i) (clk j) r = r"
  by (simp add: in_window_def check_rate_limit_reset_def linorder_not_le [symmetric])

text \<open>The accounting of one send: what it delivers is counted, and stays below the limits.\<close>

definition delivered :: "int \<Rightarrow> nat" where
  "delivered r = (if r > 0 then nat r else 0)"

lemma conn_send_accounts:
  assumes "conn_send clk c sk d = Some (r, c', sk')" "in_window (c_rate c) clk" "length d < 2 ^ 63"
    and "rl_messages_per_minute (c_rate c) > 0" "rl_bytes_per_minute (c_rate c) > 0"
  shows "rl_last_reset_time (c_rate c') = rl_last_reset_time (c_rate c) \<and>
    rl_messages_per_minute (c_rate c') = rl_messages_per_minute (c_rate c) \<and>
    rl_bytes_per_minute (c_rate c') = rl_bytes_per_minute (c_rate c) \<and>
    unat (rl_byte_count (c_rate c')) = unat (rl_byte_count (c_rate c)) + delivered r \<and>
    unat (rl_message_count (c_rate c')) = unat (rl_message_count (c_rate c)) + (if r > 0 then 1 else 0) \<and>
    (r > 0 \<longrightarrow> unat (rl_byte_count (c_rate c')) \<le> unat (rl_bytes_per_minute (c_rate c)) \<and>
      unat (rl_message_count (c_rate c')) \<le> unat (rl_messages_per_minute (c_rate c)))"
proof (cases rule: conn_send_cases [OF assms(1), case_names refused tried])
  case refused
  then show ?thesis using no_reset_in_window [OF assms(2)] by (auto simp: delivered_def)
next
  case (tried n)
  let ?r = "c_rate c"
  note nr = no_reset_in_window [OF assms(2)]
  have lim: "unat (rl_message_count ?r) < unat (rl_messages_per_minute ?r)"
    "unat (rl_byte_count ?r) + length d \<le> unat (rl_bytes_per_minute ?r)"
    using check_rate_limit_passed [OF tried(1) assms(3)] assms(4,5) nr by auto
  show ?thesis
  proof (cases "r > 0")
    case False
    then show ?thesis using tried nr by (simp add: delivered_def)
  next
    case True
    then have n: "r = int n" "0 < n" using tried(4) by auto
    have e: "c_rate c' = ?r\<lparr>rl_message_count := rl_message_count ?r + 1,
        rl_byte_count := rl_byte_count ?r + of_nat n\<rparr>"
      using tried(6) True nr by (simp add: update_rate_limiter_def Let_def)
    have n32: "n < 2 ^ 32" "unat (rl_byte_count ?r) + n < 2 ^ 32"
      using lim(2) tried(3) unat_lt_32 [of "rl_bytes_per_minute ?r"] by linarith+
    have "unat (rl_byte_count ?r + of_nat n) = unat (rl_byte_count ?r) + n"
      using n32 by (subst unat_add_32) (simp_all add: unat_of_nat_32)
    moreover have "unat (rl_message_count ?r + 1) = unat (rl_message_count ?r) + 1"
      using lim(1) unat_lt_32 [of "rl_messages_per_minute ?r"] by (subst unat_add_32) simp_all
    ultimately show ?thesis using e n True lim tried(3) by (simp add: delivered_def)
  qed
qed

text \<open>A send that does not fail puts on the wire what it reports.\<close>

definition on_wire :: "sock \<Rightarrow> sock \<Rightarrow> nat" where
  "on_wire sk sk' = length (sk_wire sk') - length (sk_wire sk)"

lemma conn_send_wire:
  assumes "conn_send clk c sk d = Some (r, c', sk')" "r \<noteq> -1"
  shows "on_wire sk sk' = delivered r"
  by (cases rule: conn_send_cases [OF assms(1), case_names refused tried])
     (use assms(2) in \<open>auto simp: on_wire_def delivered_def\<close>)

text \<open>A client of the connection that sends one block after another; each call has its own clock and
  socket. For every call, what it returns and how many bytes it put on the wire.\<close>

fun send_run :: "client_connection \<Rightarrow> ((nat \<Rightarrow> 64 word) \<times> sock \<times> byte list) list \<Rightarrow> (int \<times> nat) list option" where
  "send_run c [] = Some []"
| "send_run c ((clk, sk, d) # xs) =
     Option.bind (conn_send clk c sk d) (\<lambda>(r, c', sk'). map_option ((#) (r, on_wire sk sk')) (send_run c' xs))"

definition wire_bytes :: "(int \<times> nat) list \<Rightarrow> nat" where
  "wire_bytes rs = sum_list (map snd (filter (\<lambda>(r, n). r \<noteq> -1) rs))"

lemma send_run_accounts:
  assumes "send_run c xs = Some rs" "\<forall>(clk, sk, d) \<in> set xs. in_window (c_rate c) clk \<and> length d < 2 ^ 63"
    and "rl_messages_per_minute (c_rate c) > 0" "rl_bytes_per_minute (c_rate c) > 0"
    and "unat (rl_byte_count (c_rate c)) \<le> unat (rl_bytes_per_minute (c_rate c))"
    and "unat (rl_message_count (c_rate c)) \<le> unat (rl_messages_per_minute (c_rate c))"
  shows "unat (rl_byte_count (c_rate c)) + wire_bytes rs \<le> unat (rl_bytes_per_minute (c_rate c)) \<and>
    unat (rl_message_count (c_rate c)) + length (filter (\<lambda>(r, n). r > 0) rs) \<le> unat (rl_messages_per_minute (c_rate c))"
  using assms
proof (induction xs arbitrary: c rs)
  case Nil
  then show ?case by (simp add: wire_bytes_def)
next
  case (Cons x xs)
  obtain clk sk d where x: "x = (clk, sk, d)" by (cases x)
  obtain r c' sk' rs' where s: "conn_send clk c sk d = Some (r, c', sk')" "send_run c' xs = Some rs'" "rs = (r, on_wire sk sk') # rs'"
    using Cons.prems(1) x by (auto simp: bind_eq_Some_conv)
  have w: "in_window (c_rate c) clk" "length d < 2 ^ 63" using Cons.prems(2) x by auto
  note acc = conn_send_accounts [OF s(1) w Cons.prems(3,4)]
  have "in_window (c_rate c') = in_window (c_rate c)" using acc by (simp add: in_window_def fun_eq_iff)
  then have "\<forall>(clk, sk, d) \<in> set xs. in_window (c_rate c') clk \<and> length d < 2 ^ 63" using Cons.prems(2) by auto
  from Cons.IH [OF s(2) this] have "unat (rl_byte_count (c_rate c')) + wire_bytes rs' \<le> unat (rl_bytes_per_minute (c_rate c)) \<and>
    unat (rl_message_count (c_rate c')) + length (filter (\<lambda>(r, n). r > 0) rs') \<le> unat (rl_messages_per_minute (c_rate c))"
    using acc Cons.prems(3-6) by (cases "r > 0") (auto simp: delivered_def [of r])
  moreover have "wire_bytes rs \<le> delivered r + wire_bytes rs'"
    using s(3) conn_send_wire [OF s(1)] by (simp add: wire_bytes_def)
  ultimately show ?case using acc s(3) by auto
qed

section \<open>Framing\<close>

lemma header_codecD:
  assumes "header_codec ser deser" "length (h_reserved h) = 16"
  shows "length (ser h) = sizeof_header" "deser (ser h @ rest) = Some h"
  using assms by (auto simp: header_codec_def)

lemma make_header_reserved [simp]: "length (h_reserved (make_header chk t i m d)) = 16"
  by (simp add: make_header_def)

lemma conn_send_message_wire:
  assumes "header_codec ser deser" "conn_send_message ser chk clk c sk t d = Some (0, c', sk')"
  shows "length d \<le> MAX_MESSAGE_SIZE"
    and "sk_wire sk' = sk_wire sk @ ser (make_header chk (clk 0) (c_messages_sent c + 1) t d) @ d"
proof -
  let ?h = "make_header chk (clk 0) (c_messages_sent c + 1) t d"
  show len: "length d \<le> MAX_MESSAGE_SIZE"
    using assms(2) by (auto simp: conn_send_message_def split: if_splits)
  have lh: "length (ser ?h) = sizeof_header" using header_codecD(1) [OF assms(1)] by simp
  from assms(2) len obtain sent c2 sk2 where s1:
    "conn_send (\<lambda>i. clk (1 + i)) (c\<lparr>c_messages_sent := c_messages_sent c + 1\<rparr>) sk (ser ?h) = Some (sent, c2, sk2)"
    and rest: "(if sent \<noteq> int sizeof_header then Some (-3 :: int, c2, sk2)
             else if length d > 0 then
               Option.bind (conn_send (\<lambda>i. clk (6 + i)) c2 sk2 d) (\<lambda>(sent', c3, sk3).
                 if sent' \<noteq> int (length d) then Some (-4, c3, sk3) else Some (0, c3, sk3))
             else Some (0, c2, sk2)) = Some (0, c', sk')"
    by (auto simp: conn_send_message_def Let_def bind_eq_Some_conv)
  then have sent: "sent = int sizeof_header" by (auto split: if_splits)
  have w1: "sk_wire sk2 = sk_wire sk @ ser ?h"
    using s1 conn_send_complete [of _ _ _ "ser ?h"] lh sent by auto
  show "sk_wire sk' = sk_wire sk @ ser ?h @ d"
  proof (cases "d = []")
    case True
    then show ?thesis using rest sent w1 by simp
  next
    case False
    then obtain sent' c3 sk3 where "conn_send (\<lambda>i. clk (6 + i)) c2 sk2 d = Some (sent', c3, sk3)"
      "sent' = int (length d)" "sk' = sk3"
      using rest sent by (auto simp: bind_eq_Some_conv split: if_splits)
    then show ?thesis using conn_send_complete [of _ c2 sk2 d] w1 by auto
  qed
qed

text \<open>A valid message on the wire.\<close>

definition enc :: "(message_header \<Rightarrow> byte list) \<Rightarrow> message_header \<times> byte list \<Rightarrow> byte list" where
  "enc ser = (\<lambda>(h, b). ser h @ b)"

definition plain_message :: "message_header \<times> byte list \<Rightarrow> bool" where
  "plain_message = (\<lambda>(h, b). length (h_reserved h) = 16 \<and> unat (h_body_length h) = length b)"

text \<open>The socket lets every answer to a heartbeat come to an end if it gives enough answers that take a byte or end
  the loop. An answer to a heartbeat is a header and eight bytes.\<close>

fun makes_progress :: "send_result \<Rightarrow> bool" where
  "makes_progress (Sent n) = (n > 0)"
| "makes_progress Would_Block = False"
| "makes_progress Peer_Closed = True"
| "makes_progress Send_Failed = True"

definition answer_budget :: "sock \<Rightarrow> nat" where
  "answer_budget sk = length (filter makes_progress (sk_answers sk))"

definition heartbeats :: "(message_header \<times> byte list) list \<Rightarrow> nat" where
  "heartbeats ms = length (filter (\<lambda>(h, b). h_type h = MSG_SYSTEM_HEARTBEAT) ms)"

lemma plain_send_ends:
  "len - tot \<le> length (filter makes_progress as) \<Longrightarrow> \<exists>r n as'. plain_send as tot len = Some (r, n, as') \<and>
     length (filter makes_progress as) \<le> length (filter makes_progress as') + (len - tot)"
proof (induction as tot len rule: plain_send.induct)
  case (2 a as tot len)
  show ?case
  proof (cases a)
    case (Sent n)
    show ?thesis
    proof (cases "tot < len")
      case True
      have "len - (tot + min n (len - tot)) \<le> length (filter makes_progress as)"
        using "2.prems" Sent True by (cases "n = 0") auto
      from "2.IH"(1) [OF True Sent this] show ?thesis using Sent True by (cases "n = 0") fastforce+
    qed simp
  next
    case Would_Block
    then show ?thesis using 2 by auto
  qed (use 2 in auto)
qed auto

lemma ssl_send_ends:
  "len - tot \<le> length (filter makes_progress as) \<Longrightarrow> \<exists>r n as'. ssl_send as tot len = Some (r, n, as') \<and>
     length (filter makes_progress as) \<le> length (filter makes_progress as') + (len - tot)"
proof (induction as tot len rule: ssl_send.induct)
  case (2 a as tot len)
  show ?case
  proof (cases a)
    case (Sent n)
    show ?thesis
    proof (cases "tot < len \<and> n \<noteq> 0")
      case True
      have "len - (tot + min n (len - tot)) \<le> length (filter makes_progress as)"
        using "2.prems" Sent True by auto
      from "2.IH"(1) [OF conjunct1 [OF True] Sent conjunct2 [OF True] this] show ?thesis using Sent True by fastforce
    qed (use Sent 2 in auto)
  next
    case Would_Block
    then show ?thesis using 2 by auto
  qed (use 2 in auto)
qed auto

lemma conn_send_ends:
  assumes "length d \<le> answer_budget sk"
  shows "\<exists>r c' sk'. conn_send clk c sk d = Some (r, c', sk') \<and> answer_budget sk \<le> answer_budget sk' + length d \<and>
    c_recv_size c' = c_recv_size c"
proof -
  obtain r n as where s: "(if c_ssl c then ssl_send else plain_send) (sk_answers sk) 0 (length d) = Some (r, n, as)"
      "answer_budget sk \<le> length (filter makes_progress as) + length d"
    using plain_send_ends [of "length d" 0 "sk_answers sk"] ssl_send_ends [of "length d" 0 "sk_answers sk"] assms
    by (cases "c_ssl c") (auto simp: answer_budget_def)
  obtain ok rl where k: "connection_check_rate_limit (clk 0) (clk 1) (length d) (c_rate c) = (ok, rl)" by fastforce
  show ?thesis
  proof (cases "c_fd c = -1 \<or> length d = 0 \<or> \<not> ok")
    case True
    then show ?thesis using k by (auto simp: conn_send_def)
  next
    case False
    then show ?thesis using k s by (simp add: conn_send_def Let_def answer_budget_def)
  qed
qed

lemma conn_send_message_ends:
  assumes "header_codec ser deser" "sizeof_header + length d \<le> answer_budget sk"
  shows "\<exists>r c' sk'. conn_send_message ser chk clk c sk t d = Some (r, c', sk') \<and>
    answer_budget sk \<le> answer_budget sk' + sizeof_header + length d \<and> c_recv_size c' = c_recv_size c"
proof -
  let ?c1 = "c\<lparr>c_messages_sent := c_messages_sent c + 1\<rparr>"
  let ?h = "make_header chk (clk 0) (c_messages_sent ?c1) t d"
  have lh: "length (ser ?h) = sizeof_header" using header_codecD(1) [OF assms(1)] by simp
  obtain r1 c2 sk2 where s1: "conn_send (\<lambda>i. clk (1 + i)) ?c1 sk (ser ?h) = Some (r1, c2, sk2)"
      "answer_budget sk \<le> answer_budget sk2 + sizeof_header" "c_recv_size c2 = c_recv_size c"
    using conn_send_ends [of "ser ?h" sk "\<lambda>i. clk (1 + i)" ?c1] assms(2) lh by auto
  obtain r2 c3 sk3 where s2: "conn_send (\<lambda>i. clk (6 + i)) c2 sk2 d = Some (r2, c3, sk3)"
      "answer_budget sk2 \<le> answer_budget sk3 + length d" "c_recv_size c3 = c_recv_size c2"
    using conn_send_ends [of d sk2 "\<lambda>i. clk (6 + i)" c2] s1(2) assms(2) by auto
  show ?thesis using s1 s2 by (auto simp: conn_send_message_def Let_def)
qed

lemma process_message_ends:
  assumes "header_codec ser deser" "72 * heartbeats ((h, b) # ms) \<le> answer_budget sk"
  shows "\<exists>c' sk'. process_complete_message ser chk clk c sk h buf = Some (True, c', sk') \<and>
    72 * heartbeats ms \<le> answer_budget sk' \<and> c_recv_size c' = c_recv_size c"
proof (cases "h_type h = MSG_SYSTEM_HEARTBEAT \<and> h_body_length h = 8")
  case True
  let ?d = "take 8 (drop sizeof_header buf)" and ?c = "c\<lparr>c_last_heartbeat := clk 0\<rparr>"
  have l: "sizeof_header + length ?d \<le> 72" by (simp add: sizeof_header_def)
  have b: "72 + 72 * heartbeats ms \<le> answer_budget sk" using assms(2) True by (simp add: heartbeats_def)
  obtain r c' sk' where "conn_send_message ser chk (\<lambda>i. clk (1 + i)) ?c sk MSG_SYSTEM_HEARTBEAT ?d = Some (r, c', sk')"
      "answer_budget sk \<le> answer_budget sk' + sizeof_header + length ?d" "c_recv_size c' = c_recv_size ?c"
    using conn_send_message_ends [OF assms(1), of ?d sk chk "\<lambda>i. clk (1 + i)" ?c MSG_SYSTEM_HEARTBEAT] l b by auto
  then show ?thesis using True l b by (simp add: process_complete_message_def handle_heartbeat_def)
next
  case False
  have "72 * heartbeats ms \<le> answer_budget sk" using assms(2) by (simp add: heartbeats_def split: if_splits)
  then show ?thesis using False by (auto simp: process_complete_message_def)
qed

text \<open>The loop consumes the complete messages of the buffer and keeps the beginning of the next one.\<close>

lemma process_loop_messages:
  assumes codec: "header_codec ser deser" and "\<forall>m \<in> set ms. plain_message m"
    and "buf @ future = concat (map (enc ser) ms)" and "72 * heartbeats ms \<le> answer_budget sk"
  shows "\<exists>n rest c' sk'. process_loop ser deser chk clk k c sk buf = Some (n, rest, c', sk') \<and> n \<le> length ms \<and>
    rest @ future = concat (map (enc ser) (drop n ms)) \<and>
    (n < length ms \<longrightarrow> length rest < length (enc ser (ms ! n))) \<and>
    72 * heartbeats (drop n ms) \<le> answer_budget sk' \<and> c_recv_size c' = c_recv_size c"
  using assms(2-)
proof (induction ms arbitrary: buf k c sk)
  case Nil
  then show ?case by (simp add: process_loop.simps sizeof_header_def)
next
  case (Cons m ms)
  obtain h b where m: "m = (h, b)" by (cases m)
  have h: "length (h_reserved h) = 16" "unat (h_body_length h) = length b"
    using Cons.prems(1) m by (auto simp: plain_message_def)
  note ch = header_codecD [OF codec h(1)]
  let ?R = "concat (map (enc ser) ms)"
  have all: "buf @ future = ser h @ b @ ?R" using Cons.prems(2) m by (simp add: enc_def)
  consider (short) "length buf < sizeof_header" | (part) "sizeof_header \<le> length buf" "length buf < sizeof_header + length b"
    | (full) "sizeof_header + length b \<le> length buf" by linarith
  then show ?case
  proof cases
    case short
    have "length (enc ser m) \<ge> sizeof_header" using m ch(1) by (simp add: enc_def)
    with short Cons.prems(2,3) show ?thesis
      by (intro exI [of _ 0] exI [of _ buf] exI [of _ c] exI [of _ sk]) (simp add: process_loop.simps [of ser deser chk clk k c sk buf])
  next
    case part
    then obtain x where "buf = ser h @ x" using all ch(1)
      by (metis (no_types, lifting) append_eq_append_conv_if append_take_drop_id)
    then have "deser buf = Some h" using ch(2) by simp
    with part h Cons.prems(2,3) m ch(1) show ?thesis
      by (intro exI [of _ 0] exI [of _ buf] exI [of _ c] exI [of _ sk])
         (simp add: process_loop.simps [of ser deser chk clk k c sk buf] Let_def enc_def)
  next
    case full
    have "\<exists>y. buf = ser h @ b @ y"
    proof -
      have "take (sizeof_header + length b) buf = ser h @ b"
        using arg_cong [OF all, of "take (sizeof_header + length b)"] full ch(1) by simp
      then show ?thesis by (metis append.assoc append_take_drop_id)
    qed
    then obtain y where y: "buf = ser h @ b @ y" by blast
    then have d: "deser buf = Some h" "drop (sizeof_header + length b) buf = y" "y @ future = ?R"
      using ch all by auto
    obtain c1 sk1 where p: "process_complete_message ser chk (clk k) c sk h buf = Some (True, c1, sk1)"
        "72 * heartbeats ms \<le> answer_budget sk1" "c_recv_size c1 = c_recv_size c"
      using process_message_ends [OF codec, of h b ms sk chk "clk k" c buf] Cons.prems(3) m by blast
    have "\<forall>m \<in> set ms. plain_message m" using Cons.prems(1) by simp
    from Cons.IH [OF this d(3) p(2), of "Suc k" c1] obtain n rest c' sk' where IH:
      "process_loop ser deser chk clk (Suc k) c1 sk1 y = Some (n, rest, c', sk')" "n \<le> length ms"
      "rest @ future = concat (map (enc ser) (drop n ms))" "n < length ms \<longrightarrow> length rest < length (enc ser (ms ! n))"
      "72 * heartbeats (drop n ms) \<le> answer_budget sk'" "c_recv_size c' = c_recv_size c1"
      by blast
    have "process_loop ser deser chk clk k c sk buf = Some (Suc n, rest, c', sk')"
      using full h d p(1) IH(1)
      by (simp add: process_loop.simps [of ser deser chk clk k c sk buf] Let_def)
    then show ?thesis using IH(2-6) p(3) by (intro exI [of _ "Suc n"] exI [of _ rest] exI [of _ c'] exI [of _ sk']) simp
  qed
qed

text \<open>A peer that delivers the stream in pieces; every call has its own clock.\<close>

fun feed :: "(message_header \<Rightarrow> byte list) \<Rightarrow> (byte list \<Rightarrow> message_header option) \<Rightarrow> (byte list \<Rightarrow> 32 word) \<Rightarrow>
    client_connection \<Rightarrow> sock \<Rightarrow> ((nat \<Rightarrow> nat \<Rightarrow> 64 word) \<times> byte list) list \<Rightarrow> (int list \<times> client_connection) option" where
  "feed ser deser chk c sk [] = Some ([], c)"
| "feed ser deser chk c sk ((clk, piece) # ps) =
     Option.bind (conn_process_data ser deser chk clk True c sk piece) (\<lambda>(n, c', sk').
       map_option (\<lambda>(ns, c''). (n # ns, c'')) (feed ser deser chk c' sk' ps))"

lemma conn_process_data_messages:
  assumes "header_codec ser deser" "\<forall>m \<in> set ms. plain_message m" "piece \<noteq> []"
    and "(c_recv_data c @ piece) @ future = concat (map (enc ser) ms)"
    and "length (c_recv_data c) \<le> c_recv_size c" "72 * heartbeats ms \<le> answer_budget sk"
  shows "\<exists>n c' sk'. conn_process_data ser deser chk clk True c sk piece = Some (int n, c', sk') \<and> n \<le> length ms \<and>
    c_recv_data c' @ future = concat (map (enc ser) (drop n ms)) \<and>
    length (c_recv_data c') \<le> c_recv_size c' \<and> 72 * heartbeats (drop n ms) \<le> answer_budget sk' \<and>
    (n < length ms \<longrightarrow> length (c_recv_data c') < length (enc ser (ms ! n)))"
proof -
  let ?need = "length (c_recv_data c) + length piece"
  define c1 where "c1 = (if ?need > c_recv_size c then c\<lparr>c_recv_size := ?need * 2\<rparr> else c)"
  have c1: "(if ?need > c_recv_size c then resize_recv_buffer True c (?need * 2) else Some c) = Some c1"
    "?need \<le> c_recv_size c1" "c_recv_data c1 = c_recv_data c"
    by (auto simp: c1_def resize_recv_buffer_def)
  obtain n rest c2 sk2 where r: "process_loop ser deser chk clk 0 c1 sk (c_recv_data c1 @ piece) = Some (n, rest, c2, sk2)"
    "n \<le> length ms" "rest @ future = concat (map (enc ser) (drop n ms))"
    "n < length ms \<longrightarrow> length rest < length (enc ser (ms ! n))"
    "72 * heartbeats (drop n ms) \<le> answer_budget sk2" "c_recv_size c2 = c_recv_size c1"
    using process_loop_messages [OF assms(1,2) _ assms(6), of "c_recv_data c1 @ piece" future chk clk 0 c1] assms(4) c1(3) by auto
  have "length rest \<le> ?need"
  proof -
    have "concat (map (enc ser) ms) = concat (map (enc ser) (take n ms)) @ concat (map (enc ser) (drop n ms))"
      by (metis append_take_drop_id concat_append map_append)
    then have "length (concat (map (enc ser) (drop n ms))) \<le> length (concat (map (enc ser) ms))" by simp
    then show ?thesis using arg_cong [OF r(3), of length] arg_cong [OF assms(4), of length] by simp
  qed
  then show ?thesis using r c1 assms(3)
    by (intro exI [of _ n] exI [of _ "c2\<lparr>c_recv_data := rest\<rparr>"] exI [of _ sk2]) (simp add: conn_process_data_def Let_def)
qed

lemma feed_messages:
  assumes "header_codec ser deser" "\<forall>m \<in> set ms. plain_message m" "\<forall>(clk, p) \<in> set ps. p \<noteq> []"
    and "c_recv_data c @ concat (map snd ps) = concat (map (enc ser) ms)"
    and "length (c_recv_data c) \<le> c_recv_size c" "72 * heartbeats ms \<le> answer_budget sk"
    and "ps = [] \<longrightarrow> ms = []"
  shows "\<exists>ns c'. feed ser deser chk c sk ps = Some (map int ns, c') \<and> sum_list ns = length ms \<and> c_recv_data c' = []"
  using assms(2-)
proof (induction ps arbitrary: c sk ms)
  case Nil
  then show ?case by simp
next
  case (Cons p ps)
  obtain clk piece where p: "p = (clk, piece)" by (cases p)
  have "(c_recv_data c @ piece) @ concat (map snd ps) = concat (map (enc ser) ms)" "piece \<noteq> []"
    using Cons.prems p by auto
  then obtain n c' sk' where s: "conn_process_data ser deser chk clk True c sk piece = Some (int n, c', sk')" "n \<le> length ms"
    "c_recv_data c' @ concat (map snd ps) = concat (map (enc ser) (drop n ms))"
    "length (c_recv_data c') \<le> c_recv_size c'"
    "n < length ms \<longrightarrow> length (c_recv_data c') < length (enc ser (ms ! n))" "72 * heartbeats (drop n ms) \<le> answer_budget sk'"
    using conn_process_data_messages [OF assms(1) Cons.prems(1), of piece c "concat (map snd ps)" sk chk clk] Cons.prems(4,5)
    by blast
  have last: "ps = [] \<longrightarrow> drop n ms = []"
  proof (intro impI, rule ccontr)
    assume e: "ps = []" "drop n ms \<noteq> []"
    then have "n < length ms" by simp
    then have "c_recv_data c' = enc ser (ms ! n) @ concat (map (enc ser) (drop (Suc n) ms))"
      using s(3) e(1) Cons_nth_drop_Suc [of n ms, symmetric] by simp
    with s(5) \<open>n < length ms\<close> show False by simp
  qed
  have "\<forall>m \<in> set (drop n ms). plain_message m" "\<forall>(clk, p) \<in> set ps. p \<noteq> []"
    using Cons.prems(1,2) by (auto dest: in_set_dropD)
  from Cons.IH [OF this s(3,4,6) last] obtain ns c'' where
    "feed ser deser chk c' sk' ps = Some (map int ns, c'')" "sum_list ns = length (drop n ms)" "c_recv_data c'' = []" by blast
  then show ?case using s(1,2) p by (intro exI [of _ "n # ns"] exI [of _ c'']) simp
qed

section \<open>The packed structure as a wire format\<close>

text \<open>The little-endian image of the packed structure satisfies \<open>header_codec\<close>; it instantiates the
  results below.\<close>

fun nat_bytes :: "nat \<Rightarrow> nat \<Rightarrow> byte list" where
  "nat_bytes 0 n = []"
| "nat_bytes (Suc k) n = of_nat (n mod 256) # nat_bytes k (n div 256)"

fun bytes_nat :: "byte list \<Rightarrow> nat" where
  "bytes_nat [] = 0"
| "bytes_nat (b # bs) = unat b + 256 * bytes_nat bs"

lemma length_nat_bytes [simp]: "length (nat_bytes k n) = k"
  by (induction k arbitrary: n) auto

lemma bytes_nat_nat_bytes: "n < 256 ^ k \<Longrightarrow> bytes_nat (nat_bytes k n) = n"
proof (induction k arbitrary: n)
  case 0
  then show ?case by simp
next
  case (Suc k)
  have "n div 256 < 256 ^ k" using Suc.prems by (simp add: less_mult_imp_div_less mult.commute)
  moreover have "unat (of_nat (n mod 256) :: byte) = n mod 256"
    by (simp add: unat_of_nat take_bit_nat_eq_self)
  ultimately show ?case using Suc.IH [of "n div 256"] by simp
qed

definition le32 :: "32 word \<Rightarrow> byte list" where "le32 w = nat_bytes 4 (unat w)"
definition le64 :: "64 word \<Rightarrow> byte list" where "le64 w = nat_bytes 8 (unat w)"

lemma of_nat_le32 [simp]: "of_nat (bytes_nat (le32 w)) = w"
  using unat_lt_32 [of w] by (simp add: le32_def bytes_nat_nat_bytes)

lemma of_nat_le64 [simp]: "of_nat (bytes_nat (le64 w)) = w"
  using unsigned_less [of w, where 'a = nat] by (simp add: le64_def bytes_nat_nat_bytes)

lemma length_le [simp]: "length (le32 a) = 4" "length (le64 b) = 8"
  by (simp_all add: le32_def le64_def)

definition packed_ser :: "message_header \<Rightarrow> byte list" where
  "packed_ser h = le32 (h_magic h) @ le32 (h_version h) @ le32 (h_type h) @ le32 (h_flags h) @
     le64 (h_timestamp h) @ le64 (h_message_id h) @ le64 (h_correlation_id h) @
     le32 (h_body_length h) @ le32 (h_checksum h) @ h_reserved h"

definition field :: "nat \<Rightarrow> nat \<Rightarrow> byte list \<Rightarrow> nat" where
  "field off n buf = bytes_nat (take n (drop off buf))"

definition packed_deser :: "byte list \<Rightarrow> message_header option" where
  "packed_deser buf =
     (if length buf < sizeof_header then None
      else Some \<lparr>h_magic = of_nat (field 0 4 buf), h_version = of_nat (field 4 4 buf),
        h_type = of_nat (field 8 4 buf), h_flags = of_nat (field 12 4 buf),
        h_timestamp = of_nat (field 16 8 buf), h_message_id = of_nat (field 24 8 buf),
        h_correlation_id = of_nat (field 32 8 buf), h_body_length = of_nat (field 40 4 buf),
        h_checksum = of_nat (field 44 4 buf), h_reserved = take 16 (drop 48 buf)\<rparr>)"

lemma packed_codec: "header_codec packed_ser packed_deser"
  by (simp add: header_codec_def packed_ser_def packed_deser_def sizeof_header_def field_def)

section \<open>Properties\<close>

text \<open>
  (C6) A message that \<open>connection_send_message\<close> reports as sent arrives unchanged: a connection
  whose receive buffer holds the bytes it put on the wire, followed by anything, delivers through
  \<open>connection_receive_message\<close> the same type and body, passes the checksum test, and keeps
  exactly what followed. This relies on the header codec being one.
\<close>

theorem message_roundtrip:
  assumes "header_codec ser deser"
    and "conn_send_message ser chk clk c sk t d = Some (0, c', sk')"
    and "c_recv_data rc = drop (length (sk_wire sk)) (sk_wire sk') @ rest"
  shows "\<exists>rc'. conn_receive_message deser chk True rc = (1, rc', Some (t, d)) \<and> c_recv_data rc' = rest"
proof -
  let ?h = "make_header chk (clk 0) (c_messages_sent c + 1) t d"
  note w = conn_send_message_wire [OF assms(1,2)]
  have buf: "c_recv_data rc = ser ?h @ d @ rest" using assms(3) w(2) by simp
  note h = header_codecD [OF assms(1) make_header_reserved, of chk "clk 0" "c_messages_sent c + 1" t d]
  have n: "unat (h_body_length ?h) = length d"
    using w(1) by (simp add: make_header_def unat_of_nat_32)
  have f: "h_magic ?h = PROTOCOL_MAGIC" "h_type ?h = t" "d \<noteq> [] \<longrightarrow> h_checksum ?h = chk d"
    by (auto simp: make_header_def)
  show ?thesis using h n f by (cases "d = []") (auto simp: conn_receive_message_def Let_def buf)
qed

definition demo_conn :: client_connection where
  "demo_conn = \<lparr>c_id = 1, c_fd = 5, c_ip = 0x7F000001, c_port = 4000, c_state = Conn_New, c_ssl = False,
     c_encryption = False, c_user_id = 0, c_username = [], c_nickname = [], c_connected_at = 0,
     c_last_activity = 0, c_last_heartbeat = 0, c_recv_size = 65536, c_recv_data = [], c_send_size = 65536,
     c_bytes_sent = 0, c_bytes_received = 0, c_messages_sent = 0, c_messages_received = 0,
     c_rate = connection_init_rate_limiter 0 60 1048576\<rparr>"

definition demo_sock :: sock where
  "demo_sock = \<lparr>sk_answers = [Sent 30, Would_Block, Sent 34, Sent 2], sk_wire = []\<rparr>"

lemma message_roundtrip_witness:
  "\<exists>c' sk' rc'. conn_send_message packed_ser (\<lambda>_. 7) (\<lambda>_. 10) demo_conn demo_sock 0x02000001 [1, 2] = Some (0, c', sk') \<and>
     conn_receive_message packed_deser (\<lambda>_. 7) True (demo_conn\<lparr>c_recv_data := sk_wire sk' @ [9]\<rparr>) =
       (1, rc', Some (0x02000001, [1, 2])) \<and> c_recv_data rc' = [9]"
proof -
  have "\<exists>c' sk'. conn_send_message packed_ser (\<lambda>_. 7) (\<lambda>_. 10) demo_conn demo_sock 0x02000001 [1, 2] = Some (0, c', sk')"
    using header_codecD(1) [OF packed_codec make_header_reserved, of "\<lambda>_. 7" 10 1 "0x02000001" "[1, 2]"]
    by (auto simp: word_le_nat_alt conn_send_message_def conn_send_def demo_conn_def demo_sock_def connection_init_rate_limiter_def
        connection_check_rate_limit_def check_rate_limit_reset_def update_rate_limiter_def sizeof_header_def Let_def)
  then obtain c' sk' where s: "conn_send_message packed_ser (\<lambda>_. 7) (\<lambda>_. 10) demo_conn demo_sock 0x02000001 [1, 2] = Some (0, c', sk')"
    by blast
  have "c_recv_data (demo_conn\<lparr>c_recv_data := sk_wire sk' @ [9]\<rparr>) = drop (length (sk_wire demo_sock)) (sk_wire sk') @ [9]"
    by (simp add: demo_sock_def)
  from message_roundtrip [OF packed_codec s this] s show ?thesis by blast
qed

text \<open>
  (C7) Framing does not depend on how the stream is cut: when a stream of messages, heartbeats among them, is handed
  to \<open>connection_process_data\<close> in any non-empty pieces, beginning with an empty buffer, every call returns, the
  calls together process each message exactly once, and the buffer ends empty. The buffer never overflows its
  allocation. This is under the conditions that the header codec is one, that every reallocation of the buffer
  succeeds, and that the socket lets the answers to the heartbeats come to an end: for each heartbeat it gives at
  least 72 answers that take a byte or end the sending loop.
\<close>

theorem framing_independent_of_chunks:
  assumes "header_codec ser deser" "\<forall>m \<in> set ms. plain_message m" "\<forall>(clk, p) \<in> set ps. p \<noteq> []"
    and "concat (map snd ps) = concat (map (enc ser) ms)" "c_recv_data c = []" "72 * heartbeats ms \<le> answer_budget sk"
  shows "\<exists>ns c'. feed ser deser chk c sk ps = Some (map int ns, c') \<and> sum_list ns = length ms \<and> c_recv_data c' = []"
proof -
  have "ms = []" if "ps = []"
  proof (rule ccontr)
    assume "ms \<noteq> []"
    then obtain m ms' where m: "ms = m # ms'" by (cases ms) auto
    then have "enc ser m = []" using assms(4) that by simp
    moreover have "length (h_reserved (fst m)) = 16" using assms(2) m by (auto simp: plain_message_def)
    ultimately show False using header_codecD(1) [OF assms(1), of "fst m"]
      by (auto simp: enc_def sizeof_header_def split: prod.splits)
  qed
  then show ?thesis using feed_messages [OF assms(1-3), of c sk chk] assms(4-6) by simp
qed

definition demo_message :: "message_header \<times> byte list" where
  "demo_message = (make_header (\<lambda>_. 7) 10 1 0x02000001 [1, 2], [1, 2])"

definition demo_heartbeat :: "message_header \<times> byte list" where
  "demo_heartbeat = (make_header (\<lambda>_. 7) 10 2 MSG_SYSTEM_HEARTBEAT (replicate 8 1), replicate 8 1)"

definition demo_stream :: "byte list" where
  "demo_stream = concat (map (enc packed_ser) [demo_message, demo_heartbeat])"

lemma demo_stream: "length demo_stream = 138" "\<forall>m \<in> set [demo_message, demo_heartbeat]. plain_message m"
    "heartbeats [demo_message, demo_heartbeat] = 1"
  using header_codecD(1) [OF packed_codec make_header_reserved, of "\<lambda>_. 7" 10 1 "0x02000001" "[1, 2]"]
    header_codecD(1) [OF packed_codec make_header_reserved, of "\<lambda>_. 7" 10 2 MSG_SYSTEM_HEARTBEAT "replicate 8 1"]
  by (simp_all add: demo_stream_def demo_message_def demo_heartbeat_def enc_def sizeof_header_def plain_message_def heartbeats_def)
     (simp_all add: make_header_def)

lemma framing_independent_of_chunks_witness:
  "\<exists>ns c'. feed packed_ser packed_deser (\<lambda>_. 7) demo_conn \<lparr>sk_answers = replicate 72 (Sent 9), sk_wire = []\<rparr>
       [(\<lambda>_ _. 0, take 65 demo_stream), (\<lambda>_ _. 0, drop 65 demo_stream)] = Some (map int ns, c') \<and>
     sum_list ns = length [demo_message, demo_heartbeat] \<and> c_recv_data c' = []"
proof (rule framing_independent_of_chunks [OF packed_codec demo_stream(2)])
  show "\<forall>(clk, p) \<in> set [(\<lambda>_ _. 0, take 65 demo_stream), (\<lambda>_ _. 0, drop 65 demo_stream)]. p \<noteq> []"
    using demo_stream(1) by auto
  show "concat (map snd [(\<lambda>_ _. 0, take 65 demo_stream), (\<lambda>_ _. 0, drop 65 demo_stream)]) =
      concat (map (enc packed_ser) [demo_message, demo_heartbeat])"
    unfolding demo_stream_def [symmetric] by simp
  show "72 * heartbeats [demo_message, demo_heartbeat] \<le> answer_budget \<lparr>sk_answers = replicate 72 (Sent 9), sk_wire = []\<rparr>"
    using demo_stream(3) by (simp add: answer_budget_def)
qed (simp add: demo_conn_def)

text \<open>
  (C8) The rate limiter holds its limits for the sends that do not fail: within one window (no clock reading a
  minute or more after the last reset), with both limits above zero, whatever is sent and however the socket
  answers, the calls of \<open>connection_send\<close> that report a positive count number at most
  \<open>messages_per_minute\<close>, and the calls that do not return \<open>-1\<close> put at most \<open>bytes_per_minute\<close> bytes on the
  wire together; the 32-bit counters do not wrap. A call that returns \<open>-1\<close> is not charged, even when a part of
  its data went out before the error.
\<close>

theorem rate_limiter_window:
  assumes "c_rate c = connection_init_rate_limiter now mpm bpm" "mpm > 0" "bpm > 0"
    and "\<forall>(clk, sk, d) \<in> set xs. in_window (c_rate c) clk \<and> length d < 2 ^ 63"
    and "send_run c xs = Some rs"
  shows "sum_list (map snd (filter (\<lambda>(r, n). r \<noteq> -1) rs)) \<le> unat bpm \<and>
    length (filter (\<lambda>(r, n). r > 0) rs) \<le> unat mpm"
  using send_run_accounts [OF assms(5,4)] assms(1-3) by (simp add: connection_init_rate_limiter_def wire_bytes_def)

lemma rate_limiter_window_witness:
  "\<exists>rs. send_run (demo_conn\<lparr>c_rate := connection_init_rate_limiter 0 1 100\<rparr>)
       [(\<lambda>_. 1, \<lparr>sk_answers = [Sent 3], sk_wire = []\<rparr>, [1, 2, 3]),
        (\<lambda>_. 2, \<lparr>sk_answers = [Sent 1], sk_wire = []\<rparr>, [4])] = Some rs \<and>
     rs = [(3, 3), (-2, 0)] \<and> sum_list (map snd (filter (\<lambda>(r, n). r \<noteq> -1) rs)) \<le> 100 \<and>
     length (filter (\<lambda>(r, n). r > 0) rs) \<le> 1"
proof -
  let ?c = "demo_conn\<lparr>c_rate := connection_init_rate_limiter 0 1 100\<rparr>"
  let ?xs = "[(\<lambda>_. 1, \<lparr>sk_answers = [Sent 3], sk_wire = []\<rparr>, [1, 2, 3]),
        (\<lambda>_. 2, \<lparr>sk_answers = [Sent 1], sk_wire = []\<rparr>, [4])]"
  have r: "send_run ?c ?xs = Some [(3, 3), (-2, 0)]"
    by (simp add: conn_send_def demo_conn_def connection_init_rate_limiter_def connection_check_rate_limit_def
        check_rate_limit_reset_def update_rate_limiter_def Let_def word_le_nat_alt word_less_nat_alt on_wire_def)
  have w: "\<forall>(clk, sk, d) \<in> set ?xs. in_window (c_rate ?c) clk \<and> length d < 2 ^ 63"
    by (auto simp: in_window_def connection_init_rate_limiter_def)
  show ?thesis using rate_limiter_window [of ?c 0 1 100, OF _ _ _ w r] r by simp
qed

text \<open>A send that is cut short by an error is not charged: any number of bytes below the length may have left, the
  call returns \<open>-1\<close> and the counters of the limiter stay as they are.\<close>

theorem failed_send_uncharged:
  assumes "in_window (c_rate c) clk" "c_fd c \<noteq> -1" "\<not> c_ssl c" "n < length d" "0 < n" "sk_answers sk = [Sent n, Send_Failed]"
    and "fst (connection_check_rate_limit (clk 0) (clk 1) (length d) (c_rate c))"
  shows "\<exists>c' sk'. conn_send clk c sk d = Some (-1, c', sk') \<and> sk_wire sk' = sk_wire sk @ take n d \<and> c_rate c' = c_rate c"
proof -
  have "connection_check_rate_limit (clk 0) (clk 1) (length d) (c_rate c) = (True, c_rate c)"
    using assms(7) no_reset_in_window [OF assms(1)] by (auto simp: connection_check_rate_limit_def Let_def split: if_splits)
  moreover have "plain_send [Sent n, Send_Failed] 0 (length d) = Some (-1, n, [])" using assms(4) by (cases d) simp_all
  moreover have "length d \<noteq> 0" using assms(4) by linarith
  ultimately show ?thesis using assms(2,3,6) by (simp add: conn_send_def)
qed

text \<open>
  The limiter can tear a message apart: header and body are charged as two sends, so when one
  unit is left in the window the header goes out, the body is refused, and the call reports \<open>-4\<close> with
  a header on the wire whose body never follows.
\<close>

theorem send_message_torn_by_limiter:
  assumes "header_codec ser deser" "d \<noteq> []" "length d \<le> MAX_MESSAGE_SIZE" "c_fd c \<noteq> -1" "\<not> c_ssl c"
    and "rl_bytes_per_minute (c_rate c) = 0" "unat (rl_message_count (c_rate c)) + 1 = unat (rl_messages_per_minute (c_rate c))"
    and "in_window (c_rate c) clk" "sk_answers sk = [Sent sizeof_header]"
  shows "\<exists>c' sk'. conn_send_message ser chk clk c sk t d = Some (-4, c', sk') \<and>
    sk_wire sk' = sk_wire sk @ ser (make_header chk (clk 0) (c_messages_sent c + 1) t d)"
proof -
  let ?h = "make_header chk (clk 0) (c_messages_sent c + 1) t d" and ?r = "c_rate c"
  have lh: "length (ser ?h) = sizeof_header" using header_codecD(1) [OF assms(1)] by simp
  have nr: "check_rate_limit_reset (clk i) (clk j) ?r = ?r" for i j by (rule no_reset_in_window [OF assms(8)])
  have cnt: "unat (rl_message_count ?r + 1) = unat (rl_messages_per_minute ?r)"
    using assms(7) unat_lt_32 [of "rl_messages_per_minute ?r"] by (subst unat_add_32) simp_all
  then have eq: "rl_message_count ?r + 1 = rl_messages_per_minute ?r" by (simp only: word_unat_eq_iff)
  have pos: "rl_messages_per_minute ?r > 0" "\<not> rl_messages_per_minute ?r \<le> rl_message_count ?r"
    using assms(7) by (auto simp: word_less_nat_alt word_le_nat_alt)
  have "plain_send [Sent sizeof_header] 0 sizeof_header = Some (int sizeof_header, sizeof_header, [])"
    by (simp add: sizeof_header_def)
  then have s1: "\<exists>c2. conn_send (\<lambda>i. clk (1 + i)) (c\<lparr>c_messages_sent := c_messages_sent c + 1\<rparr>) sk (ser ?h) =
      Some (int sizeof_header, c2, \<lparr>sk_answers = [], sk_wire = sk_wire sk @ ser ?h\<rparr>) \<and> c_fd c2 = c_fd c \<and>
      c_rate c2 = ?r\<lparr>rl_message_count := rl_messages_per_minute ?r, rl_byte_count := rl_byte_count ?r + of_nat sizeof_header\<rparr>"
    using assms(4,5,6,9) lh pos nr eq
    by (simp add: conn_send_def connection_check_rate_limit_def update_rate_limiter_def Let_def)
       (simp add: sizeof_header_def)
  then obtain c2 where c2: "conn_send (\<lambda>i. clk (1 + i)) (c\<lparr>c_messages_sent := c_messages_sent c + 1\<rparr>) sk (ser ?h) =
      Some (int sizeof_header, c2, \<lparr>sk_answers = [], sk_wire = sk_wire sk @ ser ?h\<rparr>)" "c_fd c2 = c_fd c"
      "c_rate c2 = ?r\<lparr>rl_message_count := rl_messages_per_minute ?r, rl_byte_count := rl_byte_count ?r + of_nat sizeof_header\<rparr>"
    by blast
  have nr2: "check_rate_limit_reset (clk i) (clk j) (c_rate c2) = c_rate c2" for i j
    by (rule no_reset_in_window) (use assms(8) c2(3) in \<open>simp add: in_window_def\<close>)
  have "\<exists>c3. conn_send (\<lambda>i. clk (6 + i)) c2 \<lparr>sk_answers = [], sk_wire = sk_wire sk @ ser ?h\<rparr> d =
      Some (-2, c3, \<lparr>sk_answers = [], sk_wire = sk_wire sk @ ser ?h\<rparr>)"
    using assms(2,4) c2(2) pos nr2
    by (simp add: conn_send_def connection_check_rate_limit_def Let_def c2(3))
  then show ?thesis using c2(1) assms(2,3) by (auto simp: conn_send_message_def Let_def)
qed

lemma send_message_torn_by_limiter_witness:
  "\<exists>c' sk'. conn_send_message packed_ser (\<lambda>_. 7) (\<lambda>_. 10)
      (demo_conn\<lparr>c_rate := connection_init_rate_limiter 0 1 0\<rparr>) \<lparr>sk_answers = [Sent sizeof_header], sk_wire = []\<rparr>
      0x02000001 [1, 2] = Some (-4, c', sk') \<and>
    sk_wire sk' = [] @ packed_ser (make_header (\<lambda>_. 7) 10 1 0x02000001 [1, 2])"
  using send_message_torn_by_limiter [OF packed_codec, of "[1, 2]" "demo_conn\<lparr>c_rate := connection_init_rate_limiter 0 1 0\<rparr>"
      "\<lambda>_. 10" "\<lparr>sk_answers = [Sent sizeof_header], sk_wire = []\<rparr>" "\<lambda>_. 7" "0x02000001"]
  by (simp add: demo_conn_def connection_init_rate_limiter_def in_window_def)

text \<open>A client that closes the connection again and again.\<close>

definition close_all :: "client_connection \<Rightarrow> bool list \<Rightarrow> client_connection \<times> int list" where
  "close_all c gs = foldl (\<lambda>(c, fds) g. case connection_close (Some c) g of
      (_, Some c', closed) \<Rightarrow> (c', fds @ closed) | (_, None, _) \<Rightarrow> (c, fds)) (c, []) gs"

text \<open>
  (C11) Closing is safe to repeat: however often and in whatever mode a connection is closed, its
  descriptor is closed exactly once; afterwards the connection is closed, not alive, and refuses to
  send.
\<close>

theorem close_exactly_once:
  assumes "c_state c = Conn_New \<or> c_state c = Conn_Authenticated \<or> c_state c = Conn_Error" "c_fd c \<noteq> -1" "gs \<noteq> []"
  shows "\<exists>c'. close_all c gs = (c', [c_fd c]) \<and> c_fd c' = -1 \<and> c_state c' = Conn_Closed \<and>
    \<not> connection_is_alive now (Some c') timeout \<and> conn_send clk c' sk d = Some (-1, c', sk)"
proof -
  have closed: "foldl (\<lambda>(c, fds) g. case connection_close (Some c) g of
      (_, Some c', closed) \<Rightarrow> (c', fds @ closed) | (_, None, _) \<Rightarrow> (c, fds)) (c, fds) gs = (c, fds)"
    if "c_state c = Conn_Closed" for c fds gs
    using that by (induction gs) (auto simp: connection_close_def)
  obtain g gs' where g: "gs = g # gs'" using assms(3) by (cases gs) auto
  let ?c = "c\<lparr>c_state := Conn_Closed, c_fd := -1\<rparr>"
  have "connection_close (Some c) g = (0, Some ?c, [c_fd c])"
    using assms(1,2) by (auto simp: connection_close_def Let_def)
  then have "close_all c gs = (?c, [c_fd c])"
    using closed [of ?c "[c_fd c]" gs'] g by (simp add: close_all_def)
  then show ?thesis by (simp add: connection_is_alive_def conn_send_def)
qed

lemma close_exactly_once_witness:
  "\<exists>c'. close_all demo_conn [True, False, True] = (c', [5]) \<and> c_fd c' = -1 \<and> c_state c' = Conn_Closed \<and>
    \<not> connection_is_alive 9 (Some c') 1000 \<and> conn_send (\<lambda>_. 0) c' demo_sock [1] = Some (-1, c', demo_sock)"
  using close_exactly_once [of demo_conn "[True, False, True]" 9 1000 "\<lambda>_. 0" demo_sock "[1]"]
  by (simp add: demo_conn_def)

end
