(* ===== verification/Connection_Life.thy ===== *)
theory Connection_Life
  imports Connection "HOL-Library.Multiset"
begin

text \<open>
  The life of a single connection in \<open>server/src/connection.c\<close>: creation, TLS, receiving, destruction.
  What a connection owns (its structure, two buffers, a mutex, a condition variable, a TLS
  object) is recorded as a trace of acquisitions and releases, so that leaks and double releases are
  visible. A buffer pointer is null exactly when the recorded buffer size is zero.
\<close>

section \<open>Resources\<close>

datatype conn_resource = Res_Struct | Res_Recv_Buffer | Res_Send_Buffer | Res_Mutex | Res_Cond | Res_SSL

datatype conn_event = Acquire conn_resource | Release conn_resource

text \<open>A connection cleared by \<open>memset\<close> and marked as free.\<close>

definition blank_connection :: client_connection where
  "blank_connection = \<lparr>c_id = 0, c_fd = -1, c_ip = 0, c_port = 0, c_state = Conn_New, c_ssl = False,
     c_encryption = False, c_user_id = 0, c_username = [], c_nickname = [], c_connected_at = 0,
     c_last_activity = 0, c_last_heartbeat = 0, c_recv_size = 0, c_recv_data = [], c_send_size = 0,
     c_bytes_sent = 0, c_bytes_received = 0, c_messages_sent = 0, c_messages_received = 0,
     c_rate = \<lparr>rl_messages_per_minute = 0, rl_bytes_per_minute = 0, rl_last_reset_time = 0,
       rl_message_count = 0, rl_byte_count = 0\<rparr>\<rparr>"

text \<open>\<open>init_connection_buffers\<close>: two allocations of fixed size.\<close>

definition init_connection_buffers :: "bool \<Rightarrow> bool \<Rightarrow> client_connection \<Rightarrow> client_connection option" where
  "init_connection_buffers ok_recv ok_send c =
     (if \<not> ok_recv then None
      else if \<not> ok_send then None
      else Some (c\<lparr>c_recv_size := 65536, c_recv_data := [], c_send_size := 65536\<rparr>))"

text \<open>The same function with the trace of its allocations: the buffers that exist when it returns.\<close>

definition init_buffers_trace :: "bool \<Rightarrow> bool \<Rightarrow> conn_event list" where
  "init_buffers_trace ok_recv ok_send =
     (if \<not> ok_recv then []
      else if \<not> ok_send then [Acquire Res_Recv_Buffer, Release Res_Recv_Buffer]
      else [Acquire Res_Recv_Buffer, Acquire Res_Send_Buffer])"

definition free_connection_buffers :: "client_connection \<Rightarrow> client_connection \<times> conn_event list" where
  "free_connection_buffers c =
     (let (c1, e1) = (if c_recv_size c \<noteq> 0 then (c\<lparr>c_recv_size := 0, c_recv_data := []\<rparr>, [Release Res_Recv_Buffer])
                      else (c, []));
          (c2, e2) = (if c_send_size c1 \<noteq> 0 then (c1\<lparr>c_send_size := 0\<rparr>, [Release Res_Send_Buffer]) else (c1, []))
      in (c2, e1 @ e2))"

text \<open>\<open>ctx\<close> is the TLS context with its two answers: of \<open>SSL_new\<close> and of the handshake \<open>SSL_accept\<close>.\<close>

definition connection_enable_ssl ::
    "client_connection option \<Rightarrow> (bool \<times> bool) option \<Rightarrow> int \<times> client_connection option \<times> conn_event list" where
  "connection_enable_ssl conn ctx =
     (case (conn, ctx) of
        (Some c, Some (ok_new, ok_accept)) \<Rightarrow>
          if c_ssl c then (0, Some c, [])
          else if \<not> ok_new then (-2, Some c, [])
          else if \<not> ok_accept then (-3, Some (c\<lparr>c_ssl := False\<rparr>), [Acquire Res_SSL, Release Res_SSL])
          else (0, Some (c\<lparr>c_ssl := True, c_encryption := True\<rparr>), [Acquire Res_SSL])
      | _ \<Rightarrow> (-1, conn, []))"

definition connection_disable_ssl :: "client_connection option \<Rightarrow> client_connection option \<times> conn_event list" where
  "connection_disable_ssl conn =
     (case conn of None \<Rightarrow> (None, [])
      | Some c \<Rightarrow>
          if \<not> c_ssl c then (Some c, [])
          else (Some (c\<lparr>c_ssl := False, c_encryption := False\<rparr>), [Release Res_SSL]))"

section \<open>Creation and destruction\<close>

text \<open>\<open>ok 0\<close> is the structure, \<open>ok 1\<close> and \<open>ok 2\<close> the buffers, \<open>ok 3\<close> the mutex, \<open>ok 4\<close> the condition variable.\<close>

definition connection_create :: "(nat \<Rightarrow> bool) \<Rightarrow> (nat \<Rightarrow> 64 word) \<Rightarrow> int \<Rightarrow> (32 word \<times> 16 word) option \<Rightarrow>
    (bool \<times> bool) option \<Rightarrow> client_connection option \<times> conn_event list" where
  "connection_create ok clk fd addr ctx =
     (case addr of None \<Rightarrow> (None, [])
      | Some (ip, port) \<Rightarrow>
          if fd < 0 then (None, [])
          else if \<not> ok 0 then (None, [])
          else
            let c0 = blank_connection\<lparr>c_id := 0, c_fd := fd, c_ip := ip, c_port := port, c_state := Conn_New,
                       c_connected_at := clk 0, c_last_activity := clk 0, c_last_heartbeat := clk 0\<rparr>;
                ev = Acquire Res_Struct # init_buffers_trace (ok 1) (ok 2)
            in case init_connection_buffers (ok 1) (ok 2) c0 of
                 None \<Rightarrow> (None, ev @ [Release Res_Struct])
               | Some c1 \<Rightarrow>
                   if \<not> ok 3 then (None, ev @ snd (free_connection_buffers c1) @ [Release Res_Struct])
                   else if \<not> ok 4 then
                     (None, ev @ Acquire Res_Mutex # Release Res_Mutex # snd (free_connection_buffers c1) @ [Release Res_Struct])
                   else
                     let ev1 = ev @ [Acquire Res_Mutex, Acquire Res_Cond];
                         c3 = \<lambda>c. c\<lparr>c_rate := connection_init_rate_limiter (clk 1) 60 1048576\<rparr>
                     in case ctx of
                          None \<Rightarrow> (Some (c3 c1), ev1)
                        | Some _ \<Rightarrow>
                            (case connection_enable_ssl (Some c1) ctx of
                               (r, c2, ev2) \<Rightarrow>
                                 if r \<noteq> 0 then
                                   (None, ev1 @ ev2 @ Release Res_Cond # Release Res_Mutex #
                                      snd (free_connection_buffers c1) @ [Release Res_Struct])
                                 else (map_option c3 c2, ev1 @ ev2)))"

text \<open>Where a connection lives: an allocation of its own (\<open>connection_create\<close>), or an element of the pool array.
  \<open>connection_destroy\<close> ends in \<open>free(conn)\<close>, which only the former allows.\<close>

datatype conn_place = Own_Allocation | Pool_Slot nat

definition connection_destroy :: "conn_place \<Rightarrow> client_connection \<Rightarrow> conn_event list outcome" where
  "connection_destroy pl c =
     (let e1 = (if c_ssl c then [Release Res_SSL] else []);
          e2 = [Release Res_Cond, Release Res_Mutex];
          e3 = snd (free_connection_buffers (c\<lparr>c_ssl := False\<rparr>))
      in case pl of
           Own_Allocation \<Rightarrow> Done (e1 @ e2 @ e3 @ [Release Res_Struct])
         | Pool_Slot _ \<Rightarrow> Undefined_Behaviour)"

section \<open>Receiving\<close>

text \<open>One answer of \<open>recv\<close> or \<open>SSL_read\<close>: some bytes, no data yet (\<open>EAGAIN\<close>, \<open>SSL_ERROR_WANT_READ\<close>), an orderly
  end or a reset of the peer, another error. At most \<open>len\<close> bytes are delivered.\<close>

datatype recv_result = Got "byte list" | Recv_Would_Block | Recv_Closed | Recv_Failed

definition plain_receive :: "recv_result \<Rightarrow> nat \<Rightarrow> int \<times> byte list" where
  "plain_receive a len =
     (case a of
        Recv_Would_Block \<Rightarrow> (0, [])
      | Recv_Closed \<Rightarrow> (0, [])
      | Recv_Failed \<Rightarrow> (-1, [])
      | Got bs \<Rightarrow> if take len bs = [] then (0, []) else (int (length (take len bs)), take len bs))"

definition ssl_receive :: "client_connection \<Rightarrow> recv_result \<Rightarrow> nat \<Rightarrow> int \<times> byte list" where
  "ssl_receive c a len =
     (if \<not> c_ssl c then (-1, [])
      else case a of
        Recv_Would_Block \<Rightarrow> (0, [])
      | Recv_Closed \<Rightarrow> (0, [])
      | Recv_Failed \<Rightarrow> (-1, [])
      | Got bs \<Rightarrow> if take len bs = [] then (-1, []) else (int (length (take len bs)), take len bs))"

definition connection_receive :: "64 word \<Rightarrow> client_connection option \<Rightarrow> recv_result \<Rightarrow> nat option \<Rightarrow>
    int \<times> byte list \<times> client_connection option" where
  "connection_receive now conn a buffer_len =
     (case (conn, buffer_len) of
        (Some c, Some len) \<Rightarrow>
          if c_fd c = -1 \<or> len = 0 then (-1, [], Some c)
          else
            (case (if c_ssl c then ssl_receive c a len else plain_receive a len) of
               (received, bs) \<Rightarrow>
                 if received > 0 then
                   (received, bs, Some (c\<lparr>c_bytes_received := c_bytes_received c + of_int received, c_last_activity := now\<rparr>))
                 else (received, bs, Some c))
      | _ \<Rightarrow> (-1, [], conn))"

section \<open>Nothing leaks\<close>

lemma created_connection:
  assumes "connection_create ok clk fd addr ctx = (Some c, ev)"
  shows "c_fd c = fd \<and> 0 \<le> fd \<and> c_state c = Conn_New \<and> (c_ssl c \<longleftrightarrow> ctx \<noteq> None) \<and> c_recv_size c = 65536 \<and>
    c_send_size c = 65536 \<and>
    ev = [Acquire Res_Struct, Acquire Res_Recv_Buffer, Acquire Res_Send_Buffer, Acquire Res_Mutex, Acquire Res_Cond] @
      (if ctx = None then [] else [Acquire Res_SSL])"
  using assms by (auto simp: connection_create_def Let_def init_connection_buffers_def init_buffers_trace_def
      connection_enable_ssl_def blank_connection_def split: option.splits if_splits prod.splits)

text \<open>
  (C15) Creating a connection either fails and has released everything it had acquired, whichever
  allocation, initialisation or TLS step failed, or succeeds; in that case \<open>connection_destroy\<close>
  releases each acquired resource exactly once.
\<close>

theorem connection_resources_balanced:
  assumes "connection_create ok clk fd addr ctx = (r, ev)"
  shows "(r = None \<longrightarrow> (\<forall>x. count (mset ev) (Acquire x) = count (mset ev) (Release x))) \<and>
    (\<forall>c. r = Some c \<longrightarrow> (\<exists>ev'. connection_destroy Own_Allocation c = Done ev' \<and>
      (\<forall>x. count (mset ev) (Acquire x) \<le> 1 \<and> count (mset ev') (Release x) = count (mset ev) (Acquire x))))"
proof (intro conjI impI allI)
  fix x assume "r = None"
  then show "count (mset ev) (Acquire x) = count (mset ev) (Release x)"
    using assms by (cases x) (auto simp: connection_create_def Let_def init_connection_buffers_def init_buffers_trace_def
        connection_enable_ssl_def free_connection_buffers_def split: option.splits if_splits prod.splits)
next
  fix c assume "r = Some c"
  note cr = created_connection [OF assms [unfolded this]]
  show "\<exists>ev'. connection_destroy Own_Allocation c = Done ev' \<and>
      (\<forall>x. count (mset ev) (Acquire x) \<le> 1 \<and> count (mset ev') (Release x) = count (mset ev) (Acquire x))"
    using cr by (auto simp: connection_destroy_def free_connection_buffers_def Let_def)
qed

lemma connection_resources_balanced_witness:
  "\<exists>ev. connection_create (\<lambda>i. i \<noteq> 4) (\<lambda>_. 0) 5 (Some (1, 2)) None = (None, ev) \<and>
     count (mset ev) (Acquire Res_Recv_Buffer) = count (mset ev) (Release Res_Recv_Buffer) \<and> Acquire Res_Recv_Buffer \<in> set ev"
proof -
  obtain ev where ev: "connection_create (\<lambda>i. i \<noteq> 4) (\<lambda>_. 0) 5 (Some (1, 2)) None = (None, ev)" "Acquire Res_Recv_Buffer \<in> set ev"
    by (simp add: connection_create_def init_connection_buffers_def init_buffers_trace_def Let_def)
  then show ?thesis using connection_resources_balanced [OF ev(1)] by blast
qed

end
