(* ===== verification/Connection_Pool.thy ===== *)
theory Connection_Pool
  imports Connection_Life
begin

text \<open>
  The connection pool of \<open>server/src/connection.c\<close> (\<open>connection_pool_create\<close> to
  \<open>connection_pool_get_active_connections\<close>). The connections live inside one array of the pool. The
  mutex \<open>pool->lock\<close> is part of the state, since some operations call others while they hold it: a
  default mutex locked twice by one thread never returns. Releasing an element of the array as if
  it were an allocation of its own is undefined. Both are outcomes of an operation.
\<close>

record connection_pool =
  p_connections :: "client_connection list"
  p_capacity :: nat
  p_count :: size_t
  p_next_connection_id :: "64 word"
  p_locked :: bool
  p_total :: "64 word"
  p_active :: "64 word"
  p_max_concurrent :: "64 word"

definition connection_pool_create :: "bool \<Rightarrow> bool \<Rightarrow> bool \<Rightarrow> bool \<Rightarrow> nat \<Rightarrow> connection_pool option" where
  "connection_pool_create ok_pool ok_array ok_lock ok_rwlock initial_capacity =
     (if \<not> ok_pool then None
      else if \<not> ok_array then None
      else if \<not> ok_lock then None
      else if \<not> ok_rwlock then None
      else Some \<lparr>p_connections = replicate initial_capacity blank_connection, p_capacity = initial_capacity,
                 p_count = 0, p_next_connection_id = 1, p_locked = False,
                 p_total = 0, p_active = 0, p_max_concurrent = 0\<rparr>)"

definition pool_lock :: "connection_pool \<Rightarrow> connection_pool outcome" where
  "pool_lock p = (if p_locked p then Deadlock else Done (p\<lparr>p_locked := True\<rparr>))"

definition pool_unlock :: "connection_pool \<Rightarrow> connection_pool" where
  "pool_unlock p = p\<lparr>p_locked := False\<rparr>"

text \<open>\<open>ok\<close> is the outcome of \<open>realloc\<close>, which refuses a size of zero.\<close>

definition resize_connection_pool :: "bool \<Rightarrow> connection_pool \<Rightarrow> nat \<Rightarrow> (bool \<times> connection_pool) outcome" where
  "resize_connection_pool ok p new_capacity =
     obind (pool_lock p) (\<lambda>p1.
       if \<not> ok \<or> new_capacity = 0 then Done (False, pool_unlock p1)
       else Done (True, pool_unlock (p1\<lparr>
         p_connections := take new_capacity (p_connections p1) @
           replicate (new_capacity - p_capacity p1) blank_connection,
         p_capacity := new_capacity\<rparr>)))"

text \<open>The index of the slot handed out.\<close>

definition allocate_connection :: "bool \<Rightarrow> connection_pool \<Rightarrow> (nat option \<times> connection_pool) outcome" where
  "allocate_connection ok p =
     (case first_index (\<lambda>c. c_fd c = -1) (p_connections p) of
        Some i \<Rightarrow> Done (Some i, p)
      | None \<Rightarrow>
          obind (resize_connection_pool ok p (p_capacity p * 2)) (\<lambda>(r, p').
            if \<not> r then Done (None, p') else Done (Some (p_capacity p' div 2), p')))"

definition free_connection :: "connection_pool \<Rightarrow> nat \<Rightarrow> connection_pool" where
  "free_connection p i = p\<lparr>p_connections := (p_connections p)[i := (p_connections p ! i)\<lparr>c_fd := -1\<rparr>],
                           p_count := p_count p - 1\<rparr>"

definition new_connection :: "64 word \<Rightarrow> 64 word \<Rightarrow> int \<Rightarrow> 32 word \<times> 16 word \<Rightarrow> client_connection" where
  "new_connection now conn_id fd addr = blank_connection\<lparr>c_id := conn_id, c_fd := fd, c_ip := fst addr,
     c_port := snd addr, c_state := Conn_New, c_connected_at := now, c_last_activity := now,
     c_last_heartbeat := now\<rparr>"

text \<open>\<open>ok 0\<close> and \<open>ok 1\<close> are the reallocations, \<open>ok 2\<close> and \<open>ok 3\<close> the buffers, \<open>ok 4\<close> the mutex and \<open>ok 5\<close>
  the condition variable of the connection.\<close>

definition pool_add :: "(nat \<Rightarrow> bool) \<Rightarrow> (nat \<Rightarrow> 64 word) \<Rightarrow> connection_pool \<Rightarrow> int \<Rightarrow> 32 word \<times> 16 word \<Rightarrow>
    (nat option \<times> connection_pool) outcome" where
  "pool_add ok clk p fd addr =
     obind (pool_lock p) (\<lambda>p1.
     obind (if p_count p1 \<ge> of_nat (p_capacity p1)
            then resize_connection_pool (ok 0) p1 (p_capacity p1 * 2) else Done (True, p1)) (\<lambda>(r, p2).
       if \<not> r then Done (None, pool_unlock p2)
       else obind (allocate_connection (ok 1) p2) (\<lambda>(slot, p3).
         case slot of
           None \<Rightarrow> Done (None, pool_unlock p3)
         | Some i \<Rightarrow>
             if i \<ge> length (p_connections p3) then Undefined_Behaviour
             else
               let conn = new_connection (clk 0) (p_next_connection_id p3) fd addr;
                   p4 = p3\<lparr>p_next_connection_id := p_next_connection_id p3 + 1\<rparr>;
                   fail = Done (None, pool_unlock (p4\<lparr>p_connections := (p_connections p4)[i := blank_connection]\<rparr>))
               in case init_connection_buffers (ok 2) (ok 3) conn of
                    None \<Rightarrow> fail
                  | Some conn1 \<Rightarrow>
                      if \<not> ok 4 then fail
                      else if \<not> ok 5 then fail
                      else
                        let conn2 = conn1\<lparr>c_rate := connection_init_rate_limiter (clk 1) 60 1048576\<rparr>;
                            active = p_active p4 + 1
                        in Done (Some i, pool_unlock (p4\<lparr>
                             p_connections := (p_connections p4)[i := conn2], p_count := p_count p4 + 1,
                             p_total := p_total p4 + 1, p_active := active,
                             p_max_concurrent := (if active > p_max_concurrent p4 then active
                                                  else p_max_concurrent p4)\<rparr>)))))"

definition connection_pool_add :: "(nat \<Rightarrow> bool) \<Rightarrow> (nat \<Rightarrow> 64 word) \<Rightarrow> connection_pool option \<Rightarrow> int \<Rightarrow>
    (32 word \<times> 16 word) option \<Rightarrow> (nat option \<times> connection_pool option) outcome" where
  "connection_pool_add ok clk pool fd addr =
     (case (pool, addr) of
        (Some p, Some a) \<Rightarrow>
          if fd < 0 then Done (None, pool)
          else obind (pool_add ok clk p fd a) (\<lambda>(i, p'). Done (i, Some p'))
      | _ \<Rightarrow> Done (None, pool))"

definition connection_pool_get_by_id :: "connection_pool option \<Rightarrow> 64 word \<Rightarrow> nat option" where
  "connection_pool_get_by_id pool connection_id =
     (case pool of None \<Rightarrow> None
      | Some p \<Rightarrow> first_index (\<lambda>c. c_fd c \<noteq> -1 \<and> c_id c = connection_id) (p_connections p))"

definition connection_pool_get_by_fd :: "connection_pool option \<Rightarrow> int \<Rightarrow> nat option" where
  "connection_pool_get_by_fd pool fd =
     (case pool of None \<Rightarrow> None
      | Some p \<Rightarrow> first_index (\<lambda>c. c_fd c \<noteq> -1 \<and> c_fd c = fd) (p_connections p))"

definition user_match :: "64 word \<Rightarrow> client_connection \<Rightarrow> bool" where
  "user_match user_id c \<longleftrightarrow> c_fd c \<noteq> -1 \<and> c_user_id c = user_id \<and> c_state c = Conn_Authenticated"

text \<open>The counting and the filling pass; the result code and the slots.\<close>

fun fill_matches :: "(client_connection \<Rightarrow> bool) \<Rightarrow> nat \<Rightarrow> client_connection list \<Rightarrow> nat list" where
  "fill_matches P i [] = []"
| "fill_matches P i (c # cs) = (if P c then i # fill_matches P (Suc i) cs else fill_matches P (Suc i) cs)"

definition connection_pool_get_by_user :: "bool \<Rightarrow> connection_pool option \<Rightarrow> 64 word \<Rightarrow> int \<times> (nat list \<times> nat) option" where
  "connection_pool_get_by_user ok pool user_id =
     (case pool of None \<Rightarrow> (-1, None)
      | Some p \<Rightarrow>
          let match_count = length (filter (user_match user_id) (p_connections p)) in
          if match_count = 0 then (0, Some ([], 0))
          else if \<not> ok then (-2, None)
          else (0, Some (fill_matches (user_match user_id) 0 (p_connections p), match_count)))"

text \<open>Closing, destroying and releasing slot \<open>i\<close>.\<close>

definition drop_slot :: "bool \<Rightarrow> connection_pool \<Rightarrow> nat \<Rightarrow> connection_pool outcome" where
  "drop_slot graceful p i =
     (let c' = the (fst (snd (connection_close (Some (p_connections p ! i)) graceful)));
          p1 = p\<lparr>p_connections := (p_connections p)[i := c']\<rparr>
      in obind (connection_destroy (Pool_Slot i) c') (\<lambda>_.
           let p2 = free_connection p1 i in Done (p2\<lparr>p_active := p_active p2 - 1\<rparr>)))"

definition connection_pool_remove :: "connection_pool option \<Rightarrow> 64 word \<Rightarrow> (int \<times> connection_pool option) outcome" where
  "connection_pool_remove pool connection_id =
     (case pool of None \<Rightarrow> Done (-1, None)
      | Some p \<Rightarrow>
          obind (pool_lock p) (\<lambda>p1.
            case first_index (\<lambda>c. c_fd c \<noteq> -1 \<and> c_id c = connection_id) (p_connections p1) of
              Some i \<Rightarrow> obind (drop_slot True p1 i) (\<lambda>p2. Done (0, Some (pool_unlock p2)))
            | None \<Rightarrow> Done (-2, Some (pool_unlock p1))))"

fun cleanup_loop :: "64 word \<Rightarrow> 64 word \<Rightarrow> connection_pool \<Rightarrow> nat list \<Rightarrow> (nat \<times> connection_pool) outcome" where
  "cleanup_loop now timeout_ms p [] = Done (0, p)"
| "cleanup_loop now timeout_ms p (i # is) =
     (let c = p_connections p ! i in
      if c_fd c \<noteq> -1 \<and> now - c_last_activity c > timeout_ms then
        obind (drop_slot False p i) (\<lambda>p'.
          obind (cleanup_loop now timeout_ms p' is) (\<lambda>(n, p''). Done (Suc n, p'')))
      else cleanup_loop now timeout_ms p is)"

definition connection_pool_cleanup_expired ::
    "64 word \<Rightarrow> connection_pool option \<Rightarrow> 64 word \<Rightarrow> (nat \<times> connection_pool option) outcome" where
  "connection_pool_cleanup_expired now pool timeout_ms =
     (case pool of None \<Rightarrow> Done (0, None)
      | Some p \<Rightarrow>
          obind (pool_lock p) (\<lambda>p1.
          obind (cleanup_loop now timeout_ms p1 [0..<p_capacity p1]) (\<lambda>(n, p2).
            Done (n, Some (pool_unlock p2)))))"

definition connection_pool_get_active_count :: "connection_pool option \<Rightarrow> 64 word" where
  "connection_pool_get_active_count pool = (case pool of None \<Rightarrow> 0 | Some p \<Rightarrow> p_active p)"

definition connection_pool_get_statistics :: "connection_pool option \<Rightarrow> int \<times> (64 word \<times> 64 word \<times> 64 word) option" where
  "connection_pool_get_statistics pool =
     (case pool of None \<Rightarrow> (-1, None) | Some p \<Rightarrow> (0, Some (p_total p, p_active p, p_max_concurrent p)))"

record connection_info =
  i_connection_id :: "64 word"
  i_user_id :: "64 word"
  i_username :: string
  i_ip :: "32 word"
  i_port :: "16 word"
  i_connected_at :: "64 word"
  i_last_activity :: "64 word"
  i_state :: connection_state
  i_bytes_sent :: "64 word"
  i_bytes_received :: "64 word"

definition connection_get_info :: "client_connection \<Rightarrow> connection_info" where
  "connection_get_info c = \<lparr>i_connection_id = c_id c, i_user_id = c_user_id c, i_username = strncpy64 (c_username c),
     i_ip = c_ip c, i_port = c_port c, i_connected_at = c_connected_at c, i_last_activity = c_last_activity c,
     i_state = c_state c, i_bytes_sent = c_bytes_sent c, i_bytes_received = c_bytes_received c\<rparr>"

definition connection_pool_get_active_connections ::
    "bool \<Rightarrow> connection_pool option \<Rightarrow> int \<times> (connection_info list \<times> nat) option" where
  "connection_pool_get_active_connections ok pool =
     (case pool of None \<Rightarrow> (-1, None)
      | Some p \<Rightarrow>
          let active_count = length (filter (\<lambda>c. c_fd c \<noteq> -1) (p_connections p)) in
          if active_count = 0 then (0, Some ([], 0))
          else if \<not> ok then (-2, None)
          else (0, Some (map connection_get_info (filter (\<lambda>c. c_fd c \<noteq> -1) (p_connections p)), active_count)))"

text \<open>Destroying the pool closes and destroys the connections that are still open.\<close>

fun destroy_slots :: "nat \<Rightarrow> client_connection list \<Rightarrow> unit outcome" where
  "destroy_slots i [] = Done ()"
| "destroy_slots i (c # cs) =
     (if c_fd c \<noteq> -1 then
        obind (connection_destroy (Pool_Slot i) (the (fst (snd (connection_close (Some c) True))))) (\<lambda>_. destroy_slots (Suc i) cs)
      else destroy_slots (Suc i) cs)"

definition connection_pool_destroy :: "connection_pool option \<Rightarrow> unit outcome" where
  "connection_pool_destroy pool =
     (case pool of None \<Rightarrow> Done ()
      | Some p \<Rightarrow> obind (pool_lock p) (\<lambda>p1. destroy_slots 0 (p_connections p1)))"

section \<open>Invariant\<close>

abbreviation in_use :: "client_connection \<Rightarrow> bool" where
  "in_use c \<equiv> c_fd c \<noteq> -1"

text \<open>The counter may exceed the number of used slots: a connection that is closed without being
  removed leaves its slot free but is still counted.\<close>

definition ids_ok :: "client_connection list \<Rightarrow> nat \<Rightarrow> bool" where
  "ids_ok cs n \<longleftrightarrow> (\<forall>i < length cs. in_use (cs ! i) \<longrightarrow> unat (c_id (cs ! i)) < n) \<and>
     (\<forall>i < length cs. \<forall>j < length cs. in_use (cs ! i) \<and> in_use (cs ! j) \<and> c_id (cs ! i) = c_id (cs ! j) \<longrightarrow> i = j)"

definition pool_inv :: "connection_pool \<Rightarrow> bool" where
  "pool_inv p \<longleftrightarrow> \<not> p_locked p \<and> length (p_connections p) = p_capacity p \<and> p_capacity p < 2 ^ 63 \<and>
     length (filter in_use (p_connections p)) \<le> unat (p_count p) \<and>
     ids_ok (p_connections p) (unat (p_next_connection_id p))"

lemma ids_ok_fill:
  assumes "ids_ok cs n" "unat (c_id c) = n"
  shows "ids_ok (cs[i := c]) (Suc n)"
  unfolding ids_ok_def
proof (intro conjI allI impI)
  fix j assume "j < length (cs[i := c])" "in_use (cs[i := c] ! j)"
  then show "unat (c_id (cs[i := c] ! j)) < Suc n"
    using assms by (cases "j = i") (auto simp: ids_ok_def less_SucI)
next
  fix j k assume "j < length (cs[i := c])" "k < length (cs[i := c])"
    "in_use (cs[i := c] ! j) \<and> in_use (cs[i := c] ! k) \<and> c_id (cs[i := c] ! j) = c_id (cs[i := c] ! k)"
  then show "j = k"
    using assms by (cases "j = i"; cases "k = i") (auto simp: ids_ok_def)
qed

lemma ids_ok_blank:
  assumes "ids_ok cs n" "\<not> in_use c"
  shows "ids_ok (cs[i := c]) (Suc n)"
  unfolding ids_ok_def
proof (intro conjI allI impI)
  fix j assume "j < length (cs[i := c])" "in_use (cs[i := c] ! j)"
  then show "unat (c_id (cs[i := c] ! j)) < Suc n"
    using assms by (cases "j = i") (auto simp: ids_ok_def less_SucI)
next
  fix j k assume "j < length (cs[i := c])" "k < length (cs[i := c])"
    "in_use (cs[i := c] ! j) \<and> in_use (cs[i := c] ! k) \<and> c_id (cs[i := c] ! j) = c_id (cs[i := c] ! k)"
  then show "j = k"
    using assms by (cases "j = i"; cases "k = i") (auto simp: ids_ok_def)
qed

lemma connection_pool_create_inv:
  assumes "connection_pool_create a b c d n = Some p" "n < 2 ^ 63"
  shows "pool_inv p \<and> p_capacity p = n \<and> filter in_use (p_connections p) = []"
  using assms by (auto simp: connection_pool_create_def pool_inv_def ids_ok_def blank_connection_def filter_empty_conv split: if_splits)

lemma length_filter_update_used:
  "i < length xs \<Longrightarrow> \<not> P (xs ! i) \<Longrightarrow> P y \<Longrightarrow> length (filter P (xs[i := y])) = Suc (length (filter P xs))"
  by (induction xs arbitrary: i) (auto split: nat.splits)

lemma length_filter_update_free:
  "i < length xs \<Longrightarrow> \<not> P y \<Longrightarrow> length (filter P (xs[i := y])) \<le> length (filter P xs)"
  by (induction xs arbitrary: i) (auto split: nat.splits intro: le_SucI)

lemma first_index_update_other:
  "i < length xs \<Longrightarrow> \<not> P (xs ! i) \<Longrightarrow> \<not> P y \<Longrightarrow> first_index P (xs[i := y]) = first_index P xs"
  by (induction xs arbitrary: i) (auto split: nat.splits)

lemma first_index_unique:
  assumes "i < length xs" "P (xs ! i)" "\<And>j. j < length xs \<Longrightarrow> P (xs ! j) \<Longrightarrow> j = i"
  shows "first_index P xs = Some i"
proof (cases "first_index P xs")
  case None
  then show ?thesis using assms(1,2) by (simp add: first_index_None)
next
  case (Some j)
  then show ?thesis using first_index_Some [OF Some] assms(3) by auto
qed

text \<open>A slot is free when fewer connections are counted than there are slots.\<close>

lemma free_slot_exists:
  assumes "pool_inv p" "unat (p_count p) < p_capacity p"
  obtains i where "first_index (\<lambda>c. c_fd c = -1) (p_connections p) = Some i" "i < p_capacity p"
    "c_fd (p_connections p ! i) = -1"
proof (cases "first_index (\<lambda>c. c_fd c = -1) (p_connections p)")
  case None
  then have "filter in_use (p_connections p) = p_connections p" by (simp add: first_index_None filter_id_conv)
  then show ?thesis using assms by (simp add: pool_inv_def)
next
  case (Some i)
  then show ?thesis using first_index_Some [OF Some] assms(1) by (intro that [OF Some]) (auto simp: pool_inv_def)
qed

lemma count_below_capacity:
  assumes "pool_inv p"
  shows "p_count p \<ge> of_nat (p_capacity p) \<longleftrightarrow> unat (p_count p) \<ge> p_capacity p"
proof -
  have "unat (of_nat (p_capacity p) :: size_t) = p_capacity p"
    using assms by (intro unat_of_nat_64) (simp add: pool_inv_def)
  then show ?thesis by (simp add: word_le_nat_alt)
qed

text \<open>Filling a free slot with a connection of the next number.\<close>

lemma pool_inv_fill:
  assumes inv: "pool_inv p" and i: "i < p_capacity p" "c_fd (p_connections p ! i) = -1"
    and c: "in_use c" "c_id c = p_next_connection_id p"
    and room: "unat (p_count p) < p_capacity p" "unat (p_next_connection_id p) + 1 < 2 ^ 64"
  shows "pool_inv (p\<lparr>p_connections := (p_connections p)[i := c], p_count := p_count p + 1,
    p_next_connection_id := p_next_connection_id p + 1, p_total := t, p_active := a, p_max_concurrent := m\<rparr>)"
proof -
  have n: "unat (p_next_connection_id p + 1) = unat (p_next_connection_id p) + 1"
    "unat (p_count p + 1) = unat (p_count p) + 1"
    using room inv by (auto simp: unat_add_64 pool_inv_def)
  have len: "length (p_connections p) = p_capacity p" using inv by (simp add: pool_inv_def)
  have "length (filter in_use ((p_connections p)[i := c])) = Suc (length (filter in_use (p_connections p)))"
    using i c len by (intro length_filter_update_used) auto
  moreover have "ids_ok ((p_connections p)[i := c]) (Suc (unat (p_next_connection_id p)))"
    using inv c(2) by (intro ids_ok_fill) (auto simp: pool_inv_def)
  ultimately show ?thesis using inv n by (simp add: pool_inv_def)
qed

lemma pool_inv_blank:
  assumes inv: "pool_inv p" and i: "i < p_capacity p"
    and room: "unat (p_next_connection_id p) + 1 < 2 ^ 64"
  shows "pool_inv (p\<lparr>p_connections := (p_connections p)[i := blank_connection],
    p_next_connection_id := p_next_connection_id p + 1\<rparr>)"
proof -
  have n: "unat (p_next_connection_id p + 1) = unat (p_next_connection_id p) + 1"
    using room by (simp add: unat_add_64)
  have len: "length (p_connections p) = p_capacity p" using inv by (simp add: pool_inv_def)
  have "length (filter in_use ((p_connections p)[i := blank_connection])) \<le> length (filter in_use (p_connections p))"
    using i len by (intro length_filter_update_free) (auto simp: blank_connection_def)
  moreover have "ids_ok ((p_connections p)[i := blank_connection]) (Suc (unat (p_next_connection_id p)))"
    using inv by (intro ids_ok_blank) (auto simp: pool_inv_def blank_connection_def)
  ultimately show ?thesis using inv n by (simp add: pool_inv_def)
qed

section \<open>Adding\<close>

lemma pool_add_room:
  assumes inv: "pool_inv p" and room: "unat (p_count p) < p_capacity p"
  shows "\<exists>i. i < p_capacity p \<and> c_fd (p_connections p ! i) = -1 \<and>
    pool_add ok clk p fd addr =
      (if ok 2 \<and> ok 3 \<and> ok 4 \<and> ok 5 then
         Done (Some i, p\<lparr>p_connections := (p_connections p)[i :=
             (new_connection (clk 0) (p_next_connection_id p) fd addr)\<lparr>c_recv_size := 65536, c_recv_data := [],
               c_send_size := 65536, c_rate := connection_init_rate_limiter (clk 1) 60 1048576\<rparr>],
           p_count := p_count p + 1, p_next_connection_id := p_next_connection_id p + 1,
           p_total := p_total p + 1, p_active := p_active p + 1,
           p_max_concurrent := (if p_active p + 1 > p_max_concurrent p then p_active p + 1 else p_max_concurrent p)\<rparr>)
       else Done (None, p\<lparr>p_connections := (p_connections p)[i := blank_connection],
              p_next_connection_id := p_next_connection_id p + 1\<rparr>))"
proof -
  obtain i where i: "first_index (\<lambda>c. c_fd c = -1) (p_connections p) = Some i" "i < p_capacity p"
    "c_fd (p_connections p ! i) = -1" using free_slot_exists [OF inv room] by blast
  have u: "\<not> p_locked p" "length (p_connections p) = p_capacity p" using inv by (auto simp: pool_inv_def)
  have r: "\<not> p_count p \<ge> of_nat (p_capacity p)" using count_below_capacity [OF inv] room by simp
  have "pool_add ok clk p fd addr =
      (let p4 = p\<lparr>p_locked := True, p_next_connection_id := p_next_connection_id p + 1\<rparr>;
           fail = Done (None, pool_unlock (p4\<lparr>p_connections := (p_connections p4)[i := blank_connection]\<rparr>))
       in case init_connection_buffers (ok 2) (ok 3) (new_connection (clk 0) (p_next_connection_id p) fd addr) of
            None \<Rightarrow> fail
          | Some conn1 \<Rightarrow>
              if \<not> ok 4 then fail
              else if \<not> ok 5 then fail
              else
                let conn2 = conn1\<lparr>c_rate := connection_init_rate_limiter (clk 1) 60 1048576\<rparr>;
                    active = p_active p4 + 1
                in Done (Some i, pool_unlock (p4\<lparr>
                     p_connections := (p_connections p4)[i := conn2], p_count := p_count p4 + 1,
                     p_total := p_total p4 + 1, p_active := active,
                     p_max_concurrent := (if active > p_max_concurrent p4 then active
                                          else p_max_concurrent p4)\<rparr>)))"
    using i u r by (simp add: pool_add_def pool_lock_def allocate_connection_def Let_def)
  then show ?thesis using i(2,3) u(1)
    by (intro exI [of _ i]) (auto simp: init_connection_buffers_def pool_unlock_def Let_def)
qed

section \<open>Lookups\<close>

lemma fill_matches_upt:
  "fill_matches P i cs = filter (\<lambda>j. P (cs ! (j - i))) [i..<i + length cs]"
proof (induction cs arbitrary: i)
  case Nil
  then show ?case by simp
next
  case (Cons c cs)
  have "filter (\<lambda>j. P ((c # cs) ! (j - i))) [Suc i..<Suc i + length cs] =
      filter (\<lambda>j. P (cs ! (j - Suc i))) [Suc i..<Suc i + length cs]"
    by (intro filter_cong refl) (auto simp: nth_Cons' Suc_diff_le split: nat.splits)
  moreover have "[i..<i + length (c # cs)] = i # [Suc i..<Suc i + length cs]"
    using upt_conv_Cons [of i "i + length (c # cs)"] by simp
  ultimately show ?case using Cons.IH [of "Suc i"] by (simp only: fill_matches.simps filter.simps) simp
qed

lemma length_fill_matches: "length (fill_matches P i cs) = length (filter P cs)"
  by (induction cs arbitrary: i) auto

lemma get_by_id_iff:
  assumes "pool_inv p"
  shows "connection_pool_get_by_id (Some p) n = Some i \<longleftrightarrow>
    i < p_capacity p \<and> in_use (p_connections p ! i) \<and> c_id (p_connections p ! i) = n"
proof
  assume "connection_pool_get_by_id (Some p) n = Some i"
  then show "i < p_capacity p \<and> in_use (p_connections p ! i) \<and> c_id (p_connections p ! i) = n"
    using assms first_index_Some [of _ "p_connections p" i]
    by (auto simp: connection_pool_get_by_id_def pool_inv_def)
next
  assume a: "i < p_capacity p \<and> in_use (p_connections p ! i) \<and> c_id (p_connections p ! i) = n"
  have "first_index (\<lambda>c. in_use c \<and> c_id c = n) (p_connections p) = Some i"
    using a assms by (intro first_index_unique) (auto simp: pool_inv_def ids_ok_def)
  then show "connection_pool_get_by_id (Some p) n = Some i" by (simp add: connection_pool_get_by_id_def)
qed

section \<open>Properties\<close>

text \<open>
  Adding a connection to a pool with room: the pool stays well formed whatever initialisation
  fails. On success the new connection has a fresh number under which it, and only it, is found, and
  every other connection is found where it was; on failure no lookup changes.
\<close>

theorem pool_add_registers:
  assumes "pool_inv p" "unat (p_count p) < p_capacity p" "unat (p_next_connection_id p) + 1 < 2 ^ 64" "0 \<le> fd"
  shows "\<exists>r p'. connection_pool_add ok clk (Some p) fd (Some addr) = Done (r, Some p') \<and> pool_inv p' \<and>
    (r \<noteq> None \<longleftrightarrow> ok 2 \<and> ok 3 \<and> ok 4 \<and> ok 5) \<and>
    connection_pool_get_by_id (Some p') (p_next_connection_id p) = r \<and>
    (\<forall>n. n \<noteq> p_next_connection_id p \<longrightarrow>
       connection_pool_get_by_id (Some p') n = connection_pool_get_by_id (Some p) n)"
proof -
  let ?n = "p_next_connection_id p"
  let ?c = "(new_connection (clk 0) ?n fd addr)\<lparr>c_recv_size := 65536, c_recv_data := [],
    c_send_size := 65536, c_rate := connection_init_rate_limiter (clk 1) 60 1048576\<rparr>"
  obtain i where i: "i < p_capacity p" "c_fd (p_connections p ! i) = -1" and add: "pool_add ok clk p fd addr =
      (if ok 2 \<and> ok 3 \<and> ok 4 \<and> ok 5 then
         Done (Some i, p\<lparr>p_connections := (p_connections p)[i := ?c],
           p_count := p_count p + 1, p_next_connection_id := ?n + 1,
           p_total := p_total p + 1, p_active := p_active p + 1,
           p_max_concurrent := (if p_active p + 1 > p_max_concurrent p then p_active p + 1 else p_max_concurrent p)\<rparr>)
       else Done (None, p\<lparr>p_connections := (p_connections p)[i := blank_connection], p_next_connection_id := ?n + 1\<rparr>))"
    using pool_add_room [OF assms(1,2), of ok clk fd addr] by blast
  have len: "length (p_connections p) = p_capacity p" using assms(1) by (simp add: pool_inv_def)
  have c: "in_use ?c" "c_id ?c = ?n" using assms(4) by (simp_all add: new_connection_def)
  have fresh: "\<not> (in_use (p_connections p ! j) \<and> c_id (p_connections p ! j) = ?n)" if "j < p_capacity p" for j
    using assms(1) that len by (auto simp: pool_inv_def ids_ok_def)
  show ?thesis
  proof (cases "ok 2 \<and> ok 3 \<and> ok 4 \<and> ok 5")
    case True
    define p' where "p' = p\<lparr>p_connections := (p_connections p)[i := ?c],
           p_count := p_count p + 1, p_next_connection_id := ?n + 1,
           p_total := p_total p + 1, p_active := p_active p + 1,
           p_max_concurrent := (if p_active p + 1 > p_max_concurrent p then p_active p + 1 else p_max_concurrent p)\<rparr>"
    have run: "connection_pool_add ok clk (Some p) fd (Some addr) = Done (Some i, Some p')"
      using add True assms(4) by (simp add: connection_pool_add_def p'_def)
    have inv': "pool_inv p'" unfolding p'_def by (rule pool_inv_fill [OF assms(1) i c assms(2,3)])
    have "connection_pool_get_by_id (Some p') ?n = Some i"
      using get_by_id_iff [OF inv'] i len c by (simp add: p'_def)
    moreover have "connection_pool_get_by_id (Some p') n = connection_pool_get_by_id (Some p) n" if "n \<noteq> ?n" for n
      using that i len c first_index_update_other [of i "p_connections p" "\<lambda>x. in_use x \<and> c_id x = n" ?c]
      by (simp add: connection_pool_get_by_id_def p'_def)
    ultimately show ?thesis using run inv' True by blast
  next
    case False
    define p' where "p' = p\<lparr>p_connections := (p_connections p)[i := blank_connection], p_next_connection_id := ?n + 1\<rparr>"
    have run: "connection_pool_add ok clk (Some p) fd (Some addr) = Done (None, Some p')"
      using add False assms(4) by (auto simp: connection_pool_add_def p'_def)
    have inv': "pool_inv p'" unfolding p'_def by (rule pool_inv_blank [OF assms(1) i(1) assms(3)])
    have same: "connection_pool_get_by_id (Some p') n = connection_pool_get_by_id (Some p) n" for n
      using i len first_index_update_other [of i "p_connections p" "\<lambda>x. in_use x \<and> c_id x = n" blank_connection]
      by (simp add: connection_pool_get_by_id_def p'_def blank_connection_def)
    have "connection_pool_get_by_id (Some p) ?n = None"
      using fresh get_by_id_iff [OF assms(1), of ?n] by (metis not_None_eq)
    then show ?thesis using run inv' False same by auto
  qed
qed

definition demo_pool :: connection_pool where
  "demo_pool = the (connection_pool_create True True True True 2)"

lemma demo_pool: "pool_inv demo_pool" "p_capacity demo_pool = 2" "p_count demo_pool = 0"
    "p_next_connection_id demo_pool = 1" "p_locked demo_pool = False"
  using connection_pool_create_inv [of True True True True 2 demo_pool]
  by (simp_all add: demo_pool_def connection_pool_create_def)

lemma pool_add_registers_witness:
  "\<exists>r p'. connection_pool_add (\<lambda>_. True) (\<lambda>_. 0) (Some demo_pool) 7 (Some (1, 2)) = Done (r, Some p') \<and>
     r \<noteq> None \<and> connection_pool_get_by_id (Some p') 1 = r"
  using pool_add_registers [OF demo_pool(1), of 7 "\<lambda>_. True" "\<lambda>_. 0" "(1, 2)"] demo_pool by auto

text \<open>
  The lookups of the pool are exact: \<open>connection_pool_get_by_id\<close> finds a slot if and only if a
  connection in use has that number, and \<open>connection_pool_get_by_user\<close> returns each slot whose
  connection is in use, authenticated and of that user exactly once, in order, with their number.
\<close>

theorem pool_lookups_exact:
  assumes "pool_inv p"
  shows "(connection_pool_get_by_id (Some p) n = Some i \<longleftrightarrow>
      i < p_capacity p \<and> in_use (p_connections p ! i) \<and> c_id (p_connections p ! i) = n) \<and>
    (\<exists>is. connection_pool_get_by_user True (Some p) u = (0, Some (is, length is)) \<and>
      is = filter (\<lambda>j. user_match u (p_connections p ! j)) [0..<p_capacity p])"
proof -
  have len: "length (p_connections p) = p_capacity p" using assms by (simp add: pool_inv_def)
  let ?is = "fill_matches (user_match u) 0 (p_connections p)"
  have e: "?is = filter (\<lambda>j. user_match u (p_connections p ! j)) [0..<p_capacity p]"
    by (simp add: fill_matches_upt len)
  have "length ?is = length (filter (user_match u) (p_connections p))" by (rule length_fill_matches)
  then have "connection_pool_get_by_user True (Some p) u = (0, Some (?is, length ?is))"
    by (auto simp: connection_pool_get_by_user_def Let_def)
  then show ?thesis using e get_by_id_iff [OF assms, of n i] by blast
qed

lemma pool_lookups_exact_witness:
  "connection_pool_get_by_id (Some demo_pool) 1 \<noteq> Some 0 \<and>
   (\<exists>is. connection_pool_get_by_user True (Some demo_pool) 9 = (0, Some (is, length is)) \<and> is = [])"
  using pool_lookups_exact [OF demo_pool(1), of 1 0 9]
  by (auto simp: demo_pool_def connection_pool_create_def blank_connection_def user_match_def upt_rec [of _ 2] numeral_2_eq_2 less_Suc_eq)

text \<open>
  A full pool never grows: as soon as as many connections are counted as there are slots,
  \<open>connection_pool_add\<close> calls \<open>resize_connection_pool\<close>, which locks the mutex its caller holds, and
  the call does not return. The counter is what decides: slots freed by \<open>connection_close\<close> alone do
  not help.
\<close>

theorem pool_full_add_deadlocks:
  assumes "pool_inv p" "p_capacity p \<le> unat (p_count p)" "0 \<le> fd"
  shows "connection_pool_add ok clk (Some p) fd (Some addr) = Deadlock"
proof -
  have "p_count p \<ge> of_nat (p_capacity p)" "\<not> p_locked p"
    using assms(1,2) count_below_capacity [OF assms(1)] by (auto simp: pool_inv_def)
  then show ?thesis using assms(3)
    by (simp add: connection_pool_add_def pool_add_def pool_lock_def resize_connection_pool_def)
qed

lemma pool_full_add_deadlocks_witness:
  "connection_pool_add (\<lambda>_. True) (\<lambda>_. 0) (Some (demo_pool\<lparr>p_count := 2\<rparr>)) 7 (Some (1, 2)) = Deadlock"
  by (rule pool_full_add_deadlocks) (use demo_pool in \<open>auto simp: pool_inv_def demo_pool_def connection_pool_create_def blank_connection_def\<close>)

text \<open>
  Removing a connection is undefined behaviour: \<open>connection_pool_remove\<close> of a number that is in
  use, and \<open>connection_pool_cleanup_expired\<close> when some connection has expired, end in
  \<open>connection_destroy\<close>, which frees a pointer into the pool array. Removing an unknown number is
  harmless and returns \<open>-2\<close>.
\<close>

theorem pool_remove_frees_slot:
  assumes "pool_inv p"
  shows "(connection_pool_get_by_id (Some p) n \<noteq> None \<longrightarrow> connection_pool_remove (Some p) n = Undefined_Behaviour) \<and>
    (connection_pool_get_by_id (Some p) n = None \<longrightarrow> connection_pool_remove (Some p) n = Done (-2, Some p)) \<and>
    ((\<exists>i < p_capacity p. in_use (p_connections p ! i) \<and> now - c_last_activity (p_connections p ! i) > t) \<longrightarrow>
      connection_pool_cleanup_expired now (Some p) t = Undefined_Behaviour)"
proof -
  have u: "\<not> p_locked p" using assms by (simp add: pool_inv_def)
  have loop: "cleanup_loop now t q is = Undefined_Behaviour"
    if "\<exists>i \<in> set is. in_use (p_connections q ! i) \<and> now - c_last_activity (p_connections q ! i) > t" for q "is"
    using that by (induction "is") (auto simp: Let_def drop_slot_def connection_destroy_def)
  have "p\<lparr>p_locked := False\<rparr> = p" using u by simp
  moreover have "cleanup_loop now t (p\<lparr>p_locked := True\<rparr>) [0..<p_capacity p] = Undefined_Behaviour"
    if "i < p_capacity p" "in_use (p_connections p ! i)" "now - c_last_activity (p_connections p ! i) > t" for i
    using that by (intro loop) auto
  ultimately show ?thesis using u
    by (auto simp: connection_pool_remove_def connection_pool_get_by_id_def pool_lock_def drop_slot_def
        connection_destroy_def pool_unlock_def connection_pool_cleanup_expired_def Let_def split: option.splits)
qed

text \<open>The pool itself can be destroyed only when none of its connections is open.\<close>

lemma pool_destroy_outcome:
  assumes "pool_inv p"
  shows "connection_pool_destroy (Some p) =
    (if \<exists>c \<in> set (p_connections p). in_use c then Undefined_Behaviour else Done ())"
proof -
  have "destroy_slots i cs = (if \<exists>c \<in> set cs. in_use c then Undefined_Behaviour else Done ())" for i cs
    by (induction cs arbitrary: i) (auto simp: connection_destroy_def Let_def)
  then show ?thesis using assms by (simp add: connection_pool_destroy_def pool_lock_def pool_inv_def)
qed

definition busy_pool :: connection_pool where
  "busy_pool = demo_pool\<lparr>p_connections := [blank_connection, demo_conn], p_count := 1, p_next_connection_id := 2\<rparr>"

lemma busy_pool: "pool_inv busy_pool" "connection_pool_get_by_id (Some busy_pool) 1 = Some 1"
    "connection_pool_get_by_id (Some busy_pool) 3 = None"
proof -
  have c: "c_fd blank_connection = -1" "c_fd demo_conn = 5" "c_id demo_conn = 1"
    by (simp_all add: blank_connection_def demo_conn_def)
  have "ids_ok [blank_connection, demo_conn] 2"
    using c by (auto simp: ids_ok_def less_Suc_eq)
  then show "pool_inv busy_pool" using demo_pool(2,5) c by (simp add: busy_pool_def pool_inv_def)
  show "connection_pool_get_by_id (Some busy_pool) 1 = Some 1" "connection_pool_get_by_id (Some busy_pool) 3 = None"
    using c by (simp_all add: busy_pool_def connection_pool_get_by_id_def)
qed

lemma pool_remove_frees_slot_witness:
  "connection_pool_remove (Some busy_pool) 1 = Undefined_Behaviour \<and>
   connection_pool_remove (Some busy_pool) 3 = Done (-2, Some busy_pool)"
  using pool_remove_frees_slot [OF busy_pool(1), of 1] pool_remove_frees_slot [OF busy_pool(1), of 3] busy_pool(2,3)
  by simp

end
