(* ===== verification/Thread_Pool.thy ===== *)
theory Thread_Pool
  imports Fifo "HOL-Library.Multiset"
begin

text \<open>
  The thread pool, \<open>server/src/threadpool.c\<close>. Tasks are nodes in an explicit heap: the three priority
  queues are singly linked chains that share one tail pointer, so aliasing decides what happens. \<open>None\<close>
  as the result of an operation is undefined behaviour of the C program (the dereference of a null or
  dangling pointer). Submissions and \<open>get_next_task\<close> run under \<open>queue_mutex\<close> and are atomic steps; a
  worker's turn is cut where it gives up the mutex: polling the queues, waking up, and executing the
  task it holds. Clock readings, answers of the allocator and of \<open>pthread_create\<close>, and the outcomes of the
  two floating-point comparisons are arguments.
\<close>

datatype threadpool_state = TP_Created | TP_Running | TP_Stopping | TP_Stopped | TP_Error

datatype task_priority = Prio_Low | Prio_Normal | Prio_High | Prio_Critical

datatype threadpool_error = TP_Success | TP_Invalid_Arg | TP_Memory | TP_Busy | TP_Shutdown | TP_Timeout
  | TP_Thread | TP_Queue_Full | TP_Internal

text \<open>The three queue heads \<open>task_queue_high\<close>, \<open>task_queue_normal\<close> and \<open>task_queue_low\<close>, as an index.\<close>

datatype queue_class = Q_High | Q_Normal | Q_Low

record 'f task =
  t_function :: 'f
  t_argument :: "nat option"
  t_cleanup :: bool
  t_priority :: task_priority
  t_id :: "64 word"
  t_created :: "64 word"
  t_timeout :: "64 word"
  t_next :: "nat option"

record thread_statistics =
  ts_tasks_executed :: "64 word"
  ts_total_execution_time :: "64 word"
  ts_last_task_time :: "64 word"
  ts_is_busy :: bool
  ts_current_task_id :: "64 word"

record threadpool_config =
  cfg_min_threads :: "32 word"
  cfg_max_threads :: "32 word"
  cfg_default_threads :: "32 word"
  cfg_queue_size :: "32 word"
  cfg_dynamic_scaling :: bool
  cfg_scaling_check_interval_ms :: "32 word"

text \<open>\<open>tp_threads\<close> is the thread array: \<open>None\<close> once its memory has been moved by \<open>realloc\<close> without the
  pointer being updated.\<close>

record 'f threadpool =
  tp_heap :: "nat \<rightharpoonup> 'f task"
  tp_queue :: "queue_class \<Rightarrow> nat option"
  tp_tail :: "nat option"
  tp_threads :: "nat option"
  tp_thread_stats :: "thread_statistics list"
  tp_thread_count :: "32 word"
  tp_active_threads :: "32 word"
  tp_state :: threadpool_state
  tp_shutdown_requested :: bool
  tp_immediate_shutdown :: bool
  tp_submitted :: "64 word"
  tp_completed :: "64 word"
  tp_failed :: "64 word"
  tp_queue_length :: "64 word"
  tp_max_queue_length :: "64 word"
  tp_total_execution_time :: "64 word"
  tp_average_wait_time :: "64 word"
  tp_config :: threadpool_config
  tp_task_counter :: "64 word"
  tp_last_scaling_check :: "64 word"

section \<open>Creating a pool\<close>

abbreviation MIN_THREADS :: "32 word" where "MIN_THREADS \<equiv> 1"
abbreviation MAX_THREADS :: "32 word" where "MAX_THREADS \<equiv> 128"
abbreviation DEFAULT_THREADS :: "32 word" where "DEFAULT_THREADS \<equiv> 16"

definition threadpool_get_default_config :: threadpool_config where
  "threadpool_get_default_config =
     \<lparr>cfg_min_threads = MIN_THREADS, cfg_max_threads = MAX_THREADS, cfg_default_threads = DEFAULT_THREADS,
      cfg_queue_size = 1024, cfg_dynamic_scaling = True, cfg_scaling_check_interval_ms = 5000\<rparr>"

text \<open>The validation steps of \<open>threadpool_create\<close>.\<close>

definition validate_config :: "threadpool_config \<Rightarrow> threadpool_config" where
  "validate_config c0 =
     (let c1 = (if cfg_min_threads c0 < MIN_THREADS then c0\<lparr>cfg_min_threads := MIN_THREADS\<rparr> else c0);
          c2 = (if cfg_max_threads c1 > MAX_THREADS then c1\<lparr>cfg_max_threads := MAX_THREADS\<rparr> else c1);
          c3 = (if cfg_default_threads c2 < cfg_min_threads c2
                then c2\<lparr>cfg_default_threads := cfg_min_threads c2\<rparr> else c2)
      in if cfg_default_threads c3 > cfg_max_threads c3
         then c3\<lparr>cfg_default_threads := cfg_max_threads c3\<rparr> else c3)"

definition zero_stats :: thread_statistics where
  "zero_stats = \<lparr>ts_tasks_executed = 0, ts_total_execution_time = 0, ts_last_task_time = 0, ts_is_busy = False,
     ts_current_task_id = 0\<rparr>"

definition threadpool_start :: "threadpool_config \<Rightarrow> 'f threadpool" where
  "threadpool_start c0 =
     (let c = validate_config c0; n = unat (cfg_default_threads c) in
      \<lparr>tp_heap = Map.empty, tp_queue = (\<lambda>_. None), tp_tail = None, tp_threads = Some n,
       tp_thread_stats = replicate n zero_stats, tp_thread_count = cfg_default_threads c,
       tp_active_threads = 0, tp_state = TP_Running, tp_shutdown_requested = False,
       tp_immediate_shutdown = False, tp_submitted = 0, tp_completed = 0, tp_failed = 0, tp_queue_length = 0,
       tp_max_queue_length = 0, tp_total_execution_time = 0, tp_average_wait_time = 0, tp_config = c,
       tp_task_counter = 1, tp_last_scaling_check = 0\<rparr>)"

text \<open>
  \<open>threadpool_create\<close> with the answers it gets: the pool, the mutexes and condition variables, the thread
  array, the statistics array, and for every thread its argument block together with
  \<open>pthread_create\<close>. After the synchronisation objects exist every failure calls \<open>threadpool_destroy\<close>, whose
  join loop reads \<open>threads[i]\<close> for all \<open>i < thread_count\<close>: a null array, or entries that no
  \<open>pthread_create\<close> has written.
\<close>

definition threadpool_create :: "bool \<Rightarrow> bool \<Rightarrow> bool \<Rightarrow> bool \<Rightarrow> (nat \<Rightarrow> bool) \<Rightarrow> threadpool_config option \<Rightarrow>
    'f threadpool option option" where
  "threadpool_create ok_pool ok_sync ok_threads ok_stats started config =
     (if \<not> ok_pool then Some None
      else
        let c = (case config of Some c \<Rightarrow> c | None \<Rightarrow> threadpool_get_default_config);
            p = threadpool_start c;
            n = unat (tp_thread_count p)
        in if \<not> ok_sync then Some None
           else if \<not> ok_threads \<or> \<not> ok_stats then (if n = 0 then Some None else None)
           else if \<forall>i < n. started i then Some (Some p) else None)"

section \<open>Submitting tasks\<close>

text \<open>\<open>addr\<close> is the answer of \<open>malloc\<close>, \<open>now\<close> the clock in milliseconds.\<close>

definition create_task :: "nat option \<Rightarrow> 64 word \<Rightarrow> 'f \<Rightarrow> nat option \<Rightarrow> bool \<Rightarrow> task_priority \<Rightarrow> 64 word \<Rightarrow> 64 word \<Rightarrow>
    (nat \<times> 'f task) option" where
  "create_task addr now fn arg cleanup prio timeout_ms task_id =
     (case addr of None \<Rightarrow> None
      | Some a \<Rightarrow> Some (a, \<lparr>t_function = fn, t_argument = arg, t_cleanup = cleanup, t_priority = prio,
          t_id = task_id, t_created = now, t_timeout = timeout_ms, t_next = None\<rparr>))"

text \<open>Destroying a task: the arguments handed to its cleanup function, and the heap without its node.\<close>

definition destroy_task :: "nat \<Rightarrow> 'f threadpool \<Rightarrow> nat list \<times> 'f threadpool" where
  "destroy_task a p =
     (case tp_heap p a of None \<Rightarrow> ([], p)
      | Some t \<Rightarrow>
          ((if t_cleanup t then (case t_argument t of Some x \<Rightarrow> [x] | None \<Rightarrow> []) else []),
           p\<lparr>tp_heap := (tp_heap p)(a := None)\<rparr>))"

fun queue_of :: "task_priority \<Rightarrow> queue_class" where
  "queue_of Prio_Low = Q_Low"
| "queue_of Prio_Normal = Q_Normal"
| "queue_of Prio_High = Q_High"
| "queue_of Prio_Critical = Q_High"

definition count_submission :: "'f threadpool \<Rightarrow> 'f threadpool" where
  "count_submission p =
     (let n = tp_queue_length p + 1 in
      p\<lparr>tp_queue_length := n, tp_submitted := tp_submitted p + 1,
        tp_max_queue_length := (if n > tp_max_queue_length p then n else tp_max_queue_length p)\<rparr>)"

text \<open>Linking the new task \<open>a\<close> into queue \<open>c\<close>: at its head when it is empty, otherwise behind the
  shared tail.\<close>

definition link_task :: "queue_class \<Rightarrow> nat \<Rightarrow> 'f threadpool \<Rightarrow> 'f threadpool option" where
  "link_task c a p =
     (if tp_queue p c = None then Some (p\<lparr>tp_queue := (tp_queue p)(c := Some a), tp_tail := Some a\<rparr>)
      else case tp_tail p of
        None \<Rightarrow> None
      | Some t \<Rightarrow>
          (case tp_heap p t of
             None \<Rightarrow> None
           | Some node \<Rightarrow> Some (p\<lparr>tp_heap := (tp_heap p)(t \<mapsto> node\<lparr>t_next := Some a\<rparr>), tp_tail := Some a\<rparr>)))"

text \<open>The middle result is what the caller finds in \<open>*task_id\<close>.\<close>

definition threadpool_add_task :: "nat option \<Rightarrow> 64 word \<Rightarrow> 'f threadpool option \<Rightarrow> 'f option \<Rightarrow> nat option \<Rightarrow>
    bool \<Rightarrow> task_priority \<Rightarrow> 64 word \<Rightarrow> (threadpool_error \<times> 64 word option \<times> 'f threadpool option) option" where
  "threadpool_add_task addr now pool function arg cleanup prio timeout_ms =
     (case pool of None \<Rightarrow> Some (TP_Invalid_Arg, None, None)
      | Some p \<Rightarrow>
     (case function of None \<Rightarrow> Some (TP_Invalid_Arg, None, Some p)
      | Some fn \<Rightarrow>
          if tp_state p \<noteq> TP_Running then Some (TP_Shutdown, None, Some p)
          else if cfg_queue_size (tp_config p) > 0 \<and> tp_queue_length p \<ge> ucast (cfg_queue_size (tp_config p))
          then Some (TP_Queue_Full, None, Some p)
          else
            let task_id = tp_task_counter p; p1 = p\<lparr>tp_task_counter := tp_task_counter p + 1\<rparr> in
            case create_task addr now fn arg cleanup prio timeout_ms task_id of
              None \<Rightarrow> Some (TP_Memory, None, Some p1)
            | Some (a, t) \<Rightarrow>
                map_option (\<lambda>p2. (TP_Success, Some task_id, Some (count_submission p2)))
                  (link_task (queue_of prio) a (p1\<lparr>tp_heap := (tp_heap p1)(a \<mapsto> t)\<rparr>))))"

definition threadpool_add_urgent_task :: "nat option \<Rightarrow> 64 word \<Rightarrow> 'f threadpool option \<Rightarrow> 'f option \<Rightarrow> nat option \<Rightarrow>
    bool \<Rightarrow> threadpool_error \<times> 'f threadpool option" where
  "threadpool_add_urgent_task addr now pool function arg cleanup =
     (case pool of None \<Rightarrow> (TP_Invalid_Arg, None)
      | Some p \<Rightarrow>
     (case function of None \<Rightarrow> (TP_Invalid_Arg, Some p)
      | Some fn \<Rightarrow>
          if tp_state p \<noteq> TP_Running then (TP_Shutdown, Some p)
          else
            let task_id = tp_task_counter p; p1 = p\<lparr>tp_task_counter := tp_task_counter p + 1\<rparr> in
            case create_task addr now fn arg cleanup Prio_Critical 0 task_id of
              None \<Rightarrow> (TP_Memory, Some p1)
            | Some (a, t) \<Rightarrow>
                let p2 = p1\<lparr>tp_heap := (tp_heap p1)(a \<mapsto> t\<lparr>t_next := tp_queue p1 Q_High\<rparr>),
                            tp_queue := (tp_queue p1)(Q_High := Some a)\<rparr>;
                    p3 = (if tp_tail p2 = None then p2\<lparr>tp_tail := Some a\<rparr> else p2)
                in (TP_Success, Some (count_submission p3))))"

section \<open>Resizing\<close>

text \<open>
  \<open>started\<close> is the number of threads whose argument block and \<open>pthread_create\<close> succeeded before the first
  failure. When the second \<open>realloc\<close> fails the first one has already moved the thread array.
\<close>

definition threadpool_resize :: "bool \<Rightarrow> bool \<Rightarrow> 32 word \<Rightarrow> 'f threadpool option \<Rightarrow> 32 word \<Rightarrow>
    threadpool_error \<times> 'f threadpool option" where
  "threadpool_resize ok_threads ok_stats started pool num_threads =
     (case pool of None \<Rightarrow> (TP_Invalid_Arg, None)
      | Some p \<Rightarrow>
      if num_threads < cfg_min_threads (tp_config p) \<or> num_threads > cfg_max_threads (tp_config p)
      then (TP_Invalid_Arg, Some p)
      else if tp_state p \<noteq> TP_Running then (TP_Shutdown, Some p)
      else if num_threads = tp_thread_count p then (TP_Success, Some p)
      else if num_threads > tp_thread_count p then
        (if \<not> ok_threads then (TP_Memory, Some p)
         else if \<not> ok_stats then (TP_Memory, Some (p\<lparr>tp_threads := None\<rparr>))
         else
           let old = tp_thread_count p; to_add = num_threads - old;
               missing = to_add - min started to_add
           in (TP_Success, Some (p\<lparr>tp_threads := Some (unat num_threads),
                 tp_thread_stats := take (unat old) (tp_thread_stats p) @ replicate (unat to_add) zero_stats,
                 tp_thread_count := num_threads - missing\<rparr>)))
      else (TP_Success, Some (p\<lparr>tp_config := (tp_config p)\<lparr>cfg_max_threads := num_threads\<rparr>\<rparr>)))"

text \<open>\<open>is_high\<close> and \<open>is_low\<close>: the load factor is over the threshold, and under one fifth.\<close>

definition calculate_optimal_threads :: "bool \<Rightarrow> bool \<Rightarrow> 'f threadpool \<Rightarrow> 32 word" where
  "calculate_optimal_threads is_high is_low p =
     (if is_high then min (tp_thread_count p * 2) (cfg_max_threads (tp_config p))
      else if is_low then max (tp_thread_count p div 2) (cfg_min_threads (tp_config p))
      else tp_thread_count p)"

record scaling_env =
  se_high :: bool
  se_low :: bool
  se_ok_threads :: bool
  se_ok_stats :: bool
  se_started :: "32 word"

definition check_and_adjust_pool_size :: "scaling_env \<Rightarrow> 'f threadpool \<Rightarrow> 'f threadpool" where
  "check_and_adjust_pool_size e p =
     (if \<not> cfg_dynamic_scaling (tp_config p) then p
      else
        let optimal = calculate_optimal_threads (se_high e) (se_low e) p in
        if optimal \<noteq> tp_thread_count p
        then (case threadpool_resize (se_ok_threads e) (se_ok_stats e) (se_started e) (Some p) optimal of
                (_, Some p') \<Rightarrow> p' | (_, None) \<Rightarrow> p)
        else p)"

section \<open>Workers\<close>

text \<open>The queue that \<open>get_next_task\<close> serves.\<close>

definition next_class :: "'f threadpool \<Rightarrow> queue_class option" where
  "next_class p =
     (if tp_queue p Q_High \<noteq> None then Some Q_High
      else if tp_queue p Q_Normal \<noteq> None then Some Q_Normal
      else if tp_queue p Q_Low \<noteq> None then Some Q_Low else None)"

text \<open>The task, the pool, and whether \<open>all_tasks_done\<close> is broadcast.\<close>

definition get_next_task :: "64 word \<Rightarrow> 'f threadpool \<Rightarrow> (nat option \<times> 'f threadpool \<times> bool) option" where
  "get_next_task now p =
     (case next_class p of
        None \<Rightarrow> Some (None, p, False)
      | Some c \<Rightarrow>
          (case tp_queue p c of
             None \<Rightarrow> None
           | Some a \<Rightarrow>
               (case tp_heap p a of
                  None \<Rightarrow> None
                | Some t \<Rightarrow>
                    let p1 = p\<lparr>tp_queue := (tp_queue p)(c := t_next t)\<rparr>;
                        p2 = (if tp_tail p1 = Some a then p1\<lparr>tp_tail := None\<rparr> else p1);
                        completed = tp_completed p2 + 1;
                        exec = tp_total_execution_time p2 + (now - t_created t);
                        p3 = p2\<lparr>tp_queue_length := tp_queue_length p2 - 1, tp_completed := completed,
                                tp_total_execution_time := exec\<rparr>;
                        p4 = (if completed > 0 then p3\<lparr>tp_average_wait_time := exec div completed\<rparr> else p3)
                    in Some (Some a, p4, tp_queue_length p4 = 0 \<and> tp_state p4 = TP_Stopping))))"

definition set_stats :: "nat \<Rightarrow> (thread_statistics \<Rightarrow> thread_statistics) \<Rightarrow> 'f threadpool \<Rightarrow> 'f threadpool option" where
  "set_stats i f p =
     (if i < length (tp_thread_stats p)
      then Some (p\<lparr>tp_thread_stats := (tp_thread_stats p)[i := f (tp_thread_stats p ! i)]\<rparr>) else None)"

definition update_thread_statistics :: "nat \<Rightarrow> 64 word \<Rightarrow> 'f threadpool \<Rightarrow> 'f threadpool option" where
  "update_thread_statistics i execution_time =
     set_stats i (\<lambda>s. s\<lparr>ts_tasks_executed := ts_tasks_executed s + 1,
       ts_total_execution_time := ts_total_execution_time s + execution_time, ts_current_task_id := 0\<rparr>)"

text \<open>One turn of the worker loop up to where the worker releases the mutex: it goes to sleep on
  \<open>queue_not_empty\<close>, leaves, or holds a task.\<close>

datatype worker_action = Worker_Sleeps | Worker_Exits | Worker_Holds "nat option"

definition worker_poll :: "64 word \<Rightarrow> nat \<Rightarrow> 'f threadpool \<Rightarrow> (worker_action \<times> 'f threadpool) option" where
  "worker_poll now i p =
     (if \<not> tp_shutdown_requested p \<and> next_class p = None then
        map_option (\<lambda>p1. (Worker_Sleeps, p1\<lparr>tp_active_threads := tp_active_threads p1 - 1\<rparr>))
          (set_stats i (\<lambda>s. s\<lparr>ts_is_busy := False\<rparr>) p)
      else if tp_shutdown_requested p \<and> next_class p = None then
        map_option (\<lambda>p1. (Worker_Exits, p1\<lparr>tp_active_threads := tp_active_threads p1 - 1\<rparr>))
          (set_stats i (\<lambda>s. s\<lparr>ts_is_busy := False\<rparr>) p)
      else map_option (\<lambda>(t, p1, _). (Worker_Holds t, p1)) (get_next_task now p))"

definition worker_wakeup :: "nat \<Rightarrow> 'f threadpool \<Rightarrow> 'f threadpool option" where
  "worker_wakeup i p =
     set_stats i (\<lambda>s. s\<lparr>ts_is_busy := True\<rparr>) (p\<lparr>tp_active_threads := tp_active_threads p + 1\<rparr>)"

text \<open>
  Executing the task at \<open>a\<close>: the call of its function, the arguments given to its cleanup function, and
  the pool after the statistics, the release of the node and the scaling check. The clock is
  read four times.
\<close>

definition worker_execute :: "scaling_env \<Rightarrow> 64 word \<times> 64 word \<times> 64 word \<times> 64 word \<Rightarrow> nat \<Rightarrow> nat \<Rightarrow>
    'f threadpool \<Rightarrow> (('f \<times> nat option) \<times> nat list \<times> 'f threadpool) option" where
  "worker_execute e clk i a p =
     (case clk of (seen, start_time, end_time, current_us) \<Rightarrow>
      (case tp_heap p a of None \<Rightarrow> None
       | Some t \<Rightarrow>
      (case set_stats i (\<lambda>s. s\<lparr>ts_current_task_id := t_id t, ts_last_task_time := seen\<rparr>) p of None \<Rightarrow> None
       | Some p1 \<Rightarrow>
      (case update_thread_statistics i (end_time - start_time) p1 of None \<Rightarrow> None
       | Some p2 \<Rightarrow>
          let (cleaned, p3) = destroy_task a p2;
              current_time = current_us div 1000;
              p4 = (if cfg_dynamic_scaling (tp_config p3) then
                      (if current_time - tp_last_scaling_check p3 > ucast (cfg_scaling_check_interval_ms (tp_config p3))
                       then (check_and_adjust_pool_size e p3)\<lparr>tp_last_scaling_check := current_time\<rparr> else p3)
                    else p3)
          in Some ((t_function t, t_argument t), cleaned, p4)))))"

section \<open>Waiting, stopping, destroying\<close>

text \<open>The lengths of the queue found at the wake-ups of \<open>threadpool_wait\<close>, each with the report of a time
  out; \<open>None\<close> while it still waits.\<close>

fun wait_loop :: "64 word \<Rightarrow> 64 word \<Rightarrow> (bool \<times> 64 word) list \<Rightarrow> threadpool_error option" where
  "wait_loop timeout_ms len [] = (if len > 0 then None else Some TP_Success)"
| "wait_loop timeout_ms len ((timed_out, len') # ws) =
     (if len > 0 then
        (if timeout_ms \<noteq> 0 \<and> timed_out then Some TP_Timeout else wait_loop timeout_ms len' ws)
      else Some TP_Success)"

definition threadpool_wait :: "'f threadpool option \<Rightarrow> 64 word \<Rightarrow> (bool \<times> 64 word) list \<Rightarrow> threadpool_error option" where
  "threadpool_wait pool timeout_ms ws =
     (case pool of None \<Rightarrow> Some TP_Invalid_Arg
      | Some p \<Rightarrow> if tp_state p \<noteq> TP_Running then Some TP_Shutdown
          else wait_loop timeout_ms (tp_queue_length p) ws)"

definition threadpool_pause :: "'f threadpool \<Rightarrow> 'f threadpool" where
  "threadpool_pause p = p\<lparr>tp_state := TP_Stopping\<rparr>"

definition threadpool_resume :: "'f threadpool \<Rightarrow> 'f threadpool" where
  "threadpool_resume p = p\<lparr>tp_state := TP_Running\<rparr>"

text \<open>
  \<open>threadpool_destroy\<close> in two parts. The first takes the mutex and announces the end: \<open>Inl\<close> its early
  return, \<open>Inr\<close> the pool and whether it must wait for \<open>all_tasks_done\<close>. The second, after the workers
  have been joined, destroys what is left in the three queues: the cleanup arguments, and the
  number of tasks counted as failed. \<open>None\<close> is the use of a freed node, or a loop that does not end.
\<close>

definition destroy_request :: "bool \<Rightarrow> 'f threadpool option \<Rightarrow> threadpool_error + 'f threadpool \<times> bool" where
  "destroy_request wait pool =
     (case pool of None \<Rightarrow> Inl TP_Invalid_Arg
      | Some p \<Rightarrow>
          if tp_state p = TP_Stopped \<or> tp_state p = TP_Error then Inl TP_Success
          else Inr (p\<lparr>tp_shutdown_requested := True, tp_immediate_shutdown := \<not> wait, tp_state := TP_Stopping\<rparr>,
                    wait \<and> tp_queue_length p > 0))"

partial_function (option) drain_queue :: "queue_class \<Rightarrow> 'f threadpool \<Rightarrow> (nat list \<times> 'f threadpool) option" where
  "drain_queue c p =
     (case tp_queue p c of
        None \<Rightarrow> Some ([], p)
      | Some a \<Rightarrow>
          (case tp_heap p a of
             None \<Rightarrow> None
           | Some t \<Rightarrow>
               (let (cleaned, p1) = destroy_task a (p\<lparr>tp_queue := (tp_queue p)(c := t_next t)\<rparr>) in
                Option.bind (drain_queue c (p1\<lparr>tp_failed := tp_failed p1 + 1\<rparr>))
                  (\<lambda>(more, p2). Some (cleaned @ more, p2)))))"

definition destroy_finish :: "'f threadpool \<Rightarrow> (nat list \<times> 'f threadpool) option" where
  "destroy_finish p =
     (if tp_threads p = None \<and> tp_thread_count p > 0 then None
      else Option.bind (drain_queue Q_High p) (\<lambda>(c1, p1).
           Option.bind (drain_queue Q_Normal p1) (\<lambda>(c2, p2).
           Option.bind (drain_queue Q_Low p2) (\<lambda>(c3, p3).
             Some (c1 @ c2 @ c3, p3\<lparr>tp_tail := None, tp_queue_length := 0, tp_state := TP_Stopped\<rparr>)))))"

section \<open>Chains\<close>

fun chain :: "(nat \<rightharpoonup> 'f task) \<Rightarrow> nat option \<Rightarrow> nat list \<Rightarrow> bool" where
  "chain h x [] = (x = None)"
| "chain h x (a # as) = (x = Some a \<and> (case h a of None \<Rightarrow> False | Some t \<Rightarrow> chain h (t_next t) as))"

lemma chain_frame: "a \<notin> set as \<Longrightarrow> chain (h(a := v)) x as = chain h x as"
  by (induction as arbitrary: x) (auto split: option.splits)

lemma chain_mem: "chain h x as \<Longrightarrow> b \<in> set as \<Longrightarrow> h b \<noteq> None"
  by (induction as arbitrary: x) (auto split: option.splits)

lemma chain_head: "chain h x as \<Longrightarrow> x = None \<longleftrightarrow> as = []"
  by (cases as) auto

lemma chain_snoc:
  assumes "chain h x as" "as \<noteq> []" "distinct as" "a \<notin> set as"
    and "h (last as) = Some t" "h a = Some n" "t_next n = None"
  shows "chain (h(last as \<mapsto> t\<lparr>t_next := Some a\<rparr>)) x (as @ [a])"
  using assms
proof (induction as arbitrary: x)
  case Nil
  then show ?case by simp
next
  case (Cons b as)
  show ?case
  proof (cases "as = []")
    case True
    with Cons.prems show ?thesis by auto
  next
    case False
    obtain u where u: "h b = Some u" "x = Some b" "chain h (t_next u) as" using Cons.prems(1) by (auto split: option.splits)
    have "b \<noteq> last as" using Cons.prems(3) False by auto
    then show ?thesis using u Cons.IH [OF u(3) False] Cons.prems False by simp
  qed
qed

section \<open>The queues as lists\<close>

text \<open>What the operations do to the three queues seen as lists, and where the shared tail is: in the
  queue \<open>loc\<close>, or nowhere.\<close>

type_synonym 'x tq = "(queue_class \<Rightarrow> 'x list) \<times> queue_class option"

definition a_add :: "queue_class \<Rightarrow> 'x \<Rightarrow> 'x tq \<Rightarrow> 'x tq option" where
  "a_add c x q = (case q of (A, loc) \<Rightarrow>
     if A c = [] then Some (A(c := [x]), Some c)
     else case loc of None \<Rightarrow> None | Some d \<Rightarrow> Some (A(d := A d @ [x]), Some d))"

definition a_urgent :: "'x \<Rightarrow> 'x tq \<Rightarrow> 'x tq" where
  "a_urgent x q = (case q of (A, loc) \<Rightarrow>
     (A(Q_High := x # A Q_High), if loc = None then Some Q_High else loc))"

definition a_class :: "(queue_class \<Rightarrow> 'x list) \<Rightarrow> queue_class option" where
  "a_class A = (if A Q_High \<noteq> [] then Some Q_High else if A Q_Normal \<noteq> [] then Some Q_Normal
     else if A Q_Low \<noteq> [] then Some Q_Low else None)"

definition a_next :: "'x tq \<Rightarrow> 'x option \<times> 'x tq" where
  "a_next q = (case q of (A, loc) \<Rightarrow> (case a_class A of
       None \<Rightarrow> (None, q)
     | Some c \<Rightarrow> (Some (hd (A c)), A(c := tl (A c)), if loc = Some c \<and> tl (A c) = [] then None else loc)))"

text \<open>The representation: disjoint chains, the tail at the end of one of them; while there is no tail
  the high queue is empty.\<close>

definition shape :: "(nat \<rightharpoonup> 'f task) \<Rightarrow> (queue_class \<Rightarrow> nat option) \<Rightarrow> nat option \<Rightarrow> nat tq \<Rightarrow> bool" where
  "shape h q tl' s = (case s of (A, loc) \<Rightarrow>
     (\<forall>c. chain h (q c) (A c) \<and> distinct (A c)) \<and>
     (\<forall>c d. c \<noteq> d \<longrightarrow> set (A c) \<inter> set (A d) = {}) \<and>
     (case loc of None \<Rightarrow> tl' = None \<and> A Q_High = [] | Some c \<Rightarrow> A c \<noteq> [] \<and> tl' = Some (last (A c))))"

lemma shape_link:
  assumes sh: "shape (tp_heap p) (tp_queue p) (tp_tail p) (A, loc)" and fresh: "tp_heap p a = None"
    and t: "t_next t = None"
  shows "rel_option (\<lambda>p' s'. shape (tp_heap p') (tp_queue p') (tp_tail p') s' \<and>
      p' = p\<lparr>tp_heap := tp_heap p', tp_queue := tp_queue p', tp_tail := tp_tail p'\<rparr> \<and>
      (\<forall>b. map_option (\<lambda>u. u\<lparr>t_next := None\<rparr>) (tp_heap p' b) =
        map_option (\<lambda>u. u\<lparr>t_next := None\<rparr>) (((tp_heap p)(a \<mapsto> t)) b)))
    (link_task c a (p\<lparr>tp_heap := (tp_heap p)(a \<mapsto> t)\<rparr>)) (a_add c a (A, loc))"
proof -
  let ?h = "(tp_heap p)(a \<mapsto> t)"
  have notin: "a \<notin> set (A d)" for d using sh fresh chain_mem [of "tp_heap p"] by (fastforce simp: shape_def)
  have ch: "chain ?h (tp_queue p d) (A d)" "distinct (A d)" for d
    using sh notin by (auto simp: shape_def chain_frame)
  have dis: "d \<noteq> e \<Longrightarrow> set (A d) \<inter> set (A e) = {}" for d e using sh by (simp add: shape_def)
  show ?thesis
  proof (cases "A c = []")
    case True
    then have e: "tp_queue p c = None" using chain_head [OF ch(1)] by blast
    have "shape ?h ((tp_queue p)(c := Some a)) (Some a) (A(c := [a]), Some c)"
      using ch dis notin t by (auto simp: shape_def)
    with True e show ?thesis by (simp add: link_task_def a_add_def)
  next
    case False
    then have ne: "tp_queue p c \<noteq> None" using chain_head [OF ch(1)] by blast
    show ?thesis
    proof (cases loc)
      case None
      then have "tp_tail p = None" using sh by (simp add: shape_def)
      with None False ne show ?thesis by (simp add: link_task_def a_add_def)
    next
      case (Some d)
      then have d: "A d \<noteq> []" "tp_tail p = Some (last (A d))" using sh by (auto simp: shape_def)
      obtain u where u: "?h (last (A d)) = Some u"
        using chain_mem [OF ch(1) last_in_set [OF d(1)]] by blast
      let ?h' = "?h(last (A d) \<mapsto> u\<lparr>t_next := Some a\<rparr>)"
      have "chain ?h' (tp_queue p d) (A d @ [a])"
        using ch d(1) notin u t by (intro chain_snoc) auto
      moreover have "chain ?h' (tp_queue p e) (A e)" if "e \<noteq> d" for e
        using ch(1) [of e] dis [OF that] last_in_set [OF d(1)] by (subst chain_frame) auto
      ultimately have "shape ?h' (tp_queue p) (Some a) (A(d := A d @ [a]), Some d)"
        using ch dis notin by (auto simp: shape_def)
      with Some False ne d u show ?thesis by (auto simp: link_task_def a_add_def)
    qed
  qed
qed

section \<open>Submissions and takes refine the list model\<close>

type_synonym 'f entry = "64 word \<times> 'f \<times> nat option \<times> bool"

definition entry :: "'f task \<Rightarrow> 'f entry" where
  "entry t = (t_id t, t_function t, t_argument t, t_cleanup t)"

definition ent :: "(nat \<rightharpoonup> 'f task) \<Rightarrow> nat \<Rightarrow> 'f entry" where
  "ent h a = the (map_option entry (h a))"

definition tq_size :: "(queue_class \<Rightarrow> 'x list) \<Rightarrow> nat" where
  "tq_size B = length (B Q_High) + length (B Q_Normal) + length (B Q_Low)"

text \<open>\<open>held\<close> are the tasks that workers have taken and not yet destroyed.\<close>

definition pool_rel :: "'f threadpool \<Rightarrow> nat list \<Rightarrow> 'f entry tq \<Rightarrow> bool" where
  "pool_rel p held s = (case s of (B, loc) \<Rightarrow>
     \<exists>A. shape (tp_heap p) (tp_queue p) (tp_tail p) (A, loc) \<and> B = (\<lambda>c. map (ent (tp_heap p)) (A c)) \<and>
       (\<forall>a \<in> set held. tp_heap p a \<noteq> None \<and> (\<forall>c. a \<notin> set (A c))) \<and> distinct held \<and>
       (\<forall>a. tp_heap p a \<noteq> None \<longrightarrow> a \<in> set held \<or> (\<exists>c. a \<in> set (A c))) \<and>
       tp_queue_length p = of_nat (tq_size B))"

lemma pool_relI:
  assumes "shape (tp_heap p) (tp_queue p) (tp_tail p) (A, loc)" "\<And>c. B c = map (ent (tp_heap p)) (A c)"
    and "\<And>a. a \<in> set held \<Longrightarrow> tp_heap p a \<noteq> None" "\<And>a c. a \<in> set held \<Longrightarrow> a \<notin> set (A c)" "distinct held"
    and "tp_queue_length p = of_nat (tq_size B)"
    and "\<And>a. tp_heap p a \<noteq> None \<Longrightarrow> a \<notin> set held \<Longrightarrow> \<exists>c. a \<in> set (A c)"
  shows "pool_rel p held (B, loc)"
proof -
  have "B = (\<lambda>c. map (ent (tp_heap p)) (A c))" using assms(2) by (rule ext)
  then show ?thesis unfolding pool_rel_def prod.case using assms(1,3-7) by (intro exI [of _ A] conjI) blast+
qed

lemma pool_relE:
  assumes "pool_rel p held (B, loc)"
  obtains A where "shape (tp_heap p) (tp_queue p) (tp_tail p) (A, loc)" "\<And>c. B c = map (ent (tp_heap p)) (A c)"
    "\<And>a. a \<in> set held \<Longrightarrow> tp_heap p a \<noteq> None" "\<And>a c. a \<in> set held \<Longrightarrow> a \<notin> set (A c)" "distinct held"
    "tp_queue_length p = of_nat (tq_size B)"
    "\<And>a. tp_heap p a \<noteq> None \<Longrightarrow> a \<notin> set held \<Longrightarrow> \<exists>c. a \<in> set (A c)"
proof -
  obtain A where "shape (tp_heap p) (tp_queue p) (tp_tail p) (A, loc) \<and> B = (\<lambda>c. map (ent (tp_heap p)) (A c)) \<and>
       (\<forall>a \<in> set held. tp_heap p a \<noteq> None \<and> (\<forall>c. a \<notin> set (A c))) \<and> distinct held \<and>
       (\<forall>a. tp_heap p a \<noteq> None \<longrightarrow> a \<in> set held \<or> (\<exists>c. a \<in> set (A c))) \<and>
       tp_queue_length p = of_nat (tq_size B)"
    using assms unfolding pool_rel_def prod.case by blast
  then show ?thesis by (intro that [of A]) (simp_all, blast)
qed

lemma shapeD:
  assumes "shape h q t (A, loc)"
  shows "chain h (q c) (A c)" "distinct (A c)" "c \<noteq> d \<Longrightarrow> set (A c) \<inter> set (A d) = {}"
    "loc = None \<Longrightarrow> t = None \<and> A Q_High = []" "loc = Some c \<Longrightarrow> A c \<noteq> [] \<and> t = Some (last (A c))"
  using assms by (auto simp: shape_def)

lemma shapeI:
  assumes "\<And>c. chain h (q c) (A c)" "\<And>c. distinct (A c)" "\<And>c d. c \<noteq> d \<Longrightarrow> set (A c) \<inter> set (A d) = {}"
    and "loc = None \<Longrightarrow> t = None \<and> A Q_High = []" "\<And>c. loc = Some c \<Longrightarrow> A c \<noteq> [] \<and> t = Some (last (A c))"
  shows "shape h q t (A, loc)"
  using assms by (simp add: shape_def split: option.splits)

lemma a_add_cases:
  assumes "a_add c x (A, loc) = r"
  obtains (first) "A c = []" "r = Some (A(c := [x]), Some c)"
    | (crash) "A c \<noteq> []" "loc = None" "r = None"
    | (behind) d where "A c \<noteq> []" "loc = Some d" "r = Some (A(d := A d @ [x]), Some d)"
  using assms by (auto simp: a_add_def split: if_splits option.splits)

lemma tq_size_upd:
  "tq_size (B(c := xs)) + length (B c) = tq_size B + length xs"
  by (cases c) (simp_all add: tq_size_def)

lemma a_add_size:
  assumes "a_add c x (B, loc) = Some (B', loc')"
  shows "tq_size B' = Suc (tq_size B)"
  using assms
proof (cases rule: a_add_cases)
  case first
  then show ?thesis using tq_size_upd [of B c "[x]"] by simp
next
  case (behind d)
  then show ?thesis using tq_size_upd [of B d "B d @ [x]"] by simp
qed simp

lemma a_add_map:
  assumes "\<And>d. B d = map f (A d)"
  shows "a_add c (f x) (B, loc) = map_option (\<lambda>(A', l). (\<lambda>d. map f (A' d), l)) (a_add c x (A, loc))"
  using assms by (auto simp: a_add_def fun_eq_iff split: option.splits)

lemma ent_cong:
  assumes "map_option (\<lambda>u. u\<lparr>t_next := None\<rparr>) (h' b) = map_option (\<lambda>u. u\<lparr>t_next := None\<rparr>) (h b)"
  shows "ent h' b = ent h b"
proof -
  have e: "entry t = entry (t\<lparr>t_next := None\<rparr>)" for t :: "'a task" by (simp add: entry_def)
  then have "map_option entry x = map_option entry (map_option (\<lambda>u. u\<lparr>t_next := None\<rparr>) x)" for x :: "'a task option"
    by (cases x) auto
  then have "map_option entry (h' b) = map_option entry (h b)" using assms by metis
  then show ?thesis by (simp add: ent_def)
qed

text \<open>Nothing but the queues, the counters and the heap is touched by a submission.\<close>

definition same_setup :: "'f threadpool \<Rightarrow> 'f threadpool \<Rightarrow> bool" where
  "same_setup p p' \<longleftrightarrow> tp_state p' = tp_state p \<and> tp_config p' = tp_config p"

definition accepts :: "'f threadpool \<Rightarrow> bool" where
  "accepts p \<longleftrightarrow> tp_state p = TP_Running \<and>
     \<not> (cfg_queue_size (tp_config p) > 0 \<and> tp_queue_length p \<ge> ucast (cfg_queue_size (tp_config p)))"

lemma link_pool_rel:
  assumes rel: "pool_rel p held (B, loc)" and fresh: "tp_heap p a = None" and t: "t_next t = None"
  shows "rel_option (\<lambda>p2 s2. pool_rel (count_submission p2) held s2 \<and> same_setup p p2 \<and>
      tp_task_counter p2 = tp_task_counter p)
    (link_task c a (p\<lparr>tp_heap := (tp_heap p)(a \<mapsto> t)\<rparr>)) (a_add c (entry t) (B, loc))"
proof -
  obtain A where A: "shape (tp_heap p) (tp_queue p) (tp_tail p) (A, loc)" "\<And>c. B c = map (ent (tp_heap p)) (A c)"
    "\<And>a. a \<in> set held \<Longrightarrow> tp_heap p a \<noteq> None" "\<And>a c. a \<in> set held \<Longrightarrow> a \<notin> set (A c)" "distinct held"
    "tp_queue_length p = of_nat (tq_size B)"
    "\<And>a. tp_heap p a \<noteq> None \<Longrightarrow> a \<notin> set held \<Longrightarrow> \<exists>c. a \<in> set (A c)" using pool_relE [OF rel] by metis
  let ?h = "(tp_heap p)(a \<mapsto> t)"
  have notin: "a \<notin> set (A d)" for d using shapeD(1) [OF A(1)] fresh chain_mem by fastforce
  have B: "B d = map (ent ?h) (A d)" for d using A(2) [of d] notin [of d] by (auto simp: ent_def)
  have e: "entry t = ent ?h a" by (simp add: ent_def)
  note m = a_add_map [of B "ent ?h" A c a loc, OF B, folded e]
  note l = shape_link [OF A(1) fresh t, of c]
  show ?thesis
  proof (cases "a_add c a (A, loc)")
    case None
    then show ?thesis using l m by (auto simp: option_rel_Some1)
  next
    case (Some r)
    obtain A' loc' where r: "r = (A', loc')" by (cases r)
    from Some r l obtain p2 where p2: "link_task c a (p\<lparr>tp_heap := ?h\<rparr>) = Some p2"
      "shape (tp_heap p2) (tp_queue p2) (tp_tail p2) (A', loc')"
      "p2 = p\<lparr>tp_heap := tp_heap p2, tp_queue := tp_queue p2, tp_tail := tp_tail p2\<rparr>"
      "\<And>b. map_option (\<lambda>u. u\<lparr>t_next := None\<rparr>) (tp_heap p2 b) = map_option (\<lambda>u. u\<lparr>t_next := None\<rparr>) (?h b)"
      by (auto simp: option_rel_Some2)
    have ent: "ent (tp_heap p2) b = ent ?h b" for b by (rule ent_cong) (rule p2(4))
    have dom: "tp_heap p2 b = None \<longleftrightarrow> ?h b = None" for b using p2(4) [of b] by (metis option.map_disc_iff)
    let ?B = "\<lambda>d. map (ent ?h) (A' d)"
    have r': "a_add c (entry t) (B, loc) = Some (?B, loc')" using m Some r by simp
    have A': "set (A' d) \<subseteq> insert a (set (A d))" "set (A d) \<subseteq> set (A' d)" "\<exists>d. a \<in> set (A' d)" for d
      using Some r by (cases rule: a_add_cases [OF Some]; force split: if_splits)+
    have "pool_rel (count_submission p2) held (?B, loc')"
    proof (rule pool_relI)
      show "shape (tp_heap (count_submission p2)) (tp_queue (count_submission p2)) (tp_tail (count_submission p2)) (A', loc')"
        using p2(2) by (simp add: count_submission_def Let_def)
      show "?B d = map (ent (tp_heap (count_submission p2))) (A' d)" for d
        by (simp add: count_submission_def Let_def ent)
      show "tp_heap (count_submission p2) b \<noteq> None" if "b \<in> set held" for b
        using A(3) [OF that] dom [of b] by (simp add: count_submission_def Let_def)
      show "b \<notin> set (A' d)" if "b \<in> set held" for b d
        using A(4) [OF that, of d] A(3) [OF that] A'(1) [of d] fresh by auto
      show "distinct held" by (rule A(5))
      have "tp_queue_length p2 = tp_queue_length p" by (subst p2(3)) simp
      then show "tp_queue_length (count_submission p2) = of_nat (tq_size ?B)"
        using A(6) a_add_size [OF r'] by (simp add: count_submission_def Let_def)
      show "\<exists>d. b \<in> set (A' d)" if "tp_heap (count_submission p2) b \<noteq> None" "b \<notin> set held" for b
        using that A(7) [of b] dom [of b] A'(2,3) by (cases "b = a") (auto simp: count_submission_def Let_def)
    qed
    moreover have "same_setup p p2" "tp_task_counter p2 = tp_task_counter p"
      by (subst p2(3), simp add: same_setup_def)+
    ultimately show ?thesis using p2(1) r' by simp
  qed
qed

lemma pool_rel_counter [simp]: "pool_rel (p\<lparr>tp_task_counter := n\<rparr>) held s = pool_rel p held s"
  by (simp add: pool_rel_def)

lemma add_sim:
  assumes rel: "pool_rel p held (B, loc)" and fresh: "tp_heap p a = None" and acc: "accepts p"
  shows "rel_option (\<lambda>r s2. \<exists>p'. r = (TP_Success, Some (tp_task_counter p), Some p') \<and> pool_rel p' held s2 \<and>
      same_setup p p' \<and> tp_task_counter p' = tp_task_counter p + 1)
    (threadpool_add_task (Some a) now (Some p) (Some fn) arg cl prio tmo)
    (a_add (queue_of prio) (tp_task_counter p, fn, arg, cl) (B, loc))"
proof -
  let ?p = "p\<lparr>tp_task_counter := tp_task_counter p + 1\<rparr>"
  let ?t = "\<lparr>t_function = fn, t_argument = arg, t_cleanup = cl, t_priority = prio, t_id = tp_task_counter p,
    t_created = now, t_timeout = tmo, t_next = None\<rparr>"
  let ?l = "link_task (queue_of prio) a (?p\<lparr>tp_heap := (tp_heap ?p)(a \<mapsto> ?t)\<rparr>)"
  have e: "entry ?t = (tp_task_counter p, fn, arg, cl)" by (simp add: entry_def)
  have l: "rel_option (\<lambda>p2 s2. pool_rel (count_submission p2) held s2 \<and> same_setup ?p p2 \<and>
      tp_task_counter p2 = tp_task_counter ?p) ?l (a_add (queue_of prio) (tp_task_counter p, fn, arg, cl) (B, loc))"
    unfolding e [symmetric] using rel fresh by (intro link_pool_rel) simp_all
  have eq: "threadpool_add_task (Some a) now (Some p) (Some fn) arg cl prio tmo =
      map_option (\<lambda>p2. (TP_Success, Some (tp_task_counter p), Some (count_submission p2))) ?l"
    using acc by (auto simp: threadpool_add_task_def accepts_def create_task_def Let_def)
  show ?thesis unfolding eq option.rel_map
    by (rule option.rel_mono_strong [OF l]) (auto simp: same_setup_def count_submission_def Let_def)
qed

lemma urgent_sim:
  assumes rel: "pool_rel p held (B, loc)" and fresh: "tp_heap p a = None" and run: "tp_state p = TP_Running"
  shows "\<exists>p'. threadpool_add_urgent_task (Some a) now (Some p) (Some fn) arg cl = (TP_Success, Some p') \<and>
    pool_rel p' held (a_urgent (tp_task_counter p, fn, arg, cl) (B, loc)) \<and> same_setup p p' \<and>
    tp_task_counter p' = tp_task_counter p + 1"
proof -
  obtain A where A: "shape (tp_heap p) (tp_queue p) (tp_tail p) (A, loc)" "\<And>c. B c = map (ent (tp_heap p)) (A c)"
    "\<And>a. a \<in> set held \<Longrightarrow> tp_heap p a \<noteq> None" "\<And>a c. a \<in> set held \<Longrightarrow> a \<notin> set (A c)" "distinct held"
    "tp_queue_length p = of_nat (tq_size B)"
    "\<And>a. tp_heap p a \<noteq> None \<Longrightarrow> a \<notin> set held \<Longrightarrow> \<exists>c. a \<in> set (A c)" using pool_relE [OF rel] by metis
  have notin: "a \<notin> set (A d)" for d using shapeD(1) [OF A(1)] fresh chain_mem by fastforce
  let ?t = "\<lparr>t_function = fn, t_argument = arg, t_cleanup = cl, t_priority = Prio_Critical, t_id = tp_task_counter p,
    t_created = now, t_timeout = 0, t_next = tp_queue p Q_High\<rparr>"
  let ?h = "(tp_heap p)(a \<mapsto> ?t)" and ?q = "(tp_queue p)(Q_High := Some a)"
  let ?tail = "if tp_tail p = None then Some a else tp_tail p"
  let ?A = "A(Q_High := a # A Q_High)" and ?loc = "if loc = None then Some Q_High else loc"
  let ?x = "(tp_task_counter p, fn, arg, cl)"
  define p' where "p' = count_submission (p\<lparr>tp_task_counter := tp_task_counter p + 1, tp_heap := ?h, tp_queue := ?q,
    tp_tail := ?tail\<rparr>)"
  have eq: "threadpool_add_urgent_task (Some a) now (Some p) (Some fn) arg cl = (TP_Success, Some p')"
    using run by (simp add: threadpool_add_urgent_task_def create_task_def Let_def p'_def)
  have f: "tp_heap p' = ?h" "tp_queue p' = ?q" "tp_tail p' = ?tail" "tp_queue_length p' = tp_queue_length p + 1"
    "same_setup p p'" "tp_task_counter p' = tp_task_counter p + 1"
    by (simp_all add: p'_def count_submission_def Let_def same_setup_def)
  have sh: "shape ?h ?q ?tail (?A, ?loc)"
  proof (rule shapeI)
    show "chain ?h (?q c) (?A c)" for c
      using shapeD(1) [OF A(1)] notin by (cases "c = Q_High") (simp_all add: chain_frame)
    show "distinct (?A c)" for c using shapeD(2) [OF A(1)] notin by simp
    show "set (?A c) \<inter> set (?A d) = {}" if "c \<noteq> d" for c d
      using shapeD(3) [OF A(1) that] notin that by (auto split: if_splits)
    show "?loc = None \<Longrightarrow> ?tail = None \<and> ?A Q_High = []" by (simp split: if_splits)
    show "?A c \<noteq> [] \<and> ?tail = Some (last (?A c))" if "?loc = Some c" for c
      using shapeD(4) [OF A(1)] shapeD(5) [OF A(1), of c] that by (cases loc) auto
  qed
  have "pool_rel p' held (B(Q_High := ?x # B Q_High), ?loc)"
  proof (rule pool_relI)
    show "shape (tp_heap p') (tp_queue p') (tp_tail p') (?A, ?loc)" unfolding f by (rule sh)
    show "(B(Q_High := ?x # B Q_High)) c = map (ent (tp_heap p')) (?A c)" for c
      using A(2) notin by (auto simp: f ent_def entry_def)
    show "tp_heap p' b \<noteq> None" if "b \<in> set held" for b using A(3) [OF that] by (simp add: f)
    show "b \<notin> set (?A c)" if "b \<in> set held" for b c using A(3,4) [OF that] fresh by auto
    show "tp_queue_length p' = of_nat (tq_size (B(Q_High := ?x # B Q_High)))"
      using A(6) by (simp add: f tq_size_def)
    show "\<exists>c. b \<in> set (?A c)" if b: "tp_heap p' b \<noteq> None" "b \<notin> set held" for b
    proof (cases "b = a")
      case False
      then obtain c where "b \<in> set (A c)" using A(7) [of b] b by (auto simp: f)
      then show ?thesis by (intro exI [of _ c]) auto
    qed auto
  qed (rule A(5))
  then show ?thesis using eq f by (simp add: a_urgent_def)
qed

lemma next_class_shape:
  assumes "shape h q t (A, loc)" "tp_queue p = q"
  shows "next_class p = a_class A"
proof -
  have "tp_queue p c = None \<longleftrightarrow> A c = []" for c using chain_head [OF shapeD(1) [OF assms(1)]] assms(2) by simp
  then show ?thesis by (simp add: next_class_def a_class_def)
qed

lemma a_class_map: "(\<And>c. B c = map f (A c)) \<Longrightarrow> a_class B = a_class A"
  by (simp add: a_class_def)

lemma a_class_Some: "a_class A = Some c \<Longrightarrow> A c \<noteq> []"
  by (auto simp: a_class_def split: if_splits)

lemma a_class_high: "a_class A = Some c \<Longrightarrow> c \<noteq> Q_High \<Longrightarrow> A Q_High = []"
  by (auto simp: a_class_def split: if_splits)

text \<open>Removing the head of the chain that is served keeps the shape.\<close>

lemma shape_pop:
  assumes sh: "shape h q tail (A, loc)" and c: "a_class A = Some c" and A: "A c = a # as" and t: "h a = Some t"
  shows "shape h (q(c := t_next t)) (if tail = Some a then None else tail)
    (A(c := as), if loc = Some c \<and> as = [] then None else loc)"
proof (rule shapeI)
  show "chain h ((q(c := t_next t)) d) ((A(c := as)) d)" for d
    using shapeD(1) [OF sh, of d] A t by auto
  show "distinct ((A(c := as)) d)" for d using shapeD(2) [OF sh, of d] A by auto
  show "set ((A(c := as)) d) \<inter> set ((A(c := as)) e) = {}" if "d \<noteq> e" for d e
    using shapeD(3) [OF sh that] A by (auto split: if_splits)
next
  assume "(if loc = Some c \<and> as = [] then None else loc) = None"
  then consider "loc = None" | "loc = Some c" "as = []" by (auto split: if_splits)
  then show "(if tail = Some a then None else tail) = None \<and> (A(c := as)) Q_High = []"
  proof cases
    case 1
    then show ?thesis using shapeD(4) [OF sh] A by (cases "c = Q_High") auto
  next
    case 2
    then show ?thesis using shapeD(5) [OF sh, of c] A a_class_high [OF c] by (cases "c = Q_High") auto
  qed
next
  fix d assume "(if loc = Some c \<and> as = [] then None else loc) = Some d"
  then have d: "loc = Some d" "d = c \<Longrightarrow> as \<noteq> []" by (auto split: if_splits)
  then have l: "A d \<noteq> []" "tail = Some (last (A d))" using shapeD(5) [OF sh, of d] by auto
  have "last (A d) \<noteq> a"
  proof (cases "d = c")
    case True
    then have "last (A d) \<in> set as" using A d by simp
    then show ?thesis using shapeD(2) [OF sh, of c] A by auto
  next
    case False
    then show ?thesis using shapeD(3) [OF sh False] last_in_set [OF l(1)] A by auto
  qed
  then show "(A(c := as)) d \<noteq> [] \<and> (if tail = Some a then None else tail) = Some (last ((A(c := as)) d))"
    using l A d by auto
qed

lemma take_sim:
  assumes rel: "pool_rel p held (B, loc)"
  shows "(a_class B = None \<longrightarrow> get_next_task now p = Some (None, p, False)) \<and>
    (a_class B \<noteq> None \<longrightarrow> (\<exists>a p' sig. get_next_task now p = Some (Some a, p', sig) \<and>
       fst (a_next (B, loc)) = Some (ent (tp_heap p') a) \<and> pool_rel p' (a # held) (snd (a_next (B, loc))) \<and>
       same_setup p p' \<and> tp_task_counter p' = tp_task_counter p \<and> (sig \<longrightarrow> tp_state p = TP_Stopping)))"
proof -
  obtain A where A: "shape (tp_heap p) (tp_queue p) (tp_tail p) (A, loc)" "\<And>c. B c = map (ent (tp_heap p)) (A c)"
    "\<And>a. a \<in> set held \<Longrightarrow> tp_heap p a \<noteq> None" "\<And>a c. a \<in> set held \<Longrightarrow> a \<notin> set (A c)" "distinct held"
    "tp_queue_length p = of_nat (tq_size B)"
    "\<And>a. tp_heap p a \<noteq> None \<Longrightarrow> a \<notin> set held \<Longrightarrow> \<exists>c. a \<in> set (A c)" using pool_relE [OF rel] by metis
  have cl: "next_class p = a_class A" by (rule next_class_shape [OF A(1) refl])
  have clB: "a_class B = a_class A" by (rule a_class_map [OF A(2)])
  show ?thesis
  proof (cases "a_class A")
    case None
    then show ?thesis using cl clB by (simp add: get_next_task_def)
  next
    case (Some c)
    obtain a as where a: "A c = a # as" using a_class_Some [OF Some] by (cases "A c") auto
    obtain t where t: "tp_queue p c = Some a" "tp_heap p a = Some t" "chain (tp_heap p) (t_next t) as"
      using shapeD(1) [OF A(1), of c] a by (auto split: option.splits)
    let ?tail = "if tp_tail p = Some a then None else tp_tail p"
    obtain p' sig where g: "get_next_task now p = Some (Some a, p', sig)" and f: "tp_heap p' = tp_heap p"
      "tp_queue p' = (tp_queue p)(c := t_next t)" "tp_tail p' = ?tail" "tp_queue_length p' = tp_queue_length p - 1"
      "same_setup p p'" "tp_task_counter p' = tp_task_counter p" "sig \<Longrightarrow> tp_state p = TP_Stopping"
      using cl Some t by (simp add: get_next_task_def Let_def same_setup_def)
    let ?loc = "if loc = Some c \<and> as = [] then None else loc"
    have n: "a_next (B, loc) = (Some (ent (tp_heap p) a), B(c := map (ent (tp_heap p)) as), ?loc)"
      using clB Some A(2) [of c] a by (simp add: a_next_def)
    have size: "tq_size B = Suc (tq_size (B(c := map (ent (tp_heap p)) as)))"
      using tq_size_upd [of B c "map (ent (tp_heap p)) as"] A(2) [of c] a by simp
    have "pool_rel p' (a # held) (B(c := map (ent (tp_heap p)) as), ?loc)"
    proof (rule pool_relI)
      show "shape (tp_heap p') (tp_queue p') (tp_tail p') (A(c := as), ?loc)"
        unfolding f by (rule shape_pop [OF A(1) Some a t(2)])
      show "(B(c := map (ent (tp_heap p)) as)) d = map (ent (tp_heap p')) ((A(c := as)) d)" for d
        using A(2) by (simp add: f)
      show "tp_heap p' b \<noteq> None" if "b \<in> set (a # held)" for b using that A(3) t(2) by (auto simp: f)
      show "b \<notin> set ((A(c := as)) d)" if "b \<in> set (a # held)" for b d
        using that A(4) [of b d] A(4) [of b c] shapeD(2) [OF A(1), of c] shapeD(3) [OF A(1), of c d] a by auto
      show "distinct (a # held)" using A(4) [of a c] A(5) a by auto
      show "tp_queue_length p' = of_nat (tq_size (B(c := map (ent (tp_heap p)) as)))"
        using A(6) size by (simp add: f)
      show "\<exists>d. b \<in> set ((A(c := as)) d)" if b: "tp_heap p' b \<noteq> None" "b \<notin> set (a # held)" for b
      proof -
        obtain d where "b \<in> set (A d)" using A(7) [of b] b by (auto simp: f)
        then show ?thesis using b(2) a by (intro exI [of _ d]) auto
      qed
    qed
    then show ?thesis using g f n clB Some by simp
  qed
qed

lemma destroy_sim:
  assumes rel: "pool_rel p (a # held) s"
  shows "pool_rel (snd (destroy_task a p)) held s \<and> same_setup p (snd (destroy_task a p)) \<and>
    tp_task_counter (snd (destroy_task a p)) = tp_task_counter p"
proof -
  obtain B loc where s: "s = (B, loc)" by (cases s)
  obtain A where A: "shape (tp_heap p) (tp_queue p) (tp_tail p) (A, loc)" "\<And>c. B c = map (ent (tp_heap p)) (A c)"
    "\<And>b. b \<in> set (a # held) \<Longrightarrow> tp_heap p b \<noteq> None" "\<And>b c. b \<in> set (a # held) \<Longrightarrow> b \<notin> set (A c)"
    "distinct (a # held)" "tp_queue_length p = of_nat (tq_size B)"
    "\<And>b. tp_heap p b \<noteq> None \<Longrightarrow> b \<notin> set (a # held) \<Longrightarrow> \<exists>c. b \<in> set (A c)"
    using pool_relE [OF rel [unfolded s]] by metis
  obtain t where "tp_heap p a = Some t" using A(3) [of a] by auto
  then have d: "snd (destroy_task a p) = p\<lparr>tp_heap := (tp_heap p)(a := None)\<rparr>" by (simp add: destroy_task_def)
  have "pool_rel (p\<lparr>tp_heap := (tp_heap p)(a := None)\<rparr>) held (B, loc)"
  proof (rule pool_relI)
    show "shape (tp_heap (p\<lparr>tp_heap := (tp_heap p)(a := None)\<rparr>)) (tp_queue (p\<lparr>tp_heap := (tp_heap p)(a := None)\<rparr>))
        (tp_tail (p\<lparr>tp_heap := (tp_heap p)(a := None)\<rparr>)) (A, loc)"
      using A(1) A(4) [of a] by (simp add: shape_def chain_frame)
    show "B c = map (ent (tp_heap (p\<lparr>tp_heap := (tp_heap p)(a := None)\<rparr>))) (A c)" for c
      using A(2) [of c] A(4) [of a c] by (auto simp: ent_def)
    show "b \<notin> set (A c)" if "b \<in> set held" for b c using A(4) that by simp
    show "distinct held" using A(5) by simp
    show "tp_heap (p\<lparr>tp_heap := (tp_heap p)(a := None)\<rparr>) b \<noteq> None" if "b \<in> set held" for b
      using A(3) [of b] A(5) that by auto
    show "\<exists>c. b \<in> set (A c)" if "tp_heap (p\<lparr>tp_heap := (tp_heap p)(a := None)\<rparr>) b \<noteq> None" "b \<notin> set held" for b
      using that A(7) [of b] by (auto split: if_splits)
  qed (simp add: A(6))
  then show ?thesis unfolding d s by (simp add: same_setup_def)
qed

section \<open>Sessions\<close>

text \<open>
  A session interleaves submissions with workers that take a task and later destroy it. A submission
  carries the address that \<open>malloc\<close> answers with: an answer that is not free counts as a failed
  allocation, since the allocator never hands out a live block. The first two results are the
  accepted and the taken tasks.
\<close>

datatype 'f tp_op = Op_Add "nat option" "64 word" 'f "nat option" bool task_priority "64 word"
  | Op_Urgent "nat option" "64 word" 'f "nat option" bool | Op_Take "64 word" | Op_Finish nat

definition malloc_at :: "(nat \<rightharpoonup> 'f task) \<Rightarrow> nat option \<Rightarrow> nat option" where
  "malloc_at h addr = (case addr of None \<Rightarrow> None | Some a \<Rightarrow> if h a = None then Some a else None)"

fun tp_step :: "'f tp_op \<Rightarrow> 'f threadpool \<Rightarrow> nat list \<Rightarrow>
    ('f entry list \<times> 'f entry list \<times> 'f threadpool \<times> nat list) option" where
  "tp_step (Op_Add addr now fn arg cl prio tmo) p held =
     (case threadpool_add_task (malloc_at (tp_heap p) addr) now (Some p) (Some fn) arg cl prio tmo of
        None \<Rightarrow> None
      | Some (_, i, p') \<Rightarrow>
          Some (case i of None \<Rightarrow> [] | Some task_id \<Rightarrow> [(task_id, fn, arg, cl)], [], case p' of None \<Rightarrow> p | Some q \<Rightarrow> q, held))"
| "tp_step (Op_Urgent addr now fn arg cl) p held =
     (case threadpool_add_urgent_task (malloc_at (tp_heap p) addr) now (Some p) (Some fn) arg cl of
        (e, p') \<Rightarrow>
          Some (if e = TP_Success then [(tp_task_counter p, fn, arg, cl)] else [], [],
            case p' of None \<Rightarrow> p | Some q \<Rightarrow> q, held))"
| "tp_step (Op_Take now) p held =
     (case get_next_task now p of
        None \<Rightarrow> None
      | Some (None, p', _) \<Rightarrow> Some ([], [], p', held)
      | Some (Some a, p', _) \<Rightarrow> Some ([], [ent (tp_heap p') a], p', a # held))"
| "tp_step (Op_Finish a) p held =
     (if a \<in> set held then Some ([], [], snd (destroy_task a p), remove1 a held) else Some ([], [], p, held))"

fun tp_run :: "'f tp_op list \<Rightarrow> 'f threadpool \<Rightarrow> nat list \<Rightarrow>
    ('f entry list \<times> 'f entry list \<times> 'f threadpool \<times> nat list) option" where
  "tp_run [] p held = Some ([], [], p, held)"
| "tp_run (op # ops) p held =
     (case tp_step op p held of None \<Rightarrow> None
      | Some (acc, took, p', held') \<Rightarrow>
          map_option (\<lambda>(acc', took', r). (acc @ acc', took @ took', r)) (tp_run ops p' held'))"

definition tq_mset :: "'x tq \<Rightarrow> 'x multiset" where
  "tq_mset s = (case s of (B, _) \<Rightarrow> mset (B Q_High) + mset (B Q_Normal) + mset (B Q_Low))"

lemma tq_mset_upd: "tq_mset (B(c := xs), l) + mset (B c) = tq_mset (B, l') + mset xs"
  by (cases c) (simp_all add: tq_mset_def)

lemma tq_mset_size: "size (tq_mset (B, l)) = tq_size B"
  by (simp add: tq_mset_def tq_size_def)

lemma a_add_mset:
  assumes "a_add c x (B, loc) = Some s'"
  shows "tq_mset s' = add_mset x (tq_mset (B, loc))"
  using assms
proof (cases rule: a_add_cases)
  case first
  then show ?thesis using tq_mset_upd [of B c "[x]" "Some c" loc] by simp
next
  case (behind d)
  then show ?thesis using tq_mset_upd [of B d "B d @ [x]" "Some d" loc] by (simp add: ac_simps)
qed simp

lemma a_next_mset:
  assumes "a_class B = Some c"
  shows "\<exists>x. fst (a_next (B, loc)) = Some x \<and> tq_mset (B, loc) = add_mset x (tq_mset (snd (a_next (B, loc))))"
proof -
  let ?loc = "if loc = Some c \<and> tl (B c) = [] then None else loc"
  obtain x xs where x: "B c = x # xs" using a_class_Some [OF assms] by (cases "B c") auto
  then have "tq_mset (B, loc) = add_mset x (tq_mset (B(c := xs), ?loc))"
    using tq_mset_upd [of B c xs ?loc loc] by simp
  then show ?thesis using assms x by (simp add: a_next_def)
qed

lemma pool_rel_perm:
  assumes "a \<in> set held" "pool_rel p held s"
  shows "pool_rel p (a # remove1 a held) s"
proof -
  have "distinct held" using assms(2) by (auto simp: pool_rel_def split: prod.splits)
  then have e: "set (a # remove1 a held) = set held" "distinct (a # remove1 a held) = distinct held" using assms(1) by auto
  show ?thesis unfolding pool_rel_def e by (rule assms(2) [unfolded pool_rel_def])
qed

lemma add_refused:
  assumes "addr = None \<or> \<not> accepts p"
  shows "\<exists>e p'. threadpool_add_task addr now (Some p) (Some fn) arg cl prio tmo = Some (e, None, Some p') \<and>
    (p' = p \<or> p' = p\<lparr>tp_task_counter := tp_task_counter p + 1\<rparr>) \<and> e \<noteq> TP_Success"
  using assms by (auto simp: threadpool_add_task_def accepts_def create_task_def Let_def split: option.splits)

lemma urgent_refused:
  assumes "addr = None \<or> tp_state p \<noteq> TP_Running"
  shows "\<exists>e p'. threadpool_add_urgent_task addr now (Some p) (Some fn) arg cl = (e, Some p') \<and>
    (p' = p \<or> p' = p\<lparr>tp_task_counter := tp_task_counter p + 1\<rparr>) \<and> e \<noteq> TP_Success"
  using assms by (auto simp: threadpool_add_urgent_task_def create_task_def Let_def split: option.splits)

lemma malloc_at_Some: "malloc_at h addr = Some a \<Longrightarrow> h a = None"
  by (auto simp: malloc_at_def split: option.splits if_splits)

text \<open>Every step of a session is a step of the list model.\<close>

lemma step_sim:
  assumes rel: "pool_rel p held s" and st: "tp_step op p held = Some (acc, took, p', held')"
  shows "\<exists>s'. pool_rel p' held' s' \<and> tq_mset s + mset acc = mset took + tq_mset s'"
proof (cases op)
  case (Op_Add addr now fn arg cl prio tmo)
  obtain B loc where s: "s = (B, loc)" by (cases s)
  let ?ad = "malloc_at (tp_heap p) addr"
  show ?thesis
  proof (cases "?ad = None \<or> \<not> accepts p")
    case True
    then show ?thesis using add_refused [OF True, of now fn arg cl prio tmo] st rel Op_Add by fastforce
  next
    case False
    then obtain a where a: "?ad = Some a" "accepts p" by auto
    from add_sim [OF rel [unfolded s] malloc_at_Some [OF a(1)] a(2), of now fn arg cl prio tmo] st Op_Add a(1)
    obtain s2 where s2: "a_add (queue_of prio) (tp_task_counter p, fn, arg, cl) (B, loc) = Some s2"
      "pool_rel p' held s2" "acc = [(tp_task_counter p, fn, arg, cl)]" "took = []" "held' = held"
      by (auto simp: option_rel_Some1 split: option.splits)
    then show ?thesis using a_add_mset [OF s2(1)] s by (intro exI [of _ s2]) simp
  qed
next
  case (Op_Urgent addr now fn arg cl)
  obtain B loc where s: "s = (B, loc)" by (cases s)
  let ?ad = "malloc_at (tp_heap p) addr"
  show ?thesis
  proof (cases "?ad = None \<or> tp_state p \<noteq> TP_Running")
    case True
    then show ?thesis using urgent_refused [OF True, of now fn arg cl] st rel Op_Urgent by fastforce
  next
    case False
    then obtain a where a: "?ad = Some a" "tp_state p = TP_Running" by auto
    have "tq_mset (a_urgent x (B, loc)) = add_mset x (tq_mset (B, loc))" for x by (simp add: tq_mset_def a_urgent_def)
    then show ?thesis
      using urgent_sim [OF rel [unfolded s] malloc_at_Some [OF a(1)] a(2), of now fn arg cl] st Op_Urgent a(1) s
      by (intro exI [of _ "a_urgent (tp_task_counter p, fn, arg, cl) (B, loc)"]) auto
  qed
next
  case (Op_Take now)
  obtain B loc where s: "s = (B, loc)" by (cases s)
  note t = take_sim [OF rel [unfolded s], of now]
  show ?thesis
  proof (cases "a_class B")
    case None
    then show ?thesis using t st rel Op_Take by (intro exI [of _ s]) simp
  next
    case (Some c)
    then show ?thesis using t a_next_mset [OF Some, of loc] st Op_Take s by (intro exI [of _ "snd (a_next (B, loc))"]) auto
  qed
next
  case (Op_Finish a)
  show ?thesis
  proof (cases "a \<in> set held")
    case True
    then show ?thesis using destroy_sim [OF pool_rel_perm [OF True rel]] st Op_Finish by (intro exI [of _ s]) auto
  next
    case False
    then show ?thesis using st rel Op_Finish by (intro exI [of _ s]) simp
  qed
qed

lemma run_sim:
  assumes "pool_rel p held s" "tp_run ops p held = Some (acc, took, p', held')"
  shows "\<exists>s'. pool_rel p' held' s' \<and> tq_mset s + mset acc = mset took + tq_mset s'"
  using assms
proof (induction ops arbitrary: p held s acc took)
  case Nil
  then show ?case by (intro exI [of _ s]) simp
next
  case (Cons op ops)
  from Cons.prems(2) obtain acc1 took1 p1 held1 acc2 took2 where
    st: "tp_step op p held = Some (acc1, took1, p1, held1)"
    and r: "tp_run ops p1 held1 = Some (acc2, took2, p', held')" "acc = acc1 @ acc2" "took = took1 @ took2"
    by (auto split: option.splits)
  obtain s1 where s1: "pool_rel p1 held1 s1" "tq_mset s + mset acc1 = mset took1 + tq_mset s1"
    using step_sim [OF Cons.prems(1) st] by blast
  obtain s2 where s2: "pool_rel p' held' s2" "tq_mset s1 + mset acc2 = mset took2 + tq_mset s2"
    using Cons.IH [OF s1(1) r(1)] by blast
  have "tq_mset s + mset acc = (mset took1 + tq_mset s1) + mset acc2"
    using s1(2) r(2) by (simp add: ac_simps)
  also have "\<dots> = mset took + tq_mset s2" using s2(2) r(3) by (simp add: ac_simps)
  finally show ?case using s2(1) by blast
qed

lemma start_rel: "pool_rel (threadpool_start cfg) [] (\<lambda>_. [], None)"
  by (rule pool_relI [where A = "\<lambda>_. []"]) (simp_all add: threadpool_start_def Let_def shape_def tq_size_def)

text \<open>
  (C14) Over any interleaving of submissions of all priorities, urgent submissions, workers taking tasks
  and workers finishing them, that starts in a fresh pool and does not dereference a null tail: every
  taken task was accepted and is taken once, the queue length counts exactly the accepted tasks that
  nobody has taken yet, and when the three queues are empty every accepted task has been taken.
\<close>

theorem tasks_taken_exactly_once:
  assumes "tp_run ops (threadpool_start cfg) [] = Some (acc, took, p, held)"
  shows "mset took \<subseteq># mset acc \<and> tp_queue_length p = of_nat (length acc - length took) \<and>
    (next_class p = None \<longrightarrow> mset took = mset acc)"
proof -
  obtain B loc where s: "pool_rel p held (B, loc)" "mset acc = mset took + tq_mset (B, loc)"
    using run_sim [OF start_rel assms] by (auto simp: tq_mset_def)
  obtain A where A: "shape (tp_heap p) (tp_queue p) (tp_tail p) (A, loc)" "\<And>c. B c = map (ent (tp_heap p)) (A c)"
    "tp_queue_length p = of_nat (tq_size B)" using pool_relE [OF s(1)] by metis
  have "length acc = length took + tq_size B"
    using arg_cong [OF s(2), of size] by (simp add: tq_mset_size)
  moreover have "tq_mset (B, loc) = {#}" if "next_class p = None"
    using that next_class_shape [OF A(1) refl] a_class_map [of B "ent (tp_heap p)" A, OF A(2)]
    by (simp add: a_class_def tq_mset_def split: if_splits)
  ultimately show ?thesis using s(2) A(3) by simp
qed

lemma tasks_taken_exactly_once_witness:
  "\<exists>acc took p held. tp_run [Op_Add (Some 1) 0 (7::nat) None False Prio_Low 0, Op_Take 5, Op_Finish 1]
      (threadpool_start threadpool_get_default_config) [] = Some (acc, took, p, held) \<and>
    took = [(1, 7, None, False)] \<and> mset took = mset acc"
proof -
  let ?ops = "[Op_Add (Some 1) 0 (7::nat) None False Prio_Low 0, Op_Take 5, Op_Finish 1]"
  let ?p = "threadpool_start threadpool_get_default_config :: nat threadpool"
  obtain acc took p held where r: "tp_run ?ops ?p [] = Some (acc, took, p, held)" "took = [(1, 7, None, False)]"
    "next_class p = None"
    by (simp add: threadpool_start_def threadpool_get_default_config_def validate_config_def Let_def malloc_at_def
        threadpool_add_task_def create_task_def link_task_def count_submission_def get_next_task_def next_class_def
        destroy_task_def ent_def entry_def)
  then show ?thesis using tasks_taken_exactly_once [OF r(1)] by blast
qed

section \<open>Tasks of one queue\<close>

text \<open>While all submissions go to one queue the shared tail is the tail of that queue.\<close>

definition only_class :: "queue_class \<Rightarrow> 'x tq \<Rightarrow> bool" where
  "only_class c s = (case s of (B, loc) \<Rightarrow>
     (\<forall>d. d \<noteq> c \<longrightarrow> B d = []) \<and> loc = (if B c = [] then None else Some c))"

fun op_class :: "queue_class \<Rightarrow> 'f tp_op \<Rightarrow> bool" where
  "op_class c (Op_Add _ _ _ _ _ prio _) = (queue_of prio = c)"
| "op_class c (Op_Urgent _ _ _ _ _) = False"
| "op_class c _ = True"

definition within_size :: "'f threadpool \<Rightarrow> nat \<Rightarrow> bool" where
  "within_size p n \<longleftrightarrow> (0 < cfg_queue_size (tp_config p) \<longrightarrow> n \<le> unat (cfg_queue_size (tp_config p)))"

lemma only_class_size: "only_class c (B, loc) \<Longrightarrow> tq_size B = length (B c)"
  by (cases c) (auto simp: only_class_def tq_size_def)

lemma only_class_add:
  assumes "only_class c (B, loc)"
  shows "\<exists>B' loc'. a_add c x (B, loc) = Some (B', loc') \<and> only_class c (B', loc') \<and> B' c = B c @ [x]"
  using assms by (auto simp: only_class_def a_add_def)

lemma only_class_next:
  assumes "only_class c (B, loc)"
  shows "a_class B = (if B c = [] then None else Some c) \<and>
    (B c \<noteq> [] \<longrightarrow> (\<exists>B' loc'. a_next (B, loc) = (Some (hd (B c)), B', loc') \<and> only_class c (B', loc') \<and>
       B c = hd (B c) # B' c))"
proof -
  have cl: "a_class B = (if B c = [] then None else Some c)"
    using assms by (cases c) (auto simp: only_class_def a_class_def)
  show ?thesis using assms cl by (auto simp: only_class_def a_next_def)
qed

lemma accepts_room:
  assumes "accepts p" "tp_queue_length p = of_nat n" "within_size p n"
  shows "within_size p (Suc n)"
proof (cases "0 < cfg_queue_size (tp_config p)")
  case True
  let ?s = "cfg_queue_size (tp_config p)"
  have n: "n \<le> unat ?s" using assms(3) True by (simp add: within_size_def)
  have u: "unat (ucast ?s :: 64 word) = unat ?s" by (rule unat_ucast_32_64)
  have "n < 2 ^ 64" using n unat_lt_32 [of ?s] by simp
  then have "unat (of_nat n :: 64 word) = n" by (rule unat_of_nat_64)
  moreover have "(of_nat n :: 64 word) < ucast ?s" using assms(1,2) True by (auto simp: accepts_def)
  ultimately have "n < unat ?s" by (simp add: word_less_nat_alt u)
  then show ?thesis by (simp add: within_size_def)
qed (simp add: within_size_def)

lemma step_single:
  assumes rel: "pool_rel p held (B, loc)" and one: "only_class c (B, loc)" and op: "op_class c op"
    and w: "within_size p (length (B c))"
  shows "\<exists>acc took p' held' B' loc'. tp_step op p held = Some (acc, took, p', held') \<and>
    pool_rel p' held' (B', loc') \<and> only_class c (B', loc') \<and> B c @ acc = took @ B' c \<and>
    tp_config p' = tp_config p \<and> within_size p' (length (B' c))"
proof (cases op)
  case (Op_Add addr now fn arg cl prio tmo)
  let ?ad = "malloc_at (tp_heap p) addr"
  show ?thesis
  proof (cases "?ad = None \<or> \<not> accepts p")
    case True
    from add_refused [OF True, of now fn arg cl prio tmo] obtain e p' where
      e: "threadpool_add_task ?ad now (Some p) (Some fn) arg cl prio tmo = Some (e, None, Some p')"
      "p' = p \<or> p' = p\<lparr>tp_task_counter := tp_task_counter p + 1\<rparr>" by blast
    then have "tp_step op p held = Some ([], [], p', held)" using Op_Add by simp
    moreover have "pool_rel p' held (B, loc)" "tp_config p' = tp_config p" "within_size p' (length (B c))"
      using e(2) rel w by (auto simp: within_size_def)
    ultimately show ?thesis using one by fastforce
  next
    case False
    then obtain a where a: "?ad = Some a" "accepts p" by auto
    let ?x = "(tp_task_counter p, fn, arg, cl)"
    obtain B' loc' where B': "a_add c ?x (B, loc) = Some (B', loc')" "only_class c (B', loc')" "B' c = B c @ [?x]"
      using only_class_add [OF one] by blast
    from add_sim [OF rel malloc_at_Some [OF a(1)] a(2), of now fn arg cl prio tmo] op Op_Add B'(1)
    obtain p' where p': "threadpool_add_task ?ad now (Some p) (Some fn) arg cl prio tmo =
        Some (TP_Success, Some (tp_task_counter p), Some p')" "pool_rel p' held (B', loc')" "tp_config p' = tp_config p"
      by (auto simp: option_rel_Some2 same_setup_def a(1))
    have "tp_queue_length p = of_nat (length (B c))"
      using pool_relE [OF rel] only_class_size [OF one] by metis
    then have "within_size p' (length (B' c))"
      using accepts_room [OF a(2) _ w] p'(3) B'(3) by (simp add: within_size_def)
    moreover have "tp_step op p held = Some ([?x], [], p', held)" using Op_Add p'(1) by simp
    ultimately show ?thesis using p' B' by (fastforce intro!: exI [of _ B'] exI [of _ loc'])
  qed
next
  case (Op_Take now)
  note t = take_sim [OF rel, of now] and n = only_class_next [OF one]
  show ?thesis
  proof (cases "B c = []")
    case True
    then show ?thesis using t n rel one w Op_Take by fastforce
  next
    case False
    then obtain B' loc' where B': "a_next (B, loc) = (Some (hd (B c)), B', loc')" "only_class c (B', loc')"
      "B c = hd (B c) # B' c" using n by blast
    obtain a p' sig where "get_next_task now p = Some (Some a, p', sig)" "hd (B c) = ent (tp_heap p') a"
      "pool_rel p' (a # held) (B', loc')" "same_setup p p'" using t n False B' by auto
    moreover have "within_size p (length (B' c))" using w arg_cong [OF B'(3), of length] by (auto simp: within_size_def)
    moreover have "B c = [hd (B c)] @ B' c" using B'(3) by simp
    ultimately show ?thesis using B'(2) Op_Take
      by (intro exI [of _ "[]"] exI [of _ "[hd (B c)]"] exI [of _ p'] exI [of _ "a # held"] exI [of _ B'] exI [of _ loc'])
        (simp add: same_setup_def within_size_def)
  qed
next
  case (Op_Finish a)
  show ?thesis
  proof (cases "a \<in> set held")
    case True
    then show ?thesis using destroy_sim [OF pool_rel_perm [OF True rel]] one w Op_Finish
      by (auto simp: same_setup_def within_size_def)
  next
    case False
    then show ?thesis using rel one w Op_Finish by auto
  qed
qed (use op in simp)

lemma run_single:
  assumes "pool_rel p held (B, loc)" "only_class c (B, loc)" "list_all (op_class c) ops"
    and "within_size p (length (B c))"
  shows "\<exists>acc took p' held' rest. tp_run ops p held = Some (acc, took, p', held') \<and> B c @ acc = took @ rest \<and>
    tp_config p' = tp_config p \<and> within_size p' (length rest)"
  using assms
proof (induction ops arbitrary: p held B loc)
  case Nil
  then show ?case by auto
next
  case (Cons op ops)
  obtain acc took p' held' B' loc' where s: "tp_step op p held = Some (acc, took, p', held')"
    "pool_rel p' held' (B', loc')" "only_class c (B', loc')" "B c @ acc = took @ B' c"
    "tp_config p' = tp_config p" "within_size p' (length (B' c))"
    using step_single [OF Cons.prems(1,2) _ Cons.prems(4), of op] Cons.prems(3) by auto
  obtain acc2 took2 p2 held2 rest where r: "tp_run ops p' held' = Some (acc2, took2, p2, held2)"
    "B' c @ acc2 = took2 @ rest" "tp_config p2 = tp_config p'" "within_size p2 (length rest)"
    using Cons.IH [OF s(2,3) _ s(6)] Cons.prems(3) by auto
  have "B c @ acc @ acc2 = took @ took2 @ rest" using s(4) r(2) by (metis append.assoc)
  then show ?case using s r by auto
qed

text \<open>
  When all submissions have priorities of one queue, the pool never fails, the tasks are taken in
  the order in which they were accepted, and with a positive \<open>queue_size\<close> no more than that many
  tasks wait at any time.
\<close>

theorem single_priority_fifo:
  assumes "list_all (op_class c) ops"
  shows "\<exists>acc took p held rest. tp_run ops (threadpool_start cfg) [] = Some (acc, took, p, held) \<and>
    acc = took @ rest \<and>
    (0 < cfg_queue_size (tp_config p) \<longrightarrow> length rest \<le> unat (cfg_queue_size (tp_config p)))"
  using run_single [OF start_rel _ assms, of cfg] by (fastforce simp: only_class_def within_size_def)

lemma single_priority_fifo_witness:
  "\<exists>acc took p held rest. tp_run [Op_Add (Some 1) 0 (7::nat) None False Prio_High 0,
      Op_Add (Some 2) 0 8 None False Prio_Critical 0, Op_Take 5]
      (threadpool_start threadpool_get_default_config) [] = Some (acc, took, p, held) \<and> acc = took @ rest"
  using single_priority_fifo [of Q_High "[Op_Add (Some 1) 0 (7::nat) None False Prio_High 0,
      Op_Add (Some 2) 0 8 None False Prio_Critical 0, Op_Take 5]" threadpool_get_default_config] by auto

section \<open>The shared tail pointer\<close>

lemmas pool_eval = threadpool_start_def threadpool_get_default_config_def validate_config_def Let_def malloc_at_def
  threadpool_add_task_def create_task_def link_task_def count_submission_def get_next_task_def next_class_def
  destroy_task_def ent_def entry_def

text \<open>
  The three queues share one tail pointer, so priorities interfere. A normal task, then a high one
  that a worker takes, then another normal one: the tail is null and is dereferenced. If the high task
  is still waiting when the second normal one arrives, that one is linked behind it and runs before
  the first.
\<close>

theorem shared_tail_interference:
  "tp_run [Op_Add (Some 1) t1 f None False Prio_Normal 0, Op_Add (Some 2) t2 g None False Prio_High 0, Op_Take t3,
      Op_Add (Some 3) t4 h None False Prio_Normal 0] (threadpool_start threadpool_get_default_config) [] = None \<and>
   (\<exists>p held. tp_run [Op_Add (Some 1) t1 f None False Prio_Normal 0, Op_Add (Some 2) t2 g None False Prio_High 0,
      Op_Add (Some 3) t4 h None False Prio_Normal 0, Op_Take t5, Op_Take t6, Op_Take t7]
      (threadpool_start threadpool_get_default_config) [] =
     Some ([(1, f, None, False), (2, g, None, False), (3, h, None, False)],
           [(2, g, None, False), (3, h, None, False), (1, f, None, False)], p, held))"
proof -
  have "\<not> (1024 :: 64 word) \<le> 1" by (simp add: word_le_nat_alt)
  then show ?thesis by (intro conjI) (simp_all add: pool_eval)
qed

section \<open>Waiting for the tasks\<close>

lemma tp_step_fields:
  "tp_step op p held = Some (acc, took, p', held') \<Longrightarrow>
     tp_state p' = tp_state p \<and> tp_threads p' = tp_threads p \<and> tp_failed p' = tp_failed p"
  by (cases op) (auto simp: threadpool_add_task_def threadpool_add_urgent_task_def create_task_def link_task_def
      count_submission_def get_next_task_def destroy_task_def Let_def split: option.splits if_splits prod.splits)

lemma tp_run_fields:
  "tp_run ops p held = Some (acc, took, p', held') \<Longrightarrow>
     tp_state p' = tp_state p \<and> tp_threads p' = tp_threads p \<and> tp_failed p' = tp_failed p"
proof (induction ops arbitrary: p held acc took)
  case (Cons op ops)
  then obtain acc1 took1 p1 held1 acc2 took2 where
    st: "tp_step op p held = Some (acc1, took1, p1, held1)" and r: "tp_run ops p1 held1 = Some (acc2, took2, p', held')"
    by (auto split: option.splits)
  then show ?case using Cons.IH [OF r] tp_step_fields [OF st] by simp
qed simp

lemma get_next_signal: "get_next_task now p = Some (t, p', sig) \<Longrightarrow> sig \<Longrightarrow> tp_state p = TP_Stopping"
  by (auto simp: get_next_task_def Let_def split: option.splits if_splits)

text \<open>
  \<open>all_tasks_done\<close> is broadcast only by \<open>get_next_task\<close>, and only while the pool is stopping;
  \<open>threadpool_wait\<close> waits for it only while the pool is running. So whatever the workers do after a
  caller has begun to wait, none of their steps wakes it up, and without a time limit it
  returns only when \<open>pthread_cond_wait\<close> wakes up spuriously.
\<close>

theorem threadpool_wait_not_woken:
  assumes "tp_run ops (threadpool_start cfg) [] = Some (acc, took, p, held)"
  shows "(\<forall>now t p' sig. get_next_task now p = Some (t, p', sig) \<longrightarrow> \<not> sig) \<and>
    (tp_queue_length p > 0 \<longrightarrow> threadpool_wait (Some p) 0 [] = None)"
proof -
  have "tp_state p = TP_Running"
    using tp_run_fields [OF assms] by (simp add: threadpool_start_def Let_def)
  then show ?thesis using get_next_signal [of _ p] by (fastforce simp: threadpool_wait_def)
qed

lemma threadpool_wait_not_woken_witness:
  "\<exists>acc took p held. tp_run [Op_Add (Some 1) 0 (7::nat) None False Prio_Low 0]
      (threadpool_start threadpool_get_default_config) [] = Some (acc, took, p, held) \<and>
    (\<forall>now t p' sig. get_next_task now p = Some (t, p', sig) \<longrightarrow> \<not> sig) \<and> threadpool_wait (Some p) 0 [] = None"
proof -
  obtain acc took p held where r: "tp_run [Op_Add (Some 1) 0 (7::nat) None False Prio_Low 0]
      (threadpool_start threadpool_get_default_config) [] = Some (acc, took, p, held)" "tp_queue_length p = 1"
    by (simp add: pool_eval)
  then show ?thesis using threadpool_wait_not_woken [OF r(1)] by fastforce
qed

section \<open>Destroying the pool\<close>

fun entry_cleaned :: "'f entry \<Rightarrow> nat list" where
  "entry_cleaned (_, _, arg, cl) = (if cl then (case arg of Some x \<Rightarrow> [x] | None \<Rightarrow> []) else [])"

definition without :: "(nat \<rightharpoonup> 'v) \<Rightarrow> nat list \<Rightarrow> nat \<rightharpoonup> 'v" where
  "without h as = (\<lambda>b. if b \<in> set as then None else h b)"

lemma drain_queue_spec:
  assumes "chain (tp_heap p) (tp_queue p c) as" "distinct as"
  shows "drain_queue c p = Some (concat (map (entry_cleaned \<circ> ent (tp_heap p)) as),
    p\<lparr>tp_heap := without (tp_heap p) as, tp_queue := (tp_queue p)(c := None),
      tp_failed := tp_failed p + of_nat (length as)\<rparr>)"
  using assms
proof (induction as arbitrary: p)
  case Nil
  then have "(tp_queue p)(c := None) = tp_queue p" by auto
  moreover have "without (tp_heap p) [] = tp_heap p" by (simp add: without_def)
  ultimately show ?case using Nil by (subst drain_queue.simps) simp
next
  case (Cons a as)
  obtain t where t: "tp_queue p c = Some a" "tp_heap p a = Some t" "chain (tp_heap p) (t_next t) as"
    using Cons.prems(1) by (auto split: option.splits)
  define q where "q = p\<lparr>tp_queue := (tp_queue p)(c := t_next t), tp_heap := (tp_heap p)(a := None),
    tp_failed := tp_failed p + 1\<rparr>"
  have a: "a \<notin> set as" "distinct as" using Cons.prems(2) by auto
  have ch: "chain (tp_heap q) (tp_queue q c) as" using t(3) a(1) by (simp add: q_def chain_frame)
  have e: "map (entry_cleaned \<circ> ent (tp_heap q)) as = map (entry_cleaned \<circ> ent (tp_heap p)) as"
    using a(1) by (auto simp: q_def ent_def)
  have h: "without (tp_heap q) as = without (tp_heap p) (a # as)"
    by (auto simp: q_def without_def)
  have qq: "(tp_queue q)(c := None) = (tp_queue p)(c := None)" by (simp add: q_def)
  have qu: "q\<lparr>tp_heap := H, tp_queue := Q, tp_failed := F\<rparr> = p\<lparr>tp_heap := H, tp_queue := Q, tp_failed := F\<rparr>" for H Q F
    by (simp add: q_def)
  have qf: "tp_failed q = tp_failed p + 1" by (simp add: q_def)
  have r: "drain_queue c q = Some (concat (map (entry_cleaned \<circ> ent (tp_heap p)) as),
      p\<lparr>tp_heap := without (tp_heap p) (a # as), tp_queue := (tp_queue p)(c := None),
        tp_failed := tp_failed p + of_nat (length (a # as))\<rparr>)"
    using Cons.IH [OF ch a(2)] unfolding e h qq qu by (simp add: qf add.assoc)
  have d: "destroy_task a (p\<lparr>tp_queue := (tp_queue p)(c := t_next t)\<rparr>) =
      (entry_cleaned (ent (tp_heap p) a), p\<lparr>tp_queue := (tp_queue p)(c := t_next t), tp_heap := (tp_heap p)(a := None)\<rparr>)"
    using t(2) by (simp add: destroy_task_def ent_def entry_def)
  have "drain_queue c p = Option.bind (drain_queue c q)
      (\<lambda>(more, p2). Some (entry_cleaned (ent (tp_heap p) a) @ more, p2))"
    by (subst drain_queue.simps) (simp add: t d q_def)
  moreover have "concat (map (entry_cleaned \<circ> ent (tp_heap p)) (a # as)) =
      entry_cleaned (ent (tp_heap p) a) @ concat (map (entry_cleaned \<circ> ent (tp_heap p)) as)" by simp
  ultimately show ?case by (simp only: r Option.bind_lunit prod.case)
qed

lemma drain_from:
  assumes "chain h (Q c) as" "distinct as"
  shows "drain_queue c (p\<lparr>tp_heap := h, tp_queue := Q, tp_failed := n\<rparr>) =
    Some (concat (map (entry_cleaned \<circ> ent h) as),
      p\<lparr>tp_heap := (without h as), tp_queue := Q(c := None),
        tp_failed := n + of_nat (length as)\<rparr>)"
  using drain_queue_spec [of "p\<lparr>tp_heap := h, tp_queue := Q, tp_failed := n\<rparr>" c as] assms by simp

lemma ex_class: "(\<exists>c. P c) \<longleftrightarrow> P Q_High \<or> P Q_Normal \<or> P Q_Low"
  by (metis queue_class.exhaust)

lemma drain_frame:
  assumes "set as \<inter> set bs = {}"
  shows "chain (without h as) x bs = chain h x bs"
    "map (entry_cleaned \<circ> ent (without h as)) bs = map (entry_cleaned \<circ> ent h) bs"
proof -
  show "chain (without h as) x bs = chain h x bs"
    using assms by (induction bs arbitrary: x) (auto simp: without_def split: option.splits)
  show "map (entry_cleaned \<circ> ent (without h as)) bs = map (entry_cleaned \<circ> ent h) bs"
    using assms by (auto simp: ent_def without_def)
qed

lemma destroy_finish_spec:
  assumes sh: "shape (tp_heap p) (tp_queue p) (tp_tail p) (A, loc)" and th: "tp_threads p \<noteq> None"
  shows "\<exists>p'. destroy_finish p = Some (concat (map (entry_cleaned \<circ> ent (tp_heap p)) (A Q_High @ A Q_Normal @ A Q_Low)), p') \<and>
    (\<forall>b. tp_heap p' b = (if \<exists>c. b \<in> set (A c) then None else tp_heap p b)) \<and>
    tp_failed p' = tp_failed p + of_nat (tq_size A) \<and> tp_state p' = TP_Stopped"
proof -
  let ?h0 = "tp_heap p"
  let ?h1 = "without ?h0 (A Q_High)"
  let ?h2 = "without ?h1 (A Q_Normal)"
  let ?h3 = "without ?h2 (A Q_Low)"
  let ?f = "\<lambda>h. entry_cleaned \<circ> ent h"
  let ?q1 = "(tp_queue p)(Q_High := None)" let ?q2 = "?q1(Q_Normal := None)" let ?q3 = "?q2(Q_Low := None)"
  let ?n = "\<lambda>c. of_nat (length (A c)) :: 64 word"
  define p1 where "p1 = p\<lparr>tp_heap := ?h1, tp_queue := ?q1, tp_failed := tp_failed p + ?n Q_High\<rparr>"
  define p2 where "p2 = p\<lparr>tp_heap := ?h2, tp_queue := ?q2, tp_failed := tp_failed p + ?n Q_High + ?n Q_Normal\<rparr>"
  define p3 where "p3 = p\<lparr>tp_heap := ?h3, tp_queue := ?q3,
    tp_failed := tp_failed p + ?n Q_High + ?n Q_Normal + ?n Q_Low\<rparr>"
  note ch = shapeD(1) [OF sh] and di = shapeD(2) [OF sh] and ds = shapeD(3) [OF sh]
  have d1: "drain_queue Q_High p = Some (concat (map (?f ?h0) (A Q_High)), p1)"
    using drain_queue_spec [OF ch di, of Q_High] by (simp add: p1_def)
  have n1: "chain ?h1 (tp_queue p Q_Normal) (A Q_Normal)" "map (?f ?h1) (A Q_Normal) = map (?f ?h0) (A Q_Normal)"
    using drain_frame [OF ds [of Q_High Q_Normal], of ?h0] ch [of Q_Normal] by simp_all
  have d2: "drain_queue Q_Normal p1 = Some (concat (map (?f ?h0) (A Q_Normal)), p2)"
    unfolding p1_def p2_def using drain_from [of ?h1 ?q1 Q_Normal "A Q_Normal"] n1 di by simp
  have l1: "chain ?h1 (tp_queue p Q_Low) (A Q_Low)" "map (?f ?h1) (A Q_Low) = map (?f ?h0) (A Q_Low)"
    using drain_frame [OF ds [of Q_High Q_Low], of ?h0] ch [of Q_Low] by simp_all
  have l2: "chain ?h2 (tp_queue p Q_Low) (A Q_Low)" "map (?f ?h2) (A Q_Low) = map (?f ?h0) (A Q_Low)"
    using drain_frame [OF ds [of Q_Normal Q_Low], of ?h1] l1 by simp_all
  have d3: "drain_queue Q_Low p2 = Some (concat (map (?f ?h0) (A Q_Low)), p3)"
    unfolding p2_def p3_def using drain_from [of ?h2 ?q2 Q_Low "A Q_Low"] l2 di by simp
  have eq: "destroy_finish p = Some (concat (map (?f ?h0) (A Q_High @ A Q_Normal @ A Q_Low)),
      p3\<lparr>tp_tail := None, tp_queue_length := 0, tp_state := TP_Stopped\<rparr>)"
    unfolding destroy_finish_def using th by (simp add: d1 d2 d3)
  have "?h3 b = (if \<exists>c. b \<in> set (A c) then None else ?h0 b)" for b
    by (simp add: without_def ex_class)
  moreover have "tp_failed p3 = tp_failed p + of_nat (tq_size A)"
    by (simp add: p3_def tq_size_def add.assoc)
  moreover have "tp_heap p3 = ?h3" by (simp add: p3_def)
  ultimately show ?thesis unfolding eq
    by (intro exI [of _ "p3\<lparr>tp_tail := None, tp_queue_length := 0, tp_state := TP_Stopped\<rparr>"]) simp
qed

text \<open>
  After any session, destroying the pool ends: the task nodes that remain are those that workers
  still hold, so no queued task leaks and none is freed twice; the cleanup function is called
  once for every accepted task that was never taken and that has one and an argument; and each of
  those tasks is counted as failed.
\<close>

theorem destroy_releases_pending:
  assumes "tp_run ops (threadpool_start cfg) [] = Some (acc, took, p, held)"
  shows "\<exists>rest args p'. mset acc = mset took + mset rest \<and> destroy_finish p = Some (args, p') \<and>
    args = concat (map entry_cleaned rest) \<and> dom (tp_heap p') = set held \<and>
    tp_failed p' = of_nat (length rest) \<and> tp_state p' = TP_Stopped"
proof -
  obtain B loc where s: "pool_rel p held (B, loc)" "mset acc = mset took + tq_mset (B, loc)"
    using run_sim [OF start_rel assms] by (auto simp: tq_mset_def)
  obtain A where A: "shape (tp_heap p) (tp_queue p) (tp_tail p) (A, loc)" "\<And>c. B c = map (ent (tp_heap p)) (A c)"
    "\<And>a. a \<in> set held \<Longrightarrow> tp_heap p a \<noteq> None" "\<And>a c. a \<in> set held \<Longrightarrow> a \<notin> set (A c)"
    "\<And>a. tp_heap p a \<noteq> None \<Longrightarrow> a \<notin> set held \<Longrightarrow> \<exists>c. a \<in> set (A c)" using pool_relE [OF s(1)] by metis
  have f: "tp_threads p \<noteq> None" "tp_failed p = 0"
    using tp_run_fields [OF assms] by (simp_all add: threadpool_start_def Let_def)
  let ?rest = "B Q_High @ B Q_Normal @ B Q_Low"
  obtain p' where p': "destroy_finish p = Some (concat (map (entry_cleaned \<circ> ent (tp_heap p)) (A Q_High @ A Q_Normal @ A Q_Low)), p')"
    "\<And>b. tp_heap p' b = (if \<exists>c. b \<in> set (A c) then None else tp_heap p b)"
    "tp_failed p' = tp_failed p + of_nat (tq_size A)" "tp_state p' = TP_Stopped"
    using destroy_finish_spec [OF A(1) f(1)] by blast
  have dom: "dom (tp_heap p') = set held"
  proof (intro set_eqI iffI)
    fix b assume "b \<in> dom (tp_heap p')"
    then have b: "tp_heap p b \<noteq> None" "\<not> (\<exists>c. b \<in> set (A c))" by (auto simp: p'(2) split: if_splits)
    then show "b \<in> set held" using A(5) [of b] by blast
  next
    fix b assume "b \<in> set held"
    then have "tp_heap p' b \<noteq> None" using A(3) [of b] A(4) [of b] by (simp add: p'(2))
    then show "b \<in> dom (tp_heap p')" by (rule domIff [THEN iffD2])
  qed
  have "concat (map (entry_cleaned \<circ> ent (tp_heap p)) (A Q_High @ A Q_Normal @ A Q_Low)) = concat (map entry_cleaned ?rest)"
    by (simp add: A(2))
  moreover have "tq_size A = length ?rest" by (simp add: A(2) tq_size_def)
  moreover have "mset acc = mset took + mset ?rest" using s(2) by (simp add: tq_mset_def)
  ultimately show ?thesis using p'(1,3,4) f(2) dom by (intro exI [of _ ?rest] exI [of _ p'] exI) auto
qed

lemma destroy_releases_pending_witness:
  "\<exists>acc took p held p'. tp_run [Op_Add (Some 1) 0 (7::nat) (Some 9) True Prio_Low 0]
      (threadpool_start threadpool_get_default_config) [] = Some (acc, took, p, held) \<and>
    destroy_finish p = Some ([9], p') \<and> dom (tp_heap p') = {} \<and> tp_failed p' = 1"
proof -
  let ?ops = "[Op_Add (Some 1) 0 (7::nat) (Some 9) True Prio_Low 0]"
  obtain acc took p held where r: "tp_run ?ops (threadpool_start threadpool_get_default_config) [] = Some (acc, took, p, held)"
    "acc = [(1, 7, Some 9, True)]" "took = []" "held = []"
    by (simp add: pool_eval)
  obtain rest args p' where d: "mset acc = mset took + mset rest" "destroy_finish p = Some (args, p')"
    "args = concat (map entry_cleaned rest)" "dom (tp_heap p') = set held" "tp_failed p' = of_nat (length rest)"
    using destroy_releases_pending [OF r(1)] by blast
  have rest: "rest = [(1, 7, Some 9, True)]"
  proof -
    have "mset rest = {#(1, 7, Some 9, True)#}" using d(1) r by simp
    then show ?thesis by simp
  qed
  have "destroy_finish p = Some ([9], p')" "dom (tp_heap p') = {}" "tp_failed p' = 1"
    using d r(4) by (simp_all add: rest)
  then show ?thesis using r(1) by blast
qed

section \<open>Scaling\<close>

text \<open>Once the upper limit has sunk below the number of threads no check changes that number.\<close>

lemma resize_below_limit:
  assumes "cfg_max_threads (tp_config p) < tp_thread_count p"
  shows "\<exists>e p'. threadpool_resize ok1 ok2 k (Some p) n = (e, Some p') \<and> tp_thread_count p' = tp_thread_count p \<and>
    cfg_max_threads (tp_config p') \<le> cfg_max_threads (tp_config p)"
proof (cases "n \<le> cfg_max_threads (tp_config p)")
  case True
  then have "n < tp_thread_count p" using assms by simp
  then show ?thesis using True by (auto simp: threadpool_resize_def)
next
  case False
  then show ?thesis by (auto simp: threadpool_resize_def)
qed

lemma check_below_limit:
  assumes "cfg_max_threads (tp_config p) < tp_thread_count p"
  shows "tp_thread_count (check_and_adjust_pool_size e p) = tp_thread_count p \<and>
    cfg_max_threads (tp_config (check_and_adjust_pool_size e p)) < tp_thread_count (check_and_adjust_pool_size e p)"
proof -
  let ?n = "calculate_optimal_threads (se_high e) (se_low e) p"
  obtain err p' where "threadpool_resize (se_ok_threads e) (se_ok_stats e) (se_started e) (Some p) ?n = (err, Some p')"
    "tp_thread_count p' = tp_thread_count p" "cfg_max_threads (tp_config p') \<le> cfg_max_threads (tp_config p)"
    using resize_below_limit [OF assms] by blast
  moreover have "cfg_max_threads (tp_config p') < tp_thread_count p"
    using le_less_trans [OF _ assms] calculation(3) by blast
  ultimately show ?thesis using assms by (simp add: check_and_adjust_pool_size_def Let_def)
qed

lemma div2_less: "0 < (n :: 32 word) \<Longrightarrow> n div 2 < n"
  by (simp add: word_less_nat_alt unat_div word_neq_0_conv)

lemma checks_below_limit:
  "cfg_max_threads (tp_config p) < tp_thread_count p \<Longrightarrow>
     tp_thread_count (fold check_and_adjust_pool_size es p) = tp_thread_count p"
proof (induction es arbitrary: p)
  case (Cons e es)
  note c = check_below_limit [OF Cons.prems, of e]
  show ?case using Cons.IH [OF conjunct2 [OF c]] c by simp
qed simp

lemma resize_shrinks:
  assumes "tp_state p = TP_Running" "cfg_min_threads (tp_config p) \<le> n" "n < cfg_max_threads (tp_config p)"
    and "n < tp_thread_count p"
  shows "threadpool_resize ok1 ok2 k (Some p) n =
    (TP_Success, Some (p\<lparr>tp_config := (tp_config p)\<lparr>cfg_max_threads := n\<rparr>\<rparr>))"
  using assms by (auto simp: threadpool_resize_def)

text \<open>
  The first check that finds the load low lowers \<open>config.max_threads\<close> instead of the number of threads:
  no thread ends, and from then on no check, however high the load, starts a thread again.
\<close>

theorem low_load_freezes_the_pool:
  assumes "tp_state p = TP_Running" "cfg_dynamic_scaling (tp_config p)"
    and "cfg_min_threads (tp_config p) < tp_thread_count p" "tp_thread_count p \<le> cfg_max_threads (tp_config p)"
    and "se_low e" "\<not> se_high e"
  shows "tp_thread_count (fold check_and_adjust_pool_size es (check_and_adjust_pool_size e p)) = tp_thread_count p \<and>
    cfg_max_threads (tp_config (check_and_adjust_pool_size e p)) < cfg_max_threads (tp_config p)"
proof -
  define n where "n = max (tp_thread_count p div 2) (cfg_min_threads (tp_config p))"
  have pos: "0 < tp_thread_count p" by (rule le_less_trans [OF word_zero_le assms(3)])
  have n: "n < tp_thread_count p" unfolding n_def max_less_iff_conj by (rule conjI [OF div2_less [OF pos] assms(3)])
  have m: "n < cfg_max_threads (tp_config p)" by (rule less_le_trans [OF n assms(4)])
  have l: "cfg_min_threads (tp_config p) \<le> n" unfolding n_def by (rule max.cobounded2)
  have c: "check_and_adjust_pool_size e p = p\<lparr>tp_config := (tp_config p)\<lparr>cfg_max_threads := n\<rparr>\<rparr>"
    using resize_shrinks [OF assms(1) l m n] n assms(2,5,6)
    by (simp add: check_and_adjust_pool_size_def calculate_optimal_threads_def n_def [symmetric])
  have "tp_thread_count (fold check_and_adjust_pool_size es (check_and_adjust_pool_size e p)) =
      tp_thread_count (check_and_adjust_pool_size e p)" using n by (intro checks_below_limit) (simp add: c)
  then show ?thesis using m by (simp add: c)
qed

lemma low_load_freezes_the_pool_witness:
  "tp_thread_count (fold check_and_adjust_pool_size
      [\<lparr>se_high = True, se_low = False, se_ok_threads = True, se_ok_stats = True, se_started = 100\<rparr>]
      (check_and_adjust_pool_size
        \<lparr>se_high = False, se_low = True, se_ok_threads = True, se_ok_stats = True, se_started = 0\<rparr>
        (threadpool_start threadpool_get_default_config :: nat threadpool))) = 16"
proof -
  let ?p = "threadpool_start threadpool_get_default_config :: nat threadpool"
  have p: "tp_thread_count ?p = 16" "tp_state ?p = TP_Running" "cfg_dynamic_scaling (tp_config ?p)"
    "cfg_min_threads (tp_config ?p) = 1" "cfg_max_threads (tp_config ?p) = 128"
    by (simp_all add: pool_eval)
  have "(1 :: 32 word) < 16" "(16 :: 32 word) \<le> 128" by (simp_all add: word_less_nat_alt word_le_nat_alt)
  then show ?thesis
    using low_load_freezes_the_pool [of ?p "\<lparr>se_high = False, se_low = True, se_ok_threads = True, se_ok_stats = True, se_started = 0\<rparr>"
      "[\<lparr>se_high = True, se_low = False, se_ok_threads = True, se_ok_stats = True, se_started = 100\<rparr>]"] p
    by simp
qed

section \<open>Workers leave the queues as the session steps do\<close>

lemma set_stats_queues:
  "set_stats i f p = Some p' \<Longrightarrow> tp_heap p' = tp_heap p \<and> tp_queue p' = tp_queue p \<and> tp_tail p' = tp_tail p \<and>
     tp_queue_length p' = tp_queue_length p"
  by (auto simp: set_stats_def split: if_splits)

lemma check_queues:
  "tp_heap (check_and_adjust_pool_size e p) = tp_heap p \<and> tp_queue (check_and_adjust_pool_size e p) = tp_queue p \<and>
   tp_tail (check_and_adjust_pool_size e p) = tp_tail p \<and>
   tp_queue_length (check_and_adjust_pool_size e p) = tp_queue_length p"
  by (auto simp: check_and_adjust_pool_size_def threadpool_resize_def Let_def)

lemma destroy_queues:
  "tp_heap q = tp_heap p \<Longrightarrow> fst (destroy_task a q) = fst (destroy_task a p) \<and>
     tp_heap (snd (destroy_task a q)) = tp_heap (snd (destroy_task a p)) \<and>
     tp_queue (snd (destroy_task a q)) = tp_queue q \<and> tp_tail (snd (destroy_task a q)) = tp_tail q \<and>
     tp_queue_length (snd (destroy_task a q)) = tp_queue_length q"
  by (auto simp: destroy_task_def split: option.splits)

text \<open>Executing a held task is, for the queues and the heap, destroying it.\<close>

lemma worker_execute_queues:
  assumes "worker_execute e clk i a p = Some (call, args, p')"
  shows "args = fst (destroy_task a p) \<and> tp_heap p' = tp_heap (snd (destroy_task a p)) \<and> tp_queue p' = tp_queue p \<and>
    tp_tail p' = tp_tail p \<and> tp_queue_length p' = tp_queue_length p \<and>
    (\<exists>t. tp_heap p a = Some t \<and> call = (t_function t, t_argument t))"
proof -
  obtain seen st fin cur where clk: "clk = (seen, st, fin, cur)" by (cases clk)
  from assms clk obtain t p1 p2 where t: "tp_heap p a = Some t"
    and p1: "set_stats i (\<lambda>s. s\<lparr>ts_current_task_id := t_id t, ts_last_task_time := seen\<rparr>) p = Some p1"
    and p2: "update_thread_statistics i (fin - st) p1 = Some p2"
    by (auto simp: worker_execute_def split: option.splits)
  note q1 = set_stats_queues [OF p1] and q2 = set_stats_queues [OF p2 [unfolded update_thread_statistics_def]]
  have d: "fst (destroy_task a p2) = fst (destroy_task a p) \<and>
      tp_heap (snd (destroy_task a p2)) = tp_heap (snd (destroy_task a p)) \<and>
      tp_queue (snd (destroy_task a p2)) = tp_queue p2 \<and> tp_tail (snd (destroy_task a p2)) = tp_tail p2 \<and>
      tp_queue_length (snd (destroy_task a p2)) = tp_queue_length p2"
    using q1 q2 by (intro destroy_queues) simp
  show ?thesis using assms d q1 q2
    by (auto simp: worker_execute_def clk t p1 p2 Let_def split_beta check_queues split: if_splits)
qed

text \<open>Polling takes what a session's take does; a sleeping worker is not counted as active any more, and
  the counter starts at zero although the workers are running.\<close>

lemma worker_poll_takes:
  assumes "worker_poll now i p = Some (Worker_Holds t, p')"
  shows "\<exists>sig. get_next_task now p = Some (t, p', sig)"
  using assms by (auto simp: worker_poll_def split: if_splits)

lemma first_idle_worker_wraps:
  "\<exists>p'. worker_poll now 0 (threadpool_start threadpool_get_default_config) = Some (Worker_Sleeps, p') \<and>
     tp_active_threads p' = - 1"
  by (simp add: worker_poll_def set_stats_def pool_eval)

lemma create_failure_reads_bad_threads:
  assumes "0 < unat (cfg_default_threads (validate_config c))"
  shows "threadpool_create True True False ok_stats started (Some c) = None"
    "threadpool_create True True True False started (Some c) = None"
    "\<not> started 0 \<Longrightarrow> threadpool_create True True True True started (Some c) = None"
  using assms by (auto simp: threadpool_create_def threadpool_start_def Let_def)

end
