(* ===== verification/WebSocket_Frames.thy ===== *)
theory WebSocket_Frames
  imports C_Lib
begin

text \<open>
  WebSocket frames, \<open>server/src/websocket_server.c\<close>: \<open>websocket_parse_frame\<close>, \<open>websocket_create_frame\<close>,
  \<open>send_websocket_frame\<close> and \<open>process_websocket_frame\<close> with its reassembly of fragmented messages.

  The header is read through the bit fields of \<open>websocket_frame_header_t\<close>. Their place in a byte is
  decided by the compiler: from the most significant bit on big-endian targets of the System V
  and GNU ABIs, from the least significant one on little-endian targets such as x86-64. The
  argument \<open>msb\<close> says which. A masking key is the list of its four bytes in memory.
\<close>

section \<open>Big-endian numbers\<close>

text \<open>\<open>htons\<close> and \<open>htobe64\<close> followed by \<open>memcpy\<close>, for \<open>k\<close> bytes; \<open>ntohs\<close> and \<open>be64toh\<close>.\<close>

fun be_encode :: "nat \<Rightarrow> nat \<Rightarrow> byte list" where
  "be_encode 0 n = []"
| "be_encode (Suc k) n = be_encode k (n div 256) @ [of_nat (n mod 256)]"

definition be_decode :: "byte list \<Rightarrow> nat" where
  "be_decode bs = foldl (\<lambda>a b. a * 256 + unat b) 0 bs"

lemma length_be_encode [simp]: "length (be_encode k n) = k"
  by (induction k arbitrary: n) auto

lemma be_decode_snoc [simp]: "be_decode (bs @ [b]) = be_decode bs * 256 + unat b"
  by (simp add: be_decode_def)

lemma unat_of_nat_8: "n < 256 \<Longrightarrow> unat (of_nat n :: byte) = n"
  by (simp add: unat_of_nat take_bit_nat_eq_self)

lemma be_decode_encode: "n < 256 ^ k \<Longrightarrow> be_decode (be_encode k n) = n"
proof (induction k arbitrary: n)
  case 0
  then show ?case by (simp add: be_decode_def)
next
  case (Suc k)
  then have "n div 256 < 256 ^ k" by (simp add: less_mult_imp_div_less mult.commute)
  then show ?case using Suc.IH by (simp add: unat_of_nat_8)
qed

lemma be_decode_bound: "be_decode bs < 256 ^ length bs"
proof (induction bs rule: rev_induct)
  case Nil
  then show ?case by (simp add: be_decode_def)
next
  case (snoc b bs)
  then show ?case using unat_lt_8 [of b] by simp
qed

section \<open>Headers\<close>

record frame_header =
  fh_fin :: bool
  fh_opcode :: byte
  fh_mask :: bool
  fh_len :: byte

definition frame_header_of :: "bool \<Rightarrow> byte \<Rightarrow> byte \<Rightarrow> frame_header" where
  "frame_header_of msb b0 b1 =
     (if msb then \<lparr>fh_fin = bit b0 7, fh_opcode = b0 AND 0x0F, fh_mask = bit b1 7, fh_len = b1 AND 0x7F\<rparr>
      else \<lparr>fh_fin = bit b0 0, fh_opcode = drop_bit 4 b0, fh_mask = bit b1 0, fh_len = drop_bit 1 b1\<rparr>)"

abbreviation WS_CONTINUATION :: byte where "WS_CONTINUATION \<equiv> 0"
abbreviation WS_TEXT :: byte where "WS_TEXT \<equiv> 1"
abbreviation WS_BINARY :: byte where "WS_BINARY \<equiv> 2"
abbreviation WS_CLOSE :: byte where "WS_CLOSE \<equiv> 8"
abbreviation WS_PING :: byte where "WS_PING \<equiv> 9"
abbreviation WS_PONG :: byte where "WS_PONG \<equiv> 10"

text \<open>The announced length and the offset after it; \<open>None\<close> when the extended length is incomplete.\<close>

definition frame_length :: "byte list \<Rightarrow> byte \<Rightarrow> (nat \<times> nat) option" where
  "frame_length data len7 =
     (if len7 = 126 then (if length data < 4 then None else Some (be_decode (take 2 (drop 2 data)), 4))
      else if len7 = 127 then (if length data < 10 then None else Some (be_decode (take 8 (drop 2 data)), 10))
      else Some (unat len7, 2))"

text \<open>\<open>payload[i] ^= ((uint8_t*)&masking_key)[i % 4]\<close> for all \<open>i\<close>.\<close>

definition xor_mask :: "byte list \<Rightarrow> byte list \<Rightarrow> byte list" where
  "xor_mask key xs = map (\<lambda>i. xs ! i XOR key ! (i mod 4)) [0..<length xs]"

section \<open>Parsing and creating frames\<close>

datatype parse_result = Parse_Invalid | Parse_Incomplete | Parse_Frame byte "byte list" bool

text \<open>The sum \<open>offset + len\<close> is formed in 64 bits. \<open>None\<close>: the payload reaches past the data.\<close>

definition websocket_parse_frame :: "bool \<Rightarrow> byte list \<Rightarrow> parse_result option" where
  "websocket_parse_frame msb data =
     (if length data < 2 then Some Parse_Invalid
      else
        let h = frame_header_of msb (data ! 0) (data ! 1) in
        case frame_length data (fh_len h) of
          None \<Rightarrow> Some Parse_Invalid
        | Some (len, offset0) \<Rightarrow>
            if fh_mask h \<and> length data < offset0 + 4 then Some Parse_Invalid
            else
              let offset = (if fh_mask h then offset0 + 4 else offset0) in
              if (of_nat (length data) :: size_t) < of_nat offset + of_nat len then Some Parse_Incomplete
              else
                Option.bind (mem_read data offset len) (\<lambda>payload.
                  Some (Parse_Frame (fh_opcode h)
                    (if fh_mask h \<and> len > 0 then xor_mask (take 4 (drop (offset - 4) data)) payload else payload)
                    (fh_fin h))))"

text \<open>The header of \<open>websocket_create_frame\<close> and of \<open>send_websocket_frame\<close> before masking.\<close>

definition frame_prefix :: "byte \<Rightarrow> nat \<Rightarrow> byte list" where
  "frame_prefix b0 n =
     (if n \<le> 125 then [b0, of_nat n AND 0x7F]
      else if n \<le> 65535 then [b0, 126] @ be_encode 2 n
      else [b0, 127] @ be_encode 8 n)"

definition websocket_create_frame :: "bool \<Rightarrow> byte \<Rightarrow> byte list \<Rightarrow> byte list option \<Rightarrow> int \<times> byte list option" where
  "websocket_create_frame ok opcode payload masking =
     (let header = frame_prefix (0x80 OR (opcode AND 0x0F)) (length payload);
          header' = (case masking of None \<Rightarrow> header | Some key \<Rightarrow> header[1 := header ! 1 OR 0x80] @ key)
      in if \<not> ok then (-1, None)
         else (0, Some (header' @ (case masking of None \<Rightarrow> payload | Some key \<Rightarrow> xor_mask key payload))))"

section \<open>Clients\<close>

datatype ws_state = WS_Connecting | WS_Open | WS_Closing | WS_Closed | WS_Error

text \<open>\<open>wc_message\<close> are the first \<open>message_length\<close> bytes of \<open>message_buffer\<close>.\<close>

record ws_client =
  wc_fd :: int
  wc_id :: "64 word"
  wc_ip :: "32 word"
  wc_port :: "16 word"
  wc_state :: ws_state
  wc_key :: string
  wc_message :: "byte list"
  wc_capacity :: nat
  wc_opcode :: byte
  wc_complete :: bool
  wc_fragment_size :: nat
  wc_messages_received :: "64 word"
  wc_messages_sent :: "64 word"
  wc_bytes_received :: "64 word"
  wc_bytes_sent :: "64 word"
  wc_last_activity :: "64 word"
  wc_connected_at :: "64 word"
  wc_last_ping :: "64 word"
  wc_last_pong :: "64 word"

text \<open>What processing a frame does outside the client: callbacks, bytes handed to \<open>send\<close>, counters of
  the server, and the call of \<open>remove_client\<close> with its status code and reason.\<close>

datatype ws_event = On_Message byte "byte list" | On_Binary "byte list" | Send_Bytes "byte list"
  | On_Close "16 word" "byte list option" | Count_Message | Count_Pong | Remove_Client "16 word" "byte list"

text \<open>The first answer of \<open>send\<close> is for the header, the second for the payload.\<close>

definition send_websocket_frame :: "(nat \<Rightarrow> int) \<Rightarrow> ws_client \<Rightarrow> byte \<Rightarrow> byte list \<Rightarrow> int \<times> ws_client \<times> ws_event list" where
  "send_websocket_frame sent c opcode payload =
     (let header = frame_prefix (0x80 OR (opcode AND 0x0F)) (length payload);
          c' = c\<lparr>wc_bytes_sent := wc_bytes_sent c + of_nat (length header + length payload),
                 wc_messages_sent := wc_messages_sent c + 1\<rparr>
      in if sent 0 \<le> 0 then (-1, c, [Send_Bytes header])
         else if length payload > 0 then
           (if sent 1 \<le> 0 then (-1, c, [Send_Bytes header, Send_Bytes payload])
            else (0, c', [Send_Bytes header, Send_Bytes payload]))
         else (0, c', [Send_Bytes header]))"

section \<open>Processing frames\<close>

text \<open>The callbacks that are registered.\<close>

record ws_callbacks =
  cb_connect :: bool
  cb_message :: bool
  cb_close :: bool
  cb_error :: bool
  cb_binary :: bool

definition no_callbacks :: ws_callbacks where
  "no_callbacks = \<lparr>cb_connect = False, cb_message = False, cb_close = False, cb_error = False, cb_binary = False\<rparr>"

definition deliver :: "ws_callbacks \<Rightarrow> byte \<Rightarrow> byte list \<Rightarrow> ws_event list" where
  "deliver cb opcode payload =
     (if cb_message cb then [On_Message opcode payload] else []) @
     (if opcode = WS_BINARY \<and> cb_binary cb then [On_Binary payload] else []) @ [Count_Message]"

text \<open>A text or binary frame; \<open>ok\<close> is the outcome of \<open>realloc\<close>.\<close>

definition handle_data :: "ws_callbacks \<Rightarrow> bool \<Rightarrow> bool \<Rightarrow> byte \<Rightarrow> byte list \<Rightarrow> ws_client \<Rightarrow> int \<times> ws_client \<times> ws_event list" where
  "handle_data cb ok fin opcode payload c =
     (if fin then (0, c\<lparr>wc_messages_received := wc_messages_received c + 1\<rparr>, deliver cb opcode payload)
      else
        let c1 = c\<lparr>wc_opcode := opcode, wc_complete := False, wc_fragment_size := 0\<rparr> in
        if wc_capacity c1 < length payload \<and> \<not> ok then (-1, c1, [])
        else
          let c2 = (if wc_capacity c1 < length payload then c1\<lparr>wc_capacity := length payload\<rparr> else c1)
          in (0, c2\<lparr>wc_message := payload, wc_fragment_size := length payload\<rparr>, []))"

definition handle_continuation :: "ws_callbacks \<Rightarrow> bool \<Rightarrow> bool \<Rightarrow> byte list \<Rightarrow> ws_client \<Rightarrow> int \<times> ws_client \<times> ws_event list" where
  "handle_continuation cb ok fin payload c =
     (let new_length = length (wc_message c) + length payload in
      if new_length > wc_capacity c \<and> \<not> ok then (-1, c, [])
      else
        let c1 = (if new_length > wc_capacity c then c\<lparr>wc_capacity := new_length\<rparr> else c);
            c2 = c1\<lparr>wc_message := wc_message c1 @ payload, wc_fragment_size := wc_fragment_size c1 + length payload\<rparr>
        in if fin then
             (0, c2\<lparr>wc_messages_received := wc_messages_received c2 + 1, wc_message := [], wc_fragment_size := 0,
                   wc_complete := True\<rparr>, deliver cb (wc_opcode c2) (wc_message c2))
           else (0, c2, []))"

text \<open>The status code and the reason of a close frame.\<close>

definition close_reason :: "byte list \<Rightarrow> 16 word \<times> byte list" where
  "close_reason payload =
     (if length payload \<ge> 2
      then (push_bit 8 (ucast (payload ! 0)) OR ucast (payload ! 1), take 255 (drop 2 payload))
      else (1000, []))"

definition handle_frame :: "ws_callbacks \<Rightarrow> 64 word \<Rightarrow> bool \<Rightarrow> bool \<Rightarrow> byte \<Rightarrow> byte list \<Rightarrow> ws_client \<Rightarrow>
    int \<times> ws_client \<times> ws_event list" where
  "handle_frame cb now ok fin opcode payload c =
     (if opcode = WS_TEXT \<or> opcode = WS_BINARY then handle_data cb ok fin opcode payload c
      else if opcode = WS_CONTINUATION then handle_continuation cb ok fin payload c
      else if opcode = WS_PING then (0, c, [Send_Bytes [0x8A, 0x00]])
      else if opcode = WS_PONG then (0, c\<lparr>wc_last_pong := now\<rparr>, [Count_Pong])
      else if opcode = WS_CLOSE then
        (case close_reason payload of (status, reason) \<Rightarrow> (0, c, [Remove_Client status reason]))
      else (0, c, []))"

definition too_large :: "byte list" where
  "too_large = map (\<lambda>c. of_nat (code c)) ''Message too large''"

definition process_websocket_frame :: "bool \<Rightarrow> 32 word \<Rightarrow> ws_callbacks \<Rightarrow> 64 word \<Rightarrow> bool \<Rightarrow> byte list \<Rightarrow> ws_client \<Rightarrow>
    int \<times> ws_client \<times> ws_event list" where
  "process_websocket_frame msb max_message_size cb now ok data c =
     (if length data < 2 then (-1, c, [])
      else
        let h = frame_header_of msb (data ! 0) (data ! 1) in
        case frame_length data (fh_len h) of
          None \<Rightarrow> (-1, c, [])
        | Some (payload_len, offset0) \<Rightarrow>
            if payload_len > unat max_message_size then (-1, c, [Remove_Client 1009 too_large])
            else if fh_mask h \<and> length data < offset0 + 4 then (-1, c, [])
            else
              let offset = (if fh_mask h then offset0 + 4 else offset0) in
              if length data < offset + payload_len then (-1, c, [])
              else
                let raw = take payload_len (drop offset data);
                    payload = (if fh_mask h then xor_mask (take 4 (drop (offset - 4) data)) raw else raw)
                in handle_frame cb now ok (fh_fin h) (fh_opcode h) payload c)"

section \<open>What a conforming peer sends\<close>

text \<open>A frame as RFC 6455 lays it out, with or without the FIN bit.\<close>

definition wire_frame :: "bool \<Rightarrow> byte \<Rightarrow> byte list option \<Rightarrow> byte list \<Rightarrow> byte list" where
  "wire_frame fin opcode masking payload =
     (let header = frame_prefix ((if fin then 0x80 else 0) OR (opcode AND 0x0F)) (length payload) in
      case masking of
        None \<Rightarrow> header @ payload
      | Some key \<Rightarrow> header[1 := header ! 1 OR 0x80] @ key @ xor_mask key payload)"

lemma create_is_wire_frame:
  "websocket_create_frame True opcode payload masking = (0, Some (wire_frame True opcode masking payload))"
  by (simp add: websocket_create_frame_def wire_frame_def Let_def split: option.splits)

lemma length_xor_mask [simp]: "length (xor_mask key xs) = length xs"
  by (simp add: xor_mask_def)

lemma xor_mask_Nil [simp]: "xor_mask key [] = []"
  by (simp add: xor_mask_def)

lemma xor_mask_twice [simp]: "xor_mask key (xor_mask key xs) = xs"
  by (rule nth_equalityI) (simp_all add: xor_mask_def xor.assoc)

subsection \<open>Header bits\<close>

lemma opcode_bits: "((if fin then 0x80 else 0) OR (op AND 0x0F)) AND 0x0F = (op :: byte) AND 0x0F"
proof -
  have "(0x80 AND 0x0F :: byte) = 0" by simp
  then show ?thesis by (simp add: bit.conj_disj_distrib2 and.assoc)
qed

lemma fin_bit: "bit ((if fin then 0x80 else 0) OR (op AND 0x0F) :: byte) 7 = fin"
  by (simp add: bit_simps)

lemma len7_bits:
  assumes "n \<le> 127"
  shows "(of_nat n AND 0x7F :: byte) = of_nat n"
proof -
  have "(of_nat n AND mask 7 :: byte) = of_nat n"
    unfolding take_bit_eq_mask [symmetric] using assms by (simp add: take_bit_of_nat take_bit_nat_eq_self)
  then show ?thesis by (simp add: mask_eq_exp_minus_1)
qed

lemma mask_bits: "bit (x OR 0x80 :: byte) 7" "(x OR 0x80) AND 0x7F = (x :: byte) AND 0x7F"
proof -
  have "(0x80 AND 0x7F :: byte) = 0" by simp
  then show "(x OR 0x80) AND 0x7F = x AND 0x7F" by (simp add: bit.conj_disj_distrib2 and.assoc)
qed (simp add: bit_simps)

lemma len7_no_mask:
  assumes "n \<le> 127"
  shows "\<not> bit (of_nat n :: byte) 7"
proof -
  have "\<not> bit (of_nat n AND 0x7F :: byte) 7" by (simp add: bit_simps)
  then show ?thesis by (simp add: len7_bits [OF assms])
qed

text \<open>The second header byte and the extended length of a payload of \<open>n\<close> bytes.\<close>

definition len7 :: "nat \<Rightarrow> byte" where
  "len7 n = (if n \<le> 125 then of_nat n else if n \<le> 65535 then 126 else 127)"

definition len_ext :: "nat \<Rightarrow> byte list" where
  "len_ext n = (if n \<le> 125 then [] else if n \<le> 65535 then be_encode 2 n else be_encode 8 n)"

lemma frame_prefix_eq: "frame_prefix b0 n = b0 # len7 n # len_ext n"
  by (simp add: frame_prefix_def len7_def len_ext_def len7_bits)

lemma len7_facts [simp]: "len7 n AND 0x7F = len7 n" "\<not> bit (len7 n) 7"
  using len7_bits [of n] len7_no_mask [of n] len7_bits [of 126] len7_no_mask [of 126] len7_bits [of 127] len7_no_mask [of 127]
  by (auto simp: len7_def)

lemma unat_len7: "n \<le> 125 \<Longrightarrow> unat (of_nat n :: byte) = n"
  by (simp add: unat_of_nat_8)

lemma frame_length_len7:
  assumes "n < 2 ^ 64"
  shows "frame_length (b0 # b1 # len_ext n @ xs) (len7 n) = Some (n, 2 + length (len_ext n))"
proof -
  have "of_nat n \<noteq> (126 :: byte)" "of_nat n \<noteq> (127 :: byte)" if "n \<le> 125"
    using unat_len7 [OF that] that by (auto dest!: arg_cong [of _ _ unat])
  moreover have "be_decode (be_encode 2 n) = n" if "n \<le> 65535" using that by (intro be_decode_encode) simp
  moreover have "be_decode (be_encode 8 n) = n" using assms by (intro be_decode_encode) simp
  ultimately show ?thesis by (auto simp: frame_length_def len7_def len_ext_def unat_len7)
qed

text \<open>Reading the header of a conforming frame with bit fields that start at the most significant bit.\<close>

definition mask_bytes :: "byte list option \<Rightarrow> byte list" where
  "mask_bytes masking = (case masking of None \<Rightarrow> [] | Some key \<Rightarrow> key)"

definition body_bytes :: "byte list option \<Rightarrow> byte list \<Rightarrow> byte list" where
  "body_bytes masking payload = (case masking of None \<Rightarrow> payload | Some key \<Rightarrow> xor_mask key payload)"

lemma wire_frame_eq:
  "wire_frame fin op masking payload =
     ((if fin then 0x80 else 0) OR (op AND 0x0F)) #
     (if masking = None then len7 (length payload) else len7 (length payload) OR 0x80) #
     len_ext (length payload) @ mask_bytes masking @ body_bytes masking payload"
  by (simp add: wire_frame_def Let_def frame_prefix_eq mask_bytes_def body_bytes_def split: option.splits)

lemma header_of_wire:
  "frame_header_of True ((if fin then 0x80 else 0) OR (op AND 0x0F)) (if masking = None then len7 n else len7 n OR 0x80) =
     \<lparr>fh_fin = fin, fh_opcode = op AND 0x0F, fh_mask = (masking \<noteq> None), fh_len = len7 n\<rparr>"
  using fin_bit [of fin op] opcode_bits [of fin op] mask_bits [of "len7 n"] by (simp add: frame_header_of_def)

lemma process_wire_frame:
  assumes n: "length payload \<le> unat max_size" and key: "\<forall>key. masking = Some key \<longrightarrow> length key = 4"
  shows "process_websocket_frame True max_size cb now ok (wire_frame fin op masking payload @ rest) c =
    handle_frame cb now ok fin (op AND 0x0F) payload c"
proof -
  let ?n = "length payload" and ?b0 = "(if fin then 0x80 else 0) OR (op AND 0x0F)"
  let ?b1 = "if masking = None then len7 ?n else len7 ?n OR 0x80"
  let ?tail = "mask_bytes masking @ body_bytes masking payload @ rest"
  have data: "wire_frame fin op masking payload @ rest = ?b0 # ?b1 # len_ext ?n @ ?tail"
    by (simp add: wire_frame_eq)
  have n64: "?n < 2 ^ 64" using n unat_lt_32 [of max_size] by simp
  have h: "frame_header_of True ?b0 ?b1 = \<lparr>fh_fin = fin, fh_opcode = op AND 0x0F, fh_mask = (masking \<noteq> None), fh_len = len7 ?n\<rparr>"
    by (rule header_of_wire)
  have l: "frame_length (?b0 # ?b1 # len_ext ?n @ ?tail) (len7 ?n) = Some (?n, 2 + length (len_ext ?n))"
    by (rule frame_length_len7 [OF n64])
  have m: "length (mask_bytes masking) = (if masking = None then 0 else 4)" "length (body_bytes masking payload) = ?n"
    using key by (auto simp: mask_bytes_def body_bytes_def split: option.splits)
  show ?thesis
  proof (cases masking)
    case None
    then show ?thesis unfolding data using h l n by (simp add: process_websocket_frame_def mask_bytes_def body_bytes_def)
  next
    case (Some key)
    then have k: "length key = 4" using key by simp
    have d: "drop (6 + length (len_ext ?n)) (a # b # len_ext ?n @ key @ xs) = xs" for a b xs
      using k by (simp add: eval_nat_numeral)
    show ?thesis unfolding data using h l n Some k
      by (simp add: process_websocket_frame_def mask_bytes_def body_bytes_def d)
  qed
qed

section \<open>Parsing what was created\<close>

lemma parse_wire_frame:
  assumes n: "length payload + length rest < 2 ^ 63" and key: "\<forall>key. masking = Some key \<longrightarrow> length key = 4"
  shows "websocket_parse_frame True (wire_frame fin op masking payload @ rest) =
    Some (Parse_Frame (op AND 0x0F) payload fin)"
proof -
  let ?n = "length payload" and ?b0 = "(if fin then 0x80 else 0) OR (op AND 0x0F)"
  let ?b1 = "if masking = None then len7 ?n else len7 ?n OR 0x80"
  let ?tail = "mask_bytes masking @ body_bytes masking payload @ rest"
  let ?k = "length (len_ext ?n)"
  have data: "wire_frame fin op masking payload @ rest = ?b0 # ?b1 # len_ext ?n @ ?tail"
    by (simp add: wire_frame_eq)
  have h: "frame_header_of True ?b0 ?b1 = \<lparr>fh_fin = fin, fh_opcode = op AND 0x0F, fh_mask = (masking \<noteq> None), fh_len = len7 ?n\<rparr>"
    by (rule header_of_wire)
  have l: "frame_length (?b0 # ?b1 # len_ext ?n @ ?tail) (len7 ?n) = Some (?n, 2 + ?k)"
    using n by (intro frame_length_len7) simp
  have k8: "?k \<le> 8" by (simp add: len_ext_def)
  have room: "\<not> (of_nat (off + ?n + m) :: size_t) < of_nat off + of_nat ?n" if "off \<le> 14" "m = length rest" for off m
  proof -
    have "unat (of_nat (off + ?n) :: size_t) = off + ?n" "unat (of_nat (off + ?n + m) :: size_t) = off + ?n + m"
      using n that by (intro unat_of_nat_64; simp)+
    then show ?thesis by (simp only: word_less_nat_alt of_nat_add [symmetric])
  qed
  show ?thesis
  proof (cases masking)
    case None
    have "length (?b0 # ?b1 # len_ext ?n @ ?tail) = (2 + ?k) + ?n + length rest"
      using None by (simp add: mask_bytes_def body_bytes_def)
    then have "\<not> (of_nat (length (?b0 # ?b1 # len_ext ?n @ ?tail)) :: size_t) < of_nat (2 + ?k) + of_nat ?n"
      using k8 by (simp only:) (rule room; simp)
    then show ?thesis unfolding data using h l None
      by (simp add: websocket_parse_frame_def mask_bytes_def body_bytes_def mem_read_def)
  next
    case (Some key)
    then have k: "length key = 4" using key by simp
    have d: "drop (6 + ?k) (a # b # len_ext ?n @ key @ xs) = xs" "drop (2 + ?k) (a # b # len_ext ?n @ key @ xs) = key @ xs" for a b xs
      using k by (simp_all add: eval_nat_numeral)
    have "length (?b0 # ?b1 # len_ext ?n @ ?tail) = (6 + ?k) + ?n + length rest"
      using Some k by (simp add: mask_bytes_def body_bytes_def)
    then have "\<not> (of_nat (length (?b0 # ?b1 # len_ext ?n @ ?tail)) :: size_t) < of_nat (6 + ?k) + of_nat ?n"
      using k8 by (simp only:) (rule room; simp)
    then show ?thesis unfolding data using h l Some k
      by (simp add: websocket_parse_frame_def mask_bytes_def body_bytes_def mem_read_def d)
  qed
qed

text \<open>With bit fields from the least significant bit the first byte of a final frame reads as opcode 8, and with the
  final mark only if the opcode is odd.\<close>

lemma lsb_final_header:
  "fh_opcode (frame_header_of False (0x80 OR (op AND 0x0F)) b1) = 8"
  "fh_fin (frame_header_of False (0x80 OR (op AND 0x0F)) b1) = odd op"
proof -
  have "drop_bit 4 (0x80 OR (op AND 0x0F)) = drop_bit 4 0x80 OR drop_bit 4 (op AND 0x0F :: byte)" by (rule drop_bit_or)
  moreover have "drop_bit 4 (op AND 0x0F :: byte) = drop_bit 4 op AND drop_bit 4 0x0F" by (rule drop_bit_and)
  ultimately show "fh_opcode (frame_header_of False (0x80 OR (op AND 0x0F)) b1) = 8" by (simp add: frame_header_of_def)
  show "fh_fin (frame_header_of False (0x80 OR (op AND 0x0F)) b1) = odd op"
    by (simp add: frame_header_of_def bit_0 even_or_iff even_and_iff)
qed

lemma parse_frame_header:
  assumes "websocket_parse_frame msb (b0 # b1 # xs) = Some (Parse_Frame op p fin)"
  shows "op = fh_opcode (frame_header_of msb b0 b1)" "fin = fh_fin (frame_header_of msb b0 b1)"
  using assms by (auto simp: websocket_parse_frame_def Let_def bind_eq_Some_conv split: option.splits if_splits)

lemma lsb_never_parses_back:
  "websocket_parse_frame False (wire_frame True op masking payload @ rest) \<noteq> Some (Parse_Frame (op AND 0x0F) payload True)"
proof
  let ?b1 = "if masking = None then len7 (length payload) else len7 (length payload) OR 0x80"
  assume "websocket_parse_frame False (wire_frame True op masking payload @ rest) = Some (Parse_Frame (op AND 0x0F) payload True)"
  from parse_frame_header [OF this [unfolded wire_frame_eq append_Cons if_True]] lsb_final_header [of op ?b1]
  have "op AND 0x0F = 8" "odd op" by simp_all
  moreover have "odd (op AND 0x0F) = odd op" by (simp add: even_and_iff)
  ultimately show False by simp
qed

text \<open>
  (C16) When parsing inverts creating: a frame that \<open>websocket_create_frame\<close> builds, masked or not and with any
  of the three length encodings, followed by anything in the buffer (below \<open>2^63\<close> bytes of payload and rest), is
  parsed back by \<open>websocket_parse_frame\<close> to its opcode, its payload and the final mark exactly on the targets that
  allocate bit fields from the most significant bit (\<open>msb\<close>). On the others, little-endian ones such as x86-64, no
  frame at all is parsed back.
\<close>

theorem frame_roundtrip:
  assumes "websocket_create_frame True opcode payload masking = (0, Some frame)"
    and "\<forall>key. masking = Some key \<longrightarrow> length key = 4" and "length payload + length rest < 2 ^ 63"
  shows "websocket_parse_frame msb (frame @ rest) = Some (Parse_Frame (opcode AND 0x0F) payload True) \<longleftrightarrow> msb"
  using assms parse_wire_frame [OF assms(3,2), of True opcode] lsb_never_parses_back [of opcode masking payload rest]
  by (cases msb) (auto simp: create_is_wire_frame)

lemma frame_roundtrip_witness:
  "\<exists>frame. websocket_create_frame True WS_TEXT [72, 105] (Some [1, 2, 3, 4]) = (0, Some frame) \<and>
     websocket_parse_frame True (frame @ [7]) = Some (Parse_Frame (WS_TEXT AND 0x0F) [72, 105] True) \<and>
     websocket_parse_frame False (frame @ [7]) \<noteq> Some (Parse_Frame (WS_TEXT AND 0x0F) [72, 105] True)"
  using frame_roundtrip [of WS_TEXT "[72, 105]" "Some [1, 2, 3, 4]" _ "[7]", OF create_is_wire_frame]
  by (simp add: create_is_wire_frame)

section \<open>Frames that announce too much\<close>

text \<open>
  \<open>websocket_parse_frame\<close> adds the announced length to the header size in 64 bits. A masked frame of
  14 bytes that announces a length close to \<open>2^64\<close> passes the completeness check, and unmasking then
  runs past the data. \<open>process_websocket_frame\<close> compares the length with \<open>max_message_size\<close> first
  and asks for the removal of the client.
\<close>

theorem parse_length_overflow:
  assumes "2 ^ 64 - 14 \<le> n" "n < 2 ^ 64" "length key = 4"
  shows "websocket_parse_frame True ([0x82, 0xFF] @ be_encode 8 n @ key) = None \<and>
    process_websocket_frame True max_size cb now ok ([0x82, 0xFF] @ be_encode 8 n @ key) c = (-1, c, [Remove_Client 1009 too_large])"
proof -
  let ?d = "[0x82, 0xFF] @ be_encode 8 n @ key"
  have dec: "be_decode (be_encode 8 n) = n" using assms(2) by (intro be_decode_encode) simp
  have h: "frame_header_of True 0x82 0xFF = \<lparr>fh_fin = True, fh_opcode = 2, fh_mask = True, fh_len = 127\<rparr>"
    by (simp add: frame_header_of_def)
  have l: "frame_length ?d 127 = Some (n, 10)" by (simp add: frame_length_def dec)
  have "(of_nat 14 + of_nat n :: size_t) = of_nat (14 + n - 2 ^ 64)"
  proof -
    have "(of_nat (14 + n) :: size_t) = of_nat (14 + n - 2 ^ 64 + 2 ^ 64)" using assms(1) by simp
    also have "\<dots> = of_nat (14 + n - 2 ^ 64) + of_nat (2 ^ 64)" by (rule of_nat_add)
    also have "(of_nat (2 ^ 64) :: size_t) = 0" by simp
    finally show ?thesis by simp
  qed
  moreover have "14 + n - 2 ^ 64 < 14" using assms(2) by simp
  then have "unat (of_nat (14 + n - 2 ^ 64) :: size_t) < 14" by (subst unat_of_nat_64) simp_all
  ultimately have "\<not> (of_nat (length ?d) :: size_t) < of_nat 14 + of_nat n"
    using assms(3) by (simp add: word_less_nat_alt)
  moreover have "mem_read ?d 14 n = None" using assms by (simp add: mem_read_def)
  ultimately have "websocket_parse_frame True ?d = None"
    using h l assms(3) by (simp add: websocket_parse_frame_def)
  moreover have "n > unat max_size" using assms(1) unat_lt_32 [of max_size] by simp
  ultimately show ?thesis using h l by (simp add: process_websocket_frame_def)
qed

lemma parse_length_overflow_witness:
  "websocket_parse_frame True ([0x82, 0xFF] @ be_encode 8 (2 ^ 64 - 1) @ [0, 0, 0, 0]) = None"
  using parse_length_overflow [of "2 ^ 64 - 1" "[0, 0, 0, 0]"] by simp

section \<open>Reassembly\<close>

text \<open>What may come between the first and the last frame of a fragmented message: further parts, and
  control frames.\<close>

datatype frag = Part "byte list option" "byte list" | Ctl bool "byte list option" "byte list"

fun frag_frame :: "frag \<Rightarrow> byte list" where
  "frag_frame (Part m p) = wire_frame False WS_CONTINUATION m p"
| "frag_frame (Ctl ping m p) = wire_frame True (if ping then WS_PING else WS_PONG) m p"

fun frag_part :: "frag \<Rightarrow> byte list" where
  "frag_part (Part m p) = p"
| "frag_part (Ctl ping m p) = []"

definition mask_ok :: "byte list option \<Rightarrow> bool" where
  "mask_ok m \<longleftrightarrow> (case m of None \<Rightarrow> True | Some key \<Rightarrow> length key = 4)"

fun frag_ok :: "nat \<Rightarrow> frag \<Rightarrow> bool" where
  "frag_ok n (Part m p) \<longleftrightarrow> mask_ok m \<and> length p \<le> n"
| "frag_ok n (Ctl ping m p) \<longleftrightarrow> mask_ok m \<and> length p \<le> n"

fun process_all :: "bool \<Rightarrow> 32 word \<Rightarrow> ws_callbacks \<Rightarrow> 64 word \<Rightarrow> byte list list \<Rightarrow> ws_client \<Rightarrow> ws_client \<times> ws_event list" where
  "process_all msb max_size cb now [] c = (c, [])"
| "process_all msb max_size cb now (f # fs) c =
     (case process_websocket_frame msb max_size cb now True f c of (_, c1, ev) \<Rightarrow>
      (case process_all msb max_size cb now fs c1 of (c2, ev') \<Rightarrow> (c2, ev @ ev')))"

definition messages :: "ws_event list \<Rightarrow> (byte \<times> byte list) list" where
  "messages evs = List.map_filter (\<lambda>e. case e of On_Message op p \<Rightarrow> Some (op, p) | _ \<Rightarrow> None) evs"

lemma messages_simps [simp]:
  "messages [] = []" "messages (On_Message op p # evs) = (op, p) # messages evs"
  "messages (On_Binary p # evs) = messages evs" "messages (Send_Bytes p # evs) = messages evs"
  "messages (Count_Message # evs) = messages evs" "messages (Count_Pong # evs) = messages evs"
  "messages (Remove_Client st r # evs) = messages evs" "messages (evs @ evs') = messages evs @ messages evs'"
  by (simp_all add: messages_def List.map_filter_def)

lemma process_frag:
  assumes "mask_ok m" "length p \<le> unat max_size"
  shows "process_websocket_frame True max_size cb now ok (wire_frame fin op m p) c = handle_frame cb now ok fin (op AND 0x0F) p c"
  using process_wire_frame [of p max_size m cb now ok fin op "[]" c] assms by (auto simp: mask_ok_def split: option.splits)

lemma process_frag_step:
  assumes "frag_ok (unat max_size) f"
  shows "\<exists>c1 ev. process_websocket_frame True max_size cb now True (frag_frame f) c = (0, c1, ev) \<and> messages ev = [] \<and>
    wc_opcode c1 = wc_opcode c \<and> wc_message c1 = wc_message c @ frag_part f \<and>
    wc_messages_received c1 = wc_messages_received c"
proof (cases f)
  case (Part m p)
  then show ?thesis using assms by (simp add: process_frag handle_frame_def handle_continuation_def Let_def)
next
  case (Ctl ping m p)
  then show ?thesis using assms by (cases ping) (simp_all add: process_frag handle_frame_def)
qed

lemma process_frags:
  assumes "\<forall>f \<in> set fs. frag_ok (unat max_size) f" "wc_opcode c = op"
  shows "\<exists>c' ev. process_all True max_size cb now (map frag_frame fs) c = (c', ev) \<and> messages ev = [] \<and>
    wc_opcode c' = op \<and> wc_message c' = wc_message c @ concat (map frag_part fs) \<and>
    wc_messages_received c' = wc_messages_received c"
  using assms
proof (induction fs arbitrary: c)
  case (Cons f fs)
  obtain c1 ev where c1: "process_websocket_frame True max_size cb now True (frag_frame f) c = (0, c1, ev)" "messages ev = []"
    "wc_opcode c1 = op" "wc_message c1 = wc_message c @ frag_part f" "wc_messages_received c1 = wc_messages_received c"
    using process_frag_step [of max_size f cb now c] Cons.prems by auto
  obtain c2 ev2 where c2: "process_all True max_size cb now (map frag_frame fs) c1 = (c2, ev2)" "messages ev2 = []"
    "wc_opcode c2 = op" "wc_message c2 = wc_message c1 @ concat (map frag_part fs)"
    "wc_messages_received c2 = wc_messages_received c1"
    using Cons.IH [of c1] Cons.prems(1) c1(3) by auto
  show ?case using c1 c2 by simp
qed simp

lemma process_all_append:
  "process_all msb max_size cb now (fs @ gs) c =
     (case process_all msb max_size cb now fs c of (c1, ev) \<Rightarrow>
      (case process_all msb max_size cb now gs c1 of (c2, ev') \<Rightarrow> (c2, ev @ ev')))"
  by (induction fs arbitrary: c) (auto split: prod.splits)

text \<open>
  (C17) On targets that allocate bit fields from the most significant bit, a text or binary message that arrives in
  any number of fragments, masked or not, with pings and pongs in between, is handed to the registered message
  callback exactly once, with the opcode of its first frame and the concatenation of its parts; afterwards the
  reassembly buffer is empty. This is when each frame arrives whole, the payload of each is within
  \<open>max_message_size\<close> and every \<open>realloc\<close> succeeds. (The whole message has no bound.)
\<close>

theorem fragments_reassembled:
  assumes "op = WS_TEXT \<or> op = WS_BINARY" "cb_message cb" "mask_ok m0" "mask_ok m1"
    and "\<forall>f \<in> set fs. frag_ok (unat max_size) f" "length p0 \<le> unat max_size" "length p1 \<le> unat max_size"
  shows "\<exists>c' ev. process_all True max_size cb now
      (wire_frame False op m0 p0 # map frag_frame fs @ [wire_frame True WS_CONTINUATION m1 p1]) c = (c', ev) \<and>
    messages ev = [(op, p0 @ concat (map frag_part fs) @ p1)] \<and> wc_message c' = [] \<and>
    wc_messages_received c' = wc_messages_received c + 1"
proof -
  have op: "op AND 0x0F = op" using assms(1) by auto
  obtain c1 where c1: "process_websocket_frame True max_size cb now True (wire_frame False op m0 p0) c = (0, c1, [])"
    "wc_opcode c1 = op" "wc_message c1 = p0" "wc_messages_received c1 = wc_messages_received c"
    using assms(1,3,6) op by (auto simp: process_frag handle_frame_def handle_data_def Let_def)
  obtain c2 ev where c2: "process_all True max_size cb now (map frag_frame fs) c1 = (c2, ev)" "messages ev = []"
    "wc_opcode c2 = op" "wc_message c2 = p0 @ concat (map frag_part fs)" "wc_messages_received c2 = wc_messages_received c"
    using process_frags [OF assms(5) c1(2), of cb now] c1 by auto
  obtain c3 ev' where c3: "process_websocket_frame True max_size cb now True (wire_frame True WS_CONTINUATION m1 p1) c2 = (0, c3, ev')"
    "messages ev' = [(op, p0 @ concat (map frag_part fs) @ p1)]" "wc_message c3 = []"
    "wc_messages_received c3 = wc_messages_received c + 1"
    using assms(2,4,7) c2 by (auto simp: process_frag handle_frame_def handle_continuation_def deliver_def Let_def)
  show ?thesis using c1 c2 c3 by (simp add: process_all_append)
qed

definition demo_client :: ws_client where
  "demo_client = \<lparr>wc_fd = 5, wc_id = 1, wc_ip = 0, wc_port = 0, wc_state = WS_Open, wc_key = [], wc_message = [],
     wc_capacity = 4, wc_opcode = 0, wc_complete = False, wc_fragment_size = 0, wc_messages_received = 0,
     wc_messages_sent = 0, wc_bytes_received = 0, wc_bytes_sent = 0, wc_last_activity = 0, wc_connected_at = 0,
     wc_last_ping = 0, wc_last_pong = 0\<rparr>"

lemma fragments_reassembled_witness:
  "\<exists>c' ev. process_all True 100 (no_callbacks\<lparr>cb_message := True\<rparr>) 0
      [wire_frame False WS_TEXT (Some [1, 2, 3, 4]) [72, 101], wire_frame True WS_PING None [],
       wire_frame False WS_CONTINUATION None [108, 108], wire_frame True WS_CONTINUATION None [111]] demo_client = (c', ev) \<and>
    messages ev = [(WS_TEXT, [72, 101, 108, 108, 111])] \<and> wc_message c' = []"
  using fragments_reassembled [of WS_TEXT "(no_callbacks\<lparr>cb_message := True\<rparr>)" "Some [1, 2, 3, 4]" None
      "[Ctl True None [], Part None [108, 108]]" 100 "[72, 101]" "[111]" 0 demo_client]
  by (simp add: mask_ok_def) blast

section \<open>Bit fields from the least significant bit\<close>

lemma lsb_len:
  assumes "n \<le> 125"
  shows "unat (drop_bit 1 (of_nat n :: byte)) = n div 2" "bit (of_nat n :: byte) 0 = odd n"
    "unat (drop_bit 1 (of_nat n OR 0x80 :: byte)) = 64 + n div 2" "bit (of_nat n OR 0x80 :: byte) 0 = odd n"
proof -
  have d: "drop_bit 1 (of_nat n :: byte) = of_nat (n div 2)"
    using assms by (intro word_unat_eq_iff [THEN iffD2]) (simp add: unat_of_nat_8 unat_drop_bit_eq drop_bit_nat_def)
  then show a: "unat (drop_bit 1 (of_nat n :: byte)) = n div 2" using assms by (simp add: unat_of_nat_8)
  show "bit (of_nat n :: byte) 0 = odd n" by (simp add: bit_0)
  show "bit (of_nat n OR 0x80 :: byte) 0 = odd n" by (simp add: bit_0 even_or_iff)
  have "drop_bit 1 (of_nat n OR 0x80 :: byte) = drop_bit 1 (of_nat n) OR drop_bit 1 0x80" by (rule drop_bit_or)
  also have "drop_bit 1 (0x80 :: byte) = 64" by simp
  also have "drop_bit 1 (of_nat n) OR (64 :: byte) = of_nat (n div 2) + 64" unfolding d
  proof (rule disjunctive_add [symmetric])
    fix k
    have "unat (of_nat (n div 2) :: byte) = n div 2" using assms by (intro unat_of_nat_8) simp
    then have "\<not> bit (unat (of_nat (n div 2) :: byte)) 6" using assms by (simp add: bit_iff_odd)
    then have "\<not> bit (of_nat (n div 2) :: byte) 6" by (simp add: bit_unsigned_iff)
    then show "\<not> bit (of_nat (n div 2) :: byte) k \<or> \<not> bit (64 :: byte) k"
      using bit_exp_iff [of 6 k, where 'a = byte] by (cases "k = 6") auto
  qed
  also have "(of_nat (n div 2) + 64 :: byte) = of_nat (64 + n div 2)" by simp
  finally have e: "drop_bit 1 (of_nat n OR 0x80 :: byte) = of_nat (64 + n div 2)" .
  show "unat (drop_bit 1 (of_nat n OR 0x80 :: byte)) = 64 + n div 2"
    unfolding e using assms by (intro unat_of_nat_8) simp
qed

lemma process_short:
  assumes "frame_header_of msb b0 b1 = h" "frame_length (b0 # b1 # xs) (fh_len h) = Some (n, off)" "n \<le> unat max_size"
    and "2 + length xs < (if fh_mask h then off + 4 else off) + n"
  shows "process_websocket_frame msb max_size cb now ok (b0 # b1 # xs) c = (-1, c, [])"
  using assms by (simp add: process_websocket_frame_def Let_def)

lemma process_unmasked:
  assumes "frame_header_of msb b0 b1 = h" "frame_length (b0 # b1 # xs) (fh_len h) = Some (n, off)" "n \<le> unat max_size"
    and "off + n \<le> 2 + length xs" "\<not> fh_mask h"
  shows "process_websocket_frame msb max_size cb now ok (b0 # b1 # xs) c =
    handle_frame cb now ok (fh_fin h) (fh_opcode h) (take n (drop off (b0 # b1 # xs))) c"
  using assms by (simp add: process_websocket_frame_def Let_def)

lemma lsb_header:
  "frame_header_of False (0x80 OR (WS_TEXT AND 0x0F)) b1 =
     \<lparr>fh_fin = True, fh_opcode = WS_CLOSE, fh_mask = bit b1 0, fh_len = drop_bit 1 b1\<rparr>"
  by (simp add: frame_header_of_def)

lemma lsb_frame_length:
  assumes "unat l < 126"
  shows "frame_length data l = Some (unat l, 2)"
  using assms by (auto simp: frame_length_def)

text \<open>
  On a target that allocates bit fields from the least significant bit the header is misread.
  No masked final text frame of less than 120 bytes, what a browser sends for a short message, is
  processed as a message; and an unmasked one of even length is taken for a close frame, so
  that the client is removed.
\<close>

theorem lsb_bitfields_misread:
  assumes "length payload < 120" "length key = 4" "125 \<le> unat max_size"
  shows "process_websocket_frame False max_size cb now ok (wire_frame True WS_TEXT (Some key) payload) c = (-1, c, []) \<and>
    (even (length payload) \<longrightarrow> (\<exists>status reason.
      process_websocket_frame False max_size cb now ok (wire_frame True WS_TEXT None payload) c =
        (0, c, [Remove_Client status reason])))"
proof -
  let ?n = "length payload"
  have l7: "len7 ?n = of_nat ?n" "len_ext ?n = []" using assms(1) by (simp_all add: len7_def len_ext_def)
  have n: "?n \<le> 125" using assms(1) by simp
  note lsb = lsb_len [OF n]
  let ?b0 = "0x80 OR (WS_TEXT AND 0x0F) :: byte"
  let ?b1 = "of_nat ?n OR 0x80 :: byte"
  have m: "wire_frame True WS_TEXT (Some key) payload = ?b0 # ?b1 # key @ xor_mask key payload"
    by (simp add: wire_frame_eq l7 mask_bytes_def body_bytes_def)
  have fm: "frame_length (?b0 # ?b1 # key @ xor_mask key payload) (drop_bit 1 ?b1) = Some (64 + ?n div 2, 2)"
    using lsb_frame_length [of "drop_bit 1 ?b1"] lsb(3) assms(1) by simp
  have "process_websocket_frame False max_size cb now ok (?b0 # ?b1 # key @ xor_mask key payload) c = (-1, c, [])"
    using fm lsb(4) assms by (intro process_short [OF lsb_header, where n = "64 + ?n div 2" and off = 2]) auto
  moreover have "\<exists>status reason. process_websocket_frame False max_size cb now ok (wire_frame True WS_TEXT None payload) c =
        (0, c, [Remove_Client status reason])" if ev: "even ?n"
  proof -
    let ?u = "of_nat ?n :: byte"
    have u: "wire_frame True WS_TEXT None payload = ?b0 # ?u # payload"
      by (simp add: wire_frame_eq l7 mask_bytes_def body_bytes_def)
    have fu: "frame_length (?b0 # ?u # payload) (drop_bit 1 ?u) = Some (?n div 2, 2)"
      using lsb_frame_length [of "drop_bit 1 ?u"] lsb(1) assms(1) by simp
    obtain status reason where "close_reason (take (?n div 2) payload) = (status, reason)" by fastforce
    moreover have "process_websocket_frame False max_size cb now ok (?b0 # ?u # payload) c =
        handle_frame cb now ok True WS_CLOSE (take (?n div 2) payload) c"
      using process_unmasked [OF lsb_header, of ?u payload "?n div 2" 2 max_size] fu lsb(2) ev assms by simp
    ultimately show ?thesis unfolding u by (simp add: handle_frame_def)
  qed
  ultimately show ?thesis using m by simp
qed

lemma lsb_bitfields_misread_witness:
  "process_websocket_frame False 1000 (no_callbacks\<lparr>cb_message := True\<rparr>) 0 True
     (wire_frame True WS_TEXT (Some [1, 2, 3, 4]) [72, 105]) demo_client = (-1, demo_client, [])"
  using lsb_bitfields_misread [of "[72, 105]" "[1, 2, 3, 4]" 1000] by simp

end
