(* ===== verification/WebSocket_Server.thy ===== *)
theory WebSocket_Server
  imports WebSocket_Frames
begin

text \<open>
  The WebSocket server of \<open>server/src/websocket_server.c\<close>: its client table, the accept, worker and ping
  threads, the handshake and the sending interface. \<open>clients_mutex\<close> is a part of the state, since
  several functions call others while they hold it; locking it twice in one thread never returns.
  Answers of the sockets, of the allocator and of OpenSSL are arguments. The threads are cut into
  turns at the points where they do not hold the mutex.
\<close>

section \<open>State\<close>

record ws_config =
  wg_port :: "16 word"
  wg_max_clients :: "32 word"
  wg_max_message_size :: "32 word"
  wg_ping_interval :: "32 word"
  wg_timeout :: "32 word"
  wg_buffer_size :: nat
  wg_enable_ssl :: bool
  wg_reuse_addr :: bool

record ws_stats =
  st_connections_total :: "64 word"
  st_connections_active :: "64 word"
  st_connections_closed :: "64 word"
  st_messages_received :: "64 word"
  st_messages_sent :: "64 word"
  st_bytes_received :: "64 word"
  st_bytes_sent :: "64 word"
  st_ping_count :: "64 word"
  st_pong_count :: "64 word"
  st_start_time :: "64 word"

record ws_server =
  sv_config :: ws_config
  sv_clients :: "ws_client option list"
  sv_client_count :: "32 word"
  sv_next_client_id :: "64 word"
  sv_callbacks :: ws_callbacks
  sv_stats :: ws_stats
  sv_locked :: bool
  sv_running :: bool
  sv_shutdown_requested :: bool

definition zero_ws_stats :: "64 word \<Rightarrow> ws_stats" where
  "zero_ws_stats now = \<lparr>st_connections_total = 0, st_connections_active = 0, st_connections_closed = 0,
     st_messages_received = 0, st_messages_sent = 0, st_bytes_received = 0, st_bytes_sent = 0, st_ping_count = 0,
     st_pong_count = 0, st_start_time = now\<rparr>"

definition websocket_get_default_config :: ws_config where
  "websocket_get_default_config = \<lparr>wg_port = 8889, wg_max_clients = 1000, wg_max_message_size = 10485760,
     wg_ping_interval = 30, wg_timeout = 300, wg_buffer_size = 8192, wg_enable_ssl = False, wg_reuse_addr = True\<rparr>"

text \<open>\<open>ok 0\<close>: the server, \<open>ok 1\<close>: the client array, \<open>ok 2\<close>: mutexes and condition, \<open>ok 3\<close>: TLS context, certificate
  and key, which are asked for only when TLS is enabled.\<close>

definition websocket_server_create :: "(nat \<Rightarrow> bool) \<Rightarrow> 64 word \<Rightarrow> ws_config option \<Rightarrow> ws_server option" where
  "websocket_server_create ok now config =
     (if \<not> ok 0 then None
      else
        let cfg = (case config of Some c \<Rightarrow> c | None \<Rightarrow> websocket_get_default_config) in
        if \<not> ok 1 then None
        else if \<not> ok 2 then None
        else if wg_enable_ssl cfg \<and> \<not> ok 3 then None
        else Some \<lparr>sv_config = cfg, sv_clients = replicate (unat (wg_max_clients cfg)) None, sv_client_count = 0,
          sv_next_client_id = 1, sv_callbacks = no_callbacks, sv_stats = zero_ws_stats now,
          sv_locked = False, sv_running = False, sv_shutdown_requested = False\<rparr>)"

text \<open>\<open>ok 0\<close> to \<open>ok 4\<close>: socket, address reuse, bind, listen, non-blocking mode; \<open>ok 5\<close> to \<open>ok 7\<close>: the three threads.\<close>

definition websocket_server_start :: "(nat \<Rightarrow> bool) \<Rightarrow> ws_server option \<Rightarrow> int \<times> ws_server option" where
  "websocket_server_start ok server =
     (case server of None \<Rightarrow> (-1, None)
      | Some s \<Rightarrow>
          if sv_running s then (-1, Some s)
          else if \<not> ok 0 then (-1, Some s)
          else if wg_reuse_addr (sv_config s) \<and> \<not> ok 1 then (-1, Some s)
          else if \<not> ok 2 then (-1, Some s)
          else if \<not> ok 3 then (-1, Some s)
          else if \<not> ok 4 then (-1, Some s)
          else if \<not> ok 5 \<or> \<not> ok 6 \<or> \<not> ok 7 then (-1, Some (s\<lparr>sv_running := False\<rparr>))
          else (0, Some (s\<lparr>sv_running := True\<rparr>)))"

definition ws_lock :: "ws_server \<Rightarrow> ws_server outcome" where
  "ws_lock s = (if sv_locked s then Deadlock else Done (s\<lparr>sv_locked := True\<rparr>))"

definition ws_unlock :: "ws_server \<Rightarrow> ws_server" where
  "ws_unlock s = s\<lparr>sv_locked := False\<rparr>"

text \<open>The descriptors that are closed.\<close>

definition destroy_client :: "ws_client option \<Rightarrow> int list" where
  "destroy_client client = (case client of None \<Rightarrow> [] | Some c \<Rightarrow> if wc_fd c > 0 then [wc_fd c] else [])"

definition websocket_server_stop :: "ws_server option \<Rightarrow> (int \<times> int list \<times> ws_server option) outcome" where
  "websocket_server_stop server =
     (case server of None \<Rightarrow> Done (-1, [], None)
      | Some s \<Rightarrow>
          if \<not> sv_running s then Done (-1, [], Some s)
          else
            let s1 = s\<lparr>sv_shutdown_requested := True\<rparr> in
            obind (ws_lock s1) (\<lambda>s2.
              let closed = concat (map destroy_client (sv_clients s2));
                  s3 = ws_unlock (s2\<lparr>sv_clients := map (\<lambda>_. None) (sv_clients s2)\<rparr>)
              in Done (0, closed, Some (s3\<lparr>sv_running := False\<rparr>))))"

text \<open>The condition of the three thread loops.\<close>

definition loop_enabled :: "ws_server \<Rightarrow> bool" where
  "loop_enabled s \<longleftrightarrow> sv_running s \<and> \<not> sv_shutdown_requested s"

section \<open>Accepting clients\<close>

definition create_client :: "bool \<Rightarrow> bool \<Rightarrow> 64 word \<Rightarrow> int \<Rightarrow> 32 word \<times> 16 word \<Rightarrow> ws_client option" where
  "create_client ok_client ok_buffer now fd addr =
     (if \<not> ok_client then None
      else if \<not> ok_buffer then None
      else Some \<lparr>wc_fd = fd, wc_id = 0, wc_ip = fst addr, wc_port = snd addr, wc_state = WS_Connecting, wc_key = [],
        wc_message = [], wc_capacity = 4096, wc_opcode = 0, wc_complete = False, wc_fragment_size = 0,
        wc_messages_received = 0, wc_messages_sent = 0, wc_bytes_received = 0, wc_bytes_sent = 0,
        wc_last_activity = now, wc_connected_at = now, wc_last_ping = 0, wc_last_pong = 0\<rparr>)"

definition handle_client_connection :: "bool \<Rightarrow> bool \<Rightarrow> 64 word \<Rightarrow> ws_server \<Rightarrow> int \<Rightarrow> 32 word \<times> 16 word \<Rightarrow>
    (int \<times> ws_server) outcome" where
  "handle_client_connection ok_client ok_buffer now s fd addr =
     (case create_client ok_client ok_buffer now fd addr of None \<Rightarrow> Done (-1, s)
      | Some client0 \<Rightarrow>
          let client = client0\<lparr>wc_id := sv_next_client_id s\<rparr>;
              s1 = s\<lparr>sv_next_client_id := sv_next_client_id s + 1\<rparr>
          in obind (ws_lock s1) (\<lambda>s2.
               let s3 = (case first_index (\<lambda>x. x = None) (sv_clients s2) of
                           Some i \<Rightarrow> s2\<lparr>sv_clients := (sv_clients s2)[i := Some client],
                                        sv_client_count := sv_client_count s2 + 1\<rparr>
                         | None \<Rightarrow> s2);
                   s4 = ws_unlock s3;
                   st = sv_stats s4
               in Done (0, s4\<lparr>sv_stats := st\<lparr>st_connections_total := st_connections_total st + 1,
                                            st_connections_active := st_connections_active st + 1\<rparr>\<rparr>)))"

text \<open>A turn of the accept thread: what \<open>accept\<close> answered (\<open>None\<close>: nothing), whether the socket could be made
  non-blocking; the descriptors that it closes.\<close>

definition accept_turn :: "bool \<Rightarrow> bool \<Rightarrow> bool \<Rightarrow> 64 word \<Rightarrow> (int \<times> 32 word \<times> 16 word) option \<Rightarrow> ws_server \<Rightarrow>
    (int list \<times> ws_server) outcome" where
  "accept_turn ok_nonblock ok_client ok_buffer now accepted s =
     (case accepted of None \<Rightarrow> Done ([], s)
      | Some (fd, addr) \<Rightarrow>
          obind (ws_lock s) (\<lambda>s1.
            let s2 = ws_unlock s1 in
            if sv_client_count s1 \<ge> wg_max_clients (sv_config s1) then Done ([fd], s2)
            else if \<not> ok_nonblock then Done ([fd], s2)
            else obind (handle_client_connection ok_client ok_buffer now s2 fd addr) (\<lambda>(r, s3).
              Done (if r \<noteq> 0 then [fd] else [], s3))))"

section \<open>Removing clients\<close>

text \<open>The bytes of the close frame that \<open>remove_client\<close> hands to \<open>send\<close>; it is assembled in an array of 128
  bytes. \<open>None\<close>: the reason does not fit.\<close>

definition cstr_bytes :: "byte list \<Rightarrow> byte list" where
  "cstr_bytes bs = takeWhile (\<lambda>b. b \<noteq> 0) bs"

definition close_frame :: "16 word \<Rightarrow> byte list option \<Rightarrow> byte list option" where
  "close_frame status reason =
     (let r = (case reason of None \<Rightarrow> [] | Some bs \<Rightarrow> cstr_bytes bs);
          code2 = be_encode 2 (unat status)
      in if r = [] then Some [0x88, 0x02]
         else
           let r' = take 125 r in
           if 4 + length r' > 128 then None else Some ([0x88, of_nat (2 + length r')] @ code2 @ r'))"

text \<open>Removing a client: what is sent and which callback runs, and the descriptors that are closed.\<close>

definition remove_client :: "ws_server \<Rightarrow> 64 word \<Rightarrow> 16 word \<Rightarrow> byte list option \<Rightarrow>
    (ws_event list \<times> int list \<times> ws_server) outcome" where
  "remove_client s client_id status reason =
     obind (ws_lock s) (\<lambda>s1.
       case first_index (\<lambda>x. case x of None \<Rightarrow> False | Some c \<Rightarrow> wc_id c = client_id) (sv_clients s1) of
         None \<Rightarrow> Done ([], [], ws_unlock s1)
       | Some i \<Rightarrow>
           let c = the (sv_clients s1 ! i);
               finish = (\<lambda>sent.
                 let s2 = s1\<lparr>sv_clients := (sv_clients s1)[i := None], sv_client_count := sv_client_count s1 - 1\<rparr>;
                     st = sv_stats s2
                 in Done (sent @ (if cb_close (sv_callbacks s1) then [On_Close status reason] else []),
                      destroy_client (Some c), ws_unlock (s2\<lparr>sv_stats := st\<lparr>
                      st_connections_active := st_connections_active st - 1,
                      st_connections_closed := st_connections_closed st + 1\<rparr>\<rparr>)))
           in if wc_state c = WS_Open then
                (case close_frame status reason of None \<Rightarrow> Undefined_Behaviour | Some f \<Rightarrow> finish [Send_Bytes f])
              else finish [])"

definition websocket_close_client :: "ws_server option \<Rightarrow> 64 word \<Rightarrow> 16 word \<Rightarrow> byte list option \<Rightarrow>
    (int \<times> ws_server option) outcome" where
  "websocket_close_client server client_id status reason =
     (case server of None \<Rightarrow> Done (-1, None)
      | Some s \<Rightarrow>
          if \<not> sv_running s then Done (-1, Some s)
          else obind (remove_client s client_id status reason) (\<lambda>(_, _, s'). Done (0, Some s')))"

definition text_bytes :: "string \<Rightarrow> byte list" where
  "text_bytes s = map (\<lambda>c. of_nat (code c)) s"

text \<open>\<open>timeout * 1000\<close> is computed with 32 bits.\<close>

fun timeout_slots :: "64 word \<Rightarrow> 64 word \<Rightarrow> nat list \<Rightarrow> ws_server \<Rightarrow> ws_server outcome" where
  "timeout_slots now timeout_ms [] s = Done s"
| "timeout_slots now timeout_ms (i # is) s =
     (case sv_clients s ! i of
        None \<Rightarrow> timeout_slots now timeout_ms is s
      | Some c \<Rightarrow>
          if wc_state c = WS_Open \<and> now - wc_last_activity c > timeout_ms
          then obind (remove_client s (wc_id c) 1001 (Some (text_bytes ''Connection timeout'')))
                 (\<lambda>(_, _, s'). timeout_slots now timeout_ms is s')
          else timeout_slots now timeout_ms is s)"

definition check_client_timeout :: "64 word \<Rightarrow> ws_server \<Rightarrow> ws_server outcome" where
  "check_client_timeout now s =
     obind (ws_lock s) (\<lambda>s1.
     obind (timeout_slots now (ucast (wg_timeout (sv_config s1) * 1000)) [0..<length (sv_clients s1)] s1) (\<lambda>s2.
       Done (ws_unlock s2)))"

section \<open>The handshake\<close>

text \<open>\<open>accept\<close> is SHA-1 followed by base64, from OpenSSL; its result is cut to 28 characters.\<close>

definition websocket_generate_accept_key :: "(string \<Rightarrow> string) \<Rightarrow> string \<Rightarrow> string" where
  "websocket_generate_accept_key digest client_key =
     take 28 (digest (take 511 (client_key @ ''258EAFA5-E914-47DA-95CA-C5AB0DC85B11'')))"

definition crlf :: string where "crlf = [CHR 0x0D, CHR 0x0A]"

definition handshake_response :: "string \<Rightarrow> string" where
  "handshake_response accept_key =
     ''HTTP/1.1 101 Switching Protocols'' @ crlf @ ''Upgrade: websocket'' @ crlf @ ''Connection: Upgrade'' @ crlf @
     ''Sec-WebSocket-Accept: '' @ accept_key @ crlf @ ''Sec-WebSocket-Protocol: chat'' @ crlf @ crlf"

text \<open>The result code, the client and the response that was sent.\<close>

definition handle_handshake :: "(string \<Rightarrow> string) \<Rightarrow> bool \<Rightarrow> 64 word \<Rightarrow> ws_client \<Rightarrow> string \<Rightarrow> int \<times> ws_client \<times> string option" where
  "handle_handshake digest sent now c request =
     (case strstr request ''Sec-WebSocket-Key:'' of None \<Rightarrow> (-1, c, None)
      | Some p \<Rightarrow>
          let after = dropWhile (\<lambda>x. x = CHR '' '') (drop (p + 18) request) in
          (case strstr after crlf of None \<Rightarrow> (-1, c, None)
           | Some key_len \<Rightarrow>
               if key_len \<ge> 256 then (-1, c, None)
               else
                 let key = take key_len after;
                     c1 = c\<lparr>wc_key := take 255 key\<rparr>;
                     response = take 1023 (handshake_response (websocket_generate_accept_key digest key))
                 in if \<not> sent then (-1, c1, Some response)
                    else (0, c1\<lparr>wc_state := WS_Open, wc_last_activity := now\<rparr>, Some response)))"

text \<open>The exported entry to the handshake. No code of the repository calls it.\<close>

definition websocket_handshake :: "(string \<Rightarrow> string) \<Rightarrow> bool \<Rightarrow> 64 word \<Rightarrow> ws_client \<Rightarrow> string \<Rightarrow> int \<times> ws_client \<times> string option" where
  "websocket_handshake digest sent now c request = handle_handshake digest sent now c request"

section \<open>The worker thread\<close>

text \<open>The descriptors that the worker watches: those of the open clients.\<close>

definition watched :: "ws_server \<Rightarrow> int list" where
  "watched s = List.map_filter (\<lambda>x. case x of None \<Rightarrow> None | Some c \<Rightarrow> if wc_state c = WS_Open then Some (wc_fd c) else None)
     (sv_clients s)"

datatype ws_read = Read_Bytes "byte list" | Read_End | Read_Again | Read_Error

definition run_events :: "ws_event list \<Rightarrow> ws_server \<Rightarrow> 64 word \<Rightarrow> ws_server outcome" where
  "run_events evs s client_id =
     foldl (\<lambda>r e. obind r (\<lambda>s.
       case e of
         Remove_Client status reason \<Rightarrow> obind (remove_client s client_id status (Some reason)) (\<lambda>(_, _, s'). Done s')
       | Count_Message \<Rightarrow> Done (s\<lparr>sv_stats := (sv_stats s)\<lparr>st_messages_received := st_messages_received (sv_stats s) + 1\<rparr>\<rparr>)
       | Count_Pong \<Rightarrow> Done (s\<lparr>sv_stats := (sv_stats s)\<lparr>st_pong_count := st_pong_count (sv_stats s) + 1\<rparr>\<rparr>)
       | _ \<Rightarrow> Done s)) (Done s) evs"

text \<open>Serving slot \<open>i\<close> with what was read from its client; the mutex is held. The handshake puts a terminator
  behind what was read, which must fit into the buffer.\<close>

record ws_env =
  we_msb :: bool
  we_now :: "64 word"
  we_digest :: "string \<Rightarrow> string"
  we_sent :: bool
  we_alloc :: bool

definition serve_client :: "ws_env \<Rightarrow> nat \<Rightarrow> ws_client \<Rightarrow> ws_read \<Rightarrow> ws_server \<Rightarrow> ws_server outcome" where
  "serve_client e i c r s =
     (case r of
        Read_Bytes bs \<Rightarrow>
          let c1 = c\<lparr>wc_last_activity := we_now e\<rparr>;
              count = (\<lambda>c' s'. Done (s'\<lparr>sv_clients := (sv_clients s')[i := Some (c'\<lparr>wc_bytes_received :=
                         wc_bytes_received c' + of_nat (length bs)\<rparr>)],
                         sv_stats := (sv_stats s')\<lparr>st_bytes_received := st_bytes_received (sv_stats s') + of_nat (length bs)\<rparr>\<rparr>))
          in if wc_state c1 = WS_Connecting then
               (if length bs < wg_buffer_size (sv_config s) then
                  (case handle_handshake (we_digest e) (we_sent e) (we_now e) c1 (map (\<lambda>b. char_of (unat b)) (cstr_bytes bs)) of
                     (_, c2, _) \<Rightarrow> count c2 s)
                else Undefined_Behaviour)
             else if wc_state c1 = WS_Open then
               (case process_websocket_frame (we_msb e) (wg_max_message_size (sv_config s)) (sv_callbacks s) (we_now e) (we_alloc e) bs c1 of
                  (_, c2, evs) \<Rightarrow> obind (run_events evs (s\<lparr>sv_clients := (sv_clients s)[i := Some c2]\<rparr>) (wc_id c2)) (count c2))
             else count c1 s
      | Read_End \<Rightarrow> obind (remove_client s (wc_id c) 1000 (Some (text_bytes ''Connection closed''))) (\<lambda>(_, _, s'). Done s')
      | Read_Error \<Rightarrow> obind (remove_client s (wc_id c) 1006 (Some (text_bytes ''Read error''))) (\<lambda>(_, _, s'). Done s')
      | Read_Again \<Rightarrow> Done s)"

fun serve_slots :: "ws_env \<Rightarrow> int list \<Rightarrow> (nat \<Rightarrow> ws_read) \<Rightarrow> nat list \<Rightarrow> ws_server \<Rightarrow> ws_server outcome" where
  "serve_slots e ready rd [] s = Done s"
| "serve_slots e ready rd (i # is) s =
     (case sv_clients s ! i of
        None \<Rightarrow> serve_slots e ready rd is s
      | Some c \<Rightarrow>
          if wc_fd c \<in> set ready then obind (serve_client e i c (rd i) s) (serve_slots e ready rd is)
          else serve_slots e ready rd is s)"

text \<open>A turn of the worker: \<open>activity\<close> is the answer of \<open>select\<close>, \<open>interrupted\<close> says that it failed with \<open>EINTR\<close>,
  \<open>ready\<close> are the descriptors it reports; it reports none that was not asked for.\<close>

definition worker_turn :: "ws_env \<Rightarrow> int \<Rightarrow> bool \<Rightarrow> int list \<Rightarrow> (nat \<Rightarrow> ws_read) \<Rightarrow> ws_server \<Rightarrow> ws_server outcome" where
  "worker_turn e activity interrupted ready rd s =
     obind (ws_lock s) (\<lambda>s1.
       let fds = watched s1; s2 = ws_unlock s1 in
       if activity < 0 \<and> \<not> interrupted then Done s2
       else if activity = 0 then check_client_timeout (we_now e) s2
       else
         obind (ws_lock s2) (\<lambda>s3.
         obind (serve_slots e (filter (\<lambda>fd. fd \<in> set fds) ready) rd [0..<length (sv_clients s3)] s3) (\<lambda>s4.
           Done (ws_unlock s4))))"

section \<open>Pings\<close>

text \<open>\<open>sent\<close> answers whether \<open>send\<close> succeeded for a slot.\<close>

definition ping_client :: "64 word \<Rightarrow> 64 word \<Rightarrow> bool \<Rightarrow> ws_client \<Rightarrow> ws_client \<times> bool" where
  "ping_client now interval_ms sent c =
     (if wc_state c = WS_Open \<and> now - wc_last_ping c > interval_ms \<and> sent then (c\<lparr>wc_last_ping := now\<rparr>, True) else (c, False))"

definition ping_turn :: "64 word \<Rightarrow> (nat \<Rightarrow> bool) \<Rightarrow> ws_server \<Rightarrow> ws_server outcome" where
  "ping_turn now sent s =
     obind (ws_lock s) (\<lambda>s1.
       let interval_ms = ucast (wg_ping_interval (sv_config s1) * 1000);
           res = map (\<lambda>(i, x). case x of None \<Rightarrow> (None, False)
                       | Some c \<Rightarrow> (case ping_client now interval_ms (sent i) c of (c', b) \<Rightarrow> (Some c', b)))
                   (enumerate 0 (sv_clients s1));
           st = sv_stats s1
       in Done (ws_unlock (s1\<lparr>sv_clients := map fst res,
            sv_stats := st\<lparr>st_ping_count := st_ping_count st + of_nat (length (filter snd res))\<rparr>\<rparr>)))"

section \<open>Sending\<close>

definition websocket_get_client :: "ws_server option \<Rightarrow> 64 word \<Rightarrow> nat option outcome" where
  "websocket_get_client server client_id =
     (case server of None \<Rightarrow> Done None
      | Some s \<Rightarrow> obind (ws_lock s) (\<lambda>s1.
          Done (first_index (\<lambda>x. case x of None \<Rightarrow> False | Some c \<Rightarrow> wc_id c = client_id) (sv_clients s1))))"

text \<open>The common part of \<open>websocket_send_text\<close> and \<open>websocket_send_binary\<close> after their checks of the arguments.\<close>

definition send_to_client :: "(nat \<Rightarrow> int) \<Rightarrow> ws_server \<Rightarrow> 64 word \<Rightarrow> byte \<Rightarrow> byte list \<Rightarrow>
    (int \<times> ws_event list \<times> ws_server) outcome" where
  "send_to_client sent s client_id opcode payload =
     obind (websocket_get_client (Some s) client_id) (\<lambda>slot.
       case slot of None \<Rightarrow> Done (-1, [], s)
       | Some i \<Rightarrow>
           let c = the (sv_clients s ! i) in
           if wc_state c \<noteq> WS_Open then Done (-1, [], s)
           else if length payload > unat (wg_max_message_size (sv_config s)) then Done (-1, [], s)
           else
             (case send_websocket_frame sent c opcode payload of (r, c', evs) \<Rightarrow>
                let s1 = s\<lparr>sv_clients := (sv_clients s)[i := Some c']\<rparr>; st = sv_stats s1 in
                Done (r, evs, if r = 0 then s1\<lparr>sv_stats := st\<lparr>st_messages_sent := st_messages_sent st + 1,
                                    st_bytes_sent := st_bytes_sent st + of_nat (length payload)\<rparr>\<rparr> else s1)))"

definition websocket_send_text :: "(nat \<Rightarrow> int) \<Rightarrow> ws_server option \<Rightarrow> 64 word \<Rightarrow> byte list option \<Rightarrow>
    (int \<times> ws_event list \<times> ws_server option) outcome" where
  "websocket_send_text sent server client_id txt =
     (case server of None \<Rightarrow> Done (-1, [], None)
      | Some s \<Rightarrow>
          if \<not> sv_running s then Done (-1, [], Some s)
          else case txt of None \<Rightarrow> Done (-1, [], Some s)
          | Some bs \<Rightarrow> obind (send_to_client sent s client_id WS_TEXT bs) (\<lambda>(r, evs, s'). Done (r, evs, Some s')))"

definition websocket_send_binary :: "(nat \<Rightarrow> int) \<Rightarrow> ws_server option \<Rightarrow> 64 word \<Rightarrow> byte list option \<Rightarrow>
    (int \<times> ws_event list \<times> ws_server option) outcome" where
  "websocket_send_binary sent server client_id data =
     (case server of None \<Rightarrow> Done (-1, [], None)
      | Some s \<Rightarrow>
          if \<not> sv_running s then Done (-1, [], Some s)
          else case data of None \<Rightarrow> Done (-1, [], Some s)
          | Some bs \<Rightarrow>
              if bs = [] then Done (-1, [], Some s)
              else obind (send_to_client sent s client_id WS_BINARY bs) (\<lambda>(r, evs, s'). Done (r, evs, Some s')))"

text \<open>Sending to every open client: how often it succeeded, and the clients.\<close>

fun broadcast_slots :: "(nat \<Rightarrow> nat \<Rightarrow> int) \<Rightarrow> byte \<Rightarrow> byte list \<Rightarrow> nat \<Rightarrow> ws_client option list \<Rightarrow> nat \<times> ws_client option list" where
  "broadcast_slots sent opcode payload i [] = (0, [])"
| "broadcast_slots sent opcode payload i (x # xs) =
     (case broadcast_slots sent opcode payload (Suc i) xs of (n, ys) \<Rightarrow>
      (case x of
         None \<Rightarrow> (n, None # ys)
       | Some c \<Rightarrow>
           if wc_state c \<noteq> WS_Open then (n, Some c # ys)
           else case send_websocket_frame (sent i) c opcode payload of (r, c', _) \<Rightarrow>
             (if r = 0 then Suc n else n, Some c' # ys)))"

definition broadcast :: "(nat \<Rightarrow> nat \<Rightarrow> int) \<Rightarrow> ws_server \<Rightarrow> byte \<Rightarrow> byte list \<Rightarrow> (int \<times> ws_server) outcome" where
  "broadcast sent s opcode payload =
     obind (ws_lock s) (\<lambda>s1.
       case broadcast_slots sent opcode payload 0 (sv_clients s1) of (n, cs) \<Rightarrow>
         let s2 = ws_unlock (s1\<lparr>sv_clients := cs\<rparr>); st = sv_stats s2 in
         Done (int n, if n > 0 then s2\<lparr>sv_stats := st\<lparr>st_messages_sent := st_messages_sent st + of_nat n,
                        st_bytes_sent := st_bytes_sent st + of_nat (length payload * n)\<rparr>\<rparr> else s2))"

definition websocket_broadcast_text :: "(nat \<Rightarrow> nat \<Rightarrow> int) \<Rightarrow> ws_server option \<Rightarrow> byte list option \<Rightarrow>
    (int \<times> ws_server option) outcome" where
  "websocket_broadcast_text sent server txt =
     (case server of None \<Rightarrow> Done (-1, None)
      | Some s \<Rightarrow>
          if \<not> sv_running s then Done (-1, Some s)
          else case txt of None \<Rightarrow> Done (-1, Some s)
          | Some bs \<Rightarrow>
              if length bs > unat (wg_max_message_size (sv_config s)) then Done (-1, Some s)
              else obind (broadcast sent s WS_TEXT bs) (\<lambda>(n, s'). Done (n, Some s')))"

definition websocket_broadcast_binary :: "(nat \<Rightarrow> nat \<Rightarrow> int) \<Rightarrow> ws_server option \<Rightarrow> byte list option \<Rightarrow>
    (int \<times> ws_server option) outcome" where
  "websocket_broadcast_binary sent server data =
     (case server of None \<Rightarrow> Done (-1, None)
      | Some s \<Rightarrow>
          if \<not> sv_running s then Done (-1, Some s)
          else case data of None \<Rightarrow> Done (-1, Some s)
          | Some bs \<Rightarrow>
              if bs = [] then Done (-1, Some s)
              else if length bs > unat (wg_max_message_size (sv_config s)) then Done (-1, Some s)
              else obind (broadcast sent s WS_BINARY bs) (\<lambda>(n, s'). Done (n, Some s')))"

definition websocket_get_client_count :: "ws_server option \<Rightarrow> int" where
  "websocket_get_client_count server = (case server of None \<Rightarrow> -1 | Some s \<Rightarrow> sint (sv_client_count s))"

definition websocket_get_stats :: "ws_server option \<Rightarrow> int \<times> ws_stats option" where
  "websocket_get_stats server =
     (case server of None \<Rightarrow> (-1, None)
      | Some s \<Rightarrow> (0, Some ((sv_stats s)\<lparr>st_connections_active := ucast (sv_client_count s)\<rparr>)))"

definition websocket_reset_stats :: "64 word \<Rightarrow> ws_server option \<Rightarrow> ws_server option" where
  "websocket_reset_stats now server = map_option (\<lambda>s. s\<lparr>sv_stats := zero_ws_stats now\<rparr>) server"

text \<open>Registering callbacks. \<open>on_connect\<close> and \<open>on_error\<close> can be set; no code of the server calls them.\<close>

definition websocket_set_connect_callback :: "ws_server option \<Rightarrow> bool \<Rightarrow> ws_server option" where
  "websocket_set_connect_callback server f = map_option (\<lambda>s. s\<lparr>sv_callbacks := (sv_callbacks s)\<lparr>cb_connect := f\<rparr>\<rparr>) server"

definition websocket_set_message_callback :: "ws_server option \<Rightarrow> bool \<Rightarrow> ws_server option" where
  "websocket_set_message_callback server f = map_option (\<lambda>s. s\<lparr>sv_callbacks := (sv_callbacks s)\<lparr>cb_message := f\<rparr>\<rparr>) server"

definition websocket_set_close_callback :: "ws_server option \<Rightarrow> bool \<Rightarrow> ws_server option" where
  "websocket_set_close_callback server f = map_option (\<lambda>s. s\<lparr>sv_callbacks := (sv_callbacks s)\<lparr>cb_close := f\<rparr>\<rparr>) server"

definition websocket_set_error_callback :: "ws_server option \<Rightarrow> bool \<Rightarrow> ws_server option" where
  "websocket_set_error_callback server f = map_option (\<lambda>s. s\<lparr>sv_callbacks := (sv_callbacks s)\<lparr>cb_error := f\<rparr>\<rparr>) server"

definition websocket_set_binary_callback :: "ws_server option \<Rightarrow> bool \<Rightarrow> ws_server option" where
  "websocket_set_binary_callback server f = map_option (\<lambda>s. s\<lparr>sv_callbacks := (sv_callbacks s)\<lparr>cb_binary := f\<rparr>\<rparr>) server"

text \<open>Destruction: the server is stopped first when it runs; the descriptors closed, or nothing for a null pointer.\<close>

definition websocket_server_destroy :: "ws_server option \<Rightarrow> int list outcome" where
  "websocket_server_destroy server =
     (case server of None \<Rightarrow> Done []
      | Some s \<Rightarrow>
          if sv_running s then obind (websocket_server_stop (Some s)) (\<lambda>(_, closed, _). Done closed)
          else Done [])"

definition websocket_send_json :: "(nat \<Rightarrow> int) \<Rightarrow> ws_server option \<Rightarrow> 64 word \<Rightarrow> byte list option \<Rightarrow>
    (int \<times> ws_event list \<times> ws_server option) outcome" where
  "websocket_send_json sent server client_id json = websocket_send_text sent server client_id json"

section \<open>Names of codes\<close>

definition websocket_status_code_to_string :: "16 word \<Rightarrow> string" where
  "websocket_status_code_to_string status_code =
     (case map_of [(1000, ''Normal closure''), (1001, ''Going away''), (1002, ''Protocol error''),
        (1003, ''Unsupported data''), (1005, ''No status received''), (1006, ''Abnormal closure''),
        (1007, ''Invalid payload''), (1008, ''Policy violation''), (1009, ''Message too big''),
        (1010, ''Missing extension''), (1011, ''Internal error''), (1012, ''Service restart''),
        (1013, ''Try again later''), (1015, ''TLS handshake fail'')] status_code of
        Some name \<Rightarrow> name | None \<Rightarrow> ''Unknown status code'')"

definition websocket_opcode_to_string :: "byte \<Rightarrow> string" where
  "websocket_opcode_to_string opcode =
     (case map_of [(WS_CONTINUATION, ''Continuation''), (WS_TEXT, ''Text''), (WS_BINARY, ''Binary''),
        (WS_CLOSE, ''Close''), (WS_PING, ''Ping''), (WS_PONG, ''Pong'')] opcode of
        Some name \<Rightarrow> name | None \<Rightarrow> ''Unknown opcode'')"

section \<open>Runs of the server\<close>

text \<open>The turns of the three threads and the calls of the exported functions that change the server.\<close>

datatype ws_move = WS_Accept bool bool bool "64 word" "(int \<times> 32 word \<times> 16 word) option"
  | WS_Work ws_env int bool "int list" "nat \<Rightarrow> ws_read" | WS_Ping_Turn "64 word" "nat \<Rightarrow> bool"
  | WS_Kick "64 word" "16 word" "byte list option"
  | WS_Start "nat \<Rightarrow> bool" | WS_Stop | WS_Reset "64 word" | WS_Callbacks ws_callbacks
  | WS_Send_Text "nat \<Rightarrow> int" "64 word" "byte list option" | WS_Send_Binary "nat \<Rightarrow> int" "64 word" "byte list option"
  | WS_Broadcast_Text "nat \<Rightarrow> nat \<Rightarrow> int" "byte list option" | WS_Broadcast_Binary "nat \<Rightarrow> nat \<Rightarrow> int" "byte list option"
  | WS_Handshake "string \<Rightarrow> string" bool "64 word" nat string

definition set_callbacks :: "ws_callbacks \<Rightarrow> ws_server option \<Rightarrow> ws_server option" where
  "set_callbacks f server = websocket_set_connect_callback (websocket_set_message_callback (websocket_set_close_callback
     (websocket_set_error_callback (websocket_set_binary_callback server (cb_binary f)) (cb_error f)) (cb_close f)) (cb_message f)) (cb_connect f)"

fun ws_step :: "ws_move \<Rightarrow> ws_server \<Rightarrow> ws_server outcome" where
  "ws_step (WS_Accept a b c now x) s = obind (accept_turn a b c now x s) (\<lambda>(_, s'). Done s')"
| "ws_step (WS_Work e activity intr ready rd) s = worker_turn e activity intr ready rd s"
| "ws_step (WS_Ping_Turn now sent) s = ping_turn now sent s"
| "ws_step (WS_Kick client_id status reason) s =
     obind (websocket_close_client (Some s) client_id status reason) (\<lambda>(_, s'). Done (the s'))"
| "ws_step (WS_Start ok) s = Done (the (snd (websocket_server_start ok (Some s))))"
| "ws_step WS_Stop s = obind (websocket_server_stop (Some s)) (\<lambda>(_, _, s'). Done (the s'))"
| "ws_step (WS_Reset now) s = Done (the (websocket_reset_stats now (Some s)))"
| "ws_step (WS_Callbacks f) s = Done (the (set_callbacks f (Some s)))"
| "ws_step (WS_Send_Text sent client_id d) s =
     obind (websocket_send_text sent (Some s) client_id d) (\<lambda>(_, _, s'). Done (the s'))"
| "ws_step (WS_Send_Binary sent client_id d) s =
     obind (websocket_send_binary sent (Some s) client_id d) (\<lambda>(_, _, s'). Done (the s'))"
| "ws_step (WS_Broadcast_Text sent d) s = obind (websocket_broadcast_text sent (Some s) d) (\<lambda>(_, s'). Done (the s'))"
| "ws_step (WS_Broadcast_Binary sent d) s = obind (websocket_broadcast_binary sent (Some s) d) (\<lambda>(_, s'). Done (the s'))"
| "ws_step (WS_Handshake digest sent now i request) s =
     (if i < length (sv_clients s) then
        case sv_clients s ! i of None \<Rightarrow> Done s
        | Some c \<Rightarrow> Done (s\<lparr>sv_clients := (sv_clients s)[i := Some (fst (snd (websocket_handshake digest sent now c request)))]\<rparr>)
      else Done s)"

fun is_handshake :: "ws_move \<Rightarrow> bool" where
  "is_handshake (WS_Handshake _ _ _ _ _) = True"
| "is_handshake _ = False"

fun ws_run :: "ws_move list \<Rightarrow> ws_server \<Rightarrow> ws_server outcome" where
  "ws_run [] s = Done s"
| "ws_run (x # xs) s = obind (ws_step x s) (ws_run xs)"

definition all_connecting :: "ws_client option list \<Rightarrow> bool" where
  "all_connecting cs \<longleftrightarrow> (\<forall>c. Some c \<in> set cs \<longrightarrow> wc_state c = WS_Connecting)"

text \<open>The table: the array keeps its size and the counter its occupied slots.\<close>

definition table_ok :: "ws_server \<Rightarrow> bool" where
  "table_ok s \<longleftrightarrow> \<not> sv_locked s \<and> length (sv_clients s) = unat (wg_max_clients (sv_config s)) \<and>
     unat (sv_client_count s) = length (filter (\<lambda>x. x \<noteq> None) (sv_clients s))"

text \<open>\<open>websocket_server_stop\<close> empties the table and leaves the counter, which from then on is \<open>k\<close> too high.\<close>

definition table_off :: "nat \<Rightarrow> ws_server \<Rightarrow> bool" where
  "table_off k s \<longleftrightarrow> \<not> sv_locked s \<and> length (sv_clients s) = unat (wg_max_clients (sv_config s)) \<and>
     unat (sv_client_count s) = length (filter (\<lambda>x. x \<noteq> None) (sv_clients s)) + k"

lemma table_ok_off: "table_ok s = table_off 0 s"
  by (simp add: table_ok_def table_off_def)

lemma filter_update_Some:
  "i < length xs \<Longrightarrow> xs ! i = None \<Longrightarrow>
     length (filter (\<lambda>x. x \<noteq> None) (xs[i := Some c])) = Suc (length (filter (\<lambda>x. x \<noteq> None) xs))"
  by (induction xs arbitrary: i) (auto split: nat.splits)

lemma filter_update_None:
  "i < length xs \<Longrightarrow> xs ! i = Some c \<Longrightarrow>
     Suc (length (filter (\<lambda>x. x \<noteq> None) (xs[i := None]))) = length (filter (\<lambda>x. x \<noteq> None) xs)"
  by (induction xs arbitrary: i) (auto split: nat.splits)

lemma all_connecting_update:
  "all_connecting cs \<Longrightarrow> (\<forall>c. x = Some c \<longrightarrow> wc_state c = WS_Connecting) \<Longrightarrow> all_connecting (cs[i := x])"
  by (auto simp: all_connecting_def dest: set_update_subset_insert [THEN subsetD])

lemma accept_ok:
  assumes "table_off k s" "all_connecting (sv_clients s)"
  shows "\<exists>fds s'. accept_turn a b c now x s = Done (fds, s') \<and> table_off k s' \<and> all_connecting (sv_clients s')"
proof -
  have u: "\<not> sv_locked s" using assms(1) by (simp add: table_off_def)
  have un: "ws_unlock (s\<lparr>sv_locked := True\<rparr>) = s" using u by (simp add: ws_unlock_def)
  show ?thesis
  proof (cases x)
    case None
    then show ?thesis using assms by (simp add: accept_turn_def)
  next
    case (Some y)
    obtain fd addr where y: "y = (fd, addr)" by (cases y)
    show ?thesis
    proof (cases "sv_client_count s \<ge> wg_max_clients (sv_config s) \<or> \<not> a \<or> \<not> b \<or> \<not> c")
      case True
      then show ?thesis using Some y u un assms
        by (auto simp: accept_turn_def ws_lock_def handle_client_connection_def create_client_def Let_def)
    next
      case False
      then have cnt: "unat (sv_client_count s) < unat (wg_max_clients (sv_config s))" by (auto simp: word_le_nat_alt)
      obtain i where i: "first_index (\<lambda>x. x = None) (sv_clients s) = Some i" "i < length (sv_clients s)" "sv_clients s ! i = None"
      proof (cases "first_index (\<lambda>x. x = None) (sv_clients s)")
        case None
        then have "filter (\<lambda>x. x \<noteq> None) (sv_clients s) = sv_clients s"
          by (simp add: first_index_None filter_id_conv)
        then show ?thesis using assms(1) cnt by (simp add: table_off_def)
      next
        case (Some i)
        then show ?thesis using first_index_Some [OF Some] that by blast
      qed
      have "unat (sv_client_count s + 1) = Suc (unat (sv_client_count s))"
        using cnt unat_lt_32 [of "wg_max_clients (sv_config s)"] by (subst unat_add_32) simp_all
      then show ?thesis using False Some y u i assms filter_update_Some [OF i(2,3)]
        by (simp add: accept_turn_def ws_lock_def ws_unlock_def handle_client_connection_def create_client_def Let_def table_off_def
            all_connecting_update)
    qed
  qed
qed

lemma remove_ok:
  assumes "table_off k s" "all_connecting (sv_clients s)"
  shows "\<exists>sent fds s'. remove_client s client_id status reason = Done (sent, fds, s') \<and> table_off k s' \<and> all_connecting (sv_clients s')"
proof -
  let ?P = "\<lambda>x. case x of None \<Rightarrow> False | Some c \<Rightarrow> wc_id c = client_id"
  have u: "\<not> sv_locked s" using assms(1) by (simp add: table_off_def)
  show ?thesis
  proof (cases "first_index ?P (sv_clients s)")
    case None
    then show ?thesis using u assms by (simp add: remove_client_def ws_lock_def ws_unlock_def table_off_def)
  next
    case (Some i)
    then obtain c where i: "i < length (sv_clients s)" "sv_clients s ! i = Some c"
      using first_index_Some [OF Some] by (auto split: option.splits)
    have "Some c \<in> set (sv_clients s)" using nth_mem [OF i(1)] i(2) by simp
    then have st: "wc_state c = WS_Connecting" using assms(2) by (simp add: all_connecting_def)
    have cnt: "unat (sv_client_count s) = Suc (length (filter (\<lambda>x. x \<noteq> None) ((sv_clients s)[i := None])) + k)"
      using assms(1) filter_update_None [OF i] unfolding table_off_def by linarith
    then have "sv_client_count s \<noteq> 0" by auto
    then have "unat (sv_client_count s - 1) = length (filter (\<lambda>x. x \<noteq> None) ((sv_clients s)[i := None])) + k"
      using cnt by (simp add: unat_minus_one)
    then show ?thesis using Some u assms i st
      by (simp add: remove_client_def ws_lock_def ws_unlock_def Let_def table_off_def all_connecting_update)
  qed
qed

lemma watched_connecting: "all_connecting (sv_clients s) \<Longrightarrow> watched s = []"
  by (auto simp: watched_def all_connecting_def List.map_filter_def filter_empty_conv split: option.splits)

lemma timeout_connecting:
  assumes "all_connecting (sv_clients s)" "\<forall>i \<in> set is. i < length (sv_clients s)"
  shows "timeout_slots now t is s = Done s"
  using assms(2)
proof (induction "is")
  case (Cons i "is")
  have "wc_state c = WS_Connecting" if "sv_clients s ! i = Some c" for c
    using nth_mem [of i "sv_clients s"] Cons.prems that assms(1) by (simp add: all_connecting_def)
  then show ?case using Cons by (auto split: option.splits)
qed simp

lemma serve_none_ready: "serve_slots e [] rd is s = Done s"
  by (induction "is") (auto split: option.splits)

lemma worker_ok:
  assumes "table_off k s" "all_connecting (sv_clients s)"
  shows "worker_turn e activity intr ready rd s = Done s"
proof -
  have u: "\<not> sv_locked s" using assms(1) by (simp add: table_off_def)
  let ?s = "s\<lparr>sv_locked := True\<rparr>"
  have un: "ws_unlock ?s = s" using u by (simp add: ws_unlock_def)
  have "watched ?s = []" using assms(2) by (intro watched_connecting) simp
  moreover have "check_client_timeout now s = Done s" for now
    using u un assms(2) timeout_connecting [of ?s] by (simp add: check_client_timeout_def ws_lock_def)
  ultimately show ?thesis using u un by (simp add: worker_turn_def ws_lock_def serve_none_ready)
qed

lemma ping_ok:
  assumes "table_off k s" "all_connecting (sv_clients s)"
  shows "\<exists>s'. ping_turn now sent s = Done s' \<and> table_off k s' \<and> all_connecting (sv_clients s')"
proof -
  have u: "\<not> sv_locked s" using assms(1) by (simp add: table_off_def)
  let ?f = "\<lambda>(i, x). case x of None \<Rightarrow> (None, False)
                       | Some c \<Rightarrow> (case ping_client now (ucast (wg_ping_interval (sv_config s) * 1000)) (sent i) c of (c', b) \<Rightarrow> (Some c', b))"
  have conn: "wc_state c = WS_Connecting" if "(i, Some c) \<in> set (enumerate 0 (sv_clients s))" for i c
    using that assms(2) in_set_enumerate_eq [of "(i, Some c)" 0 "sv_clients s"] nth_mem [of i "sv_clients s"]
    by (simp add: all_connecting_def)
  have "fst (?f y) = snd y" if "y \<in> set (enumerate 0 (sv_clients s))" for y
  proof -
    obtain i x where y: "y = (i, x)" by fastforce
    show ?thesis
    proof (cases x)
      case (Some c)
      then show ?thesis using conn [of i c] that y by (simp add: ping_client_def)
    qed (simp add: y)
  qed
  then have "map fst (map ?f (enumerate 0 (sv_clients s))) = map snd (enumerate 0 (sv_clients s))"
    unfolding map_map by (intro map_cong [OF refl]) (simp only: comp_apply)
  then have m: "map fst (map ?f (enumerate 0 (sv_clients s))) = sv_clients s" unfolding map_snd_enumerate .
  show ?thesis using u assms m by (simp add: ping_turn_def ws_lock_def ws_unlock_def Let_def table_off_def)
qed

lemma broadcast_connecting:
  "all_connecting cs \<Longrightarrow> broadcast_slots sent opcode payload i cs = (0, cs)"
proof (induction cs arbitrary: i)
  case (Cons x cs)
  then have "all_connecting cs" by (simp add: all_connecting_def)
  then show ?case using Cons.IH Cons.prems by (auto simp: all_connecting_def split: option.splits)
qed simp

lemma broadcast_nobody:
  assumes "\<not> sv_locked s" "all_connecting (sv_clients s)"
  shows "broadcast sent s opcode payload = Done (0, s)"
  using assms broadcast_connecting [OF assms(2)] by (simp add: broadcast_def ws_lock_def ws_unlock_def Let_def)

lemma send_refused:
  assumes "\<not> sv_locked s" "all_connecting (sv_clients s)"
  shows "send_to_client sent s client_id opcode payload = Done (-1, [], s)"
proof (cases "first_index (\<lambda>x. case x of None \<Rightarrow> False | Some c \<Rightarrow> wc_id c = client_id) (sv_clients s)")
  case None
  then show ?thesis using assms(1) by (simp add: send_to_client_def websocket_get_client_def ws_lock_def)
next
  case (Some i)
  then obtain c where i: "i < length (sv_clients s)" "sv_clients s ! i = Some c"
    using first_index_Some [OF Some] by (auto split: option.splits)
  then have "wc_state c = WS_Connecting" using nth_mem [OF i(1)] assms(2) by (simp add: all_connecting_def)
  then show ?thesis using assms(1) Some i by (simp add: send_to_client_def websocket_get_client_def ws_lock_def Let_def)
qed

lemma start_ok:
  assumes "table_off k s" "all_connecting (sv_clients s)"
  shows "table_off k (the (snd (websocket_server_start ok (Some s)))) \<and>
    all_connecting (sv_clients (the (snd (websocket_server_start ok (Some s)))))"
  using assms by (simp add: websocket_server_start_def table_off_def)

text \<open>Stopping empties the table of a running server; the counter keeps its value.\<close>

lemma stop_ok:
  assumes "table_off k s" "all_connecting (sv_clients s)"
  shows "\<exists>r fds s'. websocket_server_stop (Some s) = Done (r, fds, Some s') \<and> (\<exists>k'. table_off k' s') \<and> all_connecting (sv_clients s')"
proof (cases "sv_running s")
  case True
  have "filter (\<lambda>x. x \<noteq> None) (map (\<lambda>_. None) cs) = ([] :: ws_client option list)" for cs :: "ws_client option list"
    by (induction cs) auto
  then show ?thesis using True assms
    by (simp add: websocket_server_stop_def ws_lock_def ws_unlock_def Let_def table_off_def all_connecting_def image_iff)
qed (use assms in \<open>auto simp: websocket_server_stop_def\<close>)

lemma step_ok:
  assumes "table_off k s" "all_connecting (sv_clients s)" "\<not> is_handshake x"
  shows "\<exists>s' k'. ws_step x s = Done s' \<and> table_off k' s' \<and> all_connecting (sv_clients s') \<and> (x \<noteq> WS_Stop \<longrightarrow> k' = k)"
proof -
  have u: "\<not> sv_locked s" using assms(1) by (simp add: table_off_def)
  note quiet = broadcast_nobody [OF u assms(2)] send_refused [OF u assms(2)]
  show ?thesis
  proof (cases x)
    case (WS_Accept a b c now y)
    then show ?thesis using accept_ok [OF assms(1,2), of a b c now y] by auto
  next
    case (WS_Work e activity intr ready rd)
    then show ?thesis using worker_ok [OF assms(1,2)] assms by auto
  next
    case (WS_Ping_Turn now sent)
    then show ?thesis using ping_ok [OF assms(1,2)] by auto
  next
    case (WS_Kick i status reason)
    then show ?thesis using remove_ok [OF assms(1,2), of i status reason] assms(1,2) by (auto simp: websocket_close_client_def)
  next
    case (WS_Start ok)
    then show ?thesis using start_ok [OF assms(1,2)] by auto
  next
    case WS_Stop
    then show ?thesis using stop_ok [OF assms(1,2)] by auto
  next
    case (WS_Reset now)
    then show ?thesis using assms(1,2) by (auto simp: websocket_reset_stats_def table_off_def)
  next
    case (WS_Callbacks f)
    then show ?thesis using assms(1,2)
      by (auto simp: set_callbacks_def websocket_set_connect_callback_def websocket_set_message_callback_def
          websocket_set_close_callback_def websocket_set_error_callback_def websocket_set_binary_callback_def table_off_def)
  next
    case (WS_Send_Text sent i d)
    then show ?thesis using assms(1,2) quiet by (auto simp: websocket_send_text_def split: option.splits)
  next
    case (WS_Send_Binary sent i d)
    then show ?thesis using assms(1,2) quiet by (auto simp: websocket_send_binary_def split: option.splits)
  next
    case (WS_Broadcast_Text sent d)
    then show ?thesis using assms(1,2) quiet by (auto simp: websocket_broadcast_text_def split: option.splits)
  next
    case (WS_Broadcast_Binary sent d)
    then show ?thesis using assms(1,2) quiet by (auto simp: websocket_broadcast_binary_def split: option.splits)
  qed (use assms(3) in simp)
qed

lemma run_ok:
  assumes "table_off k s" "all_connecting (sv_clients s)" "\<forall>x \<in> set xs. \<not> is_handshake x"
  shows "\<exists>s' k'. ws_run xs s = Done s' \<and> table_off k' s' \<and> all_connecting (sv_clients s') \<and> (WS_Stop \<notin> set xs \<longrightarrow> k' = k)"
  using assms
proof (induction xs arbitrary: s k)
  case (Cons x xs)
  then obtain s1 k1 where "ws_step x s = Done s1" "table_off k1 s1" "all_connecting (sv_clients s1)" "x \<noteq> WS_Stop \<longrightarrow> k1 = k"
    using step_ok [OF Cons.prems(1,2), of x] by auto
  moreover from this Cons.IH [of k1 s1] Cons.prems(3) obtain s' k' where
    "ws_run xs s1 = Done s'" "table_off k' s'" "all_connecting (sv_clients s')" "WS_Stop \<notin> set xs \<longrightarrow> k' = k1" by auto
  ultimately show ?case by auto
qed auto

lemma create_ok:
  assumes "websocket_server_create ok now cfg = Some s"
  shows "table_off 0 s \<and> all_connecting (sv_clients s)"
  using assms by (auto simp: websocket_server_create_def table_off_def all_connecting_def Let_def split: if_splits)

text \<open>
  (C18) The worker asks \<open>select\<close> only about clients in state OPEN, but a client becomes OPEN only when the worker
  reads its handshake. So in every run of the accept, worker and ping threads and of the exported operations,
  whatever is accepted, read, pinged, timed out, sent, closed, stopped and started again, in which
  \<open>websocket_handshake\<close> is not called from outside (no code of the repository calls it), every operation
  returns and every client stays in state CONNECTING: a broadcast reaches nobody and a message to a client is
  refused. The table keeps its size and never holds more clients than the counter says; the counter is exact until
  the server is stopped, which empties the table and leaves the counter.
\<close>

theorem no_client_ever_opens:
  assumes "websocket_server_create ok now cfg = Some s" and "\<forall>x \<in> set xs. \<not> is_handshake x"
  shows "\<exists>s'. ws_run xs s = Done s' \<and> length (sv_clients s') = unat (wg_max_clients (sv_config s')) \<and>
    length (filter (\<lambda>x. x \<noteq> None) (sv_clients s')) \<le> unat (sv_client_count s') \<and> (WS_Stop \<notin> set xs \<longrightarrow> table_ok s') \<and>
    (\<forall>c. Some c \<in> set (sv_clients s') \<longrightarrow> wc_state c = WS_Connecting) \<and>
    send_to_client sent s' client_id opcode payload = Done (-1, [], s') \<and>
    broadcast bsent s' opcode payload = Done (0, s')"
proof -
  obtain s' k' where s': "ws_run xs s = Done s'" "table_off k' s'" "all_connecting (sv_clients s')" "WS_Stop \<notin> set xs \<longrightarrow> k' = 0"
    using run_ok create_ok [OF assms(1)] assms(2) by blast
  have "\<not> sv_locked s'" using s'(2) by (simp add: table_off_def)
  then have "send_to_client sent s' client_id opcode payload = Done (-1, [], s')"
    "broadcast bsent s' opcode payload = Done (0, s')"
    using send_refused broadcast_nobody s'(3) by auto
  then show ?thesis using s' by (intro exI [of _ s']) (auto simp: all_connecting_def table_ok_off table_off_def)
qed

lemma no_client_ever_opens_witness:
  "\<exists>s s'. websocket_server_create (\<lambda>_. True) 0 None = Some s \<and>
     ws_run [WS_Start (\<lambda>_. True), WS_Accept True True True 1 (Some (5, 1, 2)), WS_Kick 1 1000 None] s = Done s' \<and> table_ok s'"
proof -
  let ?xs = "[WS_Start (\<lambda>_. True), WS_Accept True True True 1 (Some (5, 1, 2)), WS_Kick 1 1000 None]"
  obtain s where s: "websocket_server_create (\<lambda>_. True) 0 None = Some s" by (simp add: websocket_server_create_def Let_def)
  have nh: "\<forall>x \<in> set ?xs. \<not> is_handshake x" by simp
  obtain s' where "ws_run ?xs s = Done s'" "WS_Stop \<notin> set ?xs \<longrightarrow> table_ok s'"
    using no_client_ever_opens [OF s nh, where sent = "\<lambda>_. 1" and client_id = 1 and opcode = WS_TEXT and payload = "[]" and bsent = "\<lambda>_ _. 1"]
    by (elim exE conjE) (rule that)
  moreover have "WS_Stop \<notin> set ?xs" by simp
  ultimately show ?thesis using s by blast
qed

section \<open>Close frames\<close>

text \<open>
  The close frame on every branch. A reason of 1 to 123 characters gives the well-formed close frame with
  the status code and the reason. Without a reason the frame announces two bytes of payload and
  stops before them; 124 characters make the length field 126, which announces an extended length; longer
  reasons overflow the array by one byte.
\<close>

theorem close_frame_cases:
  assumes "r = (case reason of None \<Rightarrow> [] | Some bs \<Rightarrow> cstr_bytes bs)"
  shows "(r = [] \<longrightarrow> close_frame status reason = Some [0x88, 0x02] \<and>
      websocket_parse_frame True [0x88, 0x02] = Some Parse_Incomplete) \<and>
    (1 \<le> length r \<and> length r \<le> 123 \<longrightarrow>
      close_frame status reason = Some (wire_frame True WS_CLOSE None (be_encode 2 (unat status) @ r))) \<and>
    (length r = 124 \<longrightarrow> (\<exists>f. close_frame status reason = Some f \<and> f ! 1 = 126)) \<and>
    (125 \<le> length r \<longrightarrow> close_frame status reason = None)"
proof (intro conjI impI)
  assume "r = []"
  then show "close_frame status reason = Some [0x88, 0x02]" using assms by (simp add: close_frame_def)
  have "frame_header_of True 0x88 0x02 = \<lparr>fh_fin = True, fh_opcode = 8, fh_mask = False, fh_len = 2\<rparr>"
    by (simp add: frame_header_of_def)
  then show "websocket_parse_frame True [0x88, 0x02] = Some Parse_Incomplete"
    by (simp add: websocket_parse_frame_def frame_length_def word_less_nat_alt)
next
  assume r: "1 \<le> length r \<and> length r \<le> 123"
  then have "r \<noteq> []" by auto
  moreover have "len7 (2 + length r) = of_nat (2 + length r)" "len_ext (2 + length r) = []"
    using r by (auto simp: len7_def len_ext_def)
  ultimately show "close_frame status reason = Some (wire_frame True WS_CLOSE None (be_encode 2 (unat status) @ r))"
    using assms r by (simp add: close_frame_def wire_frame_eq mask_bytes_def body_bytes_def Let_def)
next
  assume r: "length r = 124"
  then have "r \<noteq> []" by auto
  then show "\<exists>f. close_frame status reason = Some f \<and> f ! 1 = 126"
    using assms r by (simp add: close_frame_def Let_def)
next
  assume r: "125 \<le> length r"
  then have "r \<noteq> []" by auto
  then show "close_frame status reason = None" using assms r by (simp add: close_frame_def Let_def)
qed

lemma close_frame_cases_witness:
  "close_frame 1000 None = Some [0x88, 0x02] \<and>
   close_frame 1000 (Some [66, 121, 101]) = Some (wire_frame True WS_CLOSE None (be_encode 2 1000 @ [66, 121, 101])) \<and>
   close_frame 1000 (Some (replicate 200 65)) = None"
  using close_frame_cases [of "[]" None 1000] close_frame_cases [of "[66, 121, 101]" "Some [66, 121, 101]" 1000]
    close_frame_cases [of "replicate 200 65" "Some (replicate 200 65)" 1000]
  by (simp add: cstr_bytes_def)

section \<open>The client table mutex\<close>

text \<open>
  Removing a client from outside the worker is exact: the first client with the given number leaves the
  table, its descriptor is closed, the counters follow, and no other slot changes; an open client is sent
  the close frame. An unknown number changes nothing.
\<close>

theorem remove_client_exact:
  assumes "table_ok s" "\<And>c. Some c \<in> set (sv_clients s) \<Longrightarrow> wc_state c = WS_Open \<Longrightarrow> close_frame status reason = Some f"
  shows "\<exists>sent fds s'. remove_client s client_id status reason = Done (sent, fds, s') \<and> table_ok s' \<and>
    (case first_index (\<lambda>x. case x of None \<Rightarrow> False | Some c \<Rightarrow> wc_id c = client_id) (sv_clients s) of
       None \<Rightarrow> s' = s \<and> sent = [] \<and> fds = []
     | Some i \<Rightarrow> (\<exists>c. sv_clients s ! i = Some c \<and> wc_id c = client_id \<and> sv_clients s' = (sv_clients s)[i := None] \<and>
         sv_client_count s' = sv_client_count s - 1 \<and> fds = destroy_client (Some c) \<and>
         sent = (if wc_state c = WS_Open then [Send_Bytes f] else []) @
                (if cb_close (sv_callbacks s) then [On_Close status reason] else [])))"
proof -
  let ?P = "\<lambda>x. case x of None \<Rightarrow> False | Some c \<Rightarrow> wc_id c = client_id"
  have u: "\<not> sv_locked s" using assms(1) by (simp add: table_ok_def)
  have un: "s\<lparr>sv_locked := False\<rparr> = s" using u by simp
  show ?thesis
  proof (cases "first_index ?P (sv_clients s)")
    case None
    then show ?thesis using u un assms(1) by (simp add: remove_client_def ws_lock_def ws_unlock_def table_ok_def)
  next
    case (Some i)
    then obtain c where i: "i < length (sv_clients s)" "sv_clients s ! i = Some c" "wc_id c = client_id"
      using first_index_Some [OF Some] by (auto split: option.splits)
    have mem: "Some c \<in> set (sv_clients s)" using nth_mem [OF i(1)] i(2) by simp
    have cnt: "unat (sv_client_count s) = Suc (length (filter (\<lambda>x. x \<noteq> None) ((sv_clients s)[i := None])))"
      using assms(1) unfolding table_ok_def filter_update_None [OF i(1,2)] by blast
    then have "sv_client_count s \<noteq> 0" by auto
    then have "unat (sv_client_count s - 1) = length (filter (\<lambda>x. x \<noteq> None) ((sv_clients s)[i := None]))"
      using cnt by (simp add: unat_minus_one)
    then show ?thesis using Some u assms(1) i assms(2) [OF mem]
      by (cases "wc_state c = WS_Open")
        (simp_all add: remove_client_def ws_lock_def ws_unlock_def Let_def table_ok_def)
  qed
qed

definition demo_server :: ws_server where
  "demo_server = \<lparr>sv_config = websocket_get_default_config\<lparr>wg_max_clients := 2\<rparr>, sv_clients = [None, Some demo_client],
     sv_client_count = 1, sv_next_client_id = 2, sv_callbacks = no_callbacks\<lparr>cb_message := True\<rparr>,
     sv_stats = zero_ws_stats 0, sv_locked = False, sv_running = True, sv_shutdown_requested = False\<rparr>"

lemma demo_server_table: "table_ok demo_server"
  by (simp add: table_ok_def demo_server_def websocket_get_default_config_def)

lemma remove_client_exact_witness:
  "\<exists>fds s'. remove_client demo_server 1 1000 None = Done ([Send_Bytes [0x88, 0x02]], fds, s') \<and> table_ok s' \<and>
     sv_clients s' = [None, None]"
proof -
  have "close_frame 1000 None = Some [0x88, 0x02]" by (simp add: close_frame_def)
  from remove_client_exact [OF demo_server_table this, of 1] show ?thesis
    by (auto simp: demo_server_def demo_client_def no_callbacks_def)
qed

lemma serve_skip:
  assumes "\<forall>j \<in> set is. \<forall>d. sv_clients s ! j = Some d \<longrightarrow> wc_fd d \<notin> set ready"
  shows "serve_slots e ready rd (is @ js) s = serve_slots e ready rd js s"
  using assms by (induction "is") (auto split: option.splits)

text \<open>
  The mutex of the client table is held while \<open>remove_client\<close> takes it again. For an open client the first
  expired timeout found by \<open>check_client_timeout\<close>, and in the worker the end of its stream or a close
  frame, block the thread for ever.
\<close>

theorem worker_deadlocks_on_removal:
  assumes "table_ok s" "i < length (sv_clients s)" "sv_clients s ! i = Some c" "wc_state c = WS_Open"
    and "\<forall>j < length (sv_clients s). \<forall>d. j \<noteq> i \<and> sv_clients s ! j = Some d \<longrightarrow> wc_fd d \<noteq> wc_fd c"
  shows "(now - wc_last_activity c > ucast (wg_timeout (sv_config s) * 1000) \<longrightarrow> check_client_timeout now s = Deadlock) \<and>
    (rd i = Read_End \<longrightarrow> worker_turn e 1 intr [wc_fd c] rd s = Deadlock) \<and>
    (rd i = Read_Bytes (wire_frame True WS_CLOSE None []) \<and> we_msb e \<longrightarrow> worker_turn e 1 intr [wc_fd c] rd s = Deadlock)"
proof -
  have u: "\<not> sv_locked s" using assms(1) by (simp add: table_ok_def)
  let ?s = "s\<lparr>sv_locked := True\<rparr>"
  have rm: "remove_client t k st r = Deadlock" if "sv_locked t" for t k st r
    using that by (simp add: remove_client_def ws_lock_def)
  have t: "timeout_slots now T is q = Deadlock"
    if "i \<in> set is" "sv_locked q" "sv_clients q ! i = Some c" "now - wc_last_activity c > T" for "is" T q
    using that(1) by (induction "is") (auto simp: rm that assms(4) split: option.splits)
  have split: "[0..<length (sv_clients s)] = [0..<i] @ i # [Suc i..<length (sv_clients s)]"
    using assms(2) upt_add_eq_append [of 0 i "length (sv_clients s) - i"] by (simp add: upt_conv_Cons)
  have skip: "\<forall>j \<in> set [0..<i]. \<forall>d. sv_clients ?s ! j = Some d \<longrightarrow> wc_fd d \<notin> set [wc_fd c]"
  proof (intro ballI allI impI)
    fix j d assume "j \<in> set [0..<i]" "sv_clients ?s ! j = Some d"
    then show "wc_fd d \<notin> set [wc_fd c]" using assms(2) assms(5) [rule_format, of j d] by simp
  qed
  have w: "wc_fd c \<in> set (watched ?s)"
  proof -
    have "Some c \<in> set (sv_clients s)" using nth_mem [OF assms(2)] assms(3) by simp
    then show ?thesis using assms(4) by (auto simp: watched_def List.map_filter_def intro!: image_eqI [of _ _ "Some c"])
  qed
  have turn: "worker_turn e 1 intr [wc_fd c] rd s = obind (obind (serve_client e i c (rd i) ?s)
      (serve_slots e [wc_fd c] rd [Suc i..<length (sv_clients s)])) (\<lambda>s4. Done (ws_unlock s4))"
    using u w assms(3) by (simp add: worker_turn_def ws_lock_def ws_unlock_def split serve_skip [OF skip] Let_def)
  have p: "process_websocket_frame True m cb now' ok (wire_frame True WS_CLOSE None []) d = (0, d, [Remove_Client 1000 []])" for m cb now' ok d
    using process_frag [of None "[]" m cb now' ok True WS_CLOSE d] by (simp add: mask_ok_def handle_frame_def close_reason_def)
  show ?thesis
  proof (intro conjI impI)
    assume "now - wc_last_activity c > ucast (wg_timeout (sv_config s) * 1000)"
    then show "check_client_timeout now s = Deadlock"
      using u t [of "[0..<length (sv_clients s)]" ?s] assms(2,3) by (simp add: check_client_timeout_def ws_lock_def)
  next
    assume "rd i = Read_End"
    then show "worker_turn e 1 intr [wc_fd c] rd s = Deadlock" unfolding turn by (simp add: serve_client_def rm)
  next
    assume "rd i = Read_Bytes (wire_frame True WS_CLOSE None []) \<and> we_msb e"
    then show "worker_turn e 1 intr [wc_fd c] rd s = Deadlock" unfolding turn
      using assms(4) by (simp add: serve_client_def p run_events_def rm Let_def)
  qed
qed

lemma worker_deadlocks_on_removal_witness:
  "worker_turn \<lparr>we_msb = True, we_now = 0, we_digest = id, we_sent = True, we_alloc = True\<rparr> 1 False [5] (\<lambda>_. Read_End) demo_server = Deadlock"
proof -
  have d: "1 < length (sv_clients demo_server)" "sv_clients demo_server ! 1 = Some demo_client" "wc_state demo_client = WS_Open"
    "wc_fd demo_client = 5"
    "\<forall>j < length (sv_clients demo_server). \<forall>d. j \<noteq> 1 \<and> sv_clients demo_server ! j = Some d \<longrightarrow> wc_fd d \<noteq> wc_fd demo_client"
    by (auto simp: demo_server_def demo_client_def less_Suc_eq)
  show ?thesis using worker_deadlocks_on_removal [OF demo_server_table d(1-3,5), of _ "\<lambda>_. Read_End"] d(4) by simp
qed

text \<open>A server that has been stopped can be started again, but its threads end at once, because the request
  to shut down is never withdrawn; and the stopped clients stay counted.\<close>

lemma restart_is_dead:
  assumes "table_ok s" "sv_running s" "\<forall>i. ok i"
  shows "\<exists>fds s1 s2. websocket_server_stop (Some s) = Done (0, fds, Some s1) \<and>
    websocket_server_start ok (Some s1) = (0, Some s2) \<and> sv_running s2 \<and> \<not> loop_enabled s2 \<and>
    sv_client_count s2 = sv_client_count s"
  using assms by (simp add: websocket_server_stop_def websocket_server_start_def ws_lock_def ws_unlock_def Let_def
      loop_enabled_def table_ok_def)

end
