(* ===== verification/Auth_Checks.thy ===== *)
theory Auth_Checks
  imports Codec
begin

text \<open>
  The parts of \<open>server/src/auth.c\<close> that do not touch the database: the checks of user names, addresses and
  passwords, password hashing, and the two kinds of tokens with the check of their signature.
  PBKDF2 and HMAC come from OpenSSL and are function arguments, \<open>None\<close> when the library reports a failure:
  \<open>pbkdf2 password salt\<close> is the 64-byte hash, \<open>hmac key text\<close> the 32-byte code. Bytes drawn from the random
  source are arguments too.
\<close>

section \<open>Error codes\<close>

datatype auth_error = AUTH_SUCCESS | AUTH_INVALID_CREDENTIALS | AUTH_ACCOUNT_LOCKED | AUTH_ACCOUNT_DISABLED
  | AUTH_SESSION_EXPIRED | AUTH_INVALID_TOKEN | AUTH_TOKEN_EXPIRED | AUTH_PERMISSION_DENIED
  | AUTH_RATE_LIMIT_EXCEEDED | AUTH_IP_BLOCKED | AUTH_2FA_REQUIRED | AUTH_PASSWORD_TOO_WEAK
  | AUTH_PASSWORD_REUSE_NOT_ALLOWED | AUTH_INVALID_2FA_CODE

definition auth_error_to_string :: "auth_error \<Rightarrow> string" where
  "auth_error_to_string e =
     (case e of AUTH_SUCCESS \<Rightarrow> ''Success'' | AUTH_INVALID_CREDENTIALS \<Rightarrow> ''Invalid credentials''
      | AUTH_ACCOUNT_LOCKED \<Rightarrow> ''Account locked'' | AUTH_ACCOUNT_DISABLED \<Rightarrow> ''Account disabled''
      | AUTH_SESSION_EXPIRED \<Rightarrow> ''Session expired'' | AUTH_INVALID_TOKEN \<Rightarrow> ''Invalid token''
      | AUTH_TOKEN_EXPIRED \<Rightarrow> ''Token expired'' | AUTH_PERMISSION_DENIED \<Rightarrow> ''Permission denied''
      | AUTH_RATE_LIMIT_EXCEEDED \<Rightarrow> ''Rate limit exceeded'' | AUTH_IP_BLOCKED \<Rightarrow> ''IP blocked''
      | AUTH_2FA_REQUIRED \<Rightarrow> ''Two-factor authentication required'' | AUTH_PASSWORD_TOO_WEAK \<Rightarrow> ''Password too weak''
      | AUTH_PASSWORD_REUSE_NOT_ALLOWED \<Rightarrow> ''Password reuse not allowed'' | AUTH_INVALID_2FA_CODE \<Rightarrow> ''Invalid 2FA code'')"

section \<open>User names and addresses\<close>

definition auth_validate_username :: "string option \<Rightarrow> bool" where
  "auth_validate_username username =
     (case username of None \<Rightarrow> False
      | Some u \<Rightarrow>
          if length u < 3 \<or> length u \<ge> 64 then False
          else list_all (\<lambda>c. isalnum c \<or> c = CHR ''_'' \<or> c = CHR ''-'') u)"

text \<open>The loop over an address of \<open>n\<close> characters from position \<open>i\<close>: the number of at signs and whether a dot
  follows one; \<open>None\<close> is the early return.\<close>

fun email_scan :: "nat \<Rightarrow> nat \<Rightarrow> string \<Rightarrow> nat \<Rightarrow> bool \<Rightarrow> (nat \<times> bool) option" where
  "email_scan n i [] at_count dot_after_at = Some (at_count, dot_after_at)"
| "email_scan n i (c # cs) at_count dot_after_at =
     (if c = CHR ''@'' then
        (if i = 0 \<or> i = n - 1 then None else email_scan n (Suc i) cs (at_count + 1) dot_after_at)
      else if c = CHR ''.'' \<and> at_count > 0 then email_scan n (Suc i) cs at_count True
      else email_scan n (Suc i) cs at_count dot_after_at)"

definition auth_validate_email :: "string option \<Rightarrow> bool" where
  "auth_validate_email email =
     (case email of None \<Rightarrow> False
      | Some s \<Rightarrow>
          if length s < 3 \<or> length s \<ge> 128 then False
          else (case email_scan (length s) 0 s 0 False of None \<Rightarrow> False
                | Some (at_count, dot_after_at) \<Rightarrow> at_count = 1 \<and> dot_after_at))"

section \<open>Passwords\<close>

text \<open>The flags \<open>has_upper\<close>, \<open>has_lower\<close>, \<open>has_digit\<close>, \<open>has_special\<close> after the loop.\<close>

fun password_classes :: "string \<Rightarrow> bool \<times> bool \<times> bool \<times> bool \<Rightarrow> bool \<times> bool \<times> bool \<times> bool" where
  "password_classes [] fl = fl"
| "password_classes (c # cs) (u, l, d, s) =
     password_classes cs
       (if isupper c then (True, l, d, s) else if islower c then (u, True, d, s)
        else if isdigit c then (u, l, True, s) else (u, l, d, True))"

definition weak_passwords :: "string list" where
  "weak_passwords = [''password'', ''123456'', ''qwerty'', ''admin'', ''welcome'', ''password123'', ''admin123'',
     ''12345678'', ''123456789'']"

definition check_password_strength :: "string option \<Rightarrow> auth_error" where
  "check_password_strength password =
     (case password of None \<Rightarrow> AUTH_INVALID_CREDENTIALS
      | Some p \<Rightarrow>
          if length p < 8 then AUTH_PASSWORD_TOO_WEAK
          else if length p > 128 then AUTH_PASSWORD_TOO_WEAK
          else
            (case password_classes p (False, False, False, False) of (u, l, d, s) \<Rightarrow>
              if (of_bool u + of_bool l + of_bool d + of_bool s :: nat) < 3 then AUTH_PASSWORD_TOO_WEAK
              else if list_ex (strcasecmp_eq p) weak_passwords then AUTH_PASSWORD_TOO_WEAK
              else AUTH_SUCCESS))"

text \<open>The error code, the length stored through \<open>hash_length\<close> and the hash; \<open>None\<close>: left as it was.\<close>

definition auth_generate_password_hash :: "(string \<Rightarrow> byte list \<Rightarrow> byte list option) \<Rightarrow> string \<Rightarrow> byte list \<Rightarrow>
    auth_error \<times> nat option \<times> byte list option" where
  "auth_generate_password_hash pbkdf2 password salt =
     (let strength = check_password_strength (Some password) in
      if strength \<noteq> AUTH_SUCCESS then (strength, None, None)
      else (case pbkdf2 password salt of
              None \<Rightarrow> (AUTH_INVALID_CREDENTIALS, Some 64, None)
            | Some h \<Rightarrow> (AUTH_SUCCESS, Some 64, Some h)))"

definition auth_verify_password :: "(string \<Rightarrow> byte list \<Rightarrow> byte list option) \<Rightarrow> string \<Rightarrow> byte list \<Rightarrow> byte list \<Rightarrow> bool" where
  "auth_verify_password pbkdf2 password salt stored_hash =
     (if length stored_hash = 0 then False
      else (case pbkdf2 password salt of None \<Rightarrow> False
            | Some h \<Rightarrow> if 64 \<noteq> length stored_hash then False else h = stored_hash))"

section \<open>Tokens\<close>

text \<open>\<open>len\<close> is the size of the buffer, its last byte the terminator.\<close>

definition auth_generate_random_token :: "byte list \<Rightarrow> nat \<Rightarrow> string" where
  "auth_generate_random_token random len =
     map (\<lambda>b. ''abcdefghijklmnopqrstuvwxyzABCDEFGHIJKLMNOPQRSTUVWXYZ0123456789'' ! (unat b mod 62)) (take (len - 1) random)"

text \<open>\<open>strncat(buf, s, n - strlen(buf) - 1)\<close> on a buffer of \<open>n\<close> bytes.\<close>

definition strncat_room :: "nat \<Rightarrow> string \<Rightarrow> string \<Rightarrow> string" where
  "strncat_room n buf s = buf @ take (n - length buf - 1) s"

definition access_payload :: "nat \<Rightarrow> string \<Rightarrow> int \<Rightarrow> string \<Rightarrow> string" where
  "access_payload user_id client_ip now jti =
     (let q = [CHR 0x22];
          payload = snprintf 512 (''{'' @ q @ ''user_id'' @ q @ '':'' @ dec_nat user_id @ '','' @ q @ ''ip'' @ q @ '':'' @ q @ client_ip @ q @
            '','' @ q @ ''type'' @ q @ '':'' @ q @ ''access'' @ q @ '','' @ q @ ''iat'' @ q @ '':'' @ dec_int now @
            '','' @ q @ ''exp'' @ q @ '':'' @ dec_int (now + 3600) @ '','' @ q @ ''jti'' @ q @ '':'' @ q)
      in strncat_room 512 (strncat_room 512 payload jti) (q @ ''}''))"

text \<open>The prefix and the hexadecimal signature in a buffer of \<open>AUTH_TOKEN_LENGTH\<close> = 64 bytes.\<close>

definition token_text :: "string \<Rightarrow> nat \<Rightarrow> int \<Rightarrow> byte list \<Rightarrow> string" where
  "token_text kind user_id expires_at sig =
     strncat_room 64 (snprintf 64 (kind @ dec_nat user_id @ ''_'' @ dec_int expires_at @ ''_''))
       (concat (map hex02 (take 32 sig)))"

definition generate_access_token :: "(byte list \<Rightarrow> string \<Rightarrow> byte list option) \<Rightarrow> byte list \<Rightarrow> int \<Rightarrow> byte list \<Rightarrow> nat \<Rightarrow> string \<Rightarrow> string option" where
  "generate_access_token hmac key now random user_id client_ip =
     (case hmac key (access_payload user_id client_ip now (auth_generate_random_token random 33)) of
        None \<Rightarrow> None
      | Some sig \<Rightarrow> Some (token_text ''AT_'' user_id (now + 3600) sig))"

definition generate_refresh_token :: "(byte list \<Rightarrow> string \<Rightarrow> byte list option) \<Rightarrow> byte list \<Rightarrow> int \<Rightarrow> nat \<Rightarrow> string \<Rightarrow> string option" where
  "generate_refresh_token hmac key now user_id client_ip =
     (let expires_at = now + 604800 in
      case hmac key (snprintf 256 (dec_nat user_id @ '':'' @ client_ip @ '':'' @ dec_int expires_at @ '':refresh'')) of
        None \<Rightarrow> None
      | Some sig \<Rightarrow> Some (token_text ''RT_'' user_id expires_at sig))"

text \<open>The comparison of a signature. \<open>junk\<close> is what the buffer for the computed code holds when HMAC fails,
  which is not checked; a null context is dereferenced for the key.\<close>

definition validate_token_signature :: "(byte list \<Rightarrow> string \<Rightarrow> byte list option) \<Rightarrow> byte list \<Rightarrow> byte list option \<Rightarrow> string \<Rightarrow> bool outcome" where
  "validate_token_signature hmac junk key token =
     (if length token < 64 then Done False
      else (case strrchr token (CHR ''_'') of None \<Rightarrow> Done False
        | Some payload_len \<Rightarrow>
            let signature_hex = drop (payload_len + 1) token in
            if length signature_hex \<noteq> 64 then Done False
            else if payload_len \<ge> 512 then Done False
            else (case key of None \<Rightarrow> Undefined_Behaviour
              | Some k \<Rightarrow>
                  let computed = (case hmac k (take payload_len token) of None \<Rightarrow> take 32 junk | Some h \<Rightarrow> take 32 h);
                      stored = map (\<lambda>i. word_of_int (strtoul16 (take 2 (drop (2 * i) signature_hex)))) [0..<32]
                  in Done (computed = stored))))"

section \<open>What the checks accept\<close>

lemma classes_exact:
  "password_classes p (u, l, d, s) =
     (u \<or> (\<exists>c \<in> set p. isupper c), l \<or> (\<exists>c \<in> set p. islower c), d \<or> (\<exists>c \<in> set p. isdigit c),
      s \<or> (\<exists>c \<in> set p. \<not> isalnum c))"
proof (induction p arbitrary: u l d s)
  case (Cons c p)
  have "isupper c \<Longrightarrow> \<not> islower c \<and> \<not> isdigit c" "islower c \<Longrightarrow> \<not> isdigit c"
    by (auto simp: isupper_def islower_def isdigit_def)
  then show ?case by (auto simp: Cons.IH isalnum_def isalpha_def)
qed simp

lemma scan_no_at:
  assumes "CHR ''@'' \<notin> set s" "a > 0"
  shows "email_scan n i s a b = Some (a, b \<or> CHR ''.'' \<in> set s)"
  using assms by (induction s arbitrary: i b) auto

lemma scan_before:
  assumes "CHR ''@'' \<notin> set s"
  shows "email_scan n i (s @ t) 0 b = email_scan n (i + length s) t 0 b"
  using assms by (induction s arbitrary: i) auto

lemma scan_count: "email_scan n i s a b = Some (k, d) \<Longrightarrow> k = a + count_list s (CHR ''@'')"
  by (induction s arbitrary: i a b) (fastforce split: if_splits)+

text \<open>
  The address check is exact: it accepts an address of 3 to 127 characters iff it has a single at sign with
  something on both sides and a dot behind it.
\<close>

theorem validate_email_exact:
  "auth_validate_email (Some s) \<longleftrightarrow>
     3 \<le> length s \<and> length s < 128 \<and>
     (\<exists>name host. s = name @ ''@'' @ host \<and> name \<noteq> [] \<and> host \<noteq> [] \<and> CHR ''@'' \<notin> set name \<and> CHR ''@'' \<notin> set host \<and>
        CHR ''.'' \<in> set host)"
proof (cases "3 \<le> length s \<and> length s < 128")
  case len: True
  have split: "auth_validate_email (Some s) \<longleftrightarrow> (\<exists>d. email_scan (length s) 0 s 0 False = Some (1, d) \<and> d)"
    using len by (auto simp: auth_validate_email_def split: option.splits)
  show ?thesis
  proof (cases "CHR ''@'' \<in> set s")
    case False
    then have "email_scan (length s) 0 s 0 False \<noteq> Some (1, d)" for d
      using scan_count [of "length s" 0 s 0 False 1 d] by (auto simp: count_list_0_iff [THEN iffD2])
    with False show ?thesis unfolding split by auto
  next
    case True
    then obtain name host where s: "s = name @ CHR ''@'' # host" "CHR ''@'' \<notin> set name"
      using split_list_first by fastforce
    have uniq: "(\<exists>n h. s = n @ ''@'' @ h \<and> n \<noteq> [] \<and> h \<noteq> [] \<and> CHR ''@'' \<notin> set n \<and> CHR ''@'' \<notin> set h \<and> CHR ''.'' \<in> set h) \<longleftrightarrow>
        name \<noteq> [] \<and> host \<noteq> [] \<and> CHR ''@'' \<notin> set host \<and> CHR ''.'' \<in> set host"
    proof
      assume "\<exists>n h. s = n @ ''@'' @ h \<and> n \<noteq> [] \<and> h \<noteq> [] \<and> CHR ''@'' \<notin> set n \<and> CHR ''@'' \<notin> set h \<and> CHR ''.'' \<in> set h"
      then obtain n h where n: "s = n @ CHR ''@'' # h" "n \<noteq> []" "h \<noteq> []" "CHR ''@'' \<notin> set n" "CHR ''@'' \<notin> set h" "CHR ''.'' \<in> set h"
        by auto
      have "takeWhile (\<lambda>c. c \<noteq> CHR ''@'') s = n" unfolding n(1) using n(4) by (subst takeWhile_append2) auto
      moreover have "takeWhile (\<lambda>c. c \<noteq> CHR ''@'') s = name" unfolding s(1) using s(2) by (subst takeWhile_append2) auto
      ultimately have "n = name" by simp
      then have "h = host" using n(1) s(1) by simp
      then show "name \<noteq> [] \<and> host \<noteq> [] \<and> CHR ''@'' \<notin> set host \<and> CHR ''.'' \<in> set host" using n \<open>n = name\<close> by simp
    next
      assume "name \<noteq> [] \<and> host \<noteq> [] \<and> CHR ''@'' \<notin> set host \<and> CHR ''.'' \<in> set host"
      then show "\<exists>n h. s = n @ ''@'' @ h \<and> n \<noteq> [] \<and> h \<noteq> [] \<and> CHR ''@'' \<notin> set n \<and> CHR ''@'' \<notin> set h \<and> CHR ''.'' \<in> set h"
        using s by auto
    qed
    have scan: "email_scan (length s) 0 s 0 False =
        (if name = [] \<or> host = [] then None else email_scan (length s) (Suc (length name)) host 1 False)"
      unfolding s(1) using scan_before [OF s(2)] by (cases host) auto
    show ?thesis
    proof (cases "CHR ''@'' \<in> set host")
      case at: True
      have "email_scan (length s) (Suc (length name)) host 1 False \<noteq> Some (1, d)" for d
        using scan_count [of "length s" "Suc (length name)" host 1 False 1 d] at by (auto simp: count_list_0_iff)
      then show ?thesis unfolding split uniq scan using at by auto
    next
      case False
      then show ?thesis unfolding split uniq scan using scan_no_at [OF False, of 1 "length s"] len by auto
    qed
  qed
qed (auto simp: auth_validate_email_def)

text \<open>
  The password check is exact: it accepts a password of 8 to 128 characters iff at least three of the four
  classes (upper case, lower case, digits, anything else) occur and it is none of the listed weak
  passwords in any capitalisation.
\<close>

theorem password_strength_exact:
  "check_password_strength (Some p) = AUTH_SUCCESS \<longleftrightarrow>
     8 \<le> length p \<and> length p \<le> 128 \<and>
     card {k. (k = (0::nat) \<and> (\<exists>c \<in> set p. isupper c)) \<or> (k = 1 \<and> (\<exists>c \<in> set p. islower c)) \<or>
              (k = 2 \<and> (\<exists>c \<in> set p. isdigit c)) \<or> (k = 3 \<and> (\<exists>c \<in> set p. \<not> isalnum c))} \<ge> 3 \<and>
     map tolower p \<notin> map tolower ` set weak_passwords"
proof -
  define u l d s where "u \<longleftrightarrow> (\<exists>c \<in> set p. isupper c)" and "l \<longleftrightarrow> (\<exists>c \<in> set p. islower c)"
    and "d \<longleftrightarrow> (\<exists>c \<in> set p. isdigit c)" and "s \<longleftrightarrow> (\<exists>c \<in> set p. \<not> isalnum c)"
  have "{k. (k = (0::nat) \<and> u) \<or> (k = 1 \<and> l) \<or> (k = 2 \<and> d) \<or> (k = 3 \<and> s)} =
      (if u then {0} else {}) \<union> (if l then {1} else {}) \<union> (if d then {2} else {}) \<union> (if s then {3} else {})" by auto
  then have "card {k. (k = (0::nat) \<and> u) \<or> (k = 1 \<and> l) \<or> (k = 2 \<and> d) \<or> (k = 3 \<and> s)} =
      of_bool u + of_bool l + of_bool d + of_bool s"
    by (cases u; cases l; cases d; cases s; simp)
  moreover have "password_classes p (False, False, False, False) = (u, l, d, s)"
    by (simp add: classes_exact u_def l_def d_def s_def)
  ultimately show ?thesis unfolding u_def [symmetric] l_def [symmetric] d_def [symmetric] s_def [symmetric]
    by (auto simp: check_password_strength_def strcasecmp_eq_def list_ex_iff)
qed

section \<open>Lengths of tokens\<close>

lemma token_length: "length (token_text kind user_id expires_at sig) \<le> 63"
proof -
  have "length (strncat_room 64 (snprintf 64 a) b) \<le> 63" for a b
    unfolding strncat_room_def snprintf_def length_append length_take by arith
  then show ?thesis unfolding token_text_def .
qed

lemma access_token_length: "generate_access_token hmac key now random user_id ip = Some t \<Longrightarrow> length t \<le> 63"
  by (auto simp: generate_access_token_def token_length split: option.splits)

lemma refresh_token_length: "generate_refresh_token hmac key now user_id ip = Some t \<Longrightarrow> length t \<le> 63"
  by (auto simp: generate_refresh_token_def token_length Let_def split: option.splits)

lemma short_token_refused: "length t \<le> 63 \<Longrightarrow> validate_token_signature hmac junk key t = Done False"
  by (simp add: validate_token_signature_def)

text \<open>The password of the default administrator is on the list of weak passwords.\<close>

lemma admin_password_weak: "check_password_strength (Some ''admin123'') = AUTH_PASSWORD_TOO_WEAK"
  by (simp add: check_password_strength_def isupper_def islower_def isdigit_def code_def)

end
