(* ===== verification/Sql_Table.thy ===== *)
theory Sql_Table
  imports Chat_Prelude
begin

text \<open>
  Tables of the embedded database as lists of rows in the order of their row numbers, as far as the statements in
  the sources go: inserting under UNIQUE constraints, updating, deleting and counting the rows that satisfy
  a condition. SQLite itself is not modelled; how each statement answered is an argument.
\<close>

text \<open>The compilation of a statement fails, its execution fails, or it is carried out.\<close>

datatype sql_answer = Sql_Prepare_Error | Sql_Step_Error | Sql_Done

definition sql_update :: "('r \<Rightarrow> bool) \<Rightarrow> ('r \<Rightarrow> 'r) \<Rightarrow> 'r list \<Rightarrow> 'r list" where
  "sql_update p f rows = map (\<lambda>r. if p r then f r else r) rows"

definition sql_count :: "('r \<Rightarrow> bool) \<Rightarrow> 'r list \<Rightarrow> nat" where
  "sql_count p rows = length (filter p rows)"

lemma in_sql_update: "r \<in> set (sql_update p f rows) \<longleftrightarrow> (\<exists>q \<in> set rows. r = (if p q then f q else q))"
  by (auto simp: sql_update_def)

lemma sql_update_id: "(\<And>r. r \<in> set rows \<Longrightarrow> p r \<Longrightarrow> f r = r) \<Longrightarrow> sql_update p f rows = rows"
  by (induction rows) (auto simp: sql_update_def)

lemma length_sql_update [simp]: "length (sql_update p f rows) = length rows"
  by (simp add: sql_update_def)

lemma find_update:
  assumes "distinct (map key rows)" "r \<in> set rows" "\<And>q. key (f q) = key q"
  shows "find (\<lambda>q. key q = key r) (sql_update (\<lambda>q. key q = key r) f rows) = Some (f r)"
  using assms by (induction rows) (auto simp: sql_update_def image_iff)

text \<open>What a column declared UNIQUE promises of the insertion into its table, and what follows.\<close>

locale unique_column =
  fixes ins :: "'r \<Rightarrow> 'r list \<Rightarrow> 'r list option" and key :: "'r \<Rightarrow> 'k"
  assumes ins_appends: "ins r rows = Some rows' \<Longrightarrow> rows' = rows @ [r]"
    and ins_fresh: "ins r rows = Some rows' \<Longrightarrow> key r \<notin> key ` set rows"
begin

lemma distinct_ins: "distinct (map key rows) \<Longrightarrow> ins r rows = Some rows' \<Longrightarrow> distinct (map key rows')"
  using ins_appends ins_fresh by fastforce

lemma distinct_update:
  "distinct (map key rows) \<Longrightarrow> (\<And>r. key (f r) = key r) \<Longrightarrow> distinct (map key (sql_update p f rows))"
  by (simp add: sql_update_def if_distrib [of key] comp_def cong: if_cong)

lemma unique_row: "distinct (map key rows) \<Longrightarrow> r \<in> set rows \<Longrightarrow> q \<in> set rows \<Longrightarrow> key r = key q \<Longrightarrow> r = q"
  by (auto simp: distinct_map inj_on_def)

lemma find_row: "distinct (map key rows) \<Longrightarrow> r \<in> set rows \<Longrightarrow> find (\<lambda>q. key q = key r) rows = Some r"
  by (induction rows) (auto simp: image_iff)

end

end
