(* ===== verification/Auth.thy ===== *)
theory Auth
  imports Auth_Checks Sql_Table
begin

text \<open>
  Accounts and sessions, \<open>server/src/auth.c\<close>: the context behind \<open>g_auth_ctx\<close>, initialisation with the default
  administrator, registration, login with rate limiting and lockout, tokens, sessions, logout and
  the counters.

  The tables \<open>users\<close>, \<open>sessions\<close> and \<open>security_logs\<close> are lists of rows; the statements of the source are read
  as the operations of \<open>Sql_Table\<close>. \<open>db_mutex\<close> is a part of the state, because \<open>auth_log_security_event\<close> takes it
  in a caller that holds it. An environment says how the clock, the statements and the random source
  answer the calls of an operation, in their order; \<open>later k\<close> skips the first \<open>k\<close> answers. Callbacks are recorded.
  What an out-parameter holds after a failure is not modelled. \<open>auth_validate_password\<close> is declared in
  \<open>auth.h\<close> and defined nowhere: it is an argument.
\<close>

section \<open>State\<close>

record auth_row =
  u_id :: nat
  u_username :: string
  u_nickname :: string
  u_email :: string
  u_hash :: "byte list"
  u_salt :: "byte list"
  u_attempts :: "32 word"
  u_last_attempt :: int
  u_locked_until :: int
  u_created :: int
  u_updated :: int
  u_active :: bool
  u_verified :: bool
  u_admin :: bool
  u_last_login :: int
  u_last_ip :: "string option"

record session_row =
  s_id :: nat
  s_user :: nat
  s_access :: string
  s_refresh :: string
  s_ip :: string
  s_agent :: "string option"
  s_created :: int
  s_expires :: int
  s_refresh_expires :: int
  s_valid :: bool

record log_row =
  l_user :: "nat option"
  l_event :: string
  l_details :: string
  l_ip :: string
  l_at :: int

record auth_ctx =
  ac_secret :: string
  ac_key :: "byte list"
  ac_users :: "auth_row list"
  ac_sessions :: "session_row list"
  ac_logs :: "log_row list"
  ac_next_user :: nat
  ac_next_session :: nat
  ac_locked :: bool
  ac_callback :: bool
  ac_events :: "(nat \<times> string \<times> string) list"

record auth_env =
  ae_clock :: "nat \<Rightarrow> int"
  ae_sql :: "nat \<Rightarrow> sql_answer"
  ae_random :: "nat \<Rightarrow> byte list"
  ae_salt :: "byte list"

definition later :: "nat \<Rightarrow> auth_env \<Rightarrow> auth_env" where
  "later k e = \<lparr>ae_clock = (\<lambda>n. ae_clock e (k + n)), ae_sql = (\<lambda>n. ae_sql e (k + n)),
     ae_random = (\<lambda>n. ae_random e (k + n)), ae_salt = ae_salt e\<rparr>"

lemma later_simps [simp]:
  "ae_clock (later k e) n = ae_clock e (k + n)" "ae_sql (later k e) n = ae_sql e (k + n)"
  "ae_random (later k e) n = ae_random e (k + n)" "ae_salt (later k e) = ae_salt e"
  by (simp_all add: later_def)

definition auth_lock :: "auth_ctx \<Rightarrow> auth_ctx outcome" where
  "auth_lock c = (if ac_locked c then Deadlock else Done (c\<lparr>ac_locked := True\<rparr>))"

definition auth_unlock :: "auth_ctx \<Rightarrow> auth_ctx" where
  "auth_unlock c = c\<lparr>ac_locked := False\<rparr>"

definition auth_event :: "nat \<Rightarrow> string \<Rightarrow> string \<Rightarrow> auth_ctx \<Rightarrow> auth_ctx" where
  "auth_event user_id event data c =
     (if ac_callback c then c\<lparr>ac_events := ac_events c @ [(user_id, event, data)]\<rparr> else c)"

section \<open>Insertion\<close>

text \<open>\<open>username TEXT UNIQUE\<close> and \<open>email TEXT UNIQUE\<close>; \<open>access_token\<close> and \<open>refresh_token\<close> are UNIQUE and the user must exist.\<close>

definition insert_user :: "auth_row \<Rightarrow> auth_row list \<Rightarrow> auth_row list option" where
  "insert_user u rows =
     (if list_ex (\<lambda>r. u_username r = u_username u \<or> u_email r = u_email u) rows then None else Some (rows @ [u]))"

definition insert_session :: "auth_row list \<Rightarrow> session_row \<Rightarrow> session_row list \<Rightarrow> session_row list option" where
  "insert_session users s rows =
     (if list_ex (\<lambda>r. s_access r = s_access s \<or> s_refresh r = s_refresh s) rows then None
      else if \<not> list_ex (\<lambda>u. u_id u = s_user s) users then None
      else Some (rows @ [s]))"

interpretation username: unique_column insert_user u_username
  by unfold_locales (auto simp: insert_user_def list_ex_iff split: if_splits)

interpretation email: unique_column insert_user u_email
  by unfold_locales (auto simp: insert_user_def list_ex_iff split: if_splits)

interpretation access: unique_column "insert_session users" s_access for users
  by unfold_locales (auto simp: insert_session_def list_ex_iff split: if_splits)

interpretation refresh: unique_column "insert_session users" s_refresh for users
  by unfold_locales (auto simp: insert_session_def list_ex_iff split: if_splits)

section \<open>Logging and rate limiting\<close>

definition attempt_row :: "auth_env \<Rightarrow> nat \<Rightarrow> string \<Rightarrow> bool \<Rightarrow> string option \<Rightarrow> log_row" where
  "attempt_row e user_id client_ip success reason =
     \<lparr>l_user = (if user_id = 0 then None else Some user_id),
      l_event = (if success then ''LOGIN_SUCCESS'' else ''LOGIN_FAILED''),
      l_details = snprintf 512 ((if success then ''Successful login'' else ''Failed login'') @ '': '' @
        (case reason of Some r \<Rightarrow> r | None \<Rightarrow> ''Unknown'')),
      l_ip = client_ip, l_at = ae_clock e 0\<rparr>"

definition log_attempt :: "auth_env \<Rightarrow> nat \<Rightarrow> string \<Rightarrow> bool \<Rightarrow> string option \<Rightarrow> auth_ctx \<Rightarrow> (auth_error \<times> auth_ctx) outcome" where
  "log_attempt e user_id client_ip success reason c =
     obind (auth_lock c) (\<lambda>c1.
       case ae_sql e 0 of
         Sql_Prepare_Error \<Rightarrow> Done (AUTH_INVALID_CREDENTIALS, auth_unlock c1)
       | Sql_Step_Error \<Rightarrow> Done (AUTH_INVALID_CREDENTIALS, auth_unlock c1)
       | Sql_Done \<Rightarrow>
           Done (AUTH_SUCCESS, auth_unlock (c1\<lparr>ac_logs := ac_logs c1 @ [attempt_row e user_id client_ip success reason]\<rparr>)))"

definition auth_log_security_event :: "auth_env \<Rightarrow> auth_ctx option \<Rightarrow> nat \<Rightarrow> string option \<Rightarrow> string option \<Rightarrow> string \<Rightarrow>
    (auth_error \<times> auth_ctx option) outcome" where
  "auth_log_security_event e g user_id event_type details client_ip =
     (case g of None \<Rightarrow> Done (AUTH_INVALID_CREDENTIALS, None)
      | Some c \<Rightarrow> obind (log_attempt e user_id client_ip True details c) (\<lambda>(r, c'). Done (r, Some c')))"

definition recent_failure :: "int \<Rightarrow> log_row \<Rightarrow> bool" where
  "recent_failure one_hour_ago l \<longleftrightarrow> l_event l = ''LOGIN_FAILED'' \<and> l_at l > one_hour_ago"

definition ip_failures :: "int \<Rightarrow> string \<Rightarrow> auth_ctx \<Rightarrow> nat" where
  "ip_failures one_hour_ago client_ip c = sql_count (\<lambda>l. l_ip l = client_ip \<and> recent_failure one_hour_ago l) (ac_logs c)"

text \<open>The join of \<open>security_logs\<close> with \<open>users\<close>.\<close>

definition user_failures :: "int \<Rightarrow> string \<Rightarrow> auth_ctx \<Rightarrow> nat" where
  "user_failures one_hour_ago username c =
     sql_count (\<lambda>(l, u). l_user l = Some (u_id u) \<and> (u_username u = username \<or> u_email u = username) \<and> recent_failure one_hour_ago l)
       (List.product (ac_logs c) (ac_users c))"

definition rate_limit_check :: "auth_env \<Rightarrow> string \<Rightarrow> string option \<Rightarrow> auth_ctx \<Rightarrow> (auth_error \<times> auth_ctx) outcome" where
  "rate_limit_check e client_ip username c =
     obind (auth_lock c) (\<lambda>c1.
       let ago = ae_clock e 0 - 3600 in
       if ae_sql e 0 = Sql_Prepare_Error then Done (AUTH_SUCCESS, auth_unlock c1)
       else if (if ae_sql e 0 = Sql_Done then ip_failures ago client_ip c1 else 0) > 20
         then Done (AUTH_RATE_LIMIT_EXCEEDED, auth_unlock c1)
       else (case username of None \<Rightarrow> Done (AUTH_SUCCESS, auth_unlock c1)
         | Some n \<Rightarrow>
             if ae_sql e 1 \<noteq> Sql_Prepare_Error \<and> (if ae_sql e 1 = Sql_Done then user_failures ago n c1 else 0) > 10
             then Done (AUTH_RATE_LIMIT_EXCEEDED, auth_unlock c1)
             else Done (AUTH_SUCCESS, auth_unlock c1)))"

section \<open>Tokens and sessions\<close>

record user_info =
  ui_id :: nat
  ui_username :: string
  ui_nickname :: string
  ui_email :: string
  ui_verified :: bool
  ui_created :: int
  ui_last_seen :: int

record token_pair =
  tk_access :: string
  tk_refresh :: string
  tk_expires_in :: int
  tk_refresh_expires_in :: int
  tk_user :: "user_info option"

record auth_session =
  se_user :: nat
  se_access :: string
  se_refresh :: string
  se_ip :: string
  se_agent :: string
  se_created :: int
  se_expires :: int
  se_refresh_expires :: int
  se_valid :: bool

definition generate_tokens :: "(byte list \<Rightarrow> string \<Rightarrow> byte list option) \<Rightarrow> auth_env \<Rightarrow> nat \<Rightarrow> string \<Rightarrow> auth_ctx \<Rightarrow>
    (auth_error \<times> token_pair option \<times> auth_ctx) outcome" where
  "generate_tokens hmac e user_id client_ip c =
     (let now = ae_clock e 0 in
      case generate_access_token hmac (ac_key c) (ae_clock e 1) (ae_random e 0) user_id client_ip of
        None \<Rightarrow> Done (AUTH_INVALID_CREDENTIALS, None, c)
      | Some acc \<Rightarrow>
         (case generate_refresh_token hmac (ac_key c) (ae_clock e 2) user_id client_ip of
            None \<Rightarrow> Done (AUTH_INVALID_CREDENTIALS, None, c)
          | Some ref \<Rightarrow>
              obind (auth_lock c) (\<lambda>c1.
                if ae_sql e 0 \<noteq> Sql_Done then Done (AUTH_INVALID_CREDENTIALS, None, auth_unlock c1)
                else (case insert_session (ac_users c1)
                    \<lparr>s_id = ac_next_session c1, s_user = user_id, s_access = acc, s_refresh = ref, s_ip = client_ip,
                     s_agent = None, s_created = now, s_expires = now + 3600, s_refresh_expires = now + 604800, s_valid = True\<rparr>
                    (ac_sessions c1) of
                  None \<Rightarrow> Done (AUTH_INVALID_CREDENTIALS, None, auth_unlock c1)
                | Some rows \<Rightarrow>
                    Done (AUTH_SUCCESS, Some \<lparr>tk_access = acc, tk_refresh = ref, tk_expires_in = 3600,
                            tk_refresh_expires_in = 604800, tk_user = None\<rparr>,
                          auth_unlock (c1\<lparr>ac_sessions := rows, ac_next_session := ac_next_session c1 + 1\<rparr>))))))"

definition auth_generate_tokens :: "(byte list \<Rightarrow> string \<Rightarrow> byte list option) \<Rightarrow> auth_env \<Rightarrow> auth_ctx option \<Rightarrow> nat \<Rightarrow> string option \<Rightarrow> bool \<Rightarrow>
    (auth_error \<times> token_pair option \<times> auth_ctx option) outcome" where
  "auth_generate_tokens hmac e g user_id client_ip tokens =
     (case client_ip of None \<Rightarrow> Done (AUTH_INVALID_CREDENTIALS, None, g)
      | Some ip \<Rightarrow>
          if \<not> tokens then Done (AUTH_INVALID_CREDENTIALS, None, g)
          else (case g of None \<Rightarrow> Undefined_Behaviour
            | Some c \<Rightarrow> obind (generate_tokens hmac e user_id ip c) (\<lambda>(r, t, c'). Done (r, t, Some c'))))"

definition create_session :: "(byte list \<Rightarrow> string \<Rightarrow> byte list option) \<Rightarrow> auth_env \<Rightarrow> nat \<Rightarrow> string \<Rightarrow> string option \<Rightarrow> auth_ctx \<Rightarrow>
    (auth_error \<times> auth_session option \<times> auth_ctx) outcome" where
  "create_session hmac e user_id client_ip user_agent c =
     (let now = ae_clock e 0 in
      obind (generate_tokens hmac (later 1 e) user_id client_ip c) (\<lambda>(r, t, c').
        case t of None \<Rightarrow> Done (r, None, c')
        | Some tk \<Rightarrow> Done (r, Some \<lparr>se_user = user_id, se_access = take 63 (tk_access tk), se_refresh = take 63 (tk_refresh tk),
            se_ip = take 45 client_ip, se_agent = (case user_agent of Some a \<Rightarrow> take 255 a | None \<Rightarrow> []),
            se_created = now, se_expires = now + 3600, se_refresh_expires = now + 604800, se_valid = True\<rparr>, c')))"

definition auth_create_session :: "(byte list \<Rightarrow> string \<Rightarrow> byte list option) \<Rightarrow> auth_env \<Rightarrow> auth_ctx option \<Rightarrow> nat \<Rightarrow> string option \<Rightarrow>
    string option \<Rightarrow> bool \<Rightarrow> (auth_error \<times> auth_session option \<times> auth_ctx option) outcome" where
  "auth_create_session hmac e g user_id client_ip user_agent session =
     (case client_ip of None \<Rightarrow> Done (AUTH_INVALID_CREDENTIALS, None, g)
      | Some ip \<Rightarrow>
          if \<not> session then Done (AUTH_INVALID_CREDENTIALS, None, g)
          else (case g of None \<Rightarrow> Undefined_Behaviour
            | Some c \<Rightarrow> obind (create_session hmac e user_id ip user_agent c) (\<lambda>(r, t, c'). Done (r, t, Some c'))))"

text \<open>The user number is the one written through the pointer when the token is accepted.\<close>

definition auth_validate_token :: "(byte list \<Rightarrow> string \<Rightarrow> byte list option) \<Rightarrow> byte list \<Rightarrow> auth_env \<Rightarrow> auth_ctx option \<Rightarrow> string option \<Rightarrow>
    (auth_error \<times> nat option \<times> auth_ctx option) outcome" where
  "auth_validate_token hmac junk e g access_token =
     (case access_token of None \<Rightarrow> Done (AUTH_INVALID_CREDENTIALS, None, g)
      | Some t \<Rightarrow>
          if length t < 10 \<or> take 3 t \<noteq> ''AT_'' then Done (AUTH_INVALID_TOKEN, None, g)
          else obind (validate_token_signature hmac junk (map_option ac_key g) t) (\<lambda>valid.
            if \<not> valid then Done (AUTH_INVALID_TOKEN, None, g)
            else (case strchr (drop 3 t) (CHR ''_'') of None \<Rightarrow> Done (AUTH_INVALID_TOKEN, None, g)
              | Some len \<Rightarrow>
                  if len \<ge> 32 then Done (AUTH_INVALID_TOKEN, None, g)
                  else if snd (strtol10 (take len (drop 3 t))) \<noteq> [] then Done (AUTH_INVALID_TOKEN, None, g)
                  else (case g of None \<Rightarrow> Undefined_Behaviour
                    | Some c \<Rightarrow> obind (auth_lock c) (\<lambda>c1.
                        let now = ae_clock e 0 in
                        if ae_sql e 0 = Sql_Prepare_Error then Done (AUTH_INVALID_CREDENTIALS, None, Some (auth_unlock c1))
                        else (case (if ae_sql e 0 = Sql_Done
                                    then find (\<lambda>s. s_access s = t \<and> s_valid s \<and> s_expires s > now) (ac_sessions c1) else None) of
                            None \<Rightarrow> Done (AUTH_TOKEN_EXPIRED, None, Some (auth_unlock c1))
                          | Some s \<Rightarrow>
                              if s_expires s \<le> now then Done (AUTH_TOKEN_EXPIRED, Some (s_user s), Some (auth_unlock c1))
                              else Done (AUTH_SUCCESS, Some (s_user s), Some (auth_unlock c1))))))))"

definition auth_websocket_handshake :: "(byte list \<Rightarrow> string \<Rightarrow> byte list option) \<Rightarrow> byte list \<Rightarrow> auth_env \<Rightarrow> auth_ctx option \<Rightarrow> string option \<Rightarrow>
    string option \<Rightarrow> (auth_error \<times> nat option \<times> auth_ctx option) outcome" where
  "auth_websocket_handshake hmac junk e g access_token client_ip = auth_validate_token hmac junk e g access_token"

definition auth_logout_user :: "auth_env \<Rightarrow> auth_ctx option \<Rightarrow> nat \<Rightarrow> string option \<Rightarrow> (auth_error \<times> auth_ctx option) outcome" where
  "auth_logout_user e g user_id access_token =
     (case access_token of None \<Rightarrow> Done (AUTH_INVALID_CREDENTIALS, g)
      | Some t \<Rightarrow>
         (case g of None \<Rightarrow> Undefined_Behaviour
          | Some c \<Rightarrow> obind (auth_lock c) (\<lambda>c1.
              if ae_sql e 0 \<noteq> Sql_Done then Done (AUTH_INVALID_CREDENTIALS, Some (auth_unlock c1))
              else Done (AUTH_SUCCESS, Some (auth_event user_id ''USER_LOGOUT'' t (auth_unlock
                (c1\<lparr>ac_sessions := sql_update (\<lambda>s. s_access s = t \<and> s_user s = user_id) (\<lambda>s. s\<lparr>s_valid := False\<rparr>) (ac_sessions c1)\<rparr>)))))))"


section \<open>Login\<close>

definition matches :: "string \<Rightarrow> auth_row \<Rightarrow> bool" where
  "matches name u \<longleftrightarrow> u_username u = name \<or> u_email u = name"

text \<open>A wrong password, with \<open>db_mutex\<close> held: the counter, the lockout with its log entry, the update, and the log entry.\<close>

definition failed_attempt :: "auth_env \<Rightarrow> int \<Rightarrow> auth_row \<Rightarrow> string \<Rightarrow> auth_ctx \<Rightarrow> (auth_error \<times> auth_ctx) outcome" where
  "failed_attempt e now u client_ip c =
     (let attempts = u_attempts u + 1;
          lockout = (attempts \<ge> 5);
          attempts' = (if lockout then 0 else attempts);
          locked_until = (if lockout then now + 300 else u_locked_until u)
      in obind (if lockout
                then log_attempt (later 12 e) (u_id u) client_ip True (Some ''Account locked after 5 failed attempts'') c
                else Done (AUTH_SUCCESS, c)) (\<lambda>(_, c1).
           let c2 = (if ae_sql e 3 = Sql_Done
                     then c1\<lparr>ac_users := sql_update (\<lambda>r. u_id r = u_id u)
                            (\<lambda>r. r\<lparr>u_attempts := attempts', u_last_attempt := now, u_locked_until := locked_until\<rparr>) (ac_users c1)\<rparr>
                     else c1)
           in obind (log_attempt (later 4 e) (u_id u) client_ip False (Some ''Invalid password'') (auth_unlock c2)) (\<lambda>(_, c3).
                Done (if locked_until > now then AUTH_ACCOUNT_LOCKED else AUTH_INVALID_CREDENTIALS, c3))))"

text \<open>The part of a successful login after its log entry.\<close>

definition issue_tokens :: "(byte list \<Rightarrow> string \<Rightarrow> byte list option) \<Rightarrow> auth_env \<Rightarrow> int \<Rightarrow> auth_row \<Rightarrow> string \<Rightarrow> string option \<Rightarrow> auth_ctx \<Rightarrow>
    (auth_error \<times> token_pair option \<times> auth_ctx) outcome" where
  "issue_tokens hmac e now u client_ip user_agent c =
     obind (generate_tokens hmac (later 5 e) (u_id u) client_ip c) (\<lambda>(r, t, c1).
       case t of None \<Rightarrow> Done (r, None, c1)
       | Some tk \<Rightarrow>
           obind (create_session hmac (later 8 e) (u_id u) client_ip
               (Some (case user_agent of Some a \<Rightarrow> a | None \<Rightarrow> ''Unknown'')) c1) (\<lambda>(_, _, c2).
             Done (AUTH_SUCCESS,
               Some (tk\<lparr>tk_user := Some \<lparr>ui_id = u_id u, ui_username = take 63 (u_username u), ui_nickname = take 63 (u_nickname u),
                 ui_email = take 127 (u_email u), ui_verified = u_verified u, ui_created = u_created u, ui_last_seen = now\<rparr>\<rparr>),
               auth_event (u_id u) ''USER_LOGIN'' client_ip c2)))"

definition successful_attempt :: "(byte list \<Rightarrow> string \<Rightarrow> byte list option) \<Rightarrow> auth_env \<Rightarrow> int \<Rightarrow> auth_row \<Rightarrow> string \<Rightarrow> string option \<Rightarrow> bool \<Rightarrow> auth_ctx \<Rightarrow>
    (auth_error \<times> token_pair option \<times> auth_ctx) outcome" where
  "successful_attempt hmac e now u client_ip user_agent tokens c =
     (let c1 = (if ae_sql e 3 = Sql_Done
                then c\<lparr>ac_users := sql_update (\<lambda>r. u_id r = u_id u)
                       (\<lambda>r. r\<lparr>u_attempts := 0, u_last_attempt := now, u_locked_until := 0, u_last_login := now,
                               u_last_ip := Some client_ip\<rparr>) (ac_users c)\<rparr>
                else c)
      in obind (log_attempt (later 4 e) (u_id u) client_ip True (Some ''Login successful'') (auth_unlock c1)) (\<lambda>(_, c2).
           if tokens then issue_tokens hmac e now u client_ip user_agent c2 else Done (AUTH_SUCCESS, None, c2)))"

text \<open>The row is copied into fixed arrays: a hash of more than 64 bytes or a salt of less than 32 leaves them.\<close>

definition login :: "(string \<Rightarrow> byte list \<Rightarrow> byte list option) \<Rightarrow> (byte list \<Rightarrow> string \<Rightarrow> byte list option) \<Rightarrow> auth_env \<Rightarrow> string \<Rightarrow> string \<Rightarrow> string \<Rightarrow>
    string option \<Rightarrow> bool \<Rightarrow> auth_ctx \<Rightarrow> (auth_error \<times> token_pair option \<times> auth_ctx) outcome" where
  "login pbkdf2 hmac e username password client_ip user_agent tokens c0 =
     obind (rate_limit_check e client_ip (Some username) c0) (\<lambda>(limit, c).
       if limit \<noteq> AUTH_SUCCESS then Done (limit, None, c)
       else obind (auth_lock c) (\<lambda>c1.
         if ae_sql e 2 = Sql_Prepare_Error then Done (AUTH_INVALID_CREDENTIALS, None, auth_unlock c1)
         else (case (if ae_sql e 2 = Sql_Done then find (matches username) (ac_users c1) else None) of
             None \<Rightarrow> obind (log_attempt (later 4 e) 0 client_ip False (Some ''User not found'') (auth_unlock c1)) (\<lambda>(_, c2).
               Done (AUTH_INVALID_CREDENTIALS, None, c2))
           | Some u \<Rightarrow>
               let now = ae_clock e 1 in
               if length (u_hash u) > 64 \<or> length (u_salt u) < 32 then Undefined_Behaviour
               else if u_locked_until u > now then
                 obind (log_attempt (later 4 e) (u_id u) client_ip False (Some ''Account locked'') (auth_unlock c1)) (\<lambda>(_, c2).
                   Done (AUTH_ACCOUNT_LOCKED, None, c2))
               else if \<not> u_active u then
                 obind (log_attempt (later 4 e) (u_id u) client_ip False (Some ''Account disabled'') (auth_unlock c1)) (\<lambda>(_, c2).
                   Done (AUTH_ACCOUNT_DISABLED, None, c2))
               else if auth_verify_password pbkdf2 password (take 32 (u_salt u)) (u_hash u)
                 then successful_attempt hmac e now u client_ip user_agent tokens c1
               else obind (failed_attempt e now u client_ip c1) (\<lambda>(r, c2). Done (r, None, c2)))))"

definition auth_login_user :: "(string \<Rightarrow> byte list \<Rightarrow> byte list option) \<Rightarrow> (byte list \<Rightarrow> string \<Rightarrow> byte list option) \<Rightarrow> auth_env \<Rightarrow> auth_ctx option \<Rightarrow>
    string option \<Rightarrow> string option \<Rightarrow> string option \<Rightarrow> string option \<Rightarrow> bool \<Rightarrow> (auth_error \<times> token_pair option \<times> auth_ctx option) outcome" where
  "auth_login_user pbkdf2 hmac e g username password client_ip user_agent tokens =
     (case (g, username, password, client_ip) of
        (Some c, Some n, Some p, Some ip) \<Rightarrow>
          obind (login pbkdf2 hmac e n p ip user_agent tokens c) (\<lambda>(r, t, c'). Done (r, t, Some c'))
      | _ \<Rightarrow> Done (AUTH_INVALID_CREDENTIALS, None, g))"

section \<open>Registration\<close>

definition new_user :: "nat \<Rightarrow> string \<Rightarrow> string \<Rightarrow> string \<Rightarrow> byte list \<Rightarrow> byte list \<Rightarrow> int \<Rightarrow> auth_row" where
  "new_user user_id username nickname email hash salt now =
     \<lparr>u_id = user_id, u_username = username, u_nickname = nickname, u_email = email, u_hash = hash, u_salt = salt,
      u_attempts = 0, u_last_attempt = 0, u_locked_until = 0, u_created = now, u_updated = now, u_active = True,
      u_verified = False, u_admin = False, u_last_login = 0, u_last_ip = None\<rparr>"

definition register :: "(string \<Rightarrow> bool) \<Rightarrow> (string \<Rightarrow> byte list \<Rightarrow> byte list option) \<Rightarrow> (byte list \<Rightarrow> string \<Rightarrow> byte list option) \<Rightarrow> auth_env \<Rightarrow>
    string \<Rightarrow> string \<Rightarrow> string \<Rightarrow> string \<Rightarrow> string \<Rightarrow> bool \<Rightarrow> auth_ctx \<Rightarrow> (auth_error \<times> token_pair option \<times> auth_ctx) outcome" where
  "register validate_password pbkdf2 hmac e username password email nickname client_ip tokens c =
     (if \<not> auth_validate_username (Some username) then Done (AUTH_INVALID_CREDENTIALS, None, c)
      else if \<not> validate_password password then Done (AUTH_PASSWORD_TOO_WEAK, None, c)
      else if \<not> auth_validate_email (Some email) then Done (AUTH_INVALID_CREDENTIALS, None, c)
      else obind (auth_lock c) (\<lambda>c1.
        if ae_sql e 0 = Sql_Prepare_Error then Done (AUTH_INVALID_CREDENTIALS, None, auth_unlock c1)
        else if ae_sql e 0 = Sql_Done \<and> list_ex (\<lambda>u. u_username u = username \<or> u_email u = email) (ac_users c1)
          then Done (AUTH_INVALID_CREDENTIALS, None, auth_unlock c1)
        else (case auth_generate_password_hash pbkdf2 password (ae_salt e) of
            (r, _, None) \<Rightarrow> Done (r, None, auth_unlock c1)
          | (r, _, Some hash) \<Rightarrow>
              if ae_sql e 1 \<noteq> Sql_Done then Done (AUTH_INVALID_CREDENTIALS, None, auth_unlock c1)
              else (case insert_user (new_user (ac_next_user c1) username nickname email hash (ae_salt e) (ae_clock e 0)) (ac_users c1) of
                  None \<Rightarrow> Done (AUTH_INVALID_CREDENTIALS, None, auth_unlock c1)
                | Some rows \<Rightarrow>
                    let user_id = ac_next_user c1;
                        c2 = auth_unlock (c1\<lparr>ac_users := rows, ac_next_user := user_id + 1\<rparr>)
                    in obind (log_attempt (later 2 e) user_id client_ip True (Some (snprintf 256 (''User registered: '' @ username))) c2) (\<lambda>(_, c3).
                         let c4 = auth_event user_id ''USER_REGISTERED'' username c3 in
                         if tokens then login pbkdf2 hmac (later 3 e) username password client_ip (Some ''Registration'') True c4
                         else Done (AUTH_SUCCESS, None, c4))))))"

definition auth_register_user :: "(string \<Rightarrow> bool) \<Rightarrow> (string \<Rightarrow> byte list \<Rightarrow> byte list option) \<Rightarrow> (byte list \<Rightarrow> string \<Rightarrow> byte list option) \<Rightarrow> auth_env \<Rightarrow> auth_ctx option \<Rightarrow>
    string option \<Rightarrow> string option \<Rightarrow> string option \<Rightarrow> string option \<Rightarrow> string option \<Rightarrow> bool \<Rightarrow> (auth_error \<times> token_pair option \<times> auth_ctx option) outcome" where
  "auth_register_user validate_password pbkdf2 hmac e g username password email nickname client_ip tokens =
     (case (g, username, password, email, nickname, client_ip) of
        (Some c, Some n, Some p, Some m, Some k, Some ip) \<Rightarrow>
          obind (register validate_password pbkdf2 hmac e n p m k ip tokens c) (\<lambda>(r, t, c'). Done (r, t, Some c'))
      | _ \<Rightarrow> Done (AUTH_INVALID_CREDENTIALS, None, g))"

section \<open>Initialisation and counters\<close>

text \<open>\<open>sql 0\<close> to \<open>sql 4\<close> create the tables, \<open>sql 5\<close> counts the users, \<open>sql 6\<close> inserts the administrator. His password is
  refused by \<open>auth_generate_password_hash\<close>, whose answer is ignored: the length and the bytes of the hash are then
  what the local variables happened to hold, \<open>uninit\<close>. More than 64 bytes overrun the arrays.\<close>

definition create_tables :: "(string \<Rightarrow> byte list \<Rightarrow> byte list option) \<Rightarrow> nat \<times> byte list \<Rightarrow> auth_env \<Rightarrow> auth_ctx \<Rightarrow> (auth_error \<times> auth_ctx) outcome" where
  "create_tables pbkdf2 uninit e c =
     obind (auth_lock c) (\<lambda>c1.
       if \<not> list_all (\<lambda>i. ae_sql e i = Sql_Done) [0, 1, 2, 3, 4] then Done (AUTH_INVALID_CREDENTIALS, auth_unlock c1)
       else obind (auth_lock (auth_unlock c1)) (\<lambda>c2.
         if ae_sql e 5 \<noteq> Sql_Done \<or> ac_users c2 \<noteq> [] then Done (AUTH_SUCCESS, auth_unlock c2)
         else (case auth_generate_password_hash pbkdf2 ''admin123'' (ae_salt e) of (_, len, hash) \<Rightarrow>
           let n = (case len of Some k \<Rightarrow> k | None \<Rightarrow> fst uninit);
               bytes = (case hash of Some h \<Rightarrow> h | None \<Rightarrow> snd uninit);
               admin = (new_user (ac_next_user c2) ''admin'' ''Administrator'' ''admin@localhost'' (take n bytes) (ae_salt e)
                 (ae_clock e 0))\<lparr>u_verified := True, u_admin := True\<rparr>
           in if n > 64 then Undefined_Behaviour
              else if ae_sql e 6 \<noteq> Sql_Done then Done (AUTH_SUCCESS, auth_unlock c2)
              else (case insert_user admin (ac_users c2) of None \<Rightarrow> Done (AUTH_SUCCESS, auth_unlock c2)
                | Some rows \<Rightarrow> Done (AUTH_SUCCESS, auth_unlock (c2\<lparr>ac_users := rows, ac_next_user := ac_next_user c2 + 1\<rparr>))))))"

definition empty_ctx :: "string \<Rightarrow> byte list \<Rightarrow> auth_ctx" where
  "empty_ctx secret key = \<lparr>ac_secret = take 255 secret, ac_key = key, ac_users = [], ac_sessions = [], ac_logs = [],
     ac_next_user = 1, ac_next_session = 1, ac_locked = False, ac_callback = False, ac_events = []\<rparr>"

text \<open>\<open>ok 0\<close>: the context, \<open>ok 1\<close>: the mutexes, \<open>ok 2\<close>: the database, always \<open>":memory:"\<close>.\<close>

definition auth_init :: "(string \<Rightarrow> byte list \<Rightarrow> byte list option) \<Rightarrow> nat \<times> byte list \<Rightarrow> auth_env \<Rightarrow> (nat \<Rightarrow> bool) \<Rightarrow> auth_ctx option \<Rightarrow> string \<Rightarrow>
    (auth_error \<times> auth_ctx option) outcome" where
  "auth_init pbkdf2 uninit e ok g secret_key =
     (case g of Some c \<Rightarrow> Done (AUTH_SUCCESS, Some c)
      | None \<Rightarrow>
          if length secret_key < 32 then Done (AUTH_INVALID_CREDENTIALS, None)
          else if \<not> ok 0 then Done (AUTH_INVALID_CREDENTIALS, None)
          else (case pbkdf2 secret_key (map (\<lambda>c. of_nat (code c)) ''auth_salt'') of
              None \<Rightarrow> Done (AUTH_INVALID_CREDENTIALS, None)
            | Some key \<Rightarrow>
                if \<not> ok 1 then Done (AUTH_INVALID_CREDENTIALS, None)
                else if \<not> ok 2 then Done (AUTH_INVALID_CREDENTIALS, None)
                else obind (create_tables pbkdf2 uninit e (empty_ctx secret_key key)) (\<lambda>(r, c).
                  if r \<noteq> AUTH_SUCCESS then Done (r, None) else Done (AUTH_SUCCESS, Some c))))"

definition auth_cleanup :: "auth_ctx option \<Rightarrow> auth_ctx option" where
  "auth_cleanup g = None"

definition auth_register_callback :: "auth_ctx option \<Rightarrow> bool \<Rightarrow> auth_error \<times> auth_ctx option" where
  "auth_register_callback g callback =
     (case g of None \<Rightarrow> (AUTH_INVALID_CREDENTIALS, None) | Some c \<Rightarrow> (AUTH_SUCCESS, Some (c\<lparr>ac_callback := callback\<rparr>)))"

definition auth_trigger_event :: "auth_ctx option \<Rightarrow> nat \<Rightarrow> string option \<Rightarrow> string \<Rightarrow> auth_error \<times> auth_ctx option" where
  "auth_trigger_event g user_id event_type data =
     (case (g, event_type) of (Some c, Some t) \<Rightarrow> (AUTH_SUCCESS, Some (auth_event user_id t data c))
      | _ \<Rightarrow> (AUTH_INVALID_CREDENTIALS, g))"

text \<open>The counters: \<open>f\<close> counts under the mutex; a failed statement gives 0.\<close>

definition count_rows :: "auth_env \<Rightarrow> auth_ctx option \<Rightarrow> (auth_ctx \<Rightarrow> nat) \<Rightarrow> (nat \<times> auth_ctx option) outcome" where
  "count_rows e g f =
     (case g of None \<Rightarrow> Done (0, None)
      | Some c \<Rightarrow> obind (auth_lock c) (\<lambda>c1. Done (if ae_sql e 0 = Sql_Done then f c1 else 0, Some (auth_unlock c1))))"

definition auth_get_active_sessions_count :: "auth_env \<Rightarrow> auth_ctx option \<Rightarrow> (nat \<times> auth_ctx option) outcome" where
  "auth_get_active_sessions_count e g = count_rows e g (\<lambda>c. sql_count (\<lambda>s. s_valid s \<and> s_expires s > ae_clock e 0) (ac_sessions c))"

definition auth_get_total_users_count :: "auth_env \<Rightarrow> auth_ctx option \<Rightarrow> (nat \<times> auth_ctx option) outcome" where
  "auth_get_total_users_count e g = count_rows e g (\<lambda>c. sql_count (\<lambda>_. True) (ac_users c))"

definition auth_get_failed_login_attempts_last_hour :: "auth_env \<Rightarrow> auth_ctx option \<Rightarrow> (nat \<times> auth_ctx option) outcome" where
  "auth_get_failed_login_attempts_last_hour e g = count_rows e g (\<lambda>c. sql_count (recent_failure (ae_clock e 0 - 3600)) (ac_logs c))"


section \<open>The invariant\<close>

definition user_ok :: "nat \<Rightarrow> auth_row \<Rightarrow> bool" where
  "user_ok next u \<longleftrightarrow> auth_validate_username (Some (u_username u)) \<and> CHR ''@'' \<in> set (u_email u) \<and> 0 < u_id u \<and> u_id u < next \<and>
     length (u_hash u) \<le> 64 \<and> length (u_salt u) = 32 \<and> u_attempts u < 5 \<and> u_locked_until u = 0"

definition users_ok :: "nat \<Rightarrow> auth_row list \<Rightarrow> bool" where
  "users_ok next users \<longleftrightarrow> 0 < next \<and> distinct (map u_username users) \<and> distinct (map u_email users) \<and> distinct (map u_id users) \<and>
     list_all (user_ok next) users"

definition sessions_ok :: "nat set \<Rightarrow> session_row list \<Rightarrow> bool" where
  "sessions_ok ids sessions \<longleftrightarrow> distinct (map s_access sessions) \<and> distinct (map s_refresh sessions) \<and>
     list_all (\<lambda>s. length (s_access s) \<le> 63 \<and> s_user s \<in> ids) sessions"

definition auth_ok :: "auth_ctx \<Rightarrow> bool" where
  "auth_ok c \<longleftrightarrow> \<not> ac_locked c \<and> users_ok (ac_next_user c) (ac_users c) \<and> sessions_ok (u_id ` set (ac_users c)) (ac_sessions c)"

lemma auth_ok_frame [simp]:
  "auth_ok (c\<lparr>ac_logs := l\<rparr>) = auth_ok c" "auth_ok (c\<lparr>ac_events := v\<rparr>) = auth_ok c" "auth_ok (c\<lparr>ac_callback := b\<rparr>) = auth_ok c"
  by (simp_all add: auth_ok_def)

lemma auth_ok_event [simp]: "auth_ok (auth_event i ev d c) = auth_ok c" "ac_users (auth_event i ev d c) = ac_users c"
  by (simp_all add: auth_event_def)

lemma ok_unlocked: "auth_ok c \<Longrightarrow> \<not> ac_locked c"
  by (simp add: auth_ok_def)

lemma ok_user: "auth_ok c \<Longrightarrow> u \<in> set (ac_users c) \<Longrightarrow> user_ok (ac_next_user c) u"
  by (simp add: auth_ok_def users_ok_def list_all_iff)

lemma relock: "\<not> ac_locked c \<Longrightarrow> auth_unlock (c\<lparr>ac_locked := True\<rparr>) = c"
  by (simp add: auth_unlock_def)

lemma log_attempt_ok:
  assumes "\<not> ac_locked c"
  shows "\<exists>r ls. log_attempt e i ip s m c = Done (r, c\<lparr>ac_logs := ls\<rparr>)"
proof -
  have un: "auth_unlock (c\<lparr>ac_locked := True, ac_logs := ls\<rparr>) = c\<lparr>ac_logs := ls\<rparr>" for ls
    using assms by (cases c) (simp add: auth_unlock_def)
  show ?thesis
  proof (cases "ae_sql e 0 = Sql_Done")
    case True
    then have "log_attempt e i ip s m c = Done (AUTH_SUCCESS, c\<lparr>ac_logs := ac_logs c @ [attempt_row e i ip s m]\<rparr>)"
      using assms un by (simp add: log_attempt_def auth_lock_def)
    then show ?thesis by blast
  next
    case False
    then have "log_attempt e i ip s m c = Done (AUTH_INVALID_CREDENTIALS, c\<lparr>ac_logs := ac_logs c\<rparr>)"
      using assms un [of "ac_logs c"] by (cases "ae_sql e 0") (simp_all add: log_attempt_def auth_lock_def)
    then show ?thesis by blast
  qed
qed

lemma log_attempt_locked: "ac_locked c \<Longrightarrow> log_attempt e i ip s m c = Deadlock"
  by (simp add: log_attempt_def auth_lock_def)

lemma rate_limit_ok:
  assumes "\<not> ac_locked c"
  shows "\<exists>r. rate_limit_check e ip n c = Done (r, c) \<and> (r = AUTH_SUCCESS \<or> r = AUTH_RATE_LIMIT_EXCEEDED)"
  using assms relock [OF assms] by (auto simp: rate_limit_check_def auth_lock_def Let_def split: option.splits)

text \<open>Updating the row of one user.\<close>

lemma users_ok_update:
  assumes "users_ok next users" "\<And>u. user_ok next u \<Longrightarrow> user_ok next (f u)"
    and "\<And>u. u_username (f u) = u_username u" "\<And>u. u_email (f u) = u_email u" "\<And>u. u_id (f u) = u_id u"
  shows "users_ok next (sql_update p f users)"
proof -
  have "map u_id (sql_update p f users) = map u_id users" using assms(5) by (simp add: sql_update_def)
  moreover have "distinct (map u_username (sql_update p f users))" "distinct (map u_email (sql_update p f users))"
    using assms(1,3,4) username.distinct_update email.distinct_update by (auto simp: users_ok_def)
  ultimately show ?thesis using assms(1,2) by (auto simp: users_ok_def list_all_iff in_sql_update)
qed

lemma ids_update:
  assumes "\<And>u. u_id (f u) = u_id u"
  shows "u_id ` set (sql_update p f users) = u_id ` set users"
proof -
  have "map u_id (sql_update p f users) = map u_id users" using assms by (simp add: sql_update_def)
  then show ?thesis by (metis list.set_map)
qed

lemma ok_update:
  assumes "users_ok (ac_next_user c) (ac_users c)" "sessions_ok (u_id ` set (ac_users c)) (ac_sessions c)" 
    and "\<And>u. user_ok (ac_next_user c) u \<Longrightarrow> user_ok (ac_next_user c) (f u)"
    and "\<And>u. u_username (f u) = u_username u" "\<And>u. u_email (f u) = u_email u" "\<And>u. u_id (f u) = u_id u"
  shows "auth_ok (auth_unlock (c\<lparr>ac_users := sql_update p f (ac_users c)\<rparr>))"
  using assms(1,2) users_ok_update [OF assms(1) assms(3-6)] ids_update [OF assms(6)]
  by (simp add: auth_ok_def auth_unlock_def)

section \<open>Every operation keeps the invariant\<close>

lemma generate_tokens_ok:
  assumes "auth_ok c"
  shows "\<exists>r t c'. generate_tokens hmac e i ip c = Done (r, t, c') \<and> auth_ok c' \<and> ac_users c' = ac_users c \<and> ac_logs c' = ac_logs c \<and>
    (r = AUTH_SUCCESS \<longleftrightarrow> t \<noteq> None) \<and> (r = AUTH_SUCCESS \<or> r = AUTH_INVALID_CREDENTIALS)"
proof (cases "generate_access_token hmac (ac_key c) (ae_clock e 1) (ae_random e 0) i ip")
  case None
  then show ?thesis using assms by (simp add: generate_tokens_def)
next
  case acc: (Some acc)
  show ?thesis
  proof (cases "generate_refresh_token hmac (ac_key c) (ae_clock e 2) i ip")
    case None
    then show ?thesis using assms acc by (simp add: generate_tokens_def)
  next
    case ref: (Some ref)
    let ?row = "\<lparr>s_id = ac_next_session c, s_user = i, s_access = acc, s_refresh = ref, s_ip = ip,
      s_agent = None, s_created = ae_clock e 0, s_expires = ae_clock e 0 + 3600, s_refresh_expires = ae_clock e 0 + 604800, s_valid = True\<rparr>"
    note u = ok_unlocked [OF assms]
    show ?thesis
    proof (cases "ae_sql e 0 = Sql_Done \<and> insert_session (ac_users c) ?row (ac_sessions c) \<noteq> None")
      case False
      then show ?thesis using assms acc ref u relock [OF u] by (auto simp: generate_tokens_def auth_lock_def Let_def)
    next
      case True
      then obtain rows where rows: "insert_session (ac_users c) ?row (ac_sessions c) = Some rows" by auto
      have r: "rows = ac_sessions c @ [?row]" using access.ins_appends [OF rows] .
      have "i \<in> u_id ` set (ac_users c)" using rows by (auto simp: insert_session_def list_ex_iff split: if_splits)
      moreover have "sessions_ok (u_id ` set (ac_users c)) (ac_sessions c)" using assms by (simp add: auth_ok_def)
      ultimately have "sessions_ok (u_id ` set (ac_users c)) rows"
        using access.distinct_ins [OF _ rows] refresh.distinct_ins [OF _ rows] access_token_length [OF acc]
        by (simp add: sessions_ok_def r)
      then show ?thesis using True rows assms acc ref u
        by (simp add: generate_tokens_def auth_lock_def auth_unlock_def Let_def auth_ok_def)
    qed
  qed
qed

lemma create_session_ok:
  assumes "auth_ok c"
  shows "\<exists>r t c'. create_session hmac e i ip a c = Done (r, t, c') \<and> auth_ok c' \<and> ac_users c' = ac_users c \<and>
    (r = AUTH_SUCCESS \<or> r = AUTH_INVALID_CREDENTIALS)"
  using generate_tokens_ok [OF assms, of hmac "later 1 e" i ip]
  by (auto simp: create_session_def Let_def split: option.splits)

lemma issue_tokens_ok:
  assumes "auth_ok c"
  shows "\<exists>r t c'. issue_tokens hmac e now u ip a c = Done (r, t, c') \<and> auth_ok c' \<and> ac_users c' = ac_users c \<and>
    (r = AUTH_SUCCESS \<longleftrightarrow> t \<noteq> None) \<and> (r = AUTH_SUCCESS \<or> r = AUTH_INVALID_CREDENTIALS)"
proof -
  obtain r t c1 where g: "generate_tokens hmac (later 5 e) (u_id u) ip c = Done (r, t, c1)" "auth_ok c1" "ac_users c1 = ac_users c"
      "r = AUTH_SUCCESS \<longleftrightarrow> t \<noteq> None" "r = AUTH_SUCCESS \<or> r = AUTH_INVALID_CREDENTIALS"
    using generate_tokens_ok [OF assms] by blast
  obtain r2 t2 c2 where s: "create_session hmac (later 8 e) (u_id u) ip (Some (case a of Some a \<Rightarrow> a | None \<Rightarrow> ''Unknown'')) c1 = Done (r2, t2, c2)"
      "auth_ok c2" "ac_users c2 = ac_users c1"
    using create_session_ok [OF g(2)] by blast
  show ?thesis using g s by (cases t) (auto simp: issue_tokens_def)
qed

lemma successful_attempt_ok:
  assumes "auth_ok c"
  shows "\<exists>r t c'. successful_attempt hmac e now u ip a tok (c\<lparr>ac_locked := True\<rparr>) = Done (r, t, c') \<and> auth_ok c' \<and>
    ac_users c' = (if ae_sql e 3 = Sql_Done then sql_update (\<lambda>r. u_id r = u_id u)
       (\<lambda>r. r\<lparr>u_attempts := 0, u_last_attempt := now, u_locked_until := 0, u_last_login := now, u_last_ip := Some ip\<rparr>) (ac_users c)
      else ac_users c) \<and>
    (tok \<longrightarrow> (r = AUTH_SUCCESS \<longleftrightarrow> t \<noteq> None)) \<and> (\<not> tok \<longrightarrow> r = AUTH_SUCCESS \<and> t = None) \<and> (r = AUTH_SUCCESS \<or> r = AUTH_INVALID_CREDENTIALS)"
proof -
  let ?f = "\<lambda>r. r\<lparr>u_attempts := 0, u_last_attempt := now, u_locked_until := 0, u_last_login := now, u_last_ip := Some ip\<rparr>"
  let ?users = "if ae_sql e 3 = Sql_Done then sql_update (\<lambda>r. u_id r = u_id u) ?f (ac_users c) else ac_users c"
  let ?c1 = "if ae_sql e 3 = Sql_Done then c\<lparr>ac_locked := True, ac_users := sql_update (\<lambda>r. u_id r = u_id u) ?f (ac_users c)\<rparr>
      else c\<lparr>ac_locked := True\<rparr>"
  have un: "c\<lparr>ac_locked := False\<rparr> = c" using ok_unlocked [OF assms] by simp
  have "auth_ok (auth_unlock (c\<lparr>ac_users := sql_update (\<lambda>r. u_id r = u_id u) ?f (ac_users c)\<rparr>))"
    using assms by (intro ok_update) (auto simp: auth_ok_def user_ok_def)
  then have ok1: "auth_ok (auth_unlock ?c1)" using assms un by (simp add: auth_unlock_def)
  have us: "ac_users (auth_unlock ?c1) = ?users" by (simp add: auth_unlock_def)
  obtain r0 ls where l: "log_attempt (later 4 e) (u_id u) ip True (Some ''Login successful'') (auth_unlock ?c1) =
      Done (r0, (auth_unlock ?c1)\<lparr>ac_logs := ls\<rparr>)" using log_attempt_ok [OF ok_unlocked [OF ok1]] by blast
  define c2 where "c2 = (auth_unlock ?c1)\<lparr>ac_logs := ls\<rparr>"
  have ok2: "auth_ok c2" "ac_users c2 = ?users" using ok1 us by (simp_all add: c2_def)
  have eq: "successful_attempt hmac e now u ip a tok (c\<lparr>ac_locked := True\<rparr>) =
      (if tok then issue_tokens hmac e now u ip a c2 else Done (AUTH_SUCCESS, None, c2))"
    using l unfolding c2_def [symmetric] by (simp add: successful_attempt_def Let_def cong: if_cong)
  show ?thesis using issue_tokens_ok [OF ok2(1), of hmac e now u ip a] ok2 unfolding eq by (cases tok) auto
qed

lemma failed_attempt_ok:
  assumes "auth_ok c" "u \<in> set (ac_users c)"
  shows "if u_attempts u = 4 then failed_attempt e now u ip (c\<lparr>ac_locked := True\<rparr>) = Deadlock
    else \<exists>c'. failed_attempt e now u ip (c\<lparr>ac_locked := True\<rparr>) =
        Done (if 0 > now then AUTH_ACCOUNT_LOCKED else AUTH_INVALID_CREDENTIALS, c') \<and> auth_ok c' \<and>
      ac_users c' = (if ae_sql e 3 = Sql_Done then sql_update (\<lambda>r. u_id r = u_id u)
        (\<lambda>r. r\<lparr>u_attempts := u_attempts u + 1, u_last_attempt := now, u_locked_until := 0\<rparr>) (ac_users c) else ac_users c)"
proof -
  have uo: "u_attempts u < 5" "u_locked_until u = 0" using ok_user [OF assms] by (simp_all add: user_ok_def)
  have lt: "unat (u_attempts u) < 5" using uo(1) by (simp add: word_less_nat_alt)
  have suc: "unat (u_attempts u + 1) = Suc (unat (u_attempts u))" using lt by (subst unat_add_32) simp_all
  have lock: "u_attempts u + 1 \<ge> 5 \<longleftrightarrow> u_attempts u = 4"
    using lt suc by (auto simp: word_le_nat_alt word_unat_eq_iff)
  show ?thesis
  proof (cases "u_attempts u = 4")
    case True
    then show ?thesis by (simp add: failed_attempt_def Let_def log_attempt_locked)
  next
    case False
    let ?f = "\<lambda>r. r\<lparr>u_attempts := u_attempts u + 1, u_last_attempt := now, u_locked_until := 0\<rparr>"
    let ?users = "if ae_sql e 3 = Sql_Done then sql_update (\<lambda>r. u_id r = u_id u) ?f (ac_users c) else ac_users c"
    let ?c1 = "if ae_sql e 3 = Sql_Done then c\<lparr>ac_locked := True, ac_users := sql_update (\<lambda>r. u_id r = u_id u) ?f (ac_users c)\<rparr>
        else c\<lparr>ac_locked := True\<rparr>"
    have no: "\<not> 5 \<le> u_attempts u + 1" using False lock by simp
    then have le: "u_attempts u + 1 < 5" by simp
    have un: "c\<lparr>ac_locked := False\<rparr> = c" using ok_unlocked [OF assms(1)] by simp
    have "auth_ok (auth_unlock (c\<lparr>ac_users := sql_update (\<lambda>r. u_id r = u_id u) ?f (ac_users c)\<rparr>))"
      using assms(1) le by (intro ok_update) (auto simp: auth_ok_def user_ok_def)
    then have ok1: "auth_ok (auth_unlock ?c1)" using assms(1) un by (simp add: auth_unlock_def)
    obtain r0 ls where l: "log_attempt (later 4 e) (u_id u) ip False (Some ''Invalid password'') (auth_unlock ?c1) =
        Done (r0, (auth_unlock ?c1)\<lparr>ac_logs := ls\<rparr>)" using log_attempt_ok [OF ok_unlocked [OF ok1]] by blast
    have "failed_attempt e now u ip (c\<lparr>ac_locked := True\<rparr>) =
        Done (if 0 > now then AUTH_ACCOUNT_LOCKED else AUTH_INVALID_CREDENTIALS, (auth_unlock ?c1)\<lparr>ac_logs := ls\<rparr>)"
      using l no uo(2) by (simp add: failed_attempt_def Let_def cong: if_cong)
    then show ?thesis using False ok1 by (auto simp: auth_unlock_def)
  qed
qed


text \<open>PBKDF2 is asked for 64 bytes; time is counted from 1970 and salts have 32 bytes.\<close>

definition pbkdf2_ok :: "(string \<Rightarrow> byte list \<Rightarrow> byte list option) \<Rightarrow> bool" where
  "pbkdf2_ok f \<longleftrightarrow> (\<forall>p s h. f p s = Some h \<longrightarrow> length h = 64)"

definition env_ok :: "auth_env \<Rightarrow> bool" where
  "env_ok e \<longleftrightarrow> (\<forall>n. 0 \<le> ae_clock e n) \<and> length (ae_salt e) = 32"

lemma env_ok_later [simp]: "env_ok e \<Longrightarrow> env_ok (later k e)"
  by (simp add: env_ok_def)

lemma find_user: "find (matches n) users = Some u \<Longrightarrow> u \<in> set users \<and> matches n u"
  by (auto simp: find_Some_iff)

lemma login_unlimited:
  assumes "auth_ok c" "rate_limit_check e ip (Some n) c = Done (AUTH_SUCCESS, c)"
  shows "login pbkdf2 hmac e n p ip a tok c =
    (if ae_sql e 2 = Sql_Prepare_Error then Done (AUTH_INVALID_CREDENTIALS, None, c)
     else case (if ae_sql e 2 = Sql_Done then find (matches n) (ac_users c) else None) of
       None \<Rightarrow> obind (log_attempt (later 4 e) 0 ip False (Some ''User not found'') c) (\<lambda>(_, c2). Done (AUTH_INVALID_CREDENTIALS, None, c2))
     | Some u \<Rightarrow>
         if u_locked_until u > ae_clock e 1
         then obind (log_attempt (later 4 e) (u_id u) ip False (Some ''Account locked'') c) (\<lambda>(_, c2). Done (AUTH_ACCOUNT_LOCKED, None, c2))
         else if \<not> u_active u
         then obind (log_attempt (later 4 e) (u_id u) ip False (Some ''Account disabled'') c) (\<lambda>(_, c2). Done (AUTH_ACCOUNT_DISABLED, None, c2))
         else if auth_verify_password pbkdf2 p (u_salt u) (u_hash u)
         then successful_attempt hmac e (ae_clock e 1) u ip a tok (c\<lparr>ac_locked := True\<rparr>)
         else obind (failed_attempt e (ae_clock e 1) u ip (c\<lparr>ac_locked := True\<rparr>)) (\<lambda>(r, c2). Done (r, None, c2)))"
proof -
  have u: "\<not> ac_locked c" using assms(1) by (rule ok_unlocked)
  have fit: "\<not> (length (u_hash x) > 64 \<or> length (u_salt x) < 32)" "take 32 (u_salt x) = u_salt x"
    if "find (matches n) (ac_users c) = Some x" for x
    using ok_user [OF assms(1), of x] find_user [OF that] by (auto simp: user_ok_def)
  show ?thesis
  proof (cases "find (matches n) (ac_users c)")
    case None
    then show ?thesis using assms(2) u relock [OF u] by (simp add: login_def auth_lock_def)
  next
    case (Some x)
    then show ?thesis using assms(2) u relock [OF u] fit [OF Some] by (simp add: login_def auth_lock_def)
  qed
qed

lemma login_ok:
  assumes "auth_ok c" "env_ok e"
  shows "(login pbkdf2 hmac e n p ip a tok c = Deadlock \<and> (\<exists>u. find (matches n) (ac_users c) = Some u \<and>
      \<not> auth_verify_password pbkdf2 p (u_salt u) (u_hash u) \<and> u_attempts u = 4)) \<or>
    (\<exists>r t c'. login pbkdf2 hmac e n p ip a tok c = Done (r, t, c') \<and> auth_ok c' \<and> r \<noteq> AUTH_ACCOUNT_LOCKED \<and>
      (t \<noteq> None \<longrightarrow> (\<exists>u \<in> set (ac_users c). matches n u \<and> u_active u \<and> auth_verify_password pbkdf2 p (u_salt u) (u_hash u))))"
proof -
  note u = ok_unlocked [OF assms(1)]
  have log: "obind (log_attempt e' i ip s m c) (\<lambda>(_, c2). Done (r, None, c2)) = Done (r, None, c') \<Longrightarrow> auth_ok c'" for e' i s m r c'
    using log_attempt_ok [OF u, of e' i ip s m] assms(1) by auto
  have logd: "\<exists>c'. obind (log_attempt e' i ip s m c) (\<lambda>(_, c2). Done (r, None, c2)) = Done (r, None, c') \<and> auth_ok c'" for e' i s m and r :: auth_error
    using log_attempt_ok [OF u, of e' i ip s m] assms(1) by auto
  obtain l where l: "rate_limit_check e ip (Some n) c = Done (l, c)" "l = AUTH_SUCCESS \<or> l = AUTH_RATE_LIMIT_EXCEEDED"
    using rate_limit_ok [OF u] by blast
  show ?thesis
  proof (cases "l = AUTH_SUCCESS")
    case False
    then show ?thesis using l assms(1) by (auto simp: login_def)
  next
    case True
    note eq = login_unlimited [OF assms(1) l(1) [unfolded True], of pbkdf2 hmac p a tok]
    show ?thesis
    proof (cases "if ae_sql e 2 = Sql_Done then find (matches n) (ac_users c) else None")
      case None
      then show ?thesis unfolding eq using logd [of "later 4 e" 0 False "Some ''User not found''" AUTH_INVALID_CREDENTIALS] assms(1)
        by (cases "ae_sql e 2 = Sql_Prepare_Error") auto
    next
      case (Some x)
      then have x: "ae_sql e 2 = Sql_Done" "x \<in> set (ac_users c)" "matches n x"
        using find_user [of n "ac_users c" x] by (auto split: if_splits)
      have "u_locked_until x = 0" using ok_user [OF assms(1) x(2)] by (simp add: user_ok_def)
      then have nolock: "\<not> ae_clock e 1 < u_locked_until x" "\<not> ae_clock e 1 < 0" using assms(2) by (auto simp: env_ok_def not_less)
      consider (off) "\<not> u_active x" | (good) "u_active x" "auth_verify_password pbkdf2 p (u_salt x) (u_hash x)"
        | (bad) "u_active x" "\<not> auth_verify_password pbkdf2 p (u_salt x) (u_hash x)" by blast
      then show ?thesis
      proof cases
        case off
        then show ?thesis unfolding eq Some using x(1) nolock
            logd [of "later 4 e" "u_id x" False "Some ''Account disabled''" AUTH_ACCOUNT_DISABLED] by auto
      next
        case good
        then show ?thesis unfolding eq Some using x nolock
            successful_attempt_ok [OF assms(1), of hmac e "ae_clock e 1" x ip a tok] by fastforce
      next
        case bad
        then show ?thesis unfolding eq Some using x nolock failed_attempt_ok [OF assms(1) x(2), of e "ae_clock e 1" ip]
            Some by (cases "u_attempts x = 4") fastforce+
      qed
    qed
  qed
qed

lemma new_user_ok:
  assumes "users_ok next users" "insert_user (new_user next n k m h s now) users = Some rows"
    and "auth_validate_username (Some n)" "CHR ''@'' \<in> set m" "length h \<le> 64" "length s = 32"
  shows "users_ok (next + 1) rows \<and> rows = users @ [new_user next n k m h s now]"
proof -
  have r: "rows = users @ [new_user next n k m h s now]" using username.ins_appends [OF assms(2)] .
  have old: "list_all (user_ok (next + 1)) users" using assms(1) by (auto simp: users_ok_def user_ok_def list_all_iff)
  have "next \<notin> u_id ` set users" using assms(1) by (auto simp: users_ok_def user_ok_def list_all_iff)
  moreover have "user_ok (next + 1) (new_user next n k m h s now)" using assms(1,3-6) by (simp add: user_ok_def new_user_def users_ok_def)
  moreover have "distinct (map u_username rows)" "distinct (map u_email rows)"
    using assms(1) username.distinct_ins [OF _ assms(2)] email.distinct_ins [OF _ assms(2)] by (auto simp: users_ok_def)
  ultimately show ?thesis using assms(1) old r by (simp add: users_ok_def new_user_def)
qed

lemma email_has_at: "auth_validate_email (Some m) \<Longrightarrow> CHR ''@'' \<in> set m"
  using scan_count [of "length m" 0 m 0 False 1] count_list_0_iff [of m "CHR ''@''"]
  by (fastforce simp: auth_validate_email_def split: option.splits if_splits)

lemma sessions_ok_mono: "sessions_ok A ss \<Longrightarrow> A \<subseteq> B \<Longrightarrow> sessions_ok B ss"
  by (auto simp: sessions_ok_def list_all_iff)

text \<open>The context after the row of a new user has been inserted and the registration logged.\<close>

lemma register_insert:
  assumes "auth_ok c" "pbkdf2_ok pbkdf2" "env_ok e"
  shows "(\<exists>r. r \<noteq> AUTH_SUCCESS \<and> r \<noteq> AUTH_ACCOUNT_LOCKED \<and> register vp pbkdf2 hmac e n p m k ip tok c = Done (r, None, c)) \<or>
    (\<exists>h c4. pbkdf2 p (ae_salt e) = Some h \<and> auth_ok c4 \<and> auth_validate_username (Some n) \<and>
      ac_users c4 = ac_users c @ [new_user (ac_next_user c) n k m h (ae_salt e) (ae_clock e 0)] \<and>
      register vp pbkdf2 hmac e n p m k ip tok c =
        (if tok then login pbkdf2 hmac (later 3 e) n p ip (Some ''Registration'') True c4 else Done (AUTH_SUCCESS, None, c4)))"
proof -
  note u = ok_unlocked [OF assms(1)]
  let ?row = "\<lambda>h. new_user (ac_next_user c) n k m h (ae_salt e) (ae_clock e 0)"
  show ?thesis
  proof (cases "auth_validate_username (Some n) \<and> vp p \<and> auth_validate_email (Some m) \<and>
      \<not> (ae_sql e 0 = Sql_Prepare_Error \<or> ae_sql e 0 = Sql_Done \<and> list_ex (\<lambda>u. u_username u = n \<or> u_email u = m) (ac_users c)) \<and>
      check_password_strength (Some p) = AUTH_SUCCESS \<and>
      (\<exists>h rows. pbkdf2 p (ae_salt e) = Some h \<and> ae_sql e 1 = Sql_Done \<and> insert_user (?row h) (ac_users c) = Some rows)")
    case False
    have weak: "check_password_strength (Some p) = AUTH_SUCCESS \<or> check_password_strength (Some p) = AUTH_PASSWORD_TOO_WEAK"
      by (auto simp: check_password_strength_def split: prod.splits)
    show ?thesis using False u relock [OF u] weak
      by (auto simp: register_def auth_lock_def auth_generate_password_hash_def Let_def split: option.splits if_splits)
  next
    case True
    then obtain h rows where h: "pbkdf2 p (ae_salt e) = Some h" "ae_sql e 1 = Sql_Done" "insert_user (?row h) (ac_users c) = Some rows" by blast
    have nd: "(ae_sql e 0 = Sql_Done \<and> list_ex (\<lambda>u. u_username u = n \<or> u_email u = m) (ac_users c)) = False"
      using True by blast
    have h64: "length h \<le> 64" using assms(2) h(1) by (simp add: pbkdf2_ok_def)
    have at: "CHR ''@'' \<in> set m" using True email_has_at by blast
    have uo: "users_ok (ac_next_user c) (ac_users c)" using assms(1) by (simp add: auth_ok_def)
    have new: "users_ok (ac_next_user c + 1) rows" "rows = ac_users c @ [?row h]"
      using new_user_ok [OF uo h(3) _ at h64] True assms(3) by (auto simp: env_ok_def)
    let ?c2 = "auth_unlock (c\<lparr>ac_locked := True, ac_users := rows, ac_next_user := ac_next_user c + 1\<rparr>)"
    have "sessions_ok (u_id ` set rows) (ac_sessions c)"
      using assms(1) sessions_ok_mono [of "u_id ` set (ac_users c)" "ac_sessions c"] new(2) by (auto simp: auth_ok_def)
    then have ok2: "auth_ok ?c2" using new(1) by (simp add: auth_ok_def auth_unlock_def)
    obtain r ls where l: "log_attempt (later 2 e) (ac_next_user c) ip True (Some (snprintf 256 (''User registered: '' @ n))) ?c2 =
        Done (r, ?c2\<lparr>ac_logs := ls\<rparr>)" using log_attempt_ok [OF ok_unlocked [OF ok2]] by blast
    define c4 where "c4 = auth_event (ac_next_user c) ''USER_REGISTERED'' n (?c2\<lparr>ac_logs := ls\<rparr>)"
    have "auth_ok c4" "ac_users c4 = rows"
      using ok2 by (simp_all add: c4_def auth_unlock_def auth_event_def)
    moreover have "register vp pbkdf2 hmac e n p m k ip tok c =
        (if tok then login pbkdf2 hmac (later 3 e) n p ip (Some ''Registration'') True c4 else Done (AUTH_SUCCESS, None, c4))"
      using True h l u unfolding c4_def by (simp add: nd register_def auth_lock_def auth_generate_password_hash_def Let_def)
    ultimately show ?thesis using h(1) new(2) True by blast
  qed
qed


lemma username_no_at: "auth_validate_username (Some n) \<Longrightarrow> CHR ''@'' \<notin> set n"
  by (auto simp: auth_validate_username_def list_all_iff isalnum_def isalpha_def isupper_def islower_def isdigit_def code_def
      split: if_splits)

lemma find_by_username:
  assumes "auth_ok c" "u \<in> set (ac_users c)"
  shows "find (matches (u_username u)) (ac_users c) = Some u"
proof -
  have "CHR ''@'' \<notin> set (u_username u)" using ok_user [OF assms] username_no_at by (simp add: user_ok_def)
  then have "matches (u_username u) q \<longleftrightarrow> u_username q = u_username u" if "q \<in> set (ac_users c)" for q
    using ok_user [OF assms(1) that] by (auto simp: matches_def user_ok_def)
  then have "find (matches (u_username u)) (ac_users c) = find (\<lambda>q. u_username q = u_username u) (ac_users c)"
    by (intro find_cong) auto
  moreover have "distinct (map u_username (ac_users c))" using assms(1) by (simp add: auth_ok_def users_ok_def)
  ultimately show ?thesis using username.find_row assms(2) by simp
qed

lemma register_ok:
  assumes "auth_ok c" "pbkdf2_ok pbkdf2" "env_ok e"
  shows "\<exists>r t c'. register vp pbkdf2 hmac e n p m k ip tok c = Done (r, t, c') \<and> auth_ok c' \<and> r \<noteq> AUTH_ACCOUNT_LOCKED"
  using register_insert [OF assms, of vp hmac n p m k ip tok]
proof (elim disjE exE conjE)
  fix h c4 assume h: "pbkdf2 p (ae_salt e) = Some h" and ok: "auth_ok c4" 
    and us: "ac_users c4 = ac_users c @ [new_user (ac_next_user c) n k m h (ae_salt e) (ae_clock e 0)]"
    and eq: "register vp pbkdf2 hmac e n p m k ip tok c =
        (if tok then login pbkdf2 hmac (later 3 e) n p ip (Some ''Registration'') True c4 else Done (AUTH_SUCCESS, None, c4))"
  have "find (matches n) (ac_users c4) = Some (new_user (ac_next_user c) n k m h (ae_salt e) (ae_clock e 0))"
    using find_by_username [OF ok, of "new_user (ac_next_user c) n k m h (ae_salt e) (ae_clock e 0)"] us by (simp add: new_user_def)
  moreover have "auth_verify_password pbkdf2 p (ae_salt e) h"
    using h assms(2) by (auto simp: auth_verify_password_def pbkdf2_ok_def)
  ultimately show ?thesis unfolding eq
    using login_ok [OF ok env_ok_later [OF assms(3)], of pbkdf2 hmac 3 n p ip "Some ''Registration''" True] ok
    by (cases tok) (auto simp: new_user_def)
next
  fix r assume "r \<noteq> AUTH_ACCOUNT_LOCKED" "register vp pbkdf2 hmac e n p m k ip tok c = Done (r, None, c)"
  then show ?thesis using assms(1) by blast
qed

lemma logout_ok:
  assumes "auth_ok c"
  shows "\<exists>r c'. auth_logout_user e (Some c) i (Some t) = Done (r, Some c') \<and> auth_ok c' \<and> (r = AUTH_SUCCESS \<or> r = AUTH_INVALID_CREDENTIALS)"
proof -
  note u = ok_unlocked [OF assms]
  let ?ss = "sql_update (\<lambda>s. s_access s = t \<and> s_user s = i) (\<lambda>s. s\<lparr>s_valid := False\<rparr>) (ac_sessions c)"
  have "distinct (map s_access ?ss)" "distinct (map s_refresh ?ss)"
    using assms access.distinct_update [of "ac_sessions c"] refresh.distinct_update [of "ac_sessions c"]
    by (simp_all add: auth_ok_def sessions_ok_def)
  then have "sessions_ok (u_id ` set (ac_users c)) ?ss"
    using assms by (auto simp: auth_ok_def sessions_ok_def list_all_iff in_sql_update)
  then have "auth_ok (auth_unlock (c\<lparr>ac_locked := True, ac_sessions := ?ss\<rparr>))"
    using assms by (simp add: auth_ok_def auth_unlock_def)
  then show ?thesis using u assms relock [OF u] by (auto simp: auth_logout_user_def auth_lock_def)
qed

text \<open>A token that passes the length check of the signature is longer than any stored one.\<close>

lemma validate_never:
  assumes "auth_ok c"
  shows "\<exists>r x. auth_validate_token hmac junk e (Some c) (Some t) = Done (r, x, Some c) \<and> r \<noteq> AUTH_SUCCESS \<and> r \<noteq> AUTH_ACCOUNT_LOCKED"
proof (cases "length t \<le> 63")
  case True
  then show ?thesis by (simp add: auth_validate_token_def short_token_refused)
next
  case False
  note u = ok_unlocked [OF assms]
  have "find (\<lambda>s. s_access s = t \<and> s_valid s \<and> s_expires s > now) (ac_sessions c) = None" for now
    using assms False by (auto simp: find_None_iff auth_ok_def sessions_ok_def list_all_iff)
  then show ?thesis using u relock [OF u]
    by (auto simp: auth_validate_token_def validate_token_signature_def auth_lock_def Let_def split: option.splits)
qed

section \<open>Runs\<close>

datatype auth_op =
    Op_Register auth_env string string string string string bool
  | Op_Login auth_env string string string "string option" bool
  | Op_Logout auth_env nat string
  | Op_Tokens auth_env nat string
  | Op_Session auth_env nat string "string option"
  | Op_Validate auth_env string
  | Op_Log auth_env nat "string option" string
  | Op_Callback bool

fun op_ok :: "auth_op \<Rightarrow> bool" where
  "op_ok (Op_Register e _ _ _ _ _ _) = env_ok e"
| "op_ok (Op_Login e _ _ _ _ _) = env_ok e"
| "op_ok _ = True"

text \<open>The library functions of the program: the undefined \<open>auth_validate_password\<close>, PBKDF2, HMAC and the unused bytes.\<close>

record auth_lib =
  al_validate :: "string \<Rightarrow> bool"
  al_pbkdf2 :: "string \<Rightarrow> byte list \<Rightarrow> byte list option"
  al_hmac :: "byte list \<Rightarrow> string \<Rightarrow> byte list option"
  al_junk :: "byte list"

fun auth_step :: "auth_lib \<Rightarrow> auth_op \<Rightarrow> auth_ctx option \<Rightarrow> (auth_error \<times> auth_ctx option) outcome" where
  "auth_step L (Op_Register e n p m k ip tok) g =
     obind (auth_register_user (al_validate L) (al_pbkdf2 L) (al_hmac L) e g (Some n) (Some p) (Some m) (Some k) (Some ip) tok) (\<lambda>(r, _, g'). Done (r, g'))"
| "auth_step L (Op_Login e n p ip a tok) g =
     obind (auth_login_user (al_pbkdf2 L) (al_hmac L) e g (Some n) (Some p) (Some ip) a tok) (\<lambda>(r, _, g'). Done (r, g'))"
| "auth_step L (Op_Logout e i t) g = auth_logout_user e g i (Some t)"
| "auth_step L (Op_Tokens e i ip) g = obind (auth_generate_tokens (al_hmac L) e g i (Some ip) True) (\<lambda>(r, _, g'). Done (r, g'))"
| "auth_step L (Op_Session e i ip a) g = obind (auth_create_session (al_hmac L) e g i (Some ip) a True) (\<lambda>(r, _, g'). Done (r, g'))"
| "auth_step L (Op_Validate e t) g = obind (auth_validate_token (al_hmac L) (al_junk L) e g (Some t)) (\<lambda>(r, _, g'). Done (r, g'))"
| "auth_step L (Op_Log e i d ip) g = auth_log_security_event e g i None d ip"
| "auth_step L (Op_Callback b) g = Done (auth_register_callback g b)"

fun auth_run :: "auth_lib \<Rightarrow> auth_op list \<Rightarrow> auth_ctx option \<Rightarrow> (auth_error list \<times> auth_ctx option) outcome" where
  "auth_run L [] g = Done ([], g)"
| "auth_run L (op # ops) g = obind (auth_step L op g) (\<lambda>(r, g'). obind (auth_run L ops g') (\<lambda>(rs, g''). Done (r # rs, g'')))"

text \<open>A login with a wrong password after four wrong ones.\<close>

fun fifth_failure :: "auth_lib \<Rightarrow> auth_op \<Rightarrow> auth_ctx \<Rightarrow> bool" where
  "fifth_failure L (Op_Login e n p ip a tok) c =
     (case find (matches n) (ac_users c) of None \<Rightarrow> False
      | Some u \<Rightarrow> \<not> auth_verify_password (al_pbkdf2 L) p (u_salt u) (u_hash u) \<and> u_attempts u = 4)"
| "fifth_failure L op c = False"

lemma auth_step_ok:
  assumes "auth_ok c" "pbkdf2_ok (al_pbkdf2 L)" "op_ok op"
  shows "(auth_step L op (Some c) = Deadlock \<and> fifth_failure L op c) \<or>
    (\<exists>r c'. auth_step L op (Some c) = Done (r, Some c') \<and> auth_ok c' \<and> r \<noteq> AUTH_ACCOUNT_LOCKED)"
proof (cases op)
  case (Op_Register e n p m k ip tok)
  then show ?thesis using register_ok [OF assms(1), of "al_pbkdf2 L" e "al_validate L" "al_hmac L" n p m k ip tok] assms(2,3)
    by (auto simp: auth_register_user_def)
next
  case (Op_Login e n p ip a tok)
  then show ?thesis using login_ok [OF assms(1), of e "al_pbkdf2 L" "al_hmac L" n p ip a tok] assms(3)
    by (auto simp: auth_login_user_def)
next
  case (Op_Logout e i t)
  then show ?thesis using logout_ok [OF assms(1), of e i t] by auto
next
  case (Op_Tokens e i ip)
  then show ?thesis using generate_tokens_ok [OF assms(1), of "al_hmac L" e i ip] by (auto simp: auth_generate_tokens_def)
next
  case (Op_Session e i ip a)
  then show ?thesis using create_session_ok [OF assms(1), of "al_hmac L" e i ip a] by (auto simp: auth_create_session_def)
next
  case (Op_Validate e t)
  then show ?thesis using validate_never [OF assms(1), of "al_hmac L" "al_junk L" e t] assms(1) by auto
next
  case (Op_Log e i d ip)
  have "r \<noteq> AUTH_ACCOUNT_LOCKED" if "log_attempt e i ip True d c = Done (r, c')" for r c'
    using that ok_unlocked [OF assms(1)] by (auto simp: log_attempt_def auth_lock_def split: sql_answer.splits)
  then show ?thesis using Op_Log log_attempt_ok [OF ok_unlocked [OF assms(1)], of e i ip True d] assms(1)
    by (auto simp: auth_log_security_event_def)
next
  case (Op_Callback b)
  then show ?thesis using assms(1) by (simp add: auth_register_callback_def)
qed

lemma auth_run_ok:
  assumes "auth_ok c" "pbkdf2_ok (al_pbkdf2 L)" "list_all op_ok ops"
  shows "(auth_run L ops (Some c) = Deadlock \<and> (\<exists>ops1 op ops2 rs c1. ops = ops1 @ op # ops2 \<and>
      auth_run L ops1 (Some c) = Done (rs, Some c1) \<and> fifth_failure L op c1)) \<or>
    (\<exists>rs c'. auth_run L ops (Some c) = Done (rs, Some c') \<and> auth_ok c' \<and> AUTH_ACCOUNT_LOCKED \<notin> set rs)"
  using assms(1,3)
proof (induction ops arbitrary: c)
  case (Cons op ops)
  then have "op_ok op" by simp
  from auth_step_ok [OF Cons.prems(1) assms(2) this]
  consider "auth_step L op (Some c) = Deadlock" "fifth_failure L op c"
    | r c' where "auth_step L op (Some c) = Done (r, Some c')" "auth_ok c'" "r \<noteq> AUTH_ACCOUNT_LOCKED" by blast
  then show ?case
  proof cases
    case 1
    have "auth_run L [] (Some c) = Done ([], Some c)" by simp
    with 1 show ?thesis by (intro disjI1) (fastforce intro: exI [of _ "[]"])
  next
    case 2
    have "list_all op_ok ops" using Cons.prems(2) by simp
    from Cons.IH [OF 2(2) this]
    consider ops1 op' ops2 rs c1 where "ops = ops1 @ op' # ops2" "auth_run L ops1 (Some c') = Done (rs, Some c1)"
        "fifth_failure L op' c1" "auth_run L ops (Some c') = Deadlock"
      | rs d where "auth_run L ops (Some c') = Done (rs, Some d)" "auth_ok d" "AUTH_ACCOUNT_LOCKED \<notin> set rs" by blast
    then show ?thesis
    proof cases
      case (1 ops1 op' ops2 rs c1)
      have "auth_run L (op # ops1) (Some c) = Done (r # rs, Some c1)" "op # ops = (op # ops1) @ op' # ops2"
        "auth_run L (op # ops) (Some c) = Deadlock" using 1 2(1) by simp_all
      then show ?thesis using 1(3) by blast
    next
      case d: (2 rs d)
      show ?thesis using d 2 by auto
    qed
  qed
qed simp


lemma init_users:
  assumes "auth_init pbkdf2 uninit e ok None secret = Done (AUTH_SUCCESS, Some c)"
  shows "\<not> ac_locked c \<and> ac_sessions c = [] \<and>
    ((ac_users c = [] \<and> ac_next_user c = 1) \<or>
     (fst uninit \<le> 64 \<and> ac_next_user c = 2 \<and> ac_users c = [(new_user 1 ''admin'' ''Administrator'' ''admin@localhost''
        (take (fst uninit) (snd uninit)) (ae_salt e) (ae_clock e 0))\<lparr>u_verified := True, u_admin := True\<rparr>]))"
  using assms admin_password_weak
  by (auto simp: auth_init_def create_tables_def empty_ctx_def auth_lock_def auth_unlock_def auth_generate_password_hash_def
      insert_user_def Let_def split: option.splits if_splits)

lemma init_ok:
  assumes "auth_init pbkdf2 uninit e ok None secret = Done (AUTH_SUCCESS, Some c)" "env_ok e"
  shows "auth_ok c"
proof -
  have "auth_validate_username (Some ''admin'')"
    by (simp add: auth_validate_username_def isalnum_def isalpha_def islower_def code_def)
  then show ?thesis using init_users [OF assms(1)] assms(2)
    by (auto simp: auth_ok_def users_ok_def sessions_ok_def user_ok_def new_user_def env_ok_def)
qed

section \<open>A concrete library and environment\<close>

definition demo_pbkdf2 :: "string \<Rightarrow> byte list \<Rightarrow> byte list option" where
  "demo_pbkdf2 p s = Some (take 64 (map (\<lambda>c. of_nat (code c)) p @ replicate 64 0))"

definition demo_hmac :: "byte list \<Rightarrow> string \<Rightarrow> byte list option" where
  "demo_hmac k t = Some (replicate 32 (of_nat (length t)))"

definition demo_lib :: auth_lib where
  "demo_lib = \<lparr>al_validate = list_ex isalpha, al_pbkdf2 = demo_pbkdf2, al_hmac = demo_hmac, al_junk = []\<rparr>"

definition demo_env :: auth_env where
  "demo_env = \<lparr>ae_clock = (\<lambda>_. 1000), ae_sql = (\<lambda>_. Sql_Done), ae_random = (\<lambda>_. []), ae_salt = replicate 32 7\<rparr>"

definition demo_ctx :: auth_ctx where
  "demo_ctx = empty_ctx ''0123456789abcdef0123456789abcdef'' []"

lemma demo_env_simps [simp]:
  "ae_clock demo_env n = 1000" "ae_sql demo_env n = Sql_Done" "ae_salt demo_env = replicate 32 7" "env_ok demo_env"
  by (simp_all add: demo_env_def env_ok_def)

lemma demo_pbkdf2_ok: "pbkdf2_ok demo_pbkdf2"
  by (auto simp: pbkdf2_ok_def demo_pbkdf2_def min_def)

lemma demo_init:
  "\<exists>c. auth_init (al_pbkdf2 demo_lib) (0, []) demo_env (\<lambda>_. True) None ''0123456789abcdef0123456789abcdef'' = Done (AUTH_SUCCESS, Some c)"
  using admin_password_weak
  by (simp add: demo_lib_def demo_pbkdf2_def auth_init_def create_tables_def empty_ctx_def auth_lock_def auth_unlock_def
      auth_generate_password_hash_def insert_user_def Let_def)

section \<open>Properties\<close>

text \<open>
  (C19) Accounts and sessions stay consistent in every run after initialisation, whatever statements fail: user
  names, addresses, numbers and tokens are unique, sessions belong to users, no operation leaves the mutex
  locked, reads outside its arrays or uses an undefined value. The only way a run stops is a wrong password for an
  account whose row counts four failed attempts: it is about to lock the account and locks \<open>db_mutex\<close> twice. (The count
  goes back to zero only when the UPDATE after a correct login succeeds.) So no account is ever locked, against what the
  README promises, and no operation reports a locked account.
\<close>

theorem accounts_stay_consistent:
  assumes "pbkdf2_ok (al_pbkdf2 L)" "env_ok e" "list_all op_ok ops"
    and "auth_init (al_pbkdf2 L) uninit e ok None secret = Done (AUTH_SUCCESS, Some c)"
  shows "(auth_run L ops (Some c) = Deadlock \<and> (\<exists>ops1 op ops2 rs c1. ops = ops1 @ op # ops2 \<and>
      auth_run L ops1 (Some c) = Done (rs, Some c1) \<and> fifth_failure L op c1)) \<or>
    (\<exists>rs c'. auth_run L ops (Some c) = Done (rs, Some c') \<and> auth_ok c' \<and> AUTH_ACCOUNT_LOCKED \<notin> set rs)"
  using init_ok [OF assms(4,2)] assms(1,3) by (rule auth_run_ok)

lemma accounts_stay_consistent_witness:
  "\<exists>c rs c'. auth_init (al_pbkdf2 demo_lib) (0, []) demo_env (\<lambda>_. True) None ''0123456789abcdef0123456789abcdef'' = Done (AUTH_SUCCESS, Some c) \<and>
     auth_run demo_lib [Op_Register demo_env ''alice'' ''Secret123'' ''a@b.c'' ''Al'' ''::1'' True, Op_Validate demo_env ''AT_'', Op_Callback True]
       (Some c) = Done (rs, Some c') \<and> auth_ok c' \<and> AUTH_ACCOUNT_LOCKED \<notin> set rs"
proof -
  let ?ops = "[Op_Register demo_env ''alice'' ''Secret123'' ''a@b.c'' ''Al'' ''::1'' True, Op_Validate demo_env ''AT_'', Op_Callback True]"
  obtain c where c: "auth_init (al_pbkdf2 demo_lib) (0, []) demo_env (\<lambda>_. True) None ''0123456789abcdef0123456789abcdef'' = Done (AUTH_SUCCESS, Some c)"
    using demo_init by blast
  have lib: "pbkdf2_ok (al_pbkdf2 demo_lib)" by (simp add: demo_lib_def demo_pbkdf2_ok)
  have no: "\<not> fifth_failure demo_lib op c1" if "op \<in> set ?ops" for op c1 using that by auto
  have "list_all op_ok ?ops" by simp
  from accounts_stay_consistent [OF lib demo_env_simps(4) this c] show ?thesis
  proof (elim disjE conjE exE)
    fix ops1 op ops2 rs c1 assume "?ops = ops1 @ op # ops2" "fifth_failure demo_lib op c1"
    moreover from this(1) have "op \<in> set ?ops" by (metis in_set_conv_decomp)
    ultimately show ?thesis using no by blast
  qed (use c in blast)
qed

text \<open>
  (C22) No token is ever accepted: in every state that a run reaches, \<open>auth_validate_token\<close> refuses every string. A
  stored token is cut to 63 characters by its buffer of \<open>AUTH_TOKEN_LENGTH\<close> bytes, and the signature check
  begins by refusing everything shorter than 64. This is a defect: \<open>test_auth.c\<close> expects that the token of a login is
  accepted.
\<close>

theorem no_token_accepted:
  assumes "pbkdf2_ok (al_pbkdf2 L)" "env_ok e" "list_all op_ok ops"
    and "auth_init (al_pbkdf2 L) uninit e ok None secret = Done (AUTH_SUCCESS, Some c)"
    and "auth_run L ops (Some c) = Done (rs, Some c')"
  shows "\<exists>r x. auth_validate_token (al_hmac L) (al_junk L) e' (Some c') (Some t) = Done (r, x, Some c') \<and> r \<noteq> AUTH_SUCCESS"
proof -
  have "auth_ok c'" using auth_run_ok [OF init_ok [OF assms(4,2)] assms(1,3)] assms(5) by auto
  then show ?thesis using validate_never by blast
qed

lemma no_token_accepted_witness:
  "\<exists>r x c. auth_validate_token demo_hmac [] demo_env (Some c) (Some ''AT_1_4600_'') = Done (r, x, Some c) \<and> r \<noteq> AUTH_SUCCESS"
proof -
  obtain c where c: "auth_init (al_pbkdf2 demo_lib) (0, []) demo_env (\<lambda>_. True) None ''0123456789abcdef0123456789abcdef'' = Done (AUTH_SUCCESS, Some c)"
    using demo_init by blast
  have lib: "pbkdf2_ok (al_pbkdf2 demo_lib)" by (simp add: demo_lib_def demo_pbkdf2_ok)
  have run: "auth_run demo_lib [] (Some c) = Done ([], Some c)" "list_all op_ok []" by simp_all
  from no_token_accepted [OF lib demo_env_simps(4) run(2) c run(1), of demo_env "''AT_1_4600_''"] show ?thesis
    by (auto simp: demo_lib_def)
qed

text \<open>
  (C20) Tokens need the password: when a login hands out tokens, there is an active account with that name or
  address whose stored hash is the hash of the given password with its salt.
\<close>

theorem tokens_need_password:
  assumes "auth_ok c" "env_ok e"
    and "auth_login_user pbkdf2 hmac e (Some c) (Some n) (Some p) (Some ip) a tok = Done (r, Some t, g)"
  shows "\<exists>u. u \<in> set (ac_users c) \<and> (u_username u = n \<or> u_email u = n) \<and> u_active u \<and> pbkdf2 p (u_salt u) = Some (u_hash u)"
proof -
  have "\<exists>u. u \<in> set (ac_users c) \<and> matches n u \<and> u_active u \<and> auth_verify_password pbkdf2 p (u_salt u) (u_hash u)"
    using login_ok [OF assms(1,2), of pbkdf2 hmac n p ip a tok] assms(3) by (auto simp: auth_login_user_def obind_Done)
  then show ?thesis by (auto simp: matches_def auth_verify_password_def split: option.splits if_splits)
qed


definition demo_user_ctx :: auth_ctx where
  "demo_user_ctx = demo_ctx\<lparr>ac_users := [new_user 1 ''alice'' ''Al'' ''a@b.c'' (the (demo_pbkdf2 ''Secret123'' [])) (replicate 32 7) 0],
     ac_next_user := 2\<rparr>"

lemma demo_user_ctx_ok: "auth_ok demo_user_ctx"
  by (simp add: demo_user_ctx_def demo_ctx_def empty_ctx_def auth_ok_def users_ok_def sessions_ok_def user_ok_def new_user_def
      demo_pbkdf2_def auth_validate_username_def isalnum_def isalpha_def islower_def code_def)

lemma issue_tokens_success:
  assumes "auth_ok c" "generate_tokens hmac (later 5 e) (u_id u) ip c = Done (AUTH_SUCCESS, Some tk, c1)"
  shows "\<exists>t c'. issue_tokens hmac e now u ip a c = Done (AUTH_SUCCESS, Some t, c')"
proof -
  have "auth_ok c1" using generate_tokens_ok [OF assms(1), of hmac "later 5 e" "u_id u" ip] assms(2) by auto
  from create_session_ok [OF this, of hmac "later 8 e" "u_id u" ip "Some (case a of Some a \<Rightarrow> a | None \<Rightarrow> ''Unknown'')"]
  show ?thesis using assms(2) by (auto simp: issue_tokens_def)
qed

lemma generate_tokens_first:
  assumes "auth_ok c" "ac_sessions c = []" "i \<in> u_id ` set (ac_users c)" "ae_sql e 0 = Sql_Done" "\<And>k t. hmac k t \<noteq> None"
  shows "\<exists>t c'. generate_tokens hmac e i ip c = Done (AUTH_SUCCESS, Some t, c')"
proof -
  have "generate_access_token hmac (ac_key c) (ae_clock e 1) (ae_random e 0) i ip \<noteq> None"
    "generate_refresh_token hmac (ac_key c) (ae_clock e 2) i ip \<noteq> None"
    using assms(5) by (simp_all add: generate_access_token_def generate_refresh_token_def Let_def split: option.splits)
  then obtain acc ref where "generate_access_token hmac (ac_key c) (ae_clock e 1) (ae_random e 0) i ip = Some acc"
      "generate_refresh_token hmac (ac_key c) (ae_clock e 2) i ip = Some ref" by blast
  then show ?thesis using assms ok_unlocked [OF assms(1)]
    by (auto simp: generate_tokens_def auth_lock_def insert_session_def list_ex_iff Let_def)
qed

lemma demo_login:
  "\<exists>t g. auth_login_user demo_pbkdf2 demo_hmac demo_env (Some demo_user_ctx) (Some ''alice'') (Some ''Secret123'') (Some ''::1'') None True =
     Done (AUTH_SUCCESS, Some t, g)"
proof -
  have limit: "rate_limit_check demo_env ''::1'' (Some ''alice'') demo_user_ctx = Done (AUTH_SUCCESS, demo_user_ctx)"
    by (simp add: rate_limit_check_def auth_lock_def auth_unlock_def demo_user_ctx_def demo_ctx_def empty_ctx_def ip_failures_def
        user_failures_def sql_count_def Let_def)
  let ?u = "new_user 1 ''alice'' ''Al'' ''a@b.c'' (the (demo_pbkdf2 ''Secret123'' [])) (replicate 32 7) 0"
  let ?f = "\<lambda>r. r\<lparr>u_attempts := 0, u_last_attempt := 1000, u_locked_until := 0, u_last_login := 1000, u_last_ip := Some ''::1''\<rparr>"
  define c1 where "c1 = auth_unlock (demo_user_ctx\<lparr>ac_locked := True, ac_users := sql_update (\<lambda>r. u_id r = u_id ?u) ?f (ac_users demo_user_ctx)\<rparr>)"
  have "auth_ok (auth_unlock (demo_user_ctx\<lparr>ac_users := sql_update (\<lambda>r. u_id r = u_id ?u) ?f (ac_users demo_user_ctx)\<rparr>))"
    using demo_user_ctx_ok by (intro ok_update) (auto simp: auth_ok_def user_ok_def)
  then have ok1: "auth_ok c1" by (simp add: c1_def auth_unlock_def)
  have s1: "ac_sessions c1 = []" "1 \<in> u_id ` set (ac_users c1)"
    by (simp_all add: c1_def auth_unlock_def demo_user_ctx_def demo_ctx_def empty_ctx_def sql_update_def new_user_def)
  obtain r ls where log: "log_attempt (later 4 demo_env) (u_id ?u) ''::1'' True (Some ''Login successful'') c1 = Done (r, c1\<lparr>ac_logs := ls\<rparr>)"
    using log_attempt_ok [OF ok_unlocked [OF ok1]] by blast
  have "\<exists>t c'. generate_tokens demo_hmac (later 5 demo_env) 1 ''::1'' (c1\<lparr>ac_logs := ls\<rparr>) = Done (AUTH_SUCCESS, Some t, c')"
    using ok1 s1 by (intro generate_tokens_first) (simp_all add: demo_hmac_def)
  then obtain tk c2 where gen: "generate_tokens demo_hmac (later 5 demo_env) (u_id ?u) ''::1'' (c1\<lparr>ac_logs := ls\<rparr>) = Done (AUTH_SUCCESS, Some tk, c2)"
    by (auto simp: new_user_def)
  have ok2: "auth_ok (c1\<lparr>ac_logs := ls\<rparr>)" using ok1 by simp
  obtain t c' where iss: "issue_tokens demo_hmac demo_env 1000 ?u ''::1'' None (c1\<lparr>ac_logs := ls\<rparr>) = Done (AUTH_SUCCESS, Some t, c')"
    using issue_tokens_success [OF ok2 gen] by blast
  have find: "find (matches ''alice'') (ac_users demo_user_ctx) = Some ?u"
    by (simp add: demo_user_ctx_def matches_def new_user_def)
  have ver: "auth_verify_password demo_pbkdf2 ''Secret123'' (u_salt ?u) (u_hash ?u)"
    by (simp add: auth_verify_password_def demo_pbkdf2_def new_user_def)
  have "login demo_pbkdf2 demo_hmac demo_env ''alice'' ''Secret123'' ''::1'' None True demo_user_ctx =
      successful_attempt demo_hmac demo_env 1000 ?u ''::1'' None True (demo_user_ctx\<lparr>ac_locked := True\<rparr>)"
    using find ver unfolding login_unlimited [OF demo_user_ctx_ok limit] by (simp add: new_user_def)
  also have "\<dots> = Done (AUTH_SUCCESS, Some t, c')"
    using log iss by (simp add: successful_attempt_def Let_def c1_def)
  finally show ?thesis by (simp add: auth_login_user_def)
qed

lemma tokens_need_password_witness:
  "\<exists>u. u \<in> set (ac_users demo_user_ctx) \<and> (u_username u = ''alice'' \<or> u_email u = ''alice'') \<and> u_active u \<and>
     demo_pbkdf2 ''Secret123'' (u_salt u) = Some (u_hash u)"
proof -
  obtain t g where "auth_login_user demo_pbkdf2 demo_hmac demo_env (Some demo_user_ctx) (Some ''alice'') (Some ''Secret123'') (Some ''::1'') None True =
      Done (AUTH_SUCCESS, Some t, g)" using demo_login by blast
  from tokens_need_password [OF demo_user_ctx_ok demo_env_simps(4) this] show ?thesis .
qed


text \<open>
  What a login without tokens does to a known account when the rate limiter lets it pass and the statements
  work. A disabled account is refused. The right password succeeds and resets the failure counter. A wrong
  one is counted, and the fifth in a row takes \<open>db_mutex\<close> a second time through \<open>auth_log_security_event\<close>:
  the thread hangs with the database locked instead of locking the account.
\<close>

theorem login_outcomes:
  assumes "auth_ok c" "env_ok e" "rate_limit_check e ip (Some n) c = Done (AUTH_SUCCESS, c)" "ae_sql e 2 = Sql_Done" "ae_sql e 3 = Sql_Done"
    and "find (matches n) (ac_users c) = Some u"
  shows "if \<not> u_active u then \<exists>c'. login pbkdf2 hmac e n p ip a False c = Done (AUTH_ACCOUNT_DISABLED, None, c') \<and> ac_users c' = ac_users c
    else if auth_verify_password pbkdf2 p (u_salt u) (u_hash u) then
      \<exists>c'. login pbkdf2 hmac e n p ip a False c = Done (AUTH_SUCCESS, None, c') \<and> find (\<lambda>r. u_id r = u_id u) (ac_users c') =
        Some (u\<lparr>u_attempts := 0, u_last_attempt := ae_clock e 1, u_locked_until := 0, u_last_login := ae_clock e 1, u_last_ip := Some ip\<rparr>)
    else if u_attempts u < 4 then
      \<exists>c'. login pbkdf2 hmac e n p ip a False c = Done (AUTH_INVALID_CREDENTIALS, None, c') \<and> find (\<lambda>r. u_id r = u_id u) (ac_users c') =
        Some (u\<lparr>u_attempts := u_attempts u + 1, u_last_attempt := ae_clock e 1\<rparr>)
    else login pbkdf2 hmac e n p ip a False c = Deadlock"
proof -
  have u: "u \<in> set (ac_users c)" using find_user [OF assms(6)] by simp
  have uo: "u_locked_until u = 0" "u_attempts u < 5" using ok_user [OF assms(1) u] by (simp_all add: user_ok_def)
  have nolock: "\<not> ae_clock e 1 < u_locked_until u" "\<not> ae_clock e 1 < 0" using uo(1) assms(2) by (auto simp: env_ok_def not_less)
  have ids: "distinct (map u_id (ac_users c))" using assms(1) by (simp add: auth_ok_def users_ok_def)
  have upd: "find (\<lambda>r. u_id r = u_id u) (sql_update (\<lambda>r. u_id r = u_id u) f (ac_users c)) = Some (f u)"
    if "\<And>r. u_id (f r) = u_id r" for f
    using find_update [OF ids u, of f] that by simp
  have four: "u_attempts u = 4 \<longleftrightarrow> \<not> u_attempts u < 4"
    using uo(2) by (auto simp: word_less_nat_alt word_unat_eq_iff)
  note eq = login_unlimited [OF assms(1,3), of pbkdf2 hmac p a False]
  show ?thesis
  proof (cases "u_active u")
    case False
    then show ?thesis unfolding eq using assms(4,6) nolock
        log_attempt_ok [OF ok_unlocked [OF assms(1)], of "later 4 e" "u_id u" ip False "Some ''Account disabled''"] by auto
  next
    case act: True
    show ?thesis
    proof (cases "auth_verify_password pbkdf2 p (u_salt u) (u_hash u)")
      case True
      obtain r t c' where s: "successful_attempt hmac e (ae_clock e 1) u ip a False (c\<lparr>ac_locked := True\<rparr>) = Done (AUTH_SUCCESS, None, c')"
        "ac_users c' = sql_update (\<lambda>r. u_id r = u_id u) (\<lambda>r. r\<lparr>u_attempts := 0, u_last_attempt := ae_clock e 1, u_locked_until := 0,
           u_last_login := ae_clock e 1, u_last_ip := Some ip\<rparr>) (ac_users c)"
        using successful_attempt_ok [OF assms(1), of hmac e "ae_clock e 1" u ip a False] assms(5) by auto
      show ?thesis unfolding eq using s act True assms(4,6) nolock upd by simp
    next
      case wrong: False
      show ?thesis
      proof (cases "u_attempts u < 4")
        case False
        then show ?thesis unfolding eq using act wrong assms(4,6) nolock four failed_attempt_ok [OF assms(1) u, of e "ae_clock e 1" ip]
          by simp
      next
        case True
        then obtain c' where f: "failed_attempt e (ae_clock e 1) u ip (c\<lparr>ac_locked := True\<rparr>) = Done (AUTH_INVALID_CREDENTIALS, c')"
          "ac_users c' = sql_update (\<lambda>r. u_id r = u_id u) (\<lambda>r. r\<lparr>u_attempts := u_attempts u + 1, u_last_attempt := ae_clock e 1,
             u_locked_until := 0\<rparr>) (ac_users c)"
          using failed_attempt_ok [OF assms(1) u, of e "ae_clock e 1" ip] four nolock(2) assms(5) by auto
        have "u\<lparr>u_attempts := u_attempts u + 1, u_last_attempt := ae_clock e 1, u_locked_until := 0\<rparr> =
            u\<lparr>u_attempts := u_attempts u + 1, u_last_attempt := ae_clock e 1\<rparr>" using uo(1) by simp
        then show ?thesis unfolding eq using f True act wrong assms(4,6) nolock upd by simp
      qed
    qed
  qed
qed

lemma demo_unlimited: "rate_limit_check demo_env ip (Some n) (demo_user_ctx\<lparr>ac_users := us\<rparr>) = Done (AUTH_SUCCESS, demo_user_ctx\<lparr>ac_users := us\<rparr>)"
  by (simp add: rate_limit_check_def auth_lock_def auth_unlock_def demo_user_ctx_def demo_ctx_def empty_ctx_def ip_failures_def
      user_failures_def sql_count_def Let_def)

lemma login_outcomes_witness:
  "login demo_pbkdf2 demo_hmac demo_env ''alice'' ''wrong'' ''::1'' None False
     (demo_user_ctx\<lparr>ac_users := [(hd (ac_users demo_user_ctx))\<lparr>u_attempts := 4\<rparr>]\<rparr>) = Deadlock"
proof -
  let ?u = "(hd (ac_users demo_user_ctx))\<lparr>u_attempts := 4\<rparr>"
  let ?c = "demo_user_ctx\<lparr>ac_users := [?u]\<rparr>"
  have ok: "auth_ok ?c" using demo_user_ctx_ok
    by (simp add: demo_user_ctx_def auth_ok_def users_ok_def sessions_ok_def user_ok_def)
  have find: "find (matches ''alice'') (ac_users ?c) = Some ?u"
    by (simp add: demo_user_ctx_def matches_def new_user_def)
  have s: "ae_sql demo_env 2 = Sql_Done" "ae_sql demo_env 3 = Sql_Done" by simp_all
  have bad: "\<not> auth_verify_password demo_pbkdf2 ''wrong'' (u_salt ?u) (u_hash ?u)"
    by (simp add: auth_verify_password_def demo_pbkdf2_def demo_user_ctx_def new_user_def code_def)
  have act: "u_active ?u" "\<not> u_attempts ?u < 4" by (simp_all add: demo_user_ctx_def new_user_def)
  from login_outcomes [OF ok demo_env_simps(4) demo_unlimited s find, of demo_pbkdf2 demo_hmac "''wrong''" "''::1''" None]
  show ?thesis using bad act by simp
qed



definition demo_registered :: auth_ctx where
  "demo_registered = (case register (list_ex isalpha) demo_pbkdf2 demo_hmac demo_env ''alice'' ''Secret123'' ''a@b.c'' ''Al'' ''::1'' False demo_ctx of
     Done (_, _, c) \<Rightarrow> c | _ \<Rightarrow> demo_ctx)"


text \<open>
  The default administrator is unusable: his password is refused as too weak, the refusal is ignored, and the
  stored hash is whatever the two local variables held before. No password fits it unless they happened
  to hold 64 bytes that are its hash, and a length above 64 overruns the arrays.
\<close>

theorem default_admin_hash_uninitialised:
  assumes "env_ok e" "\<And>n. ae_sql e n = Sql_Done" "\<And>n. ok n" "32 \<le> length secret" "pbkdf2 secret (map (\<lambda>c. of_nat (code c)) ''auth_salt'') = Some key"
  shows "if fst uninit > 64 then auth_init pbkdf2 uninit e ok None secret = Undefined_Behaviour
    else \<exists>c u. auth_init pbkdf2 uninit e ok None secret = Done (AUTH_SUCCESS, Some c) \<and> ac_users c = [u] \<and> u_username u = ''admin'' \<and>
      u_hash u = take (fst uninit) (snd uninit) \<and>
      (auth_verify_password pbkdf2 p (u_salt u) (u_hash u) \<longleftrightarrow>
         length (take (fst uninit) (snd uninit)) = 64 \<and> pbkdf2 p (ae_salt e) = Some (take (fst uninit) (snd uninit)))"
proof (cases "fst uninit > 64")
  case True
  then show ?thesis using assms(2-5) admin_password_weak
    by (simp add: auth_init_def create_tables_def empty_ctx_def auth_lock_def auth_unlock_def auth_generate_password_hash_def Let_def)
next
  case False
  let ?u = "(new_user 1 ''admin'' ''Administrator'' ''admin@localhost'' (take (fst uninit) (snd uninit)) (ae_salt e)
      (ae_clock e 0))\<lparr>u_verified := True, u_admin := True\<rparr>"
  have "\<exists>c. auth_init pbkdf2 uninit e ok None secret = Done (AUTH_SUCCESS, Some c) \<and> ac_users c = [?u]"
    using False assms(2-5) admin_password_weak
    by (simp add: auth_init_def create_tables_def empty_ctx_def auth_lock_def auth_unlock_def auth_generate_password_hash_def Let_def
        insert_user_def not_less)
  then obtain c where c: "auth_init pbkdf2 uninit e ok None secret = Done (AUTH_SUCCESS, Some c)" "ac_users c = [?u]" by blast
  have u: "u_username ?u = ''admin''" "u_hash ?u = take (fst uninit) (snd uninit)" "u_salt ?u = ae_salt e"
    by (simp_all add: new_user_def)
  have v: "auth_verify_password pbkdf2 p s b \<longleftrightarrow> length b = 64 \<and> pbkdf2 p s = Some b" for s b
    by (auto simp: auth_verify_password_def split: option.splits)
  have "auth_init pbkdf2 uninit e ok None secret = Done (AUTH_SUCCESS, Some c) \<and> ac_users c = [?u] \<and> u_username ?u = ''admin'' \<and>
      u_hash ?u = take (fst uninit) (snd uninit) \<and>
      (auth_verify_password pbkdf2 p (u_salt ?u) (u_hash ?u) \<longleftrightarrow>
         length (take (fst uninit) (snd uninit)) = 64 \<and> pbkdf2 p (ae_salt e) = Some (take (fst uninit) (snd uninit)))"
    unfolding v u using c by blast
  then show ?thesis using False by auto
qed

lemma default_admin_hash_uninitialised_witness:
  "\<exists>c u. auth_init demo_pbkdf2 (0, []) demo_env (\<lambda>_. True) None ''0123456789abcdef0123456789abcdef'' = Done (AUTH_SUCCESS, Some c) \<and>
     ac_users c = [u] \<and> u_username u = ''admin'' \<and> \<not> auth_verify_password demo_pbkdf2 ''admin123'' (u_salt u) (u_hash u)"
proof -
  obtain key where key: "demo_pbkdf2 ''0123456789abcdef0123456789abcdef'' (map (\<lambda>c. of_nat (code c)) ''auth_salt'') = Some key"
    by (simp add: demo_pbkdf2_def)
  have len: "32 \<le> length ''0123456789abcdef0123456789abcdef''" by simp
  from default_admin_hash_uninitialised [where e = demo_env and ok = "\<lambda>_. True" and secret = "''0123456789abcdef0123456789abcdef''" and ?pbkdf2.0 = demo_pbkdf2
    and key = key and uninit = "(0, [])" and p = "''admin123''", OF demo_env_simps(4) demo_env_simps(2) TrueI len key]
  show ?thesis by (auto simp: auth_verify_password_def)
qed

end
