(* ===== verification/File_Transfer.thy ===== *)
theory File_Transfer
  imports Codec
begin

text \<open>
  File transfers, \<open>server/src/file_transfer.c\<close>: configuration, the chunks of a single transfer session, their
  decryption and decompression, checksums and completion. The file system is a map from paths to
  contents. AES, zlib and SHA-256 come from libraries and are function arguments: decryption and
  encryption with \<open>None\<close> for a reported error, \<open>inflate\<close> and \<open>deflate\<close> of whole streams, and the digest. How calls into
  the C library answer is given by \<open>io\<close>: number \<open>n\<close> is the \<open>n\<close>-th fallible call in the text of the function.
\<close>

section \<open>Types and configuration\<close>

datatype ft_status = FT_STATUS_PENDING | FT_STATUS_PREPARING | FT_STATUS_TRANSFERRING | FT_STATUS_PAUSED | FT_STATUS_COMPLETED
  | FT_STATUS_FAILED | FT_STATUS_CANCELLED | FT_STATUS_VERIFYING | FT_STATUS_CLEANUP

datatype ft_error = FT_SUCCESS | FT_ERROR_INVALID_PARAMS | FT_ERROR_FILE_NOT_FOUND | FT_ERROR_FILE_TOO_LARGE
  | FT_ERROR_PERMISSION_DENIED | FT_ERROR_DISK_FULL | FT_ERROR_NETWORK | FT_ERROR_TIMEOUT | FT_ERROR_CHECKSUM_MISMATCH
  | FT_ERROR_ENCRYPTION | FT_ERROR_DECRYPTION | FT_ERROR_INTERRUPTED | FT_ERROR_CONCURRENT_LIMIT | FT_ERROR_INVALID_STATE
  | FT_ERROR_MEMORY | FT_ERROR_IO | FT_ERROR_INVALID_CHUNK | FT_ERROR_TRANSFER_NOT_FOUND | FT_ERROR_RESUME_FAILED
  | FT_ERROR_COMPRESSION | FT_ERROR_DECOMPRESSION

definition ft_error_to_string :: "ft_error \<Rightarrow> string" where
  "ft_error_to_string e = (case e of FT_SUCCESS \<Rightarrow> ''Success'' | FT_ERROR_INVALID_PARAMS \<Rightarrow> ''Invalid parameters''
     | FT_ERROR_FILE_NOT_FOUND \<Rightarrow> ''File not found'' | FT_ERROR_FILE_TOO_LARGE \<Rightarrow> ''File too large''
     | FT_ERROR_PERMISSION_DENIED \<Rightarrow> ''Permission denied'' | FT_ERROR_DISK_FULL \<Rightarrow> ''Disk full'' | FT_ERROR_NETWORK \<Rightarrow> ''Network error''
     | FT_ERROR_TIMEOUT \<Rightarrow> ''Timeout'' | FT_ERROR_CHECKSUM_MISMATCH \<Rightarrow> ''Checksum mismatch'' | FT_ERROR_ENCRYPTION \<Rightarrow> ''Encryption error''
     | FT_ERROR_DECRYPTION \<Rightarrow> ''Decryption error'' | FT_ERROR_INTERRUPTED \<Rightarrow> ''Transfer interrupted''
     | FT_ERROR_CONCURRENT_LIMIT \<Rightarrow> ''Concurrent transfer limit reached'' | FT_ERROR_INVALID_STATE \<Rightarrow> ''Invalid transfer state''
     | FT_ERROR_MEMORY \<Rightarrow> ''Memory allocation error'' | FT_ERROR_IO \<Rightarrow> ''I/O error'' | FT_ERROR_INVALID_CHUNK \<Rightarrow> ''Invalid chunk''
     | FT_ERROR_TRANSFER_NOT_FOUND \<Rightarrow> ''Transfer not found'' | FT_ERROR_RESUME_FAILED \<Rightarrow> ''Resume failed''
     | FT_ERROR_COMPRESSION \<Rightarrow> ''Compression error'' | FT_ERROR_DECOMPRESSION \<Rightarrow> ''Decompression error'')"

definition ft_status_to_string :: "ft_status \<Rightarrow> string" where
  "ft_status_to_string s = (case s of FT_STATUS_PENDING \<Rightarrow> ''Pending'' | FT_STATUS_PREPARING \<Rightarrow> ''Preparing''
     | FT_STATUS_TRANSFERRING \<Rightarrow> ''Transferring'' | FT_STATUS_PAUSED \<Rightarrow> ''Paused'' | FT_STATUS_COMPLETED \<Rightarrow> ''Completed''
     | FT_STATUS_FAILED \<Rightarrow> ''Failed'' | FT_STATUS_CANCELLED \<Rightarrow> ''Cancelled'' | FT_STATUS_VERIFYING \<Rightarrow> ''Verifying''
     | FT_STATUS_CLEANUP \<Rightarrow> ''Cleanup'')"

record ft_config =
  fc_chunk_size :: "32 word"
  fc_max_retries :: "32 word"
  fc_timeout_ms :: "32 word"
  fc_max_concurrent :: "32 word"
  fc_encryption :: bool
  fc_compression :: bool
  fc_resume :: bool
  fc_verify :: bool
  fc_storage :: string
  fc_temp :: string
  fc_max_file_size :: "64 word"

definition DEFAULT_FT_CONFIG :: ft_config where
  "DEFAULT_FT_CONFIG = \<lparr>fc_chunk_size = 16384, fc_max_retries = 3, fc_timeout_ms = 30000, fc_max_concurrent = 100,
     fc_encryption = True, fc_compression = True, fc_resume = True, fc_verify = True, fc_storage = ''./storage'', fc_temp = ''./temp'',
     fc_max_file_size = 104857600\<rparr>"

definition ft_validate_config :: "ft_config option \<Rightarrow> ft_error" where
  "ft_validate_config config =
     (case config of None \<Rightarrow> FT_ERROR_INVALID_PARAMS
      | Some c \<Rightarrow>
          if fc_chunk_size c = 0 \<or> fc_chunk_size c > 104857600 then FT_ERROR_INVALID_PARAMS
          else if fc_max_retries c > 10 then FT_ERROR_INVALID_PARAMS
          else if fc_timeout_ms c = 0 \<or> fc_timeout_ms c > 300000 then FT_ERROR_INVALID_PARAMS
          else if fc_max_concurrent c = 0 \<or> fc_max_concurrent c > 1000 then FT_ERROR_INVALID_PARAMS
          else if fc_max_file_size c = 0 \<or> fc_max_file_size c > 10995116277760 then FT_ERROR_INVALID_PARAMS
          else FT_SUCCESS)"

type_synonym file_system = "string \<rightharpoonup> byte list"

datatype file_type = FILE_TYPE_UNKNOWN | FILE_TYPE_IMAGE | FILE_TYPE_AUDIO | FILE_TYPE_VIDEO | FILE_TYPE_DOCUMENT | FILE_TYPE_ARCHIVE
  | FILE_TYPE_EXECUTABLE

record file_metadata =
  md_file_id :: "64 word"
  md_uploader :: "64 word"
  md_filename :: string
  md_original :: string
  md_mime :: string
  md_size :: "64 word"
  md_type :: file_type
  md_hash :: string
  md_encrypted :: byte
  md_compressed :: byte
  md_uploaded_at :: "64 word"
  md_expires_at :: "64 word"

definition no_metadata :: file_metadata where
  "no_metadata = \<lparr>md_file_id = 0, md_uploader = 0, md_filename = [], md_original = [], md_mime = [], md_size = 0, md_type = FILE_TYPE_UNKNOWN,
     md_hash = [], md_encrypted = 0, md_compressed = 0, md_uploaded_at = 0, md_expires_at = 0\<rparr>"

record ft_session =
  fs_id :: "64 word"
  fs_user :: "64 word"
  fs_peer :: "64 word"
  fs_local :: string
  fs_remote :: string
  fs_temp :: string
  fs_meta :: file_metadata
  fs_mode :: nat
  fs_status :: ft_status
  fs_encryption :: bool
  fs_key :: "byte list"
  fs_iv :: "byte list"
  fs_compression :: bool
  fs_current_chunk :: "32 word"
  fs_total_chunks :: "32 word"
  fs_bytes :: "64 word"
  fs_total :: "64 word"
  fs_retry :: "32 word"
  fs_error_chunks :: "32 word list"
  fs_start :: int
  fs_last_activity :: int
  fs_expected :: string
  fs_locked :: bool
  fs_progress_cb :: bool
  fs_completion_cb :: bool
  fs_error_cb :: bool
  fs_next :: "nat option"
  fs_prev :: "nat option"

record ft_lib =
  fl_decrypt :: "byte list \<Rightarrow> byte list \<Rightarrow> byte list \<Rightarrow> byte list option"
  fl_encrypt :: "byte list \<Rightarrow> byte list \<Rightarrow> byte list \<Rightarrow> byte list option"
  fl_inflate :: "byte list \<Rightarrow> byte list option"
  fl_deflate :: "byte list \<Rightarrow> byte list"
  fl_sha256 :: "byte list \<Rightarrow> byte list"

definition ft_lock :: "ft_session \<Rightarrow> ft_session outcome" where
  "ft_lock s = (if fs_locked s then Deadlock else Done (s\<lparr>fs_locked := True\<rparr>))"

definition ft_unlock :: "ft_session \<Rightarrow> ft_session" where
  "ft_unlock s = s\<lparr>fs_locked := False\<rparr>"

section \<open>Chunks\<close>

text \<open>\<open>(size + chunk_size - 1) / chunk_size\<close>, stored in 32 bits.\<close>

definition chunk_count :: "64 word \<Rightarrow> 32 word \<Rightarrow> 32 word" where
  "chunk_count file_size chunk_size = ucast ((file_size + ucast chunk_size - 1) div ucast chunk_size)"

text \<open>Writing at an offset; a gap behind the end is filled with zeros.\<close>

definition write_at :: "nat \<Rightarrow> byte list \<Rightarrow> byte list \<Rightarrow> byte list" where
  "write_at offset data content =
     take offset (content @ replicate (offset - length content) 0) @ data @ drop (offset + length data) content"

text \<open>\<open>ft_decompress_chunk\<close> with room for \<open>avail\<close> bytes, \<open>ft_compress_chunk\<close> likewise; \<open>ok\<close>: the zlib stream can be set up.\<close>

definition ft_decompress_chunk :: "ft_lib \<Rightarrow> bool \<Rightarrow> byte list \<Rightarrow> nat \<Rightarrow> ft_error \<times> byte list" where
  "ft_decompress_chunk L ok compressed avail =
     (if \<not> ok then (FT_ERROR_DECOMPRESSION, [])
      else (case fl_inflate L compressed of None \<Rightarrow> (FT_ERROR_DECOMPRESSION, [])
            | Some d \<Rightarrow> if length d \<le> avail then (FT_SUCCESS, d) else (FT_ERROR_DECOMPRESSION, [])))"

definition ft_compress_chunk :: "ft_lib \<Rightarrow> bool \<Rightarrow> byte list \<Rightarrow> nat \<Rightarrow> ft_error \<times> byte list" where
  "ft_compress_chunk L ok data avail =
     (if \<not> ok then (FT_ERROR_COMPRESSION, [])
      else if length (fl_deflate L data) \<le> avail then (FT_SUCCESS, fl_deflate L data) else (FT_ERROR_COMPRESSION, []))"

definition ft_decrypt_data :: "ft_lib \<Rightarrow> byte list \<Rightarrow> byte list \<Rightarrow> byte list \<Rightarrow> ft_error \<times> byte list" where
  "ft_decrypt_data L ciphertext key iv =
     (case fl_decrypt L key iv ciphertext of None \<Rightarrow> (FT_ERROR_DECRYPTION, []) | Some d \<Rightarrow> (FT_SUCCESS, d))"

definition ft_encrypt_data :: "ft_lib \<Rightarrow> byte list \<Rightarrow> byte list \<Rightarrow> byte list \<Rightarrow> ft_error \<times> byte list" where
  "ft_encrypt_data L plaintext key iv =
     (case fl_encrypt L key iv plaintext of None \<Rightarrow> (FT_ERROR_ENCRYPTION, []) | Some d \<Rightarrow> (FT_SUCCESS, d))"

text \<open>The bytes that a received chunk stands for. The room announced to the decompressor is the length of the
  compressed data, in a buffer of \<open>chunk_size\<close> bytes; data longer than the buffer can overrun it.\<close>

definition received_data :: "ft_lib \<Rightarrow> (nat \<Rightarrow> bool) \<Rightarrow> ft_config \<Rightarrow> ft_session \<Rightarrow> byte list \<Rightarrow> (ft_error \<times> byte list) outcome" where
  "received_data L io cfg s data =
     (if fs_encryption s then
        (if \<not> io 3 then Done (FT_ERROR_MEMORY, []) else Done (ft_decrypt_data L data (fs_key s) (fs_iv s)))
      else if fs_compression s then
        (if \<not> io 3 then Done (FT_ERROR_MEMORY, [])
         else if io 4 \<and> (case fl_inflate L data of None \<Rightarrow> False
                            | Some d \<Rightarrow> min (length d) (length data) > unat (fc_chunk_size cfg)) then Undefined_Behaviour
         else Done (ft_decompress_chunk L (io 4) data (length data)))
      else Done (FT_SUCCESS, data))"

text \<open>\<open>io 0\<close>: open for update, \<open>io 1\<close>: create, \<open>io 2\<close>: seek, \<open>io 3\<close>: allocation, \<open>io 4\<close>: zlib, \<open>io 5\<close>: the write is complete; \<open>short\<close>
  bytes are written otherwise.\<close>

definition ft_write_chunk :: "ft_lib \<Rightarrow> (nat \<Rightarrow> bool) \<Rightarrow> nat \<Rightarrow> ft_config \<Rightarrow> file_system \<Rightarrow> ft_session \<Rightarrow> 32 word \<Rightarrow> byte list \<Rightarrow>
    (ft_error \<times> file_system) outcome" where
  "ft_write_chunk L io short cfg fs s chunk_index data =
     (let opened = (case fs (fs_temp s) of Some content \<Rightarrow> if io 0 then Some content else if io 1 then Some [] else None
                    | None \<Rightarrow> if io 1 then Some [] else None)
      in case opened of None \<Rightarrow> Done (FT_ERROR_IO, fs)
         | Some content \<Rightarrow>
             let fs1 = fs(fs_temp s \<mapsto> content);
                 offset = unat chunk_index * unat (fc_chunk_size cfg)
             in if \<not> io 2 then Done (FT_ERROR_IO, fs1)
                else obind (received_data L io cfg s data) (\<lambda>(r, d).
                  if r \<noteq> FT_SUCCESS then Done (r, fs1)
                  else
                    let written = (if io 5 then d else take (min short (length d - 1)) d)
                    in Done (if length written \<noteq> length d then FT_ERROR_IO else FT_SUCCESS,
                             fs1(fs_temp s \<mapsto> write_at offset written content))))"

text \<open>\<open>error_chunks\<close> has room for 30 numbers. The callbacks that run are listed.\<close>

datatype ft_callback = Progress | Completion | Failure ft_error

definition ft_upload_chunk :: "ft_lib \<Rightarrow> (nat \<Rightarrow> bool) \<Rightarrow> nat \<Rightarrow> int \<Rightarrow> ft_config \<Rightarrow> file_system \<Rightarrow> ft_session \<Rightarrow> 32 word \<Rightarrow> byte list \<Rightarrow>
    (ft_error \<times> ft_callback list \<times> file_system \<times> ft_session) outcome" where
  "ft_upload_chunk L io short now cfg fs s0 chunk_index data =
     (if data = [] then Done (FT_ERROR_INVALID_PARAMS, [], fs, s0)
      else obind (ft_lock s0) (\<lambda>s.
        if fs_status s \<noteq> FT_STATUS_TRANSFERRING \<and> fs_status s \<noteq> FT_STATUS_PREPARING
          then Done (FT_ERROR_INVALID_STATE, [], fs, ft_unlock s)
        else if chunk_index \<ge> fs_total_chunks s then Done (FT_ERROR_INVALID_CHUNK, [], fs, ft_unlock s)
        else obind (ft_write_chunk L io short cfg fs s chunk_index data) (\<lambda>(r, fs1).
          if r = FT_SUCCESS then
            let s1 = s\<lparr>fs_bytes := fs_bytes s + of_nat (length data), fs_current_chunk := chunk_index + 1\<rparr>;
                s2 = (if fs_bytes s1 \<ge> fs_total s1 then s1\<lparr>fs_status := FT_STATUS_VERIFYING\<rparr> else s1)
            in Done (r, if fs_progress_cb s then [Progress] else [], fs1, ft_unlock (s2\<lparr>fs_last_activity := now\<rparr>))
          else
            let s1 = (if length (fs_error_chunks s) < 30 then s\<lparr>fs_error_chunks := fs_error_chunks s @ [chunk_index]\<rparr> else s)
            in if fs_retry s1 < fc_max_retries cfg then Done (r, [], fs1, ft_unlock (s1\<lparr>fs_retry := fs_retry s1 + 1\<rparr>))
               else Done (r, if fs_error_cb s then [Failure r] else [], fs1, ft_unlock (s1\<lparr>fs_status := FT_STATUS_FAILED\<rparr>)))))"

section \<open>Checksums and completion\<close>

definition ft_calculate_file_checksum :: "ft_lib \<Rightarrow> bool \<Rightarrow> file_system \<Rightarrow> string \<Rightarrow> ft_error \<times> string" where
  "ft_calculate_file_checksum L opened fs filepath =
     (case fs filepath of None \<Rightarrow> (FT_ERROR_FILE_NOT_FOUND, [])
      | Some content \<Rightarrow>
          if opened then (FT_SUCCESS, concat (map hex02 (take 32 (fl_sha256 L content)))) else (FT_ERROR_FILE_NOT_FOUND, []))"

definition ft_verify_file_checksum :: "ft_lib \<Rightarrow> bool \<Rightarrow> file_system \<Rightarrow> string \<Rightarrow> string \<Rightarrow> ft_error" where
  "ft_verify_file_checksum L opened fs filepath expected =
     (case ft_calculate_file_checksum L opened fs filepath of (r, digest) \<Rightarrow>
        if r \<noteq> FT_SUCCESS then r else if digest \<noteq> expected then FT_ERROR_CHECKSUM_MISMATCH else FT_SUCCESS)"

text \<open>\<open>rename\<close>; it fails without the old file, or when \<open>ok\<close> says so.\<close>

definition rename_file :: "bool \<Rightarrow> file_system \<Rightarrow> string \<Rightarrow> string \<Rightarrow> file_system option" where
  "rename_file ok fs old new =
     (case fs old of None \<Rightarrow> None
      | Some content \<Rightarrow> if \<not> ok then None else if old = new then Some fs else Some (fs(old := None, new \<mapsto> content)))"

definition ft_complete_upload :: "ft_lib \<Rightarrow> (nat \<Rightarrow> bool) \<Rightarrow> int \<Rightarrow> ft_config \<Rightarrow> file_system \<Rightarrow> ft_session \<Rightarrow>
    (ft_error \<times> ft_callback list \<times> file_system \<times> ft_session) outcome" where
  "ft_complete_upload L io now cfg fs s0 =
     obind (ft_lock s0) (\<lambda>s.
       let verify = (if fc_verify cfg \<and> fs_expected s \<noteq> [] then ft_verify_file_checksum L (io 0) fs (fs_temp s) (fs_expected s) else FT_SUCCESS)
       in if verify \<noteq> FT_SUCCESS then Done (verify, [], fs, ft_unlock s)
          else (case rename_file (io 1) fs (fs_temp s) (fs_local s) of
              None \<Rightarrow> Done (FT_ERROR_IO, [], fs, ft_unlock s)
            | Some fs1 \<Rightarrow> Done (FT_SUCCESS, if fs_completion_cb s then [Completion] else [], fs1,
                           ft_unlock (s\<lparr>fs_status := FT_STATUS_COMPLETED, fs_last_activity := now\<rparr>))))"

section \<open>Preparation\<close>

text \<open>\<open>io 0\<close>: create the temporary file, \<open>io 1\<close>: open the source.\<close>

definition ft_prepare_upload :: "(nat \<Rightarrow> bool) \<Rightarrow> int \<Rightarrow> ft_config \<Rightarrow> file_system \<Rightarrow> ft_session \<Rightarrow> (ft_error \<times> file_system \<times> ft_session) outcome" where
  "ft_prepare_upload io now cfg fs s0 =
     obind (ft_lock s0) (\<lambda>s.
       if \<not> io 0 then Done (FT_ERROR_IO, fs, ft_unlock s)
       else
         let fs1 = fs(fs_temp s \<mapsto> []) in
         case (if io 1 then fs1 (fs_local s) else None) of
           None \<Rightarrow> Done (FT_ERROR_FILE_NOT_FOUND, fs1, ft_unlock s)
         | Some content \<Rightarrow>
             Done (FT_SUCCESS, fs1, ft_unlock (s\<lparr>fs_total := of_nat (length content),
               fs_total_chunks := chunk_count (of_nat (length content)) (fc_chunk_size cfg),
               fs_status := FT_STATUS_PREPARING, fs_last_activity := now\<rparr>)))"

text \<open>\<open>io 0\<close>: open the source, \<open>io 1\<close>: create the temporary file.\<close>

definition ft_prepare_download :: "(nat \<Rightarrow> bool) \<Rightarrow> int \<Rightarrow> ft_config \<Rightarrow> file_system \<Rightarrow> ft_session \<Rightarrow> (ft_error \<times> file_system \<times> ft_session) outcome" where
  "ft_prepare_download io now cfg fs s0 =
     obind (ft_lock s0) (\<lambda>s.
       case (if io 0 then fs (fs_remote s) else None) of
         None \<Rightarrow> Done (FT_ERROR_FILE_NOT_FOUND, fs, ft_unlock s)
       | Some content \<Rightarrow>
           let s1 = s\<lparr>fs_total := of_nat (length content), fs_total_chunks := chunk_count (of_nat (length content)) (fc_chunk_size cfg)\<rparr>
           in if \<not> io 1 then Done (FT_ERROR_IO, fs, ft_unlock s1)
              else Done (FT_SUCCESS, fs(fs_temp s \<mapsto> []), ft_unlock (s1\<lparr>fs_status := FT_STATUS_PREPARING, fs_last_activity := now\<rparr>)))"

section \<open>Downloads\<close>

text \<open>The data that is sent for a piece of the file.\<close>

definition sent_data :: "ft_lib \<Rightarrow> (nat \<Rightarrow> bool) \<Rightarrow> ft_session \<Rightarrow> byte list \<Rightarrow> ft_error \<times> byte list" where
  "sent_data L io s chunk =
     (if fs_encryption s then (if \<not> io 3 then (FT_ERROR_MEMORY, []) else ft_encrypt_data L chunk (fs_key s) (fs_iv s))
      else if fs_compression s then (if \<not> io 3 then (FT_ERROR_MEMORY, []) else ft_compress_chunk L (io 4) chunk (length chunk))
      else (FT_SUCCESS, chunk))"

text \<open>\<open>io 0\<close>: open, \<open>io 1\<close>: seek, \<open>io 2\<close> and \<open>io 3\<close>: allocations, \<open>io 4\<close>: zlib, \<open>io 5\<close> and \<open>io 6\<close>: open or create the temporary file, \<open>io 7\<close>:
  its write is complete. The size of the last chunk is the difference of two 64-bit numbers.\<close>

definition ft_read_chunk :: "ft_lib \<Rightarrow> (nat \<Rightarrow> bool) \<Rightarrow> nat \<Rightarrow> ft_config \<Rightarrow> file_system \<Rightarrow> ft_session \<Rightarrow> 32 word \<Rightarrow> ft_error \<times> byte list \<times> file_system" where
  "ft_read_chunk L io short cfg fs s chunk_index =
     (case (if io 0 then fs (fs_remote s) else None) of
        None \<Rightarrow> (FT_ERROR_FILE_NOT_FOUND, [], fs)
      | Some content \<Rightarrow>
          let offset = unat chunk_index * unat (fc_chunk_size cfg);
              chunk_size = (if chunk_index = fs_total_chunks s - 1 then unat (fs_total s - of_nat offset) else unat (fc_chunk_size cfg))
          in if \<not> io 1 then (FT_ERROR_IO, [], fs)
             else if \<not> io 2 then (FT_ERROR_MEMORY, [], fs)
             else
               let chunk = take chunk_size (drop offset content) in
               if length chunk \<noteq> chunk_size then (FT_ERROR_IO, [], fs)
               else (case sent_data L io s chunk of (r, d) \<Rightarrow>
                 if r \<noteq> FT_SUCCESS then (r, [], fs)
                 else
                   let temp = (case fs (fs_temp s) of Some old \<Rightarrow> if io 5 then Some old else if io 6 then Some [] else None
                               | None \<Rightarrow> if io 6 then Some [] else None);
                       fs1 = (case temp of None \<Rightarrow> fs
                              | Some old \<Rightarrow> fs(fs_temp s \<mapsto> write_at offset (if io 7 then d else take short d) old))
                   in (FT_SUCCESS, d, fs1)))"

definition ft_download_chunk :: "ft_lib \<Rightarrow> (nat \<Rightarrow> bool) \<Rightarrow> nat \<Rightarrow> int \<Rightarrow> ft_config \<Rightarrow> file_system \<Rightarrow> ft_session \<Rightarrow> 32 word \<Rightarrow>
    (ft_error \<times> byte list \<times> ft_callback list \<times> file_system \<times> ft_session) outcome" where
  "ft_download_chunk L io short now cfg fs s0 chunk_index =
     obind (ft_lock s0) (\<lambda>s.
       if fs_status s \<noteq> FT_STATUS_TRANSFERRING \<and> fs_status s \<noteq> FT_STATUS_PREPARING
         then Done (FT_ERROR_INVALID_STATE, [], [], fs, ft_unlock s)
       else if chunk_index \<ge> fs_total_chunks s then Done (FT_ERROR_INVALID_CHUNK, [], [], fs, ft_unlock s)
       else (case ft_read_chunk L io short cfg fs s chunk_index of (r, d, fs1) \<Rightarrow>
         if r = FT_SUCCESS then
           let s1 = s\<lparr>fs_bytes := fs_bytes s + of_nat (length d), fs_current_chunk := chunk_index + 1\<rparr>;
               s2 = (if fs_bytes s1 \<ge> fs_total s1 then s1\<lparr>fs_status := FT_STATUS_VERIFYING\<rparr> else s1)
           in Done (r, d, if fs_progress_cb s then [Progress] else [], fs1, ft_unlock (s2\<lparr>fs_last_activity := now\<rparr>))
         else Done (r, d, [], fs1, ft_unlock s)))"


section \<open>Uploading a file in any order\<close>

definition chunk_of :: "nat \<Rightarrow> byte list \<Rightarrow> nat \<Rightarrow> byte list" where
  "chunk_of cs content i = take cs (drop (i * cs) content)"

text \<open>The temporary file when the chunks in \<open>S\<close> have been written.\<close>

definition upload_end :: "nat \<Rightarrow> nat \<Rightarrow> nat set \<Rightarrow> nat" where
  "upload_end cs n S = (if S = {} then 0 else min n (Suc (Max S) * cs))"

definition upload_image :: "nat \<Rightarrow> byte list \<Rightarrow> nat set \<Rightarrow> byte list" where
  "upload_image cs content S =
     map (\<lambda>p. if p div cs \<in> S then content ! p else 0) [0..<upload_end cs (length content) S]"

lemma length_image [simp]: "length (upload_image cs content S) = upload_end cs (length content) S"
  by (simp add: upload_image_def)

lemma length_write_at: "length (write_at off d f) = max (length f) (off + length d)"
  by (auto simp: write_at_def)

lemma nth_write_at:
  assumes "p < length (write_at off d f)"
  shows "write_at off d f ! p =
    (if p < off then (if p < length f then f ! p else 0) else if p < off + length d then d ! (p - off) else f ! p)"
  using assms unfolding length_write_at by (auto simp: write_at_def nth_append nth_take nth_drop min_def)

lemma div_chunk: "0 < cs \<Longrightarrow> i * cs \<le> p \<Longrightarrow> p < i * cs + cs \<Longrightarrow> p div cs = (i :: nat)"
  by (metis add.commute div_nat_eqI mult.commute mult_Suc_right)

lemma upload_end_insert:
  assumes "finite S" "i * cs < n" "0 < cs"
  shows "upload_end cs n (insert i S) = max (upload_end cs n S) (min n (i * cs + cs))"
proof (cases "S = {}")
  case True
  then show ?thesis by (simp add: upload_end_def add.commute)
next
  case False
  have "Suc (max i (Max S)) * cs = max (Suc i * cs) (Suc (Max S) * cs)"
    by (metis max_def mult_le_mono1 mult_right_le_imp_le nat_le_linear not_less_eq_eq le_antisym)
  moreover have "Max (insert i S) = max i (Max S)" using assms(1) False by simp
  ultimately have "upload_end cs n (insert i S) = min n (max (Suc i * cs) (Suc (Max S) * cs))" by (simp add: upload_end_def)
  also have "\<dots> = max (min n (Suc (Max S) * cs)) (min n (Suc i * cs))" by (simp add: min_max_distrib2 max.commute)
  finally show ?thesis using False by (simp add: upload_end_def add.commute)
qed

lemma end_div:
  assumes "finite S" "p < upload_end cs n S" "0 < cs"
  shows "p div cs \<le> Max S \<and> S \<noteq> {}"
proof -
  have "S \<noteq> {}" "p < Suc (Max S) * cs" using assms(2) by (auto simp: upload_end_def split: if_splits)
  then show ?thesis using assms(3) by (simp add: less_mult_imp_div_less less_Suc_eq_le [symmetric])
qed

lemma write_chunk_image:
  assumes "finite S" "i * cs < length content" "0 < cs"
  shows "write_at (i * cs) (chunk_of cs content i) (upload_image cs content S) = upload_image cs content (insert i S)"
proof (rule nth_equalityI)
  let ?n = "length content"
  have len: "i * cs + length (chunk_of cs content i) = min ?n (i * cs + cs)"
    using assms(2) by (auto simp: chunk_of_def)
  show eq: "length (write_at (i * cs) (chunk_of cs content i) (upload_image cs content S)) = length (upload_image cs content (insert i S))"
    unfolding length_write_at len by (simp add: upload_end_insert [OF assms])
  fix p assume p: "p < length (write_at (i * cs) (chunk_of cs content i) (upload_image cs content S))"
  then have pe: "p < upload_end cs ?n (insert i S)" using eq by simp
  have ins: "upload_image cs content (insert i S) ! p = (if p div cs \<in> insert i S then content ! p else 0)"
    using pe by (simp add: upload_image_def)
  have old: "upload_image cs content S ! p = (if p div cs \<in> S then content ! p else 0)" if "p < upload_end cs ?n S"
    using that by (simp add: upload_image_def)
  consider (low) "p < i * cs" | (mid) "i * cs \<le> p" "p < min ?n (i * cs + cs)" | (high) "min ?n (i * cs + cs) \<le> p" by linarith
  then show "write_at (i * cs) (chunk_of cs content i) (upload_image cs content S) ! p = upload_image cs content (insert i S) ! p"
  proof cases
    case low
    then have "p div cs < i" using assms(3) by (simp add: less_mult_imp_div_less)
    moreover have "p div cs \<notin> S" if "\<not> p < upload_end cs ?n S"
    proof
      assume "p div cs \<in> S"
      then have "p div cs \<le> Max S" "S \<noteq> {}" using assms(1) by auto
      then have "p < Suc (Max S) * cs"
        by (metis assms(3) div_less_iff_less_mult le_imp_less_Suc)
      moreover have "p < ?n" using low assms(2) by simp
      ultimately show False using that \<open>S \<noteq> {}\<close> by (simp add: upload_end_def)
    qed
    ultimately show ?thesis using low old unfolding nth_write_at [OF p] ins len by auto
  next
    case mid
    then have "p div cs = i" using div_chunk [of cs i p] assms(3) by simp
    moreover have "p - i * cs < cs" using mid by (simp add: less_diff_conv2 add.commute)
    then have "chunk_of cs content i ! (p - i * cs) = content ! p" using mid by (simp add: chunk_of_def)
    ultimately show ?thesis using mid unfolding nth_write_at [OF p] ins len by auto
  next
    case high
    have "p < upload_end cs ?n S" using pe high unfolding upload_end_insert [OF assms] by simp
    moreover have "p < ?n" using pe by (auto simp: upload_end_def split: if_splits)
    then have "p div cs \<noteq> i" using high assms(3) by (metis dividend_less_div_times min.bounded_iff not_less min_def mult.commute
          add.commute nat_less_le)
    ultimately show ?thesis using high old unfolding nth_write_at [OF p] ins len by auto
  qed
qed


lemma image_empty [simp]: "upload_image cs content {} = []"
  by (simp add: upload_image_def upload_end_def)

lemma chunk_index: "0 < cs \<Longrightarrow> i < (n + cs - 1) div cs \<longleftrightarrow> i * cs < (n :: nat)"
proof -
  assume cs: "0 < cs"
  have "i < (n + cs - 1) div cs \<longleftrightarrow> Suc i \<le> (n + cs - 1) div cs" by auto
  also have "\<dots> \<longleftrightarrow> Suc i * cs \<le> n + cs - 1" using cs by (simp add: less_eq_div_iff_mult_less_eq)
  also have "\<dots> \<longleftrightarrow> i * cs < n" using cs by (cases n) auto
  finally show ?thesis .
qed

lemma image_full:
  assumes "0 < cs"
  shows "upload_image cs content {..<(length content + cs - 1) div cs} = content"
proof -
  let ?n = "length content" and ?k = "(length content + cs - 1) div cs"
  have e: "upload_end cs ?n {..<?k} = ?n"
  proof (cases "?k = 0")
    case True
    then have "\<not> 0 * cs < ?n" using chunk_index [OF assms, of 0 ?n] by simp
    then show ?thesis using True by (simp add: upload_end_def)
  next
    case False
    then obtain j where j: "?k = Suc j" using not0_implies_Suc by blast
    have "Max {..<Suc j} = j" by (rule Max_eqI) auto
    moreover have "?n \<le> Suc j * cs" using chunk_index [OF assms, of "Suc j" ?n] j by simp
    ultimately show ?thesis using j by (simp add: upload_end_def lessThan_empty_iff)
  qed
  have "p div cs < ?k" if "p < ?n" for p
    using that chunk_index [OF assms, of "p div cs" ?n] by (meson div_times_less_eq_dividend le_less_trans)
  then show ?thesis unfolding upload_image_def e by (intro nth_equalityI) auto
qed

lemma sum_chunks:
  assumes "0 < cs"
  shows "(\<Sum>i<j. length (chunk_of cs content i)) = min (length content) (j * cs)"
proof (induction j)
  case (Suc j)
  have "min (length content) (j * cs) + length (chunk_of cs content j) = min (length content) (Suc j * cs)"
    by (auto simp: chunk_of_def min_def)
  then show ?case using Suc by simp
qed simp

lemma chunk_nonempty: "0 < cs \<Longrightarrow> i * cs < length content \<Longrightarrow> chunk_of cs content i \<noteq> []"
  by (simp add: chunk_of_def)

lemma sum_chunks_part:
  assumes "0 < cs" "S \<subseteq> {..<(length content + cs - 1) div cs}"
  shows "(\<Sum>i\<in>S. length (chunk_of cs content i)) \<le> length content \<and>
    ((\<Sum>i\<in>S. length (chunk_of cs content i)) < length content \<longleftrightarrow> S \<noteq> {..<(length content + cs - 1) div cs})"
proof -
  let ?k = "(length content + cs - 1) div cs" and ?f = "\<lambda>i. length (chunk_of cs content i)"
  have "length content \<le> ?k * cs" using chunk_index [OF assms(1), of ?k "length content"] by simp
  then have all: "(\<Sum>i<?k. ?f i) = length content" using sum_chunks [OF assms(1)] by simp
  have split: "(\<Sum>i<?k. ?f i) = (\<Sum>i\<in>S. ?f i) + (\<Sum>i\<in>{..<?k} - S. ?f i)"
    using assms(2) by (simp add: sum.subset_diff add.commute)
  have "(\<Sum>i\<in>{..<?k} - S. ?f i) > 0" if ne: "S \<noteq> {..<?k}"
  proof -
    obtain i where i: "i \<in> {..<?k} - S" using ne assms(2) by blast
    then have "?f i > 0" using chunk_nonempty [OF assms(1)] chunk_index [OF assms(1)] by simp
    then show ?thesis using i by (intro sum_pos2 [of _ i]) auto
  qed
  then show ?thesis using all split by fastforce
qed

lemma chunk_count_exact:
  assumes "n < 2 ^ 63" "c \<noteq> 0" "(n + unat c - 1) div unat c < 2 ^ 32"
  shows "unat (chunk_count (of_nat n) c) = (n + unat c - 1) div unat c"
proof -
  have c: "unat c < 2 ^ 32" "0 < unat c" using assms(2) unat_lt_32 [of c] by (simp_all add: unat_gt_0)
  have "unat (of_nat n + ucast c :: 64 word) = n + unat c"
    using assms(1) c by (subst unat_add_64) (simp_all add: unat_of_nat_64)
  moreover have "(of_nat n + ucast c :: 64 word) \<noteq> 0"
    using calculation c by (metis add_is_0 unat_0 less_numeral_extra(3))
  ultimately have "unat (of_nat n + ucast c - 1 :: 64 word) = n + unat c - 1" by (simp add: unat_minus_one)
  then have "unat ((of_nat n + ucast c - 1) div ucast c :: 64 word) = (n + unat c - 1) div unat c" by (simp add: unat_div)
  then show ?thesis using assms(3) by (simp add: chunk_count_def unsigned_ucast_eq unsigned_take_bit_eq take_bit_nat_eq_self)
qed

lemma of_nat_le_64: "a < 2 ^ 63 \<Longrightarrow> b < 2 ^ 63 \<Longrightarrow> (of_nat a :: 64 word) \<le> of_nat b \<longleftrightarrow> a \<le> b"
  by (simp add: word_le_nat_alt unat_of_nat_64)

section \<open>The upload of a plain file\<close>

fun upload_all :: "ft_lib \<Rightarrow> (nat \<Rightarrow> bool) \<Rightarrow> int \<Rightarrow> ft_config \<Rightarrow> file_system \<Rightarrow> ft_session \<Rightarrow> (32 word \<times> byte list) list \<Rightarrow>
    (ft_error list \<times> file_system \<times> ft_session) outcome" where
  "upload_all L io now cfg fs s [] = Done ([], fs, s)"
| "upload_all L io now cfg fs s ((i, d) # xs) =
     obind (ft_upload_chunk L io 0 now cfg fs s i d) (\<lambda>(r, _, fs1, s1).
     obind (upload_all L io now cfg fs1 s1 xs) (\<lambda>(rs, fs2, s2). Done (r # rs, fs2, s2)))"

definition all_ok :: "nat \<Rightarrow> bool" where "all_ok n = True"

definition upload_inv :: "ft_config \<Rightarrow> byte list \<Rightarrow> nat set \<Rightarrow> file_system \<Rightarrow> ft_session \<Rightarrow> bool" where
  "upload_inv cfg content S fs s \<longleftrightarrow>
     (let cs = unat (fc_chunk_size cfg); n = length content; done = (\<Sum>i\<in>S. length (chunk_of cs content i)) in
      \<not> fs_encryption s \<and> \<not> fs_compression s \<and> \<not> fs_locked s \<and> fs_total s = of_nat n \<and>
      unat (fs_total_chunks s) = (n + cs - 1) div cs \<and> fs (fs_temp s) = Some (upload_image cs content S) \<and>
      fs_bytes s = of_nat done \<and> fs_status s = (if done < n then FT_STATUS_PREPARING else FT_STATUS_VERIFYING))"

lemma upload_step:
  assumes inv: "upload_inv cfg content S fs s" and n: "length content < 2 ^ 63"
    and c: "fc_chunk_size cfg \<noteq> 0" and k: "(length content + unat (fc_chunk_size cfg) - 1) div unat (fc_chunk_size cfg) < 2 ^ 32"
    and i: "i < (length content + unat (fc_chunk_size cfg) - 1) div unat (fc_chunk_size cfg)" "i \<notin> S"
    and S: "S \<subseteq> {..<(length content + unat (fc_chunk_size cfg) - 1) div unat (fc_chunk_size cfg)}"
  shows "\<exists>cb s'. ft_upload_chunk L all_ok 0 now cfg fs s (of_nat i) (chunk_of (unat (fc_chunk_size cfg)) content i) =
      Done (FT_SUCCESS, cb, fs(fs_temp s \<mapsto> upload_image (unat (fc_chunk_size cfg)) content (insert i S)), s') \<and>
    upload_inv cfg content (insert i S) (fs(fs_temp s \<mapsto> upload_image (unat (fc_chunk_size cfg)) content (insert i S))) s' \<and>
    fs_temp s' = fs_temp s \<and> fs_local s' = fs_local s \<and> fs_expected s' = fs_expected s"
proof -
  define cs where "cs = unat (fc_chunk_size cfg)"
  let ?n = "length content" and ?sum = "\<lambda>S. \<Sum>i\<in>S. length (chunk_of cs content i)"
  have cs: "0 < cs" using c by (simp add: cs_def unat_gt_0)
  note i = i [folded cs_def] and S = S [folded cs_def] and k = k [folded cs_def]
  have fin: "finite S" using S finite_subset by blast
  have off: "i * cs < ?n" using i chunk_index [OF cs] by simp
  have ne: "chunk_of cs content i \<noteq> []" using chunk_nonempty [OF cs off] .
  have u: "unat (of_nat i :: 32 word) = i" using i(1) k by (intro unat_of_nat_32) simp
  have lt: "?sum S < ?n" using sum_chunks_part [OF cs S] i by blast
  have S': "insert i S \<subseteq> {..<(?n + cs - 1) div cs}" using S i(1) by simp
  have sum': "?sum (insert i S) = ?sum S + length (chunk_of cs content i)" using fin i(2) by simp
  have le': "?sum (insert i S) \<le> ?n" using sum_chunks_part [OF cs S'] by blast
  note inv' = inv [unfolded upload_inv_def Let_def, folded cs_def]
  have st: "fs_status s = FT_STATUS_PREPARING" "fs_bytes s = of_nat (?sum S)" "fs_total s = of_nat ?n"
    using inv' lt by simp_all
  have nge: "\<not> fs_total_chunks s \<le> of_nat i" using inv' i(1) u by (simp add: word_le_nat_alt)
  have w: "ft_write_chunk L all_ok 0 cfg fs (s\<lparr>fs_locked := True\<rparr>) (of_nat i) (chunk_of cs content i) =
      Done (FT_SUCCESS, fs(fs_temp s \<mapsto> upload_image cs content (insert i S)))"
    using inv' write_chunk_image [OF fin off cs] u
    by (simp add: ft_write_chunk_def received_data_def all_ok_def Let_def cs_def [symmetric])
  have bytes: "fs_bytes s + of_nat (length (chunk_of cs content i)) = (of_nat (?sum (insert i S)) :: 64 word)"
    using st(2) sum' by simp
  have cmp: "(of_nat ?n :: 64 word) \<le> of_nat (?sum (insert i S)) \<longleftrightarrow> \<not> ?sum (insert i S) < ?n"
    using n le' of_nat_le_64 [of ?n "?sum (insert i S)"] by (simp add: not_less del: of_nat_sum)
  define s2 where "s2 = (if \<not> ?sum (insert i S) < ?n
      then s\<lparr>fs_locked := True, fs_bytes := of_nat (?sum (insert i S)), fs_current_chunk := of_nat i + 1, fs_status := FT_STATUS_VERIFYING\<rparr>
      else s\<lparr>fs_locked := True, fs_bytes := of_nat (?sum (insert i S)), fs_current_chunk := of_nat i + 1\<rparr>)"
  have "ft_upload_chunk L all_ok 0 now cfg fs s (of_nat i) (chunk_of cs content i) =
      Done (FT_SUCCESS, if fs_progress_cb s then [Progress] else [], fs(fs_temp s \<mapsto> upload_image cs content (insert i S)),
        ft_unlock (s2\<lparr>fs_last_activity := now\<rparr>))"
    using inv' ne st nge w bytes cmp by (simp add: ft_upload_chunk_def ft_lock_def Let_def s2_def)
  moreover have "upload_inv cfg content (insert i S) (fs(fs_temp s \<mapsto> upload_image cs content (insert i S))) (ft_unlock (s2\<lparr>fs_last_activity := now\<rparr>))"
    using inv' st by (simp add: upload_inv_def Let_def cs_def [symmetric] s2_def ft_unlock_def)
  moreover have "fs_temp (ft_unlock (s2\<lparr>fs_last_activity := now\<rparr>)) = fs_temp s" "fs_local (ft_unlock (s2\<lparr>fs_last_activity := now\<rparr>)) = fs_local s"
    "fs_expected (ft_unlock (s2\<lparr>fs_last_activity := now\<rparr>)) = fs_expected s"
    by (simp_all add: s2_def ft_unlock_def)
  ultimately show ?thesis unfolding cs_def by blast
qed


lemma upload_rest:
  assumes n: "length content < 2 ^ 63" and c: "fc_chunk_size cfg \<noteq> 0"
    and k: "(length content + unat (fc_chunk_size cfg) - 1) div unat (fc_chunk_size cfg) < 2 ^ 32"
    and inv: "upload_inv cfg content S fs s"
    and "distinct is" "set is \<inter> S = {}" "S \<union> set is \<subseteq> {..<(length content + unat (fc_chunk_size cfg) - 1) div unat (fc_chunk_size cfg)}"
  shows "\<exists>fs' s'. upload_all L all_ok now cfg fs s (map (\<lambda>i. (of_nat i, chunk_of (unat (fc_chunk_size cfg)) content i)) is) =
      Done (replicate (length is) FT_SUCCESS, fs', s') \<and> upload_inv cfg content (S \<union> set is) fs' s' \<and>
    fs_temp s' = fs_temp s \<and> fs_local s' = fs_local s \<and> fs_expected s' = fs_expected s \<and> (\<forall>p. p \<noteq> fs_temp s \<longrightarrow> fs' p = fs p)"
  using inv assms(5-7)
proof (induction "is" arbitrary: S fs s)
  case Nil
  then show ?case by simp
next
  case (Cons i "is")
  let ?fs1 = "fs(fs_temp s \<mapsto> upload_image (unat (fc_chunk_size cfg)) content (insert i S))"
  have i: "i < (length content + unat (fc_chunk_size cfg) - 1) div unat (fc_chunk_size cfg)" "i \<notin> S"
    "S \<subseteq> {..<(length content + unat (fc_chunk_size cfg) - 1) div unat (fc_chunk_size cfg)}" using Cons.prems(3,4) by auto
  obtain cb s1 where s1: "ft_upload_chunk L all_ok 0 now cfg fs s (of_nat i) (chunk_of (unat (fc_chunk_size cfg)) content i) =
      Done (FT_SUCCESS, cb, ?fs1, s1)" "upload_inv cfg content (insert i S) ?fs1 s1"
    "fs_temp s1 = fs_temp s" "fs_local s1 = fs_local s" "fs_expected s1 = fs_expected s"
    using upload_step [OF Cons.prems(1) n c k i] by blast
  have "distinct is" "set is \<inter> insert i S = {}"
    "insert i S \<union> set is \<subseteq> {..<(length content + unat (fc_chunk_size cfg) - 1) div unat (fc_chunk_size cfg)}"
    using Cons.prems(2-4) by auto
  from Cons.IH [OF s1(2) this] obtain fs2 s2 where s2:
    "upload_all L all_ok now cfg ?fs1 s1 (map (\<lambda>i. (of_nat i, chunk_of (unat (fc_chunk_size cfg)) content i)) is) =
      Done (replicate (length is) FT_SUCCESS, fs2, s2)" "upload_inv cfg content (insert i S \<union> set is) fs2 s2"
    "fs_temp s2 = fs_temp s1" "fs_local s2 = fs_local s1" "fs_expected s2 = fs_expected s1" "\<forall>p. p \<noteq> fs_temp s1 \<longrightarrow> fs2 p = ?fs1 p"
    by blast
  have "insert i S \<union> set is = S \<union> set (i # is)" by auto
  then show ?case using s1 s2 by simp
qed

text \<open>
  (C23) Uploading a plain file works in any order. After \<open>ft_prepare_upload\<close>, sending each chunk of the file once, in
  whatever order, succeeds every time; the transfer turns to VERIFYING with the last one, the temporary file is then the source file byte for byte, and
  \<open>ft_complete_upload\<close> accepts its checksum and moves it to the final path.
\<close>

theorem upload_any_order:
  assumes "ft_validate_config (Some cfg) = FT_SUCCESS" "fs (fs_local s) = Some content" "content \<noteq> []"
    and "length content \<le> unat (fc_max_file_size cfg)" "fs_temp s \<noteq> fs_local s"
    and "\<not> fs_encryption s" "\<not> fs_compression s" "\<not> fs_locked s" "fs_bytes s = 0"
    and "fs_expected s = snd (ft_calculate_file_checksum L True fs (fs_local s))"
    and "k = (length content + unat (fc_chunk_size cfg) - 1) div unat (fc_chunk_size cfg)" "k < 2 ^ 32"
    and "distinct is" "set is = {..<k}"
  shows "\<exists>fs1 s1 fs2 s2 cb fs3 s3. ft_prepare_upload all_ok now cfg fs s = Done (FT_SUCCESS, fs1, s1) \<and>
    upload_all L all_ok now cfg fs1 s1 (map (\<lambda>i. (of_nat i, chunk_of (unat (fc_chunk_size cfg)) content i)) is) =
      Done (replicate k FT_SUCCESS, fs2, s2) \<and> fs_status s2 = FT_STATUS_VERIFYING \<and> fs2 (fs_temp s) = Some content \<and>
    ft_complete_upload L all_ok now cfg fs2 s2 = Done (FT_SUCCESS, cb, fs3, s3) \<and>
    fs3 (fs_local s) = Some content \<and> fs3 (fs_temp s) = None \<and> fs_status s3 = FT_STATUS_COMPLETED"
proof -
  have c: "fc_chunk_size cfg \<noteq> 0" and mx: "\<not> fc_max_file_size cfg > 10995116277760"
    using assms(1) by (auto simp: ft_validate_config_def split: if_splits)
  have cs: "0 < unat (fc_chunk_size cfg)" using c by (simp add: unat_gt_0)
  have n: "length content < 2 ^ 63" using mx assms(4) by (simp add: word_less_nat_alt)
  note kk = assms(12) [unfolded assms(11)]
  let ?fs1 = "fs(fs_temp s \<mapsto> [])"
  define s1 where "s1 = ft_unlock (s\<lparr>fs_locked := True, fs_total := of_nat (length content),
      fs_total_chunks := chunk_count (of_nat (length content)) (fc_chunk_size cfg), fs_status := FT_STATUS_PREPARING, fs_last_activity := now\<rparr>)"
  have prep: "ft_prepare_upload all_ok now cfg fs s = Done (FT_SUCCESS, ?fs1, s1)"
    using assms(2,5,8) by (simp add: ft_prepare_upload_def ft_lock_def all_ok_def s1_def)
  have inv: "upload_inv cfg content {} ?fs1 s1"
    using assms(3,6,7,9) chunk_count_exact [OF n c kk] by (simp add: upload_inv_def s1_def ft_unlock_def)
  have is': "set is \<inter> {} = {}" "{} \<union> set is \<subseteq> {..<(length content + unat (fc_chunk_size cfg) - 1) div unat (fc_chunk_size cfg)}"
    using assms(11,14) by auto
  obtain fs2 s2 where up: "upload_all L all_ok now cfg ?fs1 s1 (map (\<lambda>i. (of_nat i, chunk_of (unat (fc_chunk_size cfg)) content i)) is) =
      Done (replicate (length is) FT_SUCCESS, fs2, s2)" "upload_inv cfg content ({} \<union> set is) fs2 s2"
    "fs_temp s2 = fs_temp s1" "fs_local s2 = fs_local s1" "fs_expected s2 = fs_expected s1" "\<forall>p. p \<noteq> fs_temp s1 \<longrightarrow> fs2 p = ?fs1 p"
    using upload_rest [OF n c kk inv assms(13) is'] by blast
  have len: "length is = k" using assms(13,14) distinct_card [of "is"] by simp
  have all: "{} \<union> set is = {..<(length content + unat (fc_chunk_size cfg) - 1) div unat (fc_chunk_size cfg)}" using assms(11,14) by simp
  note inv2 = up(2) [unfolded all upload_inv_def Let_def image_full [OF cs]]
  have st: "fs2 (fs_temp s) = Some content" "fs_status s2 = FT_STATUS_VERIFYING" "\<not> fs_locked s2"
    using inv2 up(3) sum_chunks_part [OF cs, of "{..<(length content + unat (fc_chunk_size cfg) - 1) div unat (fc_chunk_size cfg)}" content]
    by (auto simp: s1_def ft_unlock_def)
  have eq: "fs_temp s2 = fs_temp s" "fs_local s2 = fs_local s" "fs_expected s2 = fs_expected s"
    using up(3-5) by (simp_all add: s1_def ft_unlock_def)
  have "ft_verify_file_checksum L True fs2 (fs_temp s) (fs_expected s) = FT_SUCCESS"
    using st(1) assms(2,10) by (simp add: ft_verify_file_checksum_def ft_calculate_file_checksum_def)
  then have "\<exists>cb s3. ft_complete_upload L all_ok now cfg fs2 s2 = Done (FT_SUCCESS, cb, fs2(fs_temp s := None, fs_local s \<mapsto> content), s3) \<and>
      fs_status s3 = FT_STATUS_COMPLETED"
    using st eq assms(5) by (simp add: ft_complete_upload_def ft_lock_def all_ok_def rename_file_def ft_unlock_def Let_def)
  then show ?thesis using prep up(1) st len assms(5) by (fastforce simp: s1_def)
qed


definition plain_lib :: ft_lib where
  "plain_lib = \<lparr>fl_decrypt = (\<lambda>k iv c. Some (take (length c - 16) c)), fl_encrypt = (\<lambda>k iv c. Some (c @ replicate 16 0)),
     fl_inflate = (\<lambda>c. Some (c @ c)), fl_deflate = (\<lambda>d. take (length d div 2) d), fl_sha256 = take 32\<rparr>"

definition small_config :: ft_config where
  "small_config = DEFAULT_FT_CONFIG\<lparr>fc_chunk_size := 2, fc_encryption := False, fc_compression := False\<rparr>"

definition plain_session :: ft_session where
  "plain_session = \<lparr>fs_id = 1, fs_user = 1, fs_peer = 2, fs_local = ''a'', fs_remote = ''b'', fs_temp = ''t'', fs_meta = no_metadata, fs_mode = 0,
     fs_status = FT_STATUS_PENDING, fs_encryption = False, fs_key = [], fs_iv = [], fs_compression = False, fs_current_chunk = 0,
     fs_total_chunks = 0, fs_bytes = 0, fs_total = 0, fs_retry = 0, fs_error_chunks = [], fs_start = 0, fs_last_activity = 0,
     fs_expected = concat (map hex02 [1, 2, 3]), fs_locked = False, fs_progress_cb = False, fs_completion_cb = False, fs_error_cb = False,
     fs_next = None, fs_prev = None\<rparr>"

lemma upload_any_order_witness:
  "\<exists>fs1 s1 fs2 s2. ft_prepare_upload all_ok 0 small_config [''a'' \<mapsto> [1, 2, 3]] plain_session = Done (FT_SUCCESS, fs1, s1) \<and>
     upload_all plain_lib all_ok 0 small_config fs1 s1 [(1, [3]), (0, [1, 2])] = Done ([FT_SUCCESS, FT_SUCCESS], fs2, s2) \<and>
     fs2 ''t'' = Some [1, 2, 3]"
proof -
  have v: "ft_validate_config (Some small_config) = FT_SUCCESS"
    by (simp add: ft_validate_config_def small_config_def DEFAULT_FT_CONFIG_def)
  have m: "length [1, 2, 3 :: byte] \<le> unat (fc_max_file_size small_config)" by (simp add: small_config_def DEFAULT_FT_CONFIG_def)
  have e: "fs_expected plain_session = snd (ft_calculate_file_checksum plain_lib True [''a'' \<mapsto> [1, 2, 3]] (fs_local plain_session))"
    by (simp add: plain_session_def ft_calculate_file_checksum_def plain_lib_def)
  have k: "2 = (length [1, 2, 3 :: byte] + unat (fc_chunk_size small_config) - 1) div unat (fc_chunk_size small_config)"
    by (simp add: small_config_def)
  have s: "[''a'' \<mapsto> [1, 2, 3]] (fs_local plain_session) = Some [1, 2, 3]" "[1, 2, 3 :: byte] \<noteq> []" "fs_temp plain_session \<noteq> fs_local plain_session"
    "\<not> fs_encryption plain_session" "\<not> fs_compression plain_session" "\<not> fs_locked plain_session" "fs_bytes plain_session = 0"
    "(2 :: nat) < 2 ^ 32" "distinct [1, 0 :: nat]" "set [1, 0 :: nat] = {..<2}"
    by (auto simp: plain_session_def)
  have ch: "chunk_of (unat (fc_chunk_size small_config)) [1, 2, 3] 0 = [1, 2]" "chunk_of (unat (fc_chunk_size small_config)) [1, 2, 3] 1 = [3]"
    by (simp_all add: small_config_def chunk_of_def)
  have two: "replicate 2 FT_SUCCESS = [FT_SUCCESS, FT_SUCCESS]" by (simp add: numeral_2_eq_2)
  have t: "fs_temp plain_session = ''t''" by (simp add: plain_session_def)
  have i: "(of_nat 1 :: 32 word) = 1" "(of_nat 0 :: 32 word) = 0" by simp_all
  from upload_any_order [OF v s(1,2) m s(3-7) e k s(8-10), of 0]
  show ?thesis unfolding list.map ch two t i by blast
qed

section \<open>Encrypted and compressed uploads\<close>

lemma encrypted_step:
  assumes "\<not> fs_locked s" "fs_encryption s" "fs_status s = FT_STATUS_PREPARING" "of_nat i < fs_total_chunks s" "data \<noteq> []"
    and "fl_decrypt L (fs_key s) (fs_iv s) data = Some d"
  shows "\<exists>cb fs' s'. ft_upload_chunk L all_ok 0 now cfg fs s (of_nat i) data = Done (FT_SUCCESS, cb, fs', s') \<and>
    s' = s\<lparr>fs_bytes := fs_bytes s + of_nat (length data), fs_current_chunk := of_nat i + 1, fs_last_activity := now,
      fs_status := (if fs_total s \<le> fs_bytes s + of_nat (length data) then FT_STATUS_VERIFYING else FT_STATUS_PREPARING)\<rparr>"
proof -
  obtain fs' where w: "ft_write_chunk L all_ok 0 cfg fs (s\<lparr>fs_locked := True\<rparr>) (of_nat i) data = Done (FT_SUCCESS, fs')"
    using assms(2,6)
    by (cases "fs (fs_temp s)") (simp_all add: ft_write_chunk_def received_data_def all_ok_def ft_decrypt_data_def Let_def)
  have "\<not> fs_total_chunks s \<le> of_nat i" using assms(4) by simp
  then show ?thesis using assms w by (simp add: ft_upload_chunk_def ft_lock_def ft_unlock_def Let_def)
qed

lemma verifying_refuses:
  assumes "\<not> fs_locked s" "fs_status s = FT_STATUS_VERIFYING" "data \<noteq> []"
  shows "ft_upload_chunk L io short now cfg fs s i data = Done (FT_ERROR_INVALID_STATE, [], fs, s)"
  using assms by (simp add: ft_upload_chunk_def ft_lock_def ft_unlock_def)

lemma upload_all_verifying:
  assumes "\<not> fs_locked s" "fs_status s = FT_STATUS_VERIFYING" "\<forall>x \<in> set xs. snd x \<noteq> []"
  shows "upload_all L all_ok now cfg fs s xs = Done (replicate (length xs) FT_ERROR_INVALID_STATE, fs, s)"
  using assms(3) by (induction xs) (auto simp: verifying_refuses [OF assms(1,2)])

lemma upload_all_length: "upload_all L io now cfg fs s xs = Done (rs, fs', s') \<Longrightarrow> length rs = length xs"
proof (induction xs arbitrary: fs s rs)
  case (Cons x xs)
  obtain i d where x: "x = (i, d)" by (cases x)
  show ?case using Cons.prems Cons.IH unfolding x by (auto simp: obind_Done)
qed simp

text \<open>Chunks \<open>j\<close> to \<open>m - 1\<close> in order, each \<open>len\<close> bytes long when encrypted.\<close>

lemma encrypted_counts:
  assumes "\<not> fs_locked s" "fs_encryption s" "fs_status s = FT_STATUS_PREPARING" "unat (fs_total_chunks s) = Suc m" "Suc m < 2 ^ 32"
    and "\<And>i. i < m \<Longrightarrow> \<exists>d. fl_decrypt L (fs_key s) (fs_iv s) (enc i) = Some d" "\<And>i. i \<le> m \<Longrightarrow> enc i \<noteq> []"
    and "\<And>i. i < m \<Longrightarrow> length (enc i) = len" "m * len < 2 ^ 63" "fs_bytes s = of_nat (j * len)" "unat (fs_total s) \<le> m * len" "j \<le> m"
    and "j * len < unat (fs_total s)"
  shows "\<exists>rs fs' s'. upload_all L all_ok now cfg fs s (map (\<lambda>i. (of_nat i, enc i)) [j..<Suc m]) = Done (rs, fs', s') \<and>
    fs_status s' = FT_STATUS_VERIFYING \<and> last rs = FT_ERROR_INVALID_STATE"
  using assms
proof (induction "m - j" arbitrary: j fs s)
  case 0
  then show ?case by simp
next
  case (Suc n)
  then have jm: "j < m" by simp
  have u: "unat (of_nat j :: 32 word) = j" using jm Suc.prems(5) by (intro unat_of_nat_32) simp
  then have idx: "of_nat j < fs_total_chunks s" using jm Suc.prems(4) by (simp add: word_less_nat_alt)
  obtain d where d: "fl_decrypt L (fs_key s) (fs_iv s) (enc j) = Some d" using Suc.prems(6) jm by blast
  have ne: "enc j \<noteq> []" using Suc.prems(7) jm by simp
  obtain cb fs1 s1 where up: "ft_upload_chunk L all_ok 0 now cfg fs s (of_nat j) (enc j) = Done (FT_SUCCESS, cb, fs1, s1)"
    "s1 = s\<lparr>fs_bytes := fs_bytes s + of_nat (length (enc j)), fs_current_chunk := of_nat j + 1, fs_last_activity := now,
      fs_status := (if fs_total s \<le> fs_bytes s + of_nat (length (enc j)) then FT_STATUS_VERIFYING else FT_STATUS_PREPARING)\<rparr>"
    using encrypted_step [OF Suc.prems(1-3) idx ne d, of now cfg fs] by blast
  have b: "fs_bytes s + of_nat (length (enc j)) = (of_nat (Suc j * len) :: 64 word)"
    using Suc.prems(8,10) jm by (simp add: algebra_simps)
  have bl: "Suc j * len \<le> m * len" using jm by (intro mult_le_mono1) simp
  have cmp: "fs_total s \<le> of_nat (Suc j * len) \<longleftrightarrow> unat (fs_total s) \<le> Suc j * len"
  proof -
    have "m * len < 2 ^ 64" using Suc.prems(9) by simp
    then have "unat (of_nat (Suc j * len) :: 64 word) = Suc j * len" by (intro unat_of_nat_64 le_less_trans [OF bl])
    then show ?thesis unfolding word_le_nat_alt by (simp only:)
  qed
  have split: "[j..<Suc m] = j # [Suc j..<Suc m]" using jm by (simp add: upt_conv_Cons)
  show ?case
  proof (cases "unat (fs_total s) \<le> Suc j * len")
    case True
    then have v: "\<not> fs_locked s1" "fs_status s1 = FT_STATUS_VERIFYING" using up(2) b cmp Suc.prems(1) by simp_all
    have all: "\<forall>x \<in> set (map (\<lambda>i. (of_nat i :: 32 word, enc i)) [Suc j..<Suc m]). snd x \<noteq> []" using Suc.prems(7) by auto
    note rest = upload_all_verifying [OF v all, of L now cfg fs1]
    show ?thesis unfolding split using up(1) rest v jm by (simp add: last_replicate)
  next
    case False
    have s1: "fs_bytes s1 = of_nat (Suc j * len)" "fs_status s1 = FT_STATUS_PREPARING" "fs_total s1 = fs_total s" "\<not> fs_locked s1"
      "fs_encryption s1" "fs_total_chunks s1 = fs_total_chunks s" "fs_key s1 = fs_key s" "fs_iv s1 = fs_iv s"
      using False cmp Suc.prems(1,2) unfolding up(2) b by simp_all
    have n: "n = m - Suc j" "Suc j \<le> m" "Suc j * len < unat (fs_total s)" using Suc.hyps(2) jm False by simp_all
    have "\<exists>rs fs' s'. upload_all L all_ok now cfg fs1 s1 (map (\<lambda>i. (of_nat i, enc i)) [Suc j..<Suc m]) = Done (rs, fs', s') \<and>
        fs_status s' = FT_STATUS_VERIFYING \<and> last rs = FT_ERROR_INVALID_STATE"
      using Suc.prems(4-9,11) n by (intro Suc.hyps(1)) (simp_all only: s1 not_False_eq_True)
    then obtain rs fs2 s2 where r: "upload_all L all_ok now cfg fs1 s1 (map (\<lambda>i. (of_nat i, enc i)) [Suc j..<Suc m]) = Done (rs, fs2, s2)"
      "fs_status s2 = FT_STATUS_VERIFYING" "last rs = FT_ERROR_INVALID_STATE" by blast
    moreover have "rs \<noteq> []" using upload_all_length [OF r(1)] jm by auto
    ultimately show ?thesis unfolding split using up(1) by simp
  qed
qed


text \<open>
  An encrypted upload can lose its end. The progress counts encrypted bytes against the size of the plain file: when the padding of
  the first chunks adds up to the length of the last one, the transfer turns to VERIFYING before it has been sent, and the last
  chunk is refused with \<open>FT_ERROR_INVALID_STATE\<close>. With the block padding of AES and one full chunk this happens for
  every file with at most 16 bytes in its second chunk.
\<close>

theorem encrypted_upload_refuses_last_chunk:
  assumes "\<not> fs_locked s" "fs_encryption s" "fs_status s = FT_STATUS_PREPARING" "fs_bytes s = 0"
    and "fs_total s = of_nat (m * cs + r)" "unat (fs_total_chunks s) = Suc m" "Suc m < 2 ^ 32" "m * (cs + pad) < 2 ^ 63"
    and "0 < r" "r \<le> m * pad"
    and "\<And>i. i < m \<Longrightarrow> \<exists>d. fl_decrypt L (fs_key s) (fs_iv s) (enc i) = Some d"
    and "\<And>i. i < m \<Longrightarrow> length (enc i) = cs + pad" "\<And>i. i \<le> m \<Longrightarrow> enc i \<noteq> []"
  shows "\<exists>rs fs' s'. upload_all L all_ok now cfg fs s (map (\<lambda>i. (of_nat i, enc i)) [0..<Suc m]) = Done (rs, fs', s') \<and>
    fs_status s' = FT_STATUS_VERIFYING \<and> last rs = FT_ERROR_INVALID_STATE"
proof -
  have le: "m * cs + r \<le> m * (cs + pad)" using assms(10) by (simp add: algebra_simps)
  then have "m * cs + r < 2 ^ 64" using assms(8) by (simp add: le_less_trans)
  then have t: "unat (fs_total s) = m * cs + r" unfolding assms(5) by (rule unat_of_nat_64)
  show ?thesis
    using assms t le by (intro encrypted_counts [where j = 0 and len = "cs + pad"]) auto
qed

lemma encrypted_upload_refuses_last_chunk_witness:
  "\<exists>rs fs' s'. upload_all plain_lib all_ok 0 small_config Map.empty (plain_session\<lparr>fs_encryption := True, fs_status := FT_STATUS_PREPARING,
       fs_total := of_nat (1 * 2 + 1), fs_total_chunks := 2\<rparr>) (map (\<lambda>i. (of_nat i, replicate 18 7)) [0..<Suc 1]) = Done (rs, fs', s') \<and>
     fs_status s' = FT_STATUS_VERIFYING \<and> last rs = FT_ERROR_INVALID_STATE"
  by (rule encrypted_upload_refuses_last_chunk [where m = 1 and cs = 2 and r = 1 and pad = 16 and enc = "\<lambda>_. replicate 18 7"])
    (simp_all add: plain_session_def plain_lib_def)

text \<open> A compressed chunk that is shorter than the data it stands for is always refused: \<open>ft_write_chunk\<close> announces the compressed
  length as the room for the result. Each attempt is counted, and when the retries are used up the transfer fails.
\<close>

theorem compressed_chunk_refused:
  assumes "\<not> fs_locked s" "\<not> fs_encryption s" "fs_compression s" "fs_status s = FT_STATUS_PREPARING" "i < fs_total_chunks s"
    and "fl_inflate L data = Some d" "length data < length d" "data \<noteq> []" "length d \<le> unat (fc_chunk_size cfg)"
  shows "\<exists>cb fs' s'. ft_upload_chunk L all_ok short now cfg fs s i data = Done (FT_ERROR_DECOMPRESSION, cb, fs', s') \<and>
    fs_bytes s' = fs_bytes s \<and>
    (if fs_retry s < fc_max_retries cfg then fs_status s' = FT_STATUS_PREPARING \<and> fs_retry s' = fs_retry s + 1
     else fs_status s' = FT_STATUS_FAILED)"
proof -
  have rd: "received_data L all_ok cfg (s\<lparr>fs_locked := True\<rparr>) data = Done (FT_ERROR_DECOMPRESSION, [])"
    using assms by (simp add: received_data_def all_ok_def ft_decompress_chunk_def)
  obtain fs' where w: "ft_write_chunk L all_ok short cfg fs (s\<lparr>fs_locked := True\<rparr>) i data = Done (FT_ERROR_DECOMPRESSION, fs')"
    by (cases "fs (fs_temp s)") (simp_all add: ft_write_chunk_def rd all_ok_def Let_def)
  have "\<not> fs_total_chunks s \<le> i" using assms(5) by simp
  then show ?thesis using assms(1,4,8) w by (simp add: ft_upload_chunk_def ft_lock_def ft_unlock_def Let_def)
qed

lemma compressed_chunk_refused_witness:
  "\<exists>cb fs' s'. ft_upload_chunk plain_lib all_ok 0 0 small_config Map.empty (plain_session\<lparr>fs_compression := True,
     fs_status := FT_STATUS_PREPARING, fs_total_chunks := 1\<rparr>) 0 [9] = Done (FT_ERROR_DECOMPRESSION, cb, fs', s') \<and> fs_retry s' = 1"
proof -
  let ?s = "plain_session\<lparr>fs_compression := True, fs_status := FT_STATUS_PREPARING, fs_total_chunks := 1\<rparr>"
  have h: "\<not> fs_locked ?s" "\<not> fs_encryption ?s" "fs_compression ?s" "fs_status ?s = FT_STATUS_PREPARING" "0 < fs_total_chunks ?s"
    "fl_inflate plain_lib [9] = Some [9, 9]" "length [9 :: byte] < length [9, 9 :: byte]" "[9 :: byte] \<noteq> []"
    "length [9, 9 :: byte] \<le> unat (fc_chunk_size small_config)"
    by (simp_all add: plain_session_def plain_lib_def small_config_def)
  have r: "fs_retry ?s = 0" "fc_max_retries small_config = 3" by (simp_all add: plain_session_def small_config_def DEFAULT_FT_CONFIG_def)
  from compressed_chunk_refused [OF h, of 0 0 Map.empty] show ?thesis unfolding r by auto
qed

end
