(* ===== verification/Transfer_Manager.thy ===== *)
theory Transfer_Manager
  imports File_Transfer
begin

text \<open>
  The transfer manager of \<open>server/src/file_transfer.c\<close>: creating and removing sessions, the hash table and the lists of
  active and completed sessions, and a turn of the manager thread. Sessions live in an explicit heap, because a session has a single pair of
  links that the hash chain and the session lists share. An address that has been freed has no contents, and reading it is undefined.

  A walk along more links than there are addresses has come back to a session it has seen and never ends;
  like a deadlock it does not return, and it is given the same outcome. The average and peak speeds,
  which are floating point and only printed, are left out.
\<close>

section \<open>State\<close>

record ft_stats =
  ts_total :: "64 word"
  ts_successful :: "64 word"
  ts_failed :: "64 word"
  ts_bytes :: "64 word"
  ts_uptime :: int
  ts_active :: "32 word"

record ft_manager =
  fm_heap :: "nat \<Rightarrow> ft_session option"
  fm_fresh :: nat
  fm_active :: "nat option"
  fm_completed :: "nat option"
  fm_table :: "nat option list"
  fm_count :: "64 word"
  fm_config :: ft_config
  fm_stats :: ft_stats
  fm_locked :: bool
  fm_running :: bool
  fm_files :: file_system
  fm_dirs :: "string \<Rightarrow> bool"
  fm_pool :: bool
  fm_counter :: "64 word"

definition load_session :: "ft_manager \<Rightarrow> nat \<Rightarrow> ft_session outcome" where
  "load_session m a = (case fm_heap m a of None \<Rightarrow> Undefined_Behaviour | Some s \<Rightarrow> Done s)"

definition store_session :: "ft_manager \<Rightarrow> nat \<Rightarrow> ft_session \<Rightarrow> ft_manager" where
  "store_session m a s = m\<lparr>fm_heap := (fm_heap m)(a \<mapsto> s)\<rparr>"

definition session_set_next :: "ft_manager \<Rightarrow> nat \<Rightarrow> nat option \<Rightarrow> ft_manager outcome" where
  "session_set_next m a p = obind (load_session m a) (\<lambda>s. Done (store_session m a (s\<lparr>fs_next := p\<rparr>)))"

definition session_set_prev :: "ft_manager \<Rightarrow> nat \<Rightarrow> nat option \<Rightarrow> ft_manager outcome" where
  "session_set_prev m a p = obind (load_session m a) (\<lambda>s. Done (store_session m a (s\<lparr>fs_prev := p\<rparr>)))"

definition fm_lock :: "ft_manager \<Rightarrow> ft_manager outcome" where
  "fm_lock m = (if fm_locked m then Deadlock else Done (m\<lparr>fm_locked := True\<rparr>))"

definition fm_unlock :: "ft_manager \<Rightarrow> ft_manager" where
  "fm_unlock m = m\<lparr>fm_locked := False\<rparr>"

section \<open>Links\<close>

text \<open>Putting a session in front of a list, and taking one out; \<open>set_head\<close> stores the head of the list.\<close>

definition push_front :: "ft_manager \<Rightarrow> nat \<Rightarrow> nat option \<Rightarrow> (nat option \<Rightarrow> ft_manager \<Rightarrow> ft_manager) \<Rightarrow> ft_manager outcome" where
  "push_front m a head set_head =
     obind (session_set_next m a head) (\<lambda>m1.
     obind (session_set_prev m1 a None) (\<lambda>m2.
     obind (case head of None \<Rightarrow> Done m2 | Some b \<Rightarrow> session_set_prev m2 b (Some a)) (\<lambda>m3.
       Done (set_head (Some a) m3))))"

definition unlink_session :: "ft_manager \<Rightarrow> nat \<Rightarrow> (nat option \<Rightarrow> ft_manager \<Rightarrow> ft_manager) \<Rightarrow> ft_manager outcome" where
  "unlink_session m a set_head =
     obind (load_session m a) (\<lambda>s.
     obind (case fs_prev s of Some p \<Rightarrow> session_set_next m p (fs_next s) | None \<Rightarrow> Done (set_head (fs_next s) m)) (\<lambda>m1.
       case fs_next s of Some n \<Rightarrow> session_set_prev m1 n (fs_prev s) | None \<Rightarrow> Done m1))"

definition set_active :: "nat option \<Rightarrow> ft_manager \<Rightarrow> ft_manager" where
  "set_active p m = m\<lparr>fm_active := p\<rparr>"

definition set_completed :: "nat option \<Rightarrow> ft_manager \<Rightarrow> ft_manager" where
  "set_completed p m = m\<lparr>fm_completed := p\<rparr>"

definition set_bucket :: "nat \<Rightarrow> nat option \<Rightarrow> ft_manager \<Rightarrow> ft_manager" where
  "set_bucket i p m = m\<lparr>fm_table := (fm_table m)[i := p]\<rparr>"

section \<open>The session map\<close>

definition ft_hash_transfer_id :: "64 word \<Rightarrow> nat" where
  "ft_hash_transfer_id i = unat (i mod 101)"

fun find_chain :: "nat \<Rightarrow> ft_manager \<Rightarrow> 64 word \<Rightarrow> nat option \<Rightarrow> nat option outcome" where
  "find_chain n m i None = Done None"
| "find_chain 0 m i (Some a) = Deadlock"
| "find_chain (Suc n) m i (Some a) =
     obind (load_session m a) (\<lambda>s. if fs_id s = i then Done (Some a) else find_chain n m i (fs_next s))"

definition ft_find_in_session_map :: "ft_manager \<Rightarrow> 64 word \<Rightarrow> nat option outcome" where
  "ft_find_in_session_map m i = find_chain (Suc (fm_fresh m)) m i (fm_table m ! ft_hash_transfer_id i)"

definition ft_add_to_session_map :: "ft_manager \<Rightarrow> nat \<Rightarrow> ft_manager outcome" where
  "ft_add_to_session_map m a =
     obind (load_session m a) (\<lambda>s.
       let index = ft_hash_transfer_id (fs_id s) in
       obind (push_front m a (fm_table m ! index) (set_bucket index)) (\<lambda>m1.
         Done (m1\<lparr>fm_count := fm_count m1 + 1\<rparr>)))"

definition ft_remove_from_session_map :: "ft_manager \<Rightarrow> 64 word \<Rightarrow> (ft_error \<times> ft_manager) outcome" where
  "ft_remove_from_session_map m i =
     obind (ft_find_in_session_map m i) (\<lambda>found.
       case found of None \<Rightarrow> Done (FT_ERROR_TRANSFER_NOT_FOUND, m)
       | Some a \<Rightarrow> obind (unlink_session m a (set_bucket (ft_hash_transfer_id i))) (\<lambda>m1.
           Done (FT_SUCCESS, m1\<lparr>fm_count := fm_count m1 - 1\<rparr>)))"

definition ft_get_session :: "ft_manager \<Rightarrow> 64 word \<Rightarrow> nat option outcome" where
  "ft_get_session m i = ft_find_in_session_map m i"

section \<open>Creating and destroying sessions\<close>

definition ft_generate_transfer_id :: "int \<Rightarrow> 64 word \<Rightarrow> ft_manager \<Rightarrow> 64 word \<times> ft_manager" where
  "ft_generate_transfer_id now random m =
     (push_bit 32 (word_of_int now) OR (random AND 0xFFFFFFFF) OR (fm_counter m AND 0xFFFF), m\<lparr>fm_counter := fm_counter m + 1\<rparr>)"

text \<open>\<open>"%016llx"\<close>.\<close>

definition hex16 :: "64 word \<Rightarrow> string" where
  "hex16 w = concat (map (\<lambda>i. hex02 (ucast (drop_bit (8 * i) w))) (rev [0..<8]))"

definition temp_name :: "string \<Rightarrow> 64 word \<Rightarrow> string" where
  "temp_name dir i = snprintf 512 (dir @ ''/chunks/'' @ snprintf 64 (''transfer_'' @ hex16 i @ ''.tmp''))"

record ft_env =
  fe_ok :: "nat \<Rightarrow> bool"
  fe_now :: "nat \<Rightarrow> int"
  fe_random :: "64 word"
  fe_key :: "byte list"
  fe_iv :: "byte list"

text \<open>A new session; \<open>time\<close> is read for the identifier and again for the session.\<close>

definition new_session :: "ft_config \<Rightarrow> ft_env \<Rightarrow> 64 word \<Rightarrow> 64 word \<Rightarrow> 64 word \<Rightarrow> string option \<Rightarrow> string option \<Rightarrow> file_metadata option \<Rightarrow> nat \<Rightarrow> ft_session" where
  "new_session cfg e i user peer local remote meta mode =
     \<lparr>fs_id = i, fs_user = user, fs_peer = peer, fs_local = (case local of Some p \<Rightarrow> take 511 p | None \<Rightarrow> []),
      fs_remote = (case remote of Some p \<Rightarrow> take 511 p | None \<Rightarrow> []), fs_temp = temp_name (fc_temp cfg) i,
      fs_meta = (case meta of Some d \<Rightarrow> d | None \<Rightarrow> no_metadata), fs_mode = mode,
      fs_status = FT_STATUS_PENDING, fs_encryption = fc_encryption cfg, fs_key = (if fc_encryption cfg then fe_key e else replicate 32 0),
      fs_iv = (if fc_encryption cfg then fe_iv e else replicate 16 0), fs_compression = fc_compression cfg, fs_current_chunk = 0,
      fs_total_chunks = (case meta of Some d \<Rightarrow> chunk_count (md_size d) (fc_chunk_size cfg) | None \<Rightarrow> 0), fs_bytes = 0,
      fs_total = (case meta of Some d \<Rightarrow> md_size d | None \<Rightarrow> 0), fs_retry = 0, fs_error_chunks = [], fs_start = fe_now e 1,
      fs_last_activity = fe_now e 1, fs_expected = [], fs_locked = False, fs_progress_cb = False, fs_completion_cb = False,
      fs_error_cb = False, fs_next = None, fs_prev = None\<rparr>"

text \<open>\<open>ok 0\<close>: the session, \<open>ok 1\<close>: random bytes, \<open>ok 2\<close>: mutex, \<open>ok 3\<close>: condition variable.\<close>

definition ft_create_session :: "ft_env \<Rightarrow> 64 word \<Rightarrow> 64 word \<Rightarrow> string option \<Rightarrow> string option \<Rightarrow> file_metadata option \<Rightarrow> nat \<Rightarrow> ft_manager \<Rightarrow>
    (ft_error \<times> nat option \<times> ft_manager) outcome" where
  "ft_create_session e user peer local remote meta mode m =
     (if local = None \<and> remote = None then Done (FT_ERROR_INVALID_PARAMS, None, m)
      else if \<not> fe_ok e 0 then Done (FT_ERROR_MEMORY, None, m)
      else (case ft_generate_transfer_id (fe_now e 0) (fe_random e) m of (i, m1) \<Rightarrow>
        let a = fm_fresh m1;
            s = new_session (fm_config m1) e i user peer local remote meta mode;
            m2 = (store_session m1 a s)\<lparr>fm_fresh := a + 1\<rparr>
        in if fc_encryption (fm_config m1) \<and> \<not> fe_ok e 1 then Done (FT_ERROR_ENCRYPTION, None, m1)
           else if \<not> fe_ok e 2 \<or> \<not> fe_ok e 3 then Done (FT_ERROR_MEMORY, None, m1)
           else obind (ft_add_to_session_map m2 a) (\<lambda>m3.
                obind (fm_lock m3) (\<lambda>m4.
                obind (push_front m4 a (fm_active m4) set_active) (\<lambda>m5.
                  let m6 = fm_unlock m5; st = fm_stats m6 in
                  Done (FT_SUCCESS, Some a, m6\<lparr>fm_stats := st\<lparr>ts_total := ts_total st + 1, ts_active := ts_active st + 1\<rparr>\<rparr>))))))"

definition ft_destroy_session :: "ft_manager \<Rightarrow> nat \<Rightarrow> ft_manager outcome" where
  "ft_destroy_session m a =
     obind (load_session m a) (\<lambda>s.
       let m1 = (if fs_temp s \<noteq> [] then m\<lparr>fm_files := (fm_files m)(fs_temp s := None)\<rparr> else m) in
       obind (ft_remove_from_session_map m1 (fs_id s)) (\<lambda>(_, m2).
         Done (m2\<lparr>fm_heap := (fm_heap m2)(a := None)\<rparr>)))"

definition ft_remove_session :: "ft_manager \<Rightarrow> 64 word \<Rightarrow> (ft_error \<times> ft_manager) outcome" where
  "ft_remove_session m i =
     obind (fm_lock m) (\<lambda>m0.
     obind (ft_remove_from_session_map m0 i) (\<lambda>(r, m1).
       if r \<noteq> FT_SUCCESS then Done (r, fm_unlock m1)
       else obind (find_chain (Suc (fm_fresh m1)) m1 i (fm_active m1)) (\<lambda>act.
         obind (case act of
             Some a \<Rightarrow> obind (unlink_session m1 a set_active) (\<lambda>m2.
               Done (Some a, m2\<lparr>fm_stats := (fm_stats m2)\<lparr>ts_active := ts_active (fm_stats m2) - 1\<rparr>\<rparr>))
           | None \<Rightarrow> obind (find_chain (Suc (fm_fresh m1)) m1 i (fm_completed m1)) (\<lambda>comp.
               case comp of Some a \<Rightarrow> obind (unlink_session m1 a set_completed) (\<lambda>m2. Done (Some a, m2))
               | None \<Rightarrow> Done (None, m1))) (\<lambda>(found, m3).
           let m4 = fm_unlock m3 in
           obind (case found of Some a \<Rightarrow> ft_destroy_session m4 a | None \<Rightarrow> Done m4) (\<lambda>m5. Done (FT_SUCCESS, m5))))))"

fun cleanup_chain :: "nat \<Rightarrow> int \<Rightarrow> ft_manager \<Rightarrow> nat option \<Rightarrow> ft_manager outcome" where
  "cleanup_chain n older_than m None = Done m"
| "cleanup_chain 0 older_than m (Some a) = Deadlock"
| "cleanup_chain (Suc n) older_than m (Some a) =
     obind (load_session m a) (\<lambda>s.
       if fs_last_activity s < older_than then
         obind (unlink_session m a set_completed) (\<lambda>m1.
         obind (ft_remove_from_session_map m1 (fs_id s)) (\<lambda>(_, m2).
         obind (ft_destroy_session m2 a) (\<lambda>m3. cleanup_chain n older_than m3 (fs_next s))))
       else cleanup_chain n older_than m (fs_next s))"

definition ft_cleanup_completed_sessions :: "ft_manager \<Rightarrow> int \<Rightarrow> ft_manager outcome" where
  "ft_cleanup_completed_sessions m older_than =
     obind (fm_lock m) (\<lambda>m1.
     obind (cleanup_chain (Suc (fm_fresh m1)) older_than m1 (fm_completed m1)) (\<lambda>m2. Done (fm_unlock m2)))"


section \<open>The manager thread\<close>

text \<open>\<open>io 0\<close>: open the file to be verified, or the file a transfer starts from, \<open>io 1\<close>: the rename or the creation of the temporary file. The chunk size is not zero in a
  configuration that \<open>ft_validate_config\<close> accepts. The estimated time of completion is floating point and left out.\<close>

definition ft_update_progress :: "ft_config \<Rightarrow> file_system \<Rightarrow> ft_session \<Rightarrow> ft_callback list \<times> ft_session" where
  "ft_update_progress cfg fs s =
     (case fs (fs_temp s) of None \<Rightarrow> ([], s)
      | Some content \<Rightarrow>
          let n = of_nat (length content);
              s1 = s\<lparr>fs_bytes := n, fs_current_chunk := ucast (n div ucast (fc_chunk_size cfg))\<rparr>
          in (if fs_total s > 0 \<and> fs_progress_cb s then [Progress] else [], s1))"

definition ft_process_session :: "ft_lib \<Rightarrow> (nat \<Rightarrow> bool) \<Rightarrow> int \<Rightarrow> ft_config \<Rightarrow> file_system \<Rightarrow> ft_stats \<Rightarrow> ft_session \<Rightarrow>
    (ft_error \<times> ft_callback list \<times> file_system \<times> ft_stats \<times> ft_session) outcome" where
  "ft_process_session L io now cfg fs st s0 =
     obind (ft_lock s0) (\<lambda>s.
     obind (case fs_status s of
         FT_STATUS_PENDING \<Rightarrow>
           obind (if strstr (fs_local s) ''upload'' \<noteq> None then ft_prepare_upload io now cfg fs s else ft_prepare_download io now cfg fs s)
             (\<lambda>(r, fs1, s1). Done (r, [], fs1, st, if r = FT_SUCCESS then s1\<lparr>fs_status := FT_STATUS_TRANSFERRING\<rparr> else s1))
       | FT_STATUS_TRANSFERRING \<Rightarrow> (case ft_update_progress cfg fs s of (cb, s1) \<Rightarrow> Done (FT_SUCCESS, cb, fs, st, s1))
       | FT_STATUS_VERIFYING \<Rightarrow>
           if fc_verify cfg \<and> fs_expected s \<noteq> [] then
             let r = ft_verify_file_checksum L (io 0) fs (fs_temp s) (fs_expected s)
             in Done (r, [], fs, st, s\<lparr>fs_status := if r = FT_SUCCESS then FT_STATUS_COMPLETED else FT_STATUS_FAILED\<rparr>)
           else Done (FT_SUCCESS, [], fs, st, s\<lparr>fs_status := FT_STATUS_COMPLETED\<rparr>)
       | FT_STATUS_COMPLETED \<Rightarrow>
           let cb = (if fs_completion_cb s then [Completion] else []) in
           (case rename_file (io 1) fs (fs_temp s) (fs_local s) of
              None \<Rightarrow> Done (FT_ERROR_IO, cb, fs, st, s\<lparr>fs_status := FT_STATUS_FAILED\<rparr>)
            | Some fs1 \<Rightarrow> Done (FT_SUCCESS, cb, fs1,
                st\<lparr>ts_successful := ts_successful st + 1, ts_bytes := ts_bytes st + fs_total s\<rparr>, s))
       | _ \<Rightarrow> Done (FT_SUCCESS, [], fs, st, s))
     (\<lambda>(r, cb, fs1, st1, s1). Done (r, cb, fs1, st1, ft_unlock (s1\<lparr>fs_last_activity := now\<rparr>))))"

definition ft_check_timeout :: "int \<Rightarrow> ft_config \<Rightarrow> ft_session \<Rightarrow> (ft_error \<times> ft_callback list \<times> ft_session) outcome" where
  "ft_check_timeout now cfg s0 =
     (if now - fs_last_activity s0 > int (unat (fc_timeout_ms cfg div 1000)) then
        obind (ft_lock s0) (\<lambda>s.
          if fs_status s = FT_STATUS_TRANSFERRING \<or> fs_status s = FT_STATUS_PENDING
          then Done (FT_ERROR_TIMEOUT, if fs_error_cb s then [Failure FT_ERROR_TIMEOUT] else [], ft_unlock (s\<lparr>fs_status := FT_STATUS_FAILED\<rparr>))
          else Done (FT_ERROR_TIMEOUT, [], ft_unlock s))
      else Done (FT_SUCCESS, [], s0))"

text \<open>A turn of \<open>ft_manager_thread_func\<close>. The answers of the system while the session at \<open>a\<close> is processed are \<open>te_io a\<close>, the
  clock then reads \<open>te_now a\<close>, and \<open>te_check a\<close> when its timeout is checked.\<close>

record ft_turn_env =
  te_io :: "nat \<Rightarrow> nat \<Rightarrow> bool"
  te_now :: "nat \<Rightarrow> int"
  te_check :: "nat \<Rightarrow> int"
  te_clean :: int
  te_uptime :: int

definition retire_session :: "ft_manager \<Rightarrow> nat \<Rightarrow> ft_manager outcome" where
  "retire_session m a =
     obind (load_session m a) (\<lambda>s.
     obind (unlink_session (store_session m a (s\<lparr>fs_status := FT_STATUS_FAILED\<rparr>)) a set_active) (\<lambda>m1.
     obind (push_front m1 a (fm_completed m1) set_completed) (\<lambda>m2.
       Done (m2\<lparr>fm_stats := (fm_stats m2)\<lparr>ts_failed := ts_failed (fm_stats m2) + 1, ts_active := ts_active (fm_stats m2) - 1\<rparr>\<rparr>))))"

fun process_chain :: "nat \<Rightarrow> ft_lib \<Rightarrow> ft_turn_env \<Rightarrow> ft_manager \<Rightarrow> nat option \<Rightarrow> (ft_callback list \<times> ft_manager) outcome" where
  "process_chain n L e m None = Done ([], m)"
| "process_chain 0 L e m (Some a) = Deadlock"
| "process_chain (Suc n) L e m (Some a) =
     (if \<not> fm_running m then Done ([], m)
      else obind (load_session m a) (\<lambda>s.
        obind (ft_process_session L (te_io e a) (te_now e a) (fm_config m) (fm_files m) (fm_stats m) s) (\<lambda>(r, cb, fs1, st1, s1).
          let m1 = (store_session m a s1)\<lparr>fm_files := fs1, fm_stats := st1\<rparr>;
              cb1 = (if r \<noteq> FT_SUCCESS \<and> fs_error_cb s1 then [Failure r] else [])
          in obind (if r \<noteq> FT_SUCCESS then retire_session m1 a else Done m1) (\<lambda>m2.
             obind (process_chain n L e m2 (fs_next s)) (\<lambda>(cbs, m3). Done (cb @ cb1 @ cbs, m3))))))"

fun timeout_chain :: "nat \<Rightarrow> ft_turn_env \<Rightarrow> ft_manager \<Rightarrow> nat option \<Rightarrow> (ft_callback list \<times> ft_manager) outcome" where
  "timeout_chain n e m None = Done ([], m)"
| "timeout_chain 0 e m (Some a) = Deadlock"
| "timeout_chain (Suc n) e m (Some a) =
     obind (load_session m a) (\<lambda>s.
     obind (ft_check_timeout (te_check e a) (fm_config m) s) (\<lambda>(r, cb, s1).
     obind (timeout_chain n e (store_session m a s1) (fs_next s)) (\<lambda>(cbs, m2). Done (cb @ cbs, m2))))"

definition ft_manager_turn :: "ft_lib \<Rightarrow> ft_turn_env \<Rightarrow> ft_manager \<Rightarrow> (ft_callback list \<times> ft_manager) outcome" where
  "ft_manager_turn L e m =
     obind (fm_lock m) (\<lambda>m0.
     obind (process_chain (Suc (fm_fresh m0)) L e m0 (fm_active m0)) (\<lambda>(cb1, m1).
     let m2 = fm_unlock m1 in
     obind (timeout_chain (Suc (fm_fresh m2)) e m2 (fm_active m2)) (\<lambda>(cb2, m3).
     obind (ft_cleanup_completed_sessions m3 (te_clean e - 3600)) (\<lambda>m4.
       Done (cb1 @ cb2, m4\<lparr>fm_stats := (fm_stats m4)\<lparr>ts_uptime := te_uptime e - ts_uptime (fm_stats m4)\<rparr>\<rparr>)))))"


section \<open>Starting transfers\<close>

text \<open>The size and the total space: \<open>du\<close> is the number that the command prints and \<open>vfs\<close> blocks and fragment size, both missing on failure.\<close>

definition ft_get_storage_usage :: "64 word option \<Rightarrow> (64 word \<times> 64 word) option \<Rightarrow> 64 word \<times> 64 word" where
  "ft_get_storage_usage du vfs =
     (case du of Some n \<Rightarrow> n | None \<Rightarrow> 0, case vfs of Some (blocks, frsize) \<Rightarrow> blocks * frsize | None \<Rightarrow> 107374182400)"

text \<open>The two outer functions share their environment: \<open>su_create\<close> for the session, \<open>su_prepare\<close> and \<open>su_now\<close> for its preparation, \<open>su_sum\<close>: the
  file can be opened for its checksum. The pointer for the result is not \<open>NULL\<close>.\<close>

record ft_start_env =
  su_du :: "64 word option"
  su_vfs :: "(64 word \<times> 64 word) option"
  su_create :: ft_env
  su_prepare :: "nat \<Rightarrow> bool"
  su_now :: int
  su_sum :: bool

definition ft_start_upload :: "ft_lib \<Rightarrow> ft_start_env \<Rightarrow> 64 word \<Rightarrow> 64 word \<Rightarrow> string option \<Rightarrow> string option \<Rightarrow> file_metadata option \<Rightarrow> nat \<Rightarrow> ft_manager \<Rightarrow>
    (ft_error \<times> nat option \<times> ft_manager) outcome" where
  "ft_start_upload L e user peer local remote meta mode m =
     (case (local, remote, meta) of
        (Some lp, Some rp, Some md) \<Rightarrow>
          (case fm_files m lp of None \<Rightarrow> Done (FT_ERROR_FILE_NOT_FOUND, None, m)
           | Some content \<Rightarrow>
               let n = of_nat (length content) :: 64 word in
               if n > fc_max_file_size (fm_config m) then Done (FT_ERROR_FILE_TOO_LARGE, None, m)
               else if n > snd (ft_get_storage_usage (su_du e) (su_vfs e)) then Done (FT_ERROR_DISK_FULL, None, m)
               else obind (ft_create_session (su_create e) user peer (Some lp) (Some rp) (Some md) mode m) (\<lambda>(r, sess, m1).
                 case sess of None \<Rightarrow> Done (r, None, m1)
                 | Some a \<Rightarrow> obind (load_session m1 a) (\<lambda>s.
                     obind (ft_prepare_upload (su_prepare e) (su_now e) (fm_config m1) (fm_files m1) s) (\<lambda>(r2, fs2, s2).
                       let m2 = (store_session m1 a s2)\<lparr>fm_files := fs2\<rparr> in
                       if r2 \<noteq> FT_SUCCESS then obind (ft_remove_session m2 (fs_id s2)) (\<lambda>(_, m3). Done (r2, None, m3))
                       else
                         let s3 = (if fc_verify (fm_config m2)
                                   then (case ft_calculate_file_checksum L (su_sum e) fs2 lp of (r3, digest) \<Rightarrow>
                                           if r3 = FT_SUCCESS then s2\<lparr>fs_expected := digest\<rparr> else s2)
                                   else s2)
                         in Done (FT_SUCCESS, Some a, store_session m2 a s3)))))
      | _ \<Rightarrow> Done (FT_ERROR_INVALID_PARAMS, None, m))"

definition base_name :: "string \<Rightarrow> string" where
  "base_name path = (case strrchr path (CHR ''/'') of Some i \<Rightarrow> drop (Suc i) path | None \<Rightarrow> path)"

definition file_type_of :: "string \<Rightarrow> file_type" where
  "file_type_of filename =
     (case strrchr filename (CHR ''.'') of None \<Rightarrow> FILE_TYPE_UNKNOWN
      | Some i \<Rightarrow>
          let ext = drop (Suc i) filename in
          if strcasecmp_eq ext ''jpg'' \<or> strcasecmp_eq ext ''jpeg'' \<or> strcasecmp_eq ext ''png'' \<or> strcasecmp_eq ext ''gif'' then FILE_TYPE_IMAGE
          else if strcasecmp_eq ext ''mp3'' \<or> strcasecmp_eq ext ''wav'' \<or> strcasecmp_eq ext ''ogg'' then FILE_TYPE_AUDIO
          else if strcasecmp_eq ext ''mp4'' \<or> strcasecmp_eq ext ''avi'' \<or> strcasecmp_eq ext ''mkv'' then FILE_TYPE_VIDEO
          else if strcasecmp_eq ext ''pdf'' \<or> strcasecmp_eq ext ''doc'' \<or> strcasecmp_eq ext ''txt'' then FILE_TYPE_DOCUMENT
          else if strcasecmp_eq ext ''zip'' \<or> strcasecmp_eq ext ''tar'' \<or> strcasecmp_eq ext ''gz'' then FILE_TYPE_ARCHIVE
          else FILE_TYPE_UNKNOWN)"

definition ft_start_download :: "ft_start_env \<Rightarrow> 64 word \<Rightarrow> 64 word \<Rightarrow> string option \<Rightarrow> string option \<Rightarrow> nat \<Rightarrow> ft_manager \<Rightarrow>
    (ft_error \<times> nat option \<times> ft_manager) outcome" where
  "ft_start_download e user peer remote local mode m =
     (case (remote, local) of
        (Some rp, Some lp) \<Rightarrow>
          (case fm_files m rp of None \<Rightarrow> Done (FT_ERROR_FILE_NOT_FOUND, None, m)
           | Some content \<Rightarrow>
               let n = of_nat (length content) :: 64 word in
               if n > snd (ft_get_storage_usage (su_du e) (su_vfs e)) then Done (FT_ERROR_DISK_FULL, None, m)
               else
                 let md = no_metadata\<lparr>md_size := n, md_filename := take 255 rp, md_original := take 255 (base_name rp),
                            md_type := file_type_of (base_name rp)\<rparr>
                 in obind (ft_create_session (su_create e) user peer (Some lp) (Some rp) (Some md) mode m) (\<lambda>(r, sess, m1).
                   case sess of None \<Rightarrow> Done (r, None, m1)
                   | Some a \<Rightarrow> obind (load_session m1 a) (\<lambda>s.
                       obind (ft_prepare_download (su_prepare e) (su_now e) (fm_config m1) (fm_files m1) s) (\<lambda>(r2, fs2, s2).
                         let m2 = (store_session m1 a s2)\<lparr>fm_files := fs2\<rparr> in
                         if r2 \<noteq> FT_SUCCESS then obind (ft_remove_session m2 (fs_id s2)) (\<lambda>(_, m3). Done (r2, None, m3))
                         else Done (FT_SUCCESS, Some a, m2)))))
      | _ \<Rightarrow> Done (FT_ERROR_INVALID_PARAMS, None, m))"

section \<open>The module\<close>

text \<open>The global manager and the \<open>pthread_once\<close> control. The manager holds the file system while there is one.\<close>

record ft_module =
  fg_manager :: "ft_manager option"
  fg_once :: bool
  fg_files :: file_system
  fg_dirs :: "string \<Rightarrow> bool"
  fg_counter :: "64 word"

definition no_stats :: ft_stats where
  "no_stats = \<lparr>ts_total = 0, ts_successful = 0, ts_failed = 0, ts_bytes = 0, ts_uptime = 0, ts_active = 0\<rparr>"

definition zero_config :: ft_config where
  "zero_config = \<lparr>fc_chunk_size = 0, fc_max_retries = 0, fc_timeout_ms = 0, fc_max_concurrent = 0, fc_encryption = False,
     fc_compression = False, fc_resume = False, fc_verify = False, fc_storage = [], fc_temp = [], fc_max_file_size = 0\<rparr>"

text \<open>\<open>ok 0\<close>: the manager, \<open>ok 1\<close>: its mutex.\<close>

definition ft_init_once :: "(nat \<Rightarrow> bool) \<Rightarrow> ft_module \<Rightarrow> ft_module" where
  "ft_init_once ok g =
     (if ok 0 \<and> ok 1 then g\<lparr>fg_manager := Some \<lparr>fm_heap = (\<lambda>_. None), fm_fresh = 0, fm_active = None, fm_completed = None, fm_table = [],
        fm_count = 0, fm_config = zero_config, fm_stats = no_stats, fm_locked = False, fm_running = False, fm_files = fg_files g,
        fm_dirs = fg_dirs g, fm_pool = False, fm_counter = fg_counter g\<rparr>\<rparr>
      else g\<lparr>fg_manager := None\<rparr>)"

definition make_dir :: "bool \<Rightarrow> string \<Rightarrow> (string \<Rightarrow> bool) \<Rightarrow> string \<Rightarrow> bool" where
  "make_dir ok path dirs = (if ok then dirs(path := True) else dirs)"

text \<open>\<open>ok 2\<close> to \<open>ok 7\<close>: the directories can be made. Only the first two failures count.\<close>

definition ft_init_directories :: "(nat \<Rightarrow> bool) \<Rightarrow> ft_manager \<Rightarrow> ft_error \<times> ft_manager" where
  "ft_init_directories ok m =
     (let storage = fc_storage (fm_config m); temp = fc_temp (fm_config m) in
      if \<not> fm_dirs m storage \<and> \<not> ok 2 then (FT_ERROR_IO, m)
      else
        let d1 = make_dir True storage (fm_dirs m) in
        if \<not> d1 temp \<and> \<not> ok 3 then (FT_ERROR_IO, m\<lparr>fm_dirs := d1\<rparr>)
        else
          let d2 = make_dir True temp d1;
              d3 = make_dir (ok 4) (snprintf 512 (storage @ ''/uploads'')) d2;
              d4 = make_dir (ok 5) (snprintf 512 (storage @ ''/downloads'')) d3;
              d5 = make_dir (ok 6) (snprintf 512 (temp @ ''/sessions'')) d4;
              d6 = make_dir (ok 7) (snprintf 512 (temp @ ''/chunks'')) d5
          in (FT_SUCCESS, m\<lparr>fm_dirs := d6\<rparr>))"

text \<open>\<open>ok 8\<close>: the table, \<open>ok 9\<close>: the thread pool.\<close>

definition ft_create_session_map :: "bool \<Rightarrow> ft_manager \<Rightarrow> ft_error \<times> ft_manager" where
  "ft_create_session_map ok m =
     (if ok then (FT_SUCCESS, m\<lparr>fm_table := replicate 101 None, fm_count := 0\<rparr>) else (FT_ERROR_MEMORY, m\<lparr>fm_table := [], fm_count := 0\<rparr>))"

definition ft_init :: "(nat \<Rightarrow> bool) \<Rightarrow> int \<Rightarrow> ft_config option \<Rightarrow> ft_module \<Rightarrow> ft_error \<times> ft_module" where
  "ft_init ok now config g0 =
     (let g = (if fg_once g0 then g0 else (ft_init_once ok g0)\<lparr>fg_once := True\<rparr>) in
      case fg_manager g of None \<Rightarrow> (FT_ERROR_MEMORY, g)
      | Some m \<Rightarrow>
          let m1 = m\<lparr>fm_config := (case config of Some c \<Rightarrow> c | None \<Rightarrow> DEFAULT_FT_CONFIG)\<rparr>;
              r1 = ft_validate_config (Some (fm_config m1))
          in if r1 \<noteq> FT_SUCCESS then (r1, g\<lparr>fg_manager := Some m1\<rparr>)
             else (case ft_init_directories ok m1 of (r2, m2) \<Rightarrow>
               if r2 \<noteq> FT_SUCCESS then (r2, g\<lparr>fg_manager := Some m2\<rparr>)
               else (case ft_create_session_map (ok 8) m2 of (r3, m3) \<Rightarrow>
                 if r3 \<noteq> FT_SUCCESS then (r3, g\<lparr>fg_manager := Some m3\<rparr>)
                 else if \<not> ok 9 then (FT_ERROR_MEMORY, g\<lparr>fg_manager := Some (m3\<lparr>fm_pool := False\<rparr>)\<rparr>)
                 else (FT_SUCCESS, g\<lparr>fg_manager := Some (m3\<lparr>fm_pool := True, fm_stats := no_stats\<lparr>ts_uptime := now\<rparr>,
                        fm_active := None, fm_completed := None\<rparr>)\<rparr>))))"

text \<open>\<open>strncpy\<close> over a default value that is shorter than its buffer leaves the rest zero.\<close>

definition ft_init_with_path :: "(nat \<Rightarrow> bool) \<Rightarrow> int \<Rightarrow> string option \<Rightarrow> string option \<Rightarrow> ft_module \<Rightarrow> ft_error \<times> ft_module" where
  "ft_init_with_path ok now storage temp g =
     ft_init ok now (Some (DEFAULT_FT_CONFIG
       \<lparr>fc_storage := (case storage of Some p \<Rightarrow> take 511 p | None \<Rightarrow> fc_storage DEFAULT_FT_CONFIG),
        fc_temp := (case temp of Some p \<Rightarrow> take 511 p | None \<Rightarrow> fc_temp DEFAULT_FT_CONFIG)\<rparr>)) g"

definition ft_start_manager :: "bool \<Rightarrow> ft_module \<Rightarrow> ft_error \<times> ft_module" where
  "ft_start_manager ok g =
     (case fg_manager g of None \<Rightarrow> (FT_ERROR_INVALID_STATE, g)
      | Some m \<Rightarrow> if fm_running m then (FT_SUCCESS, g)
                  else if ok then (FT_SUCCESS, g\<lparr>fg_manager := Some (m\<lparr>fm_running := True\<rparr>)\<rparr>)
                  else (FT_ERROR_MEMORY, g\<lparr>fg_manager := Some (m\<lparr>fm_running := False\<rparr>)\<rparr>))"

text \<open>Joining the thread waits for the turn that runs; here the turn is over.\<close>

definition ft_stop_manager :: "ft_module \<Rightarrow> ft_error \<times> ft_module" where
  "ft_stop_manager g =
     (case fg_manager g of None \<Rightarrow> (FT_SUCCESS, g)
      | Some m \<Rightarrow> (FT_SUCCESS, g\<lparr>fg_manager := Some (m\<lparr>fm_running := False\<rparr>)\<rparr>))"

fun destroy_chain :: "nat \<Rightarrow> ft_manager \<Rightarrow> nat option \<Rightarrow> ft_manager outcome" where
  "destroy_chain n m None = Done m"
| "destroy_chain 0 m (Some a) = Deadlock"
| "destroy_chain (Suc n) m (Some a) =
     obind (load_session m a) (\<lambda>s. obind (ft_destroy_session m a) (\<lambda>m1. destroy_chain n m1 (fs_next s)))"

text \<open>The temporary files; \<open>entries\<close> is what the directory holds, if it can be opened.\<close>

definition ft_cleanup_temp_files :: "string list option \<Rightarrow> ft_manager \<Rightarrow> ft_manager" where
  "ft_cleanup_temp_files entries m =
     (let dir = snprintf 512 (fc_temp (fm_config m) @ ''/chunks'') in
      case entries of None \<Rightarrow> m
      | Some names \<Rightarrow> m\<lparr>fm_files := foldl (\<lambda>fs name. if strstr name ''.tmp'' \<noteq> None then fs(snprintf 512 (dir @ ''/'' @ name) := None) else fs)
                         (fm_files m) names\<rparr>)"

definition ft_cleanup :: "string list option \<Rightarrow> ft_module \<Rightarrow> ft_module outcome" where
  "ft_cleanup entries g0 =
     (case fg_manager (snd (ft_stop_manager g0)) of None \<Rightarrow> Done g0
      | Some m \<Rightarrow>
          obind (fm_lock (m\<lparr>fm_pool := False\<rparr>)) (\<lambda>m0.
          obind (destroy_chain (Suc (fm_fresh m0)) m0 (fm_active m0)) (\<lambda>m1.
          obind (destroy_chain (Suc (fm_fresh m1)) (m1\<lparr>fm_active := None\<rparr>) (fm_completed m1)) (\<lambda>m2.
            let m3 = ft_cleanup_temp_files entries (fm_unlock (m2\<lparr>fm_completed := None\<rparr>)) in
            Done (g0\<lparr>fg_manager := None, fg_files := fm_files m3, fg_dirs := fm_dirs m3, fg_counter := fm_counter m3\<rparr>)))))"

definition ft_get_statistics :: "int \<Rightarrow> ft_module \<Rightarrow> ft_stats" where
  "ft_get_statistics now g =
     (case fg_manager g of None \<Rightarrow> no_stats | Some m \<Rightarrow> (fm_stats m)\<lparr>ts_uptime := now - ts_uptime (fm_stats m)\<rparr>)"

definition ft_get_config :: "ft_module \<Rightarrow> ft_error \<times> ft_config option" where
  "ft_get_config g = (case fg_manager g of None \<Rightarrow> (FT_ERROR_INVALID_PARAMS, None) | Some m \<Rightarrow> (FT_SUCCESS, Some (fm_config m)))"

definition ft_update_config :: "(nat \<Rightarrow> bool) \<Rightarrow> ft_config option \<Rightarrow> ft_module \<Rightarrow> ft_error \<times> ft_module" where
  "ft_update_config ok config g =
     (case (config, fg_manager g) of
        (Some c, Some m) \<Rightarrow>
          let r = ft_validate_config (Some c) in
          if r \<noteq> FT_SUCCESS then (r, g)
          else (FT_SUCCESS, g\<lparr>fg_manager := Some (snd (ft_init_directories ok (m\<lparr>fm_config := c\<rparr>)))\<rparr>)
      | _ \<Rightarrow> (FT_ERROR_INVALID_PARAMS, g))"


section \<open>Sessions that have been created\<close>

lemma load_session_Some [simp]: "fm_heap m a = Some s \<Longrightarrow> load_session m a = Done s"
  by (simp add: load_session_def)

lemma store_session_simps [simp]:
  "fm_heap (store_session m a s) = (fm_heap m)(a \<mapsto> s)" "fm_fresh (store_session m a s) = fm_fresh m" "fm_active (store_session m a s) = fm_active m"
  "fm_completed (store_session m a s) = fm_completed m" "fm_table (store_session m a s) = fm_table m" "fm_locked (store_session m a s) = fm_locked m"
  "fm_stats (store_session m a s) = fm_stats m" "fm_running (store_session m a s) = fm_running m" "fm_config (store_session m a s) = fm_config m"
  "fm_counter (store_session m a s) = fm_counter m" "fm_files (store_session m a s) = fm_files m"
  by (simp_all add: store_session_def)

lemma session_set_next_Some: "fm_heap m a = Some s \<Longrightarrow> session_set_next m a p = Done (store_session m a (s\<lparr>fs_next := p\<rparr>))"
  by (simp add: session_set_next_def)

lemma session_set_prev_Some: "fm_heap m a = Some s \<Longrightarrow> session_set_prev m a p = Done (store_session m a (s\<lparr>fs_prev := p\<rparr>))"
  by (simp add: session_set_prev_def)

text \<open>The newest session that satisfies \<open>P\<close>; the address tells the age.\<close>

definition newest :: "ft_manager \<Rightarrow> (ft_session \<Rightarrow> bool) \<Rightarrow> nat option" where
  "newest m P = find (\<lambda>a. case fm_heap m a of Some s \<Rightarrow> P s | None \<Rightarrow> False) (rev [0..<fm_fresh m])"

definition created :: "ft_manager \<Rightarrow> bool" where
  "created m \<longleftrightarrow>
     (\<forall>a < fm_fresh m. \<exists>s. fm_heap m a = Some s \<and> fs_next s = (if a = 0 then None else Some (a - 1)) \<and>
        (if Suc a = fm_fresh m then fs_prev s = None else \<exists>p. fs_prev s = Some p \<and> a < p \<and> p < fm_fresh m)) \<and>
     (\<forall>a \<ge> fm_fresh m. fm_heap m a = None) \<and>
     length (fm_table m) = 101 \<and> (\<forall>i < 101. fm_table m ! i = newest m (\<lambda>s. ft_hash_transfer_id (fs_id s) = i)) \<and>
     fm_active m = (if fm_fresh m = 0 then None else Some (fm_fresh m - 1)) \<and> fm_completed m = None \<and> \<not> fm_locked m"

lemma hash_bound [simp]: "ft_hash_transfer_id i < 101"
proof -
  have "i mod 101 < 101" by (rule word_mod_less_divisor) simp
  then have "unat (i mod 101) < unat (101 :: 64 word)" by (rule unat_mono)
  then show ?thesis by (simp add: ft_hash_transfer_id_def)
qed

lemma find_Some_set: "find P xs = Some a \<Longrightarrow> P a \<and> a \<in> set xs"
  by (induction xs) (auto split: if_splits)

lemma newest_Some: "newest m P = Some a \<Longrightarrow> a < fm_fresh m \<and> (\<exists>s. fm_heap m a = Some s \<and> P s)"
  unfolding newest_def by (drule find_Some_set) (auto split: option.splits)

text \<open>The walk from \<open>a\<close> along links to the previous address.\<close>

lemma find_chain_down:
  assumes "\<forall>b \<le> a. \<exists>s. fm_heap m b = Some s \<and> fs_next s = (if b = 0 then None else Some (b - 1))" "a < n"
  shows "find_chain n m i (Some a) = Done (find (\<lambda>b. case fm_heap m b of Some s \<Rightarrow> fs_id s = i | None \<Rightarrow> False) (rev [0..<Suc a]))"
  using assms
proof (induction a arbitrary: n)
  case 0
  then obtain k where "n = Suc k" by (cases n) auto
  then show ?case using 0 by auto
next
  case (Suc a)
  then obtain k where k: "n = Suc k" "a < k" by (cases n) auto
  obtain s where s: "fm_heap m (Suc a) = Some s" "fs_next s = Some a" using Suc.prems(1) by force
  have "find_chain k m i (Some a) = Done (find (\<lambda>b. case fm_heap m b of Some s \<Rightarrow> fs_id s = i | None \<Rightarrow> False) (rev [0..<Suc a]))"
    by (rule Suc.IH) (use Suc.prems(1) k in auto)
  then show ?case using s k by simp
qed

lemma find_skip: "(\<And>x. x \<in> set xs \<Longrightarrow> \<not> P x) \<Longrightarrow> find P (xs @ ys) = find P ys"
  by (induction xs) auto

lemma find_app_Some: "find P xs = Some c \<Longrightarrow> find P (xs @ ys) = Some c"
  by (induction xs) auto

lemma newest_prefix:
  assumes "newest m Q = Some a" "\<And>s. P s \<Longrightarrow> Q s"
  shows "newest m P = find (\<lambda>b. case fm_heap m b of Some s \<Rightarrow> P s | None \<Rightarrow> False) (rev [0..<Suc a])"
proof -
  have a: "a < fm_fresh m" using newest_Some [OF assms(1)] by simp
  then have split: "rev [0..<fm_fresh m] = rev [Suc a..<fm_fresh m] @ rev [0..<Suc a]"
    using upt_add_eq_append [of 0 "Suc a" "fm_fresh m - Suc a"] by simp
  have "\<not> (case fm_heap m b of Some s \<Rightarrow> Q s | None \<Rightarrow> False)" if b: "Suc a \<le> b" "b < fm_fresh m" for b
  proof
    assume q: "case fm_heap m b of Some s \<Rightarrow> Q s | None \<Rightarrow> False"
    let ?Q = "\<lambda>b. case fm_heap m b of Some s \<Rightarrow> Q s | None \<Rightarrow> False"
    obtain c where c: "find ?Q (rev [Suc a..<fm_fresh m]) = Some c"
      using q b by (cases "find ?Q (rev [Suc a..<fm_fresh m])") (auto simp: find_None_iff)
    then have "find ?Q (rev [0..<fm_fresh m]) = Some c"
      unfolding split by (rule find_app_Some)
    then have "c = a" using assms(1) by (simp add: newest_def)
    then show False using find_Some_set [OF c] by simp
  qed
  then have "\<not> (case fm_heap m b of Some s \<Rightarrow> P s | None \<Rightarrow> False)" if "Suc a \<le> b" "b < fm_fresh m" for b
    using that assms(2) by (fastforce split: option.splits)
  then show ?thesis unfolding newest_def split by (subst find_skip) auto
qed

lemma newest_none:
  assumes "newest m Q = None" "\<And>s. P s \<Longrightarrow> Q s"
  shows "newest m P = None"
  using assms(1) unfolding newest_def find_None_iff by (auto split: option.splits dest: assms(2))

lemma find_created:
  assumes "created m"
  shows "ft_find_in_session_map m i = Done (newest m (\<lambda>s. fs_id s = i))"
proof -
  let ?Q = "\<lambda>s. ft_hash_transfer_id (fs_id s) = ft_hash_transfer_id i"
  have t: "fm_table m ! ft_hash_transfer_id i = newest m ?Q" using assms by (simp add: created_def)
  show ?thesis
  proof (cases "newest m ?Q")
    case None
    then show ?thesis using t newest_none [OF None, of "\<lambda>s. fs_id s = i"] by (simp add: ft_find_in_session_map_def)
  next
    case (Some a)
    have a: "a < fm_fresh m" using newest_Some [OF Some] by simp
    have "\<forall>b \<le> a. \<exists>s. fm_heap m b = Some s \<and> fs_next s = (if b = 0 then None else Some (b - 1))"
      using assms a unfolding created_def by (meson order_le_less_trans)
    from find_chain_down [OF this, of "Suc (fm_fresh m)" i] newest_prefix [OF Some, of "\<lambda>s. fs_id s = i"] show ?thesis
      using a t Some by (simp add: ft_find_in_session_map_def)
  qed
qed


text \<open>Links of a list that gets the new head \<open>a\<close>.\<close>

definition link_prev :: "nat \<Rightarrow> nat option \<Rightarrow> (nat \<Rightarrow> ft_session option) \<Rightarrow> nat \<Rightarrow> ft_session option" where
  "link_prev a head h = (case head of None \<Rightarrow> h | Some b \<Rightarrow> h(b := map_option (fs_prev_update (\<lambda>_. Some a)) (h b)))"

lemma push_front_eq:
  assumes "fm_heap m a = Some s" "case head of None \<Rightarrow> True | Some b \<Rightarrow> b \<noteq> a \<and> fm_heap m b \<noteq> None"
  shows "push_front m a head f =
    Done (f (Some a) (m\<lparr>fm_heap := (link_prev a head (fm_heap m))(a \<mapsto> s\<lparr>fs_next := head, fs_prev := None\<rparr>)\<rparr>))"
proof (cases head)
  case None
  then show ?thesis using assms(1) by (simp add: push_front_def session_set_next_Some session_set_prev_Some link_prev_def store_session_def)
next
  case (Some b)
  then obtain t where t: "fm_heap m b = Some t" "b \<noteq> a" using assms(2) by auto
  let ?h = "(fm_heap m)(a \<mapsto> s\<lparr>fs_next := Some b, fs_prev := None\<rparr>, b \<mapsto> t\<lparr>fs_prev := Some a\<rparr>)"
  have "?h = (link_prev a (Some b) (fm_heap m))(a \<mapsto> s\<lparr>fs_next := Some b, fs_prev := None\<rparr>)"
    using t by (auto simp: link_prev_def)
  moreover have "push_front m a (Some b) f = Done (f (Some a) (m\<lparr>fm_heap := ?h\<rparr>))"
    using assms(1) t by (simp add: push_front_def session_set_next_Some session_set_prev_Some store_session_def)
  ultimately show ?thesis using Some by simp
qed

text \<open>The manager when the session \<open>s\<close> has been added.\<close>

definition with_session :: "ft_manager \<Rightarrow> ft_session \<Rightarrow> nat \<Rightarrow> ft_session option" where
  "with_session m s =
     (link_prev (fm_fresh m) (fm_active m) (link_prev (fm_fresh m) (fm_table m ! ft_hash_transfer_id (fs_id s)) (fm_heap m)))
       (fm_fresh m \<mapsto> s\<lparr>fs_next := fm_active m, fs_prev := None\<rparr>)"

lemma link_prev_other: "case head of None \<Rightarrow> True | Some b \<Rightarrow> b \<noteq> x \<Longrightarrow> link_prev a head h x = h x"
  by (auto simp: link_prev_def split: option.splits)

lemma link_prev_upd: "case head of None \<Rightarrow> True | Some b \<Rightarrow> b \<noteq> x \<Longrightarrow> link_prev a head (h(x \<mapsto> s)) = (link_prev a head h)(x \<mapsto> s)"
  by (auto simp: link_prev_def split: option.splits)

lemma created_heads:
  assumes "created m"
  shows "case fm_active m of None \<Rightarrow> True | Some b \<Rightarrow> b \<noteq> fm_fresh m \<and> fm_heap m b \<noteq> None"
    and "i < 101 \<Longrightarrow> case fm_table m ! i of None \<Rightarrow> True | Some b \<Rightarrow> b \<noteq> fm_fresh m \<and> fm_heap m b \<noteq> None"
proof -
  show "case fm_active m of None \<Rightarrow> True | Some b \<Rightarrow> b \<noteq> fm_fresh m \<and> fm_heap m b \<noteq> None"
  proof (cases "fm_fresh m")
    case (Suc n)
    then have "\<exists>s. fm_heap m n = Some s" "fm_active m = Some n" using assms by (auto simp: created_def)
    then show ?thesis using Suc by auto
  qed (use assms in \<open>simp add: created_def\<close>)
  assume "i < 101"
  then have "fm_table m ! i = newest m (\<lambda>s. ft_hash_transfer_id (fs_id s) = i)" using assms by (simp add: created_def)
  then show "case fm_table m ! i of None \<Rightarrow> True | Some b \<Rightarrow> b \<noteq> fm_fresh m \<and> fm_heap m b \<noteq> None"
    by (auto split: option.splits dest: newest_Some)
qed

lemma link_prev_dom: "h b \<noteq> None \<Longrightarrow> link_prev a head h b \<noteq> None"
  by (auto simp: link_prev_def split: option.splits)

definition new_stats :: "ft_stats \<Rightarrow> ft_stats" where
  "new_stats st = st\<lparr>ts_total := ts_total st + 1, ts_active := ts_active st + 1\<rparr>"

lemma create_session_eq:
  assumes "created m" "local \<noteq> None \<or> remote \<noteq> None" "fe_ok e 0" "fe_ok e 1 \<or> \<not> fc_encryption (fm_config m)" "fe_ok e 2" "fe_ok e 3"
    and i_def: "i = fst (ft_generate_transfer_id (fe_now e 0) (fe_random e) m)"
    and s_def: "s = new_session (fm_config m) e i user peer local remote meta mode"
  shows "ft_create_session e user peer local remote meta mode m = Done (FT_SUCCESS, Some (fm_fresh m),
    m\<lparr>fm_heap := with_session m s, fm_fresh := Suc (fm_fresh m), fm_active := Some (fm_fresh m),
      fm_table := (fm_table m)[ft_hash_transfer_id i := Some (fm_fresh m)], fm_count := fm_count m + 1,
      fm_stats := new_stats (fm_stats m), fm_counter := fm_counter m + 1\<rparr>)"
proof -
  let ?a = "fm_fresh m" and ?x = "ft_hash_transfer_id i"
  let ?m1 = "m\<lparr>fm_counter := fm_counter m + 1\<rparr>"
  let ?m2 = "(store_session ?m1 ?a s)\<lparr>fm_fresh := ?a + 1\<rparr>"
  have g: "ft_generate_transfer_id (fe_now e 0) (fe_random e) m = (i, ?m1)" by (simp add: i_def ft_generate_transfer_id_def)
  have si: "fs_id s = i" by (simp add: s_def new_session_def)
  note h = created_heads(1) [OF assms(1)] created_heads(2) [OF assms(1) hash_bound [of i]]
  have b: "case fm_table m ! ?x of None \<Rightarrow> True | Some b \<Rightarrow> b \<noteq> ?a" using h(2) by (auto split: option.splits)
  have b2: "case fm_active m of None \<Rightarrow> True | Some b \<Rightarrow> b \<noteq> ?a" using h(1) by (auto split: option.splits)
  let ?s1 = "s\<lparr>fs_next := fm_table m ! ?x, fs_prev := None\<rparr>"
  let ?h1 = "(link_prev ?a (fm_table m ! ?x) (fm_heap m))(?a \<mapsto> ?s1)"
  have p1: "push_front ?m2 ?a (fm_table m ! ?x) (set_bucket ?x) = Done (set_bucket ?x (Some ?a) (?m2\<lparr>fm_heap := ?h1\<rparr>))"
    using h(2) by (subst push_front_eq [where s = s]) (auto simp: link_prev_upd [OF b] split: option.splits)
  have add: "ft_add_to_session_map ?m2 ?a = Done ((set_bucket ?x (Some ?a) (?m2\<lparr>fm_heap := ?h1\<rparr>))\<lparr>fm_count := fm_count m + 1\<rparr>)"
    using p1 by (simp add: ft_add_to_session_map_def si Let_def set_bucket_def store_session_def)
  let ?m4 = "(set_bucket ?x (Some ?a) (?m2\<lparr>fm_heap := ?h1\<rparr>))\<lparr>fm_count := fm_count m + 1, fm_locked := True\<rparr>"
  have d: "case fm_active m of None \<Rightarrow> True | Some b \<Rightarrow> b \<noteq> ?a \<and> ?h1 b \<noteq> None"
    using h(1) link_prev_dom [of "fm_heap m"] by (auto split: option.splits)
  have p2: "push_front ?m4 ?a (fm_active m) set_active =
      Done (set_active (Some ?a) (?m4\<lparr>fm_heap := with_session m s\<rparr>))"
    using d by (subst push_front_eq [where s = ?s1]) (auto simp: set_bucket_def with_session_def si link_prev_upd [OF b2] split: option.splits)
  have l: "\<not> fm_locked m" using assms(1) by (simp add: created_def)
  show ?thesis
    using assms(2-6) g add p2 l
    by (auto simp: ft_create_session_def Let_def s_def [symmetric] fm_lock_def fm_unlock_def set_bucket_def set_active_def store_session_def new_stats_def)
qed


lemma link_prev_Some:
  "h x = Some t \<Longrightarrow> \<exists>p. link_prev a head h x = Some (t\<lparr>fs_prev := p\<rparr>) \<and> (p = fs_prev t \<or> p = Some a) \<and> (head = Some x \<longrightarrow> p = Some a)"
  by (cases "head = Some x") (auto simp: link_prev_def fun_upd_def split: option.splits intro!: exI [of _ "fs_prev t"])

lemma with_session_old:
  assumes "x \<noteq> fm_fresh m" "fm_heap m x = Some t"
  shows "\<exists>p. with_session m s x = Some (t\<lparr>fs_prev := p\<rparr>) \<and> (p = fs_prev t \<or> p = Some (fm_fresh m)) \<and>
    (fm_active m = Some x \<longrightarrow> p = Some (fm_fresh m))"
proof -
  let ?h = "link_prev (fm_fresh m) (fm_table m ! ft_hash_transfer_id (fs_id s)) (fm_heap m)"
  obtain p where p: "?h x = Some (t\<lparr>fs_prev := p\<rparr>)" "p = fs_prev t \<or> p = Some (fm_fresh m)"
    using link_prev_Some [of "fm_heap m" x t] assms(2) by blast
  obtain q where "link_prev (fm_fresh m) (fm_active m) ?h x = Some (t\<lparr>fs_prev := p\<rparr>\<lparr>fs_prev := q\<rparr>)" "q = p \<or> q = Some (fm_fresh m)"
    "fm_active m = Some x \<longrightarrow> q = Some (fm_fresh m)"
    using link_prev_Some [of ?h x "t\<lparr>fs_prev := p\<rparr>"] p(1) by auto
  then show ?thesis using p(2) assms(1) by (auto simp: with_session_def)
qed

lemma with_session_none: "fm_heap m x = None \<Longrightarrow> x \<noteq> fm_fresh m \<Longrightarrow> with_session m s x = None"
  by (auto simp: with_session_def link_prev_def split: option.splits)

lemma with_session_new: "with_session m s (fm_fresh m) = Some (s\<lparr>fs_next := fm_active m, fs_prev := None\<rparr>)"
  by (simp add: with_session_def)

lemma find_cong_set: "(\<And>x. x \<in> set xs \<Longrightarrow> P x = Q x) \<Longrightarrow> find P xs = find Q xs"
  by (induction xs) auto

lemma newest_with_session:
  assumes "created m" "fm_heap m' = with_session m s" "fm_fresh m' = Suc (fm_fresh m)"
  shows "newest m' (\<lambda>t. P (fs_id t)) = (if P (fs_id s) then Some (fm_fresh m) else newest m (\<lambda>t. P (fs_id t)))"
proof -
  have "(case with_session m s x of Some t \<Rightarrow> P (fs_id t) | None \<Rightarrow> False) = (case fm_heap m x of Some t \<Rightarrow> P (fs_id t) | None \<Rightarrow> False)"
    if "x < fm_fresh m" for x
  proof -
    obtain t where "fm_heap m x = Some t" using assms(1) \<open>x < _\<close> by (auto simp: created_def)
    then show ?thesis using with_session_old [of x m t s] \<open>x < _\<close> by auto
  qed
  then have "find (\<lambda>x. case with_session m s x of Some t \<Rightarrow> P (fs_id t) | None \<Rightarrow> False) (rev [0..<fm_fresh m]) =
      find (\<lambda>x. case fm_heap m x of Some t \<Rightarrow> P (fs_id t) | None \<Rightarrow> False) (rev [0..<fm_fresh m])"
    by (intro find_cong_set) simp
  then show ?thesis by (simp add: newest_def assms with_session_new)
qed

lemma created_cong:
  "fm_heap m' = fm_heap m \<Longrightarrow> fm_fresh m' = fm_fresh m \<Longrightarrow> fm_active m' = fm_active m \<Longrightarrow> fm_completed m' = fm_completed m \<Longrightarrow>
    fm_table m' = fm_table m \<Longrightarrow> fm_locked m' = fm_locked m \<Longrightarrow> created m' \<longleftrightarrow> created m"
  by (simp only: created_def newest_def)

lemma created_add:
  assumes "created m" "fm_heap m' = with_session m s" "fm_fresh m' = Suc (fm_fresh m)" "fm_active m' = Some (fm_fresh m)"
    "fm_table m' = (fm_table m)[ft_hash_transfer_id (fs_id s) := Some (fm_fresh m)]" "fm_completed m' = fm_completed m" "fm_locked m' = fm_locked m"
  shows "created m'"
proof -
  have act: "fm_active m = (if fm_fresh m = 0 then None else Some (fm_fresh m - 1))" using assms(1) by (simp add: created_def)
  have old: "\<exists>t. fm_heap m' a = Some t \<and> fs_next t = (if a = 0 then None else Some (a - 1)) \<and> (\<exists>p. fs_prev t = Some p \<and> a < p \<and> p \<le> fm_fresh m)"
    if a: "a < fm_fresh m" for a
  proof -
    obtain t where t: "fm_heap m a = Some t" "fs_next t = (if a = 0 then None else Some (a - 1))"
      "if Suc a = fm_fresh m then fs_prev t = None else \<exists>p. fs_prev t = Some p \<and> a < p \<and> p < fm_fresh m"
      using assms(1) a unfolding created_def by blast
    obtain p where p: "fm_heap m' a = Some (t\<lparr>fs_prev := p\<rparr>)" "p = fs_prev t \<or> p = Some (fm_fresh m)"
      "fm_active m = Some a \<longrightarrow> p = Some (fm_fresh m)"
      using with_session_old [OF _ t(1), of s] a assms(2) by auto
    have "\<exists>q. p = Some q \<and> a < q \<and> q \<le> fm_fresh m"
    proof (cases "Suc a = fm_fresh m")
      case True
      then show ?thesis using p(3) act a by auto
    next
      case False
      then show ?thesis using t(3) p(2) a by auto
    qed
    then show ?thesis using p(1) t(2) by auto
  qed
  have new: "fm_heap m' (fm_fresh m) = Some (s\<lparr>fs_next := fm_active m, fs_prev := None\<rparr>)" by (simp add: assms(2) with_session_new)
  have links: "\<exists>t. fm_heap m' a = Some t \<and> fs_next t = (if a = 0 then None else Some (a - 1)) \<and>
      (if Suc a = fm_fresh m' then fs_prev t = None else \<exists>p. fs_prev t = Some p \<and> a < p \<and> p < fm_fresh m')" if "a < fm_fresh m'" for a
  proof (cases "a = fm_fresh m")
    case True
    then show ?thesis using new act assms(3) by simp
  next
    case False
    then show ?thesis using old [of a] that assms(3) by (auto simp: less_Suc_eq_le)
  qed
  moreover have "fm_heap m' a = None" if "a \<ge> fm_fresh m'" for a
    using that assms(1,2,3) by (simp add: created_def with_session_none)
  moreover have "fm_table m' ! i = newest m' (\<lambda>t. ft_hash_transfer_id (fs_id t) = i)" if "i < 101" for i
    using that assms(1,5) newest_with_session [OF assms(1-3), of "\<lambda>j. ft_hash_transfer_id j = i"]
    by (auto simp: created_def nth_list_update)
  moreover have "length (fm_table m') = 101" using assms(1,5) by (simp add: created_def)
  ultimately show ?thesis using assms(1,3,4,6,7) by (simp add: created_def)
qed

record ft_request =
  rq_env :: ft_env
  rq_user :: "64 word"
  rq_peer :: "64 word"
  rq_local :: "string option"
  rq_remote :: "string option"
  rq_meta :: "file_metadata option"
  rq_mode :: nat

fun create_all :: "ft_request list \<Rightarrow> ft_manager \<Rightarrow> ((ft_error \<times> nat option) list \<times> ft_manager) outcome" where
  "create_all [] m = Done ([], m)"
| "create_all (q # qs) m =
     obind (ft_create_session (rq_env q) (rq_user q) (rq_peer q) (rq_local q) (rq_remote q) (rq_meta q) (rq_mode q) m) (\<lambda>(r, a, m1).
     obind (create_all qs m1) (\<lambda>(rs, m2). Done ((r, a) # rs, m2)))"

lemma create_created:
  assumes "created m"
  shows "\<exists>r a m1. ft_create_session e user peer local remote meta mode m = Done (r, a, m1) \<and> created m1 \<and>
    (case a of None \<Rightarrow> r \<noteq> FT_SUCCESS \<and> fm_fresh m1 = fm_fresh m | Some x \<Rightarrow> r = FT_SUCCESS \<and> x = fm_fresh m \<and> fm_fresh m1 = Suc (fm_fresh m))"
proof (cases "(local \<noteq> None \<or> remote \<noteq> None) \<and> fe_ok e 0 \<and> (fe_ok e 1 \<or> \<not> fc_encryption (fm_config m)) \<and> fe_ok e 2 \<and> fe_ok e 3")
  case True
  let ?i = "fst (ft_generate_transfer_id (fe_now e 0) (fe_random e) m)"
  let ?s = "new_session (fm_config m) e ?i user peer local remote meta mode"
  have si: "fs_id ?s = ?i" by (simp add: new_session_def)
  show ?thesis
    using True create_session_eq [OF assms, of local remote e ?i ?s user peer meta mode] created_add [OF assms, where s = ?s] si by auto
next
  case False
  have "created (m\<lparr>fm_counter := c\<rparr>)" for c using assms by (subst created_cong [of _ m]) simp_all
  then show ?thesis using False assms
    by (auto simp: ft_create_session_def ft_generate_transfer_id_def Let_def)
qed

lemma create_step:
  assumes "created m" "ft_create_session e user peer local remote meta mode m = Done (r, a, m1)"
  shows "created m1 \<and> (case a of None \<Rightarrow> fm_fresh m1 = fm_fresh m | Some x \<Rightarrow> x = fm_fresh m \<and> fm_fresh m1 = Suc (fm_fresh m))"
  using create_created [OF assms(1), of e user peer local remote meta mode] assms(2) by (auto split: option.splits)

lemma create_all_created: "created m \<Longrightarrow> \<exists>rs m1. create_all qs m = Done (rs, m1) \<and> created m1"
proof (induction qs arbitrary: m)
  case (Cons q qs)
  then show ?case using create_created [OF Cons.prems, of "rq_env q" "rq_user q" "rq_peer q" "rq_local q" "rq_remote q" "rq_meta q" "rq_mode q"]
    by fastforce
qed simp

lemma init_directories_same: "ft_init_directories ok m = (r, m') \<Longrightarrow> \<exists>d. m' = m\<lparr>fm_dirs := d\<rparr>"
  by (cases m) (auto simp: ft_init_directories_def Let_def split: if_splits)

lemma created_empty:
  assumes "fm_heap m = (\<lambda>_. None)" "fm_fresh m = 0" "fm_active m = None" "fm_completed m = None" "fm_table m = replicate 101 None" "\<not> fm_locked m"
  shows "created m"
  unfolding created_def newest_def using assms by simp

lemma init_empty:
  assumes "ft_init ok now cfg g = (FT_SUCCESS, g')" "\<not> fg_once g" "fg_manager g' = Some m"
  shows "created m \<and> fm_fresh m = 0"
proof -
  obtain m0 where m0: "fg_manager (ft_init_once ok g) = Some m0" using assms(1,2) by (auto simp: ft_init_def Let_def split: option.splits)
  have z: "fm_heap m0 = (\<lambda>_. None)" "fm_fresh m0 = 0" "\<not> fm_locked m0" using m0 by (auto simp: ft_init_once_def split: if_splits)
  let ?m1 = "m0\<lparr>fm_config := (case cfg of Some c \<Rightarrow> c | None \<Rightarrow> DEFAULT_FT_CONFIG)\<rparr>"
  obtain r m2 where d: "ft_init_directories ok ?m1 = (r, m2)" by fastforce
  obtain dirs where "m2 = ?m1\<lparr>fm_dirs := dirs\<rparr>" using init_directories_same [OF d] by blast
  then have "fm_heap m = (\<lambda>_. None) \<and> fm_fresh m = 0 \<and> fm_active m = None \<and> fm_completed m = None \<and> fm_table m = replicate 101 None \<and> \<not> fm_locked m"
    using assms m0 z d by (auto simp: ft_init_def ft_create_session_map_def Let_def split: if_splits)
  then show ?thesis using created_empty by blast
qed

lemmas init_created = init_empty [THEN conjunct1]

lemma find_chain_heap: "fm_heap m' = fm_heap m \<Longrightarrow> find_chain n m' i p = find_chain n m i p"
proof (induction n m i p rule: find_chain.induct)
  case (3 n m i a)
  then show ?case by (cases "fm_heap m a") (auto simp: load_session_def)
qed auto

text \<open>A walk that stays in \<open>W\<close>, where no session has the number, finds nothing.\<close>

lemma find_chain_none:
  assumes W: "\<And>b. b \<in> W \<Longrightarrow> \<exists>t. fm_heap m b = Some t \<and> fs_id t \<noteq> i \<and> (case fs_next t of None \<Rightarrow> True | Some c \<Rightarrow> c < b \<and> c \<in> W)"
  shows "x \<in> W \<Longrightarrow> x < k \<Longrightarrow> find_chain k m i (Some x) = Done None"
proof (induction k arbitrary: x)
  case (Suc k)
  obtain t where "fm_heap m x = Some t" "fs_id t \<noteq> i" "case fs_next t of None \<Rightarrow> True | Some c \<Rightarrow> c < x \<and> c \<in> W" using W [OF Suc.prems(1)] by blast
  then show ?case using Suc by (cases "fs_next t") auto
qed simp

lemma created_at:
  assumes "created m" "a < fm_fresh m"
  obtains s where "fm_heap m a = Some s" "fs_next s = (if a = 0 then None else Some (a - 1))"
    "if Suc a = fm_fresh m then fs_prev s = None else \<exists>p. fs_prev s = Some p \<and> a < p \<and> p < fm_fresh m"
  using assms unfolding created_def by blast

lemma unlink_session_older:
  assumes "created m" "Suc a < fm_fresh m" "fm_heap m a = Some s" "fm_heap m' = fm_heap m"
  shows "\<exists>p h. unlink_session m' a f = Done (m'\<lparr>fm_heap := h\<rparr>) \<and> a < p \<and> p < fm_fresh m \<and> h a = Some s \<and>
    (\<forall>b < fm_fresh m. b \<noteq> a \<longrightarrow> (\<exists>t t'. fm_heap m b = Some t \<and> h b = Some t' \<and> fs_id t' = fs_id t \<and>
       fs_next t' = (if b = p then fs_next s else fs_next t)))"
proof -
  obtain p where p: "fs_prev s = Some p" "a < p" "p < fm_fresh m" and nx: "fs_next s = (if a = 0 then None else Some (a - 1))"
    using created_at [OF assms(1), of a] assms(2,3) by (metis Suc_lessD nat_neq_iff option.inject)
  obtain t where t: "fm_heap m p = Some t" using created_at [OF assms(1) p(3)] .
  let ?h1 = "(fm_heap m)(p \<mapsto> t\<lparr>fs_next := fs_next s\<rparr>)"
  have all: "\<exists>t. fm_heap m b = Some t" if "b < fm_fresh m" for b using created_at [OF assms(1) that] by blast
  show ?thesis
  proof (cases "a = 0")
    case True
    have "unlink_session m' a f = Done (m'\<lparr>fm_heap := ?h1\<rparr>)"
      using assms(3,4) p(1) t nx True by (simp add: unlink_session_def session_set_next_Some store_session_def)
    then show ?thesis using p t assms(3) by (intro exI [of _ p] exI [of _ ?h1]) (auto, metis all)
  next
    case False
    have "a - 1 < fm_fresh m" using assms(2) by linarith
    then obtain u where u: "fm_heap m (a - 1) = Some u" using all by blast
    have ne: "a - 1 \<noteq> p" "a - 1 \<noteq> a" using p(2) False by auto
    let ?h2 = "?h1(a - 1 \<mapsto> u\<lparr>fs_prev := Some p\<rparr>)"
    have "unlink_session m' a f = Done (m'\<lparr>fm_heap := ?h2\<rparr>)"
      using assms(3,4) p(1) t nx False u ne by (simp add: unlink_session_def session_set_next_Some session_set_prev_Some store_session_def)
    then show ?thesis using p t assms(3) u ne by (intro exI [of _ p] exI [of _ ?h2]) (auto, metis all)
  qed
qed

lemma remove_older:
  assumes "created m" "Suc a < fm_fresh m" "fm_heap m a = Some s" "fs_id s = i" "\<And>b t. fm_heap m b = Some t \<Longrightarrow> fs_id t = i \<Longrightarrow> b = a"
  shows "\<exists>m1. ft_remove_session m i = Done (FT_SUCCESS, m1) \<and> fm_heap m1 a = Some s \<and> fm_stats m1 = fm_stats m"
proof -
  let ?m0 = "m\<lparr>fm_locked := True\<rparr>" and ?n = "fm_fresh m"
  have st: "\<not> fm_locked m" "fm_completed m = None" "fm_active m = Some (?n - 1)" using assms(1,2) by (auto simp: created_def)
  have "newest m (\<lambda>s. fs_id s = i) = Some a"
  proof (cases "newest m (\<lambda>s. fs_id s = i)")
    case None
    then have "\<not> (case fm_heap m a of Some s \<Rightarrow> fs_id s = i | None \<Rightarrow> False)" using assms(2) by (auto simp: newest_def find_None_iff)
    then show ?thesis using assms(3,4) by simp
  qed (use newest_Some assms(5) in blast)
  then have f: "ft_find_in_session_map ?m0 i = Done (Some a)"
    using find_created [OF assms(1), of i] find_chain_heap [of ?m0 m] by (simp add: ft_find_in_session_map_def)
  obtain p h where p: "unlink_session ?m0 a (set_bucket (ft_hash_transfer_id i)) = Done (?m0\<lparr>fm_heap := h\<rparr>)" "a < p" "p < ?n" "h a = Some s"
    and h: "\<And>b. b < ?n \<Longrightarrow> b \<noteq> a \<Longrightarrow> \<exists>t t'. fm_heap m b = Some t \<and> h b = Some t' \<and> fs_id t' = fs_id t \<and> fs_next t' = (if b = p then fs_next s else fs_next t)"
    using unlink_session_older [OF assms(1,2,3), of ?m0 "set_bucket (ft_hash_transfer_id i)"] by auto
  let ?m1 = "?m0\<lparr>fm_heap := h, fm_count := fm_count m - 1\<rparr>"
  have r: "ft_remove_from_session_map ?m0 i = Done (FT_SUCCESS, ?m1)" using f p(1) by (simp add: ft_remove_from_session_map_def)
  let ?W = "{b. b < ?n \<and> (p \<le> b \<or> b < a)}"
  have walk: "\<exists>t. fm_heap ?m1 b = Some t \<and> fs_id t \<noteq> i \<and> (case fs_next t of None \<Rightarrow> True | Some c \<Rightarrow> c < b \<and> c \<in> ?W)" if b: "b \<in> ?W" for b
  proof -
    have ba: "b < ?n" "b \<noteq> a" using b p(2) by auto
    obtain t t' where t: "fm_heap m b = Some t" "h b = Some t'" "fs_id t' = fs_id t" "fs_next t' = (if b = p then fs_next s else fs_next t)"
      using h [OF ba] by blast
    have "fs_next t = (if b = 0 then None else Some (b - 1))" "fs_next s = (if a = 0 then None else Some (a - 1))"
      using created_at [OF assms(1) ba(1)] created_at [OF assms(1), of a] t(1) assms(2,3) by (metis option.inject Suc_lessD)+
    moreover have "fs_id t \<noteq> i" using assms(5) [OF t(1)] ba(2) by blast
    ultimately show ?thesis using t b p(2,3) by auto
  qed
  have "find_chain (Suc ?n) ?m1 i (Some (?n - 1)) = Done None"
    by (rule find_chain_none [of ?W, OF walk]) (use p(3) in auto)
  then show ?thesis using r st p(4) by (auto simp: ft_remove_session_def fm_lock_def fm_unlock_def Let_def)
qed


lemma remove_both:
  assumes "created m" "fm_fresh m = 2" "fm_heap m 0 = Some s0" "fm_heap m 1 = Some s1"
    "ft_hash_transfer_id (fs_id s0) \<noteq> ft_hash_transfer_id (fs_id s1)" "ft_hash_transfer_id j = ft_hash_transfer_id (fs_id s1)"
  shows "\<exists>m1 m2. ft_remove_session m (fs_id s1) = Done (FT_SUCCESS, m1) \<and> ft_remove_session m1 (fs_id s0) = Done (FT_SUCCESS, m2) \<and>
    ft_get_session m2 j = Undefined_Behaviour"
proof -
  let ?h0 = "ft_hash_transfer_id (fs_id s0)" and ?h1 = "ft_hash_transfer_id (fs_id s1)"
  have s0: "fs_next s0 = None" "fs_prev s0 = Some 1" using created_at [OF assms(1), of 0] assms(2,3) by (auto simp: less_Suc_eq numeral_2_eq_2)
  have s1: "fs_next s1 = Some 0" "fs_prev s1 = None" using created_at [OF assms(1), of 1] assms(2,4) by auto
  have st: "\<not> fm_locked m" "fm_completed m = None" "fm_active m = Some 1" "length (fm_table m) = 101" using assms(1,2) by (auto simp: created_def)
  have t: "fm_table m ! ?h0 = Some 0" "fm_table m ! ?h1 = Some 1"
    using assms(1-5) by (auto simp: created_def newest_def numeral_2_eq_2)
  have ne: "fs_id s0 \<noteq> fs_id s1" using assms(5) by auto
  let ?t0 = "s0\<lparr>fs_prev := None\<rparr>"
  define fs1 where "fs1 = (if fs_temp s1 = [] then fm_files m else (fm_files m)(fs_temp s1 := None))"
  define m1 where "m1 = m\<lparr>fm_heap := (fm_heap m)(0 \<mapsto> ?t0, 1 := None), fm_table := (fm_table m)[?h1 := Some 0], fm_count := fm_count m - 1,
    fm_active := Some 0, fm_stats := (fm_stats m)\<lparr>ts_active := ts_active (fm_stats m) - 1\<rparr>, fm_files := fs1\<rparr>"
  have r1: "ft_remove_session m (fs_id s1) = Done (FT_SUCCESS, m1)"
    using s0 s1 st t ne assms(2,3,4,5)
    by (cases m) (simp add: ft_remove_session_def fm_lock_def fm_unlock_def ft_remove_from_session_map_def ft_find_in_session_map_def numeral_2_eq_2
        unlink_session_def session_set_prev_def load_session_def store_session_def set_bucket_def set_active_def ft_destroy_session_def Let_def m1_def fs1_def)
  define m2 where "m2 = m1\<lparr>fm_heap := (fm_heap m)(1 := None, 0 := None), fm_table := (fm_table m1)[?h0 := None], fm_count := fm_count m1 - 1,
    fm_active := None, fm_stats := (fm_stats m1)\<lparr>ts_active := ts_active (fm_stats m1) - 1\<rparr>,
    fm_files := (if fs_temp s0 = [] then fs1 else fs1(fs_temp s0 := None))\<rparr>"
  have r2: "ft_remove_session m1 (fs_id s0) = Done (FT_SUCCESS, m2)"
    using s0 s1 st t ne assms(2,3,4,5)
    by (cases m) (simp add: ft_remove_session_def fm_lock_def fm_unlock_def ft_remove_from_session_map_def ft_find_in_session_map_def numeral_2_eq_2
        unlink_session_def session_set_prev_def load_session_def store_session_def set_bucket_def set_active_def ft_destroy_session_def Let_def m1_def m2_def)
  have "ft_get_session m2 j = Undefined_Behaviour"
    using assms(2,5,6) st(4) by (simp add: ft_get_session_def ft_find_in_session_map_def m2_def m1_def load_session_def numeral_3_eq_3)
  then show ?thesis using r1 r2 by blast
qed


lemma create_all_addresses:
  assumes "created m" "create_all qs m = Done (rs, m1)"
  shows "List.map_filter snd rs = [fm_fresh m..<fm_fresh m1] \<and> fm_fresh m \<le> fm_fresh m1"
  using assms
proof (induction qs arbitrary: m rs)
  case (Cons q qs)
  obtain r a m2 rs2 where q: "ft_create_session (rq_env q) (rq_user q) (rq_peer q) (rq_local q) (rq_remote q) (rq_meta q) (rq_mode q) m = Done (r, a, m2)"
    and rs: "create_all qs m2 = Done (rs2, m1)" "rs = (r, a) # rs2"
    using Cons.prems(2) by (auto simp: obind_Done)
  have "created m2 \<and> (case a of None \<Rightarrow> fm_fresh m2 = fm_fresh m | Some x \<Rightarrow> x = fm_fresh m \<and> fm_fresh m2 = Suc (fm_fresh m))"
    using create_step [OF Cons.prems(1) q] .
  then show ?case using Cons.IH [of m2 rs2] rs by (auto simp: List.map_filter_def upt_conv_Cons split: option.splits)
qed (simp add: List.map_filter_def)

text \<open>Whatever sessions are created after the module has been initialised, every request is answered, the sessions get the addresses from 0 on, and looking up a
  number gives the newest session with that number.\<close>

theorem created_sessions_found:
  assumes "ft_init ok now cfg g = (FT_SUCCESS, g')" "\<not> fg_once g" "fg_manager g' = Some m"
  shows "\<exists>rs m1. create_all qs m = Done (rs, m1) \<and> List.map_filter snd rs = [0..<fm_fresh m1] \<and>
    (\<forall>i. ft_get_session m1 i = Done (newest m1 (\<lambda>s. fs_id s = i)))"
proof -
  have c: "created m" by (rule init_created [OF assms])
  obtain rs m1 where r: "create_all qs m = Done (rs, m1)" "created m1" using create_all_created [OF c] by blast
  have "fm_fresh m = 0" using init_empty [OF assms] by simp
  then show ?thesis using r create_all_addresses [OF c r(1)] by (simp add: ft_get_session_def find_created)
qed

definition small_env :: "64 word \<Rightarrow> ft_env" where
  "small_env r = \<lparr>fe_ok = (\<lambda>_. True), fe_now = (\<lambda>_. 0), fe_random = r, fe_key = [], fe_iv = []\<rparr>"

definition small_request :: "64 word \<Rightarrow> ft_request" where
  "small_request r = \<lparr>rq_env = small_env r, rq_user = 1, rq_peer = 2, rq_local = Some ''a'', rq_remote = Some ''b'', rq_meta = None, rq_mode = 0\<rparr>"

definition empty_module :: ft_module where
  "empty_module = \<lparr>fg_manager = None, fg_once = False, fg_files = Map.empty, fg_dirs = (\<lambda>_. True), fg_counter = 0\<rparr>"


lemma small_init:
  "\<exists>g' m. ft_init (\<lambda>_. True) 0 (Some small_config) empty_module = (FT_SUCCESS, g') \<and> fg_manager g' = Some m \<and> \<not> fc_encryption (fm_config m) \<and>
    fm_counter m = 0 \<and> fm_fresh m = 0 \<and> \<not> fm_running m"
  by (simp add: ft_init_def ft_init_once_def ft_init_directories_def ft_create_session_map_def empty_module_def small_config_def
      DEFAULT_FT_CONFIG_def ft_validate_config_def make_dir_def Let_def)

lemma created_sessions_found_witness:
  "\<exists>g' m rs m1. ft_init (\<lambda>_. True) 0 (Some small_config) empty_module = (FT_SUCCESS, g') \<and> fg_manager g' = Some m \<and>
    create_all [small_request 1, small_request 5] m = Done (rs, m1) \<and> List.map_filter snd rs = [0..<fm_fresh m1] \<and>
    (\<forall>i. ft_get_session m1 i = Done (newest m1 (\<lambda>s. fs_id s = i)))"
proof -
  obtain g' m where i: "ft_init (\<lambda>_. True) 0 (Some small_config) empty_module = (FT_SUCCESS, g')" "fg_manager g' = Some m" using small_init by blast
  have "\<not> fg_once empty_module" by (simp add: empty_module_def)
  from created_sessions_found [OF i(1) this i(2), of "[small_request 1, small_request 5]"] i show ?thesis by blast
qed

lemma small_two:
  assumes "created m" "\<not> fc_encryption (fm_config m)" "fm_counter m = 0" "fm_fresh m = 0"
  shows "\<exists>m1 s0 s1. create_all [small_request 0, small_request 2] m = Done ([(FT_SUCCESS, Some 0), (FT_SUCCESS, Some 1)], m1) \<and> created m1 \<and>
    fm_fresh m1 = 2 \<and> fm_heap m1 0 = Some s0 \<and> fs_id s0 = 0 \<and> fm_heap m1 1 = Some s1 \<and> fs_id s1 = 3 \<and> fm_heap m1 = (\<lambda>_. None)(0 \<mapsto> s0, 1 \<mapsto> s1)"
proof -
  let ?c = "\<lambda>e m. ft_create_session e 1 2 (Some ''a'') (Some ''b'') None 0 m"
  note ok = small_env_def ft_generate_transfer_id_def
  obtain m1 where m1: "?c (small_env 0) m = Done (FT_SUCCESS, Some 0, m1)" "fm_heap m1 0 \<noteq> None" "\<not> fc_encryption (fm_config m1)" "fm_counter m1 = 1"
      "\<forall>s. fm_heap m1 0 = Some s \<longrightarrow> fs_id s = 0" "fm_fresh m1 = 1"
    using create_session_eq [OF assms(1), of "Some ''a''" "Some ''b''" "small_env 0" 0 _ 1 2 None 0] assms(2-4)
    by (simp add: ok with_session_def new_session_def)
  have c1: "created m1" using create_step [OF assms(1) m1(1)] by simp
  obtain s0 where s0: "fm_heap m1 0 = Some s0" "fs_id s0 = 0" using m1(2,5) by auto
  let ?s = "new_session (fm_config m1) (small_env 2) 3 1 2 (Some ''a'') (Some ''b'') None 0"
  obtain m2 where m2: "?c (small_env 2) m1 = Done (FT_SUCCESS, Some 1, m2)" "fm_heap m2 = with_session m1 ?s" "fm_fresh m2 = 2"
    using create_session_eq [OF c1, of "Some ''a''" "Some ''b''" "small_env 2" 3 ?s 1 2 None 0] m1(3,4,6)
    by (simp add: ok)
  have c2: "created m2" using create_step [OF c1 m2(1)] by simp
  obtain p where p: "fm_heap m2 0 = Some (s0\<lparr>fs_prev := p\<rparr>)" using with_session_old [of 0 m1 s0 ?s] s0 m1(6) m2(2) by auto
  have n: "\<exists>s1. fm_heap m2 1 = Some s1 \<and> fs_id s1 = 3" using with_session_new [of m1 ?s] m1(6) m2(2) by (simp add: new_session_def)
  then obtain s1 where s1: "fm_heap m2 1 = Some s1" "fs_id s1 = 3" by blast
  have "fm_heap m2 a = None" if "a \<noteq> 0" "a \<noteq> 1" for a using c2 m2(3) that by (simp add: created_def)
  then have "fm_heap m2 = (\<lambda>_. None)(0 \<mapsto> s0\<lparr>fs_prev := p\<rparr>, 1 \<mapsto> s1)" using p s1(1) by auto
  then show ?thesis using m1(1) m2(1,3) c2 p s0(2) s1 by (simp add: small_request_def)
qed

text \<open>Removing a transfer that is not the newest reports success, but the session stays allocated and is counted as active: taking it out of the hash chain has already unlinked
  it from the list of active sessions, where it is not found any more.\<close>

theorem remove_older_session_leaks:
  assumes "ft_init ok now cfg g = (FT_SUCCESS, g')" "\<not> fg_once g" "fg_manager g' = Some m0" "create_all qs m0 = Done (rs, m)"
    "fm_heap m a = Some s" "Suc a < fm_fresh m" "\<forall>b t. fm_heap m b = Some t \<and> fs_id t = fs_id s \<longrightarrow> b = a"
  shows "\<exists>m1. ft_remove_session m (fs_id s) = Done (FT_SUCCESS, m1) \<and> fm_heap m1 a = Some s \<and> fm_stats m1 = fm_stats m"
proof -
  have "created m" using create_all_created [OF init_created [OF assms(1-3)], of qs] assms(4) by auto
  from remove_older [OF this assms(6,5)] show ?thesis using assms(7) by blast
qed

lemma remove_older_session_leaks_witness:
  "\<exists>g' m0 m s m1. ft_init (\<lambda>_. True) 0 (Some small_config) empty_module = (FT_SUCCESS, g') \<and> fg_manager g' = Some m0 \<and>
    create_all [small_request 0, small_request 2] m0 = Done ([(FT_SUCCESS, Some 0), (FT_SUCCESS, Some 1)], m) \<and> fm_heap m 0 = Some s \<and>
    ft_remove_session m (fs_id s) = Done (FT_SUCCESS, m1) \<and> fm_heap m1 0 = Some s \<and> fm_stats m1 = fm_stats m"
proof -
  obtain g' m0 where i: "ft_init (\<lambda>_. True) 0 (Some small_config) empty_module = (FT_SUCCESS, g')" "fg_manager g' = Some m0"
    "\<not> fc_encryption (fm_config m0)" "fm_counter m0 = 0" "fm_fresh m0 = 0" using small_init by blast
  have o: "\<not> fg_once empty_module" by (simp add: empty_module_def)
  obtain m s0 s1 where m: "create_all [small_request 0, small_request 2] m0 = Done ([(FT_SUCCESS, Some 0), (FT_SUCCESS, Some 1)], m)"
    "fm_fresh m = 2" "fm_heap m 0 = Some s0" "fs_id s0 = 0" "fs_id s1 = 3" "fm_heap m = (\<lambda>_. None)(0 \<mapsto> s0, 1 \<mapsto> s1)"
    using small_two [OF init_created [OF i(1) o i(2)] i(3-5)] by blast
  have u: "\<forall>b t. fm_heap m b = Some t \<and> fs_id t = fs_id s0 \<longrightarrow> b = 0" using m(4-6) by auto
  show ?thesis using remove_older_session_leaks [OF i(1) o i(2) m(1,3) _ u] i(1,2) m(1,2,3) by auto
qed

text \<open>After two transfers with different buckets have been created and removed, the newer one first, the table still refers to the memory of the older
  one: looking up any number of the newer one's bucket reads freed memory.\<close>

theorem session_map_use_after_free:
  assumes "ft_init ok now cfg g = (FT_SUCCESS, g')" "\<not> fg_once g" "fg_manager g' = Some m0" "create_all qs m0 = Done (rs, m)"
    "fm_fresh m = 2" "fm_heap m 0 = Some s0" "fm_heap m 1 = Some s1"
    "ft_hash_transfer_id (fs_id s0) \<noteq> ft_hash_transfer_id (fs_id s1)" "ft_hash_transfer_id j = ft_hash_transfer_id (fs_id s1)"
  shows "\<exists>m1 m2. ft_remove_session m (fs_id s1) = Done (FT_SUCCESS, m1) \<and> ft_remove_session m1 (fs_id s0) = Done (FT_SUCCESS, m2) \<and>
    ft_get_session m2 j = Undefined_Behaviour"
proof -
  have "created m" using create_all_created [OF init_created [OF assms(1-3)], of qs] assms(4) by auto
  from remove_both [OF this assms(5-9)] show ?thesis .
qed

lemma session_map_use_after_free_witness:
  "\<exists>g' m0 m m1 m2. ft_init (\<lambda>_. True) 0 (Some small_config) empty_module = (FT_SUCCESS, g') \<and> fg_manager g' = Some m0 \<and>
    create_all [small_request 0, small_request 2] m0 = Done ([(FT_SUCCESS, Some 0), (FT_SUCCESS, Some 1)], m) \<and>
    ft_remove_session m 3 = Done (FT_SUCCESS, m1) \<and> ft_remove_session m1 0 = Done (FT_SUCCESS, m2) \<and> ft_get_session m2 104 = Undefined_Behaviour"
proof -
  obtain g' m0 where i: "ft_init (\<lambda>_. True) 0 (Some small_config) empty_module = (FT_SUCCESS, g')" "fg_manager g' = Some m0"
    "\<not> fc_encryption (fm_config m0)" "fm_counter m0 = 0" "fm_fresh m0 = 0" using small_init by blast
  have o: "\<not> fg_once empty_module" by (simp add: empty_module_def)
  obtain m s0 s1 where m: "create_all [small_request 0, small_request 2] m0 = Done ([(FT_SUCCESS, Some 0), (FT_SUCCESS, Some 1)], m)"
    "fm_fresh m = 2" "fm_heap m 0 = Some s0" "fm_heap m 1 = Some s1" "fs_id s0 = 0" "fs_id s1 = 3"
    using small_two [OF init_created [OF i(1) o i(2)] i(3-5)] by blast
  have "ft_hash_transfer_id (fs_id s0) \<noteq> ft_hash_transfer_id (fs_id s1)" "ft_hash_transfer_id 104 = ft_hash_transfer_id (fs_id s1)"
    using m(5,6) by (simp_all add: ft_hash_transfer_id_def)
  from session_map_use_after_free [OF i(1) o i(2) m(1-4) this] show ?thesis using i(1,2) m(1,5,6) by auto
qed


section \<open>What the manager thread makes of a session\<close>

lemma complete_upload_moves:
  assumes "ft_complete_upload L io now cfg fs s = Done (FT_SUCCESS, cb, fs1, s1)" "fs_temp s \<noteq> fs_local s"
  shows "s1 = ft_unlock (s\<lparr>fs_status := FT_STATUS_COMPLETED, fs_last_activity := now\<rparr>) \<and> fs1 (fs_temp s) = None"
  using assms by (auto simp: ft_complete_upload_def ft_lock_def ft_unlock_def rename_file_def Let_def obind_Done split: if_splits option.splits)

text \<open>An upload that was completed is taken for failed by the next turn of the manager, which tries to move the temporary file a second time: the
  completion callback runs again, the error callback follows, the session is retired as failed, and the transfer is counted with the failures.\<close>

theorem completed_upload_counted_failed:
  assumes "ft_complete_upload L io now cfg fs s = Done (FT_SUCCESS, cb, fs1, s1)" "fs_temp s \<noteq> fs_local s"
    "fm_heap m a = Some s1" "fm_files m = fs1" "fm_active m = Some a" "fs_next s = None" "fs_prev s = None" "fm_completed m = None"
    "fm_running m" "\<not> fm_locked m" "te_clean e - 3600 \<le> te_now e a"
  shows "\<exists>m1 s2. ft_manager_turn L e m = Done ((if fs_completion_cb s then [Completion] else []) @ (if fs_error_cb s then [Failure FT_ERROR_IO] else []), m1) \<and>
    fm_active m1 = None \<and> fm_completed m1 = Some a \<and> fm_heap m1 a = Some s2 \<and> fs_status s2 = FT_STATUS_FAILED \<and>
    ts_failed (fm_stats m1) = ts_failed (fm_stats m) + 1 \<and> ts_successful (fm_stats m1) = ts_successful (fm_stats m)"
proof -
  let ?t = "ft_unlock (s\<lparr>fs_status := FT_STATUS_FAILED, fs_last_activity := te_now e a\<rparr>)"
  have s1: "s1 = ft_unlock (s\<lparr>fs_status := FT_STATUS_COMPLETED, fs_last_activity := now\<rparr>)" "fs1 (fs_temp s) = None"
    using complete_upload_moves [OF assms(1,2)] by auto
  have p: "ft_process_session L (te_io e a) (te_now e a) (fm_config m) fs1 (fm_stats m) s1 =
      Done (FT_ERROR_IO, if fs_completion_cb s then [Completion] else [], fs1, fm_stats m, ?t)"
    using s1(2) by (simp add: s1(1) ft_process_session_def ft_lock_def ft_unlock_def rename_file_def Let_def)
  show ?thesis
    using p assms(3-11) s1(1)
    by (simp add: ft_manager_turn_def fm_lock_def fm_unlock_def Let_def retire_session_def unlink_session_def push_front_def session_set_next_Some session_set_prev_Some
        set_active_def set_completed_def ft_cleanup_completed_sessions_def ft_unlock_def)
qed

definition small_manager :: "file_system \<Rightarrow> ft_session \<Rightarrow> ft_manager" where
  "small_manager fs s = \<lparr>fm_heap = (\<lambda>_. None)(0 \<mapsto> s), fm_fresh = 1, fm_active = Some 0, fm_completed = None, fm_table = (replicate 101 None)[1 := Some 0],
     fm_count = 1, fm_config = small_config, fm_stats = new_stats no_stats, fm_locked = False, fm_running = True, fm_files = fs, fm_dirs = (\<lambda>_. True),
     fm_pool = True, fm_counter = 1\<rparr>"

definition small_turn :: ft_turn_env where
  "small_turn = \<lparr>te_io = (\<lambda>_ _. True), te_now = (\<lambda>_. 10), te_check = (\<lambda>_. 10), te_clean = 10, te_uptime = 10\<rparr>"

lemma completed_upload_counted_failed_witness:
  "\<exists>cb fs1 s1 m1 s2. ft_complete_upload plain_lib all_ok 0 small_config [''t'' \<mapsto> [1, 2, 3]] plain_session = Done (FT_SUCCESS, cb, fs1, s1) \<and>
    ft_manager_turn plain_lib small_turn (small_manager fs1 s1) = Done ([], m1) \<and> fm_heap m1 0 = Some s2 \<and> fs_status s2 = FT_STATUS_FAILED \<and>
    ts_failed (fm_stats m1) = 1 \<and> ts_successful (fm_stats m1) = 0"
proof -
  have t: "fs_temp plain_session = ''t''" "fs_local plain_session = ''a''" "\<not> fs_locked plain_session" by (simp_all add: plain_session_def)
  have v: "ft_verify_file_checksum plain_lib (all_ok 0) [''t'' \<mapsto> [1, 2, 3]] ''t'' (fs_expected plain_session) = FT_SUCCESS"
    by (simp add: ft_verify_file_checksum_def ft_calculate_file_checksum_def all_ok_def plain_lib_def plain_session_def)
  have "\<exists>cb fs1 s1. ft_complete_upload plain_lib all_ok 0 small_config [''t'' \<mapsto> [1, 2, 3]] plain_session = Done (FT_SUCCESS, cb, fs1, s1)"
    using t v by (simp add: ft_complete_upload_def ft_lock_def rename_file_def all_ok_def Let_def)
  then obtain cb fs1 s1 where c: "ft_complete_upload plain_lib all_ok 0 small_config [''t'' \<mapsto> [1, 2, 3]] plain_session = Done (FT_SUCCESS, cb, fs1, s1)"
    by blast
  have s: "fs_temp plain_session \<noteq> fs_local plain_session" "fs_next plain_session = None" "fs_prev plain_session = None"
    "\<not> fs_completion_cb plain_session" "\<not> fs_error_cb plain_session" by (simp_all add: plain_session_def)
  have m: "fm_heap (small_manager fs1 s1) 0 = Some s1" "fm_files (small_manager fs1 s1) = fs1" "fm_active (small_manager fs1 s1) = Some 0"
    "fm_completed (small_manager fs1 s1) = None" "fm_running (small_manager fs1 s1)" "\<not> fm_locked (small_manager fs1 s1)"
    "te_clean small_turn - 3600 \<le> te_now small_turn 0" "ts_failed (fm_stats (small_manager fs1 s1)) = 0" "ts_successful (fm_stats (small_manager fs1 s1)) = 0"
    by (simp_all add: small_manager_def small_turn_def new_stats_def no_stats_def)
  from completed_upload_counted_failed [OF c s(1) m(1-3) s(2,3) m(4-7)] show ?thesis using c s(4,5) m(8,9) by auto
qed

text \<open>A session that the manager thread meets before it has been prepared stops the thread: preparing it locks the session's mutex a second time.\<close>

theorem pending_session_deadlocks:
  assumes "ft_init ok now cfg g = (FT_SUCCESS, g')" "\<not> fg_once g" "fg_manager g' = Some m0" "create_all qs m0 = Done (rs, m)"
    "ft_create_session e user peer local remote meta mode m = Done (FT_SUCCESS, Some a, m1)"
  shows "ft_manager_turn L te (m1\<lparr>fm_running := True\<rparr>) = Deadlock"
proof -
  have c: "created m" using create_all_created [OF init_created [OF assms(1-3)], of qs] assms(4) by auto
  let ?i = "fst (ft_generate_transfer_id (fe_now e 0) (fe_random e) m)"
  let ?s = "new_session (fm_config m) e ?i user peer local remote meta mode"
  have ok: "local \<noteq> None \<or> remote \<noteq> None" "fe_ok e 0" "fe_ok e 1 \<or> \<not> fc_encryption (fm_config m)" "fe_ok e 2" "fe_ok e 3"
    using assms(5) by (auto simp: ft_create_session_def ft_generate_transfer_id_def Let_def split: if_splits)
  have m1: "fm_heap m1 = with_session m ?s" "fm_active m1 = Some (fm_fresh m)"
    using create_session_eq [OF c ok refl refl, of user peer meta mode] assms(5) by auto
  have "\<not> fm_locked m1" using create_step [OF c assms(5)] by (simp add: created_def)
  then show ?thesis using m1 with_session_new [of m ?s]
    by (simp add: ft_manager_turn_def fm_lock_def ft_process_session_def ft_lock_def new_session_def ft_prepare_upload_def ft_prepare_download_def)
qed

lemma pending_session_deadlocks_witness:
  "\<exists>g' m m1. ft_init (\<lambda>_. True) 0 (Some small_config) empty_module = (FT_SUCCESS, g') \<and> fg_manager g' = Some m \<and>
    ft_create_session (small_env 0) 1 2 (Some ''a'') (Some ''b'') None 0 m = Done (FT_SUCCESS, Some 0, m1) \<and>
    ft_manager_turn plain_lib small_turn (m1\<lparr>fm_running := True\<rparr>) = Deadlock"
proof -
  obtain g' m where i: "ft_init (\<lambda>_. True) 0 (Some small_config) empty_module = (FT_SUCCESS, g')" "fg_manager g' = Some m"
    "\<not> fc_encryption (fm_config m)" "fm_fresh m = 0" using small_init by blast
  have o: "\<not> fg_once empty_module" by (simp add: empty_module_def)
  have c: "create_all [] m = Done ([], m)" by simp
  obtain m1 where m1: "ft_create_session (small_env 0) 1 2 (Some ''a'') (Some ''b'') None 0 m = Done (FT_SUCCESS, Some 0, m1)"
    using create_session_eq [OF init_created [OF i(1) o i(2)], of "Some ''a''" "Some ''b''" "small_env 0" _ _ 1 2 None 0] i(3,4)
    by (simp add: small_env_def)
  from pending_session_deadlocks [OF i(1) o i(2) c m1] show ?thesis using i(1,2) m1 by blast
qed

end
