(* ===== verification/Registry.thy ===== *)
theory Registry
  imports Chat_Prelude
begin

text \<open>
  The interface of a table in which the first registration of a key wins, as the table of message handlers uses it:
  registering a new key binds it, registering a known one changes nothing.
\<close>

locale registry =
  fixes lk :: "'m \<Rightarrow> 'k \<Rightarrow> 'v option"
    and add :: "'k \<Rightarrow> 'v \<Rightarrow> 'm \<Rightarrow> 'm"
  assumes add_new: "lk m k = None \<Longrightarrow> lk (add k v m) = (lk m)(k \<mapsto> v)"
    and add_taken: "lk m k \<noteq> None \<Longrightarrow> add k v m = m"
begin

lemma lk_add: "lk (add k v m) = [k \<mapsto> v] ++ lk m"
  by (cases "lk m k") (auto simp: add_new add_taken map_add_def split: option.splits)

lemma lk_adds: "lk (foldl (\<lambda>m (k, v). add k v m) m kvs) = map_of kvs ++ lk m"
proof (induction kvs arbitrary: m)
  case (Cons kv kvs)
  obtain k v where kv: "kv = (k, v)" by (cases kv)
  then have "map_of (kv # kvs) = map_of kvs ++ [k \<mapsto> v]" by (auto simp: fun_eq_iff)
  then show ?case using Cons.IH [of "add k v m"] kv by (simp only: foldl.simps prod.case lk_add map_add_assoc)
qed simp

lemma adds_keep: "lk m k = Some v \<Longrightarrow> lk (foldl (\<lambda>m (k, v). add k v m) m kvs) k = Some v"
  by (simp add: lk_adds)

end

end
