(* ===== verification/Message_Handler.thy ===== *)
theory Message_Handler
  imports Connection C_Lib Registry Sql_Table
begin

text \<open>
  Message dispatch, \<open>server/src/message_handler.c\<close>: the table of handlers, the checks before a handler runs, the handlers
  themselves, permissions, auditing and statistics. The user manager, the authentication manager and the file transfer functions that
  the handlers call are not in the repository (\<open>user_manager.c\<close> is empty); they are function arguments over a
  state of their own. So are the layouts of the message structures that no header declares. The response structure of
  \<open>protocol.h\<close> lacks the fields that the handlers use; a response here has a code, a text and data.

  The result of \<open>connection_send_message\<close>, the answers of SQLite and the clock are in \<open>handler_env\<close>; everything a handler
  sends is logged. The manager's mutex is never held across a call, so it is not part of the state.
\<close>

section \<open>Message types\<close>

abbreviation AUTH_LOGIN :: "32 word" where "AUTH_LOGIN \<equiv> 0x00010001"
abbreviation AUTH_LOGIN_RESPONSE :: "32 word" where "AUTH_LOGIN_RESPONSE \<equiv> 0x00010002"
abbreviation AUTH_LOGOUT :: "32 word" where "AUTH_LOGOUT \<equiv> 0x00010003"
abbreviation AUTH_LOGOUT_RESPONSE :: "32 word" where "AUTH_LOGOUT_RESPONSE \<equiv> 0x00010004"
abbreviation AUTH_REGISTER :: "32 word" where "AUTH_REGISTER \<equiv> 0x00010005"
abbreviation AUTH_REGISTER_RESPONSE :: "32 word" where "AUTH_REGISTER_RESPONSE \<equiv> 0x00010006"
abbreviation AUTH_TOKEN_REFRESH :: "32 word" where "AUTH_TOKEN_REFRESH \<equiv> 0x00010007"
abbreviation AUTH_TOKEN_REFRESH_RESPONSE :: "32 word" where "AUTH_TOKEN_REFRESH_RESPONSE \<equiv> 0x00010008"
abbreviation CHAT_TEXT_SEND :: "32 word" where "CHAT_TEXT_SEND \<equiv> 0x00020001"
abbreviation CHAT_TEXT_SEND_RESPONSE :: "32 word" where "CHAT_TEXT_SEND_RESPONSE \<equiv> 0x00020002"
abbreviation CHAT_TEXT_RECEIVE :: "32 word" where "CHAT_TEXT_RECEIVE \<equiv> 0x00020003"
abbreviation CHAT_GROUP_CREATE :: "32 word" where "CHAT_GROUP_CREATE \<equiv> 0x00020004"
abbreviation CHAT_GROUP_CREATE_RESPONSE :: "32 word" where "CHAT_GROUP_CREATE_RESPONSE \<equiv> 0x00020005"
abbreviation CHAT_GROUP_JOIN :: "32 word" where "CHAT_GROUP_JOIN \<equiv> 0x00020006"
abbreviation CHAT_GROUP_JOIN_RESPONSE :: "32 word" where "CHAT_GROUP_JOIN_RESPONSE \<equiv> 0x00020007"
abbreviation CHAT_GROUP_LEAVE :: "32 word" where "CHAT_GROUP_LEAVE \<equiv> 0x00020008"
abbreviation CHAT_GROUP_LEAVE_RESPONSE :: "32 word" where "CHAT_GROUP_LEAVE_RESPONSE \<equiv> 0x00020009"
abbreviation FILE_UPLOAD_REQUEST :: "32 word" where "FILE_UPLOAD_REQUEST \<equiv> 0x00030001"
abbreviation FILE_UPLOAD_REQUEST_RESPONSE :: "32 word" where "FILE_UPLOAD_REQUEST_RESPONSE \<equiv> 0x00030002"
abbreviation FILE_DOWNLOAD_REQUEST :: "32 word" where "FILE_DOWNLOAD_REQUEST \<equiv> 0x00030003"
abbreviation FILE_DOWNLOAD_REQUEST_RESPONSE :: "32 word" where "FILE_DOWNLOAD_REQUEST_RESPONSE \<equiv> 0x00030004"
abbreviation FILE_TRANSFER_CANCEL :: "32 word" where "FILE_TRANSFER_CANCEL \<equiv> 0x00030005"
abbreviation FILE_TRANSFER_CANCEL_RESPONSE :: "32 word" where "FILE_TRANSFER_CANCEL_RESPONSE \<equiv> 0x00030006"
abbreviation FILE_TRANSFER_STATUS :: "32 word" where "FILE_TRANSFER_STATUS \<equiv> 0x00030007"
abbreviation FILE_TRANSFER_STATUS_RESPONSE :: "32 word" where "FILE_TRANSFER_STATUS_RESPONSE \<equiv> 0x00030008"
abbreviation FILE_PROGRESS_UPDATE :: "32 word" where "FILE_PROGRESS_UPDATE \<equiv> 0x00030009"
abbreviation USER_LIST_GET :: "32 word" where "USER_LIST_GET \<equiv> 0x00040001"
abbreviation USER_LIST_GET_RESPONSE :: "32 word" where "USER_LIST_GET_RESPONSE \<equiv> 0x00040002"
abbreviation USER_STATUS_UPDATE :: "32 word" where "USER_STATUS_UPDATE \<equiv> 0x00040003"
abbreviation USER_STATUS_UPDATE_RESPONSE :: "32 word" where "USER_STATUS_UPDATE_RESPONSE \<equiv> 0x00040004"
abbreviation USER_PROFILE_GET :: "32 word" where "USER_PROFILE_GET \<equiv> 0x00040005"
abbreviation USER_PROFILE_GET_RESPONSE :: "32 word" where "USER_PROFILE_GET_RESPONSE \<equiv> 0x00040006"
abbreviation USER_PROFILE_UPDATE :: "32 word" where "USER_PROFILE_UPDATE \<equiv> 0x00040007"
abbreviation USER_PROFILE_UPDATE_RESPONSE :: "32 word" where "USER_PROFILE_UPDATE_RESPONSE \<equiv> 0x00040008"
abbreviation SYSTEM_HEARTBEAT :: "32 word" where "SYSTEM_HEARTBEAT \<equiv> 0x00050001"
abbreviation SYSTEM_HEARTBEAT_RESPONSE :: "32 word" where "SYSTEM_HEARTBEAT_RESPONSE \<equiv> 0x00050002"
abbreviation SYSTEM_NOTIFICATION :: "32 word" where "SYSTEM_NOTIFICATION \<equiv> 0x00050003"
abbreviation SYSTEM_ERROR :: "32 word" where "SYSTEM_ERROR \<equiv> 0x00050004"
abbreviation SYSTEM_SHUTDOWN :: "32 word" where "SYSTEM_SHUTDOWN \<equiv> 0x00050005"
abbreviation SYSTEM_SHUTDOWN_RESPONSE :: "32 word" where "SYSTEM_SHUTDOWN_RESPONSE \<equiv> 0x00050006"
abbreviation SYSTEM_INFO :: "32 word" where "SYSTEM_INFO \<equiv> 0x00050007"
abbreviation SYSTEM_INFO_RESPONSE :: "32 word" where "SYSTEM_INFO_RESPONSE \<equiv> 0x00050008"

section \<open>The table of handlers\<close>

datatype handler_fun = H_auth_login | H_auth_logout | H_auth_register | H_chat_text_send | H_chat_text_receive | H_group_create
  | H_group_join | H_group_leave | H_upload_request | H_download_request | H_transfer_cancel | H_transfer_status | H_user_list
  | H_status_update | H_profile_get | H_profile_update | H_heartbeat | H_notification | H_error | H_shutdown

record handler_entry =
  en_type :: "32 word"
  en_handler :: handler_fun
  en_auth :: bool
  en_encryption :: bool

record handler_stats =
  st_processed :: "64 word"
  st_failed :: "64 word"
  st_auth_failures :: "64 word"
  st_encryption_failures :: "64 word"
  st_invalid :: "64 word"

record handler_manager =
  hm_handlers :: "handler_entry list"
  hm_stats :: handler_stats

definition zero_stats :: handler_stats where
  "zero_stats = \<lparr>st_processed = 0, st_failed = 0, st_auth_failures = 0, st_encryption_failures = 0, st_invalid = 0\<rparr>"

definition find_handler :: "handler_manager \<Rightarrow> 32 word \<Rightarrow> handler_entry option" where
  "find_handler mgr t = find (\<lambda>e. en_type e = t) (hm_handlers mgr)"

text \<open>\<open>ok\<close>: the entry can be allocated. A missing manager or handler is refused with \<open>-1\<close>.\<close>

definition message_handler_register :: "bool \<Rightarrow> handler_manager option \<Rightarrow> 32 word \<Rightarrow> handler_fun option \<Rightarrow> bool \<Rightarrow> bool \<Rightarrow> int \<times> handler_manager option" where
  "message_handler_register ok mgr t handler auth encryption =
     (case (mgr, handler) of
        (Some m, Some h) \<Rightarrow>
          if find_handler m t \<noteq> None then (-2, mgr)
          else if \<not> ok then (-3, mgr)
          else (0, Some (m\<lparr>hm_handlers := \<lparr>en_type = t, en_handler = h, en_auth = auth, en_encryption = encryption\<rparr> # hm_handlers m\<rparr>))
      | _ \<Rightarrow> (-1, mgr))"

fun remove_entry :: "32 word \<Rightarrow> handler_fun \<Rightarrow> handler_entry list \<Rightarrow> handler_entry list option" where
  "remove_entry t h [] = None"
| "remove_entry t h (e # es) =
     (if en_type e = t \<and> en_handler e = h then Some es else map_option ((#) e) (remove_entry t h es))"

definition message_handler_unregister :: "handler_manager option \<Rightarrow> 32 word \<Rightarrow> handler_fun option \<Rightarrow> int \<times> handler_manager option" where
  "message_handler_unregister mgr t handler =
     (case (mgr, handler) of
        (Some m, Some h) \<Rightarrow> (case remove_entry t h (hm_handlers m) of Some es \<Rightarrow> (0, Some (m\<lparr>hm_handlers := es\<rparr>)) | None \<Rightarrow> (-2, mgr))
      | _ \<Rightarrow> (-1, mgr))"

definition default_handlers :: "(32 word \<times> handler_fun \<times> bool \<times> bool) list" where
  "default_handlers =
    [(AUTH_LOGIN, H_auth_login, False, False), (AUTH_LOGOUT, H_auth_logout, True, False), (AUTH_REGISTER, H_auth_register, False, False),
     (AUTH_TOKEN_REFRESH, H_auth_login, True, True), (CHAT_TEXT_SEND, H_chat_text_send, True, True),
     (CHAT_TEXT_RECEIVE, H_chat_text_receive, True, True), (CHAT_GROUP_CREATE, H_group_create, True, True),
     (CHAT_GROUP_JOIN, H_group_join, True, True), (CHAT_GROUP_LEAVE, H_group_leave, True, True),
     (FILE_UPLOAD_REQUEST, H_upload_request, True, True), (FILE_DOWNLOAD_REQUEST, H_download_request, True, True),
     (FILE_TRANSFER_CANCEL, H_transfer_cancel, True, False), (FILE_TRANSFER_STATUS, H_transfer_status, True, False),
     (FILE_PROGRESS_UPDATE, H_transfer_status, True, True), (USER_LIST_GET, H_user_list, True, False),
     (USER_STATUS_UPDATE, H_status_update, True, True), (USER_PROFILE_GET, H_profile_get, True, True),
     (USER_PROFILE_UPDATE, H_profile_update, True, True), (SYSTEM_HEARTBEAT, H_heartbeat, False, False),
     (SYSTEM_NOTIFICATION, H_notification, True, False), (SYSTEM_ERROR, H_error, False, False),
     (SYSTEM_SHUTDOWN, H_shutdown, True, True), (SYSTEM_INFO, H_heartbeat, True, False)]"

text \<open>\<open>ok n\<close>: the entry of the \<open>n\<close>-th default handler can be allocated; failures are ignored.\<close>

definition register_default_handlers :: "(nat \<Rightarrow> bool) \<Rightarrow> handler_manager option \<Rightarrow> handler_manager option" where
  "register_default_handlers ok mgr =
     foldl (\<lambda>m (n, t, h, a, c). snd (message_handler_register (ok n) m t (Some h) a c)) mgr (enumerate 0 default_handlers)"

definition message_handler_manager_create :: "bool \<Rightarrow> bool \<Rightarrow> (nat \<Rightarrow> bool) \<Rightarrow> handler_manager option" where
  "message_handler_manager_create alloc mutex ok =
     (if alloc \<and> mutex then register_default_handlers ok (Some \<lparr>hm_handlers = [], hm_stats = zero_stats\<rparr>) else None)"

definition update_statistics :: "handler_manager \<Rightarrow> bool \<Rightarrow> bool \<Rightarrow> bool \<Rightarrow> handler_manager" where
  "update_statistics mgr success auth_failure encryption_failure =
     (let st = hm_stats mgr in
      mgr\<lparr>hm_stats :=
        (if success then st\<lparr>st_processed := st_processed st + 1\<rparr>
         else
           let st1 = st\<lparr>st_failed := st_failed st + 1\<rparr>;
               st2 = (if auth_failure then st1\<lparr>st_auth_failures := st_auth_failures st1 + 1\<rparr> else st1)
           in if encryption_failure then st2\<lparr>st_encryption_failures := st_encryption_failures st2 + 1\<rparr> else st2)\<rparr>)"

definition validate_message_auth :: "handler_manager \<Rightarrow> client_connection \<Rightarrow> handler_entry \<Rightarrow> bool \<times> handler_manager" where
  "validate_message_auth mgr c e =
     (if \<not> en_auth e then (True, mgr)
      else if c_state c \<noteq> Conn_Authenticated then (False, update_statistics mgr False True False)
      else (True, mgr))"

definition validate_message_encryption :: "handler_manager \<Rightarrow> client_connection \<Rightarrow> handler_entry \<Rightarrow> bool \<times> handler_manager" where
  "validate_message_encryption mgr c e =
     (if \<not> en_encryption e then (True, mgr)
      else if \<not> c_encryption c then (False, update_statistics mgr False False True)
      else (True, mgr))"

definition message_handler_get_statistics :: "handler_manager option \<Rightarrow> int \<times> handler_stats option" where
  "message_handler_get_statistics mgr = (case mgr of None \<Rightarrow> (-1, None) | Some m \<Rightarrow> (0, Some (hm_stats m)))"

definition message_handler_reset_statistics :: "handler_manager option \<Rightarrow> int \<times> handler_manager option" where
  "message_handler_reset_statistics mgr = (case mgr of None \<Rightarrow> (-1, None) | Some m \<Rightarrow> (0, Some (m\<lparr>hm_stats := zero_stats\<rparr>)))"

text \<open>Destroying the manager frees every entry; the entries freed are the result.\<close>

definition message_handler_manager_destroy :: "handler_manager option \<Rightarrow> handler_entry list" where
  "message_handler_manager_destroy mgr = (case mgr of None \<Rightarrow> [] | Some m \<Rightarrow> hm_handlers m)"

section \<open>The server a handler works on\<close>

record account =
  ac_id :: "64 word"
  ac_name :: string
  ac_nick :: string
  ac_role :: nat

text \<open>The sizes and contents of the message structures that no header declares.\<close>

datatype message_struct = Login_Msg | Register_Msg | Group_Create_Msg | Group_Join_Msg | Group_Leave_Msg | Download_Request | Cancel_Request
  | Transfer_Status | List_Request | Status_Update | Profile_Update

record layouts =
  ly_size :: "message_struct \<Rightarrow> nat"
  ly_login :: "byte list \<Rightarrow> string \<times> string"
  ly_register :: "byte list \<Rightarrow> string \<times> string \<times> string \<times> string"
  ly_create :: "byte list \<Rightarrow> string \<times> string"
  ly_group :: "byte list \<Rightarrow> 32 word"
  ly_download :: "byte list \<Rightarrow> 64 word \<times> 64 word"
  ly_cancel :: "byte list \<Rightarrow> 64 word"
  ly_status :: "byte list \<Rightarrow> 64 word \<times> 32 word \<times> 32 word"
  ly_list :: "byte list \<Rightarrow> bool \<times> 64 word \<times> 64 word \<times> 32 word"
  ly_ustatus :: "byte list \<Rightarrow> 64 word \<times> 32 word \<times> string"
  ly_profile :: "byte list \<Rightarrow> 64 word \<times> string \<times> string \<times> string"

text \<open>The managers behind the handlers, with a state of type \<open>'u\<close>.\<close>

record 'u services =
  sv_authenticate :: "'u \<Rightarrow> string \<Rightarrow> string \<Rightarrow> int \<times> account"
  sv_create_user :: "'u \<Rightarrow> string \<Rightarrow> string \<Rightarrow> string \<Rightarrow> string \<Rightarrow> int \<times> account \<times> 'u"
  sv_update_status :: "'u \<Rightarrow> 64 word \<Rightarrow> 32 word \<Rightarrow> string \<Rightarrow> int \<times> 'u"
  sv_update_profile :: "'u \<Rightarrow> 64 word \<Rightarrow> string \<Rightarrow> string \<Rightarrow> string \<Rightarrow> int \<times> 'u"
  sv_get_user_info :: "'u \<Rightarrow> 64 word \<Rightarrow> int \<times> account"
  sv_online_users :: "'u \<Rightarrow> int \<times> account list"
  sv_is_online :: "'u \<Rightarrow> 64 word \<Rightarrow> bool"
  sv_get_users :: "'u \<Rightarrow> bool \<Rightarrow> 64 word \<Rightarrow> 64 word \<Rightarrow> 32 word \<Rightarrow> int \<times> account list"
  sv_create_session :: "'u \<Rightarrow> 64 word \<Rightarrow> 32 word \<Rightarrow> byte list \<times> 'u"
  sv_create_upload :: "'u \<Rightarrow> 64 word \<Rightarrow> 64 word \<Rightarrow> byte list \<Rightarrow> int \<times> 64 word \<times> 'u"
  sv_create_download :: "'u \<Rightarrow> 64 word \<Rightarrow> 64 word \<Rightarrow> string \<Rightarrow> 64 word \<Rightarrow> 64 word \<Rightarrow> string \<Rightarrow> int \<times> 64 word \<times> 'u"
  sv_cancel :: "'u \<Rightarrow> 64 word \<Rightarrow> int \<times> 'u"
  sv_transfer_update :: "'u \<Rightarrow> 64 word \<Rightarrow> 32 word \<Rightarrow> 32 word \<Rightarrow> int \<times> 'u"
  sv_transfer_status :: "'u \<Rightarrow> 64 word \<Rightarrow> int \<times> byte list"
  sv_role_admin :: nat
  sv_role_moderator :: nat

text \<open>The texts of the responses, named after their meaning.\<close>

datatype account_text = Login_Succeeded | User_Not_Found | Account_Locked | Account_Inactive | Wrong_Password | Authentication_Failed
  | Logout_Succeeded | Registration_Succeeded | Invalid_Username | Weak_Password | Invalid_Email | Username_Exists | Email_Exists
  | Registration_Failed

datatype chat_text = Message_Sent | Group_Created | Group_Not_Created | Already_In_Group | Group_Joined | Group_Not_Joined | Group_Left | Group_Not_Left

datatype file_text = File_Too_Large "32 word" | Upload_Accepted | Upload_Refused | Download_Accepted | Download_Refused
  | File_Missing | Transfer_Unknown | Transfer_Cancelled | Transfer_Not_Cancelled | Status_Found | Status_Not_Found

datatype user_text = Users_Listed | Out_Of_Memory | No_Users | Users_Not_Listed | Status_Updated | Status_Not_Updated | Profile_Found | Profile_Not_Found
  | Profile_Updated | Profile_Not_Updated | Shutting_Down

datatype status_text = On_Account account_text | On_Chat chat_text | On_File file_text | On_User user_text

datatype reply_data = No_Data | Bytes "byte list" | Account account | Accounts "account list" | Group_Id int | Transfer_Id "64 word"

datatype outgoing = Response int status_text reply_data | Timestamp "64 word" | System_Information "64 word" "64 word" "64 word" "64 word"

record group_row =
  gr_id :: int
  gr_name :: string
  gr_description :: string
  gr_creator :: "64 word"
  gr_created :: "64 word"

record member_row =
  mb_group :: "32 word"
  mb_user :: "64 word"
  mb_joined :: "64 word"

record message_row =
  ms_sender :: "64 word"
  ms_receiver :: "64 word"
  ms_type :: "32 word"
  ms_content :: "byte list"
  ms_time :: "64 word"

record transfer_row =
  tr_id :: "64 word"
  tr_path :: "string option"
  tr_size :: "64 word"
  tr_status :: "32 word"
  tr_progress :: "32 word"
  tr_end :: "64 word"

datatype audit_status = Received | Succeeded | Rejected

record audit_row =
  au_user :: "64 word"
  au_connection :: "64 word"
  au_ip :: "32 word"
  au_status :: audit_status
  au_time :: "64 word"

text \<open>Beside its tables the server logs what is sent: responses on the connection, messages to users with \<open>server_send_to_user\<close>, broadcasts with the
  user they leave out, and the threads that stop the server.\<close>

record 'u server =
  sw_state :: 'u
  sw_conn :: client_connection
  sw_responses :: "(32 word \<times> outgoing) list"
  sw_sent :: "(64 word \<times> 32 word \<times> byte list) list"
  sw_broadcasts :: "(32 word \<times> (account + byte list) \<times> 64 word) list"
  sw_groups :: "group_row list"
  sw_members :: "member_row list"
  sw_messages :: "message_row list"
  sw_transfers :: "transfer_row list"
  sw_audit :: "audit_row list"
  sw_audit_file :: "(32 word \<times> audit_row) list"
  sw_audit_open :: bool
  sw_enable_audit :: bool
  sw_max_file_size :: "32 word"
  sw_startup_time :: "64 word"
  sw_active_connections :: "64 word"
  sw_total_connections :: "64 word"
  sw_closed :: "int list"
  sw_stops :: nat

text \<open>\<open>he_sql n\<close>: the \<open>n\<close>-th SQLite call in the text of the handler succeeds.\<close>

record handler_env =
  he_send :: int
  he_sql :: "nat \<Rightarrow> bool"
  he_now :: "nat \<Rightarrow> 64 word"
  he_alloc :: bool
  he_file :: "string \<Rightarrow> bool"

section \<open>Helpers of the handlers\<close>

definition message_send_response :: "handler_env \<Rightarrow> 'u server \<Rightarrow> 32 word \<Rightarrow> outgoing \<Rightarrow> int \<times> 'u server" where
  "message_send_response e w t r = (he_send e, w\<lparr>sw_responses := sw_responses w @ [(t, r)]\<rparr>)"

text \<open>An entry that has not been written is \<open>None\<close>; reading it, or reading behind the array, is undefined.\<close>

fun broadcast_loop :: "64 word option list \<Rightarrow> nat \<Rightarrow> 32 word \<Rightarrow> byte list \<Rightarrow> 'u server \<Rightarrow> 'u server outcome" where
  "broadcast_loop ids 0 t data w = Done w"
| "broadcast_loop (Some u # ids) (Suc n) t data w = broadcast_loop ids n t data (w\<lparr>sw_sent := sw_sent w @ [(u, t, data)]\<rparr>)"
| "broadcast_loop ids (Suc n) t data w = Undefined_Behaviour"

definition message_broadcast_to_users :: "'u server \<Rightarrow> 64 word option list \<Rightarrow> 64 word \<Rightarrow> 32 word \<Rightarrow> byte list \<Rightarrow> 'u server outcome" where
  "message_broadcast_to_users w ids user_count t data =
     (if user_count = 0 then Done w
      else if length ids < unat user_count then Undefined_Behaviour
      else broadcast_loop ids (unat user_count) t data w)"

definition message_check_permission :: "'u services \<Rightarrow> 'u server \<Rightarrow> 64 word \<Rightarrow> string \<Rightarrow> bool" where
  "message_check_permission S w user_id permission =
     (case sv_get_user_info S (sw_state w) user_id of (r, acc) \<Rightarrow>
        if r \<noteq> 0 then False
        else if ac_role acc = sv_role_admin S then True
        else if permission = ''user.status.update'' then True
        else if permission = ''user.profile.update'' then True
        else if permission = ''group.create'' then ac_role acc \<ge> sv_role_moderator S
        else if permission = ''file.download'' then True
        else if permission = ''system.shutdown'' then ac_role acc = sv_role_admin S
        else False)"

definition message_log_audit :: "bool \<Rightarrow> 64 word \<Rightarrow> 'u server \<Rightarrow> 32 word \<Rightarrow> audit_status \<Rightarrow> 'u server" where
  "message_log_audit sql now w t status =
     (if \<not> sw_enable_audit w then w
      else
        let row = \<lparr>au_user = c_user_id (sw_conn w), au_connection = c_id (sw_conn w), au_ip = c_ip (sw_conn w), au_status = status, au_time = now\<rparr>;
            w1 = (if sw_audit_open w then w\<lparr>sw_audit_file := sw_audit_file w @ [(t, row)]\<rparr> else w)
        in if sql then w1\<lparr>sw_audit := sw_audit w1 @ [row]\<rparr> else w1)"

text \<open>The packed structures of \<open>protocol.h\<close>: \<open>message_content_t\<close> has 113 bytes before its content, \<open>file_transfer_request_t\<close> 909 and
  \<open>error_info_t\<close> 788.\<close>

definition sizeof_content :: nat where "sizeof_content = 113"
definition sizeof_request :: nat where "sizeof_request = 909"
definition sizeof_error_info :: nat where "sizeof_error_info = 788"

definition message_validate_integrity :: "layouts \<Rightarrow> byte list \<Rightarrow> 32 word \<Rightarrow> bool" where
  "message_validate_integrity Y data t =
     (if data = [] then False
      else if t = AUTH_LOGIN then length data \<ge> ly_size Y Login_Msg
      else if t = AUTH_REGISTER then length data \<ge> ly_size Y Register_Msg
      else if t = CHAT_TEXT_SEND then length data \<ge> sizeof_content
      else if t = FILE_UPLOAD_REQUEST then length data \<ge> sizeof_request
      else if t = FILE_DOWNLOAD_REQUEST then length data \<ge> ly_size Y Download_Request
      else if t = FILE_TRANSFER_CANCEL then length data \<ge> ly_size Y Cancel_Request
      else if t = FILE_PROGRESS_UPDATE then length data \<ge> ly_size Y Transfer_Status
      else if t = USER_LIST_GET then length data \<ge> ly_size Y List_Request
      else if t = USER_STATUS_UPDATE then length data \<ge> ly_size Y Status_Update
      else if t = USER_PROFILE_UPDATE then length data \<ge> ly_size Y Profile_Update
      else if t = SYSTEM_HEARTBEAT then length data \<ge> 8
      else if t = SYSTEM_ERROR then length data \<ge> sizeof_error_info
      else True)"

text \<open>\<open>ok\<close>: the copy can be allocated. A missing message is refused with \<open>-1\<close>.\<close>

definition message_parse_data :: "layouts \<Rightarrow> bool \<Rightarrow> byte list \<Rightarrow> 32 word \<Rightarrow> int \<times> byte list option" where
  "message_parse_data Y ok data t =
     (if data = [] then (-1, None)
      else if t = AUTH_LOGIN then
        (if length data < ly_size Y Login_Msg then (-2, None) else if \<not> ok then (-3, None) else (0, Some (take (ly_size Y Login_Msg) data)))
      else if t = CHAT_TEXT_SEND then
        (if length data < sizeof_content then (-2, None)
         else
           let n = sizeof_content + field 109 4 data in
           if length data < n then (-3, None) else if \<not> ok then (-4, None) else (0, Some (take n data)))
      else if \<not> ok then (-5, None) else (0, Some data))"

section \<open>Accounts\<close>

definition online_text :: string where
  "online_text = map char_of [0xE5, 0x9C, 0xA8, 0xE7, 0xBA, 0xBF :: nat]"

definition offline_text :: string where
  "offline_text = map char_of [0xE7, 0xA6, 0xBB, 0xE7, 0xBA, 0xBF :: nat]"

definition handle_auth_login :: "layouts \<Rightarrow> 'u services \<Rightarrow> handler_env \<Rightarrow> 32 word \<Rightarrow> byte list \<Rightarrow> 'u server \<Rightarrow> (int \<times> 'u server) outcome" where
  "handle_auth_login Y S e t data w =
     (if length data < ly_size Y Login_Msg then Done (-1, w)
      else (case ly_login Y data of (username, password) \<Rightarrow>
        (case sv_authenticate S (sw_state w) username password of (r, acc) \<Rightarrow>
          let rt = (if t = AUTH_LOGIN then AUTH_LOGIN_RESPONSE else AUTH_TOKEN_REFRESH_RESPONSE) in
          if r = 0 then
            let c = the (snd (connection_set_user_info (Some (sw_conn w)) (ac_id acc) (Some (ac_name acc)) (Some (ac_nick acc))));
                u1 = snd (sv_update_status S (sw_state w) (ac_id acc) 1 online_text)
            in (case sv_create_session S u1 (ac_id acc) (c_ip c) of (session, u2) \<Rightarrow>
                 Done (message_send_response e (w\<lparr>sw_conn := c, sw_state := u2\<rparr>) rt (Response 0 (On_Account Login_Succeeded) (Bytes session))))
          else
            Done (message_send_response e w rt (Response r
              (On_Account (if r = -2 then User_Not_Found else if r = -3 then Account_Locked else if r = -4 then Account_Inactive
               else if r = -7 then Wrong_Password else Authentication_Failed)) No_Data)))))"

definition handle_auth_logout :: "'u services \<Rightarrow> handler_env \<Rightarrow> 'u server \<Rightarrow> (int \<times> 'u server) outcome" where
  "handle_auth_logout S e w =
     (let c = the (connection_clear_user_info (Some (sw_conn w)));
          w1 = w\<lparr>sw_conn := c\<rparr>;
          w2 = (if c_user_id c > 0 then w1\<lparr>sw_state := snd (sv_update_status S (sw_state w1) (c_user_id c) 0 offline_text)\<rparr> else w1)
      in Done (message_send_response e w2 AUTH_LOGOUT_RESPONSE (Response 0 (On_Account Logout_Succeeded) No_Data)))"

definition handle_auth_register :: "layouts \<Rightarrow> 'u services \<Rightarrow> handler_env \<Rightarrow> byte list \<Rightarrow> 'u server \<Rightarrow> (int \<times> 'u server) outcome" where
  "handle_auth_register Y S e data w =
     (if length data < ly_size Y Register_Msg then Done (-1, w)
      else (case ly_register Y data of (username, password, email, nickname) \<Rightarrow>
        (case sv_create_user S (sw_state w) username password email nickname of (r, acc, u1) \<Rightarrow>
          Done (message_send_response e (w\<lparr>sw_state := u1\<rparr>) AUTH_REGISTER_RESPONSE
            (if r = 0 then Response 0 (On_Account Registration_Succeeded) (Account acc)
             else Response r
               (On_Account (if r = -2 then Invalid_Username else if r = -3 then Weak_Password else if r = -4 then Invalid_Email
                else if r = -6 then Username_Exists else if r = -8 then Email_Exists else Registration_Failed)) No_Data)))))"

section \<open>Chat\<close>

text \<open>The array of receivers: the slot of the sender is not written.\<close>

definition receiver_slots :: "64 word \<Rightarrow> account list \<Rightarrow> 64 word option list" where
  "receiver_slots sender users = map (\<lambda>a. if ac_id a \<noteq> sender then Some (ac_id a) else None) users"

definition handle_chat_text_send :: "'u services \<Rightarrow> handler_env \<Rightarrow> byte list \<Rightarrow> 'u server \<Rightarrow> (int \<times> 'u server) outcome" where
  "handle_chat_text_send S e data w =
     (let sender = of_nat (field 8 8 data); receiver = of_nat (field 16 8 data) :: 64 word; content_length = field 109 4 data;
          user = c_user_id (sw_conn w)
      in if length data < sizeof_content then Done (-1, w)
         else if sender \<noteq> user then Done (-2, w)
         else if content_length > MAX_MESSAGE_SIZE then Done (-3, w)
         else obind
           (if receiver = 0 then
              (case sv_online_users S (sw_state w) of (r, users) \<Rightarrow>
                 if r = 0 \<and> he_alloc e
                 then message_broadcast_to_users w (receiver_slots user users) (of_nat (length users) - 1) CHAT_TEXT_RECEIVE data
                 else Done w)
            else if sv_is_online S (sw_state w) receiver then Done (w\<lparr>sw_sent := sw_sent w @ [(receiver, CHAT_TEXT_RECEIVE, data)]\<rparr>)
            else Done w)
           (\<lambda>w1. obind
             (if he_sql e 0 then
                (if length data < sizeof_content + content_length then Undefined_Behaviour
                 else Done (if he_sql e 1 then w1\<lparr>sw_messages := sw_messages w1 @
                        [\<lparr>ms_sender = sender, ms_receiver = receiver, ms_type = of_nat (field 32 4 data),
                          ms_content = take content_length (drop sizeof_content data), ms_time = he_now e 0\<rparr>]\<rparr> else w1))
              else Done w1)
             (\<lambda>w2. Done (message_send_response e w2 CHAT_TEXT_SEND_RESPONSE (Response 0 (On_Chat Message_Sent) No_Data)))))"

definition handle_chat_text_receive :: "'u server \<Rightarrow> (int \<times> 'u server) outcome" where
  "handle_chat_text_receive w = Done (0, w)"


text \<open>The structure with the name of the group is read without a check of its size. \<open>he_sql 0\<close>: the statement can be prepared, \<open>he_sql 1\<close>: it is done.
  A new row gets the number after the largest one, and the row number is cut to an \<open>int\<close>.\<close>

definition next_rowid :: "group_row list \<Rightarrow> int" where
  "next_rowid rows = foldr (\<lambda>r n. max (gr_id r) n) rows 0 + 1"

definition to_int32 :: "int \<Rightarrow> int" where
  "to_int32 n = sint (word_of_int n :: 32 word)"

definition handle_chat_group_create :: "layouts \<Rightarrow> 'u services \<Rightarrow> handler_env \<Rightarrow> byte list \<Rightarrow> 'u server \<Rightarrow> (int \<times> 'u server) outcome" where
  "handle_chat_group_create Y S e data w =
     (if \<not> message_check_permission S w (c_user_id (sw_conn w)) ''group.create'' then Done (-2, w)
      else if he_sql e 0 \<and> length data < ly_size Y Group_Create_Msg then Undefined_Behaviour
      else (case ly_create Y data of (name, description) \<Rightarrow>
        let done = he_sql e 0 \<and> he_sql e 1;
            rowid = next_rowid (sw_groups w);
            w1 = (if done then w\<lparr>sw_groups := sw_groups w @ [\<lparr>gr_id = rowid, gr_name = name, gr_description = description,
                    gr_creator = c_user_id (sw_conn w), gr_created = he_now e 0\<rparr>]\<rparr> else w);
            group_id = (if done then to_int32 rowid else -1)
        in Done (message_send_response e w1 CHAT_GROUP_CREATE_RESPONSE
             (if group_id > 0 then Response 0 (On_Chat Group_Created) (Group_Id group_id) else Response (-1) (On_Chat Group_Not_Created) No_Data))))"

text \<open>\<open>he_sql 0\<close> and \<open>he_sql 1\<close>: the count, \<open>he_sql 2\<close> and \<open>he_sql 3\<close>: the insertion.\<close>

definition is_member :: "32 word \<Rightarrow> 64 word \<Rightarrow> member_row \<Rightarrow> bool" where
  "is_member g u r \<longleftrightarrow> mb_group r = g \<and> mb_user r = u"

definition handle_chat_group_join :: "layouts \<Rightarrow> handler_env \<Rightarrow> byte list \<Rightarrow> 'u server \<Rightarrow> (int \<times> 'u server) outcome" where
  "handle_chat_group_join Y e data w =
     (if length data < ly_size Y Group_Join_Msg then Done (-1, w)
      else
        let g = ly_group Y data; u = c_user_id (sw_conn w);
            already_member = (he_sql e 0 \<and> he_sql e 1 \<and> length (filter (is_member g u) (sw_members w)) > 0)
        in if already_member then Done (message_send_response e w CHAT_GROUP_JOIN_RESPONSE (Response 0 (On_Chat Already_In_Group) No_Data))
           else if he_sql e 2 \<and> he_sql e 3 then
             Done (message_send_response e (w\<lparr>sw_members := sw_members w @ [\<lparr>mb_group = g, mb_user = u, mb_joined = he_now e 0\<rparr>]\<rparr>)
               CHAT_GROUP_JOIN_RESPONSE (Response 0 (On_Chat Group_Joined) No_Data))
           else Done (message_send_response e w CHAT_GROUP_JOIN_RESPONSE (Response (-1) (On_Chat Group_Not_Joined) No_Data)))"

definition handle_chat_group_leave :: "layouts \<Rightarrow> handler_env \<Rightarrow> byte list \<Rightarrow> 'u server \<Rightarrow> (int \<times> 'u server) outcome" where
  "handle_chat_group_leave Y e data w =
     (if length data < ly_size Y Group_Leave_Msg then Done (-1, w)
      else
        let g = ly_group Y data; u = c_user_id (sw_conn w)
        in if he_sql e 0 \<and> he_sql e 1 then
             Done (message_send_response e (w\<lparr>sw_members := filter (\<lambda>r. \<not> is_member g u r) (sw_members w)\<rparr>)
               CHAT_GROUP_LEAVE_RESPONSE (Response 0 (On_Chat Group_Left) No_Data))
           else Done (message_send_response e w CHAT_GROUP_LEAVE_RESPONSE (Response (-1) (On_Chat Group_Not_Left) No_Data)))"

section \<open>Files\<close>

text \<open>In \<open>file_transfer_request_t\<close> the sender is at byte 8, the receiver at 16, the metadata at 24 and the file size in it at 680. The limit is a signed
  \<open>int\<close> that the comparison widens to 64 bits.\<close>

definition handle_file_upload_request :: "'u services \<Rightarrow> handler_env \<Rightarrow> byte list \<Rightarrow> 'u server \<Rightarrow> (int \<times> 'u server) outcome" where
  "handle_file_upload_request S e data w =
     (let sender = of_nat (field 8 8 data) :: 64 word; receiver = of_nat (field 16 8 data) :: 64 word; file_size = of_nat (field 680 8 data) :: 64 word
      in if length data < sizeof_request then Done (-1, w)
         else if sender \<noteq> c_user_id (sw_conn w) then Done (-2, w)
         else if file_size > scast (sw_max_file_size w) then
           Done (message_send_response e w FILE_UPLOAD_REQUEST_RESPONSE (Response (-1) (On_File (File_Too_Large (sw_max_file_size w))) No_Data))
         else (case sv_create_upload S (sw_state w) sender receiver (take 751 (drop 24 data)) of (r, i, u1) \<Rightarrow>
           Done (message_send_response e (w\<lparr>sw_state := u1\<rparr>) FILE_UPLOAD_REQUEST_RESPONSE
             (if r = 0 then Response 0 (On_File Upload_Accepted) (Transfer_Id i) else Response r (On_File Upload_Refused) No_Data))))"

definition file_name_part :: "string \<Rightarrow> string" where
  "file_name_part path = take 255 (case strrchr path (CHR ''/'') of Some i \<Rightarrow> drop (Suc i) path | None \<Rightarrow> path)"

definition handle_file_download_request :: "layouts \<Rightarrow> 'u services \<Rightarrow> handler_env \<Rightarrow> byte list \<Rightarrow> 'u server \<Rightarrow> (int \<times> 'u server) outcome" where
  "handle_file_download_request Y S e data w =
     (if length data < ly_size Y Download_Request then Done (-1, w)
      else if \<not> message_check_permission S w (c_user_id (sw_conn w)) ''file.download'' then Done (-2, w)
      else (case ly_download Y data of (transfer_id, receiver) \<Rightarrow>
        let row = (if he_sql e 0 \<and> he_sql e 1 then find (\<lambda>r. tr_id r = transfer_id) (sw_transfers w) else None)
        in case Option.bind row (\<lambda>r. map_option (\<lambda>p. (take 511 p, tr_size r)) (tr_path r)) of
             None \<Rightarrow> Done (message_send_response e w FILE_DOWNLOAD_REQUEST_RESPONSE (Response (-2) (On_File Transfer_Unknown) No_Data))
           | Some (path, n) \<Rightarrow>
               if \<not> he_file e path
               then Done (message_send_response e w FILE_DOWNLOAD_REQUEST_RESPONSE (Response (-3) (On_File File_Missing) No_Data))
               else (case sv_create_download S (sw_state w) (c_user_id (sw_conn w)) receiver (file_name_part path) n (he_now e 0) path of (r, i, u1) \<Rightarrow>
                 Done (message_send_response e (w\<lparr>sw_state := u1\<rparr>) FILE_DOWNLOAD_REQUEST_RESPONSE
                   (if r = 0 then Response 0 (On_File Download_Accepted) (Transfer_Id i) else Response r (On_File Download_Refused) No_Data)))))"

definition handle_file_transfer_cancel :: "layouts \<Rightarrow> 'u services \<Rightarrow> handler_env \<Rightarrow> byte list \<Rightarrow> 'u server \<Rightarrow> (int \<times> 'u server) outcome" where
  "handle_file_transfer_cancel Y S e data w =
     (if length data < ly_size Y Cancel_Request then Done (-1, w)
      else (case sv_cancel S (sw_state w) (ly_cancel Y data) of (r, u1) \<Rightarrow>
        Done (message_send_response e (w\<lparr>sw_state := u1\<rparr>) FILE_TRANSFER_CANCEL_RESPONSE
          (if r = 0 then Response 0 (On_File Transfer_Cancelled) No_Data else Response r (On_File Transfer_Not_Cancelled) No_Data))))"

definition handle_file_transfer_status :: "layouts \<Rightarrow> 'u services \<Rightarrow> handler_env \<Rightarrow> 32 word \<Rightarrow> byte list \<Rightarrow> 'u server \<Rightarrow> (int \<times> 'u server) outcome" where
  "handle_file_transfer_status Y S e t data w =
     (if t = FILE_PROGRESS_UPDATE then
        (if length data < ly_size Y Transfer_Status then Done (-1, w)
         else (case ly_status Y data of (transfer_id, progress, status) \<Rightarrow>
           (case sv_transfer_update S (sw_state w) transfer_id progress status of (r, u1) \<Rightarrow>
             let w1 = w\<lparr>sw_state := u1\<rparr> in
             if r \<noteq> 0 then Done (r, w1)
             else if status = 2 \<and> he_sql e 0 \<and> he_sql e 1 then
               Done (0, w1\<lparr>sw_transfers := map (\<lambda>x. if tr_id x = transfer_id then x\<lparr>tr_status := status, tr_progress := progress, tr_end := he_now e 0\<rparr> else x)
                              (sw_transfers w1)\<rparr>)
             else Done (0, w1))))
      else if length data < 8 then Done (-1, w)
      else (case sv_transfer_status S (sw_state w) (of_nat (field 0 8 data)) of (r, status) \<Rightarrow>
        Done (message_send_response e w FILE_TRANSFER_STATUS_RESPONSE
          (if r = 0 then Response 0 (On_File Status_Found) (Bytes status) else Response r (On_File Status_Not_Found) No_Data))))"

section \<open>Users\<close>

text \<open>The request is read without a check of its size in the handler.\<close>

definition handle_user_list_request :: "layouts \<Rightarrow> 'u services \<Rightarrow> handler_env \<Rightarrow> byte list \<Rightarrow> 'u server \<Rightarrow> (int \<times> 'u server) outcome" where
  "handle_user_list_request Y S e data w =
     (if length data < ly_size Y List_Request then Undefined_Behaviour
      else (case ly_list Y data of (online_only, lo, hi, limit) \<Rightarrow>
        (case sv_get_users S (sw_state w) online_only lo hi limit of (r, users) \<Rightarrow>
          Done (message_send_response e w USER_LIST_GET_RESPONSE
            (if r = 0 \<and> users \<noteq> [] then
               (if he_alloc e then Response 0 (On_User Users_Listed) (Accounts users) else Response (-1) (On_User Out_Of_Memory) No_Data)
             else if users = [] then Response 0 (On_User No_Users) No_Data
             else Response r (On_User Users_Not_Listed) No_Data)))))"

definition handle_user_status_update :: "layouts \<Rightarrow> 'u services \<Rightarrow> handler_env \<Rightarrow> byte list \<Rightarrow> 'u server \<Rightarrow> (int \<times> 'u server) outcome" where
  "handle_user_status_update Y S e data w =
     (if length data < ly_size Y Status_Update then Done (-1, w)
      else (case ly_ustatus Y data of (target, status, status_message) \<Rightarrow>
        if target \<noteq> c_user_id (sw_conn w) \<and> \<not> message_check_permission S w (c_user_id (sw_conn w)) ''user.status.update'' then Done (-2, w)
        else (case sv_update_status S (sw_state w) target status status_message of (r, u1) \<Rightarrow>
          let w1 = w\<lparr>sw_state := u1\<rparr> in
          if r = 0 then
            let w2 = (if target = c_user_id (sw_conn w) then
                        (case sv_get_user_info S u1 target of (q, acc) \<Rightarrow>
                           if q = 0 then w1\<lparr>sw_broadcasts := sw_broadcasts w1 @ [(USER_STATUS_UPDATE, Inl acc, target)]\<rparr> else w1)
                      else w1)
            in Done (message_send_response e w2 USER_STATUS_UPDATE_RESPONSE (Response 0 (On_User Status_Updated) No_Data))
          else Done (message_send_response e w1 USER_STATUS_UPDATE_RESPONSE (Response r (On_User Status_Not_Updated) No_Data)))))"

definition handle_user_profile_get :: "'u services \<Rightarrow> handler_env \<Rightarrow> byte list \<Rightarrow> 'u server \<Rightarrow> (int \<times> 'u server) outcome" where
  "handle_user_profile_get S e data w =
     (if length data < 8 then Done (-1, w)
      else (case sv_get_user_info S (sw_state w) (of_nat (field 0 8 data)) of (r, acc) \<Rightarrow>
        Done (message_send_response e w USER_PROFILE_GET_RESPONSE
          (if r = 0 then Response 0 (On_User Profile_Found) (Account acc) else Response r (On_User Profile_Not_Found) No_Data))))"

definition handle_user_profile_update :: "layouts \<Rightarrow> 'u services \<Rightarrow> handler_env \<Rightarrow> byte list \<Rightarrow> 'u server \<Rightarrow> (int \<times> 'u server) outcome" where
  "handle_user_profile_update Y S e data w =
     (if length data < ly_size Y Profile_Update then Done (-1, w)
      else (case ly_profile Y data of (target, nickname, email, avatar) \<Rightarrow>
        if target \<noteq> c_user_id (sw_conn w) \<and> \<not> message_check_permission S w (c_user_id (sw_conn w)) ''user.profile.update'' then Done (-2, w)
        else (case sv_update_profile S (sw_state w) target nickname email avatar of (r, u1) \<Rightarrow>
          Done (message_send_response e (w\<lparr>sw_state := u1\<rparr>) USER_PROFILE_UPDATE_RESPONSE
            (if r = 0 then Response 0 (On_User Profile_Updated) No_Data else Response r (On_User Profile_Not_Updated) No_Data)))))"

section \<open>System messages\<close>

definition handle_system_heartbeat :: "handler_env \<Rightarrow> 32 word \<Rightarrow> 'u server \<Rightarrow> (int \<times> 'u server) outcome" where
  "handle_system_heartbeat e t w =
     (let c = (the (connection_update_activity (he_now e 0) (Some (sw_conn w))))\<lparr>c_last_heartbeat := he_now e 1\<rparr>;
          w1 = w\<lparr>sw_conn := c\<rparr>; now = he_now e 2
      in Done (if t = SYSTEM_HEARTBEAT then message_send_response e w1 SYSTEM_HEARTBEAT_RESPONSE (Timestamp now)
               else message_send_response e w1 SYSTEM_INFO_RESPONSE
                 (System_Information now (now - sw_startup_time w) (sw_active_connections w) (sw_total_connections w))))"

definition handle_system_notification :: "byte list \<Rightarrow> 'u server \<Rightarrow> (int \<times> 'u server) outcome" where
  "handle_system_notification data w =
     Done (0, w\<lparr>sw_broadcasts := sw_broadcasts w @ [(SYSTEM_NOTIFICATION, Inr data, c_user_id (sw_conn w))]\<rparr>)"

definition handle_system_error :: "byte list \<Rightarrow> 'u server \<Rightarrow> (int \<times> 'u server) outcome" where
  "handle_system_error data w =
     (if length data < sizeof_error_info then Done (-1, w)
      else if sint (of_nat (field 0 4 data) :: 32 word) \<ge> 1000 then
        (case connection_close (Some (sw_conn w)) False of (_, c, fds) \<Rightarrow> Done (-1, w\<lparr>sw_conn := the c, sw_closed := sw_closed w @ fds\<rparr>))
      else Done (0, w))"

definition handle_system_shutdown :: "'u services \<Rightarrow> handler_env \<Rightarrow> 'u server \<Rightarrow> (int \<times> 'u server) outcome" where
  "handle_system_shutdown S e w =
     (if \<not> message_check_permission S w (c_user_id (sw_conn w)) ''system.shutdown'' then Done (-2, w)
      else (case message_send_response e w SYSTEM_SHUTDOWN_RESPONSE (Response 0 (On_User Shutting_Down) No_Data) of (r, w1) \<Rightarrow>
        Done (r, if r = 0 then w1\<lparr>sw_stops := sw_stops w1 + 1\<rparr> else w1)))"

section \<open>Dispatch\<close>

definition run_handler :: "layouts \<Rightarrow> 'u services \<Rightarrow> handler_env \<Rightarrow> handler_fun \<Rightarrow> 32 word \<Rightarrow> byte list \<Rightarrow> 'u server \<Rightarrow> (int \<times> 'u server) outcome" where
  "run_handler Y S e h t data w =
     (case h of H_auth_login \<Rightarrow> handle_auth_login Y S e t data w | H_auth_logout \<Rightarrow> handle_auth_logout S e w
      | H_auth_register \<Rightarrow> handle_auth_register Y S e data w | H_chat_text_send \<Rightarrow> handle_chat_text_send S e data w
      | H_chat_text_receive \<Rightarrow> handle_chat_text_receive w | H_group_create \<Rightarrow> handle_chat_group_create Y S e data w
      | H_group_join \<Rightarrow> handle_chat_group_join Y e data w | H_group_leave \<Rightarrow> handle_chat_group_leave Y e data w
      | H_upload_request \<Rightarrow> handle_file_upload_request S e data w | H_download_request \<Rightarrow> handle_file_download_request Y S e data w
      | H_transfer_cancel \<Rightarrow> handle_file_transfer_cancel Y S e data w | H_transfer_status \<Rightarrow> handle_file_transfer_status Y S e t data w
      | H_user_list \<Rightarrow> handle_user_list_request Y S e data w | H_status_update \<Rightarrow> handle_user_status_update Y S e data w
      | H_profile_get \<Rightarrow> handle_user_profile_get S e data w | H_profile_update \<Rightarrow> handle_user_profile_update Y S e data w
      | H_heartbeat \<Rightarrow> handle_system_heartbeat e t w | H_notification \<Rightarrow> handle_system_notification data w
      | H_error \<Rightarrow> handle_system_error data w | H_shutdown \<Rightarrow> handle_system_shutdown S e w)"

text \<open>\<open>log\<close> gives the outcome of the insertion and the clock for the two audit records. A missing manager, server, connection or message is refused with \<open>-1\<close>.\<close>

definition message_handler_process :: "layouts \<Rightarrow> 'u services \<Rightarrow> handler_env \<Rightarrow> (nat \<Rightarrow> bool \<times> 64 word) \<Rightarrow> handler_manager \<Rightarrow> 32 word \<Rightarrow> byte list \<Rightarrow>
    'u server \<Rightarrow> (int \<times> handler_manager \<times> 'u server) outcome" where
  "message_handler_process Y S e log mgr t data w =
     (if data = [] then Done (-1, mgr, w)
      else (case find_handler mgr t of
        None \<Rightarrow> Done (-2, update_statistics mgr False False False, w)
      | Some entry \<Rightarrow>
          if \<not> message_validate_integrity Y data t
          then Done (-3, mgr\<lparr>hm_stats := (hm_stats mgr)\<lparr>st_invalid := st_invalid (hm_stats mgr) + 1\<rparr>\<rparr>, w)
          else (case validate_message_auth mgr (sw_conn w) entry of (a, mgr1) \<Rightarrow>
            if \<not> a then Done (-4, mgr1, w)
            else (case validate_message_encryption mgr1 (sw_conn w) entry of (b, mgr2) \<Rightarrow>
              if \<not> b then Done (-5, mgr2, w)
              else obind (run_handler Y S e (en_handler entry) t data (message_log_audit (fst (log 0)) (snd (log 0)) w t Received)) (\<lambda>(r, w1).
                Done (r, update_statistics mgr2 (r = 0) False False,
                      message_log_audit (fst (log 1)) (snd (log 1)) w1 t (if r = 0 then Succeeded else Rejected)))))))"


section \<open>The table as a registry\<close>

text \<open>What a type is bound to: function, authentication, encryption.\<close>

definition handler_of :: "handler_manager \<Rightarrow> 32 word \<Rightarrow> (handler_fun \<times> bool \<times> bool) option" where
  "handler_of m t = map_option (\<lambda>e. (en_handler e, en_auth e, en_encryption e)) (find_handler m t)"

definition add_handler :: "32 word \<Rightarrow> handler_fun \<times> bool \<times> bool \<Rightarrow> handler_manager \<Rightarrow> handler_manager" where
  "add_handler t = (\<lambda>(h, a, c) m. the (snd (message_handler_register True (Some m) t (Some h) a c)))"

lemma handler_of_Cons: "handler_of (m\<lparr>hm_handlers := e # es\<rparr>) =
    (handler_of (m\<lparr>hm_handlers := es\<rparr>))(en_type e \<mapsto> (en_handler e, en_auth e, en_encryption e))"
  by (auto simp: handler_of_def find_handler_def fun_eq_iff)

interpretation handlers: registry handler_of add_handler
proof
  fix m :: handler_manager and k :: "32 word" and v :: "handler_fun \<times> bool \<times> bool"
  obtain h a c where v: "v = (h, a, c)" by (cases v)
  show "handler_of (add_handler k v m) = (handler_of m)(k \<mapsto> v)" if "handler_of m k = None"
    using that v handler_of_Cons [where m = m and e = "\<lparr>en_type = k, en_handler = h, en_auth = a, en_encryption = c\<rparr>" and es = "hm_handlers m"]
    by (auto simp: add_handler_def message_handler_register_def handler_of_def)
  show "add_handler k v m = m" if "handler_of m k \<noteq> None"
    using that v by (auto simp: add_handler_def message_handler_register_def handler_of_def)
qed

lemma register_default_adds:
  "register_default_handlers ok (Some m) =
     Some (foldl (\<lambda>m (k, v). add_handler k v m) m (map snd (filter (\<lambda>(n, _). ok n) (enumerate 0 default_handlers))))"
proof -
  have "foldl (\<lambda>m (n, t, h, a, c). snd (message_handler_register (ok n) m t (Some h) a c)) (Some m) ds =
      Some (foldl (\<lambda>m (k, v). add_handler k v m) m (map snd (filter (\<lambda>(n, _). ok n) ds)))" for ds
  proof (induction ds arbitrary: m)
    case (Cons d ds)
    obtain n t h a c where d: "d = (n, t, h, a, c)" by (cases d)
    have "snd (message_handler_register (ok n) (Some m) t (Some h) a c) = Some (if ok n then add_handler t (h, a, c) m else m)"
      by (auto simp: message_handler_register_def add_handler_def)
    then show ?case using Cons.IH d by simp
  qed simp
  then show ?thesis by (simp only: register_default_handlers_def)
qed

lemma create_handlers:
  assumes "message_handler_manager_create alloc mutex ok = Some m"
  shows "handler_of m = map_of (map snd (filter (\<lambda>(n, _). ok n) (enumerate 0 default_handlers)))"
proof -
  let ?m = "\<lparr>hm_handlers = [], hm_stats = zero_stats\<rparr>"
  have "handler_of ?m = Map.empty" by (simp add: fun_eq_iff handler_of_def find_handler_def)
  then show ?thesis
    using assms handlers.lk_adds [of ?m] by (auto simp: message_handler_manager_create_def register_default_adds split: if_splits)
qed

lemma created_in_defaults:
  assumes "message_handler_manager_create alloc mutex ok = Some m" "find_handler m t = Some e"
  shows "(t, en_handler e, en_auth e, en_encryption e) \<in> set default_handlers"
proof -
  have "handler_of m t = Some (en_handler e, en_auth e, en_encryption e)" using assms(2) by (simp add: handler_of_def)
  then have "(t, en_handler e, en_auth e, en_encryption e) \<in> snd ` set (enumerate 0 default_handlers)"
    unfolding create_handlers [OF assms(1)] by (auto dest!: map_of_SomeD)
  then show ?thesis by (metis set_map map_snd_enumerate)
qed


end
