(* ===== verification/Message_Dispatch.thy ===== *)
theory Message_Dispatch
  imports Message_Handler
begin

text \<open>
  What the dispatcher and the handlers of \<open>Message_Handler\<close> guarantee: who reaches a handler, the statistics, group membership as a relation, the
  delivery of text messages.
\<close>

section \<open>Who may reach a handler\<close>

lemma process_guard:
  assumes "\<forall>r mgr'. message_handler_process Y S e log mgr t data w \<noteq> Done (r, mgr', w)"
  shows "\<exists>entry. find_handler mgr t = Some entry \<and> (en_auth entry \<longrightarrow> c_state (sw_conn w) = Conn_Authenticated) \<and>
    (en_encryption entry \<longrightarrow> c_encryption (sw_conn w))"
  using assms by (auto simp: message_handler_process_def validate_message_auth_def validate_message_encryption_def split: option.splits if_splits)

text \<open>
  (C24) The guards of the dispatcher. With the default handlers, of which any may be missing for want of memory, a message has an effect on the server only if
  its type is one of the 23 known ones and the connection satisfies what the type requires: before the login only login, registration,
  heartbeat and error reports get through, and without encryption only the ten types that do not ask for it. (No effect: the dispatcher returns and
  leaves the server as it was.)
\<close>

theorem dispatch_guarded:
  assumes "message_handler_manager_create alloc mutex ok = Some mgr"
    and "\<forall>r mgr'. message_handler_process Y S e log mgr t data w \<noteq> Done (r, mgr', w)"
  shows "t \<in> {AUTH_LOGIN, AUTH_LOGOUT, AUTH_REGISTER, AUTH_TOKEN_REFRESH, CHAT_TEXT_SEND, CHAT_TEXT_RECEIVE, CHAT_GROUP_CREATE, CHAT_GROUP_JOIN,
      CHAT_GROUP_LEAVE, FILE_UPLOAD_REQUEST, FILE_DOWNLOAD_REQUEST, FILE_TRANSFER_CANCEL, FILE_TRANSFER_STATUS, FILE_PROGRESS_UPDATE, USER_LIST_GET,
      USER_STATUS_UPDATE, USER_PROFILE_GET, USER_PROFILE_UPDATE, SYSTEM_HEARTBEAT, SYSTEM_NOTIFICATION, SYSTEM_ERROR, SYSTEM_SHUTDOWN, SYSTEM_INFO} \<and>
    (c_state (sw_conn w) \<noteq> Conn_Authenticated \<longrightarrow> t \<in> {AUTH_LOGIN, AUTH_REGISTER, SYSTEM_HEARTBEAT, SYSTEM_ERROR}) \<and>
    (\<not> c_encryption (sw_conn w) \<longrightarrow> t \<in> {AUTH_LOGIN, AUTH_LOGOUT, AUTH_REGISTER, FILE_TRANSFER_CANCEL, FILE_TRANSFER_STATUS, USER_LIST_GET,
       SYSTEM_HEARTBEAT, SYSTEM_NOTIFICATION, SYSTEM_ERROR, SYSTEM_INFO})"
proof -
  obtain entry where en: "find_handler mgr t = Some entry" "en_auth entry \<longrightarrow> c_state (sw_conn w) = Conn_Authenticated"
    "en_encryption entry \<longrightarrow> c_encryption (sw_conn w)" using process_guard [OF assms(2)] by blast
  have "(t, en_handler entry, en_auth entry, en_encryption entry) \<in> set default_handlers" by (rule created_in_defaults [OF assms(1) en(1)])
  then show ?thesis using en(2,3) by (auto simp: default_handlers_def)
qed

section \<open>Statistics\<close>

fun process_all :: "layouts \<Rightarrow> 'u services \<Rightarrow> (handler_env \<times> (nat \<Rightarrow> bool \<times> 64 word) \<times> 32 word \<times> byte list) list \<Rightarrow> handler_manager \<Rightarrow> 'u server \<Rightarrow>
    (int list \<times> handler_manager \<times> 'u server) outcome" where
  "process_all Y S [] mgr w = Done ([], mgr, w)"
| "process_all Y S ((e, log, t, data) # ms) mgr w =
     obind (message_handler_process Y S e log mgr t data w) (\<lambda>(r, mgr1, w1).
     obind (process_all Y S ms mgr1 w1) (\<lambda>(rs, mgr2, w2). Done (r # rs, mgr2, w2)))"

lemma update_statistics_sums:
  "st_processed (hm_stats (update_statistics m s a c)) = st_processed (hm_stats m) + (if s then 1 else 0)"
  "st_failed (hm_stats (update_statistics m s a c)) = st_failed (hm_stats m) + (if s then 0 else 1)"
  "st_invalid (hm_stats (update_statistics m s a c)) = st_invalid (hm_stats m)"
  "hm_handlers (update_statistics m s a c) = hm_handlers m"
  by (simp_all add: update_statistics_def Let_def)

lemma process_statistics:
  assumes "message_handler_process Y S e log mgr t data w = Done (r, mgr1, w1)" "data \<noteq> []"
  shows "st_processed (hm_stats mgr1) = st_processed (hm_stats mgr) + (if r = 0 then 1 else 0) \<and>
    st_failed (hm_stats mgr1) + st_invalid (hm_stats mgr1) = st_failed (hm_stats mgr) + st_invalid (hm_stats mgr) + (if r = 0 then 0 else 1) \<and>
    hm_handlers mgr1 = hm_handlers mgr"
  using assms
  by (auto simp: message_handler_process_def validate_message_auth_def validate_message_encryption_def update_statistics_sums obind_Done
      split: option.splits if_splits prod.splits)

text \<open>
  The dispatcher accounts for every message: after any number of messages with a body, the counter of processed messages has grown by the number of results 0,
  the counters of failed and invalid messages together by the number of the others, modulo the width of the counters; the table of
  handlers has not changed.
\<close>

theorem messages_accounted:
  assumes "process_all Y S ms mgr w = Done (rs, mgr1, w1)" and "\<forall>(e, log, t, data) \<in> set ms. data \<noteq> []"
  shows "length rs = length ms \<and> st_processed (hm_stats mgr1) = st_processed (hm_stats mgr) + of_nat (length (filter (\<lambda>r. r = 0) rs)) \<and>
    st_failed (hm_stats mgr1) + st_invalid (hm_stats mgr1) = st_failed (hm_stats mgr) + st_invalid (hm_stats mgr) + of_nat (length (filter (\<lambda>r. r \<noteq> 0) rs)) \<and>
    hm_handlers mgr1 = hm_handlers mgr"
  using assms
proof (induction ms arbitrary: mgr w rs)
  case (Cons m ms)
  obtain e log t data where m: "m = (e, log, t, data)" by (cases m)
  obtain r mgr2 w2 rs2 where p: "message_handler_process Y S e log mgr t data w = Done (r, mgr2, w2)"
    "process_all Y S ms mgr2 w2 = Done (rs2, mgr1, w1)" "rs = r # rs2"
    using Cons.prems(1) m by (auto simp: obind_Done)
  have "data \<noteq> []" "\<forall>(e, log, t, data) \<in> set ms. data \<noteq> []" using Cons.prems(2) m by auto
  then show ?case using process_statistics [OF p(1)] Cons.IH [OF p(2)] p(3) by auto
qed simp

section \<open>Groups\<close>

definition member_key :: "member_row \<Rightarrow> 32 word \<times> 64 word" where
  "member_key r = (mb_group r, mb_user r)"

definition insert_member :: "member_row \<Rightarrow> member_row list \<Rightarrow> member_row list option" where
  "insert_member r rows = (if sql_count (is_member (mb_group r) (mb_user r)) rows > 0 then None else Some (rows @ [r]))"

interpretation members: unique_column insert_member member_key
  by unfold_locales (auto simp: insert_member_def sql_count_def is_member_def member_key_def filter_empty_conv split: if_splits)

datatype group_command = Join client_connection handler_env "byte list" | Leave client_connection handler_env "byte list"

definition group_step :: "layouts \<Rightarrow> group_command \<Rightarrow> 'u server \<Rightarrow> (int \<times> 'u server) outcome" where
  "group_step Y cmd w = (case cmd of Join c e data \<Rightarrow> handle_chat_group_join Y e data (w\<lparr>sw_conn := c\<rparr>)
     | Leave c e data \<Rightarrow> handle_chat_group_leave Y e data (w\<lparr>sw_conn := c\<rparr>))"

fun group_run :: "layouts \<Rightarrow> group_command list \<Rightarrow> 'u server \<Rightarrow> 'u server outcome" where
  "group_run Y [] w = Done w"
| "group_run Y (cmd # cmds) w = obind (group_step Y cmd w) (\<lambda>(_, w1). group_run Y cmds w1)"

text \<open>Membership as a relation between groups and users.\<close>

definition group_spec :: "layouts \<Rightarrow> group_command \<Rightarrow> (32 word \<times> 64 word) set \<Rightarrow> (32 word \<times> 64 word) set" where
  "group_spec Y cmd R = (case cmd of
     Join c e data \<Rightarrow> if length data \<ge> ly_size Y Group_Join_Msg \<and> he_sql e 2 \<and> he_sql e 3 then insert (ly_group Y data, c_user_id c) R else R
   | Leave c e data \<Rightarrow> if length data \<ge> ly_size Y Group_Leave_Msg \<and> he_sql e 0 \<and> he_sql e 1 then R - {(ly_group Y data, c_user_id c)} else R)"

definition count_works :: "group_command \<Rightarrow> bool" where
  "count_works cmd = (case cmd of Join c e data \<Rightarrow> he_sql e 0 \<and> he_sql e 1 | Leave c e data \<Rightarrow> True)"

lemma member_filter: "filter (is_member g u) rows = [] \<longleftrightarrow> (g, u) \<notin> member_key ` set rows"
  by (auto simp: filter_empty_conv is_member_def member_key_def)

lemma distinct_leave: "distinct (map member_key rows) \<Longrightarrow> distinct (map member_key (filter P rows))"
  by (induction rows) auto

lemma join_refines:
  assumes "distinct (map member_key (sw_members w))" "he_sql e 0" "he_sql e 1"
  shows "\<exists>r w1. handle_chat_group_join Y e data (w\<lparr>sw_conn := c\<rparr>) = Done (r, w1) \<and> distinct (map member_key (sw_members w1)) \<and>
    member_key ` set (sw_members w1) = group_spec Y (Join c e data) (member_key ` set (sw_members w))"
proof (cases "filter (is_member (ly_group Y data) (c_user_id c)) (sw_members w) = []")
  case True
  then show ?thesis
    using assms members.distinct_ins [OF assms(1), of "\<lparr>mb_group = ly_group Y data, mb_user = c_user_id c, mb_joined = he_now e 0\<rparr>"] member_filter [of "ly_group Y data" "c_user_id c"]
    by (auto simp: handle_chat_group_join_def message_send_response_def group_spec_def Let_def member_key_def insert_member_def sql_count_def)
next
  case False
  then show ?thesis using assms member_filter [of "ly_group Y data" "c_user_id c" "sw_members w"]
    by (auto simp: handle_chat_group_join_def message_send_response_def group_spec_def Let_def insert_absorb)
qed

lemma leave_refines:
  assumes "distinct (map member_key (sw_members w))"
  shows "\<exists>r w1. handle_chat_group_leave Y e data (w\<lparr>sw_conn := c\<rparr>) = Done (r, w1) \<and> distinct (map member_key (sw_members w1)) \<and>
    member_key ` set (sw_members w1) = group_spec Y (Leave c e data) (member_key ` set (sw_members w))"
  using distinct_leave [OF assms] assms
  by (auto simp: handle_chat_group_leave_def message_send_response_def group_spec_def Let_def is_member_def member_key_def)

lemma group_step_refines:
  assumes "distinct (map member_key (sw_members w))" "count_works cmd"
  shows "\<exists>r w1. group_step Y cmd w = Done (r, w1) \<and> distinct (map member_key (sw_members w1)) \<and>
    member_key ` set (sw_members w1) = group_spec Y cmd (member_key ` set (sw_members w))"
proof (cases cmd)
  case (Join c e data)
  then show ?thesis using join_refines [OF assms(1)] assms(2) by (simp add: group_step_def count_works_def)
next
  case (Leave c e data)
  then show ?thesis using leave_refines [OF assms(1)] by (simp add: group_step_def)
qed

text \<open>
  (C25) Joining and leaving groups implements a relation. Beginning with memberships without duplicates, for any sequence of requests from any connections in which
  the statement that counts the memberships succeeds in every request to join, whatever happens to the other statements, every request returns, no user is
  twice in a group, and the memberships are those that the successful insertions and deletions describe. (Where the count fails the
  handler inserts without knowing; only a constraint of the table, which answers the insertion with an error, then keeps the pair unique.)
\<close>

theorem group_membership_refines:
  assumes "distinct (map member_key (sw_members w))" "\<forall>cmd \<in> set cmds. count_works cmd"
  shows "\<exists>w1. group_run Y cmds w = Done w1 \<and> distinct (map member_key (sw_members w1)) \<and>
    member_key ` set (sw_members w1) = fold (group_spec Y) cmds (member_key ` set (sw_members w))"
  using assms
proof (induction cmds arbitrary: w)
  case (Cons cmd cmds)
  obtain r w1 where w1: "group_step Y cmd w = Done (r, w1)" "distinct (map member_key (sw_members w1))"
    "member_key ` set (sw_members w1) = group_spec Y cmd (member_key ` set (sw_members w))"
    using group_step_refines [OF Cons.prems(1)] Cons.prems(2) by (metis list.set_intros(1))
  then show ?case using Cons.IH [OF w1(2)] Cons.prems(2) by simp
qed simp

section \<open>Text messages\<close>

lemma broadcast_all: "n \<le> length ids \<Longrightarrow> broadcast_loop (map Some ids) n t data w =
    Done (w\<lparr>sw_sent := sw_sent w @ map (\<lambda>u. (u, t, data)) (take n ids)\<rparr>)"
proof (induction ids arbitrary: n w)
  case (Cons u ids)
  then show ?case by (cases n) auto
qed simp

lemma broadcast_hole: "i < n \<Longrightarrow> i < length ids \<Longrightarrow> ids ! i = None \<Longrightarrow> broadcast_loop ids n t data w = Undefined_Behaviour"
proof (induction ids n t data w arbitrary: i rule: broadcast_loop.induct)
  case (2 u ids n t data w)
  then show ?case by (cases i) auto
qed auto

lemma broadcast_written:
  "user \<notin> ac_id ` set (take n users) \<Longrightarrow>
    broadcast_loop (receiver_slots user users) n t data w = broadcast_loop (map Some (map ac_id users)) n t data w"
proof (induction users arbitrary: n w)
  case (Cons a users)
  then show ?case by (cases n) (auto simp: receiver_slots_def)
qed (simp add: receiver_slots_def)

lemma broadcast_slots:
  assumes "n \<le> length users"
  shows "broadcast_loop (receiver_slots user users) n t data w =
    (if user \<in> ac_id ` set (take n users) then Undefined_Behaviour
     else Done (w\<lparr>sw_sent := sw_sent w @ map (\<lambda>a. (ac_id a, t, data)) (take n users)\<rparr>))"
proof (cases "user \<in> ac_id ` set (take n users)")
  case True
  then obtain i where "i < n" "i < length users" "ac_id (users ! i) = user" by (auto simp: in_set_conv_nth)
  then show ?thesis using True broadcast_hole [of i n "receiver_slots user users" t data w] by (simp add: receiver_slots_def)
next
  case False
  then show ?thesis using broadcast_written [OF False, of t data w] broadcast_all [of n "map ac_id users" t data w] assms by (simp add: take_map comp_def)
qed

lemma broadcast_users:
  assumes "users \<noteq> []" "length users < 2 ^ 64"
  shows "message_broadcast_to_users w (receiver_slots user users) (of_nat (length users) - 1) t data =
    (if user \<in> ac_id ` set (butlast users) then Undefined_Behaviour
     else Done (w\<lparr>sw_sent := sw_sent w @ map (\<lambda>a. (ac_id a, t, data)) (butlast users)\<rparr>))"
proof -
  have "of_nat (length users) - 1 = (of_nat (length users - 1) :: 64 word)" using assms(1) by (simp add: of_nat_diff Suc_leI)
  then have n: "unat (of_nat (length users) - 1 :: 64 word) = length users - 1"
    using assms(2) by (simp add: unat_of_nat take_bit_nat_eq_self)
  then have z: "(of_nat (length users) - 1 = (0 :: 64 word)) = (length users - 1 = 0)" by (metis unat_eq_zero)
  have l: "length (receiver_slots user users) = length users" by (simp add: receiver_slots_def)
  show ?thesis
  proof (cases "length users - 1 = 0")
    case True
    then have "butlast users = []" by (simp add: butlast_conv_take)
    then show ?thesis using True z by (simp add: message_broadcast_to_users_def)
  next
    case False
    have "broadcast_loop (receiver_slots user users) (length users - 1) t data w =
      (if user \<in> ac_id ` set (butlast users) then Undefined_Behaviour
       else Done (w\<lparr>sw_sent := sw_sent w @ map (\<lambda>a. (ac_id a, t, data)) (butlast users)\<rparr>))"
      unfolding butlast_conv_take by (rule broadcast_slots) simp
    then show ?thesis using False z n l by (simp add: message_broadcast_to_users_def)
  qed
qed

text \<open>A message to everybody that satisfies the checks of \<open>handle_chat_text_send\<close>.\<close>

definition text_message :: "64 word \<Rightarrow> 64 word \<Rightarrow> byte list \<Rightarrow> bool" where
  "text_message sender receiver data \<longleftrightarrow> length data \<ge> sizeof_content \<and> of_nat (field 8 8 data) = sender \<and> of_nat (field 16 8 data) = receiver \<and>
     field 109 4 data \<le> MAX_MESSAGE_SIZE"

text \<open>
  A message to everybody does not reach everybody. When the sender stands before the last place of the list of online users, the array of receivers is read where
  it was never written; otherwise exactly the users before the last one get the message, so the last one is left out unless it is the sender. (The message is
  not stored here because the statement cannot be prepared.)
\<close>

theorem broadcast_text_reach:
  assumes "text_message (c_user_id (sw_conn w)) 0 data" "sv_online_users S (sw_state w) = (0, users)" "users \<noteq> []" "length users < 2 ^ 64"
    "he_alloc e" "\<not> he_sql e 0"
  shows "handle_chat_text_send S e data w =
    (if c_user_id (sw_conn w) \<in> ac_id ` set (butlast users) then Undefined_Behaviour
     else Done (he_send e, w\<lparr>sw_sent := sw_sent w @ map (\<lambda>a. (ac_id a, CHAT_TEXT_RECEIVE, data)) (butlast users),
            sw_responses := sw_responses w @ [(CHAT_TEXT_SEND_RESPONSE, Response 0 (On_Chat Message_Sent) No_Data)]\<rparr>))"
  using assms(1,2,5,6) broadcast_users [OF assms(3,4), of w "c_user_id (sw_conn w)" CHAT_TEXT_RECEIVE data]
  by (simp add: handle_chat_text_send_def text_message_def Let_def message_send_response_def)

text \<open>
  A private message to an online user goes to that user once, with the bytes as received, is stored with exactly its content, and is
  acknowledged; but when it announces more content than it brings, storing it reads past its end.
\<close>

theorem private_text_delivered:
  assumes "text_message (c_user_id (sw_conn w)) receiver data" "receiver \<noteq> 0" "sv_is_online S (sw_state w) receiver" "he_sql e 0" "he_sql e 1"
  shows "handle_chat_text_send S e data w =
    (if length data < sizeof_content + field 109 4 data then Undefined_Behaviour
     else Done (he_send e, w\<lparr>sw_sent := sw_sent w @ [(receiver, CHAT_TEXT_RECEIVE, data)],
            sw_messages := sw_messages w @ [\<lparr>ms_sender = c_user_id (sw_conn w), ms_receiver = receiver, ms_type = of_nat (field 32 4 data),
              ms_content = take (field 109 4 data) (drop sizeof_content data), ms_time = he_now e 0\<rparr>],
            sw_responses := sw_responses w @ [(CHAT_TEXT_SEND_RESPONSE, Response 0 (On_Chat Message_Sent) No_Data)]\<rparr>))"
  using assms by (simp add: handle_chat_text_send_def text_message_def Let_def message_send_response_def)

text \<open>Logging out clears the user of the connection before the status is written, so the user manager never hears of it.\<close>

lemma logout_keeps_status: "handle_auth_logout S e w = Done (r, w1) \<Longrightarrow> sw_state w1 = sw_state w \<and> c_user_id (sw_conn w1) = 0"
  by (auto simp: handle_auth_logout_def connection_clear_user_info_def message_send_response_def Let_def split: if_splits)

text \<open>The permissions to change the status and the profile of others are given to every known user.\<close>

lemma everyone_may_update_others:
  "sv_get_user_info S (sw_state w) u = (0, acc) \<Longrightarrow>
    message_check_permission S w u ''user.status.update'' \<and> message_check_permission S w u ''user.profile.update''"
  by (simp add: message_check_permission_def)


section \<open>Instances\<close>

definition small_layouts :: layouts where
  "small_layouts = \<lparr>ly_size = (\<lambda>_. 4), ly_login = (\<lambda>_. ([], [])), ly_register = (\<lambda>_. ([], [], [], [])), ly_create = (\<lambda>_. ([], [])),
     ly_group = (\<lambda>d. of_nat (field 0 4 d)), ly_download = (\<lambda>_. (0, 0)), ly_cancel = (\<lambda>_. 0), ly_status = (\<lambda>_. (0, 0, 0)),
     ly_list = (\<lambda>_. (False, 0, 0, 0)), ly_ustatus = (\<lambda>_. (0, 0, [])), ly_profile = (\<lambda>_. (0, [], [], []))\<rparr>"

definition small_account :: "64 word \<Rightarrow> account" where
  "small_account i = \<lparr>ac_id = i, ac_name = [], ac_nick = [], ac_role = 0\<rparr>"

text \<open>A user manager whose state is the list of the users, all of them online.\<close>

definition small_services :: "64 word list services" where
  "small_services = \<lparr>sv_authenticate = (\<lambda>_ _ _. (0, small_account 1)), sv_create_user = (\<lambda>u _ _ _ _. (0, small_account 1, u)),
     sv_update_status = (\<lambda>u _ _ _. (0, u)), sv_update_profile = (\<lambda>u _ _ _ _. (0, u)), sv_get_user_info = (\<lambda>u i. (0, small_account i)),
     sv_online_users = (\<lambda>u. (0, map small_account u)), sv_is_online = (\<lambda>u i. i \<in> set u), sv_get_users = (\<lambda>u _ _ _ _. (0, map small_account u)),
     sv_create_session = (\<lambda>u _ _. ([], u)), sv_create_upload = (\<lambda>u _ _ _. (0, 1, u)), sv_create_download = (\<lambda>u _ _ _ _ _ _. (0, 1, u)),
     sv_cancel = (\<lambda>u _. (0, u)), sv_transfer_update = (\<lambda>u _ _ _. (0, u)), sv_transfer_status = (\<lambda>u _. (0, [])), sv_role_admin = 2, sv_role_moderator = 1\<rparr>"

definition small_server :: "64 word list \<Rightarrow> client_connection \<Rightarrow> 64 word list server" where
  "small_server users c = \<lparr>sw_state = users, sw_conn = c, sw_responses = [], sw_sent = [], sw_broadcasts = [], sw_groups = [], sw_members = [], sw_messages = [],
     sw_transfers = [], sw_audit = [], sw_audit_file = [], sw_audit_open = False, sw_enable_audit = False, sw_max_file_size = 0, sw_startup_time = 0,
     sw_active_connections = 0, sw_total_connections = 0, sw_closed = [], sw_stops = 0\<rparr>"

definition small_handler_env :: "(nat \<Rightarrow> bool) \<Rightarrow> handler_env" where
  "small_handler_env sql = \<lparr>he_send = 0, he_sql = sql, he_now = (\<lambda>_. 0), he_alloc = True, he_file = (\<lambda>_. True)\<rparr>"

definition user_conn :: "64 word \<Rightarrow> client_connection" where
  "user_conn u = demo_conn\<lparr>c_user_id := u\<rparr>"

text \<open>A text message of \<open>content_length\<close> announced bytes, followed by \<open>content\<close>.\<close>

definition small_text :: "64 word \<Rightarrow> 64 word \<Rightarrow> 32 word \<Rightarrow> byte list \<Rightarrow> byte list" where
  "small_text sender receiver content_length content =
     replicate 8 0 @ le64 sender @ le64 receiver @ replicate 85 0 @ le32 content_length @ content"

lemma bytes_le: "bytes_nat (le64 a) = unat a" "bytes_nat (le32 b) = unat b"
  using unsigned_less [of a, where 'a = nat] unat_lt_32 [of b] by (simp_all add: le64_def le32_def bytes_nat_nat_bytes)

lemma small_text_fields:
  "field 8 8 (small_text s r n c) = unat s" "field 16 8 (small_text s r n c) = unat r" "field 109 4 (small_text s r n c) = unat n"
  "length (small_text s r n c) = sizeof_content + length c"
  by (simp_all add: small_text_def field_def sizeof_content_def bytes_le)

lemma small_simps:
  "sw_conn (small_server us c) = c" "sw_state (small_server us c) = us" "sw_members (small_server us c) = []" "c_user_id (user_conn u) = u"
  "c_state (user_conn u) = Conn_New" "\<not> c_encryption (user_conn u)" "sv_online_users small_services us = (0, map small_account us)"
  "sv_is_online small_services us i = (i \<in> set us)" "ac_id (small_account i) = i" "he_sql (small_handler_env f) = f" "he_alloc (small_handler_env f)"
  "he_send (small_handler_env f) = 0"
  by (simp_all add: small_server_def user_conn_def demo_conn_def small_services_def small_account_def small_handler_env_def)

lemma broadcast_text_reach_witness:
  "\<exists>w1. handle_chat_text_send small_services (small_handler_env (\<lambda>_. False)) (small_text 7 0 0 []) (small_server [5, 6] (user_conn 7)) = Done (0, w1) \<and>
     sw_sent w1 = [(5, CHAT_TEXT_RECEIVE, small_text 7 0 0 [])]"
proof -
  let ?w = "small_server [5, 6] (user_conn 7)"
  have "text_message (c_user_id (sw_conn ?w)) 0 (small_text 7 0 0 [])"
    by (simp add: text_message_def small_text_fields small_simps)
  from broadcast_text_reach [OF this, of small_services "map small_account [5, 6]" "small_handler_env (\<lambda>_. False)"] show ?thesis
    by (simp add: small_simps small_server_def)
qed

lemma private_text_delivered_witness:
  "\<exists>w1. handle_chat_text_send small_services (small_handler_env (\<lambda>_. True)) (small_text 7 5 2 [1, 2]) (small_server [5, 6] (user_conn 7)) = Done (0, w1) \<and>
     map ms_content (sw_messages w1) = [[1, 2]] \<and>
   handle_chat_text_send small_services (small_handler_env (\<lambda>_. True)) (small_text 7 5 3 [1, 2]) (small_server [5, 6] (user_conn 7)) = Undefined_Behaviour"
proof -
  let ?w = "small_server [5, 6] (user_conn 7)"
  have t: "text_message (c_user_id (sw_conn ?w)) 5 (small_text 7 5 n [1, 2])" if "n \<le> 3" for n
    using that unat_mono [of n 4] by (auto simp: text_message_def small_text_fields small_simps word_le_nat_alt)
  have d: "drop sizeof_content (small_text 7 5 2 [1, 2]) = [1, 2]" by (simp add: small_text_def sizeof_content_def)
  show ?thesis
    using private_text_delivered [OF t [of 2], of small_services "small_handler_env (\<lambda>_. True)"]
      private_text_delivered [OF t [of 3], of small_services "small_handler_env (\<lambda>_. True)"] d
    by (simp add: small_simps small_text_fields small_server_def)
qed

definition small_join :: "64 word \<Rightarrow> group_command" where
  "small_join u = Join (user_conn u) (small_handler_env (\<lambda>_. True)) (le32 9)"

lemma group_membership_refines_witness:
  "\<exists>w1. group_run small_layouts [small_join 7, small_join 7, small_join 8, Leave (user_conn 7) (small_handler_env (\<lambda>_. True)) (le32 9)] (small_server [] (user_conn 1)) = Done w1 \<and>
     distinct (map member_key (sw_members w1)) \<and> member_key ` set (sw_members w1) = {(9, 8)}"
proof -
  have g: "ly_group small_layouts (le32 9) = 9" "ly_size small_layouts x = 4" for x
    by (simp_all add: small_layouts_def field_def bytes_le)
  let ?cs = "[small_join 7, small_join 7, small_join 8, Leave (user_conn 7) (small_handler_env (\<lambda>_. True)) (le32 9)]"
  have "\<forall>c \<in> set ?cs. count_works c" by (simp add: small_join_def count_works_def small_simps)
  from group_membership_refines [OF _ this, of "small_server [] (user_conn 1)" small_layouts] show ?thesis
    by (auto simp: small_simps small_join_def group_spec_def g)
qed

lemma small_manager_exists: "\<exists>mgr. message_handler_manager_create True True ok = Some mgr"
  by (simp add: message_handler_manager_create_def register_default_adds)

lemma dispatch_guarded_witness:
  "\<exists>mgr. message_handler_manager_create True True (\<lambda>_. True) = Some mgr \<and>
     (\<forall>r mgr'. message_handler_process small_layouts small_services (small_handler_env (\<lambda>_. True)) (\<lambda>_. (True, 0)) mgr SYSTEM_HEARTBEAT (le64 1)
        (small_server [] (user_conn 1)) \<noteq> Done (r, mgr', small_server [] (user_conn 1))) \<and>
     SYSTEM_HEARTBEAT \<in> {AUTH_LOGIN, AUTH_REGISTER, SYSTEM_HEARTBEAT, SYSTEM_ERROR}"
proof -
  let ?w = "small_server [] (user_conn 1)" and ?e = "small_handler_env (\<lambda>_. True)"
  obtain mgr where m: "message_handler_manager_create True True (\<lambda>_. True) = Some mgr" using small_manager_exists by blast
  have "handler_of mgr SYSTEM_HEARTBEAT = Some (H_heartbeat, False, False)"
    unfolding create_handlers [OF m] by (simp add: default_handlers_def)
  then obtain en where en: "find_handler mgr SYSTEM_HEARTBEAT = Some en" "en_handler en = H_heartbeat" "\<not> en_auth en" "\<not> en_encryption en"
    by (auto simp: handler_of_def)
  have ne: "le64 1 \<noteq> []" by (metis length_le(2) list.size(3) zero_neq_numeral)
  have w0: "message_log_audit True 0 w' t s = w'" if "\<not> sw_enable_audit w'" for w' :: "64 word list server" and t s
    using that by (simp add: message_log_audit_def)
  have p: "\<forall>r mgr'. message_handler_process small_layouts small_services ?e (\<lambda>_. (True, 0)) mgr SYSTEM_HEARTBEAT (le64 1) ?w \<noteq> Done (r, mgr', ?w)"
    using en ne by (auto simp: message_handler_process_def message_validate_integrity_def validate_message_auth_def validate_message_encryption_def
        run_handler_def handle_system_heartbeat_def message_send_response_def connection_update_activity_def message_log_audit_def small_server_def Let_def)
  show ?thesis using dispatch_guarded [OF m p] m p by (simp add: small_simps)
qed

lemma messages_accounted_witness:
  "\<exists>mgr mgr1 w1 r. message_handler_manager_create True True (\<lambda>_. True) = Some mgr \<and>
     process_all small_layouts small_services [(small_handler_env (\<lambda>_. True), \<lambda>_. (True, 0), 0x99, [1])] mgr (small_server [] (user_conn 1)) = Done ([r], mgr1, w1) \<and>
     st_failed (hm_stats mgr1) + st_invalid (hm_stats mgr1) = st_failed (hm_stats mgr) + st_invalid (hm_stats mgr) + 1"
proof -
  obtain mgr where m: "message_handler_manager_create True True (\<lambda>_. True) = Some mgr" using small_manager_exists by blast
  have "handler_of mgr 0x99 = None" unfolding create_handlers [OF m] by (simp add: default_handlers_def)
  then have "find_handler mgr 0x99 = None" by (simp add: handler_of_def)
  then obtain mgr1 where p: "process_all small_layouts small_services [(small_handler_env (\<lambda>_. True), \<lambda>_. (True, 0), 0x99, [1])] mgr (small_server [] (user_conn 1)) =
      Done ([-2], mgr1, small_server [] (user_conn 1))"
    by (simp add: message_handler_process_def)
  from messages_accounted [OF p] show ?thesis using m p by auto
qed

end
