(* ===== verification/Server_Config.thy ===== *)
theory Server_Config
  imports Chat_Prelude
begin

text \<open>
  The configuration of the server (\<open>server_config_t\<close> of \<open>server/include/server.h\<close>, its default values and its validation in
  \<open>server/src/server_core.c\<close>). The sections of the structure are records of their own; a C \<open>int\<close> is an \<open>int\<close>, a path that may be
  \<open>NULL\<close> an option. Reading a configuration from a file and writing one are empty in the sources: both report success and leave the
  configuration as it is.
\<close>

record network_config =
  tcp_port :: int
  websocket_port :: int
  max_clients :: int
  backlog_size :: int

record ssl_config =
  enable_ssl :: bool
  ssl_cert_path :: "string option"
  ssl_key_path :: "string option"
  ssl_ca_path :: "string option"

record connection_config =
  thread_pool_size :: int
  heartbeat_interval :: int
  heartbeat_timeout :: int
  session_timeout :: int
  rate_limit_per_minute :: int
  max_message_size :: int
  max_file_size :: int

record database_config =
  database_path :: "string option"
  database_encryption :: bool
  database_key :: "string option"

record storage_config =
  upload_dir :: "string option"
  temp_dir :: "string option"
  max_upload_size :: size_t
  enable_file_scan :: bool

record log_config =
  log_level :: int
  log_file :: "string option"
  log_max_size :: size_t
  log_max_files :: int

record security_config =
  enable_audit :: bool
  enable_encryption :: bool
  require_client_auth :: bool
  max_login_attempts :: int
  login_lockout_time :: int

record monitoring_config =
  enable_monitoring :: bool
  monitoring_port :: int
  monitoring_host :: "string option"

record run_config =
  run_as_daemon :: bool
  run_as_user :: "string option"
  pid_file :: "string option"
  test_mode :: bool

record server_config =
  cf_network :: network_config
  cf_ssl :: ssl_config
  cf_connection :: connection_config
  cf_database :: database_config
  cf_storage :: storage_config
  cf_log :: log_config
  cf_security :: security_config
  cf_monitoring :: monitoring_config
  cf_run :: run_config

definition server_config_init :: server_config where
  "server_config_init = \<lparr>
     cf_network = \<lparr>tcp_port = 8888, websocket_port = 8889, max_clients = 1000, backlog_size = 128\<rparr>,
     cf_ssl = \<lparr>enable_ssl = False, ssl_cert_path = None, ssl_key_path = None, ssl_ca_path = None\<rparr>,
     cf_connection = \<lparr>thread_pool_size = 16, heartbeat_interval = 30000, heartbeat_timeout = 120000, session_timeout = 3600000,
       rate_limit_per_minute = 60, max_message_size = 65536, max_file_size = 100 * 1024 * 1024\<rparr>,
     cf_database = \<lparr>database_path = Some ''securechat.db'', database_encryption = False, database_key = None\<rparr>,
     cf_storage = \<lparr>upload_dir = Some ''./uploads'', temp_dir = Some ''/tmp/securechat'', max_upload_size = 100 * 1024 * 1024,
       enable_file_scan = False\<rparr>,
     cf_log = \<lparr>log_level = 1, log_file = None, log_max_size = 10 * 1024 * 1024, log_max_files = 10\<rparr>,
     cf_security = \<lparr>enable_audit = True, enable_encryption = True, require_client_auth = False, max_login_attempts = 5,
       login_lockout_time = 300000\<rparr>,
     cf_monitoring = \<lparr>enable_monitoring = True, monitoring_port = 9090, monitoring_host = Some ''localhost''\<rparr>,
     cf_run = \<lparr>run_as_daemon = False, run_as_user = None, pid_file = None, test_mode = False\<rparr>\<rparr>"

text \<open>The text that \<open>server_config_validate\<close> puts into the error buffer.\<close>

datatype config_error = Config_Missing | Invalid_Tcp_Port int | Invalid_Websocket_Port int | Port_Conflict int | Invalid_Max_Clients int
  | No_Certificate_Path | No_Key_Path | Unreadable_Certificate string | Unreadable_Key string | No_Database_Path

definition no_path :: "string option \<Rightarrow> bool" where
  "no_path p \<longleftrightarrow> (case p of None \<Rightarrow> True | Some s \<Rightarrow> length s = 0)"

text \<open>\<open>readable\<close> is the answer of \<open>access(path, R_OK)\<close>; \<open>None\<close> means a valid configuration.\<close>

definition server_config_validate :: "(string \<Rightarrow> bool) \<Rightarrow> server_config option \<Rightarrow> config_error option" where
  "server_config_validate readable config =
     (case config of None \<Rightarrow> Some Config_Missing
      | Some c \<Rightarrow>
          let n = cf_network c; s = cf_ssl c in
          if tcp_port n \<le> 0 \<or> tcp_port n > 65535 then Some (Invalid_Tcp_Port (tcp_port n))
          else if websocket_port n \<le> 0 \<or> websocket_port n > 65535 then Some (Invalid_Websocket_Port (websocket_port n))
          else if tcp_port n = websocket_port n then Some (Port_Conflict (tcp_port n))
          else if max_clients n \<le> 0 \<or> max_clients n > 100000 then Some (Invalid_Max_Clients (max_clients n))
          else if enable_ssl s \<and> no_path (ssl_cert_path s) then Some No_Certificate_Path
          else if enable_ssl s \<and> no_path (ssl_key_path s) then Some No_Key_Path
          else if enable_ssl s \<and> \<not> readable (the (ssl_cert_path s)) then Some (Unreadable_Certificate (the (ssl_cert_path s)))
          else if enable_ssl s \<and> \<not> readable (the (ssl_key_path s)) then Some (Unreadable_Key (the (ssl_key_path s)))
          else if no_path (database_path (cf_database c)) then Some No_Database_Path
          else None)"

definition server_config_load_from_file :: "server_config \<Rightarrow> bool \<times> server_config" where
  "server_config_load_from_file config = (True, config)"

definition server_config_save_to_file :: "server_config \<Rightarrow> bool" where
  "server_config_save_to_file config = True"

section \<open>What a valid configuration promises\<close>

text \<open>The ports fit the 16 bits that \<open>htons\<close> keeps of them, and with SSL the two paths name readable files.\<close>

lemma config_valid:
  assumes "server_config_validate readable (Some c) = None"
  shows "0 < tcp_port (cf_network c)" "tcp_port (cf_network c) < 2 ^ 16" "0 < websocket_port (cf_network c)"
    "websocket_port (cf_network c) < 2 ^ 16" "tcp_port (cf_network c) \<noteq> websocket_port (cf_network c)"
    "0 < max_clients (cf_network c)" "max_clients (cf_network c) \<le> 100000"
    "enable_ssl (cf_ssl c) \<Longrightarrow> \<exists>k p. ssl_cert_path (cf_ssl c) = Some k \<and> ssl_key_path (cf_ssl c) = Some p \<and> readable k \<and> readable p"
    "\<exists>p. database_path (cf_database c) = Some p \<and> p \<noteq> []"
  using assms by (auto simp: server_config_validate_def Let_def no_path_def split: if_splits option.splits)

lemma default_config_valid: "server_config_validate readable (Some server_config_init) = None"
  by (simp add: server_config_validate_def server_config_init_def Let_def no_path_def)

end
