(* ===== verification/Server_State.thy ===== *)
theory Server_State
  imports Server_Config Connection_Pool
begin

text \<open>
  The server instance (\<open>server_instance_t\<close> of \<open>server/include/server.h\<close>) and the operations of \<open>server/src/server_core.c\<close> on a server
  that is up: its state word and those who wait for it, the statistics, the audit log, the events, sending to connections and users,
  removing connections, the health check. The server holds the pool of \<open>Connection_Pool\<close>; a message goes out through
  \<open>conn_send_message\<close> of \<open>Connection\<close>.

  Every operation of the interface refuses a \<open>NULL\<close> server before anything else (\<open>-1\<close>, or \<open>0\<close> where it counts); the definitions take
  the server behind that test. Beside its fields a server records what it does to the outside: the sockets of its clients, the calls of
  the event callback, the lines of the audit log, and the resources acquired and released (used in \<open>Server_Life\<close>). The resources
  behind pointers that the sources only create, test and destroy are the values of \<open>part\<close>, and \<open>si_parts\<close> says which pointers are
  not \<open>NULL\<close>. \<open>Deadlock\<close> is the outcome of a call that does not return.
\<close>

datatype server_state = Server_Initializing | Server_Running | Server_Shutting_Down | Server_Shutdown | Server_Error

record connection_stats =
  total_connections :: "64 word"
  active_connections :: "64 word"
  rejected_connections :: "64 word"
  max_concurrent_connections :: "64 word"

record message_stats =
  messages_received :: "64 word"
  messages_sent :: "64 word"
  messages_processed :: "64 word"
  messages_failed :: "64 word"

record transfer_stats =
  file_transfers :: "64 word"
  file_transfer_bytes :: "64 word"
  file_transfer_failed :: "64 word"

record user_stats =
  total_users :: "64 word"
  online_users :: "64 word"
  auth_failures :: "64 word"

record load_stats =
  cpu_usage :: "64 word"
  memory_usage :: "64 word"
  disk_usage :: "64 word"
  network_in_bytes :: "64 word"
  network_out_bytes :: "64 word"

record time_stats =
  startup_time :: "64 word"
  uptime :: "64 word"
  last_backup_time :: "64 word"

record server_statistics =
  ss_connections :: connection_stats
  ss_messages :: message_stats
  ss_transfers :: transfer_stats
  ss_users :: user_stats
  ss_load :: load_stats
  ss_times :: time_stats

definition zero_statistics :: server_statistics where
  "zero_statistics = \<lparr>
     ss_connections = \<lparr>total_connections = 0, active_connections = 0, rejected_connections = 0, max_concurrent_connections = 0\<rparr>,
     ss_messages = \<lparr>messages_received = 0, messages_sent = 0, messages_processed = 0, messages_failed = 0\<rparr>,
     ss_transfers = \<lparr>file_transfers = 0, file_transfer_bytes = 0, file_transfer_failed = 0\<rparr>,
     ss_users = \<lparr>total_users = 0, online_users = 0, auth_failures = 0\<rparr>,
     ss_load = \<lparr>cpu_usage = 0, memory_usage = 0, disk_usage = 0, network_in_bytes = 0, network_out_bytes = 0\<rparr>,
     ss_times = \<lparr>startup_time = 0, uptime = 0, last_backup_time = 0\<rparr>\<rparr>"

datatype server_event_type = Event_Startup | Event_Shutdown | Event_Config_Reload | Event_Client_Connect | Event_Client_Disconnect
  | Event_User_Login | Event_User_Logout | Event_Message_Received | Event_Message_Sent | Event_File_Transfer_Start
  | Event_File_Transfer_Complete | Event_File_Transfer_Failed | Event_Error | Event_Warning | Event_Audit | Event_Maintenance
  | Event_Backup | Event_Restore

record server_event =
  ev_type :: server_event_type
  ev_timestamp :: "64 word"
  ev_user_id :: "64 word"
  ev_connection_id :: "64 word"
  ev_data :: "string option"

text \<open>The pointers of the instance, and the descriptors, as resources.\<close>

datatype part = Ssl_Ctx | Db_Conn | Thread_Pool_Part | Ws_Server | Monitoring_Part | Connection_Pool_Part | User_Manager | Message_Queue_Part
  | Transfer_Manager_Part | Audit_File | Event_Array

datatype resource = Descriptor int | Part part

datatype life_event = Acquired resource | Released resource

record audit_line =
  al_time :: "64 word"
  al_event :: string
  al_user :: "64 word"
  al_conn :: "64 word"
  al_details :: string

record server_instance =
  si_config :: server_config
  si_state :: server_state
  si_tcp_fd :: int
  si_ws_fd :: int
  si_epoll_fd :: int
  si_parts :: "part \<Rightarrow> bool"
  si_pool :: "connection_pool option"
  si_stats :: server_statistics
  si_callback :: bool
  si_running :: bool
  si_shutdown_requested :: bool
  si_socks :: "int \<Rightarrow> sock"
  si_events :: "server_event list"
  si_audit :: "audit_line list"
  si_trace :: "life_event list"

text \<open>The functions that the sources call and do not contain: the encoding of a header and its checksum, the printed form of an
  address, and the \<open>connection_close(pool, conn)\<close> that \<open>server_core.c\<close> calls (\<open>connection.c\<close> has only
  \<open>connection_close(conn, graceful)\<close>), on a slot of the pool.\<close>

record library =
  lb_ser :: "message_header \<Rightarrow> byte list"
  lb_deser :: "byte list \<Rightarrow> message_header option"
  lb_chk :: "byte list \<Rightarrow> 32 word"
  lb_ntop :: "32 word \<Rightarrow> string"
  lb_close :: "connection_pool \<Rightarrow> nat \<Rightarrow> connection_pool"

abbreviation MSG_SYSTEM_NOTIFICATION :: "32 word" where "MSG_SYSTEM_NOTIFICATION \<equiv> 0x00050003"

section \<open>State, statistics, audit log and events\<close>

definition update_server_state :: "server_state \<Rightarrow> server_instance \<Rightarrow> server_instance" where
  "update_server_state new_state s = s\<lparr>si_state := new_state\<rparr>"

definition server_get_state :: "server_instance option \<Rightarrow> server_state" where
  "server_get_state server = (case server of None \<Rightarrow> Server_Error | Some s \<Rightarrow> si_state s)"

datatype stat_type = Stat_Connections_Total | Stat_Connections_Active | Stat_Connections_Rejected | Stat_Messages_Received
  | Stat_Messages_Sent | Stat_Network_In | Stat_Network_Out | Stat_File_Transfers | Stat_File_Transfer_Bytes

fun add_statistic :: "stat_type \<Rightarrow> 64 word \<Rightarrow> server_statistics \<Rightarrow> server_statistics" where
  "add_statistic Stat_Connections_Total v st = st\<lparr>ss_connections := (ss_connections st)\<lparr>total_connections := total_connections (ss_connections st) + v\<rparr>\<rparr>"
| "add_statistic Stat_Connections_Active v st = st\<lparr>ss_connections := (ss_connections st)\<lparr>active_connections := active_connections (ss_connections st) + v\<rparr>\<rparr>"
| "add_statistic Stat_Connections_Rejected v st = st\<lparr>ss_connections := (ss_connections st)\<lparr>rejected_connections := rejected_connections (ss_connections st) + v\<rparr>\<rparr>"
| "add_statistic Stat_Messages_Received v st = st\<lparr>ss_messages := (ss_messages st)\<lparr>messages_received := messages_received (ss_messages st) + v\<rparr>\<rparr>"
| "add_statistic Stat_Messages_Sent v st = st\<lparr>ss_messages := (ss_messages st)\<lparr>messages_sent := messages_sent (ss_messages st) + v\<rparr>\<rparr>"
| "add_statistic Stat_Network_In v st = st\<lparr>ss_load := (ss_load st)\<lparr>network_in_bytes := network_in_bytes (ss_load st) + v\<rparr>\<rparr>"
| "add_statistic Stat_Network_Out v st = st\<lparr>ss_load := (ss_load st)\<lparr>network_out_bytes := network_out_bytes (ss_load st) + v\<rparr>\<rparr>"
| "add_statistic Stat_File_Transfers v st = st\<lparr>ss_transfers := (ss_transfers st)\<lparr>file_transfers := file_transfers (ss_transfers st) + v\<rparr>\<rparr>"
| "add_statistic Stat_File_Transfer_Bytes v st = st\<lparr>ss_transfers := (ss_transfers st)\<lparr>file_transfer_bytes := file_transfer_bytes (ss_transfers st) + v\<rparr>\<rparr>"

definition update_server_statistics :: "stat_type \<Rightarrow> 64 word \<Rightarrow> server_instance \<Rightarrow> server_instance" where
  "update_server_statistics stat_type v s = s\<lparr>si_stats := add_statistic stat_type v (si_stats s)\<rparr>"

text \<open>A missing text is printed as an empty one.\<close>

definition log_audit_event :: "64 word \<Rightarrow> string \<Rightarrow> 64 word \<Rightarrow> 64 word \<Rightarrow> string option \<Rightarrow> server_instance \<Rightarrow> server_instance" where
  "log_audit_event now event user_id conn_id details s =
     (if \<not> si_parts s Audit_File then s
      else s\<lparr>si_audit := si_audit s @ [\<lparr>al_time = now, al_event = event, al_user = user_id, al_conn = conn_id,
               al_details = (case details of None \<Rightarrow> [] | Some d \<Rightarrow> d)\<rparr>]\<rparr>)"

text \<open>\<open>SERVER_TRIGGER_EVENT\<close> with no data.\<close>

definition trigger_event :: "64 word \<Rightarrow> server_event_type \<Rightarrow> server_instance \<Rightarrow> server_instance" where
  "trigger_event now t s =
     (if si_callback s
      then s\<lparr>si_events := si_events s @ [\<lparr>ev_type = t, ev_timestamp = now, ev_user_id = 0, ev_connection_id = 0, ev_data = None\<rparr>]\<rparr>
      else s)"

text \<open>\<open>SERVER_TRIGGER_EVENT\<close> with a text \<open>d\<close> and its length \<open>strlen(d)\<close>, which a missing text does not have.\<close>

definition trigger_text_event :: "64 word \<Rightarrow> server_event_type \<Rightarrow> 64 word \<Rightarrow> 64 word \<Rightarrow> string option \<Rightarrow> server_instance \<Rightarrow> server_instance outcome" where
  "trigger_text_event now t user_id conn_id d s =
     (if \<not> si_callback s then Done s
      else if d = None then Undefined_Behaviour
      else Done (s\<lparr>si_events := si_events s @ [\<lparr>ev_type = t, ev_timestamp = now, ev_user_id = user_id, ev_connection_id = conn_id, ev_data = d\<rparr>]\<rparr>))"

definition server_set_event_callback :: "bool \<Rightarrow> server_instance \<Rightarrow> server_instance" where
  "server_set_event_callback callback s = s\<lparr>si_callback := callback\<rparr>"

definition server_get_statistics :: "64 word \<Rightarrow> server_instance \<Rightarrow> server_statistics" where
  "server_get_statistics now s =
     (let st = si_stats s in
      st\<lparr>ss_times := (ss_times st)\<lparr>uptime := now - startup_time (ss_times st)\<rparr>,
         ss_connections := (ss_connections st)\<lparr>active_connections :=
           (if si_pool s \<noteq> None then connection_pool_get_active_count (si_pool s) else 0)\<rparr>\<rparr>)"

definition server_reset_statistics :: "64 word \<Rightarrow> server_instance \<Rightarrow> int \<times> server_instance" where
  "server_reset_statistics now s =
     (0, s\<lparr>si_stats := zero_statistics\<lparr>ss_times := (ss_times zero_statistics)\<lparr>startup_time := now\<rparr>\<rparr>\<rparr>)"

definition server_reload_config :: "(string \<Rightarrow> bool) \<Rightarrow> 64 word \<Rightarrow> server_config option \<Rightarrow> server_instance \<Rightarrow> int \<times> server_instance" where
  "server_reload_config readable now new_config s =
     (case new_config of None \<Rightarrow> (-1, s)
      | Some c \<Rightarrow>
          if \<not> si_running s then (-2, s)
          else if server_config_validate readable new_config \<noteq> None then (-3, s)
          else (0, trigger_event now Event_Config_Reload (s\<lparr>si_config := c\<rparr>)))"

section \<open>Waiting for a state\<close>

text \<open>The absolute deadline of \<open>pthread_cond_timedwait\<close>, in seconds and nanoseconds, from the clock and the timeout in milliseconds.\<close>

definition wait_deadline :: "nat \<times> nat \<Rightarrow> nat \<Rightarrow> nat \<times> nat" where
  "wait_deadline ts timeout_ms =
     (let nsec = snd ts + (timeout_ms mod 1000) * 1000000
      in (fst ts + (timeout_ms div 1000 + nsec div 1000000000), nsec mod 1000000000))"

text \<open>The ends of the waits in their order: the state that the thread finds when it has the mutex again, and whether a timed wait
  reported \<open>ETIMEDOUT\<close>. \<open>None\<close>: it waits still.\<close>

fun wait_for_state :: "server_state \<Rightarrow> nat \<Rightarrow> server_state \<Rightarrow> (server_state \<times> bool) list \<Rightarrow> int option" where
  "wait_for_state target_state timeout_ms st wakes =
     (if st = target_state then Some 0
      else case wakes of
        [] \<Rightarrow> None
      | (st', timed_out) # ws \<Rightarrow>
          if timeout_ms \<noteq> 0 \<and> timed_out then Some (-2) else wait_for_state target_state timeout_ms st' ws)"

definition server_wait_for_state :: "server_state \<Rightarrow> nat \<Rightarrow> server_instance \<Rightarrow> (server_state \<times> bool) list \<Rightarrow> int option" where
  "server_wait_for_state target_state timeout_ms s wakes = wait_for_state target_state timeout_ms (si_state s) wakes"

section \<open>Sending\<close>

text \<open>\<open>ok\<close>: the list can be allocated.\<close>

definition server_get_active_connections :: "bool \<Rightarrow> server_instance \<Rightarrow> int \<times> (connection_info list \<times> nat) option" where
  "server_get_active_connections ok s =
     (if si_pool s = None then (-1, None) else connection_pool_get_active_connections ok (si_pool s))"

text \<open>\<open>connection_send_message\<close> on the connection in slot \<open>i\<close>.\<close>

definition send_on_slot :: "library \<Rightarrow> (nat \<Rightarrow> 64 word) \<Rightarrow> nat \<Rightarrow> 32 word \<Rightarrow> byte list \<Rightarrow> connection_pool \<Rightarrow> server_instance \<Rightarrow> (int \<times> server_instance) outcome" where
  "send_on_slot L clk i t data p s =
     (let c = p_connections p ! i in
      case conn_send_message (lb_ser L) (lb_chk L) clk c (si_socks s (c_fd c)) t data of
        None \<Rightarrow> Deadlock
      | Some (r, c', sk) \<Rightarrow>
          Done (r, s\<lparr>si_pool := Some (p\<lparr>p_connections := (p_connections p)[i := c']\<rparr>), si_socks := (si_socks s)(c_fd c := sk)\<rparr>))"

definition server_send_to_connection :: "library \<Rightarrow> (nat \<Rightarrow> 64 word) \<Rightarrow> 64 word \<Rightarrow> 32 word \<Rightarrow> byte list \<Rightarrow> server_instance \<Rightarrow> (int \<times> server_instance) outcome" where
  "server_send_to_connection L clk conn_id t data s =
     (case si_pool s of None \<Rightarrow> Done (-1, s)
      | Some p \<Rightarrow>
          (case connection_pool_get_by_id (Some p) conn_id of
             None \<Rightarrow> Done (-2, s)
           | Some i \<Rightarrow>
               obind (send_on_slot L clk i t data p s) (\<lambda>(r, s1).
                 Done (r, if r = 0
                          then update_server_statistics Stat_Network_Out (of_nat (length data)) (update_server_statistics Stat_Messages_Sent 1 s1)
                          else s1))))"

text \<open>The loop over the list of connections; \<open>skip\<close> is the test that leaves a connection out. The number of sends that returned 0.\<close>

fun send_to_each :: "library \<Rightarrow> (nat \<Rightarrow> nat \<Rightarrow> 64 word) \<Rightarrow> 32 word \<Rightarrow> byte list \<Rightarrow> (connection_info \<Rightarrow> bool) \<Rightarrow> nat \<Rightarrow> connection_info list \<Rightarrow> server_instance \<Rightarrow>
    (nat \<times> server_instance) outcome" where
  "send_to_each L clk t data skip k [] s = Done (0, s)"
| "send_to_each L clk t data skip k (ci # cs) s =
     (if skip ci then send_to_each L clk t data skip (Suc k) cs s
      else obind (server_send_to_connection L (clk k) (i_connection_id ci) t data s) (\<lambda>(r, s1).
           obind (send_to_each L clk t data skip (Suc k) cs s1) (\<lambda>(n, s2).
             Done (if r = 0 then Suc n else n, s2))))"

definition server_broadcast_message :: "library \<Rightarrow> (nat \<Rightarrow> nat \<Rightarrow> 64 word) \<Rightarrow> bool \<Rightarrow> 32 word \<Rightarrow> byte list \<Rightarrow> 64 word \<Rightarrow> server_instance \<Rightarrow>
    (nat \<times> server_instance) outcome" where
  "server_broadcast_message L clk ok t data exclude_user_id s =
     (if si_pool s = None then Done (0, s)
      else case server_get_active_connections ok s of
        (r, Some (connections, n)) \<Rightarrow>
          if r = 0 \<and> n > 0
          then send_to_each L clk t data (\<lambda>ci. exclude_user_id > 0 \<and> i_user_id ci = exclude_user_id) 0 connections s
          else Done (0, s)
      | (r, None) \<Rightarrow> Done (0, s))"

definition server_send_to_user :: "library \<Rightarrow> (nat \<Rightarrow> nat \<Rightarrow> 64 word) \<Rightarrow> bool \<Rightarrow> 64 word \<Rightarrow> 32 word \<Rightarrow> byte list \<Rightarrow> server_instance \<Rightarrow>
    (int \<times> server_instance) outcome" where
  "server_send_to_user L clk ok user_id t data s =
     (if si_pool s = None then Done (-1, s)
      else case server_get_active_connections ok s of
        (r, Some (connections, n)) \<Rightarrow>
          if r = 0 \<and> n > 0
          then obind (send_to_each L clk t data (\<lambda>ci. i_user_id ci \<noteq> user_id) 0 connections s) (\<lambda>(sent, s1).
                 Done (if sent > 0 then 0 else -2, s1))
          else Done (-3, s)
      | (r, None) \<Rightarrow> Done (-3, s))"

section \<open>Removing connections\<close>

text \<open>The bytes of a C string.\<close>

definition c_text_bytes :: "string \<Rightarrow> byte list" where
  "c_text_bytes = map (\<lambda>ch. of_nat (of_char ch))"

definition server_kick_connection :: "library \<Rightarrow> (nat \<Rightarrow> 64 word) \<Rightarrow> 64 word \<Rightarrow> string option \<Rightarrow> server_instance \<Rightarrow> (int \<times> server_instance) outcome" where
  "server_kick_connection L clk conn_id reason s =
     (case si_pool s of None \<Rightarrow> Done (-1, s)
      | Some p \<Rightarrow>
          (case connection_pool_get_by_id (Some p) conn_id of
             None \<Rightarrow> Done (-2, s)
           | Some i \<Rightarrow>
               obind (if reason \<noteq> None \<and> length (the reason) > 0
                      then obind (send_on_slot L clk i MSG_SYSTEM_NOTIFICATION (c_text_bytes (the reason)) p s) (\<lambda>(_, s1). Done s1)
                      else Done s) (\<lambda>s1.
                 let p2 = lb_close L (the (si_pool s1)) i;
                     user_id = c_user_id (p_connections p2 ! i);
                     s2 = log_audit_event (clk 11) ''CONNECTION_KICKED'' user_id conn_id reason (s1\<lparr>si_pool := Some p2\<rparr>)
                 in obind (trigger_text_event (clk 12) Event_Client_Disconnect user_id conn_id reason s2) (\<lambda>s3. Done (0, s3)))))"

fun kick_each :: "library \<Rightarrow> (nat \<Rightarrow> nat \<Rightarrow> 64 word) \<Rightarrow> string option \<Rightarrow> 64 word \<Rightarrow> nat \<Rightarrow> connection_info list \<Rightarrow> server_instance \<Rightarrow> (nat \<times> server_instance) outcome" where
  "kick_each L clk reason user_id k [] s = Done (0, s)"
| "kick_each L clk reason user_id k (ci # cs) s =
     (if i_user_id ci = user_id
      then obind (server_kick_connection L (clk k) (i_connection_id ci) reason s) (\<lambda>(_, s1).
           obind (kick_each L clk reason user_id (Suc k) cs s1) (\<lambda>(n, s2). Done (Suc n, s2)))
      else kick_each L clk reason user_id (Suc k) cs s)"

definition server_kick_user :: "library \<Rightarrow> (nat \<Rightarrow> nat \<Rightarrow> 64 word) \<Rightarrow> (nat \<Rightarrow> 64 word) \<Rightarrow> bool \<Rightarrow> 64 word \<Rightarrow> string option \<Rightarrow> server_instance \<Rightarrow>
    (int \<times> server_instance) outcome" where
  "server_kick_user L clk now ok user_id reason s =
     (if si_pool s = None then Done (-1, s)
      else case server_get_active_connections ok s of
        (r, Some (connections, n)) \<Rightarrow>
          if r = 0 \<and> n > 0 then
            obind (kick_each L clk reason user_id 0 connections s) (\<lambda>(kicked, s1).
              if kicked > 0 then
                obind (trigger_text_event (now 1) Event_Client_Disconnect user_id 0 reason (log_audit_event (now 0) ''USER_KICKED'' user_id 0 reason s1)) (\<lambda>s2.
                  Done (0, s2))
              else Done (-2, s1))
          else Done (-2, s)
      | (r, None) \<Rightarrow> Done (-2, s))"

section \<open>Health\<close>

text \<open>\<open>sql\<close>: \<open>SELECT 1\<close> succeeds; \<open>writable\<close>: the answer of \<open>access(path, W_OK)\<close>; \<open>maxrss\<close>: the answer of \<open>getrusage\<close> in kilobytes. The
  comparison with \<open>0.9 * max_clients\<close> in floating point agrees with the one of the integers for every \<open>int\<close>: a multiple of a tenth
  that is not whole is far from every whole number, and the product rounds to the whole one otherwise.\<close>

definition server_check_health :: "bool \<Rightarrow> (string \<Rightarrow> bool) \<Rightarrow> int option \<Rightarrow> server_instance \<Rightarrow> 32 word" where
  "server_check_health sql writable maxrss s =
     (let h1 = (if si_parts s Db_Conn \<and> \<not> sql then 1 else 0);
          h2 = (case upload_dir (cf_storage (si_config s)) of None \<Rightarrow> h1 | Some d \<Rightarrow> if \<not> writable d then h1 OR 2 else h1);
          h3 = (case maxrss of None \<Rightarrow> h2 | Some kb \<Rightarrow> if kb > 500 * 1024 then h2 OR 4 else h2)
      in case si_pool s of None \<Rightarrow> h3
         | Some p \<Rightarrow>
             if 10 * int (unat (connection_pool_get_active_count (Some p))) > 9 * max_clients (cf_network (si_config s)) then h3 OR 8 else h3)"


declare wait_for_state.simps [simp del]

section \<open>Waiting\<close>

text \<open>The deadline is a proper time and lies \<open>timeout_ms\<close> milliseconds ahead.\<close>

lemma wait_deadline_exact:
  "snd (wait_deadline ts ms) < 1000000000"
  "fst (wait_deadline ts ms) * 1000000000 + snd (wait_deadline ts ms) = fst ts * 1000000000 + snd ts + ms * 1000000"
proof -
  show "snd (wait_deadline ts ms) < 1000000000" by (simp add: wait_deadline_def Let_def)
  have "ms * 1000000 = (ms div 1000) * 1000000000 + (ms mod 1000) * 1000000"
    using div_mult_mod_eq [of ms 1000] by linarith
  then show "fst (wait_deadline ts ms) * 1000000000 + snd (wait_deadline ts ms) = fst ts * 1000000000 + snd ts + ms * 1000000"
    using div_mult_mod_eq [of "snd ts + ms mod 1000 * 1000000" 1000000000]
    by (simp add: wait_deadline_def Let_def)
qed

section \<open>A send keeps the pool\<close>

lemma conn_send_keeps:
  assumes "conn_send clk c sk data = Some (r, c', sk')"
  shows "c_id c' = c_id c \<and> c_fd c' = c_fd c \<and> c_user_id c' = c_user_id c"
proof (cases "c_fd c = -1 \<or> length data = 0")
  case True
  with assms show ?thesis unfolding conn_send_def by simp
next
  case False
  obtain b l where l: "connection_check_rate_limit (clk 0) (clk 1) (length data) (c_rate c) = (b, l)" by fastforce
  let ?f = "if c_ssl c then ssl_send else plain_send"
  show ?thesis
  proof (cases b)
    case True
    from assms False l True obtain sent n as where "?f (sk_answers sk) 0 (length data) = Some (sent, n, as)"
      unfolding conn_send_def by (cases "?f (sk_answers sk) 0 (length data)") auto
    with assms False l True show ?thesis unfolding conn_send_def by (cases "sent > 0") (simp_all add: Let_def, safe, simp_all)
  next
    case b: False
    with assms False l show ?thesis unfolding conn_send_def by (simp, safe, simp_all)
  qed
qed

lemma conn_send_message_keeps:
  assumes "conn_send_message ser chk clk c sk t data = Some (r, c', sk')"
  shows "c_id c' = c_id c \<and> c_fd c' = c_fd c \<and> c_user_id c' = c_user_id c"
  using assms
  by (auto simp: conn_send_message_def Let_def bind_eq_Some_conv split: if_splits prod.splits dest!: conn_send_keeps)

lemma pool_inv_same_ids:
  assumes "pool_inv p" and "i < p_capacity p" and "c_id c = c_id (p_connections p ! i)" and "c_fd c = c_fd (p_connections p ! i)"
  shows "pool_inv (p\<lparr>p_connections := (p_connections p)[i := c]\<rparr>)"
proof -
  let ?cs = "p_connections p" and ?ds = "(p_connections p)[i := c]"
  have n: "i < length ?cs" using assms by (simp add: pool_inv_def)
  have same: "c_id (?ds ! j) = c_id (?cs ! j) \<and> (in_use (?ds ! j) \<longleftrightarrow> in_use (?cs ! j))" for j
    using assms n by (cases "j = i") auto
  have "map in_use ?ds = map in_use ?cs" using same by (intro nth_equalityI) auto
  moreover have "length (filter in_use xs) = length (filter id (map in_use xs))" for xs by (simp add: filter_map comp_def)
  ultimately have "length (filter in_use ?ds) = length (filter in_use ?cs)" by metis
  then show ?thesis using assms same by (simp add: pool_inv_def ids_ok_def)
qed

section \<open>Who gets a message\<close>

text \<open>The slots of the open connections, and the effect of one send on a slot of the pool and on its socket.\<close>

definition active_slots :: "connection_pool \<Rightarrow> nat list" where
  "active_slots p = filter (\<lambda>i. in_use (p_connections p ! i)) [0..<p_capacity p]"

definition slot_send :: "library \<Rightarrow> (nat \<Rightarrow> nat \<Rightarrow> 64 word) \<Rightarrow> 32 word \<Rightarrow> byte list \<Rightarrow> connection_pool \<Rightarrow> server_instance \<Rightarrow> nat \<times> nat \<Rightarrow>
    (int \<times> client_connection \<times> sock) option" where
  "slot_send L clk t data p s ki =
     conn_send_message (lb_ser L) (lb_chk L) (clk (fst ki)) (p_connections p ! snd ki) (si_socks s (c_fd (p_connections p ! snd ki))) t data"

definition sent_ok :: "library \<Rightarrow> (nat \<Rightarrow> nat \<Rightarrow> 64 word) \<Rightarrow> 32 word \<Rightarrow> byte list \<Rightarrow> connection_pool \<Rightarrow> server_instance \<Rightarrow> nat \<times> nat \<Rightarrow> bool" where
  "sent_ok L clk t data p s ki \<longleftrightarrow> fst (the (slot_send L clk t data p s ki)) = 0"

text \<open>A server after one send that returned.\<close>

definition after_send :: "library \<Rightarrow> (nat \<Rightarrow> nat \<Rightarrow> 64 word) \<Rightarrow> 32 word \<Rightarrow> byte list \<Rightarrow> connection_pool \<Rightarrow> server_instance \<Rightarrow> nat \<times> nat \<Rightarrow> server_instance" where
  "after_send L clk t data p s ki =
     (let (r, c', sk) = the (slot_send L clk t data p s ki);
          s1 = s\<lparr>si_pool := Some (p\<lparr>p_connections := (p_connections p)[snd ki := c']\<rparr>),
                 si_socks := (si_socks s)(c_fd (p_connections p ! snd ki) := sk)\<rparr>
      in if r = 0 then update_server_statistics Stat_Network_Out (of_nat (length data)) (update_server_statistics Stat_Messages_Sent 1 s1) else s1)"

lemma update_server_statistics_keeps [simp]:
  "si_pool (update_server_statistics k v s) = si_pool s" "si_socks (update_server_statistics k v s) = si_socks s"
  by (simp_all add: update_server_statistics_def)

lemma send_to_slot:
  assumes "si_pool s = Some p" and "pool_inv p" and "i < p_capacity p" and "in_use (p_connections p ! i)"
    and "slot_send L clk t data p s (k, i) \<noteq> None"
  shows "server_send_to_connection L (clk k) (c_id (p_connections p ! i)) t data s =
    Done (fst (the (slot_send L clk t data p s (k, i))), after_send L clk t data p s (k, i))"
proof -
  have "connection_pool_get_by_id (Some p) (c_id (p_connections p ! i)) = Some i"
    using assms get_by_id_iff by blast
  with assms show ?thesis
    by (auto simp: server_send_to_connection_def send_on_slot_def slot_send_def after_send_def Let_def)
qed

lemma after_send_pool:
  assumes "pool_inv p" and "i < p_capacity p" and "slot_send L clk t data p s (k, i) = Some (r, c', sk)"
  obtains p1 where "si_pool (after_send L clk t data p s (k, i)) = Some p1" and "pool_inv p1" and "p_capacity p1 = p_capacity p"
    and "p_connections p1 = (p_connections p)[i := c']"
    and "si_socks (after_send L clk t data p s (k, i)) = (si_socks s)(c_fd (p_connections p ! i) := sk)"
    and "c_fd c' = c_fd (p_connections p ! i)" and "c_id c' = c_id (p_connections p ! i)" and "c_user_id c' = c_user_id (p_connections p ! i)"
    and "messages_sent (ss_messages (si_stats (after_send L clk t data p s (k, i)))) =
           messages_sent (ss_messages (si_stats s)) + (if r = 0 then 1 else 0)"
proof -
  have k: "c_id c' = c_id (p_connections p ! i) \<and> c_fd c' = c_fd (p_connections p ! i) \<and> c_user_id c' = c_user_id (p_connections p ! i)"
    using assms(3) conn_send_message_keeps unfolding slot_send_def by fastforce
  show thesis
    by (rule that [of "p\<lparr>p_connections := (p_connections p)[i := c']\<rparr>"])
       (use assms k in \<open>simp_all add: after_send_def pool_inv_same_ids Let_def update_server_statistics_def\<close>)
qed

text \<open>What a loop over some slots has done: each slot that is not skipped holds the result of its send, its socket too; the others, and
  the other sockets, are as before.\<close>

definition sent_to :: "library \<Rightarrow> (nat \<Rightarrow> nat \<Rightarrow> 64 word) \<Rightarrow> 32 word \<Rightarrow> byte list \<Rightarrow> connection_pool \<Rightarrow> server_instance \<Rightarrow> (nat \<times> nat) list \<Rightarrow>
    connection_pool \<Rightarrow> server_instance \<Rightarrow> bool" where
  "sent_to L clk t data p s todo p' s' \<longleftrightarrow>
     (\<forall>x \<in> set todo. \<exists>r. slot_send L clk t data p s x = Some (r, p_connections p' ! snd x, si_socks s' (c_fd (p_connections p ! snd x)))) \<and>
     (\<forall>i. i \<notin> snd ` set todo \<longrightarrow> p_connections p' ! i = p_connections p ! i) \<and>
     (\<forall>fd. fd \<notin> (\<lambda>x. c_fd (p_connections p ! snd x)) ` set todo \<longrightarrow> si_socks s' fd = si_socks s fd) \<and>
     messages_sent (ss_messages (si_stats s')) =
       messages_sent (ss_messages (si_stats s)) + of_nat (length (filter (sent_ok L clk t data p s) todo))"

lemma sent_to_Cons:
  assumes r: "slot_send L clk t data p s (k, i) = Some (r, c', sk)"
    and p1: "p_connections p1 = (p_connections p)[i := c']" and s1: "si_socks s1 = (si_socks s)(c_fd (p_connections p ! i) := sk)"
    and i: "i < length (p_connections p)"
    and st: "messages_sent (ss_messages (si_stats s1)) = messages_sent (ss_messages (si_stats s)) + (if r = 0 then 1 else 0)"
    and new: "i \<notin> snd ` set todo"
    and other: "\<forall>x \<in> set todo. p_connections p1 ! snd x = p_connections p ! snd x"
    and fd: "\<forall>x \<in> set todo. c_fd (p_connections p ! snd x) \<noteq> c_fd (p_connections p ! i)"
    and IH: "sent_to L clk t data p1 s1 todo p' s'"
  shows "sent_to L clk t data p s ((k, i) # todo) p' s'"
proof -
  have send: "slot_send L clk t data p1 s1 x = slot_send L clk t data p s x" if "x \<in> set todo" for x
    using that other fd s1 by (simp add: slot_send_def)
  have oks: "filter (sent_ok L clk t data p1 s1) todo = filter (sent_ok L clk t data p s) todo"
    by (rule filter_cong) (simp_all add: sent_ok_def send)
  have fds: "(\<lambda>x. c_fd (p_connections p1 ! snd x)) ` set todo = (\<lambda>x. c_fd (p_connections p ! snd x)) ` set todo"
    by (rule image_cong) (use other in simp_all)
  have slot: "p_connections p' ! j = p_connections p1 ! j" if "j \<notin> snd ` set todo" for j
    using that IH unfolding sent_to_def by blast
  have sock: "si_socks s' x = si_socks s1 x" if "x \<notin> (\<lambda>x. c_fd (p_connections p ! snd x)) ` set todo" for x
    using that IH unfolding sent_to_def fds by blast
  have "c_fd (p_connections p ! i) \<notin> (\<lambda>x. c_fd (p_connections p ! snd x)) ` set todo" using fd by auto
  from slot [OF new(1)] sock [OF this] have here: "p_connections p' ! i = c'" "si_socks s' (c_fd (p_connections p ! i)) = sk"
    using p1 s1 i by simp_all
  have sent: "\<exists>r. slot_send L clk t data p s x = Some (r, p_connections p' ! snd x, si_socks s' (c_fd (p_connections p ! snd x)))"
    if "x \<in> set ((k, i) # todo)" for x
  proof (cases "x \<in> set todo")
    case True
    have "\<exists>r. slot_send L clk t data p1 s1 x = Some (r, p_connections p' ! snd x, si_socks s' (c_fd (p_connections p1 ! snd x)))"
      using IH True unfolding sent_to_def by blast
    then show ?thesis unfolding send [OF True] bspec [OF other True] .
  next
    case False
    with that have "x = (k, i)" by simp
    with r here show ?thesis by simp
  qed
  have ok: "sent_ok L clk t data p s (k, i) \<longleftrightarrow> r = 0" using r by (simp add: sent_ok_def)
  have msgs: "messages_sent (ss_messages (si_stats s')) =
      messages_sent (ss_messages (si_stats s)) + of_nat (length (filter (sent_ok L clk t data p s) ((k, i) # todo)))"
    using IH st ok unfolding sent_to_def oks by (simp add: algebra_simps)
  have "p_connections p' ! j = p_connections p ! j" if "j \<notin> snd ` set ((k, i) # todo)" for j
    using that slot p1 by simp
  moreover have "si_socks s' x = si_socks s x" if "x \<notin> (\<lambda>x. c_fd (p_connections p ! snd x)) ` set ((k, i) # todo)" for x
    using that sock s1 by simp
  ultimately show ?thesis unfolding sent_to_def using sent msgs by blast
qed

lemma send_to_each_slots:
  assumes "si_pool s = Some p" and "pool_inv p" and "distinct is"
    and "\<forall>i \<in> set is. i < p_capacity p \<and> in_use (p_connections p ! i)"
    and "inj_on (\<lambda>i. c_fd (p_connections p ! i)) (set is)"
    and "\<forall>(k, i) \<in> set (enumerate k is). \<not> skip (connection_get_info (p_connections p ! i)) \<longrightarrow> slot_send L clk t data p s (k, i) \<noteq> None"
  shows "\<exists>n s' p'. send_to_each L clk t data skip k (map (\<lambda>i. connection_get_info (p_connections p ! i)) is) s = Done (n, s') \<and>
    si_pool s' = Some p' \<and> pool_inv p' \<and> p_capacity p' = p_capacity p \<and>
    n = length (filter (sent_ok L clk t data p s) (filter (\<lambda>(k, i). \<not> skip (connection_get_info (p_connections p ! i))) (enumerate k is))) \<and>
    sent_to L clk t data p s (filter (\<lambda>(k, i). \<not> skip (connection_get_info (p_connections p ! i))) (enumerate k is)) p' s'"
  using assms
proof (induction "is" arbitrary: k s p)
  case Nil
  then show ?case by (auto simp: sent_to_def)
next
  case (Cons i js)
  let ?c = "p_connections p ! i"
  show ?case
  proof (cases "skip (connection_get_info ?c)")
    case True
    have "\<forall>(k, i) \<in> set (enumerate (Suc k) js). \<not> skip (connection_get_info (p_connections p ! i)) \<longrightarrow> slot_send L clk t data p s (k, i) \<noteq> None"
      using Cons.prems(6) by (auto simp: enumerate_simps)
    from Cons.IH [OF Cons.prems(1,2) _ _ _ this] Cons.prems True show ?thesis by (simp add: enumerate_simps)
  next
    case False
    obtain r c' sk where r: "slot_send L clk t data p s (k, i) = Some (r, c', sk)"
      using Cons.prems(6) False by (auto simp: enumerate_simps)
    have i: "i < p_capacity p" "in_use ?c" and len: "length (p_connections p) = p_capacity p"
      using Cons.prems by (auto simp: pool_inv_def)
    define s1 where "s1 = after_send L clk t data p s (k, i)"
    obtain p1 where p1: "si_pool s1 = Some p1" "pool_inv p1" "p_capacity p1 = p_capacity p" "p_connections p1 = (p_connections p)[i := c']"
        "si_socks s1 = (si_socks s)(c_fd ?c := sk)" "c_fd c' = c_fd ?c" "c_id c' = c_id ?c" "c_user_id c' = c_user_id ?c"
        "messages_sent (ss_messages (si_stats s1)) = messages_sent (ss_messages (si_stats s)) + (if r = 0 then 1 else 0)"
      using after_send_pool [OF Cons.prems(2) i(1) r] unfolding s1_def by metis
    have other: "p_connections p1 ! j = p_connections p ! j" "c_fd (p_connections p ! j) \<noteq> c_fd ?c" if "j \<in> set js" for j
    proof -
      have "j \<noteq> i" using that Cons.prems(3) by auto
      then show "p_connections p1 ! j = p_connections p ! j" using p1(4) by simp
      from \<open>j \<noteq> i\<close> show "c_fd (p_connections p ! j) \<noteq> c_fd ?c" using that Cons.prems(5) by (auto simp: inj_on_def)
    qed
    have send: "slot_send L clk t data p1 s1 (m, j) = slot_send L clk t data p s (m, j)" if "j \<in> set js" for m j
      using other [OF that] p1(5) by (simp add: slot_send_def)
    have infos: "map (\<lambda>j. connection_get_info (p_connections p1 ! j)) js = map (\<lambda>j. connection_get_info (p_connections p ! j)) js"
      using other by simp
    have en: "snd x \<in> set js" if "x \<in> set (enumerate (Suc k) js)" for x
      using that unfolding enumerate_eq_zip by (metis prod.collapse set_zip_rightD)
    let ?todo = "filter (\<lambda>(k, i). \<not> skip (connection_get_info (p_connections p ! i))) (enumerate (Suc k) js)"
    have todo: "filter (\<lambda>(k, i). \<not> skip (connection_get_info (p_connections p1 ! i))) (enumerate (Suc k) js) = ?todo"
      by (rule filter_cong) (use en other in \<open>fastforce+\<close>)
    have oks: "filter (sent_ok L clk t data p1 s1) ?todo = filter (sent_ok L clk t data p s) ?todo"
      by (rule filter_cong) (use en send in \<open>fastforce simp: sent_ok_def\<close>)+
    have pre: "\<forall>(m, j) \<in> set (enumerate (Suc k) js). \<not> skip (connection_get_info (p_connections p1 ! j)) \<longrightarrow> slot_send L clk t data p1 s1 (m, j) \<noteq> None"
      using Cons.prems(6) en other send by (fastforce simp: enumerate_simps)
    have slots: "\<forall>j \<in> set js. j < p_capacity p1 \<and> in_use (p_connections p1 ! j)" "inj_on (\<lambda>j. c_fd (p_connections p1 ! j)) (set js)" "distinct js"
      using Cons.prems(3,4,5) other p1(3) by (auto simp: inj_on_def)
    obtain n s' p' where IH: "send_to_each L clk t data skip (Suc k) (map (\<lambda>j. connection_get_info (p_connections p ! j)) js) s1 = Done (n, s')"
        "si_pool s' = Some p'" "pool_inv p'" "p_capacity p' = p_capacity p1" "n = length (filter (sent_ok L clk t data p s) ?todo)"
        "sent_to L clk t data p1 s1 ?todo p' s'"
      using Cons.IH [OF p1(1,2) slots(3,1,2) pre] unfolding infos todo oks by metis
    have run: "send_to_each L clk t data skip k (map (\<lambda>j. connection_get_info (p_connections p ! j)) (i # js)) s = Done (if r = 0 then Suc n else n, s')"
      using False IH(1) send_to_slot [OF Cons.prems(1,2) i, of L clk t data k] r by (simp add: connection_get_info_def s1_def)
    have sn: "i \<notin> snd ` set ?todo" using en Cons.prems(3) by auto
    have "sent_to L clk t data p s ((k, i) # ?todo) p' s'"
      by (rule sent_to_Cons [where ?s1.0 = s1 and ?p1.0 = p1, OF r p1(4,5) _ p1(9) sn _ _ IH(6)])
         (use i len en other in auto)
    with run IH p1(3) False r show ?thesis by (auto simp: enumerate_simps sent_ok_def)
  qed
qed

text \<open>The slots a message goes to, with their position in the list of the open connections, where \<open>out\<close> leaves users out.\<close>

definition recipients :: "connection_pool \<Rightarrow> (64 word \<Rightarrow> bool) \<Rightarrow> (nat \<times> nat) list" where
  "recipients p out = filter (\<lambda>(k, i). \<not> out (c_user_id (p_connections p ! i))) (enumerate 0 (active_slots p))"

lemma filter_slots: "filter P xs = map ((!) xs) (filter (\<lambda>i. P (xs ! i)) [0..<length xs])"
proof -
  have "filter P xs = filter P (map ((!) xs) [0..<length xs])" by (simp add: map_nth)
  also have "\<dots> = map ((!) xs) (filter (\<lambda>i. P (xs ! i)) [0..<length xs])" by (simp only: filter_map comp_def)
  finally show ?thesis .
qed

lemma active_connections_slots:
  assumes "si_pool s = Some p" and "pool_inv p"
  shows "server_get_active_connections True s = (0, Some (map (\<lambda>i. connection_get_info (p_connections p ! i)) (active_slots p), length (active_slots p)))"
proof -
  have "filter (\<lambda>c. c_fd c \<noteq> -1) (p_connections p) = map ((!) (p_connections p)) (active_slots p)"
    using assms(2) filter_slots [of in_use "p_connections p"] by (simp add: active_slots_def pool_inv_def)
  with assms show ?thesis by (simp add: server_get_active_connections_def connection_pool_get_active_connections_def Let_def)
qed

lemma send_to_recipients:
  assumes "si_pool s = Some p" and "pool_inv p" and "inj_on (\<lambda>i. c_fd (p_connections p ! i)) (set (active_slots p))"
    and "\<forall>x \<in> set (recipients p out). slot_send L clk t data p s x \<noteq> None"
  shows "\<exists>s' p'. send_to_each L clk t data (\<lambda>ci. out (i_user_id ci)) 0 (map (\<lambda>i. connection_get_info (p_connections p ! i)) (active_slots p)) s =
      Done (length (filter (sent_ok L clk t data p s) (recipients p out)), s') \<and>
    si_pool s' = Some p' \<and> pool_inv p' \<and> sent_to L clk t data p s (recipients p out) p' s'"
proof -
  have eq: "recipients p out = filter (\<lambda>(k, i). \<not> out (i_user_id (connection_get_info (p_connections p ! i)))) (enumerate 0 (active_slots p))"
    by (simp add: recipients_def connection_get_info_def)
  have "\<forall>i \<in> set (active_slots p). i < p_capacity p \<and> in_use (p_connections p ! i)" "distinct (active_slots p)"
    by (simp_all add: active_slots_def)
  moreover have "\<forall>(k, i) \<in> set (enumerate 0 (active_slots p)). \<not> out (i_user_id (connection_get_info (p_connections p ! i))) \<longrightarrow>
      slot_send L clk t data p s (k, i) \<noteq> None"
    using assms(4) unfolding eq by auto
  ultimately obtain n s' p' where "send_to_each L clk t data (\<lambda>ci. out (i_user_id ci)) 0
        (map (\<lambda>i. connection_get_info (p_connections p ! i)) (active_slots p)) s = Done (n, s')"
      "si_pool s' = Some p'" "pool_inv p'" "n = length (filter (sent_ok L clk t data p s) (recipients p out))"
      "sent_to L clk t data p s (recipients p out) p' s'"
    using send_to_each_slots [OF assms(1,2) _ _ assms(3), where skip = "\<lambda>ci. out (i_user_id ci)" and k = 0 and L = L and clk = clk and t = t and data = data] eq
    by fastforce
  then show ?thesis by blast
qed

lemma no_recipients:
  assumes "active_slots p = []"
  shows "recipients p out = []"
  using assms by (simp add: recipients_def)

text \<open>
  A broadcast reaches exactly the open connections whose user is not the excluded one (0 excludes nobody). When every send returns,
  the broadcast returns; each recipient's connection and socket are as \<open>connection_send_message\<close> leaves them, every other slot and
  every other socket is untouched, the pool stays well formed, and the count reported, by which the statistics grow too, is the number
  of recipients whose send succeeded. The hypothesis on descriptors is the kernel's: open descriptors differ.
\<close>

theorem broadcast_reaches:
  assumes "si_pool s = Some p" and "pool_inv p" and "inj_on (\<lambda>i. c_fd (p_connections p ! i)) (set (active_slots p))"
    and "\<forall>x \<in> set (recipients p (\<lambda>u. exclude > 0 \<and> u = exclude)). slot_send L clk t data p s x \<noteq> None"
  shows "\<exists>s' p'. server_broadcast_message L clk True t data exclude s =
      Done (length (filter (sent_ok L clk t data p s) (recipients p (\<lambda>u. exclude > 0 \<and> u = exclude))), s') \<and>
    si_pool s' = Some p' \<and> pool_inv p' \<and> sent_to L clk t data p s (recipients p (\<lambda>u. exclude > 0 \<and> u = exclude)) p' s'"
proof (cases "active_slots p = []")
  case True
  with assms show ?thesis
    by (simp add: server_broadcast_message_def active_connections_slots no_recipients sent_to_def)
next
  case False
  with assms(1,2) send_to_recipients [OF assms] show ?thesis
    by (simp add: server_broadcast_message_def active_connections_slots)
qed

text \<open>The same for the messages to one user: 0 is reported when one of the sends succeeds.\<close>

lemma send_to_user_reaches:
  assumes "si_pool s = Some p" and "pool_inv p" and "inj_on (\<lambda>i. c_fd (p_connections p ! i)) (set (active_slots p))"
    and "\<forall>x \<in> set (recipients p (\<lambda>u. u \<noteq> user)). slot_send L clk t data p s x \<noteq> None" and "active_slots p \<noteq> []"
  shows "\<exists>s' p'. server_send_to_user L clk True user t data s =
      Done (if \<exists>x \<in> set (recipients p (\<lambda>u. u \<noteq> user)). sent_ok L clk t data p s x then 0 else -2, s') \<and>
    si_pool s' = Some p' \<and> pool_inv p' \<and> sent_to L clk t data p s (recipients p (\<lambda>u. u \<noteq> user)) p' s'"
proof -
  let ?R = "recipients p (\<lambda>u. u \<noteq> user)"
  have "length (filter (sent_ok L clk t data p s) ?R) > 0 \<longleftrightarrow> (\<exists>x \<in> set ?R. sent_ok L clk t data p s x)"
    by (simp add: filter_empty_conv)
  with assms(1,2,5) send_to_recipients [OF assms(1-4)] show ?thesis
    by (auto simp: server_send_to_user_def active_connections_slots simp del: length_greater_0_conv)
qed

definition demo_library :: library where
  "demo_library = \<lparr>lb_ser = packed_ser, lb_deser = packed_deser, lb_chk = (\<lambda>_. 7), lb_ntop = (\<lambda>_. ''127.0.0.1''),
     lb_close = (\<lambda>p i. p\<lparr>p_connections := (p_connections p)[i := the (fst (snd (connection_close (Some (p_connections p ! i)) True)))]\<rparr>)\<rparr>"

definition demo_instance :: server_instance where
  "demo_instance = \<lparr>si_config = server_config_init, si_state = Server_Running, si_tcp_fd = 3, si_ws_fd = 0, si_epoll_fd = 4, si_parts = (\<lambda>_. True),
     si_pool = Some busy_pool, si_stats = zero_statistics, si_callback = False, si_running = True, si_shutdown_requested = False,
     si_socks = (\<lambda>_. demo_sock), si_events = [], si_audit = [], si_trace = []\<rparr>"

lemma demo_instance_simps [simp]:
  "si_pool demo_instance = Some busy_pool" "si_socks demo_instance fd = demo_sock" "p_connections busy_pool = [blank_connection, demo_conn]"
  "p_capacity busy_pool = 2" "active_slots busy_pool = [1]"
proof -
  show c: "p_connections busy_pool = [blank_connection, demo_conn]" "p_capacity busy_pool = 2"
    using demo_pool(2) by (simp_all add: busy_pool_def)
  have "[0..<2] = [0, 1::nat]" by (simp add: upt_rec)
  with c show "active_slots busy_pool = [1]" by (simp add: active_slots_def blank_connection_def demo_conn_def)
qed (simp_all add: demo_instance_def)

lemma demo_send:
  "\<exists>c sk. conn_send_message packed_ser (\<lambda>_. 7) (\<lambda>_. 10) demo_conn demo_sock t [1, 2] = Some (0, c, sk)"
  using header_codecD(1) [OF packed_codec make_header_reserved, of "\<lambda>_. 7" 10 1 t "[1, 2]"]
  by (auto simp: word_le_nat_alt conn_send_message_def conn_send_def demo_conn_def demo_sock_def connection_init_rate_limiter_def
      connection_check_rate_limit_def check_rate_limit_reset_def update_rate_limiter_def sizeof_header_def Let_def)

lemma broadcast_reaches_witness:
  "\<exists>s' p'. server_broadcast_message demo_library (\<lambda>_ _. 10) True MSG_SYSTEM_NOTIFICATION [1, 2] 9 demo_instance = Done (1, s') \<and>
    si_pool s' = Some p' \<and> pool_inv p' \<and> p_connections p' ! 0 = blank_connection"
proof -
  have r: "recipients busy_pool (\<lambda>u. 9 > (0 :: 64 word) \<and> u = 9) = [(0, 1)]"
    by (simp add: recipients_def demo_conn_def enumerate_simps)
  obtain c sk where send: "slot_send demo_library (\<lambda>_ _. 10) MSG_SYSTEM_NOTIFICATION [1, 2] busy_pool demo_instance (0, 1) = Some (0, c, sk)"
    using demo_send [of MSG_SYSTEM_NOTIFICATION] by (auto simp: slot_send_def demo_library_def)
  then have "sent_ok demo_library (\<lambda>_ _. 10) MSG_SYSTEM_NOTIFICATION [1, 2] busy_pool demo_instance (0, 1)" by (simp add: sent_ok_def)
  with r send broadcast_reaches [of demo_instance busy_pool 9 demo_library "\<lambda>_ _. 10" MSG_SYSTEM_NOTIFICATION "[1, 2]"] busy_pool(1)
  show ?thesis by (fastforce simp: sent_to_def)
qed

section \<open>Waiting and removing\<close>

lemma wait_for_state_unfold:
  "wait_for_state target ms st [] = (if st = target then Some 0 else None)"
  "wait_for_state target ms st (w # ws) =
     (if st = target then Some 0 else if ms \<noteq> 0 \<and> snd w then Some (-2) else wait_for_state target ms (fst w) ws)"
  by (subst wait_for_state.simps, simp split: prod.splits)+

text \<open>
  Waiting for a state: the call returns 0 when the state is the target at once or after a wait that no timeout precedes, and only
  then; it returns \<open>-2\<close> exactly when a limited wait (\<open>timeout_ms\<close> other than 0) times out before that; otherwise it is waiting still.
\<close>

theorem wait_returns:
  "server_wait_for_state target ms s wakes =
     (if target \<in> set (si_state s # map fst (takeWhile (\<lambda>w. ms = 0 \<or> \<not> snd w) wakes)) then Some 0
      else if ms \<noteq> 0 \<and> list_ex snd wakes then Some (-2) else None)"
proof -
  define go :: "server_state \<times> bool \<Rightarrow> bool" where "go = (\<lambda>w. ms = 0 \<or> \<not> snd w)"
  have "wait_for_state target ms st wakes =
     (if st = target \<or> target \<in> fst ` set (takeWhile go wakes) then Some 0 else if ms \<noteq> 0 \<and> list_ex snd wakes then Some (-2) else None)" for st
  proof (induction wakes arbitrary: st)
    case Nil
    then show ?case by (simp add: wait_for_state_unfold)
  next
    case (Cons w ws)
    show ?case
    proof (cases "go w")
      case True
      then have "\<not> (ms \<noteq> 0 \<and> snd w)" by (auto simp: go_def)
      then have "wait_for_state target ms st (w # ws) = (if st = target then Some 0 else wait_for_state target ms (fst w) ws)"
        "ms \<noteq> 0 \<and> list_ex snd (w # ws) \<longleftrightarrow> ms \<noteq> 0 \<and> list_ex snd ws"
        "target \<in> fst ` set (takeWhile go (w # ws)) \<longleftrightarrow> fst w = target \<or> target \<in> fst ` set (takeWhile go ws)"
        using True by (auto simp: wait_for_state_unfold)
      then show ?thesis by (simp only: Cons.IH) simp
    next
      case False
      then show ?thesis by (simp add: go_def wait_for_state_unfold)
    qed
  qed
  then show ?thesis unfolding go_def by (auto simp: server_wait_for_state_def)
qed

text \<open>A connection can be removed without a reason, unless somebody listens: the event passes on \<open>strlen(reason)\<close>.\<close>

lemma kick_without_reason:
  assumes "si_pool s = Some p" and "connection_pool_get_by_id (Some p) conn_id = Some i"
  shows "server_kick_connection L clk conn_id None s =
    (if si_callback s then Undefined_Behaviour
     else Done (0, log_audit_event (clk 11) ''CONNECTION_KICKED'' (c_user_id (p_connections (lb_close L p i) ! i)) conn_id None
       (s\<lparr>si_pool := Some (lb_close L p i)\<rparr>)))"
  using assms by (simp add: server_kick_connection_def trigger_text_event_def log_audit_event_def Let_def)

end
