(* ===== verification/Server_Life.thy ===== *)
theory Server_Life
  imports Server_State
begin

text \<open>
  The life cycle of the server (\<open>server_create\<close>, \<open>server_init\<close> with its steps, \<open>server_start\<close>, \<open>server_stop\<close>, \<open>server_destroy\<close>,
  \<open>server_backup_data\<close>, \<open>server_restore_data\<close> of \<open>server/src/server_core.c\<close>). The trace of a server lists what it acquires and
  releases, in order. The answers of the kernel, of OpenSSL and of SQLite, and whether the other components can be created and
  started, are the environments of the operations. A process that forks is followed in the child.
\<close>

section \<open>Resources\<close>

definition acquire :: "part \<Rightarrow> server_instance \<Rightarrow> server_instance" where
  "acquire p s = s\<lparr>si_parts := (si_parts s)(p := True), si_trace := si_trace s @ [Acquired (Part p)]\<rparr>"

definition release :: "part \<Rightarrow> server_instance \<Rightarrow> server_instance" where
  "release p s = s\<lparr>si_parts := (si_parts s)(p := False), si_trace := si_trace s @ [Released (Part p)]\<rparr>"

text \<open>\<open>if (server->x) { x_destroy(server->x); server->x = NULL; }\<close>\<close>

definition release_part :: "part \<Rightarrow> server_instance \<Rightarrow> server_instance" where
  "release_part p s = (if si_parts s p then release p s else s)"

definition open_fd :: "int \<Rightarrow> server_instance \<Rightarrow> server_instance" where
  "open_fd fd s = s\<lparr>si_trace := si_trace s @ [Acquired (Descriptor fd)]\<rparr>"

definition close_fd :: "int \<Rightarrow> server_instance \<Rightarrow> server_instance" where
  "close_fd fd s = s\<lparr>si_trace := si_trace s @ [Released (Descriptor fd)]\<rparr>"

section \<open>Creation\<close>

text \<open>\<open>ok 0\<close>: the structure, zeroed, \<open>ok 1\<close>: the mutexes, \<open>ok 2\<close>: the condition variable.\<close>

definition blank_server :: "server_config \<Rightarrow> 64 word \<Rightarrow> server_instance" where
  "blank_server config now = \<lparr>si_config = config, si_state = Server_Initializing, si_tcp_fd = 0, si_ws_fd = 0, si_epoll_fd = 0,
     si_parts = (\<lambda>_. False), si_pool = None, si_stats = zero_statistics\<lparr>ss_times := (ss_times zero_statistics)\<lparr>startup_time := now\<rparr>\<rparr>,
     si_callback = False, si_running = False, si_shutdown_requested = False, si_socks = (\<lambda>_. \<lparr>sk_answers = [], sk_wire = []\<rparr>),
     si_events = [], si_audit = [], si_trace = []\<rparr>"

definition server_create :: "(nat \<Rightarrow> bool) \<Rightarrow> 64 word \<Rightarrow> server_config option \<Rightarrow> server_instance option" where
  "server_create ok now config =
     (if \<not> ok 0 then None
      else if \<not> ok 1 then None
      else if \<not> ok 2 then None
      else Some (blank_server (case config of Some c \<Rightarrow> c | None \<Rightarrow> server_config_init) now))"

section \<open>Initialisation\<close>

text \<open>The answers in the order of the calls: \<open>ne_options\<close> to \<open>ne_nonblocking\<close> say whether the call succeeds; \<open>ne_socket\<close> and
  \<open>ne_epoll\<close> are descriptors, negative on failure.\<close>

record net_env =
  ne_socket :: int
  ne_options :: bool
  ne_bind :: bool
  ne_listen :: bool
  ne_epoll :: int
  ne_epoll_add :: bool
  ne_nonblocking :: bool

text \<open>\<open>ce_pool\<close>: the four allocations and locks of the connection pool; \<open>ce_parts p\<close>: the part can be created; \<open>ce_ws_start\<close>: what
  \<open>websocket_server_start\<close> returns (0 on success, \<open>-1\<close> on failure); \<open>ce_monitoring_start\<close>: what \<open>monitoring_server_start\<close>, which is not in
  the sources, returns is not zero; \<open>ce_ws_fd\<close>: the descriptor of the WebSocket server; \<open>ce_ws_add\<close>: it can be added to the epoll instance;
  \<open>ce_db_open\<close>, \<open>ce_db_tables\<close>: the results of SQLite, which may hand out a connection even when it cannot open the file.\<close>

record component_env =
  ce_parts :: "part \<Rightarrow> bool"
  ce_pool :: "bool \<times> bool \<times> bool \<times> bool"
  ce_db_open :: bool
  ce_db_tables :: bool
  ce_ws_start :: int
  ce_ws_fd :: int
  ce_ws_add :: bool
  ce_monitoring_start :: bool

record process_env =
  pe_nofile :: "64 word option"
  pe_setrlimit :: bool
  pe_user_exists :: bool
  pe_setgid :: bool
  pe_setuid :: bool
  pe_fork :: "nat \<Rightarrow> bool"
  pe_setsid :: bool
  pe_null_fd :: int
  pe_dup2 :: "nat \<Rightarrow> bool"
  pe_chdir :: bool
  pe_pid_file :: bool
  pe_cert :: "nat \<Rightarrow> bool"

definition check_system_limits :: "process_env \<Rightarrow> server_instance \<Rightarrow> bool" where
  "check_system_limits e s =
     (case pe_nofile e of None \<Rightarrow> True
      | Some cur \<Rightarrow>
          let required_fds = (of_int (max_clients (cf_network (si_config s)) + 100) :: 64 word) in
          if cur < required_fds then pe_setrlimit e else True)"

definition drop_privileges :: "process_env \<Rightarrow> server_instance \<Rightarrow> bool" where
  "drop_privileges e s =
     (if run_as_user (cf_run (si_config s)) = None then True
      else if \<not> pe_user_exists e then False
      else if \<not> pe_setgid e then False
      else if \<not> pe_setuid e then False
      else True)"

definition daemonize_server :: "process_env \<Rightarrow> bool" where
  "daemonize_server e =
     (if \<not> pe_fork e 0 then False
      else if \<not> pe_setsid e then False
      else if \<not> pe_fork e 1 then False
      else if pe_null_fd e \<noteq> 0 then False
      else if \<not> pe_dup2 e 0 then False
      else if \<not> pe_dup2 e 1 then False
      else if \<not> pe_chdir e then False
      else True)"

definition write_pid_file :: "process_env \<Rightarrow> server_instance \<Rightarrow> bool" where
  "write_pid_file e s = (if pid_file (cf_run (si_config s)) = None then True else pe_pid_file e)"

text \<open>\<open>pe_cert 0\<close>, \<open>1\<close>, \<open>2\<close>: the certificate loads, the key loads, they match. A CA file that does not load is only logged.\<close>

definition server_init_ssl :: "component_env \<Rightarrow> process_env \<Rightarrow> server_instance \<Rightarrow> bool \<times> server_instance" where
  "server_init_ssl ce pe s =
     (if \<not> ce_parts ce Ssl_Ctx then (False, s)
      else
        let s1 = acquire Ssl_Ctx s in
        if \<not> pe_cert pe 0 then (False, release Ssl_Ctx s1)
        else if \<not> pe_cert pe 1 then (False, release Ssl_Ctx s1)
        else if \<not> pe_cert pe 2 then (False, release Ssl_Ctx s1)
        else (True, s1))"

text \<open>\<open>tcp_fd\<close> and \<open>epoll_fd\<close> keep their values when the descriptors are closed again.\<close>

definition server_init_network :: "net_env \<Rightarrow> server_instance \<Rightarrow> bool \<times> server_instance" where
  "server_init_network ne s =
     (let tcp = ne_socket ne; epoll = ne_epoll ne; s0 = s\<lparr>si_tcp_fd := tcp\<rparr> in
      if tcp < 0 then (False, s0)
      else
        let s1 = open_fd tcp s0 in
        if \<not> ne_options ne then (False, close_fd tcp s1)
        else if \<not> ne_bind ne then (False, close_fd tcp s1)
        else if \<not> ne_listen ne then (False, close_fd tcp s1)
        else
          let s2 = s1\<lparr>si_epoll_fd := epoll\<rparr> in
          if epoll < 0 then (False, close_fd tcp s2)
          else
            let s3 = open_fd epoll s2 in
            if \<not> ne_epoll_add ne then (False, close_fd tcp (close_fd epoll s3))
            else if \<not> ne_nonblocking ne then (False, close_fd tcp (close_fd epoll s3))
            else (True, s3))"

text \<open>The tables that \<open>server_init_database\<close> creates, with their columns.\<close>

definition created_tables :: "(string \<times> string list) list" where
  "created_tables =
     [(''users'', [''user_id'', ''username'', ''password_hash'', ''salt'', ''nickname'', ''email'', ''avatar'', ''status'', ''status_message'', ''last_seen'',
         ''created_at'', ''updated_at'', ''is_active'', ''login_attempts'', ''lockout_until'']),
      (''sessions'', [''session_id'', ''user_id'', ''token'', ''created_at'', ''expires_at'', ''ip_address'', ''user_agent'']),
      (''messages'', [''message_id'', ''sender_id'', ''receiver_id'', ''group_id'', ''message_type'', ''content'', ''content_hash'', ''timestamp'', ''status'',
         ''delivered_at'', ''read_at'']),
      (''file_transfers'', [''transfer_id'', ''sender_id'', ''receiver_id'', ''filename'', ''file_path'', ''file_size'', ''file_hash'', ''status'', ''progress'',
         ''start_time'', ''end_time'', ''error_message'']),
      (''audit_log'', [''audit_id'', ''event_type'', ''user_id'', ''connection_id'', ''ip_address'', ''description'', ''details'', ''timestamp''])]"

definition server_init_database :: "component_env \<Rightarrow> server_instance \<Rightarrow> bool \<times> server_instance" where
  "server_init_database ce s =
     (let s1 = (if ce_parts ce Db_Conn then acquire Db_Conn s else s) in
      if \<not> (ce_parts ce Db_Conn \<and> ce_db_open ce) then (False, s1)
      else if \<not> ce_db_tables ce then (False, release Db_Conn s1)
      else (True, s1))"

definition server_init_thread_pool :: "component_env \<Rightarrow> server_instance \<Rightarrow> bool \<times> server_instance" where
  "server_init_thread_pool ce s =
     (if \<not> ce_parts ce Thread_Pool_Part then (False, s) else (True, acquire Thread_Pool_Part s))"

text \<open>The test is \<open>!websocket_server_start(...)\<close>: it takes the 0 of a successful start for a failure, and a failed start for a success.\<close>

definition server_init_websocket :: "component_env \<Rightarrow> server_instance \<Rightarrow> bool \<times> server_instance" where
  "server_init_websocket ce s =
     (if \<not> ce_parts ce Ws_Server then (False, s)
      else
        let s1 = acquire Ws_Server s in
        if ce_ws_start ce = 0 then (False, release Ws_Server s1)
        else (True, if ce_ws_fd ce > 0 \<and> ce_ws_add ce then s1\<lparr>si_ws_fd := ce_ws_fd ce\<rparr> else s1))"

definition server_init_monitoring :: "component_env \<Rightarrow> server_instance \<Rightarrow> bool \<times> server_instance" where
  "server_init_monitoring ce s =
     (if \<not> ce_parts ce Monitoring_Part then (False, s)
      else
        let s1 = acquire Monitoring_Part s in
        if \<not> ce_monitoring_start ce then (False, release Monitoring_Part s1) else (True, s1))"

text \<open>The capacity of the pool is \<open>max_clients\<close>; what was created before a failure stays.\<close>

definition server_init_components :: "component_env \<Rightarrow> server_instance \<Rightarrow> bool \<times> server_instance" where
  "server_init_components ce s =
     (case ce_pool ce of (a, b, c, d) \<Rightarrow>
       (case connection_pool_create a b c d (nat (max_clients (cf_network (si_config s)))) of
          None \<Rightarrow> (False, s)
        | Some p \<Rightarrow>
            let s1 = s\<lparr>si_pool := Some p, si_trace := si_trace s @ [Acquired (Part Connection_Pool_Part)]\<rparr> in
            if \<not> ce_parts ce User_Manager then (False, s1)
            else
              let s2 = acquire User_Manager s1 in
              if \<not> ce_parts ce Message_Queue_Part then (False, s2)
              else
                let s3 = acquire Message_Queue_Part s2 in
                if \<not> ce_parts ce Transfer_Manager_Part then (False, s3)
                else
                  let s4 = acquire Transfer_Manager_Part s3 in
                  (True, if enable_audit (cf_security (si_config s)) \<and> ce_parts ce Audit_File then acquire Audit_File s4 else s4)))"

definition server_init :: "process_env \<Rightarrow> net_env \<Rightarrow> component_env \<Rightarrow> 64 word \<Rightarrow> server_instance \<Rightarrow> int \<times> server_instance" where
  "server_init pe ne ce now s =
     (if si_state s \<noteq> Server_Initializing then (-2, s)
      else if \<not> check_system_limits pe s then (-3, s)
      else if run_as_user (cf_run (si_config s)) \<noteq> None \<and> \<not> drop_privileges pe s then (-5, s)
      else if run_as_daemon (cf_run (si_config s)) \<and> \<not> daemonize_server pe then (-6, s)
      else if pid_file (cf_run (si_config s)) \<noteq> None \<and> \<not> write_pid_file pe s then (-7, s)
      else case (if enable_ssl (cf_ssl (si_config s)) then server_init_ssl ce pe s else (True, s)) of (ok1, s1) \<Rightarrow>
        if \<not> ok1 then (-8, s1)
        else case server_init_network ne s1 of (ok2, s2) \<Rightarrow>
          if \<not> ok2 then (-9, s2)
          else case server_init_database ce s2 of (ok3, s3) \<Rightarrow>
            if \<not> ok3 then (-10, s3)
            else case server_init_thread_pool ce s3 of (ok4, s4) \<Rightarrow>
              if \<not> ok4 then (-11, s4)
              else case server_init_websocket ce s4 of (ok5, s5) \<Rightarrow>
                if \<not> ok5 then (-12, s5)
                else case server_init_components ce (if enable_monitoring (cf_monitoring (si_config s)) then snd (server_init_monitoring ce s5) else s5) of (ok6, s6) \<Rightarrow>
                  if \<not> ok6 then (-13, s6)
                  else (0, trigger_event now Event_Startup (update_server_state Server_Running s6)))"

section \<open>Cleanup\<close>

definition release_pool :: "server_instance \<Rightarrow> server_instance outcome" where
  "release_pool s =
     (case si_pool s of None \<Rightarrow> Done s
      | Some p \<Rightarrow>
          obind (connection_pool_destroy (Some p)) (\<lambda>_.
            Done (s\<lparr>si_pool := None, si_trace := si_trace s @ [Released (Part Connection_Pool_Part)]\<rparr>)))"

definition server_cleanup_components :: "server_instance \<Rightarrow> server_instance outcome" where
  "server_cleanup_components s =
     obind (release_pool (release_part User_Manager (release_part Message_Queue_Part (release_part Transfer_Manager_Part s)))) (\<lambda>s1.
       let s2 = release_part Ssl_Ctx (release_part Db_Conn (release_part Thread_Pool_Part (release_part Ws_Server (release_part Monitoring_Part s1))));
           s3 = (if si_epoll_fd s2 \<ge> 0 then (close_fd (si_epoll_fd s2) s2)\<lparr>si_epoll_fd := -1\<rparr> else s2);
           s4 = (if si_tcp_fd s3 \<ge> 0 then (close_fd (si_tcp_fd s3) s3)\<lparr>si_tcp_fd := -1\<rparr> else s3)
       in Done (release_part Event_Array s4))"

section \<open>Start and stop\<close>

text \<open>\<open>threads k\<close>: the accept (0), cleanup (1) and maintenance (2) thread can be created; \<open>events\<close>: the accept thread has its event array and
  runs. A failure joins the threads that were started.\<close>

definition server_start :: "process_env \<Rightarrow> net_env \<Rightarrow> component_env \<Rightarrow> (nat \<Rightarrow> bool) \<Rightarrow> bool \<Rightarrow> (nat \<Rightarrow> 64 word) \<Rightarrow> server_instance \<Rightarrow> int \<times> server_instance" where
  "server_start pe ne ce threads events now s =
     (if si_running s then (0, s)
      else case server_init pe ne ce (now 0) s of (r, s1) \<Rightarrow>
        if r \<noteq> 0 then (r, s1)
        else if \<not> threads 0 then (-2, s1)
        else if \<not> threads 1 then (-3, s1\<lparr>si_running := False\<rparr>)
        else if \<not> threads 2 then (-4, s1\<lparr>si_running := False\<rparr>)
        else
          let s2 = (if events then acquire Event_Array s1 else s1)\<lparr>si_running := True\<rparr>;
              s3 = s2\<lparr>si_stats := (si_stats s2)\<lparr>ss_times := (ss_times (si_stats s2))\<lparr>startup_time := now 1\<rparr>\<rparr>\<rparr>
          in (0, trigger_event (now 2) Event_Startup s3))"

text \<open>\<open>others n p\<close>: what the rest of the program makes of the pool while the caller sleeps, with \<open>n\<close> polls of 100 ms left.\<close>

fun drain_wait :: "(nat \<Rightarrow> connection_pool \<Rightarrow> connection_pool) \<Rightarrow> nat \<Rightarrow> server_instance \<Rightarrow> server_instance" where
  "drain_wait others 0 s = s"
| "drain_wait others (Suc n) s =
     (case si_pool s of None \<Rightarrow> s
      | Some p \<Rightarrow>
          if connection_pool_get_active_count (Some p) > 0 then drain_wait others n (s\<lparr>si_pool := Some (others n p)\<rparr>) else s)"

text \<open>The text of the notification, in UTF-8.\<close>

definition shutdown_msg :: "byte list" where
  "shutdown_msg = [0xE6, 0x9C, 0x8D, 0xE5, 0x8A, 0xA1, 0xE5, 0x99, 0xA8, 0xE6, 0xAD, 0xA3, 0xE5, 0x9C, 0xA8, 0xE5, 0x85, 0xB3, 0xE9, 0x97, 0xAD, 0xEF, 0xBC, 0x8C, 0xE8, 0xAF, 0xB7, 0xE4, 0xBF, 0x9D, 0xE5, 0xAD, 0x98, 0xE6, 0x82, 0xA8, 0xE7, 0x9A, 0x84, 0xE5, 0xB7, 0xA5, 0xE4, 0xBD, 0x9C]"

text \<open>\<open>se_list\<close>: the list of connections can be allocated; \<open>se_exits\<close>: the accept thread has left its loop by itself and released its array,
  otherwise it is cancelled in it.\<close>

record stop_env =
  se_clk :: "nat \<Rightarrow> nat \<Rightarrow> 64 word"
  se_list :: bool
  se_others :: "nat \<Rightarrow> connection_pool \<Rightarrow> connection_pool"
  se_exits :: bool
  se_now :: "64 word"

definition server_stop :: "library \<Rightarrow> stop_env \<Rightarrow> bool \<Rightarrow> server_instance \<Rightarrow> (int \<times> server_instance) outcome" where
  "server_stop L e graceful s =
     (if \<not> si_running s then Done (0, s)
      else
        let s1 = update_server_state Server_Shutting_Down (s\<lparr>si_shutdown_requested := True, si_running := False\<rparr>) in
        obind (if graceful
               then obind (server_broadcast_message L (se_clk e) (se_list e) MSG_SYSTEM_NOTIFICATION shutdown_msg 0 s1) (\<lambda>(_, s2).
                      Done (drain_wait (se_others e) 300 s2))
               else Done s1) (\<lambda>s3.
        obind (server_cleanup_components (if se_exits e then release_part Event_Array s3 else s3)) (\<lambda>s4.
          Done (0, trigger_event (se_now e) Event_Shutdown (update_server_state Server_Shutdown s4)))))"

text \<open>The trace at the end. The wait of ten seconds for another thread to reach \<open>SHUTDOWN\<close> changes nothing of the server.\<close>

definition server_destroy :: "library \<Rightarrow> stop_env \<Rightarrow> server_instance option \<Rightarrow> life_event list outcome" where
  "server_destroy L e server =
     (case server of None \<Rightarrow> Done []
      | Some s \<Rightarrow>
          obind (if si_running s then obind (server_stop L e True s) (\<lambda>(_, s1). Done s1) else Done s) (\<lambda>s1.
          obind (server_cleanup_components s1) (\<lambda>s2.
            Done (si_trace (release_part Audit_File s2)))))"

section \<open>Backup and restore\<close>

text \<open>\<open>be k\<close>: the backup file opens, the backup starts, it copies everything, \<open>cp\<close> copies the uploads (only logged).\<close>

definition server_backup_data :: "(nat \<Rightarrow> bool) \<Rightarrow> (nat \<Rightarrow> 64 word) \<Rightarrow> string option \<Rightarrow> server_instance \<Rightarrow> (int \<times> server_instance) outcome" where
  "server_backup_data be now backup_path s =
     (case backup_path of None \<Rightarrow> Done (-1, s)
      | Some path \<Rightarrow>
          if si_parts s Db_Conn \<and> \<not> be 0 then Done (-2, s)
          else if si_parts s Db_Conn \<and> \<not> be 1 then Done (-3, s)
          else if si_parts s Db_Conn \<and> \<not> be 2 then Done (-4, s)
          else
            let s1 = s\<lparr>si_stats := (si_stats s)\<lparr>ss_times := (ss_times (si_stats s))\<lparr>last_backup_time := now 0\<rparr>\<rparr>\<rparr>
            in obind (trigger_text_event (now 1) Event_Backup 0 0 (Some path) s1) (\<lambda>s2. Done (0, s2)))"

text \<open>The result, whether the backup has replaced the database file, and the server; \<open>re k\<close>: the backup file exists, it can be renamed, the
  database opens again (SQLite hands out a connection in any case).\<close>

definition server_restore_data :: "library \<Rightarrow> stop_env \<Rightarrow> process_env \<Rightarrow> net_env \<Rightarrow> component_env \<Rightarrow> (nat \<Rightarrow> bool) \<Rightarrow> bool \<Rightarrow> (nat \<Rightarrow> 64 word) \<Rightarrow> (nat \<Rightarrow> bool) \<Rightarrow>
    string option \<Rightarrow> server_instance \<Rightarrow> (int \<times> bool \<times> server_instance) outcome" where
  "server_restore_data L e pe ne ce threads events now re backup_path s =
     (case backup_path of None \<Rightarrow> Done (-1, False, s)
      | Some path \<Rightarrow>
          if \<not> re 0 then Done (-2, False, s)
          else
            let was_running = si_running s in
            obind (if was_running then obind (server_stop L e True s) (\<lambda>(_, s1). Done s1) else Done s) (\<lambda>s1.
              let reopened = si_parts s1 Db_Conn;
                  s2 = (if reopened then release Db_Conn s1 else s1) in
              if reopened \<and> \<not> re 1 then Done (-3, False, s2)
              else
                let s3 = (if reopened then acquire Db_Conn s2 else s2) in
                if reopened \<and> \<not> re 2 then Done (-4, True, s3)
                else
                  let s4 = (if was_running then snd (server_start pe ne ce threads events now s3) else s3)
                  in obind (trigger_text_event (now 3) Event_Restore 0 0 (Some path) s4) (\<lambda>s5. Done (0, reopened, s5))))"


text \<open>The tables of the groups, which the message handlers read and write, are not among the tables created at the start.\<close>

lemma no_group_tables: "map_of created_tables ''groups'' = None" "map_of created_tables ''group_members'' = None"
  by (simp_all add: created_tables_def)

section \<open>The ledger\<close>

text \<open>The discipline of resources: nothing is acquired that is held, and nothing released that is not. \<open>None\<close> is a breach.\<close>

fun ledger :: "life_event list \<Rightarrow> resource set \<Rightarrow> resource set option" where
  "ledger [] S = Some S"
| "ledger (Acquired r # es) S = (if r \<in> S then None else ledger es (insert r S))"
| "ledger (Released r # es) S = (if r \<in> S then ledger es (S - {r}) else None)"

lemma ledger_append: "ledger (es @ fs) S = Option.bind (ledger es S) (ledger fs)"
  by (induction es S rule: ledger.induct) auto

text \<open>The parts a server holds, and the servers whose trace accounts for them and for the descriptors \<open>F\<close>.\<close>

definition holds :: "server_instance \<Rightarrow> part \<Rightarrow> bool" where
  "holds s p \<longleftrightarrow> (if p = Connection_Pool_Part then si_pool s \<noteq> None else si_parts s p)"

definition books :: "int set \<Rightarrow> server_instance \<Rightarrow> bool" where
  "books F s \<longleftrightarrow> ledger (si_trace s) {} = Some (Part ` {p. holds s p} \<union> Descriptor ` F)"

text \<open>Two servers that agree on everything but the trace and the parts \<open>P\<close>.\<close>

definition same_but :: "part set \<Rightarrow> server_instance \<Rightarrow> server_instance \<Rightarrow> bool" where
  "same_but P s s' \<longleftrightarrow> si_config s' = si_config s \<and> si_state s' = si_state s \<and> si_running s' = si_running s \<and> si_pool s' = si_pool s \<and>
     si_tcp_fd s' = si_tcp_fd s \<and> si_epoll_fd s' = si_epoll_fd s \<and> (\<forall>p. p \<notin> P \<longrightarrow> si_parts s' p = si_parts s p)"

lemmas life_defs = acquire_def release_def release_part_def open_fd_def close_fd_def

lemma parts_simps [simp]:
  "si_parts (acquire p s) q \<longleftrightarrow> q = p \<or> si_parts s q" "si_parts (release p s) q \<longleftrightarrow> q \<noteq> p \<and> si_parts s q"
  "si_parts (release_part p s) q \<longleftrightarrow> q \<noteq> p \<and> si_parts s q" "si_parts (open_fd fd s) = si_parts s" "si_parts (close_fd fd s) = si_parts s"
  by (auto simp: life_defs)

lemma pool_simps [simp]:
  "si_pool (acquire p s) = si_pool s" "si_pool (release p s) = si_pool s" "si_pool (release_part p s) = si_pool s"
  "si_pool (open_fd fd s) = si_pool s" "si_pool (close_fd fd s) = si_pool s"
  by (auto simp: life_defs)

lemma fd_simps [simp]:
  "si_tcp_fd (acquire p s) = si_tcp_fd s" "si_tcp_fd (release p s) = si_tcp_fd s" "si_tcp_fd (release_part p s) = si_tcp_fd s"
  "si_tcp_fd (open_fd fd s) = si_tcp_fd s" "si_tcp_fd (close_fd fd s) = si_tcp_fd s"
  "si_epoll_fd (acquire p s) = si_epoll_fd s" "si_epoll_fd (release p s) = si_epoll_fd s" "si_epoll_fd (release_part p s) = si_epoll_fd s"
  "si_epoll_fd (open_fd fd s) = si_epoll_fd s" "si_epoll_fd (close_fd fd s) = si_epoll_fd s"
  by (auto simp: life_defs)

lemma run_simps [simp]:
  "si_state (acquire p s) = si_state s" "si_state (release p s) = si_state s" "si_state (release_part p s) = si_state s"
  "si_state (open_fd fd s) = si_state s" "si_state (close_fd fd s) = si_state s"
  "si_running (acquire p s) = si_running s" "si_running (release p s) = si_running s" "si_running (release_part p s) = si_running s"
  "si_running (open_fd fd s) = si_running s" "si_running (close_fd fd s) = si_running s"
  "si_config (acquire p s) = si_config s" "si_config (release p s) = si_config s" "si_config (release_part p s) = si_config s"
  "si_config (open_fd fd s) = si_config s" "si_config (close_fd fd s) = si_config s"
  by (auto simp: life_defs)

lemma books_cong: "si_trace s' = si_trace s \<Longrightarrow> si_parts s' = si_parts s \<Longrightarrow> si_pool s' = None \<longleftrightarrow> si_pool s = None \<Longrightarrow> books F s' \<longleftrightarrow> books F s"
  by (simp add: books_def holds_def)

lemma books_event [simp]:
  "books F (trigger_event now t s) \<longleftrightarrow> books F s" "books F (update_server_state st s) \<longleftrightarrow> books F s"
  by (rule books_cong; simp add: trigger_event_def update_server_state_def)+

lemma books_acquire:
  assumes "books F s" and "\<not> si_parts s p" and "p \<noteq> Connection_Pool_Part"
  shows "books F (acquire p s)"
proof -
  have "{q. holds (acquire p s) q} = insert p {q. holds s q}" using assms(3) by (auto simp: holds_def)
  moreover have "Part p \<notin> Part ` {p. holds s p} \<union> Descriptor ` F" using assms(2,3) by (auto simp: holds_def)
  ultimately show ?thesis using assms(1) by (simp add: books_def ledger_append acquire_def)
qed

lemma books_release:
  assumes "books F s" and "si_parts s p" and "p \<noteq> Connection_Pool_Part"
  shows "books F (release p s)"
proof -
  have "Part ` {q. holds (release p s) q} \<union> Descriptor ` F = (Part ` {q. holds s q} \<union> Descriptor ` F) - {Part p}"
    using assms(3) by (auto simp: holds_def)
  moreover have "Part p \<in> Part ` {p. holds s p} \<union> Descriptor ` F" using assms(2,3) by (auto simp: holds_def)
  ultimately show ?thesis using assms(1) by (simp add: books_def ledger_append release_def)
qed

lemma books_release_part: "books F s \<Longrightarrow> p \<noteq> Connection_Pool_Part \<Longrightarrow> books F (release_part p s)"
  using books_release by (simp add: release_part_def)

lemma books_open:
  assumes "books F s" and "fd \<notin> F"
  shows "books (insert fd F) (open_fd fd s)"
proof -
  have "{q. holds (open_fd fd s) q} = {q. holds s q}" by (simp add: holds_def)
  then show ?thesis using assms by (auto simp: books_def ledger_append open_fd_def)
qed

lemma books_close:
  assumes "books F s" and "fd \<in> F"
  shows "books (F - {fd}) (close_fd fd s)"
proof -
  have "{q. holds (close_fd fd s) q} = {q. holds s q}" by (simp add: holds_def)
  moreover have "Part ` H \<union> Descriptor ` F - {Descriptor fd} = Part ` H \<union> Descriptor ` (F - {fd})" for H by auto
  ultimately show ?thesis using assms by (simp add: books_def ledger_append close_fd_def)
qed

lemma breach: "ledger es S = None \<Longrightarrow> ledger (es @ fs) S = None"
  by (simp add: ledger_append)

lemma books_bad_close:
  assumes "books F s" and "fd \<notin> F"
  shows "ledger (si_trace (close_fd fd s)) {} = None"
  using assms by (auto simp: books_def ledger_append close_fd_def)

section \<open>The steps of the initialisation\<close>

lemma init_ssl_books:
  assumes "server_init_ssl ce pe s = (ok, s')" and "books F s" and "\<not> si_parts s Ssl_Ctx"
  shows "books F s' \<and> same_but {Ssl_Ctx} s s'"
  using assms by (auto simp: server_init_ssl_def Let_def same_but_def books_acquire books_release split: if_splits)

lemma init_database_books:
  assumes "server_init_database ce s = (ok, s')" and "books F s" and "\<not> si_parts s Db_Conn"
  shows "books F s' \<and> same_but {Db_Conn} s s'"
  using assms by (auto simp: server_init_database_def Let_def same_but_def books_acquire books_release split: if_splits)

lemma init_thread_pool_books:
  assumes "server_init_thread_pool ce s = (ok, s')" and "books F s" and "\<not> si_parts s Thread_Pool_Part"
  shows "books F s' \<and> same_but {Thread_Pool_Part} s s'"
  using assms by (auto simp: server_init_thread_pool_def Let_def same_but_def books_acquire books_release split: if_splits)

text \<open>So the initialisation fails exactly when the WebSocket server has been started.\<close>

theorem websocket_started_means_failed:
  assumes "ce_parts ce Ws_Server"
  shows "fst (server_init_websocket ce s) \<longleftrightarrow> ce_ws_start ce \<noteq> 0"
  using assms by (simp add: server_init_websocket_def Let_def)

lemma init_websocket_books:
  assumes "server_init_websocket ce s = (ok, s')" and "books F s" and "\<not> si_parts s Ws_Server"
  shows "books F s' \<and> same_but {Ws_Server} s s'"
proof -
  have "books F (acquire Ws_Server s\<lparr>si_ws_fd := x\<rparr>)" for x
    using books_acquire [OF assms(2,3)] books_cong [of "acquire Ws_Server s\<lparr>si_ws_fd := x\<rparr>" "acquire Ws_Server s" F] by simp
  with assms show ?thesis
    by (auto simp: server_init_websocket_def Let_def same_but_def books_acquire books_release split: if_splits)
qed

lemma init_monitoring_books:
  assumes "books F s" and "\<not> si_parts s Monitoring_Part"
  shows "books F (snd (server_init_monitoring ce s)) \<and> same_but {Monitoring_Part} s (snd (server_init_monitoring ce s))"
  using assms by (auto simp: server_init_monitoring_def Let_def same_but_def books_acquire books_release)

lemma created_pool:
  assumes "connection_pool_create a b c d n = Some p"
  shows "\<not> p_locked p" and "\<not> list_ex in_use (p_connections p)"
  using assms by (auto simp: connection_pool_create_def blank_connection_def list_ex_iff split: if_splits)

text \<open>A pool that can be destroyed.\<close>

definition idle :: "connection_pool \<Rightarrow> bool" where
  "idle p \<longleftrightarrow> \<not> p_locked p \<and> \<not> list_ex in_use (p_connections p)"

lemma destroy_pool_outcome:
  "\<not> p_locked p \<Longrightarrow> connection_pool_destroy (Some p) = (if list_ex in_use (p_connections p) then Undefined_Behaviour else Done ())"
proof -
  have "destroy_slots i cs = (if list_ex in_use cs then Undefined_Behaviour else Done ())" for i cs
    by (induction cs arbitrary: i) (auto simp: connection_destroy_def Let_def)
  then show "\<not> p_locked p \<Longrightarrow> connection_pool_destroy (Some p) = (if list_ex in_use (p_connections p) then Undefined_Behaviour else Done ())"
    by (simp add: connection_pool_destroy_def pool_lock_def)
qed

lemma books_pool:
  assumes "books F s" and "si_pool s = None"
  shows "books F (s\<lparr>si_pool := Some p, si_trace := si_trace s @ [Acquired (Part Connection_Pool_Part)]\<rparr>)" (is "books F ?s")
proof -
  have "{q. holds ?s q} = insert Connection_Pool_Part {q. holds s q}" by (auto simp: holds_def)
  moreover have "Part Connection_Pool_Part \<notin> Part ` {p. holds s p} \<union> Descriptor ` F" using assms(2) by (auto simp: holds_def)
  ultimately show ?thesis using assms(1) by (simp add: books_def ledger_append)
qed

abbreviation own_parts :: "part set" where
  "own_parts \<equiv> {User_Manager, Message_Queue_Part, Transfer_Manager_Part, Audit_File}"

lemma init_components_books:
  assumes "server_init_components ce s = (ok, s')" and "books F s" and "si_pool s = None" and "\<forall>p \<in> own_parts. \<not> si_parts s p"
  shows "books F s' \<and> (\<forall>p. si_pool s' = Some p \<longrightarrow> idle p) \<and> same_but own_parts (s\<lparr>si_pool := si_pool s'\<rparr>) s'"
proof -
  obtain a b c d where e: "ce_pool ce = (a, b, c, d)" by (cases "ce_pool ce") auto
  let ?n = "nat (max_clients (cf_network (si_config s)))"
  show ?thesis
  proof (cases "connection_pool_create a b c d ?n")
    case None
    with assms e show ?thesis by (auto simp: server_init_components_def same_but_def)
  next
    case (Some p)
    define s1 where "s1 = s\<lparr>si_pool := Some p, si_trace := si_trace s @ [Acquired (Part Connection_Pool_Part)]\<rparr>"
    have b1: "books F s1" using books_pool [OF assms(2,3)] by (simp add: s1_def)
    have p1: "\<forall>q \<in> own_parts. \<not> si_parts s1 q" using assms(4) by (simp add: s1_def)
    have b2: "books F (acquire User_Manager s1)" using b1 p1 by (simp add: books_acquire)
    have b3: "books F (acquire Message_Queue_Part (acquire User_Manager s1))" using b2 p1 by (simp add: books_acquire)
    have b4: "books F (acquire Transfer_Manager_Part (acquire Message_Queue_Part (acquire User_Manager s1)))"
      using b3 p1 by (simp add: books_acquire)
    have b5: "books F (acquire Audit_File (acquire Transfer_Manager_Part (acquire Message_Queue_Part (acquire User_Manager s1))))"
      using b4 p1 by (simp add: books_acquire)
    have s1: "si_pool s1 = Some p" "same_but {} (s\<lparr>si_pool := Some p\<rparr>) s1" by (simp_all add: s1_def same_but_def)
    have cfg: "si_config s1 = si_config s" by (simp add: s1_def)
    let ?u = "acquire User_Manager s1"
    let ?m = "acquire Message_Queue_Part ?u"
    let ?t = "acquire Transfer_Manager_Part ?m"
    have "s' = s1 \<or> s' = ?u \<or> s' = ?m \<or> s' = ?t \<or> s' = acquire Audit_File ?t"
      using assms(1)
      unfolding server_init_components_def e prod.case Some option.case s1_def [symmetric] Let_def
      by (simp split: if_split_asm)
    then have "books F s' \<and> si_pool s' = Some p \<and> same_but own_parts (s\<lparr>si_pool := Some p\<rparr>) s'"
      by (elim disjE) (use s1 in \<open>simp_all add: b1 b2 b3 b4 b5 same_but_def\<close>)
    then show ?thesis using created_pool [OF Some] by (auto simp: idle_def)
  qed
qed


text \<open>A failed network initialisation closes what it opened, but leaves a descriptor behind in the structure.\<close>

lemma init_network_books:
  assumes "server_init_network ne s = (ok, s')" and "books {} s" and "ne_socket ne \<noteq> ne_epoll ne"
  shows "si_parts s' = si_parts s \<and> si_pool s' = si_pool s \<and> si_config s' = si_config s \<and> si_state s' = si_state s \<and> si_running s' = si_running s \<and>
    (if ok then books {ne_socket ne, ne_epoll ne} s' \<and> si_tcp_fd s' = ne_socket ne \<and> si_epoll_fd s' = ne_epoll ne \<and> 0 \<le> ne_socket ne \<and> 0 \<le> ne_epoll ne
     else books {} s' \<and> (0 \<le> si_tcp_fd s' \<or> si_epoll_fd s' = si_epoll_fd s))"
proof -
  let ?t = "ne_socket ne" and ?e = "ne_epoll ne"
  define s1 where "s1 = open_fd ?t (s\<lparr>si_tcp_fd := ?t\<rparr>)"
  define s3 where "s3 = open_fd ?e (s1\<lparr>si_epoll_fd := ?e\<rparr>)"
  have b0: "books {} (s\<lparr>si_tcp_fd := ?t\<rparr>)" using assms(2) by (simp add: books_def holds_def)
  have b1: "books {?t} s1" using books_open [OF b0] by (simp add: s1_def)
  have b2: "books {?t} (s1\<lparr>si_epoll_fd := ?e\<rparr>)" using b1 by (simp add: books_def holds_def)
  have b3: "books {?t, ?e} s3" using books_open [OF b2, of ?e] assms(3) by (simp add: s3_def insert_commute)
  have c1: "books {} (close_fd ?t s1)" using books_close [OF b1, of ?t] by simp
  have c2: "books {} (close_fd ?t (s1\<lparr>si_epoll_fd := ?e\<rparr>))" using books_close [OF b2, of ?t] by simp
  have c3: "books {} (close_fd ?t (close_fd ?e s3))"
    using books_close [OF books_close [OF b3, of ?e], of ?t] assms(3) by (simp add: insert_Diff_if)
  have f: "si_tcp_fd s1 = ?t" "si_tcp_fd s3 = ?t" "si_epoll_fd s3 = ?e" "si_parts s1 = si_parts s" "si_parts s3 = si_parts s"
      "si_pool s1 = si_pool s" "si_pool s3 = si_pool s" "si_config s1 = si_config s" "si_config s3 = si_config s" "si_state s1 = si_state s"
      "si_state s3 = si_state s" "si_running s1 = si_running s" "si_running s3 = si_running s"
    by (simp_all add: s1_def s3_def)
  show ?thesis
    using assms(1) b0 b3 c1 c2 c3 f unfolding server_init_network_def Let_def s1_def [symmetric] s3_def [symmetric]
    by (simp split: if_split_asm) (elim conjE, hypsubst, simp)+
qed

definition standing :: "int set \<Rightarrow> server_instance \<Rightarrow> bool" where
  "standing F s \<longleftrightarrow> books F s \<and> (\<forall>p. si_pool s = Some p \<longrightarrow> idle p) \<and> \<not> si_running s \<and> \<not> si_parts s Event_Array"

lemma same_but_standing:
  assumes "same_but P s s'" and "books F s'" and "standing G s" and "Event_Array \<notin> P"
  shows "standing F s'"
  using assms by (simp add: same_but_def standing_def)


text \<open>Where the initialisation of a new server ends. Before the network is up nothing is open, but a descriptor field is not negative; from then
  on both descriptors are accounted for.\<close>

lemma init_end:
  assumes "server_init pe ne ce now (blank_server config t) = (r, s)" and "ne_socket ne \<noteq> ne_epoll ne"
  shows "(if r = 0 \<or> r \<le> -10
          then standing {ne_socket ne, ne_epoll ne} s \<and> si_tcp_fd s = ne_socket ne \<and> si_epoll_fd s = ne_epoll ne \<and> 0 \<le> ne_socket ne \<and> 0 \<le> ne_epoll ne
          else standing {} s \<and> (0 \<le> si_tcp_fd s \<or> 0 \<le> si_epoll_fd s)) \<and>
    (r = 0 \<longrightarrow> si_state s = Server_Running \<and> si_pool s \<noteq> None)"
proof -
  let ?F = "{ne_socket ne, ne_epoll ne}"
  define s0 where "s0 = blank_server config t"
  have s0: "si_state s0 = Server_Initializing" "\<And>p. \<not> si_parts s0 p" "si_pool s0 = None" "si_epoll_fd s0 = 0" "si_tcp_fd s0 = 0" "books {} s0" "standing {} s0"
    by (simp_all add: s0_def blank_server_def books_def holds_def standing_def)
  obtain ok1 s1 where e1: "(if enable_ssl (cf_ssl (si_config s0)) then server_init_ssl ce pe s0 else (True, s0)) = (ok1, s1)" by fastforce
  obtain ok2 s2 where e2: "server_init_network ne s1 = (ok2, s2)" by fastforce
  obtain ok3 s3 where e3: "server_init_database ce s2 = (ok3, s3)" by fastforce
  obtain ok4 s4 where e4: "server_init_thread_pool ce s3 = (ok4, s4)" by fastforce
  obtain ok5 s5 where e5: "server_init_websocket ce s4 = (ok5, s5)" by fastforce
  define m5 where "m5 = (if enable_monitoring (cf_monitoring (si_config s0)) then snd (server_init_monitoring ce s5) else s5)"
  obtain ok6 s6 where e6: "server_init_components ce m5 = (ok6, s6)" by fastforce
  have 1: "books {} s1 \<and> same_but {Ssl_Ctx} s0 s1"
    using e1 init_ssl_books [of ce pe s0 ok1 s1 "{}"] s0 by (auto simp: same_but_def split: if_splits)
  then have st1: "standing {} s1" using same_but_standing s0(7) by blast
  have 2: "si_parts s2 = si_parts s1" "si_pool s2 = si_pool s1" "si_running s2 = si_running s1"
      "ok2 \<Longrightarrow> books ?F s2 \<and> si_tcp_fd s2 = ne_socket ne \<and> si_epoll_fd s2 = ne_epoll ne \<and> 0 \<le> ne_socket ne \<and> 0 \<le> ne_epoll ne"
      "\<not> ok2 \<Longrightarrow> books {} s2 \<and> (0 \<le> si_tcp_fd s2 \<or> si_epoll_fd s2 = 0)"
    using init_network_books [OF e2 _ assms(2)] 1 s0(4) by (auto simp: same_but_def)
  have p1: "\<not> si_parts s1 q" if "q \<noteq> Ssl_Ctx" for q using 1 s0(2) that by (auto simp: same_but_def)
  define up where "up = trigger_event now Event_Startup (update_server_state Server_Running s6)"
  have rs: "-10 < r \<and> r < 0 \<and> s = s0 \<or> r = -8 \<and> s = s1 \<or> r = -9 \<and> \<not> ok2 \<and> s = s2 \<or> ok2 \<and> r = -10 \<and> s = s3 \<or> ok2 \<and> r = -11 \<and> s = s4 \<or>
      ok2 \<and> r = -12 \<and> s = s5 \<or> ok2 \<and> r = -13 \<and> s = s6 \<or> ok2 \<and> ok6 \<and> r = 0 \<and> s = up"
    using assms(1) unfolding server_init_def s0_def [symmetric] e1 prod.case e2 e3 e4 e5 m5_def [symmetric] e6 up_def [symmetric]
    by (simp add: s0(1) split: if_split_asm)
  have early: "standing {} s2" "0 \<le> si_tcp_fd s2 \<or> 0 \<le> si_epoll_fd s2" if "\<not> ok2"
    using 2 that st1 by (auto simp: standing_def)
  have fd1: "si_epoll_fd s1 = 0" using 1 s0(4) by (simp add: same_but_def)
  show ?thesis
  proof (cases ok2)
    case False
    from rs False early st1 fd1 s0(4,7) show ?thesis by (elim disjE) simp_all
  next
    case ok2: True
    have st2: "standing ?F s2" using 2 ok2 st1 by (simp add: standing_def)
    have 3: "books ?F s3 \<and> same_but {Db_Conn} s2 s3" using init_database_books [OF e3, of ?F] 2 ok2 p1 by simp
    then have p3: "\<not> si_parts s3 q" if "q \<notin> {Ssl_Ctx, Db_Conn}" for q using that 2(1) p1 by (auto simp: same_but_def)
    have 4: "books ?F s4 \<and> same_but {Thread_Pool_Part} s3 s4" using init_thread_pool_books [OF e4, of ?F] 3 p3 by simp
    then have p4: "\<not> si_parts s4 q" if "q \<notin> {Ssl_Ctx, Db_Conn, Thread_Pool_Part}" for q using that p3 by (auto simp: same_but_def)
    have 5: "books ?F s5 \<and> same_but {Ws_Server} s4 s5" using init_websocket_books [OF e5, of ?F] 4 p4 by simp
    then have p5: "\<not> si_parts s5 q" if "q \<notin> {Ssl_Ctx, Db_Conn, Thread_Pool_Part, Ws_Server}" for q using that p4 by (auto simp: same_but_def)
    have m: "books ?F m5 \<and> same_but {Monitoring_Part} s5 m5"
      using init_monitoring_books [of ?F s5 ce] 5 p5 by (auto simp: m5_def same_but_def)
    then have pm: "\<forall>q \<in> own_parts. \<not> si_parts m5 q" using p5 by (auto simp: same_but_def)
    have st: "standing ?F s3" "standing ?F s4" "standing ?F s5" "standing ?F m5"
      using st2 3 4 5 m by (auto simp: standing_def same_but_def)
    have "si_pool m5 = None" using m 5 4 3 2(2) 1 s0(3) by (simp add: same_but_def)
    from init_components_books [OF e6 _ this pm] m
    have 6: "books ?F s6" "\<forall>p. si_pool s6 = Some p \<longrightarrow> idle p" "same_but own_parts (m5\<lparr>si_pool := si_pool s6\<rparr>) s6" by blast+
    then have st6: "standing ?F s6" using st(4) by (simp add: standing_def same_but_def)
    have fd: "si_tcp_fd s3 = ne_socket ne" "si_tcp_fd s4 = ne_socket ne" "si_tcp_fd s5 = ne_socket ne" "si_tcp_fd s6 = ne_socket ne"
        "si_epoll_fd s3 = ne_epoll ne" "si_epoll_fd s4 = ne_epoll ne" "si_epoll_fd s5 = ne_epoll ne" "si_epoll_fd s6 = ne_epoll ne"
      using 2(4) [OF ok2] 3 4 5 m 6(3) by (auto simp: same_but_def)
    have pool: "ok6 \<Longrightarrow> si_pool s6 \<noteq> None"
      using e6 unfolding server_init_components_def Let_def by (auto split: prod.splits option.splits if_splits)
    have ev: "standing ?F up" using st6 unfolding up_def standing_def by simp (simp add: trigger_event_def update_server_state_def)
    have fin: "si_tcp_fd up = si_tcp_fd s6" "si_epoll_fd up = si_epoll_fd s6" "si_pool up = si_pool s6" "si_state up = Server_Running"
      by (simp_all add: up_def trigger_event_def update_server_state_def)
    from rs ok2 st1 fd1 s0(4,7) st st6 fd 2(4) [OF ok2] ev fin pool show ?thesis by (elim disjE) simp_all
  qed
qed


section \<open>The cleanup\<close>

text \<open>The end of \<open>server_cleanup_components\<close>.\<close>

definition close_descriptors :: "server_instance \<Rightarrow> server_instance" where
  "close_descriptors s2 =
     (let s3 = (if si_epoll_fd s2 \<ge> 0 then (close_fd (si_epoll_fd s2) s2)\<lparr>si_epoll_fd := -1\<rparr> else s2);
          s4 = (if si_tcp_fd s3 \<ge> 0 then (close_fd (si_tcp_fd s3) s3)\<lparr>si_tcp_fd := -1\<rparr> else s3)
      in release_part Event_Array s4)"

lemma release_pool_books:
  assumes "books F s" and "\<forall>p. si_pool s = Some p \<longrightarrow> idle p"
  shows "\<exists>s'. release_pool s = Done s' \<and> books F s' \<and> si_pool s' = None \<and> si_parts s' = si_parts s \<and> si_tcp_fd s' = si_tcp_fd s \<and>
    si_epoll_fd s' = si_epoll_fd s \<and> si_state s' = si_state s \<and> si_running s' = si_running s \<and> si_callback s' = si_callback s"
proof (cases "si_pool s")
  case None
  with assms show ?thesis by (simp add: release_pool_def)
next
  case (Some p)
  let ?s = "s\<lparr>si_pool := None, si_trace := si_trace s @ [Released (Part Connection_Pool_Part)]\<rparr>"
  have "release_pool s = Done ?s" using assms(2) Some by (simp add: release_pool_def idle_def destroy_pool_outcome)
  moreover have "Part ` {q. holds ?s q} \<union> Descriptor ` F = (Part ` {q. holds s q} \<union> Descriptor ` F) - {Part Connection_Pool_Part}"
    by (auto simp: holds_def)
  moreover have "Part Connection_Pool_Part \<in> Part ` {p. holds s p} \<union> Descriptor ` F" using Some by (auto simp: holds_def)
  ultimately show ?thesis using assms(1) by (simp add: books_def ledger_append)
qed

lemma cleanup_parts:
  assumes "books F s" and "\<forall>p. si_pool s = Some p \<longrightarrow> idle p"
  shows "\<exists>s2. server_cleanup_components s = Done (close_descriptors s2) \<and> books F s2 \<and> (\<forall>q. holds s2 q \<longrightarrow> q \<in> {Audit_File, Event_Array}) \<and>
    si_tcp_fd s2 = si_tcp_fd s \<and> si_epoll_fd s2 = si_epoll_fd s \<and> si_state s2 = si_state s \<and> si_running s2 = si_running s"
proof -
  define s0 where "s0 = release_part User_Manager (release_part Message_Queue_Part (release_part Transfer_Manager_Part s))"
  have "books F s0" using assms(1) by (simp add: s0_def books_release_part)
  moreover have "\<forall>p. si_pool s0 = Some p \<longrightarrow> idle p" using assms(2) by (simp add: s0_def)
  ultimately obtain s1 where s1: "release_pool s0 = Done s1" "books F s1" "si_pool s1 = None" "si_parts s1 = si_parts s0" "si_tcp_fd s1 = si_tcp_fd s0"
      "si_epoll_fd s1 = si_epoll_fd s0" "si_state s1 = si_state s0" "si_running s1 = si_running s0"
    using release_pool_books by blast
  define s2 where "s2 = release_part Ssl_Ctx (release_part Db_Conn (release_part Thread_Pool_Part (release_part Ws_Server (release_part Monitoring_Part s1))))"
  have "server_cleanup_components s = Done (close_descriptors s2)"
    by (simp add: server_cleanup_components_def s0_def [symmetric] s1(1) s2_def [symmetric] close_descriptors_def Let_def)
  moreover have "books F s2" using s1(2) by (simp add: s2_def books_release_part)
  moreover have "q \<in> {Audit_File, Event_Array}" if "holds s2 q" for q
    using that by (cases q) (simp_all add: holds_def s2_def s1(3,4) s0_def)
  moreover have "si_tcp_fd s2 = si_tcp_fd s" "si_epoll_fd s2 = si_epoll_fd s" "si_state s2 = si_state s" "si_running s2 = si_running s"
    using s1 by (simp_all add: s2_def s0_def)
  ultimately show ?thesis by blast
qed

lemma books_fields [simp]:
  "books F (s\<lparr>si_epoll_fd := x\<rparr>) \<longleftrightarrow> books F s" "books F (s\<lparr>si_tcp_fd := x\<rparr>) \<longleftrightarrow> books F s" "books F (s\<lparr>si_running := b\<rparr>) \<longleftrightarrow> books F s"
  "books F (s\<lparr>si_shutdown_requested := b\<rparr>) \<longleftrightarrow> books F s" "books F (s\<lparr>si_stats := st\<rparr>) \<longleftrightarrow> books F s"
  by (rule books_cong; simp)+

text \<open>Descriptors that are accounted for are closed once, and the fields become negative; one that is not is a breach.\<close>

lemma close_descriptors_good:
  assumes "books {fd \<in> {si_epoll_fd s, si_tcp_fd s}. 0 \<le> fd} s" and "si_tcp_fd s = si_epoll_fd s \<longrightarrow> si_tcp_fd s < 0"
  shows "books {} (close_descriptors s) \<and> si_tcp_fd (close_descriptors s) < 0 \<and> si_epoll_fd (close_descriptors s) < 0 \<and>
    \<not> si_parts (close_descriptors s) Event_Array"
proof -
  define s3 where "s3 = (if si_epoll_fd s \<ge> 0 then (close_fd (si_epoll_fd s) s)\<lparr>si_epoll_fd := -1\<rparr> else s)"
  define s4 where "s4 = (if si_tcp_fd s3 \<ge> 0 then (close_fd (si_tcp_fd s3) s3)\<lparr>si_tcp_fd := -1\<rparr> else s3)"
  have eq: "{fd \<in> {si_epoll_fd s, si_tcp_fd s}. 0 \<le> fd} - {si_epoll_fd s} = {fd \<in> {si_tcp_fd s}. 0 \<le> fd}" if "0 \<le> si_epoll_fd s"
    using assms(2) that by auto
  have 3: "books {fd \<in> {si_tcp_fd s}. 0 \<le> fd} s3 \<and> si_tcp_fd s3 = si_tcp_fd s \<and> si_epoll_fd s3 < 0"
  proof (cases "si_epoll_fd s \<ge> 0")
    case True
    with books_close [OF assms(1), of "si_epoll_fd s"] eq show ?thesis by (simp add: s3_def)
  next
    case False
    then have "{fd \<in> {si_epoll_fd s, si_tcp_fd s}. 0 \<le> fd} = {fd \<in> {si_tcp_fd s}. 0 \<le> fd}" by auto
    with assms(1) False show ?thesis by (simp add: s3_def)
  qed
  have 4: "books {} s4 \<and> si_tcp_fd s4 < 0 \<and> si_epoll_fd s4 < 0"
  proof (cases "si_tcp_fd s \<ge> 0")
    case True
    then have "{fd \<in> {si_tcp_fd s}. 0 \<le> fd} = {si_tcp_fd s}" by auto
    with 3 books_close [of "{si_tcp_fd s}" s3 "si_tcp_fd s"] True show ?thesis by (simp add: s4_def)
  next
    case False
    then have "{fd \<in> {si_tcp_fd s}. 0 \<le> fd} = {}" by auto
    then have "books {} s3" using 3 by argo
    with 3 False show ?thesis by (simp add: s4_def)
  qed
  have "close_descriptors s = release_part Event_Array s4" by (simp add: close_descriptors_def Let_def s3_def s4_def)
  with 4 show ?thesis by (simp add: books_release_part)
qed

lemma trace_release_part: "\<exists>es. si_trace (release_part p s) = si_trace s @ es"
  by (auto simp: release_part_def release_def)

lemma close_descriptors_bad:
  assumes "books {} s" and "0 \<le> si_epoll_fd s \<or> 0 \<le> si_tcp_fd s"
  shows "ledger (si_trace (close_descriptors s)) {} = None"
proof -
  define s3 where "s3 = (if si_epoll_fd s \<ge> 0 then (close_fd (si_epoll_fd s) s)\<lparr>si_epoll_fd := -1\<rparr> else s)"
  define s4 where "s4 = (if si_tcp_fd s3 \<ge> 0 then (close_fd (si_tcp_fd s3) s3)\<lparr>si_tcp_fd := -1\<rparr> else s3)"
  have t: "\<exists>es. si_trace s4 = si_trace s3 @ es" by (simp add: s4_def close_fd_def)
  have "ledger (si_trace s4) {} = None"
  proof (cases "si_epoll_fd s \<ge> 0")
    case True
    then have "ledger (si_trace s3) {} = None" using books_bad_close [OF assms(1)] by (simp add: s3_def)
    with t breach show ?thesis by metis
  next
    case False
    then have "s3 = s" "si_tcp_fd s \<ge> 0" using assms(2) by (simp_all add: s3_def)
    then show ?thesis using books_bad_close [OF assms(1)] by (simp add: s4_def)
  qed
  moreover have "close_descriptors s = release_part Event_Array s4" by (simp add: close_descriptors_def Let_def s3_def s4_def)
  ultimately show ?thesis using trace_release_part breach by metis
qed

lemma release_last:
  assumes "books {} s" and "\<forall>q. holds s q \<longrightarrow> q = Audit_File"
  shows "ledger (si_trace (release_part Audit_File s)) {} = Some {}"
proof -
  have "\<not> holds (release_part Audit_File s) q" for q using spec [OF assms(2), of q] by (auto simp: holds_def)
  then have "{q. holds (release_part Audit_File s) q} = {}" by simp
  with books_release_part [OF assms(1), of Audit_File] show ?thesis by (simp add: books_def)
qed

lemma cleanup_good:
  assumes "books {fd \<in> {si_epoll_fd s, si_tcp_fd s}. 0 \<le> fd} s" and "si_tcp_fd s = si_epoll_fd s \<longrightarrow> si_tcp_fd s < 0"
    and "\<forall>p. si_pool s = Some p \<longrightarrow> idle p"
  shows "\<exists>s'. server_cleanup_components s = Done s' \<and> books {} s' \<and> si_tcp_fd s' < 0 \<and> si_epoll_fd s' < 0 \<and> (\<forall>q. holds s' q \<longrightarrow> q = Audit_File) \<and>
    si_running s' = si_running s"
proof -
  obtain s2 where s2: "server_cleanup_components s = Done (close_descriptors s2)" "books {fd \<in> {si_epoll_fd s, si_tcp_fd s}. 0 \<le> fd} s2"
      "\<forall>q. holds s2 q \<longrightarrow> q \<in> {Audit_File, Event_Array}" "si_tcp_fd s2 = si_tcp_fd s" "si_epoll_fd s2 = si_epoll_fd s" "si_running s2 = si_running s"
    using cleanup_parts [OF assms(1,3)] by blast
  have c: "books {} (close_descriptors s2) \<and> si_tcp_fd (close_descriptors s2) < 0 \<and> si_epoll_fd (close_descriptors s2) < 0 \<and>
      \<not> si_parts (close_descriptors s2) Event_Array"
    using close_descriptors_good [of s2] s2(2,4,5) assms(2) by simp
  have "holds s2 q" if "holds (close_descriptors s2) q" for q
    using that by (auto simp: close_descriptors_def holds_def Let_def split: if_splits)
  then have "q \<in> {Audit_File, Event_Array}" if "holds (close_descriptors s2) q" for q using s2(3) that by blast
  moreover have "\<not> holds (close_descriptors s2) Event_Array" using c by (simp add: holds_def)
  ultimately have "\<forall>q. holds (close_descriptors s2) q \<longrightarrow> q = Audit_File" by blast
  moreover have "si_running (close_descriptors s2) = si_running s" using s2(6) by (simp add: close_descriptors_def Let_def)
  ultimately show ?thesis using s2(1) c by blast
qed

lemma destroy_standing:
  assumes "books {fd \<in> {si_epoll_fd s, si_tcp_fd s}. 0 \<le> fd} s" and "si_tcp_fd s = si_epoll_fd s \<longrightarrow> si_tcp_fd s < 0"
    and "\<forall>p. si_pool s = Some p \<longrightarrow> idle p" and "\<not> si_running s"
  shows "\<exists>tr. server_destroy L e (Some s) = Done tr \<and> ledger tr {} = Some {}"
  using cleanup_good [OF assms(1-3)] release_last assms(4) by (auto simp: server_destroy_def)

section \<open>Properties\<close>

text \<open>
  After a failed initialisation the server can only be destroyed, and whether that is safe depends on how far the initialisation came. From the
  database on (codes \<open>-10\<close> to \<open>-13\<close>) everything is released exactly once. When it fails before, or in the network itself, the destruction closes a
  descriptor that the server does not own: descriptor 0, since a new server has zeroes in these fields, or the listening socket a second time.
\<close>

theorem failed_init_then_destroy:
  assumes "server_init pe ne ce now (blank_server config t) = (r, s)" and "r \<noteq> 0" and "ne_socket ne \<noteq> ne_epoll ne"
  shows "\<exists>tr. server_destroy L e (Some s) = Done tr \<and> ledger tr {} = (if r \<le> -10 then Some {} else None)"
proof (cases "r \<le> -10")
  case True
  from init_end [OF assms(1,3)] True have "standing {ne_socket ne, ne_epoll ne} s" "si_tcp_fd s = ne_socket ne" "si_epoll_fd s = ne_epoll ne"
      "0 \<le> ne_socket ne" "0 \<le> ne_epoll ne"
    by simp_all
  moreover from this have "{fd \<in> {si_epoll_fd s, si_tcp_fd s}. 0 \<le> fd} = {ne_socket ne, ne_epoll ne}" by auto
  ultimately show ?thesis using True destroy_standing [of s L e] assms(3) by (simp add: standing_def)
next
  case False
  with init_end [OF assms(1,3)] assms(2) have st: "standing {} s" "0 \<le> si_tcp_fd s \<or> 0 \<le> si_epoll_fd s" by simp_all
  then obtain s2 where "server_cleanup_components s = Done (close_descriptors s2)" "books {} s2" "si_tcp_fd s2 = si_tcp_fd s" "si_epoll_fd s2 = si_epoll_fd s"
    using cleanup_parts unfolding standing_def by blast
  moreover from this have "ledger (si_trace (close_descriptors s2)) {} = None" using close_descriptors_bad st(2) by metis
  moreover have "\<exists>es. si_trace (release_part Audit_File (close_descriptors s2)) = si_trace (close_descriptors s2) @ es" by (rule trace_release_part)
  ultimately show ?thesis using st(1) False breach by (auto simp: server_destroy_def standing_def)
qed


definition demo_process :: process_env where
  "demo_process = \<lparr>pe_nofile = Some 65536, pe_setrlimit = True, pe_user_exists = True, pe_setgid = True, pe_setuid = True, pe_fork = (\<lambda>_. True), pe_setsid = True,
     pe_null_fd = 0, pe_dup2 = (\<lambda>_. True), pe_chdir = True, pe_pid_file = True, pe_cert = (\<lambda>_. True)\<rparr>"

definition demo_net :: net_env where
  "demo_net = \<lparr>ne_socket = 3, ne_options = True, ne_bind = True, ne_listen = True, ne_epoll = 4, ne_epoll_add = True, ne_nonblocking = True\<rparr>"

definition demo_components :: component_env where
  "demo_components = \<lparr>ce_parts = (\<lambda>_. True), ce_pool = (True, True, True, True), ce_db_open = True, ce_db_tables = True, ce_ws_start = -1, ce_ws_fd = 5,
     ce_ws_add = True, ce_monitoring_start = True\<rparr>"

definition demo_stop :: stop_env where
  "demo_stop = \<lparr>se_clk = (\<lambda>_ _. 10), se_list = True, se_others = (\<lambda>_ p. p), se_exits = False, se_now = 10\<rparr>"

lemmas demo_env_defs = demo_process_def demo_net_def demo_components_def demo_stop_def server_config_init_def blank_server_def

lemma failed_init_then_destroy_witness:
  "\<exists>s tr. server_init demo_process (demo_net\<lparr>ne_bind := False\<rparr>) demo_components 0 (blank_server server_config_init 0) = (-9, s) \<and>
     server_destroy demo_library demo_stop (Some s) = Done tr \<and> ledger tr {} = None"
proof -
  have "\<exists>s. server_init demo_process (demo_net\<lparr>ne_bind := False\<rparr>) demo_components 0 (blank_server server_config_init 0) = (-9, s)"
    by (simp add: server_init_def check_system_limits_def server_init_network_def demo_env_defs word_less_nat_alt Let_def)
  then obtain s where s: "server_init demo_process (demo_net\<lparr>ne_bind := False\<rparr>) demo_components 0 (blank_server server_config_init 0) = (-9, s)" by blast
  moreover have "\<exists>tr. server_destroy demo_library demo_stop (Some s) = Done tr \<and> ledger tr {} = (if (-9 :: int) \<le> -10 then Some {} else None)"
    by (rule failed_init_then_destroy [OF s]) (simp_all add: demo_net_def)
  ultimately show ?thesis by auto
qed

text \<open>A server that accounts for its resources, and whose pool holds no open connection.\<close>

definition in_order :: "server_instance \<Rightarrow> bool" where
  "in_order s \<longleftrightarrow> books {fd \<in> {si_epoll_fd s, si_tcp_fd s}. 0 \<le> fd} s \<and> (si_tcp_fd s = si_epoll_fd s \<longrightarrow> si_tcp_fd s < 0) \<and>
     (\<forall>p. si_pool s = Some p \<longrightarrow> idle p)"

lemma broadcast_idle:
  assumes "\<forall>p. si_pool s = Some p \<longrightarrow> idle p"
  shows "server_broadcast_message L clk ok t data x s = Done (0, s)"
proof (cases "si_pool s")
  case None
  then show ?thesis by (simp add: server_broadcast_message_def)
next
  case (Some p)
  with assms have "filter (\<lambda>c. c_fd c \<noteq> -1) (p_connections p) = []" by (auto simp: idle_def list_ex_iff filter_empty_conv)
  with Some show ?thesis
    by (simp add: server_broadcast_message_def server_get_active_connections_def connection_pool_get_active_connections_def Let_def)
qed

lemma drain_idle:
  assumes "\<forall>p. si_pool s = Some p \<longrightarrow> idle p" and "\<forall>n q. idle q \<longrightarrow> idle (others n q)"
  shows "\<exists>x. drain_wait others n s = s\<lparr>si_pool := x\<rparr> \<and> (\<forall>p. x = Some p \<longrightarrow> idle p) \<and> (x = None \<longleftrightarrow> si_pool s = None)"
  using assms(1)
proof (induction n arbitrary: s)
  case 0
  show ?case by (rule exI [of _ "si_pool s"]) (use 0 in simp)
next
  case (Suc n)
  show ?case
  proof (cases "\<exists>p. si_pool s = Some p \<and> connection_pool_get_active_count (Some p) > 0")
    case True
    then obtain p where p: "si_pool s = Some p" "connection_pool_get_active_count (Some p) > 0" by blast
    have "\<forall>q. si_pool (s\<lparr>si_pool := Some (others n p)\<rparr>) = Some q \<longrightarrow> idle q" using Suc.prems p(1) assms(2) by simp
    from Suc.IH [OF this] p show ?thesis by auto
  next
    case False
    then have "drain_wait others (Suc n) s = s" by (auto split: option.splits)
    then show ?thesis using Suc.prems by (intro exI [of _ "si_pool s"]) simp
  qed
qed

lemma stop_in_order:
  assumes "si_running s" and "in_order s" and "\<forall>n q. idle q \<longrightarrow> idle (se_others e n q)"
  shows "\<exists>s'. server_stop L e g s = Done (0, s') \<and> in_order s' \<and> \<not> si_running s' \<and> si_state s' = Server_Shutdown \<and>
    si_tcp_fd s' < 0 \<and> si_epoll_fd s' < 0 \<and> (\<forall>q. holds s' q \<longrightarrow> q = Audit_File)"
proof -
  define s1 where "s1 = update_server_state Server_Shutting_Down (s\<lparr>si_shutdown_requested := True, si_running := False\<rparr>)"
  have i1: "in_order s1" "\<not> si_running s1"
    using assms(2) by (simp_all add: s1_def in_order_def) (simp_all add: update_server_state_def)
  obtain x where x: "drain_wait (se_others e) 300 s1 = s1\<lparr>si_pool := x\<rparr>" "\<forall>p. x = Some p \<longrightarrow> idle p" "x = None \<longleftrightarrow> si_pool s1 = None"
    using drain_idle [OF _ assms(3), of s1 300] i1(1) by (auto simp: in_order_def)
  define s3 where "s3 = (if g then s1\<lparr>si_pool := x\<rparr> else s1)"
  have "books F (s1\<lparr>si_pool := x\<rparr>) \<longleftrightarrow> books F s1" for F by (rule books_cong) (use x(3) in simp_all)
  then have i3: "in_order s3" "\<not> si_running s3" using i1 x(2) by (simp_all add: s3_def in_order_def)
  define s4 where "s4 = (if se_exits e then release_part Event_Array s3 else s3)"
  have i4: "in_order s4" "\<not> si_running s4" using i3 by (simp_all add: s4_def in_order_def books_release_part)
  obtain s5 where s5: "server_cleanup_components s4 = Done s5" "books {} s5" "si_tcp_fd s5 < 0" "si_epoll_fd s5 < 0"
      "\<forall>q. holds s5 q \<longrightarrow> q = Audit_File" "si_running s5 = si_running s4"
    using cleanup_good [of s4] i4(1) by (auto simp: in_order_def)
  define s6 where "s6 = trigger_event (se_now e) Event_Shutdown (update_server_state Server_Shutdown s5)"
  have "server_stop L e g s = Done (0, s6)"
  proof -
    have b: "server_broadcast_message L (se_clk e) (se_list e) MSG_SYSTEM_NOTIFICATION shutdown_msg 0 s1 = Done (0, s1)"
      by (rule broadcast_idle) (use i1(1) in \<open>simp add: in_order_def\<close>)
    have "(if g then obind (server_broadcast_message L (se_clk e) (se_list e) MSG_SYSTEM_NOTIFICATION shutdown_msg 0 s1) (\<lambda>(_, s2).
        Done (drain_wait (se_others e) 300 s2)) else Done s1) = Done s3"
      unfolding b by (simp add: s3_def x(1))
    then show ?thesis
      unfolding server_stop_def s1_def [symmetric] Let_def using assms(1) s5(1) by (simp add: s4_def s6_def)
  qed
  moreover have f: "si_tcp_fd s6 = si_tcp_fd s5" "si_epoll_fd s6 = si_epoll_fd s5" "si_pool s6 = si_pool s5" "holds s6 = holds s5"
      "si_running s6 = si_running s5" "si_state s6 = Server_Shutdown"
    by (simp_all add: s6_def trigger_event_def update_server_state_def holds_def fun_eq_iff)
  moreover have "in_order s6"
  proof -
    have n: "{fd \<in> {si_epoll_fd s6, si_tcp_fd s6}. 0 \<le> fd} = {}" using s5(3,4) f by auto
    have "books {} s6" using s5(2) by (simp add: s6_def)
    moreover have "si_pool s6 = None" using spec [OF s5(5), of Connection_Pool_Part] f(3) by (simp add: holds_def)
    ultimately show ?thesis using s5(3) f(1) unfolding in_order_def n by simp
  qed
  ultimately show ?thesis using s5 i4(2) by auto
qed

lemma start_in_order:
  assumes "server_start pe ne ce threads events now (blank_server config t) = (0, s)" and "ne_socket ne \<noteq> ne_epoll ne"
  shows "in_order s" and "si_running s" and "si_state s = Server_Running" and "si_pool s \<noteq> None"
proof -
  obtain r s1 where i: "server_init pe ne ce (now 0) (blank_server config t) = (r, s1)" by fastforce
  have nr: "\<not> si_running (blank_server config t)" by (simp add: blank_server_def)
  with assms(1) i have "r = 0" by (simp add: server_start_def split: if_split_asm)
  with init_end [OF i assms(2)] have s1: "standing {ne_socket ne, ne_epoll ne} s1" "si_tcp_fd s1 = ne_socket ne" "si_epoll_fd s1 = ne_epoll ne"
      "0 \<le> ne_socket ne" "0 \<le> ne_epoll ne" "si_state s1 = Server_Running" "si_pool s1 \<noteq> None"
    by simp_all
  define s2 where "s2 = (if events then acquire Event_Array s1 else s1)\<lparr>si_running := True\<rparr>"
  define s3 where "s3 = s2\<lparr>si_stats := (si_stats s2)\<lparr>ss_times := (ss_times (si_stats s2))\<lparr>startup_time := now 1\<rparr>\<rparr>\<rparr>"
  have s: "s = trigger_event (now 2) Event_Startup s3"
    using assms(1) nr i \<open>r = 0\<close> by (simp add: server_start_def Let_def s3_def s2_def split: if_split_asm)
  have f: "si_tcp_fd s = ne_socket ne" "si_epoll_fd s = ne_epoll ne" "si_running s" "si_state s = Server_Running" "si_pool s = si_pool s1"
    using s1 by (simp_all add: s s3_def s2_def trigger_event_def)
  have "books {ne_socket ne, ne_epoll ne} s" using s1(1) by (simp add: s s3_def s2_def standing_def books_acquire)
  moreover have "{fd \<in> {si_epoll_fd s, si_tcp_fd s}. 0 \<le> fd} = {ne_socket ne, ne_epoll ne}" using f s1(4,5) by auto
  ultimately show "in_order s" using f s1(1) assms(2) by (simp add: in_order_def standing_def)
  show "si_running s" "si_state s = Server_Running" "si_pool s \<noteq> None" using f s1(7) by simp_all
qed

text \<open>
  (C28) A server that was started, whatever came and went in its connection pool meanwhile, is destroyed in an orderly way once no connection is open:
  over its whole life every resource (descriptors, SSL context, database, pools, managers, audit file, event array) is released exactly once after it was
  acquired, and nothing remains. The hypothesis on descriptors is the kernel's: two open descriptors differ.
\<close>

theorem started_then_destroyed:
  assumes "server_start pe ne ce threads events now (blank_server config t) = (0, s)" and "ne_socket ne \<noteq> ne_epoll ne"
    and "idle p" and "\<forall>n q. idle q \<longrightarrow> idle (se_others e n q)"
  shows "\<exists>tr. server_destroy L e (Some (s\<lparr>si_pool := Some p\<rparr>)) = Done tr \<and> ledger tr {} = Some {}"
proof -
  let ?s = "s\<lparr>si_pool := Some p\<rparr>"
  note st = start_in_order [OF assms(1,2)]
  have "books F ?s \<longleftrightarrow> books F s" for F by (rule books_cong) (use st(4) in simp_all)
  then have o: "in_order ?s" using st(1) assms(3) by (simp add: in_order_def)
  have r: "si_running ?s" using st(2) by simp
  obtain s1 where s1: "server_stop L e True ?s = Done (0, s1)" "in_order s1"
    using stop_in_order [OF r o assms(4), of L True] by blast
  obtain s2 where s2: "server_cleanup_components s1 = Done s2" "books {} s2" "\<forall>q. holds s2 q \<longrightarrow> q = Audit_File"
    using cleanup_good [of s1] s1(2) unfolding in_order_def by blast
  from r s1(1) s2(1) release_last [OF s2(2,3)] show ?thesis by (simp add: server_destroy_def)
qed

lemma demo_steps:
  "fst (server_init_network demo_net s)" "fst (server_init_database demo_components s)" "fst (server_init_thread_pool demo_components s)"
  "fst (server_init_websocket demo_components s)" "fst (server_init_components demo_components s)"
  by (simp_all add: server_init_network_def server_init_database_def server_init_thread_pool_def server_init_websocket_def server_init_components_def
      connection_pool_create_def demo_net_def demo_components_def Let_def)

lemma demo_start:
  "\<exists>s. server_start demo_process demo_net demo_components (\<lambda>_. True) True (\<lambda>_. 10) (blank_server server_config_init 0) = (0, s)"
proof -
  define s0 where "s0 = blank_server server_config_init 0"
  have s0: "\<not> si_running s0" "si_state s0 = Server_Initializing" "si_config s0 = server_config_init" by (simp_all add: s0_def blank_server_def)
  have c: "\<not> enable_ssl (cf_ssl server_config_init)" "cf_run server_config_init = \<lparr>run_as_daemon = False, run_as_user = None, pid_file = None, test_mode = False\<rparr>"
      "check_system_limits demo_process s0"
    using s0(3) by (simp_all add: server_config_init_def check_system_limits_def demo_process_def word_less_nat_alt)
  have "fst (server_init demo_process demo_net demo_components 10 s0) = 0"
    unfolding server_init_def case_prod_beta using s0 c by (simp add: demo_steps)
  then have "fst (server_start demo_process demo_net demo_components (\<lambda>_. True) True (\<lambda>_. 10) s0) = 0"
    unfolding server_start_def case_prod_beta Let_def using s0 by simp
  then show ?thesis unfolding s0_def by (metis prod.collapse)
qed

lemma started_then_destroyed_witness:
  "\<exists>s tr. server_start demo_process demo_net demo_components (\<lambda>_. True) True (\<lambda>_. 10) (blank_server server_config_init 0) = (0, s) \<and>
     server_destroy demo_library demo_stop (Some (s\<lparr>si_pool := Some demo_pool\<rparr>)) = Done tr \<and> ledger tr {} = Some {}"
proof -
  obtain s where s: "server_start demo_process demo_net demo_components (\<lambda>_. True) True (\<lambda>_. 10) (blank_server server_config_init 0) = (0, s)"
    using demo_start by blast
  have "idle demo_pool" by (simp add: idle_def demo_pool_def connection_pool_create_def blank_connection_def list_ex_iff)
  with started_then_destroyed [OF s, of demo_pool demo_stop demo_library] s show ?thesis
    by (simp add: demo_net_def demo_stop_def)
qed

text \<open>
  Restoring a backup on a running server restores nothing: the server is stopped first, which closes the database, so the file is not replaced;
  it is not started again either, since a server that was shut down is refused by \<open>server_init\<close>. The call still returns 0.
\<close>

theorem restore_running_restores_nothing:
  assumes "server_start pe ne ce threads events now (blank_server config t) = (0, s)" and "ne_socket ne \<noteq> ne_epoll ne"
    and "\<forall>n q. idle q \<longrightarrow> idle (se_others e n q)" and "re 0"
  shows "\<exists>s'. server_restore_data L e pe' ne' ce' threads' events' now' re (Some path) s = Done (0, False, s') \<and>
    si_state s' = Server_Shutdown \<and> \<not> si_running s' \<and> \<not> si_parts s' Db_Conn \<and> si_tcp_fd s' < 0"
proof -
  note st = start_in_order [OF assms(1,2)]
  obtain s1 where s1: "server_stop L e True s = Done (0, s1)" "\<not> si_running s1" "si_state s1 = Server_Shutdown" "si_tcp_fd s1 < 0"
      "\<forall>q. holds s1 q \<longrightarrow> q = Audit_File"
    using stop_in_order [OF st(2,1) assms(3), of L True] by blast
  have db: "\<not> si_parts s1 Db_Conn" using spec [OF s1(5), of Db_Conn] by (simp add: holds_def)
  have "server_start pe' ne' ce' threads' events' now' s1 = (-2, s1)"
    using s1(2,3) by (simp add: server_start_def server_init_def)
  then show ?thesis
    using st(2) s1 assms(4) db by (auto simp: server_restore_data_def trigger_text_event_def Let_def)
qed

lemma restore_running_restores_nothing_witness:
  "\<exists>s s'. server_start demo_process demo_net demo_components (\<lambda>_. True) True (\<lambda>_. 10) (blank_server server_config_init 0) = (0, s) \<and>
     server_restore_data demo_library demo_stop demo_process demo_net demo_components (\<lambda>_. True) True (\<lambda>_. 20) (\<lambda>_. True) (Some ''backup.db'') s =
       Done (0, False, s') \<and> si_state s' = Server_Shutdown"
proof -
  obtain s where s: "server_start demo_process demo_net demo_components (\<lambda>_. True) True (\<lambda>_. 10) (blank_server server_config_init 0) = (0, s)"
    using demo_start by blast
  have "ne_socket demo_net \<noteq> ne_epoll demo_net" "\<forall>n q. idle q \<longrightarrow> idle (se_others demo_stop n q)" by (simp_all add: demo_net_def demo_stop_def)
  from restore_running_restores_nothing [OF s this, of "\<lambda>_. True" demo_library demo_process demo_net demo_components "\<lambda>_. True" True "\<lambda>_. 20" "''backup.db''"] s
  show ?thesis by auto
qed

text \<open>Without the wait of a graceful stop, one open connection is enough to leave the defined behaviour: the pool releases a slot of its array.\<close>

lemma stop_with_clients:
  assumes "si_running s" and "si_pool s = Some p" and "\<not> p_locked p" and "list_ex in_use (p_connections p)"
  shows "server_stop L e False s = Undefined_Behaviour"
  using assms
  by (simp add: server_stop_def server_cleanup_components_def release_pool_def destroy_pool_outcome update_server_state_def Let_def)


section \<open>The threads and the running flag\<close>

text \<open>\<open>server_start\<close> creates its three threads and sets \<open>running\<close> afterwards; each thread enters its loop only when it finds the flag set, and ends otherwise.
  The steps of the starting thread (\<open>sp_pc\<close>) and of the threads it creates, in any order.\<close>

datatype worker_thread = Accept_Thread | Cleanup_Thread | Maintenance_Thread

datatype thread_status = Not_Created | Created | In_Loop | Ended

record start_phase =
  sp_pc :: nat
  sp_running :: bool
  sp_status :: "worker_thread \<Rightarrow> thread_status"

definition created_at :: "nat \<Rightarrow> worker_thread" where
  "created_at pc = (if pc = 0 then Accept_Thread else if pc = 1 then Cleanup_Thread else Maintenance_Thread)"

inductive start_step :: "start_phase \<Rightarrow> start_phase \<Rightarrow> bool" where
  create: "sp_pc s < 3 \<Longrightarrow> start_step s (s\<lparr>sp_pc := Suc (sp_pc s), sp_status := (sp_status s)(created_at (sp_pc s) := Created)\<rparr>)"
| publish: "sp_pc s = 3 \<Longrightarrow> start_step s (s\<lparr>sp_pc := 4, sp_running := True\<rparr>)"
| enter: "sp_status s w = Created \<Longrightarrow> sp_running s \<Longrightarrow> start_step s (s\<lparr>sp_status := (sp_status s)(w := In_Loop)\<rparr>)"
| leave: "sp_status s w = Created \<Longrightarrow> \<not> sp_running s \<Longrightarrow> start_step s (s\<lparr>sp_status := (sp_status s)(w := Ended)\<rparr>)"

definition start_begin :: start_phase where
  "start_begin = \<lparr>sp_pc = 0, sp_running = False, sp_status = (\<lambda>_. Not_Created)\<rparr>"

inductive_cases start_stepE: "start_step s s'"

text \<open>
  (C29) Starting is a race. A thread reaches its loop only if it is first scheduled after \<open>server_start\<close> has set the flag; each of the three may look before
  and end at once, and then the server reports that it runs although nobody accepts connections, cleans up or maintains. A thread that has ended never runs again.
\<close>

theorem start_race:
  "(start_step\<^sup>*\<^sup>* start_begin s \<longrightarrow> sp_status s w = In_Loop \<longrightarrow> sp_running s) \<and>
   (start_step\<^sup>*\<^sup>* s s' \<longrightarrow> sp_pc s = 4 \<longrightarrow> sp_status s w = Ended \<longrightarrow> sp_status s' w = Ended) \<and>
   (\<exists>s. start_step\<^sup>*\<^sup>* start_begin s \<and> sp_pc s = 4 \<and> sp_running s \<and> (\<forall>w. sp_status s w = Ended))"
proof (intro conjI impI)
  show "start_step\<^sup>*\<^sup>* start_begin s \<Longrightarrow> sp_status s w = In_Loop \<Longrightarrow> sp_running s"
  proof (induction arbitrary: w rule: rtranclp_induct)
    case base
    then show ?case by (simp add: start_begin_def)
  next
    case (step y z)
    from step.hyps(2) step.prems step.IH show ?case by (cases rule: start_step.cases) (auto split: if_splits)
  qed
  show "sp_status s' w = Ended" if "start_step\<^sup>*\<^sup>* s s'" "sp_pc s = 4" "sp_status s w = Ended"
  proof -
    from that have "sp_pc s' = 4 \<and> sp_status s' w = Ended"
    proof (induction rule: rtranclp_induct)
      case base
      then show ?case by simp
    next
      case (step y z)
      from step.hyps(2) step.prems step.IH show ?case by (cases rule: start_step.cases) auto
    qed
    then show ?thesis by simp
  qed
  let ?run = "\<lambda>pc r f. \<lparr>sp_pc = pc, sp_running = r, sp_status = f\<rparr>"
  let ?f0 = "\<lambda>_ :: worker_thread. Not_Created"
  have c: "start_step\<^sup>*\<^sup>* (?run pc False f) (?run (Suc pc) False (f(created_at pc := Ended)))" if "pc < 3" for pc f
  proof -
    have "start_step (?run pc False f) (?run (Suc pc) False (f(created_at pc := Created)))"
      using start_step.create [of "?run pc False f"] that by simp
    moreover have "start_step (?run (Suc pc) False (f(created_at pc := Created))) (?run (Suc pc) False (f(created_at pc := Ended)))"
      using start_step.leave [of "?run (Suc pc) False (f(created_at pc := Created))" "created_at pc"] by simp
    ultimately show ?thesis by (meson r_into_rtranclp rtranclp.rtrancl_into_rtrancl)
  qed
  define f3 where "f3 = ?f0(created_at 0 := Ended, created_at 1 := Ended, created_at 2 := Ended)"
  have "start_step\<^sup>*\<^sup>* start_begin (?run 3 False f3)"
    using c [of 0 ?f0] c [of 1 "?f0(created_at 0 := Ended)"] c [of 2 "?f0(created_at 0 := Ended, created_at 1 := Ended)"]
    by (simp add: start_begin_def f3_def numeral_3_eq_3 numeral_2_eq_2)
  moreover have "start_step (?run 3 False f3) (?run 4 True f3)" using start_step.publish [of "?run 3 False f3"] by simp
  moreover have "f3 w = Ended" for w by (cases w) (simp_all add: f3_def created_at_def)
  ultimately show "\<exists>s. start_step\<^sup>*\<^sup>* start_begin s \<and> sp_pc s = 4 \<and> sp_running s \<and> (\<forall>w. sp_status s w = Ended)"
    by (intro exI [of _ "?run 4 True f3"]) (simp add: rtranclp.rtrancl_into_rtrancl)
qed


lemma start_race_witness:
  "\<exists>s. start_step\<^sup>*\<^sup>* start_begin s \<and> start_step\<^sup>*\<^sup>* s s \<and> sp_pc s = 4 \<and> sp_running s \<and> sp_status s Accept_Thread = Ended"
proof -
  obtain s where s: "start_step\<^sup>*\<^sup>* start_begin s" "sp_pc s = 4" "sp_running s" "\<forall>w. sp_status s w = Ended"
    using start_race [of start_begin Accept_Thread start_begin] by blast
  then have "sp_status s Accept_Thread = Ended" using start_race [of s Accept_Thread s] by blast
  with s show ?thesis by blast
qed

end
