(* ===== verification/Server_Loop.thy ===== *)
theory Server_Loop
  imports Server_Life Sql_Table
begin

text \<open>
  The threads of the server (\<open>accept_thread_func\<close>, \<open>cleanup_thread_func\<close>, \<open>maintenance_thread_func\<close> of \<open>server/src/server_core.c\<close>): new
  connections, the events of the clients, and the periodic cleanup of connections and of the database. One turn of a loop is one operation; the
  events that \<open>epoll_wait\<close> reports, the answers of the kernel and the clock are arguments. The \<open>connection_create(pool, fd, addr)\<close> that
  \<open>handle_tcp_connection\<close> calls does not exist in the sources (\<open>connection.c\<close> has \<open>connection_create(fd, addr, ssl_ctx)\<close>, which knows no pool): it is a
  member of the library, like \<open>connection_close(pool, conn)\<close>.
\<close>

record loop_library = library +
  lb_create :: "connection_pool option \<Rightarrow> int \<Rightarrow> 32 word \<times> 16 word \<Rightarrow> (nat option \<times> connection_pool option) outcome"

section \<open>New connections\<close>

record accept_env =
  ae_nonblocking :: bool
  ae_options :: bool
  ae_ssl_new :: bool
  ae_epoll_add :: bool
  ae_now :: "nat \<Rightarrow> 64 word"

text \<open>The connection in slot \<open>i\<close> gets its SSL object.\<close>

definition attach_ssl :: "nat \<Rightarrow> connection_pool option \<Rightarrow> connection_pool option" where
  "attach_ssl i pool = map_option (\<lambda>p. p\<lparr>p_connections := (p_connections p)[i := (p_connections p ! i)\<lparr>c_ssl := True, c_encryption := True\<rparr>]\<rparr>) pool"

definition note_concurrent :: "64 word \<Rightarrow> server_instance \<Rightarrow> server_instance" where
  "note_concurrent n s =
     (let st = si_stats s in
      if n > max_concurrent_connections (ss_connections st)
      then s\<lparr>si_stats := st\<lparr>ss_connections := (ss_connections st)\<lparr>max_concurrent_connections := n\<rparr>\<rparr>\<rparr> else s)"

text \<open>The connection in slot \<open>i\<close> joins the epoll instance; then the statistics, the audit log and the event.\<close>

definition admit_client :: "loop_library \<Rightarrow> accept_env \<Rightarrow> nat \<Rightarrow> 32 word \<times> 16 word \<Rightarrow> server_instance \<Rightarrow> (int \<times> server_instance) outcome" where
  "admit_client L e i addr s1 =
     (if \<not> ae_epoll_add e then Done (-5, s1\<lparr>si_pool := map_option (\<lambda>p. lb_close L p i) (si_pool s1)\<rparr>)
      else
        let s2 = update_server_statistics Stat_Connections_Active 1 (update_server_statistics Stat_Connections_Total 1 s1);
            s3 = note_concurrent (connection_pool_get_active_count (si_pool s2)) s2;
            conn_id = (case si_pool s3 of None \<Rightarrow> 0 | Some p \<Rightarrow> c_id (p_connections p ! i));
            client_ip = Some (lb_ntop L (fst addr));
            s4 = log_audit_event (ae_now e 0) ''CLIENT_CONNECT'' 0 conn_id client_ip s3
        in obind (trigger_text_event (ae_now e 1) Event_Client_Connect 0 conn_id client_ip s4) (\<lambda>s5. Done (0, s5)))"

text \<open>The result, and the server. The comparison turns \<open>max_clients\<close> into an unsigned number.\<close>

definition handle_tcp_connection :: "loop_library \<Rightarrow> accept_env \<Rightarrow> int \<Rightarrow> 32 word \<times> 16 word \<Rightarrow> server_instance \<Rightarrow> (int \<times> server_instance) outcome" where
  "handle_tcp_connection L e fd addr s =
     (if si_pool s \<noteq> None \<and> connection_pool_get_active_count (si_pool s) \<ge> of_int (max_clients (cf_network (si_config s)))
      then Done (-1, update_server_statistics Stat_Connections_Rejected 1 s)
      else if \<not> ae_nonblocking e then Done (-2, s)
      else if \<not> ae_options e then Done (-3, s)
      else obind (lb_create L (si_pool s) fd addr) (\<lambda>(slot, pool).
        case slot of
          None \<Rightarrow> Done (-4, s\<lparr>si_pool := pool\<rparr>)
        | Some i \<Rightarrow>
            admit_client L e i addr
              (s\<lparr>si_pool := (if enable_ssl (cf_ssl (si_config s)) \<and> si_parts s Ssl_Ctx \<and> ae_ssl_new e then attach_ssl i pool else pool)\<rparr>)))"

text \<open>A WebSocket connection is accepted and only logged: nobody keeps its descriptor.\<close>

definition handle_websocket_connection :: "server_instance \<Rightarrow> int \<times> server_instance" where
  "handle_websocket_connection s = (0, s)"

section \<open>Events of clients\<close>

record epoll_events =
  ep_in :: bool
  ep_out :: bool
  ep_rdhup :: bool
  ep_hup :: bool
  ep_err :: bool

record client_env =
  cl_recv :: recv_result
  cl_clk :: "nat \<Rightarrow> nat \<Rightarrow> 64 word"
  cl_now :: "64 word"
  cl_alloc :: bool

definition close_slot :: "loop_library \<Rightarrow> nat \<Rightarrow> server_instance \<Rightarrow> server_instance" where
  "close_slot L i s = s\<lparr>si_pool := map_option (\<lambda>p. lb_close L p i) (si_pool s)\<rparr>"

text \<open>\<open>EPOLLIN\<close>: one read of at most 8192 bytes. \<open>connection_receive\<close> returns 0 at the end of the stream and when there are no data yet.\<close>

definition handle_readable :: "loop_library \<Rightarrow> client_env \<Rightarrow> nat \<Rightarrow> connection_pool \<Rightarrow> server_instance \<Rightarrow> server_instance outcome" where
  "handle_readable L e i p s =
     (case connection_receive (cl_now e) (Some (p_connections p ! i)) (cl_recv e) (Some 8192) of
        (n, bs, conn) \<Rightarrow>
          let c = the conn;
              s1 = s\<lparr>si_pool := Some (p\<lparr>p_connections := (p_connections p)[i := c]\<rparr>)\<rparr> in
          if n > 0 then
            (case conn_process_data (lb_ser L) (lb_deser L) (lb_chk L) (cl_clk e) (cl_alloc e) c (si_socks s (c_fd c)) bs of
               None \<Rightarrow> Deadlock
             | Some (_, c', sk) \<Rightarrow>
                 let s2 = s1\<lparr>si_pool := Some (p\<lparr>p_connections := (p_connections p)[i := c']\<rparr>), si_socks := (si_socks s1)(c_fd c := sk)\<rparr>
                 in Done (update_server_statistics Stat_Messages_Received 1 (update_server_statistics Stat_Network_In (of_int n) s2)))
          else Done (close_slot L i s1))"

text \<open>\<open>EPOLLOUT\<close> calls \<open>connection_process_send_queue\<close>, which does nothing.\<close>

definition handle_client_event :: "loop_library \<Rightarrow> client_env \<Rightarrow> int \<Rightarrow> epoll_events \<Rightarrow> server_instance \<Rightarrow> server_instance outcome" where
  "handle_client_event L e fd ev s =
     (case connection_pool_get_by_fd (si_pool s) fd of
        None \<Rightarrow> Done s
      | Some i \<Rightarrow>
          if ep_rdhup ev \<or> ep_hup ev then Done (close_slot L i s)
          else if ep_err ev then Done (close_slot L i s)
          else if ep_in ev then handle_readable L e i (the (si_pool s)) s
          else Done s)"

section \<open>The accept thread\<close>

text \<open>One event: its descriptor and flags, the answer of \<open>accept\<close> where it is called (negative on failure), and the environments.\<close>

record loop_event =
  le_fd :: int
  le_events :: epoll_events
  le_accept :: int
  le_addr :: "32 word \<times> 16 word"
  le_accept_env :: accept_env
  le_client_env :: client_env

definition accept_event :: "loop_library \<Rightarrow> loop_event \<Rightarrow> server_instance \<Rightarrow> server_instance outcome" where
  "accept_event L ev s =
     (if le_fd ev = si_tcp_fd s then
        (if le_accept ev < 0 then Done s
         else obind (handle_tcp_connection L (le_accept_env ev) (le_accept ev) (le_addr ev) s) (\<lambda>(_, s1). Done s1))
      else if le_fd ev = si_ws_fd s then
        (if le_accept ev < 0 then Done s else Done (snd (handle_websocket_connection s)))
      else handle_client_event L (le_client_env ev) (le_fd ev) (le_events ev) s)"

fun accept_events :: "loop_library \<Rightarrow> loop_event list \<Rightarrow> server_instance \<Rightarrow> server_instance outcome" where
  "accept_events L [] s = Done s"
| "accept_events L (ev # evs) s = obind (accept_event L ev s) (accept_events L evs)"

text \<open>One turn of the loop with the size of the event array; \<open>grow\<close>: the array can be reallocated when it was full.\<close>

definition tcp_accept_turn :: "loop_library \<Rightarrow> bool \<Rightarrow> loop_event list \<Rightarrow> nat \<Rightarrow> server_instance \<Rightarrow> (nat \<times> server_instance) outcome" where
  "tcp_accept_turn L grow evs max_events s =
     obind (accept_events L (take max_events evs) s) (\<lambda>s1.
       Done (if length (take max_events evs) = max_events \<and> grow then max_events * 2 else max_events, s1))"

section \<open>Cleanup and maintenance\<close>

text \<open>A turn of the cleanup thread after its sleep; the temporary files go with \<open>file_transfer_manager_cleanup_temp_files\<close>, which is not in the sources.\<close>

definition cleanup_turn :: "64 word \<Rightarrow> server_instance \<Rightarrow> server_instance outcome" where
  "cleanup_turn now s =
     (if \<not> si_running s then Done s
      else case si_pool s of
        None \<Rightarrow> Done s
      | Some p \<Rightarrow>
          obind (connection_pool_cleanup_expired now (Some p) (of_int (session_timeout (cf_connection (si_config s))))) (\<lambda>(_, pool).
            Done (s\<lparr>si_pool := pool\<rparr>)))"

text \<open>The time columns of the three tables; SQLite compares them with the bound value as signed numbers.\<close>

record time_tables =
  tt_sessions :: "int list"
  tt_messages :: "int list"
  tt_audit :: "int list"

definition delete_before :: "sql_answer \<Rightarrow> 64 word \<Rightarrow> int list \<Rightarrow> nat \<times> int list" where
  "delete_before a limit rows =
     (if a = Sql_Done then (sql_count (\<lambda>t. t < sint limit) rows, filter (\<lambda>t. \<not> t < sint limit) rows) else (0, rows))"

text \<open>A product of \<open>int\<close> constants; a value that an \<open>int\<close> cannot hold is undefined.\<close>

definition int_constant :: "int \<Rightarrow> 64 word outcome" where
  "int_constant x = (if - (2 ^ 31) \<le> x \<and> x < 2 ^ 31 then Done (of_int x) else Undefined_Behaviour)"

definition message_keep :: "64 word outcome" where
  "message_keep = int_constant (30 * 24 * 3600 * 1000)"

definition audit_keep :: "64 word outcome" where
  "audit_keep = int_constant (7 * 24 * 3600 * 1000)"

definition server_cleanup_expired_data :: "(nat \<Rightarrow> sql_answer) \<Rightarrow> 64 word \<Rightarrow> server_instance \<Rightarrow> time_tables \<Rightarrow> (nat \<times> time_tables) outcome" where
  "server_cleanup_expired_data a now s db =
     (if \<not> si_parts s Db_Conn then Done (0, db)
      else
        let (n1, ss) = delete_before (a 0) (now - of_int (session_timeout (cf_connection (si_config s)))) (tt_sessions db)
        in obind message_keep (\<lambda>mk.
             let (n2, ms) = delete_before (a 1) (now - mk) (tt_messages db)
             in obind audit_keep (\<lambda>ak.
                  let (n3, au) = delete_before (a 2) (now - ak) (tt_audit db)
                  in Done (n1 + n2 + n3, \<lparr>tt_sessions = ss, tt_messages = ms, tt_audit = au\<rparr>))))"

definition server_perform_maintenance :: "(nat \<Rightarrow> sql_answer) \<Rightarrow> (nat \<Rightarrow> 64 word) \<Rightarrow> server_instance \<Rightarrow> time_tables \<Rightarrow>
    (int \<times> server_instance \<times> time_tables) outcome" where
  "server_perform_maintenance a now s db =
     obind (server_cleanup_expired_data a (now 0) s db) (\<lambda>(_, db1).
       Done (0, s\<lparr>si_stats := (si_stats s)\<lparr>ss_times := (ss_times (si_stats s))\<lparr>uptime := now 1 - startup_time (ss_times (si_stats s))\<rparr>\<rparr>\<rparr>, db1))"

definition maintenance_turn :: "(nat \<Rightarrow> sql_answer) \<Rightarrow> (nat \<Rightarrow> 64 word) \<Rightarrow> server_instance \<Rightarrow> time_tables \<Rightarrow> (server_instance \<times> time_tables) outcome" where
  "maintenance_turn a now s db =
     (if \<not> si_running s then Done (s, db)
      else obind (server_perform_maintenance a now s db) (\<lambda>(_, s1, db1).
        let s2 = s1\<lparr>si_stats := (si_stats s1)\<lparr>ss_times := (ss_times (si_stats s1))\<lparr>uptime := now 2 - startup_time (ss_times (si_stats s1))\<rparr>\<rparr>\<rparr>
        in Done (trigger_event (now 3) Event_Maintenance s2, db1)))"

text \<open>
  The comment promises that messages are kept for 30 days, but \<open>30 * 24 * 3600 * 1000\<close> exceeds an \<open>int\<close>. So no maintenance of a running server with a
  database is defined. (The limit of seven days for the audit log fits.)
\<close>

theorem maintenance_undefined:
  assumes "si_running s" and "si_parts s Db_Conn"
  shows "maintenance_turn a now s db = Undefined_Behaviour \<and> audit_keep = Done 604800000"
  using assms
  by (simp add: maintenance_turn_def server_perform_maintenance_def server_cleanup_expired_data_def message_keep_def audit_keep_def int_constant_def case_prod_beta Let_def)

section \<open>The number of connections\<close>

abbreviation pool_active :: "server_instance \<Rightarrow> 64 word" where
  "pool_active s \<equiv> connection_pool_get_active_count (si_pool s)"

lemma active_kept [simp]:
  "pool_active (update_server_statistics k v s) = pool_active s" "pool_active (note_concurrent n s) = pool_active s"
  "pool_active (log_audit_event now ev u c d s) = pool_active s" "si_config (update_server_statistics k v s) = si_config s"
  "si_config (note_concurrent n s) = si_config s" "si_config (log_audit_event now ev u c d s) = si_config s"
  by (simp_all add: note_concurrent_def log_audit_event_def update_server_statistics_def Let_def)

lemma attach_ssl_active [simp]: "connection_pool_get_active_count (attach_ssl i pool) = connection_pool_get_active_count pool"
  by (cases pool) (simp_all add: attach_ssl_def connection_pool_get_active_count_def)

lemma trigger_text_event_keeps:
  assumes "trigger_text_event now t u c d s = Done s'"
  shows "si_pool s' = si_pool s \<and> si_config s' = si_config s \<and> si_stats s' = si_stats s"
  using assms by (auto simp: trigger_text_event_def split: if_splits)

text \<open>What the loop needs of the functions that add a connection to the pool and close one: an addition counts at most one more connection, and none when it
  fails; closing does not count more.\<close>

locale client_pool =
  fixes create :: "connection_pool option \<Rightarrow> int \<Rightarrow> 32 word \<times> 16 word \<Rightarrow> (nat option \<times> connection_pool option) outcome"
    and close :: "connection_pool \<Rightarrow> nat \<Rightarrow> connection_pool"
  assumes create_some: "create pool fd addr = Done (Some i, pool') \<Longrightarrow> connection_pool_get_active_count pool' = connection_pool_get_active_count pool + 1"
    and create_none: "create pool fd addr = Done (None, pool') \<Longrightarrow> connection_pool_get_active_count pool' = connection_pool_get_active_count pool"
    and create_null: "create None fd addr = Done (slot, pool') \<Longrightarrow> slot = None"
    and close_active: "p_active (close p i) \<le> p_active p"
begin

lemma admit_client_bound:
  assumes "admit_client L e i addr s = Done (r, s')" and "lb_close L = close" and "pool_active s \<le> m"
  shows "pool_active s' \<le> m \<and> si_config s' = si_config s"
proof (cases "ae_epoll_add e")
  case True
  with assms show ?thesis by (auto simp: admit_client_def Let_def obind_Done dest!: trigger_text_event_keeps)
next
  case False
  have "pool_active (s\<lparr>si_pool := map_option (\<lambda>p. close p i) (si_pool s)\<rparr>) \<le> m"
    using assms(3) by (cases "si_pool s") (auto simp: connection_pool_get_active_count_def intro: order_trans [OF close_active])
  with False assms(1,2) show ?thesis by (auto simp: admit_client_def)
qed

lemma handle_tcp_connection_bound:
  assumes "handle_tcp_connection L e fd addr s = Done (r, s')" and "lb_create L = create" and "lb_close L = close"
    and "pool_active s \<le> of_int (max_clients (cf_network (si_config s)))"
  shows "pool_active s' \<le> of_int (max_clients (cf_network (si_config s))) \<and> si_config s' = si_config s"
proof -
  let ?m = "of_int (max_clients (cf_network (si_config s))) :: 64 word"
  let ?full = "si_pool s \<noteq> None \<and> ?m \<le> pool_active s"
  show ?thesis
  proof (cases "?full \<or> \<not> ae_nonblocking e \<or> \<not> ae_options e")
    case True
    with assms(1,4) show ?thesis unfolding handle_tcp_connection_def by (auto split: if_split_asm)
  next
    case False
    then have run: "obind (create (si_pool s) fd addr) (\<lambda>(slot, pool). case slot of None \<Rightarrow> Done (-4, s\<lparr>si_pool := pool\<rparr>)
        | Some i \<Rightarrow> admit_client L e i addr
            (s\<lparr>si_pool := (if enable_ssl (cf_ssl (si_config s)) \<and> si_parts s Ssl_Ctx \<and> ae_ssl_new e then attach_ssl i pool else pool)\<rparr>)) = Done (r, s')"
      using assms(1,2) unfolding handle_tcp_connection_def by (simp split: if_split_asm)
    then obtain slot pool where c: "create (si_pool s) fd addr = Done (slot, pool)" by (auto simp: obind_Done)
    show ?thesis
    proof (cases slot)
      case None
      with run c have "s' = s\<lparr>si_pool := pool\<rparr>" by simp
      with create_none c None assms(4) show ?thesis by simp
    next
      case (Some i)
      with c create_null have "si_pool s \<noteq> None" by fastforce
      with False have lt: "pool_active s < ?m" by auto
      have "connection_pool_get_active_count pool = pool_active s + 1" using create_some c Some by blast
      with lt have bound: "connection_pool_get_active_count pool \<le> ?m" by (simp add: inc_le)
      from run c Some have "admit_client L e i addr
          (s\<lparr>si_pool := (if enable_ssl (cf_ssl (si_config s)) \<and> si_parts s Ssl_Ctx \<and> ae_ssl_new e then attach_ssl i pool else pool)\<rparr>) = Done (r, s')"
        by simp
      from admit_client_bound [OF this assms(3), of ?m] bound show ?thesis by simp
    qed
  qed
qed

lemma close_slot_bound: "lb_close L = close \<Longrightarrow> pool_active (close_slot L i s) \<le> pool_active s \<and> si_config (close_slot L i s) = si_config s"
  using close_active by (cases "si_pool s") (simp_all add: close_slot_def connection_pool_get_active_count_def)

lemma handle_readable_bound:
  assumes "handle_readable L e i p s = Done s'" and "si_pool s = Some p" and "lb_close L = close"
  shows "pool_active s' \<le> pool_active s \<and> si_config s' = si_config s"
proof -
  obtain n bs conn where rc: "connection_receive (cl_now e) (Some (p_connections p ! i)) (cl_recv e) (Some 8192) = (n, bs, conn)"
    by (metis prod_cases3)
  have upd: "connection_pool_get_active_count (Some (p\<lparr>p_connections := cs\<rparr>)) = connection_pool_get_active_count (Some p)" for cs
    by (simp add: connection_pool_get_active_count_def)
  show ?thesis
  proof (cases "n > 0")
    case True
    with assms(1,2) rc upd show ?thesis unfolding handle_readable_def by (auto simp: Let_def split: option.splits)
  next
    case False
    let ?s1 = "s\<lparr>si_pool := Some (p\<lparr>p_connections := (p_connections p)[i := the conn]\<rparr>)\<rparr>"
    from assms(1) rc False have "s' = close_slot L i ?s1" unfolding handle_readable_def by (simp add: Let_def)
    then show ?thesis using close_slot_bound [OF assms(3), of i ?s1] upd assms(2) by simp
  qed
qed

lemma handle_client_event_bound:
  assumes "handle_client_event L e fd ev s = Done s'" and "lb_close L = close"
  shows "pool_active s' \<le> pool_active s \<and> si_config s' = si_config s"
proof (cases "connection_pool_get_by_fd (si_pool s) fd")
  case None
  with assms(1) show ?thesis by (simp add: handle_client_event_def)
next
  case (Some i)
  then obtain p where p: "si_pool s = Some p" by (cases "si_pool s") (simp_all add: connection_pool_get_by_fd_def)
  with assms Some close_slot_bound [OF assms(2), of i s] handle_readable_bound [OF _ p assms(2)] show ?thesis
    by (auto simp: handle_client_event_def split: if_split_asm)
qed

lemma accept_events_bound:
  assumes "accept_events L evs s = Done s'" and "lb_create L = create" and "lb_close L = close"
    and "pool_active s \<le> of_int (max_clients (cf_network (si_config s)))"
  shows "pool_active s' \<le> of_int (max_clients (cf_network (si_config s))) \<and> si_config s' = si_config s"
  using assms(1,4)
proof (induction evs arbitrary: s)
  case Nil
  then show ?case by simp
next
  case (Cons ev evs)
  from Cons.prems(1) obtain s1 where s1: "accept_event L ev s = Done s1" "accept_events L evs s1 = Done s'" by (auto simp: obind_Done)
  have "pool_active s1 \<le> of_int (max_clients (cf_network (si_config s))) \<and> si_config s1 = si_config s"
  proof (cases "le_fd ev = si_tcp_fd s \<or> le_fd ev = si_ws_fd s")
    case True
    show ?thesis
    proof (cases "le_fd ev = si_tcp_fd s \<and> le_accept ev \<ge> 0")
      case True
      with s1(1) obtain r where "handle_tcp_connection L (le_accept_env ev) (le_accept ev) (le_addr ev) s = Done (r, s1)"
        by (auto simp: accept_event_def obind_Done)
      from handle_tcp_connection_bound [OF this assms(2,3) Cons.prems(2)] show ?thesis .
    next
      case False
      with s1(1) True Cons.prems(2) show ?thesis by (auto simp: accept_event_def handle_websocket_connection_def split: if_split_asm)
    qed
  next
    case False
    with s1(1) have "handle_client_event L (le_client_env ev) (le_fd ev) (le_events ev) s = Done s1" by (simp add: accept_event_def)
    from handle_client_event_bound [OF this assms(3)] Cons.prems(2) show ?thesis by auto
  qed
  with Cons.IH [OF s1(2)] show ?case by simp
qed

end


text \<open>The functions of \<open>connection.c\<close> that play these roles.\<close>

definition pool_create :: "(nat \<Rightarrow> bool) \<Rightarrow> (nat \<Rightarrow> 64 word) \<Rightarrow> connection_pool option \<Rightarrow> int \<Rightarrow> 32 word \<times> 16 word \<Rightarrow> (nat option \<times> connection_pool option) outcome" where
  "pool_create ok clk pool fd addr = connection_pool_add ok clk pool fd (Some addr)"

definition slot_close :: "connection_pool \<Rightarrow> nat \<Rightarrow> connection_pool" where
  "slot_close p i = p\<lparr>p_connections := (p_connections p)[i := the (fst (snd (connection_close (Some (p_connections p ! i)) True)))]\<rparr>"

lemma resize_active: "resize_connection_pool ok p n = Done (r, p') \<Longrightarrow> p_active p' = p_active p"
  by (auto simp: resize_connection_pool_def pool_lock_def pool_unlock_def split: if_split_asm)

lemma allocate_active: "allocate_connection ok p = Done (r, p') \<Longrightarrow> p_active p' = p_active p"
  by (auto simp: allocate_connection_def obind_Done split: option.splits if_split_asm dest: resize_active)

lemma pool_add_active:
  assumes "pool_add ok clk p fd addr = Done (r, p')"
  shows "p_active p' = (if r = None then p_active p else p_active p + 1)"
proof -
  from assms obtain p1 where p1: "pool_lock p = Done p1" by (auto simp: pool_add_def obind_Done)
  then have a1: "p_active p1 = p_active p" by (auto simp: pool_lock_def split: if_split_asm)
  let ?grow = "if p_count p1 \<ge> of_nat (p_capacity p1) then resize_connection_pool (ok 0) p1 (p_capacity p1 * 2) else Done (True, p1)"
  from assms p1 obtain b p2 where p2: "?grow = Done (b, p2)" by (auto simp: pool_add_def obind_Done)
  then have a2: "p_active p2 = p_active p" using a1 resize_active by (auto split: if_split_asm)
  show ?thesis
  proof (cases b)
    case False
    with assms p1 p2 a2 show ?thesis by (auto simp: pool_add_def pool_unlock_def)
  next
    case True
    with assms p1 p2 obtain slot p3 where p3: "allocate_connection (ok 1) p2 = Done (slot, p3)" by (auto simp: pool_add_def obind_Done)
    then have a3: "p_active p3 = p_active p" using a2 allocate_active by auto
    from assms p1 p2 p3 True a3 show ?thesis
      by (auto simp: pool_add_def pool_unlock_def Let_def split: option.splits if_split_asm)
  qed
qed

interpretation slots: client_pool "pool_create ok clk" slot_close for ok clk
proof
  fix pool fd addr i pool'
  assume "pool_create ok clk pool fd addr = Done (Some i, pool')"
  then show "connection_pool_get_active_count pool' = connection_pool_get_active_count pool + 1"
    by (auto simp: pool_create_def connection_pool_add_def obind_Done connection_pool_get_active_count_def split: option.splits if_split_asm dest: pool_add_active)
next
  fix pool fd addr pool'
  assume "pool_create ok clk pool fd addr = Done (None, pool')"
  then show "connection_pool_get_active_count pool' = connection_pool_get_active_count pool"
    by (auto simp: pool_create_def connection_pool_add_def obind_Done connection_pool_get_active_count_def split: option.splits if_split_asm dest: pool_add_active)
next
  fix fd addr slot pool'
  show "pool_create ok clk None fd addr = Done (slot, pool') \<Longrightarrow> slot = None" by (simp add: pool_create_def connection_pool_add_def)
next
  fix p i
  show "p_active (slot_close p i) \<le> p_active p" by (simp add: slot_close_def)
qed

text \<open>
  The limit on connections: with connections added to the pool by \<open>connection_pool_add\<close> and closed by \<open>connection_close\<close> of \<open>connection.c\<close> in the place of the
  missing functions, no sequence of events of the accept loop that begins within \<open>max_clients\<close> ends with more active connections than that. The counter of the
  pool does not fall when a connection is closed.
\<close>

theorem connection_limit_kept:
  assumes "accept_events L evs s = Done s'" and "lb_create L = pool_create ok clk" and "lb_close L = slot_close"
    and "pool_active s \<le> of_int (max_clients (cf_network (si_config s)))"
  shows "pool_active s' \<le> of_int (max_clients (cf_network (si_config s')))"
  using slots.accept_events_bound [OF assms] by simp

section \<open>The counters\<close>

definition counters :: "server_instance \<Rightarrow> 64 word \<times> 64 word \<times> 64 word" where
  "counters s = (let c = ss_connections (si_stats s) in (total_connections c, active_connections c, rejected_connections c))"

text \<open>The connections an event admits and refuses.\<close>

fun event_result :: "loop_library \<Rightarrow> loop_event \<Rightarrow> server_instance \<Rightarrow> int option" where
  "event_result L ev s =
     (if le_fd ev = si_tcp_fd s \<and> le_accept ev \<ge> 0
      then (case handle_tcp_connection L (le_accept_env ev) (le_accept ev) (le_addr ev) s of Done (r, _) \<Rightarrow> Some r | _ \<Rightarrow> None)
      else None)"

fun count_results :: "int \<Rightarrow> loop_library \<Rightarrow> loop_event list \<Rightarrow> server_instance \<Rightarrow> nat" where
  "count_results k L [] s = 0"
| "count_results k L (ev # evs) s =
     (case accept_event L ev s of Done s1 \<Rightarrow> (if event_result L ev s = Some k then 1 else 0) + count_results k L evs s1 | _ \<Rightarrow> 0)"

lemma counters_kept:
  "counters (note_concurrent n s) = counters s" "counters (log_audit_event now ev u c d s) = counters s"
  "counters (s\<lparr>si_pool := x\<rparr>) = counters s" "counters (s\<lparr>si_pool := x, si_socks := y\<rparr>) = counters s"
  "counters (update_server_statistics Stat_Messages_Received v s) = counters s" "counters (update_server_statistics Stat_Network_In v s) = counters s"
  by (simp_all add: counters_def note_concurrent_def log_audit_event_def update_server_statistics_def Let_def)

lemma admit_counters:
  assumes "admit_client L e i addr s = Done (r, s')"
  shows "counters s' = (if r = 0 then (fst (counters s) + 1, fst (snd (counters s)) + 1, snd (snd (counters s))) else counters s) \<and> r \<noteq> -1"
proof (cases "ae_epoll_add e")
  case True
  have up: "counters (update_server_statistics Stat_Connections_Active 1 (update_server_statistics Stat_Connections_Total 1 s)) =
      (fst (counters s) + 1, fst (snd (counters s)) + 1, snd (snd (counters s)))"
    by (simp add: counters_def update_server_statistics_def Let_def)
  from assms True obtain d now cid s4 where d: "r = 0" "trigger_text_event now Event_Client_Connect 0 cid d s4 = Done s'"
      "counters s4 = counters (update_server_statistics Stat_Connections_Active 1 (update_server_statistics Stat_Connections_Total 1 s))"
    by (auto simp: admit_client_def Let_def obind_Done counters_kept)
  then have "counters s' = counters s4" using trigger_text_event_keeps [OF d(2)] by (simp add: counters_def)
  with d up show ?thesis by simp
next
  case False
  with assms show ?thesis by (auto simp: admit_client_def counters_kept)
qed

lemma tcp_counters:
  assumes "handle_tcp_connection L e fd addr s = Done (r, s')"
  shows "counters s' = (fst (counters s) + (if r = 0 then 1 else 0), fst (snd (counters s)) + (if r = 0 then 1 else 0),
    snd (snd (counters s)) + (if r = -1 then 1 else 0))"
proof (cases "si_pool s \<noteq> None \<and> pool_active s \<ge> of_int (max_clients (cf_network (si_config s)))")
  case True
  with assms show ?thesis unfolding handle_tcp_connection_def by (auto simp: counters_def update_server_statistics_def Let_def)
next
  case False
  with assms show ?thesis
    unfolding handle_tcp_connection_def
    by (auto simp: obind_Done counters_kept split: if_split_asm option.splits dest!: admit_counters)
qed


lemma client_counters:
  assumes "handle_client_event L e fd ev s = Done s'"
  shows "counters s' = counters s"
proof -
  have "counters s' = counters s" if "handle_readable L e i p s = Done s'" for i p
    using that unfolding handle_readable_def
    by (auto simp: Let_def close_slot_def counters_kept split: prod.splits option.splits if_split_asm)
  with assms show ?thesis by (auto simp: handle_client_event_def close_slot_def counters_kept split: option.splits if_split_asm)
qed

lemma event_counters:
  assumes "accept_event L ev s = Done s'"
  shows "counters s' = (fst (counters s) + (if event_result L ev s = Some 0 then 1 else 0), fst (snd (counters s)) + (if event_result L ev s = Some 0 then 1 else 0),
    snd (snd (counters s)) + (if event_result L ev s = Some (-1) then 1 else 0))"
proof (cases "le_fd ev = si_tcp_fd s \<and> le_accept ev \<ge> 0")
  case True
  with assms obtain r where "handle_tcp_connection L (le_accept_env ev) (le_accept ev) (le_addr ev) s = Done (r, s')"
    by (auto simp: accept_event_def obind_Done)
  with True tcp_counters [OF this] show ?thesis by simp
next
  case False
  with assms have "counters s' = counters s"
    by (auto simp: accept_event_def handle_websocket_connection_def client_counters split: if_split_asm)
  moreover have "event_result L ev s = None" unfolding event_result.simps by (rule if_not_P [OF False])
  ultimately show ?thesis by simp
qed

text \<open>
  (C31) The connection counters over any sequence of events of the accept loop that returns, whatever the missing functions \<open>connection_create(pool, fd, addr)\<close> and
  \<open>connection_close(pool, conn)\<close> do: modulo \<open>2^64\<close>, \<open>total_connections\<close> grows by the number of connections admitted and
  \<open>rejected_connections\<close> by the number refused for the limit (failures of the socket, of the pool or of epoll count for neither). \<open>active_connections\<close> grows like
  \<open>total_connections\<close> and never falls, however many connections are closed.
\<close>

theorem connection_counters:
  assumes "accept_events L evs s = Done s'"
  shows "counters s' = (fst (counters s) + of_nat (count_results 0 L evs s), fst (snd (counters s)) + of_nat (count_results 0 L evs s),
    snd (snd (counters s)) + of_nat (count_results (-1) L evs s))"
  using assms
proof (induction evs arbitrary: s)
  case Nil
  then show ?case by simp
next
  case (Cons ev evs)
  from Cons.prems obtain s1 where s1: "accept_event L ev s = Done s1" "accept_events L evs s1 = Done s'" by (auto simp: obind_Done)
  from Cons.IH [OF s1(2)] event_counters [OF s1(1)] s1(1) show ?case
    by (simp del: event_result.simps add: algebra_simps)
qed

definition demo_loop_library :: loop_library where
  "demo_loop_library = \<lparr>lb_ser = packed_ser, lb_deser = packed_deser, lb_chk = (\<lambda>_. 7), lb_ntop = (\<lambda>_. ''127.0.0.1''), lb_close = slot_close,
     lb_create = pool_create (\<lambda>_. True) (\<lambda>_. 10)\<rparr>"

text \<open>A new connection on descriptor 7, then the end of the one on descriptor 5.\<close>

definition demo_connect :: loop_event where
  "demo_connect = \<lparr>le_fd = 3, le_events = \<lparr>ep_in = True, ep_out = False, ep_rdhup = False, ep_hup = False, ep_err = False\<rparr>, le_accept = 7, le_addr = (1, 2),
     le_accept_env = \<lparr>ae_nonblocking = True, ae_options = True, ae_ssl_new = True, ae_epoll_add = True, ae_now = (\<lambda>_. 10)\<rparr>,
     le_client_env = \<lparr>cl_recv = Recv_Closed, cl_clk = (\<lambda>_ _. 10), cl_now = 10, cl_alloc = True\<rparr>\<rparr>"

definition demo_hangup :: loop_event where
  "demo_hangup = demo_connect\<lparr>le_fd := 5, le_events := \<lparr>ep_in = True, ep_out = False, ep_rdhup = True, ep_hup = False, ep_err = False\<rparr>\<rparr>"

lemma demo_connected:
  "\<exists>s p. handle_tcp_connection demo_loop_library (le_accept_env demo_connect) 7 (1, 2) demo_instance = Done (0, s) \<and> si_pool s = Some p \<and>
     si_tcp_fd s = 3 \<and> si_ws_fd s = 0"
proof -
  have b: "p_capacity busy_pool = 2" "p_connections busy_pool = [blank_connection, demo_conn]" "p_count busy_pool = 1" "\<not> p_locked busy_pool"
      "p_active busy_pool = 0"
    using demo_pool by (simp_all add: busy_pool_def) (simp_all add: demo_pool_def connection_pool_create_def)
  have c: "c_fd blank_connection = -1" by (simp add: blank_connection_def)
  have "\<exists>p. pool_create (\<lambda>_. True) (\<lambda>_. 10) (Some busy_pool) 7 (1, 2) = Done (Some 0, Some p)"
    using b c by (simp add: word_le_nat_alt pool_create_def connection_pool_add_def pool_add_def pool_lock_def allocate_connection_def init_connection_buffers_def Let_def)
  then obtain p where p: "pool_create (\<lambda>_. True) (\<lambda>_. 10) (Some busy_pool) 7 (1, 2) = Done (Some 0, Some p)" by blast
  have s: "si_config demo_instance = server_config_init" "si_pool demo_instance = Some busy_pool" "\<not> si_callback demo_instance" "si_tcp_fd demo_instance = 3"
      "si_ws_fd demo_instance = 0"
    by (simp_all add: demo_instance_def)
  have m: "max_clients (cf_network server_config_init) = 1000" "\<not> enable_ssl (cf_ssl server_config_init)" by (simp_all add: server_config_init_def)
  show ?thesis
    using p s m b
    by (simp add: handle_tcp_connection_def admit_client_def demo_loop_library_def demo_connect_def connection_pool_get_active_count_def trigger_text_event_def
        log_audit_event_def note_concurrent_def update_server_statistics_def Let_def)
qed

lemma demo_run: "\<exists>s'. accept_events demo_loop_library [demo_connect, demo_hangup] demo_instance = Done s'"
proof -
  obtain s p where s: "handle_tcp_connection demo_loop_library (le_accept_env demo_connect) 7 (1, 2) demo_instance = Done (0, s)" "si_pool s = Some p"
      "si_tcp_fd s = 3" "si_ws_fd s = 0"
    using demo_connected by blast
  have "accept_event demo_loop_library demo_connect demo_instance = Done s"
    using s(1) by (simp add: accept_event_def demo_instance_def) (simp add: demo_connect_def)
  moreover have "\<exists>s'. accept_event demo_loop_library demo_hangup s = Done s'"
    using s(2-4) by (simp add: accept_event_def demo_hangup_def handle_client_event_def split: option.splits)
  ultimately show ?thesis by auto
qed

lemma connection_counters_witness:
  "\<exists>s'. accept_events demo_loop_library [demo_connect, demo_hangup] demo_instance = Done s' \<and>
     fst (counters s') = of_nat (count_results 0 demo_loop_library [demo_connect, demo_hangup] demo_instance)"
proof -
  obtain s' where "accept_events demo_loop_library [demo_connect, demo_hangup] demo_instance = Done s'" using demo_run by blast
  with connection_counters [OF this] show ?thesis by (auto simp: counters_def demo_instance_def zero_statistics_def Let_def)
qed

lemma connection_limit_kept_witness:
  "\<exists>s'. accept_events demo_loop_library [demo_connect, demo_hangup] demo_instance = Done s' \<and> pool_active s' \<le> of_int (max_clients (cf_network (si_config s')))"
proof -
  obtain s' where s': "accept_events demo_loop_library [demo_connect, demo_hangup] demo_instance = Done s'" using demo_run by blast
  have "pool_active demo_instance \<le> of_int (max_clients (cf_network (si_config demo_instance)))"
    by (simp add: demo_instance_def busy_pool_def demo_pool_def connection_pool_create_def connection_pool_get_active_count_def)
  with connection_limit_kept [OF s', of "\<lambda>_. True" "\<lambda>_. 10"] s' show ?thesis by (simp add: demo_loop_library_def)
qed

end
