(* ===== verification/Db_Pool.thy ===== *)
theory Db_Pool
  imports Chat_Prelude
begin

text \<open>
  The pool of SQLite connections of \<open>server/src/database.c\<close> (\<open>db_init_pool\<close>, \<open>db_get_connection\<close>, \<open>db_release_connection\<close>,
  \<open>db_close_all_connections\<close>, \<open>db_get_active_connections\<close>). A connection is named by its handle, a number. \<open>db_get_connection\<close> gives up the
  mutex while it waits, so it is cut there: \<open>db_get_begin\<close> runs up to the wait, \<open>db_get_woken\<close> goes on with the pool as it is then.
\<close>

datatype db_error = DB_SUCCESS | DB_ERROR_CONNECTION | DB_ERROR_QUERY | DB_ERROR_TRANSACTION | DB_ERROR_PREPARE | DB_ERROR_BIND | DB_ERROR_EXECUTE
  | DB_ERROR_NO_DATA | DB_ERROR_CONSTRAINT | DB_ERROR_TIMEOUT | DB_ERROR_BUSY | DB_ERROR_LOCKED | DB_ERROR_SCHEMA | DB_ERROR_DISK_FULL | DB_ERROR_READONLY
  | DB_ERROR_INTERRUPT | DB_ERROR_CORRUPT | DB_ERROR_NOT_FOUND | DB_ERROR_FULL | DB_ERROR_CANTOPEN | DB_ERROR_PROTOCOL | DB_ERROR_EMPTY | DB_ERROR_MISMATCH
  | DB_ERROR_RANGE | DB_ERROR_NOTADB | DB_ERROR_AUTH | DB_ERROR_FORMAT | DB_ERROR_OVERFLOW | DB_ERROR_INTERNAL | DB_ERROR_MEMORY

definition DB_MAX_CONNECTIONS :: nat where "DB_MAX_CONNECTIONS = 10"

record db_pool =
  dp_connections :: "nat option list"
  dp_in_use :: "bool list"
  dp_active :: nat
  dp_max :: nat

text \<open>\<open>ok\<close>: the structure is allocated, its mutex and condition variable are initialised. An existing pool is kept.\<close>

definition db_init_pool :: "bool \<times> bool \<Rightarrow> int \<Rightarrow> db_pool option \<Rightarrow> db_error \<times> db_pool option" where
  "db_init_pool ok max_connections pool =
     (case pool of Some p \<Rightarrow> (DB_SUCCESS, Some p)
      | None \<Rightarrow>
          if \<not> fst ok then (DB_ERROR_MEMORY, None)
          else
            let m = (if max_connections > 0 then nat max_connections else DB_MAX_CONNECTIONS);
                m' = (if m > DB_MAX_CONNECTIONS then DB_MAX_CONNECTIONS else m)
            in if \<not> snd ok then (DB_ERROR_CONNECTION, None)
               else (DB_SUCCESS, Some \<lparr>dp_connections = replicate DB_MAX_CONNECTIONS None, dp_in_use = replicate DB_MAX_CONNECTIONS False,
                                        dp_active = 0, dp_max = m'\<rparr>))"

definition find_idle :: "db_pool \<Rightarrow> nat option" where
  "find_idle p = first_index (\<lambda>b. \<not> b) (take (dp_max p) (dp_in_use p))"

text \<open>The slot of \<open>connection_index\<close>: \<open>opened\<close> is the handle of a new connection, if it can be opened.\<close>

definition take_slot :: "nat option \<Rightarrow> db_pool \<Rightarrow> nat \<Rightarrow> db_error \<times> nat option \<times> db_pool" where
  "take_slot opened p i =
     (case dp_connections p ! i of
        Some h \<Rightarrow> (DB_SUCCESS, Some h, p\<lparr>dp_in_use := (dp_in_use p)[i := True]\<rparr>)
      | None \<Rightarrow>
          (case opened of
             None \<Rightarrow> (DB_ERROR_CONNECTION, None, p)
           | Some h \<Rightarrow> (DB_SUCCESS, Some h, p\<lparr>dp_connections := (dp_connections p)[i := Some h], dp_active := dp_active p + 1,
                                              dp_in_use := (dp_in_use p)[i := True]\<rparr>)))"

text \<open>\<open>None\<close>: the caller waits.\<close>

definition db_get_begin :: "nat option \<Rightarrow> db_pool \<Rightarrow> (db_error \<times> nat option \<times> db_pool) option" where
  "db_get_begin opened p =
     (case find_idle p of
        Some i \<Rightarrow> Some (take_slot opened p i)
      | None \<Rightarrow>
          if dp_active p < dp_max p
          then (case first_index (\<lambda>c. c = None) (take (dp_max p) (dp_connections p)) of
                  Some i \<Rightarrow> Some (take_slot opened p i)
                | None \<Rightarrow> None)
          else None)"

definition db_get_woken :: "bool \<Rightarrow> nat option \<Rightarrow> db_pool \<Rightarrow> db_error \<times> nat option \<times> db_pool" where
  "db_get_woken timed_out opened p =
     (if timed_out then (DB_ERROR_TIMEOUT, None, p)
      else case find_idle p of
        None \<Rightarrow> (DB_ERROR_BUSY, None, p)
      | Some i \<Rightarrow> take_slot opened p i)"

text \<open>\<open>wake\<close>: whether the wait timed out, and the pool when the caller has the mutex again.\<close>

definition db_get_connection :: "nat option \<Rightarrow> bool \<times> db_pool \<Rightarrow> db_pool option \<Rightarrow> db_error \<times> nat option \<times> db_pool option" where
  "db_get_connection opened wake pool =
     (case pool of None \<Rightarrow> (DB_ERROR_CONNECTION, None, None)
      | Some p \<Rightarrow>
          (case (case db_get_begin opened p of Some r \<Rightarrow> r | None \<Rightarrow> db_get_woken (fst wake) opened (snd wake)) of
             (e, h, p') \<Rightarrow> (e, h, Some p')))"

definition db_release_connection :: "nat option \<Rightarrow> db_pool option \<Rightarrow> db_error \<times> db_pool option" where
  "db_release_connection conn pool =
     (case (pool, conn) of
        (Some p, Some h) \<Rightarrow>
          (case first_index (\<lambda>c. c = Some h) (take (dp_max p) (dp_connections p)) of
             None \<Rightarrow> (DB_ERROR_CONNECTION, pool)
           | Some i \<Rightarrow> (DB_SUCCESS, Some (p\<lparr>dp_in_use := (dp_in_use p)[i := False]\<rparr>)))
      | _ \<Rightarrow> (DB_ERROR_CONNECTION, pool))"

fun close_first :: "nat \<Rightarrow> nat option list \<Rightarrow> bool list \<Rightarrow> nat list \<times> nat option list \<times> bool list" where
  "close_first 0 cs us = ([], cs, us)"
| "close_first (Suc n) (c # cs) (u # us) =
     (case close_first n cs us of (closed, cs', us') \<Rightarrow>
        (case c of None \<Rightarrow> (closed, None # cs', u # us') | Some h \<Rightarrow> (h # closed, None # cs', False # us')))"
| "close_first (Suc n) cs us = ([], cs, us)"

text \<open>With the handles that are closed.\<close>

definition db_close_all_connections :: "db_pool option \<Rightarrow> nat list \<times> db_pool option" where
  "db_close_all_connections pool =
     (case pool of None \<Rightarrow> ([], None)
      | Some p \<Rightarrow>
          (case close_first (dp_max p) (dp_connections p) (dp_in_use p) of (closed, cs, us) \<Rightarrow>
             (closed, Some (p\<lparr>dp_connections := cs, dp_in_use := us, dp_active := 0\<rparr>))))"

definition db_get_active_connections :: "db_pool option \<Rightarrow> nat" where
  "db_get_active_connections pool = (case pool of None \<Rightarrow> 0 | Some p \<Rightarrow> dp_active p)"

section \<open>Invariant\<close>

text \<open>The handles of the pool: the open ones, and those that are lent.\<close>

definition open_handles :: "db_pool \<Rightarrow> nat set" where
  "open_handles p = {h. Some h \<in> set (dp_connections p)}"

definition lent :: "db_pool \<Rightarrow> nat set" where
  "lent p = {h. \<exists>i < dp_max p. dp_connections p ! i = Some h \<and> dp_in_use p ! i}"

definition db_pool_inv :: "db_pool \<Rightarrow> bool" where
  "db_pool_inv p \<longleftrightarrow> length (dp_connections p) = DB_MAX_CONNECTIONS \<and> length (dp_in_use p) = DB_MAX_CONNECTIONS \<and>
     0 < dp_max p \<and> dp_max p \<le> DB_MAX_CONNECTIONS \<and>
     (\<forall>i < dp_max p. dp_in_use p ! i \<longrightarrow> dp_connections p ! i \<noteq> None) \<and>
     (\<forall>i < DB_MAX_CONNECTIONS. dp_max p \<le> i \<longrightarrow> dp_connections p ! i = None) \<and>
     (\<forall>i < DB_MAX_CONNECTIONS. \<forall>j < DB_MAX_CONNECTIONS. dp_connections p ! i = dp_connections p ! j \<longrightarrow> dp_connections p ! i \<noteq> None \<longrightarrow> i = j) \<and>
     dp_active p = length (filter (\<lambda>c. c \<noteq> None) (dp_connections p))"

lemma db_init_pool_inv: "db_init_pool ok m None = (DB_SUCCESS, Some p) \<Longrightarrow> db_pool_inv p \<and> lent p = {} \<and> open_handles p = {}"
  by (auto simp: db_init_pool_def db_pool_inv_def lent_def open_handles_def DB_MAX_CONNECTIONS_def Let_def split: if_split_asm)

lemma find_idle_Some: "db_pool_inv p \<Longrightarrow> find_idle p = Some i \<Longrightarrow> i < dp_max p \<and> i < DB_MAX_CONNECTIONS \<and> \<not> dp_in_use p ! i"
  unfolding find_idle_def db_pool_inv_def by (auto dest!: first_index_Some)

lemma find_idle_None: "db_pool_inv p \<Longrightarrow> find_idle p = None \<longleftrightarrow> (\<forall>i < dp_max p. dp_in_use p ! i)"
  unfolding find_idle_def db_pool_inv_def first_index_None by (auto simp: in_set_conv_nth all_set_conv_all_nth)

lemma pool_invD:
  assumes "db_pool_inv p"
  shows "length (dp_connections p) = DB_MAX_CONNECTIONS" and "length (dp_in_use p) = DB_MAX_CONNECTIONS" and "dp_max p \<le> DB_MAX_CONNECTIONS"
    and "i < dp_max p \<Longrightarrow> dp_in_use p ! i \<Longrightarrow> dp_connections p ! i \<noteq> None"
    and "i < DB_MAX_CONNECTIONS \<Longrightarrow> dp_connections p ! i = Some h \<Longrightarrow> i < dp_max p"
    and "i < dp_max p \<Longrightarrow> j < dp_max p \<Longrightarrow> dp_connections p ! i = Some h \<Longrightarrow> dp_connections p ! j = Some h \<Longrightarrow> i = j"
proof -
  note inv = assms [unfolded db_pool_inv_def]
  show "length (dp_connections p) = DB_MAX_CONNECTIONS" "length (dp_in_use p) = DB_MAX_CONNECTIONS" "dp_max p \<le> DB_MAX_CONNECTIONS" using inv by auto
  show "i < dp_max p \<Longrightarrow> dp_in_use p ! i \<Longrightarrow> dp_connections p ! i \<noteq> None" using inv by blast
  show "i < DB_MAX_CONNECTIONS \<Longrightarrow> dp_connections p ! i = Some h \<Longrightarrow> i < dp_max p" using inv by (metis leI option.distinct(1))
  assume "i < dp_max p" "j < dp_max p" and eq: "dp_connections p ! i = Some h" "dp_connections p ! j = Some h"
  then have "i < DB_MAX_CONNECTIONS" "j < DB_MAX_CONNECTIONS" using inv by linarith+
  with inv eq show "i = j" by (metis option.distinct(1))
qed

lemma open_handles_nth:
  assumes "db_pool_inv p"
  shows "h \<in> open_handles p \<longleftrightarrow> (\<exists>i < dp_max p. dp_connections p ! i = Some h)"
  unfolding open_handles_def mem_Collect_eq in_set_conv_nth pool_invD(1) [OF assms]
  using pool_invD(3,5) [OF assms] by (meson less_le_trans)

text \<open>When no slot is idle, every slot has a connection, so the search for a slot without one is never reached.\<close>

lemma no_idle_full:
  assumes "db_pool_inv p" and "find_idle p = None"
  shows "dp_active p = dp_max p"
proof -
  have len: "length (dp_connections p) = DB_MAX_CONNECTIONS" and le: "dp_max p \<le> DB_MAX_CONNECTIONS" using assms(1) by (auto simp: db_pool_inv_def)
  have used: "\<forall>c \<in> set (take (dp_max p) (dp_connections p)). c \<noteq> None"
    using assms find_idle_None [OF assms(1)] len le by (auto simp: db_pool_inv_def in_set_conv_nth)
  have rest: "\<forall>c \<in> set (drop (dp_max p) (dp_connections p)). c = None"
    using assms(1) by (auto simp: db_pool_inv_def in_set_conv_nth)
  have "filter (\<lambda>c. c \<noteq> None) (dp_connections p) = filter (\<lambda>c. c \<noteq> None) (take (dp_max p) (dp_connections p) @ drop (dp_max p) (dp_connections p))"
    by simp
  also have "\<dots> = take (dp_max p) (dp_connections p)" unfolding filter_append using used rest by (simp add: filter_id_conv filter_empty_conv)
  finally have "length (filter (\<lambda>c. c \<noteq> None) (dp_connections p)) = dp_max p" using len le by simp
  with assms(1) show ?thesis by (simp add: db_pool_inv_def)
qed

lemma get_begin_eq: "db_pool_inv p \<Longrightarrow> db_get_begin opened p = map_option (take_slot opened p) (find_idle p)"
  using no_idle_full [of p] by (cases "find_idle p") (auto simp: db_get_begin_def)

text \<open>A slot that is idle: its connection is lent next, opened first when there is none.\<close>

lemma filter_open_slot: "i < length xs \<Longrightarrow> xs ! i = None \<Longrightarrow> length (filter (\<lambda>c. c \<noteq> None) (xs[i := Some h])) = Suc (length (filter (\<lambda>c. c \<noteq> None) xs))"
  by (induction xs arbitrary: i) (auto split: nat.split)

lemma lent_mark:
  assumes "i < dp_max p" and "i < length (dp_in_use p)" and "i < length (dp_connections p)" and "\<not> dp_in_use p ! i"
  shows "lent (p\<lparr>dp_connections := (dp_connections p)[i := Some h], dp_active := n, dp_in_use := (dp_in_use p)[i := True]\<rparr>) = insert h (lent p)"
  using assms by (auto simp: lent_def nth_list_update)

lemma take_slot_inv:
  assumes inv: "db_pool_inv p" and i: "i < dp_max p" and idle: "\<not> dp_in_use p ! i" and fresh: "\<And>h. opened = Some h \<Longrightarrow> h \<notin> open_handles p"
    and eq: "take_slot opened p i = (e, r, p')"
  shows "db_pool_inv p' \<and> dp_max p' = dp_max p \<and>
    (case r of None \<Rightarrow> e = DB_ERROR_CONNECTION \<and> p' = p | Some h \<Rightarrow> e = DB_SUCCESS \<and> h \<notin> lent p \<and> lent p' = insert h (lent p))"
proof -
  note len = pool_invD(1-3) [OF inv]
  have il: "i < DB_MAX_CONNECTIONS" "i < length (dp_in_use p)" "i < length (dp_connections p)" using i len by auto
  show ?thesis
  proof (cases "dp_connections p ! i")
    case (Some h)
    have p': "p' = p\<lparr>dp_in_use := (dp_in_use p)[i := True]\<rparr>" "r = Some h" "e = DB_SUCCESS"
      using eq Some by (auto simp: take_slot_def)
    have "h \<notin> lent p" using idle pool_invD(6) [OF inv i _ Some] by (auto simp: lent_def)
    moreover have "db_pool_inv p'" using inv Some unfolding p' db_pool_inv_def by (simp add: nth_list_update [OF il(2)])
    moreover have "lent p' = insert h (lent p)" using i il Some by (auto simp: p' lent_def nth_list_update)
    ultimately show ?thesis by (simp add: p')
  next
    case None
    show ?thesis
    proof (cases opened)
      case None': None
      with eq None inv show ?thesis by (auto simp: take_slot_def)
    next
      case (Some h)
      with eq None have p': "p' = p\<lparr>dp_connections := (dp_connections p)[i := Some h], dp_active := dp_active p + 1, dp_in_use := (dp_in_use p)[i := True]\<rparr>"
        "r = Some h" "e = DB_SUCCESS" by (auto simp: take_slot_def)
      have new: "\<And>j. j < DB_MAX_CONNECTIONS \<Longrightarrow> dp_connections p ! j \<noteq> Some h" using fresh [OF Some] len(1) by (auto simp: open_handles_def in_set_conv_nth)
      have "h \<notin> lent p" using new len(3) by (auto simp: lent_def)
      moreover have "db_pool_inv p'"
        using inv i None new filter_open_slot [OF il(3) None] unfolding p' db_pool_inv_def
        by (simp add: nth_list_update [OF il(2)] nth_list_update [OF il(3)]) metis
      ultimately show ?thesis using lent_mark [OF i il(2,3) idle] p' by simp
    qed
  qed
qed

section \<open>Lending\<close>

text \<open>What a user of the pool relies on: a handle that it gets is lent to nobody else, and giving it back undoes the loan. \<open>good\<close> says what
  the environment of a request may do.\<close>

locale lender =
  fixes get :: "'e \<Rightarrow> 's \<Rightarrow> 'h option \<times> 's" and release :: "'h \<Rightarrow> 's \<Rightarrow> 's" and held :: "'s \<Rightarrow> 'h set"
    and inv :: "'s \<Rightarrow> bool" and good :: "'e \<Rightarrow> 's \<Rightarrow> bool"
  assumes get_lends: "inv s \<Longrightarrow> good e s \<Longrightarrow> get e s = (Some h, s') \<Longrightarrow> inv s' \<and> h \<notin> held s \<and> held s' = insert h (held s)"
    and get_refused: "inv s \<Longrightarrow> good e s \<Longrightarrow> get e s = (None, s') \<Longrightarrow> s' = s"
    and release_ends: "inv s \<Longrightarrow> h \<in> held s \<Longrightarrow> inv (release h s) \<and> held (release h s) = held s - {h}"
begin

lemma bracket: "inv s \<Longrightarrow> good e s \<Longrightarrow> get e s = (Some h, s') \<Longrightarrow> inv (release h s') \<and> held (release h s') = held s"
  using get_lends release_ends by (metis Diff_insert_absorb insertI1)

text \<open>The holders of the handles, as a list: requests add to it, releases take from it.\<close>

lemma get_holders: "inv s \<Longrightarrow> good e s \<Longrightarrow> distinct hs \<Longrightarrow> set hs = held s \<Longrightarrow> get e s = (r, s') \<Longrightarrow>
    inv s' \<and> distinct (case_option hs (\<lambda>h. h # hs) r) \<and> set (case_option hs (\<lambda>h. h # hs) r) = held s'"
  using get_lends [of s e] get_refused [of s e] by (cases r) auto

lemma release_holders: "inv s \<Longrightarrow> distinct hs \<Longrightarrow> set hs = held s \<Longrightarrow> h \<in> set hs \<Longrightarrow>
    inv (release h s) \<and> distinct (remove1 h hs) \<and> set (remove1 h hs) = held (release h s)"
  using release_ends by (simp add: distinct_remove1 set_remove1_eq)

end


lemma lent_subset: "lent p \<subseteq> {h. \<exists>i < dp_max p. dp_connections p ! i = Some h}"
  by (auto simp: lent_def)

lemma release_slot:
  assumes inv: "db_pool_inv p" and "h \<in> lent p"
  shows "\<exists>i. i < dp_max p \<and> dp_connections p ! i = Some h \<and>
    db_release_connection (Some h) (Some p) = (DB_SUCCESS, Some (p\<lparr>dp_in_use := (dp_in_use p)[i := False]\<rparr>))"
proof -
  note len = pool_invD(1-3) [OF inv]
  obtain j where j: "j < dp_max p" "dp_connections p ! j = Some h" using assms(2) by (auto simp: lent_def)
  then have "Some h \<in> set (take (dp_max p) (dp_connections p))" using len by (auto simp: in_set_conv_nth intro!: exI [of _ j])
  then obtain i where i: "first_index (\<lambda>c. c = Some h) (take (dp_max p) (dp_connections p)) = Some i"
    using first_index_None [of "\<lambda>c. c = Some h"] by (metis option.exhaust)
  then have "i < dp_max p \<and> dp_connections p ! i = Some h" using first_index_Some [OF i] by auto
  with i show ?thesis by (intro exI [of _ i]) (simp add: db_release_connection_def)
qed

lemma release_inv:
  assumes inv: "db_pool_inv p" and "h \<in> lent p" and "db_release_connection (Some h) (Some p) = (e, Some p')"
  shows "e = DB_SUCCESS \<and> db_pool_inv p' \<and> dp_max p' = dp_max p \<and> lent p' = lent p - {h}"
proof -
  obtain i where i: "i < dp_max p" "dp_connections p ! i = Some h" and p': "e = DB_SUCCESS" "p' = p\<lparr>dp_in_use := (dp_in_use p)[i := False]\<rparr>"
    using release_slot [OF inv assms(2)] assms(3) by auto
  have il: "i < length (dp_in_use p)" using i pool_invD [OF inv] by auto
  have "db_pool_inv p'" using inv unfolding p' db_pool_inv_def by (simp add: nth_list_update [OF il])
  moreover have "lent p' = lent p - {h}"
  proof -
    have "lent p' = {x. \<exists>j < dp_max p. dp_connections p ! j = Some x \<and> j \<noteq> i \<and> dp_in_use p ! j}" by (auto simp: p' lent_def nth_list_update [OF il])
    also have "\<dots> = lent p - {h}" using i(2) pool_invD(6) [OF inv i(1) _ i(2)] by (force simp: lent_def)
    finally show ?thesis .
  qed
  ultimately show ?thesis by (simp add: p')
qed

definition lend_now :: "bool \<times> nat option \<Rightarrow> db_pool \<Rightarrow> nat option \<times> db_pool" where
  "lend_now e p = snd (db_get_woken (fst e) (snd e) p)"

definition give_back :: "nat \<Rightarrow> db_pool \<Rightarrow> db_pool" where
  "give_back h p = the (snd (db_release_connection (Some h) (Some p)))"

text \<open>SQLite returns a new handle, different from those that are open.\<close>

definition new_handle :: "nat option \<Rightarrow> db_pool \<Rightarrow> bool" where
  "new_handle opened p \<longleftrightarrow> (case opened of None \<Rightarrow> True | Some h \<Rightarrow> Some h \<notin> set (dp_connections p))"

lemma new_handleD: "new_handle opened p \<Longrightarrow> opened = Some h \<Longrightarrow> h \<notin> open_handles p"
  by (simp add: new_handle_def open_handles_def)

lemma woken_cases:
  assumes inv: "db_pool_inv p" and "new_handle opened p" and "db_get_woken t opened p = (e, r, p')"
  shows "db_pool_inv p' \<and> dp_max p' = dp_max p \<and>
    (case r of None \<Rightarrow> e \<noteq> DB_SUCCESS \<and> p' = p | Some h \<Rightarrow> e = DB_SUCCESS \<and> h \<notin> lent p \<and> lent p' = insert h (lent p))"
proof (cases "t \<or> find_idle p = None")
  case True
  with assms show ?thesis by (auto simp: db_get_woken_def split: if_split_asm)
next
  case False
  then obtain i where i: "find_idle p = Some i" by blast
  with False assms(3) have "take_slot opened p i = (e, r, p')" by (simp add: db_get_woken_def)
  with take_slot_inv [OF inv _ _ new_handleD [OF assms(2)] this] find_idle_Some [OF inv i] show ?thesis
    by (auto split: option.splits)
qed

lemma lend_now_cases:
  assumes "db_pool_inv p" and "new_handle (snd e) p" and "lend_now e p = (r, p')"
  shows "db_pool_inv p' \<and> (case r of None \<Rightarrow> p' = p | Some h \<Rightarrow> h \<notin> lent p \<and> lent p' = insert h (lent p))"
proof -
  obtain x where "db_get_woken (fst e) (snd e) p = (x, r, p')" using assms(3) by (metis lend_now_def prod.collapse)
  from woken_cases [OF assms(1,2) this] show ?thesis by (auto split: option.splits)
qed

interpretation db: lender lend_now give_back lent db_pool_inv "\<lambda>e. new_handle (snd e)"
proof
  fix s e h s' assume a: "db_pool_inv s" "new_handle (snd e) s" "lend_now e s = (Some h, s')"
  show "db_pool_inv s' \<and> h \<notin> lent s \<and> lent s' = insert h (lent s)" using lend_now_cases [OF a] by simp
next
  fix s e s' assume a: "db_pool_inv s" "new_handle (snd e) s" "lend_now e s = (None, s')"
  show "s' = s" using lend_now_cases [OF a] by simp
next
  fix s h assume a: "db_pool_inv s" "h \<in> lent s"
  then obtain e p' where "db_release_connection (Some h) (Some s) = (e, Some p')" using release_slot by blast
  then show "db_pool_inv (give_back h s) \<and> lent (give_back h s) = lent s - {h}"
    using release_inv [OF a] by (simp add: give_back_def)
qed

text \<open>The pool from which \<open>db_get_connection\<close> takes the connection: the one after the wait, when it has to wait.\<close>

definition seen_pool :: "bool \<times> db_pool \<Rightarrow> db_pool \<Rightarrow> db_pool" where
  "seen_pool wake p = (if find_idle p = None then snd wake else p)"

lemma get_connection_cases:
  assumes "db_pool_inv p" and "db_pool_inv (seen_pool wake p)" and "new_handle opened (seen_pool wake p)"
    and "db_get_connection opened wake (Some p) = (e, r, pool)"
  shows "\<exists>p'. pool = Some p' \<and> db_pool_inv p' \<and>
    (case r of None \<Rightarrow> e \<noteq> DB_SUCCESS \<and> p' = seen_pool wake p
     | Some h \<Rightarrow> e = DB_SUCCESS \<and> h \<in> lent p' \<and> lent p' - {h} = lent (seen_pool wake p))"
proof -
  define t where "t = (find_idle p = None \<and> fst wake)"
  have "db_get_connection opened wake (Some p) = (case db_get_woken t opened (seen_pool wake p) of (e, h, p') \<Rightarrow> (e, h, Some p'))"
    by (cases "find_idle p") (simp_all add: db_get_connection_def get_begin_eq [OF assms(1)] seen_pool_def t_def, simp add: db_get_woken_def)
  then obtain p' where w: "db_get_woken t opened (seen_pool wake p) = (e, r, p')" and p': "pool = Some p'"
    using assms(4) by (auto split: prod.splits)
  from woken_cases [OF assms(2,3) w] p' show ?thesis by (auto split: option.splits)
qed

section \<open>Sessions\<close>

text \<open>The threads of the server on one pool: a request that is served at once, one that goes on after its wait, and the release of a handle by
  its holder, in any order. The list has the handles that the threads hold.\<close>

inductive db_session :: "db_pool \<Rightarrow> nat list \<Rightarrow> bool" where
  start: "db_init_pool ok m None = (DB_SUCCESS, Some p) \<Longrightarrow> db_session p []"
| get: "db_session p hs \<Longrightarrow> new_handle opened p \<Longrightarrow> db_get_begin opened p = Some (e, r, p') \<Longrightarrow> db_session p' (case_option hs (\<lambda>h. h # hs) r)"
| woken: "db_session p hs \<Longrightarrow> new_handle opened p \<Longrightarrow> db_get_woken t opened p = (e, r, p') \<Longrightarrow> db_session p' (case_option hs (\<lambda>h. h # hs) r)"
| release: "db_session p hs \<Longrightarrow> h \<in> set hs \<Longrightarrow> db_release_connection (Some h) (Some p) = (e, Some p') \<Longrightarrow> db_session p' (remove1 h hs)"

lemma begin_is_woken: "db_pool_inv p \<Longrightarrow> db_get_begin opened p = Some x \<Longrightarrow> db_get_woken False opened p = x"
  by (auto simp: get_begin_eq db_get_woken_def)

lemma session_holders: "db_session p hs \<Longrightarrow> db_pool_inv p \<and> distinct hs \<and> set hs = lent p"
proof (induction rule: db_session.induct)
  case (start ok m p)
  then show ?case using db_init_pool_inv [of ok m p] by simp
next
  case (get p hs opened e r p')
  then show ?case using db.get_holders [of p "(False, opened)" hs r p'] by (simp add: lend_now_def begin_is_woken)
next
  case (woken p hs opened t e r p')
  then show ?case using db.get_holders [of p "(t, opened)" hs r p'] by (simp add: lend_now_def)
next
  case (release p hs h e p')
  then show ?case using db.release_holders [of p hs h] by (simp add: give_back_def)
qed

lemma card_lent:
  assumes "db_pool_inv p"
  shows "card (lent p) = card {i. i < dp_max p \<and> dp_in_use p ! i}"
proof -
  have "lent p = (\<lambda>i. the (dp_connections p ! i)) ` {i. i < dp_max p \<and> dp_in_use p ! i}"
    using pool_invD(4) [OF assms] by (force simp: lent_def image_iff)
  moreover have "inj_on (\<lambda>i. the (dp_connections p ! i)) {i. i < dp_max p \<and> dp_in_use p ! i}"
    using pool_invD(4,6) [OF assms] by (intro inj_onI) (metis (no_types, lifting) mem_Collect_eq option.collapse)
  ultimately show ?thesis by (simp add: card_image)
qed

lemma all_lent_iff:
  assumes "db_pool_inv p"
  shows "card (lent p) \<le> dp_max p" and "card (lent p) = dp_max p \<longleftrightarrow> find_idle p = None"
proof -
  let ?u = "{i. i < dp_max p \<and> dp_in_use p ! i}"
  have sub: "?u \<subseteq> {..<dp_max p}" and fin: "finite {..<dp_max p}" by auto
  show "card (lent p) \<le> dp_max p" unfolding card_lent [OF assms] using card_mono [OF fin sub] by simp
  have "card ?u = dp_max p \<longleftrightarrow> ?u = {..<dp_max p}" using card_subset_eq [OF fin sub] by (metis card_lessThan)
  then show "card (lent p) = dp_max p \<longleftrightarrow> find_idle p = None" unfolding card_lent [OF assms] find_idle_None [OF assms] by blast
qed

text \<open>(C34) Whatever the order of requests, wake-ups and releases: no handle is lent to two holders, at most \<open>max_connections\<close> (never more than
  ten) are lent, and a request waits exactly when all of them are.\<close>

theorem pool_lends_exclusively:
  assumes "db_session p hs"
  shows "distinct hs \<and> set hs = lent p \<and> length hs \<le> dp_max p \<and> dp_max p \<le> 10 \<and> (db_get_begin opened p = None \<longleftrightarrow> length hs = dp_max p)"
proof -
  have s: "db_pool_inv p" "distinct hs" "set hs = lent p" using session_holders [OF assms] by auto
  then have "length hs = card (lent p)" using distinct_card [of hs] by simp
  then show ?thesis using s all_lent_iff [OF s(1)] pool_invD(3) [OF s(1)] by (simp add: get_begin_eq DB_MAX_CONNECTIONS_def)
qed

theorem pool_lends_exclusively_witness:
  "\<exists>p. dp_max p = 1 \<and> lent p = {7} \<and> db_get_begin (Some 8) p = None"
proof -
  let ?empty = "\<lparr>dp_connections = replicate DB_MAX_CONNECTIONS None, dp_in_use = replicate DB_MAX_CONNECTIONS False, dp_active = 0, dp_max = 1\<rparr>"
  let ?p = "\<lparr>dp_connections = Some 7 # replicate 9 None, dp_in_use = True # replicate 9 False, dp_active = 1, dp_max = 1\<rparr>"
  have "db_session ?empty []" by (rule db_session.start [where ok = "(True, True)" and m = 1]) code_simp
  moreover have "db_get_begin (Some 7) ?empty = Some (DB_SUCCESS, Some 7, ?p)"
    by code_simp
  ultimately have s: "db_session ?p [7]" using db_session.get [of ?empty "[]" "Some 7" DB_SUCCESS "Some 7" ?p] by (simp add: new_handle_def)
  show ?thesis using pool_lends_exclusively [OF s, of "Some 8"] by (intro exI [of _ ?p]) simp
qed

text \<open>(C35) In every session the structure stays well formed: ten slots, at least one and at most ten in use by the pool, no slot that is in use without a
  connection, no connection in two slots or beyond \<open>max_connections\<close>, and \<open>active_count\<close> is the number of open connections.\<close>

theorem pool_well_formed:
  assumes "db_session p hs"
  shows "length (dp_connections p) = 10 \<and> length (dp_in_use p) = 10 \<and> 0 < dp_max p \<and> dp_max p \<le> 10 \<and>
    (\<forall>i < dp_max p. dp_in_use p ! i \<longrightarrow> dp_connections p ! i \<noteq> None) \<and> dp_active p = card (open_handles p) \<and> dp_active p \<le> dp_max p"
proof -
  have inv: "db_pool_inv p" using session_holders [OF assms] by blast
  let ?I = "{i. i < dp_max p \<and> dp_connections p ! i \<noteq> None}"
  have o: "open_handles p = (\<lambda>i. the (dp_connections p ! i)) ` ?I" using open_handles_nth [OF inv] by (force simp: image_iff)
  have j: "inj_on (\<lambda>i. the (dp_connections p ! i)) ?I"
    using pool_invD(6) [OF inv] by (intro inj_onI) (metis (mono_tags, lifting) mem_Collect_eq option.collapse)
  have "dp_active p = card {i. i < length (dp_connections p) \<and> dp_connections p ! i \<noteq> None}" using inv by (simp add: db_pool_inv_def length_filter_conv_card)
  also have "{i. i < length (dp_connections p) \<and> dp_connections p ! i \<noteq> None} = ?I"
    using pool_invD(1,3,5) [OF inv] by (auto intro: less_le_trans)
  finally have a: "dp_active p = card ?I" .
  then have "dp_active p = card (open_handles p)" unfolding o card_image [OF j] .
  moreover have "card ?I \<le> dp_max p" using card_mono [of "{..<dp_max p}" ?I] by auto
  ultimately show ?thesis using inv a by (simp add: db_pool_inv_def DB_MAX_CONNECTIONS_def)
qed

theorem pool_well_formed_witness: "\<exists>p. db_session p [] \<and> 0 < dp_max p \<and> dp_active p \<le> dp_max p"
proof -
  have "db_init_pool (True, True) 4 None = (DB_SUCCESS, Some (the (snd (db_init_pool (True, True) 4 None))))" by code_simp
  from db_session.start [OF this] show ?thesis using pool_well_formed by blast
qed

section \<open>Closing\<close>

lemma distinct_filter_nth:
  "(\<And>i j. i < length xs \<Longrightarrow> j < length xs \<Longrightarrow> xs ! i = xs ! j \<Longrightarrow> P (xs ! i) \<Longrightarrow> i = j) \<Longrightarrow> distinct (filter P xs)"
proof (induction xs)
  case (Cons x xs)
  have "distinct (filter P xs)"
    using Cons.prems [of "Suc _" "Suc _"] by (intro Cons.IH) simp
  moreover have "P x \<Longrightarrow> x \<notin> set xs" using Cons.prems [of 0 "Suc _"] by (auto simp: in_set_conv_nth)
  ultimately show ?case by auto
qed simp

lemma close_first_correct:
  "n \<le> length cs \<Longrightarrow> length us = length cs \<Longrightarrow> close_first n cs us = (closed, cs', us') \<Longrightarrow>
     map Some closed = filter (\<lambda>c. c \<noteq> None) (take n cs) \<and> cs' = replicate n None @ drop n cs \<and>
     length us' = length us \<and> (\<forall>i < n. us' ! i = (us ! i \<and> cs ! i = None))"
proof (induction n cs us arbitrary: closed cs' us' rule: close_first.induct)
  case (2 n c cs u us)
  obtain a b d where r: "close_first n cs us = (a, b, d)" by (metis prod_cases3)
  from 2 r show ?case by (auto simp: nth_Cons' less_Suc_eq_0_disj split: option.splits)
qed auto

text \<open>\<open>db_close_all_connections\<close> closes every open connection once, those that are lent included, and leaves a pool with none.\<close>

theorem close_all_closes_lent:
  assumes inv: "db_pool_inv p" and "db_close_all_connections (Some p) = (closed, Some p')"
  shows "distinct closed \<and> set closed = open_handles p \<and> lent p \<subseteq> set closed \<and> db_pool_inv p' \<and> lent p' = {} \<and> open_handles p' = {}"
proof -
  note len = pool_invD(1-3) [OF inv]
  obtain cs us where c: "close_first (dp_max p) (dp_connections p) (dp_in_use p) = (closed, cs, us)"
    and p': "p' = p\<lparr>dp_connections := cs, dp_in_use := us, dp_active := 0\<rparr>"
    using assms(2) by (auto simp: db_close_all_connections_def split: prod.splits)
  have f: "map Some closed = filter (\<lambda>c. c \<noteq> None) (take (dp_max p) (dp_connections p))" and lu: "length us = DB_MAX_CONNECTIONS"
    and u: "\<And>i. i < dp_max p \<Longrightarrow> \<not> us ! i" and cs: "cs = replicate (dp_max p) None @ drop (dp_max p) (dp_connections p)"
    using close_first_correct [OF _ _ c] pool_invD(4) [OF inv] len by auto
  have none: "drop (dp_max p) (dp_connections p) = replicate (DB_MAX_CONNECTIONS - dp_max p) None"
    using inv len by (intro nth_equalityI) (auto simp: db_pool_inv_def)
  with cs have cs': "cs = replicate DB_MAX_CONNECTIONS None" using len(3) by (simp flip: replicate_add)
  have "filter (\<lambda>c. c \<noteq> None) (dp_connections p) = map Some closed"
    unfolding f by (subst append_take_drop_id [of "dp_max p", symmetric], unfold filter_append none) simp
  then have "set (map Some closed) = {c \<in> set (dp_connections p). c \<noteq> None}" by (metis set_filter)
  then have set: "set closed = open_handles p" unfolding open_handles_def by auto
  have "distinct (filter (\<lambda>c. c \<noteq> None) (take (dp_max p) (dp_connections p)))" using pool_invD(6) [OF inv] by (intro distinct_filter_nth) auto
  then have "distinct closed" by (metis distinct_map f)
  moreover have "lent p \<subseteq> set closed" unfolding set using open_handles_nth [OF inv] by (auto simp: lent_def)
  moreover have "db_pool_inv p'" using inv lu u by (simp add: p' cs' db_pool_inv_def)
  moreover have "lent p' = {}" using u by (simp add: p' lent_def)
  moreover have "open_handles p' = {}" by (simp add: p' cs' open_handles_def)
  ultimately show ?thesis using set by blast
qed

text \<open>\<open>db_cleanup\<close>: the handles it closes; the pool is freed.\<close>

definition db_cleanup :: "db_pool option \<Rightarrow> nat list \<times> db_pool option" where
  "db_cleanup pool = (case pool of None \<Rightarrow> ([], None) | Some p \<Rightarrow> (fst (db_close_all_connections (Some p)), None))"

end
