(* ===== verification/Db_Query.thy ===== *)
theory Db_Query
  imports Db_Pool C_Lib "HOL-Library.Signed_Division"
begin

text \<open>
  Queries of \<open>server/src/database.c\<close>: \<open>db_execute\<close>, \<open>db_execute_params\<close>, the result sets they fill and \<open>db_free_result\<close>, the statistics and the
  error log. SQLite is not part of the sources. What it answers (whether a statement can be prepared, its columns and rows, the last code of
  \<open>sqlite3_step\<close>) is in the environment of a call, with the outcomes of the allocations and the clock; the state keeps the set of statements
  that are prepared and not yet finalized, because finalizing one twice is undefined. A call is one step: other threads that use the pool
  meanwhile appear in the \<open>wake\<close> argument of \<open>db_get_connection\<close>.
\<close>

section \<open>State\<close>

record db_stats =
  dt_total_queries :: int
  dt_failed_queries :: int
  dt_transaction_count :: int
  dt_rollback_count :: int
  dt_avg_query_time_ms :: int
  dt_max_query_time_ms :: int
  dt_active_connections :: int
  dt_cache_hit_rate :: int
  dt_disk_reads :: int
  dt_disk_writes :: int
  dt_page_cache_size :: int
  dt_page_cache_used :: int

record db_error_log =
  dl_sql :: string
  dl_error_code :: db_error
  dl_error_msg :: string
  dl_additional_info :: string
  dl_timestamp :: int

record 'd db_state =
  dd_pool :: "db_pool option"
  dd_stmts :: "nat set"
  dd_stats :: db_stats
  dd_log :: "db_error_log list"
  dd_log_index :: int
  dd_callback :: bool
  dd_calls :: "(string \<times> db_error \<times> int) list"
  dd_data :: 'd

definition DB_ERROR_LOG_SIZE :: nat where "DB_ERROR_LOG_SIZE = 1000"

text \<open>A pointer member of a result set: \<open>NULL\<close>, to memory that has been freed, to a block.\<close>

datatype 'a heap_ptr = Null | Freed | Block 'a

record db_result =
  dr_column_count :: nat
  dr_column_names :: "string list heap_ptr"
  dr_rows :: "string option list list heap_ptr"
  dr_row_count :: nat
  dr_stmt :: "nat option"
  dr_error_code :: db_error
  dr_error_msg :: string

definition zero_result :: db_result where
  "zero_result = \<lparr>dr_column_count = 0, dr_column_names = Null, dr_rows = Null, dr_row_count = 0, dr_stmt = None, dr_error_code = DB_SUCCESS, dr_error_msg = []\<rparr>"

text \<open>The \<open>db_result_t *\<close> of a call: \<open>NULL\<close>, a structure whose members have not been set, or one whose members have.\<close>

datatype result_arg = No_Result | Uninit | Result db_result

text \<open>\<open>qe_prepare\<close>: \<open>sqlite3_prepare_v2\<close> fails, or stores a statement (\<open>NULL\<close> for an empty text).\<close>

record query_env =
  qe_opened :: "nat option"
  qe_wake :: "bool \<times> db_pool"
  qe_prepare :: "nat option option"
  qe_columns :: nat
  qe_column_name :: "nat \<Rightarrow> string option"
  qe_rows :: "(nat \<Rightarrow> string option) list"
  qe_done :: bool
  qe_errmsg :: string
  qe_alloc_names :: bool
  qe_alloc_name :: "nat \<Rightarrow> bool"
  qe_alloc_rows :: bool
  qe_alloc_grow :: "nat \<Rightarrow> bool"
  qe_alloc_cells :: "nat \<Rightarrow> bool"
  qe_alloc_text :: "nat \<Rightarrow> nat \<Rightarrow> bool"
  qe_start :: "int \<times> int"
  qe_end :: "int \<times> int"
  qe_now :: int

section \<open>Statements and result sets\<close>

definition finalize :: "nat option \<Rightarrow> 'd db_state \<Rightarrow> 'd db_state outcome" where
  "finalize stmt s =
     (case stmt of None \<Rightarrow> Done s
      | Some i \<Rightarrow> if i \<in> dd_stmts s then Done (s\<lparr>dd_stmts := dd_stmts s - {i}\<rparr>) else Undefined_Behaviour)"

definition stmt_added :: "nat option \<Rightarrow> 'd db_state \<Rightarrow> 'd db_state" where
  "stmt_added stmt s = (case stmt of None \<Rightarrow> s | Some i \<Rightarrow> s\<lparr>dd_stmts := insert i (dd_stmts s)\<rparr>)"

definition db_free_result :: "result_arg \<Rightarrow> 'd db_state \<Rightarrow> (result_arg \<times> 'd db_state) outcome" where
  "db_free_result result s =
     (case result of
        No_Result \<Rightarrow> Done (No_Result, s)
      | Uninit \<Rightarrow> Undefined_Behaviour
      | Result r \<Rightarrow>
          if dr_column_names r = Freed then Undefined_Behaviour
          else if dr_rows r = Freed then Undefined_Behaviour
          else obind (finalize (dr_stmt r) s) (\<lambda>s1. Done (Result zero_result, s1)))"

text \<open>Copies of the column names: one that fails undoes the others.\<close>

fun copy_names :: "query_env \<Rightarrow> nat list \<Rightarrow> string list option" where
  "copy_names e [] = Some []"
| "copy_names e (i # is) =
     (if qe_alloc_name e i then map_option ((#) (case qe_column_name e i of Some n \<Rightarrow> n | None \<Rightarrow> [])) (copy_names e is) else None)"

text \<open>Copies of the cells of a row. A \<open>NULL\<close> cell becomes an empty text, or a null pointer when that cannot be allocated.\<close>

fun copy_cells :: "(nat \<Rightarrow> bool) \<Rightarrow> (nat \<Rightarrow> string option) \<Rightarrow> nat list \<Rightarrow> string option list option" where
  "copy_cells ok row [] = Some []"
| "copy_cells ok row (i # is) =
     (case row i of
        Some t \<Rightarrow> if ok i then map_option ((#) (Some t)) (copy_cells ok row is) else None
      | None \<Rightarrow> map_option ((#) (if ok i then Some [] else None)) (copy_cells ok row is))"

definition give_up :: "db_error \<Rightarrow> db_result \<Rightarrow> 'd db_state \<Rightarrow> (db_error \<times> result_arg \<times> 'd db_state) outcome" where
  "give_up err r s = obind (db_free_result (Result r) s) (\<lambda>(r', s'). Done (err, r', s'))"

definition row_list :: "db_result \<Rightarrow> string option list list" where
  "row_list r = (case dr_rows r of Block rs \<Rightarrow> rs | _ \<Rightarrow> [])"

text \<open>The loop over \<open>sqlite3_step\<close>, with the capacity of the row array.\<close>

fun fetch_rows :: "query_env \<Rightarrow> nat \<Rightarrow> (nat \<Rightarrow> string option) list \<Rightarrow> db_result \<Rightarrow> 'd db_state \<Rightarrow> (db_error \<times> result_arg \<times> 'd db_state) outcome" where
  "fetch_rows e cap [] r s =
     (if qe_done e then Done (DB_SUCCESS, Result r, s)
      else give_up DB_ERROR_EXECUTE (r\<lparr>dr_error_msg := take 511 (qe_errmsg e), dr_error_code := DB_ERROR_EXECUTE\<rparr>) s)"
| "fetch_rows e cap (row # rows) r s =
     (let n = dr_row_count r in
      if cap \<le> n \<and> \<not> qe_alloc_grow e n then give_up DB_ERROR_MEMORY r s
      else if \<not> qe_alloc_cells e n then give_up DB_ERROR_MEMORY r s
      else case copy_cells (qe_alloc_text e n) row [0..<dr_column_count r] of
        None \<Rightarrow> give_up DB_ERROR_MEMORY r s
      | Some cells \<Rightarrow>
          fetch_rows e (if cap \<le> n then 2 * cap else cap) rows
            (r\<lparr>dr_rows := Block (row_list r @ [cells]), dr_row_count := n + 1\<rparr>) s)"

definition db_execute_prepared_internal :: "query_env \<Rightarrow> nat option \<Rightarrow> nat option \<Rightarrow> result_arg \<Rightarrow> 'd db_state \<Rightarrow> (db_error \<times> result_arg \<times> 'd db_state) outcome" where
  "db_execute_prepared_internal e conn stmt result s =
     (if conn = None \<or> stmt = None then Done (DB_ERROR_CONNECTION, result, s)
      else if result = No_Result then
        (if qe_rows e = [] \<and> qe_done e then Done (DB_SUCCESS, No_Result, s) else Done (DB_ERROR_EXECUTE, No_Result, s))
      else
        let r = zero_result\<lparr>dr_stmt := stmt, dr_column_count := qe_columns e\<rparr> in
        if \<not> qe_alloc_names e then Done (DB_ERROR_MEMORY, Result r, s)
        else case copy_names e [0..<qe_columns e] of
          None \<Rightarrow> Done (DB_ERROR_MEMORY, Result r, s)
        | Some ns \<Rightarrow>
            if \<not> qe_alloc_rows e then Done (DB_ERROR_MEMORY, Result (r\<lparr>dr_column_names := Freed\<rparr>), s)
            else fetch_rows e 100 (qe_rows e) (r\<lparr>dr_column_names := Block ns, dr_rows := Block []\<rparr>) s)"

text \<open>The message and the code of a statement that cannot be prepared; the other members stay as they are.\<close>

definition prepare_failed :: "query_env \<Rightarrow> result_arg \<Rightarrow> result_arg" where
  "prepare_failed e result =
     (case result of Result r \<Rightarrow> Result (r\<lparr>dr_error_msg := take 511 (qe_errmsg e), dr_error_code := DB_ERROR_PREPARE\<rparr>) | _ \<Rightarrow> result)"

definition db_execute_internal :: "query_env \<Rightarrow> nat option \<Rightarrow> string option \<Rightarrow> result_arg \<Rightarrow> 'd db_state \<Rightarrow> (db_error \<times> result_arg \<times> 'd db_state) outcome" where
  "db_execute_internal e conn sql result s =
     (if conn = None \<or> sql = None then Done (DB_ERROR_CONNECTION, result, s)
      else case qe_prepare e of
        None \<Rightarrow> Done (DB_ERROR_PREPARE, prepare_failed e result, s)
      | Some stmt \<Rightarrow>
          obind (db_execute_prepared_internal e conn stmt result (stmt_added stmt s)) (\<lambda>(err, r, s1).
            obind (finalize stmt s1) (\<lambda>s2. Done (err, r, s2))))"

section \<open>Statistics, callback and error log\<close>

definition zero_db_stats :: db_stats where
  "zero_db_stats = \<lparr>dt_total_queries = 0, dt_failed_queries = 0, dt_transaction_count = 0, dt_rollback_count = 0, dt_avg_query_time_ms = 0,
     dt_max_query_time_ms = 0, dt_active_connections = 0, dt_cache_hit_rate = 0, dt_disk_reads = 0, dt_disk_writes = 0, dt_page_cache_size = 0,
     dt_page_cache_used = 0\<rparr>"

definition elapsed_ms :: "query_env \<Rightarrow> int" where
  "elapsed_ms e = (fst (qe_end e) - fst (qe_start e)) * 1000 + (snd (qe_end e) - snd (qe_start e)) sdiv 1000"

text \<open>The counters are \<open>int64_t\<close>; here they are integers, so that an overflow (after more than \<open>2^63\<close> milliseconds of queries) is not seen.\<close>

definition note_query :: "int \<Rightarrow> db_error \<Rightarrow> db_stats \<Rightarrow> db_stats" where
  "note_query ms err st =
     (let total = dt_total_queries st + 1 in
      st\<lparr>dt_total_queries := total,
         dt_failed_queries := (if err \<noteq> DB_SUCCESS then dt_failed_queries st + 1 else dt_failed_queries st),
         dt_avg_query_time_ms := (dt_avg_query_time_ms st * (total - 1) + ms) sdiv total,
         dt_max_query_time_ms := (if ms > dt_max_query_time_ms st then ms else dt_max_query_time_ms st)\<rparr>)"

fun db_error_message :: "db_error \<Rightarrow> string" where
  "db_error_message DB_SUCCESS = ''Success''"
| "db_error_message DB_ERROR_CONNECTION = ''Database connection error''"
| "db_error_message DB_ERROR_QUERY = ''Query error''"
| "db_error_message DB_ERROR_TRANSACTION = ''Transaction error''"
| "db_error_message DB_ERROR_PREPARE = ''Statement preparation error''"
| "db_error_message DB_ERROR_BIND = ''Parameter binding error''"
| "db_error_message DB_ERROR_EXECUTE = ''Query execution error''"
| "db_error_message DB_ERROR_NO_DATA = ''No data found''"
| "db_error_message DB_ERROR_CONSTRAINT = ''Constraint violation''"
| "db_error_message DB_ERROR_TIMEOUT = ''Operation timeout''"
| "db_error_message DB_ERROR_BUSY = ''Database busy''"
| "db_error_message DB_ERROR_LOCKED = ''Database locked''"
| "db_error_message DB_ERROR_SCHEMA = ''Schema error''"
| "db_error_message DB_ERROR_DISK_FULL = ''Disk full''"
| "db_error_message DB_ERROR_READONLY = ''Database read-only''"
| "db_error_message DB_ERROR_INTERRUPT = ''Operation interrupted''"
| "db_error_message DB_ERROR_CORRUPT = ''Database corrupted''"
| "db_error_message DB_ERROR_NOT_FOUND = ''Not found''"
| "db_error_message DB_ERROR_FULL = ''Database full''"
| "db_error_message DB_ERROR_CANTOPEN = ''Cannot open database''"
| "db_error_message DB_ERROR_PROTOCOL = ''Protocol error''"
| "db_error_message DB_ERROR_EMPTY = ''Empty result''"
| "db_error_message DB_ERROR_MISMATCH = ''Type mismatch''"
| "db_error_message DB_ERROR_RANGE = ''Parameter out of range''"
| "db_error_message DB_ERROR_NOTADB = ''Not a database file''"
| "db_error_message DB_ERROR_AUTH = ''Authorization denied''"
| "db_error_message DB_ERROR_FORMAT = ''Format error''"
| "db_error_message DB_ERROR_OVERFLOW = ''Overflow error''"
| "db_error_message DB_ERROR_INTERNAL = ''Internal error''"
| "db_error_message DB_ERROR_MEMORY = ''Memory allocation error''"

definition log_entry :: "int \<Rightarrow> string option \<Rightarrow> db_error \<Rightarrow> string option \<Rightarrow> db_error_log" where
  "log_entry now sql err info =
     \<lparr>dl_sql = take 1023 (case sql of Some q \<Rightarrow> q | None \<Rightarrow> []), dl_error_code = err, dl_error_msg = take 511 (db_error_message err),
      dl_additional_info = take 255 (case info of Some t \<Rightarrow> t | None \<Rightarrow> []), dl_timestamp = now\<rparr>"

text \<open>The index is an \<open>int\<close> that only grows; its increment past \<open>INT_MAX\<close> is undefined.\<close>

definition db_log_error :: "int \<Rightarrow> string option \<Rightarrow> db_error \<Rightarrow> string option \<Rightarrow> 'd db_state \<Rightarrow> 'd db_state outcome" where
  "db_log_error now sql err info s =
     (let i = nat (dd_log_index s mod int DB_ERROR_LOG_SIZE) in
      if dd_log_index s + 1 > 2147483647 then Undefined_Behaviour
      else Done (s\<lparr>dd_log := (dd_log s)[i := log_entry now sql err info], dd_log_index := dd_log_index s + 1\<rparr>))"

text \<open>What \<open>db_execute\<close> and \<open>db_execute_params\<close> do once the statement has run.\<close>

definition query_done :: "query_env \<Rightarrow> string \<Rightarrow> db_error \<Rightarrow> 'd db_state \<Rightarrow> 'd db_state outcome" where
  "query_done e sql err s =
     (let s1 = s\<lparr>dd_stats := note_query (elapsed_ms e) err (dd_stats s)\<rparr>;
          s2 = (if dd_callback s1 then s1\<lparr>dd_calls := dd_calls s1 @ [(sql, err, elapsed_ms e)]\<rparr> else s1)
      in if err \<noteq> DB_SUCCESS then db_log_error (qe_now e) (Some sql) err None s2 else Done s2)"

section \<open>Executing\<close>

definition release_conn :: "nat option \<Rightarrow> 'd db_state \<Rightarrow> 'd db_state" where
  "release_conn conn s = s\<lparr>dd_pool := snd (db_release_connection conn (dd_pool s))\<rparr>"

definition db_execute :: "query_env \<Rightarrow> string option \<Rightarrow> result_arg \<Rightarrow> 'd db_state \<Rightarrow> (db_error \<times> result_arg \<times> 'd db_state) outcome" where
  "db_execute e sql result s =
     (case sql of
        None \<Rightarrow> Done (DB_ERROR_QUERY, result, s)
      | Some q \<Rightarrow>
          case db_get_connection (qe_opened e) (qe_wake e) (dd_pool s) of (err, conn, pool) \<Rightarrow>
            let s1 = s\<lparr>dd_pool := pool\<rparr> in
            if err \<noteq> DB_SUCCESS then Done (err, result, s1)
            else
              obind (db_execute_internal e conn sql result s1) (\<lambda>(err2, r, s2).
                obind (query_done e q err2 s2) (\<lambda>s3. Done (err2, r, release_conn conn s3))))"

section \<open>Parameters\<close>

text \<open>A \<open>double\<close> is its 64 bits. \<open>Param_Other\<close> is a value of \<open>type\<close> outside the enumeration. The flag is \<open>copy_text\<close>.\<close>

datatype db_param = Param_Null | Param_Int int | Param_Int64 int | Param_Double "64 word" | Param_Text "string option" bool
  | Param_Blob "byte list option" int bool | Param_Bool bool | Param_Other

text \<open>What SQLite is given, with the function that is to free it.\<close>

datatype destructor = Static | By_sqlite3_free | By_free

datatype binding = Bind_Null | Bind_Int int | Bind_Int64 int | Bind_Double "64 word" | Bind_Text "string option" destructor | Bind_Blob "byte list" int destructor

text \<open>\<open>ok\<close>: the copy of the value can be allocated. \<open>sqlite3_bind_text\<close> of a null pointer, where \<open>strdup\<close> failed, binds \<open>NULL\<close>. The first
  \<open>blob_size\<close> bytes of a blob are read: undefined when it has fewer.\<close>

definition bind_value :: "bool \<Rightarrow> db_param \<Rightarrow> (db_error \<times> binding option) outcome" where
  "bind_value ok p =
     (case p of
        Param_Null \<Rightarrow> Done (DB_SUCCESS, Some Bind_Null)
      | Param_Int i \<Rightarrow> Done (DB_SUCCESS, Some (Bind_Int i))
      | Param_Int64 i \<Rightarrow> Done (DB_SUCCESS, Some (Bind_Int64 i))
      | Param_Double d \<Rightarrow> Done (DB_SUCCESS, Some (Bind_Double d))
      | Param_Text t copy \<Rightarrow>
          (case t of None \<Rightarrow> Done (DB_SUCCESS, Some Bind_Null)
           | Some x \<Rightarrow> Done (DB_SUCCESS, Some (if copy then Bind_Text (if ok then Some x else None) By_sqlite3_free else Bind_Text (Some x) Static)))
      | Param_Blob b n copy \<Rightarrow>
          (case b of None \<Rightarrow> Done (DB_SUCCESS, Some Bind_Null)
           | Some x \<Rightarrow>
               if n \<le> 0 then Done (DB_SUCCESS, Some Bind_Null)
               else if copy then
                 (if \<not> ok then Done (DB_ERROR_MEMORY, None)
                  else if length x < nat n then Undefined_Behaviour
                  else Done (DB_SUCCESS, Some (Bind_Blob (take (nat n) x) n By_free)))
               else Done (DB_SUCCESS, Some (Bind_Blob x n Static)))
      | Param_Bool b \<Rightarrow> Done (DB_SUCCESS, Some (Bind_Int (if b then 1 else 0)))
      | Param_Other \<Rightarrow> Done (DB_ERROR_BIND, None))"

fun bind_from :: "(nat \<Rightarrow> bool) \<Rightarrow> nat \<Rightarrow> db_param list \<Rightarrow> (db_error \<times> (nat \<times> binding) list) outcome" where
  "bind_from ok i [] = Done (DB_SUCCESS, [])"
| "bind_from ok i (p # ps) =
     obind (bind_value (ok i) p) (\<lambda>(err, b).
       case b of None \<Rightarrow> Done (err, [])
       | Some x \<Rightarrow> obind (bind_from ok (i + 1) ps) (\<lambda>(err2, bs). Done (err2, (i + 1, x) # bs)))"

text \<open>The calls of \<open>sqlite3_bind_*\<close>, by the index of the parameter. \<open>param_count\<close> beyond the array is undefined.\<close>

definition db_bind_parameters :: "(nat \<Rightarrow> bool) \<Rightarrow> nat option \<Rightarrow> db_param list option \<Rightarrow> int \<Rightarrow> (db_error \<times> (nat \<times> binding) list) outcome" where
  "db_bind_parameters ok stmt params param_count =
     (if stmt = None \<or> params = None \<or> param_count \<le> 0 then Done (DB_SUCCESS, [])
      else if length (the params) < nat param_count then Undefined_Behaviour
      else bind_from ok 0 (take (nat param_count) (the params)))"

definition db_execute_params :: "query_env \<Rightarrow> (nat \<Rightarrow> bool) \<Rightarrow> string option \<Rightarrow> db_param list option \<Rightarrow> int \<Rightarrow> result_arg \<Rightarrow> 'd db_state \<Rightarrow>
    (db_error \<times> result_arg \<times> 'd db_state) outcome" where
  "db_execute_params e ok sql params param_count result s =
     (case sql of
        None \<Rightarrow> Done (DB_ERROR_QUERY, result, s)
      | Some q \<Rightarrow>
          case db_get_connection (qe_opened e) (qe_wake e) (dd_pool s) of (err, conn, pool) \<Rightarrow>
            let s1 = s\<lparr>dd_pool := pool\<rparr> in
            if err \<noteq> DB_SUCCESS then Done (err, result, s1)
            else case qe_prepare e of
              None \<Rightarrow> Done (DB_ERROR_PREPARE, prepare_failed e result, release_conn conn s1)
            | Some stmt \<Rightarrow>
                let s2 = stmt_added stmt s1 in
                obind (db_bind_parameters ok stmt params param_count) (\<lambda>(err2, _).
                  if err2 \<noteq> DB_SUCCESS
                  then obind (finalize stmt s2) (\<lambda>s3. Done (err2, result, release_conn conn s3))
                  else
                    obind (db_execute_prepared_internal e conn stmt result s2) (\<lambda>(err3, r, s3).
                      obind (query_done e q err3 s3) (\<lambda>s4.
                        obind (finalize stmt s4) (\<lambda>s5. Done (err3, r, release_conn conn s5))))))"

text \<open>The connection goes back to the pool while the statement on it lives on.\<close>

definition db_prepare_statement :: "query_env \<Rightarrow> string option \<Rightarrow> bool \<Rightarrow> 'd db_state \<Rightarrow> db_error \<times> nat option \<times> 'd db_state" where
  "db_prepare_statement e sql out s =
     (if sql = None \<or> \<not> out then (DB_ERROR_QUERY, None, s)
      else case db_get_connection (qe_opened e) (qe_wake e) (dd_pool s) of (err, conn, pool) \<Rightarrow>
        let s1 = s\<lparr>dd_pool := pool\<rparr> in
        if err \<noteq> DB_SUCCESS then (err, None, s1)
        else case qe_prepare e of
          None \<Rightarrow> (DB_ERROR_PREPARE, None, release_conn conn s1)
        | Some stmt \<Rightarrow> (DB_SUCCESS, stmt, release_conn conn (stmt_added stmt s1)))"

section \<open>Reading a result set through its statement\<close>

datatype step_result = Step_Row | Step_Done | Step_Error

definition use_stmt :: "result_arg \<Rightarrow> 'd db_state \<Rightarrow> (nat option \<Rightarrow> 'a outcome) \<Rightarrow> 'a outcome" where
  "use_stmt result s f =
     (case result of
        No_Result \<Rightarrow> f None
      | Uninit \<Rightarrow> Undefined_Behaviour
      | Result r \<Rightarrow> (case dr_stmt r of None \<Rightarrow> f None | Some i \<Rightarrow> if i \<in> dd_stmts s then f (Some i) else Undefined_Behaviour))"

definition db_fetch_next :: "step_result \<Rightarrow> string \<Rightarrow> result_arg \<Rightarrow> 'd db_state \<Rightarrow> (db_error \<times> result_arg) outcome" where
  "db_fetch_next rc msg result s =
     use_stmt result s (\<lambda>stmt.
       if stmt = None then Done (DB_ERROR_NO_DATA, result)
       else case rc of
         Step_Row \<Rightarrow> Done (DB_SUCCESS, result)
       | Step_Done \<Rightarrow> Done (DB_ERROR_NO_DATA, result)
       | Step_Error \<Rightarrow>
           Done (DB_ERROR_EXECUTE, (case result of Result r \<Rightarrow> Result (r\<lparr>dr_error_msg := take 511 msg, dr_error_code := DB_ERROR_EXECUTE\<rparr>) | _ \<Rightarrow> result)))"

definition db_reset_result :: "result_arg \<Rightarrow> 'd db_state \<Rightarrow> db_error outcome" where
  "db_reset_result result s = use_stmt result s (\<lambda>stmt. Done (if stmt = None then DB_ERROR_NO_DATA else DB_SUCCESS))"

text \<open>The readers of a column: \<open>column\<close> gives what \<open>sqlite3_column_*\<close> returns, the default is for a missing statement and a column out of
  range. The statement is used only when the column is in range.\<close>

definition column_value :: "(int \<Rightarrow> 'a) \<Rightarrow> 'a \<Rightarrow> result_arg \<Rightarrow> int \<Rightarrow> 'd db_state \<Rightarrow> 'a outcome" where
  "column_value column dflt result c s =
     (case result of
        No_Result \<Rightarrow> Done dflt
      | Uninit \<Rightarrow> Undefined_Behaviour
      | Result r \<Rightarrow> if dr_stmt r = None \<or> c < 0 \<or> c \<ge> int (dr_column_count r) then Done dflt
                    else use_stmt result s (\<lambda>_. Done (column c)))"

definition db_get_string :: "(int \<Rightarrow> string option) \<Rightarrow> result_arg \<Rightarrow> int \<Rightarrow> 'd db_state \<Rightarrow> string option outcome" where
  "db_get_string text = column_value text None"

definition db_get_int :: "(int \<Rightarrow> int) \<Rightarrow> result_arg \<Rightarrow> int \<Rightarrow> 'd db_state \<Rightarrow> int outcome" where
  "db_get_int column = column_value column 0"

definition db_get_int64 :: "(int \<Rightarrow> int) \<Rightarrow> result_arg \<Rightarrow> int \<Rightarrow> 'd db_state \<Rightarrow> int outcome" where
  "db_get_int64 column = column_value column 0"

definition db_get_double :: "(int \<Rightarrow> 64 word) \<Rightarrow> result_arg \<Rightarrow> int \<Rightarrow> 'd db_state \<Rightarrow> 64 word outcome" where
  "db_get_double column = column_value column 0"

definition db_get_blob :: "(int \<Rightarrow> byte list option \<times> int) \<Rightarrow> result_arg \<Rightarrow> int \<Rightarrow> 'd db_state \<Rightarrow> (byte list option \<times> int) outcome" where
  "db_get_blob column = column_value column (None, 0)"

definition db_get_bool :: "(int \<Rightarrow> int) \<Rightarrow> result_arg \<Rightarrow> int \<Rightarrow> 'd db_state \<Rightarrow> bool outcome" where
  "db_get_bool column = column_value (\<lambda>c. column c \<noteq> 0) False"

definition db_get_timestamp :: "(int \<Rightarrow> int) \<Rightarrow> result_arg \<Rightarrow> int \<Rightarrow> 'd db_state \<Rightarrow> int outcome" where
  "db_get_timestamp column = column_value column 0"

section \<open>What a query does to its statement\<close>

lemma free_live: "dr_column_names r = Block ns \<Longrightarrow> dr_rows r = Block rs \<Longrightarrow> dr_stmt r = Some i \<Longrightarrow> i \<in> dd_stmts s \<Longrightarrow>
    give_up err r s = Done (err, Result zero_result, s\<lparr>dd_stmts := dd_stmts s - {i}\<rparr>)"
  by (simp add: give_up_def db_free_result_def finalize_def)

lemma fetch_rows_cases:
  assumes "dr_column_names r = Block ns" and "dr_rows r = Block rs" and "dr_stmt r = Some i" and "i \<in> dd_stmts s"
  shows "(\<exists>r'. fetch_rows e cap rows r s = Done (DB_SUCCESS, Result r', s) \<and> dr_stmt r' = Some i) \<or>
    (\<exists>err. err \<noteq> DB_SUCCESS \<and> fetch_rows e cap rows r s = Done (err, Result zero_result, s\<lparr>dd_stmts := dd_stmts s - {i}\<rparr>))"
  using assms
proof (induction rows arbitrary: cap r rs)
  case Nil
  then show ?case using free_live [of "r\<lparr>dr_error_msg := take 511 (qe_errmsg e), dr_error_code := DB_ERROR_EXECUTE\<rparr>" ns rs i s] by simp
next
  case (Cons row rows)
  have f: "give_up DB_ERROR_MEMORY r s = Done (DB_ERROR_MEMORY, Result zero_result, s\<lparr>dd_stmts := dd_stmts s - {i}\<rparr>)"
    using free_live [OF Cons.prems] .
  show ?case
  proof (cases "copy_cells (qe_alloc_text e (dr_row_count r)) row [0..<dr_column_count r]")
    case None
    then show ?thesis by (simp add: Let_def f)
  next
    case (Some cells)
    let ?r = "r\<lparr>dr_rows := Block (row_list r @ [cells]), dr_row_count := dr_row_count r + 1\<rparr>"
    show ?thesis using Cons.IH [of ?r "row_list r @ [cells]"] Cons.prems Some by (simp add: Let_def f)
  qed
qed

text \<open>The statement of a query is alive when its result set keeps it; otherwise it has been finalized with the result set.\<close>

lemma prepared_cases:
  assumes "i \<in> dd_stmts s" and "result \<noteq> No_Result"
  shows "(\<exists>err r. db_execute_prepared_internal e (Some c) (Some i) result s = Done (err, Result r, s) \<and> dr_stmt r = Some i) \<or>
    (\<exists>err. err \<noteq> DB_SUCCESS \<and> db_execute_prepared_internal e (Some c) (Some i) result s = Done (err, Result zero_result, s\<lparr>dd_stmts := dd_stmts s - {i}\<rparr>))"
proof (cases "qe_alloc_names e \<and> copy_names e [0..<qe_columns e] \<noteq> None \<and> qe_alloc_rows e")
  case True
  then obtain ns where ns: "copy_names e [0..<qe_columns e] = Some ns" by blast
  let ?r = "zero_result\<lparr>dr_stmt := Some i, dr_column_count := qe_columns e, dr_column_names := Block ns, dr_rows := Block []\<rparr>"
  have "db_execute_prepared_internal e (Some c) (Some i) result s = fetch_rows e 100 (qe_rows e) ?r s"
    using True assms(2) ns by (simp add: db_execute_prepared_internal_def Let_def)
  then show ?thesis using fetch_rows_cases [of ?r ns "[]" i s e 100 "qe_rows e"] assms(1) by auto
next
  case False
  then show ?thesis using assms(2) by (auto simp: db_execute_prepared_internal_def Let_def split: option.splits)
qed

text \<open>Finalizing the statement after the query: undefined when the query failed while it was reading rows, and otherwise the result set keeps a
  statement that no longer exists.\<close>

lemma internal_cases:
  assumes "result \<noteq> No_Result" and "db_execute_internal e (Some c) (Some q) result s = Done (err, r, s')" and "qe_prepare e = Some (Some i)"
  shows "\<exists>r'. r = Result r' \<and> dr_stmt r' = Some i \<and> i \<notin> dd_stmts s'"
  using prepared_cases [of i "stmt_added (Some i) s" result e c] assms
  by (auto simp: db_execute_internal_def stmt_added_def finalize_def)

lemma query_done_stmts: "query_done e q err s = Done s' \<Longrightarrow> dd_stmts s' = dd_stmts s \<and> dd_pool s' = dd_pool s \<and> dd_data s' = dd_data s"
  by (auto simp: query_done_def db_log_error_def Let_def split: if_split_asm)

lemma query_done_cases: "query_done e q err s = Undefined_Behaviour \<or> (\<exists>s'. query_done e q err s = Done s')"
  by (auto simp: query_done_def db_log_error_def Let_def)

lemma internal_outcome:
  assumes "result \<noteq> No_Result"
  shows "db_execute_internal e (Some c) (Some q) result s = Undefined_Behaviour \<or> (\<exists>err r s'. db_execute_internal e (Some c) (Some q) result s = Done (err, r, s'))"
proof (cases "qe_prepare e")
  case None
  then show ?thesis by (simp add: db_execute_internal_def)
next
  case (Some stmt)
  show ?thesis
  proof (cases stmt)
    case None
    with Some show ?thesis by (simp add: db_execute_internal_def db_execute_prepared_internal_def finalize_def)
  next
    case (Some i)
    with \<open>qe_prepare e = Some stmt\<close> show ?thesis
      using prepared_cases [of i "stmt_added (Some i) s" result e c] assms by (auto simp: db_execute_internal_def stmt_added_def finalize_def)
  qed
qed

text \<open>The members of the result set that \<open>db_free_result\<close> reads are not set, or name a statement that is gone.\<close>

lemma internal_result:
  assumes "db_execute_internal e (Some c) (Some q) Uninit s = Done (err, r, s')"
  shows "r = Uninit \<or> (\<exists>r' i. r = Result r' \<and> dr_stmt r' = Some i \<and> i \<notin> dd_stmts s')"
proof (cases "\<exists>i. qe_prepare e = Some (Some i)")
  case True
  then show ?thesis using internal_cases [OF _ assms] by blast
next
  case False
  then have "qe_prepare e = None \<or> qe_prepare e = Some None" by (metis option.exhaust)
  then show ?thesis using assms
    by (auto simp: db_execute_internal_def db_execute_prepared_internal_def prepare_failed_def finalize_def stmt_added_def)
qed

lemma release_conn_stmts [simp]: "dd_stmts (release_conn conn s) = dd_stmts s" "dd_data (release_conn conn s) = dd_data s"
  by (simp_all add: release_conn_def)

text \<open>A caller that passes a result set and frees it afterwards, as every caller in the file does with a structure on its stack, has no
  defined behaviour, whatever SQLite and the allocator answer.\<close>

lemma query_with_result_undefined:
  "obind (db_execute e (Some q) Uninit s) (\<lambda>(err, r, s'). db_free_result r s') = Undefined_Behaviour"
proof -
  obtain err conn pool where g: "db_get_connection (qe_opened e) (qe_wake e) (dd_pool s) = (err, conn, pool)" by (metis prod_cases3)
  let ?s = "s\<lparr>dd_pool := pool\<rparr>"
  consider "err \<noteq> DB_SUCCESS" | "err = DB_SUCCESS" "conn = None" | c where "err = DB_SUCCESS" "conn = Some c" by blast
  then show ?thesis
  proof cases
    case 1
    then show ?thesis by (simp add: db_execute_def g db_free_result_def)
  next
    case 2
    then show ?thesis using query_done_cases [of e q DB_ERROR_CONNECTION ?s]
      by (auto simp: db_execute_def g db_execute_internal_def db_free_result_def)
  next
    case 3
    consider "db_execute_internal e (Some c) (Some q) Uninit ?s = Undefined_Behaviour"
      | err2 r s2 where "db_execute_internal e (Some c) (Some q) Uninit ?s = Done (err2, r, s2)" using internal_outcome by blast
    then show ?thesis
    proof cases
      case 1
      with 3 show ?thesis by (simp add: db_execute_def g)
    next
      case 2
      show ?thesis
      proof (cases "query_done e q err2 s2 = Undefined_Behaviour")
        case False
        then obtain s3 where q: "query_done e q err2 s2 = Done s3" using query_done_cases by blast
        with 2 3 have "db_execute e (Some q) Uninit s = Done (err2, r, release_conn (Some c) s3)" by (simp add: db_execute_def g)
        then show ?thesis using internal_result [OF 2] query_done_stmts [OF q] by (auto simp: db_free_result_def finalize_def)
      qed (use 2 3 in \<open>simp add: db_execute_def g\<close>)
    qed
  qed
qed

section \<open>Queries without a result set\<close>

lemma released:
  assumes "db_pool_inv p" and "h \<in> lent p"
  shows "\<exists>p'. snd (db_release_connection (Some h) (Some p)) = Some p' \<and> db_pool_inv p' \<and> lent p' = lent p - {h}"
  using release_slot [OF assms] release_inv [OF assms] by fastforce

lemma query_done_total: "dd_log_index s < 2147483647 \<Longrightarrow> \<exists>s'. query_done e q err s = Done s'"
  by (auto simp: query_done_def db_log_error_def Let_def)

text \<open>The pool and the environment of a call.\<close>

definition pool_ready :: "query_env \<Rightarrow> 'd db_state \<Rightarrow> db_pool \<Rightarrow> bool" where
  "pool_ready e s p \<longleftrightarrow> dd_pool s = Some p \<and> db_pool_inv p \<and> db_pool_inv (seen_pool (qe_wake e) p) \<and> new_handle (qe_opened e) (seen_pool (qe_wake e) p)"

lemma ready_get:
  assumes "pool_ready e s p"
  shows "\<exists>err conn p1. db_get_connection (qe_opened e) (qe_wake e) (dd_pool s) = (err, conn, Some p1) \<and> db_pool_inv p1 \<and>
    (case conn of None \<Rightarrow> err \<noteq> DB_SUCCESS \<and> p1 = seen_pool (qe_wake e) p
     | Some h \<Rightarrow> err = DB_SUCCESS \<and> h \<in> lent p1 \<and> lent p1 - {h} = lent (seen_pool (qe_wake e) p))"
proof -
  obtain err conn pool where g: "db_get_connection (qe_opened e) (qe_wake e) (Some p) = (err, conn, pool)" by (metis prod_cases3)
  then show ?thesis using get_connection_cases [OF _ _ _ g] assms by (auto simp: pool_ready_def)
qed

lemma internal_no_result:
  assumes "\<And>i. qe_prepare e = Some (Some i) \<Longrightarrow> i \<notin> dd_stmts s"
  shows "\<exists>err. db_execute_internal e (Some c) (Some q) No_Result s = Done (err, No_Result, s)"
  using assms
  by (cases "qe_prepare e"; cases "the (qe_prepare e)")
    (auto simp: db_execute_internal_def db_execute_prepared_internal_def prepare_failed_def finalize_def stmt_added_def)

text \<open>\<open>db_execute\<close> without a result set always returns, and leaves neither a statement nor a loan behind: every path that got a connection
  has finalized its statement and given the connection back.\<close>

theorem query_without_result_balanced:
  assumes "pool_ready e s p" and "\<And>i. qe_prepare e = Some (Some i) \<Longrightarrow> i \<notin> dd_stmts s" and "dd_log_index s < 2147483647"
  shows "\<exists>err s' p'. db_execute e (Some q) No_Result s = Done (err, No_Result, s') \<and> dd_stmts s' = dd_stmts s \<and> dd_pool s' = Some p' \<and>
    db_pool_inv p' \<and> lent p' = lent (seen_pool (qe_wake e) p)"
proof -
  obtain err conn p1 where g: "db_get_connection (qe_opened e) (qe_wake e) (dd_pool s) = (err, conn, Some p1)" and p1: "db_pool_inv p1" and
    r: "case conn of None \<Rightarrow> err \<noteq> DB_SUCCESS \<and> p1 = seen_pool (qe_wake e) p
        | Some h \<Rightarrow> err = DB_SUCCESS \<and> h \<in> lent p1 \<and> lent p1 - {h} = lent (seen_pool (qe_wake e) p)"
    using ready_get [OF assms(1)] by blast
  show ?thesis
  proof (cases conn)
    case None
    with g r p1 show ?thesis by (simp add: db_execute_def)
  next
    case (Some h)
    let ?s = "s\<lparr>dd_pool := Some p1\<rparr>"
    obtain err2 where i: "db_execute_internal e (Some h) (Some q) No_Result ?s = Done (err2, No_Result, ?s)"
      using internal_no_result [of e ?s h q] assms(2) by auto
    obtain s3 where q: "query_done e q err2 ?s = Done s3" using query_done_total [of ?s e q err2] assms(3) by auto
    obtain p2 where "snd (db_release_connection (Some h) (Some p1)) = Some p2" "db_pool_inv p2" "lent p2 = lent p1 - {h}"
      using released [of p1 h] p1 r Some by auto
    then show ?thesis using g r p1 Some i q query_done_stmts [OF q] by (simp add: db_execute_def release_conn_def)
  qed
qed

text \<open>A pool of one connection, and a query on it whose statement is number 3 and returns the row \<open>(a, NULL)\<close>.\<close>

definition one_pool :: db_pool where
  "one_pool = \<lparr>dp_connections = replicate DB_MAX_CONNECTIONS None, dp_in_use = replicate DB_MAX_CONNECTIONS False, dp_active = 0, dp_max = 1\<rparr>"

definition one_row_env :: query_env where
  "one_row_env = \<lparr>qe_opened = Some 7, qe_wake = (True, one_pool), qe_prepare = Some (Some 3), qe_columns = 2, qe_column_name = (\<lambda>i. None),
     qe_rows = [(\<lambda>i. if i = 0 then Some ''a'' else None)], qe_done = True, qe_errmsg = [], qe_alloc_names = True, qe_alloc_name = (\<lambda>i. True),
     qe_alloc_rows = True, qe_alloc_grow = (\<lambda>n. True), qe_alloc_cells = (\<lambda>n. True), qe_alloc_text = (\<lambda>n i. True), qe_start = (0, 0),
     qe_end = (0, 2500), qe_now = 0\<rparr>"

definition fresh_db :: "'d \<Rightarrow> 'd db_state" where
  "fresh_db d = \<lparr>dd_pool = Some one_pool, dd_stmts = {}, dd_stats = zero_db_stats, dd_log = [], dd_log_index = 0, dd_callback = False, dd_calls = [],
     dd_data = d\<rparr>"

lemma one_pool_inv: "db_pool_inv one_pool \<and> lent one_pool = {} \<and> new_handle h one_pool \<and> seen_pool w one_pool = one_pool"
proof -
  have "db_init_pool (True, True) 1 None = (DB_SUCCESS, Some one_pool)" unfolding one_pool_def by code_simp
  moreover have "find_idle one_pool = Some 0" unfolding one_pool_def by code_simp
  ultimately show ?thesis using db_init_pool_inv by (simp add: new_handle_def one_pool_def seen_pool_def split: option.split)
qed

theorem query_without_result_balanced_witness:
  "\<exists>err s' p'. db_execute one_row_env (Some ''X'') No_Result (fresh_db ()) = Done (err, No_Result, s') \<and> dd_stmts s' = {} \<and> dd_pool s' = Some p' \<and> lent p' = {}"
  using query_without_result_balanced [of one_row_env "fresh_db ()" one_pool "''X''"] one_pool_inv
  by (auto simp: pool_ready_def one_row_env_def fresh_db_def)

section \<open>The rows of a result set\<close>

definition text_of :: "(nat \<Rightarrow> string option) \<Rightarrow> nat \<Rightarrow> string" where
  "text_of row i = (case row i of Some t \<Rightarrow> t | None \<Rightarrow> [])"

lemma copy_cells_all: "(\<And>i. ok i) \<Longrightarrow> copy_cells ok row is = Some (map (\<lambda>i. Some (text_of row i)) is)"
  by (induction "is") (simp_all add: text_of_def split: option.split)

lemma copy_names_all: "(\<And>i. qe_alloc_name e i) \<Longrightarrow> copy_names e is = Some (map (text_of (qe_column_name e)) is)"
  by (induction "is") (simp_all add: text_of_def)

definition allocations_succeed :: "query_env \<Rightarrow> bool" where
  "allocations_succeed e \<longleftrightarrow> qe_alloc_names e \<and> qe_alloc_rows e \<and> (\<forall>i. qe_alloc_name e i) \<and> (\<forall>n. qe_alloc_grow e n) \<and>
     (\<forall>n. qe_alloc_cells e n) \<and> (\<forall>n i. qe_alloc_text e n i)"

lemma fetch_rows_all:
  assumes "allocations_succeed e" and "qe_done e" and "dr_rows r = Block rs"
  shows "fetch_rows e cap rows r s =
    Done (DB_SUCCESS, Result (r\<lparr>dr_rows := Block (rs @ map (\<lambda>row. map (\<lambda>i. Some (text_of row i)) [0..<dr_column_count r]) rows),
      dr_row_count := dr_row_count r + length rows\<rparr>), s)"
  using assms(3)
proof (induction rows arbitrary: cap r rs)
  case Nil
  then show ?case using assms(2) by simp
next
  case (Cons row rows)
  have "copy_cells (qe_alloc_text e n) row is = Some (map (\<lambda>i. Some (text_of row i)) is)" for n "is"
    using assms(1) by (intro copy_cells_all) (simp add: allocations_succeed_def)
  then show ?case using assms(1) Cons by (simp add: Let_def row_list_def allocations_succeed_def)
qed

text \<open>When nothing fails, the result set has one row for each row that SQLite delivers, in order, with one text for each column (empty for
  \<open>NULL\<close>), however often the row array had to grow; and its \<open>stmt\<close> names a statement that no longer exists.\<close>

theorem result_rows_complete:
  assumes "allocations_succeed e" and "qe_done e" and "qe_prepare e = Some (Some i)"
  shows "\<exists>r s'. db_execute_internal e (Some c) (Some q) Uninit s = Done (DB_SUCCESS, Result r, s') \<and>
    dr_rows r = Block (map (\<lambda>row. map (\<lambda>j. Some (text_of row j)) [0..<qe_columns e]) (qe_rows e)) \<and>
    dr_row_count r = length (qe_rows e) \<and> dr_column_names r = Block (map (text_of (qe_column_name e)) [0..<qe_columns e]) \<and>
    dr_stmt r = Some i \<and> i \<notin> dd_stmts s'"
proof -
  have n: "copy_names e is = Some (map (text_of (qe_column_name e)) is)" for "is"
    using assms(1) by (intro copy_names_all) (simp add: allocations_succeed_def)
  show ?thesis using assms
    by (simp add: db_execute_internal_def db_execute_prepared_internal_def Let_def n allocations_succeed_def fetch_rows_all [OF assms(1,2)]
        zero_result_def stmt_added_def finalize_def)
qed

theorem result_rows_complete_witness:
  "\<exists>r s'. db_execute_internal one_row_env (Some 7) (Some ''X'') Uninit (fresh_db ()) = Done (DB_SUCCESS, Result r, s') \<and>
     dr_rows r = Block [[Some ''a'', Some []]] \<and> dr_row_count r = 1"
  using result_rows_complete [of one_row_env 3 7 "''X''" "fresh_db ()"]
  by (auto simp: one_row_env_def allocations_succeed_def text_of_def numeral_2_eq_2)

section \<open>Statistics\<close>

definition stats_inv :: "int \<Rightarrow> db_stats \<Rightarrow> bool" where
  "stats_inv M st \<longleftrightarrow> 0 \<le> dt_failed_queries st \<and> dt_failed_queries st \<le> dt_total_queries st \<and> 0 \<le> dt_avg_query_time_ms st \<and>
     dt_avg_query_time_ms st \<le> dt_max_query_time_ms st \<and> dt_max_query_time_ms st \<le> M"

lemma sdiv_pos: "0 \<le> a \<Longrightarrow> 0 < b \<Longrightarrow> a sdiv b = (a div b :: int)"
  by (cases "a = 0") (simp_all add: signed_divide_int_def)

lemma div_le_of_le: "0 < b \<Longrightarrow> a \<le> b * c \<Longrightarrow> a div b \<le> (c :: int)"
  by (metis nonzero_mult_div_cancel_left order_less_irrefl zdiv_mono1)

text \<open>The product in the new average stays below the number of queries times the longest time.\<close>

lemma avg_product:
  assumes "stats_inv M st" and "0 \<le> ms"
  shows "0 \<le> dt_avg_query_time_ms st * dt_total_queries st + ms"
    and "dt_avg_query_time_ms st * dt_total_queries st + ms \<le> (dt_total_queries st + 1) * max ms (dt_max_query_time_ms st)"
proof -
  let ?m = "max ms (dt_max_query_time_ms st)"
  have t: "0 \<le> dt_total_queries st" and a: "0 \<le> dt_avg_query_time_ms st" "dt_avg_query_time_ms st \<le> ?m"
    using assms(1) by (auto simp: stats_inv_def)
  show "0 \<le> dt_avg_query_time_ms st * dt_total_queries st + ms" using t a assms(2) by simp
  have "dt_avg_query_time_ms st * dt_total_queries st \<le> ?m * dt_total_queries st" using t a by (intro mult_right_mono) auto
  then show "dt_avg_query_time_ms st * dt_total_queries st + ms \<le> (dt_total_queries st + 1) * ?m"
    by (simp add: algebra_simps)
qed

lemma note_query_inv:
  assumes "stats_inv M st" and "0 \<le> ms" and "ms \<le> M"
  shows "stats_inv M (note_query ms err st)"
proof -
  let ?a = "dt_avg_query_time_ms st * dt_total_queries st + ms" and ?t = "dt_total_queries st + 1" and ?m = "max ms (dt_max_query_time_ms st)"
  have t: "0 < ?t" using assms(1) by (auto simp: stats_inv_def)
  note p = avg_product [OF assms(1,2)]
  have "0 \<le> ?a div ?t" "?a div ?t \<le> ?m" using p t div_le_of_le [OF t p(2)] by (simp_all add: pos_imp_zdiv_nonneg_iff)
  then show ?thesis using assms p(1) t by (auto simp: stats_inv_def note_query_def Let_def sdiv_pos)
qed

fun note_queries :: "(int \<times> db_error) list \<Rightarrow> db_stats \<Rightarrow> db_stats" where
  "note_queries [] st = st"
| "note_queries ((ms, err) # qs) st = note_queries qs (note_query ms err st)"

lemma note_queries_inv:
  assumes "stats_inv M st" and "\<forall>(ms, err) \<in> set qs. 0 \<le> ms \<and> ms \<le> M"
  shows "stats_inv M (note_queries qs st) \<and> dt_total_queries (note_queries qs st) = dt_total_queries st + int (length qs) \<and>
    dt_failed_queries (note_queries qs st) = dt_failed_queries st + int (length (filter (\<lambda>(ms, err). err \<noteq> DB_SUCCESS) qs))"
  using assms
proof (induction qs st rule: note_queries.induct)
  case (2 ms err qs st)
  then show ?case using note_query_inv [of M st ms err] by (auto simp: note_query_def Let_def)
qed simp

text \<open>The statistics of any sequence of queries whose times are between 0 and \<open>M\<close>: they count the queries and the failures, the average
  is between 0 and the maximum, and the next update stays within 64 bits as long as the number of queries times \<open>M\<close> does.\<close>

theorem query_statistics_bounded:
  assumes "\<forall>(ms, err) \<in> set qs. 0 \<le> ms \<and> ms \<le> M" and "0 \<le> M" and "(int (length qs) + 1) * M < 2 ^ 63" and "0 \<le> ms" and "ms \<le> M"
  defines "st \<equiv> note_queries qs zero_db_stats"
  shows "dt_total_queries st = int (length qs) \<and> dt_failed_queries st = int (length (filter (\<lambda>(ms, err). err \<noteq> DB_SUCCESS) qs)) \<and>
    0 \<le> dt_avg_query_time_ms st \<and> dt_avg_query_time_ms st \<le> dt_max_query_time_ms st \<and> dt_max_query_time_ms st \<le> M \<and>
    0 \<le> dt_avg_query_time_ms st * dt_total_queries st + ms \<and> dt_avg_query_time_ms st * dt_total_queries st + ms < 2 ^ 63"
proof -
  have "stats_inv M zero_db_stats" using assms(2) by (simp add: stats_inv_def zero_db_stats_def)
  from note_queries_inv [OF this assms(1)] have i: "stats_inv M st" and n: "dt_total_queries st = int (length qs)"
    "dt_failed_queries st = int (length (filter (\<lambda>(ms, err). err \<noteq> DB_SUCCESS) qs))" by (auto simp: st_def zero_db_stats_def)
  note p = avg_product [OF i assms(4)]
  have "max ms (dt_max_query_time_ms st) \<le> M" using i assms(5) by (simp add: stats_inv_def)
  then have "(int (length qs) + 1) * max ms (dt_max_query_time_ms st) \<le> (int (length qs) + 1) * M" by (intro mult_left_mono) auto
  with p(2) assms(3) n(1) have "dt_avg_query_time_ms st * dt_total_queries st + ms < 2 ^ 63" by (metis le_less_trans)
  then show ?thesis using p(1) i n by (auto simp: stats_inv_def)
qed

theorem query_statistics_bounded_witness:
  "dt_avg_query_time_ms (note_queries [(4, DB_SUCCESS), (9, DB_ERROR_EXECUTE)] zero_db_stats) \<le> 9"
  using query_statistics_bounded [of "[(4, DB_SUCCESS), (9, DB_ERROR_EXECUTE)]" 9 0] by simp

section \<open>The error log\<close>

fun log_all :: "(int \<times> string option \<times> db_error \<times> string option) list \<Rightarrow> 'd db_state \<Rightarrow> 'd db_state outcome" where
  "log_all [] s = Done s"
| "log_all ((now, sql, err, info) # es) s = obind (db_log_error now sql err info s) (log_all es)"

lemma log_all_append: "log_all (xs @ ys) s = obind (log_all xs s) (log_all ys)"
  by (induction xs s rule: log_all.induct) (auto simp: db_log_error_def Let_def)

definition log_item :: "int \<times> string option \<times> db_error \<times> string option \<Rightarrow> db_error_log" where
  "log_item x = (case x of (now, sql, err, info) \<Rightarrow> log_entry now sql err info)"

text \<open>The log keeps the last thousand errors: the error number \<open>j\<close> is in slot \<open>j mod 1000\<close> until the error \<open>j + 1000\<close> comes. This goes on until the
  index has reached \<open>INT_MAX\<close>.\<close>

theorem error_log_keeps_last:
  assumes "length (dd_log s) = DB_ERROR_LOG_SIZE" and "dd_log_index s = 0" and "length es \<le> 2147483647"
  shows "\<exists>s'. log_all es s = Done s' \<and> dd_log_index s' = int (length es) \<and> length (dd_log s') = DB_ERROR_LOG_SIZE \<and>
    (\<forall>j < length es. length es \<le> j + DB_ERROR_LOG_SIZE \<longrightarrow> dd_log s' ! (j mod DB_ERROR_LOG_SIZE) = log_item (es ! j))"
  using assms(3)
proof (induction es rule: rev_induct)
  case Nil
  then show ?case using assms by simp
next
  case (snoc x xs)
  let ?n = "length xs"
  obtain s' where s': "log_all xs s = Done s'" "dd_log_index s' = int ?n" "length (dd_log s') = DB_ERROR_LOG_SIZE"
    and old: "\<And>j. j < ?n \<Longrightarrow> ?n \<le> j + DB_ERROR_LOG_SIZE \<Longrightarrow> dd_log s' ! (j mod DB_ERROR_LOG_SIZE) = log_item (xs ! j)"
    using snoc by auto
  let ?t = "s'\<lparr>dd_log := (dd_log s')[?n mod DB_ERROR_LOG_SIZE := log_item x], dd_log_index := int ?n + 1\<rparr>"
  have "nat (int ?n mod int DB_ERROR_LOG_SIZE) = ?n mod DB_ERROR_LOG_SIZE" by (simp flip: zmod_int)
  then have run: "log_all (xs @ [x]) s = Done ?t" using snoc.prems s'
    by (cases x) (simp add: log_all_append db_log_error_def Let_def log_item_def)
  have slot: "?n mod DB_ERROR_LOG_SIZE < DB_ERROR_LOG_SIZE" by (simp add: DB_ERROR_LOG_SIZE_def)
  have "dd_log ?t ! (j mod DB_ERROR_LOG_SIZE) = log_item ((xs @ [x]) ! j)" if j: "j < Suc ?n" "Suc ?n \<le> j + DB_ERROR_LOG_SIZE" for j
  proof (cases "j = ?n")
    case True
    then show ?thesis using slot s'(3) by simp
  next
    case False
    with j have "j mod DB_ERROR_LOG_SIZE \<noteq> ?n mod DB_ERROR_LOG_SIZE" by (intro mod_window) auto
    with False j show ?thesis using old [of j] by (simp add: nth_append)
  qed
  then show ?case using run s'(3) by (intro exI [of _ ?t]) simp
qed

end
