(* ===== verification/Db_Batch.thy ===== *)
theory Db_Batch
  imports Db_Query
begin

text \<open>
  Transactions, savepoints and batches of \<open>server/src/database.c\<close>. The statements that SQLite runs are the members of an \<open>engine\<close>, a parameter
  of the operations: \<open>en_exec\<close> is \<open>sqlite3_exec\<close> on a connection, \<open>en_step\<close> binds values to a prepared statement and runs it once; both
  report success and change the data of the database. \<open>transactional\<close> states the documented behaviour of \<open>BEGIN\<close>, \<open>COMMIT\<close> and \<open>ROLLBACK\<close> that
  the batches rely on.
\<close>

record 'd engine =
  en_exec :: "nat \<Rightarrow> string \<Rightarrow> 'd \<Rightarrow> bool \<times> 'd"
  en_step :: "nat \<Rightarrow> string \<Rightarrow> (nat \<times> binding) list \<Rightarrow> 'd \<Rightarrow> bool \<times> 'd"

section \<open>Transactions and savepoints\<close>

definition begin_sql :: string where "begin_sql = ''BEGIN TRANSACTION;''"
definition commit_sql :: string where "commit_sql = ''COMMIT TRANSACTION;''"
definition rollback_sql :: string where "rollback_sql = ''ROLLBACK TRANSACTION;''"

definition exec_on :: "'d engine \<Rightarrow> nat \<Rightarrow> string \<Rightarrow> 'd db_state \<Rightarrow> bool \<times> 'd db_state" where
  "exec_on E c sql s = (case en_exec E c sql (dd_data s) of (ok, d) \<Rightarrow> (ok, s\<lparr>dd_data := d\<rparr>))"

definition note_begin :: "'d db_state \<Rightarrow> 'd db_state" where
  "note_begin s = s\<lparr>dd_stats := (dd_stats s)\<lparr>dt_transaction_count := dt_transaction_count (dd_stats s) + 1\<rparr>\<rparr>"

definition db_begin_transaction :: "'d engine \<Rightarrow> nat option \<Rightarrow> 'd db_state \<Rightarrow> db_error \<times> 'd db_state" where
  "db_begin_transaction E conn s =
     (case conn of None \<Rightarrow> (DB_ERROR_CONNECTION, s)
      | Some c \<Rightarrow>
          case exec_on E c begin_sql s of (ok, s1) \<Rightarrow>
            if \<not> ok then (DB_ERROR_TRANSACTION, s1)
            else (DB_SUCCESS, note_begin s1))"

definition db_commit_transaction :: "'d engine \<Rightarrow> nat option \<Rightarrow> 'd db_state \<Rightarrow> db_error \<times> 'd db_state" where
  "db_commit_transaction E conn s =
     (case conn of None \<Rightarrow> (DB_ERROR_CONNECTION, s)
      | Some c \<Rightarrow>
          case exec_on E c commit_sql s of (ok, s1) \<Rightarrow>
            if \<not> ok then (DB_ERROR_TRANSACTION, s1) else (DB_SUCCESS, s1))"

definition note_rollback :: "'d db_state \<Rightarrow> 'd db_state" where
  "note_rollback s = s\<lparr>dd_stats := (dd_stats s)\<lparr>dt_rollback_count := dt_rollback_count (dd_stats s) + 1\<rparr>\<rparr>"

definition db_rollback_transaction :: "'d engine \<Rightarrow> nat option \<Rightarrow> 'd db_state \<Rightarrow> db_error \<times> 'd db_state" where
  "db_rollback_transaction E conn s =
     (case conn of None \<Rightarrow> (DB_ERROR_CONNECTION, s)
      | Some c \<Rightarrow>
          case exec_on E c rollback_sql s of (ok, s1) \<Rightarrow>
            if \<not> ok then (DB_ERROR_TRANSACTION, s1) else (DB_SUCCESS, note_rollback s1))"

text \<open>The statement is cut to 255 characters.\<close>

definition savepoint_sql :: "string \<Rightarrow> string \<Rightarrow> string" where
  "savepoint_sql verb name = snprintf 256 (verb @ '' '' @ name @ '';'')"

definition db_savepoint :: "'d engine \<Rightarrow> nat option \<Rightarrow> string option \<Rightarrow> 'd db_state \<Rightarrow> db_error \<times> 'd db_state" where
  "db_savepoint E conn name s =
     (case (conn, name) of
        (Some c, Some n) \<Rightarrow>
          (case exec_on E c (savepoint_sql ''SAVEPOINT'' n) s of (ok, s1) \<Rightarrow> if \<not> ok then (DB_ERROR_TRANSACTION, s1) else (DB_SUCCESS, s1))
      | _ \<Rightarrow> (DB_ERROR_CONNECTION, s))"

definition db_release_savepoint :: "'d engine \<Rightarrow> nat option \<Rightarrow> string option \<Rightarrow> 'd db_state \<Rightarrow> db_error \<times> 'd db_state" where
  "db_release_savepoint E conn name s =
     (case (conn, name) of
        (Some c, Some n) \<Rightarrow>
          (case exec_on E c (savepoint_sql ''RELEASE SAVEPOINT'' n) s of (ok, s1) \<Rightarrow> if \<not> ok then (DB_ERROR_TRANSACTION, s1) else (DB_SUCCESS, s1))
      | _ \<Rightarrow> (DB_ERROR_CONNECTION, s))"

definition db_rollback_to_savepoint :: "'d engine \<Rightarrow> nat option \<Rightarrow> string option \<Rightarrow> 'd db_state \<Rightarrow> db_error \<times> 'd db_state" where
  "db_rollback_to_savepoint E conn name s =
     (case (conn, name) of
        (Some c, Some n) \<Rightarrow>
          (case exec_on E c (savepoint_sql ''ROLLBACK TO SAVEPOINT'' n) s of (ok, s1) \<Rightarrow>
             if \<not> ok then (DB_ERROR_TRANSACTION, s1) else (DB_SUCCESS, note_rollback s1))
      | _ \<Rightarrow> (DB_ERROR_CONNECTION, s))"

section \<open>Batches\<close>

text \<open>The statement is run once for each row of bindings, up to the first failure. A statement that is \<open>NULL\<close> (an empty text) cannot be run.\<close>

fun run_rows :: "'d engine \<Rightarrow> nat \<Rightarrow> string \<Rightarrow> nat option \<Rightarrow> (nat \<times> binding) list list \<Rightarrow> 'd \<Rightarrow> bool \<times> 'd" where
  "run_rows E c sql stmt [] d = (True, d)"
| "run_rows E c sql stmt (b # bs) d =
     (if stmt = None then (False, d)
      else case en_step E c sql b d of (ok, d') \<Rightarrow> if ok then run_rows E c sql stmt bs d' else (False, d'))"

text \<open>The part of a batch on its connection \<open>c\<close>, without the pool.\<close>

definition batch_on :: "'d engine \<Rightarrow> query_env \<Rightarrow> string \<Rightarrow> (nat \<times> binding) list list \<Rightarrow> nat \<Rightarrow> 'd db_state \<Rightarrow> (db_error \<times> 'd db_state) outcome" where
  "batch_on E e sql rows c s1 =
     (case db_begin_transaction E (Some c) s1 of (err, s2) \<Rightarrow>
        if err \<noteq> DB_SUCCESS then Done (err, s2)
        else case qe_prepare e of
          None \<Rightarrow> Done (DB_ERROR_PREPARE, snd (db_rollback_transaction E (Some c) s2))
        | Some stmt \<Rightarrow>
            let s3 = stmt_added stmt s2 in
            case run_rows E c sql stmt rows (dd_data s3) of (ok, d) \<Rightarrow>
              obind (finalize stmt (s3\<lparr>dd_data := d\<rparr>)) (\<lambda>s4.
                if \<not> ok then Done (DB_ERROR_EXECUTE, snd (db_rollback_transaction E (Some c) s4))
                else Done (db_commit_transaction E (Some c) s4)))"

text \<open>Every path that has got a connection ends with \<open>db_release_connection\<close>.\<close>

definition run_batch :: "'d engine \<Rightarrow> query_env \<Rightarrow> string \<Rightarrow> (nat \<times> binding) list list \<Rightarrow> 'd db_state \<Rightarrow> (db_error \<times> 'd db_state) outcome" where
  "run_batch E e sql rows s =
     (case db_get_connection (qe_opened e) (qe_wake e) (dd_pool s) of (err, conn, pool) \<Rightarrow>
        let s1 = s\<lparr>dd_pool := pool\<rparr> in
        if err \<noteq> DB_SUCCESS then Done (err, s1)
        else obind (batch_on E e sql rows (the conn) s1) (\<lambda>(err2, s2). Done (err2, release_conn conn s2)))"

definition value_row :: "string option \<Rightarrow> (nat \<times> binding) list" where
  "value_row v = [(1, case v of Some t \<Rightarrow> Bind_Text (Some t) Static | None \<Rightarrow> Bind_Null)]"

definition db_execute_batch :: "'d engine \<Rightarrow> query_env \<Rightarrow> string option \<Rightarrow> string option list option \<Rightarrow> int \<Rightarrow> 'd db_state \<Rightarrow> (db_error \<times> 'd db_state) outcome" where
  "db_execute_batch E e sql values count s =
     (case (sql, values) of
        (Some q, Some vs) \<Rightarrow>
          if count \<le> 0 then Done (DB_ERROR_QUERY, s)
          else if length vs < nat count then Undefined_Behaviour
          else run_batch E e q (map value_row (take (nat count) vs)) s
      | _ \<Rightarrow> Done (DB_ERROR_QUERY, s))"

definition insert_binding :: "db_param \<Rightarrow> binding" where
  "insert_binding p =
     (case p of
        Param_Null \<Rightarrow> Bind_Null
      | Param_Int i \<Rightarrow> Bind_Int i
      | Param_Int64 i \<Rightarrow> Bind_Int64 i
      | Param_Double x \<Rightarrow> Bind_Double x
      | Param_Text t copy \<Rightarrow> (case t of Some x \<Rightarrow> Bind_Text (Some x) Static | None \<Rightarrow> Bind_Null)
      | Param_Blob b n copy \<Rightarrow> (case b of Some x \<Rightarrow> if n > 0 then Bind_Blob x n Static else Bind_Null | None \<Rightarrow> Bind_Null)
      | Param_Bool b \<Rightarrow> Bind_Int (if b then 1 else 0)
      | Param_Other \<Rightarrow> Bind_Null)"

definition param_row :: "nat \<Rightarrow> db_param list \<Rightarrow> (nat \<times> binding) list" where
  "param_row n ps = map (\<lambda>i. (i + 1, insert_binding (ps ! i))) [0..<n]"

fun placeholders :: "nat \<Rightarrow> string" where
  "placeholders 0 = []"
| "placeholders (Suc 0) = ''?''"
| "placeholders (Suc n) = ''?,'' @ placeholders n"

definition insert_sql :: "string \<Rightarrow> string \<Rightarrow> nat \<Rightarrow> string" where
  "insert_sql table column n = snprintf 1024 (''INSERT INTO '' @ table @ '' ('' @ column @ '') VALUES ('' @ placeholders n @ '');'')"

text \<open>The list of placeholders is built with \<open>strcat\<close> in 512 bytes. Only the first column name is used.\<close>

definition db_insert_batch :: "'d engine \<Rightarrow> query_env \<Rightarrow> string option \<Rightarrow> string list option \<Rightarrow> db_param list list option \<Rightarrow> int \<Rightarrow> int \<Rightarrow> 'd db_state \<Rightarrow>
    (db_error \<times> 'd db_state) outcome" where
  "db_insert_batch E e table columns rows row_count column_count s =
     (case (table, columns, rows) of
        (Some t, Some cs, Some rs) \<Rightarrow>
          if row_count \<le> 0 \<or> column_count \<le> 0 then Done (DB_ERROR_QUERY, s)
          else if length (placeholders (nat column_count)) + 1 > 512 then Undefined_Behaviour
          else if cs = [] \<or> length rs < nat row_count \<or> list_ex (\<lambda>r. length r < nat column_count) (take (nat row_count) rs) then Undefined_Behaviour
          else run_batch E e (insert_sql t (cs ! 0) (nat column_count)) (map (param_row (nat column_count)) (take (nat row_count) rs)) s
      | _ \<Rightarrow> Done (DB_ERROR_QUERY, s))"

section \<open>What a batch commits\<close>

type_synonym work = "string \<times> (nat \<times> binding) list"

text \<open>The documented behaviour of SQLite that the batches rely on, in terms of the rows that are committed and those of the open transaction of a
  connection. \<open>BEGIN\<close> is refused while a transaction is open, and otherwise opens an empty one. A statement of the class \<open>dml\<close> (\<open>INSERT\<close>, \<open>UPDATE\<close>,
  \<open>DELETE\<close>, none that ends a transaction) that succeeds in a transaction belongs to it; one that fails may have ended the transaction
  without committing anything. \<open>COMMIT\<close> makes the rows of the transaction permanent; when it fails nothing is committed, and the transaction
  stays open (the database is busy) or has been rolled back. After \<open>ROLLBACK\<close> no transaction is open and nothing has been committed.\<close>

definition begin_law :: "'d engine \<Rightarrow> ('d \<Rightarrow> work list) \<Rightarrow> ('d \<Rightarrow> nat \<Rightarrow> work list option) \<Rightarrow> bool" where
  "begin_law E committed pending \<longleftrightarrow>
     (\<forall>c d ok d'. en_exec E c begin_sql d = (ok, d') \<longrightarrow> committed d' = committed d \<and>
        (if ok then pending d c = None \<and> pending d' c = Some [] else pending d' c = pending d c))"

definition step_law :: "'d engine \<Rightarrow> (string \<Rightarrow> bool) \<Rightarrow> ('d \<Rightarrow> work list) \<Rightarrow> ('d \<Rightarrow> nat \<Rightarrow> work list option) \<Rightarrow> bool" where
  "step_law E dml committed pending \<longleftrightarrow>
     (\<forall>c sql b d ok d' ps. dml sql \<longrightarrow> pending d c = Some ps \<longrightarrow> en_step E c sql b d = (ok, d') \<longrightarrow> committed d' = committed d \<and>
        (ok \<longrightarrow> pending d' c = Some (ps @ [(sql, b)])))"

definition rollback_law :: "'d engine \<Rightarrow> ('d \<Rightarrow> work list) \<Rightarrow> ('d \<Rightarrow> nat \<Rightarrow> work list option) \<Rightarrow> bool" where
  "rollback_law E committed pending \<longleftrightarrow>
     (\<forall>c d ok d'. en_exec E c rollback_sql d = (ok, d') \<longrightarrow> committed d' = committed d \<and> pending d' c = None)"

definition commit_law :: "'d engine \<Rightarrow> ('d \<Rightarrow> work list) \<Rightarrow> ('d \<Rightarrow> nat \<Rightarrow> work list option) \<Rightarrow> bool" where
  "commit_law E committed pending \<longleftrightarrow>
     (\<forall>c d ok d' ps. pending d c = Some ps \<longrightarrow> en_exec E c commit_sql d = (ok, d') \<longrightarrow>
        (if ok then committed d' = committed d @ ps \<and> pending d' c = None
         else committed d' = committed d \<and> pending d' c \<in> {Some ps, None}))"

definition transactional :: "'d engine \<Rightarrow> (string \<Rightarrow> bool) \<Rightarrow> ('d \<Rightarrow> work list) \<Rightarrow> ('d \<Rightarrow> nat \<Rightarrow> work list option) \<Rightarrow> bool" where
  "transactional E dml committed pending \<longleftrightarrow>
     begin_law E committed pending \<and> step_law E dml committed pending \<and> rollback_law E committed pending \<and> commit_law E committed pending"

lemma run_rows_pending:
  assumes "step_law E dml committed pending" and "dml sql" and "pending d c = Some ps" and "run_rows E c sql stmt rows d = (ok, d')"
  shows "committed d' = committed d \<and> (ok \<longrightarrow> pending d' c = Some (ps @ map (\<lambda>b. (sql, b)) rows))"
  using assms(3,4)
proof (induction rows arbitrary: d ps)
  case (Cons b bs)
  obtain ok1 d1 where r: "en_step E c sql b d = (ok1, d1)" by (metis surj_pair)
  with assms(1,2) Cons.prems(1) have "committed d1 = committed d" "ok1 \<longrightarrow> pending d1 c = Some (ps @ [(sql, b)])"
    by (auto simp: step_law_def)
  with Cons.IH [of d1 "ps @ [(sql, b)]"] Cons.prems(2) r show ?case by (auto split: if_split_asm)
qed simp

lemma exec_on_other:
  "exec_on E c sql s = (ok, s') \<Longrightarrow> dd_stmts s' = dd_stmts s \<and> dd_pool s' = dd_pool s \<and> en_exec E c sql (dd_data s) = (ok, dd_data s')"
  by (auto simp: exec_on_def split: prod.splits)

lemma notes_other [simp]:
  "dd_stmts (note_rollback s) = dd_stmts s" "dd_pool (note_rollback s) = dd_pool s" "dd_data (note_rollback s) = dd_data s"
  "dd_stmts (note_begin s) = dd_stmts s" "dd_pool (note_begin s) = dd_pool s" "dd_data (note_begin s) = dd_data s"
  by (simp_all add: note_rollback_def note_begin_def)

lemma rollback_keeps:
  assumes "rollback_law E committed pending" and "db_rollback_transaction E (Some c) s = (err, s')"
  shows "committed (dd_data s') = committed (dd_data s) \<and> pending (dd_data s') c = None \<and> dd_stmts s' = dd_stmts s \<and> dd_pool s' = dd_pool s"
proof -
  obtain ok s1 where x: "exec_on E c rollback_sql s = (ok, s1)" by (metis surj_pair)
  have "committed (dd_data s1) = committed (dd_data s)" "pending (dd_data s1) c = None"
    using assms(1) [unfolded rollback_law_def, rule_format, of c "dd_data s" ok "dd_data s1"] exec_on_other [OF x] by simp_all
  moreover have "(err, s') = (if ok then (DB_SUCCESS, note_rollback s1) else (DB_ERROR_TRANSACTION, s1))"
    unfolding assms(2) [symmetric] by (simp add: db_rollback_transaction_def x)
  ultimately show ?thesis using exec_on_other [OF x] by (cases ok) simp_all
qed

lemma begin_opens:
  assumes "begin_law E committed pending" and "db_begin_transaction E (Some c) s = (err, s')"
  shows "committed (dd_data s') = committed (dd_data s) \<and> dd_stmts s' = dd_stmts s \<and> dd_pool s' = dd_pool s \<and>
    (if err = DB_SUCCESS then pending (dd_data s) c = None \<and> pending (dd_data s') c = Some []
     else err = DB_ERROR_TRANSACTION \<and> pending (dd_data s') c = pending (dd_data s) c)"
proof -
  obtain ok s1 where x: "exec_on E c begin_sql s = (ok, s1)" by (metis surj_pair)
  have "committed (dd_data s1) = committed (dd_data s) \<and>
      (if ok then pending (dd_data s) c = None \<and> pending (dd_data s1) c = Some [] else pending (dd_data s1) c = pending (dd_data s) c)"
    using assms(1) [unfolded begin_law_def, rule_format, of c "dd_data s" ok "dd_data s1"] exec_on_other [OF x] by simp
  moreover have "(err, s') = (if ok then (DB_SUCCESS, note_begin s1) else (DB_ERROR_TRANSACTION, s1))"
    unfolding assms(2) [symmetric] by (simp add: db_begin_transaction_def x)
  ultimately show ?thesis using exec_on_other [OF x] by (cases ok) simp_all
qed

lemma commit_ends:
  assumes "commit_law E committed pending" and "pending (dd_data s) c = Some ps" and "db_commit_transaction E (Some c) s = (err, s')"
  shows "dd_stmts s' = dd_stmts s \<and> dd_pool s' = dd_pool s \<and>
    (if err = DB_SUCCESS then committed (dd_data s') = committed (dd_data s) @ ps \<and> pending (dd_data s') c = None
     else err = DB_ERROR_TRANSACTION \<and> committed (dd_data s') = committed (dd_data s) \<and> pending (dd_data s') c \<in> {Some ps, None})"
proof -
  obtain ok s1 where x: "exec_on E c commit_sql s = (ok, s1)" by (metis surj_pair)
  have "if ok then committed (dd_data s1) = committed (dd_data s) @ ps \<and> pending (dd_data s1) c = None
      else committed (dd_data s1) = committed (dd_data s) \<and> pending (dd_data s1) c \<in> {Some ps, None}"
    using assms(1) [unfolded commit_law_def, rule_format, OF assms(2), of ok "dd_data s1"] exec_on_other [OF x] by simp
  moreover have "(err, s') = (if ok then (DB_SUCCESS, s1) else (DB_ERROR_TRANSACTION, s1))"
    unfolding assms(3) [symmetric] by (simp add: db_commit_transaction_def x)
  ultimately show ?thesis using exec_on_other [OF x] by (cases ok) simp_all
qed

lemma batch_on_commits:
  assumes E: "transactional E dml committed pending" "dml sql" and fresh: "\<And>i. qe_prepare e = Some (Some i) \<Longrightarrow> i \<notin> dd_stmts s"
  shows "\<exists>err s'. batch_on E e sql rows c s = Done (err, s') \<and> dd_stmts s' = dd_stmts s \<and> dd_pool s' = dd_pool s \<and>
    committed (dd_data s') = committed (dd_data s) @ (if err = DB_SUCCESS then map (\<lambda>b. (sql, b)) rows else []) \<and>
    (pending (dd_data s') c = None \<or> err = DB_ERROR_TRANSACTION)"
proof -
  have laws: "begin_law E committed pending" "step_law E dml committed pending" "rollback_law E committed pending" "commit_law E committed pending"
    using E by (auto simp: transactional_def)
  obtain err s2 where b: "db_begin_transaction E (Some c) s = (err, s2)" by (metis surj_pair)
  note o = begin_opens [OF laws(1) b]
  show ?thesis
  proof (cases "err = DB_SUCCESS")
    case False
    with b o show ?thesis by (simp add: batch_on_def)
  next
    case True
    note ok = this
    show ?thesis
    proof (cases "qe_prepare e")
      case None
      obtain err' s' where r: "db_rollback_transaction E (Some c) s2 = (err', s')" by (metis surj_pair)
      show ?thesis using rollback_keeps [OF laws(3) r] b o True None r by (simp add: batch_on_def)
    next
      case (Some stmt)
      let ?s3 = "stmt_added stmt s2"
      have s3: "dd_data ?s3 = dd_data s2" "dd_pool ?s3 = dd_pool s2" by (auto simp: stmt_added_def split: option.split)
      obtain all d where rr: "run_rows E c sql stmt rows (dd_data ?s3) = (all, d)" by (metis surj_pair)
      have p: "committed d = committed (dd_data s)" "all \<Longrightarrow> pending d c = Some (map (\<lambda>b. (sql, b)) rows)"
        using run_rows_pending [OF laws(2) E(2) _ rr, of "[]"] o True by (auto simp: s3)
      obtain s4 where f: "finalize stmt (?s3\<lparr>dd_data := d\<rparr>) = Done s4" and s4: "dd_stmts s4 = dd_stmts s" "dd_pool s4 = dd_pool s" "dd_data s4 = d"
        using fresh Some o by (cases stmt) (auto simp: finalize_def stmt_added_def)
      obtain err' s' where r: "db_rollback_transaction E (Some c) s4 = (err', s')" by (metis surj_pair)
      obtain err'' s'' where m: "db_commit_transaction E (Some c) s4 = (err'', s'')" by (metis surj_pair)
      show ?thesis
        using rollback_keeps [OF laws(3) r] commit_ends [OF laws(4) _ m] p s4 b Some rr f r m ok
        by (cases all) (auto simp: batch_on_def)
    qed
  qed
qed

text \<open>(C33) A batch of statements of the class \<open>dml\<close> is all or nothing, on an engine that behaves as SQLite documents (\<open>transactional\<close>): with a pool that is in
  order it always returns, with the whole list of rows committed when it reports success and none of them otherwise; on every path its statement is
  finalized and its connection back in the pool; and the connection it was given goes back without an open transaction, so that the rows of a batch that
  failed are discarded, except where \<open>BEGIN\<close> or \<open>COMMIT\<close> was refused, which is reported as \<open>DB_ERROR_TRANSACTION\<close>.\<close>

theorem batch_all_or_nothing:
  assumes "transactional E dml committed pending" and "dml sql" and "pool_ready e s p" and "\<And>i. qe_prepare e = Some (Some i) \<Longrightarrow> i \<notin> dd_stmts s"
  shows "\<exists>err s' p'. run_batch E e sql rows s = Done (err, s') \<and> dd_stmts s' = dd_stmts s \<and> dd_pool s' = Some p' \<and> db_pool_inv p' \<and>
    lent p' = lent (seen_pool (qe_wake e) p) \<and>
    committed (dd_data s') = committed (dd_data s) @ (if err = DB_SUCCESS then map (\<lambda>b. (sql, b)) rows else []) \<and>
    (\<forall>c pool. db_get_connection (qe_opened e) (qe_wake e) (dd_pool s) = (DB_SUCCESS, Some c, pool) \<longrightarrow>
       pending (dd_data s') c = None \<or> err = DB_ERROR_TRANSACTION)"
proof -
  obtain err conn p1 where g: "db_get_connection (qe_opened e) (qe_wake e) (dd_pool s) = (err, conn, Some p1)" "db_pool_inv p1" and
    r: "case conn of None \<Rightarrow> err \<noteq> DB_SUCCESS \<and> p1 = seen_pool (qe_wake e) p
        | Some h \<Rightarrow> err = DB_SUCCESS \<and> h \<in> lent p1 \<and> lent p1 - {h} = lent (seen_pool (qe_wake e) p)"
    using ready_get [OF assms(3)] by blast
  show ?thesis
  proof (cases conn)
    case None
    with g r show ?thesis by (simp add: run_batch_def)
  next
    case (Some h)
    let ?s = "s\<lparr>dd_pool := Some p1\<rparr>"
    obtain err2 s2 where b: "batch_on E e sql rows h ?s = Done (err2, s2)" "dd_stmts s2 = dd_stmts s" "dd_pool s2 = Some p1"
      "committed (dd_data s2) = committed (dd_data s) @ (if err2 = DB_SUCCESS then map (\<lambda>b. (sql, b)) rows else [])"
      "pending (dd_data s2) h = None \<or> err2 = DB_ERROR_TRANSACTION"
      using batch_on_commits [OF assms(1,2), of e ?s rows h] assms(4) by auto
    obtain p2 where "snd (db_release_connection (Some h) (Some p1)) = Some p2" "db_pool_inv p2" "lent p2 = lent p1 - {h}"
      using released [of p1 h] g(2) r Some by auto
    then show ?thesis using g r Some b by (auto simp: run_batch_def release_conn_def)
  qed
qed

text \<open>A list of rows as a database, with one open transaction for each connection; \<open>busy\<close>: every \<open>COMMIT\<close> is refused.\<close>

definition list_engine :: "bool \<Rightarrow> (work list \<times> (nat \<Rightarrow> work list option)) engine" where
  "list_engine busy =
     \<lparr>en_exec = (\<lambda>c sql (com, pen).
        if sql = begin_sql then (if pen c = None then (True, com, pen(c := Some [])) else (False, com, pen))
        else if sql = commit_sql then
          (case pen c of Some ps \<Rightarrow> if busy then (False, com, pen) else (True, com @ ps, pen(c := None)) | None \<Rightarrow> (False, com, pen))
        else if sql = rollback_sql then (True, com, pen(c := None))
        else (True, com, pen)),
      en_step = (\<lambda>c sql b (com, pen).
        case pen c of Some ps \<Rightarrow> (True, com, pen(c := Some (ps @ [(sql, b)]))) | None \<Rightarrow> (True, com @ [(sql, b)], pen))\<rparr>"

lemma sql_distinct [simp]: "begin_sql \<noteq> commit_sql" "commit_sql \<noteq> begin_sql" "rollback_sql \<noteq> begin_sql" "rollback_sql \<noteq> commit_sql"
  by (simp_all add: begin_sql_def commit_sql_def rollback_sql_def)

lemma list_engine_transactional: "transactional (list_engine busy) dml fst snd"
  unfolding transactional_def begin_law_def step_law_def rollback_law_def commit_law_def
  by (auto simp: list_engine_def split: if_split_asm)

lemma one_pool_ready: "pool_ready one_row_env (fresh_db d) one_pool"
  using one_pool_inv by (simp add: pool_ready_def fresh_db_def one_row_env_def)

theorem batch_all_or_nothing_witness:
  "\<exists>err s'. run_batch (list_engine True) one_row_env ''X'' [[(1, Bind_Int 4)]] (fresh_db ([], \<lambda>_. None)) = Done (err, s') \<and>
     fst (dd_data s') = (if err = DB_SUCCESS then [(''X'', [(1, Bind_Int 4)])] else [])"
  using batch_all_or_nothing [OF list_engine_transactional, where dml = "\<lambda>sql. sql = ''X''", OF refl one_pool_ready,
      of "([], \<lambda>_. None)" True "[[(1, Bind_Int 4)]]"]
  by (auto simp: fresh_db_def)

section \<open>A commit that is refused\<close>

text \<open>A connection with an open transaction cannot begin one.\<close>

lemma batch_on_blocked:
  assumes "transactional E dml committed pending" and "pending (dd_data s) c = Some ps"
  shows "\<exists>s'. batch_on E e sql rows c s = Done (DB_ERROR_TRANSACTION, s') \<and> pending (dd_data s') c = Some ps \<and> committed (dd_data s') = committed (dd_data s)"
proof -
  obtain err s2 where b: "db_begin_transaction E (Some c) s = (err, s2)" by (metis surj_pair)
  have "begin_law E committed pending" using assms(1) by (simp add: transactional_def)
  from begin_opens [OF this b] assms(2) b show ?thesis by (auto simp: batch_on_def split: if_split_asm)
qed

text \<open>A batch whose \<open>COMMIT\<close> is refused reports an error without rolling back. When SQLite keeps the transaction (the database is busy), its
  connection goes back to the pool with the transaction open: every later batch that is given this connection fails at \<open>BEGIN\<close>, and gives
  it back in the same state.\<close>

theorem refused_commit_blocks_connection:
  assumes "transactional E dml committed pending" and "pending (dd_data s) c = Some ps"
    and "db_get_connection (qe_opened e) (qe_wake e) (dd_pool s) = (DB_SUCCESS, Some c, pool)"
  shows "\<exists>s'. run_batch E e sql rows s = Done (DB_ERROR_TRANSACTION, s') \<and> pending (dd_data s') c = Some ps \<and>
    committed (dd_data s') = committed (dd_data s)"
proof -
  obtain u where "batch_on E e sql rows c (s\<lparr>dd_pool := pool\<rparr>) = Done (DB_ERROR_TRANSACTION, u)" "pending (dd_data u) c = Some ps"
    "committed (dd_data u) = committed (dd_data s)" using batch_on_blocked [OF assms(1), of "s\<lparr>dd_pool := pool\<rparr>" c ps e sql rows] assms(2) by auto
  then show ?thesis using assms(3) by (auto simp: run_batch_def)
qed

theorem refused_commit_blocks_connection_witness:
  "\<exists>s1 s3. run_batch (list_engine True) one_row_env ''X'' [[(1, Bind_Int 4)]] (fresh_db ([], \<lambda>_. None)) = Done (DB_ERROR_TRANSACTION, s1) \<and>
     run_batch (list_engine True) one_row_env ''Y'' [] s1 = Done (DB_ERROR_TRANSACTION, s3) \<and> snd (dd_data s3) 7 \<noteq> None"
proof -
  let ?p = "\<lambda>b. \<lparr>dp_connections = Some 7 # replicate 9 None, dp_in_use = b # replicate 9 False, dp_active = Suc 0, dp_max = Suc 0\<rparr>"
  let ?s = "fresh_db ([], \<lambda>_. None)" and ?E = "list_engine True"
  have g: "db_get_connection (Some 7) (True, one_pool) (Some one_pool) = (DB_SUCCESS, Some 7, Some (?p True))" unfolding one_pool_def by code_simp
  have r: "db_release_connection (Some 7) (Some (?p True)) = (DB_SUCCESS, Some (?p False))" by code_simp
  have g': "db_get_connection (Some 7) (True, one_pool) (Some (?p False)) = (DB_SUCCESS, Some 7, Some (?p True))" unfolding one_pool_def by code_simp
  have "\<exists>s1 ps. run_batch ?E one_row_env ''X'' [[(1, Bind_Int 4)]] ?s = Done (DB_ERROR_TRANSACTION, s1) \<and> dd_pool s1 = Some (?p False) \<and>
      snd (dd_data s1) 7 = Some ps"
    by (simp add: run_batch_def one_row_env_def fresh_db_def g batch_on_def db_begin_transaction_def exec_on_def list_engine_def note_begin_def stmt_added_def
        finalize_def db_commit_transaction_def release_conn_def r)
  then obtain s1 ps where s1: "run_batch ?E one_row_env ''X'' [[(1, Bind_Int 4)]] ?s = Done (DB_ERROR_TRANSACTION, s1)" "dd_pool s1 = Some (?p False)"
    "snd (dd_data s1) 7 = Some ps" by blast
  obtain s3 where "run_batch ?E one_row_env ''Y'' [] s1 = Done (DB_ERROR_TRANSACTION, s3)" "snd (dd_data s3) 7 = Some ps"
    using refused_commit_blocks_connection [OF list_engine_transactional s1(3), of one_row_env "Some (?p True)" True "''Y''" "[]"] g' s1(2)
    by (auto simp: one_row_env_def)
  with s1(1) show ?thesis by auto
qed

section \<open>Bounds\<close>

lemma length_placeholders: "0 < n \<Longrightarrow> length (placeholders n) = 2 * n - 1"
  by (induction n rule: placeholders.induct) auto

text \<open>The list of placeholders fits exactly up to 256 columns; with more, \<open>strcat\<close> writes past its 512 bytes.\<close>

theorem insert_batch_overflow:
  assumes "0 < row_count" and "256 < column_count"
  shows "db_insert_batch E e (Some t) (Some cs) (Some rs) row_count column_count s = Undefined_Behaviour"
proof -
  have "256 < nat column_count" using assms(2) by simp
  then show ?thesis using assms by (simp add: db_insert_batch_def length_placeholders)
qed

end
