(* ===== verification/Db_Schema.thy ===== *)
theory Db_Schema
  imports Db_Batch
begin

text \<open>
  The rest of \<open>server/src/database.c\<close>: the configuration of a connection, statistics, maintenance, migrations and \<open>db_table_exists\<close>. Every call of
  \<open>db_execute\<close> has its own environment. \<open>db_create_backup\<close> and the file helpers below it are left out: they use a variable out of its scope and an
  error code that is declared nowhere, so they cannot be compiled.
\<close>

section \<open>Configuration\<close>

record db_config =
  dc_db_path :: string
  dc_backup_path :: string
  dc_max_connections :: int
  dc_query_timeout_ms :: int
  dc_max_retries :: int
  dc_backup_interval :: int
  dc_wal_mode :: bool
  dc_page_size :: int
  dc_cache_size :: int
  dc_foreign_keys :: bool
  dc_synchronous :: bool
  dc_journal_mode :: bool
  dc_temp_store :: bool
  dc_autovacuum :: bool
  dc_secure_delete :: bool

datatype conn_action = Exec string | Busy_Timeout int

text \<open>The calls that configure a new connection; their failures are only logged.\<close>

definition db_configure_connection :: "db_config \<Rightarrow> conn_action list" where
  "db_configure_connection cfg =
     [Exec ''PRAGMA foreign_keys = ON;''] @
     (if dc_wal_mode cfg then [Exec ''PRAGMA journal_mode = WAL;''] else []) @
     (if dc_page_size cfg > 0 then [Exec (''PRAGMA page_size = '' @ dec_int (dc_page_size cfg) @ '';'')] else []) @
     (if dc_cache_size cfg \<noteq> 0 then [Exec (''PRAGMA cache_size = '' @ dec_int (dc_cache_size cfg) @ '';'')] else []) @
     (if dc_query_timeout_ms cfg > 0 then [Busy_Timeout (dc_query_timeout_ms cfg)] else []) @
     (if \<not> dc_synchronous cfg then [Exec ''PRAGMA synchronous = OFF;''] else []) @
     (if dc_temp_store cfg then [Exec ''PRAGMA temp_store = MEMORY;''] else [])"

text \<open>\<open>sqlite3_open\<close> gives a handle or fails.\<close>

definition db_open_connection :: "db_config \<Rightarrow> nat option \<Rightarrow> db_error \<times> nat option \<times> conn_action list" where
  "db_open_connection cfg opened =
     (case opened of None \<Rightarrow> (DB_ERROR_CONNECTION, None, []) | Some h \<Rightarrow> (DB_SUCCESS, Some h, db_configure_connection cfg))"

definition db_init :: "bool \<times> bool \<Rightarrow> db_config option \<Rightarrow> db_pool option \<Rightarrow> db_error \<times> db_pool option" where
  "db_init ok config pool = (case config of None \<Rightarrow> (DB_ERROR_CONNECTION, pool) | Some cfg \<Rightarrow> db_init_pool ok (dc_max_connections cfg) pool)"

text \<open>Four switches of the configuration have no effect on the connections: with them or without, the same calls are made.\<close>

theorem ignored_switches:
  "db_configure_connection (cfg\<lparr>dc_foreign_keys := a, dc_journal_mode := b, dc_autovacuum := c, dc_secure_delete := d\<rparr>) = db_configure_connection cfg"
  by (simp add: db_configure_connection_def)

section \<open>Statistics and maintenance\<close>

text \<open>With the statement of \<open>PRAGMA cache_size\<close>: \<open>size\<close> is the integer in its first row.\<close>

definition db_get_statistics :: "query_env \<Rightarrow> int \<Rightarrow> 'd db_state \<Rightarrow> (db_stats \<times> 'd db_state) outcome" where
  "db_get_statistics e cache_size s =
     (let st = (dd_stats s)\<lparr>dt_active_connections := int (db_get_active_connections (dd_pool s))\<rparr> in
      case db_get_connection (qe_opened e) (qe_wake e) (dd_pool s) of (err, conn, pool) \<Rightarrow>
        let s1 = s\<lparr>dd_pool := pool\<rparr> in
        if err \<noteq> DB_SUCCESS then Done (st, s1)
        else case qe_prepare e of
          None \<Rightarrow> Done (st, release_conn conn s1)
        | Some stmt \<Rightarrow>
            obind (finalize stmt (stmt_added stmt s1)) (\<lambda>s2.
              Done (if stmt \<noteq> None \<and> qe_rows e \<noteq> [] then st\<lparr>dt_page_cache_size := cache_size\<rparr> else st, release_conn conn s2)))"

definition db_reset_statistics :: "'d db_state \<Rightarrow> db_error \<times> 'd db_state" where
  "db_reset_statistics s = (DB_SUCCESS, s\<lparr>dd_stats := zero_db_stats\<rparr>)"

definition db_set_query_callback :: "bool \<Rightarrow> 'd db_state \<Rightarrow> db_error \<times> 'd db_state" where
  "db_set_query_callback callback s = (DB_SUCCESS, s\<lparr>dd_callback := callback\<rparr>)"

definition maintain :: "'d engine \<Rightarrow> query_env \<Rightarrow> string \<Rightarrow> 'd db_state \<Rightarrow> db_error \<times> 'd db_state" where
  "maintain E e sql s =
     (case db_get_connection (qe_opened e) (qe_wake e) (dd_pool s) of (err, conn, pool) \<Rightarrow>
        let s1 = s\<lparr>dd_pool := pool\<rparr> in
        if err \<noteq> DB_SUCCESS then (err, s1)
        else case exec_on E (the conn) sql s1 of (ok, s2) \<Rightarrow> (if \<not> ok then DB_ERROR_QUERY else DB_SUCCESS, release_conn conn s2))"

definition db_vacuum :: "'d engine \<Rightarrow> query_env \<Rightarrow> 'd db_state \<Rightarrow> db_error \<times> 'd db_state" where
  "db_vacuum E e s = maintain E e ''VACUUM;'' s"

definition db_analyze :: "'d engine \<Rightarrow> query_env \<Rightarrow> 'd db_state \<Rightarrow> db_error \<times> 'd db_state" where
  "db_analyze E e s = maintain E e ''ANALYZE;'' s"

text \<open>\<open>*integrity_ok\<close> is set once the statement is prepared.\<close>

definition db_check_integrity :: "query_env \<Rightarrow> bool \<Rightarrow> 'd db_state \<Rightarrow> (db_error \<times> bool option \<times> 'd db_state) outcome" where
  "db_check_integrity e out s =
     (if \<not> out then Done (DB_ERROR_QUERY, None, s)
      else case db_get_connection (qe_opened e) (qe_wake e) (dd_pool s) of (err, conn, pool) \<Rightarrow>
        let s1 = s\<lparr>dd_pool := pool\<rparr> in
        if err \<noteq> DB_SUCCESS then Done (err, None, s1)
        else case qe_prepare e of
          None \<Rightarrow> Done (DB_ERROR_QUERY, None, release_conn conn s1)
        | Some stmt \<Rightarrow>
            let good = (stmt \<noteq> None \<and> (case qe_rows e of row # _ \<Rightarrow> row 0 = Some ''ok'' | [] \<Rightarrow> False)) in
            obind (finalize stmt (stmt_added stmt s1)) (\<lambda>s2. Done (DB_SUCCESS, Some good, release_conn conn s2)))"

definition db_get_last_insert_id :: "(nat \<Rightarrow> int) \<Rightarrow> nat option \<Rightarrow> int" where
  "db_get_last_insert_id rowid conn = (case conn of None \<Rightarrow> 0 | Some c \<Rightarrow> rowid c)"

section \<open>Schema and migrations\<close>

definition atoi :: "string \<Rightarrow> int" where
  "atoi t = int_of_long (fst (strtol10 t))"

text \<open>\<open>db_free_result\<close> of a structure that is not used again.\<close>

definition free_then :: "result_arg \<Rightarrow> 'd db_state \<Rightarrow> ('d db_state \<Rightarrow> 'a outcome) \<Rightarrow> 'a outcome" where
  "free_then r s f = obind (db_free_result r s) (\<lambda>(_, s'). f s')"

definition row_count_of :: "result_arg \<Rightarrow> nat" where
  "row_count_of r = (case r of Result x \<Rightarrow> dr_row_count x | _ \<Rightarrow> 0)"

text \<open>\<open>result.rows[i][j]\<close>: \<open>None\<close> is undefined (out of the array, or no array).\<close>

definition cell_of :: "result_arg \<Rightarrow> nat \<Rightarrow> nat \<Rightarrow> string option option" where
  "cell_of r i j =
     (case r of
        Result x \<Rightarrow> (case dr_rows x of Block rs \<Rightarrow> if i < length rs \<and> j < length (rs ! i) then Some (rs ! i ! j) else None | _ \<Rightarrow> None)
      | _ \<Rightarrow> None)"

definition db_table_exists :: "query_env \<Rightarrow> string option \<Rightarrow> bool \<Rightarrow> 'd db_state \<Rightarrow> (db_error \<times> bool option \<times> 'd db_state) outcome" where
  "db_table_exists e table_name out s =
     (case table_name of
        None \<Rightarrow> Done (DB_ERROR_QUERY, None, s)
      | Some t \<Rightarrow>
          if \<not> out then Done (DB_ERROR_QUERY, None, s)
          else
            let sql = snprintf 256 (''SELECT name FROM sqlite_master WHERE type='' @ [CHR 0x27] @ ''table'' @ [CHR 0x27] @ '' AND name='' @ [CHR 0x27] @ t @ [CHR 0x27] @ '';'') in
            obind (db_execute e (Some sql) Uninit s) (\<lambda>(err, r, s1).
              let found = (err = DB_SUCCESS \<and> row_count_of r > 0) in
              free_then r s1 (\<lambda>s2. Done (err, Some found, s2))))"

definition migration_table_sql :: string where
  "migration_table_sql = ''CREATE TABLE IF NOT EXISTS migrations (version INTEGER PRIMARY KEY,description TEXT NOT NULL,sql TEXT NOT NULL,applied_at INTEGER NOT NULL);''"

definition db_create_migration_table :: "query_env \<Rightarrow> 'd db_state \<Rightarrow> (db_error \<times> 'd db_state) outcome" where
  "db_create_migration_table e s =
     obind (db_execute e (Some migration_table_sql) Uninit s) (\<lambda>(err, r, s1). free_then r s1 (\<lambda>s2. Done (err, s2)))"

definition db_migrate_init :: "query_env \<Rightarrow> 'd db_state \<Rightarrow> (db_error \<times> 'd db_state) outcome" where
  "db_migrate_init e s =
     obind (db_create_migration_table e s) (\<lambda>(err, s1). if err \<noteq> DB_SUCCESS then Done (err, s1) else Done (DB_SUCCESS, s1))"

definition db_migrate_get_current_version :: "query_env \<Rightarrow> 'd db_state \<Rightarrow> (int \<times> 'd db_state) outcome" where
  "db_migrate_get_current_version e s =
     obind (db_execute e (Some ''SELECT MAX(version) FROM migrations;'') Uninit s) (\<lambda>(err, r, s1).
       if err = DB_SUCCESS \<and> row_count_of r > 0 then
         (case cell_of r 0 0 of
            None \<Rightarrow> Undefined_Behaviour
          | Some cell \<Rightarrow> free_then r s1 (\<lambda>s2. Done (case cell of Some t \<Rightarrow> atoi t | None \<Rightarrow> 0, s2)))
       else free_then r s1 (\<lambda>s2. Done (0, s2)))"

record db_migration =
  mg_version :: int
  mg_description :: string
  mg_sql :: string
  mg_applied_at :: int

definition migration_params :: "db_migration \<Rightarrow> db_param list" where
  "migration_params m = [Param_Int (mg_version m), Param_Text (Some (mg_description m)) True, Param_Text (Some (mg_sql m)) True, Param_Int64 (mg_applied_at m)]"

definition migration_insert_sql :: string where
  "migration_insert_sql = ''INSERT INTO migrations (version, description, sql, applied_at) VALUES (?, ?, ?, ?);''"

definition add_migration :: "query_env \<Rightarrow> (nat \<Rightarrow> bool) \<Rightarrow> db_migration \<Rightarrow> 'd db_state \<Rightarrow> (db_error \<times> 'd db_state) outcome" where
  "add_migration e ok m s =
     obind (db_execute_params e ok (Some migration_insert_sql) (Some (migration_params m)) 4 No_Result s) (\<lambda>(err, _, s1). Done (err, s1))"

text \<open>The number of migrations of this version is read, and the result set freed in the inner block and once more after it.\<close>

definition db_migrate_add :: "query_env \<Rightarrow> query_env \<Rightarrow> (nat \<Rightarrow> bool) \<Rightarrow> db_migration option \<Rightarrow> 'd db_state \<Rightarrow> (db_error \<times> 'd db_state) outcome" where
  "db_migrate_add e e' ok migration s =
     (case migration of
        None \<Rightarrow> Done (DB_ERROR_QUERY, s)
      | Some m \<Rightarrow>
          let sql = snprintf 512 (''SELECT COUNT(*) FROM migrations WHERE version = '' @ dec_int (mg_version m) @ '';'') in
          obind (db_execute e (Some sql) Uninit s) (\<lambda>(err, r, s1).
            if err = DB_SUCCESS \<and> row_count_of r > 0 then
              (case cell_of r 0 0 of
                 Some (Some t) \<Rightarrow>
                   free_then r s1 (\<lambda>s2. if atoi t > 0 then Done (DB_SUCCESS, s2)
                                        else free_then (Result zero_result) s2 (add_migration e' ok m))
               | _ \<Rightarrow> Undefined_Behaviour)
            else free_then r s1 (add_migration e' ok m)))"

text \<open>One migration in a transaction of its own: the results of \<open>BEGIN\<close> and \<open>COMMIT\<close> are not looked at.\<close>

definition apply_one :: "'d engine \<Rightarrow> query_env \<Rightarrow> string \<Rightarrow> int \<Rightarrow> 'd db_state \<Rightarrow> db_error \<times> 'd db_state" where
  "apply_one E e migration_sql version s =
     (case db_get_connection (qe_opened e) (qe_wake e) (dd_pool s) of (err, conn, pool) \<Rightarrow>
        let s1 = s\<lparr>dd_pool := pool\<rparr> in
        if err \<noteq> DB_SUCCESS then (err, s1)
        else
          let s2 = snd (db_begin_transaction E conn s1) in
          case exec_on E (the conn) migration_sql s2 of (ok, s3) \<Rightarrow>
            if \<not> ok then (DB_ERROR_QUERY, release_conn conn (snd (db_rollback_transaction E conn s3)))
            else
              case exec_on E (the conn) (snprintf 256 (''UPDATE migrations SET applied_at = '' @ dec_int (qe_now e) @ '' WHERE version = '' @ dec_int version @ '';'')) s3
              of (ok2, s4) \<Rightarrow>
                if \<not> ok2 then (DB_ERROR_QUERY, release_conn conn (snd (db_rollback_transaction E conn s4)))
                else (DB_SUCCESS, release_conn conn (snd (db_commit_transaction E conn s4))))"

text \<open>\<open>sqlite3_exec\<close> takes a null pointer for an empty text; \<open>atoi\<close> and \<open>printf\<close> do not.\<close>

fun apply_rows :: "'d engine \<Rightarrow> (nat \<Rightarrow> query_env) \<Rightarrow> result_arg \<Rightarrow> nat list \<Rightarrow> 'd db_state \<Rightarrow> (db_error \<times> 'd db_state) outcome" where
  "apply_rows E es r [] s = free_then r s (\<lambda>s'. Done (DB_SUCCESS, s'))"
| "apply_rows E es r (i # is) s =
     (case (cell_of r i 0, cell_of r i 1, cell_of r i 2) of
        (Some (Some version), Some (Some description), Some migration_sql) \<Rightarrow>
          (case apply_one E (es i) (case migration_sql of Some q \<Rightarrow> q | None \<Rightarrow> []) (atoi version) s of (err, s1) \<Rightarrow>
             if err \<noteq> DB_SUCCESS then free_then r s1 (\<lambda>s2. Done (err, s2)) else apply_rows E es r is s1)
      | _ \<Rightarrow> Undefined_Behaviour)"

definition pending_sql :: "int \<Rightarrow> int \<Rightarrow> string" where
  "pending_sql current target =
     snprintf 512 (''SELECT version, description, sql FROM migrations WHERE version > '' @ dec_int current @
       (if target = -1 then [] else '' AND version <= '' @ dec_int target) @ '' ORDER BY version ASC;'')"

definition db_migrate_apply :: "'d engine \<Rightarrow> query_env \<Rightarrow> query_env \<Rightarrow> (nat \<Rightarrow> query_env) \<Rightarrow> int \<Rightarrow> 'd db_state \<Rightarrow> (db_error \<times> 'd db_state) outcome" where
  "db_migrate_apply E e e' es target s =
     obind (db_migrate_get_current_version e s) (\<lambda>(current, s1).
       obind (db_execute e' (Some (pending_sql current target)) Uninit s1) (\<lambda>(err, r, s2).
         if err \<noteq> DB_SUCCESS then Done (err, s2) else apply_rows E es r [0..<row_count_of r] s2))"

section \<open>No defined behaviour\<close>

lemma free_after_query:
  assumes "\<And>err r s'. f (err, r, s') = Undefined_Behaviour \<or> (\<exists>g. f (err, r, s') = free_then r s' g)"
  shows "obind (db_execute e (Some q) Uninit s) f = Undefined_Behaviour"
proof (cases "db_execute e (Some q) Uninit s")
  case (Done x)
  obtain err r s' where x: "x = (err, r, s')" by (metis prod_cases3)
  have "db_free_result r s' = Undefined_Behaviour" using query_with_result_undefined [of e q s] Done x by simp
  then show ?thesis using assms [of err r s'] Done x by (auto simp: free_then_def)
qed (use query_with_result_undefined [of e q s] in auto)

text \<open>\<open>db_table_exists\<close> and the operations on migrations have no defined behaviour, whatever SQLite, the allocator and the pool answer: each passes a
  structure on its stack to \<open>db_execute\<close> and frees it afterwards. Where the query fails before it sets the structure, \<open>db_free_result\<close> reads
  pointers that were never set; where it succeeds, the statement has been finalized and is finalized again; where it fails among the rows,
  \<open>db_execute\<close> itself has finalized it twice.\<close>

theorem schema_operations_undefined:
  "db_table_exists e (Some t) True s = Undefined_Behaviour \<and> db_migrate_init e s = Undefined_Behaviour \<and>
   db_migrate_get_current_version e s = Undefined_Behaviour \<and> db_migrate_add e e' ok (Some m) s = Undefined_Behaviour \<and>
   db_migrate_apply E e e' es target s = Undefined_Behaviour"
proof -
  have "db_table_exists e (Some t) True s = Undefined_Behaviour"
    unfolding db_table_exists_def option.case Let_def not_True_eq_False if_False by (rule free_after_query) auto
  moreover have "db_create_migration_table e s = Undefined_Behaviour" unfolding db_create_migration_table_def by (rule free_after_query) auto
  moreover have v: "db_migrate_get_current_version e s = Undefined_Behaviour"
    unfolding db_migrate_get_current_version_def by (rule free_after_query) (auto split: option.split)
  moreover have "db_migrate_add e e' ok (Some m) s = Undefined_Behaviour"
    unfolding db_migrate_add_def option.case Let_def by (rule free_after_query) (auto split: option.split)
  ultimately show ?thesis by (simp add: db_migrate_init_def db_migrate_apply_def)
qed

section \<open>Maintenance\<close>

text \<open>\<open>VACUUM\<close>, \<open>ANALYZE\<close> and the integrity check give their connection back whatever happens, and leave no statement behind.\<close>

theorem maintenance_balanced:
  assumes "pool_ready e s p"
  shows "\<exists>err s' p'. maintain E e sql s = (err, s') \<and> dd_stmts s' = dd_stmts s \<and> dd_pool s' = Some p' \<and> db_pool_inv p' \<and> lent p' = lent (seen_pool (qe_wake e) p)"
proof -
  obtain err conn p1 where g: "db_get_connection (qe_opened e) (qe_wake e) (dd_pool s) = (err, conn, Some p1)" "db_pool_inv p1" and
    r: "case conn of None \<Rightarrow> err \<noteq> DB_SUCCESS \<and> p1 = seen_pool (qe_wake e) p
        | Some h \<Rightarrow> err = DB_SUCCESS \<and> h \<in> lent p1 \<and> lent p1 - {h} = lent (seen_pool (qe_wake e) p)"
    using ready_get [OF assms] by blast
  show ?thesis
  proof (cases conn)
    case None
    with g r show ?thesis by (simp add: maintain_def)
  next
    case (Some h)
    obtain ok s2 where x: "exec_on E h sql (s\<lparr>dd_pool := Some p1\<rparr>) = (ok, s2)" by (metis surj_pair)
    obtain p2 where "snd (db_release_connection (Some h) (Some p1)) = Some p2" "db_pool_inv p2" "lent p2 = lent p1 - {h}"
      using released [of p1 h] g(2) r Some by auto
    then show ?thesis using g r Some x exec_on_other [OF x] by (simp add: maintain_def release_conn_def)
  qed
qed

end
