(* ===== verification/C_Format.thy ===== *)
theory C_Format
  imports C_Lib Complex_Main
begin

text \<open>
  Doubles and texts. A finite \<open>double\<close> is a rational number; the result of an arithmetic operation on doubles is the exact result rounded by a
  function that is an argument of the definitions, and comparisons are exact. \<open>%.2f\<close> prints two decimals of the exact value, ties to even. Texts that
  are not ASCII are given by their bytes in UTF-8.
\<close>

type_synonym dbl = rat

definition utf8 :: "nat list \<Rightarrow> string" where
  "utf8 = map char_of"

definition round_even :: "rat \<Rightarrow> nat" where
  "round_even x =
     (let n = nat \<lfloor>x\<rfloor>; r = x - of_nat n in if r < 1 / 2 then n else if r > 1 / 2 then n + 1 else if even n then n else n + 1)"

definition fmt2 :: "dbl \<Rightarrow> string" where
  "fmt2 x = (let q = round_even (\<bar>x\<bar> * 100) in (if x < 0 then ''-'' else []) @ dec_nat (q div 100) @ ''.'' @ dec_nat (q mod 100 div 10) @ dec_nat (q mod 10))"

end
