(* ===== verification/Monitor_Metrics.thy ===== *)
theory Monitor_Metrics
  imports C_Format
begin

text \<open>
  Metrics of the monitoring component (\<open>server/src/monitoring.c\<close>): the data of \<open>monitoring_protocol.h\<close>, the history of a metric as a circular array of
  data points and \<open>update_metric_history\<close>. The rounding of doubles is the argument \<open>rnd\<close>.
\<close>

definition MONITORING_HISTORY_SIZE :: nat where "MONITORING_HISTORY_SIZE = 3600"
definition MONITORING_MAX_METRICS :: nat where "MONITORING_MAX_METRICS = 128"

record metric_data_point =
  pt_timestamp :: "64 word"
  pt_value :: dbl
  pt_min_value :: dbl
  pt_max_value :: dbl
  pt_avg_value :: dbl
  pt_sample_count :: "32 word"

record metric_history =
  mh_points :: "metric_data_point list"
  mh_capacity :: nat
  mh_count :: nat
  mh_start_index :: nat

record metric =
  mt_type :: nat
  mt_name :: string
  mt_unit :: string
  mt_description :: string
  mt_current_value :: dbl
  mt_last_value :: dbl
  mt_min_value :: dbl
  mt_max_value :: dbl
  mt_avg_value :: dbl
  mt_warning_threshold :: dbl
  mt_error_threshold :: dbl
  mt_update_count :: "64 word"
  mt_last_update :: "64 word"
  mt_enabled :: bool
  mt_trend :: nat

section \<open>Names\<close>

definition metric_names :: "string list" where
  "metric_names = [''CPU_USAGE'', ''MEMORY_USAGE'', ''DISK_USAGE'', ''NETWORK_RX'', ''NETWORK_TX'', ''CONNECTIONS'', ''MESSAGES_PER_SECOND'',
     ''ACTIVE_THREADS'', ''QUEUE_LENGTH'', ''RESPONSE_TIME'', ''ERROR_RATE'', ''THROUGHPUT'', ''UPTIME'', ''FILE_TRANSFERS'', ''SSL_HANDSHAKES'',
     ''CACHE_HITS'']"

definition metric_type_to_string :: "nat \<Rightarrow> string" where
  "metric_type_to_string type = (if type \<ge> length metric_names then ''UNKNOWN'' else metric_names ! type)"

text \<open>\<open>pct\<close>: what the incomplete format \<open>"%"\<close> leaves in the buffer, which C does not say.\<close>

definition metric_units :: "string \<Rightarrow> string list" where
  "metric_units pct = [pct, pct, pct, ''B/s'', ''B/s'', [], ''msg/s'', [], [], ''ms'', pct, ''req/s'', ''s'', [], [], []]"

definition metric_descriptions :: "string list" where
  "metric_descriptions =
    [''CPU'' @ utf8 [228, 189, 191, 231, 148, 168, 231, 142, 135],
     utf8 [229, 134, 133, 229, 173, 152, 228, 189, 191, 231, 148, 168, 231, 142, 135],
     utf8 [231, 163, 129, 231, 155, 152, 228, 189, 191, 231, 148, 168, 231, 142, 135],
     utf8 [231, 189, 145, 231, 187, 156, 230, 142, 165, 230, 148, 182, 233, 128, 159, 231, 142, 135],
     utf8 [231, 189, 145, 231, 187, 156, 229, 143, 145, 233, 128, 129, 233, 128, 159, 231, 142, 135],
     utf8 [230, 180, 187, 232, 183, 131, 232, 191, 158, 230, 142, 165, 230, 149, 176],
     utf8 [230, 175, 143, 231, 167, 146, 230, 182, 136, 230, 129, 175, 230, 149, 176],
     utf8 [230, 180, 187, 232, 183, 131, 231, 186, 191, 231, 168, 139, 230, 149, 176],
     utf8 [233, 152, 159, 229, 136, 151, 233, 149, 191, 229, 186, 166],
     utf8 [229, 147, 141, 229, 186, 148, 230, 151, 182, 233, 151, 180],
     utf8 [233, 148, 153, 232, 175, 175, 231, 142, 135],
     utf8 [229, 144, 158, 229, 144, 144, 233, 135, 143],
     utf8 [232, 191, 144, 232, 161, 140, 230, 151, 182, 233, 151, 180],
     utf8 [230, 150, 135, 228, 187, 182, 228, 188, 160, 232, 190, 147, 230, 149, 176],
     ''SSL'' @ utf8 [230, 143, 161, 230, 137, 139, 230, 149, 176],
     utf8 [231, 188, 147, 229, 173, 152, 229, 145, 189, 228, 184, 173, 230, 149, 176]]"

text \<open>A metric as \<open>monitoring_manager_create\<close> sets it up in zeroed memory.\<close>

definition new_metric :: "string \<Rightarrow> dbl \<Rightarrow> dbl \<Rightarrow> nat \<Rightarrow> metric" where
  "new_metric pct warning error i =
     \<lparr>mt_type = i, mt_name = snprintf 64 (metric_type_to_string i), mt_unit = (if i < 16 then metric_units pct ! i else []),
      mt_description = (if i < 16 then metric_descriptions ! i else []), mt_current_value = 0, mt_last_value = 0, mt_min_value = 0, mt_max_value = 0,
      mt_avg_value = 0, mt_warning_threshold = warning, mt_error_threshold = error, mt_update_count = 0, mt_last_update = 0, mt_enabled = True,
      mt_trend = 0\<rparr>"

definition zero_point :: metric_data_point where
  "zero_point = \<lparr>pt_timestamp = 0, pt_value = 0, pt_min_value = 0, pt_max_value = 0, pt_avg_value = 0, pt_sample_count = 0\<rparr>"

definition new_history :: metric_history where
  "new_history = \<lparr>mh_points = replicate MONITORING_HISTORY_SIZE zero_point, mh_capacity = MONITORING_HISTORY_SIZE, mh_count = 0, mh_start_index = 0\<rparr>"

section \<open>Updating a history\<close>

text \<open>\<open>abs((int64_t)(a - b))\<close>: \<open>abs\<close> takes an \<open>int\<close>, so the difference is cut to 32 bits first; \<open>abs(INT_MIN)\<close> is undefined, here \<open>None\<close>.\<close>

definition abs_diff :: "64 word \<Rightarrow> 64 word \<Rightarrow> int option" where
  "abs_diff a b = (let d = sint (ucast (a - b) :: 32 word) in if d = - (2 ^ 31) then None else Some \<bar>d\<bar>)"

text \<open>The index of the first point within a second of \<open>now\<close>.\<close>

fun find_point :: "64 word \<Rightarrow> 64 word list \<Rightarrow> nat option outcome" where
  "find_point now [] = Done None"
| "find_point now (t # ts) =
     (case abs_diff now t of
        None \<Rightarrow> Undefined_Behaviour
      | Some d \<Rightarrow> if d < 1000 then Done (Some 0) else obind (find_point now ts) (\<lambda>r. Done (map_option Suc r)))"

definition mh_index :: "metric_history \<Rightarrow> nat \<Rightarrow> nat" where
  "mh_index h i = (mh_start_index h + i) mod mh_capacity h"

text \<open>The points from the oldest on.\<close>

definition live_points :: "metric_history \<Rightarrow> metric_data_point list" where
  "live_points h = map (\<lambda>i. mh_points h ! mh_index h i) [0..<mh_count h]"

definition new_point :: "64 word \<Rightarrow> dbl \<Rightarrow> metric_data_point" where
  "new_point now v = \<lparr>pt_timestamp = now, pt_value = v, pt_min_value = v, pt_max_value = v, pt_avg_value = v, pt_sample_count = 1\<rparr>"

definition push_point :: "metric_data_point \<Rightarrow> metric_history \<Rightarrow> metric_history" where
  "push_point p h =
     (let h1 = (if mh_count h \<ge> mh_capacity h then h\<lparr>mh_start_index := (mh_start_index h + 1) mod mh_capacity h, mh_count := mh_count h - 1\<rparr> else h)
      in h1\<lparr>mh_points := (mh_points h1)[mh_index h1 (mh_count h1) := p], mh_count := mh_count h1 + 1\<rparr>)"

text \<open>The number of samples is an unsigned 32-bit number, incremented before the division; a zero after wrap-around makes the average \<open>NaN\<close> or
  infinite, which is outside the model: \<open>None\<close>.\<close>

definition merge_point :: "(rat \<Rightarrow> dbl) \<Rightarrow> dbl \<Rightarrow> metric_data_point \<Rightarrow> metric_data_point option" where
  "merge_point rnd v p =
     (let total = rnd (pt_avg_value p * of_nat (unat (pt_sample_count p))); n = pt_sample_count p + 1 in
      if n = 0 then None
      else Some (p\<lparr>pt_min_value := (if pt_min_value p < v then pt_min_value p else v), pt_max_value := (if pt_max_value p > v then pt_max_value p else v),
                   pt_sample_count := n, pt_avg_value := rnd (rnd (total + v) / of_nat (unat n)), pt_value := v\<rparr>))"

definition history_update :: "(rat \<Rightarrow> dbl) \<Rightarrow> 64 word \<Rightarrow> dbl \<Rightarrow> metric_history \<Rightarrow> metric_history outcome" where
  "history_update rnd now v h =
     obind (find_point now (map pt_timestamp (live_points h))) (\<lambda>r.
       case r of
         None \<Rightarrow> Done (push_point (new_point now v) h)
       | Some i \<Rightarrow>
           (case merge_point rnd v (mh_points h ! mh_index h i) of
              None \<Rightarrow> Undefined_Behaviour
            | Some p \<Rightarrow> Done (h\<lparr>mh_points := (mh_points h)[mh_index h i := p]\<rparr>)))"

text \<open>\<open>0.05\<close> is a double constant.\<close>

definition metric_update :: "(rat \<Rightarrow> dbl) \<Rightarrow> 64 word \<Rightarrow> dbl \<Rightarrow> metric \<Rightarrow> metric" where
  "metric_update rnd now v m =
     (let old = mt_current_value m; n = mt_update_count m;
          m1 = m\<lparr>mt_last_value := old, mt_current_value := v\<rparr>;
          m2 = (if n = 0 then m1\<lparr>mt_min_value := v, mt_max_value := v, mt_avg_value := v\<rparr>
                else m1\<lparr>mt_min_value := (if mt_min_value m1 < v then mt_min_value m1 else v),
                        mt_max_value := (if mt_max_value m1 > v then mt_max_value m1 else v),
                        mt_avg_value := rnd (rnd (rnd (mt_avg_value m1 * of_nat (unat n)) + v) / of_nat (unat (n + 1)))\<rparr>);
          m3 = m2\<lparr>mt_update_count := n + 1, mt_last_update := now\<rparr>;
          step = rnd (old * rnd (5 / 100))
      in if mt_update_count m3 > 1
         then m3\<lparr>mt_trend := (if v > rnd (old + step) then 1 else if v < rnd (old - step) then 2 else 0)\<rparr>
         else m3)"

section \<open>The history as a sequence\<close>

definition history_inv :: "metric_history \<Rightarrow> bool" where
  "history_inv h \<longleftrightarrow> 0 < mh_capacity h \<and> length (mh_points h) = mh_capacity h \<and> mh_count h \<le> mh_capacity h \<and> mh_start_index h < mh_capacity h"

lemma live_points_cyc: "history_inv h \<Longrightarrow> live_points h = cyc (mh_points h) (mh_start_index h) (mh_count h)"
  by (simp add: live_points_def cyc_def mh_index_def history_inv_def)

lemma length_live_points [simp]: "length (live_points h) = mh_count h"
  by (simp add: live_points_def)

lemma new_history_inv: "history_inv new_history" "live_points new_history = []"
  by (simp_all add: history_inv_def new_history_def live_points_def MONITORING_HISTORY_SIZE_def)

lemma mh_index_less: "history_inv h \<Longrightarrow> mh_index h i < mh_capacity h"
  by (simp add: mh_index_def history_inv_def)

lemma mh_index_inj: "history_inv h \<Longrightarrow> i < j \<Longrightarrow> j < mh_capacity h \<Longrightarrow> mh_index h i \<noteq> mh_index h j"
  unfolding mh_index_def by (rule mod_window) auto

lemma live_points_nth: "i < mh_count h \<Longrightarrow> live_points h ! i = mh_points h ! mh_index h i"
  by (simp add: live_points_def)

text \<open>Writing behind the last point, when there is room.\<close>

lemma live_points_append:
  assumes "history_inv h" and "mh_count h < mh_capacity h"
  shows "live_points (h\<lparr>mh_points := (mh_points h)[mh_index h (mh_count h) := p], mh_count := mh_count h + 1\<rparr>) = live_points h @ [p]"
proof (rule nth_equalityI)
  let ?h = "h\<lparr>mh_points := (mh_points h)[mh_index h (mh_count h) := p], mh_count := mh_count h + 1\<rparr>"
  show "length (live_points ?h) = length (live_points h @ [p])" by simp
  fix i assume "i < length (live_points ?h)"
  then have i: "i < mh_count h + 1" by simp
  have x: "mh_index ?h i = mh_index h i" by (simp add: mh_index_def)
  show "live_points ?h ! i = (live_points h @ [p]) ! i"
  proof (cases "i = mh_count h")
    case True
    then show ?thesis using x mh_index_less [OF assms(1), of i] assms(1) by (simp add: live_points_nth nth_append history_inv_def)
  next
    case False
    with i have lt: "i < mh_count h" by simp
    with mh_index_inj [OF assms(1) this assms(2)] x show ?thesis by (simp add: live_points_nth nth_append)
  qed
qed

lemma live_points_drop:
  assumes "history_inv h" and "0 < mh_count h"
  shows "live_points (h\<lparr>mh_start_index := (mh_start_index h + 1) mod mh_capacity h, mh_count := mh_count h - 1\<rparr>) = tl (live_points h)"
proof (rule nth_equalityI)
  let ?h = "h\<lparr>mh_start_index := (mh_start_index h + 1) mod mh_capacity h, mh_count := mh_count h - 1\<rparr>"
  show "length (live_points ?h) = length (tl (live_points h))" by simp
  fix i assume "i < length (live_points ?h)"
  then have i: "i < mh_count h - 1" by simp
  have "mh_index ?h i = mh_index h (Suc i)" by (simp add: mh_index_def mod_simps)
  then show "live_points ?h ! i = tl (live_points h) ! i" using i by (simp add: live_points_nth nth_tl)
qed

lemma push_point_correct:
  assumes "history_inv h"
  shows "history_inv (push_point p h) \<and> mh_capacity (push_point p h) = mh_capacity h \<and> live_points (push_point p h) = last_n (mh_capacity h) (live_points h @ [p])"
proof (cases "mh_count h \<ge> mh_capacity h")
  case True
  let ?h = "h\<lparr>mh_start_index := (mh_start_index h + 1) mod mh_capacity h, mh_count := mh_count h - 1\<rparr>"
  have full: "mh_count h = mh_capacity h" "0 < mh_count h" using True assms by (auto simp: history_inv_def)
  have inv: "history_inv ?h" using assms by (auto simp: history_inv_def)
  have lt: "mh_count ?h < mh_capacity ?h" using full by simp
  have "live_points (push_point p h) = tl (live_points h) @ [p]"
    using live_points_append [OF inv lt, of p] live_points_drop [OF assms full(2)] True by (simp add: push_point_def Let_def)
  moreover have "last_n (mh_capacity h) (live_points h @ [p]) = tl (live_points h) @ [p]"
    using full by (simp add: last_n_def drop_Suc)
  moreover have "history_inv (push_point p h)" using assms full True by (simp add: push_point_def Let_def history_inv_def)
  ultimately show ?thesis by (simp add: push_point_def Let_def)
next
  case False
  then have lt: "mh_count h < mh_capacity h" by simp
  then show ?thesis using live_points_append [OF assms lt, of p] assms by (simp add: push_point_def Let_def history_inv_def)
qed

lemma live_points_update:
  assumes "history_inv h" and "i < mh_count h"
  shows "live_points (h\<lparr>mh_points := (mh_points h)[mh_index h i := p]\<rparr>) = (live_points h)[i := p]"
proof (rule nth_equalityI)
  let ?h = "h\<lparr>mh_points := (mh_points h)[mh_index h i := p]\<rparr>"
  show "length (live_points ?h) = length ((live_points h)[i := p])" by simp
  fix j assume "j < length (live_points ?h)"
  then have j: "j < mh_count h" by simp
  have x: "mh_index ?h j = mh_index h j" by (simp add: mh_index_def)
  have "mh_count h \<le> mh_capacity h" using assms(1) by (simp add: history_inv_def)
  then have "i \<noteq> j \<Longrightarrow> mh_index h i \<noteq> mh_index h j" using mh_index_inj [OF assms(1), of i j] mh_index_inj [OF assms(1), of j i] assms(2) j
    by (metis less_le_trans linorder_neqE_nat)
  then show "live_points ?h ! j = (live_points h)[i := p] ! j"
    using x j assms mh_index_less [OF assms(1), of i] by (cases "i = j") (simp_all add: live_points_nth history_inv_def)
qed

section \<open>One point for each second\<close>

lemma abs_diff_exact:
  assumes "unat t \<le> unat now" and "unat now - unat t < 2 ^ 31"
  shows "abs_diff now t = Some (int (unat now - unat t))"
proof -
  have le: "t \<le> now" using assms(1) by (simp add: word_le_nat_alt)
  let ?n = "unat now - unat t"
  have "(ucast (now - t) :: 32 word) = of_nat ?n" using unat_sub [OF le] by (metis of_nat_unat)
  moreover have "sint (of_nat ?n :: 32 word) = int ?n"
    using assms(2) by (simp add: signed_of_nat signed_take_bit_int_eq_self_iff)
  ultimately show ?thesis using assms(2) by (simp add: abs_diff_def)
qed

text \<open>Points in the order of time, at least a second apart, none later than \<open>now\<close> and none older than \<open>2^31\<close> milliseconds.\<close>

definition spaced :: "64 word list \<Rightarrow> bool" where
  "spaced ts \<longleftrightarrow> (\<forall>i. Suc i < length ts \<longrightarrow> unat (ts ! i) + 1000 \<le> unat (ts ! Suc i))"

lemma spaced_le: "spaced ts \<Longrightarrow> i < j \<Longrightarrow> j < length ts \<Longrightarrow> unat (ts ! i) + 1000 \<le> unat (ts ! j)"
proof (induction j)
  case (Suc j)
  show ?case
  proof (cases "i = j")
    case False
    then have "unat (ts ! i) + 1000 \<le> unat (ts ! j)" using Suc by simp
    moreover have "unat (ts ! j) + 1000 \<le> unat (ts ! Suc j)" using Suc by (simp add: spaced_def)
    ultimately show ?thesis by simp
  qed (use Suc in \<open>simp add: spaced_def\<close>)
qed simp

lemma spaced_append: "spaced ts \<Longrightarrow> (\<forall>t \<in> set ts. unat t + 1000 \<le> unat now) \<Longrightarrow> spaced (ts @ [now])"
  by (auto simp: spaced_def nth_append less_Suc_eq)

lemma spaced_drop: "spaced ts \<Longrightarrow> spaced (drop n ts)"
  by (auto simp: spaced_def)

text \<open>With a clock that does not run backwards only the newest point can be within a second.\<close>

lemma find_point_spaced:
  assumes "spaced ts" and "\<forall>t \<in> set ts. unat t \<le> unat now \<and> unat now - unat t < 2 ^ 31"
  shows "find_point now ts = Done (if ts \<noteq> [] \<and> unat now < unat (last ts) + 1000 then Some (length ts - 1) else None)"
  using assms
proof (induction ts)
  case (Cons t ts)
  obtain n where n: "n = unat now - unat t" and d: "abs_diff now t = Some (int n)" using abs_diff_exact [of t now] Cons.prems(2) by auto
  have s: "spaced ts" using spaced_drop [OF Cons.prems(1), of 1] by simp
  have "n + unat t = unat now" using n Cons.prems(2) by auto
  then have lt: "int n < 1000 \<longleftrightarrow> unat now < unat t + 1000" by linarith
  show ?case
  proof (cases "ts = []")
    case True
    then show ?thesis using d lt by simp
  next
    case False
    then have "unat t + 1000 \<le> unat (last ts)" using spaced_le [OF Cons.prems(1), of 0 "length ts"] by (simp add: last_conv_nth)
    moreover have "unat (last ts) \<le> unat now" using Cons.prems(2) False by simp
    ultimately have "\<not> int n < 1000" using lt by simp
    then show ?thesis using d Cons.IH [OF s] Cons.prems(2) False by auto
  qed
qed simp

fun history_run :: "(rat \<Rightarrow> dbl) \<Rightarrow> (64 word \<times> dbl) list \<Rightarrow> metric_history \<Rightarrow> metric_history outcome" where
  "history_run rnd [] h = Done h"
| "history_run rnd ((now, v) # us) h = obind (history_update rnd now v h) (history_run rnd us)"

text \<open>What the history has after \<open>k\<close> samples, the last one \<open>v\<close> at \<open>now\<close>.\<close>

definition sampled :: "nat \<Rightarrow> 64 word \<Rightarrow> dbl \<Rightarrow> metric_history \<Rightarrow> bool" where
  "sampled k now v h \<longleftrightarrow> history_inv h \<and> mh_capacity h = MONITORING_HISTORY_SIZE \<and> spaced (map pt_timestamp (live_points h)) \<and>
     (\<forall>p \<in> set (live_points h). unat (pt_timestamp p) \<le> unat now \<and> unat (pt_sample_count p) \<le> k) \<and> live_points h \<noteq> [] \<and>
     unat now < unat (pt_timestamp (last (live_points h))) + 1000 \<and> pt_value (last (live_points h)) = v \<and>
     pt_min_value (last (live_points h)) \<le> v \<and> v \<le> pt_max_value (last (live_points h))"

lemma update_sampled:
  assumes "sampled k now v h" and "unat now \<le> unat now'" and "\<forall>p \<in> set (live_points h). unat now' - unat (pt_timestamp p) < 2 ^ 31" and "k + 1 < 2 ^ 32"
  shows "\<exists>h'. history_update rnd now' v' h = Done h' \<and> sampled (k + 1) now' v' h' \<and> set (map pt_timestamp (live_points h')) \<subseteq> insert now' (set (map pt_timestamp (live_points h)))"
proof -
  let ?ts = "map pt_timestamp (live_points h)"
  note s = assms(1) [unfolded sampled_def]
  have inv: "history_inv h" and ne: "live_points h \<noteq> []" using s by auto
  have f: "find_point now' ?ts = Done (if unat now' < unat (last ?ts) + 1000 then Some (length ?ts - 1) else None)"
    using find_point_spaced [of ?ts now'] s assms(2,3) by force
  have l: "last ?ts = pt_timestamp (last (live_points h))" using ne by (simp add: last_map)
  show ?thesis
  proof (cases "unat now' < unat (last ?ts) + 1000")
    case True
    let ?i = "mh_count h - 1" and ?p = "last (live_points h)"
    have i: "?i < mh_count h" using ne by (simp add: live_points_def)
    have p: "mh_points h ! mh_index h ?i = ?p" using live_points_nth [OF i] ne by (simp add: last_conv_nth)
    have n: "unat (pt_sample_count ?p) + 1 < 2 ^ 32" using s ne assms(4) by (metis add_le_mono1 last_in_set le_less_trans)
    then have nz: "pt_sample_count ?p + 1 \<noteq> 0" and un: "unat (pt_sample_count ?p + 1) = unat (pt_sample_count ?p) + 1"
      using unat_add_32 [of "pt_sample_count ?p" 1] by auto
    obtain q where q: "merge_point rnd v' ?p = Some q" "pt_timestamp q = pt_timestamp ?p" "pt_value q = v'" "pt_min_value q \<le> v'" "v' \<le> pt_max_value q"
      "pt_sample_count q = pt_sample_count ?p + 1" using nz by (simp add: merge_point_def Let_def)
    let ?h = "h\<lparr>mh_points := (mh_points h)[mh_index h ?i := q]\<rparr>"
    have lp: "live_points ?h = butlast (live_points h) @ [q]"
      using live_points_update [OF inv i, of q] list_update_length [of "butlast (live_points h)" ?p "[]" q] ne by simp
    have old: "live_points h = butlast (live_points h) @ [?p]" using ne by simp
    have ts: "map pt_timestamp (live_points ?h) = ?ts" unfolding lp by (subst (2) old) (simp add: q)
    have "history_update rnd now' v' h = Done ?h" using f True p q(1) i by (simp add: history_update_def)
    moreover have "sampled (k + 1) now' v' ?h"
    proof -
      have "unat (pt_timestamp x) \<le> unat now' \<and> unat (pt_sample_count x) \<le> k + 1" if "x \<in> set (live_points ?h)" for x
      proof (cases "x = q")
        case True
        have "unat (pt_timestamp ?p) \<le> unat now \<and> unat (pt_sample_count ?p) \<le> k" using s ne by simp
        with True q(2,6) un assms(2) show ?thesis by simp
      next
        case False
        with that have "x \<in> set (live_points h)" unfolding lp by (auto dest: in_set_butlastD)
        with s assms(2) show ?thesis by fastforce
      qed
      moreover have "history_inv ?h" using inv by (simp add: history_inv_def)
      moreover have "spaced (map pt_timestamp (live_points ?h))" unfolding ts using s by simp
      ultimately show ?thesis using s True q l unfolding sampled_def lp by simp
    qed
    ultimately show ?thesis using ts by (intro exI [of _ ?h]) auto
  next
    case False
    let ?h = "push_point (new_point now' v') h"
    note pp = push_point_correct [OF inv, of "new_point now' v'"]
    have lp: "live_points ?h = drop (length (live_points h) + 1 - mh_capacity h) (live_points h) @ [new_point now' v']"
      using pp inv by (auto simp: last_n_def history_inv_def)
    have gap: "\<forall>t \<in> set ?ts. unat t + 1000 \<le> unat now'"
    proof
      fix t assume "t \<in> set ?ts"
      then obtain j where j: "j < length ?ts" "t = ?ts ! j" by (auto simp: in_set_conv_nth)
      show "unat t + 1000 \<le> unat now'"
      proof (cases "j = length ?ts - 1")
        case True
        then have "t = last ?ts" using j ne by (simp add: last_conv_nth)
        then show ?thesis using False by simp
      next
        case False': False
        then have "unat t + 1000 \<le> unat (last ?ts)" using spaced_le [of ?ts j "length ?ts - 1"] s j ne by (simp add: last_conv_nth)
        then show ?thesis using False by simp
      qed
    qed
    have ts: "map pt_timestamp (live_points ?h) = drop (length (live_points h) + 1 - mh_capacity h) ?ts @ [now']"
      unfolding lp by (simp add: drop_map, simp add: new_point_def)
    have "spaced (map pt_timestamp (live_points ?h))"
    proof -
      have "spaced ?ts" using s by simp
      moreover have "\<forall>t \<in> set (drop (length (live_points h) + 1 - mh_capacity h) ?ts). unat t + 1000 \<le> unat now'" using gap in_set_dropD by fast
      ultimately show ?thesis unfolding ts by (intro spaced_append spaced_drop)
    qed
    moreover have "history_update rnd now' v' h = Done ?h" using f False by (simp add: history_update_def)
    moreover have "unat (pt_timestamp x) \<le> unat now' \<and> unat (pt_sample_count x) \<le> k + 1" if "x \<in> set (live_points ?h)" for x
      using that s assms(2) unfolding lp by (auto simp: new_point_def dest!: in_set_dropD)
    moreover have "set (map pt_timestamp (live_points ?h)) \<subseteq> insert now' (set ?ts)" unfolding ts by (auto dest: in_set_dropD)
    moreover have "last (live_points ?h) = new_point now' v'" "live_points ?h \<noteq> []" unfolding lp by simp_all
    ultimately show ?thesis using pp s by (intro exI [of _ ?h]) (simp add: sampled_def, simp add: new_point_def)
  qed
qed

lemma first_sampled: "\<exists>h. history_update rnd now v new_history = Done h \<and> sampled 1 now v h \<and> map pt_timestamp (live_points h) = [now]"
proof -
  let ?h = "push_point (new_point now v) new_history"
  have "live_points ?h = [new_point now v]" "history_inv ?h" "mh_capacity ?h = MONITORING_HISTORY_SIZE"
    using push_point_correct [OF new_history_inv(1), of "new_point now v"] new_history_inv(2)
    by (auto simp: last_n_def new_history_def MONITORING_HISTORY_SIZE_def)
  then show ?thesis by (intro exI [of _ ?h]) (simp add: history_update_def new_history_inv(2) sampled_def spaced_def new_point_def)
qed

lemma run_sampled:
  assumes "sampled k now v h" and "sorted_wrt (\<lambda>a b. unat (fst a) \<le> unat (fst b)) ((now, v) # us)"
    and "\<forall>t \<in> set (map pt_timestamp (live_points h)) \<union> set (map fst us). T \<le> unat t \<and> unat t < T + 2 ^ 31" and "k + length us < 2 ^ 32"
  shows "\<exists>h'. history_run rnd us h = Done h' \<and> sampled (k + length us) (fst (last ((now, v) # us))) (snd (last ((now, v) # us))) h'"
  using assms
proof (induction us arbitrary: k now v h)
  case (Cons u us)
  obtain now' v' where u: "u = (now', v')" by (metis surj_pair)
  have "unat now' - unat (pt_timestamp p) < 2 ^ 31" if "p \<in> set (live_points h)" for p
  proof -
    have "T \<le> unat (pt_timestamp p)" "unat now' < T + 2 ^ 31" using Cons.prems(3) that u by auto
    then show ?thesis by simp
  qed
  moreover have "unat now \<le> unat now'" "k + 1 < 2 ^ 32" using Cons.prems(2,4) u by auto
  ultimately obtain h1 where h1: "history_update rnd now' v' h = Done h1" "sampled (k + 1) now' v' h1"
    "set (map pt_timestamp (live_points h1)) \<subseteq> insert now' (set (map pt_timestamp (live_points h)))"
    using update_sampled [OF Cons.prems(1)] by blast
  have "\<forall>t \<in> set (map pt_timestamp (live_points h1)) \<union> set (map fst us). T \<le> unat t \<and> unat t < T + 2 ^ 31"
    using Cons.prems(3) h1(3) u by auto
  then show ?case using Cons.IH [OF h1(2)] Cons.prems(2,4) h1(1) u by auto
qed simp

text \<open>(C36) The history of a metric after any sequence of samples from a clock that does not run backwards, within less than \<open>2^31\<close> milliseconds: at most
  3600 points in the order of time, at least a second apart, and the newest one is that of the last sample, with its value between its minimum and
  its maximum, however doubles are rounded.\<close>

theorem history_one_point_per_second:
  assumes "us \<noteq> []" and "sorted_wrt (\<lambda>a b. unat (fst a) \<le> unat (fst b)) us" and "\<forall>t \<in> set (map fst us). T \<le> unat t \<and> unat t < T + 2 ^ 31"
    and "length us < 2 ^ 32"
  shows "\<exists>h. history_run rnd us new_history = Done h \<and> mh_count h \<le> 3600 \<and>
    (\<forall>i. Suc i < mh_count h \<longrightarrow> unat (pt_timestamp (live_points h ! i)) + 1000 \<le> unat (pt_timestamp (live_points h ! Suc i))) \<and>
    (let p = last (live_points h) in unat (fst (last us)) < unat (pt_timestamp p) + 1000 \<and> pt_value p = snd (last us) \<and> pt_min_value p \<le> pt_value p \<and>
       pt_value p \<le> pt_max_value p)"
proof -
  obtain now v vs where us: "us = (now, v) # vs" using assms(1) by (metis neq_Nil_conv surj_pair)
  obtain h1 where h1: "history_update rnd now v new_history = Done h1" "sampled 1 now v h1" "map pt_timestamp (live_points h1) = [now]"
    using first_sampled [of rnd now v] by (elim exE conjE) (rule that)
  have r: "\<forall>t \<in> set (map pt_timestamp (live_points h1)) \<union> set (map fst vs). T \<le> unat t \<and> unat t < T + 2 ^ 31" unfolding h1(3) using assms(3) us by simp
  have n: "1 + length vs < 2 ^ 32" using assms(4) us by simp
  obtain h where h: "history_run rnd vs h1 = Done h" "sampled (1 + length vs) (fst (last us)) (snd (last us)) h"
    using run_sampled [OF h1(2) assms(2) [unfolded us] r n, of rnd, folded us] by (elim exE conjE) (rule that)
  have "mh_count h \<le> 3600" using h(2) by (simp add: sampled_def history_inv_def MONITORING_HISTORY_SIZE_def)
  moreover have "history_run rnd us new_history = Done h" using h(1) h1(1) us by simp
  moreover have "\<forall>i. Suc i < mh_count h \<longrightarrow> unat (pt_timestamp (live_points h ! i)) + 1000 \<le> unat (pt_timestamp (live_points h ! Suc i))"
    using h(2) unfolding sampled_def spaced_def by simp
  ultimately show ?thesis using h(2) unfolding sampled_def Let_def by (intro exI [of _ h]) simp
qed

theorem history_one_point_per_second_witness:
  "\<exists>h. history_run id [(1000, 2), (1500, 4), (9000, 3)] new_history = Done h \<and> mh_count h \<le> 3600 \<and> pt_value (last (live_points h)) = 3"
  using history_one_point_per_second [of "[(1000, 2), (1500, 4), (9000, 3)]" 0 id] by (auto simp: Let_def)

end
