(* ===== verification/Monitor_Alerts.thy ===== *)
theory Monitor_Alerts
  imports Monitor_Metrics
begin

text \<open>
  Alerts of the monitoring component: the store of alerts with its cooldown, the thresholds that raise them, and the messages that go to the browsers.
  \<open>jansson\<close> is not part of the sources: a document is a value of \<open>json\<close> and \<open>json_dumps\<close> an argument. Callbacks and sent texts are recorded as events.
  The data and the alerts have one mutex each; \<open>held\<close> says that the calling thread holds that of the alerts already.
\<close>

section \<open>State\<close>

datatype alert_level = ALERT_LEVEL_INFO | ALERT_LEVEL_WARNING | ALERT_LEVEL_ERROR | ALERT_LEVEL_CRITICAL | ALERT_LEVEL_EMERGENCY

datatype alert_status = ALERT_STATUS_ACTIVE | ALERT_STATUS_ACKNOWLEDGED | ALERT_STATUS_RESOLVED | ALERT_STATUS_SILENCED

fun level_number :: "alert_level \<Rightarrow> int" where
  "level_number ALERT_LEVEL_INFO = 0"
| "level_number ALERT_LEVEL_WARNING = 1"
| "level_number ALERT_LEVEL_ERROR = 2"
| "level_number ALERT_LEVEL_CRITICAL = 3"
| "level_number ALERT_LEVEL_EMERGENCY = 4"

fun status_number :: "alert_status \<Rightarrow> int" where
  "status_number ALERT_STATUS_ACTIVE = 0"
| "status_number ALERT_STATUS_ACKNOWLEDGED = 1"
| "status_number ALERT_STATUS_RESOLVED = 2"
| "status_number ALERT_STATUS_SILENCED = 3"

fun alert_level_to_string :: "alert_level \<Rightarrow> string" where
  "alert_level_to_string ALERT_LEVEL_INFO = ''INFO''"
| "alert_level_to_string ALERT_LEVEL_WARNING = ''WARNING''"
| "alert_level_to_string ALERT_LEVEL_ERROR = ''ERROR''"
| "alert_level_to_string ALERT_LEVEL_CRITICAL = ''CRITICAL''"
| "alert_level_to_string ALERT_LEVEL_EMERGENCY = ''EMERGENCY''"

fun alert_status_to_string :: "alert_status \<Rightarrow> string" where
  "alert_status_to_string ALERT_STATUS_ACTIVE = ''ACTIVE''"
| "alert_status_to_string ALERT_STATUS_ACKNOWLEDGED = ''ACKNOWLEDGED''"
| "alert_status_to_string ALERT_STATUS_RESOLVED = ''RESOLVED''"
| "alert_status_to_string ALERT_STATUS_SILENCED = ''SILENCED''"

record alert =
  al_id :: "64 word"
  al_level :: alert_level
  al_status :: alert_status
  al_metric_type :: nat
  al_title :: string
  al_message :: string
  al_source :: string
  al_threshold :: dbl
  al_actual_value :: dbl
  al_trigger_time :: "64 word"
  al_acknowledge_time :: "64 word"
  al_resolve_time :: "64 word"
  al_acknowledge_by :: string
  al_resolve_by :: string

record monitor_config =
  mc_collection_interval_ms :: "32 word"
  mc_history_retention_seconds :: "32 word"
  mc_enable_system_monitoring :: bool
  mc_enable_network_monitoring :: bool
  mc_enable_performance_monitoring :: bool
  mc_enable_business_monitoring :: bool
  mc_enable_alerting :: bool
  mc_alert_email :: string
  mc_alert_webhook :: string
  mc_warning_threshold_percent :: dbl
  mc_error_threshold_percent :: dbl
  mc_alert_cooldown_seconds :: "32 word"
  mc_enable_logging :: bool
  mc_log_file_path :: string

text \<open>The memory, the load and the network of the machine.\<close>

record system_resources =
  sr_cpu_usage :: dbl
  sr_memory :: "dbl \<times> 64 word \<times> 64 word \<times> 64 word \<times> 64 word"
  sr_disk :: "dbl \<times> 64 word \<times> 64 word \<times> 64 word"
  sr_network :: "64 word \<times> 64 word \<times> dbl \<times> dbl"
  sr_counts :: "32 word \<times> 32 word \<times> 32 word"
  sr_uptime :: "64 word"

text \<open>The members that a snapshot of the collection thread leaves unset are \<open>None\<close>.\<close>

record monitor_snapshot =
  sn_timestamp :: "64 word"
  sn_resources :: "system_resources option"
  sn_alert_count :: "nat option"
  sn_highest_alert :: "alert_level option"

datatype mon_event = Alert_Callback nat nat alert | Metric_Callback nat nat nat dbl | Health_Callback nat nat bool string | Ws_Broadcast string

text \<open>\<open>mm_threads\<close>: whether the collection thread and the alert thread have been created. The log file with its entries; a closed one must not be written.\<close>

datatype log_state = No_Log | Log_Open "(int \<times> string \<times> string) list" | Log_Closed "(int \<times> string \<times> string) list"

record monitoring_manager =
  mm_config :: monitor_config
  mm_running :: bool
  mm_shutdown_requested :: bool
  mm_metrics :: "metric list"
  mm_history :: "metric_history option list"
  mm_alerts :: "alert list"
  mm_next_alert_id :: "64 word"
  mm_snapshots :: "monitor_snapshot list"
  mm_snapshot_index :: nat
  mm_callbacks :: "(nat \<times> nat) list \<times> (nat \<times> nat) list \<times> (nat \<times> nat) list"
  mm_events :: "mon_event list"
  mm_total_collections :: "64 word"
  mm_total_alerts_triggered :: "64 word"
  mm_threads :: "bool \<times> bool"
  mm_ws_broadcast :: bool
  mm_log_file :: log_state

text \<open>The static variables of the file.\<close>

record mon_static =
  st_last_alert_time :: "64 word list"
  st_last_total :: "64 word"
  st_last_idle :: "64 word"
  st_last_snapshot_time :: "64 word"
  st_last_health_check :: "64 word"

text \<open>The clock, read once or more in a call; the seconds for the log; the host name; the rounding of doubles and \<open>json_dumps\<close>.\<close>

datatype json = J_Int int | J_Real dbl | J_String string | J_Object "(string \<times> json) list"

record mon_env =
  me_clock :: "nat \<Rightarrow> 64 word"
  me_seconds :: int
  me_hostname :: string
  me_rnd :: "rat \<Rightarrow> dbl"
  me_dumps :: "json \<Rightarrow> string option"

definition MONITORING_MAX_ALERTS :: nat where "MONITORING_MAX_ALERTS = 1000"

definition monitoring_get_default_config :: monitor_config where
  "monitoring_get_default_config =
     \<lparr>mc_collection_interval_ms = 1000, mc_history_retention_seconds = 3600, mc_enable_system_monitoring = True, mc_enable_network_monitoring = True,
      mc_enable_performance_monitoring = True, mc_enable_business_monitoring = True, mc_enable_alerting = True, mc_alert_email = [], mc_alert_webhook = [],
      mc_warning_threshold_percent = 80, mc_error_threshold_percent = 90, mc_alert_cooldown_seconds = 300, mc_enable_logging = True,
      mc_log_file_path = ''/var/log/secure_chat_monitoring.log''\<rparr>"

section \<open>Log, formats and callbacks\<close>

definition write_log_entry :: "mon_env \<Rightarrow> string \<Rightarrow> string \<Rightarrow> monitoring_manager \<Rightarrow> monitoring_manager outcome" where
  "write_log_entry e level message m =
     (if \<not> mc_enable_logging (mm_config m) then Done m
      else case mm_log_file m of
        No_Log \<Rightarrow> Done m
      | Log_Open es \<Rightarrow> Done (m\<lparr>mm_log_file := Log_Open (es @ [(me_seconds e, level, message)])\<rparr>)
      | Log_Closed es \<Rightarrow> Undefined_Behaviour)"

definition trigger_alert_callbacks :: "alert \<Rightarrow> monitoring_manager \<Rightarrow> monitoring_manager" where
  "trigger_alert_callbacks a m = m\<lparr>mm_events := mm_events m @ map (\<lambda>(f, u). Alert_Callback f u a) (fst (mm_callbacks m))\<rparr>"

definition trigger_metric_callbacks :: "nat \<Rightarrow> dbl \<Rightarrow> monitoring_manager \<Rightarrow> monitoring_manager" where
  "trigger_metric_callbacks type v m = m\<lparr>mm_events := mm_events m @ map (\<lambda>(f, u). Metric_Callback f u type v) (fst (snd (mm_callbacks m)))\<rparr>"

definition trigger_health_callbacks :: "bool \<Rightarrow> string \<Rightarrow> monitoring_manager \<Rightarrow> monitoring_manager" where
  "trigger_health_callbacks healthy msg m = m\<lparr>mm_events := mm_events m @ map (\<lambda>(f, u). Health_Callback f u healthy msg) (snd (snd (mm_callbacks m)))\<rparr>"

section \<open>Messages for the browsers\<close>

definition alert_json :: "64 word \<Rightarrow> alert \<Rightarrow> json" where
  "alert_json now a =
     J_Object [(''type'', J_Int 2), (''timestamp'', J_Int (sint now)),
       (''alert'', J_Object
         [(''id'', J_Int (sint (al_id a))), (''level'', J_Int (level_number (al_level a))), (''status'', J_Int (status_number (al_status a))),
          (''metric_type'', J_Int (int (al_metric_type a))), (''title'', J_String (al_title a)), (''message'', J_String (al_message a)),
          (''source'', J_String (al_source a)), (''threshold'', J_Real (al_threshold a)), (''actual_value'', J_Real (al_actual_value a)),
          (''trigger_time'', J_Int (sint (al_trigger_time a))), (''acknowledge_time'', J_Int (sint (al_acknowledge_time a))),
          (''resolve_time'', J_Int (sint (al_resolve_time a))), (''acknowledged_by'', J_String (al_acknowledge_by a)),
          (''resolve_by'', J_String (al_resolve_by a))])]"

definition ws_broadcast :: "mon_env \<Rightarrow> json \<Rightarrow> monitoring_manager \<Rightarrow> int \<times> monitoring_manager" where
  "ws_broadcast e doc m =
     (case me_dumps e doc of None \<Rightarrow> (-1, m) | Some t \<Rightarrow> (0, m\<lparr>mm_events := mm_events m @ [Ws_Broadcast t]\<rparr>))"

definition monitoring_ws_send_alert :: "mon_env \<Rightarrow> 64 word \<Rightarrow> alert option \<Rightarrow> monitoring_manager \<Rightarrow> int \<times> monitoring_manager" where
  "monitoring_ws_send_alert e now a m =
     (case a of None \<Rightarrow> (-1, m)
      | Some x \<Rightarrow> if \<not> mm_ws_broadcast m then (-1, m) else ws_broadcast e (alert_json now x) m)"

definition metric_json :: "64 word \<Rightarrow> nat \<Rightarrow> dbl \<Rightarrow> metric option \<Rightarrow> json" where
  "metric_json now type v metric =
     J_Object ([(''type'', J_Int 6), (''timestamp'', J_Int (sint now)), (''metric_type'', J_Int (int type)), (''value'', J_Real v),
       (''metric_name'', J_String (metric_type_to_string type))] @
       (case metric of None \<Rightarrow> []
        | Some mt \<Rightarrow> [(''unit'', J_String (mt_unit mt)), (''warning_threshold'', J_Real (mt_warning_threshold mt)),
                     (''error_threshold'', J_Real (mt_error_threshold mt))]))"

definition monitoring_get_metric :: "monitoring_manager option \<Rightarrow> nat \<Rightarrow> int \<times> metric option" where
  "monitoring_get_metric manager type =
     (case manager of None \<Rightarrow> (-1, None)
      | Some m \<Rightarrow> if type \<ge> MONITORING_MAX_METRICS then (-1, None) else (0, Some (mm_metrics m ! type)))"

definition monitoring_ws_send_metric_update :: "mon_env \<Rightarrow> 64 word \<Rightarrow> nat \<Rightarrow> dbl \<Rightarrow> monitoring_manager \<Rightarrow> int \<times> monitoring_manager" where
  "monitoring_ws_send_metric_update e now type v m =
     (if \<not> mm_ws_broadcast m then (-1, m)
      else ws_broadcast e (metric_json now type v (snd (monitoring_get_metric (Some m) type))) m)"

section \<open>The store of alerts\<close>

definition store_alert :: "alert \<Rightarrow> alert list \<Rightarrow> alert list" where
  "store_alert a as = (if length as \<ge> MONITORING_MAX_ALERTS then tl as else as) @ [a]"

definition new_alert :: "64 word \<Rightarrow> 64 word \<Rightarrow> alert_level \<Rightarrow> nat \<Rightarrow> string \<Rightarrow> string \<Rightarrow> string \<Rightarrow> dbl \<Rightarrow> dbl \<Rightarrow> alert" where
  "new_alert i now level type title message source threshold actual =
     \<lparr>al_id = i, al_level = level, al_status = ALERT_STATUS_ACTIVE, al_metric_type = type, al_title = take 127 title, al_message = take 511 message,
      al_source = take 63 source, al_threshold = threshold, al_actual_value = actual, al_trigger_time = now, al_acknowledge_time = 0, al_resolve_time = 0,
      al_acknowledge_by = [], al_resolve_by = []\<rparr>"

text \<open>The product \<open>alert_cooldown_seconds * 1000\<close> is computed in 32 bits.\<close>

definition cooling_down :: "monitor_config \<Rightarrow> 64 word \<Rightarrow> 64 word \<Rightarrow> bool" where
  "cooling_down cfg since now \<longleftrightarrow> since > 0 \<and> now - since < ucast (mc_alert_cooldown_seconds cfg * 1000)"

text \<open>After the mutex is released: the log, the callbacks and the browsers.\<close>

definition announce_alert :: "mon_env \<Rightarrow> alert \<Rightarrow> string \<Rightarrow> monitoring_manager \<Rightarrow> monitoring_manager outcome" where
  "announce_alert e a title m =
     (let text = snprintf 512 (''Alert triggered: '' @ title @ '' (Level: '' @ alert_level_to_string (al_level a) @ '', Value: '' @ fmt2 (al_actual_value a) @ '')'') in
      obind (write_log_entry e (alert_level_to_string (al_level a)) text m) (\<lambda>m1.
        let m2 = trigger_alert_callbacks a m1 in
        Done (if mm_ws_broadcast m2 then snd (monitoring_ws_send_alert e (me_clock e 1) (Some a) m2) else m2)))"

definition monitoring_add_alert :: "mon_env \<Rightarrow> bool \<Rightarrow> alert_level \<Rightarrow> nat \<Rightarrow> string option \<Rightarrow> string option \<Rightarrow> string option \<Rightarrow> dbl \<Rightarrow> dbl \<Rightarrow>
    monitoring_manager option \<Rightarrow> mon_static \<Rightarrow> (int \<times> monitoring_manager option \<times> mon_static) outcome" where
  "monitoring_add_alert e held level type title message source threshold actual manager st =
     (case (manager, title, message, source) of
        (Some m, Some ti, Some ms, Some so) \<Rightarrow>
          if held then Deadlock
          else if type \<ge> length (st_last_alert_time st) then Undefined_Behaviour
          else
            let now = me_clock e 0 in
            if cooling_down (mm_config m) (st_last_alert_time st ! type) now then Done (-2, manager, st)
            else
              let a = new_alert (mm_next_alert_id m) now level type ti ms so threshold actual;
                  m1 = m\<lparr>mm_alerts := store_alert a (mm_alerts m), mm_next_alert_id := mm_next_alert_id m + 1,
                         mm_total_alerts_triggered := mm_total_alerts_triggered m + 1\<rparr>;
                  st1 = st\<lparr>st_last_alert_time := (st_last_alert_time st)[type := now]\<rparr>
              in obind (announce_alert e a ti m1) (\<lambda>m2. Done (0, Some m2, st1))
      | _ \<Rightarrow> Done (-1, manager, st))"

text \<open>\<open>None\<close> as the filter is \<open>(uint32_t)-1\<close>: all alerts. \<open>ok\<close>: the copy can be allocated.\<close>

definition monitoring_get_alerts :: "bool \<Rightarrow> monitoring_manager option \<Rightarrow> bool \<Rightarrow> alert_status option \<Rightarrow> int \<times> alert list option" where
  "monitoring_get_alerts ok manager out flt =
     (case manager of None \<Rightarrow> (-1, None)
      | Some m \<Rightarrow>
          if \<not> out then (-1, None)
          else let found = filter (\<lambda>a. flt = None \<or> flt = Some (al_status a)) (mm_alerts m) in
               if found = [] then (0, None) else if \<not> ok then (-1, None) else (0, Some found))"

text \<open>The first alert with this number is changed and a line logged.\<close>

definition change_alert :: "mon_env \<Rightarrow> 64 word \<Rightarrow> (alert \<Rightarrow> alert) \<Rightarrow> string \<Rightarrow> monitoring_manager \<Rightarrow> (int \<times> monitoring_manager) outcome" where
  "change_alert e i f text m =
     (case first_index (\<lambda>a. al_id a = i) (mm_alerts m) of
        None \<Rightarrow> Done (-1, m)
      | Some k \<Rightarrow>
          obind (write_log_entry e ''INFO'' (snprintf 256 text) (m\<lparr>mm_alerts := (mm_alerts m)[k := f (mm_alerts m ! k)]\<rparr>)) (\<lambda>m1. Done (0, m1)))"

definition monitoring_acknowledge_alert :: "mon_env \<Rightarrow> 64 word \<Rightarrow> string option \<Rightarrow> monitoring_manager \<Rightarrow> (int \<times> monitoring_manager) outcome" where
  "monitoring_acknowledge_alert e i by_whom m =
     (case by_whom of None \<Rightarrow> Done (-1, m)
      | Some who \<Rightarrow>
          change_alert e i
            (\<lambda>a. a\<lparr>al_status := ALERT_STATUS_ACKNOWLEDGED, al_acknowledge_time := me_clock e 0, al_acknowledge_by := take 63 who\<rparr>)
            (''Alert '' @ dec_nat (unat i) @ '' acknowledged by '' @ who) m)"

definition monitoring_resolve_alert :: "mon_env \<Rightarrow> 64 word \<Rightarrow> string option \<Rightarrow> monitoring_manager \<Rightarrow> (int \<times> monitoring_manager) outcome" where
  "monitoring_resolve_alert e i by_whom m =
     (case by_whom of None \<Rightarrow> Done (-1, m)
      | Some who \<Rightarrow>
          change_alert e i
            (\<lambda>a. a\<lparr>al_status := ALERT_STATUS_RESOLVED, al_resolve_time := me_clock e 0, al_resolve_by := take 63 who\<rparr>)
            (''Alert '' @ dec_nat (unat i) @ '' resolved by '' @ who) m)"

definition monitoring_silence_alert :: "mon_env \<Rightarrow> 64 word \<Rightarrow> 32 word \<Rightarrow> monitoring_manager \<Rightarrow> (int \<times> monitoring_manager) outcome" where
  "monitoring_silence_alert e i duration m =
     change_alert e i (\<lambda>a. a\<lparr>al_status := ALERT_STATUS_SILENCED\<rparr>)
       (''Alert '' @ dec_nat (unat i) @ '' silenced for '' @ dec_nat (unat duration) @ '' seconds'') m"

section \<open>Thresholds\<close>

definition value_text :: "metric \<Rightarrow> dbl \<Rightarrow> string" where
  "value_text mt v = mt_description mt @ utf8 [229, 189, 147, 229, 137, 141, 229, 128, 188] @ '': '' @ fmt2 v @ mt_unit mt"

text \<open>The level, the title and the message of the alert that a value deserves. Metric 10 is the error rate.\<close>

definition verdict :: "metric \<Rightarrow> nat \<Rightarrow> dbl \<Rightarrow> (alert_level \<times> string \<times> string) option" where
  "verdict mt type v =
     (if mt_error_threshold mt > 0 \<and> v \<ge> mt_error_threshold mt then
        Some (ALERT_LEVEL_ERROR, snprintf 128 (mt_name mt @ utf8 [232, 182, 133, 232, 191, 135, 233, 148, 153, 232, 175, 175, 233, 152, 136, 229, 128, 188]),
          snprintf 512 (value_text mt v @ '', '' @ utf8 [233, 148, 153, 232, 175, 175, 233, 152, 136, 229, 128, 188] @ '': '' @ fmt2 (mt_error_threshold mt) @ mt_unit mt))
      else if mt_warning_threshold mt > 0 \<and> v \<ge> mt_warning_threshold mt then
        Some (ALERT_LEVEL_WARNING, snprintf 128 (mt_name mt @ utf8 [232, 182, 133, 232, 191, 135, 232, 173, 166, 229, 145, 138, 233, 152, 136, 229, 128, 188]),
          snprintf 512 (value_text mt v @ '', '' @ utf8 [232, 173, 166, 229, 145, 138, 233, 152, 136, 229, 128, 188] @ '': '' @ fmt2 (mt_warning_threshold mt) @ mt_unit mt))
      else if v \<le> 0 \<and> type \<noteq> 10 then
        Some (ALERT_LEVEL_WARNING, snprintf 128 (mt_name mt @ utf8 [229, 188, 130, 229, 184, 184, 228, 189, 142]),
          snprintf 512 (value_text mt v @ '', '' @ utf8 [233, 162, 132, 230, 156, 159, 230, 173, 163, 229, 184, 184, 232, 140, 131, 229, 155, 180]))
      else None)"

text \<open>The search and the new alert are under the mutex of the alerts, which \<open>monitoring_add_alert\<close> locks again.\<close>

definition check_metric_thresholds :: "mon_env \<Rightarrow> nat \<Rightarrow> dbl \<Rightarrow> monitoring_manager \<Rightarrow> mon_static \<Rightarrow> (monitoring_manager \<times> mon_static) outcome" where
  "check_metric_thresholds e type v m st =
     (if \<not> mc_enable_alerting (mm_config m) then Done (m, st)
      else if type \<ge> length (mm_metrics m) then Undefined_Behaviour
      else
        let mt = mm_metrics m ! type in
        case verdict mt type v of
          None \<Rightarrow> Done (m, st)
        | Some (level, title, message) \<Rightarrow>
            (case first_index (\<lambda>a. al_metric_type a = type \<and> al_status a = ALERT_STATUS_ACTIVE \<and> al_level a = level) (mm_alerts m) of
               Some k \<Rightarrow>
                 Done (m\<lparr>mm_alerts := (mm_alerts m)[k := (mm_alerts m ! k)\<lparr>al_actual_value := v, al_trigger_time := me_clock e 0\<rparr>]\<rparr>, st)
             | None \<Rightarrow>
                 obind (monitoring_add_alert e True level type (Some title) (Some message) (Some (me_hostname e))
                          (if level = ALERT_LEVEL_ERROR then mt_error_threshold mt else mt_warning_threshold mt) v (Some m) st)
                   (\<lambda>(_, m', st'). Done (the m', st'))))"

section \<open>Metrics of a manager\<close>

definition update_metric_history :: "mon_env \<Rightarrow> nat \<Rightarrow> dbl \<Rightarrow> monitoring_manager \<Rightarrow> (int \<times> monitoring_manager) outcome" where
  "update_metric_history e type v m =
     (if type \<ge> MONITORING_MAX_METRICS then Done (-1, m)
      else case mm_history m ! type of
        None \<Rightarrow> Done (-1, m)
      | Some h \<Rightarrow>
          obind (history_update (me_rnd e) (me_clock e 0) v h) (\<lambda>h'.
            Done (0, m\<lparr>mm_history := (mm_history m)[type := Some h'],
                       mm_metrics := (mm_metrics m)[type := metric_update (me_rnd e) (me_clock e 0) v (mm_metrics m ! type)]\<rparr>)))"

definition monitoring_update_metric :: "mon_env \<Rightarrow> nat \<Rightarrow> dbl \<Rightarrow> monitoring_manager option \<Rightarrow> mon_static \<Rightarrow> (int \<times> monitoring_manager option \<times> mon_static) outcome" where
  "monitoring_update_metric e type v manager st =
     (case manager of None \<Rightarrow> Done (-1, None, st)
      | Some m \<Rightarrow>
          if type \<ge> MONITORING_MAX_METRICS then Done (-1, manager, st)
          else obind (update_metric_history e type v m) (\<lambda>(res, m1).
            if res \<noteq> 0 then Done (res, Some m1, st)
            else obind (check_metric_thresholds e type v m1 st) (\<lambda>(m2, st2).
              Done (res, Some (if mm_ws_broadcast m2 then snd (monitoring_ws_send_metric_update e (me_clock e 1) type v m2) else m2), st2))))"

definition monitoring_set_threshold :: "mon_env \<Rightarrow> nat \<Rightarrow> dbl \<Rightarrow> dbl \<Rightarrow> monitoring_manager option \<Rightarrow> (int \<times> monitoring_manager option) outcome" where
  "monitoring_set_threshold e type warning error manager =
     (case manager of None \<Rightarrow> Done (-1, None)
      | Some m \<Rightarrow>
          if type \<ge> MONITORING_MAX_METRICS then Done (-1, manager)
          else
            let m1 = m\<lparr>mm_metrics := (mm_metrics m)[type := (mm_metrics m ! type)\<lparr>mt_warning_threshold := warning, mt_error_threshold := error\<rparr>]\<rparr>;
                m2 = (if type < 3 then m1\<lparr>mm_config := (mm_config m1)\<lparr>mc_warning_threshold_percent := warning, mc_error_threshold_percent := error\<rparr>\<rparr> else m1)
            in obind (write_log_entry e ''INFO''
                        (snprintf 256 (''Metric '' @ metric_type_to_string type @ '' thresholds set: warning='' @ fmt2 warning @ '', error='' @ fmt2 error)) m2)
                 (\<lambda>m3. Done (0, Some m3)))"

text \<open>The points between two times, in order; \<open>None\<close> for none. \<open>ok\<close>: the copy can be allocated.\<close>

definition monitoring_get_history :: "bool \<Rightarrow> monitoring_manager option \<Rightarrow> nat \<Rightarrow> 64 word \<Rightarrow> 64 word \<Rightarrow> bool \<Rightarrow> int \<times> metric_data_point list option" where
  "monitoring_get_history ok manager type start_time end_time out =
     (case manager of None \<Rightarrow> (-1, None)
      | Some m \<Rightarrow>
          if \<not> out \<or> type \<ge> MONITORING_MAX_METRICS then (-1, None)
          else case mm_history m ! type of
            None \<Rightarrow> (0, None)
          | Some h \<Rightarrow>
              let found = filter (\<lambda>p. pt_timestamp p \<ge> start_time \<and> pt_timestamp p \<le> end_time) (live_points h) in
              if found = [] then (0, None) else if \<not> ok then (-1, None) else (0, Some found))"

section \<open>Order and bounds of the alerts\<close>

definition log_ok :: "monitoring_manager \<Rightarrow> bool" where
  "log_ok m \<longleftrightarrow> (case mm_log_file m of Log_Closed es \<Rightarrow> False | _ \<Rightarrow> True)"

definition alerts_ok :: "monitoring_manager \<Rightarrow> bool" where
  "alerts_ok m \<longleftrightarrow> sorted_wrt (\<lambda>a b. unat (al_id a) < unat (al_id b)) (mm_alerts m) \<and> (\<forall>a \<in> set (mm_alerts m). unat (al_id a) < unat (mm_next_alert_id m)) \<and>
     length (mm_alerts m) \<le> MONITORING_MAX_ALERTS"

lemma write_log_ok:
  assumes "log_ok m"
  shows "\<exists>m'. write_log_entry e level text m = Done m' \<and> log_ok m' \<and> mm_alerts m' = mm_alerts m \<and> mm_next_alert_id m' = mm_next_alert_id m \<and>
    mm_config m' = mm_config m \<and> mm_metrics m' = mm_metrics m"
  using assms by (auto simp: write_log_entry_def log_ok_def split: log_state.splits)

lemma events_keep [simp]:
  "log_ok (m\<lparr>mm_events := ev\<rparr>) = log_ok m"
  by (simp add: log_ok_def)

lemma ws_broadcast_keeps:
  "log_ok (snd (ws_broadcast e doc m)) = log_ok m \<and> mm_alerts (snd (ws_broadcast e doc m)) = mm_alerts m \<and>
   mm_next_alert_id (snd (ws_broadcast e doc m)) = mm_next_alert_id m \<and> mm_config (snd (ws_broadcast e doc m)) = mm_config m"
  by (simp add: ws_broadcast_def split: option.split)

lemma announce_ok:
  assumes "log_ok m"
  shows "\<exists>m'. announce_alert e a title m = Done m' \<and> log_ok m' \<and> mm_alerts m' = mm_alerts m \<and> mm_next_alert_id m' = mm_next_alert_id m \<and> mm_config m' = mm_config m"
proof -
  let ?t = "snprintf 512 (''Alert triggered: '' @ title @ '' (Level: '' @ alert_level_to_string (al_level a) @ '', Value: '' @ fmt2 (al_actual_value a) @ '')'')"
  obtain m1 where m1: "write_log_entry e (alert_level_to_string (al_level a)) ?t m = Done m1" "log_ok m1" "mm_alerts m1 = mm_alerts m"
    "mm_next_alert_id m1 = mm_next_alert_id m" "mm_config m1 = mm_config m" using write_log_ok [OF assms] by blast
  let ?m2 = "trigger_alert_callbacks a m1"
  have m2: "log_ok ?m2" "mm_alerts ?m2 = mm_alerts m" "mm_next_alert_id ?m2 = mm_next_alert_id m" "mm_config ?m2 = mm_config m"
    using m1 by (simp_all add: trigger_alert_callbacks_def)
  show ?thesis unfolding announce_alert_def Let_def m1(1) obind.simps
    using m2 ws_broadcast_keeps [of e "alert_json (me_clock e 1) a" ?m2] by (simp add: monitoring_ws_send_alert_def)
qed

lemma store_alert_ok:
  assumes "alerts_ok m" and "unat (mm_next_alert_id m) + 1 < 2 ^ 64" and "al_id a = mm_next_alert_id m"
    and "mm_alerts m' = store_alert a (mm_alerts m)" and "mm_next_alert_id m' = mm_next_alert_id m + 1"
  shows "alerts_ok m'"
proof -
  have n: "unat (mm_next_alert_id m') = unat (mm_next_alert_id m) + 1" using unat_add_64 [of "mm_next_alert_id m" 1] assms(2,5) by simp
  have kept: "set (if length (mm_alerts m) \<ge> MONITORING_MAX_ALERTS then tl (mm_alerts m) else mm_alerts m) \<subseteq> set (mm_alerts m)"
    by (cases "mm_alerts m") auto
  have srt: "sorted_wrt (\<lambda>a b. unat (al_id a) < unat (al_id b)) (if length (mm_alerts m) \<ge> MONITORING_MAX_ALERTS then tl (mm_alerts m) else mm_alerts m)"
    using assms(1) by (cases "mm_alerts m") (auto simp: alerts_ok_def)
  have len: "length (store_alert a (mm_alerts m)) \<le> MONITORING_MAX_ALERTS"
    using assms(1) by (auto simp: store_alert_def alerts_ok_def MONITORING_MAX_ALERTS_def)
  have "\<forall>x \<in> set (mm_alerts m'). unat (al_id x) < unat (mm_next_alert_id m')"
    using assms(1,3,4) kept n by (fastforce simp: alerts_ok_def store_alert_def)
  moreover have "sorted_wrt (\<lambda>a b. unat (al_id a) < unat (al_id b)) (mm_alerts m')"
    using assms(1,3,4) kept srt by (fastforce simp: alerts_ok_def store_alert_def sorted_wrt_append)
  ultimately show ?thesis using len assms(4) by (simp add: alerts_ok_def)
qed

lemma add_alert_ok:
  assumes "alerts_ok m" and "log_ok m" and "type < length (st_last_alert_time st)" and "unat (mm_next_alert_id m) + 1 < 2 ^ 64"
  shows "\<exists>res m' st'. monitoring_add_alert e False level type title message source threshold actual (Some m) st = Done (res, Some m', st') \<and>
    alerts_ok m' \<and> log_ok m' \<and> length (st_last_alert_time st') = length (st_last_alert_time st) \<and>
    unat (mm_next_alert_id m') \<le> unat (mm_next_alert_id m) + 1"
proof (cases "title = None \<or> message = None \<or> source = None \<or> cooling_down (mm_config m) (st_last_alert_time st ! type) (me_clock e 0)")
  case True
  then show ?thesis using assms by (auto simp: monitoring_add_alert_def Let_def split: option.splits)
next
  case False
  then obtain ti ms so where t: "title = Some ti" "message = Some ms" "source = Some so" by (cases title; cases message; cases source) auto
  let ?a = "new_alert (mm_next_alert_id m) (me_clock e 0) level type ti ms so threshold actual"
  let ?m1 = "m\<lparr>mm_alerts := store_alert ?a (mm_alerts m), mm_next_alert_id := mm_next_alert_id m + 1, mm_total_alerts_triggered := mm_total_alerts_triggered m + 1\<rparr>"
  have "al_id ?a = mm_next_alert_id m" by (simp add: new_alert_def)
  then have ok: "alerts_ok ?m1" using store_alert_ok [OF assms(1,4), of ?a ?m1] by simp
  have "log_ok ?m1" using assms(2) by (simp add: log_ok_def)
  then obtain m2 where m2: "announce_alert e ?a ti ?m1 = Done m2" "log_ok m2" "mm_alerts m2 = mm_alerts ?m1" "mm_next_alert_id m2 = mm_next_alert_id m + 1"
    using announce_ok [of ?m1 e ?a ti] by auto
  have "alerts_ok m2" using ok m2(3,4) by (simp add: alerts_ok_def)
  moreover have "unat (mm_next_alert_id m2) \<le> unat (mm_next_alert_id m) + 1" using unat_add_64 [of "mm_next_alert_id m" 1] assms(4) m2(4) by simp
  ultimately show ?thesis using False t assms(3) m2(1,2) by (simp add: monitoring_add_alert_def Let_def)
qed

lemma alerts_ok_change:
  assumes "alerts_ok m" and "k < length (mm_alerts m)" and "al_id x = al_id (mm_alerts m ! k)"
    and "mm_alerts m' = (mm_alerts m)[k := x]" and "mm_next_alert_id m' = mm_next_alert_id m"
  shows "alerts_ok m'"
proof -
  have ids: "map al_id (mm_alerts m') = map al_id (mm_alerts m)" using assms(2,3,4) by (simp add: map_update list_update_same_conv)
  have "sorted_wrt (\<lambda>a b. unat a < unat b) (map al_id (mm_alerts m'))" unfolding ids using assms(1) by (simp add: alerts_ok_def sorted_wrt_map)
  moreover have "\<forall>i \<in> set (map al_id (mm_alerts m')). unat i < unat (mm_next_alert_id m')" unfolding ids using assms(1,5) by (auto simp: alerts_ok_def)
  ultimately show ?thesis using assms(1,4) by (simp add: alerts_ok_def sorted_wrt_map)
qed

lemma change_alert_ok:
  assumes "alerts_ok m" and "log_ok m" and "\<And>a. al_id (f a) = al_id a"
  shows "\<exists>res m'. change_alert e i f text m = Done (res, m') \<and> alerts_ok m' \<and> log_ok m' \<and> mm_next_alert_id m' = mm_next_alert_id m"
proof (cases "first_index (\<lambda>a. al_id a = i) (mm_alerts m)")
  case None
  then show ?thesis using assms by (simp add: change_alert_def)
next
  case (Some k)
  let ?m = "m\<lparr>mm_alerts := (mm_alerts m)[k := f (mm_alerts m ! k)]\<rparr>"
  have k: "k < length (mm_alerts m)" using first_index_Some [OF Some] by simp
  have ok: "alerts_ok ?m" using alerts_ok_change [OF assms(1) k, of "f (mm_alerts m ! k)" ?m] assms(3) by simp
  have "log_ok ?m" using assms(2) by (simp add: log_ok_def)
  then obtain m1 where m1: "write_log_entry e ''INFO'' (snprintf 256 text) ?m = Done m1" "log_ok m1" "mm_alerts m1 = mm_alerts ?m"
    "mm_next_alert_id m1 = mm_next_alert_id ?m" using write_log_ok [of ?m] by blast
  have "alerts_ok m1" using ok m1(3,4) by (simp add: alerts_ok_def)
  then show ?thesis using Some m1 by (simp add: change_alert_def)
qed

lemma change_step_ok:
  assumes "alerts_ok m" and "log_ok m" and "length (st_last_alert_time st) = MONITORING_MAX_METRICS" and "\<And>a. al_id (f a) = al_id a"
  shows "\<exists>m' st'. obind (change_alert e i f text m) (\<lambda>(_, m'). Done (m', st)) = Done (m', st') \<and> alerts_ok m' \<and> log_ok m' \<and>
    length (st_last_alert_time st') = MONITORING_MAX_METRICS \<and> unat (mm_next_alert_id m') \<le> unat (mm_next_alert_id m) + 1"
proof -
  obtain res m' where "change_alert e i f text m = Done (res, m')" "alerts_ok m'" "log_ok m'" "mm_next_alert_id m' = mm_next_alert_id m"
    using change_alert_ok [OF assms(1,2,4), of e i "text"] by (elim exE conjE) (rule that)
  then show ?thesis using assms(3) by simp
qed

datatype alert_op = Add_Alert alert_level nat "string option" "string option" "string option" dbl dbl | Acknowledge "64 word" "string option"
  | Resolve "64 word" "string option" | Silence "64 word" "32 word"

fun alert_step :: "mon_env \<Rightarrow> alert_op \<Rightarrow> monitoring_manager \<times> mon_static \<Rightarrow> (monitoring_manager \<times> mon_static) outcome" where
  "alert_step e (Add_Alert lv ty ti ms so th ac) (m, st) = obind (monitoring_add_alert e False lv ty ti ms so th ac (Some m) st) (\<lambda>(_, m', st'). Done (the m', st'))"
| "alert_step e (Acknowledge i who) (m, st) = obind (monitoring_acknowledge_alert e i who m) (\<lambda>(_, m'). Done (m', st))"
| "alert_step e (Resolve i who) (m, st) = obind (monitoring_resolve_alert e i who m) (\<lambda>(_, m'). Done (m', st))"
| "alert_step e (Silence i d) (m, st) = obind (monitoring_silence_alert e i d m) (\<lambda>(_, m'). Done (m', st))"

fun alert_run :: "(mon_env \<times> alert_op) list \<Rightarrow> monitoring_manager \<times> mon_static \<Rightarrow> (monitoring_manager \<times> mon_static) outcome" where
  "alert_run [] w = Done w"
| "alert_run ((e, x) # xs) w = obind (alert_step e x w) (alert_run xs)"

fun known_metric :: "alert_op \<Rightarrow> bool" where
  "known_metric (Add_Alert lv ty ti ms so th ac) = (ty < MONITORING_MAX_METRICS)"
| "known_metric _ = True"

lemma alert_step_ok:
  assumes "alerts_ok m" and "log_ok m" and "length (st_last_alert_time st) = MONITORING_MAX_METRICS" and "known_metric x" and "unat (mm_next_alert_id m) + 1 < 2 ^ 64"
  shows "\<exists>m' st'. alert_step e x (m, st) = Done (m', st') \<and> alerts_ok m' \<and> log_ok m' \<and> length (st_last_alert_time st') = MONITORING_MAX_METRICS \<and>
    unat (mm_next_alert_id m') \<le> unat (mm_next_alert_id m) + 1"
proof (cases x)
  case (Add_Alert lv ty ti ms so th ac)
  then show ?thesis using add_alert_ok [OF assms(1,2) _ assms(5), of ty st e lv ti ms so th ac] assms(3,4) by auto
next
  case (Acknowledge i who)
  then show ?thesis using change_step_ok [OF assms(1-3)] assms by (cases who) (simp_all add: monitoring_acknowledge_alert_def)
next
  case (Resolve i who)
  then show ?thesis using change_step_ok [OF assms(1-3)] assms by (cases who) (simp_all add: monitoring_resolve_alert_def)
next
  case (Silence i d)
  then show ?thesis using change_step_ok [OF assms(1-3)] by (simp add: monitoring_silence_alert_def)
qed

lemma alert_run_ok:
  assumes "alerts_ok m" and "log_ok m" and "length (st_last_alert_time st) = MONITORING_MAX_METRICS" and "\<forall>(e, x) \<in> set xs. known_metric x"
    and "unat (mm_next_alert_id m) + length xs < 2 ^ 64"
  shows "\<exists>m' st'. alert_run xs (m, st) = Done (m', st') \<and> alerts_ok m'"
  using assms
proof (induction xs arbitrary: m st)
  case (Cons y xs)
  obtain e x where y: "y = (e, x)" by (metis surj_pair)
  have "unat (mm_next_alert_id m) + 1 < 2 ^ 64" using Cons.prems(5) by simp
  then obtain m1 st1 where 1: "alert_step e x (m, st) = Done (m1, st1)" "alerts_ok m1" "log_ok m1" "length (st_last_alert_time st1) = MONITORING_MAX_METRICS"
    "unat (mm_next_alert_id m1) \<le> unat (mm_next_alert_id m) + 1"
    using alert_step_ok [OF Cons.prems(1-3), of x e] Cons.prems(4) y by auto
  have "unat (mm_next_alert_id m1) + length xs < 2 ^ 64" using Cons.prems(5) 1(5) by simp
  with Cons.IH [OF 1(2-4)] Cons.prems(4) 1(1) y show ?case by auto
qed simp

text \<open>(C37) Any sequence of additions, acknowledgements, resolutions and silencings by the interface, on a manager whose log is not closed, returns; the store
  never has more than a thousand alerts, in the order of their numbers, which are never given twice.\<close>

theorem alerts_ordered_and_bounded:
  assumes "mm_alerts m = []" and "log_ok m" and "length (st_last_alert_time st) = MONITORING_MAX_METRICS" and "\<forall>(e, x) \<in> set xs. known_metric x"
    and "unat (mm_next_alert_id m) + length xs < 2 ^ 64"
  shows "\<exists>m' st'. alert_run xs (m, st) = Done (m', st') \<and> length (mm_alerts m') \<le> 1000 \<and> sorted_wrt (\<lambda>a b. unat (al_id a) < unat (al_id b)) (mm_alerts m') \<and>
    (\<forall>a \<in> set (mm_alerts m'). unat (al_id a) < unat (mm_next_alert_id m'))"
proof -
  have "alerts_ok m" using assms(1) by (simp add: alerts_ok_def)
  from alert_run_ok [OF this assms(2-5)] obtain m' st' where "alert_run xs (m, st) = Done (m', st')" "alerts_ok m'" by (elim exE conjE) (rule that)
  then show ?thesis by (intro exI [of _ m'] exI [of _ st']) (simp add: alerts_ok_def MONITORING_MAX_ALERTS_def)
qed

text \<open>Two alerts of the same metric within the cooldown, of which the second is refused, and one that is acknowledged.\<close>

definition example_env :: mon_env where
  "example_env = \<lparr>me_clock = (\<lambda>i. 1000 + of_nat i), me_seconds = 1, me_hostname = ''host'', me_rnd = id, me_dumps = (\<lambda>_. None)\<rparr>"

definition example_static :: mon_static where
  "example_static = \<lparr>st_last_alert_time = replicate MONITORING_MAX_METRICS 0, st_last_total = 0, st_last_idle = 0, st_last_snapshot_time = 0, st_last_health_check = 0\<rparr>"

definition example_manager :: monitoring_manager where
  "example_manager =
     \<lparr>mm_config = monitoring_get_default_config, mm_running = False, mm_shutdown_requested = False, mm_metrics = [], mm_history = [], mm_alerts = [],
      mm_next_alert_id = 1, mm_snapshots = [], mm_snapshot_index = 0, mm_callbacks = ([], [], []), mm_events = [], mm_total_collections = 0,
      mm_total_alerts_triggered = 0, mm_threads = (False, False), mm_ws_broadcast = False, mm_log_file = No_Log\<rparr>"

definition example_alerts :: "(mon_env \<times> alert_op) list" where
  "example_alerts =
     [(example_env, Add_Alert ALERT_LEVEL_ERROR 0 (Some ''cpu'') (Some ''high'') (Some ''host'') 90 95),
      (example_env, Add_Alert ALERT_LEVEL_ERROR 0 (Some ''cpu'') (Some ''high'') (Some ''host'') 90 97),
      (example_env, Acknowledge 1 (Some ''admin''))]"

theorem alerts_ordered_and_bounded_witness:
  "mm_alerts example_manager = [] \<and>
   (\<exists>m' st'. alert_run example_alerts (example_manager, example_static) = Done (m', st') \<and> length (mm_alerts m') \<le> 1000 \<and>
      sorted_wrt (\<lambda>a b. unat (al_id a) < unat (al_id b)) (mm_alerts m') \<and> (\<forall>a \<in> set (mm_alerts m'). unat (al_id a) < unat (mm_next_alert_id m')))"
proof
  show e: "mm_alerts example_manager = []" by (simp add: example_manager_def)
  show "\<exists>m' st'. alert_run example_alerts (example_manager, example_static) = Done (m', st') \<and> length (mm_alerts m') \<le> 1000 \<and>
      sorted_wrt (\<lambda>a b. unat (al_id a) < unat (al_id b)) (mm_alerts m') \<and> (\<forall>a \<in> set (mm_alerts m'). unat (al_id a) < unat (mm_next_alert_id m'))"
    by (rule alerts_ordered_and_bounded [OF e])
      (simp_all add: example_manager_def example_static_def example_alerts_def log_ok_def MONITORING_MAX_METRICS_def)
qed

section \<open>A new alert stops its thread\<close>

text \<open>\<open>check_metric_thresholds\<close> returns only when there is nothing to report or an active alert of the same metric and level to update: it never adds an
  alert, because it calls \<open>monitoring_add_alert\<close> with the mutex locked.\<close>

lemma threshold_alert_stops:
  assumes "mc_enable_alerting (mm_config m)" and "type < length (mm_metrics m)" and "verdict (mm_metrics m ! type) type v = Some (level, title, message)"
    and "\<forall>a \<in> set (mm_alerts m). \<not> (al_metric_type a = type \<and> al_status a = ALERT_STATUS_ACTIVE \<and> al_level a = level)"
  shows "check_metric_thresholds e type v m st = Deadlock"
proof -
  have "first_index (\<lambda>a. al_metric_type a = type \<and> al_status a = ALERT_STATUS_ACTIVE \<and> al_level a = level) (mm_alerts m) = None"
    unfolding first_index_None using assms(4) by simp
  then show ?thesis using assms(1-3) by (simp add: check_metric_thresholds_def monitoring_add_alert_def Let_def)
qed

end
