(* ===== verification/Monitor_Manager.thy ===== *)
theory Monitor_Manager
  imports Monitor_Alerts
begin

text \<open>
  The monitoring manager: creation, start, stop and destruction, the turns of its two threads, snapshots. What the kernel reports (\<open>sysinfo\<close>, \<open>statvfs\<close>,
  the files in \<open>/proc\<close>) is an argument; a turn takes one environment for each of its steps, since each reads the clock.
\<close>

section \<open>Configuration and life\<close>

text \<open>The allocations (the manager, the alerts, the snapshots, each history and its points), the mutexes, and the log file.\<close>

record create_env =
  ce_alloc :: bool
  ce_mutexes :: bool
  ce_alerts :: bool
  ce_snapshots :: bool
  ce_history :: "nat \<Rightarrow> bool"
  ce_points :: "nat \<Rightarrow> bool"
  ce_log_opens :: bool
  ce_percent :: string

definition blank_snapshot :: monitor_snapshot where
  "blank_snapshot = \<lparr>sn_timestamp = 0, sn_resources = None, sn_alert_count = None, sn_highest_alert = None\<rparr>"

definition initial_manager :: "create_env \<Rightarrow> monitor_config \<Rightarrow> monitoring_manager" where
  "initial_manager c cfg =
     \<lparr>mm_config = cfg, mm_running = False, mm_shutdown_requested = False,
      mm_metrics = map (new_metric (ce_percent c) (mc_warning_threshold_percent cfg) (mc_error_threshold_percent cfg)) [0..<MONITORING_MAX_METRICS],
      mm_history = replicate MONITORING_MAX_METRICS (Some new_history), mm_alerts = [], mm_next_alert_id = 1,
      mm_snapshots = [], mm_snapshot_index = 0, mm_callbacks = ([], [], []), mm_events = [], mm_total_collections = 0, mm_total_alerts_triggered = 0,
      mm_threads = (False, False), mm_ws_broadcast = False,
      mm_log_file = (if mc_enable_logging cfg \<and> ce_log_opens c then Log_Open [] else No_Log)\<rparr>"

text \<open>Where an allocation fails \<open>monitoring_manager_destroy\<close> takes back what there is; no log file is open then.\<close>

definition monitoring_manager_create :: "create_env \<Rightarrow> mon_env \<Rightarrow> monitor_config option \<Rightarrow> monitoring_manager option outcome" where
  "monitoring_manager_create c e config =
     (if \<not> ce_alloc c then Done None
      else if \<not> ce_mutexes c then Done None
      else if \<not> ce_alerts c then Done None
      else if \<not> ce_snapshots c then Done None
      else if list_ex (\<lambda>i. \<not> ce_history c i \<or> \<not> ce_points c i) [0..<MONITORING_MAX_METRICS] then Done None
      else
        let cfg = (case config of Some x \<Rightarrow> x | None \<Rightarrow> monitoring_get_default_config) in
        obind (write_log_entry e ''INFO'' ''Monitoring manager initialized'' (initial_manager c cfg)) (\<lambda>m. Done (Some m)))"

definition monitoring_start :: "mon_env \<Rightarrow> bool \<Rightarrow> bool \<Rightarrow> monitoring_manager option \<Rightarrow> (int \<times> monitoring_manager option) outcome" where
  "monitoring_start e collector alerter manager =
     (case manager of None \<Rightarrow> Done (-1, None)
      | Some m \<Rightarrow>
          if mm_running m then Done (-1, manager)
          else
            let m1 = m\<lparr>mm_running := True, mm_shutdown_requested := False\<rparr> in
            if \<not> collector then Done (-1, Some (m1\<lparr>mm_running := False\<rparr>))
            else if \<not> alerter then Done (-1, Some (m1\<lparr>mm_threads := (True, snd (mm_threads m1)), mm_running := False\<rparr>))
            else obind (write_log_entry e ''INFO'' ''Monitoring started'' (m1\<lparr>mm_threads := (True, True)\<rparr>)) (\<lambda>m2. Done (0, Some m2)))"

definition monitoring_stop :: "mon_env \<Rightarrow> monitoring_manager option \<Rightarrow> (int \<times> monitoring_manager option) outcome" where
  "monitoring_stop e manager =
     (case manager of None \<Rightarrow> Done (-1, None)
      | Some m \<Rightarrow>
          if \<not> mm_running m then Done (0, manager)
          else obind (write_log_entry e ''INFO'' ''Monitoring stopped'' (m\<lparr>mm_shutdown_requested := True, mm_running := False\<rparr>)) (\<lambda>m1. Done (0, Some m1)))"

definition monitoring_is_running :: "monitoring_manager option \<Rightarrow> bool" where
  "monitoring_is_running manager = (case manager of None \<Rightarrow> False | Some m \<Rightarrow> mm_running m)"

definition close_log :: "log_state \<Rightarrow> log_state" where
  "close_log f = (case f of Log_Open es \<Rightarrow> Log_Closed es | _ \<Rightarrow> f)"

text \<open>\<open>ends\<close>: the threads that have been created come to their end, so that they can be joined. The last message is logged after the file is closed.\<close>

definition monitoring_manager_destroy :: "mon_env \<Rightarrow> bool \<times> bool \<Rightarrow> monitoring_manager option \<Rightarrow> unit outcome" where
  "monitoring_manager_destroy e ends manager =
     (case manager of None \<Rightarrow> Done ()
      | Some m \<Rightarrow>
          obind (monitoring_stop e (Some m)) (\<lambda>(_, m1).
            let m' = the m1 in
            if fst (mm_threads m') \<and> \<not> fst ends then Deadlock
            else if snd (mm_threads m') \<and> \<not> snd ends then Deadlock
            else obind (write_log_entry e ''INFO'' ''Monitoring manager destroyed'' (m'\<lparr>mm_log_file := close_log (mm_log_file m')\<rparr>)) (\<lambda>_. Done ())))"

definition monitoring_set_config :: "mon_env \<Rightarrow> monitor_config option \<Rightarrow> monitoring_manager option \<Rightarrow> (int \<times> monitoring_manager option) outcome" where
  "monitoring_set_config e config manager =
     (case (manager, config) of
        (Some m, Some cfg) \<Rightarrow> obind (write_log_entry e ''INFO'' ''Monitoring configuration updated'' (m\<lparr>mm_config := cfg\<rparr>)) (\<lambda>m1. Done (0, Some m1))
      | _ \<Rightarrow> Done (-1, manager))"

definition monitoring_get_config :: "monitoring_manager option \<Rightarrow> bool \<Rightarrow> int \<times> monitor_config option" where
  "monitoring_get_config manager out = (case manager of None \<Rightarrow> (-1, None) | Some m \<Rightarrow> if \<not> out then (-1, None) else (0, Some (mm_config m)))"

text \<open>A callback is a function and its data; \<open>ok\<close>: the entry can be allocated. New ones come first.\<close>

definition monitoring_register_alert_callback :: "bool \<Rightarrow> nat option \<Rightarrow> nat \<Rightarrow> monitoring_manager option \<Rightarrow> int \<times> monitoring_manager option" where
  "monitoring_register_alert_callback ok callback data manager =
     (case (manager, callback) of
        (Some m, Some f) \<Rightarrow> if \<not> ok then (-1, manager)
          else (0, Some (m\<lparr>mm_callbacks := ((f, data) # fst (mm_callbacks m), snd (mm_callbacks m))\<rparr>))
      | _ \<Rightarrow> (-1, manager))"

definition monitoring_register_metric_callback :: "bool \<Rightarrow> nat option \<Rightarrow> nat \<Rightarrow> monitoring_manager option \<Rightarrow> int \<times> monitoring_manager option" where
  "monitoring_register_metric_callback ok callback data manager =
     (case (manager, callback) of
        (Some m, Some f) \<Rightarrow> if \<not> ok then (-1, manager)
          else (0, Some (m\<lparr>mm_callbacks := (fst (mm_callbacks m), (f, data) # fst (snd (mm_callbacks m)), snd (snd (mm_callbacks m)))\<rparr>))
      | _ \<Rightarrow> (-1, manager))"

definition monitoring_register_health_check_callback :: "bool \<Rightarrow> nat option \<Rightarrow> nat \<Rightarrow> monitoring_manager option \<Rightarrow> int \<times> monitoring_manager option" where
  "monitoring_register_health_check_callback ok callback data manager =
     (case (manager, callback) of
        (Some m, Some f) \<Rightarrow> if \<not> ok then (-1, manager)
          else (0, Some (m\<lparr>mm_callbacks := (fst (mm_callbacks m), fst (snd (mm_callbacks m)), (f, data) # snd (snd (mm_callbacks m)))\<rparr>))
      | _ \<Rightarrow> (-1, manager))"

section \<open>Resources of the machine\<close>

text \<open>\<open>ki_memory\<close>: \<open>totalram\<close>, \<open>freeram\<close>, \<open>bufferram\<close> and \<open>mem_unit\<close>; \<open>ki_cpu\<close>: the first eight counters of \<open>/proc/stat\<close>, the fourth is the idle time;
  \<open>ki_disk\<close>: \<open>f_blocks\<close>, \<open>f_bfree\<close> and \<open>f_frsize\<close>; \<open>ki_network\<close>: the interfaces with the bytes received and sent.\<close>

record kernel_info =
  ki_uptime :: "64 word option"
  ki_memory :: "(64 word \<times> 64 word \<times> 64 word \<times> 64 word) option"
  ki_cpu :: "(64 word \<times> 64 word \<times> 64 word \<times> 64 word \<times> 64 word \<times> 64 word \<times> 64 word \<times> 64 word) option"
  ki_disk :: "(64 word \<times> 64 word \<times> 64 word) option"
  ki_processes :: "32 word"
  ki_threads :: "32 word"
  ki_network :: "(string \<times> 64 word \<times> 64 word) list option"

definition to_double :: "(rat \<Rightarrow> dbl) \<Rightarrow> 64 word \<Rightarrow> dbl" where
  "to_double rnd w = rnd (of_nat (unat w))"

definition percentage :: "(rat \<Rightarrow> dbl) \<Rightarrow> 64 word \<Rightarrow> 64 word \<Rightarrow> dbl" where
  "percentage rnd part whole = rnd (rnd (to_double rnd part / to_double rnd whole) * 100)"

definition memory_part :: "(rat \<Rightarrow> dbl) \<Rightarrow> kernel_info \<Rightarrow> dbl \<times> 64 word \<times> 64 word \<times> 64 word \<times> 64 word" where
  "memory_part rnd k =
     (case ki_memory k of None \<Rightarrow> (0, 0, 0, 0, 0)
      | Some (ram, free, buffers, unit) \<Rightarrow>
          let t = ram * unit; f = free * unit; u = t - f in (if t > 0 then percentage rnd u t else 0, t, u, f, buffers * unit))"

definition disk_part :: "(rat \<Rightarrow> dbl) \<Rightarrow> kernel_info \<Rightarrow> dbl \<times> 64 word \<times> 64 word \<times> 64 word" where
  "disk_part rnd k =
     (case ki_disk k of None \<Rightarrow> (0, 0, 0, 0)
      | Some (blocks, bfree, frsize) \<Rightarrow>
          let t = blocks * frsize; f = bfree * frsize; u = t - f in (if t > 0 then percentage rnd u t else 0, t, u, f))"

text \<open>The processor load is that since the call before; the first call of the process has none.\<close>

definition cpu_part :: "(rat \<Rightarrow> dbl) \<Rightarrow> kernel_info \<Rightarrow> mon_static \<Rightarrow> dbl \<times> mon_static" where
  "cpu_part rnd k st =
     (case ki_cpu k of None \<Rightarrow> (0, st)
      | Some (user, nice, system, idle, iowait, irq, softirq, steal) \<Rightarrow>
          let sum = user + nice + system + idle + iowait + irq + softirq + steal;
              total_diff = sum - st_last_total st; idle_diff = idle - st_last_idle st
          in (if st_last_total st > 0 \<and> st_last_idle st > 0 \<and> total_diff > 0 then percentage rnd (total_diff - idle_diff) total_diff else 0,
              st\<lparr>st_last_total := sum, st_last_idle := idle\<rparr>))"

definition collect_system_resources :: "(rat \<Rightarrow> dbl) \<Rightarrow> kernel_info \<Rightarrow> mon_static \<Rightarrow> system_resources \<times> mon_static" where
  "collect_system_resources rnd k st =
     (case cpu_part rnd k st of (cpu, st') \<Rightarrow>
        (\<lparr>sr_cpu_usage = cpu, sr_memory = memory_part rnd k, sr_disk = disk_part rnd k, sr_network = (0, 0, 0, 0),
          sr_counts = (0, ki_processes k, ki_threads k), sr_uptime = (case ki_uptime k of Some t \<Rightarrow> t | None \<Rightarrow> 0)\<rparr>, st'))"

definition collect_network_stats :: "kernel_info \<Rightarrow> (64 word \<times> 64 word) option" where
  "collect_network_stats k =
     (case ki_network k of None \<Rightarrow> None
      | Some is \<Rightarrow> let js = filter (\<lambda>(n, _). n \<noteq> ''lo:'') is in Some (sum_list (map (\<lambda>(_, rx, _). rx) js), sum_list (map (\<lambda>(_, _, tx). tx) js)))"

section \<open>Snapshots\<close>

text \<open>A ring of 3600; the list has the snapshots that have been stored, by their place.\<close>

definition add_snapshot :: "monitor_snapshot \<Rightarrow> monitoring_manager \<Rightarrow> monitoring_manager" where
  "add_snapshot s m =
     (let i = mm_snapshot_index m in
      m\<lparr>mm_snapshots := (if i < length (mm_snapshots m) then (mm_snapshots m)[i := s] else mm_snapshots m @ [s]),
        mm_snapshot_index := (i + 1) mod MONITORING_HISTORY_SIZE\<rparr>)"

fun highest_active :: "alert_level \<Rightarrow> alert list \<Rightarrow> alert_level" where
  "highest_active h [] = h"
| "highest_active h (a # as) =
     highest_active (if al_status a = ALERT_STATUS_ACTIVE \<and> level_number (al_level a) > level_number h then al_level a else h) as"

definition monitoring_collect_snapshot :: "mon_env \<Rightarrow> kernel_info \<Rightarrow> monitoring_manager \<Rightarrow> mon_static \<Rightarrow> monitor_snapshot \<times> mon_static" where
  "monitoring_collect_snapshot e k m st =
     (case collect_system_resources (me_rnd e) k st of (r, st') \<Rightarrow>
        let r' = (case collect_network_stats k of None \<Rightarrow> r | Some (rx, tx) \<Rightarrow> r\<lparr>sr_network := (rx, tx, 0, 0)\<rparr>) in
        (\<lparr>sn_timestamp = me_clock e 0, sn_resources = Some r', sn_alert_count = Some (length (mm_alerts m)),
          sn_highest_alert = Some (highest_active ALERT_LEVEL_INFO (mm_alerts m))\<rparr>, st'))"

definition snapshot_json :: "monitor_snapshot \<Rightarrow> json" where
  "snapshot_json s =
     (case sn_resources s of None \<Rightarrow> J_Object []
      | Some r \<Rightarrow>
          (case (sr_memory r, sr_disk r, sr_network r, sr_counts r) of
             ((mu, mt, mused, mf, mc), (du, dt, dused, df), (rx, tx, rxr, txr), (files, procs, threads)) \<Rightarrow>
               J_Object
                 [(''type'', J_Int 1), (''timestamp'', J_Int (sint (sn_timestamp s))),
                  (''resources'', J_Object
                     [(''cpu_usage'', J_Real (sr_cpu_usage r)), (''memory_usage'', J_Real mu), (''memory_total'', J_Int (sint mt)), (''memory_used'', J_Int (sint mused)),
                      (''memory_free'', J_Int (sint mf)), (''disk_usage'', J_Real du), (''disk_total'', J_Int (sint dt)), (''disk_used'', J_Int (sint dused)),
                      (''disk_free'', J_Int (sint df)), (''network_rx_rate'', J_Real rxr), (''network_tx_rate'', J_Real txr), (''uptime'', J_Int (sint (sr_uptime r))),
                      (''processes'', J_Int (int (unat procs))), (''threads'', J_Int (int (unat threads)))]),
                  (''alert_count'', J_Int (int (the (sn_alert_count s)))), (''highest_alert'', J_Int (level_number (the (sn_highest_alert s))))]))"

definition monitoring_ws_broadcast_snapshot :: "mon_env \<Rightarrow> kernel_info \<Rightarrow> monitoring_manager \<Rightarrow> mon_static \<Rightarrow> int \<times> monitoring_manager \<times> mon_static" where
  "monitoring_ws_broadcast_snapshot e k m st =
     (if \<not> mm_ws_broadcast m then (0, m, st)
      else case monitoring_collect_snapshot e k m st of (s, st') \<Rightarrow> (case ws_broadcast e (snapshot_json s) m of (res, m') \<Rightarrow> (res, m', st')))"

section \<open>The collection thread\<close>

definition observe :: "mon_env \<Rightarrow> nat \<Rightarrow> dbl \<Rightarrow> monitoring_manager \<times> mon_static \<Rightarrow> (monitoring_manager \<times> mon_static) outcome" where
  "observe e type v w = (case w of (m, st) \<Rightarrow> obind (update_metric_history e type v m) (\<lambda>(_, m1). check_metric_thresholds e type v m1 st))"

definition record_metric :: "mon_env \<Rightarrow> nat \<Rightarrow> dbl \<Rightarrow> monitoring_manager \<times> mon_static \<Rightarrow> (monitoring_manager \<times> mon_static) outcome" where
  "record_metric e type v w = (case w of (m, st) \<Rightarrow> obind (update_metric_history e type v m) (\<lambda>(_, m1). Done (m1, st)))"

definition system_part :: "(nat \<Rightarrow> mon_env) \<Rightarrow> system_resources \<Rightarrow> monitoring_manager \<times> mon_static \<Rightarrow> (monitoring_manager \<times> mon_static) outcome" where
  "system_part es r w =
     obind (observe (es 0) 0 (sr_cpu_usage r) w) (\<lambda>w1.
       obind (observe (es 1) 1 (fst (sr_memory r)) w1) (\<lambda>w2.
         obind (observe (es 2) 2 (fst (sr_disk r)) w2) (\<lambda>w3.
           record_metric (es 3) 12 (to_double (me_rnd (es 3)) (sr_uptime r)) w3)))"

text \<open>The rates since the bytes of the turn before, \<open>seen\<close>; \<open>elapsed / 1000.0\<close> seconds have passed.\<close>

definition network_rate :: "(rat \<Rightarrow> dbl) \<Rightarrow> 64 word \<times> 64 word \<Rightarrow> 64 word \<Rightarrow> 64 word \<Rightarrow> 64 word \<Rightarrow> dbl" where
  "network_rate rnd seen elapsed bytes before =
     (let secs = rnd (to_double rnd elapsed / 1000) in
      if fst seen > 0 \<and> snd seen > 0 \<and> secs > 0 then rnd (to_double rnd (bytes - before) / secs) else 0)"

definition network_part :: "(nat \<Rightarrow> mon_env) \<Rightarrow> kernel_info \<Rightarrow> 64 word \<Rightarrow> 64 word \<times> 64 word \<Rightarrow> monitoring_manager \<times> mon_static \<Rightarrow>
    ((64 word \<times> 64 word) \<times> monitoring_manager \<times> mon_static) outcome" where
  "network_part es k elapsed seen w =
     (case collect_network_stats k of None \<Rightarrow> Done (seen, w)
      | Some (rx, tx) \<Rightarrow>
          obind (record_metric (es 4) 3 (network_rate (me_rnd (es 4)) seen elapsed rx (fst seen)) w) (\<lambda>w1.
            obind (record_metric (es 5) 4 (network_rate (me_rnd (es 5)) seen elapsed tx (snd seen)) w1) (\<lambda>w2. Done ((rx, tx), w2))))"

fun metric_callbacks :: "nat list \<Rightarrow> monitoring_manager \<Rightarrow> monitoring_manager" where
  "metric_callbacks [] m = m"
| "metric_callbacks (i # is) m =
     metric_callbacks is (if mt_enabled (mm_metrics m ! i) then trigger_metric_callbacks i (mt_current_value (mm_metrics m ! i)) m else m)"

definition snapshot_part :: "(nat \<Rightarrow> mon_env) \<Rightarrow> kernel_info \<Rightarrow> 64 word \<Rightarrow> system_resources option \<Rightarrow> monitoring_manager \<times> mon_static \<Rightarrow> monitoring_manager \<times> mon_static" where
  "snapshot_part es k now r w =
     (case w of (m, st) \<Rightarrow>
        if now - st_last_snapshot_time st < 60000 then (m, st)
        else
          let m1 = add_snapshot (blank_snapshot\<lparr>sn_timestamp := now, sn_resources := r\<rparr>) m;
              (m2, st2) = (if mm_ws_broadcast m1 then snd (monitoring_ws_broadcast_snapshot (es 6) k m1 st) else (m1, st))
          in (m2, st2\<lparr>st_last_snapshot_time := now\<rparr>))"

text \<open>The local variables of the thread: the time of the last collection and the bytes seen then. \<open>None\<close>: the thread has left its loop.\<close>

definition collection_turn :: "(nat \<Rightarrow> mon_env) \<Rightarrow> kernel_info \<Rightarrow> 64 word \<Rightarrow> 64 word \<times> 64 word \<times> 64 word \<Rightarrow> monitoring_manager \<times> mon_static \<Rightarrow>
    ((64 word \<times> 64 word \<times> 64 word) option \<times> monitoring_manager \<times> mon_static) outcome" where
  "collection_turn es k now l w =
     (case (l, w) of ((since, seen), (m, st)) \<Rightarrow>
        let elapsed = now - since in
        if \<not> (mm_running m \<and> \<not> mm_shutdown_requested m)
        then obind (write_log_entry (es 7) ''INFO'' ''Collection thread stopped'' m) (\<lambda>m'. Done (None, m', st))
        else if elapsed < ucast (mc_collection_interval_ms (mm_config m)) then Done (Some l, w)
        else
          let sys = mc_enable_system_monitoring (mm_config m);
              (r, st1) = collect_system_resources (me_rnd (es 0)) k st
          in obind (if sys then system_part es r (m, st1) else Done (m, st)) (\<lambda>w1.
               obind (if mc_enable_network_monitoring (mm_config (fst w1)) then network_part es k elapsed seen w1 else Done (seen, w1)) (\<lambda>(seen', m2, st2).
                 let m3 = metric_callbacks [0..<MONITORING_MAX_METRICS] (m2\<lparr>mm_total_collections := mm_total_collections m2 + 1\<rparr>) in
                 Done (Some (now, seen'), snapshot_part es k now (if sys then Some r else None) (m3, st2)))))"

text \<open>One turn of the loop for each reading of the clock; without more readings the thread is still in its loop.\<close>

fun collection_loop :: "((nat \<Rightarrow> mon_env) \<times> kernel_info \<times> 64 word) list \<Rightarrow> 64 word \<times> 64 word \<times> 64 word \<Rightarrow> monitoring_manager \<times> mon_static \<Rightarrow>
    ((64 word \<times> 64 word \<times> 64 word) option \<times> monitoring_manager \<times> mon_static) outcome" where
  "collection_loop [] l w = Done (Some l, w)"
| "collection_loop ((es, k, now) # turns) l w =
     obind (collection_turn es k now l w) (\<lambda>(l', w'). case l' of None \<Rightarrow> Done (None, w') | Some l1 \<Rightarrow> collection_loop turns l1 w')"

definition collection_thread_function :: "mon_env \<Rightarrow> 64 word \<Rightarrow> ((nat \<Rightarrow> mon_env) \<times> kernel_info \<times> 64 word) list \<Rightarrow> monitoring_manager \<times> mon_static \<Rightarrow>
    ((64 word \<times> 64 word \<times> 64 word) option \<times> monitoring_manager \<times> mon_static) outcome" where
  "collection_thread_function e start turns w =
     (case w of (m, st) \<Rightarrow>
        obind (write_log_entry e ''INFO'' ''Collection thread started'' m) (\<lambda>m1. collection_loop turns (start, 0, 0) (m1, st)))"

section \<open>The alert thread\<close>

fun health_of :: "metric list \<Rightarrow> bool \<times> string" where
  "health_of [] = (True, utf8 [231, 179, 187, 231, 187, 159, 232, 191, 144, 232, 161, 140, 230, 173, 163, 229, 184, 184])"
| "health_of (mt # ms) =
     (if mt_current_value mt \<ge> mt_error_threshold mt
      then (False, snprintf 256 (mt_name mt @ utf8 [232, 182, 133, 232, 191, 135, 233, 148, 153, 232, 175, 175, 233, 152, 136, 229, 128, 188]))
      else health_of ms)"

text \<open>\<open>now\<close> is read after the second of sleep.\<close>

definition alert_turn :: "mon_env \<Rightarrow> 64 word \<Rightarrow> monitoring_manager \<times> mon_static \<Rightarrow> (bool \<times> monitoring_manager \<times> mon_static) outcome" where
  "alert_turn e now w =
     (case w of (m, st) \<Rightarrow>
        if \<not> (mm_running m \<and> \<not> mm_shutdown_requested m)
        then obind (write_log_entry e ''INFO'' ''Alert thread stopped'' m) (\<lambda>m'. Done (False, m', st))
        else if now - st_last_health_check st < 30000 then Done (True, w)
        else (case health_of (take 5 (mm_metrics m)) of (healthy, msg) \<Rightarrow>
          Done (True, trigger_health_callbacks healthy msg m, st\<lparr>st_last_health_check := now\<rparr>)))"

fun alert_loop :: "(mon_env \<times> 64 word) list \<Rightarrow> monitoring_manager \<times> mon_static \<Rightarrow> (bool \<times> monitoring_manager \<times> mon_static) outcome" where
  "alert_loop [] w = Done (True, w)"
| "alert_loop ((e, now) # turns) w = obind (alert_turn e now w) (\<lambda>(on, w'). if on then alert_loop turns w' else Done (False, w'))"

definition alert_thread_function :: "mon_env \<Rightarrow> (mon_env \<times> 64 word) list \<Rightarrow> monitoring_manager \<times> mon_static \<Rightarrow> (bool \<times> monitoring_manager \<times> mon_static) outcome" where
  "alert_thread_function e turns w =
     (case w of (m, st) \<Rightarrow> obind (write_log_entry e ''INFO'' ''Alert thread started'' m) (\<lambda>m1. alert_loop turns (m1, st)))"

section \<open>The first collection\<close>

lemma write_log_keeps:
  assumes "write_log_entry e l t m = Done m'"
  shows "mm_config m' = mm_config m" "mm_running m' = mm_running m" "mm_shutdown_requested m' = mm_shutdown_requested m" "mm_metrics m' = mm_metrics m"
    "mm_history m' = mm_history m" "mm_alerts m' = mm_alerts m" "mm_threads m' = mm_threads m"
  using assms by (auto simp: write_log_entry_def split: if_splits log_state.splits)

lemma log_ok_write: "log_ok m \<Longrightarrow> \<exists>m'. write_log_entry e l t m = Done m' \<and> log_ok m'"
  using write_log_ok by blast

text \<open>What the collection thread finds: nothing has been collected yet.\<close>

definition untouched :: "monitoring_manager \<Rightarrow> bool" where
  "untouched m \<longleftrightarrow> mm_history m = replicate MONITORING_MAX_METRICS (Some new_history) \<and> length (mm_metrics m) = MONITORING_MAX_METRICS \<and> mm_alerts m = [] \<and> log_ok m"

lemma untouched_log: "untouched m \<Longrightarrow> write_log_entry e l t m = Done m' \<Longrightarrow> untouched m'"
  using log_ok_write [of m e l t] by (auto simp: untouched_def write_log_keeps)

lemma initial_config [simp]: "mm_config (initial_manager c cfg) = cfg"
  by (simp add: initial_manager_def)

lemma created_untouched:
  assumes "monitoring_manager_create c e cfg = Done (Some m)"
  shows "untouched m"
proof -
  let ?m = "initial_manager c (case cfg of Some x \<Rightarrow> x | None \<Rightarrow> monitoring_get_default_config)"
  have "untouched ?m" by (simp add: untouched_def initial_manager_def log_ok_def)
  moreover from this obtain m1 where "write_log_entry e ''INFO'' ''Monitoring manager initialized'' ?m = Done m1"
    using log_ok_write unfolding untouched_def by blast
  ultimately show ?thesis using assms untouched_log by (auto simp: monitoring_manager_create_def Let_def split: if_splits)
qed

lemma started_untouched:
  assumes "monitoring_start e True True (Some m0) = Done (0, Some m)" and "untouched m0"
  shows "untouched m" "mm_running m" "\<not> mm_shutdown_requested m" "mm_config m = mm_config m0"
proof -
  let ?m = "m0\<lparr>mm_running := True, mm_shutdown_requested := False, mm_threads := (True, True)\<rparr>"
  have u: "untouched ?m" using assms(2) by (simp add: untouched_def log_ok_def)
  then obtain m1 where 1: "write_log_entry e ''INFO'' ''Monitoring started'' ?m = Done m1" using log_ok_write unfolding untouched_def by blast
  then have "m = m1" using assms(1) by (simp add: monitoring_start_def Let_def split: if_splits)
  with untouched_log [OF u 1] write_log_keeps [OF 1]
  show "untouched m" "mm_running m" "\<not> mm_shutdown_requested m" "mm_config m = mm_config m0" by simp_all
qed

lemma zero_has_verdict: "type \<noteq> 10 \<Longrightarrow> \<exists>level title message. verdict mt type 0 = Some (level, title, message)"
  by (simp add: verdict_def)

lemma observe_zero_deadlocks:
  assumes "untouched m" and "mc_enable_alerting (mm_config m)" and "type < 10"
  shows "observe e type 0 (m, st) = Deadlock"
proof -
  have t: "type < MONITORING_MAX_METRICS" using assms(3) by (simp add: MONITORING_MAX_METRICS_def)
  obtain h where h: "history_update (me_rnd e) (me_clock e 0) 0 new_history = Done h" using first_sampled by blast
  define m1 where "m1 = m\<lparr>mm_history := (mm_history m)[type := Some h],
    mm_metrics := (mm_metrics m)[type := metric_update (me_rnd e) (me_clock e 0) 0 (mm_metrics m ! type)]\<rparr>"
  have u: "update_metric_history e type 0 m = Done (0, m1)"
    using assms(1) t h by (simp add: update_metric_history_def untouched_def m1_def)
  have "type \<noteq> 10" using assms(3) by simp
  then obtain level title message where v: "verdict (mm_metrics m1 ! type) type 0 = Some (level, title, message)"
    using zero_has_verdict [of type "mm_metrics m1 ! type"] by blast
  have "mm_config m1 = mm_config m" "length (mm_metrics m1) = length (mm_metrics m)" "mm_alerts m1 = []" using assms(1) by (simp_all add: m1_def untouched_def)
  with threshold_alert_stops [OF _ _ v, of e st] assms(1,2) t have "check_metric_thresholds e type 0 m1 st = Deadlock" by (simp add: untouched_def)
  then show ?thesis using u by (simp add: observe_def)
qed

lemma first_cpu_reading: "st_last_total st = 0 \<Longrightarrow> sr_cpu_usage (fst (collect_system_resources rnd k st)) = 0"
  by (simp add: collect_system_resources_def cpu_part_def Let_def split: prod.split option.split)

lemma first_turn_deadlocks:
  assumes "untouched m" and "mm_running m" and "\<not> mm_shutdown_requested m" and "mc_enable_alerting (mm_config m)" and "mc_enable_system_monitoring (mm_config m)"
    and "st_last_total st = 0" and "\<not> now - start < ucast (mc_collection_interval_ms (mm_config m))"
  shows "collection_turn es k now (start, seen) (m, st) = Deadlock"
proof -
  obtain r st1 where r: "collect_system_resources (me_rnd (es 0)) k st = (r, st1)" by (metis surj_pair)
  with first_cpu_reading [OF assms(6), of "me_rnd (es 0)" k] have "sr_cpu_usage r = 0" by simp
  then have "system_part es r (m, st1) = Deadlock" using observe_zero_deadlocks [OF assms(1,4), of 0 "es 0" st1] by (simp add: system_part_def)
  then show ?thesis using assms(2,3,5,7) r by (simp add: collection_turn_def Let_def)
qed

lemma early_turn:
  assumes "mm_running m" and "\<not> mm_shutdown_requested m" and "now - start < ucast (mc_collection_interval_ms (mm_config m))"
  shows "collection_turn es k now (start, seen) (m, st) = Done (Some (start, seen), m, st)"
  using assms by (simp add: collection_turn_def)

lemma early_turns:
  assumes "mm_running m" and "\<not> mm_shutdown_requested m" and "\<forall>(es, k, t) \<in> set early. t - start < ucast (mc_collection_interval_ms (mm_config m))"
  shows "collection_loop (early @ turns) (start, seen) (m, st) = collection_loop turns (start, seen) (m, st)"
  using assms(3)
proof (induction early)
  case (Cons x xs)
  obtain es k t where x: "x = (es, k, t)" by (metis surj_pair)
  with Cons.prems have "t - start < ucast (mc_collection_interval_ms (mm_config m))" by simp
  from early_turn [OF assms(1,2) this, of es k seen st] Cons x show ?case by simp
qed simp

text \<open>(C38) With the switches for alerting and system monitoring on (they are in the default configuration), the collection thread of a newly created and
  started manager, the first in its process, waits until its interval has passed and then stops for ever: the processor load of the first reading is zero, zero
  is reported as too low, and the alert is added under the mutex that adding it locks. This holds whatever the kernel reports and the thresholds are.\<close>

theorem first_collection_deadlocks:
  assumes "monitoring_manager_create c e cfg = Done (Some m0)" and "monitoring_start e1 True True (Some m0) = Done (0, Some m)"
    and "mc_enable_alerting (mm_config m0)" and "mc_enable_system_monitoring (mm_config m0)" and "st_last_total st = 0"
    and "\<forall>(es, k, t) \<in> set early. t - start < ucast (mc_collection_interval_ms (mm_config m0))"
    and "\<not> now - start < ucast (mc_collection_interval_ms (mm_config m0))"
  shows "collection_thread_function e2 start (early @ (es, k, now) # rest) (m, st) = Deadlock"
proof -
  note s = started_untouched [OF assms(2) created_untouched [OF assms(1)]]
  obtain m1 where 1: "write_log_entry e2 ''INFO'' ''Collection thread started'' m = Done m1" using s(1) log_ok_write unfolding untouched_def by blast
  note k = write_log_keeps [OF 1] and u = untouched_log [OF s(1) 1]
  have "collection_turn es k now (start, 0, 0) (m1, st) = Deadlock" by (rule first_turn_deadlocks) (use u s k assms in simp_all)
  then have "collection_loop ((es, k, now) # rest) (start, 0, 0) (m1, st) = Deadlock" by simp
  with early_turns [of m1 early start "(es, k, now) # rest" "(0, 0)" st] s k assms(6) 1 show ?thesis by (simp add: collection_thread_function_def)
qed

text \<open>A manager with the default configuration whose log file cannot be opened; the clock of its thread is read after half a second and after a second.\<close>

definition example_create :: create_env where
  "example_create = \<lparr>ce_alloc = True, ce_mutexes = True, ce_alerts = True, ce_snapshots = True, ce_history = (\<lambda>_. True), ce_points = (\<lambda>_. True),
     ce_log_opens = False, ce_percent = ''%''\<rparr>"

definition example_kernel :: kernel_info where
  "example_kernel = \<lparr>ki_uptime = Some 100, ki_memory = Some (1000, 400, 10, 1), ki_cpu = Some (10, 0, 5, 85, 0, 0, 0, 0), ki_disk = Some (100, 50, 4096),
     ki_processes = 3, ki_threads = 2, ki_network = Some [(''eth0:'', 10, 20)]\<rparr>"

theorem first_collection_deadlocks_witness:
  "\<exists>m. monitoring_start example_env True True (Some (initial_manager example_create monitoring_get_default_config)) = Done (0, Some m) \<and>
     collection_thread_function example_env 5000 ([(\<lambda>_. example_env, example_kernel, 5500)] @ (\<lambda>_. example_env, example_kernel, 6000) # [])
       (m, example_static) = Deadlock"
proof -
  let ?init = "initial_manager example_create monitoring_get_default_config"
  let ?m = "?init\<lparr>mm_running := True, mm_shutdown_requested := False, mm_threads := (True, True)\<rparr>"
  have c: "monitoring_manager_create example_create example_env None = Done (Some ?init)"
  proof -
    have "write_log_entry example_env ''INFO'' ''Monitoring manager initialized'' ?init = Done ?init"
      by (simp add: write_log_entry_def initial_manager_def example_create_def)
    then show ?thesis by (simp add: monitoring_manager_create_def list_ex_iff) (simp add: example_create_def)
  qed
  have s: "monitoring_start example_env True True (Some ?init) = Done (0, Some ?m)"
    by (simp add: monitoring_start_def write_log_entry_def initial_manager_def example_create_def Let_def)
  have "collection_thread_function example_env 5000 ([(\<lambda>_. example_env, example_kernel, 5500)] @ (\<lambda>_. example_env, example_kernel, 6000) # [])
       (?m, example_static) = Deadlock"
    by (rule first_collection_deadlocks [OF c s]) (simp_all add: monitoring_get_default_config_def example_static_def)
  with s show ?thesis by blast
qed

text \<open>Destroying a manager whose log is open does not return from its own last message: the file is closed before it is written.\<close>

theorem destroy_writes_closed_log:
  assumes "mc_enable_logging (mm_config m)" and "mm_log_file m = Log_Open es"
  shows "monitoring_manager_destroy e ends (Some m) =
    (if (fst (mm_threads m) \<and> \<not> fst ends) \<or> (snd (mm_threads m) \<and> \<not> snd ends) then Deadlock else Undefined_Behaviour)"
  using assms by (simp add: monitoring_manager_destroy_def monitoring_stop_def write_log_entry_def close_log_def Let_def)

end
