(* ===== verification/Ws_Transfer.thy ===== *)
theory Ws_Transfer
  imports File_Transfer C_Format
begin

text \<open>
  File transfer over WebSocket (\<open>server/src/websocket_file_transfer.c\<close>): the table of transfers, uploads in chunks, downloads as tasks of a thread pool. The
  contexts live on a heap, since the table and the tasks of the pool hold pointers to them. Files are their contents by their resolved path (\<open>named_file\<close>: there are
  no links); what a stream has written is in its file at once, except for what \<open>fclose\<close> fails to flush at the end of an upload. SHA-256, the random key, the clock and the outcomes of system calls are arguments. The handlers have the prefix \<open>ws_\<close>, because
  \<open>message_handler.c\<close> has functions of the same names.
\<close>

section \<open>State\<close>

definition FILE_CHUNK_SIZE :: nat where "FILE_CHUNK_SIZE = 16384"
definition MAX_FILE_SIZE :: nat where "MAX_FILE_SIZE = 100 * 1024 * 1024"

text \<open>An open stream: its path and, for writing, its position.\<close>

datatype stream = Reading (stream_path: string) | Writing (stream_path: string) nat

record ws_transfer =
  wt_id :: "64 word"
  wt_client :: "64 word"
  wt_filename :: string
  wt_filepath :: string
  wt_file_size :: "64 word"
  wt_bytes_transferred :: "64 word"
  wt_chunk_size :: "32 word"
  wt_total_chunks :: "32 word"
  wt_current_chunk :: "32 word"
  wt_key :: "byte list"
  wt_encrypted :: bool
  wt_upload :: bool
  wt_start_time :: int
  wt_last_update :: int
  wt_file_handle :: "stream option"

text \<open>The array of the manager: the null pointer, freed or a table.\<close>

datatype slots = No_Table | Freed_Table | Table "nat option list"

record ws_manager =
  wm_transfers :: slots
  wm_max_transfers :: "32 word"
  wm_active_transfers :: "32 word"
  wm_thread_pool :: bool
  wm_heap :: "nat \<rightharpoonup> ws_transfer"
  wm_next :: nat
  wm_next_transfer_id :: "64 word"
  wm_files :: file_system
  wm_sent :: "(64 word \<times> string) list"
  wm_progress :: "(64 word \<times> 64 word) list"
  wm_tasks :: "nat list"

text \<open>\<open>tv_room\<close>: the bytes that \<open>fwrite\<close> can still write; \<open>tv_kept\<close>: the bytes of the file that are there after \<open>fclose\<close> has flushed the buffer; \<open>tv_hash\<close>: the file can be opened and the text allocated for its hash; \<open>tv_queued\<close>: the pool takes
  the task.\<close>

record transfer_env =
  tv_alloc :: bool
  tv_opens :: bool
  tv_room :: nat
  tv_kept :: nat
  tv_hash :: bool
  tv_queued :: bool
  tv_now :: int
  tv_key :: "byte list"
  tv_sha256 :: "byte list \<Rightarrow> byte list"
  tv_rnd :: "rat \<Rightarrow> dbl"

section \<open>Encryption and contexts\<close>

definition encrypt_data :: "byte list \<Rightarrow> byte list \<Rightarrow> byte list" where
  "encrypt_data data key = map (\<lambda>i. xor (data ! i) (key ! (i mod 32))) [0..<length data]"

definition decrypt_data :: "byte list \<Rightarrow> byte list \<Rightarrow> byte list" where
  "decrypt_data data key = encrypt_data data key"

text \<open>The file that a path names: empty components and \<open>.\<close> are left out, \<open>..\<close> takes the component before it away.\<close>

fun path_parts :: "string \<Rightarrow> string \<Rightarrow> string list" where
  "path_parts cur [] = [cur]"
| "path_parts cur (c # cs) = (if c = CHR ''/'' then cur # path_parts [] cs else path_parts (cur @ [c]) cs)"

fun resolve_parts :: "string list \<Rightarrow> string list \<Rightarrow> string list" where
  "resolve_parts acc [] = rev acc"
| "resolve_parts acc (p # ps) =
     (if p = [] \<or> p = ''.'' then resolve_parts acc ps
      else if p = ''..'' then resolve_parts (case acc of [] \<Rightarrow> [p] | q # qs \<Rightarrow> if q = ''..'' then p # acc else qs) ps
      else resolve_parts (p # acc) ps)"

definition named_file :: "string \<Rightarrow> string" where
  "named_file path = concat (map (\<lambda>p. CHR ''/'' # p) (resolve_parts [] (path_parts [] path)))"

definition calculate_file_hash :: "transfer_env \<Rightarrow> string \<Rightarrow> ws_manager \<Rightarrow> string option" where
  "calculate_file_hash e path m =
     (case wm_files m (named_file path) of None \<Rightarrow> None
      | Some content \<Rightarrow> if \<not> tv_hash e then None else Some (concat (map hex02 (take 32 (tv_sha256 e content)))))"

definition new_context :: "transfer_env \<Rightarrow> 64 word \<Rightarrow> string \<Rightarrow> 64 word \<Rightarrow> bool \<Rightarrow> 64 word \<Rightarrow> ws_transfer" where
  "new_context e client filename file_size upload i =
     \<lparr>wt_id = i, wt_client = client, wt_filename = take 255 filename, wt_filepath = [], wt_file_size = file_size, wt_bytes_transferred = 0,
      wt_chunk_size = of_nat FILE_CHUNK_SIZE, wt_total_chunks = 0, wt_current_chunk = 0, wt_key = replicate 32 0, wt_encrypted = False, wt_upload = upload,
      wt_start_time = tv_now e, wt_last_update = tv_now e, wt_file_handle = None\<rparr>"

definition set_context :: "nat \<Rightarrow> ws_transfer \<Rightarrow> ws_manager \<Rightarrow> ws_manager" where
  "set_context a c m = m\<lparr>wm_heap := (wm_heap m)(a \<mapsto> c)\<rparr>"

text \<open>\<open>next_transfer_id\<close> is a static variable of the function.\<close>

definition create_transfer_context :: "transfer_env \<Rightarrow> 64 word \<Rightarrow> string \<Rightarrow> 64 word \<Rightarrow> bool \<Rightarrow> ws_manager \<Rightarrow> nat option \<times> ws_manager" where
  "create_transfer_context e client filename file_size upload m =
     (if \<not> tv_alloc e then (None, m)
      else (Some (wm_next m),
            set_context (wm_next m) (new_context e client filename file_size upload (wm_next_transfer_id m))
              (m\<lparr>wm_next := wm_next m + 1, wm_next_transfer_id := wm_next_transfer_id m + 1\<rparr>)))"

text \<open>\<open>fclose\<close> and \<open>free\<close>; reading a context that has been freed is undefined.\<close>

definition destroy_transfer_context :: "nat \<Rightarrow> ws_manager \<Rightarrow> ws_manager outcome" where
  "destroy_transfer_context a m = (case wm_heap m a of None \<Rightarrow> Undefined_Behaviour | Some c \<Rightarrow> Done (m\<lparr>wm_heap := (wm_heap m)(a := None)\<rparr>))"

definition send_progress_update :: "64 word \<Rightarrow> 64 word \<Rightarrow> ws_manager \<Rightarrow> ws_manager" where
  "send_progress_update i bytes m = m\<lparr>wm_progress := wm_progress m @ [(i, bytes)]\<rparr>"

definition send_text :: "64 word \<Rightarrow> string \<Rightarrow> ws_manager \<Rightarrow> ws_manager" where
  "send_text client t m = m\<lparr>wm_sent := wm_sent m @ [(client, t)]\<rparr>"

section \<open>The table\<close>

text \<open>The loops run up to \<open>max_transfers\<close>; the first access through a null or freed pointer is undefined.\<close>

definition table_of :: "ws_manager \<Rightarrow> nat option list outcome" where
  "table_of m = (case wm_transfers m of Table ts \<Rightarrow> Done ts | _ \<Rightarrow> if wm_max_transfers m = 0 then Done [] else Undefined_Behaviour)"

definition put_slot :: "nat option list \<Rightarrow> nat \<Rightarrow> nat option \<Rightarrow> 32 word \<Rightarrow> ws_manager \<Rightarrow> ws_manager" where
  "put_slot ts i x active m = m\<lparr>wm_transfers := Table (ts[i := x]), wm_active_transfers := active\<rparr>"

definition save_context :: "nat \<Rightarrow> ws_manager \<Rightarrow> (nat option \<times> ws_manager) outcome" where
  "save_context a m =
     obind (table_of m) (\<lambda>ts. case first_index (\<lambda>x. x = None) ts of
        None \<Rightarrow> Done (None, m)
      | Some i \<Rightarrow> Done (Some i, put_slot ts i (Some a) (wm_active_transfers m + 1) m))"

fun find_transfer :: "(nat \<rightharpoonup> ws_transfer) \<Rightarrow> 64 word \<Rightarrow> 64 word \<Rightarrow> nat option list \<Rightarrow> (nat \<times> nat) option outcome" where
  "find_transfer h client i [] = Done None"
| "find_transfer h client i (None # ts) = obind (find_transfer h client i ts) (\<lambda>r. Done (map_option (\<lambda>(k, a). (Suc k, a)) r))"
| "find_transfer h client i (Some a # ts) =
     (case h a of None \<Rightarrow> Undefined_Behaviour
      | Some c \<Rightarrow> if wt_id c = i \<and> wt_client c = client then Done (Some (0, a))
                  else obind (find_transfer h client i ts) (\<lambda>r. Done (map_option (\<lambda>(k, a). (Suc k, a)) r)))"

text \<open>A slot is emptied and its context destroyed.\<close>

definition drop_transfer :: "nat \<Rightarrow> nat \<Rightarrow> ws_manager \<Rightarrow> ws_manager outcome" where
  "drop_transfer i a m =
     obind (destroy_transfer_context a m) (\<lambda>m1. obind (table_of m1) (\<lambda>ts. Done (put_slot ts i None (wm_active_transfers m1 - 1) m1)))"

section \<open>The manager\<close>

definition no_manager :: ws_manager where
  "no_manager = \<lparr>wm_transfers = No_Table, wm_max_transfers = 0, wm_active_transfers = 0, wm_thread_pool = False, wm_heap = Map.empty, wm_next = 0,
     wm_next_transfer_id = 1, wm_files = Map.empty, wm_sent = [], wm_progress = [], wm_tasks = []\<rparr>"

text \<open>\<open>alloc\<close>, \<open>mutex\<close>, \<open>pool\<close>: the array, the mutex and the thread pool can be made. On failure the array is freed but the pointer is kept.\<close>

definition file_transfer_manager_init :: "bool \<Rightarrow> bool \<Rightarrow> bool \<Rightarrow> 32 word \<Rightarrow> ws_manager \<Rightarrow> int \<times> ws_manager" where
  "file_transfer_manager_init alloc mutex pool max_transfers m =
     (if wm_transfers m \<noteq> No_Table then (-1, m)
      else
        let m1 = m\<lparr>wm_max_transfers := max_transfers, wm_active_transfers := 0\<rparr> in
        if \<not> alloc then (-1, m1)
        else if \<not> mutex then (-1, m1\<lparr>wm_transfers := Freed_Table\<rparr>)
        else if \<not> pool then (-1, m1\<lparr>wm_transfers := Freed_Table, wm_thread_pool := False\<rparr>)
        else (0, m1\<lparr>wm_transfers := Table (replicate (unat max_transfers) None), wm_thread_pool := True\<rparr>))"

section \<open>Messages\<close>

definition json_flag :: "bool \<Rightarrow> string" where
  "json_flag b = (if b then ''true'' else ''false'')"

definition quoted :: "string \<Rightarrow> string" where
  "quoted s = CHR 0x22 # s @ [CHR 0x22]"

definition json_member :: "string \<Rightarrow> string \<Rightarrow> string" where
  "json_member k v = quoted k @ '':'' @ v"

definition message_text :: "string \<Rightarrow> string \<Rightarrow> string" where
  "message_text type data = ''{'' @ json_member ''type'' (quoted type) @ '','' @ json_member ''data'' (''{'' @ data @ ''}'') @ ''}''"

definition megabytes :: "transfer_env \<Rightarrow> nat \<Rightarrow> string" where
  "megabytes e n = fmt2 (tv_rnd e (tv_rnd e (of_nat n) / 1048576))"

definition too_large_text :: "transfer_env \<Rightarrow> string \<Rightarrow> 64 word \<Rightarrow> string" where
  "too_large_text e filename file_size =
     (let err = snprintf 256 (utf8 [230, 150, 135, 228, 187, 182, 229, 164, 167, 229, 176, 143, 232, 182, 133, 232, 191, 135, 233, 153, 144, 229, 136, 182] @ '': '' @
                  megabytes e (unat file_size) @ '' MB > '' @ megabytes e MAX_FILE_SIZE @ '' MB'')
      in snprintf 512 (message_text ''file_upload_error'' (json_member ''filename'' (quoted filename) @ '','' @ json_member ''error'' (quoted err))))"

definition started_text :: "string \<Rightarrow> ws_transfer \<Rightarrow> string \<Rightarrow> 64 word \<Rightarrow> nat \<Rightarrow> bool \<Rightarrow> string" where
  "started_text type c filename file_size chunk_size encrypted =
     snprintf 512 (message_text type
       (json_member ''transfer_id'' (dec_nat (unat (wt_id c))) @ '','' @ json_member ''filename'' (quoted filename) @ '','' @
        json_member ''file_size'' (dec_nat (unat file_size)) @ '','' @ json_member ''total_chunks'' (dec_nat (unat (wt_total_chunks c))) @ '','' @
        json_member ''chunk_size'' (dec_nat chunk_size) @ '','' @ json_member ''encrypted'' (json_flag encrypted)))"

definition key_text :: "ws_transfer \<Rightarrow> string" where
  "key_text c = snprintf 256 (message_text ''file_encryption_key''
     (json_member ''transfer_id'' (dec_nat (unat (wt_id c))) @ '','' @ json_member ''key'' (quoted (concat (map hex02 (wt_key c))))))"

definition complete_text :: "string \<Rightarrow> 64 word \<Rightarrow> 64 word \<Rightarrow> string option \<Rightarrow> string" where
  "complete_text filename file_size i hash =
     snprintf 512 (message_text ''file_upload_complete''
       (json_member ''transfer_id'' (dec_nat (unat i)) @ '','' @ json_member ''filename'' (quoted filename) @ '','' @ json_member ''file_size'' (dec_nat (unat file_size)) @
        (case hash of None \<Rightarrow> [] | Some h \<Rightarrow> '','' @ json_member ''file_hash'' (quoted h))))"

definition not_found_text :: "string \<Rightarrow> string" where
  "not_found_text filename =
     snprintf 256 (message_text ''file_download_error'' (json_member ''filename'' (quoted filename) @ '','' @
       json_member ''error'' (quoted (utf8 [230, 150, 135, 228, 187, 182, 228, 184, 141, 229, 173, 152, 229, 156, 168]))))"

definition send_key :: "ws_transfer \<Rightarrow> 64 word \<Rightarrow> ws_manager \<Rightarrow> ws_manager" where
  "send_key c client m = (if wt_encrypted c then send_text client (key_text c) m else m)"

section \<open>Uploads\<close>

definition upload_path :: "64 word \<Rightarrow> string \<Rightarrow> string" where
  "upload_path client filename = snprintf 512 (snprintf 256 (''uploads/client_'' @ dec_nat (unat client)) @ ''/'' @ filename)"

definition upload_file :: "64 word \<Rightarrow> string \<Rightarrow> string" where
  "upload_file client filename = named_file (upload_path client filename)"

definition upload_context :: "transfer_env \<Rightarrow> bool \<Rightarrow> 32 word \<Rightarrow> ws_transfer \<Rightarrow> ws_transfer" where
  "upload_context e encrypted chunk_size c =
     c\<lparr>wt_encrypted := encrypted, wt_chunk_size := chunk_size, wt_total_chunks := chunk_count (wt_file_size c) chunk_size,
       wt_key := (if encrypted then tv_key e else wt_key c)\<rparr>"

text \<open>The path is set and the file opened, which empties it, after the context has its slot \<open>i\<close>.\<close>

definition open_upload :: "transfer_env \<Rightarrow> nat \<Rightarrow> nat \<Rightarrow> ws_transfer \<Rightarrow> string \<Rightarrow> ws_manager \<Rightarrow> (int \<times> ws_manager) outcome" where
  "open_upload e i a c filename m =
     (let path = upload_path (wt_client c) filename; c1 = c\<lparr>wt_filepath := path\<rparr> in
      if \<not> tv_opens e then obind (drop_transfer i a m) (\<lambda>m1. Done (-1, m1))
      else
        let c2 = c1\<lparr>wt_file_handle := Some (Writing (named_file path) 0)\<rparr>;
            m1 = set_context a c2 (m\<lparr>wm_files := (wm_files m)(named_file path \<mapsto> [])\<rparr>);
            m2 = send_text (wt_client c) (started_text ''file_upload_started'' c2 filename (wt_file_size c) (unat (wt_chunk_size c)) (wt_encrypted c)) m1
        in Done (0, send_key c2 (wt_client c) m2))"

text \<open>A chunk size of zero is a division by zero.\<close>

definition ws_upload_request :: "transfer_env \<Rightarrow> 64 word \<Rightarrow> string \<Rightarrow> 64 word \<Rightarrow> bool \<Rightarrow> 32 word \<Rightarrow> ws_manager \<Rightarrow> (int \<times> ws_manager) outcome" where
  "ws_upload_request e client filename file_size encrypted chunk_size m =
     (if unat file_size > MAX_FILE_SIZE then Done (-1, send_text client (too_large_text e filename file_size) m)
      else case create_transfer_context e client filename file_size True m of
        (None, m1) \<Rightarrow> Done (-1, m1)
      | (Some a, m1) \<Rightarrow>
          if chunk_size = 0 then Undefined_Behaviour
          else
            let c = upload_context e encrypted chunk_size (new_context e client filename file_size True (wm_next_transfer_id m));
                m2 = set_context a c m1
            in obind (save_context a m2) (\<lambda>(slot, m3).
                 case slot of
                   None \<Rightarrow> obind (destroy_transfer_context a m3) (\<lambda>m4. Done (-1, m4))
                 | Some i \<Rightarrow> open_upload e i a c filename m3))"

text \<open>\<open>fwrite\<close>: the number of bytes written, the stream and the files after it. A stream opened for reading writes nothing.\<close>

fun fwrite :: "nat \<Rightarrow> byte list \<Rightarrow> stream \<Rightarrow> file_system \<Rightarrow> nat \<times> stream \<times> file_system" where
  "fwrite room data (Reading p) fs = (0, Reading p, fs)"
| "fwrite room data (Writing p pos) fs =
     (let n = min room (length data); content = (case fs p of Some x \<Rightarrow> x | None \<Rightarrow> []) in
      (n, Writing p (pos + n), fs(p \<mapsto> write_at pos (take n data) content)))"

definition advance :: "transfer_env \<Rightarrow> nat \<Rightarrow> ws_transfer \<Rightarrow> ws_transfer" where
  "advance e n c = c\<lparr>wt_bytes_transferred := wt_bytes_transferred c + of_nat n, wt_current_chunk := wt_current_chunk c + 1, wt_last_update := tv_now e\<rparr>"

text \<open>\<open>fclose\<close> on a stream: of its file, the first \<open>n\<close> bytes are there afterwards. Its result is not looked at.\<close>

fun fclose :: "nat \<Rightarrow> stream option \<Rightarrow> file_system \<Rightarrow> file_system" where
  "fclose n (Some (Writing p pos)) fs = fs(p := map_option (take n) (fs p))"
| "fclose n f fs = fs"

definition close_upload :: "transfer_env \<Rightarrow> ws_transfer \<Rightarrow> ws_manager \<Rightarrow> ws_manager" where
  "close_upload e c m = m\<lparr>wm_files := fclose (tv_kept e) (wt_file_handle c) (wm_files m)\<rparr>"

definition finish_upload :: "transfer_env \<Rightarrow> 64 word \<Rightarrow> 64 word \<Rightarrow> nat \<Rightarrow> nat \<Rightarrow> ws_transfer \<Rightarrow> ws_manager \<Rightarrow> (int \<times> ws_manager) outcome" where
  "finish_upload e client i slot a c m =
     (let m0 = close_upload e c m;
          m1 = send_text client (complete_text (wt_filename c) (wt_file_size c) i (calculate_file_hash e (wt_filepath c) m0)) m0 in
      obind (drop_transfer slot a m1) (\<lambda>m2. Done (0, m2)))"

definition received_bytes :: "ws_transfer \<Rightarrow> byte list \<Rightarrow> byte list" where
  "received_bytes c chunk = (if wt_encrypted c then decrypt_data chunk (wt_key c) else chunk)"

text \<open>After \<open>fwrite\<close> has written \<open>n\<close> of the \<open>k\<close> bytes of a chunk.\<close>

definition chunk_written :: "transfer_env \<Rightarrow> 64 word \<Rightarrow> 64 word \<Rightarrow> nat \<Rightarrow> nat \<Rightarrow> ws_transfer \<Rightarrow> nat \<Rightarrow> nat \<Rightarrow> ws_manager \<Rightarrow> (int \<times> ws_manager) outcome" where
  "chunk_written e client i slot a c n k m =
     (if n \<noteq> k then Done (-1, set_context a c m)
      else
        let c1 = advance e k c; m1 = send_progress_update i (wt_bytes_transferred c1) (set_context a c1 m) in
        if wt_bytes_transferred c1 \<ge> wt_file_size c1 then finish_upload e client i slot a c1 m1 else Done (0, m1))"

definition ws_upload_chunk :: "transfer_env \<Rightarrow> 64 word \<Rightarrow> 64 word \<Rightarrow> 32 word \<Rightarrow> byte list \<Rightarrow> ws_manager \<Rightarrow> (int \<times> ws_manager) outcome" where
  "ws_upload_chunk e client i index chunk m =
     obind (table_of m) (\<lambda>ts. obind (find_transfer (wm_heap m) client i ts) (\<lambda>r.
       case r of
         None \<Rightarrow> Done (-1, m)
       | Some (slot, a) \<Rightarrow>
           let c = the (wm_heap m a) in
           if index \<noteq> wt_current_chunk c then Done (-2, m)
           else if \<not> tv_alloc e then Done (-1, m)
           else
             case wt_file_handle c of
               None \<Rightarrow> Undefined_Behaviour
             | Some f \<Rightarrow>
                 (case fwrite (tv_room e) (received_bytes c chunk) f (wm_files m) of
                    (n, f', fs) \<Rightarrow> chunk_written e client i slot a (c\<lparr>wt_file_handle := Some f'\<rparr>) n (length chunk) (m\<lparr>wm_files := fs\<rparr>))))"

section \<open>Downloads\<close>

definition download_path :: "string \<Rightarrow> string" where
  "download_path filename = snprintf 512 (''uploads/'' @ filename)"

definition download_context :: "transfer_env \<Rightarrow> bool \<Rightarrow> string \<Rightarrow> ws_transfer \<Rightarrow> ws_transfer" where
  "download_context e encrypted path c =
     c\<lparr>wt_encrypted := encrypted, wt_chunk_size := of_nat FILE_CHUNK_SIZE, wt_total_chunks := chunk_count (wt_file_size c) (of_nat FILE_CHUNK_SIZE),
       wt_key := (if encrypted then tv_key e else wt_key c), wt_file_handle := Some (Reading (named_file path)), wt_filepath := path\<rparr>"

text \<open>Without a slot the stream is closed twice: by the handler and by \<open>destroy_transfer_context\<close>.\<close>

definition ws_download_request :: "transfer_env \<Rightarrow> 64 word \<Rightarrow> string \<Rightarrow> bool \<Rightarrow> ws_manager \<Rightarrow> (int \<times> ws_manager) outcome" where
  "ws_download_request e client filename encrypted m =
     (let path = download_path filename in
      case wm_files m (named_file path) of
        None \<Rightarrow> Done (-1, send_text client (not_found_text filename) m)
      | Some content \<Rightarrow>
          (case create_transfer_context e client filename (of_nat (length content)) False m of
             (None, m1) \<Rightarrow> Done (-1, m1)
           | (Some a, m1) \<Rightarrow>
               if \<not> tv_opens e then obind (destroy_transfer_context a m1) (\<lambda>m2. Done (-1, m2))
               else
                 let c = download_context e encrypted path (new_context e client filename (of_nat (length content)) False (wm_next_transfer_id m)) in
                 obind (save_context a (set_context a c m1)) (\<lambda>(slot, m2).
                   case slot of
                     None \<Rightarrow> Undefined_Behaviour
                   | Some i \<Rightarrow>
                       let m3 = send_key c client (send_text client
                                  (started_text ''file_download_started'' c filename (wt_file_size c) FILE_CHUNK_SIZE encrypted) m2)
                       in Done (0, if tv_queued e then m3\<lparr>wm_tasks := wm_tasks m3 @ [a]\<rparr> else m3))))"

text \<open>The results of \<open>fread\<close> with a buffer of \<open>n\<close> bytes until the end of the file.\<close>

function reads :: "nat \<Rightarrow> byte list \<Rightarrow> byte list list" where
  "reads n xs = (if n = 0 \<or> xs = [] then [] else take n xs # reads n (drop n xs))"
  by pat_completeness auto
termination by (relation "measure (\<lambda>(n, xs). length xs)") auto

declare reads.simps [simp del]

text \<open>The buffer is encrypted in place; nothing is sent but the progress.\<close>

fun download_loop :: "byte list list \<Rightarrow> ws_transfer \<Rightarrow> ws_manager \<Rightarrow> ws_transfer \<times> ws_manager" where
  "download_loop [] c m = (c, m)"
| "download_loop (buf # bufs) c m =
     (let data = (if wt_encrypted c then encrypt_data buf (wt_key c) else buf);
          c1 = c\<lparr>wt_bytes_transferred := wt_bytes_transferred c + of_nat (length data)\<rparr>
      in download_loop bufs c1 (send_progress_update (wt_id c1) (wt_bytes_transferred c1) m))"

definition process_file_download :: "nat \<Rightarrow> ws_manager \<Rightarrow> ws_manager outcome" where
  "process_file_download a m =
     (case wm_heap m a of None \<Rightarrow> Undefined_Behaviour
      | Some c \<Rightarrow>
          (case wt_file_handle c of None \<Rightarrow> Undefined_Behaviour
           | Some f \<Rightarrow>
               let content = (case f of Reading p \<Rightarrow> (case wm_files m p of Some x \<Rightarrow> x | None \<Rightarrow> []) | Writing _ _ \<Rightarrow> []) in
               (case download_loop (reads FILE_CHUNK_SIZE content) c m of
                  (c', m') \<Rightarrow> Done (set_context a (c'\<lparr>wt_file_handle := None\<rparr>) m'))))"

text \<open>A worker takes the oldest task.\<close>

definition pool_turn :: "ws_manager \<Rightarrow> ws_manager outcome" where
  "pool_turn m = (case wm_tasks m of [] \<Rightarrow> Done m | a # as \<Rightarrow> process_file_download a (m\<lparr>wm_tasks := as\<rparr>))"

fun run_tasks :: "nat list \<Rightarrow> ws_manager \<Rightarrow> ws_manager outcome" where
  "run_tasks [] m = Done m"
| "run_tasks (a # as) m = obind (process_file_download a m) (run_tasks as)"

fun destroy_all :: "nat option list \<Rightarrow> ws_manager \<Rightarrow> ws_manager outcome" where
  "destroy_all [] m = Done m"
| "destroy_all (None # ts) m = destroy_all ts m"
| "destroy_all (Some a # ts) m = obind (destroy_transfer_context a m) (destroy_all ts)"

text \<open>The contexts go first; \<open>threadpool_destroy\<close> then waits for the tasks, which run on the freed contexts.\<close>

definition file_transfer_manager_destroy :: "ws_manager \<Rightarrow> ws_manager outcome" where
  "file_transfer_manager_destroy m =
     (case wm_transfers m of
        No_Table \<Rightarrow> Done m
      | Freed_Table \<Rightarrow> Undefined_Behaviour
      | Table ts \<Rightarrow>
          obind (destroy_all ts m) (\<lambda>m1.
            let m2 = m1\<lparr>wm_transfers := No_Table, wm_active_transfers := 0\<rparr> in
            if wm_thread_pool m2 then obind (run_tasks (wm_tasks m2) (m2\<lparr>wm_tasks := []\<rparr>)) (\<lambda>m3. Done (m3\<lparr>wm_thread_pool := False\<rparr>)) else Done m2))"

section \<open>What an operation changes\<close>

lemma set_context_simps [simp]:
  "wm_transfers (set_context a c m) = wm_transfers m" "wm_heap (set_context a c m) = (wm_heap m)(a \<mapsto> c)" "wm_next (set_context a c m) = wm_next m"
  "wm_next_transfer_id (set_context a c m) = wm_next_transfer_id m" "wm_files (set_context a c m) = wm_files m" "wm_sent (set_context a c m) = wm_sent m"
  "wm_active_transfers (set_context a c m) = wm_active_transfers m"
  by (simp_all add: set_context_def)

lemma send_simps [simp]:
  "wm_transfers (send_text i t m) = wm_transfers m" "wm_heap (send_text i t m) = wm_heap m" "wm_next (send_text i t m) = wm_next m"
  "wm_next_transfer_id (send_text i t m) = wm_next_transfer_id m" "wm_files (send_text i t m) = wm_files m" "wm_sent (send_text i t m) = wm_sent m @ [(i, t)]"
  by (simp_all add: send_text_def)

lemma progress_simps [simp]:
  "wm_transfers (send_progress_update i n m) = wm_transfers m" "wm_heap (send_progress_update i n m) = wm_heap m"
  "wm_next (send_progress_update i n m) = wm_next m" "wm_next_transfer_id (send_progress_update i n m) = wm_next_transfer_id m"
  "wm_files (send_progress_update i n m) = wm_files m" "wm_sent (send_progress_update i n m) = wm_sent m"
  by (simp_all add: send_progress_update_def)

lemma send_key_simps [simp]:
  "wm_transfers (send_key c i m) = wm_transfers m" "wm_heap (send_key c i m) = wm_heap m" "wm_next (send_key c i m) = wm_next m"
  "wm_next_transfer_id (send_key c i m) = wm_next_transfer_id m" "wm_files (send_key c i m) = wm_files m" "set (wm_sent m) \<subseteq> set (wm_sent (send_key c i m))"
  by (auto simp: send_key_def)

lemma put_slot_simps [simp]:
  "wm_transfers (put_slot ts i x n m) = Table (ts[i := x])" "wm_heap (put_slot ts i x n m) = wm_heap m" "wm_next (put_slot ts i x n m) = wm_next m"
  "wm_next_transfer_id (put_slot ts i x n m) = wm_next_transfer_id m" "wm_files (put_slot ts i x n m) = wm_files m" "wm_sent (put_slot ts i x n m) = wm_sent m"
  by (simp_all add: put_slot_def)

lemma context_simps [simp]:
  "wt_id (advance e n c) = wt_id c" "wt_client (advance e n c) = wt_client c" "wt_filepath (advance e n c) = wt_filepath c"
  "wt_filename (advance e n c) = wt_filename c" "wt_file_size (advance e n c) = wt_file_size c" "wt_file_handle (advance e n c) = wt_file_handle c"
  "wt_key (advance e n c) = wt_key c" "wt_encrypted (advance e n c) = wt_encrypted c"
  "wt_bytes_transferred (advance e n c) = wt_bytes_transferred c + of_nat n" "wt_current_chunk (advance e n c) = wt_current_chunk c + 1"
  by (simp_all add: advance_def)

text \<open>The table and the heap: every pointer of the table is valid and stands there once; every context has an open stream and its own number.\<close>

definition slots_ok :: "nat option list \<Rightarrow> (nat \<rightharpoonup> ws_transfer) \<Rightarrow> bool" where
  "slots_ok ts h \<longleftrightarrow> (\<forall>i a. i < length ts \<longrightarrow> ts ! i = Some a \<longrightarrow> h a \<noteq> None) \<and>
     (\<forall>i j a. i < length ts \<longrightarrow> j < length ts \<longrightarrow> ts ! i = Some a \<longrightarrow> ts ! j = Some a \<longrightarrow> i = j)"

definition heap_ok :: "(nat \<rightharpoonup> ws_transfer) \<Rightarrow> nat \<Rightarrow> 64 word \<Rightarrow> bool" where
  "heap_ok h nx nid \<longleftrightarrow> (\<forall>a c. h a = Some c \<longrightarrow> a < nx \<and> unat (wt_id c) < unat nid \<and> wt_file_handle c \<noteq> None) \<and>
     (\<forall>a b c d. h a = Some c \<longrightarrow> h b = Some d \<longrightarrow> wt_id c = wt_id d \<longrightarrow> a = b)"

definition ws_inv :: "ws_manager \<Rightarrow> bool" where
  "ws_inv m \<longleftrightarrow> (\<exists>ts. wm_transfers m = Table ts \<and> slots_ok ts (wm_heap m)) \<and> heap_ok (wm_heap m) (wm_next m) (wm_next_transfer_id m)"

lemma find_transfer_ok:
  assumes "\<forall>i a. i < length ts \<longrightarrow> ts ! i = Some a \<longrightarrow> h a \<noteq> None"
  shows "\<exists>r. find_transfer h client i ts = Done r \<and>
    (case r of None \<Rightarrow> \<forall>k a c. k < length ts \<longrightarrow> ts ! k = Some a \<longrightarrow> h a = Some c \<longrightarrow> \<not> (wt_id c = i \<and> wt_client c = client)
     | Some (k, a) \<Rightarrow> k < length ts \<and> ts ! k = Some a \<and> (\<exists>c. h a = Some c \<and> wt_id c = i \<and> wt_client c = client))"
  using assms
proof (induction ts)
  case (Cons x ts)
  have "\<forall>k a. k < length ts \<longrightarrow> ts ! k = Some a \<longrightarrow> h a \<noteq> None" using Cons.prems by force
  from Cons.IH [OF this] obtain r where r: "find_transfer h client i ts = Done r"
    "case r of None \<Rightarrow> \<forall>k a c. k < length ts \<longrightarrow> ts ! k = Some a \<longrightarrow> h a = Some c \<longrightarrow> \<not> (wt_id c = i \<and> wt_client c = client)
     | Some (k, a) \<Rightarrow> k < length ts \<and> ts ! k = Some a \<and> (\<exists>c. h a = Some c \<and> wt_id c = i \<and> wt_client c = client)" by blast
  show ?case
  proof (cases x)
    case None
    with r show ?thesis by (cases r) (auto simp: nth_Cons split: nat.splits)
  next
    case (Some a)
    then obtain c where "h a = Some c" using Cons.prems by force
    with Some r show ?thesis by (cases r) (auto simp: nth_Cons split: nat.splits)
  qed
qed simp

lemma named_upload [simp]: "named_file (upload_path client filename) = upload_file client filename"
  by (simp add: upload_file_def)

definition fresh_upload :: "transfer_env \<Rightarrow> 64 word \<Rightarrow> string \<Rightarrow> 64 word \<Rightarrow> bool \<Rightarrow> 32 word \<Rightarrow> 64 word \<Rightarrow> ws_transfer" where
  "fresh_upload e client filename file_size encrypted chunk_size i =
     (upload_context e encrypted chunk_size (new_context e client filename file_size True i))
       \<lparr>wt_filepath := upload_path client filename, wt_file_handle := Some (Writing (upload_file client filename) 0)\<rparr>"

lemma fresh_upload_simps [simp]:
  "wt_id (fresh_upload e client fn sz enc cs i) = i" "wt_client (fresh_upload e client fn sz enc cs i) = client"
  "wt_file_handle (fresh_upload e client fn sz enc cs i) = Some (Writing (upload_file client fn) 0)"
  "wt_filepath (fresh_upload e client fn sz enc cs i) = upload_path client fn" "wt_filename (fresh_upload e client fn sz enc cs i) = take 255 fn"
  "wt_file_size (fresh_upload e client fn sz enc cs i) = sz" "wt_bytes_transferred (fresh_upload e client fn sz enc cs i) = 0"
  "wt_current_chunk (fresh_upload e client fn sz enc cs i) = 0" "wt_encrypted (fresh_upload e client fn sz enc cs i) = enc"
  "enc \<Longrightarrow> wt_key (fresh_upload e client fn sz enc cs i) = tv_key e"
  by (simp_all add: fresh_upload_def upload_context_def new_context_def)

text \<open>What a refused request leaves: at most a number that has been used.\<close>

definition unchanged :: "ws_manager \<Rightarrow> ws_manager \<Rightarrow> bool" where
  "unchanged m m' \<longleftrightarrow> wm_transfers m' = wm_transfers m \<and> wm_heap m' = wm_heap m \<and> wm_files m' = wm_files m \<and> wm_next m \<le> wm_next m' \<and>
     (wm_next_transfer_id m' = wm_next_transfer_id m \<or> wm_next_transfer_id m' = wm_next_transfer_id m + 1) \<and> set (wm_sent m) \<subseteq> set (wm_sent m')"

definition added :: "nat \<Rightarrow> ws_transfer \<Rightarrow> string \<Rightarrow> ws_manager \<Rightarrow> ws_manager \<Rightarrow> bool" where
  "added i c path m m' \<longleftrightarrow> (\<exists>ts. wm_transfers m = Table ts \<and> i < length ts \<and> ts ! i = None \<and> wm_transfers m' = Table (ts[i := Some (wm_next m)])) \<and>
     wm_heap m' = (wm_heap m)(wm_next m \<mapsto> c) \<and> wm_files m' = (wm_files m)(path \<mapsto> []) \<and> wm_next m' = wm_next m + 1 \<and>
     wm_next_transfer_id m' = wm_next_transfer_id m + 1 \<and> set (wm_sent m) \<subseteq> set (wm_sent m')"

lemma heap_fresh: "ws_inv m \<Longrightarrow> wm_heap m (wm_next m) = None"
  unfolding ws_inv_def heap_ok_def by (metis not_None_eq less_irrefl)

lemma drop_transfer_Done:
  assumes "wm_heap m a \<noteq> None" and "wm_transfers m = Table ts"
  shows "drop_transfer slot a m = Done (put_slot ts slot None (wm_active_transfers m - 1) (m\<lparr>wm_heap := (wm_heap m)(a := None)\<rparr>))"
  using assms by (auto simp: drop_transfer_def destroy_transfer_context_def table_of_def)

lemma open_upload_ok:
  assumes "tv_opens e"
  shows "\<exists>m'. open_upload e i a c filename m = Done (0, m') \<and> wm_transfers m' = wm_transfers m \<and>
    wm_heap m' = (wm_heap m)(a \<mapsto> c\<lparr>wt_filepath := upload_path (wt_client c) filename, wt_file_handle := Some (Writing (upload_file (wt_client c) filename) 0)\<rparr>) \<and>
    wm_files m' = (wm_files m)(upload_file (wt_client c) filename \<mapsto> []) \<and> wm_next m' = wm_next m \<and> wm_next_transfer_id m' = wm_next_transfer_id m \<and>
    set (wm_sent m) \<subseteq> set (wm_sent m')"
  using assms by (simp add: open_upload_def Let_def) (rule order_trans [OF _ send_key_simps(6)], auto)

lemma open_upload_fails:
  assumes "\<not> tv_opens e" and "wm_heap m a \<noteq> None" and "wm_transfers m = Table ts"
  shows "open_upload e i a c filename m = Done (-1, put_slot ts i None (wm_active_transfers m - 1) (m\<lparr>wm_heap := (wm_heap m)(a := None)\<rparr>))"
  using assms(1) drop_transfer_Done [OF assms(2,3)] by (simp add: open_upload_def Let_def)

lemma request_effect:
  assumes inv: "ws_inv m" and cs: "chunk_size \<noteq> 0"
  shows "\<exists>res m'. ws_upload_request e client filename file_size encrypted chunk_size m = Done (res, m') \<and>
    (res \<noteq> 0 \<and> unchanged m m' \<or> res = 0 \<and> unat file_size \<le> MAX_FILE_SIZE \<and>
      (\<exists>i. added i (fresh_upload e client filename file_size encrypted chunk_size (wm_next_transfer_id m)) (upload_file client filename) m m'))"
proof (cases "unat file_size > MAX_FILE_SIZE \<or> \<not> tv_alloc e")
  case True
  then show ?thesis by (auto simp: ws_upload_request_def create_transfer_context_def unchanged_def)
next
  case False
  obtain ts where ts: "wm_transfers m = Table ts" using inv by (auto simp: ws_inv_def)
  define a where "a = wm_next m"
  define c where "c = upload_context e encrypted chunk_size (new_context e client filename file_size True (wm_next_transfer_id m))"
  define m2 where "m2 = set_context a c (snd (create_transfer_context e client filename file_size True m))"
  have req: "ws_upload_request e client filename file_size encrypted chunk_size m = obind (save_context a m2) (\<lambda>(slot, m3).
      case slot of None \<Rightarrow> obind (destroy_transfer_context a m3) (\<lambda>m4. Done (-1, m4)) | Some i \<Rightarrow> open_upload e i a c filename m3)"
    unfolding a_def c_def m2_def using False cs by (simp add: ws_upload_request_def create_transfer_context_def Let_def)
  have m2: "wm_transfers m2 = Table ts" "wm_heap m2 = (wm_heap m)(a \<mapsto> c)" "wm_files m2 = wm_files m" "wm_next m2 = wm_next m + 1"
    "wm_next_transfer_id m2 = wm_next_transfer_id m + 1" "wm_sent m2 = wm_sent m"
    using False ts by (simp_all add: m2_def create_transfer_context_def a_def)
  have undo: "(wm_heap m2)(a := None) = wm_heap m" using heap_fresh [OF inv] by (auto simp: m2 a_def)
  have tab: "table_of m2 = Done ts" by (simp add: table_of_def m2)
  show ?thesis
  proof (cases "first_index (\<lambda>x. x = None) ts")
    case None
    define m4 where "m4 = m2\<lparr>wm_heap := (wm_heap m2)(a := None)\<rparr>"
    have "ws_upload_request e client filename file_size encrypted chunk_size m = Done (-1, m4)"
      unfolding req using None by (simp add: save_context_def tab destroy_transfer_context_def m2 m4_def)
    moreover have "unchanged m m4" using undo by (simp add: unchanged_def m4_def m2 ts)
    ultimately show ?thesis by (intro exI [of _ "-1"] exI [of _ m4]) simp
  next
    case (Some i)
    have i: "i < length ts" "ts ! i = None" using first_index_Some [OF Some] by simp_all
    define m3 where "m3 = put_slot ts i (Some a) (wm_active_transfers m2 + 1) m2"
    have m3: "wm_transfers m3 = Table (ts[i := Some a])" "wm_heap m3 = wm_heap m2" "wm_files m3 = wm_files m2" "wm_next m3 = wm_next m2"
      "wm_next_transfer_id m3 = wm_next_transfer_id m2" "wm_sent m3 = wm_sent m2" by (simp_all add: m3_def)
    have req3: "ws_upload_request e client filename file_size encrypted chunk_size m = open_upload e i a c filename m3"
      unfolding req using Some by (simp add: save_context_def tab m3_def)
    have cl: "wt_client c = client" by (simp add: c_def upload_context_def new_context_def)
    have cc: "c\<lparr>wt_filepath := upload_path client filename, wt_file_handle := Some (Writing (upload_file client filename) 0)\<rparr> =
        fresh_upload e client filename file_size encrypted chunk_size (wm_next_transfer_id m)" by (simp add: fresh_upload_def c_def)
    show ?thesis
    proof (cases "tv_opens e")
      case True
      then obtain m' where m': "open_upload e i a c filename m3 = Done (0, m')" "wm_transfers m' = wm_transfers m3"
        "wm_heap m' = (wm_heap m3)(a \<mapsto> fresh_upload e client filename file_size encrypted chunk_size (wm_next_transfer_id m))"
        "wm_files m' = (wm_files m3)(upload_file client filename \<mapsto> [])" "wm_next m' = wm_next m3" "wm_next_transfer_id m' = wm_next_transfer_id m3"
        "set (wm_sent m3) \<subseteq> set (wm_sent m')"
        using open_upload_ok [OF True, of i a c filename m3, unfolded cl cc] by (elim exE conjE) (rule that)
      have "added i (fresh_upload e client filename file_size encrypted chunk_size (wm_next_transfer_id m)) (upload_file client filename) m m'"
        using m' ts i unfolding added_def m3 m2 a_def by simp
      then show ?thesis using m'(1) req3 False by auto
    next
      case False
      define m5 where "m5 = put_slot (ts[i := Some a]) i None (wm_active_transfers m3 - 1) (m3\<lparr>wm_heap := (wm_heap m3)(a := None)\<rparr>)"
      have "open_upload e i a c filename m3 = Done (-1, m5)" unfolding m5_def by (rule open_upload_fails [OF False]) (simp_all add: m3 m2)
      moreover have "unchanged m m5" using undo i by (simp add: unchanged_def m5_def m3 m2 ts list_update_same_conv)
      ultimately show ?thesis using req3 by auto
    qed
  qed
qed

text \<open>What a chunk for the transfer at \<open>a\<close> changes: its context and its file, or its slot when it is finished.\<close>

definition open_path :: "ws_transfer \<Rightarrow> string option" where
  "open_path c = map_option stream_path (wt_file_handle c)"

definition same_place :: "ws_transfer \<Rightarrow> ws_transfer \<Rightarrow> bool" where
  "same_place c c' \<longleftrightarrow> wt_id c' = wt_id c \<and> wt_file_handle c' \<noteq> None \<and> open_path c' = open_path c"

definition touched :: "nat \<Rightarrow> nat \<Rightarrow> ws_transfer \<Rightarrow> ws_manager \<Rightarrow> ws_manager \<Rightarrow> bool" where
  "touched slot a c m m' \<longleftrightarrow> (\<forall>q. Some q \<noteq> open_path c \<longrightarrow> wm_files m' q = wm_files m q) \<and> wm_next m' = wm_next m \<and>
     wm_next_transfer_id m' = wm_next_transfer_id m \<and> set (wm_sent m) \<subseteq> set (wm_sent m') \<and>
     (wm_transfers m' = wm_transfers m \<and> (\<exists>c'. wm_heap m' = (wm_heap m)(a \<mapsto> c') \<and> same_place c c') \<or>
      (\<exists>ts. wm_transfers m = Table ts \<and> wm_transfers m' = Table (ts[slot := None])) \<and> wm_heap m' = (wm_heap m)(a := None))"

lemma fwrite_path:
  assumes "fwrite room data f fs = (n, f', fs')"
  shows "stream_path f' = stream_path f" "q \<noteq> stream_path f \<Longrightarrow> fs' q = fs q"
  using assms by (cases f; auto simp: Let_def)+

lemma heap_handle: "ws_inv m \<Longrightarrow> wm_heap m a = Some c \<Longrightarrow> \<exists>f. wt_file_handle c = Some f"
  unfolding ws_inv_def heap_ok_def by (metis not_None_eq)

lemma chunk_found:
  assumes "wm_transfers m = Table ts" and "find_transfer (wm_heap m) client i ts = Done (Some (slot, a))" and "wm_heap m a = Some c"
    and "wt_file_handle c = Some f" and "index = wt_current_chunk c \<and> tv_alloc e" and "fwrite (tv_room e) (received_bytes c chunk) f (wm_files m) = (n, f', fs)"
  shows "ws_upload_chunk e client i index chunk m = chunk_written e client i slot a (c\<lparr>wt_file_handle := Some f'\<rparr>) n (length chunk) (m\<lparr>wm_files := fs\<rparr>)"
  using assms by (simp add: ws_upload_chunk_def table_of_def Let_def)

lemma close_upload_simps [simp]:
  "wm_transfers (close_upload e c m) = wm_transfers m" "wm_heap (close_upload e c m) = wm_heap m" "wm_next (close_upload e c m) = wm_next m"
  "wm_next_transfer_id (close_upload e c m) = wm_next_transfer_id m" "wm_sent (close_upload e c m) = wm_sent m"
  by (simp_all add: close_upload_def)

lemma finish_effect:
  assumes "wm_transfers m = Table ts" and "wm_heap m a \<noteq> None"
  shows "\<exists>m'. finish_upload e client i slot a c m = Done (0, m') \<and> wm_transfers m' = Table (ts[slot := None]) \<and> wm_heap m' = (wm_heap m)(a := None) \<and>
    wm_files m' = fclose (tv_kept e) (wt_file_handle c) (wm_files m) \<and> wm_next m' = wm_next m \<and> wm_next_transfer_id m' = wm_next_transfer_id m \<and>
    wm_sent m' = wm_sent m @ [(client, complete_text (wt_filename c) (wt_file_size c) i (calculate_file_hash e (wt_filepath c) (close_upload e c m)))]"
  using drop_transfer_Done [of "send_text client t (close_upload e c m)" a ts slot for t] assms by (simp add: finish_upload_def Let_def) (simp add: close_upload_def)

lemma fclose_path: "stream_path f \<noteq> q \<Longrightarrow> fclose n (Some f) fs q = fs q"
  by (cases f) simp_all

lemma written_effect:
  assumes ts: "wm_transfers m = Table ts" and f: "wt_file_handle c = Some f" and p: "stream_path f' = stream_path f" "\<And>q. q \<noteq> stream_path f \<Longrightarrow> fs q = wm_files m q"
  shows "\<exists>res m'. chunk_written e client i slot a (c\<lparr>wt_file_handle := Some f'\<rparr>) n k (m\<lparr>wm_files := fs\<rparr>) = Done (res, m') \<and> touched slot a c m m'"
proof -
  let ?c = "c\<lparr>wt_file_handle := Some f'\<rparr>" and ?m = "m\<lparr>wm_files := fs\<rparr>"
  let ?m1 = "send_progress_update i (wt_bytes_transferred (advance e k ?c)) (set_context a (advance e k ?c) ?m)"
  have same: "same_place c ?c" "same_place c (advance e k ?c)" using f p by (simp_all add: same_place_def open_path_def)
  have "touched slot a c m (set_context a ?c ?m)" "touched slot a c m ?m1" unfolding touched_def open_path_def using p f same by auto
  moreover obtain m' where m': "finish_upload e client i slot a (advance e k ?c) ?m1 = Done (0, m')" "wm_transfers m' = Table (ts[slot := None])"
      "wm_heap m' = (wm_heap ?m1)(a := None)" "wm_files m' = fclose (tv_kept e) (Some f') fs" "wm_next m' = wm_next m" "wm_next_transfer_id m' = wm_next_transfer_id m" "\<exists>x. wm_sent m' = wm_sent m @ x"
    using finish_effect [of ?m1 ts a e client i slot "advance e k ?c"] ts by auto
  moreover have "touched slot a c m m'" unfolding touched_def open_path_def using m' p f ts by (auto simp: fclose_path)
  ultimately show ?thesis by (simp add: chunk_written_def Let_def)
qed

lemma chunk_effect:
  assumes "ws_inv m" and ts: "wm_transfers m = Table ts"
  shows "\<exists>res m'. ws_upload_chunk e client i index chunk m = Done (res, m') \<and>
    (m' = m \<or> (\<exists>slot a c. slot < length ts \<and> ts ! slot = Some a \<and> wm_heap m a = Some c \<and> wt_id c = i \<and> wt_client c = client \<and> touched slot a c m m'))"
proof -
  have "\<forall>i a. i < length ts \<longrightarrow> ts ! i = Some a \<longrightarrow> wm_heap m a \<noteq> None" using assms by (auto simp: ws_inv_def slots_ok_def)
  from find_transfer_ok [OF this, of client i] obtain r where r: "find_transfer (wm_heap m) client i ts = Done r"
    "\<And>slot a. r = Some (slot, a) \<Longrightarrow> slot < length ts \<and> ts ! slot = Some a \<and> (\<exists>c. wm_heap m a = Some c \<and> wt_id c = i \<and> wt_client c = client)"
    by (auto split: option.splits)
  show ?thesis
  proof (cases r)
    case None
    then show ?thesis using r(1) ts by (simp add: ws_upload_chunk_def table_of_def)
  next
    case (Some sa)
    obtain slot a where sa: "sa = (slot, a)" by (cases sa)
    with r(2) [of slot a] Some obtain c where c: "slot < length ts" "ts ! slot = Some a" "wm_heap m a = Some c" "wt_id c = i" "wt_client c = client" by blast
    then obtain f where f: "wt_file_handle c = Some f" using heap_handle [OF assms(1)] by blast
    show ?thesis
    proof (cases "index = wt_current_chunk c \<and> tv_alloc e")
      case False
      then have "\<exists>res. ws_upload_chunk e client i index chunk m = Done (res, m)"
        using r(1) Some sa ts c(3) by (auto simp: ws_upload_chunk_def table_of_def Let_def)
      then show ?thesis by blast
    next
      case True
      obtain n f' fs where w: "fwrite (tv_room e) (received_bytes c chunk) f (wm_files m) = (n, f', fs)" by (metis surj_pair)
      have "ws_upload_chunk e client i index chunk m = chunk_written e client i slot a (c\<lparr>wt_file_handle := Some f'\<rparr>) n (length chunk) (m\<lparr>wm_files := fs\<rparr>)"
        by (rule chunk_found [OF ts _ c(3) f True w]) (use r(1) Some sa in simp)
      with written_effect [OF ts f fwrite_path [OF w], of e client i slot a n "length chunk"] c show ?thesis by fastforce
    qed
  qed
qed

section \<open>Sessions\<close>

datatype ws_op = Request "64 word" string "64 word" bool "32 word" | Chunk "64 word" "64 word" "32 word" "byte list"

fun transfer_step :: "transfer_env \<Rightarrow> ws_op \<Rightarrow> ws_manager \<Rightarrow> ws_manager outcome" where
  "transfer_step e (Request client filename file_size encrypted chunk_size) m = obind (ws_upload_request e client filename file_size encrypted chunk_size m) (\<lambda>(_, m'). Done m')"
| "transfer_step e (Chunk client i index chunk) m = obind (ws_upload_chunk e client i index chunk m) (\<lambda>(_, m'). Done m')"

fun transfer_run :: "(transfer_env \<times> ws_op) list \<Rightarrow> ws_manager \<Rightarrow> ws_manager outcome" where
  "transfer_run [] m = Done m"
| "transfer_run ((e, x) # xs) m = obind (transfer_step e x m) (transfer_run xs)"

lemma next_id: "unat (w :: 64 word) + 1 < 2 ^ 64 \<Longrightarrow> unat (w + 1) = unat w + 1"
  using unat_add_64 [of w 1] by simp

lemma inv_unchanged:
  assumes "ws_inv m" and "unchanged m m'" and "unat (wm_next_transfer_id m) + 1 < 2 ^ 64"
  shows "ws_inv m'"
proof -
  have "unat (wm_next_transfer_id m) \<le> unat (wm_next_transfer_id m')" "wm_next m \<le> wm_next m'"
    using assms(2) next_id [OF assms(3)] by (auto simp: unchanged_def)
  then have "heap_ok (wm_heap m) (wm_next m') (wm_next_transfer_id m')"
    using assms(1) unfolding ws_inv_def heap_ok_def by (meson less_le_trans)
  then show ?thesis using assms(1,2) by (auto simp: ws_inv_def unchanged_def)
qed

lemma slots_ok_add:
  assumes "slots_ok ts h" and "i < length ts" and "h a = None"
  shows "slots_ok (ts[i := Some a]) (h(a \<mapsto> c))"
proof -
  have "\<And>k b. k < length ts \<Longrightarrow> ts ! k = Some b \<Longrightarrow> b \<noteq> a" using assms(1,3) by (auto simp: slots_ok_def)
  then show ?thesis using assms(1,2) unfolding slots_ok_def by (auto simp: nth_list_update split: if_splits)
qed

lemma slots_ok_drop:
  assumes "slots_ok ts h" and "slot < length ts" and "ts ! slot = Some a"
  shows "slots_ok (ts[slot := None]) (h(a := None))"
proof -
  have "\<And>k. k < length ts \<Longrightarrow> ts ! k = Some a \<Longrightarrow> k = slot" using assms by (auto simp: slots_ok_def)
  then show ?thesis using assms(1,2) unfolding slots_ok_def by (auto simp: nth_list_update split: if_splits)
qed

lemma heap_ok_add:
  assumes "heap_ok h nx nid" and "wt_id c = nid" and "wt_file_handle c \<noteq> None" and "unat nid + 1 < 2 ^ 64"
  shows "heap_ok (h(nx \<mapsto> c)) (nx + 1) (nid + 1)"
proof -
  have old: "a < nx" "unat (wt_id d) < unat nid" "wt_file_handle d \<noteq> None" if "h a = Some d" for a d using assms(1) that by (auto simp: heap_ok_def)
  have ne: "wt_id d \<noteq> wt_id c" if "h a = Some d" for a d using old(2) [OF that] assms(2) by auto
  have new: "a < nx + 1 \<and> unat (wt_id d) < unat (nid + 1) \<and> wt_file_handle d \<noteq> None" if "h a = Some d" for a d
    using old [OF that] next_id [OF assms(4)] by simp
  then show ?thesis using assms(1-3) next_id [OF assms(4)] unfolding heap_ok_def by (auto dest: ne ne [symmetric])
qed

lemma heap_ok_set: "heap_ok h nx nid \<Longrightarrow> h a = Some c \<Longrightarrow> same_place c c' \<Longrightarrow> heap_ok (h(a \<mapsto> c')) nx nid"
  unfolding heap_ok_def same_place_def by auto

lemma heap_ok_drop: "heap_ok h nx nid \<Longrightarrow> heap_ok (h(a := None)) nx nid"
  unfolding heap_ok_def by auto

lemma inv_added:
  assumes "ws_inv m" and "added i c path m m'" and "wt_id c = wm_next_transfer_id m" and "wt_file_handle c \<noteq> None" and "unat (wm_next_transfer_id m) + 1 < 2 ^ 64"
  shows "ws_inv m'"
proof -
  obtain ts where ts: "wm_transfers m = Table ts" "i < length ts" "wm_transfers m' = Table (ts[i := Some (wm_next m)])"
    "wm_heap m' = (wm_heap m)(wm_next m \<mapsto> c)" "wm_next m' = wm_next m + 1" "wm_next_transfer_id m' = wm_next_transfer_id m + 1" using assms(2) by (auto simp: added_def)
  have "slots_ok ts (wm_heap m)" "heap_ok (wm_heap m) (wm_next m) (wm_next_transfer_id m)" using assms(1) ts(1) by (auto simp: ws_inv_def)
  with slots_ok_add [where h = "wm_heap m", OF _ ts(2) heap_fresh [OF assms(1)]] heap_ok_add [OF _ assms(3-5)] ts show ?thesis by (simp add: ws_inv_def)
qed

lemma inv_touched:
  assumes "ws_inv m" and "touched slot a c m m'" and "wm_transfers m = Table ts" and "slot < length ts" and "ts ! slot = Some a" and "wm_heap m a = Some c"
  shows "ws_inv m'"
proof -
  have ok: "slots_ok ts (wm_heap m)" "heap_ok (wm_heap m) (wm_next m) (wm_next_transfer_id m)" using assms(1,3) by (auto simp: ws_inv_def)
  have keep: "slots_ok ts ((wm_heap m)(a \<mapsto> c'))" for c' using ok(1) unfolding slots_ok_def by auto
  from assms(2) consider c' where "wm_transfers m' = Table ts" "wm_heap m' = (wm_heap m)(a \<mapsto> c')" "same_place c c'"
    | "wm_transfers m' = Table (ts[slot := None])" "wm_heap m' = (wm_heap m)(a := None)" using assms(3) by (auto simp: touched_def)
  then show ?thesis
  proof cases
    case 1
    then show ?thesis using keep heap_ok_set [OF ok(2) assms(6)] assms(2) by (simp add: ws_inv_def touched_def)
  next
    case 2
    then show ?thesis using slots_ok_drop [OF ok(1) assms(4,5)] heap_ok_drop [OF ok(2)] assms(2) by (simp add: ws_inv_def touched_def)
  qed
qed

section \<open>One upload among others\<close>

record upload =
  up_addr :: nat
  up_slot :: nat
  up_client :: "64 word"
  up_id :: "64 word"
  up_filename :: string
  up_path :: string
  up_size :: "64 word"
  up_key :: "byte list"
  up_encrypted :: bool

definition holders :: "string \<Rightarrow> nat set \<Rightarrow> (nat \<rightharpoonup> ws_transfer) \<Rightarrow> bool" where
  "holders p A h \<longleftrightarrow> (\<forall>a c. h a = Some c \<longrightarrow> open_path c = Some p \<longrightarrow> a \<in> A)"

text \<open>The bytes \<open>got\<close> of the first \<open>n\<close> chunks have arrived.\<close>

definition context_of :: "upload \<Rightarrow> byte list \<Rightarrow> nat \<Rightarrow> ws_transfer \<Rightarrow> bool" where
  "context_of U got n c \<longleftrightarrow> wt_id c = up_id U \<and> wt_client c = up_client U \<and> wt_filename c = up_filename U \<and> named_file (wt_filepath c) = up_path U \<and>
     wt_file_handle c = Some (Writing (up_path U) (length got)) \<and> wt_bytes_transferred c = of_nat (length got) \<and> wt_current_chunk c = of_nat n \<and>
     wt_file_size c = up_size U \<and> wt_encrypted c = up_encrypted U \<and> (up_encrypted U \<longrightarrow> wt_key c = up_key U)"

definition uploading :: "upload \<Rightarrow> byte list \<Rightarrow> nat \<Rightarrow> ws_manager \<Rightarrow> bool" where
  "uploading U got n m \<longleftrightarrow> (\<exists>ts. wm_transfers m = Table ts \<and> up_slot U < length ts \<and> ts ! up_slot U = Some (up_addr U)) \<and>
     (\<exists>c. wm_heap m (up_addr U) = Some c \<and> context_of U got n c) \<and> wm_files m (up_path U) = Some got \<and> holders (up_path U) {up_addr U} (wm_heap m)"

definition receipt :: "upload \<Rightarrow> transfer_env \<Rightarrow> byte list \<Rightarrow> 64 word \<times> string" where
  "receipt U e content = (up_client U, complete_text (up_filename U) (up_size U) (up_id U)
     (if tv_hash e then Some (concat (map hex02 (take 32 (tv_sha256 e content)))) else None))"

definition stored :: "upload \<Rightarrow> transfer_env set \<Rightarrow> byte list \<Rightarrow> ws_manager \<Rightarrow> bool" where
  "stored U E got m \<longleftrightarrow> wm_files m (up_path U) = Some got \<and> holders (up_path U) {} (wm_heap m) \<and> (\<forall>a c. wm_heap m a = Some c \<longrightarrow> wt_id c \<noteq> up_id U) \<and>
     (\<exists>e \<in> E. receipt U e got \<in> set (wm_sent m))"

definition phase :: "upload \<Rightarrow> transfer_env set \<Rightarrow> byte list \<Rightarrow> nat \<Rightarrow> ws_manager \<Rightarrow> bool" where
  "phase U E got n m \<longleftrightarrow> unat (up_id U) < unat (wm_next_transfer_id m) \<and> (if length got < unat (up_size U) then uploading U got n m else stored U E got m)"

fun foreign :: "upload \<Rightarrow> ws_op \<Rightarrow> bool" where
  "foreign U (Request client filename file_size encrypted chunk_size) \<longleftrightarrow> chunk_size \<noteq> 0 \<and> upload_file client filename \<noteq> up_path U"
| "foreign U (Chunk client i index chunk) \<longleftrightarrow> \<not> (client = up_client U \<and> i = up_id U)"

lemma holders_cong: "holders p A h \<Longrightarrow> h a = Some c \<Longrightarrow> same_place c c' \<Longrightarrow> holders p A (h(a \<mapsto> c'))"
  by (auto simp: holders_def same_place_def)

lemma holders_drop: "holders p A h \<Longrightarrow> holders p A (h(a := None))"
  by (auto simp: holders_def)

lemma stored_mono:
  assumes "stored U E got m" and "wm_files m' (up_path U) = wm_files m (up_path U)" and "holders (up_path U) {} (wm_heap m')"
    and "\<And>a c. wm_heap m' a = Some c \<Longrightarrow> wt_id c \<noteq> up_id U" and "set (wm_sent m) \<subseteq> set (wm_sent m')"
  shows "stored U E got m'"
proof -
  have "\<exists>e \<in> E. receipt U e got \<in> set (wm_sent m')" using assms(1,5) unfolding stored_def by blast
  then show ?thesis using assms by (simp add: stored_def)
qed

lemma phase_unchanged:
  assumes "phase U E got n m" and "unchanged m m'" and "unat (wm_next_transfer_id m) + 1 < 2 ^ 64"
  shows "phase U E got n m'"
proof -
  have "unat (wm_next_transfer_id m) \<le> unat (wm_next_transfer_id m')" using assms(2) next_id [OF assms(3)] by (auto simp: unchanged_def)
  moreover have "stored U E got m \<Longrightarrow> stored U E got m'" using assms(2) stored_mono [of U E got m m'] by (simp add: unchanged_def stored_def)
  ultimately show ?thesis using assms(1,2) by (auto simp: phase_def unchanged_def uploading_def)
qed

lemma phase_added:
  assumes inv: "ws_inv m" and ph: "phase U E got n m" and ad: "added i c path m m'" and c: "wt_id c = wm_next_transfer_id m" "open_path c = Some path"
    and path: "path \<noteq> up_path U" and nid: "unat (wm_next_transfer_id m) + 1 < 2 ^ 64"
  shows "phase U E got n m'"
proof -
  have less: "unat (up_id U) < unat (wm_next_transfer_id m')" "wt_id c \<noteq> up_id U" using ph ad next_id [OF nid] c(1) by (auto simp: phase_def added_def)
  have files: "wm_files m' (up_path U) = wm_files m (up_path U)" and sent: "set (wm_sent m) \<subseteq> set (wm_sent m')" and heap: "wm_heap m' = (wm_heap m)(wm_next m \<mapsto> c)"
    using ad path by (auto simp: added_def)
  have hold: "holders (up_path U) A (wm_heap m) \<Longrightarrow> holders (up_path U) A (wm_heap m')" for A using c(2) path heap by (auto simp: holders_def)
  show ?thesis
  proof (cases "length got < unat (up_size U)")
    case True
    then have up: "uploading U got n m" using ph by (simp add: phase_def)
    then have "up_addr U \<noteq> wm_next m" using heap_fresh [OF inv] by (auto simp: uploading_def)
    then have "uploading U got n m'" using up ad files hold heap by (auto simp: uploading_def added_def nth_list_update)
    then show ?thesis using True less by (simp add: phase_def)
  next
    case False
    then have st: "stored U E got m" using ph by (simp add: phase_def)
    have "stored U E got m'" using st files hold less(2) heap sent by (intro stored_mono [OF st]) (auto simp: stored_def split: if_splits)
    then show ?thesis using False less by (simp add: phase_def)
  qed
qed

lemma phase_touched:
  assumes inv: "ws_inv m" and ph: "phase U E got n m" and t: "touched slot a c m m'" and a: "wm_heap m a = Some c" "wm_transfers m = Table ts" "slot < length ts" "ts ! slot = Some a"
    and other: "\<not> (wt_client c = up_client U \<and> wt_id c = up_id U)"
  shows "phase U E got n m'"
proof -
  have less: "unat (up_id U) < unat (wm_next_transfer_id m')" using ph t by (auto simp: phase_def touched_def)
  have sent: "set (wm_sent m) \<subseteq> set (wm_sent m')" using t by (auto simp: touched_def)
  have heap: "(\<exists>c'. wm_heap m' = (wm_heap m)(a \<mapsto> c') \<and> same_place c c') \<or> wm_heap m' = (wm_heap m)(a := None)" using t by (auto simp: touched_def)
  have hold: "holders (up_path U) A (wm_heap m) \<Longrightarrow> holders (up_path U) A (wm_heap m')" for A using heap holders_cong [where h = "wm_heap m", OF _ a(1)] holders_drop by auto
  have files: "wm_files m' (up_path U) = wm_files m (up_path U)" if "holders (up_path U) A (wm_heap m)" "a \<notin> A" for A
  proof -
    have "Some (up_path U) \<noteq> open_path c" using that a(1) unfolding holders_def by metis
    then show ?thesis using t by (simp add: touched_def)
  qed
  show ?thesis
  proof (cases "length got < unat (up_size U)")
    case True
    then have up: "uploading U got n m" using ph by (simp add: phase_def)
    then have ne: "up_addr U \<noteq> a" using other a(1) by (auto simp: uploading_def context_of_def)
    then have "slot \<noteq> up_slot U" using up a by (auto simp: uploading_def)
    then have "\<exists>ts'. wm_transfers m' = Table ts' \<and> up_slot U < length ts' \<and> ts' ! up_slot U = Some (up_addr U)"
      using up t a by (auto simp: uploading_def touched_def)
    moreover have "wm_heap m' (up_addr U) = wm_heap m (up_addr U)" using heap ne by auto
    ultimately have "uploading U got n m'" using up hold files [of "{up_addr U}"] ne by (auto simp: uploading_def)
    then show ?thesis using True less by (simp add: phase_def)
  next
    case False
    then have st: "stored U E got m" using ph by (simp add: phase_def)
    then have none: "wt_id d \<noteq> up_id U" if "wm_heap m b = Some d" for b d using that by (simp add: stored_def)
    have "wt_id d \<noteq> up_id U" if "wm_heap m' b = Some d" for b d using heap that none none [OF a(1)] by (auto simp: same_place_def split: if_splits)
    then have "stored U E got m'" using st hold files [of "{}"] sent by (intro stored_mono [OF st]) (auto simp: stored_def)
    then show ?thesis using False less by (simp add: phase_def)
  qed
qed

lemma foreign_step:
  assumes inv: "ws_inv m" and ph: "phase U E got n m" and f: "foreign U x" and nid: "unat (wm_next_transfer_id m) + 1 < 2 ^ 64"
  shows "\<exists>m'. transfer_step e x m = Done m' \<and> ws_inv m' \<and> phase U E got n m' \<and> unat (wm_next_transfer_id m') \<le> unat (wm_next_transfer_id m) + 1"
proof (cases x)
  case (Request client fn sz enc cs)
  with f have cs: "cs \<noteq> 0" "upload_file client fn \<noteq> up_path U" by simp_all
  obtain res m' where m': "ws_upload_request e client fn sz enc cs m = Done (res, m')"
    "unchanged m m' \<or> (\<exists>i. added i (fresh_upload e client fn sz enc cs (wm_next_transfer_id m)) (upload_file client fn) m m')"
    using request_effect [OF inv cs(1), of e client fn sz enc] by blast
  have "ws_inv m' \<and> phase U E got n m' \<and> unat (wm_next_transfer_id m') \<le> unat (wm_next_transfer_id m) + 1" using m'(2)
  proof (elim disjE exE)
    assume "unchanged m m'"
    then show ?thesis using inv_unchanged [OF inv _ nid] phase_unchanged [OF ph _ nid] next_id [OF nid] by (auto simp: unchanged_def)
  next
    fix i assume ad: "added i (fresh_upload e client fn sz enc cs (wm_next_transfer_id m)) (upload_file client fn) m m'"
    then have "wm_next_transfer_id m' = wm_next_transfer_id m + 1" by (simp add: added_def)
    with inv_added [OF inv ad _ _ nid] phase_added [OF inv ph ad _ _ cs(2) nid] next_id [OF nid] show ?thesis by (simp add: open_path_def)
  qed
  then show ?thesis using m'(1) Request by simp
next
  case (Chunk client i index chunk)
  obtain ts where ts: "wm_transfers m = Table ts" using inv by (auto simp: ws_inv_def)
  obtain res m' where m': "ws_upload_chunk e client i index chunk m = Done (res, m')"
    "m' = m \<or> (\<exists>slot a c. slot < length ts \<and> ts ! slot = Some a \<and> wm_heap m a = Some c \<and> wt_id c = i \<and> wt_client c = client \<and> touched slot a c m m')"
    using chunk_effect [OF inv ts, of e client i index chunk] by blast
  have "ws_inv m' \<and> phase U E got n m' \<and> wm_next_transfer_id m' = wm_next_transfer_id m" using m'(2)
  proof (elim disjE exE conjE)
    fix slot a c assume s: "slot < length ts" "ts ! slot = Some a" "wm_heap m a = Some c" "wt_id c = i" "wt_client c = client" and t: "touched slot a c m m'"
    have "\<not> (wt_client c = up_client U \<and> wt_id c = up_id U)" using f Chunk s by simp
    with inv_touched [OF inv t ts s(1-3)] phase_touched [OF inv ph t s(3) ts s(1,2)] t show ?thesis by (simp add: touched_def)
  qed (use inv ph in simp)
  then show ?thesis using m'(1) Chunk by auto
qed

section \<open>The upload itself\<close>

lemma length_encrypt [simp]: "length (encrypt_data d key) = length d"
  by (simp add: encrypt_data_def)

lemma decrypt_encrypt: "decrypt_data (encrypt_data d key) key = d"
  by (rule nth_equalityI) (simp_all add: decrypt_data_def encrypt_data_def xor.assoc)

text \<open>What the client sends for a chunk of the file.\<close>

definition wire :: "upload \<Rightarrow> byte list \<Rightarrow> byte list" where
  "wire U d = (if up_encrypted U then encrypt_data d (up_key U) else d)"

lemma length_wire [simp]: "length (wire U d) = length d"
  by (simp add: wire_def)

lemma received_wire: "context_of U got n c \<Longrightarrow> received_bytes c (wire U d) = d"
  by (auto simp: context_of_def received_bytes_def wire_def decrypt_encrypt)

lemma write_at_end: "write_at (length got) d got = got @ d"
  by (simp add: write_at_def)

lemma chunk_keeps_inv:
  assumes "ws_inv m" and "ws_upload_chunk e client i index chunk m = Done (res, m')"
  shows "ws_inv m'" "wm_next_transfer_id m' = wm_next_transfer_id m"
proof -
  obtain ts where ts: "wm_transfers m = Table ts" using assms(1) by (auto simp: ws_inv_def)
  have "m' = m \<or> (\<exists>slot a c. slot < length ts \<and> ts ! slot = Some a \<and> wm_heap m a = Some c \<and> touched slot a c m m')"
    using chunk_effect [OF assms(1) ts, of e client i index chunk] assms(2) by auto
  then show "ws_inv m'" "wm_next_transfer_id m' = wm_next_transfer_id m" using inv_touched [OF assms(1) _ ts] assms(1) by (blast, auto simp: touched_def)
qed

lemma upload_found:
  assumes inv: "ws_inv m" and up: "uploading U got n m" and ts: "wm_transfers m = Table ts"
  shows "find_transfer (wm_heap m) (up_client U) (up_id U) ts = Done (Some (up_slot U, up_addr U))"
proof -
  have ok: "slots_ok ts (wm_heap m)" "heap_ok (wm_heap m) (wm_next m) (wm_next_transfer_id m)" using inv ts by (auto simp: ws_inv_def)
  obtain c where c: "wm_heap m (up_addr U) = Some c" "wt_id c = up_id U" "wt_client c = up_client U" and slot: "up_slot U < length ts" "ts ! up_slot U = Some (up_addr U)"
    using up ts by (auto simp: uploading_def context_of_def)
  have valid: "\<forall>i a. i < length ts \<longrightarrow> ts ! i = Some a \<longrightarrow> wm_heap m a \<noteq> None" using ok(1) by (simp add: slots_ok_def)
  obtain r where r: "find_transfer (wm_heap m) (up_client U) (up_id U) ts = Done r"
    "case r of None \<Rightarrow> \<forall>k a c. k < length ts \<longrightarrow> ts ! k = Some a \<longrightarrow> wm_heap m a = Some c \<longrightarrow> \<not> (wt_id c = up_id U \<and> wt_client c = up_client U)
     | Some (k, a) \<Rightarrow> k < length ts \<and> ts ! k = Some a \<and> (\<exists>c. wm_heap m a = Some c \<and> wt_id c = up_id U \<and> wt_client c = up_client U)"
    using find_transfer_ok [OF valid, of "up_client U" "up_id U"] by (elim exE conjE) (rule that)
  from r(2) c slot obtain k a d where k: "r = Some (k, a)" "k < length ts" "ts ! k = Some a" "wm_heap m a = Some d" "wt_id d = up_id U"
    by (cases r) auto
  have "a = up_addr U" using ok(2) k(4,5) c(1,2) unfolding heap_ok_def by metis
  moreover from this have "k = up_slot U" using ok(1) k(2,3) slot unfolding slots_ok_def by metis
  ultimately show ?thesis using r(1) k(1) by simp
qed

lemma upload_chunk_written:
  assumes inv: "ws_inv m" and up: "uploading U got n m" and c: "wm_heap m (up_addr U) = Some c" and e: "tv_alloc e" "length d \<le> tv_room e"
  shows "ws_upload_chunk e (up_client U) (up_id U) (of_nat n) (wire U d) m =
    chunk_written e (up_client U) (up_id U) (up_slot U) (up_addr U) (c\<lparr>wt_file_handle := Some (Writing (up_path U) (length (got @ d)))\<rparr>) (length d) (length d)
      (m\<lparr>wm_files := (wm_files m)(up_path U \<mapsto> got @ d)\<rparr>)"
proof -
  obtain ts where ts: "wm_transfers m = Table ts" using inv by (auto simp: ws_inv_def)
  have ctx: "context_of U got n c" and content: "wm_files m (up_path U) = Some got" using up c by (auto simp: uploading_def)
  have f: "wt_file_handle c = Some (Writing (up_path U) (length got))" and cur: "wt_current_chunk c = of_nat n" using ctx by (auto simp: context_of_def)
  have "fwrite (tv_room e) (received_bytes c (wire U d)) (Writing (up_path U) (length got)) (wm_files m) =
    (length d, Writing (up_path U) (length (got @ d)), (wm_files m)(up_path U \<mapsto> got @ d))"
    using e(2) content by (simp add: received_wire [OF ctx] write_at_end min_def Let_def)
  with chunk_found [OF ts upload_found [OF inv up ts] c f, of "of_nat n" e "wire U d"] cur e(1) show ?thesis by simp
qed

lemma my_chunk_step:
  assumes inv: "ws_inv m" and ph: "phase U E got n m" and more: "length got < unat (up_size U)" and fits: "length got + length d \<le> unat (up_size U)"
    and e: "e \<in> E" "tv_alloc e" "length d \<le> tv_room e" "unat (up_size U) \<le> tv_kept e"
  shows "\<exists>m'. transfer_step e (Chunk (up_client U) (up_id U) (of_nat n) (wire U d)) m = Done m' \<and> ws_inv m' \<and> phase U E (got @ d) (Suc n) m' \<and>
    wm_next_transfer_id m' = wm_next_transfer_id m"
proof -
  have up: "uploading U got n m" using ph more by (simp add: phase_def)
  then obtain ts c where ts: "wm_transfers m = Table ts" and c: "wm_heap m (up_addr U) = Some c" and ctx: "context_of U got n c" by (auto simp: uploading_def)
  define c1 where "c1 = advance e (length d) (c\<lparr>wt_file_handle := Some (Writing (up_path U) (length (got @ d)))\<rparr>)"
  define m1 where "m1 = send_progress_update (up_id U) (wt_bytes_transferred c1) (set_context (up_addr U) c1 (m\<lparr>wm_files := (wm_files m)(up_path U \<mapsto> got @ d)\<rparr>))"
  have c1: "context_of U (got @ d) (Suc n) c1" using ctx by (simp add: context_of_def c1_def)
  have m1: "wm_transfers m1 = Table ts" "wm_heap m1 = (wm_heap m)(up_addr U \<mapsto> c1)" "wm_files m1 = (wm_files m)(up_path U \<mapsto> got @ d)" "wm_sent m1 = wm_sent m"
    "wm_next_transfer_id m1 = wm_next_transfer_id m" using ts by (simp_all add: m1_def)
  have hold: "holders (up_path U) {up_addr U} (wm_heap m)" using up by (simp add: uploading_def)
  have bytes: "wt_bytes_transferred c1 = of_nat (length (got @ d))" "wt_file_size c1 = up_size U" using c1 by (simp_all add: context_of_def)
  have "unat (wt_bytes_transferred c1) = length (got @ d)" unfolding bytes(1)
    by (rule unat_of_nat_64) (use fits unsigned_less [of "up_size U", where ?'a = nat] in simp)
  then have full: "wt_bytes_transferred c1 \<ge> wt_file_size c1 \<longleftrightarrow> \<not> length (got @ d) < unat (up_size U)" using bytes(2) by (simp add: word_le_nat_alt not_less)
  have eq: "ws_upload_chunk e (up_client U) (up_id U) (of_nat n) (wire U d) m =
    (if wt_bytes_transferred c1 \<ge> wt_file_size c1 then finish_upload e (up_client U) (up_id U) (up_slot U) (up_addr U) c1 m1 else Done (0, m1))"
    using upload_chunk_written [OF inv up c e(2,3)] by (simp add: chunk_written_def Let_def c1_def m1_def)
  have "\<exists>m'. ws_upload_chunk e (up_client U) (up_id U) (of_nat n) (wire U d) m = Done (0, m') \<and> phase U E (got @ d) (Suc n) m'"
  proof (cases "length (got @ d) < unat (up_size U)")
    case True
    have "uploading U (got @ d) (Suc n) m1" using up c1 m1 hold ts by (auto simp: uploading_def holders_def)
    then show ?thesis using eq full True ph m1(5) by (simp add: phase_def)
  next
    case False
    obtain m' where m': "finish_upload e (up_client U) (up_id U) (up_slot U) (up_addr U) c1 m1 = Done (0, m')" "wm_heap m' = (wm_heap m1)(up_addr U := None)"
      "wm_files m' = fclose (tv_kept e) (wt_file_handle c1) (wm_files m1)" "wm_next_transfer_id m' = wm_next_transfer_id m1"
      "wm_sent m' = wm_sent m1 @ [(up_client U, complete_text (wt_filename c1) (wt_file_size c1) (up_id U) (calculate_file_hash e (wt_filepath c1) (close_upload e c1 m1)))]"
      using finish_effect [OF m1(1), of "up_addr U" e "up_client U" "up_id U" "up_slot U" c1] m1(2) by auto
    have "fclose (tv_kept e) (wt_file_handle c1) (wm_files m1) = wm_files m1"
      using c1 m1(3) e(4) fits by (auto simp: context_of_def fun_eq_iff)
    then have kept: "close_upload e c1 m1 = m1" "wm_files m' = wm_files m1" using m'(3) by (simp_all add: close_upload_def)
    have "calculate_file_hash e (wt_filepath c1) (close_upload e c1 m1) = (if tv_hash e then Some (concat (map hex02 (take 32 (tv_sha256 e (got @ d))))) else None)"
      using c1 m1(3) by (simp add: calculate_file_hash_def context_of_def kept)
    then have "receipt U e (got @ d) \<in> set (wm_sent m')" using m'(5) c1 by (simp add: receipt_def context_of_def)
    moreover have "holders (up_path U) {} (wm_heap m')" using m'(2) m1(2) hold by (auto simp: holders_def)
    moreover have "wt_id x \<noteq> up_id U" if "wm_heap m' a = Some x" for a x
      using inv that m'(2) m1(2) c ctx unfolding ws_inv_def heap_ok_def context_of_def by (auto split: if_splits)
    ultimately have "stored U E (got @ d) m'" using kept(2) m1(3) e(1) by (auto simp: stored_def)
    then show ?thesis using eq full False ph m1(5) m'(1,4) by (simp add: phase_def)
  qed
  then show ?thesis using chunk_keeps_inv [OF inv] by auto
qed

fun sends :: "upload \<Rightarrow> nat \<Rightarrow> byte list \<Rightarrow> transfer_env \<times> ws_op \<Rightarrow> bool" where
  "sends U n d (e, x) \<longleftrightarrow> x = Chunk (up_client U) (up_id U) (of_nat n) (wire U d) \<and> tv_alloc e \<and> length d \<le> tv_room e \<and> unat (up_size U) \<le> tv_kept e"

text \<open>The chunks of one upload, in order, between any operations of other uploads.\<close>

fun interleaved :: "upload \<Rightarrow> nat \<Rightarrow> byte list list \<Rightarrow> (transfer_env \<times> ws_op) list \<Rightarrow> bool" where
  "interleaved U n cs [] \<longleftrightarrow> cs = []"
| "interleaved U n cs (x # xs) \<longleftrightarrow> foreign U (snd x) \<and> interleaved U n cs xs \<or> (\<exists>d ds. cs = d # ds \<and> sends U n d x \<and> interleaved U (Suc n) ds xs)"

lemma run_phase:
  assumes "ws_inv m" and "phase U E got n m" and "interleaved U n cs xs" and "fst ` set xs \<subseteq> E" and "\<forall>d \<in> set cs. d \<noteq> []"
    and "length got + length (concat cs) = unat (up_size U)" and "unat (wm_next_transfer_id m) + length xs < 2 ^ 64"
  shows "\<exists>m'. transfer_run xs m = Done m' \<and> phase U E (got @ concat cs) (n + length cs) m'"
  using assms
proof (induction xs arbitrary: m got n cs)
  case (Cons y ys)
  obtain e x where y: "y = (e, x)" by (cases y)
  have nid: "unat (wm_next_transfer_id m) + 1 < 2 ^ 64" and E: "e \<in> E" "fst ` set ys \<subseteq> E" using Cons.prems(4,7) y by auto
  from Cons.prems(3) y consider "foreign U x" "interleaved U n cs ys" | d ds where "cs = d # ds" "sends U n d (e, x)" "interleaved U (Suc n) ds ys" by auto
  then show ?case
  proof cases
    case 1
    obtain m1 where m1: "transfer_step e x m = Done m1" "ws_inv m1" "phase U E got n m1" "unat (wm_next_transfer_id m1) \<le> unat (wm_next_transfer_id m) + 1"
      using foreign_step [OF Cons.prems(1,2) 1(1) nid, of e] by (elim exE conjE) (rule that)
    have "unat (wm_next_transfer_id m1) + length ys < 2 ^ 64" using m1(4) Cons.prems(7) by simp
    from Cons.IH [OF m1(2,3) 1(2) E(2) Cons.prems(5,6) this] show ?thesis using m1(1) y by simp
  next
    case 2
    have d: "d \<noteq> []" "length got + length d \<le> unat (up_size U)" using Cons.prems(5,6) 2(1) by auto
    then have "length got < unat (up_size U)" by (cases d) auto
    then obtain m1 where m1: "transfer_step e x m = Done m1" "ws_inv m1" "phase U E (got @ d) (Suc n) m1" "wm_next_transfer_id m1 = wm_next_transfer_id m"
      using my_chunk_step [OF Cons.prems(1,2) _ d(2) E(1)] 2(2) by auto
    have "length (got @ d) + length (concat ds) = unat (up_size U)" "unat (wm_next_transfer_id m1) + length ys < 2 ^ 64" "\<forall>d \<in> set ds. d \<noteq> []"
      using m1(4) Cons.prems(5-7) 2(1) by simp_all
    with Cons.IH [OF m1(2,3) 2(3) E(2)] show ?thesis using m1(1) y 2(1) by simp
  qed
qed simp

text \<open>The operations that come before.\<close>

fun avoids :: "string \<Rightarrow> ws_op \<Rightarrow> bool" where
  "avoids p (Request client filename file_size encrypted chunk_size) \<longleftrightarrow> chunk_size \<noteq> 0 \<and> upload_file client filename \<noteq> p"
| "avoids p (Chunk client i index chunk) \<longleftrightarrow> True"

lemma avoiding_step:
  assumes inv: "ws_inv m" and hold: "holders p {} (wm_heap m)" and av: "avoids p x" and nid: "unat (wm_next_transfer_id m) + 1 < 2 ^ 64"
  shows "\<exists>m'. transfer_step e x m = Done m' \<and> ws_inv m' \<and> holders p {} (wm_heap m') \<and> unat (wm_next_transfer_id m') \<le> unat (wm_next_transfer_id m) + 1"
proof (cases x)
  case (Request client fn sz enc cs)
  with av have cs: "cs \<noteq> 0" "upload_file client fn \<noteq> p" by simp_all
  obtain res m' where m': "ws_upload_request e client fn sz enc cs m = Done (res, m')"
    "unchanged m m' \<or> (\<exists>i. added i (fresh_upload e client fn sz enc cs (wm_next_transfer_id m)) (upload_file client fn) m m')"
    using request_effect [OF inv cs(1), of e client fn sz enc] by blast
  have "ws_inv m' \<and> holders p {} (wm_heap m') \<and> unat (wm_next_transfer_id m') \<le> unat (wm_next_transfer_id m) + 1" using m'(2)
  proof (elim disjE exE)
    assume "unchanged m m'"
    then show ?thesis using inv_unchanged [OF inv _ nid] hold next_id [OF nid] by (auto simp: unchanged_def)
  next
    fix i assume ad: "added i (fresh_upload e client fn sz enc cs (wm_next_transfer_id m)) (upload_file client fn) m m'"
    have "holders p {} (wm_heap m')" using ad hold cs(2) by (auto simp: added_def holders_def open_path_def)
    with inv_added [OF inv ad _ _ nid] ad next_id [OF nid] show ?thesis by (simp add: added_def)
  qed
  then show ?thesis using m'(1) Request by simp
next
  case (Chunk client i index chunk)
  obtain ts where ts: "wm_transfers m = Table ts" using inv by (auto simp: ws_inv_def)
  obtain res m' where m': "ws_upload_chunk e client i index chunk m = Done (res, m')"
    "m' = m \<or> (\<exists>slot a c. wm_heap m a = Some c \<and> touched slot a c m m')"
    using chunk_effect [OF inv ts, of e client i index chunk] by blast
  have "holders p {} (wm_heap m')" using m'(2)
  proof (elim disjE exE conjE)
    fix slot a c assume a: "wm_heap m a = Some c" and t: "touched slot a c m m'"
    then consider c' where "wm_heap m' = (wm_heap m)(a \<mapsto> c')" "same_place c c'" | "wm_heap m' = (wm_heap m)(a := None)" by (auto simp: touched_def)
    then show ?thesis by cases (use holders_cong [where h = "wm_heap m", OF hold a] holders_drop [OF hold] in simp_all)
  qed (use hold in simp)
  then show ?thesis using m'(1) chunk_keeps_inv [OF inv m'(1)] Chunk by simp
qed

lemma avoiding_run:
  assumes "ws_inv m" and "holders p {} (wm_heap m)" and "\<forall>(e, x) \<in> set xs. avoids p x" and "unat (wm_next_transfer_id m) + length xs < 2 ^ 64"
  shows "\<exists>m'. transfer_run xs m = Done m' \<and> ws_inv m' \<and> holders p {} (wm_heap m') \<and> unat (wm_next_transfer_id m') \<le> unat (wm_next_transfer_id m) + length xs"
  using assms
proof (induction xs arbitrary: m)
  case (Cons y ys)
  obtain e x where y: "y = (e, x)" by (cases y)
  have nid: "unat (wm_next_transfer_id m) + 1 < 2 ^ 64" and av: "avoids p x" using Cons.prems(3,4) y by auto
  obtain m1 where m1: "transfer_step e x m = Done m1" "ws_inv m1" "holders p {} (wm_heap m1)" "unat (wm_next_transfer_id m1) \<le> unat (wm_next_transfer_id m) + 1"
    using avoiding_step [OF Cons.prems(1,2) av nid, of e] by (elim exE conjE) (rule that)
  have "unat (wm_next_transfer_id m1) + length ys < 2 ^ 64" "\<forall>(e, x) \<in> set ys. avoids p x" using m1(4) Cons.prems(3,4) y by simp_all
  from Cons.IH [OF m1(2,3) this(2,1)] m1(1,4) y show ?case by fastforce
qed simp

lemma init_inv:
  "ws_inv (snd (file_transfer_manager_init True True True max_transfers no_manager))"
  "holders p {} (wm_heap (snd (file_transfer_manager_init True True True max_transfers no_manager)))"
  "wm_next_transfer_id (snd (file_transfer_manager_init True True True max_transfers no_manager)) = 1"
  by (simp_all add: file_transfer_manager_init_def no_manager_def ws_inv_def slots_ok_def heap_ok_def holders_def)

definition slot_of :: "slots \<Rightarrow> nat \<Rightarrow> nat" where
  "slot_of t a = (case t of Table ts \<Rightarrow> (case first_index (\<lambda>x. x = Some a) ts of Some i \<Rightarrow> i | None \<Rightarrow> 0) | _ \<Rightarrow> 0)"

text \<open>The upload that a request in state \<open>m\<close> started, which led to \<open>m1\<close>.\<close>

definition the_upload :: "transfer_env \<Rightarrow> 64 word \<Rightarrow> string \<Rightarrow> 64 word \<Rightarrow> bool \<Rightarrow> ws_manager \<Rightarrow> ws_manager \<Rightarrow> upload" where
  "the_upload e client filename file_size encrypted m m1 =
     \<lparr>up_addr = wm_next m, up_slot = slot_of (wm_transfers m1) (wm_next m), up_client = client, up_id = wm_next_transfer_id m, up_filename = take 255 filename,
      up_path = upload_file client filename, up_size = file_size, up_key = tv_key e, up_encrypted = encrypted\<rparr>"

lemma request_starts:
  assumes inv: "ws_inv m" and hold: "holders (upload_file client filename) {} (wm_heap m)" and req: "ws_upload_request e client filename file_size encrypted chunk_size m = Done (0, m1)"
    and nid: "unat (wm_next_transfer_id m) + 1 < 2 ^ 64" and pos: "0 < unat file_size"
  shows "ws_inv m1" "phase (the_upload e client filename file_size encrypted m m1) E [] 0 m1" "wm_next_transfer_id m1 = wm_next_transfer_id m + 1"
proof -
  let ?c = "fresh_upload e client filename file_size encrypted chunk_size (wm_next_transfer_id m)"
  have "chunk_size \<noteq> 0" using req by (auto simp: ws_upload_request_def create_transfer_context_def split: if_splits)
  then obtain i where ad: "added i ?c (upload_file client filename) m m1" using request_effect [OF inv, of chunk_size e client filename file_size encrypted] req by auto
  show inv1: "ws_inv m1" by (rule inv_added [OF inv ad _ _ nid]) simp_all
  show id1: "wm_next_transfer_id m1 = wm_next_transfer_id m + 1" using ad by (simp add: added_def)
  obtain ts where ts: "wm_transfers m = Table ts" "i < length ts" "wm_transfers m1 = Table (ts[i := Some (wm_next m)])" using ad by (auto simp: added_def)
  let ?ts = "ts[i := Some (wm_next m)]"
  have ok: "slots_ok ?ts (wm_heap m1)" using inv1 ts(3) by (auto simp: ws_inv_def)
  have "slot_of (wm_transfers m1) (wm_next m) = i"
  proof (cases "first_index (\<lambda>x. x = Some (wm_next m)) ?ts")
    case None
    then show ?thesis using ts(2) set_update_memI [OF ts(2), of "Some (wm_next m)"] by (auto simp: first_index_None)
  next
    case (Some j)
    have "j < length ts" "?ts ! j = Some (wm_next m)" using first_index_Some [OF Some] by simp_all
    then have "j = i" using ok ts(2) unfolding slots_ok_def by (metis length_list_update nth_list_update_eq)
    then show ?thesis using Some ts(3) by (simp add: slot_of_def)
  qed
  moreover have "holders (upload_file client filename) {wm_next m} (wm_heap m1)" using hold ad by (auto simp: holders_def added_def)
  ultimately have "uploading (the_upload e client filename file_size encrypted m m1) [] 0 m1"
    using ad ts by (auto simp: uploading_def the_upload_def context_of_def added_def)
  then show "phase (the_upload e client filename file_size encrypted m m1) E [] 0 m1" using pos next_id [OF nid] id1 by (simp add: phase_def the_upload_def)
qed


text \<open>The file name of a request is not checked: a client can name, and empty, the file of another one.\<close>

lemma upload_of_another_client: "upload_file 8 ''../client_7/a'' = upload_file 7 ''a''"
proof -
  have "char_of (55 :: nat) = CHR ''7''" by code_simp
  then show ?thesis by (simp del: named_upload add: upload_file_def named_file_def upload_path_def snprintf_def dec_nat.simps)
qed

text \<open>A file of three bytes in two encrypted chunks, between the request and a chunk of another client.\<close>

definition example_transfer_env :: transfer_env where
  "example_transfer_env = \<lparr>tv_alloc = True, tv_opens = True, tv_room = 1000, tv_kept = 1000, tv_hash = True, tv_queued = True, tv_now = 0, tv_key = replicate 32 1,
     tv_sha256 = (\<lambda>_. replicate 32 0), tv_rnd = id\<rparr>"


section \<open>A finished download\<close>

lemma download_loop_keeps:
  "download_loop bufs c m = (c', m') \<Longrightarrow> wt_id c' = wt_id c \<and> wt_client c' = wt_client c \<and> wt_current_chunk c' = wt_current_chunk c \<and>
     wm_transfers m' = wm_transfers m \<and> wm_heap m' = wm_heap m"
  by (induction bufs arbitrary: c m) (fastforce simp: Let_def)+

definition fresh_download :: "transfer_env \<Rightarrow> 64 word \<Rightarrow> string \<Rightarrow> bool \<Rightarrow> byte list \<Rightarrow> 64 word \<Rightarrow> ws_transfer" where
  "fresh_download e client filename encrypted content i =
     download_context e encrypted (download_path filename) (new_context e client filename (of_nat (length content)) False i)"

lemma fresh_download_simps [simp]:
  "wt_id (fresh_download e client fn enc content i) = i" "wt_client (fresh_download e client fn enc content i) = client"
  "wt_current_chunk (fresh_download e client fn enc content i) = 0" "wt_file_handle (fresh_download e client fn enc content i) = Some (Reading (named_file (download_path fn)))"
  by (simp_all add: fresh_download_def download_context_def new_context_def)

lemma send_key_tasks [simp]: "wm_tasks (send_key c i m) = wm_tasks m" "wm_tasks (send_text i t m) = wm_tasks m" "wm_tasks (put_slot ts k x n m) = wm_tasks m"
  "wm_tasks (set_context a c m) = wm_tasks m"
  by (simp_all add: send_key_def send_text_def put_slot_def set_context_def)

lemma download_started:
  assumes ts: "wm_transfers m = Table ts" and req: "ws_download_request e client filename encrypted m = Done (0, m1)" and "wm_tasks m = []" and "tv_queued e"
  shows "\<exists>i content. i < length ts \<and> wm_transfers m1 = Table (ts[i := Some (wm_next m)]) \<and> wm_tasks m1 = [wm_next m] \<and>
    wm_heap m1 = (wm_heap m)(wm_next m \<mapsto> fresh_download e client filename encrypted content (wm_next_transfer_id m))"
proof -
  obtain content where c: "wm_files m (named_file (download_path filename)) = Some content" using req by (auto simp: ws_download_request_def Let_def split: option.splits)
  have ok: "tv_alloc e" "tv_opens e"
    using req c by (auto simp: ws_download_request_def create_transfer_context_def destroy_transfer_context_def Let_def split: if_splits option.splits)
  show ?thesis
  proof (cases "first_index (\<lambda>x. x = None) ts")
    case None
    then show ?thesis using req c ok ts by (simp add: ws_download_request_def create_transfer_context_def save_context_def table_of_def Let_def)
  next
    case (Some i)
    have "i < length ts" using first_index_Some [OF Some] by simp
    then show ?thesis using req c ok ts Some assms(3,4)
      by (intro exI [of _ i] exI [of _ content]) (auto simp: ws_download_request_def create_transfer_context_def save_context_def table_of_def Let_def fresh_download_def)
  qed
qed

text \<open>(C40) A client can make the server use a null stream: once its download has been done by the pool, a chunk number 0 sent for the number of that transfer
  finds the context, which no one takes out of the table and whose stream is closed and null, and writes to it.\<close>

theorem finished_download_undefined:
  assumes "ws_inv m" and "wm_tasks m = []" and "ws_download_request e client filename encrypted m = Done (0, m1)" and "tv_queued e" and "pool_turn m1 = Done m2" and "tv_alloc e1"
  shows "ws_upload_chunk e1 client (wm_next_transfer_id m) 0 chunk m2 = Undefined_Behaviour"
proof -
  obtain ts where ts: "wm_transfers m = Table ts" and tab: "slots_ok ts (wm_heap m)" and heap: "heap_ok (wm_heap m) (wm_next m) (wm_next_transfer_id m)"
    using assms(1) by (auto simp: ws_inv_def)
  obtain i content where d: "i < length ts" "wm_transfers m1 = Table (ts[i := Some (wm_next m)])" "wm_tasks m1 = [wm_next m]"
    "wm_heap m1 = (wm_heap m)(wm_next m \<mapsto> fresh_download e client filename encrypted content (wm_next_transfer_id m))"
    using download_started [OF ts assms(3,2,4)] by (elim exE conjE) (rule that)
  obtain c where c: "wm_transfers m2 = wm_transfers m1" "wm_heap m2 = (wm_heap m)(wm_next m \<mapsto> c)" "wt_id c = wm_next_transfer_id m" "wt_client c = client"
    "wt_current_chunk c = 0" "wt_file_handle c = None"
    using assms(5) d(3,4) by (auto simp: pool_turn_def process_file_download_def Let_def split: prod.splits dest!: download_loop_keeps)
  let ?ts = "ts[i := Some (wm_next m)]"
  have ok: "slots_ok ?ts (wm_heap m2)" using slots_ok_add [where h = "wm_heap m", OF tab d(1) heap_fresh [OF assms(1)]] c(2) by simp
  then have valid: "\<forall>k a. k < length ?ts \<longrightarrow> ?ts ! k = Some a \<longrightarrow> wm_heap m2 a \<noteq> None" by (simp add: slots_ok_def)
  obtain r where r: "find_transfer (wm_heap m2) client (wm_next_transfer_id m) ?ts = Done r"
    "case r of None \<Rightarrow> \<forall>k a c. k < length ?ts \<longrightarrow> ?ts ! k = Some a \<longrightarrow> wm_heap m2 a = Some c \<longrightarrow> \<not> (wt_id c = wm_next_transfer_id m \<and> wt_client c = client)
     | Some (k, a) \<Rightarrow> k < length ?ts \<and> ?ts ! k = Some a \<and> (\<exists>c. wm_heap m2 a = Some c \<and> wt_id c = wm_next_transfer_id m \<and> wt_client c = client)"
    using find_transfer_ok [OF valid, of client "wm_next_transfer_id m"] by (elim exE conjE) (rule that)
  have "?ts ! i = Some (wm_next m)" "wm_heap m2 (wm_next m) = Some c" using d(1) c(2) by simp_all
  with r(2) d(1) c(3,4) obtain k a x where k: "r = Some (k, a)" "wm_heap m2 a = Some x" "wt_id x = wm_next_transfer_id m" by (cases r) auto
  have "wt_id y \<noteq> wm_next_transfer_id m" if "wm_heap m b = Some y" for b y using heap that unfolding heap_ok_def by fastforce
  then have "a = wm_next m" using k(2,3) c(2) by (auto split: if_splits)
  then show ?thesis using r(1) k(1) c d(2) assms(6) by (simp add: ws_upload_chunk_def table_of_def Let_def)
qed

theorem finished_download_undefined_witness:
  "\<exists>m1 m2. ws_download_request example_transfer_env 7 ''a'' False ((snd (file_transfer_manager_init True True True 2 no_manager))\<lparr>wm_files := [named_file (download_path ''a'') \<mapsto> []]\<rparr>) = Done (0, m1) \<and>
     pool_turn m1 = Done m2 \<and> ws_upload_chunk example_transfer_env 7 1 0 [] m2 = Undefined_Behaviour"
proof -
  let ?e = example_transfer_env
  let ?m = "(snd (file_transfer_manager_init True True True 2 no_manager))\<lparr>wm_files := [named_file (download_path ''a'') \<mapsto> []]\<rparr>"
  have two: "replicate 2 (None :: nat option) = [None, None]" by (simp add: numeral_2_eq_2)
  have m: "wm_next_transfer_id ?m = 1" "wm_transfers ?m = Table [None, None]" "wm_tasks ?m = []" "wm_next ?m = 0"
    using two by (simp_all add: file_transfer_manager_init_def no_manager_def)
  have inv: "ws_inv ?m" using init_inv(1) [of 2] by (simp add: ws_inv_def)
  obtain m1 where m1: "ws_download_request ?e 7 ''a'' False ?m = Done (0, m1)"
    by (simp add: ws_download_request_def create_transfer_context_def save_context_def table_of_def m [simplified] example_transfer_env_def Let_def)
  have q: "tv_queued ?e" "tv_alloc ?e" by (simp_all add: example_transfer_env_def)
  obtain content where t: "wm_tasks m1 = [0]" "wm_heap m1 0 = Some (fresh_download ?e 7 ''a'' False content 1)"
    using download_started [OF m(2) m1 m(3) q(1)] unfolding m by auto
  have "\<exists>m2. pool_turn m1 = Done m2" using t by (simp add: pool_turn_def process_file_download_def Let_def split: prod.split)
  then obtain m2 where m2: "pool_turn m1 = Done m2" by blast
  from finished_download_undefined [OF inv m(3) m1 q(1) m2 q(2), of "[]"] m1 m2 show ?thesis unfolding m by blast
qed

end
