(* ===== verification/Mem_Track.thy ===== *)
theory Mem_Track
  imports Hash_Table
begin

text \<open>
  The tracking allocator of \<open>server/src/utils.c\<close> (\<open>init_memory_tracking\<close> to \<open>utils_memory_leak_check\<close>). It records every block in a hash table, and
  the hash table is built with the same allocator: \<open>hash_table_create\<close> calls \<open>utils_malloc\<close> inside the routine of \<open>pthread_once\<close>, and
  \<open>hash_table_insert\<close> calls it while \<open>g_memory_tracking_mutex\<close> is held. Here the calls are followed into each other. The answers of the system's
  \<open>malloc\<close>, \<open>calloc\<close> and \<open>realloc\<close> are a sequence (\<open>ma_sys\<close>), addresses are numbers and \<open>ma_fmt\<close> is the text of \<open>%p\<close>. The first argument of the
  functions bounds the depth of the calls; \<open>None\<close> means that it was too small. A depth of two is enough.

  All other theories take the outcome of an allocation as an argument: they describe the code over an allocator that returns.
\<close>

section \<open>State\<close>

datatype once = Once_New | Once_Running | Once_Done

record memory_block =
  bk_ptr :: nat
  bk_size :: size_t
  bk_purpose :: string
  bk_time :: int

record mem_track =
  mk_once :: once
  mk_mutex :: bool
  mk_table :: "memory_block hash_table option"
  mk_calls :: nat

record mem_env =
  ma_sys :: "nat \<Rightarrow> nat option"
  ma_fmt :: "nat \<Rightarrow> string"
  ma_time :: "nat \<Rightarrow> int"

definition process_start :: mem_track where
  "process_start = \<lparr>mk_once = Once_New, mk_mutex = False, mk_table = None, mk_calls = 0\<rparr>"

definition system_call :: "mem_env \<Rightarrow> mem_track \<Rightarrow> nat option \<times> mem_track" where
  "system_call E s = (ma_sys E (mk_calls s), s\<lparr>mk_calls := mk_calls s + 1\<rparr>)"

text \<open>Sequencing of computations of bounded depth.\<close>

fun fbind :: "'a outcome option \<Rightarrow> ('a \<Rightarrow> 'b outcome option) \<Rightarrow> 'b outcome option" where
  "fbind None f = None"
| "fbind (Some (Done x)) f = f x"
| "fbind (Some Deadlock) f = Some Deadlock"
| "fbind (Some Undefined_Behaviour) f = Some Undefined_Behaviour"

definition returns :: "'a \<Rightarrow> 'a outcome option" where
  "returns x = Some (Done x)"

lemma fbind_returns [simp]: "fbind (returns x) f = f x"
  by (simp add: returns_def)

definition lock_table :: "mem_track \<Rightarrow> mem_track outcome option" where
  "lock_table s = Some (if mk_mutex s then Deadlock else Done (s\<lparr>mk_mutex := True\<rparr>))"

definition unlock_table :: "mem_track \<Rightarrow> mem_track" where
  "unlock_table s = s\<lparr>mk_mutex := False\<rparr>"

definition new_block :: "mem_env \<Rightarrow> nat \<Rightarrow> size_t \<Rightarrow> string option \<Rightarrow> mem_track \<Rightarrow> memory_block" where
  "new_block E p n purpose s =
     \<lparr>bk_ptr = p, bk_size = n, bk_purpose = take 255 (case purpose of Some t \<Rightarrow> t | None \<Rightarrow> ''unknown''), bk_time = ma_time E (mk_calls s)\<rparr>"

definition has_key :: "memory_block hash_table \<Rightarrow> string \<Rightarrow> bool" where
  "has_key t key \<longleftrightarrow> chain_update (ht_buckets t ! ht_index t key) key None \<noteq> None"

definition put_block :: "string \<Rightarrow> memory_block \<Rightarrow> mem_track \<Rightarrow> mem_track" where
  "put_block key b s = s\<lparr>mk_table := map_option (\<lambda>t. fst (snd (ht_insert True True t key (Some b)))) (mk_table s)\<rparr>"

definition drop_block :: "string \<Rightarrow> mem_track \<Rightarrow> mem_track" where
  "drop_block key s = s\<lparr>mk_table := map_option (\<lambda>t. fst (snd (ht_remove t key))) (mk_table s)\<rparr>"

section \<open>The allocator\<close>

text \<open>\<open>sizeof(hash_table_t)\<close> and \<open>sizeof(hash_table_node_t)\<close> with pointers of eight bytes: five and three members.\<close>

abbreviation sizeof_table :: size_t where "sizeof_table \<equiv> 40"
abbreviation sizeof_node :: size_t where "sizeof_node \<equiv> 24"

text \<open>A request to \<open>utils_malloc\<close> or to \<open>utils_calloc\<close>; the product of the latter is formed in 64 bits and checked by a division.\<close>

datatype request = Plain size_t | Cleared size_t size_t

fun request_size :: "request \<Rightarrow> size_t option" where
  "request_size (Plain n) = (if n = 0 then None else Some n)"
| "request_size (Cleared k n) = (if k = 0 \<or> n = 0 then None else if (k * n) div n \<noteq> k then None else Some (k * n))"

type_synonym allocator = "request \<Rightarrow> string option \<Rightarrow> mem_track \<Rightarrow> (nat option \<times> mem_track) outcome option"

text \<open>\<open>hash_table_create(1024, hash_string_djb2, free)\<close> over an allocator.\<close>

definition tracked_create :: "allocator \<Rightarrow> mem_track \<Rightarrow> (memory_block hash_table option \<times> mem_track) outcome option" where
  "tracked_create alloc s =
     fbind (alloc (Plain sizeof_table) (Some ''hash_table_create'') s) (\<lambda>(r, s1).
       if r = None then returns (None, s1)
       else fbind (alloc (Cleared (of_nat (round_up_prime primes 1024)) 8) (Some ''hash_table_buckets'') s1) (\<lambda>(r2, s2).
         if r2 = None then returns (None, s2)
         else returns (hash_table_create True True 1024 (Some hash_string_djb2) True, s2)))"

text \<open>\<open>pthread_once\<close>: a call from inside the routine waits for the routine to end.\<close>

definition init_memory_tracking :: "allocator \<Rightarrow> mem_track \<Rightarrow> mem_track outcome option" where
  "init_memory_tracking alloc s =
     (case mk_once s of
        Once_Done \<Rightarrow> returns s
      | Once_Running \<Rightarrow> Some Deadlock
      | Once_New \<Rightarrow>
          fbind (tracked_create alloc (s\<lparr>mk_once := Once_Running\<rparr>)) (\<lambda>(t, s1). returns (s1\<lparr>mk_table := t, mk_once := Once_Done\<rparr>)))"

text \<open>\<open>hash_table_insert\<close> on the tracking table, which does nothing for a null table; \<open>utils_strdup\<close> of the key is the second allocation of a node.\<close>

definition tracked_insert :: "allocator \<Rightarrow> string \<Rightarrow> memory_block \<Rightarrow> mem_track \<Rightarrow> mem_track outcome option" where
  "tracked_insert alloc key b s =
     (case mk_table s of
        None \<Rightarrow> returns s
      | Some t \<Rightarrow>
          if has_key t key then returns (put_block key b s)
          else fbind (alloc (Plain sizeof_node) (Some ''hash_table_node'') s) (\<lambda>(r, s1).
            if r = None then returns s1
            else fbind (alloc (Plain (of_nat (length key + 1))) (Some ''strdup'') s1) (\<lambda>(r2, s2).
              if r2 = None then returns s2 else returns (put_block key b s2))))"

text \<open>The block that describes an allocation; without memory for it the allocation is not recorded.\<close>

definition record_block :: "allocator \<Rightarrow> mem_env \<Rightarrow> nat \<Rightarrow> size_t \<Rightarrow> string option \<Rightarrow> mem_track \<Rightarrow> mem_track outcome option" where
  "record_block alloc E p n purpose s =
     (case system_call E s of
        (None, s1) \<Rightarrow> returns s1
      | (Some _, s1) \<Rightarrow>
          fbind (lock_table s1) (\<lambda>s2.
          fbind (tracked_insert alloc (take 31 (ma_fmt E p)) (new_block E p n purpose s) s2) (\<lambda>s3. returns (unlock_table s3))))"

primrec allocate :: "nat \<Rightarrow> mem_env \<Rightarrow> allocator" where
  "allocate 0 E = (\<lambda>req purpose s. None)"
| "allocate (Suc d) E = (\<lambda>req purpose s.
     case request_size req of
       None \<Rightarrow> returns (None, s)
     | Some n \<Rightarrow>
         (case system_call E s of
            (None, s1) \<Rightarrow> returns (None, s1)
          | (Some p, s1) \<Rightarrow>
              fbind (init_memory_tracking (allocate d E) s1) (\<lambda>s2.
              fbind (record_block (allocate d E) E p n purpose s2) (\<lambda>s3. returns (Some p, s3)))))"

definition utils_malloc :: "nat \<Rightarrow> mem_env \<Rightarrow> size_t \<Rightarrow> string option \<Rightarrow> mem_track \<Rightarrow> (nat option \<times> mem_track) outcome option" where
  "utils_malloc d E n purpose s = allocate d E (Plain n) purpose s"

definition utils_calloc :: "nat \<Rightarrow> mem_env \<Rightarrow> size_t \<Rightarrow> size_t \<Rightarrow> string option \<Rightarrow> mem_track \<Rightarrow> (nat option \<times> mem_track) outcome option" where
  "utils_calloc d E k n purpose s = allocate d E (Cleared k n) purpose s"

text \<open>\<open>hash_table_remove\<close> allocates nothing.\<close>

definition forget_block :: "mem_env \<Rightarrow> nat \<Rightarrow> mem_track \<Rightarrow> mem_track outcome option" where
  "forget_block E p s =
     (if mk_table s = None then returns s
      else fbind (lock_table s) (\<lambda>s1. returns (unlock_table (drop_block (take 31 (ma_fmt E p)) s1))))"

definition utils_free :: "nat \<Rightarrow> mem_env \<Rightarrow> nat option \<Rightarrow> mem_track \<Rightarrow> mem_track outcome option" where
  "utils_free d E ptr s =
     (case ptr of None \<Rightarrow> returns s
      | Some p \<Rightarrow> fbind (init_memory_tracking (allocate d E) s) (forget_block E p))"

definition utils_realloc :: "nat \<Rightarrow> mem_env \<Rightarrow> nat option \<Rightarrow> size_t \<Rightarrow> string option \<Rightarrow> mem_track \<Rightarrow> (nat option \<times> mem_track) outcome option" where
  "utils_realloc d E ptr n purpose s =
     (if n = 0 then fbind (utils_free d E ptr s) (\<lambda>s1. returns (None, s1))
      else case ptr of
        None \<Rightarrow> utils_malloc d E n purpose s
      | Some p \<Rightarrow>
          fbind (init_memory_tracking (allocate d E) s) (\<lambda>s1.
          fbind (forget_block E p s1) (\<lambda>s2.
            case system_call E s2 of
              (None, s3) \<Rightarrow> returns (None, s3)
            | (Some q, s3) \<Rightarrow>
                if mk_table s3 = None then returns (Some q, s3)
                else fbind (record_block (allocate d E) E q n purpose s3) (\<lambda>s4. returns (Some q, s4)))))"

text \<open>The number of blocks that the report counts; \<open>None\<close>: there is no table and nothing is printed.\<close>

definition utils_memory_leak_check :: "nat \<Rightarrow> mem_env \<Rightarrow> mem_track \<Rightarrow> (nat option \<times> mem_track) outcome option" where
  "utils_memory_leak_check d E s =
     fbind (init_memory_tracking (allocate d E) s) (\<lambda>s1.
       case mk_table s1 of
         None \<Rightarrow> returns (None, s1)
       | Some t \<Rightarrow> fbind (lock_table s1) (\<lambda>s2. returns (Some (ht_count t), unlock_table s2)))"

section \<open>Runs\<close>

datatype mem_op = M_Malloc size_t "string option" | M_Calloc size_t size_t "string option" | M_Realloc "nat option" size_t "string option"
  | M_Free "nat option" | M_Leak_Check

fun mem_step :: "nat \<Rightarrow> mem_env \<Rightarrow> mem_op \<Rightarrow> mem_track \<Rightarrow> (nat option \<times> mem_track) outcome option" where
  "mem_step d E (M_Malloc n purpose) s = utils_malloc d E n purpose s"
| "mem_step d E (M_Calloc k n purpose) s = utils_calloc d E k n purpose s"
| "mem_step d E (M_Realloc p n purpose) s = utils_realloc d E p n purpose s"
| "mem_step d E (M_Free p) s = fbind (utils_free d E p s) (\<lambda>s1. returns (None, s1))"
| "mem_step d E M_Leak_Check s = utils_memory_leak_check d E s"

fun mem_run :: "nat \<Rightarrow> mem_env \<Rightarrow> mem_op list \<Rightarrow> mem_track \<Rightarrow> (nat option list \<times> mem_track) outcome option" where
  "mem_run d E [] s = returns ([], s)"
| "mem_run d E (x # xs) s =
     fbind (mem_step d E x s) (\<lambda>(r, s1). fbind (mem_run d E xs s1) (\<lambda>(rs, s2). returns (r # rs, s2)))"

section \<open>No block is ever tracked\<close>

definition untracked :: "mem_track \<Rightarrow> bool" where
  "untracked s \<longleftrightarrow> mk_table s = None \<and> \<not> mk_mutex s \<and> mk_once s \<noteq> Once_Running"

definition ends_untracked :: "('a \<times> mem_track) outcome option \<Rightarrow> bool" where
  "ends_untracked r \<longleftrightarrow> r = Some Deadlock \<or> (\<exists>x s. r = Some (Done (x, s)) \<and> untracked s)"

lemma record_untracked:
  assumes "untracked s"
  shows "\<exists>k. record_block alloc E p n purpose s = Some (Done (s\<lparr>mk_calls := k\<rparr>))"
  using assms
  by (cases s) (auto simp: record_block_def tracked_insert_def system_call_def returns_def lock_table_def unlock_table_def untracked_def split: option.splits)

text \<open>Inside the routine of \<open>pthread_once\<close> an allocation fails or waits for ever.\<close>

lemma alloc_in_once:
  assumes "mk_once s = Once_Running" "request_size req = Some n"
  shows "allocate (Suc d) E req purpose s =
    (if ma_sys E (mk_calls s) = None then Some (Done (None, s\<lparr>mk_calls := mk_calls s + 1\<rparr>)) else Some Deadlock)"
  using assms by (auto simp: system_call_def returns_def init_memory_tracking_def)

text \<open>So the table comes into being only if its first allocation fails, and then it is the null pointer.\<close>

lemma init_cases:
  assumes "untracked s"
  shows "init_memory_tracking (allocate (Suc d) E) s =
    (if mk_once s = Once_Done then Some (Done s)
     else if ma_sys E (mk_calls s) = None then Some (Done (s\<lparr>mk_calls := mk_calls s + 1, mk_once := Once_Done\<rparr>))
     else Some Deadlock)"
proof (cases "mk_once s")
  case Once_New
  have "allocate (Suc d) E (Plain sizeof_table) (Some ''hash_table_create'') (s\<lparr>mk_once := Once_Running\<rparr>) =
      (if ma_sys E (mk_calls s) = None then Some (Done (None, s\<lparr>mk_once := Once_Running, mk_calls := mk_calls s + 1\<rparr>)) else Some Deadlock)"
    using alloc_in_once [of "s\<lparr>mk_once := Once_Running\<rparr>" "Plain sizeof_table" sizeof_table d E] by simp
  then show ?thesis using Once_New assms
    by (simp add: init_memory_tracking_def tracked_create_def returns_def untracked_def del: allocate.simps)
qed (use assms in \<open>simp_all add: init_memory_tracking_def returns_def untracked_def\<close>)

lemma untracked_calls [simp]: "untracked (s\<lparr>mk_calls := k\<rparr>) = untracked s"
  by (simp add: untracked_def)

lemma init_untracked:
  assumes "untracked s"
  obtains "init_memory_tracking (allocate (Suc d) E) s = Some Deadlock"
  | s' where "init_memory_tracking (allocate (Suc d) E) s = Some (Done s')" "untracked s'"
  using assms init_cases [OF assms, of d E] by (auto simp: untracked_def split: if_splits)

lemma forget_untracked: "untracked s \<Longrightarrow> forget_block E p s = Some (Done s)"
  by (simp add: forget_block_def untracked_def returns_def)

lemma allocate_untracked:
  assumes "untracked s"
  shows "ends_untracked (allocate (Suc (Suc d)) E req purpose s)"
proof (cases "request_size req = None \<or> ma_sys E (mk_calls s) = None")
  case True
  then show ?thesis using assms by (auto simp: system_call_def ends_untracked_def returns_def split: option.splits)
next
  case False
  then obtain n p where np: "request_size req = Some n" "ma_sys E (mk_calls s) = Some p" by auto
  let ?s = "s\<lparr>mk_calls := mk_calls s + 1\<rparr>"
  have eq: "allocate (Suc (Suc d)) E req purpose s = fbind (init_memory_tracking (allocate (Suc d) E) ?s) (\<lambda>s2.
      fbind (record_block (allocate (Suc d) E) E p n purpose s2) (\<lambda>s3. returns (Some p, s3)))"
    unfolding allocate.simps(2) [of "Suc d"] using np by (simp add: system_call_def)
  have "untracked ?s" using assms by simp
  then show ?thesis
  proof (cases rule: init_untracked [where d = d and E = E])
    case 1
    then show ?thesis unfolding eq by (simp add: ends_untracked_def)
  next
    case (2 s')
    obtain k where "record_block (allocate (Suc d) E) E p n purpose s' = Some (Done (s'\<lparr>mk_calls := k\<rparr>))"
      using record_untracked [OF 2(2)] by blast
    then show ?thesis unfolding eq 2(1) using 2(2) by (simp add: ends_untracked_def returns_def)
  qed
qed

lemma realloc_untracked:
  assumes "untracked s"
  shows "ends_untracked (utils_realloc (Suc (Suc d)) E ptr n purpose s)"
proof (cases ptr)
  case None
  then show ?thesis using assms allocate_untracked [OF assms, of d E "Plain n" purpose]
    by (simp add: utils_realloc_def utils_free_def utils_malloc_def ends_untracked_def returns_def del: allocate.simps)
next
  case (Some p)
  from assms show ?thesis
  proof (cases rule: init_untracked [where d = "Suc d" and E = E])
    case 1
    then show ?thesis using Some by (simp add: utils_realloc_def utils_free_def ends_untracked_def del: allocate.simps)
  next
    case (2 s')
    have "mk_table (snd (system_call E s')) = None" "untracked (snd (system_call E s'))" using 2(2) by (simp_all add: system_call_def untracked_def)
    then show ?thesis using Some 2 forget_untracked [OF 2(2)]
      by (auto simp: utils_realloc_def utils_free_def ends_untracked_def returns_def simp del: allocate.simps split: prod.splits option.splits)
  qed
qed

lemma step_untracked:
  assumes "untracked s"
  shows "ends_untracked (mem_step (Suc (Suc d)) E x s)"
proof (cases x)
  case (M_Free p)
  from assms show ?thesis
  proof (cases rule: init_untracked [where d = "Suc d" and E = E])
    case 1
    then show ?thesis using M_Free assms by (cases p) (simp_all add: utils_free_def ends_untracked_def returns_def del: allocate.simps)
  next
    case (2 s')
    then show ?thesis using M_Free assms forget_untracked [OF 2(2)]
      by (cases p) (simp_all add: utils_free_def ends_untracked_def returns_def del: allocate.simps)
  qed
next
  case M_Leak_Check
  from assms show ?thesis
  proof (cases rule: init_untracked [where d = "Suc d" and E = E])
    case 1
    then show ?thesis using M_Leak_Check by (simp add: utils_memory_leak_check_def ends_untracked_def del: allocate.simps)
  next
    case (2 s')
    then have "mk_table s' = None" by (simp add: untracked_def)
    then show ?thesis using M_Leak_Check 2 by (simp add: utils_memory_leak_check_def ends_untracked_def returns_def del: allocate.simps)
  qed
qed (use assms allocate_untracked realloc_untracked in \<open>simp_all add: utils_malloc_def utils_calloc_def del: allocate.simps\<close>)

lemma run_untracked:
  assumes "untracked s"
  shows "ends_untracked (mem_run (Suc (Suc d)) E xs s)"
  using assms
proof (induction xs arbitrary: s)
  case Nil
  then show ?case by (simp add: ends_untracked_def returns_def)
next
  case (Cons x xs)
  from step_untracked [OF Cons.prems, of d E x] consider "mem_step (Suc (Suc d)) E x s = Some Deadlock"
    | r s1 where "mem_step (Suc (Suc d)) E x s = Some (Done (r, s1))" "untracked s1" by (auto simp: ends_untracked_def)
  then show ?case
  proof cases
    case 1
    then show ?thesis by (simp add: ends_untracked_def)
  next
    case (2 r s1)
    with Cons.IH [OF 2(2)] show ?thesis by (auto simp: ends_untracked_def returns_def)
  qed
qed

text \<open>
  (C30) The tracking allocator cannot track. In a new process, the first allocation that gets memory from the system never returns if the
  second request to the system succeeds as well: the routine of \<open>pthread_once\<close> allocates the table with the same allocator, which waits for the routine. And
  in every run of allocations, reallocations, releases and leak checks, whatever the system answers, an operation never returns or the run
  ends without a table: no block is recorded, the leak check of that state prints nothing, and the mutex is free.
\<close>

theorem tracking_never_works:
  shows "(request_size req \<noteq> None \<longrightarrow> ma_sys E 0 \<noteq> None \<longrightarrow> ma_sys E 1 \<noteq> None \<longrightarrow>
      allocate (Suc (Suc d)) E req purpose process_start = Some Deadlock) \<and>
    (mem_run (Suc (Suc d)) E xs process_start = Some Deadlock \<or>
     (\<exists>rs s. mem_run (Suc (Suc d)) E xs process_start = Some (Done (rs, s)) \<and> mk_table s = None \<and> \<not> mk_mutex s))"
proof -
  have u: "untracked process_start" by (simp add: untracked_def process_start_def)
  have "allocate (Suc (Suc d)) E req purpose process_start = Some Deadlock"
    if "request_size req = Some n" "ma_sys E 0 = Some p" "ma_sys E 1 \<noteq> None" for n p
  proof -
    have "init_memory_tracking (allocate (Suc d) E) (process_start\<lparr>mk_calls := 1\<rparr>) = Some Deadlock"
      using that(3) by (subst init_cases) (simp_all add: untracked_def process_start_def del: allocate.simps)
    then show ?thesis unfolding allocate.simps(2) [of "Suc d"] using that(1,2) by (simp add: system_call_def process_start_def)
  qed
  moreover have "ends_untracked (mem_run (Suc (Suc d)) E xs process_start)" by (rule run_untracked [OF u])
  ultimately show ?thesis by (auto simp: ends_untracked_def untracked_def)
qed

text \<open>Both outcomes occur: a system that always has memory, and one whose second request fails.\<close>

definition example_memory :: "bool \<Rightarrow> mem_env" where
  "example_memory ok = \<lparr>ma_sys = (\<lambda>i. if i = 1 \<and> \<not> ok then None else Some (100 + i)), ma_fmt = (\<lambda>_. ''0x64''), ma_time = (\<lambda>_. 0)\<rparr>"

theorem tracking_never_works_witness:
  "allocate (Suc (Suc 0)) (example_memory True) (Plain 16) None process_start = Some Deadlock \<and>
   (\<exists>s. mem_run (Suc (Suc 0)) (example_memory False) [M_Malloc 16 None, M_Leak_Check] process_start = Some (Done ([Some 100, None], s)) \<and> mk_table s = None)"
proof -
  have "mem_run (Suc (Suc 0)) (example_memory False) [M_Malloc 16 None, M_Leak_Check] process_start =
      Some (Done ([Some 100, None], \<lparr>mk_once = Once_Done, mk_mutex = False, mk_table = None, mk_calls = 3\<rparr>))"
    by (simp add: example_memory_def process_start_def utils_malloc_def utils_memory_leak_check_def system_call_def init_memory_tracking_def
        tracked_create_def record_block_def tracked_insert_def lock_table_def unlock_table_def returns_def)
  then show ?thesis
    using tracking_never_works [of "Plain 16" "example_memory True" 0 None "[]"]
      tracking_never_works [of "Plain 16" "example_memory False" 0 None "[M_Malloc 16 None, M_Leak_Check]"]
    by (simp add: example_memory_def del: allocate.simps mem_run.simps)
qed

end
