(* ===== verification/Client_Core.thy ===== *)
theory Client_Core
  imports Connection C_Format
begin

text \<open>
  The client, \<open>client/core.c\<close>: its state machine, connecting and reconnecting, the messages it sends and the frames it receives. The functions of
  \<open>protocol.c\<close> and \<open>security.c\<close> and the layout of \<open>login_msg_t\<close> are not in the sources: they are the arguments in \<open>client_lib\<close>. Structures are packed
  and little-endian. The threads are cut into turns, each of which runs as a whole; a call reads the clock and gets the answers of the socket from its
  environment. The callbacks of the application are recorded as events; they do not call the client themselves. A \<open>pthread_join\<close> of a thread that does not end is
  \<open>Deadlock\<close>. Members that no function of the file reads (password, token, log file, sessions, nicknames) are left out.
\<close>

section \<open>Data\<close>

datatype client_state = CLIENT_STATE_DISCONNECTED | CLIENT_STATE_CONNECTING | CLIENT_STATE_CONNECTED | CLIENT_STATE_AUTHENTICATING
  | CLIENT_STATE_AUTHENTICATED | CLIENT_STATE_RECONNECTING | CLIENT_STATE_DISCONNECTING | CLIENT_STATE_ERROR

record client_config =
  cf_server_host :: string
  cf_server_port :: int
  cf_username :: string
  cf_use_ssl :: bool
  cf_enable_encryption :: bool
  cf_connection_timeout :: int
  cf_heartbeat_interval :: int
  cf_reconnect_attempts :: int
  cf_reconnect_delay :: int
  cf_log_level :: int

record file_status =
  ff_transfer_id :: "64 word"
  ff_filename :: string
  ff_file_size :: "64 word"
  ff_status :: nat
  ff_start_time :: "64 word"

text \<open>What the application sees: its handlers and callbacks.\<close>

datatype client_event = Message_Callback nat nat "32 word" "byte list" | Error_Callback int "byte list" | State_Callback client_state client_state

text \<open>\<open>cl_buffer\<close> is the whole receive buffer, \<open>cl_used\<close> the part of it that is used. \<open>cl_fds\<close> and \<open>cl_ssls\<close>: the descriptors and the SSL objects
  that have been opened and not been closed. The threads: whether their members are set, which a failing \<open>pthread_create\<close> leaves as they are;
  \<open>cl_receive_joined\<close>: the receive thread has been waited for although its member is set, so that waiting again is undefined.\<close>

record client =
  cl_config :: client_config
  cl_state :: client_state
  cl_sockfd :: int
  cl_ssl_ctx :: bool
  cl_ssl :: bool
  cl_connection_active :: bool
  cl_receive_thread :: bool
  cl_receive_joined :: bool
  cl_heartbeat_thread :: bool
  cl_reconnect_thread :: bool
  cl_threads_running :: bool
  cl_buffer :: "byte list"
  cl_used :: nat
  cl_handlers :: "(32 word \<times> nat \<times> nat) list"
  cl_handler_capacity :: nat
  cl_error_callback :: bool
  cl_state_callback :: bool
  cl_heartbeat_sent :: "64 word"
  cl_heartbeat_received :: "64 word"
  cl_heartbeat_missed :: "32 word"
  cl_reconnect_count :: "32 word"
  cl_user_id :: "64 word"
  cl_files :: "file_status list"
  cl_file_capacity :: nat
  cl_messages_sent :: "64 word"
  cl_messages_received :: "64 word"
  cl_bytes_sent :: "64 word"
  cl_bytes_received :: "64 word"
  cl_start_time :: "64 word"
  cl_events :: "client_event list"
  cl_wire :: "byte list"
  cl_fds :: "int list"
  cl_ssls :: nat

record client_lib =
  ly_ser :: "message_header \<Rightarrow> byte list"
  ly_deser :: "byte list \<Rightarrow> message_header option"
  ly_checksum :: "byte list \<Rightarrow> 32 word"
  ly_verify :: "message_header \<Rightarrow> byte list \<Rightarrow> bool"
  ly_password_hash :: "string \<Rightarrow> byte list option"
  ly_login_image :: "string \<Rightarrow> byte list \<Rightarrow> byte list"
  ly_log_info :: int

text \<open>\<open>kv_answer\<close>: the results of \<open>send\<close> or \<open>SSL_write\<close> in a call; \<open>kv_recv\<close>: the bytes of \<open>recv\<close> or \<open>SSL_read\<close>, \<open>None\<close> for an error or the end;
  \<open>kv_junk\<close>: what memory from \<open>malloc\<close> and \<open>realloc\<close> holds; then the outcomes of the system calls.\<close>

record link_env =
  kv_clock :: "nat \<Rightarrow> 64 word"
  kv_answer :: "nat \<Rightarrow> int"
  kv_recv :: "byte list option"
  kv_junk :: byte
  kv_realloc :: bool
  kv_socket :: int
  kv_host :: bool
  kv_connect :: bool
  kv_select :: bool
  kv_getsockopt :: bool
  kv_socket_error :: bool
  kv_ssl_new :: bool
  kv_ssl_connect :: bool
  kv_thread :: "nat \<Rightarrow> bool"
  kv_joins :: bool

section \<open>State and configuration\<close>

definition update_client_state :: "client_state \<Rightarrow> client \<Rightarrow> client" where
  "update_client_state new c =
     c\<lparr>cl_state := new, cl_events := cl_events c @ (if cl_state_callback c \<and> cl_state c \<noteq> new then [State_Callback (cl_state c) new] else [])\<rparr>"

definition client_get_state :: "client option \<Rightarrow> client_state" where
  "client_get_state client = (case client of None \<Rightarrow> CLIENT_STATE_ERROR | Some c \<Rightarrow> cl_state c)"

definition client_config_init :: "client_lib \<Rightarrow> client_config" where
  "client_config_init L =
     \<lparr>cf_server_host = ''localhost'', cf_server_port = 8888, cf_username = [], cf_use_ssl = False, cf_enable_encryption = False, cf_connection_timeout = 10000,
      cf_heartbeat_interval = 30000, cf_reconnect_attempts = 5, cf_reconnect_delay = 5000, cf_log_level = ly_log_info L\<rparr>"

text \<open>The answer and the text for a buffer of \<open>n\<close> bytes, \<open>None\<close> without one.\<close>

definition error_into :: "nat option \<Rightarrow> string \<Rightarrow> string option" where
  "error_into buf t = (case buf of None \<Rightarrow> None | Some n \<Rightarrow> if n > 0 then Some (snprintf n t) else None)"

definition client_config_validate :: "client_config option \<Rightarrow> nat option \<Rightarrow> bool \<times> string option" where
  "client_config_validate config buf =
     (case config of None \<Rightarrow> (False, error_into buf (utf8 [233, 133, 141, 231, 189, 174, 228, 184, 186, 231, 169, 186]))
      | Some f \<Rightarrow>
          if cf_server_host f = []
          then (False, error_into buf (utf8 [230, 156, 141, 229, 138, 161, 229, 153, 168, 229, 156, 176, 229, 157, 128, 228, 184, 141, 232, 131, 189, 228, 184, 186, 231, 169, 186]))
          else if cf_server_port f \<le> 0 \<or> cf_server_port f > 65535
          then (False, error_into buf (utf8 [230, 151, 160, 230, 149, 136, 231, 154, 132, 231, 171, 175, 229, 143, 163, 229, 143, 183] @ '': '' @ dec_int (cf_server_port f)))
          else if cf_connection_timeout f < 1000
          then (False, error_into buf (utf8 [232, 191, 158, 230, 142, 165, 232, 182, 133, 230, 151, 182, 229, 164, 170, 231, 159, 173] @ '': '' @ dec_int (cf_connection_timeout f) @ ''ms''))
          else if cf_heartbeat_interval f < 10000
          then (False, error_into buf (utf8 [229, 191, 131, 232, 183, 179, 233, 151, 180, 233, 154, 148, 229, 164, 170, 231, 159, 173] @ '': '' @ dec_int (cf_heartbeat_interval f) @ ''ms''))
          else (True, None))"

section \<open>Creation\<close>

definition BUFFER_SIZE :: nat where "BUFFER_SIZE = 65536"

definition new_client :: "client_config \<Rightarrow> byte \<Rightarrow> client" where
  "new_client cfg junk =
     \<lparr>cl_config = cfg, cl_state = CLIENT_STATE_DISCONNECTED, cl_sockfd = 0, cl_ssl_ctx = cf_use_ssl cfg, cl_ssl = False, cl_connection_active = False,
      cl_receive_thread = False, cl_receive_joined = False, cl_heartbeat_thread = False, cl_reconnect_thread = False, cl_threads_running = False, cl_buffer = replicate BUFFER_SIZE junk,
      cl_used = 0, cl_handlers = [], cl_handler_capacity = 16, cl_error_callback = False, cl_state_callback = False, cl_heartbeat_sent = 0,
      cl_heartbeat_received = 0, cl_heartbeat_missed = 0, cl_reconnect_count = 0, cl_user_id = 0, cl_files = [], cl_file_capacity = 16, cl_messages_sent = 0,
      cl_messages_received = 0, cl_bytes_sent = 0, cl_bytes_received = 0, cl_start_time = 0, cl_events = [], cl_wire = [], cl_fds = [], cl_ssls = 0\<rparr>"

text \<open>\<open>ok\<close>: the outcomes of the seven allocations and initialisations, in order, the last that of the SSL context. On failure all that was made is freed.\<close>

definition client_create :: "client_lib \<Rightarrow> byte \<Rightarrow> (nat \<Rightarrow> bool) \<Rightarrow> client_config option \<Rightarrow> client option" where
  "client_create L junk ok config =
     (let cfg = (case config of Some f \<Rightarrow> f | None \<Rightarrow> client_config_init L) in
      if \<not> ok 0 then None else if \<not> ok 1 then None else if \<not> ok 2 then None else if \<not> ok 3 then None else if \<not> ok 4 then None
      else if \<not> ok 5 then None else if \<not> ok 6 then None
      else if cf_use_ssl cfg \<and> \<not> ok 7 then None else Some (new_client cfg junk))"

section \<open>Connections\<close>

definition close_socket :: "client \<Rightarrow> client" where
  "close_socket c = c\<lparr>cl_fds := remove1 (cl_sockfd c) (cl_fds c), cl_sockfd := -1\<rparr>"

definition client_connect_internal :: "link_env \<Rightarrow> client \<Rightarrow> int \<times> client" where
  "client_connect_internal e c =
     (if kv_socket e < 0 then (-1, c\<lparr>cl_sockfd := kv_socket e\<rparr>)
      else
        let c1 = c\<lparr>cl_sockfd := kv_socket e, cl_fds := kv_socket e # cl_fds c\<rparr> in
        if \<not> kv_host e then (-2, close_socket c1)
        else if \<not> kv_connect e then (-3, close_socket c1)
        else if \<not> kv_select e then (-4, close_socket c1)
        else if \<not> kv_getsockopt e then (-5, close_socket c1)
        else if kv_socket_error e then (-6, close_socket c1)
        else if cf_use_ssl (cl_config c1) \<and> cl_ssl_ctx c1 then
          if \<not> kv_ssl_new e then (-7, close_socket (c1\<lparr>cl_ssl := False\<rparr>))
          else if \<not> kv_ssl_connect e then (-8, close_socket (c1\<lparr>cl_ssl := False\<rparr>))
          else (0, c1\<lparr>cl_ssl := True, cl_ssls := cl_ssls c1 + 1, cl_connection_active := True\<rparr>)
        else (0, c1\<lparr>cl_connection_active := True\<rparr>))"

definition cleanup_connection :: "client \<Rightarrow> client" where
  "cleanup_connection c =
     (let c1 = (if cl_ssl c then c\<lparr>cl_ssl := False, cl_ssls := cl_ssls c - 1\<rparr> else c);
          c2 = (if cl_sockfd c1 \<noteq> -1 then close_socket c1 else c1)
      in c2\<lparr>cl_connection_active := False, cl_used := 0, cl_heartbeat_sent := 0, cl_heartbeat_received := 0, cl_heartbeat_missed := 0, cl_reconnect_count := 0\<rparr>)"

text \<open>The receive thread is waited for when the heartbeat thread cannot be made; \<open>threads_running\<close> is set only when both are there.\<close>

definition client_connect :: "link_env \<Rightarrow> client option \<Rightarrow> (int \<times> client option) outcome" where
  "client_connect e client =
     (case client of None \<Rightarrow> Done (-1, None)
      | Some c \<Rightarrow>
          if cl_state c \<noteq> CLIENT_STATE_DISCONNECTED \<and> cl_state c \<noteq> CLIENT_STATE_ERROR then Done (-2, client)
          else
            (case client_connect_internal e (update_client_state CLIENT_STATE_CONNECTING c) of
               (res, c1) \<Rightarrow>
                 if res \<noteq> 0 then Done (res, Some (update_client_state CLIENT_STATE_ERROR c1))
                 else if \<not> kv_thread e 0 then Done (-3, Some (update_client_state CLIENT_STATE_ERROR (cleanup_connection c1)))
                 else
                   let c2 = c1\<lparr>cl_receive_thread := True, cl_receive_joined := False\<rparr> in
                   if \<not> kv_thread e 1 then
                     if \<not> kv_joins e then Deadlock
                     else Done (-4, Some (update_client_state CLIENT_STATE_ERROR (cleanup_connection (c2\<lparr>cl_threads_running := False, cl_receive_joined := True\<rparr>))))
                   else
                     let c3 = update_client_state CLIENT_STATE_CONNECTED (c2\<lparr>cl_heartbeat_thread := True, cl_threads_running := True\<rparr>) in
                     Done (0, Some (c3\<lparr>cl_start_time := kv_clock e 0\<rparr>))))"

section \<open>Sending\<close>

definition client_header :: "client_lib \<Rightarrow> 64 word \<Rightarrow> 32 word \<Rightarrow> byte list \<Rightarrow> client \<Rightarrow> message_header" where
  "client_header L now type data c =
     \<lparr>h_magic = PROTOCOL_MAGIC, h_version = PROTOCOL_VERSION, h_type = type, h_flags = 0, h_timestamp = now, h_message_id = cl_messages_sent c + 1,
      h_correlation_id = 0, h_body_length = of_nat (length data), h_checksum = ly_checksum L data, h_reserved = replicate 16 0\<rparr>"

definition wrote :: "int \<Rightarrow> byte list \<Rightarrow> client \<Rightarrow> client" where
  "wrote n bytes c = c\<lparr>cl_wire := cl_wire c @ take (nat n) bytes\<rparr>"

definition send_message_internal :: "client_lib \<Rightarrow> link_env \<Rightarrow> 32 word \<Rightarrow> byte list \<Rightarrow> client \<Rightarrow> int \<times> client" where
  "send_message_internal L e type data c =
     (if \<not> cl_connection_active c \<or> cl_sockfd c = -1 then (-1, c)
      else
        let hb = ly_ser L (client_header L (kv_clock e 0) type data c); c1 = wrote (kv_answer e 0) hb c in
        if kv_answer e 0 \<noteq> int sizeof_header then (-2, c1)
        else
          let c2 = (if data \<noteq> [] then wrote (kv_answer e 1) data c1 else c1) in
          if data \<noteq> [] \<and> kv_answer e 1 \<noteq> int (length data) then (-3, c2)
          else (0, c2\<lparr>cl_messages_sent := cl_messages_sent c2 + 1, cl_bytes_sent := cl_bytes_sent c2 + of_nat (sizeof_header + length data)\<rparr>))"

definition client_disconnect :: "client_lib \<Rightarrow> link_env \<Rightarrow> bool \<Rightarrow> client option \<Rightarrow> (int \<times> client option) outcome" where
  "client_disconnect L e graceful client =
     (case client of None \<Rightarrow> Done (-1, None)
      | Some c \<Rightarrow>
          if cl_state c = CLIENT_STATE_DISCONNECTED \<or> cl_state c = CLIENT_STATE_DISCONNECTING then Done (0, client)
          else
            let c1 = update_client_state CLIENT_STATE_DISCONNECTING c;
                c2 = (if graceful \<and> cl_state c = CLIENT_STATE_AUTHENTICATED then snd (send_message_internal L e 0x01000005 (replicate 20 0) c1) else c1);
                c3 = c2\<lparr>cl_threads_running := False\<rparr>
            in if cl_receive_thread c3 \<and> cl_receive_joined c3 then Undefined_Behaviour
               else if (cl_receive_thread c3 \<or> cl_heartbeat_thread c3 \<or> cl_reconnect_thread c3) \<and> \<not> kv_joins e then Deadlock
               else Done (0, Some (update_client_state CLIENT_STATE_DISCONNECTED
                      (cleanup_connection (c3\<lparr>cl_receive_thread := False, cl_heartbeat_thread := False, cl_reconnect_thread := False\<rparr>)))))"

text \<open>What is still open when the client is gone.\<close>

definition client_destroy :: "client_lib \<Rightarrow> link_env \<Rightarrow> client option \<Rightarrow> (int list \<times> nat) outcome" where
  "client_destroy L e client =
     (case client of None \<Rightarrow> Done ([], 0)
      | Some c \<Rightarrow>
          obind (if cl_state c \<noteq> CLIENT_STATE_DISCONNECTED then client_disconnect L e True (Some c) else Done (0, Some c)) (\<lambda>(_, c1).
            let c2 = the c1 in Done (cl_fds c2, if cl_ssl c2 then cl_ssls c2 - 1 else cl_ssls c2)))"

section \<open>Receiving\<close>

text \<open>\<open>error_info_t\<close> has 788 bytes; the callback gets its code and its message, which are read wherever the message ends.\<close>

definition handle_message :: "client_lib \<Rightarrow> link_env \<Rightarrow> message_header \<Rightarrow> client \<Rightarrow> client outcome" where
  "handle_message L e h c =
     (let n = unat (h_body_length h); body = take n (drop sizeof_header (cl_buffer c)) in
      if h_type h = MSG_SYSTEM_HEARTBEAT then
        Done (snd (send_message_internal L e MSG_SYSTEM_HEARTBEAT body (c\<lparr>cl_heartbeat_received := kv_clock e 1, cl_heartbeat_missed := 0\<rparr>)))
      else if h_type h = MSG_SYSTEM_ERROR then
        if \<not> cl_error_callback c then Done c
        else if sizeof_header + 788 > length (cl_buffer c) then Undefined_Behaviour
        else
          let info = take 788 (drop sizeof_header (cl_buffer c)) in
          Done (c\<lparr>cl_events := cl_events c @ [Error_Callback (sint (of_nat (bytes_nat (take 4 info)) :: 32 word)) (take 256 (drop 12 info))]\<rparr>)
      else if h_type h = 4 then Done c
      else Done (c\<lparr>cl_events := cl_events c @
             map (\<lambda>(t, f, u). Message_Callback f u (h_type h) body) (filter (\<lambda>(t, f, u). t = h_type h) (cl_handlers c))\<rparr>))"

text \<open>\<open>memmove\<close> of the used bytes behind the first \<open>n\<close>.\<close>

definition consume :: "nat \<Rightarrow> client \<Rightarrow> client" where
  "consume n c = c\<lparr>cl_buffer := take (cl_used c - n) (drop n (cl_buffer c)) @ drop (cl_used c - n) (cl_buffer c), cl_used := cl_used c - n\<rparr>"

definition count_received :: "client \<Rightarrow> client" where
  "count_received c = c\<lparr>cl_messages_received := cl_messages_received c + 1\<rparr>"

lemma send_keeps [simp]:
  "cl_used (snd (send_message_internal L e t d c)) = cl_used c" "cl_buffer (snd (send_message_internal L e t d c)) = cl_buffer c"
  "cl_state (snd (send_message_internal L e t d c)) = cl_state c" "cl_events (snd (send_message_internal L e t d c)) = cl_events c"
  "cl_config (snd (send_message_internal L e t d c)) = cl_config c" "cl_handlers (snd (send_message_internal L e t d c)) = cl_handlers c"
  "cl_sockfd (snd (send_message_internal L e t d c)) = cl_sockfd c" "cl_fds (snd (send_message_internal L e t d c)) = cl_fds c"
  "cl_connection_active (snd (send_message_internal L e t d c)) = cl_connection_active c" "cl_error_callback (snd (send_message_internal L e t d c)) = cl_error_callback c"
  by (simp_all add: send_message_internal_def wrote_def Let_def)

lemma handle_keeps:
  "handle_message L e h c = Done c' \<Longrightarrow> cl_used c' = cl_used c \<and> cl_buffer c' = cl_buffer c \<and> cl_state c' = cl_state c \<and> cl_config c' = cl_config c"
  by (auto simp: handle_message_def Let_def split: if_splits)

lemma cl_used_consume [simp]: "cl_used (consume n c) = cl_used c - n" "cl_used (count_received c) = cl_used c"
  by (simp_all add: consume_def count_received_def)

text \<open>The loop; the \<open>k\<close>-th message has the environment \<open>es k\<close>.\<close>

function process_frames :: "client_lib \<Rightarrow> (nat \<Rightarrow> link_env) \<Rightarrow> nat \<Rightarrow> client \<Rightarrow> (nat \<times> client) outcome" where
  "process_frames L es k c =
     (if cl_used c < sizeof_header then Done (0, c)
      else case ly_deser L (cl_buffer c) of
        None \<Rightarrow> Done (0, c)
      | Some h \<Rightarrow>
          if h_magic h \<noteq> PROTOCOL_MAGIC then process_frames L es k (consume 1 c)
          else
            let total_len = sizeof_header + unat (h_body_length h) in
            if cl_used c < total_len then Done (0, c)
            else if \<not> ly_verify L h (take (unat (h_body_length h)) (drop sizeof_header (cl_buffer c))) then process_frames L es k (consume total_len c)
            else
              (case handle_message L (es k) h c of
                 Deadlock \<Rightarrow> Deadlock
               | Undefined_Behaviour \<Rightarrow> Undefined_Behaviour
               | Done c1 \<Rightarrow> obind (process_frames L es (Suc k) (count_received (consume total_len c1))) (\<lambda>(n, c'). Done (Suc n, c'))))"
  by pat_completeness auto
termination
  by (relation "measure (\<lambda>(L, es, k, c). cl_used c)") (auto simp: sizeof_header_def dest!: handle_keeps)

declare process_frames.simps [simp del]

definition process_received_data :: "client_lib \<Rightarrow> (nat \<Rightarrow> link_env) \<Rightarrow> client \<Rightarrow> (int \<times> client) outcome" where
  "process_received_data L es c = obind (process_frames L es 0 c) (\<lambda>(n, c'). Done (int n, c'))"

definition grow_buffer :: "link_env \<Rightarrow> client \<Rightarrow> client" where
  "grow_buffer e c = (if cl_used c + 4096 > length (cl_buffer c) then c\<lparr>cl_buffer := cl_buffer c @ replicate (length (cl_buffer c)) (kv_junk e)\<rparr> else c)"

definition take_in :: "byte list \<Rightarrow> client \<Rightarrow> client" where
  "take_in xs c =
     c\<lparr>cl_buffer := take (cl_used c) (cl_buffer c) @ xs @ drop (cl_used c + length xs) (cl_buffer c), cl_used := cl_used c + length xs,
       cl_bytes_received := cl_bytes_received c + of_nat (length xs)\<rparr>"

definition receive_message_internal :: "client_lib \<Rightarrow> link_env \<Rightarrow> (nat \<Rightarrow> link_env) \<Rightarrow> client \<Rightarrow> (int \<times> client) outcome" where
  "receive_message_internal L e es c =
     (if \<not> cl_connection_active c \<or> cl_sockfd c = -1 then Done (-1, c)
      else if cl_used c + 4096 > length (cl_buffer c) \<and> \<not> kv_realloc e then Done (-2, c)
      else
        let c1 = grow_buffer e c in
        case kv_recv e of
          None \<Rightarrow> Done (-3, c1)
        | Some xs \<Rightarrow>
            let ys = take (length (cl_buffer c1) - cl_used c1) xs in
            if ys = [] then Done (-3, c1) else process_received_data L es (take_in ys c1))"

section \<open>Threads\<close>

text \<open>A turn of the receive thread; \<open>False\<close>: it has left its loop.\<close>

definition receive_turn :: "client_lib \<Rightarrow> link_env \<Rightarrow> (nat \<Rightarrow> link_env) \<Rightarrow> client \<Rightarrow> (bool \<times> client) outcome" where
  "receive_turn L e es c =
     (if \<not> (cl_threads_running c \<and> cl_connection_active c) then Done (False, c)
      else obind (receive_message_internal L e es c) (\<lambda>(res, c1).
        if res \<ge> 0 then Done (True, c1)
        else if \<not> cl_threads_running c1 then Done (False, c1)
        else
          let c2 = (if cf_reconnect_attempts (cl_config c1) > 0 then
                      let c' = update_client_state CLIENT_STATE_RECONNECTING c1 in
                      if \<not> cl_reconnect_thread c' \<and> kv_thread e 0 then c'\<lparr>cl_reconnect_thread := True\<rparr> else c'
                    else update_client_state CLIENT_STATE_ERROR c1)
          in Done (False, c2\<lparr>cl_connection_active := False\<rparr>)))"

text \<open>The interval is an \<open>int\<close> converted to 64 bits. The flags are read again after the sleep.\<close>

definition heartbeat_turn :: "client_lib \<Rightarrow> link_env \<Rightarrow> client \<Rightarrow> bool \<times> client" where
  "heartbeat_turn L e c =
     (if \<not> (cl_threads_running c \<and> cl_connection_active c) then (False, c)
      else
        let interval = (word_of_int (cf_heartbeat_interval (cl_config c)) :: 64 word); now = kv_clock e 0 in
        if now - cl_heartbeat_sent c < interval then (True, c)
        else
          let c1 = snd (send_message_internal L (e\<lparr>kv_clock := (\<lambda>i. kv_clock e (i + 1))\<rparr>) MSG_SYSTEM_HEARTBEAT (le64 now) c);
              c2 = c1\<lparr>cl_heartbeat_sent := now, cl_heartbeat_missed := cl_heartbeat_missed c1 + 1\<rparr>
          in if cl_heartbeat_missed c2 > 3 then (False, c2\<lparr>cl_connection_active := False\<rparr>) else (True, c2))"

text \<open>The attempts are compared as unsigned numbers. After the loop the member of the thread is reset.\<close>

definition reconnect_over :: "client \<Rightarrow> client" where
  "reconnect_over c =
     (let c1 = (if cl_reconnect_count c \<ge> word_of_int (cf_reconnect_attempts (cl_config c)) then update_client_state CLIENT_STATE_ERROR c else c)
      in c1\<lparr>cl_reconnect_thread := False\<rparr>)"

definition reconnect_turn :: "link_env \<Rightarrow> client \<Rightarrow> bool \<times> client" where
  "reconnect_turn e c =
     (if \<not> (cl_reconnect_count c < word_of_int (cf_reconnect_attempts (cl_config c)) \<and> cl_threads_running c) then (False, reconnect_over c)
      else
        (case client_connect_internal e c of
           (res, c1) \<Rightarrow>
             if res = 0 \<and> kv_thread e 0
             then (False, reconnect_over (update_client_state CLIENT_STATE_CONNECTED
                    (c1\<lparr>cl_receive_thread := True, cl_receive_joined := False, cl_heartbeat_thread := (cl_heartbeat_thread c1 \<or> kv_thread e 1)\<rparr>)))
             else (True, c1\<lparr>cl_reconnect_count := cl_reconnect_count c1 + 1\<rparr>)))"

section \<open>The interface\<close>

definition client_login :: "client_lib \<Rightarrow> link_env \<Rightarrow> string option \<Rightarrow> string option \<Rightarrow> client option \<Rightarrow> int \<times> client option" where
  "client_login L e username password client =
     (case (client, username, password) of
        (Some c, Some user, Some pw) \<Rightarrow>
          if cl_state c \<noteq> CLIENT_STATE_CONNECTED then (-2, client)
          else
            let c1 = update_client_state CLIENT_STATE_AUTHENTICATING c in
            (case ly_password_hash L pw of
               None \<Rightarrow> (-3, Some (update_client_state CLIENT_STATE_CONNECTED c1))
             | Some hash \<Rightarrow>
                 (case send_message_internal L e 0x01000001 (ly_login_image L (take 63 user) hash) c1 of
                    (res, c2) \<Rightarrow>
                      if res \<noteq> 0 then (-4, Some (update_client_state CLIENT_STATE_CONNECTED c2))
                      else (0, Some (c2\<lparr>cl_config := (cl_config c2)\<lparr>cf_username := take 63 user\<rparr>\<rparr>))))
      | _ \<Rightarrow> (-1, client))"

definition message_content :: "64 word \<Rightarrow> 64 word \<Rightarrow> 64 word \<Rightarrow> byte list \<Rightarrow> byte list" where
  "message_content sender receiver now content =
     le64 0 @ le64 sender @ le64 receiver @ le64 now @ le32 0 @ le64 0 @ [0] @ replicate 64 0 @ le32 (of_nat (length content)) @ content"

text \<open>The message number given back is that of the content, which is zero.\<close>

definition client_send_text_message :: "client_lib \<Rightarrow> link_env \<Rightarrow> bool \<Rightarrow> 64 word \<Rightarrow> byte list option \<Rightarrow> client option \<Rightarrow> int \<times> 64 word option \<times> client option" where
  "client_send_text_message L e alloc receiver message client =
     (case (client, message) of
        (Some c, Some ms) \<Rightarrow>
          if ms = [] then (-1, None, client)
          else if cl_state c \<noteq> CLIENT_STATE_AUTHENTICATED then (-2, None, client)
          else if \<not> alloc then (-3, None, client)
          else
            (case send_message_internal L (e\<lparr>kv_clock := (\<lambda>i. kv_clock e (i + 1))\<rparr>) 0x03000001
                    (message_content (cl_user_id c) receiver (kv_clock e 0) (take 4096 ms)) c of
               (res, c1) \<Rightarrow> (res, if res = 0 then Some 0 else None, Some c1))
      | _ \<Rightarrow> (-1, None, client))"

definition path_tail :: "string \<Rightarrow> string" where
  "path_tail p = (case strrchr p (CHR ''/'') of None \<Rightarrow> p | Some i \<Rightarrow> drop (Suc i) p)"

definition text_field :: "nat \<Rightarrow> string \<Rightarrow> byte list" where
  "text_field n s = (let bs = map (\<lambda>ch. of_nat (code ch)) (take (n - 1) s) in bs @ replicate (n - length bs) 0)"

text \<open>\<open>file_transfer_request_t\<close> with its metadata.\<close>

definition upload_request :: "64 word \<Rightarrow> 64 word \<Rightarrow> 64 word \<Rightarrow> string \<Rightarrow> 64 word \<Rightarrow> 64 word \<Rightarrow> byte list" where
  "upload_request transfer sender receiver name len now =
     le64 transfer @ le64 sender @ le64 receiver @
     (le64 0 @ le64 0 @ text_field 256 name @ text_field 256 name @ replicate 128 0 @ le64 len @ le32 0 @ replicate 65 0 @ [0, 0] @ le64 now @ le64 0) @
     le32 0 @ [0, 0] @ replicate 128 0"

text \<open>\<open>len\<close>: the size of the file, \<open>None\<close> when it cannot be opened. The content of the file is never sent.\<close>

definition client_send_file :: "client_lib \<Rightarrow> link_env \<Rightarrow> 64 word \<Rightarrow> string option \<Rightarrow> 64 word option \<Rightarrow> client option \<Rightarrow> int \<times> 64 word option \<times> client option" where
  "client_send_file L e receiver filepath len client =
     (case (client, filepath) of
        (Some c, Some path) \<Rightarrow>
          if cl_state c \<noteq> CLIENT_STATE_AUTHENTICATED then (-2, None, client)
          else (case len of None \<Rightarrow> (-3, None, client)
            | Some sz \<Rightarrow>
                if sz > 104857600 then (-4, None, client)
                else
                  let i = kv_clock e 0 + of_nat (length (cl_files c)); full = length (cl_files c) \<ge> cl_file_capacity c in
                  if full \<and> \<not> kv_realloc e then (-5, None, client)
                  else
                    let c1 = c\<lparr>cl_file_capacity := (if full then cl_file_capacity c * 2 else cl_file_capacity c),
                               cl_files := cl_files c @ [\<lparr>ff_transfer_id = i, ff_filename = take 255 path, ff_file_size = sz, ff_status = 0, ff_start_time = kv_clock e 1\<rparr>]\<rparr>
                    in (case send_message_internal L (e\<lparr>kv_clock := (\<lambda>i. kv_clock e (i + 3))\<rparr>) 0x05000001
                               (upload_request i (cl_user_id c1) receiver (path_tail path) sz (kv_clock e 2)) c1 of
                          (res, c2) \<Rightarrow> (res, if res = 0 then Some i else None, Some c2)))
      | _ \<Rightarrow> (-1, None, client))"

definition client_register_message_handler :: "bool \<Rightarrow> 32 word \<Rightarrow> nat option \<Rightarrow> nat \<Rightarrow> client option \<Rightarrow> int \<times> client option" where
  "client_register_message_handler alloc type callback data client =
     (case (client, callback) of
        (Some c, Some f) \<Rightarrow>
          (case first_index (\<lambda>(t, g, _). t = type \<and> g = f) (cl_handlers c) of
             Some i \<Rightarrow> (0, Some (c\<lparr>cl_handlers := (cl_handlers c)[i := (type, f, data)]\<rparr>))
           | None \<Rightarrow>
               let full = length (cl_handlers c) \<ge> cl_handler_capacity c in
               if full \<and> \<not> alloc then (-2, client)
               else (0, Some (c\<lparr>cl_handler_capacity := (if full then cl_handler_capacity c * 2 else cl_handler_capacity c),
                               cl_handlers := cl_handlers c @ [(type, f, data)]\<rparr>)))
      | _ \<Rightarrow> (-1, client))"

section \<open>The states a client can reach\<close>

datatype client_op = Connect link_env | Disconnect link_env bool | Login link_env "string option" "string option" | Send_Text link_env bool "64 word" "byte list option"
  | Send_File link_env "64 word" "string option" "64 word option" | Register bool "32 word" "nat option" nat | Receive_Turn link_env "nat \<Rightarrow> link_env"
  | Heartbeat_Turn link_env | Reconnect_Turn link_env

fun client_step :: "client_lib \<Rightarrow> client_op \<Rightarrow> client \<Rightarrow> (int \<times> client) outcome" where
  "client_step L (Connect e) c = obind (client_connect e (Some c)) (\<lambda>(r, c'). Done (r, the c'))"
| "client_step L (Disconnect e g) c = obind (client_disconnect L e g (Some c)) (\<lambda>(r, c'). Done (r, the c'))"
| "client_step L (Login e u p) c = (case client_login L e u p (Some c) of (r, c') \<Rightarrow> Done (r, the c'))"
| "client_step L (Send_Text e al i ms) c = (case client_send_text_message L e al i ms (Some c) of (r, _, c') \<Rightarrow> Done (r, the c'))"
| "client_step L (Send_File e i p sz) c = (case client_send_file L e i p sz (Some c) of (r, _, c') \<Rightarrow> Done (r, the c'))"
| "client_step L (Register al t f u) c = (case client_register_message_handler al t f u (Some c) of (r, c') \<Rightarrow> Done (r, the c'))"
| "client_step L (Receive_Turn e es) c = obind (receive_turn L e es c) (\<lambda>(_, c'). Done (0, c'))"
| "client_step L (Heartbeat_Turn e) c = Done (0, snd (heartbeat_turn L e c))"
| "client_step L (Reconnect_Turn e) c = Done (0, snd (reconnect_turn e c))"

fun client_run :: "client_lib \<Rightarrow> client_op list \<Rightarrow> client \<Rightarrow> ((client_op \<times> int) list \<times> client) outcome" where
  "client_run L [] c = Done ([], c)"
| "client_run L (x # xs) c = obind (client_step L x c) (\<lambda>(r, c1). obind (client_run L xs c1) (\<lambda>(rs, c2). Done ((x, r) # rs, c2)))"

fun sends_content :: "client_op \<Rightarrow> bool" where
  "sends_content (Send_Text e al i ms) = True"
| "sends_content (Send_File e i p sz) = True"
| "sends_content _ = False"

lemma state_update [simp]: "cl_state (update_client_state s c) = s"
  by (simp add: update_client_state_def)

lemma state_internal [simp]: "cl_state (snd (client_connect_internal e c)) = cl_state c" "cl_state (cleanup_connection c) = cl_state c" "cl_state (close_socket c) = cl_state c"
  by (simp_all add: client_connect_internal_def cleanup_connection_def close_socket_def Let_def)

lemma state_buffer [simp]: "cl_state (consume n c) = cl_state c" "cl_state (count_received c) = cl_state c" "cl_state (grow_buffer e c) = cl_state c" "cl_state (take_in xs c) = cl_state c"
  by (simp_all add: consume_def count_received_def grow_buffer_def take_in_def)

text \<open>The loop, one case at a time.\<close>

lemma frames_stop:
  assumes "cl_used c < sizeof_header \<or> ly_deser L (cl_buffer c) = None \<or>
    (\<exists>h. ly_deser L (cl_buffer c) = Some h \<and> h_magic h = PROTOCOL_MAGIC \<and> cl_used c < sizeof_header + unat (h_body_length h))"
  shows "process_frames L es k c = Done (0, c)"
  using assms by (subst process_frames.simps) (auto simp: Let_def)

lemma frames_resync:
  assumes "\<not> cl_used c < sizeof_header" and "ly_deser L (cl_buffer c) = Some h" and "h_magic h \<noteq> PROTOCOL_MAGIC"
  shows "process_frames L es k c = process_frames L es k (consume 1 c)"
  using assms by (subst process_frames.simps) simp

lemma frames_corrupt:
  assumes "\<not> cl_used c < sizeof_header" and "ly_deser L (cl_buffer c) = Some h" and "h_magic h = PROTOCOL_MAGIC" and "\<not> cl_used c < sizeof_header + unat (h_body_length h)"
    and "\<not> ly_verify L h (take (unat (h_body_length h)) (drop sizeof_header (cl_buffer c)))"
  shows "process_frames L es k c = process_frames L es k (consume (sizeof_header + unat (h_body_length h)) c)"
  using assms by (subst process_frames.simps) (simp add: Let_def)

lemma frames_message:
  assumes "\<not> cl_used c < sizeof_header" and "ly_deser L (cl_buffer c) = Some h" and "h_magic h = PROTOCOL_MAGIC" and "\<not> cl_used c < sizeof_header + unat (h_body_length h)"
    and "ly_verify L h (take (unat (h_body_length h)) (drop sizeof_header (cl_buffer c)))"
  shows "process_frames L es k c = obind (handle_message L (es k) h c)
    (\<lambda>c1. obind (process_frames L es (Suc k) (count_received (consume (sizeof_header + unat (h_body_length h)) c1))) (\<lambda>(n, c'). Done (Suc n, c')))"
  using assms by (subst process_frames.simps) (simp add: Let_def split: outcome.split)

lemma state_frames: "process_frames L es k c = Done (n, c') \<Longrightarrow> cl_state c' = cl_state c"
proof (induction "cl_used c" arbitrary: c k n c' rule: less_induct)
  case less
  let ?stop = "cl_used c < sizeof_header \<or> ly_deser L (cl_buffer c) = None \<or>
    (\<exists>h. ly_deser L (cl_buffer c) = Some h \<and> h_magic h = PROTOCOL_MAGIC \<and> cl_used c < sizeof_header + unat (h_body_length h))"
  show ?case
  proof (cases ?stop)
    case True
    then show ?thesis using less.prems frames_stop [OF True] by simp
  next
    case False
    then obtain h where h: "\<not> cl_used c < sizeof_header" "ly_deser L (cl_buffer c) = Some h" and full: "h_magic h = PROTOCOL_MAGIC \<Longrightarrow> \<not> cl_used c < sizeof_header + unat (h_body_length h)" by auto
    have pos: "0 < cl_used c" using h(1) by (simp add: sizeof_header_def)
    let ?t = "sizeof_header + unat (h_body_length h)"
    consider (magic) "h_magic h \<noteq> PROTOCOL_MAGIC" | (bad) "h_magic h = PROTOCOL_MAGIC" "\<not> ly_verify L h (take (unat (h_body_length h)) (drop sizeof_header (cl_buffer c)))"
      | (good) "h_magic h = PROTOCOL_MAGIC" "ly_verify L h (take (unat (h_body_length h)) (drop sizeof_header (cl_buffer c)))" by blast
    then show ?thesis
    proof cases
      case magic
      then show ?thesis using less.hyps [of "consume 1 c"] less.prems frames_resync [OF h magic] pos by simp
    next
      case bad
      then show ?thesis using less.hyps [of "consume ?t c"] less.prems frames_corrupt [OF h bad(1) full [OF bad(1)] bad(2)] pos by (simp add: sizeof_header_def)
    next
      case good
      then obtain c1 m where c1: "handle_message L (es k) h c = Done c1" "process_frames L es (Suc k) (count_received (consume ?t c1)) = Done (m, c')"
        using less.prems frames_message [OF h good(1) full [OF good(1)] good(2)] by (auto simp: obind_Done)
      then show ?thesis using less.hyps [of "count_received (consume ?t c1)"] handle_keeps [OF c1(1)] pos by (simp add: sizeof_header_def)
    qed
  qed
qed

lemma state_receive: "receive_message_internal L e es c = Done (r, c') \<Longrightarrow> cl_state c' = cl_state c"
  by (auto simp: receive_message_internal_def process_received_data_def Let_def obind_Done split: if_splits option.splits dest!: state_frames)

lemma connect_state:
  assumes "client_connect e (Some c) = Done (r, c')"
  shows "\<exists>x. c' = Some x \<and> (cl_state x = cl_state c \<or> cl_state x = CLIENT_STATE_ERROR \<or> cl_state x = CLIENT_STATE_CONNECTED)"
proof -
  obtain res c1 where i: "client_connect_internal e (update_client_state CLIENT_STATE_CONNECTING c) = (res, c1)" by (metis surj_pair)
  show ?thesis using assms unfolding client_connect_def by (simp add: i Let_def split: if_splits) auto
qed

lemma disconnect_state:
  assumes "client_disconnect L e g (Some c) = Done (r, c')"
  shows "\<exists>x. c' = Some x \<and> (cl_state x = cl_state c \<or> cl_state x = CLIENT_STATE_DISCONNECTED)"
  using assms unfolding client_disconnect_def by (simp add: Let_def split: if_splits) auto

lemma login_state:
  assumes "client_login L e u p (Some c) = (r, c')"
  shows "\<exists>x. c' = Some x \<and> (cl_state x = cl_state c \<or> cl_state x = CLIENT_STATE_CONNECTED \<or> cl_state x = CLIENT_STATE_AUTHENTICATING)"
proof (cases "\<exists>user pw. u = Some user \<and> p = Some pw \<and> cl_state c = CLIENT_STATE_CONNECTED")
  case True
  then obtain user pw where up: "u = Some user" "p = Some pw" "cl_state c = CLIENT_STATE_CONNECTED" by blast
  let ?c = "update_client_state CLIENT_STATE_AUTHENTICATING c"
  have keep: "cl_state x = CLIENT_STATE_AUTHENTICATING" if "send_message_internal L e t d ?c = (res, x)" for t d res x
    using send_keeps(3) [of L e t d ?c] that by simp
  show ?thesis using assms up by (auto simp: client_login_def Let_def split: option.splits prod.splits if_splits dest!: keep)
next
  case False
  then show ?thesis using assms by (auto simp: client_login_def split: option.splits)
qed

lemma receive_turn_state:
  assumes "receive_turn L e es c = Done (b, c')"
  shows "cl_state c' = cl_state c \<or> cl_state c' = CLIENT_STATE_RECONNECTING \<or> cl_state c' = CLIENT_STATE_ERROR"
proof (cases "cl_threads_running c \<and> cl_connection_active c")
  case True
  then obtain res c1 where r: "receive_message_internal L e es c = Done (res, c1)" using assms by (auto simp: receive_turn_def obind_Done)
  show ?thesis using assms True r state_receive [OF r] by (simp add: receive_turn_def Let_def split: if_splits) auto
qed (use assms in \<open>auto simp: receive_turn_def\<close>)

lemma heartbeat_state: "cl_state (snd (heartbeat_turn L e c)) = cl_state c"
  by (simp add: heartbeat_turn_def Let_def)

lemma reconnect_state:
  "cl_state (snd (reconnect_turn e c)) = cl_state c \<or> cl_state (snd (reconnect_turn e c)) = CLIENT_STATE_CONNECTED \<or> cl_state (snd (reconnect_turn e c)) = CLIENT_STATE_ERROR"
proof -
  obtain res c1 where i: "client_connect_internal e c = (res, c1)" by (metis surj_pair)
  then have "cl_state c1 = cl_state c" using state_internal(1) [of e c] by simp
  moreover have over: "cl_state (reconnect_over x) = cl_state x \<or> cl_state (reconnect_over x) = CLIENT_STATE_ERROR" for x by (simp add: reconnect_over_def Let_def)
  ultimately show ?thesis using i over [of c]
      over [of "update_client_state CLIENT_STATE_CONNECTED (c1\<lparr>cl_receive_thread := True, cl_receive_joined := False, cl_heartbeat_thread := (cl_heartbeat_thread c1 \<or> kv_thread e 1)\<rparr>)"]
    unfolding reconnect_turn_def by auto
qed

lemma step_not_authenticated:
  assumes "cl_state c \<noteq> CLIENT_STATE_AUTHENTICATED" and "client_step L x c = Done (r, c')"
  shows "cl_state c' \<noteq> CLIENT_STATE_AUTHENTICATED \<and> (sends_content x \<longrightarrow> r < 0)"
proof (cases x)
  case (Connect e)
  then show ?thesis using assms connect_state [of e c] by (auto simp: obind_Done)
next
  case (Disconnect e g)
  then show ?thesis using assms disconnect_state [of L e g c] by (auto simp: obind_Done)
next
  case (Login e u p)
  then show ?thesis using assms login_state [of L e u p c] by (auto split: prod.splits)
next
  case (Send_Text e al i ms)
  then show ?thesis using assms by (auto simp: client_send_text_message_def split: option.splits if_splits)
next
  case (Send_File e i p sz)
  then show ?thesis using assms by (auto simp: client_send_file_def split: option.splits if_splits)
next
  case (Register al t f u)
  then show ?thesis using assms by (auto simp: client_register_message_handler_def Let_def split: option.splits if_splits)
next
  case (Receive_Turn e es)
  then show ?thesis using assms receive_turn_state [of L e es c] by (auto simp: obind_Done)
next
  case (Heartbeat_Turn e)
  then show ?thesis using assms heartbeat_state [of L e c] by auto
next
  case (Reconnect_Turn e)
  then show ?thesis using assms reconnect_state [of e c] by auto
qed

text \<open>(C27) No client is ever logged in: in every run of calls of the application and turns of the threads whose calls return, whatever the server sends and whatever
  the system calls answer, a client that \<open>client_create\<close> made does not reach the state \<open>CLIENT_STATE_AUTHENTICATED\<close>, and every attempt to send a text or a
  file is refused with a negative number. The state is set nowhere in \<open>core.c\<close>, although \<open>main.c\<close> waits for it.\<close>

theorem client_never_authenticated:
  assumes "client_create L junk ok config = Some c" and "client_run L xs c = Done (rs, c')"
  shows "cl_state c' \<noteq> CLIENT_STATE_AUTHENTICATED \<and> (\<forall>(x, r) \<in> set rs. sends_content x \<longrightarrow> r < 0)"
proof -
  have "cl_state c \<noteq> CLIENT_STATE_AUTHENTICATED" using assms(1) by (auto simp: client_create_def Let_def new_client_def split: if_splits)
  then show ?thesis using assms(2)
  proof (induction xs arbitrary: c rs)
    case (Cons x xs)
    obtain r c1 ts where s: "client_step L x c = Done (r, c1)" "client_run L xs c1 = Done (ts, c')" "rs = (x, r) # ts" using Cons.prems(2) by (auto simp: obind_Done)
    from step_not_authenticated [OF Cons.prems(1) s(1)] Cons.IH [OF _ s(2)] s(3) show ?case by auto
  qed simp
qed

definition example_lib :: client_lib where
  "example_lib = \<lparr>ly_ser = packed_ser, ly_deser = packed_deser, ly_checksum = (\<lambda>_. 7), ly_verify = (\<lambda>h _. h_checksum h = 7), ly_password_hash = (\<lambda>_. Some [1]),
     ly_login_image = (\<lambda>u h. h), ly_log_info = 1\<rparr>"

definition example_link_env :: "byte list option \<Rightarrow> link_env" where
  "example_link_env r = \<lparr>kv_clock = (\<lambda>i. of_nat i), kv_answer = (\<lambda>i. if i = 0 then 64 else 1), kv_recv = r, kv_junk = 0, kv_realloc = True, kv_socket = 5, kv_host = True,
     kv_connect = True, kv_select = True, kv_getsockopt = True, kv_socket_error = False, kv_ssl_new = True, kv_ssl_connect = True, kv_thread = (\<lambda>_. True), kv_joins = True\<rparr>"

text \<open>A client that connects, sends its name and password and then a text.\<close>

theorem client_never_authenticated_witness:
  "\<exists>r1 r2 r3 c'. client_run example_lib [Connect (example_link_env None), Login (example_link_env None) (Some ''u'') (Some ''p''), Send_Text (example_link_env None) True 1 (Some [104])]
     (new_client (client_config_init example_lib) 0) =
       Done ([(Connect (example_link_env None), r1), (Login (example_link_env None) (Some ''u'') (Some ''p''), r2), (Send_Text (example_link_env None) True 1 (Some [104]), r3)], c') \<and>
     cl_state c' \<noteq> CLIENT_STATE_AUTHENTICATED \<and> r3 < 0"
proof -
  let ?e = "example_link_env None" and ?c = "new_client (client_config_init example_lib) 0"
  let ?xs = "[Connect ?e, Login ?e (Some ''u'') (Some ''p''), Send_Text ?e True 1 (Some [104])]"
  have "\<exists>r c1. client_connect ?e (Some ?c) = Done (r, Some c1)"
    by (simp add: client_connect_def new_client_def client_connect_internal_def example_link_env_def client_config_init_def update_client_state_def Let_def)
  then obtain r1 c1 where 1: "client_connect ?e (Some ?c) = Done (r1, Some c1)" by blast
  obtain r2 c2 where 2: "client_login example_lib ?e (Some ''u'') (Some ''p'') (Some c1) = (r2, c2)" by (metis surj_pair)
  obtain r3 i c' where 3: "client_send_text_message example_lib ?e True 1 (Some [104]) (Some (the c2)) = (r3, i, c')" by (metis surj_pair)
  have run: "client_run example_lib ?xs ?c = Done ([(Connect ?e, r1), (Login ?e (Some ''u'') (Some ''p''), r2), (Send_Text ?e True 1 (Some [104]), r3)], the c')"
    using 1 2 3 by simp
  have "client_create example_lib 0 (\<lambda>_. True) None = Some ?c" by (simp add: client_create_def Let_def)
  from client_never_authenticated [OF this run] run show ?thesis by auto
qed

section \<open>Frames\<close>

definition unread :: "client \<Rightarrow> byte list" where
  "unread c = take (cl_used c) (cl_buffer c)"

definition buffer_ok :: "client \<Rightarrow> bool" where
  "buffer_ok c \<longleftrightarrow> cl_used c \<le> length (cl_buffer c)"

definition deliverable :: "client_lib \<Rightarrow> message_header \<times> byte list \<Rightarrow> bool" where
  "deliverable L = (\<lambda>(h, b). length (h_reserved h) = 16 \<and> unat (h_body_length h) = length b \<and> h_magic h = PROTOCOL_MAGIC \<and> ly_verify L h b \<and>
     (h_type h = MSG_SYSTEM_ERROR \<longrightarrow> 788 \<le> length b))"

text \<open>The calls of the application for a message: none for a heartbeat and a notification, the callback of the errors for an error, else the handlers of its type.\<close>

definition calls_for :: "client \<Rightarrow> message_header \<times> byte list \<Rightarrow> client_event list" where
  "calls_for c = (\<lambda>(h, b).
     if h_type h = MSG_SYSTEM_HEARTBEAT \<or> h_type h = 4 then []
     else if h_type h = MSG_SYSTEM_ERROR
     then if cl_error_callback c then [Error_Callback (sint (of_nat (bytes_nat (take 4 b)) :: 32 word)) (take 256 (drop 12 b))] else []
     else map (\<lambda>(t, f, u). Message_Callback f u (h_type h) b) (filter (\<lambda>(t, f, u). t = h_type h) (cl_handlers c)))"

definition same_link :: "client \<Rightarrow> client \<Rightarrow> bool" where
  "same_link c c' \<longleftrightarrow> cl_handlers c' = cl_handlers c \<and> cl_error_callback c' = cl_error_callback c \<and> cl_connection_active c' = cl_connection_active c \<and> cl_sockfd c' = cl_sockfd c"

lemma unread_consume:
  assumes "buffer_ok c" and "n \<le> cl_used c"
  shows "unread (consume n c) = drop n (unread c)" "buffer_ok (consume n c)" "length (cl_buffer (consume n c)) = length (cl_buffer c)"
  using assms by (simp_all add: unread_def buffer_ok_def consume_def drop_take)

lemma unread_simps [simp]:
  "unread (count_received c) = unread c" "buffer_ok (count_received c) = buffer_ok c" "cl_buffer (count_received c) = cl_buffer c"
  "cl_events (count_received c) = cl_events c" "cl_events (consume n c) = cl_events c"
  by (simp_all add: unread_def buffer_ok_def count_received_def consume_def)

lemma same_link_consumed: "same_link c c' \<Longrightarrow> same_link c (count_received (consume n c'))"
  by (simp add: same_link_def count_received_def consume_def)

lemma same_link_calls: "same_link c c' \<Longrightarrow> calls_for c' = calls_for c"
  by (simp add: same_link_def calls_for_def fun_eq_iff)

lemma same_link_trans: "same_link c c1 \<Longrightarrow> same_link c1 c2 \<Longrightarrow> same_link c c2"
  by (simp add: same_link_def)

lemma length_unread: "buffer_ok c \<Longrightarrow> length (unread c) = cl_used c"
  by (simp add: unread_def buffer_ok_def)

text \<open>The structure of an error lies inside a body that is long enough.\<close>

lemma error_in_body:
  assumes "take (length b) (drop n xs) = b" and "788 \<le> length b" and "n + length b \<le> length xs"
  shows "take 4 (take 788 (drop n xs)) = take 4 b" "take 256 (drop 12 (take 788 (drop n xs))) = take 256 (drop 12 b)" "n + 788 \<le> length xs"
proof -
  have "take 788 (drop n xs) = take 788 b" using assms(1,2) by (metis min.absorb1 take_take)
  then show "take 4 (take 788 (drop n xs)) = take 4 b" "take 256 (drop 12 (take 788 (drop n xs))) = take 256 (drop 12 b)" by (simp_all add: drop_take)
  show "n + 788 \<le> length xs" using assms(2,3) by simp
qed

lemma handle_delivers:
  assumes d: "deliverable L (h, b)" and b: "take (length b) (drop sizeof_header (cl_buffer c)) = b" "sizeof_header + length b \<le> length (cl_buffer c)"
  shows "\<exists>c1. handle_message L e h c = Done c1 \<and> cl_events c1 = cl_events c @ calls_for c (h, b) \<and> same_link c c1"
proof (cases "h_type h = MSG_SYSTEM_ERROR")
  case True
  then have "788 \<le> length b" using d by (simp add: deliverable_def)
  from error_in_body [OF b(1) this b(2)] True show ?thesis
    by (simp add: handle_message_def calls_for_def same_link_def Let_def)
next
  case False
  then show ?thesis using d b(1) by (simp add: handle_message_def calls_for_def same_link_def deliverable_def Let_def)
qed

lemma frames_messages:
  assumes codec: "header_codec (ly_ser L) (ly_deser L)" and "\<forall>m \<in> set ms. deliverable L m" and "unread c @ future = concat (map (enc (ly_ser L)) ms)" and "buffer_ok c"
  shows "\<exists>n c'. process_frames L es k c = Done (n, c') \<and> n \<le> length ms \<and> unread c' @ future = concat (map (enc (ly_ser L)) (drop n ms)) \<and> buffer_ok c' \<and>
    length (cl_buffer c') = length (cl_buffer c) \<and> (n < length ms \<longrightarrow> cl_used c' < length (enc (ly_ser L) (ms ! n))) \<and>
    cl_events c' = cl_events c @ concat (map (calls_for c) (take n ms)) \<and> same_link c c'"
  using assms(2-)
proof (induction ms arbitrary: c k)
  case Nil
  then have "cl_used c = 0" using length_unread [of c] by simp
  then show ?case using Nil frames_stop [of c L es k] by (simp add: sizeof_header_def same_link_def)
next
  case (Cons m ms)
  obtain h b where m: "m = (h, b)" by (cases m)
  have d: "deliverable L (h, b)" using Cons.prems(1) m by simp
  then have h: "length (h_reserved h) = 16" "unat (h_body_length h) = length b" "h_magic h = PROTOCOL_MAGIC" "ly_verify L h b" by (simp_all add: deliverable_def)
  note ch = header_codecD [OF codec h(1)]
  have all: "unread c @ future = ly_ser L h @ b @ concat (map (enc (ly_ser L)) ms)" using Cons.prems(2) m by (simp add: enc_def)
  have len: "length (enc (ly_ser L) m) = sizeof_header + length b" using m ch(1) by (simp add: enc_def)
  have split: "cl_buffer c = unread c @ drop (cl_used c) (cl_buffer c)" by (simp add: unread_def)
  show ?case
  proof (cases "cl_used c < sizeof_header + length b")
    case True
    have "process_frames L es k c = Done (0, c)"
    proof (cases "cl_used c < sizeof_header")
      case False
      have "take sizeof_header (unread c) = ly_ser L h"
        using arg_cong [OF all, of "take sizeof_header"] False ch(1) length_unread [OF Cons.prems(3)] by simp
      then have "cl_buffer c = ly_ser L h @ drop sizeof_header (unread c) @ drop (cl_used c) (cl_buffer c)" using split by (metis append.assoc append_take_drop_id)
      then have "ly_deser L (cl_buffer c) = Some h" using ch(2) by metis
      then show ?thesis using True h frames_stop [of c L es k] by auto
    qed (rule frames_stop, simp)
    then show ?thesis using True len Cons.prems by (intro exI [of _ 0] exI [of _ c]) (simp add: same_link_def)
  next
    case False
    have pre: "take (sizeof_header + length b) (unread c) = ly_ser L h @ b"
      using arg_cong [OF all, of "take (sizeof_header + length b)"] False ch(1) length_unread [OF Cons.prems(3)] by simp
    then have buf: "cl_buffer c = ly_ser L h @ b @ drop (sizeof_header + length b) (unread c) @ drop (cl_used c) (cl_buffer c)"
      using split by (metis append.assoc append_take_drop_id)
    have de: "ly_deser L (cl_buffer c) = Some h" using buf ch(2) by metis
    have body: "take (length b) (drop sizeof_header (cl_buffer c)) = b" by (subst buf) (simp add: ch(1))
    have "sizeof_header + length b \<le> length (cl_buffer c)" using False Cons.prems(3) by (simp add: buffer_ok_def)
    from handle_delivers [OF d body this, of "es k"] obtain c0 where c0: "handle_message L (es k) h c = Done c0" "cl_events c0 = cl_events c @ calls_for c (h, b)" "same_link c c0"
      by (elim exE conjE) (rule that)
    note k = handle_keeps [OF c0(1)]
    then have k0: "unread c0 = unread c" "buffer_ok c0" using Cons.prems(3) by (simp_all add: unread_def buffer_ok_def)
    define c1 where "c1 = count_received (consume (sizeof_header + length b) c0)"
    have c1: "unread c1 = drop (sizeof_header + length b) (unread c)" "buffer_ok c1" "length (cl_buffer c1) = length (cl_buffer c)"
      "cl_events c1 = cl_events c @ calls_for c (h, b)" "same_link c c1"
      using unread_consume [OF k0(2), of "sizeof_header + length b"] k k0 c0(2,3) False by (simp_all add: c1_def same_link_consumed)
    have rest: "unread c1 @ future = concat (map (enc (ly_ser L)) ms)"
      using arg_cong [OF all, of "drop (sizeof_header + length b)"] False ch(1) length_unread [OF Cons.prems(3)] c1(1) by simp
    have "\<forall>m \<in> set ms. deliverable L m" using Cons.prems(1) by simp
    from Cons.IH [OF this rest c1(2), of "Suc k"] obtain n c' where IH: "process_frames L es (Suc k) c1 = Done (n, c')" "n \<le> length ms"
      "unread c' @ future = concat (map (enc (ly_ser L)) (drop n ms))" "buffer_ok c'" "length (cl_buffer c') = length (cl_buffer c1)"
      "n < length ms \<longrightarrow> cl_used c' < length (enc (ly_ser L) (ms ! n))" "cl_events c' = cl_events c1 @ concat (map (calls_for c1) (take n ms))" "same_link c1 c'"
      by (elim exE conjE) (rule that)
    have "\<not> cl_used c < sizeof_header" using False by simp
    then have "process_frames L es k c = Done (Suc n, c')"
      using frames_message [OF _ de h(3), of es k] False h(2,4) body c0(1) IH(1) by (simp add: c1_def)
    then show ?thesis using IH(2-8) c1(3,4) m same_link_trans [OF c1(5) IH(8)] same_link_calls [OF c1(5)] by (intro exI [of _ "Suc n"] exI [of _ c']) simp
  qed
qed

lemma grow_buffer_simps:
  assumes "buffer_ok c" and "4096 \<le> length (cl_buffer c)"
  shows "unread (grow_buffer e c) = unread c" "buffer_ok (grow_buffer e c)" "cl_used (grow_buffer e c) = cl_used c" "cl_used c + 4096 \<le> length (cl_buffer (grow_buffer e c))"
    "cl_events (grow_buffer e c) = cl_events c" "same_link c (grow_buffer e c)"
  using assms by (simp_all add: grow_buffer_def unread_def buffer_ok_def same_link_def)

lemma take_in_simps:
  assumes "buffer_ok c" and "cl_used c + length xs \<le> length (cl_buffer c)"
  shows "unread (take_in xs c) = unread c @ xs" "buffer_ok (take_in xs c)" "length (cl_buffer (take_in xs c)) = length (cl_buffer c)"
    "cl_events (take_in xs c) = cl_events c" "same_link c (take_in xs c)"
  using assms by (simp_all add: take_in_def unread_def buffer_ok_def same_link_def)

lemma receive_delivers:
  assumes codec: "header_codec (ly_ser L) (ly_deser L)" and ms: "\<forall>m \<in> set ms. deliverable L m" and all: "(unread c @ xs) @ future = concat (map (enc (ly_ser L)) ms)"
    and ok: "buffer_ok c" "4096 \<le> length (cl_buffer c)" "cl_connection_active c" "cl_sockfd c \<noteq> -1" and e: "kv_realloc e" "kv_recv e = Some xs" "xs \<noteq> []" "length xs \<le> 4096"
  shows "\<exists>n c'. receive_message_internal L e es c = Done (int n, c') \<and> n \<le> length ms \<and> unread c' @ future = concat (map (enc (ly_ser L)) (drop n ms)) \<and> buffer_ok c' \<and>
    4096 \<le> length (cl_buffer c') \<and> (n < length ms \<longrightarrow> cl_used c' < length (enc (ly_ser L) (ms ! n))) \<and>
    cl_events c' = cl_events c @ concat (map (calls_for c) (take n ms)) \<and> same_link c c'"
proof -
  define c1 where "c1 = grow_buffer e c"
  note g = grow_buffer_simps [OF ok(1,2), of e, folded c1_def]
  have room: "cl_used c1 + length xs \<le> length (cl_buffer c1)" using g(3,4) e(4) by simp
  note t = take_in_simps [OF g(2) room]
  have "unread (take_in xs c1) @ future = concat (map (enc (ly_ser L)) ms)" using all t(1) g(1) by simp
  from frames_messages [OF codec ms this t(2), of es 0] obtain n c' where f: "process_frames L es 0 (take_in xs c1) = Done (n, c')" "n \<le> length ms"
    "unread c' @ future = concat (map (enc (ly_ser L)) (drop n ms))" "buffer_ok c'" "length (cl_buffer c') = length (cl_buffer (take_in xs c1))"
    "n < length ms \<longrightarrow> cl_used c' < length (enc (ly_ser L) (ms ! n))"
    "cl_events c' = cl_events (take_in xs c1) @ concat (map (calls_for (take_in xs c1)) (take n ms))" "same_link (take_in xs c1) c'" by (elim exE conjE) (rule that)
  have "cl_used c1 < length (cl_buffer c1)" using room e(3) by (cases xs) auto
  then have "receive_message_internal L e es c = Done (int n, c')"
    using ok(1,3,4) g(3,4) e room f(1) by (simp add: receive_message_internal_def process_received_data_def Let_def c1_def [symmetric])
  moreover have "4096 \<le> length (cl_buffer c')" using f(5) t(3) g(4) by simp
  moreover have same: "same_link c (take_in xs c1)" by (rule same_link_trans [OF g(6) t(5)])
  ultimately show ?thesis using f(2-7) t(4) g(5) same_link_calls [OF same] same_link_trans [OF same f(8)] by (intro exI [of _ n] exI [of _ c']) simp
qed

fun client_feed :: "client_lib \<Rightarrow> (link_env \<times> (nat \<Rightarrow> link_env)) list \<Rightarrow> client \<Rightarrow> (int list \<times> client) outcome" where
  "client_feed L [] c = Done ([], c)"
| "client_feed L ((e, es) # ps) c = obind (receive_message_internal L e es c) (\<lambda>(r, c1). obind (client_feed L ps c1) (\<lambda>(rs, c2). Done (r # rs, c2)))"

definition arrives :: "link_env \<Rightarrow> bool" where
  "arrives e \<longleftrightarrow> kv_realloc e \<and> (\<exists>p. kv_recv e = Some p \<and> p \<noteq> [] \<and> length p \<le> 4096)"

definition stream_of :: "(link_env \<times> (nat \<Rightarrow> link_env)) list \<Rightarrow> byte list" where
  "stream_of ps = concat (map (\<lambda>(e, _). the (kv_recv e)) ps)"

lemma feed_delivers:
  assumes codec: "header_codec (ly_ser L) (ly_deser L)" and "\<forall>m \<in> set ms. deliverable L m" and "\<forall>(e, es) \<in> set ps. arrives e"
    and "unread c @ stream_of ps = concat (map (enc (ly_ser L)) ms)" and "ps = [] \<longrightarrow> ms = []"
    and "buffer_ok c" and "4096 \<le> length (cl_buffer c)" and "cl_connection_active c" and "cl_sockfd c \<noteq> -1"
  shows "\<exists>ns c'. client_feed L ps c = Done (map int ns, c') \<and> sum_list ns = length ms \<and> unread c' = [] \<and>
    cl_events c' = cl_events c @ concat (map (calls_for c) ms)"
  using assms(2-)
proof (induction ps arbitrary: c ms)
  case Nil
  then show ?case by (simp add: stream_of_def)
next
  case (Cons y ps)
  obtain e es where y: "y = (e, es)" by (cases y)
  then obtain p where p: "kv_realloc e" "kv_recv e = Some p" "p \<noteq> []" "length p \<le> 4096" using Cons.prems(2) by (auto simp: arrives_def)
  have all: "(unread c @ p) @ stream_of ps = concat (map (enc (ly_ser L)) ms)" using Cons.prems(3) y p(2) by (simp add: stream_of_def)
  obtain n c1 where r: "receive_message_internal L e es c = Done (int n, c1)" "n \<le> length ms" "unread c1 @ stream_of ps = concat (map (enc (ly_ser L)) (drop n ms))" "buffer_ok c1"
    "4096 \<le> length (cl_buffer c1)" "n < length ms \<longrightarrow> cl_used c1 < length (enc (ly_ser L) (ms ! n))"
    "cl_events c1 = cl_events c @ concat (map (calls_for c) (take n ms))" "same_link c c1"
    using receive_delivers [OF codec Cons.prems(1) all Cons.prems(5-8) p, of es] by (elim exE conjE) (rule that)
  have last: "ps = [] \<longrightarrow> drop n ms = []"
  proof (intro impI, rule ccontr)
    assume e: "ps = []" "drop n ms \<noteq> []"
    then have n: "n < length ms" by simp
    have "unread c1 = enc (ly_ser L) (ms ! n) @ concat (map (enc (ly_ser L)) (drop (Suc n) ms))"
      using r(3) e(1) Cons_nth_drop_Suc [OF n, symmetric] by (simp add: stream_of_def)
    with r(6) n length_unread [OF r(4)] show False by simp
  qed
  have "\<forall>m \<in> set (drop n ms). deliverable L m" "\<forall>(e, es) \<in> set ps. arrives e" "cl_connection_active c1" "cl_sockfd c1 \<noteq> -1"
    using Cons.prems(1,2,7,8) r(8) by (auto dest: in_set_dropD simp: same_link_def)
  from Cons.IH [OF this(1,2) r(3) last r(4,5) this(3,4)] obtain ns c' where IH: "client_feed L ps c1 = Done (map int ns, c')" "sum_list ns = length (drop n ms)" "unread c' = []"
    "cl_events c' = cl_events c1 @ concat (map (calls_for c1) (drop n ms))" by (elim exE conjE) (rule that)
  have "concat (map (calls_for c) ms) = concat (map (calls_for c) (take n ms)) @ concat (map (calls_for c) (drop n ms))"
    by (metis append_take_drop_id concat_append map_append)
  then show ?case using IH r(1,2,7) same_link_calls [OF r(8)] y by (intro exI [of _ "n # ns"] exI [of _ c']) simp
qed

text \<open>(C26) Messages from the server reach the application. Take a connected client whose receive buffer is empty, and a stream of messages with the magic number, a
  body of the announced length and a checksum that is right; an error message has at least the 788 bytes of \<open>error_info_t\<close>. The codec of the header is
  that of the protocol. However the stream is cut into pieces of 1 to 4096 bytes, while every \<open>realloc\<close> of the buffer succeeds: the calls of
  \<open>receive_message_internal\<close> return the numbers of messages they have processed, which add up to all of them, and the application gets, in the order of the
  messages and once for each, the calls of the handlers registered for the type with the body itself (the callback for errors for an error, nothing for a
  heartbeat or a notification).\<close>

theorem client_delivers_in_order:
  assumes "header_codec (ly_ser L) (ly_deser L)" and "\<forall>m \<in> set ms. deliverable L m" and "\<forall>(e, es) \<in> set ps. arrives e" and "stream_of ps = concat (map (enc (ly_ser L)) ms)"
    and "cl_used c = 0" and "4096 \<le> length (cl_buffer c)" and "cl_connection_active c" and "cl_sockfd c \<noteq> -1"
  shows "\<exists>ns c'. client_feed L ps c = Done (map int ns, c') \<and> sum_list ns = length ms \<and> cl_events c' = cl_events c @ concat (map (calls_for c) ms)"
proof -
  have "ms = []" if "ps = []"
  proof (rule ccontr)
    assume "ms \<noteq> []"
    then obtain m ms' where m: "ms = m # ms'" by (cases ms) auto
    then have "enc (ly_ser L) m = []" using assms(4) that by (simp add: stream_of_def)
    moreover have "length (h_reserved (fst m)) = 16" using assms(2) m by (auto simp: deliverable_def)
    ultimately show False using header_codecD(1) [OF assms(1), of "fst m"] by (auto simp: enc_def sizeof_header_def split: prod.splits)
  qed
  moreover have "buffer_ok c" "unread c = []" using assms(5) by (simp_all add: buffer_ok_def unread_def)
  ultimately show ?thesis using feed_delivers [OF assms(1-3), of c] assms(4,6-8) by auto
qed

definition example_client :: client where
  "example_client = (new_client (client_config_init example_lib) 0)\<lparr>cl_connection_active := True, cl_sockfd := 5, cl_handlers := [(0x02000001, 1, 9)]\<rparr>"

definition example_stream :: "byte list" where
  "example_stream = concat (map (enc packed_ser) [demo_message, demo_message])"

lemma example_stream: "length example_stream = 132" "\<forall>m \<in> set [demo_message, demo_message]. deliverable example_lib m"
  using header_codecD(1) [OF packed_codec make_header_reserved, of "\<lambda>_. 7" 10 1 "0x02000001" "[1, 2]"]
  by (simp_all add: example_stream_def demo_message_def enc_def sizeof_header_def deliverable_def example_lib_def make_header_def)

text \<open>Two messages, cut inside the body of the first: 65 bytes and the rest.\<close>

theorem client_delivers_in_order_witness:
  "\<exists>ns c'. client_feed example_lib [(example_link_env (Some (take 65 example_stream)), \<lambda>_. example_link_env None), (example_link_env (Some (drop 65 example_stream)), \<lambda>_. example_link_env None)]
      example_client = Done (map int ns, c') \<and> sum_list ns = 2 \<and>
     cl_events c' = [Message_Callback 1 9 0x02000001 [1, 2], Message_Callback 1 9 0x02000001 [1, 2]]"
proof -
  let ?ps = "[(example_link_env (Some (take 65 example_stream)), \<lambda>_ :: nat. example_link_env None), (example_link_env (Some (drop 65 example_stream)), \<lambda>_. example_link_env None)]"
  have "header_codec (ly_ser example_lib) (ly_deser example_lib)" using packed_codec by (simp add: example_lib_def)
  moreover have "\<forall>(e, es) \<in> set ?ps. arrives e" using example_stream(1) by (auto simp: arrives_def example_link_env_def)
  moreover have "stream_of ?ps = concat (map (enc (ly_ser example_lib)) [demo_message, demo_message])"
    unfolding example_lib_def client_lib.simps example_stream_def [symmetric] by (simp add: stream_of_def example_link_env_def)
  ultimately have "\<exists>ns c'. client_feed example_lib ?ps example_client = Done (map int ns, c') \<and> sum_list ns = length [demo_message, demo_message] \<and>
      cl_events c' = cl_events example_client @ concat (map (calls_for example_client) [demo_message, demo_message])"
    using example_stream(2) by (intro client_delivers_in_order) (simp_all add: example_client_def new_client_def BUFFER_SIZE_def)
  moreover have "cl_events example_client @ concat (map (calls_for example_client) [demo_message, demo_message]) =
      [Message_Callback 1 9 0x02000001 [1, 2], Message_Callback 1 9 0x02000001 [1, 2]]"
    by (simp add: example_client_def new_client_def calls_for_def demo_message_def make_header_def)
  ultimately show ?thesis by (simp add: numeral_2_eq_2 del: client_feed.simps)
qed

section \<open>Reconnecting\<close>

text \<open>A connection that was lost is neither closed nor freed before the next one: the descriptor that the client had stays open and is forgotten.\<close>

theorem reconnect_leaks:
  assumes "cl_sockfd c \<in> set (cl_fds c)" and "cl_reconnect_count c < word_of_int (cf_reconnect_attempts (cl_config c))" and "cl_threads_running c"
    and "client_connect_internal e c = (0, c1)" and "kv_thread e 0" and "kv_socket e \<noteq> cl_sockfd c"
  shows "cl_sockfd (snd (reconnect_turn e c)) = kv_socket e \<and> cl_sockfd c \<in> set (cl_fds (snd (reconnect_turn e c)))"
proof -
  have "cl_sockfd c1 = kv_socket e" "cl_fds c1 = kv_socket e # cl_fds c"
    using assms(4) by (auto simp: client_connect_internal_def Let_def close_socket_def split: if_splits)
  then show ?thesis using assms by (simp add: reconnect_turn_def reconnect_over_def update_client_state_def Let_def)
qed

end
