(* ===== verification/Spec2Isabelle.thy ===== *)
theory Spec2Isabelle
  imports Ring_Buffer Hash_Table Linked_List Codec Paths Config_Store Message_Queue Connection_Pool Thread_Pool WebSocket_Server Auth Transfer_Manager Message_Dispatch Server_Loop Db_Schema Monitor_Manager Ws_Transfer Mem_Track Client_Core
begin

text \<open>
  \<^bold>\<open>The chat server, verified component by component\<close>

  The repository holds a chat server in C (\<open>server/\<close>), a client (\<open>client/\<close>), shared headers (\<open>common/\<close>) and a web front end.
  The server is built from a toolbox (\<open>utils.c\<close>: containers, strings, codecs, configuration), a connection layer
  (\<open>connection.c\<close>: framing, rate limiting, queues, the connection pool), a thread pool (\<open>threadpool.c\<close>) that runs the
  work, a WebSocket server (\<open>websocket_server.c\<close>) for browsers, and accounts and sessions over SQLite (\<open>auth.c\<close>),
  message dispatch (\<open>message_handler.c\<close>) and file transfer (\<open>file_transfer.c\<close>). The client (\<open>client/core.c\<close>) speaks the framed protocol of the connection layer.
  Each theory models one of these, in the order of the code, and proves what makes it correct, or where it is not.

  \<^bold>\<open>Theories\<close>

  \<^item> \<open>Chat_Prelude\<close>: words, memory reads, circular indices, linear search, outcomes of code under a mutex.
  \<^item> \<open>Fifo\<close>: the locale of a bounded first-in first-out queue with its client lemmas; interpreted by \<open>Message_Queue\<close>
    and \<open>Ring_Buffer\<close>.
  \<^item> \<open>Ring_Buffer\<close> (\<open>utils.c\<close>, \<open>ring_buffer_*\<close>): the circular byte buffer with its chunked copy loops refines a bounded
    queue; in overwriting mode it keeps the latest bytes.
  \<^item> \<open>String_Map\<close>, \<open>Hash_Table\<close> (\<open>hash_table_*\<close>, the three hash functions): the locale of a map and the chained table that
    implements it under allocation failures; every value is freed exactly once.
  \<^item> \<open>Mem_Track\<close> (\<open>utils_malloc\<close>, \<open>utils_calloc\<close>, \<open>utils_realloc\<close>, \<open>utils_free\<close>, the leak check): the tracking allocator itself, with \<open>pthread_once\<close>, its mutex and the table
    of blocks, which calls back into the allocator; it deadlocks or never gets a table. All other theories take the outcome of an allocation (a block or NULL)
    as an argument, so they speak of the code over an allocator that returns.
  \<^item> \<open>Linked_List\<close> (\<open>list_*\<close>): a doubly linked list over an explicit heap refines a sequence.
  \<^item> \<open>C_Lib\<close>, \<open>Dyn_String\<close>, \<open>Str_Utils\<close>, \<open>Codec\<close>, \<open>Paths\<close>: the C library functions used, the growing string, splitting and
    replacing, JSON, URL and hexadecimal codecs with their round trips, path helpers.
  \<^item> \<open>Config_Store\<close> (\<open>config_*\<close> of \<open>utils.c\<close>): sections of hash tables; saving and loading are inverse for the texts that the format can carry.
  \<^item> \<open>Message_Queue\<close> (\<open>message_queue_*\<close>): the blocking queue; waiting is modelled by the states seen at wake-ups.
  \<^item> \<open>Connection\<close>, \<open>Connection_Life\<close>, \<open>Connection_Pool\<close> (\<open>connection.c\<close>): rate limiting of the bytes that reach the wire, sending with partial writes, framing
    independent of how the stream is cut, with the answers to heartbeats, resources on every failure path, the pool and its mutex.
  \<^item> \<open>Thread_Pool\<close> (\<open>threadpool.c\<close>): tasks over an explicit heap, priorities, workers, scaling, waiting, destruction.
  \<^item> \<open>WebSocket_Frames\<close>, \<open>WebSocket_Server\<close> (\<open>websocket_server.c\<close>): frames and their reassembly, for both orders in which compilers allocate bit fields; the client table, the
    three threads cut into turns at the points where they do not hold the mutex, and the exported operations, stopping and starting again included.
  \<^item> \<open>Sql_Table\<close>, \<open>Auth_Checks\<close>, \<open>Auth\<close> (\<open>auth.c\<close>): tables with unique columns as a locale; validation, tokens, login with
    lockout and rate limiting, registration, sessions.
  \<^item> \<open>File_Transfer\<close>, \<open>Transfer_Manager\<close> (\<open>file_transfer.c\<close>): chunks of a transfer in any order, checksums, completion; sessions in a
    hash table and two lists that share their links, the manager thread cut into turns.
  \<^item> \<open>Registry\<close>, \<open>Message_Handler\<close>, \<open>Message_Dispatch\<close> (\<open>message_handler.c\<close>): the locale of a table whose first registration wins, the handlers,
    and what reaches them; group membership as a relation.
  \<^item> \<open>Server_Config\<close>, \<open>Server_State\<close>, \<open>Server_Life\<close>, \<open>Server_Loop\<close> (\<open>server_core.c\<close>): the configuration and its validation; the instance with the pool of
    \<open>Connection_Pool\<close>, statistics, waiting, sending and broadcasting; initialisation, start, stop, destruction, backup and restore with a ledger of the
    resources acquired and released; the turns of the accept, cleanup and maintenance threads over a locale of what they need of the pool. The sources call functions
    of the pool that they do not define; these are arguments without assumptions in the property on the counters. Int constants are computed as C defines them, so
    that the limit of 30 days in the maintenance is undefined behaviour.
  \<^item> \<open>Db_Pool\<close>, \<open>Db_Query\<close>, \<open>Db_Batch\<close>, \<open>Db_Schema\<close> (\<open>database.c\<close>): the pool of SQLite connections with the locale of a lender that its users rely on;
    queries, their statements and result sets, statistics and the error log; transactions and batches over an engine that is a parameter, with the documented
    behaviour of \<open>BEGIN\<close>, \<open>COMMIT\<close>, \<open>ROLLBACK\<close> and of a class of row statements as hypotheses; schema and migrations.
  \<^item> \<open>Monitor_Metrics\<close>, \<open>Monitor_Alerts\<close>, \<open>Monitor_Manager\<close> (\<open>monitoring.c\<close>): the histories of the metrics, with doubles as rationals under any rounding; the
    store of alerts, thresholds and messages to the browsers; the life of a manager and the turns of its two threads.
  \<^item> \<open>Ws_Transfer\<close> (\<open>websocket_file_transfer.c\<close>): the table of transfers over a heap of contexts; files are named by their resolved paths, without links, and
    written bytes can be lost until \<open>fclose\<close> has flushed them; an upload among others stores exactly its file, and what a
    client can do with a finished download. \<open>C_Format\<close>: doubles and printed numbers.
  \<^item> \<open>Client_Core\<close> (\<open>client/core.c\<close>): the state machine of the client, connecting and reconnecting, its threads cut into turns, sending, the loop that cuts the received
    bytes into messages and hands them to the handlers.

  \<^bold>\<open>Conventions\<close>

  A pointer that the code compares with NULL is an option. Outcomes of the allocator, of system calls, of the
  clock, of OpenSSL and of SQLite are arguments, so every theorem holds for all of them or names the ones it needs.
  An outer \<open>None\<close> or \<open>Undefined_Behaviour\<close> is an access outside an object or a use of freed memory; \<open>Deadlock\<close> is a default mutex
  locked twice by one thread. Memory and descriptors that are released are recorded in lists, so that leaks
  and double frees are visible. Machine integers are words where they can wrap. Loops are recursions with a
  termination proof; a wait that depends on other threads takes the list of states it observes. Fuel is used
  only where links can be circular, with one unit for each address ever allocated, so that running out means that the loop does not end. Code outside the sources, such as PBKDF2 or the wire format of
  \<open>protocol.c\<close>, which is not in the repository, is a function argument with its documented behaviour as a
  hypothesis and a concrete instance in the witness.

  \<^bold>\<open>What the theorems show\<close>

  Refinements: ring buffer, hash table, linked list, message queue and the task queues implement their abstract
  types over any session of calls. Round trips: messages and their delivery to the application of the client, WebSocket frames, uploaded files, JSON, URL, configuration files. Invariants and
  safety: the connection pool, the configuration, the WebSocket client table, accounts and sessions stay well formed under every failure;
  resources are released once, those of a whole server over its life too; tokens need the password; a database connection has one user at a time and a batch is
  all or nothing; histories and alerts stay ordered and bounded. Liveness and termination: blocked queue operations return when their
  condition is seen. Errors: the theorems named in the findings prove, for all inputs of the stated form, the deadlocks,
  overflows and dead states that the code has.

  \<^bold>\<open>Not modelled\<close>

  The adapter \<open>file_transfer_websocket.c\<close>, which calls functions that the sources do not define, the typed configuration of \<open>config.c\<close>, the MySQL layer (\<open>database1.c\<close>), the backup of \<open>database.c\<close> (which does not compile) and the command line of the client (\<open>client/main.c\<close>, \<open>client/config_utils.c\<close>) are not modelled.
  The printf wrappers, file and system information functions and the logger of \<open>utils.c\<close> are input and output only. Examples, tests,
  the browser code, generated and empty files are outside the development. Data races between threads
  that do not synchronise are reported in the findings but not modelled: each operation runs atomically between its lock
  points.
\<close>

end
